(* ===== verification/Prelude.thy ===== *)
theory Prelude
  imports Main "HOL-Library.List_Lexorder" "HOL-Library.Char_ord" "HOL-Library.AList"
begin

text \<open>
  The fragment of Go and of its standard library that the components share, and the generic
  lemmas about it.

  \<^item> Instants (time.Time) are integers, nanoseconds since the Unix epoch; durations are integers too.
    time.Time.Sub saturates at the limits of a 64-bit duration, which \<open>time_sub\<close> writes out.
  \<^item> Go strings are byte strings, as \<^typ>\<open>string\<close> is; \<open>trim_space\<close> is strings.TrimSpace with the UTF-8
    encodings of every Unicode white space character, \<open>to_upper\<close> and \<open>to_lower\<close> map the ASCII letters.
  \<^item> Go maps are association lists with distinct keys (\<open>map_of\<close>, \<open>AList.update\<close>, \<open>AList.delete\<close> of the
    library), so that every definition stays executable; the order of the list stands for the
    unspecified iteration order of the Go map.
  \<^item> Errors are values of \<open>app_error\<close> (platform/apperror), fallible operations return a sum.
\<close>

named_theorems go_simps \<open>unfolding rules of the Go library fragment\<close>

section \<open>Integers and instants\<close>

type_synonym time = int
type_synonym duration = int

definition max_int64 :: int where "max_int64 = 9223372036854775807"
definition min_int64 :: int where "min_int64 = - 9223372036854775808"

definition wrap64 :: "int \<Rightarrow> int" where
  "wrap64 x = (x + 9223372036854775808) mod 18446744073709551616 - 9223372036854775808"

definition nanosecond :: duration where "nanosecond = 1"
definition second :: duration where "second = 1000000000"
definition minute :: duration where "minute = 60000000000"

text \<open>The zero value of time.Time, the first instant of year 1.\<close>
definition zero_time :: time where "zero_time = - 62135596800000000000"

definition time_sub :: "time \<Rightarrow> time \<Rightarrow> duration" where
  "time_sub a b = max min_int64 (min max_int64 (a - b))"

lemma wrap64_id [simp]: "min_int64 \<le> x \<Longrightarrow> x \<le> max_int64 \<Longrightarrow> wrap64 x = x"
  by (simp add: wrap64_def min_int64_def max_int64_def)

lemma wrap64_range: "min_int64 \<le> wrap64 x \<and> wrap64 x \<le> max_int64"
  by (simp add: wrap64_def min_int64_def max_int64_def)

text \<open>Comparing a saturating difference with a duration is comparing the exact one.\<close>

lemma time_sub_less_iff:
  assumes "min_int64 < w" "w \<le> max_int64"
  shows "time_sub a b < w \<longleftrightarrow> a - b < w"
  using assms by (auto simp: time_sub_def min_def max_def)

lemma time_sub_le_iff:
  assumes "min_int64 \<le> w" "w < max_int64"
  shows "time_sub a b \<le> w \<longleftrightarrow> a - b \<le> w"
  using assms by (auto simp: time_sub_def min_def max_def)

lemma time_sub_nonneg_iff [simp]: "0 \<le> time_sub a b \<longleftrightarrow> b \<le> a"
  by (auto simp: time_sub_def min_def max_def min_int64_def max_int64_def)

section \<open>Errors\<close>

text \<open>
  apperror.Error: the HTTP status, the stable code, the message, the details (only the reason entry is
  ever set by the modelled code) and the retry delay.
\<close>

record app_error =
  http_status :: int
  err_code :: string
  err_message :: string
  err_details :: "(string \<times> string) list"
  retry_after :: duration

definition new_error :: "int \<Rightarrow> string \<Rightarrow> string \<Rightarrow> app_error" where
  "new_error status c m = \<lparr>http_status = status, err_code = c, err_message = m, err_details = [], retry_after = 0\<rparr>"

definition invalid_field :: "string \<Rightarrow> app_error" where
  "invalid_field reason =
     (new_error 422 ''validation_failed'' ''Request validation failed'')\<lparr>err_details := [(''reason'', reason)]\<rparr>"

definition invalid :: "string \<Rightarrow> app_error" where
  "invalid m = new_error 422 ''validation_failed'' m"

definition conflicting :: "string \<Rightarrow> string \<Rightarrow> app_error" where
  "conflicting c m = new_error 409 c m"

definition permission_denied :: app_error where
  "permission_denied = new_error 403 ''permission_denied'' ''Permission denied''"

definition not_found :: app_error where
  "not_found = new_error 404 ''not_found'' ''Resource not found''"

definition stale_write :: app_error where
  "stale_write = new_error 409 ''stale_write'' ''The resource changed; reload it and try again''"

section \<open>Association lists as Go maps\<close>

text \<open>\<open>m[k]\<close> of a Go map with a list value: the zero value of a missing key is the empty list.\<close>

definition list_at :: "('k \<times> 'v list) list \<Rightarrow> 'k \<Rightarrow> 'v list" where
  "list_at m k = (case map_of m k of None \<Rightarrow> [] | Some xs \<Rightarrow> xs)"

lemma list_at_update: "list_at (AList.update k v m) k' = (if k' = k then v else list_at m k')"
  by (simp add: list_at_def AList.update_conv')

lemma list_at_delete: "list_at (AList.delete k m) k' = (if k' = k then [] else list_at m k')"
  by (simp add: list_at_def AList.delete_conv')

lemma map_of_update_same [simp]: "map_of (AList.update k v m) k = Some v"
  by (simp add: AList.update_conv')

lemma map_of_update_other [simp]: "k' \<noteq> k \<Longrightarrow> map_of (AList.update k v m) k' = map_of m k'"
  by (simp add: AList.update_conv')

lemma map_of_delete_same [simp]: "map_of (AList.delete k m) k = None"
  by (simp add: AList.delete_conv')

lemma map_of_delete_other [simp]: "k' \<noteq> k \<Longrightarrow> map_of (AList.delete k m) k' = map_of m k'"
  by (simp add: AList.delete_conv')

lemma keys_update: "set (map fst (AList.update k v m)) = insert k (set (map fst m))"
  by (induction m) auto

lemma keys_delete: "set (map fst (AList.delete k m)) = set (map fst m) - {k}"
  by (induction m) auto

lemma length_update_new:
  "k \<notin> set (map fst m) \<Longrightarrow> length (AList.update k v m) = Suc (length m)"
  by (induction m) auto

lemma length_update_old:
  "k \<in> set (map fst m) \<Longrightarrow> length (AList.update k v m) = length m"
proof (induction m)
  case Nil
  then show ?case by simp
next
  case (Cons a m)
  then show ?case by (cases a) (auto simp: length_update_new)
qed

lemma length_update_le: "length (AList.update k v m) \<le> Suc (length m)"
  using length_update_new [of k m v] length_update_old [of k m v] by (cases "k \<in> set (map fst m)") auto

lemma length_delete_le: "length (AList.delete k m) \<le> length m"
  by (rule AList.length_delete_le)

lemma length_delete_less: "k \<in> set (map fst m) \<Longrightarrow> length (AList.delete k m) < length m"
proof (induction m)
  case Nil
  then show ?case by simp
next
  case (Cons a m)
  then show ?case using length_delete_le [of k m] by (cases a) auto
qed

lemma set_update_subset: "set (AList.update k v m) \<subseteq> insert (k, v) (set m)"
  by (induction m) auto

lemma set_delete_subset: "set (AList.delete k m) \<subseteq> set m"
  by (auto simp: AList.delete_eq)

section \<open>Strings\<close>

subsection \<open>Prefixes, suffixes and white space\<close>

definition has_prefix :: "string \<Rightarrow> string \<Rightarrow> bool" where
  "has_prefix s p = (take (length p) s = p)"

definition has_suffix :: "string \<Rightarrow> string \<Rightarrow> bool" where
  "has_suffix s p = has_prefix (rev s) (rev p)"

text \<open>
  The encodings of the characters of unicode.IsSpace: tab, newline, vertical tab, form feed, carriage
  return, space, U+0085, U+00A0, U+1680, U+2000 to U+200A, U+2028, U+2029, U+202F, U+205F and U+3000.
\<close>

definition space_sequences :: "string list" where
  "space_sequences =
     [[CHR 0x09], [CHR 0x0A], [CHR 0x0B], [CHR 0x0C], [CHR 0x0D], [CHR 0x20], [CHR 0xC2, CHR 0x85],
      [CHR 0xC2, CHR 0xA0], [CHR 0xE1, CHR 0x9A, CHR 0x80], [CHR 0xE2, CHR 0x80, CHR 0x80],
      [CHR 0xE2, CHR 0x80, CHR 0x81], [CHR 0xE2, CHR 0x80, CHR 0x82], [CHR 0xE2, CHR 0x80, CHR 0x83],
      [CHR 0xE2, CHR 0x80, CHR 0x84], [CHR 0xE2, CHR 0x80, CHR 0x85], [CHR 0xE2, CHR 0x80, CHR 0x86],
      [CHR 0xE2, CHR 0x80, CHR 0x87], [CHR 0xE2, CHR 0x80, CHR 0x88], [CHR 0xE2, CHR 0x80, CHR 0x89],
      [CHR 0xE2, CHR 0x80, CHR 0x8A], [CHR 0xE2, CHR 0x80, CHR 0xA8], [CHR 0xE2, CHR 0x80, CHR 0xA9],
      [CHR 0xE2, CHR 0x80, CHR 0xAF], [CHR 0xE2, CHR 0x81, CHR 0x9F], [CHR 0xE3, CHR 0x80, CHR 0x80]]"

lemma space_sequences_nonempty: "p \<in> set space_sequences \<Longrightarrow> 0 < length p"
  by (auto simp: space_sequences_def)

text \<open>Strips every leading occurrence of one of the given (non-empty) sequences.\<close>

function strip_leading :: "string list \<Rightarrow> string \<Rightarrow> string" where
  "strip_leading ps s =
     (case find (\<lambda>p. 0 < length p \<and> 0 < length s \<and> has_prefix s p) ps of
        None \<Rightarrow> s
      | Some p \<Rightarrow> strip_leading ps (drop (length p) s))"
  by pat_completeness auto
termination
proof (relation "measure (\<lambda>(ps, s). length s)", goal_cases)
  case 1
  show ?case by simp
next
  case (2 ps s p)
  then have "0 < length p" "0 < length s"
    by (auto simp: find_Some_iff)
  then show ?case by simp
qed

declare strip_leading.simps [simp del]

definition trim_left :: "string \<Rightarrow> string" where
  "trim_left s = strip_leading space_sequences s"

definition trim_right :: "string \<Rightarrow> string" where
  "trim_right s = rev (strip_leading (map rev space_sequences) (rev s))"

definition trim_space :: "string \<Rightarrow> string" where
  "trim_space s = trim_right (trim_left s)"

lemma strip_leading_Nil [simp]: "strip_leading ps [] = []"
proof -
  have "find (\<lambda>p. 0 < length p \<and> 0 < length ([]::string) \<and> has_prefix [] p) ps = None"
    by (simp add: find_None_iff)
  then show ?thesis by (simp add: strip_leading.simps)
qed

lemma trim_space_Nil [simp]: "trim_space [] = []"
  by (simp add: trim_space_def trim_left_def trim_right_def)

subsection \<open>Letter case\<close>

definition upper_char :: "char \<Rightarrow> char" where
  "upper_char c = (let n = of_char c :: nat in if 97 \<le> n \<and> n \<le> 122 then char_of (n - 32) else c)"

definition lower_char :: "char \<Rightarrow> char" where
  "lower_char c = (let n = of_char c :: nat in if 65 \<le> n \<and> n \<le> 90 then char_of (n + 32) else c)"

definition to_upper :: "string \<Rightarrow> string" where "to_upper s = map upper_char s"
definition to_lower :: "string \<Rightarrow> string" where "to_lower s = map lower_char s"
definition equal_fold :: "string \<Rightarrow> string \<Rightarrow> bool" where "equal_fold a b = (to_lower a = to_lower b)"

lemma equal_fold_refl [simp]: "equal_fold s s"
  by (simp add: equal_fold_def)

lemma equal_fold_sym: "equal_fold a b \<Longrightarrow> equal_fold b a"
  by (simp add: equal_fold_def)

lemma equal_fold_trans: "equal_fold a b \<Longrightarrow> equal_fold b c \<Longrightarrow> equal_fold a c"
  by (simp add: equal_fold_def)

subsection \<open>Runes\<close>

text \<open>
  The number of bytes of the first rune of a non-empty string and the number of runes, as a range loop and
  \<open>len([]rune(s))\<close> see them: a byte that starts no valid encoding is a rune of its own.
\<close>

definition byte_in :: "nat \<Rightarrow> nat \<Rightarrow> char \<Rightarrow> bool" where
  "byte_in lo hi c = (lo \<le> of_char c \<and> of_char c \<le> hi)"

definition rune_size :: "string \<Rightarrow> nat" where
  "rune_size s =
     (case s of [] \<Rightarrow> 0 | c # cs \<Rightarrow>
        let b = (of_char c :: nat) in
        if 0xC2 \<le> b \<and> b \<le> 0xDF then
          (case cs of c1 # _ \<Rightarrow> if byte_in 0x80 0xBF c1 then 2 else 1 | _ \<Rightarrow> 1)
        else if 0xE0 \<le> b \<and> b \<le> 0xEF then
          (case cs of
             c1 # c2 # _ \<Rightarrow>
               if byte_in (if b = 0xE0 then 0xA0 else 0x80) (if b = 0xED then 0x9F else 0xBF) c1 \<and>
                  byte_in 0x80 0xBF c2 then 3 else 1
           | _ \<Rightarrow> 1)
        else if 0xF0 \<le> b \<and> b \<le> 0xF4 then
          (case cs of
             c1 # c2 # c3 # _ \<Rightarrow>
               if byte_in (if b = 0xF0 then 0x90 else 0x80) (if b = 0xF4 then 0x8F else 0xBF) c1 \<and>
                  byte_in 0x80 0xBF c2 \<and> byte_in 0x80 0xBF c3 then 4 else 1
           | _ \<Rightarrow> 1)
        else 1)"

function rune_count :: "string \<Rightarrow> nat" where
  "rune_count [] = 0"
| "rune_count (c # cs) = Suc (rune_count (drop (rune_size (c # cs) - 1) cs))"
  by pat_completeness auto
termination by (relation "measure length") (simp_all add: less_Suc_eq_le)

lemma rune_count_le: "rune_count s \<le> length s"
proof (induction s rule: rune_count.induct)
  case (2 c cs)
  then show ?case by (simp add: le_diff_conv)
qed simp

lemma rune_count_pos: "s \<noteq> [] \<Longrightarrow> 0 < rune_count s"
  by (cases s) simp_all

section \<open>Slices\<close>

text \<open>\<open>xs[i]\<close> of a Go slice: an index out of range panics, which is \<open>None\<close>.\<close>

definition go_index :: "'a list \<Rightarrow> int \<Rightarrow> 'a option" where
  "go_index xs i = (if 0 \<le> i \<and> i < int (length xs) then Some (xs ! nat i) else None)"

lemma go_index_nth [simp]: "i < length xs \<Longrightarrow> go_index xs (int i) = Some (xs ! i)"
  by (simp add: go_index_def)

text \<open>optional.Trimmed: the trimmed value, or nil when it is nil or blank.\<close>

definition trimmed :: "string option \<Rightarrow> string option" where
  "trimmed v = (case v of None \<Rightarrow> None | Some s \<Rightarrow> let c = trim_space s in if c = [] then None else Some c)"

section \<open>Results\<close>

text \<open>The continuation of a fallible step: an error returns at once.\<close>

definition and_then :: "'e + 'a \<Rightarrow> ('a \<Rightarrow> 'e + 'b) \<Rightarrow> 'e + 'b" where
  "and_then r f = (case r of Inl e \<Rightarrow> Inl e | Inr x \<Rightarrow> f x)"

lemma and_then_simps [simp]: "and_then (Inl e) f = Inl e" "and_then (Inr x) f = f x"
  by (simp_all add: and_then_def)

lemma and_then_Inr_iff: "and_then r f = Inr y \<longleftrightarrow> (\<exists>x. r = Inr x \<and> f x = Inr y)"
  by (cases r) auto

lemma and_then_Inl_iff: "and_then r f = Inl e \<longleftrightarrow> r = Inl e \<or> (\<exists>x. r = Inr x \<and> f x = Inl e)"
  by (cases r) auto

section \<open>Ordered queries\<close>

text \<open>ORDER BY f, g of rows that already come in the strict order of f.\<close>

lemma order_by_strict:
  assumes "sorted (map f xs)" "distinct (map f xs)"
  shows "sort_key f (sort_key g xs) = xs"
proof (rule map_sorted_distinct_set_unique[of f])
  show "inj_on f (set (sort_key f (sort_key g xs)) \<union> set xs)" using assms(2) by (simp add: distinct_map)
  show "distinct (map f (sort_key f (sort_key g xs)))" using assms(2) by (simp add: distinct_map)
qed (use assms in simp_all)

section \<open>Operations that keep an invariant and a relation\<close>

text \<open>
  Many loops apply operations of one kind: each keeps an invariant of the state and relates the state to the
  one it leaves. The contract, and what it gives for a loop.
\<close>

locale kept =
  fixes inv :: "'s \<Rightarrow> bool"
    and rel :: "'s \<Rightarrow> 's \<Rightarrow> bool"
  assumes rel_refl: "inv s \<Longrightarrow> rel s s"
    and rel_trans: "rel s t \<Longrightarrow> rel t u \<Longrightarrow> rel s u"
begin

definition keeps :: "('s \<Rightarrow> 's) \<Rightarrow> bool" where
  "keeps f \<longleftrightarrow> (\<forall>s. inv s \<longrightarrow> inv (f s) \<and> rel s (f s))"

lemma keepsI [intro?]: "(\<And>s. inv s \<Longrightarrow> inv (f s)) \<Longrightarrow> (\<And>s. inv s \<Longrightarrow> rel s (f s)) \<Longrightarrow> keeps f"
  by (simp add: keeps_def)

lemma keepsD: "keeps f \<Longrightarrow> inv s \<Longrightarrow> inv (f s)" "keeps f \<Longrightarrow> inv s \<Longrightarrow> rel s (f s)"
  by (simp_all add: keeps_def)

lemma keeps_fold: "(\<And>x. x \<in> set xs \<Longrightarrow> keeps (f x)) \<Longrightarrow> keeps (fold f xs)"
proof (induction xs)
  case Nil
  then show ?case by (auto intro!: keepsI rel_refl)
next
  case (Cons x xs)
  then have "keeps (f x)" "keeps (fold f xs)" by simp_all
  then show ?case by (auto intro!: keepsI dest: keepsD intro: rel_trans)
qed

end

end
