(* ===== verification/Rate_Limiter.thy ===== *)
theory Rate_Limiter
  imports Prelude
begin

text \<open>
  The two in-memory attempt limiters: the sliding-window limiter of
  backend/internal/platform/ratelimit/ratelimit.go (\<open>limiter\<close>: Blocked, Take, Reset, Refund and the
  eviction that bounds its memory) and the sign-up limiter of backend/internal/events/limiter.go
  (\<open>signup_limiter\<close>: allow). Both keep, per key, the list of the instants of the attempts they
  counted. The locale \<open>sliding_window\<close> is their common contract; its theorem bounds the attempts
  granted to one key in any window, and both models interpret it. The mutexes are not modelled: every
  exported method holds the lock for its whole body, so its effect is one atomic step. KeyForIP (the
  address parser of net/netip) is not modelled.
\<close>

section \<open>platform/ratelimit\<close>

definition max_limiter_keys :: nat where "max_limiter_keys = 4096"
definition limiter_sweep_period :: duration where "limiter_sweep_period = minute"

record limiter =
  limit :: nat
  window :: duration
  max_keys :: nat
  entries :: "(string \<times> time list) list"
  last_sweep :: time

definition new_limiter :: "nat \<Rightarrow> duration \<Rightarrow> limiter" where
  "new_limiter lim w = \<lparr>limit = lim, window = w, max_keys = max_limiter_keys, entries = [], last_sweep = zero_time\<rparr>"

definition live_attempts :: "duration \<Rightarrow> time \<Rightarrow> time list \<Rightarrow> time list" where
  "live_attempts w now ts = filter (\<lambda>t. time_sub now t < w) ts"

lemma live_attempts_Nil [simp]: "live_attempts w now [] = []"
  by (simp add: live_attempts_def)

text \<open>recentLocked drops the expired attempts of one key and returns the rest.\<close>

definition recent_locked :: "limiter \<Rightarrow> string \<Rightarrow> time \<Rightarrow> limiter \<times> time list" where
  "recent_locked l key now =
     (case map_of (entries l) key of
        None \<Rightarrow> (l, [])
      | Some attempts \<Rightarrow>
          (let recent = live_attempts (window l) now attempts in
           if recent = [] then (l\<lparr>entries := AList.delete key (entries l)\<rparr>, [])
           else (l\<lparr>entries := AList.update key recent (entries l)\<rparr>, recent)))"

text \<open>sweepLocked: the range loop over the table, one recentLocked call per key.\<close>

definition sweep_locked :: "limiter \<Rightarrow> time \<Rightarrow> limiter" where
  "sweep_locked l now =
     fold (\<lambda>key acc. fst (recent_locked acc key now)) (map fst (entries l)) (l\<lparr>last_sweep := now\<rparr>)"

text \<open>
  The eviction loop of makeRoomLocked: oldestKey starts as the empty string, which also means that no
  candidate has been chosen yet.
\<close>

fun oldest_key :: "(string \<times> time list) list \<Rightarrow> string \<times> time \<Rightarrow> string \<times> time" where
  "oldest_key [] best = best"
| "oldest_key ((candidate, attempts) # rest) (oldest, at) =
     (if oldest = [] \<or> last attempts < at then oldest_key rest (candidate, last attempts)
      else oldest_key rest (oldest, at))"

definition make_room_locked :: "limiter \<Rightarrow> string \<Rightarrow> time \<Rightarrow> limiter" where
  "make_room_locked l key now =
     (if map_of (entries l) key \<noteq> None \<or> length (entries l) < max_keys l then l
      else
        let l1 = (if time_sub now (last_sweep l) \<ge> limiter_sweep_period \<or> now < last_sweep l
                  then sweep_locked l now else l)
        in if length (entries l1) < max_keys l1 then l1
           else l1\<lparr>entries := AList.delete (fst (oldest_key (entries l1) ([], zero_time))) (entries l1)\<rparr>)"

definition blocked :: "limiter \<Rightarrow> string \<Rightarrow> time \<Rightarrow> limiter \<times> bool" where
  "blocked l key now = (let (l1, recent) = recent_locked l key now in (l1, limit l \<le> length recent))"

definition take_attempt :: "limiter \<Rightarrow> string \<Rightarrow> time \<Rightarrow> limiter \<times> bool" where
  "take_attempt l key now =
     (let (l1, recent) = recent_locked l key now in
      if limit l \<le> length recent then (l1, False)
      else let l2 = make_room_locked l1 key now in
           (l2\<lparr>entries := AList.update key (list_at (entries l2) key @ [now]) (entries l2)\<rparr>, True))"

definition reset :: "limiter \<Rightarrow> string \<Rightarrow> limiter" where
  "reset l key = l\<lparr>entries := AList.delete key (entries l)\<rparr>"

definition refund :: "limiter \<Rightarrow> string \<Rightarrow> time \<Rightarrow> limiter" where
  "refund l key at =
     (let attempts = remove1 at (list_at (entries l) key) in
      if attempts = [] then l\<lparr>entries := AList.delete key (entries l)\<rparr>
      else l\<lparr>entries := AList.update key attempts (entries l)\<rparr>)"

text \<open>
  The table invariant: one entry per key, no empty entry (makeRoomLocked indexes the last attempt of
  every entry), never more attempts of a key than the limit, never more keys than the cap.
\<close>

definition limiter_wf :: "limiter \<Rightarrow> bool" where
  "limiter_wf l \<longleftrightarrow> distinct (map fst (entries l)) \<and>
     (\<forall>(k, ts) \<in> set (entries l). ts \<noteq> [] \<and> length ts \<le> limit l) \<and>
     length (entries l) \<le> max_keys l"

subsection \<open>What each operation does to the table\<close>

lemma recent_locked_frame [simp]:
  "limit (fst (recent_locked l key now)) = limit l"
  "window (fst (recent_locked l key now)) = window l"
  "max_keys (fst (recent_locked l key now)) = max_keys l"
  "last_sweep (fst (recent_locked l key now)) = last_sweep l"
  by (auto simp: recent_locked_def Let_def split: option.splits)

lemma recent_locked_result: "snd (recent_locked l key now) = live_attempts (window l) now (list_at (entries l) key)"
  by (auto simp: recent_locked_def list_at_def Let_def live_attempts_def split: option.splits)

lemma recent_locked_list_at:
  "list_at (entries (fst (recent_locked l key now))) k =
     (if k = key then live_attempts (window l) now (list_at (entries l) key) else list_at (entries l) k)"
  by (auto simp: recent_locked_def Let_def list_at_update list_at_delete split: option.splits)
    (simp_all add: list_at_def live_attempts_def)

lemma recent_locked_keys:
  "set (map fst (entries (fst (recent_locked l key now)))) \<subseteq> set (map fst (entries l))"
  by (auto simp: recent_locked_def Let_def keys_update keys_delete map_of_eq_None_iff
      simp del: set_map split: option.splits dest: map_of_SomeD)
    (force dest: map_of_SomeD)+

lemma recent_locked_length: "length (entries (fst (recent_locked l key now))) \<le> length (entries l)"
proof (cases "map_of (entries l) key")
  case None
  then show ?thesis by (simp add: recent_locked_def)
next
  case (Some ts)
  then have "key \<in> set (map fst (entries l))" by (force dest: map_of_SomeD)
  with Some show ?thesis
    by (simp add: recent_locked_def Let_def length_update_old length_delete_le del: set_map)
qed

lemma live_attempts_length: "length (live_attempts w now ts) \<le> length ts"
  by (simp add: live_attempts_def)

lemma recent_locked_wf:
  assumes "limiter_wf l"
  shows "limiter_wf (fst (recent_locked l key now))"
proof (cases "map_of (entries l) key")
  case None
  with assms show ?thesis by (simp add: recent_locked_def)
next
  case (Some ts)
  then have mem: "(key, ts) \<in> set (entries l)" by (rule map_of_SomeD)
  with assms have len: "length (live_attempts (window l) now ts) \<le> limit l"
    using live_attempts_length [of "window l" now ts] by (force simp: limiter_wf_def)
  have bound: "length (entries (fst (recent_locked l key now))) \<le> max_keys l"
    using assms recent_locked_length [of l key now] by (simp add: limiter_wf_def)
  show ?thesis
    using assms len bound Some set_update_subset [of key "live_attempts (window l) now ts" "entries l"]
      set_delete_subset [of key "entries l"]
    by (auto simp: limiter_wf_def recent_locked_def Let_def AList.distinct_update AList.distinct_delete
        split: if_splits)
qed


lemma sweep_fold_list_at:
  "list_at (entries (fold (\<lambda>key acc. fst (recent_locked acc key now)) ks l)) k =
     (if k \<in> set ks then live_attempts (window l) now (list_at (entries l) k) else list_at (entries l) k)"
proof (induction ks arbitrary: l)
  case Nil
  then show ?case by simp
next
  case (Cons key ks)
  show ?case
    by (auto simp: Cons.IH recent_locked_list_at live_attempts_def)
qed

lemma sweep_fold_frame:
  "limit (fold (\<lambda>key acc. fst (recent_locked acc key now)) ks l) = limit l \<and>
   window (fold (\<lambda>key acc. fst (recent_locked acc key now)) ks l) = window l \<and>
   max_keys (fold (\<lambda>key acc. fst (recent_locked acc key now)) ks l) = max_keys l \<and>
   last_sweep (fold (\<lambda>key acc. fst (recent_locked acc key now)) ks l) = last_sweep l"
  by (induction ks arbitrary: l) simp_all

lemma sweep_locked_frame [simp]:
  "limit (sweep_locked l now) = limit l"
  "window (sweep_locked l now) = window l"
  "max_keys (sweep_locked l now) = max_keys l"
  "last_sweep (sweep_locked l now) = now"
  by (simp_all add: sweep_locked_def sweep_fold_frame)

lemma sweep_fold_wf:
  "limiter_wf l \<Longrightarrow> limiter_wf (fold (\<lambda>key acc. fst (recent_locked acc key now)) ks l)"
  by (induction ks arbitrary: l) (simp_all add: recent_locked_wf)

lemma sweep_fold_keys:
  "set (map fst (entries (fold (\<lambda>key acc. fst (recent_locked acc key now)) ks l))) \<subseteq> set (map fst (entries l))"
proof (induction ks arbitrary: l)
  case Nil
  then show ?case by simp
next
  case (Cons k ks)
  from Cons.IH [of "fst (recent_locked l k now)"] recent_locked_keys [of l k now] show ?case by simp
qed

lemma limiter_wf_last_sweep [simp]: "limiter_wf (l\<lparr>last_sweep := t\<rparr>) = limiter_wf l"
  by (simp add: limiter_wf_def)

lemma sweep_locked_wf: "limiter_wf l \<Longrightarrow> limiter_wf (sweep_locked l now)"
  by (simp add: sweep_locked_def sweep_fold_wf)

lemma sweep_locked_keys: "set (map fst (entries (sweep_locked l now))) \<subseteq> set (map fst (entries l))"
  using sweep_fold_keys [of now "map fst (entries l)" "l\<lparr>last_sweep := now\<rparr>"]
  by (simp add: sweep_locked_def)

lemma list_at_missing: "k \<notin> set (map fst m) \<Longrightarrow> list_at m k = []"
  by (simp add: list_at_def map_of_eq_None_iff [THEN iffD2])

lemma sweep_locked_list_at:
  "list_at (entries (sweep_locked l now)) k = live_attempts (window l) now (list_at (entries l) k)"
  by (auto simp: sweep_locked_def sweep_fold_list_at live_attempts_def list_at_missing)

text \<open>The evicted key is one of the table, so an eviction frees a place.\<close>

lemma oldest_key_member: "fst (oldest_key m best) \<in> insert (fst best) (set (map fst m))"
proof (induction m best rule: oldest_key.induct)
  case (1 best)
  then show ?case by simp
next
  case (2 candidate attempts rest oldest at)
  then show ?case by auto
qed

lemma oldest_key_in_table:
  assumes "m \<noteq> []"
  shows "fst (oldest_key m ([], z)) \<in> set (map fst m)"
proof -
  obtain c ts rest where m: "m = (c, ts) # rest" using assms by (cases m) auto
  show ?thesis using oldest_key_member [of rest "(c, last ts)"] by (simp add: m)
qed

lemma make_room_frame [simp]:
  "limit (make_room_locked l key now) = limit l"
  "window (make_room_locked l key now) = window l"
  "max_keys (make_room_locked l key now) = max_keys l"
  by (simp_all add: make_room_locked_def Let_def)

lemma limiter_wf_delete:
  assumes "limiter_wf l"
  shows "limiter_wf (l\<lparr>entries := AList.delete k (entries l)\<rparr>)"
  using assms set_delete_subset [of k "entries l"] length_delete_le [of k "entries l"]
  by (auto simp: limiter_wf_def AList.distinct_delete)

lemma make_room_wf: "limiter_wf l \<Longrightarrow> limiter_wf (make_room_locked l key now)"
  by (simp add: make_room_locked_def Let_def limiter_wf_delete sweep_locked_wf)

lemma make_room_room:
  assumes "limiter_wf l" and "0 < max_keys l"
  shows "key \<in> set (map fst (entries (make_room_locked l key now))) \<or>
    length (entries (make_room_locked l key now)) < max_keys l"
proof (cases "map_of (entries l) key \<noteq> None \<or> length (entries l) < max_keys l")
  case True
  then show ?thesis by (auto simp: make_room_locked_def map_of_eq_None_iff)
next
  case False
  define l1 where "l1 = (if time_sub now (last_sweep l) \<ge> limiter_sweep_period \<or> now < last_sweep l
                  then sweep_locked l now else l)"
  have wf: "limiter_wf l1" and mk: "max_keys l1 = max_keys l"
    using assms by (auto simp: l1_def sweep_locked_wf)
  have eq: "make_room_locked l key now = (if length (entries l1) < max_keys l1 then l1
           else l1\<lparr>entries := AList.delete (fst (oldest_key (entries l1) ([], zero_time))) (entries l1)\<rparr>)"
    using False by (simp add: make_room_locked_def l1_def Let_def)
  show ?thesis
  proof (cases "length (entries l1) < max_keys l1")
    case True
    then show ?thesis by (simp add: eq mk)
  next
    case full: False
    then have "entries l1 \<noteq> []" using assms(2) mk by auto
    from length_delete_less [OF oldest_key_in_table [OF this]] wf full
    show ?thesis by (simp add: eq mk limiter_wf_def)
  qed
qed

lemma make_room_no_eviction:
  assumes "length (entries l) < max_keys l \<or> key \<in> set (map fst (entries l))"
  shows "make_room_locked l key now = l"
  using assms by (force simp: make_room_locked_def map_of_eq_None_iff)

lemma make_room_keys:
  "set (map fst (entries (make_room_locked l key now))) \<subseteq> set (map fst (entries l))"
  using sweep_locked_keys [of l now]
  by (auto simp: make_room_locked_def Let_def AList.delete_eq)

lemma take_attempt_frame [simp]:
  "limit (fst (take_attempt l key now)) = limit l"
  "window (fst (take_attempt l key now)) = window l"
  "max_keys (fst (take_attempt l key now)) = max_keys l"
  by (simp_all add: take_attempt_def case_prod_beta Let_def)

section \<open>The contract of a sliding-window limiter\<close>

text \<open>
  A request has an instant and the keys it is counted under. \<open>run_requests\<close> sends requests one
  after the other and collects the granted ones.
\<close>

fun run_requests :: "('l \<Rightarrow> 'r \<Rightarrow> 'l \<times> bool) \<Rightarrow> 'l \<Rightarrow> 'r list \<Rightarrow> 'l \<times> 'r list" where
  "run_requests step l [] = (l, [])"
| "run_requests step l (r # rs) =
     (let (l1, ok) = step l r; (l2, granted) = run_requests step l1 rs in
      (l2, if ok then r # granted else granted))"

text \<open>The granted requests of a key with an instant in the half-open window that ends at \<open>T\<close>.\<close>

definition granted_within :: "('r \<Rightarrow> time) \<Rightarrow> ('r \<Rightarrow> string list) \<Rightarrow> string \<Rightarrow> duration \<Rightarrow> time \<Rightarrow> 'r list \<Rightarrow> 'r list" where
  "granted_within at keys k w T rs = filter (\<lambda>r. k \<in> set (keys r) \<and> T - w < at r \<and> at r \<le> T) rs"

lemma run_requests_snoc:
  "run_requests step l (rs @ [r]) =
     (let (l1, granted) = run_requests step l rs; (l2, ok) = step l1 r in
      (l2, if ok then granted @ [r] else granted))"
  by (induction rs arbitrary: l) (auto simp: case_prod_beta Let_def)

lemma run_requests_subset: "set (snd (run_requests step l rs)) \<subseteq> set rs"
  by (induction rs arbitrary: l) (auto simp: case_prod_beta Let_def)

lemma live_attempts_filter:
  assumes "0 < w" "w \<le> max_int64"
  shows "live_attempts w now ts = filter (\<lambda>t. now - t < w) ts"
  using assms by (simp add: live_attempts_def time_sub_less_iff min_int64_def)

lemma live_attempts_again:
  assumes "0 < w" "w \<le> max_int64" "u \<le> now"
  shows "live_attempts w now (live_attempts w u ts) = live_attempts w now ts"
  using assms by (auto simp: live_attempts_filter intro: filter_cong)

lemma live_attempts_append: "live_attempts w now (xs @ ys) = live_attempts w now xs @ live_attempts w now ys"
  by (simp add: live_attempts_def)

locale sliding_window =
  fixes step :: "'l \<Rightarrow> 'r \<Rightarrow> 'l \<times> bool"
    and at :: "'r \<Rightarrow> time"
    and keys :: "'r \<Rightarrow> string list"
    and ok :: "'r \<Rightarrow> bool"
    and lim :: "'l \<Rightarrow> string \<Rightarrow> nat"
    and win :: "'l \<Rightarrow> duration"
    and table :: "'l \<Rightarrow> string \<Rightarrow> time list"
    and inv :: "'l \<Rightarrow> bool"
  assumes win_pos: "inv l \<Longrightarrow> 0 < win l" and win_max: "inv l \<Longrightarrow> win l \<le> max_int64"
    and win_step: "win (fst (step l r)) = win l" and lim_step: "lim (fst (step l r)) = lim l"
    and inv_step: "inv l \<Longrightarrow> ok r \<Longrightarrow> inv (fst (step l r))"
    and step_granted: "inv l \<Longrightarrow> ok r \<Longrightarrow> snd (step l r) \<Longrightarrow> k \<in> set (keys r) \<Longrightarrow>
      live_attempts (win l) (at r) (table (fst (step l r)) k) = live_attempts (win l) (at r) (table l k) @ [at r]"
    and step_limit: "inv l \<Longrightarrow> ok r \<Longrightarrow> snd (step l r) \<Longrightarrow> k \<in> set (keys r) \<Longrightarrow>
      length (live_attempts (win l) (at r) (table l k)) < lim l k"
    and step_other: "inv l \<Longrightarrow> ok r \<Longrightarrow> \<not> snd (step l r) \<or> k \<notin> set (keys r) \<Longrightarrow>
      live_attempts (win l) (at r) (table (fst (step l r)) k) = live_attempts (win l) (at r) (table l k)"
begin

lemma run_inv:
  assumes "inv l" "\<forall>r \<in> set rs. ok r"
  shows "inv (fst (run_requests step l rs))"
  using assms by (induction rs arbitrary: l) (simp_all add: case_prod_beta Let_def inv_step)

lemma run_frame: "win (fst (run_requests step l rs)) = win l \<and> lim (fst (run_requests step l rs)) = lim l"
  by (induction rs arbitrary: l) (simp_all add: case_prod_beta Let_def win_step lim_step)

lemma live_win_again:
  "inv l \<Longrightarrow> u \<le> now \<Longrightarrow> live_attempts (win l) now (live_attempts (win l) u ts) = live_attempts (win l) now ts"
  by (rule live_attempts_again [OF win_pos win_max])

text \<open>The table and the granted requests agree on every attempt that is still live.\<close>

lemma run_table:
  assumes "inv l" "\<And>k. table l k = []" "\<forall>r \<in> set rs. ok r" "sorted (map at rs)" "\<forall>r \<in> set rs. at r \<le> now"
  shows "live_attempts (win l) now (table (fst (run_requests step l rs)) k) =
    live_attempts (win l) now (map at (filter (\<lambda>r. k \<in> set (keys r)) (snd (run_requests step l rs))))"
  using assms(3-)
proof (induction rs arbitrary: now rule: rev_induct)
  case Nil
  then show ?case by (simp add: assms(2) live_attempts_def)
next
  case (snoc r rs)
  let ?l = "fst (run_requests step l rs)" and ?g = "snd (run_requests step l rs)"
  have inv: "inv ?l" using assms(1) snoc.prems by (intro run_inv) auto
  have r: "ok r" "at r \<le> now" using snoc.prems by auto
  have IH: "live_attempts (win l) t (table ?l k) = live_attempts (win l) t (map at (filter (\<lambda>r. k \<in> set (keys r)) ?g))"
    if "at r \<le> t" for t
    using that snoc.prems by (intro snoc.IH) (auto simp: sorted_append)
  show ?case
  proof (cases "snd (step ?l r) \<and> k \<in> set (keys r)")
    case True
    then have "live_attempts (win l) (at r) (table (fst (step ?l r)) k) = live_attempts (win l) (at r) (table ?l k) @ [at r]"
      using step_granted [OF inv r(1)] by (simp add: run_frame)
    then have "live_attempts (win l) now (live_attempts (win l) (at r) (table (fst (step ?l r)) k)) =
        live_attempts (win l) now (live_attempts (win l) (at r) (table ?l k)) @ live_attempts (win l) now [at r]"
      by (simp add: live_attempts_append)
    then have "live_attempts (win l) now (table (fst (step ?l r)) k) =
        live_attempts (win l) now (table ?l k) @ live_attempts (win l) now [at r]"
      by (simp only: live_win_again [OF assms(1) r(2)])
    with True IH [OF r(2)] show ?thesis
      by (simp add: run_requests_snoc case_prod_beta Let_def live_attempts_append)
  next
    case False
    then have "live_attempts (win l) (at r) (table (fst (step ?l r)) k) = live_attempts (win l) (at r) (table ?l k)"
      using step_other [OF inv r(1)] by (simp add: run_frame)
    then have "live_attempts (win l) now (live_attempts (win l) (at r) (table (fst (step ?l r)) k)) =
        live_attempts (win l) now (live_attempts (win l) (at r) (table ?l k))"
      by (rule arg_cong)
    then have "live_attempts (win l) now (table (fst (step ?l r)) k) = live_attempts (win l) now (table ?l k)"
      by (simp only: live_win_again [OF assms(1) r(2)])
    with False IH [OF r(2)] show ?thesis
      by (auto simp: run_requests_snoc case_prod_beta Let_def)
  qed
qed

text \<open>At most \<open>lim l k\<close> requests of a key are granted in any window.\<close>

theorem granted_bound:
  assumes "inv l" "\<And>k. table l k = []" "\<forall>r \<in> set rs. ok r" "sorted (map at rs)"
  shows "length (granted_within at keys k (win l) T (snd (run_requests step l rs))) \<le> lim l k"
  using assms(3-)
proof (induction rs rule: rev_induct)
  case Nil
  then show ?case by (simp add: granted_within_def)
next
  case (snoc r rs)
  let ?l = "fst (run_requests step l rs)" and ?g = "snd (run_requests step l rs)"
  have inv: "inv ?l" using assms(1) snoc.prems by (intro run_inv) auto
  have IH: "length (granted_within at keys k (win l) T ?g) \<le> lim l k"
    using snoc by (simp add: sorted_append)
  show ?case
  proof (cases "snd (step ?l r) \<and> k \<in> set (keys r) \<and> T - win l < at r \<and> at r \<le> T")
    case True
    have before: "\<forall>r' \<in> set rs. at r' \<le> at r" using snoc.prems by (auto simp: sorted_append)
    then have gbefore: "\<forall>r' \<in> set ?g. at r' \<le> at r"
      using run_requests_subset [of step l rs] by auto
    let ?live = "live_attempts (win l) (at r) (map at (filter (\<lambda>r. k \<in> set (keys r)) ?g))"
    have "granted_within at keys k (win l) T ?g = filter (\<lambda>r'. T - win l < at r' \<and> at r' \<le> T)
        (filter (\<lambda>r'. at r - at r' < win l) (filter (\<lambda>r. k \<in> set (keys r)) ?g))"
      using True by (auto simp: granted_within_def intro: filter_cong)
    then have "length (granted_within at keys k (win l) T ?g) \<le>
        length (filter (\<lambda>r'. at r - at r' < win l) (filter (\<lambda>r. k \<in> set (keys r)) ?g))"
      by (simp only: length_filter_le)
    also have "\<dots> = length ?live"
      by (simp add: live_attempts_filter [OF win_pos [OF assms(1)] win_max [OF assms(1)]] filter_map comp_def)
    also have "\<dots> = length (live_attempts (win l) (at r) (table ?l k))"
      using run_table [OF assms(1,2), of rs "at r" k] snoc.prems before by (simp add: sorted_append)
    also have "\<dots> < lim l k"
      using step_limit [OF inv, of r k] True snoc.prems by (simp add: run_frame)
    finally show ?thesis using True
      by (simp add: run_requests_snoc case_prod_beta Let_def granted_within_def)
  next
    case False
    then have "granted_within at keys k (win l) T (snd (run_requests step l (rs @ [r]))) = granted_within at keys k (win l) T ?g"
      by (auto simp: run_requests_snoc case_prod_beta Let_def granted_within_def)
    with IH show ?thesis by simp
  qed
qed

end

section \<open>Take keeps the table and the contract\<close>

lemma limiter_wf_update:
  assumes "limiter_wf l" "ts \<noteq> []" "length ts \<le> limit l"
    and "key \<in> set (map fst (entries l)) \<or> length (entries l) < max_keys l"
  shows "limiter_wf (l\<lparr>entries := AList.update key ts (entries l)\<rparr>)"
proof -
  have "length (AList.update key ts (entries l)) \<le> max_keys l"
    using assms(1,4) length_update_old [of key "entries l" ts] length_update_le [of key ts "entries l"]
    by (auto simp: limiter_wf_def simp del: set_map)
  then show ?thesis
    using assms set_update_subset [of key ts "entries l"]
    by (auto simp: limiter_wf_def AList.distinct_update)
qed

lemma take_attempt_wf:
  assumes wf: "limiter_wf l" and "0 < max_keys l" and "0 < limit l"
  shows "limiter_wf (fst (take_attempt l key now))"
proof -
  let ?l1 = "fst (recent_locked l key now)"
  let ?l2 = "make_room_locked ?l1 key now"
  have wf1: "limiter_wf ?l1" by (rule recent_locked_wf [OF wf])
  have wf2: "limiter_wf ?l2" by (rule make_room_wf [OF wf1])
  have room: "key \<in> set (map fst (entries ?l2)) \<or> length (entries ?l2) < max_keys l"
    using make_room_room [OF wf1, of key now] assms(2) by simp
  have short: "length (list_at (entries ?l2) key) < limit l"
    if few: "length (snd (recent_locked l key now)) < limit l"
  proof (cases "map_of (entries ?l1) key")
    case None
    then have "key \<notin> set (map fst (entries ?l1))" by (simp add: map_of_eq_None_iff)
    with make_room_keys [of ?l1 key now] have "key \<notin> set (map fst (entries ?l2))" by blast
    then show ?thesis using assms(3) by (simp add: list_at_missing)
  next
    case (Some ts)
    then have "?l2 = ?l1" by (simp add: make_room_locked_def)
    then show ?thesis using few by (simp add: recent_locked_list_at recent_locked_result)
  qed
  have "limiter_wf (?l2\<lparr>entries := AList.update key (list_at (entries ?l2) key @ [now]) (entries ?l2)\<rparr>)"
    if "length (snd (recent_locked l key now)) < limit l"
    using wf2 room short [OF that] by (intro limiter_wf_update) (simp_all del: set_map)
  then show ?thesis using wf1 by (auto simp: take_attempt_def case_prod_beta Let_def)
qed

text \<open>
  Within a set \<open>K\<close> of at most \<open>max_keys\<close> keys no eviction happens, so Take satisfies the contract.
\<close>

definition limiter_within :: "string set \<Rightarrow> limiter \<Rightarrow> bool" where
  "limiter_within K l \<longleftrightarrow> limiter_wf l \<and> 0 < limit l \<and> 0 < window l \<and> window l \<le> max_int64 \<and>
     finite K \<and> card K \<le> max_keys l \<and> set (map fst (entries l)) \<subseteq> K"

abbreviation take_step :: "limiter \<Rightarrow> time \<times> string \<Rightarrow> limiter \<times> bool" where
  "take_step l r \<equiv> take_attempt l (snd r) (fst r)"

lemma limiter_within_room:
  assumes "limiter_within K l" "key \<in> K"
  shows "make_room_locked (fst (recent_locked l key now)) key now = fst (recent_locked l key now)"
proof (rule make_room_no_eviction, rule disjCI)
  let ?l1 = "fst (recent_locked l key now)"
  assume "key \<notin> set (map fst (entries ?l1))"
  moreover have "set (map fst (entries ?l1)) \<subseteq> K"
    using assms recent_locked_keys [of l key now] by (auto simp: limiter_within_def)
  ultimately have "set (map fst (entries ?l1)) \<subset> K" using assms(2) by blast
  then have "card (set (map fst (entries ?l1))) < card K"
    using assms(1) by (auto simp: limiter_within_def intro: psubset_card_mono)
  moreover have "distinct (map fst (entries ?l1))"
    using assms recent_locked_wf by (auto simp: limiter_within_def limiter_wf_def)
  ultimately show "length (entries ?l1) < max_keys ?l1"
    using assms(1) by (simp add: limiter_within_def distinct_card [symmetric] del: set_map)
      (metis distinct_card length_map less_le_trans)
qed

lemma take_attempt_list_at:
  assumes "limiter_within K l" "key \<in> K"
  shows "list_at (entries (fst (take_attempt l key now))) k =
    (if k = key then live_attempts (window l) now (list_at (entries l) key) @
        (if snd (take_attempt l key now) then [now] else [])
     else list_at (entries l) k)"
  using limiter_within_room [OF assms, of now]
  by (auto simp: take_attempt_def case_prod_beta Let_def list_at_update recent_locked_list_at)

lemma take_attempt_granted:
  "snd (take_attempt l key now) \<longleftrightarrow> length (live_attempts (window l) now (list_at (entries l) key)) < limit l"
  by (auto simp: take_attempt_def case_prod_beta Let_def recent_locked_result)

lemma limiter_within_step:
  assumes "limiter_within K l" "key \<in> K"
  shows "limiter_within K (fst (take_attempt l key now))"
proof -
  have "card K > 0" using assms by (auto simp: limiter_within_def card_gt_0_iff)
  then have "limiter_wf (fst (take_attempt l key now))"
    using assms(1) by (intro take_attempt_wf) (auto simp: limiter_within_def)
  moreover have "set (map fst (entries (fst (take_attempt l key now)))) \<subseteq> K"
    using assms limiter_within_room [OF assms, of now] recent_locked_keys [of l key now]
    by (auto simp: take_attempt_def case_prod_beta Let_def keys_update limiter_within_def simp del: set_map)
  ultimately show ?thesis using assms(1) by (simp add: limiter_within_def)
qed

lemma live_attempts_idem [simp]: "live_attempts w now (live_attempts w now ts) = live_attempts w now ts"
  by (simp add: live_attempts_def)

lemma live_attempts_now [simp]: "0 < w \<Longrightarrow> live_attempts w now [now] = [now]"
  by (simp add: live_attempts_def time_sub_def min_int64_def max_int64_def)

interpretation rate: sliding_window take_step fst "\<lambda>r. [snd r]" "\<lambda>r. snd r \<in> K"
    "\<lambda>l k. limit l" window "\<lambda>l. list_at (entries l)" "limiter_within K" for K
proof (unfold_locales, goal_cases)
  case (1 l)
  then show ?case by (simp add: limiter_within_def)
next
  case (2 l)
  then show ?case by (simp add: limiter_within_def)
next
  case (3 l r)
  then show ?case by simp
next
  case (4 l r)
  then show ?case by simp
next
  case (5 l r)
  then show ?case by (simp add: limiter_within_step)
next
  case (6 l r k)
  then have "0 < window l" by (simp add: limiter_within_def)
  with 6 show ?case by (simp add: take_attempt_list_at live_attempts_append)
next
  case (7 l r k)
  then show ?case by (simp add: take_attempt_granted)
next
  case (8 l r k)
  then show ?case by (cases "k = snd r") (simp_all add: take_attempt_list_at)
qed

section \<open>events: the sign-up limiter\<close>

definition signup_rate_window :: duration where "signup_rate_window = 15 * minute"
definition max_signup_rate_keys :: nat where "max_signup_rate_keys = 10000"

type_synonym signup_limiter = "(string \<times> time list) list"

text \<open>
  The keys of one call with their limits. \<open>mac_hex\<close> stands for the keyed digest
  (hex-encoded HMAC-SHA-256 with the limiter's key) of its argument.
\<close>

definition zero_byte :: string where "zero_byte = [char_of (0::nat)]"

fun join :: "string \<Rightarrow> string list \<Rightarrow> string" where
  "join sep [] = []"
| "join sep [x] = x"
| "join sep (x # xs) = x @ sep @ join sep xs"

definition signup_keys :: "(string \<Rightarrow> string) \<Rightarrow> string \<Rightarrow> string \<Rightarrow> string option list \<Rightarrow> (string \<times> nat) list" where
  "signup_keys mac_hex client_ip public_id contacts =
     (let values = sort (List.map_filter id contacts);
          ip = (''ip:'' @ trim_space client_ip, 20)
      in if values = [] then [ip]
         else [ip, (''contact:'' @ mac_hex (public_id @ zero_byte @ join zero_byte values), 5)])"

definition signup_prune :: "signup_limiter \<Rightarrow> time \<Rightarrow> signup_limiter" where
  "signup_prune m now =
     filter (\<lambda>(k, ts). ts \<noteq> []) (map (\<lambda>(k, ts). (k, live_attempts signup_rate_window now ts)) m)"

definition signup_allow_keys :: "signup_limiter \<Rightarrow> (string \<times> nat) list \<Rightarrow> time \<Rightarrow> signup_limiter \<times> bool" where
  "signup_allow_keys m keys now =
     (let m1 = signup_prune m now;
          allowed = list_all (\<lambda>(k, lim). \<not> (lim \<le> length (list_at m1 k)) \<and>
                      \<not> (map_of m1 k = None \<and> max_signup_rate_keys \<le> length m1)) keys
      in if allowed then (fold (\<lambda>(k, lim) acc. AList.update k (list_at acc k @ [now]) acc) keys m1, True)
         else (m1, False))"

definition signup_allow ::
  "(string \<Rightarrow> string) \<Rightarrow> signup_limiter \<Rightarrow> time \<Rightarrow> string \<Rightarrow> string \<Rightarrow> string option list \<Rightarrow> signup_limiter \<times> bool"
where
  "signup_allow mac_hex m now client_ip public_id contacts =
     signup_allow_keys m (signup_keys mac_hex client_ip public_id contacts) now"


definition signup_limit :: "string \<Rightarrow> nat" where
  "signup_limit k = (if has_prefix k ''ip:'' then 20 else 5)"

lemma signup_keys_distinct: "distinct (map fst (signup_keys mac_hex client_ip public_id contacts))"
  by (simp add: signup_keys_def Let_def)

lemma signup_keys_limit:
  "(k, n) \<in> set (signup_keys mac_hex client_ip public_id contacts) \<Longrightarrow> n = signup_limit k"
  by (auto simp: signup_keys_def signup_limit_def has_prefix_def Let_def split: if_splits)

lemma signup_prune_keys: "set (map fst (signup_prune m now)) \<subseteq> set (map fst m)"
  by (force simp: signup_prune_def)

lemma signup_prune_map_of:
  assumes "distinct (map fst m)"
  shows "list_at (signup_prune m now) k = live_attempts signup_rate_window now (list_at m k)"
  using assms
proof (induction m)
  case Nil
  then show ?case by (simp add: signup_prune_def list_at_def live_attempts_def)
next
  case (Cons e m)
  obtain k' ts where e: "e = (k', ts)" by (cases e)
  have rest: "k' \<notin> set (map fst (signup_prune m now))"
    using Cons.prems e signup_prune_keys [of m now] by auto
  have step: "signup_prune ((k', ts) # m) now =
      (if live_attempts signup_rate_window now ts = [] then signup_prune m now
       else (k', live_attempts signup_rate_window now ts) # signup_prune m now)"
    by (simp add: signup_prune_def)
  show ?case
  proof (cases "k = k'")
    case True
    have "list_at (signup_prune m now) k' = []" using rest by (rule list_at_missing)
    then show ?thesis using True by (simp add: step e list_at_def)
  next
    case False
    then have "list_at (signup_prune ((k', ts) # m) now) k = list_at (signup_prune m now) k"
      by (simp add: step list_at_def)
    with False Cons show ?thesis by (simp add: e list_at_def)
  qed
qed

lemma signup_prune_distinct: "distinct (map fst m) \<Longrightarrow> distinct (map fst (signup_prune m now))"
proof (induction m)
  case Nil
  then show ?case by (simp add: signup_prune_def)
next
  case (Cons e m)
  with signup_prune_keys [of m now] show ?case by (cases e) (auto simp: signup_prune_def)
qed

lemma signup_prune_length: "length (signup_prune m now) \<le> length m"
  using length_filter_le [of "\<lambda>(k, ts). ts \<noteq> []" "map (\<lambda>(k, ts). (k, live_attempts signup_rate_window now ts)) m"]
  by (simp add: signup_prune_def)

lemma signup_count_list_at:
  assumes "distinct (map fst keys)"
  shows "list_at (fold (\<lambda>(k, lim) acc. AList.update k (list_at acc k @ [now]) acc) keys m) k =
    list_at m k @ (if k \<in> set (map fst keys) then [now] else [])"
  using assms
proof (induction keys arbitrary: m)
  case Nil
  then show ?case by simp
next
  case (Cons e keys)
  then show ?case by (cases e) (auto simp: list_at_update simp del: set_map)
qed

lemma signup_count_distinct:
  "distinct (map fst m) \<Longrightarrow>
   distinct (map fst (fold (\<lambda>(k, lim) acc. AList.update k (list_at acc k @ [now]) acc) keys m))"
  by (induction keys arbitrary: m) (auto simp: AList.distinct_update)

lemma signup_count_length:
  "length (fold (\<lambda>(k, lim) acc. AList.update k (list_at acc k @ [now]) acc) keys m) \<le> length m + length keys"
proof (induction keys arbitrary: m)
  case Nil
  then show ?case by simp
next
  case (Cons e keys)
  obtain k n where e: "e = (k, n)" by (cases e)
  have "length (AList.update k (list_at m k @ [now]) m) \<le> Suc (length m)" by (rule length_update_le)
  with Cons.IH [of "AList.update k (list_at m k @ [now]) m"] show ?case by (simp add: e)
qed

lemma signup_count_known:
  assumes "\<forall>e \<in> set keys. map_of m (fst e) \<noteq> None"
  shows "length (fold (\<lambda>(k, lim) acc. AList.update k (list_at acc k @ [now]) acc) keys m) = length m"
  using assms
proof (induction keys arbitrary: m)
  case Nil
  show ?case by (simp only: fold_Nil id_apply)
next
  case (Cons e keys)
  obtain k n where e: "e = (k, n)" by (cases e)
  have "\<forall>e \<in> set keys. map_of (AList.update k (list_at m k @ [now]) m) (fst e) \<noteq> None"
    using Cons.prems by (auto simp: AList.update_conv')
  moreover have "k \<in> set (map fst m)"
    using Cons.prems e by (auto simp: map_of_eq_None_iff)
  ultimately show ?case using Cons.IH by (simp add: e length_update_old del: set_map)
qed

lemma signup_allow_keys_distinct:
  "distinct (map fst m) \<Longrightarrow> distinct (map fst (fst (signup_allow_keys m keys now)))"
  by (simp add: signup_allow_keys_def Let_def signup_count_distinct signup_prune_distinct)

lemma signup_allow_keys_list_at:
  assumes "distinct (map fst m)" "distinct (map fst keys)"
  shows "list_at (fst (signup_allow_keys m keys now)) k = live_attempts signup_rate_window now (list_at m k) @
    (if snd (signup_allow_keys m keys now) \<and> k \<in> set (map fst keys) then [now] else [])"
  using assms
  by (simp add: signup_allow_keys_def Let_def signup_count_list_at signup_prune_map_of del: set_map)

lemma signup_allow_keys_below:
  assumes "distinct (map fst m)" "snd (signup_allow_keys m keys now)" "(k, lim) \<in> set keys"
  shows "length (live_attempts signup_rate_window now (list_at m k)) < lim"
  using assms by (auto simp: signup_allow_keys_def Let_def list_all_iff signup_prune_map_of split: if_splits)

text \<open>A call of allow: the instant, the client address, the public id of the event and the contacts.\<close>

type_synonym signup_call = "time \<times> string \<times> string \<times> string option list"

definition signup_call_keys :: "(string \<Rightarrow> string) \<Rightarrow> signup_call \<Rightarrow> string list" where
  "signup_call_keys mac_hex r = (case r of (now, ip, pub, contacts) \<Rightarrow> map fst (signup_keys mac_hex ip pub contacts))"

definition signup_step :: "(string \<Rightarrow> string) \<Rightarrow> signup_limiter \<Rightarrow> signup_call \<Rightarrow> signup_limiter \<times> bool" where
  "signup_step mac_hex m r = (case r of (now, ip, pub, contacts) \<Rightarrow> signup_allow mac_hex m now ip pub contacts)"

interpretation signup: sliding_window "signup_step mac_hex" fst "signup_call_keys mac_hex" "\<lambda>r. True"
    "\<lambda>l. signup_limit" "\<lambda>l. signup_rate_window" list_at "\<lambda>m. distinct (map fst m)" for mac_hex
proof (unfold_locales, goal_cases)
  case (1 l)
  then show ?case by (simp add: signup_rate_window_def minute_def)
next
  case (2 l)
  then show ?case by (simp add: signup_rate_window_def minute_def max_int64_def)
next
  case (3 l r)
  then show ?case by simp
next
  case (4 l r)
  then show ?case by simp
next
  case (5 l r)
  then show ?case
    by (cases r) (simp add: signup_step_def signup_allow_def signup_allow_keys_distinct)
next
  case (6 l r k)
  then show ?case
    by (cases r) (simp add: signup_step_def signup_allow_def signup_call_keys_def signup_allow_keys_list_at
        signup_keys_distinct live_attempts_append signup_rate_window_def minute_def del: set_map)
next
  case (7 l r k)
  obtain now ip pub contacts where r: "r = (now, ip, pub, contacts)" by (cases r)
  with 7 obtain n where n: "(k, n) \<in> set (signup_keys mac_hex ip pub contacts)"
    by (auto simp: signup_call_keys_def)
  with 7 r have "length (live_attempts signup_rate_window now (list_at l k)) < n"
    by (intro signup_allow_keys_below) (simp_all add: signup_step_def signup_allow_def)
  with signup_keys_limit [OF n] r show ?case by simp
next
  case (8 l r k)
  then show ?case
    by (cases r) (auto simp: signup_step_def signup_allow_def signup_call_keys_def signup_allow_keys_list_at
        signup_keys_distinct live_attempts_append simp del: set_map)
qed

section \<open>Properties\<close>

text \<open>
  C24: Take never grants more than the limit in any window: whatever sequence of Take calls with
  non-decreasing instants a fresh limiter serves, every key has at most \<open>limit\<close> granted attempts in every
  half-open window, as long as the calls use no more distinct keys than the table holds.
\<close>

theorem take_window_bound:
  assumes "0 < lim" and "0 < w" and "w \<le> max_int64"
    and "card (set (map snd calls)) \<le> max_limiter_keys"
    and "sorted (map fst calls)"
  shows "length (granted_within fst (\<lambda>r. [snd r]) key w T
    (snd (run_requests (\<lambda>l r. take_attempt l (snd r) (fst r)) (new_limiter lim w) calls))) \<le> lim"
proof -
  have "limiter_within (set (map snd calls)) (new_limiter lim w)"
    using assms by (simp add: limiter_within_def new_limiter_def limiter_wf_def)
  from rate.granted_bound [OF this, of calls key T] assms(5) show ?thesis
    by (simp add: new_limiter_def list_at_def)
qed

theorem take_window_bound_witness:
  "length (granted_within fst (\<lambda>r. [snd r]) ''a'' 10 9
    (snd (run_requests (\<lambda>l r. take_attempt l (snd r) (fst r)) (new_limiter 2 10)
      [(1, ''a''), (2, ''a''), (3, ''b''), (4, ''a'')]))) \<le> 2"
proof (rule take_window_bound)
  have "{''a'', ''b'', ''a''} = {''a'', ''b''}" by blast
  then show "card (set (map snd [(1::time, ''a''), (2, ''a''), (3, ''b''), (4, ''a'')])) \<le> max_limiter_keys"
    by (simp add: max_limiter_keys_def)
qed (simp_all add: max_int64_def)

text \<open>
  every operation of the limiter keeps its table well formed: one entry per key, no empty entry (the
  eviction loop reads the last attempt of each), at most \<open>limit\<close> attempts per key and at most
  \<open>max_keys\<close> keys, so the memory of a limiter is bounded whatever its clients send.
\<close>

theorem limiter_operations_wf:
  assumes "limiter_wf l" and "0 < max_keys l" and "0 < limit l"
  shows "limiter_wf (fst (blocked l key now)) \<and> limiter_wf (fst (take_attempt l key now)) \<and>
    limiter_wf (reset l key) \<and> limiter_wf (refund l key now)"
proof (intro conjI)
  show "limiter_wf (fst (blocked l key now))"
    using assms(1) by (simp add: blocked_def case_prod_beta Let_def recent_locked_wf)
  show "limiter_wf (fst (take_attempt l key now))" using assms by (rule take_attempt_wf)
  show "limiter_wf (reset l key)" using assms(1) by (simp add: reset_def limiter_wf_delete)
  show "limiter_wf (refund l key now)"
  proof (cases "remove1 now (list_at (entries l) key) = []")
    case True
    with assms(1) show ?thesis by (simp add: refund_def limiter_wf_delete)
  next
    case False
    then obtain ts where ts: "map_of (entries l) key = Some ts"
      by (cases "map_of (entries l) key") (auto simp: list_at_def)
    then have "(key, ts) \<in> set (entries l)" by (rule map_of_SomeD)
    then have "length (remove1 now ts) \<le> limit l" "key \<in> set (map fst (entries l))"
      using assms(1) by (force simp: limiter_wf_def length_remove1 split: if_splits)+
    with False ts assms(1) show ?thesis
      by (simp add: refund_def list_at_def limiter_wf_update)
  qed
qed

theorem limiter_operations_wf_witness:
  "limiter_wf (fst (take_attempt (new_limiter 3 10) ''a'' 1))"
  using limiter_operations_wf [of "new_limiter 3 10" "''a''" 1]
  by (simp add: new_limiter_def limiter_wf_def max_limiter_keys_def)

text \<open>
  a Take that is refused or granted decides by the live attempts of its own key alone, and a granted
  attempt can be given back: Refund after a granted Take at the same instant restores the live attempts
  of every key of the table, whenever the key was tracked or the table had room.
\<close>

theorem refund_undoes_take:
  assumes "limiter_within K l" and "key \<in> K" and "snd (take_attempt l key now)" and "k \<in> K"
    and "now \<notin> set (list_at (entries l) key)"
  shows "live_attempts (window l) now (list_at (entries (refund (fst (take_attempt l key now)) key now)) k) =
    live_attempts (window l) now (list_at (entries l) k)"
proof -
  have notin: "now \<notin> set (live_attempts (window l) now (list_at (entries l) key))"
    using assms(5) by (simp add: live_attempts_def)
  show ?thesis
    using assms(1-4) notin
    by (auto simp: refund_def Let_def list_at_update list_at_delete take_attempt_list_at remove1_append)
qed

theorem refund_undoes_take_witness:
  "live_attempts 10 7 (list_at (entries (refund (fst (take_attempt (new_limiter 3 10) ''a'' 7)) ''a'' 7)) ''a'') = []"
proof -
  have "limiter_within {''a''} (new_limiter 3 10)"
    by (simp add: limiter_within_def new_limiter_def limiter_wf_def max_int64_def max_limiter_keys_def)
  from refund_undoes_take [OF this, of "''a''" 7 "''a''"] show ?thesis
    by (simp add: new_limiter_def take_attempt_granted list_at_def live_attempts_def)
qed

text \<open>
  C35: the sign-up limiter grants at most 20 sign-ups per client address and 5 per contact in any 15
  minutes, whatever the sequence of calls: no bound on the number of clients is needed, because a full
  table refuses new keys instead of forgetting old ones.
\<close>

theorem signup_window_bound:
  assumes "sorted (map fst calls)"
  shows "length (granted_within fst (signup_call_keys mac_hex) k signup_rate_window T
    (snd (run_requests (signup_step mac_hex) [] calls))) \<le> signup_limit k"
  using signup.granted_bound [where l = "[]" and rs = calls and k = k and T = T and mac_hex = mac_hex] assms
  by (simp add: list_at_def)

theorem signup_window_bound_witness:
  "length (granted_within fst (signup_call_keys (\<lambda>s. s)) ''ip:1'' signup_rate_window 5
    (snd (run_requests (signup_step (\<lambda>s. s)) [] [(1, ''1'', ''e'', []), (2, ''1'', ''e'', [Some ''m''])])))
   \<le> signup_limit ''ip:1''"
  by (rule signup_window_bound) simp

text \<open>
  C40: the sign-up table never holds more than one key above its cap, so its memory is bounded.
\<close>

theorem signup_table_bound:
  assumes "length m \<le> max_signup_rate_keys + 1"
  shows "length (fst (signup_allow mac_hex m now ip pub contacts)) \<le> max_signup_rate_keys + 1"
proof (cases "length (signup_prune m now) < max_signup_rate_keys")
  case True
  have "length (signup_keys mac_hex ip pub contacts) \<le> 2" by (simp add: signup_keys_def Let_def)
  with True signup_count_length [of now "signup_keys mac_hex ip pub contacts" "signup_prune m now"] show ?thesis
    by (auto simp: signup_allow_def signup_allow_keys_def Let_def)
next
  case False
  with signup_prune_length [of m now] assms show ?thesis
    by (auto simp: signup_allow_def signup_allow_keys_def Let_def list_all_iff case_prod_beta
        signup_count_known)
qed

theorem signup_table_bound_witness:
  "length (fst (signup_allow (\<lambda>s. s) [] 1 ''1'' ''e'' [])) \<le> max_signup_rate_keys + 1"
  by (rule signup_table_bound) simp

end
