(* ===== verification/Authorization.thy ===== *)
theory Authorization
  imports Prelude
begin

text \<open>
  backend/internal/authorization/permissions.go: the permission registry, the evaluation of permission
  grants in a request context, the loading of a principal's permissions from its role rows, the
  fresh-sign-in windows and the delegation check. Permissions, scopes and assurances are strings, as in
  the source, so that unknown stored values are values of the model too. The two queries of
  LoadPermissions are arguments (their result rows or their error); logging is not modelled. The
  denial record that a principal's copies share is state: \<open>has\<close> returns the updated principal.
\<close>

section \<open>The registry\<close>

type_synonym permission = string
type_synonym uuid = string
type_synonym assurance = string
type_synonym grant_scope = string

text \<open>The declared constants with their wire identifiers.\<close>

definition permission_constants :: "(string \<times> permission) list" where
  "permission_constants = [
    (''OrdersRead'', ''orders.read''), (''OrdersWrite'', ''orders.write''),
    (''OrdersFinalize'', ''orders.finalize''), (''OrdersReverse'', ''orders.reverse''),
    (''PaymentsRead'', ''payments.read''), (''PaymentsRecord'', ''payments.record''),
    (''PaymentsReverse'', ''payments.reverse''),
    (''ExternalInvoiceRequestsRead'', ''external_invoice_requests.read''),
    (''ExternalInvoiceRequestsManage'', ''external_invoice_requests.manage''),
    (''ExternalInvoiceRequestsApprove'', ''external_invoice_requests.approve''),
    (''CashMovementsRead'', ''cash_movements.read''), (''CashMovementsRecord'', ''cash_movements.record''),
    (''CashMovementsManage'', ''cash_movements.manage''), (''PeopleReadSelf'', ''people.read.self''),
    (''PeopleReadAll'', ''people.read.all''), (''PeopleCreate'', ''people.create''),
    (''PeopleUpdateSelf'', ''people.update.self''), (''PeopleUpdateAll'', ''people.update.all''),
    (''PeopleDelete'', ''people.delete''), (''PeopleMerge'', ''people.merge''),
    (''PeopleReadMatriculation'', ''people.read.matriculation''),
    (''PeopleUpdateMatriculation'', ''people.update.matriculation''),
    (''PeopleProfileImageUpdateSelf'', ''people.profile_image.update.self''),
    (''PeopleProfileImageUpdateAll'', ''people.profile_image.update.all''),
    (''PeopleProfileImageRemoveSelf'', ''people.profile_image.remove.self''),
    (''PeopleProfileImageRemoveAll'', ''people.profile_image.remove.all''),
    (''AccountsRead'', ''accounts.read''), (''AccountsCreate'', ''accounts.create''),
    (''AccountsDelete'', ''accounts.delete''), (''AccountsEnable'', ''accounts.enable''),
    (''AccountsDisable'', ''accounts.disable''),
    (''AccountsLoginEmailUpdate'', ''accounts.login_email.update''),
    (''AccountsPasswordSet'', ''accounts.password.set''),
    (''AccountsPasswordReset'', ''accounts.password.reset''),
    (''AccountsPasswordEnrollSelf'', ''accounts.password.enroll.self''),
    (''AccountsPasswordEnrollAll'', ''accounts.password.enroll.all''),
    (''AccountsPasswordRemoveSelf'', ''accounts.password.remove.self''),
    (''AccountsPasswordRemoveAll'', ''accounts.password.remove.all''),
    (''AccountsPINEnrollSelf'', ''accounts.pin.enroll.self''),
    (''AccountsPINEnrollAll'', ''accounts.pin.enroll.all''),
    (''AccountsPINRemoveSelf'', ''accounts.pin.remove.self''),
    (''AccountsPINRemoveAll'', ''accounts.pin.remove.all''),
    (''AccountsPINReset'', ''accounts.pin.reset''), (''AccountsMFAReset'', ''accounts.mfa.reset''),
    (''PeopleRolesAssign'', ''people.roles.assign''), (''RolesRead'', ''roles.read''),
    (''RolesManage'', ''roles.manage''), (''AuditRead'', ''audit.read''),
    (''OpenDaysRead'', ''open_days.read''), (''OpenDaysReadAssignments'', ''open_days.read_assignments''),
    (''OpenDaysSignup'', ''open_days.signup''), (''OpenDaysAssign'', ''open_days.assign''),
    (''OpenDaysManage'', ''open_days.manage''), (''EventsRead'', ''events.read''),
    (''EventsManage'', ''events.manage''), (''EventsStaffingManage'', ''events.staffing.manage''),
    (''EventsAssign'', ''events.assign''), (''EventsSignup'', ''events.signup''),
    (''EventsReadAssignments'', ''events.read_assignments''),
    (''ManagedDevicesRead'', ''managed_devices.read''),
    (''ManagedDevicesManage'', ''managed_devices.manage''),
    (''SessionPoliciesManage'', ''session_policies.manage''), (''AttendanceRead'', ''attendance.read''),
    (''AttendanceAssist'', ''attendance.assist''), (''AttendanceCorrect'', ''attendance.correct''),
    (''AttendanceStatisticsRead'', ''attendance.statistics.read''), (''SurveysRead'', ''surveys.read''),
    (''SurveysManage'', ''surveys.manage''), (''LaborordnungRead'', ''laborordnung.read''),
    (''LaborordnungManage'', ''laborordnung.manage''),
    (''LaborordnungConfirmationsRead'', ''laborordnung.confirmations.read''),
    (''VisitorEnrollmentManage'', ''visitor_enrollment.manage''),
    (''SupervisorDashboardRead'', ''supervisor_dashboard.read''),
    (''OIDCLinkSelf'', ''identities.oidc.link.self''), (''OIDCLinkAll'', ''identities.oidc.link.all''),
    (''OIDCUnlinkSelf'', ''identities.oidc.unlink.self''),
    (''OIDCUnlinkAll'', ''identities.oidc.unlink.all''), (''OIDCManage'', ''oidc.manage''),
    (''SCIMManage'', ''scim.manage''), (''MailManage'', ''mail.manage''),
    (''BrandingManage'', ''branding.manage''),
    (''InvoicingSettingsManage'', ''invoicing.settings.manage''), (''MachinesRead'', ''machines.read''),
    (''MachinesManage'', ''machines.manage''), (''TrainingsManage'', ''trainings.manage''),
    (''TrainingRecordsReadSelf'', ''training_records.read.self''),
    (''TrainingRecordsReadAll'', ''training_records.read.all''),
    (''TrainingRecordsUpdate'', ''training_records.update''),
    (''TrainingRecordsUpdateSelf'', ''training_records.update.self''),
    (''MachineJobsRead'', ''machine_jobs.read''), (''MachineJobsCreate'', ''machine_jobs.create''),
    (''MachineJobsEdit'', ''machine_jobs.edit''),
    (''MachineJobsOverridePrice'', ''machine_jobs.override_price''),
    (''MachineJobsDelete'', ''machine_jobs.delete''), (''InventoryRead'', ''inventory.read''),
    (''InventoryManage'', ''inventory.manage''), (''InventoryDelete'', ''inventory.delete''),
    (''InventoryLedgerDelete'', ''inventory.ledger.delete''),
    (''FilamentSpoolsManage'', ''filament_spools.manage''),
    (''PrinterSlotsAssign'', ''printer_slots.assign''),
    (''PrinterConnectorsRead'', ''printer_connectors.read''),
    (''PrinterConnectorsManage'', ''printer_connectors.manage''),
    (''PrinterConnectorsCredentialsManage'', ''printer_connectors.credentials.manage''),
    (''PrintArtifactsRead'', ''print_artifacts.read''), (''OrganizationsRead'', ''organizations.read''),
    (''OrganizationsManage'', ''organizations.manage''), (''PricingRead'', ''pricing.read''),
    (''PricingManage'', ''pricing.manage''), (''StatisticsRead'', ''statistics.read''),
    (''SignageRead'', ''signage.read''), (''SignageManage'', ''signage.manage''),
    (''SignageContentManage'', ''signage.content.manage''), (''SignagePublish'', ''signage.publish''),
    (''SignageOverride'', ''signage.override''), (''ConfigurationExport'', ''configuration.export''),
    (''ConfigurationImport'', ''configuration.import''), (''NotificationsSend'', ''notifications.send''),
    (''PrivacyRead'', ''privacy.read''), (''PrivacySettingsManage'', ''privacy.settings.manage''),
    (''PrivacyPoliciesManage'', ''privacy.policies.manage''),
    (''PrivacyRetentionExecute'', ''privacy.retention.execute''),
    (''PrivacyRequestsManage'', ''privacy.requests.manage''),
    (''PrivacyRequestsExecute'', ''privacy.requests.execute'')]"

definition registry :: "permission list" where
  "registry = [
    ''orders.read'', ''orders.write'', ''orders.finalize'', ''orders.reverse'', ''payments.read'',
    ''payments.record'', ''payments.reverse'', ''external_invoice_requests.read'',
    ''external_invoice_requests.manage'', ''external_invoice_requests.approve'', ''cash_movements.read'',
    ''cash_movements.record'', ''cash_movements.manage'', ''people.read.self'', ''people.read.all'',
    ''people.create'', ''people.update.self'', ''people.update.all'', ''people.delete'', ''people.merge'',
    ''people.read.matriculation'', ''people.update.matriculation'', ''people.profile_image.update.self'',
    ''people.profile_image.update.all'', ''people.profile_image.remove.self'',
    ''people.profile_image.remove.all'', ''accounts.read'', ''accounts.create'', ''accounts.delete'',
    ''accounts.enable'', ''accounts.disable'', ''accounts.login_email.update'', ''accounts.password.set'',
    ''accounts.password.reset'', ''accounts.password.enroll.self'', ''accounts.password.enroll.all'',
    ''accounts.password.remove.self'', ''accounts.password.remove.all'', ''accounts.pin.enroll.self'',
    ''accounts.pin.enroll.all'', ''accounts.pin.remove.self'', ''accounts.pin.remove.all'',
    ''accounts.pin.reset'', ''accounts.mfa.reset'', ''people.roles.assign'', ''roles.read'',
    ''roles.manage'', ''audit.read'', ''open_days.read'', ''open_days.read_assignments'',
    ''open_days.signup'', ''open_days.assign'', ''open_days.manage'', ''events.read'', ''events.manage'',
    ''events.staffing.manage'', ''events.assign'', ''events.signup'', ''events.read_assignments'',
    ''managed_devices.read'', ''managed_devices.manage'', ''session_policies.manage'', ''attendance.read'',
    ''attendance.assist'', ''attendance.correct'', ''attendance.statistics.read'', ''surveys.read'',
    ''surveys.manage'', ''laborordnung.read'', ''laborordnung.manage'',
    ''laborordnung.confirmations.read'', ''visitor_enrollment.manage'', ''supervisor_dashboard.read'',
    ''identities.oidc.link.self'', ''identities.oidc.link.all'', ''identities.oidc.unlink.self'',
    ''identities.oidc.unlink.all'', ''oidc.manage'', ''scim.manage'', ''mail.manage'', ''branding.manage'',
    ''invoicing.settings.manage'', ''machines.read'', ''machines.manage'', ''trainings.manage'',
    ''training_records.read.self'', ''training_records.read.all'', ''training_records.update'',
    ''training_records.update.self'', ''machine_jobs.read'', ''machine_jobs.create'',
    ''machine_jobs.edit'', ''machine_jobs.override_price'', ''machine_jobs.delete'', ''inventory.read'',
    ''inventory.manage'', ''inventory.delete'', ''inventory.ledger.delete'', ''filament_spools.manage'',
    ''printer_slots.assign'', ''printer_connectors.read'', ''printer_connectors.manage'',
    ''printer_connectors.credentials.manage'', ''print_artifacts.read'', ''organizations.read'',
    ''organizations.manage'', ''pricing.read'', ''pricing.manage'', ''statistics.read'', ''signage.read'',
    ''signage.manage'', ''signage.content.manage'', ''signage.publish'', ''signage.override'',
    ''configuration.export'', ''configuration.import'', ''notifications.send'', ''privacy.read'',
    ''privacy.settings.manage'', ''privacy.policies.manage'', ''privacy.retention.execute'',
    ''privacy.requests.manage'', ''privacy.requests.execute'']"

definition known :: "permission \<Rightarrow> bool" where
  "known p = (p \<in> set registry)"

text \<open>Registry: the registered permissions in string order.\<close>

definition sorted_registry :: "permission list" where
  "sorted_registry = sort registry"

section \<open>Grants and their evaluation\<close>

definition grant_everywhere :: grant_scope where "grant_everywhere = ''global''"
definition grant_any_managed_device :: grant_scope where "grant_any_managed_device = ''managed_device''"
definition grant_selected_device_types :: grant_scope where "grant_selected_device_types = ''device_type''"

definition assurance_low :: assurance where "assurance_low = ''low''"
definition assurance_normal :: assurance where "assurance_normal = ''normal''"
definition assurance_strong :: assurance where "assurance_strong = ''strong''"
definition assurance_strong_mfa :: assurance where "assurance_strong_mfa = ''strong_mfa''"

definition min_reauth_within_minutes :: int where "min_reauth_within_minutes = 1"
definition max_reauth_within_minutes :: int where "max_reauth_within_minutes = 1440"

record permission_grant =
  grant_id :: uuid
  permission_id :: permission
  scope :: grant_scope
  device_type_ids :: "uuid list"
  minimum_assurance :: assurance
  reauth_within_minutes :: "int option"

record reauth_requirement =
  req_assurance :: assurance
  within_minutes :: int

record evaluation_context =
  ctx_assurance :: assurance
  ctx_device_type :: "uuid option"

definition assurance_rank :: "assurance \<Rightarrow> int" where
  "assurance_rank v =
     (if v = assurance_low then 0 else if v = assurance_normal then 1
      else if v = assurance_strong then 2 else if v = assurance_strong_mfa then 3 else -1)"

definition valid_assurance :: "assurance \<Rightarrow> bool" where
  "valid_assurance v = (0 \<le> assurance_rank v)"

definition at_least :: "assurance \<Rightarrow> assurance \<Rightarrow> bool" where
  "at_least v minimum = (valid_assurance v \<and> valid_assurance minimum \<and> assurance_rank minimum \<le> assurance_rank v)"

definition valid_grant_scope :: "grant_scope \<Rightarrow> bool" where
  "valid_grant_scope s = (s = grant_everywhere \<or> s = grant_any_managed_device \<or> s = grant_selected_device_types)"

definition valid_reauth_window :: "int option \<Rightarrow> bool" where
  "valid_reauth_window w =
     (case w of None \<Rightarrow> True | Some m \<Rightarrow> min_reauth_within_minutes \<le> m \<and> m \<le> max_reauth_within_minutes)"

definition append_unique :: "'a list \<Rightarrow> 'a \<Rightarrow> 'a list" where
  "append_unique xs x = (if x \<in> set xs then xs else xs @ [x])"

definition grant_effective :: "permission_grant \<Rightarrow> evaluation_context \<Rightarrow> bool" where
  "grant_effective g c =
     (if \<not> known (permission_id g) \<or> \<not> valid_grant_scope (scope g) \<or> \<not> valid_assurance (minimum_assurance g) \<or>
         \<not> valid_assurance (ctx_assurance c) \<or> \<not> valid_reauth_window (reauth_within_minutes g) then False
      else if assurance_rank (ctx_assurance c) < assurance_rank (minimum_assurance g) then False
      else if scope g = grant_everywhere then True
      else case ctx_device_type c of
             None \<Rightarrow> False
           | Some d \<Rightarrow>
               if scope g = grant_any_managed_device then True
               else if scope g \<noteq> grant_selected_device_types \<or> device_type_ids g = [] then False
               else d \<in> set (device_type_ids g))"

text \<open>EffectivePermissions: the permissions of a grant set in a context, without repetition, sorted.\<close>

definition effective_permissions :: "permission_grant list \<Rightarrow> evaluation_context \<Rightarrow> permission list" where
  "effective_permissions gs c =
     sort (remdups (map permission_id (filter (\<lambda>g. known (permission_id g) \<and> grant_effective g c) gs)))"

text \<open>The proof of a fresh sign-in.\<close>

definition fresh_proof :: "assurance \<Rightarrow> time \<Rightarrow> assurance \<Rightarrow> duration \<Rightarrow> time \<Rightarrow> bool" where
  "fresh_proof proof_assurance authenticated_at minimum maximum_age now =
     (if \<not> valid_assurance minimum \<or> assurance_rank proof_assurance < assurance_rank minimum \<or>
         authenticated_at = zero_time then False
      else let age = time_sub now authenticated_at in 0 \<le> age \<and> age \<le> maximum_age)"

definition easier_requirement :: "reauth_requirement \<Rightarrow> reauth_requirement \<Rightarrow> bool" where
  "easier_requirement candidate current =
     (if assurance_rank (req_assurance candidate) \<noteq> assurance_rank (req_assurance current)
      then assurance_rank (req_assurance candidate) < assurance_rank (req_assurance current)
      else within_minutes current < within_minutes candidate)"

section \<open>Principals\<close>

text \<open>
  reauthenticationDenials: the permission checks of one request that failed only for a missing fresh
  sign-in, and the easiest sign-in among them. The maps of a principal are lists: the permission set
  without repetition, grants and pending requirements by permission.
\<close>

record reauth_denials =
  denied :: "permission list"
  easiest :: "reauth_requirement option"

record principal =
  account_id :: uuid
  person_id :: uuid
  p_assurance :: assurance
  authenticated_at :: time
  authenticated_assurance :: assurance
  master :: bool
  holds_master_role :: bool
  permissions :: "permission list"
  grants :: "(permission \<times> permission_grant list) list"
  pending :: "(permission \<times> reauth_requirement) list"
  denials :: "reauth_denials option"
  device_type_id :: "uuid option"

definition record_denial :: "reauth_denials option \<Rightarrow> permission \<Rightarrow> reauth_requirement \<Rightarrow> reauth_denials option" where
  "record_denial d permission requirement =
     (case d of
        None \<Rightarrow> None
      | Some r \<Rightarrow>
          Some (r\<lparr>denied := denied r @ [permission],
                  easiest := (case easiest r of
                      None \<Rightarrow> Some requirement
                    | Some e \<Rightarrow> Some (if easier_requirement requirement e then requirement else e))\<rparr>))"

definition has :: "principal \<Rightarrow> permission \<Rightarrow> principal \<times> bool" where
  "has p permission =
     (if \<not> known permission then (p, False)
      else if permission \<in> set (permissions p) then (p, True)
      else case map_of (pending p) permission of
             Some requirement \<Rightarrow> (p\<lparr>denials := record_denial (denials p) permission requirement\<rparr>, False)
           | None \<Rightarrow> (p, master p))"

definition permission_ids :: "principal \<Rightarrow> permission list" where
  "permission_ids p =
     sort (remdups (permissions p @
       (if master p then filter (\<lambda>permission. map_of (pending p) permission = None) registry else [])))"

definition pending_permissions :: "principal \<Rightarrow> (permission \<times> reauth_requirement) list" where
  "pending_permissions p = sort_key fst (pending p)"

definition reauthentication_denial :: "principal \<Rightarrow> reauth_requirement option" where
  "reauthentication_denial p = (case denials p of None \<Rightarrow> None | Some d \<Rightarrow> easiest d)"

text \<open>CanReadPerson and CanUpdatePerson: the all-permission is checked first, then the own record.\<close>

definition can_with_self :: "permission \<Rightarrow> permission \<Rightarrow> principal \<Rightarrow> uuid \<Rightarrow> principal \<times> bool" where
  "can_with_self all_permission self_permission p person =
     (let (p1, ok) = has p all_permission in
      if ok then (p1, True)
      else if person_id p1 = person then has p1 self_permission else (p1, False))"

definition can_read_person :: "principal \<Rightarrow> uuid \<Rightarrow> principal \<times> bool" where
  "can_read_person = can_with_self ''people.read.all'' ''people.read.self''"

definition can_update_person :: "principal \<Rightarrow> uuid \<Rightarrow> principal \<times> bool" where
  "can_update_person = can_with_self ''people.update.all'' ''people.update.self''"

definition proof_assurance :: "principal \<Rightarrow> assurance" where
  "proof_assurance p =
     (if valid_assurance (authenticated_assurance p) then authenticated_assurance p else p_assurance p)"

definition has_fresh_assurance :: "principal \<Rightarrow> assurance \<Rightarrow> duration \<Rightarrow> time \<Rightarrow> bool" where
  "has_fresh_assurance p minimum maximum_age now =
     (assurance_rank minimum \<le> assurance_rank (p_assurance p) \<and>
      fresh_proof (proof_assurance p) (authenticated_at p) minimum maximum_age now)"

definition fresh :: "principal \<Rightarrow> assurance \<Rightarrow> int option \<Rightarrow> time \<Rightarrow> bool" where
  "fresh p minimum window now =
     (case window of
        None \<Rightarrow> True
      | Some m \<Rightarrow> fresh_proof (proof_assurance p) (authenticated_at p) minimum (wrap64 (m * minute)) now)"

definition grant_applies :: "principal \<Rightarrow> permission_grant \<Rightarrow> bool" where
  "grant_applies p g =
     grant_effective g \<lparr>ctx_assurance = p_assurance p, ctx_device_type = device_type_id p\<rparr>"

definition add_pending ::
  "(permission \<times> reauth_requirement) list \<Rightarrow> permission \<Rightarrow> reauth_requirement \<Rightarrow> (permission \<times> reauth_requirement) list"
where
  "add_pending pend permission requirement =
     (case map_of pend permission of
        None \<Rightarrow> AList.update permission requirement pend
      | Some current \<Rightarrow>
          if easier_requirement requirement current then AList.update permission requirement pend else pend)"

section \<open>LoadPermissions\<close>

record grant_row =
  row_system_key :: "string option"
  row_permission_id :: "string option"
  row_grant_id :: "uuid option"
  row_scope :: "string option"
  row_minimum_assurance :: "string option"
  row_reauth_minutes :: "int option"
  row_device_type :: "uuid option"

text \<open>The state of the row loop: the master flag, the grants by id and the order of their first rows.\<close>

record load_state =
  ls_master :: bool
  by_id :: "(uuid \<times> permission_grant) list"
  grant_order :: "uuid list"

definition system_key_master :: string where "system_key_master = ''master''"

definition new_grant :: "grant_row \<Rightarrow> uuid \<Rightarrow> permission \<Rightarrow> grant_scope \<Rightarrow> permission_grant" where
  "new_grant row gid perm sc =
     \<lparr>grant_id = gid, permission_id = perm, scope = sc, device_type_ids = [],
      minimum_assurance = (case row_minimum_assurance row of None \<Rightarrow> assurance_low | Some a \<Rightarrow> a),
      reauth_within_minutes = row_reauth_minutes row\<rparr>"

definition add_device :: "grant_row \<Rightarrow> permission_grant \<Rightarrow> permission_grant" where
  "add_device row g =
     (case row_device_type row of
        None \<Rightarrow> g
      | Some d \<Rightarrow> g\<lparr>device_type_ids := append_unique (device_type_ids g) d\<rparr>)"

definition load_row :: "grant_row \<Rightarrow> load_state \<Rightarrow> load_state" where
  "load_row row st0 =
     (let st = (if row_system_key row = Some system_key_master then st0\<lparr>ls_master := True\<rparr> else st0) in
      case (row_permission_id row, row_grant_id row) of
        (Some perm, Some gid) \<Rightarrow>
          (let sc = (case row_scope row of None \<Rightarrow> grant_everywhere | Some s \<Rightarrow> s) in
           if \<not> known perm \<or> \<not> valid_grant_scope sc then st
           else case map_of (by_id st) gid of
                  Some g \<Rightarrow> st\<lparr>by_id := AList.update gid (add_device row g) (by_id st)\<rparr>
                | None \<Rightarrow>
                    (let g = new_grant row gid perm sc in
                     if \<not> valid_assurance (minimum_assurance g) then st
                     else st\<lparr>by_id := AList.update gid (add_device row g) (by_id st),
                             grant_order := grant_order st @ [gid]\<rparr>))
      | _ \<Rightarrow> st)"

text \<open>One iteration of the evaluation loop over the collected grants.\<close>

definition apply_grant :: "time \<Rightarrow> permission_grant \<Rightarrow> principal \<Rightarrow> principal" where
  "apply_grant now g p0 =
     (let p = p0\<lparr>grants := AList.update (permission_id g) (list_at (grants p0) (permission_id g) @ [g]) (grants p0)\<rparr> in
      if \<not> grant_applies p g then p
      else if fresh p (minimum_assurance g) (reauth_within_minutes g) now
        then p\<lparr>permissions := append_unique (permissions p) (permission_id g)\<rparr>
      else case reauth_within_minutes g of
             None \<Rightarrow> p
           | Some w \<Rightarrow> p\<lparr>pending := add_pending (pending p) (permission_id g)
                                \<lparr>req_assurance = minimum_assurance g, within_minutes = w\<rparr>\<rparr>)"

text \<open>One iteration of the master loop over the registry.\<close>

definition apply_master :: "(permission \<times> int) list \<Rightarrow> time \<Rightarrow> permission \<Rightarrow> principal \<Rightarrow> principal" where
  "apply_master windows now perm p =
     (case map_of windows perm of
        Some w \<Rightarrow>
          if \<not> fresh p assurance_strong_mfa (Some w) now
          then p\<lparr>pending := add_pending (pending p) perm
                   \<lparr>req_assurance = assurance_strong_mfa, within_minutes = w\<rparr>\<rparr>
          else p\<lparr>permissions := append_unique (permissions p) perm\<rparr>
      | None \<Rightarrow> p\<lparr>permissions := append_unique (permissions p) perm\<rparr>)"

definition rebuild_principal :: "principal \<Rightarrow> principal" where
  "rebuild_principal p =
     p\<lparr>master := False, holds_master_role := False,
       p_assurance := (if valid_assurance (p_assurance p) then p_assurance p else assurance_normal),
       denials := (case denials p of None \<Rightarrow> Some \<lparr>denied = [], easiest = None\<rparr> | Some d \<Rightarrow> Some d),
       permissions := [], grants := [], pending := []\<rparr>"

definition load_rows :: "grant_row list \<Rightarrow> load_state" where
  "load_rows rows = fold load_row rows \<lparr>ls_master = False, by_id = [], grant_order = []\<rparr>"

text \<open>
  The collected grants in the order of their first rows. Every id of the order is a key of the map
  (lemma \<open>load_rows_order\<close>), so no element is dropped.
\<close>

definition loaded_grants :: "load_state \<Rightarrow> permission_grant list" where
  "loaded_grants st = List.map_filter (\<lambda>gid. map_of (by_id st) gid) (grant_order st)"

text \<open>
  LoadPermissions. \<open>rows\<close> and \<open>policy\<close> are the results of GetPrincipalRolePermissions and
  ListMasterReauthenticationPermissions. A later policy entry of a permission overwrites an earlier one.
\<close>

definition load_permissions ::
  "'e + grant_row list \<Rightarrow> 'e + (permission \<times> int) list \<Rightarrow> time \<Rightarrow> principal \<Rightarrow> 'e + principal"
where
  "load_permissions rows policy now principal0 =
     (case rows of
        Inl e \<Rightarrow> Inl e
      | Inr rs \<Rightarrow>
          (let st = load_rows rs;
               p1 = fold (apply_grant now) (loaded_grants st)
                      ((rebuild_principal principal0)\<lparr>holds_master_role := ls_master st\<rparr>);
               finish = (\<lambda>p. p\<lparr>pending := filter (\<lambda>(perm, _). perm \<notin> set (permissions p)) (pending p)\<rparr>)
           in if holds_master_role p1 \<and> assurance_rank assurance_strong_mfa \<le> assurance_rank (p_assurance p1)
              then case policy of
                     Inl e \<Rightarrow> Inl e
                   | Inr entries \<Rightarrow>
                       Inr (finish (fold (apply_master (rev entries) now) registry (p1\<lparr>master := True\<rparr>)))
              else Inr (finish p1)))"

section \<open>Delegation\<close>

definition nil_uuid :: uuid where "nil_uuid = ''00000000-0000-0000-0000-000000000000''"

definition grant_covered_by :: "permission_grant \<Rightarrow> permission_grant \<Rightarrow> uuid \<Rightarrow> bool" where
  "grant_covered_by envelope requested selected =
     (if \<not> valid_grant_scope (scope envelope) \<or> \<not> valid_assurance (minimum_assurance envelope) \<or>
         assurance_rank (minimum_assurance requested) < assurance_rank (minimum_assurance envelope) then False
      else if (case reauth_within_minutes envelope of
                 None \<Rightarrow> False
               | Some w \<Rightarrow> (case reauth_within_minutes requested of None \<Rightarrow> True | Some w' \<Rightarrow> w < w')) then False
      else if scope requested = grant_everywhere then scope envelope = grant_everywhere
      else if scope requested = grant_any_managed_device
        then scope envelope = grant_everywhere \<or> scope envelope = grant_any_managed_device
      else if scope requested = grant_selected_device_types then
        (if scope envelope = grant_everywhere \<or> scope envelope = grant_any_managed_device then True
         else selected \<in> set (device_type_ids envelope))
      else False)"

definition can_delegate :: "principal \<Rightarrow> permission_grant \<Rightarrow> bool" where
  "can_delegate p g =
     (if \<not> valid_grant_scope (scope g) \<or> (scope g = grant_selected_device_types \<and> device_type_ids g = []) then False
      else if \<not> valid_assurance (minimum_assurance g) \<or> \<not> valid_reauth_window (reauth_within_minutes g) then False
      else if master p then True
      else let envelopes = list_at (grants p) (permission_id g) in
        if scope g \<noteq> grant_selected_device_types
        then list_ex (\<lambda>envelope. grant_covered_by envelope g nil_uuid) envelopes
        else list_all (\<lambda>d. list_ex (\<lambda>envelope. grant_covered_by envelope g d) envelopes) (device_type_ids g))"

definition delegable_permission_grants :: "principal \<Rightarrow> permission_grant list" where
  "delegable_permission_grants p =
     (if master p then
        map (\<lambda>v. \<lparr>grant_id = nil_uuid, permission_id = v, scope = grant_everywhere, device_type_ids = [],
                  minimum_assurance = assurance_low, reauth_within_minutes = None\<rparr>) sorted_registry
      else sort_key permission_id (sort_key grant_id (concat (map snd (grants p)))))"

section \<open>Lemmas on grants\<close>

lemma assurance_rank_range: "-1 \<le> assurance_rank v \<and> assurance_rank v \<le> 3"
  by (simp add: assurance_rank_def)

lemma append_unique_set [simp]: "set (append_unique xs x) = insert x (set xs)"
  by (auto simp: append_unique_def)

lemma append_unique_distinct [simp]: "distinct xs \<Longrightarrow> distinct (append_unique xs x)"
  by (simp add: append_unique_def)

lemma scopes_distinct [simp]:
  "grant_everywhere \<noteq> grant_any_managed_device" "grant_any_managed_device \<noteq> grant_everywhere"
  "grant_everywhere \<noteq> grant_selected_device_types" "grant_selected_device_types \<noteq> grant_everywhere"
  "grant_any_managed_device \<noteq> grant_selected_device_types" "grant_selected_device_types \<noteq> grant_any_managed_device"
  by (simp_all add: grant_everywhere_def grant_any_managed_device_def grant_selected_device_types_def)

lemma assurances_valid [simp]:
  "valid_assurance assurance_low" "valid_assurance assurance_normal"
  "valid_assurance assurance_strong" "valid_assurance assurance_strong_mfa"
  by (simp_all add: valid_assurance_def assurance_rank_def)

lemma assurance_ranks [simp]:
  "assurance_rank assurance_low = 0" "assurance_rank assurance_normal = 1"
  "assurance_rank assurance_strong = 2" "assurance_rank assurance_strong_mfa = 3"
  by (simp_all add: assurance_rank_def assurance_low_def assurance_normal_def assurance_strong_def
      assurance_strong_mfa_def)

text \<open>What a context must satisfy for a scope, as a predicate.\<close>

definition scope_admits :: "permission_grant \<Rightarrow> uuid option \<Rightarrow> bool" where
  "scope_admits g d \<longleftrightarrow>
     scope g = grant_everywhere \<or>
     (scope g = grant_any_managed_device \<and> d \<noteq> None) \<or>
     (scope g = grant_selected_device_types \<and> (\<exists>t. d = Some t \<and> t \<in> set (device_type_ids g)))"

lemma grant_effective_iff:
  "grant_effective g c \<longleftrightarrow>
     known (permission_id g) \<and> valid_assurance (minimum_assurance g) \<and>
     valid_reauth_window (reauth_within_minutes g) \<and>
     assurance_rank (minimum_assurance g) \<le> assurance_rank (ctx_assurance c) \<and>
     scope_admits g (ctx_device_type c)"
  by (auto simp: grant_effective_def scope_admits_def valid_grant_scope_def valid_assurance_def
      split: option.splits)

lemma grant_covered_by_bounds:
  assumes "grant_covered_by e g d"
  shows "valid_assurance (minimum_assurance e)"
    and "assurance_rank (minimum_assurance e) \<le> assurance_rank (minimum_assurance g)"
    and "\<forall>w. reauth_within_minutes e = Some w \<longrightarrow> (\<exists>w'. reauth_within_minutes g = Some w' \<and> w' \<le> w)"
  using assms by (auto simp: grant_covered_by_def not_less split: if_splits option.splits)

text \<open>Covering at the device type of the context carries a scope over to the envelope.\<close>

lemma grant_covered_by_scope:
  assumes "grant_covered_by e g d" "scope_admits g dev"
    and "scope g = grant_selected_device_types \<longrightarrow> dev = Some d"
  shows "scope_admits e dev"
  using assms by (auto simp: grant_covered_by_def scope_admits_def valid_grant_scope_def split: if_splits)

lemma can_delegate_covers:
  assumes "can_delegate p g" "\<not> master p" "scope_admits g dev"
  obtains e d where "e \<in> set (list_at (grants p) (permission_id g))" "grant_covered_by e g d"
    "scope g = grant_selected_device_types \<longrightarrow> dev = Some d"
proof (cases "scope g = grant_selected_device_types")
  case True
  then obtain d where d: "dev = Some d" "d \<in> set (device_type_ids g)"
    using assms(3) by (auto simp: scope_admits_def)
  with True assms obtain e where "e \<in> set (list_at (grants p) (permission_id g))" "grant_covered_by e g d"
    by (auto simp: can_delegate_def Let_def list_all_iff list_ex_iff split: if_splits)
  with d that show ?thesis by blast
next
  case False
  with assms obtain e where "e \<in> set (list_at (grants p) (permission_id g))" "grant_covered_by e g nil_uuid"
    by (auto simp: can_delegate_def Let_def list_ex_iff split: if_splits)
  with False that show ?thesis by blast
qed

lemma fresh_proof_mono:
  assumes "fresh_proof pa at m a now" "assurance_rank m' \<le> assurance_rank m" "valid_assurance m'" "a \<le> a'"
  shows "fresh_proof pa at m' a' now"
  using assms by (auto simp: fresh_proof_def Let_def split: if_splits)

lemma window_no_overflow:
  "min_reauth_within_minutes \<le> w \<Longrightarrow> w \<le> max_reauth_within_minutes \<Longrightarrow> wrap64 (w * minute) = w * minute"
  by (rule wrap64_id)
    (simp_all add: minute_def max_int64_def min_int64_def min_reauth_within_minutes_def max_reauth_within_minutes_def)

lemma fresh_mono:
  assumes "fresh p m w now" "assurance_rank m' \<le> assurance_rank m" "valid_assurance m'"
    and "valid_reauth_window w" "valid_reauth_window w'"
    and "\<forall>v. w' = Some v \<longrightarrow> (\<exists>u. w = Some u \<and> u \<le> v)"
  shows "fresh p m' w' now"
proof (cases w')
  case None
  then show ?thesis by (simp add: fresh_def)
next
  case (Some v)
  with assms(6) obtain u where u: "w = Some u" "u \<le> v" by blast
  have "wrap64 (u * minute) = u * minute" "wrap64 (v * minute) = v * minute"
    using assms(4,5) u(1) Some by (auto simp: valid_reauth_window_def intro: window_no_overflow)
  moreover have "u * minute \<le> v * minute" using u(2) by (simp add: minute_def)
  ultimately show ?thesis using assms(1-3) u(1) Some by (auto simp: fresh_def intro: fresh_proof_mono)
qed

section \<open>Loading: the collected grants\<close>

text \<open>
  Where a collected grant comes from: a row names its id, permission, assurance and window, and it has
  passed the checks of the row loop.
\<close>

definition grant_from_rows :: "grant_row list \<Rightarrow> permission_grant \<Rightarrow> bool" where
  "grant_from_rows rows g \<longleftrightarrow>
     known (permission_id g) \<and> valid_grant_scope (scope g) \<and> valid_assurance (minimum_assurance g) \<and>
     (\<exists>row \<in> set rows. row_grant_id row = Some (grant_id g) \<and> row_permission_id row = Some (permission_id g) \<and>
        row_reauth_minutes row = reauth_within_minutes g)"

definition load_state_wf :: "grant_row list \<Rightarrow> load_state \<Rightarrow> bool" where
  "load_state_wf rows st \<longleftrightarrow>
     distinct (grant_order st) \<and> set (grant_order st) = set (map fst (by_id st)) \<and>
     (\<forall>gid g. map_of (by_id st) gid = Some g \<longrightarrow> grant_id g = gid \<and> grant_from_rows rows g)"

lemma add_device_fields [simp]:
  "grant_id (add_device row g) = grant_id g" "permission_id (add_device row g) = permission_id g"
  "scope (add_device row g) = scope g" "minimum_assurance (add_device row g) = minimum_assurance g"
  "reauth_within_minutes (add_device row g) = reauth_within_minutes g"
  by (simp_all add: add_device_def split: option.splits)

lemma new_grant_fields [simp]:
  "grant_id (new_grant row gid perm sc) = gid" "permission_id (new_grant row gid perm sc) = perm"
  "scope (new_grant row gid perm sc) = sc"
  "reauth_within_minutes (new_grant row gid perm sc) = row_reauth_minutes row"
  by (simp_all add: new_grant_def)

lemma add_device_from_rows [simp]: "grant_from_rows rows (add_device row g) = grant_from_rows rows g"
  by (simp add: grant_from_rows_def)

lemma grant_from_rows_mono: "grant_from_rows rows g \<Longrightarrow> set rows \<subseteq> set rows' \<Longrightarrow> grant_from_rows rows' g"
  by (auto simp: grant_from_rows_def)

lemma load_row_wf:
  assumes "load_state_wf rows st" "row \<in> set rows"
  shows "load_state_wf rows (load_row row st)"
proof -
  define st1 where "st1 = (if row_system_key row = Some system_key_master then st\<lparr>ls_master := True\<rparr> else st)"
  have st1: "load_state_wf rows st1" "by_id st1 = by_id st" "grant_order st1 = grant_order st"
    using assms(1) by (simp_all add: st1_def load_state_wf_def)
  show ?thesis
  proof (cases "row_permission_id row = None \<or> row_grant_id row = None")
    case True
    then show ?thesis using st1(1) by (auto simp: load_row_def st1_def Let_def split: option.splits)
  next
    case False
    then obtain perm gid where ids: "row_permission_id row = Some perm" "row_grant_id row = Some gid" by auto
    define sc where "sc = (case row_scope row of None \<Rightarrow> grant_everywhere | Some s \<Rightarrow> s)"
    have step: "load_row row st =
      (if \<not> known perm \<or> \<not> valid_grant_scope sc then st1
       else case map_of (by_id st1) gid of
              Some g \<Rightarrow> st1\<lparr>by_id := AList.update gid (add_device row g) (by_id st1)\<rparr>
            | None \<Rightarrow>
                (let g = new_grant row gid perm sc in
                 if \<not> valid_assurance (minimum_assurance g) then st1
                 else st1\<lparr>by_id := AList.update gid (add_device row g) (by_id st1),
                         grant_order := grant_order st1 @ [gid]\<rparr>))"
      unfolding load_row_def Let_def ids prod.case option.case sc_def[symmetric] st1_def[symmetric] by (rule refl)
    show ?thesis
    proof (cases "map_of (by_id st1) gid")
      case None
      then have "gid \<notin> set (map fst (by_id st1))" by (simp add: map_of_eq_None_iff)
      then show ?thesis
        using st1(1) None assms(2) ids unfolding step Let_def load_state_wf_def grant_from_rows_def
        by (auto simp: keys_update update_conv' split: if_splits simp del: set_map)
    next
      case (Some g)
      then have "gid \<in> set (map fst (by_id st1))" by (force dest: map_of_SomeD)
      then show ?thesis
        using st1(1) Some unfolding step Let_def load_state_wf_def
        by (auto simp: keys_update update_conv' insert_absorb split: if_splits simp del: set_map)
    qed
  qed
qed

lemma fold_load_row_wf:
  "load_state_wf rows st \<Longrightarrow> set rs \<subseteq> set rows \<Longrightarrow> load_state_wf rows (fold load_row rs st)"
  by (induction rs arbitrary: st) (simp_all add: load_row_wf)

lemma load_rows_wf: "load_state_wf rows (load_rows rows)"
  unfolding load_rows_def by (rule fold_load_row_wf) (simp_all add: load_state_wf_def)

lemma load_rows_order: "set (grant_order (load_rows rows)) = set (map fst (by_id (load_rows rows)))"
  using load_rows_wf[of rows] by (simp add: load_state_wf_def del: set_map)

lemma loaded_grants_from_rows:
  "g \<in> set (loaded_grants (load_rows rows)) \<Longrightarrow> grant_from_rows rows g"
  using load_rows_wf[of rows]
  by (auto simp: loaded_grants_def load_state_wf_def List.map_filter_def)

lemma load_row_master: "ls_master (load_row row st) \<longleftrightarrow> ls_master st \<or> row_system_key row = Some system_key_master"
  by (auto simp: load_row_def Let_def split: option.splits)

lemma fold_load_row_master:
  "ls_master (fold load_row rs st) \<longleftrightarrow> ls_master st \<or> (\<exists>row \<in> set rs. row_system_key row = Some system_key_master)"
  by (induction rs arbitrary: st) (auto simp: load_row_master)

lemma load_rows_master: "ls_master (load_rows rows) \<longleftrightarrow> (\<exists>row \<in> set rows. row_system_key row = Some system_key_master)"
  by (simp add: load_rows_def fold_load_row_master)

section \<open>Keeping the easiest requirement\<close>

text \<open>
  Both the denial record and the pending requirements keep the best candidate seen so far under a strict
  order. The contract of such an order, and what keeping the best then guarantees.
\<close>

definition keep_better :: "('r \<Rightarrow> 'r \<Rightarrow> bool) \<Rightarrow> 'r \<Rightarrow> 'r option \<Rightarrow> 'r option" where
  "keep_better better x cur = (case cur of None \<Rightarrow> Some x | Some e \<Rightarrow> Some (if better x e then x else e))"

locale preference =
  fixes better :: "'r \<Rightarrow> 'r \<Rightarrow> bool"
  assumes better_asym: "better x y \<Longrightarrow> \<not> better y x"
    and better_split: "better x y \<Longrightarrow> better x z \<or> better z y"
begin

lemma better_irrefl: "\<not> better x x"
  using better_asym by blast

lemma keep_all_Some:
  "\<exists>e \<in> insert c (set xs). fold (keep_better better) xs (Some c) = Some e \<and> (\<forall>x \<in> insert c (set xs). \<not> better x e)"
proof (induction xs arbitrary: c)
  case Nil
  then show ?case by (simp add: better_irrefl)
next
  case (Cons x xs)
  define c' where "c' = (if better x c then x else c)"
  have "\<not> better x c'" "\<not> better c c'"
    by (auto simp: c'_def better_irrefl dest: better_asym)
  then have worse: "\<not> better x e \<and> \<not> better c e" if "\<not> better c' e" for e
    using that better_split by blast
  obtain e where e: "e \<in> insert c' (set xs)" "fold (keep_better better) xs (Some c') = Some e"
    "\<forall>x \<in> insert c' (set xs). \<not> better x e" using Cons.IH[of c'] by blast
  have "e \<in> insert c (set (x # xs))" using e(1) by (auto simp: c'_def split: if_splits)
  moreover have "fold (keep_better better) (x # xs) (Some c) = Some e"
    using e(2) by (simp add: keep_better_def c'_def)
  moreover have "\<forall>y \<in> insert c (set (x # xs)). \<not> better y e" using e(3) worse by auto
  ultimately show ?case by blast
qed

lemma keep_all:
  "case fold (keep_better better) xs None of
     None \<Rightarrow> set xs = {}
   | Some e \<Rightarrow> e \<in> set xs \<and> (\<forall>x \<in> set xs. \<not> better x e)"
proof (cases xs)
  case (Cons x ys)
  then show ?thesis using keep_all_Some[of x ys] by (auto simp: keep_better_def)
qed simp

end

interpretation requirement: preference easier_requirement
proof (unfold_locales, goal_cases)
  case (1 x y)
  then show ?case by (auto simp: easier_requirement_def split: if_splits)
next
  case (2 x y z)
  then show ?case by (auto simp: easier_requirement_def split: if_splits)
qed

lemma record_denial_easiest:
  "record_denial (Some d) perm r =
     Some (d\<lparr>denied := denied d @ [perm], easiest := keep_better easier_requirement r (easiest d)\<rparr>)"
  by (simp add: record_denial_def keep_better_def split: option.splits)

lemma map_of_add_pending:
  "map_of (add_pending pend perm r) q =
     (if q = perm then keep_better easier_requirement r (map_of pend perm) else map_of pend q)"
  by (simp add: add_pending_def keep_better_def update_conv' split: option.splits)

section \<open>Checks of a request\<close>

text \<open>The requirement a check of a permission fails for, and the principal after a sequence of checks.\<close>

definition withheld :: "principal \<Rightarrow> permission \<Rightarrow> reauth_requirement option" where
  "withheld p perm = (if known perm \<and> perm \<notin> set (permissions p) then map_of (pending p) perm else None)"

definition checked :: "principal \<Rightarrow> permission list \<Rightarrow> principal" where
  "checked p perms = fold (\<lambda>perm q. fst (has q perm)) perms p"

lemma has_state:
  "fst (has p perm) =
     (case withheld p perm of None \<Rightarrow> p | Some r \<Rightarrow> p\<lparr>denials := record_denial (denials p) perm r\<rparr>)"
  by (auto simp: has_def withheld_def split: option.splits)

lemma has_denials_irrelevant [simp]:
  "withheld (p\<lparr>denials := d\<rparr>) perm = withheld p perm" "snd (has (p\<lparr>denials := d\<rparr>) perm) = snd (has p perm)"
  by (auto simp: withheld_def has_def split: option.splits)

lemma checked_denials:
  "denials p = Some d \<Longrightarrow>
   \<exists>ids. checked p perms =
     p\<lparr>denials := Some \<lparr>denied = ids,
        easiest = fold (keep_better easier_requirement) (List.map_filter (withheld p) perms) (easiest d)\<rparr>\<rparr>"
proof (induction perms arbitrary: p d)
  case Nil
  then have "p = p\<lparr>denials := Some \<lparr>denied = denied d, easiest = easiest d\<rparr>\<rparr>" by simp
  then show ?case by (auto simp: checked_def List.map_filter_simps)
next
  case (Cons perm perms)
  show ?case
  proof (cases "withheld p perm")
    case None
    then show ?thesis using Cons.IH[OF Cons.prems]
      by (simp add: checked_def has_state List.map_filter_simps)
  next
    case (Some r)
    define d' where "d' = d\<lparr>denied := denied d @ [perm], easiest := keep_better easier_requirement r (easiest d)\<rparr>"
    have step: "fst (has p perm) = p\<lparr>denials := Some d'\<rparr>"
      using Some Cons.prems by (simp add: has_state record_denial_easiest d'_def)
    have w: "withheld (p\<lparr>denials := Some d'\<rparr>) = withheld p" by (rule ext) simp
    show ?thesis using Cons.IH[of "p\<lparr>denials := Some d'\<rparr>" d'] Some
      by (simp add: checked_def step w d'_def List.map_filter_simps)
  qed
qed

section \<open>Loading: the evaluation of the collected grants\<close>

text \<open>What the evaluation reads of a principal, and what a grant or the master policy contributes.\<close>

definition session_facts :: "principal \<Rightarrow> assurance \<times> uuid option \<times> time \<times> assurance" where
  "session_facts p = (p_assurance p, device_type_id p, authenticated_at p, authenticated_assurance p)"

definition grant_allows :: "time \<Rightarrow> principal \<Rightarrow> permission_grant \<Rightarrow> bool" where
  "grant_allows now p g = (grant_applies p g \<and> fresh p (minimum_assurance g) (reauth_within_minutes g) now)"

definition grant_withholds :: "time \<Rightarrow> principal \<Rightarrow> permission_grant \<Rightarrow> reauth_requirement \<Rightarrow> bool" where
  "grant_withholds now p g r \<longleftrightarrow>
     grant_applies p g \<and> \<not> fresh p (minimum_assurance g) (reauth_within_minutes g) now \<and>
     reauth_within_minutes g = Some (within_minutes r) \<and> req_assurance r = minimum_assurance g"

definition policy_allows :: "(permission \<times> int) list \<Rightarrow> time \<Rightarrow> principal \<Rightarrow> permission \<Rightarrow> bool" where
  "policy_allows windows now p perm =
     (case map_of windows perm of None \<Rightarrow> True | Some w \<Rightarrow> fresh p assurance_strong_mfa (Some w) now)"

definition policy_withholds ::
  "(permission \<times> int) list \<Rightarrow> time \<Rightarrow> principal \<Rightarrow> permission \<Rightarrow> reauth_requirement \<Rightarrow> bool" where
  "policy_withholds windows now p perm r \<longleftrightarrow>
     map_of windows perm = Some (within_minutes r) \<and> req_assurance r = assurance_strong_mfa \<and>
     \<not> fresh p assurance_strong_mfa (Some (within_minutes r)) now"

lemma session_facts_cong:
  assumes "session_facts p = session_facts q"
  shows "grant_applies p g = grant_applies q g" "fresh p m w now = fresh q m w now"
    "grant_allows now p g = grant_allows now q g" "grant_withholds now p g r = grant_withholds now q g r"
    "policy_allows windows now p perm = policy_allows windows now q perm"
    "policy_withholds windows now p perm r = policy_withholds windows now q perm r"
  using assms
  by (simp_all add: session_facts_def grant_applies_def fresh_def proof_assurance_def grant_allows_def
      grant_withholds_def policy_allows_def policy_withholds_def cong: option.case_cong)

lemma grants_irrelevant [simp]:
  "grant_applies (p\<lparr>grants := gs\<rparr>) g = grant_applies p g" "fresh (p\<lparr>grants := gs\<rparr>) m w now = fresh p m w now"
  by (rule session_facts_cong, simp add: session_facts_def)+

lemma apply_grant_rest [simp]:
  "session_facts (apply_grant now g p) = session_facts p" "master (apply_grant now g p) = master p"
  "holds_master_role (apply_grant now g p) = holds_master_role p" "p_assurance (apply_grant now g p) = p_assurance p"
  by (simp_all add: apply_grant_def Let_def session_facts_def split: option.splits)

lemma apply_master_rest [simp]:
  "session_facts (apply_master ws now perm p) = session_facts p" "master (apply_master ws now perm p) = master p"
  "grants (apply_master ws now perm p) = grants p" "p_assurance (apply_master ws now perm p) = p_assurance p"
  by (simp_all add: apply_master_def Let_def session_facts_def split: option.splits)

lemma fold_apply_grant_rest [simp]:
  "session_facts (fold (apply_grant now) gs p) = session_facts p" "master (fold (apply_grant now) gs p) = master p"
  "holds_master_role (fold (apply_grant now) gs p) = holds_master_role p"
  "p_assurance (fold (apply_grant now) gs p) = p_assurance p"
  by (induction gs arbitrary: p) simp_all

lemma fold_apply_master_rest [simp]:
  "session_facts (fold (apply_master ws now) perms p) = session_facts p"
  "master (fold (apply_master ws now) perms p) = master p"
  "grants (fold (apply_master ws now) perms p) = grants p"
  "p_assurance (fold (apply_master ws now) perms p) = p_assurance p"
  by (induction perms arbitrary: p) simp_all

lemma apply_grant_permissions:
  "set (permissions (apply_grant now g p)) =
     set (permissions p) \<union> (if grant_allows now p g then {permission_id g} else {})"
  by (simp add: apply_grant_def Let_def grant_allows_def split: option.splits)

lemma fold_apply_grant_permissions:
  "set (permissions (fold (apply_grant now) gs p)) =
     set (permissions p) \<union> permission_id ` {g \<in> set gs. grant_allows now p g}"
proof (induction gs arbitrary: p)
  case (Cons g gs)
  have "grant_allows now (apply_grant now g p) = grant_allows now p"
    by (rule ext, rule session_facts_cong) simp
  then show ?case by (auto simp: Cons.IH apply_grant_permissions)
qed simp

lemma apply_grant_grants:
  "list_at (grants (apply_grant now g p)) perm =
     list_at (grants p) perm @ (if permission_id g = perm then [g] else [])"
  by (simp add: apply_grant_def Let_def list_at_update split: option.splits)

lemma fold_apply_grant_grants:
  "list_at (grants (fold (apply_grant now) gs p)) perm =
     list_at (grants p) perm @ filter (\<lambda>g. permission_id g = perm) gs"
  by (induction gs arbitrary: p) (simp_all add: apply_grant_grants)

text \<open>The pending requirement of a permission is the best of a list of candidates.\<close>

definition pending_best :: "(permission \<times> reauth_requirement) list \<Rightarrow> permission \<Rightarrow> reauth_requirement set \<Rightarrow> bool" where
  "pending_best pend perm C \<longleftrightarrow>
     (\<exists>cs. set cs = C \<and> map_of pend perm = fold (keep_better easier_requirement) cs None)"

lemma pending_best_add:
  "pending_best pend perm C \<Longrightarrow> pending_best (add_pending pend q r) perm (if q = perm then insert r C else C)"
  unfolding pending_best_def map_of_add_pending
  by (auto intro!: exI[where x = "_ @ [r]"])

lemma pending_best_result:
  assumes "pending_best pend perm C"
  shows "case map_of pend perm of None \<Rightarrow> C = {} | Some r \<Rightarrow> r \<in> C \<and> (\<forall>c \<in> C. \<not> easier_requirement c r)"
proof -
  from assms obtain cs where cs: "set cs = C" "map_of pend perm = fold (keep_better easier_requirement) cs None"
    by (auto simp: pending_best_def)
  show ?thesis
    using requirement.keep_all[of cs] cs(1) unfolding cs(2) by (auto split: option.splits)
qed

lemma apply_grant_pending:
  assumes "pending_best (pending p) perm C"
  shows "pending_best (pending (apply_grant now g p)) perm
     (C \<union> {r. permission_id g = perm \<and> grant_withholds now p g r})"
proof (cases "grant_applies p g \<and> \<not> fresh p (minimum_assurance g) (reauth_within_minutes g) now")
  case False
  then have none: "{r. permission_id g = perm \<and> grant_withholds now p g r} = {}"
    by (auto simp: grant_withholds_def)
  have "pending (apply_grant now g p) = pending p" using False
    by (auto simp: apply_grant_def Let_def split: option.splits)
  then show ?thesis using assms by (simp only: none) simp
next
  case True
  then obtain w where w: "reauth_within_minutes g = Some w" by (auto simp: fresh_def split: option.splits)
  define r where "r = \<lparr>req_assurance = minimum_assurance g, within_minutes = w\<rparr>"
  have "pending (apply_grant now g p) = add_pending (pending p) (permission_id g) r" using True w
    by (simp add: apply_grant_def Let_def r_def)
  moreover have "grant_withholds now p g r' \<longleftrightarrow> r' = r" for r' using True w
    by (auto simp: grant_withholds_def r_def)
  ultimately show ?thesis using pending_best_add[OF assms, of "permission_id g" r]
    by (cases "permission_id g = perm") simp_all
qed

lemma fold_apply_grant_pending:
  assumes "pending_best (pending p) perm C"
  shows "pending_best (pending (fold (apply_grant now) gs p)) perm
     (C \<union> {r. \<exists>g \<in> set gs. permission_id g = perm \<and> grant_withholds now p g r})"
  using assms
proof (induction gs arbitrary: p C)
  case (Cons g gs)
  have same: "grant_withholds now (apply_grant now g p) = grant_withholds now p"
    by (intro ext, rule session_facts_cong) simp
  have eq: "C \<union> {r. permission_id g = perm \<and> grant_withholds now p g r} \<union>
      {r. \<exists>h \<in> set gs. permission_id h = perm \<and> grant_withholds now p h r} =
    C \<union> {r. \<exists>h \<in> set (g # gs). permission_id h = perm \<and> grant_withholds now p h r}" by auto
  show ?case using Cons.IH[OF apply_grant_pending[OF Cons.prems, of now g]] unfolding same eq by simp
qed simp

lemma apply_master_permissions:
  "set (permissions (apply_master ws now perm p)) =
     set (permissions p) \<union> (if policy_allows ws now p perm then {perm} else {})"
  by (simp add: apply_master_def policy_allows_def split: option.splits)

lemma fold_apply_master_permissions:
  "set (permissions (fold (apply_master ws now) perms p)) =
     set (permissions p) \<union> {perm \<in> set perms. policy_allows ws now p perm}"
proof (induction perms arbitrary: p)
  case (Cons perm perms)
  have "policy_allows ws now (apply_master ws now perm p) = policy_allows ws now p"
    by (rule ext, rule session_facts_cong) simp
  then show ?case by (auto simp: Cons.IH apply_master_permissions)
qed simp

lemma apply_master_pending:
  assumes "pending_best (pending p) perm C"
  shows "pending_best (pending (apply_master ws now q p)) perm
     (C \<union> {r. q = perm \<and> policy_withholds ws now p q r})"
proof (cases "policy_allows ws now p q")
  case True
  then have none: "{r. q = perm \<and> policy_withholds ws now p q r} = {}"
    by (auto simp: policy_allows_def policy_withholds_def)
  have "pending (apply_master ws now q p) = pending p" using True
    by (simp add: apply_master_def policy_allows_def split: option.splits)
  then show ?thesis using assms unfolding none by simp
next
  case False
  then obtain w where w: "map_of ws q = Some w" "\<not> fresh p assurance_strong_mfa (Some w) now"
    by (auto simp: policy_allows_def split: option.splits)
  define r where "r = \<lparr>req_assurance = assurance_strong_mfa, within_minutes = w\<rparr>"
  have "pending (apply_master ws now q p) = add_pending (pending p) q r" using w
    by (simp add: apply_master_def r_def)
  moreover have "policy_withholds ws now p q r' \<longleftrightarrow> r' = r" for r' using w
    by (auto simp: policy_withholds_def r_def)
  ultimately show ?thesis using pending_best_add[OF assms, of q r] by (cases "q = perm") simp_all
qed

lemma fold_apply_master_pending:
  assumes "pending_best (pending p) perm C"
  shows "pending_best (pending (fold (apply_master ws now) perms p)) perm
     (C \<union> {r. perm \<in> set perms \<and> policy_withholds ws now p perm r})"
  using assms
proof (induction perms arbitrary: p C)
  case (Cons q perms)
  have same: "policy_withholds ws now (apply_master ws now q p) = policy_withholds ws now p"
    by (intro ext, rule session_facts_cong) simp
  have eq: "C \<union> {r. q = perm \<and> policy_withholds ws now p q r} \<union> {r. perm \<in> set perms \<and> policy_withholds ws now p perm r} =
    C \<union> {r. perm \<in> set (q # perms) \<and> policy_withholds ws now p perm r}" by auto
  show ?case using Cons.IH[OF apply_master_pending[OF Cons.prems, of ws now q]] unfolding same eq by simp
qed simp

section \<open>The loaded principal\<close>

definition policy_windows :: "'e + (permission \<times> int) list \<Rightarrow> (permission \<times> int) list" where
  "policy_windows policy = (case policy of Inl e \<Rightarrow> [] | Inr entries \<Rightarrow> rev entries)"

text \<open>The fresh sign-ins that would allow a permission: those of applying grants and of the master policy.\<close>

definition sign_ins ::
  "permission_grant list \<Rightarrow> (permission \<times> int) list \<Rightarrow> time \<Rightarrow> principal \<Rightarrow> permission \<Rightarrow> reauth_requirement set" where
  "sign_ins gs ws now p perm =
     {r. \<exists>g \<in> set gs. permission_id g = perm \<and> grant_withholds now p g r} \<union>
     {r. master p \<and> known perm \<and> policy_withholds ws now p perm r}"

lemma map_of_filter_key: "map_of (filter (\<lambda>(k, v). P k) m) k = (if P k then map_of m k else None)"
  by (induction m) auto

lemma load_permissions_cases:
  assumes "load_permissions (Inr rows) policy now p0 = Inr p"
  obtains p2 where
    "p = p2\<lparr>pending := filter (\<lambda>(perm, _). perm \<notin> set (permissions p2)) (pending p2)\<rparr>"
    "session_facts p2 = session_facts (rebuild_principal p0)"
    "master p2 \<longleftrightarrow> ls_master (load_rows rows) \<and> 3 \<le> assurance_rank (p_assurance p2)"
    "\<And>perm. list_at (grants p2) perm = filter (\<lambda>g. permission_id g = perm) (loaded_grants (load_rows rows))"
    "set (permissions p2) = permission_id ` {g \<in> set (loaded_grants (load_rows rows)). grant_allows now p2 g} \<union>
       {perm. master p2 \<and> known perm \<and> policy_allows (policy_windows policy) now p2 perm}"
    "\<And>perm. pending_best (pending p2) perm (sign_ins (loaded_grants (load_rows rows)) (policy_windows policy) now p2 perm)"
proof -
  define gs where "gs = loaded_grants (load_rows rows)"
  define base where "base = (rebuild_principal p0)\<lparr>holds_master_role := ls_master (load_rows rows)\<rparr>"
  define p1 where "p1 = fold (apply_grant now) gs base"
  have base: "session_facts base = session_facts (rebuild_principal p0)" "permissions base = []" "grants base = []"
    "pending base = []" "\<not> master base" "holds_master_role base = ls_master (load_rows rows)"
    by (simp_all add: base_def rebuild_principal_def session_facts_def)
  have p1: "session_facts p1 = session_facts base" "\<not> master p1" "holds_master_role p1 = ls_master (load_rows rows)"
    using base by (simp_all add: p1_def)
  have allows: "grant_allows now base = grant_allows now p1" "grant_withholds now base = grant_withholds now p1"
    using p1(1) by (auto intro!: ext session_facts_cong)
  have perms1: "set (permissions p1) = permission_id ` {g \<in> set gs. grant_allows now p1 g}"
    using fold_apply_grant_permissions[of now gs base] base(2) by (simp add: p1_def[symmetric] allows)
  have grants1: "list_at (grants p1) perm = filter (\<lambda>g. permission_id g = perm) gs" for perm
    unfolding p1_def fold_apply_grant_grants base(3) by (simp add: list_at_def)
  have "pending_best (pending base) perm {}" for perm by (simp add: pending_best_def base(4))
  note pend1 = fold_apply_grant_pending[OF this, of now gs, folded p1_def, unfolded allows]
  have load: "load_permissions (Inr rows) policy now p0 =
     (if ls_master (load_rows rows) \<and> 3 \<le> assurance_rank (p_assurance p1)
      then case policy of
             Inl e \<Rightarrow> Inl e
           | Inr entries \<Rightarrow>
               let p2 = fold (apply_master (rev entries) now) registry (p1\<lparr>master := True\<rparr>)
               in Inr (p2\<lparr>pending := filter (\<lambda>(perm, _). perm \<notin> set (permissions p2)) (pending p2)\<rparr>)
      else Inr (p1\<lparr>pending := filter (\<lambda>(perm, _). perm \<notin> set (permissions p1)) (pending p1)\<rparr>))"
    unfolding load_permissions_def Let_def sum.case base_def[symmetric] gs_def[symmetric] p1_def[symmetric] p1(3)
      assurance_ranks by (rule refl)
  show ?thesis
  proof (cases "ls_master (load_rows rows) \<and> 3 \<le> assurance_rank (p_assurance p1)")
    case False
    have "p = p1\<lparr>pending := filter (\<lambda>(perm, _). perm \<notin> set (permissions p1)) (pending p1)\<rparr>"
      using assms False by (simp only: load if_False sum.inject)
    then show ?thesis
    proof (rule that)
      fix perm
      show "pending_best (pending p1) perm
         (sign_ins (loaded_grants (load_rows rows)) (policy_windows policy) now p1 perm)"
        using pend1[of perm] p1(2) by (simp add: sign_ins_def gs_def)
    qed (use p1 base(1) perms1 grants1 False in \<open>auto simp: gs_def\<close>)
  next
    case True
    then obtain entries where entries: "policy = Inr entries"
      using assms unfolding load by (auto split: sum.splits)
    define pm where "pm = p1\<lparr>master := True\<rparr>"
    define p2 where "p2 = fold (apply_master (rev entries) now) registry pm"
    have pm: "session_facts pm = session_facts p1" by (simp add: pm_def session_facts_def)
    have p2: "session_facts p2 = session_facts p1" "master p2" "grants p2 = grants p1"
      "p_assurance p2 = p_assurance p1" by (simp_all add: p2_def pm_def session_facts_def[of "_\<lparr>master := _\<rparr>"] session_facts_def[of p1])
    have same: "grant_allows now p1 = grant_allows now p2" "grant_withholds now p1 = grant_withholds now p2"
      "policy_allows ws now pm = policy_allows ws now p2" "policy_withholds ws now pm = policy_withholds ws now p2" for ws
      using p2(1) pm by (auto intro!: ext session_facts_cong)
    have "p = p2\<lparr>pending := filter (\<lambda>(perm, _). perm \<notin> set (permissions p2)) (pending p2)\<rparr>"
      using assms True unfolding load unfolding entries by (simp add: p2_def pm_def Let_def)
    then show ?thesis
    proof (rule that)
      fix perm
      have "pending_best (pending pm) perm {r. \<exists>g \<in> set gs. permission_id g = perm \<and> grant_withholds now p2 g r}"
        using pend1[of perm] by (simp add: pm_def same)
      from fold_apply_master_pending[OF this, of "rev entries" now registry, folded p2_def, unfolded same]
      show "pending_best (pending p2) perm
         (sign_ins (loaded_grants (load_rows rows)) (policy_windows policy) now p2 perm)"
        using p2(2) by (simp add: sign_ins_def gs_def entries policy_windows_def known_def)
      show "list_at (grants p2) perm = filter (\<lambda>g. permission_id g = perm) (loaded_grants (load_rows rows))"
        using grants1[of perm] by (simp add: p2(3) gs_def)
      show "set (permissions p2) = permission_id ` {g \<in> set (loaded_grants (load_rows rows)). grant_allows now p2 g} \<union>
         {perm. master p2 \<and> known perm \<and> policy_allows (policy_windows policy) now p2 perm}"
        using fold_apply_master_permissions[of "rev entries" now registry pm] perms1 p2(2)
        by (simp add: p2_def[symmetric] pm_def[symmetric] same entries policy_windows_def known_def gs_def)
          (simp add: pm_def same)
    qed (use p1 p2 base(1) True in auto)
  qed
qed

text \<open>The facts of a loaded principal, in terms of the principal itself.\<close>

lemma loaded:
  assumes "load_permissions (Inr rows) policy now p0 = Inr p"
  shows loaded_session: "session_facts p = session_facts (rebuild_principal p0)"
    and loaded_master: "master p \<longleftrightarrow> ls_master (load_rows rows) \<and> 3 \<le> assurance_rank (p_assurance p)"
    and loaded_grant_table: "list_at (grants p) perm = filter (\<lambda>g. permission_id g = perm) (loaded_grants (load_rows rows))"
    and loaded_permissions: "perm \<in> set (permissions p) \<longleftrightarrow>
      (\<exists>g \<in> set (loaded_grants (load_rows rows)). permission_id g = perm \<and> grant_allows now p g) \<or>
      (master p \<and> known perm \<and> policy_allows (policy_windows policy) now p perm)"
    and loaded_pending_in: "perm \<in> set (permissions p) \<Longrightarrow> map_of (pending p) perm = None"
    and loaded_pending: "perm \<notin> set (permissions p) \<Longrightarrow>
      pending_best (pending p) perm (sign_ins (loaded_grants (load_rows rows)) (policy_windows policy) now p perm)"
proof -
  from load_permissions_cases[OF assms] obtain p2 where p2:
    "p = p2\<lparr>pending := filter (\<lambda>(perm, _). perm \<notin> set (permissions p2)) (pending p2)\<rparr>"
    "session_facts p2 = session_facts (rebuild_principal p0)"
    "master p2 \<longleftrightarrow> ls_master (load_rows rows) \<and> 3 \<le> assurance_rank (p_assurance p2)"
    "\<And>perm. list_at (grants p2) perm = filter (\<lambda>g. permission_id g = perm) (loaded_grants (load_rows rows))"
    "set (permissions p2) = permission_id ` {g \<in> set (loaded_grants (load_rows rows)). grant_allows now p2 g} \<union>
       {perm. master p2 \<and> known perm \<and> policy_allows (policy_windows policy) now p2 perm}"
    "\<And>perm. pending_best (pending p2) perm (sign_ins (loaded_grants (load_rows rows)) (policy_windows policy) now p2 perm)"
    by blast
  have same: "session_facts p = session_facts p2" "master p = master p2" "p_assurance p = p_assurance p2"
    "grants p = grants p2" "permissions p = permissions p2"
    by (simp_all add: p2(1) session_facts_def)
  note cong = session_facts_cong[OF same(1)]
  show "session_facts p = session_facts (rebuild_principal p0)" using same p2 by simp
  show "master p \<longleftrightarrow> ls_master (load_rows rows) \<and> 3 \<le> assurance_rank (p_assurance p)" using same p2 by simp
  show "list_at (grants p) perm = filter (\<lambda>g. permission_id g = perm) (loaded_grants (load_rows rows))"
    using same p2 by simp
  show "perm \<in> set (permissions p) \<longleftrightarrow>
      (\<exists>g \<in> set (loaded_grants (load_rows rows)). permission_id g = perm \<and> grant_allows now p g) \<or>
      (master p \<and> known perm \<and> policy_allows (policy_windows policy) now p perm)"
    unfolding same(2,5) p2(5) cong by auto
  show "map_of (pending p) perm = None" if "perm \<in> set (permissions p)"
    using that by (simp add: p2(1) map_of_filter_key)
  have "sign_ins gs ws now p perm = sign_ins gs ws now p2 perm" for gs ws
    unfolding sign_ins_def same(2) cong by (rule refl)
  then show "pending_best (pending p) perm (sign_ins (loaded_grants (load_rows rows)) (policy_windows policy) now p perm)"
    if "perm \<notin> set (permissions p)" using p2(6)[of perm] that
    by (simp add: p2(1) map_of_filter_key pending_best_def)
qed

lemma loaded_permissions_known:
  assumes "load_permissions (Inr rows) policy now p0 = Inr p" "perm \<in> set (permissions p)"
  shows "known perm"
  using loaded_permissions[OF assms(1)] assms(2) loaded_grants_from_rows by (auto simp: grant_from_rows_def)

text \<open>A master's permission that the policy withholds has a pending requirement, so the bypass never applies.\<close>

lemma loaded_has:
  assumes "load_permissions (Inr rows) policy now p0 = Inr p"
  shows "snd (has p perm) \<longleftrightarrow> perm \<in> set (permissions p)"
proof (cases "perm \<in> set (permissions p)")
  case True
  then show ?thesis using loaded_permissions_known[OF assms] by (simp add: has_def)
next
  case False
  have "map_of (pending p) perm \<noteq> None" if "master p" "known perm"
  proof -
    have "\<not> policy_allows (policy_windows policy) now p perm"
      using loaded_permissions[OF assms] False that by blast
    then have "sign_ins (loaded_grants (load_rows rows)) (policy_windows policy) now p perm \<noteq> {}"
      using that by (auto simp: sign_ins_def policy_allows_def policy_withholds_def split: option.splits
          intro: exI[where x = "\<lparr>req_assurance = assurance_strong_mfa, within_minutes = _\<rparr>"])
    then show ?thesis using pending_best_result[OF loaded_pending[OF assms False]] by (auto split: option.splits)
  qed
  then show ?thesis using False by (auto simp: has_def split: option.splits)
qed

lemma loaded_withheld:
  assumes "load_permissions (Inr rows) policy now p0 = Inr p"
  shows "withheld p perm = map_of (pending p) perm"
proof (cases "perm \<in> set (permissions p)")
  case True
  then show ?thesis using loaded_pending_in[OF assms] by (simp add: withheld_def)
next
  case False
  have "known perm" if "map_of (pending p) perm = Some r" for r
    using pending_best_result[OF loaded_pending[OF assms False]] that loaded_grants_from_rows
    by (auto simp: sign_ins_def grant_from_rows_def)
  then show ?thesis using False by (auto simp: withheld_def) (metis option.exhaust)
qed

section \<open>Properties\<close>

lemma loaded_assurance:
  assumes "load_permissions (Inr rows) policy now p0 = Inr p"
  shows "p_assurance p = (if valid_assurance (p_assurance p0) then p_assurance p0 else assurance_normal)"
  using loaded_session[OF assms] by (simp add: session_facts_def rebuild_principal_def)

lemma strong_mfa_rank: "3 \<le> assurance_rank a \<longleftrightarrow> a = assurance_strong_mfa"
  by (auto simp: assurance_rank_def split: if_splits)
    (simp_all add: assurance_low_def assurance_normal_def assurance_strong_def assurance_strong_mfa_def)

text \<open>
  C16: LoadPermissions rebuilds the principal exactly from the stored rows, the master policy, the session
  and the clock: the master bypass needs a master row and a strong_mfa session, and a check of a permission
  succeeds exactly if a collected grant of it applies and is fresh, or the bypass is on and the master
  policy's window for it, if any, is fresh. Nothing of the previous principal's authorization survives,
  and PermissionIDs lists exactly the permissions whose check succeeds.
\<close>

theorem loaded_permissions_exact:
  assumes "load_permissions (Inr rows) policy now p0 = Inr p"
  shows "(master p \<longleftrightarrow>
            (\<exists>row \<in> set rows. row_system_key row = Some system_key_master) \<and> p_assurance p = assurance_strong_mfa)
       \<and> p_assurance p = (if valid_assurance (p_assurance p0) then p_assurance p0 else assurance_normal)
       \<and> (\<forall>perm. snd (has p perm) \<longleftrightarrow>
            (\<exists>g \<in> set (loaded_grants (load_rows rows)). permission_id g = perm \<and> grant_allows now p g) \<or>
            (master p \<and> known perm \<and> policy_allows (policy_windows policy) now p perm))
       \<and> set (permission_ids p) = {perm. snd (has p perm)} \<and> sorted (permission_ids p) \<and> distinct (permission_ids p)"
proof (intro conjI)
  show "master p \<longleftrightarrow>
      (\<exists>row \<in> set rows. row_system_key row = Some system_key_master) \<and> p_assurance p = assurance_strong_mfa"
    using loaded_master[OF assms] by (simp add: load_rows_master strong_mfa_rank)
  show "p_assurance p = (if valid_assurance (p_assurance p0) then p_assurance p0 else assurance_normal)"
    by (rule loaded_assurance[OF assms])
  show "\<forall>perm. snd (has p perm) \<longleftrightarrow>
      (\<exists>g \<in> set (loaded_grants (load_rows rows)). permission_id g = perm \<and> grant_allows now p g) \<or>
      (master p \<and> known perm \<and> policy_allows (policy_windows policy) now p perm)"
    using loaded_has[OF assms] loaded_permissions[OF assms] by blast
  show "set (permission_ids p) = {perm. snd (has p perm)}"
    using loaded_permissions_known[OF assms]
    by (auto simp: permission_ids_def has_def known_def split: option.splits)
  show "sorted (permission_ids p)" "distinct (permission_ids p)"
    by (simp_all add: permission_ids_def)
qed

text \<open>A session of normal assurance with an unconditional grant and one that asks for a fresh sign-in.\<close>

definition sample_rows :: "grant_row list" where
  "sample_rows =
     [\<lparr>row_system_key = None, row_permission_id = Some ''orders.read'', row_grant_id = Some ''g1'',
       row_scope = None, row_minimum_assurance = None, row_reauth_minutes = None, row_device_type = None\<rparr>,
      \<lparr>row_system_key = None, row_permission_id = Some ''orders.write'', row_grant_id = Some ''g2'',
       row_scope = Some ''device_type'', row_minimum_assurance = Some ''normal'', row_reauth_minutes = Some 10,
       row_device_type = Some ''d1''\<rparr>,
      \<lparr>row_system_key = None, row_permission_id = Some ''orders.write'', row_grant_id = Some ''g2'',
       row_scope = Some ''device_type'', row_minimum_assurance = Some ''normal'', row_reauth_minutes = Some 10,
       row_device_type = Some ''d2''\<rparr>]"

definition sample_principal :: principal where
  "sample_principal =
     \<lparr>account_id = ''a'', person_id = ''p'', p_assurance = assurance_normal, authenticated_at = 0,
      authenticated_assurance = [], master = True, holds_master_role = True, permissions = [''orders.finalize''],
      grants = [], pending = [], denials = None, device_type_id = Some ''d2''\<rparr>"

definition sample_now :: time where "sample_now = 20 * minute"

definition sample_loaded :: "unit + principal" where
  "sample_loaded = load_permissions (Inr sample_rows) (Inr []) sample_now sample_principal"

definition sample_request :: permission_grant where
  "sample_request = \<lparr>grant_id = ''new'', permission_id = ''orders.write'', scope = grant_selected_device_types,
     device_type_ids = [''d2'', ''d1''], minimum_assurance = assurance_strong, reauth_within_minutes = Some 5\<rparr>"

definition sample_facts :: "unit + principal \<Rightarrow> bool" where
  "sample_facts r = (case r of Inl _ \<Rightarrow> False | Inr p \<Rightarrow>
     \<not> master p \<and> snd (has p ''orders.read'') \<and> \<not> snd (has p ''orders.write'') \<and>
     withheld p ''orders.write'' = Some \<lparr>req_assurance = assurance_normal, within_minutes = 10\<rparr> \<and>
     can_delegate p sample_request \<and> denials p = Some \<lparr>denied = [], easiest = None\<rparr>)"

lemma sample_evaluates: "sample_facts sample_loaded"
  by code_simp

lemma sample_obtain:
  obtains p where "load_permissions (Inr sample_rows) (Inr [] :: unit + _) sample_now sample_principal = Inr p"
    "\<not> master p" "snd (has p ''orders.read'')" "\<not> snd (has p ''orders.write'')"
    "withheld p ''orders.write'' = Some \<lparr>req_assurance = assurance_normal, within_minutes = 10\<rparr>"
    "can_delegate p sample_request" "denials p = Some \<lparr>denied = [], easiest = None\<rparr>"
  using sample_evaluates by (auto simp: sample_facts_def sample_loaded_def split: sum.splits)

lemma loaded_permissions_exact_witness:
  "\<exists>p. load_permissions (Inr sample_rows) (Inr [] :: unit + _) sample_now sample_principal = Inr p \<and> \<not> master p \<and>
     set (permission_ids p) = {perm. snd (has p perm)} \<and>
     (\<exists>g \<in> set (loaded_grants (load_rows sample_rows)). permission_id g = ''orders.read'' \<and> grant_allows sample_now p g)"
proof -
  obtain p where p: "load_permissions (Inr sample_rows) (Inr [] :: unit + _) sample_now sample_principal = Inr p"
    "\<not> master p" "snd (has p ''orders.read'')"
    by (rule sample_obtain)
  from loaded_permissions_exact[OF p(1)] p show ?thesis by blast
qed

text \<open>
  C14: No privilege escalation by delegation: if a non-master principal, loaded from rows whose fresh-sign-in
  windows satisfy the column's check constraint, may delegate a grant, then in every context in which the
  delegated grant is effective one of the delegator's own grants of the same permission, stored in a row of
  the delegator, is effective too, and any session whose sign-in is fresh for the delegated grant is fresh for
  that grant.
\<close>

theorem delegation_no_escalation:
  assumes "load_permissions (Inr rows) policy now p0 = Inr p"
    and "\<forall>row \<in> set rows. valid_reauth_window (row_reauth_minutes row)"
    and "can_delegate p g" "\<not> master p" "grant_effective g c"
  shows "\<exists>e. (\<exists>row \<in> set rows. row_grant_id row = Some (grant_id e) \<and> row_permission_id row = Some (permission_id g)) \<and>
           permission_id e = permission_id g \<and> grant_effective e c \<and>
           (\<forall>q t. fresh q (minimum_assurance g) (reauth_within_minutes g) t \<longrightarrow>
                  fresh q (minimum_assurance e) (reauth_within_minutes e) t)"
proof -
  from assms(5) have g: "scope_admits g (ctx_device_type c)" "valid_reauth_window (reauth_within_minutes g)"
    "assurance_rank (minimum_assurance g) \<le> assurance_rank (ctx_assurance c)"
    by (simp_all add: grant_effective_iff)
  obtain e d where e: "e \<in> set (list_at (grants p) (permission_id g))" "grant_covered_by e g d"
    "scope g = grant_selected_device_types \<longrightarrow> ctx_device_type c = Some d"
    using can_delegate_covers[OF assms(3,4) g(1)] by blast
  have row: "permission_id e = permission_id g" "grant_from_rows rows e"
    using e(1) loaded_grants_from_rows unfolding loaded_grant_table[OF assms(1)] by auto
  have w: "valid_reauth_window (reauth_within_minutes e)"
    using row(2) assms(2) by (auto simp: grant_from_rows_def)
  note b = grant_covered_by_bounds[OF e(2)]
  have "grant_effective e c"
    using grant_covered_by_scope[OF e(2) g(1) e(3)] b g(3) w row(2)
    by (auto simp: grant_effective_iff grant_from_rows_def)
  then show ?thesis using row fresh_mono[OF _ b(2) b(1) g(2) w b(3)]
    by (auto simp: grant_from_rows_def)
qed

lemma delegation_no_escalation_witness:
  "\<exists>p e. load_permissions (Inr sample_rows) (Inr [] :: unit + _) sample_now sample_principal = Inr p \<and>
     can_delegate p sample_request \<and> permission_id e = ''orders.write'' \<and>
     grant_effective e \<lparr>ctx_assurance = assurance_strong, ctx_device_type = Some ''d1''\<rparr>"
proof -
  obtain p where p: "load_permissions (Inr sample_rows) (Inr [] :: unit + _) sample_now sample_principal = Inr p"
    "\<not> master p" "can_delegate p sample_request" by (rule sample_obtain)
  have "\<forall>row \<in> set sample_rows. valid_reauth_window (row_reauth_minutes row)"
    "grant_effective sample_request \<lparr>ctx_assurance = assurance_strong, ctx_device_type = Some ''d1''\<rparr>"
    "permission_id sample_request = ''orders.write''" by code_simp+
  with delegation_no_escalation[OF p(1) _ p(3,2)] p show ?thesis by metis
qed

text \<open>
  C20: A loaded principal withholds a permission for a missing fresh sign-in exactly if the permission is not
  effective and some applying grant or the master policy would allow it after one, and the requirement it
  reports is one of those sign-ins, with none of them easier. After any sequence of checks the request
  reports a sign-in exactly if a check failed only for a missing one, and then the easiest of those.
\<close>

theorem reported_sign_in_easiest:
  assumes "load_permissions (Inr rows) policy now p0 = Inr p"
    and "denials p = Some \<lparr>denied = [], easiest = None\<rparr>"
  shows "(case withheld p perm of
            None \<Rightarrow> snd (has p perm) \<or>
                    sign_ins (loaded_grants (load_rows rows)) (policy_windows policy) now p perm = {}
          | Some r \<Rightarrow> \<not> snd (has p perm) \<and>
                    r \<in> sign_ins (loaded_grants (load_rows rows)) (policy_windows policy) now p perm \<and>
                    (\<forall>c \<in> sign_ins (loaded_grants (load_rows rows)) (policy_windows policy) now p perm.
                       \<not> easier_requirement c r))
       \<and> (case reauthentication_denial (checked p perms) of
            None \<Rightarrow> (\<forall>perm \<in> set perms. withheld p perm = None)
          | Some r \<Rightarrow> (\<exists>perm \<in> set perms. withheld p perm = Some r) \<and>
                    (\<forall>perm \<in> set perms. \<forall>c. withheld p perm = Some c \<longrightarrow> \<not> easier_requirement c r))"
proof
  show "case withheld p perm of
            None \<Rightarrow> snd (has p perm) \<or>
                    sign_ins (loaded_grants (load_rows rows)) (policy_windows policy) now p perm = {}
          | Some r \<Rightarrow> \<not> snd (has p perm) \<and>
                    r \<in> sign_ins (loaded_grants (load_rows rows)) (policy_windows policy) now p perm \<and>
                    (\<forall>c \<in> sign_ins (loaded_grants (load_rows rows)) (policy_windows policy) now p perm.
                       \<not> easier_requirement c r)"
  proof (cases "perm \<in> set (permissions p)")
    case True
    then show ?thesis using loaded_has[OF assms(1)] by (simp add: withheld_def)
  next
    case False
    with pending_best_result[OF loaded_pending[OF assms(1) False]] loaded_has[OF assms(1)] show ?thesis
      unfolding loaded_withheld[OF assms(1)] by (simp split: option.splits)
  qed
  have elems: "set (List.map_filter (withheld p) perms) = {r. \<exists>perm \<in> set perms. withheld p perm = Some r}"
    by (force simp: List.map_filter_def)
  have "reauthentication_denial (checked p perms) =
      fold (keep_better easier_requirement) (List.map_filter (withheld p) perms) None"
    using checked_denials[OF assms(2), of perms] by (auto simp: reauthentication_denial_def)
  then show "case reauthentication_denial (checked p perms) of
            None \<Rightarrow> (\<forall>perm \<in> set perms. withheld p perm = None)
          | Some r \<Rightarrow> (\<exists>perm \<in> set perms. withheld p perm = Some r) \<and>
                    (\<forall>perm \<in> set perms. \<forall>c. withheld p perm = Some c \<longrightarrow> \<not> easier_requirement c r)"
    using requirement.keep_all[of "List.map_filter (withheld p) perms"] unfolding elems
    by (auto split: option.splits) (metis option.exhaust)
qed

lemma reported_sign_in_easiest_witness:
  "\<exists>p. load_permissions (Inr sample_rows) (Inr [] :: unit + _) sample_now sample_principal = Inr p \<and>
     reauthentication_denial (checked p [''orders.write'', ''orders.read'']) =
       Some \<lparr>req_assurance = assurance_normal, within_minutes = 10\<rparr>"
proof -
  obtain p where p: "load_permissions (Inr sample_rows) (Inr [] :: unit + _) sample_now sample_principal = Inr p"
    "snd (has p ''orders.read'')"
    "withheld p ''orders.write'' = Some \<lparr>req_assurance = assurance_normal, within_minutes = 10\<rparr>"
    "denials p = Some \<lparr>denied = [], easiest = None\<rparr>" by (rule sample_obtain)
  have "withheld p ''orders.read'' = None"
    using loaded_has[OF p(1)] p(2) by (simp add: withheld_def)
  with reported_sign_in_easiest[OF p(1,4), of "''orders.read''" "[''orders.write'', ''orders.read'']"] p show ?thesis
    by (auto split: option.splits)
qed

text \<open>
  C18: The reported sign-in is enough: if a loaded principal withholds a permission for a requirement, and
  the account then proves the required assurance, the principal loaded at that moment from the same rows and
  the same master policy holds the permission. The windows satisfy the tables' check constraints.
\<close>

theorem reported_sign_in_suffices:
  assumes "load_permissions (Inr rows) policy now p0 = Inr p" "withheld p perm = Some r"
    and "\<forall>row \<in> set rows. valid_reauth_window (row_reauth_minutes row)"
    and "\<forall>(_, w) \<in> set (policy_windows policy). valid_reauth_window (Some w)"
    and "t \<noteq> zero_time"
    and "load_permissions (Inr rows) policy t
           (p0\<lparr>authenticated_at := t, authenticated_assurance := req_assurance r\<rparr>) = Inr q"
  shows "snd (has q perm)"
proof -
  have perm: "perm \<notin> set (permissions p)" "map_of (pending p) perm = Some r"
    using assms(2) loaded_withheld[OF assms(1), of perm] by (auto simp: withheld_def split: if_splits)
  have r: "r \<in> sign_ins (loaded_grants (load_rows rows)) (policy_windows policy) now p perm"
    using pending_best_result[OF loaded_pending[OF assms(1) perm(1)]] perm(2) by simp
  have sess: "p_assurance q = p_assurance p" "device_type_id q = device_type_id p" "authenticated_at q = t"
    "authenticated_assurance q = req_assurance r"
    using loaded_session[OF assms(1)] loaded_session[OF assms(6)]
    by (simp_all add: session_facts_def rebuild_principal_def)
  have fresh_now: "fresh q (req_assurance r) (Some (within_minutes r)) t"
    if "valid_assurance (req_assurance r)" "valid_reauth_window (Some (within_minutes r))"
    using that assms(5) window_no_overflow[of "within_minutes r"] sess
    by (simp add: fresh_def fresh_proof_def proof_assurance_def valid_reauth_window_def Let_def
        time_sub_def min_reauth_within_minutes_def minute_def max_int64_def min_int64_def)
  from r consider
      (grant) g where "g \<in> set (loaded_grants (load_rows rows))" "permission_id g = perm" "grant_withholds now p g r"
    | (master) "master p" "known perm" "policy_withholds (policy_windows policy) now p perm r"
    by (auto simp: sign_ins_def)
  then show ?thesis
  proof cases
    case grant
    have "valid_reauth_window (reauth_within_minutes g)"
      using loaded_grants_from_rows[OF grant(1)] assms(3) by (auto simp: grant_from_rows_def)
    moreover have "grant_applies p g" using grant(3) by (simp add: grant_withholds_def)
    then have "grant_applies q g" "valid_assurance (minimum_assurance g)"
      using sess(1,2) by (simp_all only: grant_applies_def) (simp add: grant_effective_iff)
    ultimately have "grant_allows t q g"
      using grant(3) fresh_now by (simp add: grant_allows_def grant_withholds_def)
    then show ?thesis using grant loaded_has[OF assms(6)] loaded_permissions[OF assms(6)] by blast
  next
    case master
    have "valid_reauth_window (Some (within_minutes r))" using master(3) assms(4)
      by (auto simp: policy_withholds_def dest: map_of_SomeD)
    then have "policy_allows (policy_windows policy) t q perm"
      using master(3) fresh_now by (simp add: policy_withholds_def policy_allows_def)
    moreover have "master q" using master(1) loaded_master[OF assms(1)] loaded_master[OF assms(6)] sess by simp
    ultimately show ?thesis using master(2) loaded_has[OF assms(6)] loaded_permissions[OF assms(6)] by blast
  qed
qed

lemma sample_reload:
  "(case load_permissions (Inr sample_rows) (Inr [] :: unit + _) sample_now
      (sample_principal\<lparr>authenticated_at := sample_now, authenticated_assurance := assurance_normal\<rparr>) of
      Inl _ \<Rightarrow> False | Inr q \<Rightarrow> True)"
  "\<forall>row \<in> set sample_rows. valid_reauth_window (row_reauth_minutes row)" "sample_now \<noteq> zero_time"
  by code_simp+

lemma reported_sign_in_suffices_witness:
  "\<exists>q. load_permissions (Inr sample_rows) (Inr [] :: unit + _) sample_now
      (sample_principal\<lparr>authenticated_at := sample_now, authenticated_assurance := assurance_normal\<rparr>) = Inr q \<and>
     snd (has q ''orders.write'')"
proof -
  obtain p where p: "load_permissions (Inr sample_rows) (Inr [] :: unit + _) sample_now sample_principal = Inr p"
    "withheld p ''orders.write'' = Some \<lparr>req_assurance = assurance_normal, within_minutes = 10\<rparr>"
    by (rule sample_obtain)
  obtain q where q: "load_permissions (Inr sample_rows) (Inr [] :: unit + _) sample_now
      (sample_principal\<lparr>authenticated_at := sample_now, authenticated_assurance := assurance_normal\<rparr>) = Inr q"
    using sample_reload(1) by (auto split: sum.splits)
  have "snd (has q ''orders.write'')"
    by (rule reported_sign_in_suffices[OF p(1,2) sample_reload(2) _ sample_reload(3)])
      (simp_all add: q policy_windows_def)
  with q show ?thesis by blast
qed

text \<open>
  EffectivePermissions lists, sorted and once each, exactly the permissions of the grants that are
  effective in the context, and it is monotone: no permission is lost in a context whose assurance is at
  least as high and whose managed device is the same, or is there in place of none.
\<close>

theorem effective_permissions_spec:
  "set (effective_permissions gs c) = permission_id ` {g \<in> set gs. grant_effective g c}
   \<and> sorted (effective_permissions gs c) \<and> distinct (effective_permissions gs c)
   \<and> (assurance_rank (ctx_assurance c) \<le> assurance_rank (ctx_assurance c') \<and>
      (ctx_device_type c = None \<or> ctx_device_type c = ctx_device_type c') \<longrightarrow>
      set (effective_permissions gs c) \<subseteq> set (effective_permissions gs c'))"
proof (intro conjI impI)
  have set_eq: "set (effective_permissions gs c) = permission_id ` {g \<in> set gs. grant_effective g c}" for c
    by (auto simp: effective_permissions_def grant_effective_iff)
  show "set (effective_permissions gs c) = permission_id ` {g \<in> set gs. grant_effective g c}" by (rule set_eq)
  show "sorted (effective_permissions gs c)" "distinct (effective_permissions gs c)"
    by (simp_all add: effective_permissions_def)
  show "set (effective_permissions gs c) \<subseteq> set (effective_permissions gs c')"
    if "assurance_rank (ctx_assurance c) \<le> assurance_rank (ctx_assurance c') \<and>
      (ctx_device_type c = None \<or> ctx_device_type c = ctx_device_type c')"
  proof -
    have "grant_effective g c'" if "grant_effective g c" for g
      using that \<open>_ \<and> _\<close> by (elim conjE disjE) (simp_all add: grant_effective_iff scope_admits_def)
    then show ?thesis unfolding set_eq by blast
  qed
qed

lemma effective_permissions_spec_witness:
  "set (effective_permissions [sample_request] \<lparr>ctx_assurance = assurance_strong, ctx_device_type = None\<rparr>) \<subseteq>
   set (effective_permissions [sample_request] \<lparr>ctx_assurance = assurance_strong, ctx_device_type = Some ''d1''\<rparr>)"
  by (rule effective_permissions_spec[THEN conjunct2, THEN conjunct2, THEN conjunct2, THEN mp]) simp

end
