(* ===== verification/Survey_Conditions.thy ===== *)
theory Survey_Conditions
  imports Prelude
begin

text \<open>
  backend/internal/surveys: the definition of a survey (clean and the display conditions of
  conditions.go), how insertQuestions stores it and loadQuestions reads it back, and the plan of a
  submission (planAnswers, validateAnswer). The tables survey_questions and survey_question_options are
  lists of rows in insertion order; their two queries order by position and id. ids.New is the argument
  \<open>fresh\<close>, a sequence of identifiers; strings.ToLower is the argument \<open>lower\<close>.
\<close>

section \<open>Data\<close>

type_synonym uuid = string

definition single_choice :: string where "single_choice = ''single_choice''"
definition multiple_choice :: string where "multiple_choice = ''multiple_choice''"
definition free_text :: string where "free_text = ''free_text''"
definition rating :: string where "rating = ''rating''"
definition yes_no :: string where "yes_no = ''yes_no''"

definition one_of :: string where "one_of = ''one_of''"
definition includes_any :: string where "includes_any = ''includes_any''"
definition less_equal :: string where "less_equal = ''lte''"
definition greater_eq :: string where "greater_eq = ''gte''"
definition equals :: string where "equals = ''eq''"

record condition_input =
  in_position :: int
  in_operator :: string
  in_options :: "int list"
  in_number :: "int option"
  in_boolean :: "bool option"

record stored_condition =
  source_id :: uuid
  source_position :: int
  operator :: string
  cond_options :: "uuid list"
  cond_number :: "int option"
  cond_boolean :: "bool option"

record question_input =
  in_kind :: string
  in_prompt :: string
  in_required :: bool
  in_labels :: "string list"
  in_rating_min :: "int option"
  in_rating_max :: "int option"
  in_condition :: "condition_input option"

record survey_input =
  in_name :: string
  in_title :: string
  in_description :: "string option"
  in_introduction :: "string option"
  in_anonymous :: bool
  in_questions :: "question_input list"
  expected_version :: int

record survey_option =
  option_id :: uuid
  label :: string
  option_position :: int

record question =
  question_id :: uuid
  kind :: string
  prompt :: string
  required :: bool
  position :: int
  options :: "survey_option list"
  rating_min :: "int option"
  rating_max :: "int option"
  display_condition :: "stored_condition option"

record answer_input =
  answer_question :: uuid
  answer_options :: "uuid list"
  text_value :: "string option"
  numeric_value :: "int option"
  boolean_value :: "bool option"

section \<open>Conditions\<close>

definition matches :: "stored_condition \<Rightarrow> answer_input \<Rightarrow> bool" where
  "matches c a =
     (if operator c = one_of \<or> operator c = includes_any
      then list_ex (\<lambda>i. i \<in> set (cond_options c)) (answer_options a)
      else if operator c = less_equal then
        (case (numeric_value a, cond_number c) of (Some v, Some n) \<Rightarrow> v \<le> n | _ \<Rightarrow> False)
      else if operator c = greater_eq then
        (case (numeric_value a, cond_number c) of (Some v, Some n) \<Rightarrow> n \<le> v | _ \<Rightarrow> False)
      else if operator c = equals then
        (case cond_boolean c of
           Some b \<Rightarrow> boolean_value a = Some b
         | None \<Rightarrow> (case (numeric_value a, cond_number c) of (Some v, Some n) \<Rightarrow> v = n | _ \<Rightarrow> False))
      else False)"

definition condition_misfit :: app_error where
  "condition_misfit = invalid_field ''the condition does not fit the question it refers to''"

text \<open>The number of option positions of a choice condition: in range and without repetition.\<close>

definition validate_condition_against :: "condition_input \<Rightarrow> question_input \<Rightarrow> app_error + unit" where
  "validate_condition_against c source =
     (if in_kind source = single_choice \<or> in_kind source = multiple_choice then
        (if in_operator c \<noteq> (if in_kind source = multiple_choice then includes_any else one_of) \<or>
            in_number c \<noteq> None \<or> in_boolean c \<noteq> None \<or> in_options c = [] then Inl condition_misfit
         else if \<not> list_all (\<lambda>p. 1 \<le> p \<and> p \<le> int (length (in_labels source))) (in_options c) \<or>
                 \<not> distinct (in_options c) then Inl condition_misfit
         else Inr ())
      else if in_kind source = rating then
        (case (in_number c, in_rating_min source, in_rating_max source) of
           (Some n, Some lo, Some hi) \<Rightarrow>
             if (in_operator c \<noteq> less_equal \<and> in_operator c \<noteq> greater_eq \<and> in_operator c \<noteq> equals) \<or>
                in_options c \<noteq> [] \<or> in_boolean c \<noteq> None \<or> n < lo \<or> hi < n
             then Inl condition_misfit else Inr ()
         | _ \<Rightarrow> Inl condition_misfit)
      else if in_kind source = yes_no then
        (if in_operator c \<noteq> equals \<or> in_boolean c = None \<or> in_number c \<noteq> None \<or> in_options c \<noteq> []
         then Inl condition_misfit else Inr ())
      else Inl condition_misfit)"

text \<open>validateConditions: \<open>qs\<close> are all questions, \<open>rest\<close> those from index \<open>i\<close> on.\<close>

fun validate_conditions_from :: "question_input list \<Rightarrow> nat \<Rightarrow> question_input list \<Rightarrow> app_error + unit" where
  "validate_conditions_from qs i [] = Inr ()"
| "validate_conditions_from qs i (q # rest) =
     (case in_condition q of
        None \<Rightarrow> validate_conditions_from qs (Suc i) rest
      | Some c \<Rightarrow>
          let source = in_position c - 1 in
          if source < 0 \<or> int i \<le> source
          then Inl (invalid_field ''a condition must refer to an earlier question'')
          else and_then (validate_condition_against c (qs ! nat source))
                 (\<lambda>_. validate_conditions_from qs (Suc i) rest))"

definition validate_conditions :: "question_input list \<Rightarrow> app_error + unit" where
  "validate_conditions qs = validate_conditions_from qs 0 qs"

section \<open>The checks of a survey definition\<close>

text \<open>The option loop of clean: labels are trimmed, non-empty, at most 500 runes and distinct up to case.\<close>

fun clean_labels :: "(string \<Rightarrow> string) \<Rightarrow> string list \<Rightarrow> string list \<Rightarrow> app_error + string list" where
  "clean_labels lower seen [] = Inr []"
| "clean_labels lower seen (l # ls) =
     (let lab = trim_space l; key = lower lab in
      if lab = [] \<or> 500 < rune_count lab \<or> key \<in> set seen
      then Inl (invalid_field ''choice labels must be unique and non-empty'')
      else and_then (clean_labels lower (key # seen) ls) (\<lambda>rest. Inr (lab # rest)))"

definition check_kind :: "question_input \<Rightarrow> app_error + unit" where
  "check_kind q =
     (if in_kind q = single_choice \<or> in_kind q = multiple_choice then
        (if length (in_labels q) < 2 \<or> 50 < length (in_labels q)
         then Inl (invalid_field ''choice questions need between 2 and 50 options'')
         else if in_rating_min q \<noteq> None \<or> in_rating_max q \<noteq> None
         then Inl (invalid_field ''only rating questions accept rating bounds'')
         else Inr ())
      else if in_kind q = rating then
        (case (in_rating_min q, in_rating_max q) of
           (Some lo, Some hi) \<Rightarrow>
             if lo < 0 \<or> 10 < hi \<or> hi \<le> lo \<or> in_labels q \<noteq> []
             then Inl (invalid_field ''rating bounds are invalid'') else Inr ()
         | _ \<Rightarrow> Inl (invalid_field ''rating bounds are invalid''))
      else if in_kind q = free_text \<or> in_kind q = yes_no then
        (if in_labels q \<noteq> [] \<or> in_rating_min q \<noteq> None \<or> in_rating_max q \<noteq> None
         then Inl (invalid_field ''this question type does not accept options or rating bounds'') else Inr ())
      else Inl (invalid_field ''question kind is invalid''))"

definition clean_question :: "(string \<Rightarrow> string) \<Rightarrow> question_input \<Rightarrow> app_error + question_input" where
  "clean_question lower q0 =
     (let q = q0\<lparr>in_prompt := trim_space (in_prompt q0)\<rparr> in
      if in_prompt q = [] \<or> 1000 < rune_count (in_prompt q)
      then Inl (invalid_field ''question prompts are required'')
      else and_then (check_kind q) (\<lambda>_.
           and_then (clean_labels lower [] (in_labels q)) (\<lambda>ls. Inr (q\<lparr>in_labels := ls\<rparr>))))"

fun clean_questions :: "(string \<Rightarrow> string) \<Rightarrow> question_input list \<Rightarrow> app_error + question_input list" where
  "clean_questions lower [] = Inr []"
| "clean_questions lower (q # qs) =
     and_then (clean_question lower q) (\<lambda>q'.
       and_then (clean_questions lower qs) (\<lambda>qs'. Inr (q' # qs')))"

definition clean :: "(string \<Rightarrow> string) \<Rightarrow> survey_input \<Rightarrow> app_error + survey_input" where
  "clean lower i0 =
     (let i = i0\<lparr>in_name := trim_space (in_name i0), in_title := trim_space (in_title i0)\<rparr> in
      if in_name i = [] \<or> 160 < rune_count (in_name i) \<or> in_title i = [] \<or> 200 < rune_count (in_title i)
      then Inl (invalid_field ''name and title are required'')
      else
        let j = i\<lparr>in_description := trimmed (in_description i), in_introduction := trimmed (in_introduction i)\<rparr> in
        if length (in_questions j) < 1 \<or> 100 < length (in_questions j)
        then Inl (invalid_field ''a survey needs between 1 and 100 questions'')
        else and_then (clean_questions lower (in_questions j)) (\<lambda>qs.
             and_then (validate_conditions qs) (\<lambda>_. Inr (j\<lparr>in_questions := qs\<rparr>))))"

section \<open>Answers\<close>

definition answer_not_applicable :: app_error where
  "answer_not_applicable =
     new_error 422 ''survey_answer_not_applicable'' ''An answer was given to a question whose condition is not met''"

definition answer_values :: "answer_input \<Rightarrow> nat" where
  "answer_values a =
     length (filter id [text_value a \<noteq> None, numeric_value a \<noteq> None, boolean_value a \<noteq> None, answer_options a \<noteq> []])"

definition validate_answer :: "question \<Rightarrow> answer_input \<Rightarrow> app_error + answer_input" where
  "validate_answer q a =
     (if kind q = single_choice \<or> kind q = multiple_choice then
        (if answer_values a \<noteq> 1 \<or> answer_options a = [] \<or>
            (kind q = single_choice \<and> length (answer_options a) \<noteq> 1)
         then Inl (invalid_field ''choice answer is invalid'')
         else if \<not> list_all (\<lambda>i. i \<in> set (map option_id (options q))) (answer_options a) \<or> \<not> distinct (answer_options a)
         then Inl (invalid_field ''choice answer contains an invalid option'')
         else Inr a)
      else if kind q = free_text then
        (case text_value a of
           None \<Rightarrow> Inl (invalid_field ''free-text answer is invalid'')
         | Some t \<Rightarrow>
             if answer_values a \<noteq> 1 \<or> trim_space t = [] then Inl (invalid_field ''free-text answer is invalid'')
             else Inr (a\<lparr>text_value := Some (trim_space t)\<rparr>))
      else if kind q = rating then
        (case (numeric_value a, rating_min q, rating_max q) of
           (Some v, Some lo, Some hi) \<Rightarrow>
             if answer_values a \<noteq> 1 \<or> v < lo \<or> hi < v then Inl (invalid_field ''rating answer is invalid'') else Inr a
         | _ \<Rightarrow> Inl (invalid_field ''rating answer is invalid''))
      else if kind q = yes_no then
        (if answer_values a \<noteq> 1 \<or> boolean_value a = None then Inl (invalid_field ''yes/no answer is invalid'') else Inr a)
      else Inl (invalid_field ''question kind is invalid''))"

text \<open>The loop of planAnswers over the questions, with the accepted answers by question.\<close>

fun plan_loop ::
  "(uuid \<times> answer_input) list \<Rightarrow> (uuid \<times> answer_input) list \<Rightarrow> (question \<times> answer_input) list \<Rightarrow>
   question list \<Rightarrow> app_error + (question \<times> answer_input) list"
where
  "plan_loop submitted accepted planned [] = Inr planned"
| "plan_loop submitted accepted planned (q # qs) =
     (let answer = map_of submitted (question_id q);
          hidden = (case display_condition q of
                      None \<Rightarrow> False
                    | Some c \<Rightarrow>
                        (case map_of accepted (source_id c) of None \<Rightarrow> True | Some source \<Rightarrow> \<not> matches c source))
      in if hidden then
           (if answer \<noteq> None then Inl answer_not_applicable else plan_loop submitted accepted planned qs)
         else case answer of
                None \<Rightarrow>
                  if required q then Inl (invalid_field ''all required questions must be answered'')
                  else plan_loop submitted accepted planned qs
              | Some a \<Rightarrow>
                  and_then (validate_answer q a) (\<lambda>normalized.
                    plan_loop submitted (AList.update (question_id q) normalized accepted)
                      (planned @ [(q, normalized)]) qs))"

definition plan_answers :: "question list \<Rightarrow> answer_input list \<Rightarrow> app_error + (question \<times> answer_input) list" where
  "plan_answers qs as =
     (if \<not> distinct (map answer_question as) then Inl (invalid_field ''each question may be answered once'')
      else if \<not> list_all (\<lambda>a. answer_question a \<in> set (map question_id qs)) as
      then Inl (invalid_field ''answer references an unknown question'')
      else plan_loop (map (\<lambda>a. (answer_question a, a)) as) [] [] qs)"

section \<open>Storage\<close>

record question_row =
  row_id :: uuid
  row_version :: uuid
  row_kind :: string
  row_prompt :: string
  row_required :: bool
  row_position :: int
  row_rating_min :: "int option"
  row_rating_max :: "int option"
  row_cond_question :: "uuid option"
  row_cond_operator :: "string option"
  row_cond_options :: "uuid list"
  row_cond_number :: "int option"
  row_cond_boolean :: "bool option"

record option_row =
  opt_row_id :: uuid
  opt_row_question :: uuid
  opt_row_label :: string
  opt_row_position :: int

text \<open>The state of insertQuestions: used identifiers, the ids of the questions and options, the tables.\<close>

record insert_state =
  ids_used :: nat
  question_ids :: "uuid list"
  option_ids :: "uuid list list"
  question_rows :: "question_row list"
  option_rows :: "option_row list"

definition zero_uuid :: uuid where "zero_uuid = ''00000000-0000-0000-0000-000000000000''"

text \<open>The condition columns; an index out of range panics (\<open>None\<close>).\<close>

fun collect_option_ids :: "uuid list \<Rightarrow> int list \<Rightarrow> uuid list option" where
  "collect_option_ids ids [] = Some []"
| "collect_option_ids ids (p # ps) =
     (case go_index ids (p - 1) of
        None \<Rightarrow> None
      | Some i \<Rightarrow> (case collect_option_ids ids ps of None \<Rightarrow> None | Some is \<Rightarrow> Some (i # is)))"

definition with_condition :: "insert_state \<Rightarrow> condition_input option \<Rightarrow> question_row \<Rightarrow> question_row option" where
  "with_condition st condition row =
     (case condition of
        None \<Rightarrow> Some row
      | Some c \<Rightarrow>
          (case go_index (question_ids st) (in_position c - 1) of
             None \<Rightarrow> None
           | Some source \<Rightarrow>
               let row' = row\<lparr>row_cond_question := Some source, row_cond_operator := Some (in_operator c),
                              row_cond_number := in_number c, row_cond_boolean := in_boolean c\<rparr> in
               if in_options c = [] then Some row'
               else case go_index (option_ids st) (in_position c - 1) of
                      None \<Rightarrow> None
                    | Some ids \<Rightarrow>
                        (case collect_option_ids ids (in_options c) of
                           None \<Rightarrow> None
                         | Some cs \<Rightarrow> Some (row'\<lparr>row_cond_options := cs\<rparr>))))"

definition insert_option :: "(nat \<Rightarrow> uuid) \<Rightarrow> uuid \<Rightarrow> nat \<Rightarrow> nat \<times> string \<Rightarrow> insert_state \<Rightarrow> insert_state" where
  "insert_option fresh qid index = (\<lambda>(k, l) st.
     let oid = fresh (ids_used st) in
     st\<lparr>ids_used := Suc (ids_used st),
        option_ids := (option_ids st)[index := option_ids st ! index @ [oid]],
        option_rows := option_rows st @
          [\<lparr>opt_row_id = oid, opt_row_question = qid, opt_row_label = l, opt_row_position = int (k + 1)\<rparr>]\<rparr>)"

definition insert_question ::
  "(nat \<Rightarrow> uuid) \<Rightarrow> uuid \<Rightarrow> nat \<Rightarrow> question_input \<Rightarrow> insert_state \<Rightarrow> insert_state option" where
  "insert_question fresh version index q st0 =
     (let qid = fresh (ids_used st0);
          st = st0\<lparr>ids_used := Suc (ids_used st0), question_ids := (question_ids st0)[index := qid]\<rparr>;
          row = \<lparr>row_id = qid, row_version = version, row_kind = in_kind q, row_prompt = in_prompt q,
                 row_required = in_required q, row_position = int (index + 1), row_rating_min = in_rating_min q,
                 row_rating_max = in_rating_max q, row_cond_question = None, row_cond_operator = None,
                 row_cond_options = [], row_cond_number = None, row_cond_boolean = None\<rparr>
      in case with_condition st (in_condition q) row of
           None \<Rightarrow> None
         | Some r \<Rightarrow>
             Some (fold (insert_option fresh qid index) (enumerate 0 (in_labels q))
                     (st\<lparr>question_rows := question_rows st @ [r]\<rparr>)))"

fun insert_questions_from ::
  "(nat \<Rightarrow> uuid) \<Rightarrow> uuid \<Rightarrow> nat \<Rightarrow> question_input list \<Rightarrow> insert_state \<Rightarrow> insert_state option" where
  "insert_questions_from fresh version index [] st = Some st"
| "insert_questions_from fresh version index (q # qs) st =
     (case insert_question fresh version index q st of
        None \<Rightarrow> None
      | Some st' \<Rightarrow> insert_questions_from fresh version (Suc index) qs st')"

definition insert_questions ::
  "(nat \<Rightarrow> uuid) \<Rightarrow> nat \<Rightarrow> uuid \<Rightarrow> question_input list \<Rightarrow> question_row list \<Rightarrow> option_row list \<Rightarrow> insert_state option" where
  "insert_questions fresh n version qs rows opts =
     insert_questions_from fresh version 0 qs
       \<lparr>ids_used = n, question_ids = replicate (length qs) zero_uuid, option_ids = replicate (length qs) [],
        question_rows = rows, option_rows = opts\<rparr>"

definition load_options :: "option_row list \<Rightarrow> uuid \<Rightarrow> survey_option list" where
  "load_options opts qid =
     map (\<lambda>r. \<lparr>option_id = opt_row_id r, label = opt_row_label r, option_position = opt_row_position r\<rparr>)
       (sort_key opt_row_position (sort_key opt_row_id (filter (\<lambda>r. opt_row_question r = qid) opts)))"

definition load_condition :: "question_row list \<Rightarrow> question_row \<Rightarrow> stored_condition option" where
  "load_condition rows r =
     (case (row_cond_question r, row_cond_operator r) of
        (Some source, Some op) \<Rightarrow>
          Some \<lparr>source_id = source,
                source_position = (case map_of (rev (map (\<lambda>r. (row_id r, row_position r)) rows)) source of
                                     None \<Rightarrow> 0 | Some p \<Rightarrow> p),
                operator = op, cond_options = row_cond_options r, cond_number = row_cond_number r,
                cond_boolean = row_cond_boolean r\<rparr>
      | _ \<Rightarrow> None)"

definition load_questions :: "question_row list \<Rightarrow> option_row list \<Rightarrow> uuid \<Rightarrow> question list" where
  "load_questions all_rows opts version =
     (let rows = sort_key row_position (sort_key row_id (filter (\<lambda>r. row_version r = version) all_rows)) in
      map (\<lambda>r. \<lparr>question_id = row_id r, kind = row_kind r, prompt = row_prompt r, required = row_required r,
                position = row_position r, options = load_options opts (row_id r), rating_min = row_rating_min r,
                rating_max = row_rating_max r, display_condition = load_condition rows r\<rparr>) rows)"

section \<open>What a valid definition guarantees\<close>

definition condition_ok :: "question_input list \<Rightarrow> nat \<Rightarrow> condition_input \<Rightarrow> bool" where
  "condition_ok qs k c \<longleftrightarrow>
     1 \<le> in_position c \<and> in_position c \<le> int k \<and>
     validate_condition_against c (qs ! nat (in_position c - 1)) = Inr ()"

lemma validate_conditions_from_ok:
  "validate_conditions_from qs i rest = Inr () \<Longrightarrow> k < length rest \<Longrightarrow> in_condition (rest ! k) = Some c \<Longrightarrow>
   condition_ok qs (i + k) c"
proof (induction qs i rest arbitrary: k rule: validate_conditions_from.induct)
  case (2 qs i q rest)
  show ?case
  proof (cases k)
    case 0
    then show ?thesis using 2(3,5)
      by (auto simp: Let_def condition_ok_def and_then_Inr_iff split: if_splits)
  next
    case (Suc k')
    then show ?thesis
      using 2 by (cases "in_condition q") (auto simp: Let_def and_then_Inr_iff split: if_splits)
  qed
qed simp

lemma validate_conditions_ok:
  "validate_conditions qs = Inr () \<Longrightarrow> k < length qs \<Longrightarrow> in_condition (qs ! k) = Some c \<Longrightarrow> condition_ok qs k c"
  using validate_conditions_from_ok[of qs 0 qs k c] by (simp add: validate_conditions_def)

lemma condition_options_in_range:
  assumes "validate_condition_against c source = Inr ()" "p \<in> set (in_options c)"
  shows "1 \<le> p" "p \<le> int (length (in_labels source))" "in_kind source = single_choice \<or> in_kind source = multiple_choice"
  using assms by (auto simp: validate_condition_against_def list_all_iff split: if_splits option.splits)

lemma clean_conditions: "clean lower i = Inr j \<Longrightarrow> validate_conditions (in_questions j) = Inr ()"
  by (auto simp: clean_def Let_def and_then_Inr_iff split: if_splits)

section \<open>Insertion in closed form\<close>

definition id_base :: "nat \<Rightarrow> question_input list \<Rightarrow> nat \<Rightarrow> nat" where
  "id_base n qs k = n + (\<Sum>q \<leftarrow> take k qs. Suc (length (in_labels q)))"

definition nth_id :: "(nat \<Rightarrow> uuid) \<Rightarrow> nat \<Rightarrow> question_input list \<Rightarrow> nat \<Rightarrow> uuid" where
  "nth_id fresh n qs k = fresh (id_base n qs k)"

definition nth_option_ids :: "(nat \<Rightarrow> uuid) \<Rightarrow> nat \<Rightarrow> question_input list \<Rightarrow> nat \<Rightarrow> uuid list" where
  "nth_option_ids fresh n qs k =
     map (\<lambda>j. fresh (Suc (id_base n qs k) + j)) [0..<length (in_labels (qs ! k))]"

definition new_options :: "(nat \<Rightarrow> uuid) \<Rightarrow> uuid \<Rightarrow> nat \<Rightarrow> nat \<Rightarrow> string list \<Rightarrow> option_row list" where
  "new_options fresh qid n k ls =
     map (\<lambda>j. \<lparr>opt_row_id = fresh (n + j), opt_row_question = qid, opt_row_label = ls ! j,
              opt_row_position = int (k + j + 1)\<rparr>) [0..<length ls]"

definition nth_row :: "(nat \<Rightarrow> uuid) \<Rightarrow> nat \<Rightarrow> uuid \<Rightarrow> question_input list \<Rightarrow> nat \<Rightarrow> question_row" where
  "nth_row fresh n version qs k =
     (let q = qs ! k;
          row = \<lparr>row_id = nth_id fresh n qs k, row_version = version, row_kind = in_kind q, row_prompt = in_prompt q,
                 row_required = in_required q, row_position = int (k + 1), row_rating_min = in_rating_min q,
                 row_rating_max = in_rating_max q, row_cond_question = None, row_cond_operator = None,
                 row_cond_options = [], row_cond_number = None, row_cond_boolean = None\<rparr>
      in case in_condition q of
           None \<Rightarrow> row
         | Some c \<Rightarrow>
             row\<lparr>row_cond_question := Some (nth_id fresh n qs (nat (in_position c - 1))),
                 row_cond_operator := Some (in_operator c),
                 row_cond_options := map (\<lambda>p. nth_option_ids fresh n qs (nat (in_position c - 1)) ! nat (p - 1)) (in_options c),
                 row_cond_number := in_number c, row_cond_boolean := in_boolean c\<rparr>)"

definition stored_state ::
  "(nat \<Rightarrow> uuid) \<Rightarrow> nat \<Rightarrow> uuid \<Rightarrow> question_input list \<Rightarrow> question_row list \<Rightarrow> option_row list \<Rightarrow> nat \<Rightarrow> insert_state" where
  "stored_state fresh n version qs rows opts k =
     \<lparr>ids_used = id_base n qs k,
      question_ids = map (nth_id fresh n qs) [0..<k] @ replicate (length qs - k) zero_uuid,
      option_ids = map (nth_option_ids fresh n qs) [0..<k] @ replicate (length qs - k) [],
      question_rows = rows @ map (nth_row fresh n version qs) [0..<k],
      option_rows = opts @ concat (map (\<lambda>k. new_options fresh (nth_id fresh n qs k) (Suc (id_base n qs k)) 0
                                             (in_labels (qs ! k))) [0..<k])\<rparr>"

lemma id_base_Suc: "k < length qs \<Longrightarrow> id_base n qs (Suc k) = Suc (id_base n qs k) + length (in_labels (qs ! k))"
  by (simp add: id_base_def take_Suc_conv_app_nth)

lemma new_options_Cons:
  "new_options fresh qid n k (l # ls) =
     \<lparr>opt_row_id = fresh n, opt_row_question = qid, opt_row_label = l, opt_row_position = int (k + 1)\<rparr> #
     new_options fresh qid (Suc n) (Suc k) ls"
  unfolding new_options_def
  by (simp only: length_Cons upt_conv_Cons[OF zero_less_Suc] list.map map_Suc_upt[symmetric] map_map o_def) simp

lemma fold_insert_option:
  "index < length (option_ids st) \<Longrightarrow>
   fold (insert_option fresh qid index) (enumerate k ls) st =
     st\<lparr>ids_used := ids_used st + length ls,
        option_ids := (option_ids st)[index := option_ids st ! index @ map (\<lambda>j. fresh (ids_used st + j)) [0..<length ls]],
        option_rows := option_rows st @ new_options fresh qid (ids_used st) k ls\<rparr>"
proof (induction ls arbitrary: k st)
  case Nil
  then show ?case by (simp add: new_options_def)
next
  case (Cons l ls)
  have shift: "map (\<lambda>j. fresh (m + j)) [0..<Suc r] = fresh m # map (\<lambda>j. fresh (Suc m + j)) [0..<r]" for m r
    by (simp only: upt_conv_Cons[OF zero_less_Suc] list.map map_Suc_upt[symmetric] map_map o_def) simp
  have step: "insert_option fresh qid index (k, l) st =
      st\<lparr>ids_used := Suc (ids_used st),
         option_ids := (option_ids st)[index := option_ids st ! index @ [fresh (ids_used st)]],
         option_rows := option_rows st @
           [\<lparr>opt_row_id = fresh (ids_used st), opt_row_question = qid, opt_row_label = l, opt_row_position = int (k + 1)\<rparr>]\<rparr>"
    by (simp add: insert_option_def Let_def)
  show ?case
    using Cons.prems by (simp add: step Cons.IH new_options_Cons shift del: upt_Suc)
qed

lemma collect_option_ids_nth:
  "\<forall>p \<in> set ps. 1 \<le> p \<and> p \<le> int (length ids) \<Longrightarrow>
   collect_option_ids ids ps = Some (map (\<lambda>p. ids ! nat (p - 1)) ps)"
  by (induction ps) (auto simp: go_index_def)

lemma insert_question_step:
  assumes "k < length qs" "\<forall>c. in_condition (qs ! k) = Some c \<longrightarrow> condition_ok qs k c"
  shows "insert_question fresh version k (qs ! k) (stored_state fresh n version qs rows opts k) =
         Some (stored_state fresh n version qs rows opts (Suc k))"
proof -
  define st where "st = stored_state fresh n version qs rows opts k"
  define st1 where "st1 = st\<lparr>ids_used := Suc (ids_used st), question_ids := (question_ids st)[k := nth_id fresh n qs k]\<rparr>"
  define row where "row = \<lparr>row_id = nth_id fresh n qs k, row_version = version, row_kind = in_kind (qs ! k),
    row_prompt = in_prompt (qs ! k),
    row_required = in_required (qs ! k), row_position = int (k + 1), row_rating_min = in_rating_min (qs ! k),
    row_rating_max = in_rating_max (qs ! k), row_cond_question = None, row_cond_operator = None,
    row_cond_options = [], row_cond_number = None, row_cond_boolean = None\<rparr>"
  have upd: "(xs @ replicate (length qs - k) z)[k := v] = xs @ v # replicate (length qs - Suc k) z"
    if "length xs = k" for xs :: "'b list" and z v
    using assms(1) that by (simp add: list_update_append Suc_diff_Suc[symmetric] del: Suc_diff_Suc)
  have lens: "length (option_ids st) = length qs" "length (question_ids st) = length qs"
    using assms(1) by (simp_all add: st_def stored_state_def)
  have cond: "with_condition st1 (in_condition (qs ! k)) row = Some (nth_row fresh n version qs k)"
  proof (cases "in_condition (qs ! k)")
    case None
    then show ?thesis by (simp add: with_condition_def nth_row_def row_def Let_def)
  next
    case (Some c)
    with assms have c: "1 \<le> in_position c" "in_position c \<le> int k"
      "validate_condition_against c (qs ! nat (in_position c - 1)) = Inr ()" by (auto simp: condition_ok_def)
    define s where "s = nat (in_position c - 1)"
    have s: "s < k" "in_position c - 1 = int s" using c by (auto simp: s_def)
    have q: "go_index (question_ids st1) (int s) = Some (nth_id fresh n qs s)"
      "go_index (option_ids st1) (int s) = Some (nth_option_ids fresh n qs s)"
      using s(1) assms(1) by (simp_all add: st1_def st_def stored_state_def nth_append)
    have "collect_option_ids (nth_option_ids fresh n qs s) (in_options c) =
        Some (map (\<lambda>p. nth_option_ids fresh n qs s ! nat (p - 1)) (in_options c))"
      using condition_options_in_range[OF c(3)] by (intro collect_option_ids_nth) (simp add: nth_option_ids_def s_def)
    with q Some show ?thesis
      by (simp add: with_condition_def nth_row_def row_def Let_def s(2) s_def[symmetric])
  qed
  have "insert_question fresh version k (qs ! k) st =
    Some (fold (insert_option fresh (nth_id fresh n qs k) k) (enumerate 0 (in_labels (qs ! k)))
      (st1\<lparr>question_rows := question_rows st1 @ [nth_row fresh n version qs k]\<rparr>))"
    using cond unfolding st1_def row_def
    by (simp add: insert_question_def Let_def nth_id_def st_def stored_state_def)
  also have "\<dots> = Some (stored_state fresh n version qs rows opts (Suc k))"
    using assms(1) lens
    by (simp add: fold_insert_option st1_def)
      (simp add: st_def stored_state_def upd id_base_Suc nth_append nth_option_ids_def)
  finally show ?thesis by (simp add: st_def)
qed

lemma insert_questions_closed:
  assumes "validate_conditions qs = Inr ()"
  shows "insert_questions fresh n version qs rows opts = Some (stored_state fresh n version qs rows opts (length qs))"
proof -
  have "insert_questions_from fresh version k (drop k qs) (stored_state fresh n version qs rows opts k) =
      Some (stored_state fresh n version qs rows opts (length qs))" if "k \<le> length qs" for k
    using that
  proof (induction k rule: inc_induct)
    case (step k)
    then have "drop k qs = qs ! k # drop (Suc k) qs" by (simp add: Cons_nth_drop_Suc)
    then show ?case
      using step insert_question_step[of k qs] validate_conditions_ok[OF assms] by simp
  qed simp
  from this[of 0] show ?thesis
    by (simp add: insert_questions_def stored_state_def id_base_def)
qed

section \<open>Reading a stored definition back\<close>

text \<open>The definition a stored question stands for: ids of the condition become positions again.\<close>

definition option_position_of :: "survey_option list \<Rightarrow> uuid \<Rightarrow> int" where
  "option_position_of os i = (case find (\<lambda>q. option_id q = i) os of None \<Rightarrow> 0 | Some q \<Rightarrow> option_position q)"

definition condition_input_of :: "question list \<Rightarrow> stored_condition \<Rightarrow> condition_input" where
  "condition_input_of qs c =
     \<lparr>in_position = source_position c, in_operator = operator c,
      in_options = map (option_position_of (options (qs ! nat (source_position c - 1)))) (cond_options c),
      in_number = cond_number c, in_boolean = cond_boolean c\<rparr>"

definition question_input_of :: "question list \<Rightarrow> question \<Rightarrow> question_input" where
  "question_input_of qs q =
     \<lparr>in_kind = kind q, in_prompt = prompt q, in_required = required q, in_labels = map label (options q),
      in_rating_min = rating_min q, in_rating_max = rating_max q,
      in_condition = map_option (condition_input_of qs) (display_condition q)\<rparr>"

lemma id_base_mono: "k < l \<Longrightarrow> l \<le> length qs \<Longrightarrow> id_base n qs k < id_base n qs l"
proof (induction l rule: nat_induct)
  case (Suc l)
  then show ?case by (cases "k = l") (simp_all add: id_base_Suc)
qed simp

lemma nth_id_inj:
  assumes "inj fresh" "k < length qs" "l < length qs"
  shows "nth_id fresh n qs k = nth_id fresh n qs l \<longleftrightarrow> k = l"
proof -
  have "id_base n qs k = id_base n qs l \<longleftrightarrow> k = l"
    using id_base_mono[of k l qs n] id_base_mono[of l k qs n] assms(2,3)
    by (cases k l rule: linorder_cases) auto
  then show ?thesis by (simp add: nth_id_def inj_eq[OF assms(1)])
qed

lemma nth_option_ids_distinct:
  assumes "inj fresh"
  shows "distinct (nth_option_ids fresh n qs k)"
  by (simp add: nth_option_ids_def distinct_map) (rule inj_onI, simp add: inj_eq[OF assms])

definition loaded_option :: "(nat \<Rightarrow> uuid) \<Rightarrow> nat \<Rightarrow> question_input list \<Rightarrow> nat \<Rightarrow> nat \<Rightarrow> survey_option" where
  "loaded_option fresh n qs k j =
     \<lparr>option_id = nth_option_ids fresh n qs k ! j, label = in_labels (qs ! k) ! j, option_position = int (j + 1)\<rparr>"

lemma load_options_stored:
  assumes "inj fresh" "k < length qs" "\<forall>r \<in> set opts. \<forall>m \<ge> n. opt_row_question r \<noteq> fresh m"
  shows "load_options (option_rows (stored_state fresh n version qs rows opts (length qs))) (nth_id fresh n qs k) =
         map (loaded_option fresh n qs k) [0..<length (in_labels (qs ! k))]"
proof -
  let ?new = "\<lambda>l. new_options fresh (nth_id fresh n qs l) (Suc (id_base n qs l)) 0 (in_labels (qs ! l))"
  let ?P = "\<lambda>r. opt_row_question r = nth_id fresh n qs k"
  have "n \<le> id_base n qs k" by (simp add: id_base_def)
  then have "filter ?P opts = []" using assms(3) by (auto simp: filter_empty_conv nth_id_def)
  moreover have "filter ?P (concat (map ?new ls)) = concat (map ?new (filter (\<lambda>l. l = k) ls))"
    if "set ls \<subseteq> {0..<length qs}" for ls
    using that
  proof (induction ls)
    case (Cons l ls)
    have "filter ?P (?new l) = (if l = k then ?new l else [])"
      using Cons.prems assms(2) by (auto simp: new_options_def filter_map o_def nth_id_inj[OF assms(1)])
    with Cons show ?case by auto
  qed simp
  moreover have "filter (\<lambda>l. l = k) [0..<length qs] = [k]"
    using assms(2) by (induction qs rule: rev_induct) (auto simp: less_Suc_eq)
  ultimately have "filter ?P (option_rows (stored_state fresh n version qs rows opts (length qs))) = ?new k"
    by (simp add: stored_state_def)
  moreover have "sort_key opt_row_position (sort_key opt_row_id (?new k)) = ?new k"
    by (rule order_by_strict) (auto simp: new_options_def o_def distinct_map inj_on_def sorted_iff_nth_mono)
  ultimately show ?thesis
    by (simp add: load_options_def)
      (simp add: new_options_def o_def loaded_option_def nth_option_ids_def)
qed

lemma stored_version_rows:
  assumes "\<forall>r \<in> set rows. row_version r \<noteq> version"
  shows "sort_key row_position (sort_key row_id (filter (\<lambda>r. row_version r = version)
           (question_rows (stored_state fresh n version qs rows opts (length qs))))) =
         map (nth_row fresh n version qs) [0..<length qs]"
proof -
  have fields: "row_version (nth_row fresh n version qs k) = version" "row_position (nth_row fresh n version qs k) = int (k + 1)"
    for k by (simp_all add: nth_row_def Let_def split: option.splits)
  have none: "filter (\<lambda>r. row_version r = version) rows = []" using assms by (auto simp: filter_empty_conv)
  have "filter (\<lambda>r. row_version r = version) (question_rows (stored_state fresh n version qs rows opts (length qs))) =
      map (nth_row fresh n version qs) [0..<length qs]"
    by (simp add: stored_state_def none filter_map o_def fields)
  moreover have "sort_key row_position (sort_key row_id (map (nth_row fresh n version qs) [0..<length qs])) =
      map (nth_row fresh n version qs) [0..<length qs]"
    by (rule order_by_strict) (auto simp: o_def fields distinct_map inj_on_def sorted_iff_nth_mono)
  ultimately show ?thesis by simp
qed

lemma option_position_of_loaded:
  assumes "inj fresh" "1 \<le> p" "p \<le> int (length (in_labels (qs ! k)))"
  shows "option_position_of (map (loaded_option fresh n qs k) [0..<length (in_labels (qs ! k))])
           (nth_option_ids fresh n qs k ! nat (p - 1)) = p"
proof -
  let ?m = "length (in_labels (qs ! k))"
  have j: "nat (p - 1) < ?m" using assms by linarith
  have "find (\<lambda>x. option_id x = nth_option_ids fresh n qs k ! nat (p - 1)) (map (loaded_option fresh n qs k) [0..<?m]) =
      Some (loaded_option fresh n qs k (nat (p - 1)))"
    unfolding find_Some_iff
    by (rule exI[where x = "nat (p - 1)"])
      (use j in \<open>auto simp: loaded_option_def nth_option_ids_def inj_eq[OF assms(1)]\<close>)
  then show ?thesis using assms(2) by (simp add: option_position_of_def loaded_option_def)
qed

definition loaded_question :: "(nat \<Rightarrow> uuid) \<Rightarrow> nat \<Rightarrow> question_input list \<Rightarrow> nat \<Rightarrow> question" where
  "loaded_question fresh n qs k =
     \<lparr>question_id = nth_id fresh n qs k, kind = in_kind (qs ! k), prompt = in_prompt (qs ! k),
      required = in_required (qs ! k), position = int (k + 1),
      options = map (loaded_option fresh n qs k) [0..<length (in_labels (qs ! k))],
      rating_min = in_rating_min (qs ! k), rating_max = in_rating_max (qs ! k),
      display_condition = map_option (\<lambda>c.
        \<lparr>source_id = nth_id fresh n qs (nat (in_position c - 1)), source_position = in_position c,
         operator = in_operator c,
         cond_options = map (\<lambda>p. nth_option_ids fresh n qs (nat (in_position c - 1)) ! nat (p - 1)) (in_options c),
         cond_number = in_number c, cond_boolean = in_boolean c\<rparr>) (in_condition (qs ! k))\<rparr>"

lemma load_condition_stored:
  assumes "inj fresh" "k < length qs" "\<forall>c. in_condition (qs ! k) = Some c \<longrightarrow> condition_ok qs k c"
  shows "load_condition (map (nth_row fresh n version qs) [0..<length qs]) (nth_row fresh n version qs k) =
         display_condition (loaded_question fresh n qs k)"
proof (cases "in_condition (qs ! k)")
  case None
  then show ?thesis by (simp add: load_condition_def nth_row_def loaded_question_def Let_def)
next
  case (Some c)
  define s where "s = nat (in_position c - 1)"
  have s: "s < length qs" "in_position c = int (s + 1)"
    using assms Some by (auto simp: condition_ok_def s_def)
  let ?m = "map (\<lambda>r. (row_id r, row_position r)) (map (nth_row fresh n version qs) [0..<length qs])"
  have fields: "row_id (nth_row fresh n version qs l) = nth_id fresh n qs l"
    "row_position (nth_row fresh n version qs l) = int (l + 1)" for l
    by (simp_all add: nth_row_def Let_def split: option.splits)
  have "distinct (map fst (rev ?m))"
    using nth_id_inj[OF assms(1)] by (auto simp: rev_map[symmetric] o_def fields distinct_map inj_on_def)
  moreover have "(nth_id fresh n qs s, int (s + 1)) \<in> set (rev ?m)" using s(1) by (force simp: fields)
  ultimately have "map_of (rev ?m) (nth_id fresh n qs s) = Some (int (s + 1))" by (rule map_of_is_SomeI)
  then have position: "map_of (rev ?m) (nth_id fresh n qs s) = Some (in_position c)" by (simp only: s(2))
  have row: "row_cond_question (nth_row fresh n version qs k) = Some (nth_id fresh n qs s)"
    "row_cond_operator (nth_row fresh n version qs k) = Some (in_operator c)"
    "row_cond_options (nth_row fresh n version qs k) =
       map (\<lambda>p. nth_option_ids fresh n qs s ! nat (p - 1)) (in_options c)"
    "row_cond_number (nth_row fresh n version qs k) = in_number c"
    "row_cond_boolean (nth_row fresh n version qs k) = in_boolean c"
    by (simp_all add: nth_row_def Let_def Some s_def)
  show ?thesis
    unfolding load_condition_def row option.case prod.case position by (simp add: Some loaded_question_def s_def)
qed

lemma load_questions_stored:
  assumes "inj fresh" "validate_conditions qs = Inr ()" "\<forall>r \<in> set rows. row_version r \<noteq> version"
    and "\<forall>r \<in> set opts. \<forall>m \<ge> n. opt_row_question r \<noteq> fresh m"
  shows "load_questions (question_rows (stored_state fresh n version qs rows opts (length qs)))
           (option_rows (stored_state fresh n version qs rows opts (length qs))) version =
         map (loaded_question fresh n qs) [0..<length qs]"
  unfolding load_questions_def stored_version_rows[OF assms(3)] Let_def map_map
proof (rule map_cong[OF refl])
  fix k assume "k \<in> set [0..<length qs]"
  then have k: "k < length qs" by simp
  note c = load_condition_stored[OF assms(1) k, of n version] and o = load_options_stored[OF assms(1) k assms(4)]
  have fields: "row_id (nth_row fresh n version qs k) = nth_id fresh n qs k"
    "row_kind (nth_row fresh n version qs k) = in_kind (qs ! k)"
    "row_prompt (nth_row fresh n version qs k) = in_prompt (qs ! k)"
    "row_required (nth_row fresh n version qs k) = in_required (qs ! k)"
    "row_position (nth_row fresh n version qs k) = int (k + 1)"
    "row_rating_min (nth_row fresh n version qs k) = in_rating_min (qs ! k)"
    "row_rating_max (nth_row fresh n version qs k) = in_rating_max (qs ! k)"
    by (simp_all add: nth_row_def Let_def split: option.splits)
  show "((\<lambda>r. \<lparr>question_id = row_id r, kind = row_kind r, prompt = row_prompt r, required = row_required r,
            position = row_position r,
            options = load_options (option_rows (stored_state fresh n version qs rows opts (length qs))) (row_id r),
            rating_min = row_rating_min r, rating_max = row_rating_max r,
            display_condition = load_condition (map (nth_row fresh n version qs) [0..<length qs]) r\<rparr>) \<circ>
          nth_row fresh n version qs) k = loaded_question fresh n qs k"
    using c validate_conditions_ok[OF assms(2) k] by (simp add: fields o) (simp add: loaded_question_def)
qed

lemma question_input_of_loaded:
  assumes "inj fresh" "validate_conditions qs = Inr ()" "k < length qs"
  shows "question_input_of (map (loaded_question fresh n qs) [0..<length qs]) (loaded_question fresh n qs k) = qs ! k"
proof -
  have labels: "map label (options (loaded_question fresh n qs k)) = in_labels (qs ! k)"
    by (simp add: loaded_question_def loaded_option_def o_def map_nth)
  have "map_option (condition_input_of (map (loaded_question fresh n qs) [0..<length qs]))
      (display_condition (loaded_question fresh n qs k)) = in_condition (qs ! k)"
  proof (cases "in_condition (qs ! k)")
    case (Some c)
    define s where "s = nat (in_position c - 1)"
    have ok: "condition_ok qs k c" by (rule validate_conditions_ok[OF assms(2,3) Some])
    then have s: "s < length qs" using assms(3) by (auto simp: condition_ok_def s_def)
    have os: "options (map (loaded_question fresh n qs) [0..<length qs] ! s) =
        map (loaded_option fresh n qs s) [0..<length (in_labels (qs ! s))]"
      using s by (simp add: loaded_question_def)
    have "map (\<lambda>p. option_position_of (map (loaded_option fresh n qs s) [0..<length (in_labels (qs ! s))])
        (nth_option_ids fresh n qs s ! nat (p - 1))) (in_options c) = in_options c"
      using ok condition_options_in_range[of c "qs ! s"]
      by (intro map_idI option_position_of_loaded[OF assms(1)]) (auto simp: condition_ok_def s_def)
    then show ?thesis using Some os
      by (simp add: loaded_question_def condition_input_of_def s_def[symmetric] o_def)
  qed (simp add: loaded_question_def)
  with labels show ?thesis by (simp add: question_input_of_def) (simp add: loaded_question_def)
qed

text \<open>
  C38: A survey definition that passes clean is stored without running out of range and read back unchanged:
  loadQuestions returns, in order, questions whose kinds, prompts, flags, bounds, labels and conditions
  (their ids turned back into positions) are those of the cleaned input. The identifiers are new, and the
  version holds no questions before, as on creation and after DeleteSurveyQuestions.
\<close>

theorem definition_roundtrip:
  assumes "clean lower input = Inr cleaned" "inj fresh"
    and "\<forall>r \<in> set rows. row_version r \<noteq> version"
    and "\<forall>r \<in> set opts. \<forall>m \<ge> n. opt_row_question r \<noteq> fresh m"
  shows "case insert_questions fresh n version (in_questions cleaned) rows opts of
           None \<Rightarrow> False
         | Some st \<Rightarrow>
             let loaded = load_questions (question_rows st) (option_rows st) version
             in map (question_input_of loaded) loaded = in_questions cleaned"
proof -
  have v: "validate_conditions (in_questions cleaned) = Inr ()" by (rule clean_conditions[OF assms(1)])
  have "map (question_input_of (map (loaded_question fresh n (in_questions cleaned)) [0..<length (in_questions cleaned)]))
      (map (loaded_question fresh n (in_questions cleaned)) [0..<length (in_questions cleaned)]) = in_questions cleaned"
    unfolding map_map by (rule nth_equalityI) (simp_all add: question_input_of_loaded[OF assms(2) v])
  then show ?thesis
    unfolding insert_questions_closed[OF v] option.case Let_def load_questions_stored[OF assms(2) v assms(3,4)] .
qed

text \<open>A survey of three questions; the last two are shown by the answers to the first.\<close>

definition sample_input :: survey_input where
  "sample_input =
     \<lparr>in_name = ''V'', in_title = '' T'', in_description = Some '' '', in_introduction = None,
      in_anonymous = True,
      in_questions =
        [\<lparr>in_kind = single_choice, in_prompt = ''H'', in_required = True, in_labels = [''G'', ''B ''],
          in_rating_min = None, in_rating_max = None, in_condition = None\<rparr>,
         \<lparr>in_kind = free_text, in_prompt = ''W'', in_required = True, in_labels = [],
          in_rating_min = None, in_rating_max = None,
          in_condition = Some \<lparr>in_position = 1, in_operator = one_of, in_options = [2], in_number = None,
                               in_boolean = None\<rparr>\<rparr>,
         \<lparr>in_kind = rating, in_prompt = ''R'', in_required = False, in_labels = [],
          in_rating_min = Some 1, in_rating_max = Some 5,
          in_condition = Some \<lparr>in_position = 1, in_operator = one_of, in_options = [1, 2], in_number = None,
                               in_boolean = None\<rparr>\<rparr>],
      expected_version = 1\<rparr>"

definition sample_ids :: "nat \<Rightarrow> uuid" where "sample_ids m = replicate m (CHR ''i'')"

lemma sample_ids_inj: "inj sample_ids"
  by (rule injI) (metis sample_ids_def length_replicate)

definition sample_cleaned :: survey_input where
  "sample_cleaned = (case clean to_lower sample_input of Inr c \<Rightarrow> c | Inl _ \<Rightarrow> sample_input)"

lemma sample_cleans: "clean to_lower sample_input = Inr sample_cleaned"
proof -
  have "case clean to_lower sample_input of Inr c \<Rightarrow> True | Inl _ \<Rightarrow> False" by code_simp
  then show ?thesis by (simp add: sample_cleaned_def split: sum.splits)
qed

lemma definition_roundtrip_witness:
  "(case insert_questions sample_ids 0 ''v'' (in_questions sample_cleaned) [] [] of
      None \<Rightarrow> False
    | Some st \<Rightarrow>
        let loaded = load_questions (question_rows st) (option_rows st) ''v''
        in map (question_input_of loaded) loaded = in_questions sample_cleaned)"
  by (rule definition_roundtrip[OF sample_cleans sample_ids_inj]) simp_all

section \<open>The plan of a submission\<close>

text \<open>A question is shown for a set of accepted answers if its condition, if any, matches one of them.\<close>

definition shown :: "(question \<times> answer_input) list \<Rightarrow> question \<Rightarrow> bool" where
  "shown planned q \<longleftrightarrow>
     (case display_condition q of
        None \<Rightarrow> True
      | Some c \<Rightarrow> \<exists>(s, a) \<in> set planned. question_id s = source_id c \<and> matches c a)"

text \<open>Every condition refers to a question before its own.\<close>

fun conditions_backward :: "question list \<Rightarrow> bool" where
  "conditions_backward [] \<longleftrightarrow> True"
| "conditions_backward (q # qs) \<longleftrightarrow>
     (\<forall>c. display_condition q = Some c \<longrightarrow> source_id c \<notin> question_id ` set (q # qs)) \<and> conditions_backward qs"

text \<open>What a plan must be, for the questions \<open>rest\<close> and the answers by question.\<close>

definition plan_correct ::
  "(uuid \<times> answer_input) list \<Rightarrow> question list \<Rightarrow> (question \<times> answer_input) list \<Rightarrow> (question \<times> answer_input) list \<Rightarrow> bool" where
  "plan_correct submitted rest planned tail \<longleftrightarrow>
     map fst tail = filter (\<lambda>q. map_of submitted (question_id q) \<noteq> None) rest \<and>
     (\<forall>(q, a) \<in> set tail. shown planned q \<and>
        (\<exists>s. map_of submitted (question_id q) = Some s \<and> validate_answer q s = Inr a)) \<and>
     (\<forall>q \<in> set rest. shown planned q \<and> required q \<longrightarrow> map_of submitted (question_id q) \<noteq> None)"

lemma shown_append:
  assumes "\<forall>c. display_condition q = Some c \<longrightarrow> (\<forall>(s, a) \<in> set tail. question_id s \<noteq> source_id c)"
  shows "shown (planned @ tail) q = shown planned q"
  using assms by (auto simp: shown_def split: option.splits)

lemma plan_correct_questions: "plan_correct submitted rest planned tail \<Longrightarrow> fst ` set tail \<subseteq> set rest"
  by (auto simp: plan_correct_def simp flip: set_map)

text \<open>The accepted map of the loop holds the planned answers.\<close>

definition accepted_matches :: "(uuid \<times> answer_input) list \<Rightarrow> (question \<times> answer_input) list \<Rightarrow> bool" where
  "accepted_matches accepted planned \<longleftrightarrow>
     (\<forall>i. map_of accepted i = map_of (map (\<lambda>(q, a). (question_id q, a)) planned) i)"

lemma accepted_shown:
  assumes "accepted_matches accepted planned" "distinct (map (\<lambda>(q, a). question_id q) planned)"
  shows "shown planned q \<longleftrightarrow>
     (case display_condition q of
        None \<Rightarrow> True
      | Some c \<Rightarrow> (case map_of accepted (source_id c) of None \<Rightarrow> False | Some source \<Rightarrow> matches c source))"
proof (cases "display_condition q")
  case (Some c)
  have d: "distinct (map fst (map (\<lambda>(q, a). (question_id q, a)) planned))"
    using assms(2) by (simp add: o_def case_prod_unfold)
  have m: "map_of accepted (source_id c) = Some a \<longleftrightarrow> (\<exists>s. (s, a) \<in> set planned \<and> question_id s = source_id c)" for a
    using assms(1) by (force simp: accepted_matches_def map_of_eq_Some_iff[OF d])
  have "(\<exists>(s, a) \<in> set planned. question_id s = source_id c \<and> matches c a) \<longleftrightarrow>
      (case map_of accepted (source_id c) of None \<Rightarrow> False | Some source \<Rightarrow> matches c source)"
  proof (cases "map_of accepted (source_id c)")
    case None
    then have "\<not> (\<exists>s a. (s, a) \<in> set planned \<and> question_id s = source_id c)" using m by auto
    with None show ?thesis by auto
  next
    case (Some a)
    have "b = a" if "(s, b) \<in> set planned" "question_id s = source_id c" for s b
      using that m[of b] Some by auto
    with Some m[of a] show ?thesis by auto
  qed
  with Some show ?thesis by (simp add: shown_def)
qed (simp add: shown_def)

lemma plan_loop_iff:
  assumes "accepted_matches accepted planned" "distinct (map question_id (map fst planned @ rest))"
    and "conditions_backward rest"
  shows "plan_loop submitted accepted planned rest = Inr result \<longleftrightarrow>
     (\<exists>tail. result = planned @ tail \<and> plan_correct submitted rest result tail)"
  using assms
proof (induction submitted accepted planned rest arbitrary: result rule: plan_loop.induct)
  case (1 submitted accepted planned)
  then show ?case by (auto simp: plan_correct_def)
next
  case (2 submitted accepted planned q qs)
  have d: "distinct (map (\<lambda>(q, a). question_id q) planned)" "question_id q \<notin> question_id ` set qs"
    "distinct (map question_id (map fst planned @ qs))"
    using 2(5) by (auto simp: o_def case_prod_unfold)
  have now: "shown (planned @ tail) q = shown planned q" if "fst ` set tail \<subseteq> set (q # qs)" for tail
    using 2(6) that by (intro shown_append) (auto simp: image_iff subset_iff, metis fst_conv)
  have now_all: "shown (planned @ tail) q = shown planned q" if "plan_correct submitted (q # qs) result tail" for tail result
    by (rule now) (rule plan_correct_questions[OF that])
  have now_rest: "shown (planned @ tail) q = shown planned q" if "plan_correct submitted qs result tail" for tail result
    by (rule now) (use plan_correct_questions[OF that] in auto)
  define hidden where "hidden = (case display_condition q of
      None \<Rightarrow> False
    | Some c \<Rightarrow> (case map_of accepted (source_id c) of None \<Rightarrow> True | Some source \<Rightarrow> \<not> matches c source))"
  have hid: "hidden \<longleftrightarrow> \<not> shown planned q"
    unfolding accepted_shown[OF 2(4) d(1)] hidden_def by (auto split: option.splits)
  have loop: "plan_loop submitted accepted planned (q # qs) =
     (if hidden then
        (if map_of submitted (question_id q) \<noteq> None then Inl answer_not_applicable
         else plan_loop submitted accepted planned qs)
      else case map_of submitted (question_id q) of
             None \<Rightarrow>
               if required q then Inl (invalid_field ''all required questions must be answered'')
               else plan_loop submitted accepted planned qs
           | Some a \<Rightarrow>
               and_then (validate_answer q a) (\<lambda>normalized.
                 plan_loop submitted (AList.update (question_id q) normalized accepted)
                   (planned @ [(q, normalized)]) qs))"
    by (simp add: hidden_def Let_def)
  have skip: "plan_correct submitted (q # qs) (planned @ tail) tail = plan_correct submitted qs (planned @ tail) tail"
    if "map_of submitted (question_id q) = None" "\<not> shown planned q \<or> \<not> required q" for tail
  proof
    assume p: "plan_correct submitted (q # qs) (planned @ tail) tail"
    then show "plan_correct submitted qs (planned @ tail) tail" using that(1) by (simp add: plan_correct_def)
  next
    assume p: "plan_correct submitted qs (planned @ tail) tail"
    then show "plan_correct submitted (q # qs) (planned @ tail) tail"
      using that now_rest[OF p] by (simp add: plan_correct_def)
  qed
  show ?case
  proof (cases "map_of submitted (question_id q)")
    case None
    show ?thesis
    proof (cases "shown planned q \<and> required q")
      case True
      have "\<not> plan_correct submitted (q # qs) (planned @ tail) tail" for tail
      proof
        assume p: "plan_correct submitted (q # qs) (planned @ tail) tail"
        from p now_all[OF p] True None show False by (simp add: plan_correct_def)
      qed
      then show ?thesis using True None hid unfolding loop by auto
    next
      case False
      have "plan_loop submitted accepted planned qs = Inr result \<longleftrightarrow>
          (\<exists>tail. result = planned @ tail \<and> plan_correct submitted qs result tail)"
      proof (cases hidden)
        case True
        then show ?thesis using "2.IH"(1) None 2(4,6) d(3) by (simp add: hidden_def)
      next
        case hf: False
        then show ?thesis using "2.IH"(2) None False hid 2(4,6) d(3) by (simp add: hidden_def)
      qed
      then show ?thesis using False None hid skip unfolding loop by (auto split: if_splits)
    qed
  next
    case (Some s)
    have first: "plan_correct submitted (q # qs) result tail \<longleftrightarrow>
        (\<exists>a tail'. tail = (q, a) # tail' \<and> shown result q \<and> validate_answer q s = Inr a \<and>
           plan_correct submitted qs result tail')" for tail
      using Some by (cases tail) (auto simp: plan_correct_def)
    show ?thesis
    proof (cases "shown planned q")
      case False
      have "\<not> plan_correct submitted (q # qs) (planned @ tail) tail" for tail
      proof
        assume p: "plan_correct submitted (q # qs) (planned @ tail) tail"
        from p now_all[OF p] False Some show False by (auto simp: plan_correct_def Cons_eq_map_conv)
      qed
      then show ?thesis using False Some hid unfolding loop by auto
    next
      case True
      show ?thesis
      proof (cases "validate_answer q s")
        case (Inl e)
        then show ?thesis using True Some hid unfolding loop by (auto simp: first)
      next
        case (Inr a)
        have acc: "accepted_matches (AList.update (question_id q) a accepted) (planned @ [(q, a)])"
        proof -
          have "map_of accepted (question_id q) = None"
            using 2(4,5) by (force simp: accepted_matches_def map_of_eq_None_iff)
          then show ?thesis using 2(4)
            by (auto simp: accepted_matches_def update_conv' map_add_def split: option.splits)
        qed
        have "plan_loop submitted (AList.update (question_id q) a accepted) (planned @ [(q, a)]) qs = Inr result \<longleftrightarrow>
            (\<exists>tail. result = (planned @ [(q, a)]) @ tail \<and> plan_correct submitted qs result tail)"
          using "2.IH"(3)[OF refl refl _ Some acc] True hid 2(5,6) by (simp add: hidden_def)
        moreover have "shown (planned @ [(q, a)] @ tail) q" if "plan_correct submitted qs (planned @ [(q, a)] @ tail) tail" for tail
          using that now[of "(q, a) # tail"] True plan_correct_questions by fastforce
        ultimately show ?thesis using True Some Inr hid unfolding loop by (auto simp: first)
      qed
    qed
  qed
qed

text \<open>
  C22: A submission is accepted exactly if each question is answered at most once and only by questions of
  the survey, the plan lists in question order exactly the answered questions with their validated answers,
  every answered question is shown by the accepted answers, and every shown required question is answered:
  a hidden question is never required and never answered.
\<close>

theorem plan_answers_exact:
  assumes "distinct (map question_id qs)" "conditions_backward qs"
  shows "plan_answers qs as = Inr planned \<longleftrightarrow>
     distinct (map answer_question as) \<and> answer_question ` set as \<subseteq> question_id ` set qs \<and>
     plan_correct (map (\<lambda>a. (answer_question a, a)) as) qs planned planned"
proof -
  have "accepted_matches [] []" by (simp add: accepted_matches_def)
  from plan_loop_iff[OF this _ assms(2)] assms(1) show ?thesis
    by (auto simp: plan_answers_def list_all_iff)
qed

section \<open>Stored surveys can be answered\<close>

lemma conditions_backward_map:
  assumes "\<forall>k \<in> set ks. \<forall>c. display_condition (f k) = Some c \<longrightarrow>
       (\<forall>l \<in> set ks. k \<le> l \<longrightarrow> source_id c \<noteq> question_id (f l))" "sorted ks"
  shows "conditions_backward (map f ks)"
  using assms by (induction ks) auto

lemma loaded_ids: "question_id (loaded_question fresh n qs k) = nth_id fresh n qs k"
  by (simp add: loaded_question_def)

lemma loaded_condition:
  assumes "validate_conditions qs = Inr ()" "k < length qs"
    and "display_condition (loaded_question fresh n qs k) = Some c"
  obtains s ci where "s < k" "in_condition (qs ! k) = Some ci" "in_position ci = int (s + 1)"
    "validate_condition_against ci (qs ! s) = Inr ()" "source_id c = nth_id fresh n qs s"
    "operator c = in_operator ci" "cond_number c = in_number ci" "cond_boolean c = in_boolean ci"
    "cond_options c = map (\<lambda>p. nth_option_ids fresh n qs s ! nat (p - 1)) (in_options ci)"
proof -
  from assms(3) obtain ci where ci: "in_condition (qs ! k) = Some ci" by (auto simp: loaded_question_def)
  have ok: "condition_ok qs k ci" by (rule validate_conditions_ok[OF assms(1,2) ci])
  define s where "s = nat (in_position ci - 1)"
  have "s < k" "in_position ci = int (s + 1)" using ok by (auto simp: condition_ok_def s_def)
  then show ?thesis
    by (rule that[OF _ ci])
      (use ok assms(3) ci in \<open>auto simp: condition_ok_def s_def[symmetric] loaded_question_def\<close>)
qed

lemma loaded_wf:
  assumes "inj fresh" "validate_conditions qs = Inr ()"
  shows "distinct (map question_id (map (loaded_question fresh n qs) [0..<length qs]))"
    and "conditions_backward (map (loaded_question fresh n qs) [0..<length qs])"
proof -
  show "distinct (map question_id (map (loaded_question fresh n qs) [0..<length qs]))"
    using nth_id_inj[OF assms(1)] by (auto simp: distinct_map inj_on_def loaded_ids)
  show "conditions_backward (map (loaded_question fresh n qs) [0..<length qs])"
  proof (rule conditions_backward_map)
    show "\<forall>k \<in> set [0..<length qs]. \<forall>c. display_condition (loaded_question fresh n qs k) = Some c \<longrightarrow>
        (\<forall>l \<in> set [0..<length qs]. k \<le> l \<longrightarrow> source_id c \<noteq> question_id (loaded_question fresh n qs l))"
    proof (intro ballI allI impI)
      fix k c l
      assume "k \<in> set [0..<length qs]" and c: "display_condition (loaded_question fresh n qs k) = Some c"
        and l: "l \<in> set [0..<length qs]" "k \<le> l"
      then have k: "k < length qs" by simp
      obtain s where "s < k" "source_id c = nth_id fresh n qs s"
        by (rule loaded_condition[OF assms(2) k c])
      with k l show "source_id c \<noteq> question_id (loaded_question fresh n qs l)"
        by (simp add: loaded_ids nth_id_inj[OF assms(1)])
    qed
  qed simp
qed

text \<open>An answer that a question accepts unchanged.\<close>

definition easy_answer :: "question \<Rightarrow> answer_input" where
  "easy_answer q =
     \<lparr>answer_question = question_id q,
      answer_options = (if kind q = single_choice \<or> kind q = multiple_choice then [option_id (hd (options q))] else []),
      text_value = (if kind q = free_text then Some ''x'' else None),
      numeric_value = (if kind q = rating then rating_min q else None),
      boolean_value = (if kind q = yes_no then Some True else None)\<rparr>"

definition answerable :: "question \<Rightarrow> bool" where
  "answerable q \<longleftrightarrow>
     ((kind q = single_choice \<or> kind q = multiple_choice) \<and> options q \<noteq> []) \<or> kind q = free_text \<or> kind q = yes_no \<or>
     (kind q = rating \<and> (\<exists>lo hi. rating_min q = Some lo \<and> rating_max q = Some hi \<and> lo \<le> hi))"

lemmas kind_defs = single_choice_def multiple_choice_def free_text_def rating_def yes_no_def

lemma easy_answer_accepted: "answerable q \<Longrightarrow> validate_answer q (easy_answer q) = Inr (easy_answer q)"
proof -
  have "trim_space ''x'' = ''x''" by code_simp
  then show "answerable q \<Longrightarrow> validate_answer q (easy_answer q) = Inr (easy_answer q)"
    by (auto simp: answerable_def validate_answer_def easy_answer_def answer_values_def kind_defs)
qed

lemma clean_labels_length: "clean_labels lower seen ls = Inr ls' \<Longrightarrow> length ls' = length ls"
  by (induction lower seen ls arbitrary: ls' rule: clean_labels.induct)
    (auto simp: Let_def and_then_Inr_iff split: if_splits)

lemma clean_questions_nth:
  "clean_questions lower qs = Inr qs' \<Longrightarrow> length qs' = length qs \<and>
     (\<forall>k < length qs. clean_question lower (qs ! k) = Inr (qs' ! k))"
  by (induction lower qs arbitrary: qs' rule: clean_questions.induct)
    (auto simp: and_then_Inr_iff nth_Cons split: nat.splits)

lemma cleaned_answerable:
  assumes "clean lower input = Inr cleaned" "k < length (in_questions cleaned)"
  shows "answerable (loaded_question fresh n (in_questions cleaned) k)"
proof -
  from assms(1) have "clean_questions lower (in_questions input) = Inr (in_questions cleaned)"
    by (auto simp: clean_def Let_def and_then_Inr_iff split: if_splits)
  from clean_questions_nth[OF this] assms(2) obtain q where
    q: "clean_question lower q = Inr (in_questions cleaned ! k)" by auto
  then obtain ls where ls: "check_kind (q\<lparr>in_prompt := trim_space (in_prompt q)\<rparr>) = Inr ()"
    "length ls = length (in_labels q)"
    "in_questions cleaned ! k = q\<lparr>in_prompt := trim_space (in_prompt q), in_labels := ls\<rparr>"
    by (auto simp: clean_question_def Let_def and_then_Inr_iff dest!: clean_labels_length split: if_splits)
  then show ?thesis
    by (auto simp: check_kind_def answerable_def loaded_question_def ls(3) split: if_splits option.splits)
qed

text \<open>Answering every shown question in turn.\<close>

fun complete_survey :: "(question \<times> answer_input) list \<Rightarrow> question list \<Rightarrow> (question \<times> answer_input) list" where
  "complete_survey planned [] = planned"
| "complete_survey planned (q # qs) =
     complete_survey (if shown planned q then planned @ [(q, easy_answer q)] else planned) qs"

lemma complete_survey_tail:
  assumes "conditions_backward qs"
  shows "\<exists>tail. complete_survey planned qs = planned @ tail \<and> map fst tail = filter (shown (planned @ tail)) qs \<and>
     (\<forall>(q, a) \<in> set tail. a = easy_answer q)"
  using assms
proof (induction planned qs rule: complete_survey.induct)
  case (2 planned q qs)
  define p where "p = (if shown planned q then planned @ [(q, easy_answer q)] else planned)"
  from 2 obtain tail where tail: "complete_survey p qs = p @ tail" "map fst tail = filter (shown (p @ tail)) qs"
    "\<forall>(q, a) \<in> set tail. a = easy_answer q" by (auto simp: p_def)
  have sub: "fst ` set tail \<subseteq> set qs" using tail(2) by (auto simp flip: set_map)
  define t where "t = (if shown planned q then [(q, easy_answer q)] else []) @ tail"
  have t: "p @ tail = planned @ t" by (simp add: p_def t_def)
  have "shown (planned @ t) q = shown planned q"
    using 2(2) sub by (intro shown_append) (auto simp: t_def image_iff subset_iff, metis fst_conv)
  then have "map fst t = filter (shown (planned @ t)) (q # qs)" using tail(2) by (simp add: t) (simp add: t_def)
  then show ?case using tail(1,3) by (auto simp: p_def[symmetric] t t_def split: if_splits)
qed simp

lemma easy_answer_question [simp]: "answer_question (easy_answer q) = question_id q"
  by (simp add: easy_answer_def)

lemma complete_survey_correct:
  assumes "conditions_backward qs" "distinct (map question_id qs)" "\<forall>q \<in> set qs. answerable q"
  shows "plan_answers qs (map snd (complete_survey [] qs)) = Inr (complete_survey [] qs)"
    and "map fst (complete_survey [] qs) = filter (shown (complete_survey [] qs)) qs"
proof -
  define p where "p = complete_survey [] qs"
  have p: "map fst p = filter (shown p) qs" "\<forall>(q, a) \<in> set p. a = easy_answer q"
    using complete_survey_tail[OF assms(1), of "[]"] by (auto simp: p_def)
  have qp: "q \<in> fst ` set p \<longleftrightarrow> q \<in> set qs \<and> shown p q" for q
    using arg_cong[OF p(1), of set] by auto
  define submitted where "submitted = map (\<lambda>a. (answer_question a, a)) (map snd p)"
  have sub: "submitted = map (\<lambda>q. (question_id q, easy_answer q)) (map fst p)"
    unfolding submitted_def map_map by (rule map_cong) (use p(2) in auto)
  have ids: "map answer_question (map snd p) = map question_id (filter (shown p) qs)"
    unfolding p(1)[symmetric] map_map by (rule map_cong) (use p(2) in auto)
  have d: "distinct (map question_id (filter (shown p) qs))" using assms(2) by (rule distinct_map_filter)
  have m: "map_of submitted (question_id q) = (if shown p q then Some (easy_answer q) else None)" if "q \<in> set qs" for q
  proof (cases "shown p q")
    case True
    with that have "(question_id q, easy_answer q) \<in> set submitted" by (auto simp: sub p(1))
    moreover have "distinct (map fst submitted)" using d by (simp add: sub p(1) o_def)
    ultimately show ?thesis using True by simp
  next
    case False
    have "q' = q" if "q' \<in> set qs" "question_id q' = question_id q" for q'
      using assms(2) that \<open>q \<in> set qs\<close> by (auto simp: distinct_map inj_on_def)
    then have "question_id q \<notin> fst ` set submitted" using False by (force simp: sub p(1))
    then show ?thesis using False by (simp add: map_of_eq_None_iff)
  qed
  have "plan_correct submitted qs p p"
    unfolding plan_correct_def
  proof (intro conjI)
    show "map fst p = filter (\<lambda>q. map_of submitted (question_id q) \<noteq> None) qs"
      unfolding p(1) by (rule filter_cong[OF refl]) (simp add: m)
    show "\<forall>(q, a) \<in> set p. shown p q \<and> (\<exists>s. map_of submitted (question_id q) = Some s \<and> validate_answer q s = Inr a)"
    proof clarify
      fix q a assume qa: "(q, a) \<in> set p"
      then have "q \<in> set qs" "shown p q" "a = easy_answer q" using qp p(2) by force+
      then show "shown p q \<and> (\<exists>s. map_of submitted (question_id q) = Some s \<and> validate_answer q s = Inr a)"
        using m easy_answer_accepted assms(3) by auto
    qed
    show "\<forall>q \<in> set qs. shown p q \<and> required q \<longrightarrow> map_of submitted (question_id q) \<noteq> None" using m by simp
  qed
  moreover have "distinct (map answer_question (map snd p))" unfolding ids by (rule d)
  moreover have "answer_question ` set (map snd p) \<subseteq> question_id ` set qs"
    using arg_cong[OF ids, of set] by auto
  moreover have "accepted_matches [] []" by (simp add: accepted_matches_def)
  ultimately show "plan_answers qs (map snd (complete_survey [] qs)) = Inr (complete_survey [] qs)"
    using plan_loop_iff[of "[]" "[]" qs submitted p] assms(1,2)
    unfolding p_def[symmetric] plan_answers_def submitted_def[symmetric]
    by (simp only: list_all_iff) (simp add: subset_iff image_iff, blast)
  show "map fst (complete_survey [] qs) = filter (shown (complete_survey [] qs)) qs"
    using p(1) by (simp add: p_def)
qed

text \<open>A condition of a stored definition can be met by an answer its source accepts.\<close>

lemma condition_can_match:
  assumes "validate_conditions qs = Inr ()" "k < length qs"
    and "display_condition (loaded_question fresh n qs k) = Some c"
  shows "\<exists>s < k. source_id c = nth_id fresh n qs s \<and>
     (\<exists>a b. validate_answer (loaded_question fresh n qs s) a = Inr b \<and> matches c b)"
proof -
  obtain s ci where s: "s < k" "in_condition (qs ! k) = Some ci" "in_position ci = int (s + 1)"
    "validate_condition_against ci (qs ! s) = Inr ()" "source_id c = nth_id fresh n qs s"
    "operator c = in_operator ci" "cond_number c = in_number ci" "cond_boolean c = in_boolean ci"
    "cond_options c = map (\<lambda>p. nth_option_ids fresh n qs s ! nat (p - 1)) (in_options ci)"
    by (rule loaded_condition[OF assms])
  define source where "source = loaded_question fresh n qs s"
  have opts: "map option_id (options source) = nth_option_ids fresh n qs s"
    by (rule nth_equalityI) (simp_all add: source_def loaded_question_def loaded_option_def nth_option_ids_def)
  have "\<exists>a b. validate_answer source a = Inr b \<and> matches c b"
  proof (cases "in_kind (qs ! s) = single_choice \<or> in_kind (qs ! s) = multiple_choice")
    case True
    then obtain p ps where p: "in_options ci = p # ps"
      using s(4) by (cases "in_options ci") (auto simp: validate_condition_against_def)
    define i where "i = nth_option_ids fresh n qs s ! nat (p - 1)"
    have "i \<in> set (nth_option_ids fresh n qs s)"
      using condition_options_in_range[OF s(4), of p] p unfolding i_def
      by (intro nth_mem) (auto simp: nth_option_ids_def)
    then have "i \<in> option_id ` set (options source)" "kind source = in_kind (qs ! s)"
      by (simp_all only: opts[symmetric] set_map) (simp add: source_def loaded_question_def)
    then have "validate_answer source \<lparr>answer_question = [], answer_options = [i], text_value = None,
        numeric_value = None, boolean_value = None\<rparr> = Inr \<lparr>answer_question = [], answer_options = [i],
        text_value = None, numeric_value = None, boolean_value = None\<rparr>"
      using True by (auto simp: validate_answer_def answer_values_def)
    moreover have "operator c = one_of \<or> operator c = includes_any"
      using True s(4,6) by (auto simp: validate_condition_against_def split: if_splits)
    ultimately show ?thesis using s(9) p by (force simp: matches_def i_def)
  next
    case choice: False
    show ?thesis
    proof (cases "in_kind (qs ! s) = rating")
      case True
      then obtain m lo hi where m: "in_number ci = Some m" "in_rating_min (qs ! s) = Some lo"
        "in_rating_max (qs ! s) = Some hi" "lo \<le> m" "m \<le> hi" "in_boolean ci = None"
        "in_operator ci \<in> {less_equal, greater_eq, equals}"
        using s(4) choice by (auto simp: validate_condition_against_def split: if_splits option.splits)
      have "validate_answer source \<lparr>answer_question = [], answer_options = [], text_value = None,
          numeric_value = Some m, boolean_value = None\<rparr> = Inr \<lparr>answer_question = [], answer_options = [],
          text_value = None, numeric_value = Some m, boolean_value = None\<rparr>"
        using True m by (auto simp: validate_answer_def answer_values_def source_def loaded_question_def kind_defs)
      moreover have "matches c \<lparr>answer_question = [], answer_options = [], text_value = None,
          numeric_value = Some m, boolean_value = None\<rparr>"
        using m s(6-8) by (auto simp: matches_def one_of_def includes_any_def less_equal_def greater_eq_def equals_def)
      ultimately show ?thesis by blast
    next
      case False
      with choice s(4) obtain y where y: "in_kind (qs ! s) = yes_no" "in_boolean ci = Some y" "in_operator ci = equals"
        by (auto simp: validate_condition_against_def split: if_splits)
      have "validate_answer source \<lparr>answer_question = [], answer_options = [], text_value = None,
          numeric_value = None, boolean_value = Some y\<rparr> = Inr \<lparr>answer_question = [], answer_options = [],
          text_value = None, numeric_value = None, boolean_value = Some y\<rparr>"
        using y by (auto simp: validate_answer_def answer_values_def source_def loaded_question_def kind_defs)
      moreover have "matches c \<lparr>answer_question = [], answer_options = [], text_value = None,
          numeric_value = None, boolean_value = Some y\<rparr>"
        using y s(6-8) by (auto simp: matches_def one_of_def includes_any_def less_equal_def greater_eq_def equals_def)
      ultimately show ?thesis by blast
    qed
  qed
  then show ?thesis using s(1,5) by (auto simp: source_def)
qed

text \<open>
  C37: No accepted definition is a dead end: for every survey that clean accepts, once stored and loaded,
  there are answers that planAnswers accepts and that answer every shown question; and every condition of it
  can be met: its source is an earlier question that accepts an answer matching the condition.
\<close>

theorem stored_survey_answerable:
  assumes "clean lower input = Inr cleaned" "inj fresh"
    and "\<forall>r \<in> set rows. row_version r \<noteq> version"
    and "\<forall>r \<in> set opts. \<forall>m \<ge> n. opt_row_question r \<noteq> fresh m"
    and "insert_questions fresh n version (in_questions cleaned) rows opts = Some st"
    and "loaded = load_questions (question_rows st) (option_rows st) version"
  shows "(\<exists>as planned. plan_answers loaded as = Inr planned \<and> map fst planned = filter (shown planned) loaded)
       \<and> (\<forall>k < length loaded. \<forall>c. display_condition (loaded ! k) = Some c \<longrightarrow>
            (\<exists>s < k. question_id (loaded ! s) = source_id c \<and>
               (\<exists>a b. validate_answer (loaded ! s) a = Inr b \<and> matches c b)))"
proof
  define qs where "qs = in_questions cleaned"
  have v: "validate_conditions qs = Inr ()" unfolding qs_def by (rule clean_conditions[OF assms(1)])
  have "st = stored_state fresh n version qs rows opts (length qs)"
    using assms(5) insert_questions_closed[OF v] by (simp add: qs_def)
  then have loaded: "loaded = map (loaded_question fresh n qs) [0..<length qs]"
    using load_questions_stored[OF assms(2) v assms(3,4)] assms(6) by simp
  have "\<forall>q \<in> set loaded. answerable q"
    using cleaned_answerable[OF assms(1)] by (auto simp: loaded qs_def)
  from complete_survey_correct[OF loaded_wf(2,1)[OF assms(2) v, of n, folded loaded] this]
  show "\<exists>as planned. plan_answers loaded as = Inr planned \<and> map fst planned = filter (shown planned) loaded"
    by blast
  show "\<forall>k < length loaded. \<forall>c. display_condition (loaded ! k) = Some c \<longrightarrow>
            (\<exists>s < k. question_id (loaded ! s) = source_id c \<and>
               (\<exists>a b. validate_answer (loaded ! s) a = Inr b \<and> matches c b))"
  proof (intro allI impI)
    fix k c assume k: "k < length loaded" and c: "display_condition (loaded ! k) = Some c"
    have kq: "k < length qs" "display_condition (loaded_question fresh n qs k) = Some c"
      using k c by (simp_all add: loaded)
    from condition_can_match[OF v kq] obtain s where "s < k" "source_id c = nth_id fresh n qs s"
      "\<exists>a b. validate_answer (loaded_question fresh n qs s) a = Inr b \<and> matches c b" by blast
    then show "\<exists>s < k. question_id (loaded ! s) = source_id c \<and>
               (\<exists>a b. validate_answer (loaded ! s) a = Inr b \<and> matches c b)"
      using kq(1) by (intro exI[of _ s]) (simp add: loaded loaded_ids)
  qed
qed

section \<open>Concrete instances\<close>

definition sample_questions :: "question list" where
  "sample_questions =
     [\<lparr>question_id = ''q1'', kind = yes_no, prompt = ''P'', required = True, position = 1, options = [],
       rating_min = None, rating_max = None, display_condition = None\<rparr>,
      \<lparr>question_id = ''q2'', kind = free_text, prompt = ''P'', required = True, position = 2, options = [],
       rating_min = None, rating_max = None,
       display_condition = Some \<lparr>source_id = ''q1'', source_position = 1, operator = equals, cond_options = [],
         cond_number = None, cond_boolean = Some False\<rparr>\<rparr>]"

definition sample_answer :: "uuid \<Rightarrow> string option \<Rightarrow> bool option \<Rightarrow> answer_input" where
  "sample_answer q t b =
     \<lparr>answer_question = q, answer_options = [], text_value = t, numeric_value = None, boolean_value = b\<rparr>"

lemma plan_answers_exact_witness:
  "plan_correct [(''q1'', sample_answer ''q1'' None (Some True))] sample_questions
     [(sample_questions ! 0, sample_answer ''q1'' None (Some True))]
     [(sample_questions ! 0, sample_answer ''q1'' None (Some True))] \<and>
   plan_answers sample_questions [sample_answer ''q1'' None (Some True), sample_answer ''q2'' (Some ''x'') None] =
     Inl answer_not_applicable"
proof
  have hyps: "distinct (map question_id sample_questions)" "conditions_backward sample_questions"
    by (simp_all add: sample_questions_def)
  have "plan_answers sample_questions [sample_answer ''q1'' None (Some True)] =
      Inr [(sample_questions ! 0, sample_answer ''q1'' None (Some True))]" by code_simp
  then show "plan_correct [(''q1'', sample_answer ''q1'' None (Some True))] sample_questions
     [(sample_questions ! 0, sample_answer ''q1'' None (Some True))]
     [(sample_questions ! 0, sample_answer ''q1'' None (Some True))]"
    unfolding plan_answers_exact[OF hyps] by (simp add: sample_answer_def)
  show "plan_answers sample_questions [sample_answer ''q1'' None (Some True), sample_answer ''q2'' (Some ''x'') None] =
     Inl answer_not_applicable" by code_simp
qed

lemma stored_survey_answerable_witness:
  "\<exists>st as planned. insert_questions sample_ids 0 ''v'' (in_questions sample_cleaned) [] [] = Some st \<and>
     plan_answers (load_questions (question_rows st) (option_rows st) ''v'') as = Inr planned \<and>
     map fst planned = filter (shown planned) (load_questions (question_rows st) (option_rows st) ''v'')"
proof -
  obtain st where st: "insert_questions sample_ids 0 ''v'' (in_questions sample_cleaned) [] [] = Some st"
    using insert_questions_closed[OF clean_conditions[OF sample_cleans]] by blast
  from stored_survey_answerable[OF sample_cleans sample_ids_inj _ _ st refl] st show ?thesis by auto
qed

end
