(* ===== verification/Go_Strings.thy ===== *)
theory Go_Strings
  imports Prelude
begin

text \<open>
  The parts of Go's strings, strconv, fmt and path packages that the modelled code uses: integers in text
  (Atoi, Itoa, ParseUint, %08X), Cut, Split, Join, LastIndex, Trim and path.Clean, with the laws the
  components need.
\<close>

section \<open>Digits\<close>

definition digit_value :: "char \<Rightarrow> nat option" where
  "digit_value c =
     (let n = of_char c :: nat in
      if 48 \<le> n \<and> n \<le> 57 then Some (n - 48)
      else if 97 \<le> n \<and> n \<le> 122 then Some (n - 87)
      else if 65 \<le> n \<and> n \<le> 90 then Some (n - 55)
      else None)"

text \<open>The value of a digit string in a base, read from the most significant digit.\<close>

fun parse_digits :: "nat \<Rightarrow> nat \<Rightarrow> string \<Rightarrow> nat option" where
  "parse_digits base acc [] = Some acc"
| "parse_digits base acc (c # cs) =
     (case digit_value c of
        None \<Rightarrow> None
      | Some d \<Rightarrow> if d < base then parse_digits base (acc * base + d) cs else None)"

text \<open>strconv.ParseUint with an explicit base: no sign, no underscore, in range of the bit size.\<close>

definition parse_uint :: "nat \<Rightarrow> nat \<Rightarrow> string \<Rightarrow> nat option" where
  "parse_uint base bits s =
     (if s = [] then None
      else case parse_digits base 0 s of None \<Rightarrow> None | Some n \<Rightarrow> if n < 2 ^ bits then Some n else None)"

text \<open>strconv.Atoi: an optional sign and decimal digits, in range of int64.\<close>

definition go_atoi :: "string \<Rightarrow> int option" where
  "go_atoi s =
     (let (neg, ds) = (case s of c # cs \<Rightarrow> if c = CHR ''-'' then (True, cs) else if c = CHR ''+'' then (False, cs)
                                          else (False, s)
                       | [] \<Rightarrow> (False, []))
      in if ds = [] then None
         else case parse_digits 10 0 ds of
                None \<Rightarrow> None
              | Some n \<Rightarrow>
                  let v = (if neg then - int n else int n) in
                  if min_int64 \<le> v \<and> v \<le> max_int64 then Some v else None)"

definition digit_char :: "nat \<Rightarrow> char" where
  "digit_char d = char_of (if d < 10 then d + 48 else d + 55)"

text \<open>The digits of a number in a base of at least two, and its decimal text.\<close>

function digits_of :: "nat \<Rightarrow> nat \<Rightarrow> string" where
  "digits_of base n =
     (if base < 2 \<or> n < base then [digit_char n] else digits_of base (n div base) @ [digit_char (n mod base)])"
  by pat_completeness auto
termination by (relation "measure snd") (auto simp: not_less intro!: div_less_dividend)

declare digits_of.simps [simp del]

definition itoa :: "int \<Rightarrow> string" where
  "itoa i = (if i < 0 then CHR ''-'' # digits_of 10 (nat (- i)) else digits_of 10 (nat i))"

text \<open>fmt's %0<width>X of an unsigned number.\<close>

definition hex_padded :: "nat \<Rightarrow> nat \<Rightarrow> string" where
  "hex_padded width n =
     (let ds = digits_of 16 n in replicate (width - length ds) (CHR ''0'') @ ds)"

subsection \<open>Laws\<close>

lemma digit_value_char: "d < 16 \<Longrightarrow> digit_value (digit_char d) = Some d"
proof -
  have "d \<in> {0..<16} \<longrightarrow> digit_value (digit_char d) = Some d" by (simp add: atLeastLessThan_nat_numeral) code_simp
  then show "d < 16 \<Longrightarrow> digit_value (digit_char d) = Some d" by simp
qed

lemma parse_digits_append:
  "parse_digits base acc (xs @ ys) =
     (case parse_digits base acc xs of None \<Rightarrow> None | Some m \<Rightarrow> parse_digits base m ys)"
  by (induction base acc xs rule: parse_digits.induct) (auto split: option.splits)

lemma parse_digits_of:
  "2 \<le> base \<Longrightarrow> base \<le> 16 \<Longrightarrow> parse_digits base acc (digits_of base n) = Some (acc * base ^ length (digits_of base n) + n)"
proof (induction base n arbitrary: acc rule: digits_of.induct)
  case (1 base n)
  show ?case
  proof (cases "n < base")
    case True
    then show ?thesis using 1 by (simp add: digits_of.simps[of base n] digit_value_char)
  next
    case False
    have m: "n mod base < base" using 1 by simp
    then have v: "digit_value (digit_char (n mod base)) = Some (n mod base)"
      using 1 by (intro digit_value_char) linarith
    have "n div base * base + n mod base = n" by simp
    then have "(acc * base ^ k + n div base) * base + n mod base = acc * base ^ Suc k + n" for k
      by (simp add: algebra_simps) 
    then show ?thesis
      using 1 False m by (subst (1 2) digits_of.simps) (simp add: parse_digits_append v)
  qed
qed

lemma digits_of_nonempty [simp]: "digits_of base n \<noteq> []"
  by (subst digits_of.simps) simp

lemma digit_char_range: "d < 10 \<Longrightarrow> of_char (digit_char d) = 48 + d"
  by (simp add: digit_char_def of_char_of)

lemma decimal_digits: "c \<in> set (digits_of 10 n) \<Longrightarrow> 48 \<le> (of_char c :: nat) \<and> (of_char c :: nat) \<le> 57"
proof (induction "10 :: nat" n rule: digits_of.induct)
  case (1 n)
  show ?case
  proof (cases "n < 10")
    case True
    then show ?thesis using 1(2) by (simp add: digits_of.simps[of 10 n] digit_char_range)
  next
    case False
    then have "c \<in> set (digits_of 10 (n div 10)) \<or> c = digit_char (n mod 10)"
      using 1(2) by (auto simp: digits_of.simps[of 10 n])
    then show ?thesis using 1(1) False by (auto simp: digit_char_range)
  qed
qed

lemma digit_not_sign: "(48::nat) \<le> of_char c \<Longrightarrow> c \<noteq> CHR ''-'' \<and> c \<noteq> CHR ''+'' \<and> c \<noteq> CHR '',''"
  by auto

text \<open>Atoi reads back what Itoa writes.\<close>

lemma atoi_itoa:
  assumes "min_int64 \<le> i" "i \<le> max_int64"
  shows "go_atoi (itoa i) = Some i"
proof (cases "i < 0")
  case True
  have "parse_digits 10 0 (digits_of 10 (nat (- i))) = Some (nat (- i))" by (simp add: parse_digits_of)
  then show ?thesis using assms True by (simp add: go_atoi_def itoa_def)
next
  case False
  obtain c cs where ds: "digits_of 10 (nat i) = c # cs" by (cases "digits_of 10 (nat i)") simp_all
  then have "c \<noteq> CHR ''-''" "c \<noteq> CHR ''+''" using decimal_digits[of c "nat i"] by auto
  moreover have "parse_digits 10 0 (c # cs) = Some (nat i)" unfolding ds[symmetric] by (simp add: parse_digits_of)
  ultimately show ?thesis using assms False by (simp add: go_atoi_def itoa_def ds)
qed

lemma parse_uint_digits: "2 \<le> base \<Longrightarrow> base \<le> 16 \<Longrightarrow> n < 2 ^ bits \<Longrightarrow> parse_uint base bits (digits_of base n) = Some n"
  by (simp add: parse_uint_def parse_digits_of)

lemma parse_zeros: "2 \<le> base \<Longrightarrow> parse_digits base 0 (replicate k (CHR ''0'') @ ds) = parse_digits base 0 ds"
proof (induction k)
  case (Suc k)
  have "digit_value (CHR ''0'') = Some 0" by code_simp
  with Suc show ?case by simp
qed simp

lemma parse_hex_padded: "n < 2 ^ bits \<Longrightarrow> parse_uint 16 bits (hex_padded width n) = Some n"
  by (simp add: parse_uint_def hex_padded_def Let_def parse_zeros parse_digits_of)

section \<open>Searching and splitting\<close>

text \<open>strings.Cut at a single byte: the parts before and after its first occurrence.\<close>

definition go_cut :: "char \<Rightarrow> string \<Rightarrow> (string \<times> string) option" where
  "go_cut c s = (if c \<in> set s then Some (takeWhile (\<lambda>x. x \<noteq> c) s, drop (Suc (length (takeWhile (\<lambda>x. x \<noteq> c) s))) s) else None)"

text \<open>The part after the last occurrence of a byte, or the whole string.\<close>

definition after_last :: "char \<Rightarrow> string \<Rightarrow> string" where
  "after_last c s = rev (takeWhile (\<lambda>x. x \<noteq> c) (rev s))"

text \<open>strings.Trim with a cut set of bytes.\<close>

definition trim_chars :: "char set \<Rightarrow> string \<Rightarrow> string" where
  "trim_chars cs s = rev (dropWhile (\<lambda>x. x \<in> cs) (rev (dropWhile (\<lambda>x. x \<in> cs) s)))"

fun split_on :: "char \<Rightarrow> string \<Rightarrow> string list" where
  "split_on c [] = [[]]"
| "split_on c (x # xs) =
     (if x = c then [] # split_on c xs
      else case split_on c xs of [] \<Rightarrow> [[x]] | p # ps \<Rightarrow> (x # p) # ps)"

fun join_with :: "string \<Rightarrow> string list \<Rightarrow> string" where
  "join_with sep [] = []"
| "join_with sep [x] = x"
| "join_with sep (x # y # zs) = x @ sep @ join_with sep (y # zs)"

text \<open>path.Clean: empty and dot elements go, dot-dot removes the element before it.\<close>

fun clean_elements :: "bool \<Rightarrow> string list \<Rightarrow> string list \<Rightarrow> string list" where
  "clean_elements rooted out [] = rev out"
| "clean_elements rooted out (e # es) =
     (if e = [] \<or> e = ''.'' then clean_elements rooted out es
      else if e = ''..'' then
        (case out of
           p # ps \<Rightarrow> if p = ''..'' then clean_elements rooted (''..'' # out) es else clean_elements rooted ps es
         | [] \<Rightarrow> clean_elements rooted (if rooted then [] else [''..'']) es)
      else clean_elements rooted (e # out) es)"

definition path_clean :: "string \<Rightarrow> string" where
  "path_clean p =
     (if p = [] then ''.''
      else let rooted = (hd p = CHR ''/'');
               body = join_with ''/'' (clean_elements rooted [] (split_on (CHR ''/'') p))
           in if rooted then CHR ''/'' # body else if body = [] then ''.'' else body)"

text \<open>path.Join of two elements.\<close>

definition path_join :: "string \<Rightarrow> string \<Rightarrow> string" where
  "path_join a b =
     (if a = [] \<and> b = [] then []
      else path_clean (if a = [] then b else if b = [] then a else a @ ''/'' @ b))"

lemma split_on_nonempty [simp]: "split_on c s \<noteq> []"
  by (induction s) (auto split: list.splits)

lemma join_split: "join_with [c] (split_on c s) = s"
proof (induction s)
  case (Cons x xs)
  obtain p ps where s: "split_on c xs = p # ps" by (cases "split_on c xs") simp_all
  show ?case using Cons by (cases ps) (auto simp: s)
qed simp

lemma split_on_absent: "c \<notin> set s \<Longrightarrow> split_on c s = [s]"
  by (induction s) auto

lemma split_on_append: "c \<notin> set a \<Longrightarrow> split_on c (a @ c # b) = a # split_on c b"
  by (induction a) auto

lemma split_on_elements: "e \<in> set (split_on c s) \<Longrightarrow> c \<notin> set e"
  by (induction s arbitrary: e) (auto split: if_splits list.splits)

lemma digits_of_length: "2 \<le> base \<Longrightarrow> 0 < k \<Longrightarrow> n < base ^ k \<Longrightarrow> length (digits_of base n) \<le> k"
proof (induction base n arbitrary: k rule: digits_of.induct)
  case (1 base n)
  show ?case
  proof (cases "n < base")
    case True
    then show ?thesis using 1 by (simp add: digits_of.simps[of base n])
  next
    case False
    then obtain j where k: "k = Suc j" "0 < j" using 1(3,4) by (cases k; cases "k - 1") auto
    then have "n div base < base ^ j" using 1(2,4) by (simp add: less_mult_imp_div_less mult.commute)
    then show ?thesis using 1 False k by (subst digits_of.simps) simp
  qed
qed

lemma hex_digits: "c \<in> set (digits_of 16 n) \<Longrightarrow> digit_value c \<noteq> None"
proof (induction "16 :: nat" n rule: digits_of.induct)
  case (1 n)
  show ?case
  proof (cases "n < 16")
    case True
    then show ?thesis using 1(2) by (simp add: digits_of.simps[of 16 n] digit_value_char)
  next
    case False
    then have "c \<in> set (digits_of 16 (n div 16)) \<or> c = digit_char (n mod 16)"
      using 1(2) by (auto simp: digits_of.simps[of 16 n])
    then show ?thesis using 1(1) False by (auto simp: digit_value_char)
  qed
qed

lemma hex_padded_dash: "CHR ''-'' \<notin> set (hex_padded w n)"
proof -
  have "digit_value (CHR ''-'') = None" by code_simp
  then have "CHR ''-'' \<notin> set (digits_of 16 n)" using hex_digits by fastforce
  then show ?thesis by (auto simp: hex_padded_def Let_def)
qed

lemma hex_padded_length: "0 < w \<Longrightarrow> n < 16 ^ w \<Longrightarrow> length (hex_padded w n) = w"
  using digits_of_length[of 16 w n] by (simp add: hex_padded_def Let_def)

subsection \<open>Cleaned paths\<close>

text \<open>An element that names something below its directory.\<close>

definition proper_element :: "string \<Rightarrow> bool" where
  "proper_element e \<longleftrightarrow> e \<noteq> [] \<and> e \<noteq> ''.'' \<and> e \<noteq> ''..'' \<and> CHR ''/'' \<notin> set e"

lemma clean_elements_proper:
  assumes "\<forall>e \<in> set out. proper_element e" "\<forall>e \<in> set es. CHR ''/'' \<notin> set e"
  shows "\<forall>e \<in> set (clean_elements True out es). proper_element e"
  using assms
proof (induction es arbitrary: out)
  case (Cons e es)
  have IH: "\<forall>e \<in> set (clean_elements True o' es). proper_element e" if "\<forall>e \<in> set o'. proper_element e" for o'
    using Cons.IH[OF that] Cons.prems(2) by simp
  note out = Cons.prems(1)
  consider "e = [] \<or> e = ''.''" | "e = ''..''" | "e \<noteq> [] \<and> e \<noteq> ''.'' \<and> e \<noteq> ''..''" by blast
  then show ?case
  proof cases
    case 1
    then have "clean_elements True out (e # es) = clean_elements True out es" by auto
    then show ?thesis using IH[OF out] by simp
  next
    case 2
    show ?thesis
    proof (cases out)
      case Nil
      then show ?thesis using 2 IH[of "[]"] by simp
    next
      case (Cons p ps)
      then have "p \<noteq> ''..''" "\<forall>e \<in> set ps. proper_element e" using out by (auto simp: proper_element_def)
      then show ?thesis using 2 Cons IH[of ps] by simp
    qed
  next
    case 3
    then have p: "proper_element e" using Cons.prems(2) by (simp add: proper_element_def)
    have "\<forall>x \<in> set (e # out). proper_element x" using p out by (simp only: set_simps ball_simps)
    from IH[OF this] show ?thesis using 3 by (simp only: clean_elements.simps if_False simp_thms)
  qed
qed simp

lemma after_last_join:
  assumes "xs \<noteq> []" "\<forall>e \<in> set xs. c \<notin> set e"
  shows "after_last c (c # join_with [c] xs) = last xs"
    and "c # join_with [c] xs =
         concat (map (\<lambda>e. c # e) (butlast xs)) @ c # last xs"
proof -
  have takeWhile_eq_all: "takeWhile (\<lambda>x. x \<noteq> c) ys = ys" if "c \<notin> set ys" for ys
    using that by (simp add: takeWhile_eq_all_conv) blast
  show eq: "c # join_with [c] xs = concat (map (\<lambda>e. c # e) (butlast xs)) @ c # last xs"
    using assms(1) by (induction "[c]" xs rule: join_with.induct) auto
  have "last xs \<in> set xs" using assms(1) by simp
  then have "c \<notin> set (last xs)" using assms(2) by blast
  then show "after_last c (c # join_with [c] xs) = last xs"
    unfolding eq after_last_def by (simp add: takeWhile_tail takeWhile_append2 takeWhile_eq_all)
qed

text \<open>Joining a directory of a rooted path with a proper name only adds the separator.\<close>

lemma path_join_name:
  assumes "proper_element name"
  shows "path_join ''/'' name = CHR ''/'' # name" "path_join ''/cache'' name = ''/cache/'' @ name"
proof -
  have s: "split_on (CHR ''/'') name = [name]"
    using assms by (intro split_on_absent) (simp add: proper_element_def)
  show "path_join ''/'' name = CHR ''/'' # name"
    using assms by (simp add: path_join_def path_clean_def Let_def s proper_element_def)
  show "path_join ''/cache'' name = ''/cache/'' @ name"
    using assms by (simp add: path_join_def path_clean_def Let_def s proper_element_def)
qed

end
