(* ===== verification/Bambu_Document.thy ===== *)
theory Bambu_Document
  imports Go_Strings
begin

text \<open>
  backend/internal/printerconnector: the printer's merged status document (mergeBambuObject of
  bambu_reducer.go), the scalars read from it, the filament holders it lists (trays, tags, active slot and
  routes per adapter), the error codes, and where a print's archive lives (bambu_storage.go,
  bambu_discovery.go). A JSON object is the list of its fields; a nil map reads as the empty object. A number
  carries the text scalarString gives for it. The Unicode tables (ToLower, ToUpper, EqualFold, IsLetter and
  IsDigit) and url.PathUnescape are the fields of \<open>text_ops\<close>, an argument of the definitions that use them.
\<close>

section \<open>JSON values\<close>

datatype json = JNull | JBool bool | JNum string | JStr string | JArr "json list" | JObj "(string \<times> json) list"

type_synonym fields = "(string \<times> json) list"

record text_ops =
  lower_text :: "string \<Rightarrow> string"
  upper_text :: "string \<Rightarrow> string"
  fold_equal :: "string \<Rightarrow> string \<Rightarrow> bool"
  letters_digits :: "string \<Rightarrow> string"
  path_unescape :: "string \<Rightarrow> string option"

definition object_of :: "json option \<Rightarrow> fields" where
  "object_of v = (case v of Some (JObj o') \<Rightarrow> o' | _ \<Rightarrow> [])"

definition array_of :: "json option \<Rightarrow> json list" where
  "array_of v = (case v of Some (JArr xs) \<Rightarrow> xs | _ \<Rightarrow> [])"

text \<open>objectAt, with the empty object for nil, and whether the key holds an object.\<close>

definition object_at :: "fields \<Rightarrow> string \<Rightarrow> fields" where
  "object_at o' k = object_of (map_of o' k)"

definition has_object :: "fields \<Rightarrow> string \<Rightarrow> bool" where
  "has_object o' k = (case map_of o' k of Some (JObj _) \<Rightarrow> True | _ \<Rightarrow> False)"

definition scalar_string :: "json option \<Rightarrow> string" where
  "scalar_string v =
     (case v of
        Some (JStr s) \<Rightarrow> trim_space s
      | Some (JNum t) \<Rightarrow> t
      | Some (JBool b) \<Rightarrow> (if b then ''true'' else ''false'')
      | _ \<Rightarrow> [])"

definition string_at :: "fields \<Rightarrow> string \<Rightarrow> string" where
  "string_at o' k = scalar_string (map_of o' k)"

fun first_scalar :: "fields \<Rightarrow> string list \<Rightarrow> string" where
  "first_scalar o' [] = []"
| "first_scalar o' (k # ks) = (if string_at o' k \<noteq> [] then string_at o' k else first_scalar o' ks)"

definition max_int32 :: int where "max_int32 = 2147483647"

definition bounded_int :: "json option \<Rightarrow> int \<Rightarrow> int \<Rightarrow> int option" where
  "bounded_int v low high =
     (case go_atoi (scalar_string v) of
        None \<Rightarrow> None
      | Some n \<Rightarrow> if low \<le> n \<and> n \<le> high then Some n else None)"

section \<open>Merging a report into the document\<close>

datatype merge_error = Too_Deep | Key_Too_Long

text \<open>
  The loop of mergeBambuObject over the fields of a patch; a nested call checks its depth first. The loop of
  the source visits the fields of a map in any order: the fields have distinct names, so the order decides
  only which of two errors is reported.
\<close>

fun merge_fields :: "fields \<Rightarrow> fields \<Rightarrow> nat \<Rightarrow> merge_error + fields" where
  "merge_fields result [] depth = Inr result"
| "merge_fields result ((k, v) # rest) depth =
     (if 200 < length k then Inl Key_Too_Long
      else case v of
             JNull \<Rightarrow> merge_fields (AList.delete k result) rest depth
           | JObj patch \<Rightarrow>
               (case map_of result k of
                  Some (JObj current) \<Rightarrow>
                    if 32 < Suc depth then Inl Too_Deep
                    else (case merge_fields current patch (Suc depth) of
                            Inl e \<Rightarrow> Inl e
                          | Inr merged \<Rightarrow> merge_fields (AList.update k (JObj merged) result) rest depth)
                | _ \<Rightarrow> merge_fields (AList.update k v result) rest depth)
           | _ \<Rightarrow> merge_fields (AList.update k v result) rest depth)"

definition merge_object :: "fields \<Rightarrow> fields \<Rightarrow> nat \<Rightarrow> merge_error + fields" where
  "merge_object current patch depth = (if 32 < depth then Inl Too_Deep else merge_fields current patch depth)"

section \<open>Life cycle and session\<close>

definition is_active :: "string \<Rightarrow> bool" where
  "is_active v = (v = ''PREPARE'' \<or> v = ''RUNNING'' \<or> v = ''PAUSE'')"

definition session_key :: "fields \<Rightarrow> string" where
  "session_key state =
     (let parts = List.map_filter
            (\<lambda>k. let v = string_at state k in if v \<noteq> [] \<and> v \<noteq> ''0'' then Some (k @ ''='' @ v) else None)
            [''lan_task_id'', ''task_id'', ''job_id'', ''subtask_id'']
      in if parts \<noteq> [] then ''tuple:'' @ join_with '','' parts else [])"

section \<open>Names and sources of a print\<close>

definition is_archive_path :: "text_ops \<Rightarrow> string \<Rightarrow> bool" where
  "is_archive_path ops v = has_suffix (lower_text ops (trim_space v)) ''.3mf''"

text \<open>The first of the file keys that names an archive.\<close>

definition explicit_archive_path :: "text_ops \<Rightarrow> fields \<Rightarrow> string" where
  "explicit_archive_path ops state =
     (case find (\<lambda>v. is_archive_path ops v)
             (map (\<lambda>k. trim_space (string_at state k)) [''file'', ''filename'', ''gcode_file'']) of
        None \<Rightarrow> [] | Some v \<Rightarrow> v)"

definition artifact_path :: "text_ops \<Rightarrow> fields \<Rightarrow> string" where
  "artifact_path ops state =
     (case find (\<lambda>v. is_archive_path ops v)
             (map (\<lambda>k. trim_space (string_at state k)) [''file'', ''filename'', ''gcode_file'']) of
        Some v \<Rightarrow> take 255 v
      | None \<Rightarrow>
          let name = trim_space (string_at state ''subtask_name'') in
          if name = [] \<or> name = ''.'' \<or> name = ''..'' \<or> CHR ''/'' \<in> set name \<or> CHR 0x5C \<in> set name then []
          else if list_ex (\<lambda>c. (of_char c :: nat) < 0x20 \<or> (of_char c :: nat) = 0x7F) name then []
          else let candidate = name @ ''.gcode.3mf'' in if 255 < length candidate then [] else candidate)"

definition file_name :: "text_ops \<Rightarrow> fields \<Rightarrow> string" where
  "file_name ops state =
     (let v = (if first_scalar state [''subtask_name''] = [] then after_last (CHR ''/'') (artifact_path ops state)
               else first_scalar state [''subtask_name''])
      in take 255 v)"

definition archive_base_name :: "text_ops \<Rightarrow> string \<Rightarrow> string" where
  "archive_base_name ops name0 =
     (let name = trim_space name0; low = lower_text ops name in
      if has_suffix low ''.gcode.3mf'' then take (length name - 10) name
      else if has_suffix low ''.3mf'' then take (length name - 4) name
      else name)"

definition print_name_key :: "text_ops \<Rightarrow> string \<Rightarrow> string" where
  "print_name_key ops name = letters_digits ops (lower_text ops (archive_base_name ops name))"

definition external_media_prefixes :: "string list" where
  "external_media_prefixes = [''/media/usb'', ''/mnt/sdcard'', ''/sdcard'']"

text \<open>From the first slash on, if there is one.\<close>

definition from_slash :: "string \<Rightarrow> string option" where
  "from_slash s = (if CHR ''/'' \<in> set s then Some (dropWhile (\<lambda>c. c \<noteq> CHR ''/'') s) else None)"

definition external_media_path :: "text_ops \<Rightarrow> string \<Rightarrow> string option" where
  "external_media_path ops raw0 =
     (let raw = trim_space raw0; low = lower_text ops raw; ftp = \<not> has_prefix low ''file://'';
          rest = (if has_prefix low ''file://'' then Some (drop 7 raw)
                  else if has_prefix low ''ftp://'' then Some (drop 6 raw)
                  else if has_prefix low ''ftps://'' then Some (drop 7 raw) else None)
      in case rest of
           None \<Rightarrow> None
         | Some r \<Rightarrow>
             (case (if has_prefix r ''/'' then Some r
                    else case from_slash r of Some s \<Rightarrow> Some s | None \<Rightarrow> if ftp then Some (CHR ''/'' # r) else None) of
                None \<Rightarrow> None
              | Some p \<Rightarrow>
                  let q = (case path_unescape ops p of Some d \<Rightarrow> d | None \<Rightarrow> p) in
                  if ftp then Some q
                  else if list_ex (\<lambda>prefix. has_prefix (lower_text ops q) prefix) external_media_prefixes
                  then Some q else None))"

datatype print_source = Unknown_Source | External_Storage | Internal_Storage

definition classify_print_source :: "text_ops \<Rightarrow> string \<Rightarrow> string \<Rightarrow> print_source" where
  "classify_print_source ops session_url subtask =
     (case external_media_path ops session_url of
        None \<Rightarrow> Internal_Storage
      | Some media \<Rightarrow>
          let name = print_name_key ops subtask in
          if name = [] then External_Storage
          else if print_name_key ops (after_last (CHR ''/'') media) = name then External_Storage
          else Internal_Storage)"

text \<open>bambuInternalPath: the first non-empty file value as a snake-case code.\<close>

definition path_code_step :: "char \<Rightarrow> string \<Rightarrow> string" where
  "path_code_step c code =
     (let n = of_char c :: nat in
      if (97 \<le> n \<and> n \<le> 122) \<or> (48 \<le> n \<and> n \<le> 57) then code @ [c]
      else if code \<noteq> [] \<and> last code \<noteq> CHR ''_'' then code @ ''_'' else code)"

definition path_code :: "string \<Rightarrow> string" where
  "path_code v =
     (let r = trim_chars {CHR ''_''} (fold path_code_step v []) in
      if r = [] \<or> (of_char (hd r) :: nat) < 97 \<or> 122 < (of_char (hd r) :: nat) then [] else take 80 r)"

definition internal_path :: "text_ops \<Rightarrow> fields \<Rightarrow> string" where
  "internal_path ops state =
     (case find (\<lambda>v. v \<noteq> [])
             (map (\<lambda>k. lower_text ops (trim_space (string_at state k))) [''gcode_file'', ''file'', ''filename'']) of
        None \<Rightarrow> []
      | Some v \<Rightarrow> path_code v)"

text \<open>splitArtifactPath: a path directly below / or /cache that ends in .3mf.\<close>

definition split_artifact_path :: "text_ops \<Rightarrow> string \<Rightarrow> (string \<times> string) option" where
  "split_artifact_path ops v0 =
     (let v = trim_space (map (\<lambda>c. if c = CHR 0x5C then CHR ''/'' else c) v0) in
      if CHR ''/'' \<notin> set v \<or> \<not> is_archive_path ops v then None
      else
        let clean = path_clean (CHR ''/'' # (if has_prefix v ''/'' then drop 1 v else v));
            name = after_last (CHR ''/'') clean;
            dir = (let d = take (length clean - length name - 1) clean in if d = [] then ''/'' else d)
        in if (dir \<noteq> ''/'' \<and> dir \<noteq> ''/cache'') \<or> name = ''.'' \<or> name = [] then None else Some (dir, name))"

text \<open>The mount prefixes of bambuFTPSArchivePath; the first that matches is cut.\<close>

definition cut_mount :: "text_ops \<Rightarrow> string \<Rightarrow> string option" where
  "cut_mount ops rest =
     (let low = lower_text ops rest in
      if has_prefix low ''/media/'' then
        (let r = drop 6 rest in from_slash (drop 1 r))
      else if has_prefix low ''/mnt/sdcard/'' then Some (drop 11 rest)
      else if has_prefix low ''/sdcard/'' then Some (drop 7 rest)
      else Some rest)"

definition ftps_archive_path :: "text_ops \<Rightarrow> string \<Rightarrow> string" where
  "ftps_archive_path ops raw0 =
     (let raw = trim_space raw0; low = lower_text ops raw;
          rest = (if has_prefix low ''file://'' then Some (drop 7 raw)
                  else if has_prefix low ''ftp://'' \<or> has_prefix low ''ftps://'' then
                    (let r = drop 2 (case from_slash raw of Some s \<Rightarrow> s | None \<Rightarrow> raw) in if has_prefix r ''/'' then Some r else from_slash r)
                  else if has_prefix raw ''/'' then Some raw else None)
      in case rest of
           None \<Rightarrow> []
         | Some r \<Rightarrow>
             let p = path_clean (case path_unescape ops r of Some d \<Rightarrow> d | None \<Rightarrow> r) in
             (case cut_mount ops p of
                None \<Rightarrow> []
              | Some q \<Rightarrow>
                  if has_prefix (lower_text ops q) ''/data/'' then []
                  else case split_artifact_path ops q of None \<Rightarrow> [] | Some (dir, name) \<Rightarrow> path_join dir name))"

section \<open>Filament holders\<close>

record tray_ref =
  ref_unit :: string
  ref_slot :: string
  ref_tray :: fields
  ref_external :: bool
  ref_unit_fields :: fields

record spool_tag =
  tag_uid :: string
  tray_uuid :: string

definition is_zero_identifier :: "string \<Rightarrow> bool" where
  "is_zero_identifier v = (\<forall>c \<in> set v. c = CHR ''0'')"

definition tray_tag_uid :: "fields \<Rightarrow> string" where
  "tray_tag_uid tray = (let t = trim_space (first_scalar tray [''tag_uid'']) in if t = [] \<or> is_zero_identifier t then [] else t)"

definition tray_spool_uuid :: "fields \<Rightarrow> string" where
  "tray_spool_uuid tray = (let t = trim_space (first_scalar tray [''tray_uuid'']) in if t = [] \<or> is_zero_identifier t then [] else t)"

definition spool_tag_of :: "fields \<Rightarrow> spool_tag" where
  "spool_tag_of tray = \<lparr>tag_uid = tray_tag_uid tray, tray_uuid = tray_spool_uuid tray\<rparr>"

definition tag_present :: "spool_tag \<Rightarrow> bool" where
  "tag_present t = (tag_uid t \<noteq> [] \<or> tray_uuid t \<noteq> [])"

definition same_spool :: "text_ops \<Rightarrow> spool_tag \<Rightarrow> spool_tag \<Rightarrow> bool" where
  "same_spool ops t other =
     (if tray_uuid t \<noteq> [] \<and> tray_uuid other \<noteq> [] then fold_equal ops (tray_uuid t) (tray_uuid other)
      else if \<not> tag_present t \<or> \<not> tag_present other then True
      else if tag_uid t \<noteq> [] \<and> tag_uid other \<noteq> [] then fold_equal ops (tag_uid t) (tag_uid other)
      else True)"

definition unit_tray_refs :: "json \<Rightarrow> tray_ref list" where
  "unit_tray_refs raw =
     (let unit = object_of (Some raw); uid = first_scalar unit [''id'', ''ams_id''] in
      List.map_filter
        (\<lambda>t. let tray = object_of (Some t); tid = first_scalar tray [''id'', ''tray_id''] in
          if uid = [] \<or> tid = [] then None
          else Some \<lparr>ref_unit = uid, ref_slot = tid, ref_tray = tray, ref_external = False, ref_unit_fields = unit\<rparr>)
        (array_of (map_of unit ''tray'')))"

definition external_tray_refs :: "json list \<Rightarrow> tray_ref list" where
  "external_tray_refs raws =
     List.map_filter
       (\<lambda>t. let tray = object_of (Some t); i = first_scalar tray [''id'', ''tray_id''] in
         if i = [] then None
         else Some \<lparr>ref_unit = i, ref_slot = i, ref_tray = tray, ref_external = True, ref_unit_fields = []\<rparr>) raws"

definition tray_refs :: "fields \<Rightarrow> tray_ref list \<times> bool" where
  "tray_refs state =
     (let units = array_of (map_of (object_at state ''ams'') ''ams''); ext = array_of (map_of state ''vir_slot'') in
      (concat (map unit_tray_refs units) @ external_tray_refs ext, units \<noteq> [] \<or> ext \<noteq> []))"

text \<open>tray_exist_bits: (present, known); AMS HT units are numbered from 128 and follow the four AMS units.\<close>

definition tray_exist_bit :: "string \<Rightarrow> string \<Rightarrow> string \<Rightarrow> bool \<times> bool" where
  "tray_exist_bit bits unit_id tray_id =
     (if bits = [] then (False, False)
      else case (parse_uint 16 64 bits, go_atoi unit_id, go_atoi tray_id) of
             (Some bitmask, Some u0, Some t) \<Rightarrow>
               if t < 0 \<or> 3 < t then (False, False)
               else let u = (if 128 \<le> u0 then u0 - 128 + 4 else u0) in
                 if u < 0 \<or> 11 < u then (False, False)
                 else (odd (bitmask div 2 ^ nat (u * 4 + t)), True)
           | _ \<Rightarrow> (False, False))"

subsection \<open>H2D extruder routing\<close>

record extruder_route =
  route_filament :: string
  route_extruder :: int
  route_ref :: tray_ref

definition ams_extruder :: "text_ops \<Rightarrow> fields \<Rightarrow> int option" where
  "ams_extruder ops unit =
     (let raw = trim_space (first_scalar unit [''info'']) in
      if raw = [] then None
      else let l = lower_text ops raw; d = (if has_prefix l ''0x'' then drop 2 l else l) in
        case parse_uint 16 32 d of None \<Rightarrow> None | Some v \<Rightarrow> Some (int (v div 256 mod 16)))"

text \<open>
  The holders that a hotend source with the given high and low byte can be: an external holder (254 or 255,
  slot 0), else the trays of the units that feed the extruder, else the trays of the unit of the high byte.
\<close>

definition source_holders :: "text_ops \<Rightarrow> tray_ref list \<Rightarrow> int \<Rightarrow> int \<Rightarrow> int \<Rightarrow> tray_ref list" where
  "source_holders ops refs eid high low =
     (if (high = 254 \<or> high = 255) \<and> low = 0
      then filter (\<lambda>r. ref_unit r = itoa high \<and> ref_slot r = itoa high) refs
      else let bound = filter (\<lambda>r. \<not> ref_external r \<and> ref_slot r = itoa low \<and>
                                   ams_extruder ops (ref_unit_fields r) = Some eid) refs in
        if bound = [] then filter (\<lambda>r. \<not> ref_external r \<and> ref_unit r = itoa high \<and> ref_slot r = itoa low) refs
        else bound)"

text \<open>The tray an entry of device.extruder.info names, if it names exactly one.\<close>

definition extruder_entry_route :: "text_ops \<Rightarrow> tray_ref list \<Rightarrow> json \<Rightarrow> extruder_route option" where
  "extruder_entry_route ops refs raw =
     (let entry = object_of (Some raw) in
      case (bounded_int (map_of entry ''id'') 0 15, bounded_int (map_of entry ''snow'') 0 65535) of
        (Some eid, Some snow) \<Rightarrow>
          if snow = 65535 then None
          else if map_of entry ''info'' \<noteq> None \<and>
                  (case bounded_int (map_of entry ''info'') 0 max_int32 of None \<Rightarrow> True | Some f \<Rightarrow> f div 2 mod 2 = 0)
          then None
          else let high = snow div 256 mod 256; low = snow mod 256 in
            if low = 255 then None
            else (case source_holders ops refs eid high low of
                    [r] \<Rightarrow> Some \<lparr>route_filament = [], route_extruder = eid, route_ref = r\<rparr>
                  | _ \<Rightarrow> None)
      | _ \<Rightarrow> None)"

definition extruder_slots :: "text_ops \<Rightarrow> fields \<Rightarrow> extruder_route list" where
  "extruder_slots ops state =
     (let extruder = object_at (object_at state ''device'') ''extruder''; refs = fst (tray_refs state) in
      sort_key route_extruder (List.map_filter (extruder_entry_route ops refs) (array_of (map_of extruder ''info''))))"

type_synonym active_slot = "(string \<times> string \<times> spool_tag) option"

definition slot_of_ref :: "tray_ref \<Rightarrow> string \<times> string \<times> spool_tag" where
  "slot_of_ref r = (ref_unit r, ref_slot r, spool_tag_of (ref_tray r))"

definition active_extruder_slot :: "text_ops \<Rightarrow> fields \<Rightarrow> active_slot" where
  "active_extruder_slot ops state =
     (let extruder = object_at (object_at state ''device'') ''extruder''; routes = extruder_slots ops state in
      case bounded_int (map_of extruder ''state'') 0 max_int32 of
        Some raw \<Rightarrow>
          (case find (\<lambda>r. route_extruder r = raw div 256 mod 2) routes of
             None \<Rightarrow> None | Some r \<Rightarrow> Some (slot_of_ref (route_ref r)))
      | None \<Rightarrow> (case routes of [r] \<Rightarrow> Some (slot_of_ref (route_ref r)) | _ \<Rightarrow> None))"

text \<open>The trays a bare or qualified tray_now names; a bare number of 128 to 253 may name a single-tray unit.\<close>

definition tray_now_matches :: "tray_ref list \<Rightarrow> string \<Rightarrow> string \<Rightarrow> tray_ref list" where
  "tray_now_matches refs unit tray =
     (let direct = filter (\<lambda>r. (unit = [] \<or> unit = ref_unit r) \<and> ref_slot r = tray) refs in
      if direct = [] \<and> unit = [] \<and>
         (case go_atoi tray of None \<Rightarrow> False | Some n \<Rightarrow> 128 \<le> n \<and> n < 254)
      then let ht = filter (\<lambda>r. \<not> ref_external r \<and> ref_unit r = tray) refs in
        (case ht of
           [r] \<Rightarrow> if length (array_of (map_of (ref_unit_fields r) ''tray'')) = 1 then ht else []
         | _ \<Rightarrow> [])
      else direct)"

definition h2d_active_slot :: "text_ops \<Rightarrow> fields \<Rightarrow> active_slot" where
  "h2d_active_slot ops state =
     (case active_extruder_slot ops state of
        Some s \<Rightarrow> Some s
      | None \<Rightarrow>
          let now = (if first_scalar state [''tray_now''] \<noteq> [] then first_scalar state [''tray_now'']
                     else first_scalar (object_at state ''ams'') [''tray_now'']) in
          if now = [] \<or> now = ''255'' then None
          else case (case go_cut (CHR '':'') now of
                       None \<Rightarrow> Some ([], now)
                     | Some (u, t) \<Rightarrow> if trim_space u = [] \<or> trim_space t = [] then None else Some (trim_space u, trim_space t)) of
                 None \<Rightarrow> None
               | Some (u, t) \<Rightarrow>
                   (case tray_now_matches (fst (tray_refs state)) u t of
                      [r] \<Rightarrow> Some (slot_of_ref r)
                    | _ \<Rightarrow> None))"

subsection \<open>X1C routing\<close>

definition find_ams_ref :: "tray_ref list \<Rightarrow> string \<Rightarrow> string \<Rightarrow> tray_ref option" where
  "find_ams_ref refs u t = find (\<lambda>r. \<not> ref_external r \<and> ref_unit r = u \<and> ref_slot r = t) refs"

definition x1c_active_slot :: "fields \<Rightarrow> active_slot" where
  "x1c_active_slot state =
     (let v = (if first_scalar (object_at state ''ams'') [''tray_now''] \<noteq> []
               then first_scalar (object_at state ''ams'') [''tray_now''] else first_scalar state [''tray_now'']) in
      if v = ''255'' then None
      else case go_atoi v of
             None \<Rightarrow> None
           | Some i \<Rightarrow>
               if i < 0 \<or> 15 < i then None
               else case find_ams_ref (fst (tray_refs state)) (itoa (i div 4)) (itoa (i mod 4)) of
                      None \<Rightarrow> None | Some r \<Rightarrow> Some (itoa (i div 4), itoa (i mod 4), spool_tag_of (ref_tray r)))"

definition mapped_route :: "nat \<Rightarrow> tray_ref \<Rightarrow> extruder_route" where
  "mapped_route index r = \<lparr>route_filament = itoa (int index + 1), route_extruder = 1, route_ref = r\<rparr>"

text \<open>ams_mapping2 names unit and slot of each filament; the older ams_mapping a global slot index.\<close>

definition mapping2_route :: "tray_ref list \<Rightarrow> nat \<times> json \<Rightarrow> extruder_route option" where
  "mapping2_route refs = (\<lambda>(index, raw).
     let entry = object_of (Some raw) in
     case (bounded_int (map_of entry ''ams_id'') 0 255, bounded_int (map_of entry ''slot_id'') 0 255) of
       (Some u, Some t) \<Rightarrow>
         if u = 255 \<and> t = 255 then None
         else (case find_ams_ref refs (itoa u) (itoa t) of None \<Rightarrow> None | Some r \<Rightarrow> Some (mapped_route index r))
     | _ \<Rightarrow> None)"

definition mapping_route :: "tray_ref list \<Rightarrow> nat \<times> json \<Rightarrow> extruder_route option" where
  "mapping_route refs = (\<lambda>(index, raw).
     case bounded_int (Some raw) 0 15 of
       None \<Rightarrow> None
     | Some g \<Rightarrow>
         (case find_ams_ref refs (itoa (g div 4)) (itoa (g mod 4)) of
            None \<Rightarrow> None | Some r \<Rightarrow> Some (mapped_route index r)))"

definition x1c_material_routes :: "fields \<Rightarrow> extruder_route list" where
  "x1c_material_routes state =
     (let refs = fst (tray_refs state);
          routes = List.map_filter (mapping2_route refs) (enumerate 0 (array_of (map_of state ''ams_mapping2'')))
      in if routes \<noteq> [] then routes
         else List.map_filter (mapping_route refs) (enumerate 0 (array_of (map_of state ''ams_mapping''))))"

datatype adapter_kind = Bambu_H2D | Bambu_X1C

definition active_slot_for :: "text_ops \<Rightarrow> adapter_kind \<Rightarrow> fields \<Rightarrow> active_slot" where
  "active_slot_for ops adapter state =
     (if adapter = Bambu_X1C then x1c_active_slot state else h2d_active_slot ops state)"

definition spool_routes_for :: "text_ops \<Rightarrow> adapter_kind \<Rightarrow> fields \<Rightarrow> extruder_route list" where
  "spool_routes_for ops adapter state =
     (if adapter = Bambu_X1C then
        (let routes = x1c_material_routes state in
         if routes \<noteq> [] then routes
         else case x1c_active_slot state of
                None \<Rightarrow> []
              | Some (u, t, _) \<Rightarrow>
                  (case find (\<lambda>r. ref_unit r = u \<and> ref_slot r = t) (fst (tray_refs state)) of
                     None \<Rightarrow> []
                   | Some r \<Rightarrow> [\<lparr>route_filament = [], route_extruder = 1, route_ref = r\<rparr>]))
      else extruder_slots ops state)"

section \<open>Error codes\<close>

definition print_error_code :: "json option \<Rightarrow> string" where
  "print_error_code v =
     (let t = scalar_string v in
      if t = [] \<or> t = ''0'' then []
      else case parse_uint 10 32 t of None \<Rightarrow> t | Some n \<Rightarrow> hex_padded 8 n)"

definition hms_code :: "fields \<Rightarrow> string" where
  "hms_code entry =
     (let code = string_at entry ''code''; attr = string_at entry ''attr'' in
      if code = ''0'' then []
      else case (parse_uint 10 32 code, parse_uint 10 32 attr) of
             (Some c, Some a) \<Rightarrow>
               hex_padded 4 (a div 65536) @ ''-'' @ hex_padded 4 (a mod 65536) @ ''-'' @
               hex_padded 4 (c div 65536) @ ''-'' @ hex_padded 4 (c mod 65536)
           | _ \<Rightarrow> let fallback = first_scalar entry [''code'', ''attr''] in if fallback \<noteq> ''0'' then fallback else [])"

section \<open>The merge law\<close>

text \<open>What a field of the merged object must be, given the field of the patch and of the document.\<close>

definition merged_field :: "json option \<Rightarrow> json option \<Rightarrow> nat \<Rightarrow> json option \<Rightarrow> bool" where
  "merged_field patched current depth v \<longleftrightarrow>
     (case patched of
        None \<Rightarrow> v = current
      | Some JNull \<Rightarrow> v = None
      | Some (JObj patch) \<Rightarrow>
          (case current of
             Some (JObj o') \<Rightarrow> depth < 32 \<and> (\<exists>m. merge_fields o' patch (Suc depth) = Inr m \<and> v = Some (JObj m))
           | _ \<Rightarrow> v = Some (JObj patch))
      | Some w \<Rightarrow> v = Some w)"

lemma merge_fields_other:
  "merge_fields result patch depth = Inr m \<Longrightarrow> k \<notin> fst ` set patch \<Longrightarrow> map_of m k = map_of result k"
proof (induction result patch depth arbitrary: m rule: merge_fields.induct)
  case (2 result k' v rest depth)
  then show ?case
    by (cases v) (auto split: if_splits option.splits json.splits sum.splits)
qed simp

lemma merge_fields_Cons:
  assumes "merge_fields result ((k, v) # rest) depth = Inr m"
  shows "\<exists>result'. merge_fields result' rest depth = Inr m \<and> length k \<le> 200 \<and>
     merged_field (Some v) (map_of result k) depth (map_of result' k) \<and>
     (\<forall>k'. k' \<noteq> k \<longrightarrow> map_of result' k' = map_of result k')"
proof -
  have key: "length k \<le> 200" using assms by (auto split: if_splits)
  have set_to: ?thesis
    if "merge_fields (AList.update k w result) rest depth = Inr m" "merged_field (Some v) (map_of result k) depth (Some w)" for w
    using that key by (intro exI[of _ "AList.update k w result"]) simp
  show ?thesis
  proof (cases v)
    case JNull
    then show ?thesis using assms key
      by (intro exI[of _ "AList.delete k result"]) (simp add: merged_field_def)
  next
    case (JObj patch)
    show ?thesis
    proof (cases "\<exists>current. map_of result k = Some (JObj current)")
      case True
      then obtain current where c: "map_of result k = Some (JObj current)" by blast
      then obtain o' where "depth < 32" "merge_fields current patch (Suc depth) = Inr o'"
        "merge_fields (AList.update k (JObj o') result) rest depth = Inr m"
        using assms JObj by (auto split: if_splits sum.splits)
      then show ?thesis using JObj c by (intro set_to) (auto simp: merged_field_def)
    next
      case False
      then have "merge_fields (AList.update k v result) rest depth = Inr m"
        using assms JObj by (auto split: if_splits option.splits json.splits)
      then show ?thesis using False JObj by (intro set_to) (auto simp: merged_field_def split: option.splits json.splits)
    qed
  qed (use assms key in \<open>auto intro: set_to simp: merged_field_def\<close>)
qed

lemma merge_fields_lookup:
  "merge_fields result patch depth = Inr m \<Longrightarrow> distinct (map fst patch) \<Longrightarrow>
   merged_field (map_of patch k) (map_of result k) depth (map_of m k)"
proof (induction patch arbitrary: result)
  case Nil
  then show ?case by (simp add: merged_field_def)
next
  case (Cons kv rest)
  obtain k' v where kv: "kv = (k', v)" by (cases kv)
  from merge_fields_Cons[OF Cons.prems(1)[unfolded kv]] obtain result' where r:
    "merge_fields result' rest depth = Inr m" "merged_field (Some v) (map_of result k') depth (map_of result' k')"
    "\<forall>k''. k'' \<noteq> k' \<longrightarrow> map_of result' k'' = map_of result k''" by blast
  show ?case
  proof (cases "k = k'")
    case True
    have "map_of m k' = map_of result' k'"
      using merge_fields_other[OF r(1)] Cons.prems(2) kv by auto
    then show ?thesis using r(2) True kv by simp
  next
    case False
    with r(3) Cons.IH[OF r(1)] Cons.prems(2) kv show ?thesis by simp
  qed
qed

lemma merge_fields_distinct:
  "merge_fields result patch depth = Inr m \<Longrightarrow> distinct (map fst result) \<Longrightarrow> distinct (map fst m)"
proof (induction result patch depth arbitrary: m rule: merge_fields.induct)
  case (2 result k v rest depth)
  then show ?case
    by (cases v) (auto simp: distinct_update distinct_delete simp del: set_map split: if_splits option.splits json.splits sum.splits)
qed simp

text \<open>The levels of nested objects that a patch opens, counting only fields.\<close>

fun patch_fits :: "nat \<Rightarrow> json \<Rightarrow> bool" where
  "patch_fits d (JObj patch) \<longleftrightarrow> (\<forall>(k, v) \<in> set patch. length k \<le> 200 \<and> (case v of JObj _ \<Rightarrow> 0 < d \<and> patch_fits (d - 1) v | _ \<Rightarrow> True))"
| "patch_fits d v \<longleftrightarrow> True"

declare patch_fits.simps(1) [simp del]

lemma patch_fits_Cons:
  "patch_fits d (JObj ((k, v) # rest)) \<longleftrightarrow>
     length k \<le> 200 \<and> (\<forall>p. v = JObj p \<longrightarrow> 0 < d \<and> patch_fits (d - 1) v) \<and> patch_fits d (JObj rest)"
  by (cases v) (auto simp: patch_fits.simps(1))

lemma merge_fields_total:
  "patch_fits (32 - depth) (JObj patch) \<Longrightarrow> depth \<le> 32 \<Longrightarrow> \<exists>m. merge_fields result patch depth = Inr m"
proof (induction result patch depth rule: merge_fields.induct)
  case (2 result k v rest depth)
  have rest: "patch_fits (32 - depth) (JObj rest)" "length k \<le> 200"
    using "2.prems" by (simp_all add: patch_fits_Cons)
  show ?case
  proof (cases v)
    case (JObj patch)
    then have p: "0 < 32 - depth" "patch_fits (32 - Suc depth) (JObj patch)"
      using "2.prems" by (simp_all add: patch_fits_Cons)
    then have d: "Suc depth \<le> 32" by simp
    show ?thesis
    proof (cases "map_of result k")
      case None
      then show ?thesis using 2 rest JObj by simp
    next
      case (Some w)
      show ?thesis
      proof (cases w)
        case (JObj current)
        with Some \<open>v = JObj patch\<close> 2 rest p d show ?thesis by (fastforce split: sum.splits)
      qed (use 2 rest JObj Some in auto)
    qed
  qed (use 2 rest in auto)
qed simp

lemma merged_field_unique:
  "merged_field patched current depth v \<Longrightarrow> merged_field patched current depth w \<Longrightarrow> v = w"
proof (cases "\<exists>p. patched = Some (JObj p)")
  case True
  then show "merged_field patched current depth v \<Longrightarrow> merged_field patched current depth w \<Longrightarrow> v = w"
    by (cases current; cases "the current") (auto simp: merged_field_def)
next
  case False
  then show "merged_field patched current depth v \<Longrightarrow> merged_field patched current depth w \<Longrightarrow> v = w"
    by (cases patched; cases "the patched") (auto simp: merged_field_def)
qed

text \<open>
  A report whose keys have at most 200 bytes and whose objects nest at most 32 levels deep below the top
  is always merged into the document, and field by field: an absent field keeps the document's value, null
  removes it, an object is merged into an object and replaces anything else, and every other value replaces
  the field as a unit. The result does not depend on the order in which the fields of the report are visited.
\<close>

theorem merge_object_law:
  assumes "patch_fits 32 (JObj patch)" "distinct (map fst patch)"
  shows "case merge_object document patch 0 of
           Inl e \<Rightarrow> False
         | Inr m \<Rightarrow> (\<forall>k. merged_field (map_of patch k) (map_of document k) 0 (map_of m k)) \<and>
             (distinct (map fst document) \<longrightarrow> distinct (map fst m)) \<and>
             (\<forall>patch'. set patch' = set patch \<and> distinct (map fst patch') \<longrightarrow>
                (case merge_object document patch' 0 of Inl e \<Rightarrow> False | Inr m' \<Rightarrow> map_of m' = map_of m))"
proof -
  have total: "\<exists>m. merge_object document p 0 = Inr m" if "set p = set patch" for p
    using merge_fields_total[of 0 p document] assms(1) that
    by (auto simp: merge_object_def patch_fits.simps(1))
  have field: "merged_field (map_of p k) (map_of document k) 0 (map_of m k)"
    if "merge_object document p 0 = Inr m" "distinct (map fst p)" for p m k
    using merge_fields_lookup[of document p 0 m k] that by (simp add: merge_object_def)
  obtain m where m: "merge_object document patch 0 = Inr m" using total by blast
  have "map_of m' = map_of m"
    if p: "set p = set patch" "distinct (map fst p)" "merge_object document p 0 = Inr m'" for p m'
  proof
    fix k
    have "map_of p = map_of patch" using map_of_inject_set[OF p(2) assms(2)] p(1) by blast
    then show "map_of m' k = map_of m k"
      using merged_field_unique field[OF p(3,2), of k] field[OF m assms(2), of k] by simp
  qed
  moreover have "distinct (map fst document) \<longrightarrow> distinct (map fst m)"
    using merge_fields_distinct[of document patch 0 m] m by (simp add: merge_object_def)
  moreover have "case merge_object document p 0 of Inl e \<Rightarrow> False | Inr m' \<Rightarrow> map_of m' = map_of m"
    if p: "set p = set patch" "distinct (map fst p)" for p
    using total[OF p(1)] calculation(1)[OF p] by auto
  ultimately show ?thesis unfolding m sum.case using field[OF m assms(2)] by blast
qed

lemma merge_object_law_witness:
  "\<exists>m. merge_object [(''a'', JObj [(''x'', JNum ''1''), (''y'', JNum ''2'')]), (''b'', JNum ''3'')]
        [(''a'', JObj [(''x'', JNull), (''z'', JBool True)]), (''c'', JArr [])] 0 = Inr m \<and>
     map_of m ''b'' = Some (JNum ''3'') \<and> map_of m ''a'' = Some (JObj [(''y'', JNum ''2''), (''z'', JBool True)])"
proof -
  let ?d = "[(''a'', JObj [(''x'', JNum ''1''), (''y'', JNum ''2'')]), (''b'', JNum ''3'')]"
  let ?p = "[(''a'', JObj [(''x'', JNull), (''z'', JBool True)]), (''c'', JArr [])]"
  have hyps: "patch_fits 32 (JObj ?p)" "distinct (map fst ?p)" by (simp_all add: patch_fits.simps(1))
  let ?m = "[(''a'', JObj [(''y'', JNum ''2''), (''z'', JBool True)]), (''b'', JNum ''3''), (''c'', JArr [])]"
  have m: "merge_object ?d ?p 0 = Inr ?m" by code_simp
  from merge_object_law[OF hyps, of ?d] have "\<forall>k. merged_field (map_of ?p k) (map_of ?d k) 0 (map_of ?m k)"
    unfolding m sum.case by (rule conjunct1)
  then have "merged_field (map_of ?p ''b'') (map_of ?d ''b'') 0 (map_of ?m ''b'')" by (rule spec)
  with m show ?thesis by (simp add: merged_field_def)
qed

section \<open>Error codes are faithful\<close>

text \<open>
  Codes lose nothing: a 32-bit print error other than zero becomes eight hexadecimal digits that read
  back as the same number, and an HMS entry becomes four groups that read back as the halves of its
  attribute and its code, so different errors never share a key.
\<close>

theorem error_codes_roundtrip:
  "(0 < n \<and> n < 2 ^ 32 \<longrightarrow>
      length (print_error_code (Some (JNum (itoa (int n))))) = 8 \<and>
      parse_uint 16 32 (print_error_code (Some (JNum (itoa (int n))))) = Some n)
   \<and> (0 < c \<and> c < 2 ^ 32 \<and> a < 2 ^ 32 \<longrightarrow>
      map (parse_uint 16 16)
        (split_on (CHR ''-'') (hms_code [(''code'', JNum (itoa (int c))), (''attr'', JNum (itoa (int a)))])) =
      [Some (a div 65536), Some (a mod 65536), Some (c div 65536), Some (c mod 65536)])"
proof -
  have decimal: "itoa (int m) = digits_of 10 m" for m by (simp add: itoa_def)
  have nz: "digits_of 10 m \<noteq> ''0''" if "0 < m" for m
  proof
    assume "digits_of 10 m = ''0''"
    moreover have "parse_digits 10 0 (digits_of 10 m) = Some m" by (simp add: parse_digits_of)
    moreover have "parse_digits 10 0 ''0'' = Some 0" by code_simp
    ultimately show False using that by simp
  qed
  have "length (print_error_code (Some (JNum (itoa (int n))))) = 8 \<and>
      parse_uint 16 32 (print_error_code (Some (JNum (itoa (int n))))) = Some n" if "0 < n" "n < 2 ^ 32"
    using that nz parse_hex_padded[of n 32 8] hex_padded_length[of 8 n]
    by (simp add: print_error_code_def scalar_string_def decimal Let_def parse_uint_digits)
  moreover have "map (parse_uint 16 16)
        (split_on (CHR ''-'') (hms_code [(''code'', JNum (itoa (int c))), (''attr'', JNum (itoa (int a)))])) =
      [Some (a div 65536), Some (a mod 65536), Some (c div 65536), Some (c mod 65536)]"
    if h: "0 < c" "c < 2 ^ 32" "a < 2 ^ 32"
  proof -
    have "hms_code [(''code'', JNum (itoa (int c))), (''attr'', JNum (itoa (int a)))] =
        hex_padded 4 (a div 65536) @ CHR ''-'' # hex_padded 4 (a mod 65536) @ CHR ''-'' #
        hex_padded 4 (c div 65536) @ CHR ''-'' # hex_padded 4 (c mod 65536)"
      using h nz by (simp add: hms_code_def string_at_def scalar_string_def decimal Let_def parse_uint_digits)
    moreover have "a div 65536 < 2 ^ 16" "c div 65536 < 2 ^ 16" "a mod 65536 < 2 ^ 16" "c mod 65536 < 2 ^ 16"
      using h by auto
    ultimately show ?thesis
      by (simp add: split_on_append split_on_absent hex_padded_dash parse_hex_padded del: power_numeral)
  qed
  ultimately show ?thesis by blast
qed

lemma error_codes_roundtrip_witness:
  "length (print_error_code (Some (JNum (itoa (int 134184963))))) = 8 \<and>
   parse_uint 16 32 (print_error_code (Some (JNum (itoa (int 134184963))))) = Some 134184963"
  by (rule error_codes_roundtrip[THEN conjunct1, THEN mp]) simp

section \<open>Routes name listed holders\<close>

lemma unit_tray_refs_external: "r \<in> set (unit_tray_refs raw) \<Longrightarrow> \<not> ref_external r"
  by (auto simp: unit_tray_refs_def Let_def List.map_filter_def split: if_splits)

lemma find_ams_ref_some:
  "find_ams_ref refs u t = Some r \<Longrightarrow> r \<in> set refs \<and> \<not> ref_external r \<and> ref_unit r = u \<and> ref_slot r = t"
  by (auto simp: find_ams_ref_def find_Some_iff)

lemma extruder_entry_route_ref:
  assumes "extruder_entry_route ops refs raw = Some route"
  shows "route_ref route \<in> set refs"
proof -
  from assms obtain eid high low where f: "source_holders ops refs eid high low = [route_ref route]"
    unfolding extruder_entry_route_def Let_def by (auto split: option.splits if_splits list.splits)
  have "set (source_holders ops refs eid high low) \<subseteq> set refs"
    by (auto simp: source_holders_def Let_def)
  with f show ?thesis by simp
qed

lemma extruder_slots_refs: "route \<in> set (extruder_slots ops state) \<Longrightarrow> route_ref route \<in> set (fst (tray_refs state))"
  by (auto simp: extruder_slots_def Let_def List.map_filter_def dest: extruder_entry_route_ref)

lemma tray_now_matches_subset: "set (tray_now_matches refs u t) \<subseteq> set refs"
  by (auto simp: tray_now_matches_def Let_def split: if_splits list.splits option.splits)

lemma x1c_material_routes_refs:
  "route \<in> set (x1c_material_routes state) \<Longrightarrow>
   route_ref route \<in> set (fst (tray_refs state)) \<and> \<not> ref_external (route_ref route)"
  by (auto simp: x1c_material_routes_def Let_def List.map_filter_def mapping2_route_def mapping_route_def mapped_route_def
      split: if_splits option.splits dest!: find_ams_ref_some)

lemma x1c_active_slot_ref:
  "x1c_active_slot state = Some (u, t, tag) \<Longrightarrow>
   \<exists>r \<in> set (fst (tray_refs state)). \<not> ref_external r \<and> ref_unit r = u \<and> ref_slot r = t \<and> tag = spool_tag_of (ref_tray r)"
  by (auto simp: x1c_active_slot_def Let_def split: if_splits option.splits dest!: find_ams_ref_some)

lemma active_extruder_slot_ref:
  assumes "active_extruder_slot ops state = Some s"
  shows "\<exists>r \<in> set (fst (tray_refs state)). s = slot_of_ref r"
proof -
  from assms obtain route where "route \<in> set (extruder_slots ops state)" "s = slot_of_ref (route_ref route)"
    by (auto simp: active_extruder_slot_def Let_def find_Some_iff in_set_conv_nth split: option.splits list.splits)
  then show ?thesis using extruder_slots_refs by blast
qed

lemma h2d_active_slot_ref:
  assumes "h2d_active_slot ops state = Some s"
  shows "\<exists>r \<in> set (fst (tray_refs state)). s = slot_of_ref r"
proof (cases "active_extruder_slot ops state")
  case None
  with assms obtain u t r where "tray_now_matches (fst (tray_refs state)) u t = [r]" "s = slot_of_ref r"
    by (auto simp: h2d_active_slot_def Let_def split: option.splits if_splits list.splits)
  moreover from this have "r \<in> set (fst (tray_refs state))"
    using tray_now_matches_subset[of "fst (tray_refs state)" u t] by simp
  ultimately show ?thesis by blast
next
  case (Some x)
  with assms have "s = x" by (simp add: h2d_active_slot_def)
  with Some show ?thesis using active_extruder_slot_ref by blast
qed

text \<open>
  Nothing is guessed: for both adapters, the active slot and every spool route name a holder that the
  document lists, with the tag that holder reports; on the X1C the holder is an AMS tray, and the H2D's
  tray_now value 255 selects none by itself.
\<close>

theorem active_slots_listed:
  "(\<forall>u t tag. active_slot_for ops adapter state = Some (u, t, tag) \<longrightarrow>
      (\<exists>r \<in> set (fst (tray_refs state)). ref_unit r = u \<and> ref_slot r = t \<and> tag = spool_tag_of (ref_tray r) \<and>
         (adapter = Bambu_X1C \<longrightarrow> \<not> ref_external r)))
   \<and> (\<forall>route \<in> set (spool_routes_for ops adapter state). route_ref route \<in> set (fst (tray_refs state)))
   \<and> (adapter = Bambu_H2D \<and> array_of (map_of (object_at (object_at state ''device'') ''extruder'') ''info'') = [] \<and>
      first_scalar state [''tray_now''] = ''255'' \<longrightarrow> active_slot_for ops adapter state = None)"
proof (intro conjI allI impI ballI)
  fix u t tag assume a: "active_slot_for ops adapter state = Some (u, t, tag)"
  show "\<exists>r \<in> set (fst (tray_refs state)). ref_unit r = u \<and> ref_slot r = t \<and> tag = spool_tag_of (ref_tray r) \<and>
         (adapter = Bambu_X1C \<longrightarrow> \<not> ref_external r)"
    using a x1c_active_slot_ref[of state u t tag] h2d_active_slot_ref[of ops state "(u, t, tag)"]
    by (cases adapter) (auto simp: active_slot_for_def slot_of_ref_def)
next
  fix route assume r: "route \<in> set (spool_routes_for ops adapter state)"
  show "route_ref route \<in> set (fst (tray_refs state))"
  proof (cases adapter)
    case Bambu_H2D
    then show ?thesis using r extruder_slots_refs by (simp add: spool_routes_for_def)
  next
    case Bambu_X1C
    have found: "find P xs = Some x \<Longrightarrow> x \<in> set xs" for P and xs :: "tray_ref list" and x
      by (auto simp: find_Some_iff)
    show ?thesis using Bambu_X1C r x1c_material_routes_refs[of route state]
      by (auto simp: spool_routes_for_def Let_def split: if_splits option.splits dest: found[OF sym] found)
  qed
next
  assume "adapter = Bambu_H2D \<and> array_of (map_of (object_at (object_at state ''device'') ''extruder'') ''info'') = [] \<and>
      first_scalar state [''tray_now''] = ''255''"
  then show "active_slot_for ops adapter state = None"
    by (auto simp: active_slot_for_def h2d_active_slot_def active_extruder_slot_def extruder_slots_def Let_def
        List.map_filter_def split: option.splits)
qed

text \<open>A document with one AMS unit of two trays, the second selected.\<close>

definition sample_ops :: text_ops where
  "sample_ops = \<lparr>lower_text = to_lower, upper_text = to_upper, fold_equal = equal_fold,
     letters_digits = filter (\<lambda>c. digit_value c \<noteq> None), path_unescape = Some\<rparr>"

definition sample_tray :: "string \<Rightarrow> string \<Rightarrow> json" where
  "sample_tray i tag = JObj [(''id'', JStr i), (''tag_uid'', JStr tag)]"

definition sample_state :: fields where
  "sample_state =
     [(''gcode_state'', JStr ''RUNNING''), (''task_id'', JStr ''7''),
      (''ams'', JObj [(''tray_now'', JStr ''1''),
         (''ams'', JArr [JObj [(''id'', JStr ''0''), (''tray'', JArr [sample_tray ''0'' ''00'', sample_tray ''1'' ''A1''])]])])]"

lemma active_slots_listed_witness:
  "active_slot_for sample_ops Bambu_X1C sample_state = Some (''0'', ''1'', \<lparr>tag_uid = ''A1'', tray_uuid = []\<rparr>) \<and>
   (\<exists>r \<in> set (fst (tray_refs sample_state)). ref_unit r = ''0'' \<and> ref_slot r = ''1'' \<and> \<not> ref_external r)"
proof -
  have a: "active_slot_for sample_ops Bambu_X1C sample_state = Some (''0'', ''1'', \<lparr>tag_uid = ''A1'', tray_uuid = []\<rparr>)"
    by code_simp
  from active_slots_listed[of sample_ops Bambu_X1C sample_state, THEN conjunct1, rule_format, OF a] a
  show ?thesis by auto
qed

section \<open>Archive paths stay in the archive directories\<close>

lemma split_artifact_path_safe:
  assumes "split_artifact_path ops v = Some (dir, name)"
  shows "dir \<in> {''/'', ''/cache''} \<and> proper_element name"
proof -
  obtain w where w: "dir \<in> {''/'', ''/cache''}" "name \<noteq> []"
    "name = after_last (CHR ''/'') (path_clean (CHR ''/'' # w))"
    using assms by (auto simp: split_artifact_path_def Let_def split: if_splits)
  define es where "es = clean_elements True [] (split_on (CHR ''/'') (CHR ''/'' # w))"
  have es: "\<forall>e \<in> set es. proper_element e"
    unfolding es_def by (rule clean_elements_proper) (auto dest: split_on_elements)
  have clean: "path_clean (CHR ''/'' # w) = CHR ''/'' # join_with ''/'' es"
    by (simp add: path_clean_def es_def Let_def)
  have "es \<noteq> []"
  proof
    assume "es = []"
    then show False using w(2,3) clean by (simp add: after_last_def)
  qed
  moreover from this have "name = last es"
    using w(3) clean after_last_join(1)[of es "CHR ''/''"] es by (simp add: proper_element_def)
  ultimately show ?thesis using w(1) es last_in_set[of es] by blast
qed

text \<open>
  C39: An archive path derived from anything the printer reports is empty or names a file directly below the
  root or the cache directory of the external storage: no reported url or path leads elsewhere. The code of
  an internal path has at most 80 bytes and starts with a lower-case letter.
\<close>

theorem archive_paths_confined:
  "(ftps_archive_path ops raw = [] \<or>
      (\<exists>name. proper_element name \<and>
         (ftps_archive_path ops raw = CHR ''/'' # name \<or> ftps_archive_path ops raw = ''/cache/'' @ name)))
   \<and> length (internal_path ops state) \<le> 80
   \<and> (internal_path ops state = [] \<or>
      (let h = of_char (hd (internal_path ops state)) :: nat in 97 \<le> h \<and> h \<le> 122))"
proof (intro conjI)
  show "ftps_archive_path ops raw = [] \<or>
      (\<exists>name. proper_element name \<and>
         (ftps_archive_path ops raw = CHR ''/'' # name \<or> ftps_archive_path ops raw = ''/cache/'' @ name))"
  proof (cases "ftps_archive_path ops raw = []")
    case False
    then obtain q dir name where s: "split_artifact_path ops q = Some (dir, name)"
      "ftps_archive_path ops raw = path_join dir name"
      by (auto simp: ftps_archive_path_def Let_def split: option.splits if_splits prod.splits)
    from split_artifact_path_safe[OF s(1)] s(2) path_join_name show ?thesis by auto
  qed simp
  have code: "length (path_code v) \<le> 80"
    "path_code v = [] \<or> (97 \<le> (of_char (hd (path_code v)) :: nat) \<and> (of_char (hd (path_code v)) :: nat) \<le> 122)" for v
    by (auto simp: path_code_def Let_def)
  have path: "internal_path ops state = [] \<or> (\<exists>v. internal_path ops state = path_code v)"
    unfolding internal_path_def by (split option.split) blast
  with code(1) show "length (internal_path ops state) \<le> 80" by auto
  from path show "internal_path ops state = [] \<or>
      (let h = of_char (hd (internal_path ops state)) :: nat in 97 \<le> h \<and> h \<le> 122)"
    unfolding Let_def using code(2) by (elim disjE exE) (simp_all only: simp_thms)
qed

end
