(* ===== verification/Bambu_Feed.thy ===== *)
theory Bambu_Feed
  imports Bambu_Document
begin

text \<open>
  backend/internal/printerconnector/bambu_feed.go: which spool fed which line of a print, over the statuses
  of its run. A line is a slicer filament or an extruder; its segments are the spools that fed it in order.
  The recorder of a status is the record \<open>recorder\<close>: the lines, the overflow flag and the current line of
  each route it may change, and what it only reads. A progress is the integer percentage the source stores
  as a float. The random order of the loop over a Go map is the order of a list; the result does not depend on
  it, since it is used only when a single route is found.
\<close>

section \<open>Facts of a run\<close>

record spool_evidence =
  ev_filament :: string
  ev_extruder :: int
  ev_unit :: string
  ev_slot :: string
  ev_tag_uid :: string
  ev_tray_uuid :: string

record feed_segment =
  seg_unit :: string
  seg_slot :: string
  seg_tag_uid :: string
  seg_tray_uuid :: string
  seg_load :: int
  seg_started_at :: time
  seg_start_layer :: "int option"
  seg_start_progress :: "int option"

record feed_line =
  line_filament :: string
  line_extruder :: int
  line_segments :: "feed_segment list"

record run_facts =
  outcome :: string
  last_layer :: "int option"
  last_progress :: "int option"
  history_complete :: bool
  external_print_id :: string
  fact_unit :: string
  fact_slot :: string
  fact_tag_uid :: string
  fact_tray_uuid :: string
  evidence :: "spool_evidence list"
  feed_lines :: "feed_line list"
  feed_tracked :: bool
  feed_overflow :: bool
  reported_url :: string
  fact_source :: print_source
  fact_internal_path :: string
  archive_candidate :: string
  print_name :: string
  archive_path :: string
  total_layers :: "int option"

definition no_facts :: run_facts where
  "no_facts =
     \<lparr>outcome = [], last_layer = None, last_progress = None, history_complete = False, external_print_id = [],
      fact_unit = [], fact_slot = [], fact_tag_uid = [], fact_tray_uuid = [], evidence = [], feed_lines = [],
      feed_tracked = False, feed_overflow = False, reported_url = [], fact_source = Unknown_Source,
      fact_internal_path = [], archive_candidate = [], print_name = [], archive_path = [], total_layers = None\<rparr>"

record feed_tracker =
  tracker_run :: string
  slot_loads :: "(string \<times> int) list"
  empty_counts :: "(string \<times> nat) list"
  current_line :: "(string \<times> nat) list"

record feed_source =
  src_filament :: string
  src_extruder :: int
  src_unit :: string
  src_slot :: string
  src_tag :: spool_tag
  src_load :: int

definition max_feed_segments :: nat where "max_feed_segments = 24"
definition max_feed_slots :: nat where "max_feed_slots = 64"

section \<open>Sources and lines\<close>

definition slot_key :: "string \<Rightarrow> string \<Rightarrow> string" where
  "slot_key unit slot = unit @ '':'' @ slot"

definition route_key :: "string \<Rightarrow> int \<Rightarrow> string" where
  "route_key filament extruder =
     (if filament \<noteq> [] then ''filament:'' @ filament else ''extruder:'' @ itoa extruder)"

definition source_key :: "feed_source \<Rightarrow> string" where
  "source_key s = route_key (src_filament s) (src_extruder s)"

definition line_key :: "feed_line \<Rightarrow> string" where
  "line_key l = route_key (line_filament l) (line_extruder l)"

definition compatible :: "text_ops \<Rightarrow> feed_source \<Rightarrow> feed_segment \<Rightarrow> bool" where
  "compatible ops s seg =
     (src_unit s = seg_unit seg \<and> src_slot s = seg_slot seg \<and> src_load s = seg_load seg \<and>
      same_spool ops (src_tag s) \<lparr>tag_uid = seg_tag_uid seg, tray_uuid = seg_tray_uuid seg\<rparr>)"

definition count_at :: "(string \<times> 'n :: zero) list \<Rightarrow> string \<Rightarrow> 'n" where
  "count_at m k = (case map_of m k of None \<Rightarrow> 0 | Some n \<Rightarrow> n)"

definition feed_source_of :: "(string \<times> int) list \<Rightarrow> string \<Rightarrow> int \<Rightarrow> tray_ref \<Rightarrow> feed_source" where
  "feed_source_of loads filament extruder r =
     \<lparr>src_filament = filament, src_extruder = extruder, src_unit = ref_unit r, src_slot = ref_slot r,
      src_tag = spool_tag_of (ref_tray r), src_load = count_at loads (slot_key (ref_unit r) (ref_slot r))\<rparr>"

text \<open>The tracker is renewed when another run becomes current.\<close>

definition tracker_for :: "feed_tracker option \<Rightarrow> string \<Rightarrow> feed_tracker" where
  "tracker_for t run =
     (case t of
        Some x \<Rightarrow> if tracker_run x = run then x
                  else \<lparr>tracker_run = run, slot_loads = [], empty_counts = [], current_line = []\<rparr>
      | None \<Rightarrow> \<lparr>tracker_run = run, slot_loads = [], empty_counts = [], current_line = []\<rparr>)"

section \<open>Slot loads\<close>

definition feed_slot_empty :: "tray_ref \<Rightarrow> string \<Rightarrow> bool" where
  "feed_slot_empty r bits =
     (if ref_external r then False
      else let (present, known) = tray_exist_bit bits (ref_unit r) (ref_slot r) in known \<and> \<not> present)"

definition observe_slot_load :: "string list \<Rightarrow> tray_ref \<Rightarrow> feed_tracker \<Rightarrow> feed_tracker" where
  "observe_slot_load gone r t =
     (let key = slot_key (ref_unit r) (ref_slot r) in
      if key \<in> set gone then
        (if map_of (empty_counts t) key = None \<and> max_feed_slots \<le> length (empty_counts t) then t
         else if count_at (empty_counts t) key < 2
         then t\<lparr>empty_counts := AList.update key (count_at (empty_counts t) key + 1) (empty_counts t)\<rparr>
         else t)
      else
        let t' = (if 2 \<le> count_at (empty_counts t) key \<and>
                     (map_of (slot_loads t) key \<noteq> None \<or> length (slot_loads t) < max_feed_slots)
                  then t\<lparr>slot_loads := AList.update key (count_at (slot_loads t) key + 1) (slot_loads t)\<rparr> else t)
        in t'\<lparr>empty_counts := AList.delete key (empty_counts t')\<rparr>)"

definition observe_slot_loads :: "tray_ref list \<Rightarrow> string list \<Rightarrow> feed_tracker \<Rightarrow> feed_tracker" where
  "observe_slot_loads refs gone t = fold (observe_slot_load gone) refs t"

section \<open>The recorder\<close>

record recorder =
  rec_lines :: "feed_line list"
  rec_overflow :: bool
  rec_current :: "(string \<times> nat) list"
  rec_loads :: "(string \<times> int) list"
  rec_empty :: "string list"
  rec_segment :: feed_segment
  rec_started :: bool

definition lines_for :: "feed_line list \<Rightarrow> string \<Rightarrow> nat list" where
  "lines_for ls key = filter (\<lambda>i. line_key (ls ! i) = key) [0..<length ls]"

definition total_segments :: "feed_line list \<Rightarrow> nat" where
  "total_segments ls = sum_list (map (\<lambda>l. length (line_segments l)) ls)"

text \<open>A line always has a segment (lemma \<open>record_feed_wf\<close>), so the last one exists.\<close>

definition last_segment :: "feed_line \<Rightarrow> feed_segment" where
  "last_segment l = last (line_segments l)"

definition segment_empty :: "string list \<Rightarrow> feed_segment \<Rightarrow> bool" where
  "segment_empty gone seg = (slot_key (seg_unit seg) (seg_slot seg) \<in> set gone)"

definition set_last :: "feed_line \<Rightarrow> feed_segment \<Rightarrow> feed_line" where
  "set_last l seg = l\<lparr>line_segments := butlast (line_segments l) @ [seg]\<rparr>"

text \<open>The line that a source which feeds none yet continues, if any.\<close>

definition target_line :: "recorder \<Rightarrow> feed_source \<Rightarrow> nat option" where
  "target_line r s =
     (let lines = lines_for (rec_lines r) (source_key s) in
      if src_filament s \<noteq> [] \<and> length lines = 1 then Some (hd lines)
      else
        let same = filter (\<lambda>i. seg_unit (last_segment (rec_lines r ! i)) = src_unit s \<and>
                              seg_slot (last_segment (rec_lines r ! i)) = src_slot s) lines in
        if length same = 1 then Some (hd same)
        else case map_of (rec_current r) (source_key s) of
               None \<Rightarrow> None
             | Some c \<Rightarrow>
                 if c < length (rec_lines r) \<and> same = [] \<and> segment_empty (rec_empty r) (last_segment (rec_lines r ! c))
                 then Some c else None)"

definition new_segment :: "recorder \<Rightarrow> feed_source \<Rightarrow> feed_segment" where
  "new_segment r s =
     (rec_segment r)\<lparr>seg_unit := src_unit s, seg_slot := src_slot s, seg_tag_uid := tag_uid (src_tag s),
       seg_tray_uuid := tray_uuid (src_tag s), seg_load := src_load s\<rparr>"

definition fill_tags :: "feed_source \<Rightarrow> feed_segment \<Rightarrow> feed_segment" where
  "fill_tags s seg =
     seg\<lparr>seg_tag_uid := (if seg_tag_uid seg = [] then tag_uid (src_tag s) else seg_tag_uid seg),
         seg_tray_uuid := (if seg_tray_uuid seg = [] then tray_uuid (src_tag s) else seg_tray_uuid seg)\<rparr>"

definition observe_new :: "recorder \<Rightarrow> feed_source \<Rightarrow> recorder" where
  "observe_new r s =
     (let key = source_key s; seg = new_segment r s in
      if max_feed_segments \<le> total_segments (rec_lines r) then r\<lparr>rec_overflow := True\<rparr>
      else case target_line r s of
             None \<Rightarrow>
               r\<lparr>rec_lines := rec_lines r @
                   [\<lparr>line_filament = src_filament s, line_extruder = src_extruder s, line_segments = [seg]\<rparr>],
                 rec_current := AList.update key (length (rec_lines r)) (rec_current r)\<rparr>
           | Some t \<Rightarrow>
               let line = rec_lines r ! t; prev = last_segment line;
                   line' = (if \<not> rec_started r \<and>
                               (case seg_start_layer prev of None \<Rightarrow> True | Some l \<Rightarrow> l \<le> 0)
                            then set_last line (seg\<lparr>seg_started_at := seg_started_at prev\<rparr>)
                            else line\<lparr>line_segments := line_segments line @ [seg]\<rparr>)
               in r\<lparr>rec_lines := (rec_lines r)[t := line'], rec_current := AList.update key t (rec_current r)\<rparr>)"

definition observe :: "text_ops \<Rightarrow> feed_source \<Rightarrow> recorder \<Rightarrow> recorder" where
  "observe ops s r =
     (let key = source_key s; lines = lines_for (rec_lines r) key in
      case find (\<lambda>i. compatible ops s (last_segment (rec_lines r ! i))) lines of
        Some i \<Rightarrow>
          r\<lparr>rec_lines := (rec_lines r)[i := set_last (rec_lines r ! i) (fill_tags s (last_segment (rec_lines r ! i)))],
            rec_current := AList.update key i (rec_current r)\<rparr>
      | None \<Rightarrow>
          (case find (\<lambda>i. list_ex (compatible ops s) (line_segments (rec_lines r ! i))) lines of
             Some i \<Rightarrow> r\<lparr>rec_current := AList.update key i (rec_current r)\<rparr>
           | None \<Rightarrow> observe_new r s))"

definition run_out_tail :: "recorder \<Rightarrow> feed_source \<Rightarrow> tray_ref \<Rightarrow> bool" where
  "run_out_tail r s x =
     (if \<not> ref_external x \<or> tag_present (src_tag s) \<or> string_at (ref_tray x) ''tray_type'' \<noteq> [] then False
      else case map_of (rec_current r) (source_key s) of
             None \<Rightarrow> False
           | Some c \<Rightarrow>
               c < length (rec_lines r) \<and> segment_empty (rec_empty r) (last_segment (rec_lines r ! c)))"

definition route_source :: "recorder \<Rightarrow> extruder_route \<Rightarrow> tray_ref \<Rightarrow> feed_source" where
  "route_source r route x = feed_source_of (rec_loads r) (route_filament route) (route_extruder route) x"

text \<open>One route of a status without an explicit mapping.\<close>

definition observe_route :: "text_ops \<Rightarrow> extruder_route \<Rightarrow> recorder \<Rightarrow> recorder" where
  "observe_route ops route r =
     (let s = route_source r route (route_ref route) in
      if run_out_tail r s (route_ref route) then r else observe ops s r)"

text \<open>With an explicit mapping, a filament's line starts at the tray the mapping names.\<close>

definition open_mapped :: "text_ops \<Rightarrow> extruder_route \<Rightarrow> recorder \<Rightarrow> recorder" where
  "open_mapped ops route r =
     (let s = route_source r route (route_ref route) in
      if lines_for (rec_lines r) (source_key s) = [] then observe ops s r else r)"

definition mapped_keys :: "extruder_route list \<Rightarrow> (string \<times> extruder_route) list" where
  "mapped_keys routes =
     fold (\<lambda>route. AList.update (route_key (route_filament route) (route_extruder route)) route) routes []"

definition fed_from :: "recorder \<Rightarrow> string \<Rightarrow> string \<Rightarrow> string \<times> extruder_route \<Rightarrow> extruder_route list" where
  "fed_from r unit slot = (\<lambda>(key, route).
     map (\<lambda>_. route)
       (filter (\<lambda>i. list_ex (\<lambda>seg. seg_unit seg = unit \<and> seg_slot seg = slot) (line_segments (rec_lines r ! i)))
          (lines_for (rec_lines r) key)))"

definition ran_out :: "recorder \<Rightarrow> string \<times> extruder_route \<Rightarrow> extruder_route list" where
  "ran_out r = (\<lambda>(key, route).
     map (\<lambda>_. route)
       (filter (\<lambda>i. segment_empty (rec_empty r) (last_segment (rec_lines r ! i))) (lines_for (rec_lines r) key)))"

definition observe_mapped :: "text_ops \<Rightarrow> adapter_kind \<Rightarrow> fields \<Rightarrow> extruder_route list \<Rightarrow> tray_ref list \<Rightarrow> recorder \<Rightarrow> recorder" where
  "observe_mapped ops adapter state routes refs r0 =
     (let named = filter (\<lambda>route. route_filament route \<noteq> []) routes;
          keys = mapped_keys named;
          r1 = fold (open_mapped ops) named r0
      in case active_slot_for ops adapter state of
           None \<Rightarrow> r1
         | Some (unit, slot, _) \<Rightarrow>
             (case rev (filter (\<lambda>x. \<not> ref_external x \<and> ref_unit x = unit \<and> ref_slot x = slot) refs) of
                [] \<Rightarrow> r1
              | active # _ \<Rightarrow>
                  let direct = filter (\<lambda>route. ref_unit (route_ref route) = unit \<and> ref_slot (route_ref route) = slot) named in
                  if direct \<noteq> [] then fold (\<lambda>route r. observe ops (route_source r route active) r) direct r1
                  else
                    let fed = concat (map (fed_from r1 unit slot) keys);
                        out = concat (map (ran_out r1) keys);
                        origin = (if fed \<noteq> [] then fed else if out \<noteq> [] then out else map snd keys)
                    in (case origin of [route] \<Rightarrow> observe ops (route_source r1 route active) r1 | _ \<Rightarrow> r1)))"

section \<open>One status\<close>

definition print_started :: "string \<Rightarrow> run_facts \<Rightarrow> bool" where
  "print_started lifecycle facts = (lifecycle \<noteq> ''PREPARE'' \<and> (case last_layer facts of None \<Rightarrow> False | Some l \<Rightarrow> 0 < l))"

definition start_recorder :: "string \<Rightarrow> time \<Rightarrow> run_facts \<Rightarrow> feed_tracker \<Rightarrow> string list \<Rightarrow> recorder" where
  "start_recorder lifecycle at facts tracker gone =
     \<lparr>rec_lines = feed_lines facts, rec_overflow = feed_overflow facts, rec_current = current_line tracker,
      rec_loads = slot_loads tracker, rec_empty = gone,
      rec_segment = \<lparr>seg_unit = [], seg_slot = [], seg_tag_uid = [], seg_tray_uuid = [], seg_load = 0,
        seg_started_at = at,
        seg_start_layer = (if print_started lifecycle facts then last_layer facts else None),
        seg_start_progress = last_progress facts\<rparr>,
      rec_started = print_started lifecycle facts\<rparr>"

definition observe_routes :: "text_ops \<Rightarrow> adapter_kind \<Rightarrow> fields \<Rightarrow> tray_ref list \<Rightarrow> recorder \<Rightarrow> recorder" where
  "observe_routes ops adapter state refs r =
     (let routes = spool_routes_for ops adapter state in
      if list_ex (\<lambda>route. route_filament route \<noteq> []) routes
      then observe_mapped ops adapter state routes refs r
      else fold (observe_route ops) routes r)"

definition gone_slots :: "fields \<Rightarrow> tray_ref list \<Rightarrow> string list" where
  "gone_slots state refs =
     map (\<lambda>x. slot_key (ref_unit x) (ref_slot x))
       (filter (\<lambda>x. feed_slot_empty x (string_at (object_at state ''ams'') ''tray_exist_bits'')) refs)"

text \<open>recordBambuFeed: the facts and the tracker after an active status.\<close>

definition record_feed ::
  "text_ops \<Rightarrow> adapter_kind \<Rightarrow> string \<Rightarrow> string \<Rightarrow> fields \<Rightarrow> time \<Rightarrow> feed_tracker option \<Rightarrow> run_facts \<Rightarrow>
   feed_tracker option \<times> run_facts"
where
  "record_feed ops adapter run lifecycle state at tracker0 facts0 =
     (if \<not> feed_tracked facts0 \<and> evidence facts0 \<noteq> [] then (tracker0, facts0)
      else
        let facts = facts0\<lparr>feed_tracked := True\<rparr>;
            refs = fst (tray_refs state);
            gone = gone_slots state refs;
            tracker = observe_slot_loads refs gone (tracker_for tracker0 run)
        in if feed_overflow facts then (Some tracker, facts)
           else let r = observe_routes ops adapter state refs (start_recorder lifecycle at facts tracker gone)
             in (Some (tracker\<lparr>current_line := rec_current r\<rparr>),
                 facts\<lparr>feed_lines := rec_lines r, feed_overflow := rec_overflow r\<rparr>))"

section \<open>The invariant of a timeline\<close>

definition unprinted :: "feed_segment \<Rightarrow> bool" where
  "unprinted seg = (case seg_start_layer seg of None \<Rightarrow> True | Some l \<Rightarrow> l \<le> 0)"

text \<open>The same source at the same time; a tag that was read stays, a missing one may be filled in.\<close>

definition same_place :: "feed_segment \<Rightarrow> feed_segment \<Rightarrow> bool" where
  "same_place x y \<longleftrightarrow>
     seg_unit y = seg_unit x \<and> seg_slot y = seg_slot x \<and> seg_load y = seg_load x \<and>
     seg_started_at y = seg_started_at x \<and> seg_start_layer y = seg_start_layer x \<and>
     seg_start_progress y = seg_start_progress x \<and>
     (seg_tag_uid x \<noteq> [] \<longrightarrow> seg_tag_uid y = seg_tag_uid x) \<and>
     (seg_tray_uuid x \<noteq> [] \<longrightarrow> seg_tray_uuid y = seg_tray_uuid x)"

definition line_kept :: "bool \<Rightarrow> feed_line \<Rightarrow> feed_line \<Rightarrow> bool" where
  "line_kept started a b \<longleftrightarrow>
     line_filament b = line_filament a \<and> line_extruder b = line_extruder a \<and>
     length (line_segments a) \<le> length (line_segments b) \<and>
     (\<forall>j < length (line_segments a).
        same_place (line_segments a ! j) (line_segments b ! j) \<or>
        (\<not> started \<and> unprinted (line_segments a ! j) \<and> unprinted (line_segments b ! j)))"

definition lines_kept :: "bool \<Rightarrow> feed_line list \<Rightarrow> feed_line list \<Rightarrow> bool" where
  "lines_kept started xs ys \<longleftrightarrow> length xs \<le> length ys \<and> (\<forall>i < length xs. line_kept started (xs ! i) (ys ! i))"

definition lines_wf :: "feed_line list \<Rightarrow> bool" where
  "lines_wf ls \<longleftrightarrow>
     (\<forall>l \<in> set ls. line_segments l \<noteq> []) \<and> total_segments ls \<le> max_feed_segments \<and>
     (\<forall>i < length ls. \<forall>j < length ls. line_filament (ls ! i) \<noteq> [] \<and> line_key (ls ! i) = line_key (ls ! j) \<longrightarrow> i = j)"

definition current_wf :: "feed_line list \<Rightarrow> (string \<times> nat) list \<Rightarrow> bool" where
  "current_wf ls m \<longleftrightarrow> (\<forall>k i. map_of m k = Some i \<longrightarrow> i < length ls)"

definition recorder_wf :: "recorder \<Rightarrow> bool" where
  "recorder_wf r \<longleftrightarrow>
     lines_wf (rec_lines r) \<and> current_wf (rec_lines r) (rec_current r) \<and>
     (\<not> rec_started r \<longrightarrow> seg_start_layer (rec_segment r) = None)"

text \<open>What a recorder keeps: its constants, every recorded segment, and the overflow flag once it is set.\<close>

definition recorder_kept :: "recorder \<Rightarrow> recorder \<Rightarrow> bool" where
  "recorder_kept r r' \<longleftrightarrow>
     rec_started r' = rec_started r \<and> rec_segment r' = rec_segment r \<and> rec_empty r' = rec_empty r \<and>
     rec_loads r' = rec_loads r \<and> (rec_overflow r \<longrightarrow> rec_overflow r') \<and>
     lines_kept (rec_started r) (rec_lines r) (rec_lines r')"

lemma line_kept_refl [simp]: "line_kept started a a"
  by (simp add: line_kept_def same_place_def)

lemma place_trans:
  "(same_place x y \<or> (\<not> started \<and> unprinted x \<and> unprinted y)) \<Longrightarrow>
   (same_place y z \<or> (\<not> started \<and> unprinted y \<and> unprinted z)) \<Longrightarrow>
   (same_place x z \<or> (\<not> started \<and> unprinted x \<and> unprinted z))"
  by (elim disjE) (auto simp: same_place_def unprinted_def)

lemma line_kept_trans:
  assumes "line_kept started a b" "line_kept started b c"
  shows "line_kept started a c"
proof -
  have "\<forall>j < length (line_segments a).
        same_place (line_segments a ! j) (line_segments c ! j) \<or>
        (\<not> started \<and> unprinted (line_segments a ! j) \<and> unprinted (line_segments c ! j))"
  proof (intro allI impI)
    fix j assume "j < length (line_segments a)"
    then show "same_place (line_segments a ! j) (line_segments c ! j) \<or>
        (\<not> started \<and> unprinted (line_segments a ! j) \<and> unprinted (line_segments c ! j))"
      using assms by - (rule place_trans[where y = "line_segments b ! j"], auto simp: line_kept_def)
  qed
  then show ?thesis using assms by (auto simp: line_kept_def)
qed

lemma lines_kept_refl [simp]: "lines_kept started xs xs"
  by (simp add: lines_kept_def)

lemma lines_kept_trans: "lines_kept started a b \<Longrightarrow> lines_kept started b c \<Longrightarrow> lines_kept started a c"
proof -
  assume ab: "lines_kept started a b" and bc: "lines_kept started b c"
  have "line_kept started (a ! i) (c ! i)" if "i < length a" for i
    using ab bc that by (intro line_kept_trans[of started "a ! i" "b ! i" "c ! i"]) (simp_all add: lines_kept_def)
  then show "lines_kept started a c" using ab bc by (simp add: lines_kept_def)
qed

interpretation timeline: kept recorder_wf recorder_kept
proof (unfold_locales, goal_cases)
  case (1 s)
  then show ?case by (simp add: recorder_kept_def)
next
  case (2 s t u)
  then show ?case by (auto simp: recorder_kept_def intro: lines_kept_trans)
qed

lemma lines_for_in: "i \<in> set (lines_for ls key) \<longleftrightarrow> i < length ls \<and> line_key (ls ! i) = key"
  by (auto simp: lines_for_def)

lemma find_in: "find P xs = Some x \<Longrightarrow> x \<in> set xs \<and> P x"
  by (auto simp: find_Some_iff)

lemma total_segments_update:
  "i < length ls \<Longrightarrow>
   total_segments (ls[i := l]) + length (line_segments (ls ! i)) = total_segments ls + length (line_segments l)"
proof (induction ls arbitrary: i)
  case (Cons x xs)
  then show ?case by (cases i) (auto simp: total_segments_def)
qed simp

text \<open>Replacing a line by one of the same key that keeps it.\<close>

lemma lines_wf_update:
  assumes "lines_wf ls" "i < length ls" "line_filament l = line_filament (ls ! i)" "line_extruder l = line_extruder (ls ! i)"
    and "line_segments l \<noteq> []"
    and "total_segments ls + length (line_segments l) \<le> max_feed_segments + length (line_segments (ls ! i))"
  shows "lines_wf (ls[i := l])"
proof -
  have key: "line_key (ls[i := l] ! j) = line_key (ls ! j)" "line_filament (ls[i := l] ! j) = line_filament (ls ! j)"
    if "j < length ls" for j
    using assms(2-4) that by (auto simp: line_key_def nth_list_update)
  have "total_segments (ls[i := l]) \<le> max_feed_segments"
    using total_segments_update[OF assms(2), of l] assms(6) by linarith
  moreover have "\<forall>x \<in> set (ls[i := l]). line_segments x \<noteq> []"
    using assms(1,5) set_update_subset_insert[of ls i l] by (auto simp: lines_wf_def)
  ultimately show ?thesis using assms(1) unfolding lines_wf_def length_list_update by (metis key)
qed

lemma lines_kept_update: "i < length ls \<Longrightarrow> line_kept started (ls ! i) l \<Longrightarrow> lines_kept started ls (ls[i := l])"
  by (auto simp: lines_kept_def nth_list_update)

lemma current_wf_update: "current_wf ls m \<Longrightarrow> i < length ls \<Longrightarrow> current_wf ls (AList.update k i m)"
  by (auto simp: current_wf_def update_conv')

lemma set_last_fields [simp]:
  "line_filament (set_last l seg) = line_filament l" "line_extruder (set_last l seg) = line_extruder l"
  "line_segments (set_last l seg) \<noteq> []"
  by (simp_all add: set_last_def)

lemma set_last_length: "line_segments l \<noteq> [] \<Longrightarrow> length (line_segments (set_last l seg)) = length (line_segments l)"
  by (simp add: set_last_def)

lemma set_last_kept:
  assumes "line_segments l \<noteq> []"
    and "same_place (last_segment l) seg \<or> (\<not> started \<and> unprinted (last_segment l) \<and> unprinted seg)"
  shows "line_kept started l (set_last l seg)"
proof -
  obtain xs x where s: "line_segments l = xs @ [x]" using assms(1) by (cases "line_segments l" rule: rev_cases) simp_all
  then show ?thesis using assms(2)
    by (auto simp: line_kept_def set_last_def last_segment_def nth_append same_place_def less_Suc_eq)
qed

lemma fill_tags_place: "same_place seg (fill_tags s seg)"
  by (simp add: same_place_def fill_tags_def)

lemma lines_wf_segments: "lines_wf ls \<Longrightarrow> i < length ls \<Longrightarrow> line_segments (ls ! i) \<noteq> []"
  by (simp add: lines_wf_def)

lemma target_line_in: "current_wf (rec_lines r) (rec_current r) \<Longrightarrow> target_line r s = Some t \<Longrightarrow> t < length (rec_lines r)"
proof -
  assume wf: "current_wf (rec_lines r) (rec_current r)" and t: "target_line r s = Some t"
  have single: "hd xs \<in> set (lines_for (rec_lines r) (source_key s))"
    if "length xs = 1" "set xs \<subseteq> set (lines_for (rec_lines r) (source_key s))" for xs
    using that by (cases xs) auto
  define L where "L = lines_for (rec_lines r) (source_key s)"
  define same where "same = filter (\<lambda>i. seg_unit (last_segment (rec_lines r ! i)) = src_unit s \<and>
                              seg_slot (last_segment (rec_lines r ! i)) = src_slot s) L"
  from t consider "length L = 1" "t = hd L" | "length same = 1" "t = hd same"
    | c where "map_of (rec_current r) (source_key s) = Some c" "t = c"
    by (auto simp: target_line_def Let_def L_def[symmetric] same_def[symmetric] split: if_splits option.splits)
  then show ?thesis
  proof cases
    case 1
    then show ?thesis using single[of L] by (simp add: L_def lines_for_in)
  next
    case 2
    have "set same \<subseteq> set L" by (auto simp: same_def)
    then have "hd same \<in> set L" using single[of same] 2 by (simp only: L_def)
    then show ?thesis using 2 by (simp add: L_def lines_for_in)
  next
    case 3
    then show ?thesis using wf by (simp add: current_wf_def)
  qed
qed

lemma length_one: "xs \<noteq> [] \<Longrightarrow> distinct xs \<Longrightarrow> (\<And>i j. i \<in> set xs \<Longrightarrow> j \<in> set xs \<Longrightarrow> i = j) \<Longrightarrow> length xs = 1"
proof (cases xs)
  case (Cons a as)
  assume d: "distinct xs" and eq: "\<And>i j. i \<in> set xs \<Longrightarrow> j \<in> set xs \<Longrightarrow> i = j"
  have "as = []"
  proof (cases as)
    case c: (Cons b bs)
    have "a = b" using eq[of a b] Cons c by simp
    then show ?thesis using d Cons c by simp
  qed
  then show ?thesis using Cons by simp
qed simp

lemma target_line_none_filament:
  assumes "lines_wf (rec_lines r)" "target_line r s = None" "src_filament s \<noteq> []"
  shows "lines_for (rec_lines r) (source_key s) = []"
proof (rule ccontr)
  assume ne: "lines_for (rec_lines r) (source_key s) \<noteq> []"
  have fil: "line_filament (rec_lines r ! i) \<noteq> []" if "line_key (rec_lines r ! i) = source_key s" for i
    using that assms(3) by (auto simp: line_key_def source_key_def route_key_def split: if_splits)
  have "i = j" if "i \<in> set (lines_for (rec_lines r) (source_key s))" "j \<in> set (lines_for (rec_lines r) (source_key s))" for i j
    using that assms(1) fil by (auto simp: lines_for_in lines_wf_def)
  moreover have "distinct (lines_for (rec_lines r) (source_key s))" by (simp add: lines_for_def)
  ultimately have "length (lines_for (rec_lines r) (source_key s)) = 1"
    using length_one[OF ne] by blast
  then show False using assms(2,3) by (simp add: target_line_def Let_def)
qed

lemma line_key_kind: "line_key a = line_key b \<Longrightarrow> line_filament a = [] \<longleftrightarrow> line_filament b = []"
  by (cases "line_filament a = []"; cases "line_filament b = []") (simp_all add: line_key_def route_key_def)

lemma new_line_wf:
  assumes "lines_wf ls" "line_segments l = [seg]" "total_segments ls < max_feed_segments"
    and "line_filament l \<noteq> [] \<longrightarrow> lines_for ls (line_key l) = []"
  shows "lines_wf (ls @ [l])"
proof -
  have new: "line_key (ls ! i) \<noteq> line_key l \<or> line_filament (ls ! i) = []" if "i < length ls" for i
  proof (cases "line_filament l = []")
    case True
    then show ?thesis using line_key_kind[of "ls ! i" l] by blast
  next
    case False
    then have "i \<notin> set (lines_for ls (line_key l))" using assms(4) by simp
    then show ?thesis using that by (simp add: lines_for_in)
  qed
  have new': "line_key (ls ! i) \<noteq> line_key l \<or> line_filament l = []" if "i < length ls" for i
    using new[OF that] line_key_kind[of "ls ! i" l] by blast
  have "total_segments (ls @ [l]) \<le> max_feed_segments"
    using assms(2,3) by (simp add: total_segments_def)
  moreover have "i = j" if "i < Suc (length ls)" "j < Suc (length ls)"
    "line_filament ((ls @ [l]) ! i) \<noteq> []" "line_key ((ls @ [l]) ! i) = line_key ((ls @ [l]) ! j)" for i j
  proof -
    consider "i < length ls" "j < length ls" | "i = length ls" "j = length ls"
      | "i < length ls" "j = length ls" | "i = length ls" "j < length ls"
      using \<open>i < Suc (length ls)\<close> \<open>j < Suc (length ls)\<close> by linarith
    then show ?thesis
    proof cases
      case 1
      then show ?thesis using that(3,4) assms(1) by (simp add: nth_append lines_wf_def)
    next
      case 3
      then show ?thesis using that(3,4) new[of i] by (simp add: nth_append)
    next
      case 4
      then show ?thesis using that(3,4) new'[of j] by (simp add: nth_append)
    qed simp
  qed
  ultimately show ?thesis using assms(1,2) by (simp add: lines_wf_def)
qed

lemma lines_kept_append: "lines_kept started ls (ls @ [l])"
  by (simp add: lines_kept_def nth_append)

lemma current_wf_append: "current_wf ls m \<Longrightarrow> current_wf (ls @ [l]) (AList.update k (length ls) m)"
  by (auto simp: current_wf_def update_conv' less_Suc_eq)

lemma observe_new_keeps: "timeline.keeps (\<lambda>r. observe_new r s)"
proof (rule timeline.keepsI)
  fix r assume wf: "recorder_wf r"
  define seg where "seg = new_segment r s"
  show "recorder_wf (observe_new r s)"
  proof (cases "max_feed_segments \<le> total_segments (rec_lines r)")
    case True
    then show ?thesis using wf by (simp add: observe_new_def recorder_wf_def)
  next
    case room: False
    show ?thesis
    proof (cases "target_line r s")
      case None
      have "lines_wf (rec_lines r @
          [\<lparr>line_filament = src_filament s, line_extruder = src_extruder s, line_segments = [new_segment r s]\<rparr>])"
        using wf room target_line_none_filament[OF _ None]
        by (intro new_line_wf) (auto simp: recorder_wf_def line_key_def source_key_def)
      then show ?thesis using wf room None
        by (simp add: observe_new_def Let_def recorder_wf_def current_wf_append)
    next
      case (Some t)
      have t: "t < length (rec_lines r)" using wf Some target_line_in by (auto simp: recorder_wf_def)
      then have ne: "line_segments (rec_lines r ! t) \<noteq> []" using wf lines_wf_segments by (auto simp: recorder_wf_def)
      have "lines_wf ((rec_lines r)[t := set_last (rec_lines r ! t) x])" for x
        using wf t ne set_last_length[OF ne, of x] by (intro lines_wf_update) (auto simp: recorder_wf_def lines_wf_def)
      moreover have "lines_wf ((rec_lines r)[t := (rec_lines r ! t)\<lparr>line_segments := line_segments (rec_lines r ! t) @ [x]\<rparr>])" for x
        using wf t room by (intro lines_wf_update) (auto simp: recorder_wf_def)
      ultimately show ?thesis using wf room Some t
        by (auto simp: observe_new_def Let_def recorder_wf_def current_wf_def update_conv')
    qed
  qed
next
  fix r assume wf: "recorder_wf r"
  show "recorder_kept r (observe_new r s)"
  proof (cases "max_feed_segments \<le> total_segments (rec_lines r)")
    case True
    then show ?thesis by (simp add: observe_new_def recorder_kept_def)
  next
    case room: False
    show ?thesis
    proof (cases "target_line r s")
      case None
      then show ?thesis using room by (simp add: observe_new_def Let_def recorder_kept_def lines_kept_append)
    next
      case (Some t)
      define line where "line = rec_lines r ! t"
      have t: "t < length (rec_lines r)" using wf Some target_line_in by (auto simp: recorder_wf_def)
      then have ne: "line_segments line \<noteq> []"
        using wf lines_wf_segments by (auto simp: recorder_wf_def line_def)
      have replaced: "lines_kept (rec_started r) (rec_lines r) ((rec_lines r)[t := set_last line x])"
        if "\<not> rec_started r" "unprinted (last_segment line)" "unprinted x" for x
        using t that ne by (intro lines_kept_update) (auto simp: line_def intro!: set_last_kept)
      have appended: "line_kept (rec_started r) line (line\<lparr>line_segments := line_segments line @ [x]\<rparr>)" for x
        by (simp add: line_kept_def nth_append same_place_def)
      then have appended: "lines_kept (rec_started r) (rec_lines r)
          ((rec_lines r)[t := line\<lparr>line_segments := line_segments line @ [x]\<rparr>])" for x
        using t by (intro lines_kept_update) (auto simp: line_def)
      have fresh: "unprinted ((new_segment r s)\<lparr>seg_started_at := a\<rparr>)" if "\<not> rec_started r" for a
        using wf that by (simp add: recorder_wf_def new_segment_def unprinted_def)
      show ?thesis
        using room Some replaced appended fresh
        by (auto simp: observe_new_def Let_def recorder_kept_def line_def[symmetric] unprinted_def[of "last_segment line"])
    qed
  qed
qed

lemma observe_keeps: "timeline.keeps (observe ops s)"
proof -
  define key where "key = source_key s"
  have "recorder_wf (observe ops s r) \<and> recorder_kept r (observe ops s r)" if wf: "recorder_wf r" for r
  proof (cases "find (\<lambda>i. compatible ops s (last_segment (rec_lines r ! i))) (lines_for (rec_lines r) key)")
    case (Some i)
    define line where "line = rec_lines r ! i"
    have i: "i < length (rec_lines r)" using find_in[OF Some] by (simp add: lines_for_in)
    have ne: "line_segments line \<noteq> []" using wf i lines_wf_segments by (auto simp: recorder_wf_def line_def)
    have "lines_wf ((rec_lines r)[i := set_last line (fill_tags s (last_segment line))])"
      using wf i ne set_last_length[OF ne] by (intro lines_wf_update) (auto simp: recorder_wf_def lines_wf_def line_def)
    moreover have "lines_kept (rec_started r) (rec_lines r)
        ((rec_lines r)[i := set_last line (fill_tags s (last_segment line))])"
      using i ne fill_tags_place by (intro lines_kept_update) (auto simp: line_def intro!: set_last_kept)
    ultimately show ?thesis
      using wf i Some by (simp add: observe_def Let_def key_def recorder_wf_def recorder_kept_def line_def
          current_wf_def update_conv')
  next
    case first: None
    show ?thesis
    proof (cases "find (\<lambda>i. list_ex (compatible ops s) (line_segments (rec_lines r ! i))) (lines_for (rec_lines r) key)")
      case None
      then show ?thesis using first timeline.keepsD[OF observe_new_keeps wf] by (simp add: observe_def Let_def key_def)
    next
      case (Some i)
      have "i < length (rec_lines r)" using find_in[OF Some] by (simp add: lines_for_in)
      then show ?thesis using wf first Some
        by (simp add: observe_def Let_def key_def recorder_wf_def recorder_kept_def current_wf_update)
    qed
  qed
  then show ?thesis by (auto intro: timeline.keepsI)
qed

lemma observe_route_keeps: "timeline.keeps (observe_route ops route)"
proof (rule timeline.keepsI)
  fix r assume wf: "recorder_wf r"
  note obs = timeline.keepsD[OF observe_keeps wf]
  show "recorder_wf (observe_route ops route r)" using wf obs by (simp add: observe_route_def Let_def)
  show "recorder_kept r (observe_route ops route r)"
    using timeline.rel_refl[OF wf] obs by (simp add: observe_route_def Let_def)
qed

lemma open_mapped_keeps: "timeline.keeps (open_mapped ops route)"
proof (rule timeline.keepsI)
  fix r assume wf: "recorder_wf r"
  note obs = timeline.keepsD[OF observe_keeps wf]
  show "recorder_wf (open_mapped ops route r)" using wf obs by (simp add: open_mapped_def Let_def)
  show "recorder_kept r (open_mapped ops route r)"
    using timeline.rel_refl[OF wf] obs by (simp add: open_mapped_def Let_def)
qed

lemma observe_active_keeps: "timeline.keeps (\<lambda>r. observe ops (route_source r route active) r)"
  using timeline.keepsD[OF observe_keeps] by (auto intro: timeline.keepsI)

lemma observe_mapped_keeps: "timeline.keeps (observe_mapped ops adapter state routes refs)"
proof (rule timeline.keepsI)
  fix r assume wf: "recorder_wf r"
  define named where "named = filter (\<lambda>route. route_filament route \<noteq> []) routes"
  define r1 where "r1 = fold (open_mapped ops) named r"
  have r1: "recorder_wf r1" "recorder_kept r r1"
    using timeline.keepsD[OF timeline.keeps_fold[OF open_mapped_keeps] wf] by (simp_all add: r1_def)
  have cases: "\<exists>f. timeline.keeps f \<and> observe_mapped ops adapter state routes refs r = f r1"
  proof -
    have id: "timeline.keeps (\<lambda>r. r)" by (auto intro: timeline.keepsI timeline.rel_refl)
    have direct: "timeline.keeps (fold (\<lambda>route r. observe ops (route_source r route active) r) xs)" for active xs
      by (intro timeline.keeps_fold observe_active_keeps)
    note unfolded = observe_mapped_def[of ops adapter state routes refs r, unfolded Let_def,
      folded named_def, folded r1_def]
    show ?thesis
    proof (cases "active_slot_for ops adapter state")
      case None
      then show ?thesis using id unfolded by (intro exI[of _ "\<lambda>r. r"]) simp
    next
      case (Some slot)
      obtain u t g where slot: "slot = (u, t, g)" by (cases slot)
      define found where "found = rev (filter (\<lambda>x. \<not> ref_external x \<and> ref_unit x = u \<and> ref_slot x = t) refs)"
      show ?thesis
      proof (cases found)
        case Nil
        then show ?thesis using id unfolded Some slot by (intro exI[of _ "\<lambda>r. r"]) (simp add: found_def)
      next
        case (Cons active rest)
        define hit where "hit = filter (\<lambda>route. ref_unit (route_ref route) = u \<and> ref_slot (route_ref route) = t) named"
        define origin where "origin =
          (if concat (map (fed_from r1 u t) (mapped_keys named)) \<noteq> [] then concat (map (fed_from r1 u t) (mapped_keys named))
           else if concat (map (ran_out r1) (mapped_keys named)) \<noteq> [] then concat (map (ran_out r1) (mapped_keys named))
           else map snd (mapped_keys named))"
        have eq: "observe_mapped ops adapter state routes refs r =
          (if hit \<noteq> [] then fold (\<lambda>route r. observe ops (route_source r route active) r) hit r1
           else case origin of [route] \<Rightarrow> observe ops (route_source r1 route active) r1 | _ \<Rightarrow> r1)"
          unfolding unfolded Some slot option.case prod.case found_def[symmetric] Cons list.case hit_def[symmetric]
            origin_def[symmetric] by (rule refl)
        show ?thesis
        proof (cases "hit \<noteq> []")
          case True
          then show ?thesis using direct[of active hit] eq by auto
        next
          case False
          show ?thesis
          proof (cases "\<exists>route. origin = [route]")
            case True
            then obtain route where "origin = [route]" by blast
            then show ?thesis using False eq observe_active_keeps[of ops route active]
              by (intro exI[of _ "\<lambda>r. observe ops (route_source r route active) r"]) simp
          next
            case other: False
            then have "observe_mapped ops adapter state routes refs r = r1"
              using False eq by (auto split: list.splits)
            then show ?thesis using id by (intro exI[of _ "\<lambda>r. r"]) simp
          qed
        qed
      qed
    qed
  qed
  then obtain f where f: "timeline.keeps f" "observe_mapped ops adapter state routes refs r = f r1" by blast
  show "recorder_wf (observe_mapped ops adapter state routes refs r)"
    using timeline.keepsD(1)[OF f(1) r1(1)] f(2) by simp
  show "recorder_kept r (observe_mapped ops adapter state routes refs r)"
    using timeline.rel_trans[OF r1(2) timeline.keepsD(2)[OF f(1) r1(1)]] f(2) by simp
qed

lemma observe_routes_keeps: "timeline.keeps (observe_routes ops adapter state refs)"
proof (cases "list_ex (\<lambda>route. route_filament route \<noteq> []) (spool_routes_for ops adapter state)")
  case True
  then have "observe_routes ops adapter state refs =
      observe_mapped ops adapter state (spool_routes_for ops adapter state) refs"
    by (simp add: observe_routes_def Let_def fun_eq_iff)
  then show ?thesis using observe_mapped_keeps by simp
next
  case False
  then have "observe_routes ops adapter state refs = fold (observe_route ops) (spool_routes_for ops adapter state)"
    by (simp add: observe_routes_def Let_def fun_eq_iff)
  then show ?thesis using timeline.keeps_fold[of _ "observe_route ops", OF observe_route_keeps] by simp
qed

section \<open>Slot bookkeeping\<close>

definition tracker_wf :: "string \<Rightarrow> feed_line list \<Rightarrow> feed_tracker option \<Rightarrow> bool" where
  "tracker_wf run ls t \<longleftrightarrow>
     (case t of
        None \<Rightarrow> True
      | Some x \<Rightarrow>
          length (slot_loads x) \<le> max_feed_slots \<and> length (empty_counts x) \<le> max_feed_slots \<and>
          (tracker_run x = run \<longrightarrow> current_wf ls (current_line x)))"

lemma update_length_bound:
  "length m \<le> n \<Longrightarrow> (map_of m k = None \<longrightarrow> length m < n) \<Longrightarrow> length (AList.update k v m) \<le> n"
proof (cases "map_of m k")
  case None
  then have "k \<notin> set (map fst m)" by (simp add: map_of_eq_None_iff)
  then show "length m \<le> n \<Longrightarrow> (map_of m k = None \<longrightarrow> length m < n) \<Longrightarrow> length (AList.update k v m) \<le> n"
    using None by (simp add: length_update_new del: set_map)
next
  case (Some x)
  then have "k \<in> set (map fst m)" by (force dest: map_of_SomeD)
  then show "length m \<le> n \<Longrightarrow> (map_of m k = None \<longrightarrow> length m < n) \<Longrightarrow> length (AList.update k v m) \<le> n"
    by (simp add: length_update_old del: set_map)
qed

lemma observe_slot_load_wf:
  assumes "length (slot_loads t) \<le> max_feed_slots" "length (empty_counts t) \<le> max_feed_slots"
  shows "length (slot_loads (observe_slot_load gone r t)) \<le> max_feed_slots"
    and "length (empty_counts (observe_slot_load gone r t)) \<le> max_feed_slots"
    and "tracker_run (observe_slot_load gone r t) = tracker_run t"
    and "current_line (observe_slot_load gone r t) = current_line t"
proof -
  have del: "length (AList.delete k m) \<le> n" if "length m \<le> n" for k :: string and m :: "(string \<times> nat) list" and n
    using length_delete_le[of k m] that by linarith
  show "length (slot_loads (observe_slot_load gone r t)) \<le> max_feed_slots"
    using assms by (auto simp: observe_slot_load_def Let_def intro!: update_length_bound)
  show "length (empty_counts (observe_slot_load gone r t)) \<le> max_feed_slots"
    using assms del by (auto simp: observe_slot_load_def Let_def intro!: update_length_bound)
  show "tracker_run (observe_slot_load gone r t) = tracker_run t"
    "current_line (observe_slot_load gone r t) = current_line t"
    by (auto simp: observe_slot_load_def Let_def)
qed

lemma observe_slot_loads_wf:
  assumes "length (slot_loads t) \<le> max_feed_slots" "length (empty_counts t) \<le> max_feed_slots"
  shows "length (slot_loads (observe_slot_loads refs gone t)) \<le> max_feed_slots \<and>
     length (empty_counts (observe_slot_loads refs gone t)) \<le> max_feed_slots \<and>
     tracker_run (observe_slot_loads refs gone t) = tracker_run t \<and>
     current_line (observe_slot_loads refs gone t) = current_line t"
  using assms unfolding observe_slot_loads_def
  by (induction refs arbitrary: t) (simp_all add: observe_slot_load_wf)

section \<open>Properties\<close>

lemma observe_overflow: "rec_overflow (observe ops s r) \<Longrightarrow> rec_overflow r \<or> max_feed_segments \<le> total_segments (rec_lines r)"
  by (auto simp: observe_def observe_new_def Let_def split: option.splits if_splits)

text \<open>
  The feed timeline of a run is safe to index, bounded and append-only. After any status every line has a
  segment, the run has at most 24 segments, a slicer filament has one line, every line index of the tracker
  is in range and its slot maps hold at most 64 slots; every recorded segment keeps its line, position, slot,
  load and start, and a tag it has read, except that one without a printed layer may be replaced while the
  print has not started; once the timeline overflowed it never changes again.
\<close>

theorem record_feed_wf:
  assumes "lines_wf (feed_lines facts)" "tracker_wf run (feed_lines facts) tracker"
    and "record_feed ops adapter run lifecycle state at tracker facts = (tracker', facts')"
  shows "lines_wf (feed_lines facts') \<and> tracker_wf run (feed_lines facts') tracker' \<and>
     lines_kept (print_started lifecycle facts) (feed_lines facts) (feed_lines facts') \<and>
     (feed_overflow facts \<longrightarrow> feed_overflow facts' \<and> feed_lines facts' = feed_lines facts) \<and>
     facts'\<lparr>feed_lines := feed_lines facts, feed_tracked := feed_tracked facts, feed_overflow := feed_overflow facts\<rparr> = facts"
proof (cases "\<not> feed_tracked facts \<and> evidence facts \<noteq> []")
  case True
  then show ?thesis using assms by (simp add: record_feed_def)
next
  case False
  define refs where "refs = fst (tray_refs state)"
  define gone where "gone = gone_slots state refs"
  define tr where "tr = observe_slot_loads refs gone (tracker_for tracker run)"
  have fresh: "length (slot_loads (tracker_for tracker run)) \<le> max_feed_slots"
    "length (empty_counts (tracker_for tracker run)) \<le> max_feed_slots"
    "current_wf (feed_lines facts) (current_line (tracker_for tracker run))"
    using assms(2) by (auto simp: tracker_wf_def tracker_for_def current_wf_def split: option.splits)
  then have tr: "length (slot_loads tr) \<le> max_feed_slots" "length (empty_counts tr) \<le> max_feed_slots"
    "current_wf (feed_lines facts) (current_line tr)"
    using observe_slot_loads_wf[OF fresh(1,2)] by (simp_all add: tr_def)
  show ?thesis
  proof (cases "feed_overflow facts")
    case True
    then have "tracker' = Some tr" "facts' = facts\<lparr>feed_tracked := True\<rparr>"
      using assms(3) False by (simp_all add: record_feed_def Let_def tr_def gone_def refs_def)
    then show ?thesis using assms(1) tr True by (simp add: tracker_wf_def)
  next
    case no: False
    define r0 where "r0 = start_recorder lifecycle at (facts\<lparr>feed_tracked := True\<rparr>) tr gone"
    define r where "r = observe_routes ops adapter state refs r0"
    have r0: "rec_lines r0 = feed_lines facts" "rec_started r0 = print_started lifecycle facts"
      by (simp_all add: r0_def start_recorder_def print_started_def)
    have "recorder_wf r0" using assms(1) tr(3) by (simp add: r0_def start_recorder_def recorder_wf_def)
    then have r: "recorder_wf r" "recorder_kept r0 r"
      unfolding r_def by (rule timeline.keepsD[OF observe_routes_keeps])+
    have "tracker' = Some (tr\<lparr>current_line := rec_current r\<rparr>)"
      "facts' = facts\<lparr>feed_tracked := True, feed_lines := rec_lines r, feed_overflow := rec_overflow r\<rparr>"
      using assms(3) False no by (simp_all add: record_feed_def Let_def r_def r0_def tr_def gone_def refs_def)
    then show ?thesis using r r0 tr no
      by (simp add: recorder_wf_def recorder_kept_def tracker_wf_def)
  qed
qed

lemma record_feed_wf_witness:
  "lines_kept False [] (feed_lines (snd (record_feed sample_ops Bambu_X1C ''r'' ''RUNNING'' sample_state 0 None no_facts))) \<and>
   length (feed_lines (snd (record_feed sample_ops Bambu_X1C ''r'' ''RUNNING'' sample_state 0 None no_facts))) = 1"
proof -
  have "lines_wf (feed_lines no_facts)" "tracker_wf ''r'' (feed_lines no_facts) None"
    by (simp_all add: no_facts_def lines_wf_def tracker_wf_def total_segments_def)
  from record_feed_wf[OF this prod.collapse[symmetric], of sample_ops Bambu_X1C "''RUNNING''" sample_state 0]
  have "lines_kept False [] (feed_lines (snd (record_feed sample_ops Bambu_X1C ''r'' ''RUNNING'' sample_state 0 None no_facts)))"
    by (simp add: print_started_def no_facts_def)
  moreover have "length (feed_lines (snd (record_feed sample_ops Bambu_X1C ''r'' ''RUNNING'' sample_state 0 None no_facts))) = 1"
    by code_simp
  ultimately show ?thesis by blast
qed

lemma target_line_cause:
  assumes "target_line r s = Some t"
  shows "src_filament s \<noteq> [] \<or>
     (seg_unit (last_segment (rec_lines r ! t)) = src_unit s \<and> seg_slot (last_segment (rec_lines r ! t)) = src_slot s) \<or>
     segment_empty (rec_empty r) (last_segment (rec_lines r ! t))"
proof (cases "src_filament s = []")
  case True
  define same where "same = filter (\<lambda>i. seg_unit (last_segment (rec_lines r ! i)) = src_unit s \<and>
      seg_slot (last_segment (rec_lines r ! i)) = src_slot s) (lines_for (rec_lines r) (source_key s))"
  have same: "seg_unit (last_segment (rec_lines r ! hd same)) = src_unit s \<and>
      seg_slot (last_segment (rec_lines r ! hd same)) = src_slot s" if "length same = 1"
  proof -
    have "same \<noteq> []" using that by auto
    then have "hd same \<in> set same" by simp
    then show ?thesis unfolding same_def by simp
  qed
  show ?thesis
  proof (cases "length same = 1")
    case True
    with \<open>src_filament s = []\<close> assms have "t = hd same" by (simp add: target_line_def Let_def same_def)
    then show ?thesis using same[OF True] by simp
  next
    case False
    with True assms have "segment_empty (rec_empty r) (last_segment (rec_lines r ! t))"
      by (auto simp: target_line_def Let_def same_def[symmetric] split: option.splits if_splits)
    then show ?thesis by simp
  qed
qed simp

text \<open>
  A colour change never splits a line: observing a source gives an existing line another segment only if
  no segment of the source's lines can be the same spool in the same slot load, and then only for an explicit
  slicer filament, for a source in the very slot the line was fed from last, or when that slot was confirmed
  empty; the new segment is appended behind all others.
\<close>

theorem new_segment_cause:
  assumes "recorder_wf r" "i < length (rec_lines r)"
    and "length (line_segments (rec_lines r ! i)) < length (line_segments (rec_lines (observe ops s r) ! i))"
  shows "line_segments (rec_lines (observe ops s r) ! i) = line_segments (rec_lines r ! i) @ [new_segment r s]
     \<and> (\<forall>j < length (rec_lines r). line_key (rec_lines r ! j) = source_key s \<longrightarrow>
          (\<forall>seg \<in> set (line_segments (rec_lines r ! j)). \<not> compatible ops s seg))
     \<and> (src_filament s \<noteq> [] \<or>
        (seg_unit (last_segment (rec_lines r ! i)) = src_unit s \<and> seg_slot (last_segment (rec_lines r ! i)) = src_slot s) \<or>
        segment_empty (rec_empty r) (last_segment (rec_lines r ! i)))"
proof -
  have ne: "line_segments (rec_lines r ! j) \<noteq> []" if "j < length (rec_lines r)" for j
    using assms(1) that lines_wf_segments by (auto simp: recorder_wf_def)
  have no_last: "find (\<lambda>i. compatible ops s (last_segment (rec_lines r ! i))) (lines_for (rec_lines r) (source_key s)) = None"
  proof (rule ccontr)
    assume "\<not> ?thesis"
    then obtain j where j: "find (\<lambda>i. compatible ops s (last_segment (rec_lines r ! i)))
        (lines_for (rec_lines r) (source_key s)) = Some j" by auto
    have "j < length (rec_lines r)" using find_in[OF j] by (simp add: lines_for_in)
    then show False using assms(2,3) j set_last_length[OF ne]
      by (auto simp: observe_def Let_def nth_list_update split: if_splits)
  qed
  have no_any: "find (\<lambda>i. list_ex (compatible ops s) (line_segments (rec_lines r ! i)))
      (lines_for (rec_lines r) (source_key s)) = None"
    using assms(3) no_last by (auto simp: observe_def Let_def split: option.splits)
  have new: "observe ops s r = observe_new r s" using no_last no_any by (simp add: observe_def Let_def)
  have apart: "\<forall>j < length (rec_lines r). line_key (rec_lines r ! j) = source_key s \<longrightarrow>
          (\<forall>seg \<in> set (line_segments (rec_lines r ! j)). \<not> compatible ops s seg)"
    using no_any by (auto simp: find_None_iff lines_for_in list_ex_iff)
  have room: "\<not> max_feed_segments \<le> total_segments (rec_lines r)"
    using assms(3) new by (auto simp: observe_new_def)
  obtain t where t: "target_line r s = Some t"
    using assms(2,3) new room by (cases "target_line r s") (auto simp: observe_new_def Let_def nth_append)
  have "t < length (rec_lines r)" using target_line_in[OF _ t] assms(1) by (simp add: recorder_wf_def)
  then have "i = t" "line_segments (rec_lines (observe ops s r) ! i) = line_segments (rec_lines r ! i) @ [new_segment r s]"
    using assms(2,3) new room t set_last_length[OF ne]
    by (auto simp: observe_new_def Let_def nth_list_update split: if_splits)
  then show ?thesis using apart target_line_cause[OF t] by simp
qed

text \<open>A recorder whose only line was fed from a slot that is now confirmed empty.\<close>

definition sample_recorder :: recorder where
  "sample_recorder =
     \<lparr>rec_lines = [\<lparr>line_filament = [], line_extruder = 1,
        line_segments = [\<lparr>seg_unit = ''0'', seg_slot = ''0'', seg_tag_uid = ''A'', seg_tray_uuid = [], seg_load = 0,
          seg_started_at = 0, seg_start_layer = Some 3, seg_start_progress = None\<rparr>]\<rparr>],
      rec_overflow = False, rec_current = [(route_key [] 1, 0)], rec_loads = [], rec_empty = [slot_key ''0'' ''0''],
      rec_segment = \<lparr>seg_unit = [], seg_slot = [], seg_tag_uid = [], seg_tray_uuid = [], seg_load = 0,
          seg_started_at = 7, seg_start_layer = Some 9, seg_start_progress = None\<rparr>,
      rec_started = True\<rparr>"

definition sample_source :: feed_source where
  "sample_source = \<lparr>src_filament = [], src_extruder = 1, src_unit = ''0'', src_slot = ''2'',
     src_tag = \<lparr>tag_uid = ''B'', tray_uuid = []\<rparr>, src_load = 0\<rparr>"

lemma new_segment_cause_witness:
  "line_segments (rec_lines (observe sample_ops sample_source sample_recorder) ! 0) =
     line_segments (rec_lines sample_recorder ! 0) @ [new_segment sample_recorder sample_source]"
proof -
  have "recorder_wf sample_recorder"
    by (simp add: recorder_wf_def sample_recorder_def lines_wf_def current_wf_def total_segments_def max_feed_segments_def)
  moreover have "0 < length (rec_lines sample_recorder)" by (simp add: sample_recorder_def)
  moreover have "length (line_segments (rec_lines sample_recorder ! 0)) <
      length (line_segments (rec_lines (observe sample_ops sample_source sample_recorder) ! 0))" by code_simp
  ultimately show ?thesis by (rule new_segment_cause[THEN conjunct1])
qed

end
