(* ===== verification/Bambu_Reducer.thy ===== *)
theory Bambu_Reducer
  imports Bambu_Feed
begin

text \<open>
  backend/internal/printerconnector/bambu_reducer.go: the processor that turns the printer's status messages
  into observations of print runs. A step of the processor is one call of apply, noteDisconnected,
  noteConnected or expireDisconnectedRun. Decoding a message, the size of an encoded document, the digest of
  a payload, uuid.Parse and ids.New are the fields of \<open>bambu_env\<close>; the identifiers drawn so far are counted in
  the processor. A payload is the fields of its JSON object, its observedAt entry the time of the observation.
\<close>

section \<open>State\<close>

record bambu_env =
  texts :: text_ops
  decode_message :: "string \<Rightarrow> fields option"
  encoded_size :: "fields \<Rightarrow> nat"
  payload_digest :: "fields \<Rightarrow> string"
  parse_uuid :: "string \<Rightarrow> string option"
  new_run_id :: "nat \<Rightarrow> string"

record bambu_state =
  document :: fields
  ready :: bool
  lifecycle :: string
  current_session :: string
  current_run_id :: string
  sessions :: "(string \<times> string) list"
  generation :: int
  last_progress_key :: string
  last_slots :: "(string \<times> string) list"
  empty_slot_counts :: "(string \<times> nat) list"
  active_errors :: "string list"
  last_tray :: string
  facts_by_run :: "(string \<times> run_facts) list"
  auto_detect_spools :: bool
  disconnected_at :: "time option"
  run_timed_out :: bool
  feed :: "feed_tracker option"

record processor =
  adapter :: adapter_kind
  state :: bambu_state
  loaded :: bool
  first_snapshot :: bool
  ids_drawn :: nat

record observation =
  obs_kind :: string
  obs_payload :: fields
  obs_at :: time
  obs_run :: "string option"
  obs_history_complete :: bool
  obs_external :: "string option"

definition empty_state :: bambu_state where
  "empty_state =
     \<lparr>document = [], ready = False, lifecycle = [], current_session = [], current_run_id = [], sessions = [],
      generation = 0, last_progress_key = [], last_slots = [], empty_slot_counts = [], active_errors = [],
      last_tray = [], facts_by_run = [], auto_detect_spools = False, disconnected_at = None,
      run_timed_out = False, feed = None\<rparr>"

text \<open>newBambuProcessorFor, given the stored state, if there is one.\<close>

definition new_processor :: "adapter_kind \<Rightarrow> bambu_state option \<Rightarrow> processor" where
  "new_processor kind stored =
     \<lparr>adapter = kind, state = (case stored of None \<Rightarrow> empty_state | Some s \<Rightarrow> s), loaded = (stored \<noteq> None),
      first_snapshot = True, ids_drawn = 0\<rparr>"

definition disconnect_grace_period :: duration where "disconnect_grace_period = 5 * minute"
definition maximum_reducer_bytes :: int where "maximum_reducer_bytes = 262144"
definition max_sessions :: nat where "max_sessions = 64"

definition facts_of :: "bambu_state \<Rightarrow> string \<Rightarrow> run_facts" where
  "facts_of s run = (case map_of (facts_by_run s) run of None \<Rightarrow> no_facts | Some f \<Rightarrow> f)"

definition set_facts :: "string \<Rightarrow> run_facts \<Rightarrow> bambu_state \<Rightarrow> bambu_state" where
  "set_facts run f s = s\<lparr>facts_by_run := AList.update run f (facts_by_run s)\<rparr>"

text \<open>currentRun: the run and its external id, if the current run id is a UUID.\<close>

definition current_run :: "bambu_env \<Rightarrow> bambu_state \<Rightarrow> string option" where
  "current_run env s = parse_uuid env (current_run_id s)"

definition external_id :: "bambu_env \<Rightarrow> bambu_state \<Rightarrow> string option" where
  "external_id env s = (case current_run env s of None \<Rightarrow> None | Some _ \<Rightarrow> Some (current_session s))"

definition terminal_kind :: string where "terminal_kind = ''terminal_outcome''"
definition operational_kind :: string where "operational_kind = ''operational_state''"
definition progress_kind :: string where "progress_kind = ''progress''"
definition error_kind :: string where "error_kind = ''printer_error''"
definition slot_kind :: string where "slot_kind = ''slot_observation''"
definition filament_kind :: string where "filament_kind = ''filament_change''"

definition outcome_completed :: string where "outcome_completed = ''completed''"
definition outcome_failed :: string where "outcome_failed = ''failed''"
definition outcome_unknown :: string where "outcome_unknown = ''unknown''"

definition terminal_observation ::
  "bambu_env \<Rightarrow> bambu_state \<Rightarrow> string \<Rightarrow> string \<Rightarrow> time \<Rightarrow> string \<Rightarrow> bool \<Rightarrow> observation" where
  "terminal_observation env s result reason at run complete =
     \<lparr>obs_kind = terminal_kind,
      obs_payload = (''outcome'', JStr result) # (if reason = [] then [] else [(''reason'', JStr reason)]),
      obs_at = at, obs_run = Some run, obs_history_complete = complete, obs_external = external_id env s\<rparr>"

section \<open>Connection\<close>

definition configure_auto_detect :: "bool \<Rightarrow> processor \<Rightarrow> processor" where
  "configure_auto_detect enabled p =
     (let s = state p; s1 = (if enabled \<and> \<not> auto_detect_spools s then s\<lparr>last_slots := [], empty_slot_counts := []\<rparr> else s)
      in p\<lparr>state := s1\<lparr>auto_detect_spools := enabled\<rparr>\<rparr>)"

definition note_disconnected :: "time \<Rightarrow> processor \<Rightarrow> processor \<times> bool" where
  "note_disconnected at p =
     (let s = state p in
      if disconnected_at s \<noteq> None \<or> run_timed_out s \<or> \<not> is_active (lifecycle s) \<or> current_run_id s = [] then (p, False)
      else (p\<lparr>state := s\<lparr>disconnected_at := Some at\<rparr>\<rparr>, True))"

definition note_connected :: "processor \<Rightarrow> processor \<times> bool" where
  "note_connected p =
     (if disconnected_at (state p) = None then (p, False)
      else (p\<lparr>state := (state p)\<lparr>disconnected_at := None\<rparr>\<rparr>, True))"

definition expire_disconnected_run :: "bambu_env \<Rightarrow> time \<Rightarrow> processor \<Rightarrow> processor \<times> observation list" where
  "expire_disconnected_run env at p =
     (let s = state p in
      case disconnected_at s of
        None \<Rightarrow> (p, [])
      | Some since \<Rightarrow>
          if run_timed_out s \<or> \<not> is_active (lifecycle s) then (p, [])
          else let deadline = since + disconnect_grace_period in
            if at < deadline then (p, [])
            else case current_run env s of
                   None \<Rightarrow> (p\<lparr>state := s\<lparr>disconnected_at := None\<rparr>\<rparr>, [])
                 | Some run \<Rightarrow>
                     let facts = (facts_of s run)\<lparr>outcome := outcome_unknown\<rparr>;
                         s1 = (set_facts run facts s)\<lparr>disconnected_at := None, run_timed_out := True, lifecycle := ''UNKNOWN''\<rparr>
                     in (p\<lparr>state := s1\<rparr>,
                         [terminal_observation env s outcome_unknown ''connection_timeout'' deadline run (history_complete facts)]))"

section \<open>The session of an active status\<close>

definition end_superseded_run :: "bambu_env \<Rightarrow> time \<Rightarrow> bambu_state \<Rightarrow> bambu_state \<times> observation list" where
  "end_superseded_run env at s =
     (case current_run env s of
        None \<Rightarrow> (s, [])
      | Some run \<Rightarrow>
          let facts = (facts_of s run)\<lparr>outcome := outcome_unknown\<rparr>
          in (set_facts run facts s,
              [terminal_observation env s outcome_unknown ''superseded'' at run (history_complete facts)]))"

text \<open>The session key of the status: the reported one, else that of the running generation or a new one.\<close>

definition choose_session :: "fields \<Rightarrow> bool \<Rightarrow> bambu_state \<Rightarrow> bambu_state \<times> string" where
  "choose_session print_state previous_active s =
     (if session_key print_state \<noteq> [] then (s, session_key print_state)
      else
        let s1 = (if \<not> previous_active \<or> current_session s = []
                  then let g = (generation s + 1) mod 2 ^ 64 in
                    s\<lparr>generation := g, current_session := ''generation:'' @ itoa g\<rparr>
                  else s)
        in (s1, current_session s1))"

text \<open>The run of a session: the one recorded for it, or a new one; the record is emptied when it is full.\<close>

definition enter_session :: "bambu_env \<Rightarrow> string \<Rightarrow> bambu_state \<times> nat \<Rightarrow> bambu_state \<times> nat" where
  "enter_session env key = (\<lambda>(s, n).
     let s1 = s\<lparr>current_session := key, last_progress_key := []\<rparr> in
     case map_of (sessions s1) key of
       Some run \<Rightarrow>
         if run \<noteq> [] then (s1\<lparr>current_run_id := run\<rparr>, n)
         else (let s2 = (if max_sessions \<le> length (sessions s1) then s1\<lparr>sessions := [], facts_by_run := []\<rparr> else s1)
               in (s2\<lparr>current_run_id := new_run_id env n, sessions := AList.update key (new_run_id env n) (sessions s2)\<rparr>, Suc n))
     | None \<Rightarrow>
         (let s2 = (if max_sessions \<le> length (sessions s1) then s1\<lparr>sessions := [], facts_by_run := []\<rparr> else s1)
          in (s2\<lparr>current_run_id := new_run_id env n, sessions := AList.update key (new_run_id env n) (sessions s2)\<rparr>, Suc n)))"

definition active_session ::
  "bambu_env \<Rightarrow> fields \<Rightarrow> time \<Rightarrow> bool \<Rightarrow> bambu_state \<times> nat \<Rightarrow> bambu_state \<times> nat \<times> observation list \<times> bool" where
  "active_session env print_state at previous_active = (\<lambda>(s0, n0).
     let (s1, key) = choose_session print_state previous_active s0;
         moved = (key \<noteq> current_session s1);
         (s2, ended) = (if moved \<and> previous_active \<and> \<not> run_timed_out s1 then end_superseded_run env at s1 else (s1, []));
         s3 = (if moved then s2\<lparr>run_timed_out := False, disconnected_at := None\<rparr> else s2);
         (s4, n1) = (if moved \<or> current_run_id s3 = [] then enter_session env key (s3, n0) else (s3, n0))
     in (s4, n1, ended, run_timed_out s4 \<and> key = current_session s4))"


section \<open>The facts of an active status\<close>

definition or_else :: "'a option \<Rightarrow> 'a option \<Rightarrow> 'a option" where
  "or_else a b = (case a of None \<Rightarrow> b | Some x \<Rightarrow> Some x)"

text \<open>applyBambuPrintSource; the message's own url counts, that of the merged document only with a print name.\<close>

definition reported_url_of :: "fields \<Rightarrow> run_facts \<Rightarrow> string" where
  "reported_url_of patch facts =
     (let own = (if has_object patch ''print'' then object_at patch ''print'' else patch);
          reported = trim_space (string_at own ''url'')
      in if reported \<noteq> [] then take 512 reported else reported_url facts)"

definition apply_print_source :: "text_ops \<Rightarrow> fields \<Rightarrow> fields \<Rightarrow> run_facts \<Rightarrow> run_facts" where
  "apply_print_source ops patch print_state facts0 =
     (let subtask = string_at print_state ''subtask_name'';
          name = trim_space subtask;
          facts = facts0
            \<lparr>reported_url := reported_url_of patch facts0,
             print_name := (if name \<noteq> [] then take 255 name else print_name facts0),
             total_layers := or_else (bounded_int (map_of print_state ''total_layer_num'') 1 max_int32) (total_layers facts0),
             archive_candidate := artifact_path ops print_state\<rparr>;
          session_url = (if reported_url facts = [] \<and> name \<noteq> []
                         then trim_space (string_at print_state ''url'') else reported_url facts);
          explicit = explicit_archive_path ops print_state;
          url_names = (classify_print_source ops session_url subtask = External_Storage)
      in if explicit \<noteq> [] \<or> url_names
         then facts\<lparr>fact_source := External_Storage, fact_internal_path := [],
                    archive_path :=
                      (if ftps_archive_path ops explicit = [] \<and> url_names
                       then ftps_archive_path ops session_url else ftps_archive_path ops explicit)\<rparr>
         else facts\<lparr>fact_source := Internal_Storage, fact_internal_path := internal_path ops print_state,
                    archive_path := []\<rparr>)"

definition contains_evidence :: "spool_evidence list \<Rightarrow> spool_evidence \<Rightarrow> bool" where
  "contains_evidence values c =
     list_ex (\<lambda>e. ev_filament e = ev_filament c \<and> ev_extruder e = ev_extruder c \<and> ev_unit e = ev_unit c \<and>
                  ev_slot e = ev_slot c \<and> ev_tray_uuid e = ev_tray_uuid c \<and>
                  (ev_tray_uuid e \<noteq> [] \<or> ev_tag_uid e = ev_tag_uid c)) values"

definition route_evidence :: "extruder_route \<Rightarrow> spool_evidence" where
  "route_evidence route =
     (let tag = spool_tag_of (ref_tray (route_ref route)) in
      \<lparr>ev_filament = route_filament route, ev_extruder = route_extruder route, ev_unit = ref_unit (route_ref route),
       ev_slot = ref_slot (route_ref route), ev_tag_uid = tag_uid tag, ev_tray_uuid = tray_uuid tag\<rparr>)"

definition add_evidence :: "extruder_route \<Rightarrow> spool_evidence list \<Rightarrow> spool_evidence list" where
  "add_evidence route es =
     (if contains_evidence es (route_evidence route) then es else es @ [route_evidence route])"

definition note_active_slot :: "active_slot \<Rightarrow> run_facts \<Rightarrow> run_facts" where
  "note_active_slot slot facts =
     (case slot of
        None \<Rightarrow> facts
      | Some (u, t, tag) \<Rightarrow>
          facts\<lparr>fact_unit := u, fact_slot := t, fact_tag_uid := tag_uid tag, fact_tray_uuid := tray_uuid tag\<rparr>)"

text \<open>The counters an active status carries, whether the history is complete, and the session of the run.\<close>

definition note_counters :: "fields \<Rightarrow> bool \<Rightarrow> string \<Rightarrow> run_facts \<Rightarrow> run_facts" where
  "note_counters print_state complete external facts =
     facts\<lparr>history_complete := complete, external_print_id := external,
           last_layer := or_else (bounded_int (map_of print_state ''layer_num'') 0 max_int32) (last_layer facts),
           last_progress := or_else (bounded_int (map_of print_state ''mc_percent'') 0 100) (last_progress facts)\<rparr>"

definition active_facts ::
  "bambu_env \<Rightarrow> adapter_kind \<Rightarrow> fields \<Rightarrow> fields \<Rightarrow> string \<Rightarrow> time \<Rightarrow> bool \<Rightarrow> string \<Rightarrow> bambu_state \<Rightarrow>
   feed_tracker option \<times> run_facts"
where
  "active_facts env kind patch print_state lc at complete run s =
     (let ops = texts env;
          facts = apply_print_source ops patch print_state
                    (note_counters print_state complete (current_session s) (facts_of s run));
          (tracker, facts1) = record_feed ops kind run lc print_state at (feed s) facts;
          facts2 = note_active_slot (active_slot_for ops kind print_state) facts1
      in (tracker, facts2\<lparr>evidence := fold add_evidence (spool_routes_for ops kind print_state) (evidence facts2)\<rparr>))"

section \<open>Observations of a status\<close>

text \<open>What the observations of one status share: the run, its session, completeness and time.\<close>

record status_context =
  ctx_run :: "string option"
  ctx_external :: "string option"
  ctx_complete :: bool
  ctx_at :: time

definition observation_of :: "status_context \<Rightarrow> string \<Rightarrow> fields \<Rightarrow> observation" where
  "observation_of c kind payload =
     \<lparr>obs_kind = kind, obs_payload = payload, obs_at = ctx_at c, obs_run = ctx_run c,
      obs_history_complete = ctx_complete c, obs_external = ctx_external c\<rparr>"

definition printer_printing :: string where "printer_printing = ''printing''"
definition printer_paused :: string where "printer_paused = ''paused''"

definition optional_field :: "string \<Rightarrow> json option \<Rightarrow> fields" where
  "optional_field k v = (case v of None \<Rightarrow> [] | Some x \<Rightarrow> [(k, x)])"

definition optional_text :: "string \<Rightarrow> string \<Rightarrow> fields" where
  "optional_text k v = (if v = [] then [] else [(k, JStr v)])"

definition number_field :: "string \<Rightarrow> int option \<Rightarrow> fields" where
  "number_field k v = (case v of None \<Rightarrow> [] | Some n \<Rightarrow> [(k, JNum (itoa n))])"

definition operational_state :: "text_ops \<Rightarrow> fields \<Rightarrow> string \<Rightarrow> bool \<Rightarrow> fields" where
  "operational_state ops st printer_state internal =
     (''state'', JStr printer_state) # optional_text ''fileName'' (file_name ops st)
       @ (if internal then [] else optional_text ''artifactPath'' (artifact_path ops st))"

definition progress_payload :: "text_ops \<Rightarrow> fields \<Rightarrow> bool \<Rightarrow> fields" where
  "progress_payload ops st internal =
     operational_state ops st printer_printing internal
       @ number_field ''percent'' (bounded_int (map_of st ''mc_percent'') 0 100)
       @ number_field ''remainingSeconds''
           (map_option (\<lambda>m. m * 60) (bounded_int (map_of st ''mc_remaining_time'') 0 (10 * 365 * 24 * 60)))
       @ number_field ''layer'' (bounded_int (map_of st ''layer_num'') 0 max_int32)
       @ number_field ''totalLayers'' (bounded_int (map_of st ''total_layer_num'') 0 max_int32)"

text \<open>An active status of a run that has not timed out.\<close>

definition active_phase ::
  "bambu_env \<Rightarrow> adapter_kind \<Rightarrow> fields \<Rightarrow> fields \<Rightarrow> string \<Rightarrow> string \<Rightarrow> status_context \<Rightarrow> string \<Rightarrow>
   bambu_state \<Rightarrow> bambu_state \<times> observation list"
where
  "active_phase env kind patch print_state previous lc c run s =
     (let (tracker, facts) = active_facts env kind patch print_state lc (ctx_at c) (ctx_complete c) run s;
          s1 = (set_facts run facts s)\<lparr>feed := tracker\<rparr>;
          internal = (fact_source facts = Internal_Storage);
          printer_state = (if lc = ''PAUSE'' then printer_paused else printer_printing);
          changed = (if \<not> is_active previous \<or> lc \<noteq> previous
                     then [observation_of c operational_kind (operational_state (texts env) print_state printer_state internal)]
                     else []);
          payload = progress_payload (texts env) print_state internal;
          key = payload_digest env payload
      in if key = last_progress_key s1 then (s1, changed)
         else (s1\<lparr>last_progress_key := key\<rparr>, changed @ [observation_of c progress_kind payload]))"

text \<open>A status of an unknown kind after an active one ends the run with an unknown outcome.\<close>

definition left_phase :: "status_context \<Rightarrow> string \<Rightarrow> bambu_state \<Rightarrow> bambu_state \<times> observation list" where
  "left_phase c run s =
     (set_facts run ((facts_of s run)\<lparr>outcome := outcome_unknown\<rparr>) s,
      [observation_of c terminal_kind [(''outcome'', JStr outcome_unknown)]])"

definition terminal_phase :: "string \<Rightarrow> status_context \<Rightarrow> string \<Rightarrow> bambu_state \<Rightarrow> bambu_state \<times> observation list" where
  "terminal_phase lc c run s =
     (let result = (if lc = ''FAILED'' then outcome_failed else outcome_completed);
          facts = (facts_of s run)\<lparr>outcome := result, history_complete := ctx_complete c,
                    external_print_id := (case ctx_external c of None \<Rightarrow> external_print_id (facts_of s run) | Some x \<Rightarrow> x)\<rparr>
      in ((set_facts run facts s)\<lparr>run_timed_out := False, disconnected_at := None\<rparr>,
          [observation_of c terminal_kind [(''outcome'', JStr result)]]))"


section \<open>Error transitions\<close>

definition current_errors :: "fields \<Rightarrow> string list" where
  "current_errors st =
     (let code = print_error_code (map_of st ''print_error'') in
      (if code \<noteq> [] then [''print:'' @ code] else [])
        @ map (\<lambda>k. ''hms:'' @ k)
            (filter (\<lambda>k. k \<noteq> []) (map (\<lambda>raw. hms_code (object_of (Some raw))) (array_of (map_of st ''hms'')))))"

definition error_observation :: "status_context \<Rightarrow> string list \<Rightarrow> string \<Rightarrow> observation" where
  "error_observation c current key =
     (let (family, code) = (case go_cut (CHR '':'') key of None \<Rightarrow> (key, []) | Some fc \<Rightarrow> fc) in
      observation_of c error_kind
        [(''sourceFamily'', JStr family), (''code'', JStr code),
         (''transition'', JStr (if key \<in> set current then ''appeared'' else ''cleared''))])"

text \<open>errorTransitions: ActiveErrors is the set of the keys of the list.\<close>

definition error_transitions :: "status_context \<Rightarrow> fields \<Rightarrow> bambu_state \<Rightarrow> bambu_state \<times> observation list" where
  "error_transitions c st s =
     (let current = remdups (current_errors st);
          keys = sort (current @ filter (\<lambda>k. k \<notin> set current) (active_errors s));
          changed = filter (\<lambda>k. (k \<in> set (active_errors s)) \<noteq> (k \<in> set current)) (remdups keys)
      in (s\<lparr>active_errors := current\<rparr>, map (error_observation c current) changed))"

section \<open>Slot transitions\<close>

definition tray_details :: "fields \<Rightarrow> fields" where
  "tray_details tray =
     optional_text ''trayType'' (string_at tray ''tray_type'')
       @ optional_text ''productName'' (string_at tray ''tray_sub_brands'')
       @ optional_text ''color'' (string_at tray ''tray_color'')
       @ optional_text ''weightGrams'' (string_at tray ''tray_weight'')"

definition slot_payload :: "tray_ref \<Rightarrow> fields" where
  "slot_payload r =
     (let tag = spool_tag_of (ref_tray r) in
      [(''inputUnitExternalId'', JStr (ref_unit r)), (''slotExternalId'', JStr (ref_slot r)),
       (''externalSlotKey'', JStr (slot_key (ref_unit r) (ref_slot r))), (''freshness'', JStr ''live'')]
        @ (if tag_present tag then optional_text ''tagUid'' (tag_uid tag) @ optional_text ''trayUuid'' (tray_uuid tag)
           else [(''empty'', JBool True)])
        @ tray_details (ref_tray r))"

text \<open>A slot observation belongs to no run.\<close>

definition slot_observation :: "status_context \<Rightarrow> fields \<Rightarrow> observation" where
  "slot_observation c payload =
     \<lparr>obs_kind = slot_kind, obs_payload = payload, obs_at = ctx_at c, obs_run = None,
      obs_history_complete = ctx_complete c, obs_external = None\<rparr>"

definition report_slot ::
  "bambu_env \<Rightarrow> status_context \<Rightarrow> tray_ref \<Rightarrow> bambu_state \<times> observation list \<Rightarrow> bambu_state \<times> observation list"
where
  "report_slot env c r = (\<lambda>(s, obs).
     let key = slot_key (ref_unit r) (ref_slot r); payload = slot_payload r in
     if map_of (last_slots s) key = Some (payload_digest env payload) then (s, obs)
     else (s\<lparr>last_slots := AList.update key (payload_digest env payload) (last_slots s)\<rparr>,
           obs @ [slot_observation c payload]))"

definition observe_slot ::
  "bambu_env \<Rightarrow> status_context \<Rightarrow> tray_ref \<Rightarrow> bambu_state \<times> observation list \<Rightarrow> bambu_state \<times> observation list"
where
  "observe_slot env c r = (\<lambda>(s, obs).
     let key = slot_key (ref_unit r) (ref_slot r) in
     if \<not> tag_present (spool_tag_of (ref_tray r)) then
       (let n = count_at (empty_slot_counts s) key; n' = (if n < 2 then n + 1 else n);
            s1 = (if n < 2 then s\<lparr>empty_slot_counts := AList.update key n' (empty_slot_counts s)\<rparr> else s)
        in if n' < 2 then (s1, obs) else report_slot env c r (s1, obs))
     else report_slot env c r (s\<lparr>empty_slot_counts := AList.delete key (empty_slot_counts s)\<rparr>, obs))"

text \<open>Slots that are no longer listed are forgotten, when the document lists any holder.\<close>

definition forget_slots :: "string list \<Rightarrow> bambu_state \<Rightarrow> bambu_state" where
  "forget_slots listed s =
     (let gone = filter (\<lambda>k. k \<notin> set listed) (map fst (last_slots s)) in
      s\<lparr>last_slots := filter (\<lambda>(k, v). k \<in> set listed) (last_slots s),
        empty_slot_counts := filter (\<lambda>(k, v). k \<notin> set gone) (empty_slot_counts s)\<rparr>)"

definition slot_transitions ::
  "bambu_env \<Rightarrow> status_context \<Rightarrow> fields \<Rightarrow> bambu_state \<Rightarrow> bambu_state \<times> observation list"
where
  "slot_transitions env c st s =
     (let (refs, any_holder) = tray_refs st;
          (s1, obs) = fold (observe_slot env c) refs (s, []);
          listed = map (\<lambda>r. slot_key (ref_unit r) (ref_slot r)) refs
      in (if any_holder then forget_slots listed s1 else s1, obs))"

section \<open>Filament changes\<close>

definition tray_now :: "fields \<Rightarrow> string" where
  "tray_now st =
     (if first_scalar st [''tray_now''] \<noteq> [] then first_scalar st [''tray_now'']
      else first_scalar (object_at st ''ams'') [''tray_now''])"

definition filament_changes :: "status_context \<Rightarrow> bool \<Rightarrow> fields \<Rightarrow> bambu_state \<Rightarrow> bambu_state \<times> observation list" where
  "filament_changes c active st s =
     (let tray = tray_now st in
      if active \<and> tray \<noteq> [] \<and> tray \<noteq> ''255'' \<and> tray \<noteq> last_tray s
      then (s\<lparr>last_tray := tray\<rparr>,
            if last_tray s = [] then []
            else [observation_of c filament_kind
                    [(''fromSlotExternalId'', JStr (last_tray s)), (''toSlotExternalId'', JStr tray)]])
      else (s, []))"

section \<open>One message\<close>

datatype reducer_error = Payload_Limit | Invalid_JSON | Merge_Error merge_error | State_Limit

definition is_terminal :: "string \<Rightarrow> bool" where
  "is_terminal lc = (lc = ''FINISH'' \<or> lc = ''FAILED'')"

definition print_state_of :: "fields \<Rightarrow> fields" where
  "print_state_of merged = (if has_object merged ''print'' then object_at merged ''print'' else merged)"

definition status_lifecycle :: "text_ops \<Rightarrow> fields \<Rightarrow> string" where
  "status_lifecycle ops st = upper_text ops (trim_space (string_at st ''gcode_state''))"

text \<open>The patch of a message and the merged document, if both are within the limits.\<close>

definition read_message :: "bambu_env \<Rightarrow> string \<Rightarrow> fields \<Rightarrow> reducer_error + fields \<times> fields" where
  "read_message env payload current =
     (if payload = [] \<or> maximum_reducer_bytes < int (length payload) then Inl Payload_Limit
      else case decode_message env payload of
             None \<Rightarrow> Inl Invalid_JSON
           | Some patch \<Rightarrow>
               (case merge_object current patch 0 of
                  Inl e \<Rightarrow> Inl (Merge_Error e)
                | Inr merged \<Rightarrow>
                    if maximum_reducer_bytes < int (encoded_size env merged) then Inl State_Limit else Inr (patch, merged)))"

definition chained :: "(bambu_state \<Rightarrow> bambu_state \<times> observation list) \<Rightarrow> bambu_state \<times> observation list \<Rightarrow> bambu_state \<times> observation list" where
  "chained f = (\<lambda>(s, obs). let (s', obs') = f s in (s', obs @ obs'))"

text \<open>The phases of a status that belong to the current run.\<close>

definition run_phases ::
  "bambu_env \<Rightarrow> adapter_kind \<Rightarrow> fields \<Rightarrow> fields \<Rightarrow> string \<Rightarrow> string \<Rightarrow> bool \<Rightarrow> status_context \<Rightarrow>
   bambu_state \<times> observation list \<Rightarrow> bambu_state \<times> observation list"
where
  "run_phases env kind patch st previous lc suppressed c r0 =
     (case ctx_run c of
        None \<Rightarrow> r0
      | Some run \<Rightarrow>
          let r1 = (if is_active lc \<and> \<not> suppressed then chained (active_phase env kind patch st previous lc c run) r0 else r0);
              r2 = (if is_active previous \<and> \<not> is_active lc \<and> \<not> is_terminal lc then chained (left_phase c run) r1 else r1)
          in if is_terminal lc \<and> (previous \<noteq> lc \<or> is_active previous) then chained (terminal_phase lc c run) r2 else r2)"

text \<open>The phases that belong to the printer.\<close>

definition printer_phases ::
  "bambu_env \<Rightarrow> status_context \<Rightarrow> bool \<Rightarrow> fields \<Rightarrow> bambu_state \<times> observation list \<Rightarrow> bambu_state \<times> observation list"
where
  "printer_phases env c active st r =
     chained (filament_changes c active st) (chained (slot_transitions env c st) (chained (error_transitions c st) r))"

definition apply_status ::
  "bambu_env \<Rightarrow> fields \<Rightarrow> fields \<Rightarrow> string \<Rightarrow> time \<Rightarrow> processor \<Rightarrow> processor \<times> observation list"
where
  "apply_status env patch st lc at p =
     (let s = state p; previous = lifecycle s; previous_active = is_active previous; s0 = s\<lparr>ready := True\<rparr> in
      if \<not> ready s \<and> is_terminal lc \<and> current_run_id s = []
      then (p\<lparr>state := s0\<lparr>lifecycle := lc\<rparr>, first_snapshot := False\<rparr>, [])
      else
        let (s1, n, ended, suppressed) =
              (if is_active lc then active_session env st at previous_active (s0, ids_drawn p)
               else (s0, ids_drawn p, [], False));
            c = \<lparr>ctx_run = current_run env s1, ctx_external = external_id env s1,
                 ctx_complete = (\<not> first_snapshot p \<or> (loaded p \<and> previous_active)), ctx_at = at\<rparr>;
            (s2, obs) = printer_phases env c (is_active lc) st
              (run_phases env (adapter p) patch st previous lc suppressed c (s1, ended))
        in (p\<lparr>state := (if suppressed then s2 else s2\<lparr>lifecycle := lc\<rparr>), first_snapshot := False, ids_drawn := n\<rparr>, obs))"

text \<open>apply; its second result is always \<open>ready\<close> of the new state.\<close>

definition reduce_message ::
  "bambu_env \<Rightarrow> string \<Rightarrow> time \<Rightarrow> processor \<Rightarrow> processor \<times> (reducer_error + observation list)"
where
  "reduce_message env payload at p =
     (case read_message env payload (document (state p)) of
        Inl e \<Rightarrow> (p, Inl e)
      | Inr (patch, merged) \<Rightarrow>
          let p1 = p\<lparr>state := (state p)\<lparr>document := merged\<rparr>\<rparr>;
              st = print_state_of merged; lc = status_lifecycle (texts env) st
          in if lc = [] then (p1, Inr [])
             else let (p2, obs) = apply_status env patch st lc at p1 in (p2, Inr obs))"


section \<open>Histories\<close>

text \<open>
  What the adapter does with its processor: it applies messages, notes the loss and the return of the
  connection, asks for the expiry of the grace period, changes an option, and is restarted on the stored
  state. A document that is read back may differ in the text of a number, so any document may follow a restart.
\<close>

datatype reducer_event =
    Message string time | Lost time | Found | Tick time | Auto_Detect bool | Restart fields

definition reducer_step :: "bambu_env \<Rightarrow> reducer_event \<Rightarrow> processor \<Rightarrow> processor \<times> observation list" where
  "reducer_step env e p =
     (case e of
        Message payload at \<Rightarrow> (case reduce_message env payload at p of (p', r) \<Rightarrow> (p', case r of Inl _ \<Rightarrow> [] | Inr obs \<Rightarrow> obs))
      | Lost at \<Rightarrow> (fst (note_disconnected at p), [])
      | Found \<Rightarrow> (fst (note_connected p), [])
      | Tick at \<Rightarrow> expire_disconnected_run env at p
      | Auto_Detect enabled \<Rightarrow> (configure_auto_detect enabled p, [])
      | Restart d \<Rightarrow> ((new_processor (adapter p) (Some ((state p)\<lparr>document := d\<rparr>)))\<lparr>ids_drawn := ids_drawn p\<rparr>, []))"

inductive reachable :: "bambu_env \<Rightarrow> adapter_kind \<Rightarrow> processor \<Rightarrow> observation list \<Rightarrow> bool" for env kind where
  reachable_start: "reachable env kind (new_processor kind None) []"
| reachable_step: "reachable env kind p obs \<Longrightarrow> reducer_step env e p = (p', new) \<Longrightarrow> reachable env kind p' (obs @ new)"

section \<open>Which runs are open\<close>

text \<open>
  The runs a reader of the observations believes to be printing: an operational state or a progress opens its
  run, a terminal outcome closes it.
\<close>

definition track_run :: "observation \<Rightarrow> string list \<Rightarrow> string list" where
  "track_run o' open =
     (case obs_run o' of
        None \<Rightarrow> open
      | Some run \<Rightarrow>
          if obs_kind o' = terminal_kind then removeAll run open
          else if obs_kind o' = operational_kind \<or> obs_kind o' = progress_kind then List.insert run open
          else open)"

definition open_runs :: "observation list \<Rightarrow> string list" where
  "open_runs obs = fold track_run obs []"

text \<open>The run that should be open: the current one while the printer is active and the run has not timed out.\<close>

definition open_allowed :: "bambu_env \<Rightarrow> bambu_state \<Rightarrow> string set" where
  "open_allowed env s = (if is_active (lifecycle s) \<and> \<not> run_timed_out s then set_option (current_run env s) else {})"

definition run_inv :: "bambu_env \<Rightarrow> bambu_state \<Rightarrow> string list \<Rightarrow> bool" where
  "run_inv env s open \<longleftrightarrow> set open = open_allowed env s \<and> (run_timed_out s \<longrightarrow> \<not> is_active (lifecycle s))"

text \<open>What the phases of the printer leave alone.\<close>

definition run_view ::
  "bambu_state \<Rightarrow> string \<times> bool \<times> string \<times> string \<times> (string \<times> string) list \<times> (string \<times> run_facts) list \<times> feed_tracker option"
where
  "run_view s = (lifecycle s, run_timed_out s, current_run_id s, current_session s, sessions s, facts_by_run s, feed s)"

definition quiet :: "observation \<Rightarrow> bool" where
  "quiet o' \<longleftrightarrow> obs_kind o' \<in> {error_kind, slot_kind, filament_kind}"

lemmas kind_defs = terminal_kind_def operational_kind_def progress_kind_def error_kind_def slot_kind_def filament_kind_def

lemma track_quiet: "quiet o' \<Longrightarrow> track_run o' open = open"
  by (auto simp: quiet_def track_run_def kind_defs split: option.split)

lemma fold_track_quiet: "\<forall>o' \<in> set obs. quiet o' \<Longrightarrow> fold track_run obs open = open"
  by (induction obs) (simp_all add: track_quiet)

lemma error_transitions_quiet:
  "run_view (fst (error_transitions c st s)) = run_view s \<and> (\<forall>o' \<in> set (snd (error_transitions c st s)). quiet o')"
  by (auto simp: error_transitions_def Let_def run_view_def error_observation_def observation_of_def quiet_def split: prod.splits)

lemma observe_slot_quiet:
  "run_view (fst (observe_slot env c r a)) = run_view (fst a) \<and>
   (\<forall>o' \<in> set (snd (observe_slot env c r a)). o' \<in> set (snd a) \<or> quiet o')"
  by (cases a) (auto simp: observe_slot_def report_slot_def Let_def run_view_def slot_observation_def quiet_def)

lemma observe_slots_quiet:
  "run_view (fst (fold (observe_slot env c) refs a)) = run_view (fst a) \<and>
   (\<forall>o' \<in> set (snd (fold (observe_slot env c) refs a)). o' \<in> set (snd a) \<or> quiet o')"
proof (induction refs arbitrary: a)
  case (Cons r refs)
  show ?case using Cons[of "observe_slot env c r a"] observe_slot_quiet[of env c r a] by auto
qed simp

lemma slot_transitions_quiet:
  "run_view (fst (slot_transitions env c st s)) = run_view s \<and> (\<forall>o' \<in> set (snd (slot_transitions env c st s)). quiet o')"
proof -
  have forget: "run_view (forget_slots listed x) = run_view x" for listed x
    by (simp add: forget_slots_def run_view_def Let_def)
  show ?thesis using observe_slots_quiet[of env c "fst (tray_refs st)" "(s, [])"]
    by (auto simp: slot_transitions_def Let_def forget split: prod.splits)
qed

lemma filament_changes_quiet:
  "run_view (fst (filament_changes c active st s)) = run_view s \<and> (\<forall>o' \<in> set (snd (filament_changes c active st s)). quiet o')"
  by (auto simp: filament_changes_def Let_def run_view_def observation_of_def quiet_def)

lemma chained_pair: "chained f a = (fst (f (fst a)), snd a @ snd (f (fst a)))"
  by (simp add: chained_def split: prod.split)

lemma printer_phases_quiet:
  obtains extra where "snd (printer_phases env c active st a) = snd a @ extra" "\<forall>o' \<in> set extra. quiet o'"
    "run_view (fst (printer_phases env c active st a)) = run_view (fst a)"
proof -
  let ?s1 = "fst (error_transitions c st (fst a))"
  let ?s2 = "fst (slot_transitions env c st ?s1)"
  show thesis
    by (rule that[of "snd (error_transitions c st (fst a)) @ snd (slot_transitions env c st ?s1) @
          snd (filament_changes c active st ?s2)"])
      (use error_transitions_quiet[of c st "fst a"] slot_transitions_quiet[of env c st ?s1]
          filament_changes_quiet[of c active st ?s2] in \<open>auto simp: printer_phases_def chained_pair\<close>)
qed


lemma track_terminal: "obs_kind o' = terminal_kind \<Longrightarrow> obs_run o' = Some run \<Longrightarrow> track_run o' open = removeAll run open"
  by (simp add: track_run_def)

lemma track_current: "obs_run o' = run \<Longrightarrow> set (track_run o' open) \<subseteq> set open \<union> set_option run"
  by (auto simp: track_run_def split: option.splits)

lemma fold_track_current:
  "\<forall>o' \<in> set obs. obs_run o' = run \<Longrightarrow> set (fold track_run obs open) \<subseteq> set open \<union> set_option run"
proof (induction obs arbitrary: "open")
  case (Cons o' obs)
  have "set (fold track_run obs (track_run o' open)) \<subseteq> set (track_run o' open) \<union> set_option run" using Cons by simp
  then show ?case using track_current[of o' run "open"] Cons.prems by auto
qed simp

lemma choose_session_view:
  assumes "choose_session st previous_active s = (s1, key)"
  shows "lifecycle s1 = lifecycle s \<and> run_timed_out s1 = run_timed_out s \<and> current_run_id s1 = current_run_id s \<and>
     sessions s1 = sessions s \<and> facts_by_run s1 = facts_by_run s \<and> feed s1 = feed s \<and>
     (current_session s1 = current_session s \<or> key = current_session s1)"
  using assms by (auto simp: choose_session_def Let_def split: if_splits)

lemma enter_session_view:
  assumes "enter_session env key (s, n) = (s1, n1)"
  shows "lifecycle s1 = lifecycle s \<and> run_timed_out s1 = run_timed_out s \<and> current_session s1 = key \<and> feed s1 = feed s \<and>
    last_progress_key s1 = []"
  using assms by (auto simp: enter_session_def Let_def split: option.splits if_splits)

lemma superseded_view:
  assumes "end_superseded_run env at s = (s1, ended)"
  shows "lifecycle s1 = lifecycle s \<and> run_timed_out s1 = run_timed_out s \<and> current_run_id s1 = current_run_id s \<and>
     current_session s1 = current_session s \<and> sessions s1 = sessions s \<and> feed s1 = feed s"
  using assms by (auto simp: end_superseded_run_def set_facts_def Let_def split: option.splits)

lemma removeAll_only: "set xs \<subseteq> {run} \<Longrightarrow> removeAll run xs = []"
  by (induction xs) auto

lemma superseded_closes:
  assumes "end_superseded_run env at s = (s1, ended)" "set open = set_option (current_run env s)"
  shows "fold track_run ended open = []"
proof (cases "current_run env s")
  case None
  with assms show ?thesis by (simp add: end_superseded_run_def)
next
  case (Some run)
  have "removeAll run open = []" using assms(2) Some by (intro removeAll_only) simp
  with Some assms(1) show ?thesis
    by (auto simp: end_superseded_run_def Let_def terminal_observation_def track_terminal)
qed

text \<open>
  After the choice of the session: what was open and is not the current run has been closed, and the status is
  suppressed exactly when the current run has timed out, which it had before.
\<close>

lemma active_session_track:
  assumes "active_session env st at (is_active (lifecycle s)) (s, n) = (s1, n1, ended, suppressed)"
    and "run_inv env s open" and "parse_uuid env [] = None"
  shows "set (fold track_run ended open) \<subseteq> set_option (current_run env s1) \<and>
    (suppressed \<longleftrightarrow> run_timed_out s1) \<and> (suppressed \<longrightarrow> run_timed_out s \<and> fold track_run ended open = []) \<and>
    (is_active (lifecycle s) \<and> last_progress_key s1 \<noteq> [] \<longrightarrow> set_option (current_run env s1) \<subseteq> set (fold track_run ended open)) \<and>
    lifecycle s1 = lifecycle s"
proof -
  obtain x key where x: "choose_session st (is_active (lifecycle s)) s = (x, key)"
    by (cases "choose_session st (is_active (lifecycle s)) s")
  note xv = choose_session_view[OF x]
  have allowed: "set open = (if is_active (lifecycle s) \<and> \<not> run_timed_out s then set_option (current_run env x) else {})"
    and timed: "run_timed_out s \<Longrightarrow> \<not> is_active (lifecycle s)"
    using assms(2) xv by (auto simp: run_inv_def open_allowed_def current_run_def split: if_splits)
  show ?thesis
  proof (cases "key = current_session x")
    case True
    obtain y m where y: "(if current_run_id x = [] then enter_session env key (x, n) else (x, n)) = (y, m)"
      by (cases "if current_run_id x = [] then enter_session env key (x, n) else (x, n)")
    have yv: "lifecycle y = lifecycle x \<and> run_timed_out y = run_timed_out x \<and> current_session y = key"
      using y True enter_session_view[of env key x n y m] by (auto split: if_splits)
    have out: "s1 = y" "ended = []" "suppressed = (run_timed_out y \<and> key = current_session y)"
      using assms(1) x y True by (auto simp: active_session_def Let_def split: if_splits prod.splits)
    have "set open \<subseteq> set_option (current_run env y)"
    proof (cases "current_run_id x = []")
      case True
      with assms(3) have "current_run env x = None" by (simp add: current_run_def)
      with allowed show ?thesis by (auto split: if_splits)
    next
      case False
      with y allowed show ?thesis by (auto split: if_splits)
    qed
    moreover have "run_timed_out s \<Longrightarrow> open = []" using allowed by auto
    moreover have "set_option (current_run env y) \<subseteq> set open" if "is_active (lifecycle s)" "last_progress_key y \<noteq> []"
    proof (cases "current_run_id x = []")
      case True
      with y that(2) enter_session_view[of env key x n y m] show ?thesis by simp
    next
      case False
      with y have "y = x" by simp
      then show ?thesis using that(1) allowed timed xv by (auto split: if_splits)
    qed
    ultimately show ?thesis using out yv xv by auto
  next
    case False
    define z where "z = (if is_active (lifecycle s) \<and> \<not> run_timed_out x then end_superseded_run env at x else (x, []))"
    obtain s2 e2 where s2: "z = (s2, e2)" by (cases z)
    have zv: "lifecycle s2 = lifecycle x"
      using s2 superseded_view[of env at x s2 e2] by (auto simp: z_def split: if_splits)
    have closed: "fold track_run e2 open = []"
    proof (cases "is_active (lifecycle s) \<and> \<not> run_timed_out x")
      case True
      then show ?thesis using s2 allowed xv superseded_closes[of env at x s2 e2 "open"] by (simp add: z_def)
    next
      case False
      then show ?thesis using s2 allowed xv by (auto simp: z_def split: if_splits)
    qed
    obtain y m where y: "enter_session env key (s2\<lparr>run_timed_out := False, disconnected_at := None\<rparr>, n) = (y, m)"
      by (cases "enter_session env key (s2\<lparr>run_timed_out := False, disconnected_at := None\<rparr>, n)")
    have out: "s1 = y" "ended = e2" "suppressed = (run_timed_out y \<and> key = current_session y)"
      using assms(1) x y s2 False by (auto simp: active_session_def Let_def z_def split: if_splits prod.splits)
    show ?thesis using out closed zv xv enter_session_view[OF y] by simp
  qed
qed


text \<open>The phases of the run: what stays, and what they observe.\<close>

definition session_view :: "bambu_state \<Rightarrow> string \<times> string \<times> string \<times> (string \<times> string) list" where
  "session_view s = (lifecycle s, current_run_id s, current_session s, sessions s)"

lemma active_phase_view:
  "session_view (fst (active_phase env kind patch st previous lc c run s)) = session_view s \<and>
   run_timed_out (fst (active_phase env kind patch st previous lc c run s)) = run_timed_out s \<and>
   (\<forall>o' \<in> set (snd (active_phase env kind patch st previous lc c run s)). obs_run o' = ctx_run c)"
  by (auto simp: active_phase_def Let_def session_view_def set_facts_def observation_of_def split: prod.splits)

text \<open>The observations of an active status open the run; there is one unless the run is shown already.\<close>

lemma active_phase_opens:
  assumes "ctx_run c = Some r" "\<And>f. payload_digest env f \<noteq> []"
    and "is_active previous \<and> last_progress_key s \<noteq> [] \<longrightarrow> r \<in> set open"
  shows "r \<in> set (fold track_run (snd (active_phase env kind patch st previous lc c run s)) open)"
proof -
  have opens: "r \<in> set (track_run (observation_of c k payload) xs)" if "k = operational_kind \<or> k = progress_kind" for k payload xs
    using that assms(1) by (auto simp: track_run_def observation_of_def kind_defs)
  show ?thesis using assms(2,3) opens
    by (auto simp: active_phase_def Let_def set_facts_def split: prod.splits if_splits)
qed

lemma left_phase_view:
  "session_view (fst (left_phase c run s)) = session_view s \<and> run_timed_out (fst (left_phase c run s)) = run_timed_out s"
  by (simp add: left_phase_def session_view_def set_facts_def)

lemma terminal_phase_view:
  "session_view (fst (terminal_phase lc c run s)) = session_view s \<and> \<not> run_timed_out (fst (terminal_phase lc c run s))"
  by (simp add: terminal_phase_def session_view_def set_facts_def Let_def)

lemma terminal_phases_track:
  assumes "ctx_run c = Some run"
  shows "fold track_run (snd (left_phase c run s)) open = removeAll run open"
    and "fold track_run (snd (terminal_phase lc c run s)) open = removeAll run open"
  using assms by (simp_all add: left_phase_def terminal_phase_def observation_of_def track_terminal Let_def)

lemma is_terminal_inactive: "is_terminal lc \<Longrightarrow> \<not> is_active lc"
  by (auto simp: is_terminal_def is_active_def)

lemma run_phases_view:
  "session_view (fst (run_phases env kind patch st previous lc suppressed c a)) = session_view (fst a) \<and>
   (run_timed_out (fst (run_phases env kind patch st previous lc suppressed c a)) \<longrightarrow> run_timed_out (fst a)) \<and>
   (is_active lc \<longrightarrow> run_timed_out (fst (run_phases env kind patch st previous lc suppressed c a)) = run_timed_out (fst a))"
  by (auto simp: run_phases_def chained_pair active_phase_view left_phase_view terminal_phase_view Let_def
      dest: is_terminal_inactive split: option.split)

text \<open>After the phases of the run only the current run can be open, and none if the status is not active.\<close>

lemma run_phases_open:
  assumes "set (fold track_run (snd a) open) \<subseteq> set_option (ctx_run c)"
    and "\<not> is_active previous \<Longrightarrow> \<not> is_active lc \<Longrightarrow> fold track_run (snd a) open = []"
    and "suppressed \<Longrightarrow> fold track_run (snd a) open = []" and "\<And>f. payload_digest env f \<noteq> []"
    and "is_active previous \<Longrightarrow> last_progress_key (fst a) \<noteq> [] \<Longrightarrow> is_active lc \<Longrightarrow>
       set_option (ctx_run c) \<subseteq> set (fold track_run (snd a) open)"
  shows "set (fold track_run (snd (run_phases env kind patch st previous lc suppressed c a)) open) =
    (if is_active lc \<and> \<not> suppressed then set_option (ctx_run c) else {})"
proof (cases "ctx_run c")
  case None
  then show ?thesis using assms(1) by (simp add: run_phases_def)
next
  case (Some run)
  show ?thesis
  proof (cases "is_active lc")
    case True
    then have nt: "\<not> is_terminal lc" using is_terminal_inactive by blast
    show ?thesis
    proof (cases suppressed)
      case True
      then show ?thesis using assms(3) Some nt \<open>is_active lc\<close> by (simp add: run_phases_def Let_def)
    next
      case False
      let ?r = "active_phase env kind patch st previous lc c run (fst a)"
      have "set (fold track_run (snd ?r) (fold track_run (snd a) open)) \<subseteq> set (fold track_run (snd a) open) \<union> set_option (Some run)"
        using active_phase_view[of env kind patch st previous lc c run "fst a"] Some by (intro fold_track_current) simp
      moreover have "run \<in> set (fold track_run (snd ?r) (fold track_run (snd a) open))"
        using assms(5) True Some by (intro active_phase_opens[OF Some assms(4)]) auto
      ultimately show ?thesis using False True nt Some assms(1) by (auto simp: run_phases_def Let_def chained_pair)
    qed
  next
    case False
    show ?thesis using assms(1,2) Some False removeAll_only[of _ run]
      by (auto simp: run_phases_def Let_def chained_pair terminal_phases_track)
  qed
qed


lemma run_inv_cong:
  "lifecycle s' = lifecycle s \<Longrightarrow> run_timed_out s' = run_timed_out s \<Longrightarrow> current_run_id s' = current_run_id s \<Longrightarrow>
   run_inv env s' open = run_inv env s open"
  by (simp add: run_inv_def open_allowed_def current_run_def)

lemma current_run_cong: "current_run_id s' = current_run_id s \<Longrightarrow> current_run env s' = current_run env s"
  by (simp add: current_run_def)

text \<open>The session and run after a status: those the choice of the session left.\<close>

lemma apply_status_session:
  assumes "apply_status env patch st lc at p = (p', obs)"
    and "ready (state p) \<or> \<not> is_terminal lc \<or> current_run_id (state p) \<noteq> []"
    and "(if is_active lc then active_session env st at (is_active (lifecycle (state p))) ((state p)\<lparr>ready := True\<rparr>, ids_drawn p)
          else ((state p)\<lparr>ready := True\<rparr>, ids_drawn p, [], False)) = (s1, n, ended, suppressed)"
  shows "current_run_id (state p') = current_run_id s1 \<and> current_session (state p') = current_session s1 \<and>
    sessions (state p') = sessions s1 \<and> ids_drawn p' = n \<and>
    lifecycle (state p') = (if suppressed then lifecycle s1 else lc) \<and>
    (run_timed_out (state p') \<longrightarrow> run_timed_out s1) \<and> (is_active lc \<longrightarrow> run_timed_out (state p') = run_timed_out s1)"
proof -
  define c where "c = \<lparr>ctx_run = current_run env s1, ctx_external = external_id env s1,
     ctx_complete = (\<not> first_snapshot p \<or> (loaded p \<and> is_active (lifecycle (state p)))), ctx_at = at\<rparr>"
  define a where "a = run_phases env (adapter p) patch st (lifecycle (state p)) lc suppressed c (s1, ended)"
  obtain s2 obs2 where s2: "printer_phases env c (is_active lc) st a = (s2, obs2)"
    by (cases "printer_phases env c (is_active lc) st a")
  have out: "state p' = (if suppressed then s2 else s2\<lparr>lifecycle := lc\<rparr>)" "ids_drawn p' = n"
    using assms s2 unfolding apply_status_def Let_def a_def c_def by (auto split: if_splits)
  have view: "session_view (fst a) = session_view s1" "run_timed_out (fst a) \<longrightarrow> run_timed_out s1"
    "is_active lc \<longrightarrow> run_timed_out (fst a) = run_timed_out s1"
    using run_phases_view[of env "adapter p" patch st "lifecycle (state p)" lc suppressed c "(s1, ended)"] by (auto simp: a_def)
  have "run_view s2 = run_view (fst a)"
    using s2 by (metis fst_conv printer_phases_quiet)
  with view have s2v: "session_view s2 = session_view s1" "run_timed_out s2 \<longrightarrow> run_timed_out s1"
    "is_active lc \<longrightarrow> run_timed_out s2 = run_timed_out s1"
    by (simp_all add: run_view_def session_view_def)
  show ?thesis using out s2v by (cases suppressed) (simp_all add: session_view_def)
qed

lemma apply_status_track:
  assumes "apply_status env patch st lc at p = (p', obs)" "run_inv env (state p) open" "parse_uuid env [] = None"
    and "\<And>f. payload_digest env f \<noteq> []"
  shows "run_inv env (state p') (fold track_run obs open)"
proof -
  define s where "s = state p"
  define s0 where "s0 = s\<lparr>ready := True\<rparr>"
  have s0: "run_inv env s0 open" "lifecycle s0 = lifecycle s"
    using assms(2) run_inv_cong[of s0 s env "open"] by (simp_all add: s_def s0_def)
  show ?thesis
  proof (cases "\<not> ready s \<and> is_terminal lc \<and> current_run_id s = []")
    case True
    then have out: "state p' = s0\<lparr>lifecycle := lc\<rparr>" "obs = []"
      using assms(1) by (auto simp: apply_status_def Let_def s_def s0_def)
    have "current_run env s = None" using True assms(3) by (simp add: current_run_def)
    then have "open = []" using assms(2) by (auto simp: run_inv_def open_allowed_def s_def split: if_splits)
    then show ?thesis using out True is_terminal_inactive[of lc] by (simp add: run_inv_def open_allowed_def)
  next
    case False
    define start where "start = (if is_active lc then active_session env st at (is_active (lifecycle s)) (s0, ids_drawn p)
               else (s0, ids_drawn p, [], False))"
    obtain s1 n ended suppressed where start: "start = (s1, n, ended, suppressed)" by (cases start)
    define c where "c = \<lparr>ctx_run = current_run env s1, ctx_external = external_id env s1,
       ctx_complete = (\<not> first_snapshot p \<or> (loaded p \<and> is_active (lifecycle s))), ctx_at = at\<rparr>"
    define a where "a = run_phases env (adapter p) patch st (lifecycle s) lc suppressed c (s1, ended)"
    obtain extra where extra: "snd (printer_phases env c (is_active lc) st a) = snd a @ extra" "\<forall>o' \<in> set extra. quiet o'"
      "run_view (fst (printer_phases env c (is_active lc) st a)) = run_view (fst a)"
      using printer_phases_quiet[of env c "is_active lc" st a] by blast
    obtain s2 obs2 where s2: "printer_phases env c (is_active lc) st a = (s2, obs2)"
      by (cases "printer_phases env c (is_active lc) st a")
    have out: "state p' = (if suppressed then s2 else s2\<lparr>lifecycle := lc\<rparr>)" "obs = obs2"
      using assms(1) False s2 start
      unfolding apply_status_def Let_def s_def[symmetric] s0_def[symmetric] start_def[symmetric] a_def c_def by auto
    have first: "set (fold track_run ended open) \<subseteq> set_option (current_run env s1) \<and>
        (suppressed \<longrightarrow> run_timed_out s \<and> fold track_run ended open = []) \<and> lifecycle s1 = lifecycle s \<and>
        (is_active lc \<longrightarrow> suppressed = run_timed_out s1) \<and>
        (\<not> is_active (lifecycle s) \<longrightarrow> \<not> is_active lc \<longrightarrow> fold track_run ended open = []) \<and>
        (is_active lc \<longrightarrow> is_active (lifecycle s) \<longrightarrow> last_progress_key s1 \<noteq> [] \<longrightarrow>
           set_option (current_run env s1) \<subseteq> set (fold track_run ended open)) \<and>
        (\<not> is_active lc \<longrightarrow> \<not> suppressed)"
    proof (cases "is_active lc")
      case True
      with start have st1: "active_session env st at (is_active (lifecycle s0)) (s0, ids_drawn p) = (s1, n, ended, suppressed)"
        by (simp add: start_def s0)
      from active_session_track[OF st1 s0(1) assms(3)] True show ?thesis by (simp add: s0_def)
    next
      case False
      with start have "s1 = s0" "ended = []" "\<not> suppressed" by (auto simp: start_def)
      then show ?thesis using s0 False by (auto simp: run_inv_def open_allowed_def split: if_splits)
    qed
    have view: "session_view (fst a) = session_view s1" "run_timed_out (fst a) \<Longrightarrow> run_timed_out s1"
      "is_active lc \<Longrightarrow> run_timed_out (fst a) = run_timed_out s1"
      using run_phases_view[of env "adapter p" patch st "lifecycle s" lc suppressed c "(s1, ended)"] by (auto simp: a_def)
    have s2v: "lifecycle s2 = lifecycle s1" "current_run_id s2 = current_run_id s1" "run_timed_out s2 = run_timed_out (fst a)"
      using extra(3) view(1) s2 by (simp_all add: run_view_def session_view_def)
    have run: "ctx_run c = current_run env s2" using s2v(2) by (simp add: c_def current_run_def)
    have "fold track_run obs open = fold track_run (snd a) open"
      using out(2) s2 extra(1,2) by (simp add: fold_track_quiet)
    moreover have "set (fold track_run (snd a) open) = (if is_active lc \<and> \<not> suppressed then set_option (ctx_run c) else {})"
      unfolding a_def by (rule run_phases_open) (use first assms(4) in \<open>auto simp: c_def\<close>)
    ultimately have track: "set (fold track_run obs open) = (if is_active lc \<and> \<not> suppressed then set_option (current_run env s2) else {})"
      using run by (auto split: if_splits)
    have inactive: "run_timed_out s \<Longrightarrow> \<not> is_active (lifecycle s)" using s0(1) by (simp add: run_inv_def s0_def)
    show ?thesis
    proof (cases suppressed)
      case True
      with first have "\<not> is_active (lifecycle s2)" using inactive s2v by simp
      with True track out show ?thesis by (simp add: run_inv_def open_allowed_def)
    next
      case False
      have "run_timed_out s2 \<Longrightarrow> \<not> is_active lc" using view(3) s2v first False by auto
      moreover have "current_run env (s2\<lparr>lifecycle := lc\<rparr>) = current_run env s2" by (simp add: current_run_def)
      ultimately show ?thesis using False track out by (auto simp: run_inv_def open_allowed_def split: if_splits)
    qed
  qed
qed

lemma reducer_step_still:
  assumes "reducer_step env e p = (p', obs)" "\<And>payload at. e \<noteq> Message payload at" "\<And>at. e \<noteq> Tick at"
  shows "obs = [] \<and> lifecycle (state p') = lifecycle (state p) \<and> run_timed_out (state p') = run_timed_out (state p) \<and>
    current_run_id (state p') = current_run_id (state p)"
  using assms
  by (cases e) (auto simp: reducer_step_def note_disconnected_def note_connected_def configure_auto_detect_def
      new_processor_def Let_def split: if_splits)

lemma reducer_step_track:
  assumes "reducer_step env e p = (p', obs)" "run_inv env (state p) open" "parse_uuid env [] = None"
    and "\<And>f. payload_digest env f \<noteq> []"
  shows "run_inv env (state p') (fold track_run obs open)"
proof (cases e)
  case (Message payload at)
  show ?thesis
  proof (cases "read_message env payload (document (state p))")
    case (Inl err)
    with assms Message show ?thesis by (auto simp: reducer_step_def reduce_message_def)
  next
    case (Inr pm)
    obtain patch merged where pm: "pm = (patch, merged)" by (cases pm)
    define p1 where "p1 = p\<lparr>state := (state p)\<lparr>document := merged\<rparr>\<rparr>"
    have p1: "run_inv env (state p1) open"
      using assms(2) by (subst run_inv_cong[where s = "state p"]) (simp_all add: p1_def)
    show ?thesis
    proof (cases "status_lifecycle (texts env) (print_state_of merged) = []")
      case True
      with assms Message Inr pm p1 show ?thesis by (auto simp: reducer_step_def reduce_message_def Let_def p1_def)
    next
      case False
      obtain p2 obs2 where a: "apply_status env patch (print_state_of merged) (status_lifecycle (texts env) (print_state_of merged)) at p1 = (p2, obs2)"
        by (cases "apply_status env patch (print_state_of merged) (status_lifecycle (texts env) (print_state_of merged)) at p1")
      with False assms(1) Message Inr pm have "p' = p2" "obs = obs2"
        by (auto simp: reducer_step_def reduce_message_def Let_def p1_def)
      then show ?thesis using apply_status_track[OF a p1 assms(3,4)] by simp
    qed
  qed
next
  case (Tick at)
  show ?thesis
  proof (cases "obs = []")
    case True
    have "lifecycle (state p') = lifecycle (state p) \<and> run_timed_out (state p') = run_timed_out (state p) \<and>
        current_run_id (state p') = current_run_id (state p)"
      using assms(1) Tick True by (auto simp: reducer_step_def expire_disconnected_run_def Let_def split: option.splits if_splits)
    then show ?thesis using assms(2) True run_inv_cong[of "state p'" "state p" env "open"] by simp
  next
    case False
    then obtain run o' where run: "current_run env (state p) = Some run" "obs = [o']" "obs_kind o' = terminal_kind"
      "obs_run o' = Some run" "lifecycle (state p') = ''UNKNOWN''"
      using assms(1) Tick
      by (auto simp: reducer_step_def expire_disconnected_run_def terminal_observation_def Let_def split: option.splits if_splits)
    have "removeAll run open = []"
      using assms(2) run(1) by (intro removeAll_only) (auto simp: run_inv_def open_allowed_def split: if_splits)
    then show ?thesis using run by (simp add: track_terminal run_inv_def open_allowed_def is_active_def)
  qed
qed (use reducer_step_still[OF assms(1)] run_inv_cong[of "state p'" "state p" env "open"] assms(2) in simp_all)


section \<open>Properties\<close>

lemma reachable_track:
  assumes "reachable env kind p obs" "parse_uuid env [] = None" "\<And>f. payload_digest env f \<noteq> []"
  shows "run_inv env (state p) (open_runs obs)"
  using assms(1)
proof induction
  case reachable_start
  then show ?case by (simp add: run_inv_def open_allowed_def open_runs_def new_processor_def empty_state_def is_active_def)
next
  case (reachable_step p obs e p' new)
  then show ?case using reducer_step_track[OF reachable_step.hyps(2) reachable_step.IH assms(2,3)]
    by (simp add: open_runs_def)
qed

text \<open>
  C25: No run is left printing and none is lost: after any sequence of messages, disconnects, timeouts and
  restarts, the runs that the emitted observations show as printing are exactly the current run, and only
  while the printer is active and the run has not timed out. It relies on uuid.Parse refusing the empty text
  and on a digest not being empty.
\<close>

theorem open_run_exact:
  assumes "reachable env kind p obs" "parse_uuid env [] = None" "\<And>f. payload_digest env f \<noteq> []"
  shows "set (open_runs obs) =
    (if is_active (lifecycle (state p)) \<and> \<not> run_timed_out (state p) then set_option (current_run env (state p)) else {})"
  using reachable_track[OF assms] by (simp add: run_inv_def open_allowed_def)

text \<open>A printer that starts a job, and what its messages decode to.\<close>

definition sample_env :: bambu_env where
  "sample_env =
     \<lparr>texts = sample_ops\<lparr>lower_text := id, upper_text := id, letters_digits := id\<rparr>,
      decode_message = map_of
        [(''p'', [(''print'', JObj sample_state)]),
         (''n'', [(''print'', JObj [(''task_id'', JStr ''8'')])]),
         (''k'', [(''print'', JObj [(''gcode_state'', JStr ''PAUSE'')])]),
         (''f'', [(''print'', JObj [(''gcode_state'', JStr ''FINISH'')])])],
      encoded_size = (\<lambda>_. 0), payload_digest = (\<lambda>f. CHR ''d'' # concat (map fst f)),
      parse_uuid = (\<lambda>s. if s = [] then None else Some s), new_run_id = (\<lambda>n. CHR ''r'' # replicate n CHR ''1'')\<rparr>"

lemma sample_env_laws: "parse_uuid sample_env [] = None" "payload_digest sample_env f \<noteq> []"
  by (simp_all add: sample_env_def)

fun play :: "bambu_env \<Rightarrow> reducer_event list \<Rightarrow> processor \<times> observation list \<Rightarrow> processor \<times> observation list" where
  "play env [] a = a"
| "play env (e # es) (p, obs) = (let (p', new) = reducer_step env e p in play env es (p', obs @ new))"

lemma reachable_play: "reachable env kind p obs \<Longrightarrow> play env es (p, obs) = (p', obs') \<Longrightarrow> reachable env kind p' obs'"
  by (induction es arbitrary: p obs) (auto simp: Let_def split: prod.splits intro: reachable_step)

lemma play_reachable: "reachable env kind (fst (play env es (new_processor kind None, []))) (snd (play env es (new_processor kind None, [])))"
  by (rule reachable_play[OF reachable_start prod.collapse[symmetric]])


lemma message_status:
  assumes "read_message env payload (document (state p)) = Inr (patch, merged)"
    and "status_lifecycle (texts env) (print_state_of merged) = lc" "lc \<noteq> []"
  shows "reducer_step env (Message payload at) p =
    apply_status env patch (print_state_of merged) lc at (p\<lparr>state := (state p)\<lparr>document := merged\<rparr>\<rparr>)"
  using assms by (auto simp: reducer_step_def reduce_message_def Let_def split: prod.splits)

lemma sample_start:
  obtains p obs where "reachable sample_env Bambu_X1C p obs" "lifecycle (state p) = ''RUNNING''" "\<not> run_timed_out (state p)"
    "current_run sample_env (state p) = Some ''r''" "current_session (state p) = ''tuple:task_id=7''"
proof -
  let ?p0 = "new_processor Bambu_X1C None"
  let ?p1 = "?p0\<lparr>state := (state ?p0)\<lparr>document := [(''print'', JObj sample_state)]\<rparr>\<rparr>"
  let ?s0 = "empty_state\<lparr>document := [(''print'', JObj sample_state)], ready := True\<rparr>"
  have read: "read_message sample_env ''p'' (document (state ?p0)) =
      Inr ([(''print'', JObj sample_state)], [(''print'', JObj sample_state)])" by code_simp
  have st: "print_state_of [(''print'', JObj sample_state)] = sample_state"
    by (simp add: print_state_of_def has_object_def object_at_def object_of_def)
  have lc: "status_lifecycle (texts sample_env) (print_state_of [(''print'', JObj sample_state)]) = ''RUNNING''"
    by code_simp
  obtain p obs where p: "apply_status sample_env [(''print'', JObj sample_state)] sample_state ''RUNNING'' 0 ?p1 = (p, obs)"
    by (cases "apply_status sample_env [(''print'', JObj sample_state)] sample_state ''RUNNING'' 0 ?p1")
  have "reachable sample_env Bambu_X1C p ([] @ obs)"
    by (rule reachable_step[OF reachable_start]) (use message_status[OF read lc, of 0] p st in simp)
  moreover
  obtain s1 n ended suppressed where a: "active_session sample_env sample_state 0 False (?s0, 0) = (s1, n, ended, suppressed)"
    by (cases "active_session sample_env sample_state 0 False (?s0, 0)")
  have "current_run_id (fst (active_session sample_env sample_state 0 False (?s0, 0))) = ''r''"
    "current_session (fst (active_session sample_env sample_state 0 False (?s0, 0))) = ''tuple:task_id=7''"
    "run_timed_out (fst (active_session sample_env sample_state 0 False (?s0, 0))) = False"
    "snd (snd (snd (active_session sample_env sample_state 0 False (?s0, 0)))) = False" by code_simp+
  then have s1: "current_run_id s1 = ''r''" "current_session s1 = ''tuple:task_id=7''" "\<not> run_timed_out s1" "\<not> suppressed"
    using a by simp_all
  have act: "is_active ''RUNNING''" by (simp add: is_active_def)
  have ini: "lifecycle (state ?p1) = []" "(state ?p1)\<lparr>ready := True\<rparr> = ?s0" "ids_drawn ?p1 = 0"
    by (simp_all add: new_processor_def empty_state_def)
  have "current_run_id (state p) = ''r'' \<and> current_session (state p) = ''tuple:task_id=7'' \<and>
      lifecycle (state p) = ''RUNNING'' \<and> \<not> run_timed_out (state p)"
    using apply_status_session[OF p, of s1 n ended suppressed] a s1 act ini is_terminal_inactive[of "''RUNNING''"]
    by (auto simp: is_active_def)
  moreover from this have "current_run sample_env (state p) = Some ''r''" by (simp add: current_run_def sample_env_def)
  ultimately show thesis using that by auto
qed

lemma open_run_exact_witness: "\<exists>p obs. reachable sample_env Bambu_X1C p obs \<and> set (open_runs obs) = {''r''}"
proof -
  obtain p obs where p: "reachable sample_env Bambu_X1C p obs" "lifecycle (state p) = ''RUNNING''"
    "\<not> run_timed_out (state p)" "current_run sample_env (state p) = Some ''r''" using sample_start by metis
  from open_run_exact[OF p(1) sample_env_laws] p show ?thesis by (auto simp: is_active_def)
qed


section \<open>Which run a status belongs to\<close>

lemma active_session_run:
  assumes "active_session env st at b (s, n) = (s1, n1, ended, suppressed)"
  shows "session_key st \<noteq> [] \<Longrightarrow> current_session s1 = session_key st \<and>
      current_run_id s1 =
        (if session_key st = current_session s \<and> current_run_id s \<noteq> [] then current_run_id s
         else case map_of (sessions s) (session_key st) of
                Some r \<Rightarrow> if r \<noteq> [] then r else new_run_id env n
              | None \<Rightarrow> new_run_id env n)"
    and "session_key st = [] \<Longrightarrow> current_run_id s \<noteq> [] \<Longrightarrow> current_run_id s1 = current_run_id s \<and>
      current_session s1 = (if \<not> b \<or> current_session s = [] then ''generation:'' @ itoa ((generation s + 1) mod 2 ^ 64)
        else current_session s)"
proof -
  have enter: "current_run_id (fst (enter_session env key (x, n))) =
      (case map_of (sessions x) key of Some r \<Rightarrow> if r \<noteq> [] then r else new_run_id env n | None \<Rightarrow> new_run_id env n) \<and>
      current_session (fst (enter_session env key (x, n))) = key" for key x
    by (auto simp: enter_session_def Let_def split: option.split)
  show "current_run_id s1 = current_run_id s \<and>
      current_session s1 = (if \<not> b \<or> current_session s = [] then ''generation:'' @ itoa ((generation s + 1) mod 2 ^ 64)
        else current_session s)" if "session_key st = []" "current_run_id s \<noteq> []"
    using assms that by (auto simp: active_session_def choose_session_def Let_def split: prod.splits if_splits)
  assume key: "session_key st \<noteq> []"
  define z where "z = (if session_key st \<noteq> current_session s \<and> b \<and> \<not> run_timed_out s then end_superseded_run env at s else (s, []))"
  obtain s2 e2 where z: "z = (s2, e2)" by (cases z)
  have zv: "current_run_id s2 = current_run_id s \<and> sessions s2 = sessions s \<and> current_session s2 = current_session s"
    using z superseded_view[of env at s s2 e2] by (auto simp: z_def split: if_splits)
  define x where "x = (if session_key st \<noteq> current_session s then s2\<lparr>run_timed_out := False, disconnected_at := None\<rparr> else s2)"
  have "s1 = fst (if session_key st \<noteq> current_session s \<or> current_run_id x = [] then enter_session env (session_key st) (x, n) else (x, n))"
  proof -
    have "choose_session st b s = (s, session_key st)" using key by (simp add: choose_session_def)
    then have "s1 = fst (let (s4, n1) = (if session_key st \<noteq> current_session s \<or> current_run_id x = []
        then enter_session env (session_key st) (x, n) else (x, n)) in (s4, n1))"
      using assms z unfolding active_session_def x_def z_def
      by (cases "session_key st = current_session s") (auto simp: Let_def split: prod.splits if_splits)
    then show ?thesis by (simp add: case_prod_unfold)
  qed
  moreover have "current_run_id x = current_run_id s \<and> sessions x = sessions s \<and> current_session x = current_session s"
    using zv by (simp add: x_def)
  ultimately show "current_session s1 = session_key st \<and>
      current_run_id s1 =
        (if session_key st = current_session s \<and> current_run_id s \<noteq> [] then current_run_id s
         else case map_of (sessions s) (session_key st) of
                Some r \<Rightarrow> if r \<noteq> [] then r else new_run_id env n
              | None \<Rightarrow> new_run_id env n)"
    using enter by auto
qed

text \<open>An active status is past the first-terminal guard; its session is the result of the choice.\<close>

lemma apply_active_session:
  assumes "apply_status env patch st lc at p = (p', obs)" "is_active lc"
  obtains s1 n ended suppressed where
    "active_session env st at (is_active (lifecycle (state p))) ((state p)\<lparr>ready := True\<rparr>, ids_drawn p) = (s1, n, ended, suppressed)"
    "current_run_id (state p') = current_run_id s1" "current_session (state p') = current_session s1"
    "run_timed_out (state p') = run_timed_out s1"
proof -
  obtain s1 n ended suppressed where a:
    "active_session env st at (is_active (lifecycle (state p))) ((state p)\<lparr>ready := True\<rparr>, ids_drawn p) = (s1, n, ended, suppressed)"
    by (cases "active_session env st at (is_active (lifecycle (state p))) ((state p)\<lparr>ready := True\<rparr>, ids_drawn p)")
  have past: "ready (state p) \<or> \<not> is_terminal lc \<or> current_run_id (state p) \<noteq> []"
    using assms(2) is_terminal_inactive by blast
  have "current_run_id (state p') = current_run_id s1 \<and> current_session (state p') = current_session s1 \<and>
      run_timed_out (state p') = run_timed_out s1"
    using apply_status_session[OF assms(1) past, of s1 n ended suppressed] assms(2) by (simp only: a if_True)
  then show thesis using that[OF a] by blast
qed

text \<open>
  C27: A status that identifies its print belongs to the run recorded for that print: it keeps the run of the
  current session, takes up the run of an earlier session, and starts a new run only for a session that has
  none.
\<close>

theorem run_of_status:
  assumes "apply_status env patch st lc at p = (p', obs)" "is_active lc" "session_key st \<noteq> []"
  shows "current_session (state p') = session_key st \<and>
    current_run_id (state p') =
      (if session_key st = current_session (state p) \<and> current_run_id (state p) \<noteq> [] then current_run_id (state p)
       else case map_of (sessions (state p)) (session_key st) of
              Some r \<Rightarrow> if r \<noteq> [] then r else new_run_id env (ids_drawn p)
            | None \<Rightarrow> new_run_id env (ids_drawn p))"
proof -
  obtain s1 n ended suppressed where
    a: "active_session env st at (is_active (lifecycle (state p))) ((state p)\<lparr>ready := True\<rparr>, ids_drawn p) = (s1, n, ended, suppressed)"
    and "current_run_id (state p') = current_run_id s1" "current_session (state p') = current_session s1"
    using apply_active_session[OF assms(1,2)] by metis
  then show ?thesis using active_session_run(1)[OF a assms(3)] by simp
qed

lemma run_of_status_witness:
  "\<exists>p' obs. apply_status sample_env [] sample_state ''RUNNING'' 0 (new_processor Bambu_X1C None) = (p', obs) \<and>
     current_session (state p') = ''tuple:task_id=7'' \<and> current_run_id (state p') = ''r''"
proof -
  obtain p' obs where p: "apply_status sample_env [] sample_state ''RUNNING'' 0 (new_processor Bambu_X1C None) = (p', obs)"
    by (cases "apply_status sample_env [] sample_state ''RUNNING'' 0 (new_processor Bambu_X1C None)")
  have key: "session_key sample_state = ''tuple:task_id=7''" by code_simp
  have "is_active ''RUNNING''" by (simp add: is_active_def)
  from run_of_status[OF p this] key have "current_session (state p') = ''tuple:task_id=7'' \<and> current_run_id (state p') = ''r''"
    by (simp add: new_processor_def empty_state_def sample_env_def)
  with p show ?thesis by blast
qed

text \<open>
  C28: A status without identifiers never starts a new run once there is a current one: a print that begins
  after another has ended gets a new generation as its session, and the run of the print before it.
\<close>

theorem keyless_print_joins_previous_run:
  assumes "apply_status env patch st lc at p = (p', obs)" "is_active lc" "session_key st = []"
    and "current_run_id (state p) \<noteq> []" "\<not> is_active (lifecycle (state p))"
  shows "current_run_id (state p') = current_run_id (state p) \<and>
    current_session (state p') = ''generation:'' @ itoa ((generation (state p) + 1) mod 2 ^ 64)"
proof -
  obtain s1 n ended suppressed where
    a: "active_session env st at (is_active (lifecycle (state p))) ((state p)\<lparr>ready := True\<rparr>, ids_drawn p) = (s1, n, ended, suppressed)"
    and "current_run_id (state p') = current_run_id s1" "current_session (state p') = current_session s1"
    using apply_active_session[OF assms(1,2)] by metis
  then show ?thesis using active_session_run(2)[OF a assms(3)] assms(4,5) by simp
qed

text \<open>A printer whose first print has ended.\<close>

definition finished_printer :: processor where
  "finished_printer =
     \<lparr>adapter = Bambu_X1C, state = empty_state\<lparr>ready := True, lifecycle := ''FINISH'', current_run_id := ''r'',
        current_session := ''generation:1'', generation := 1, sessions := [(''generation:1'', ''r'')]\<rparr>,
      loaded = False, first_snapshot = False, ids_drawn = 1\<rparr>"

lemma keyless_print_joins_previous_run_witness:
  "\<exists>p' obs. apply_status sample_env [] [(''gcode_state'', JStr ''RUNNING'')] ''RUNNING'' 0 finished_printer = (p', obs) \<and>
     current_run_id (state p') = ''r'' \<and> current_session (state p') = ''generation:2''"
proof -
  obtain p' obs where p: "apply_status sample_env [] [(''gcode_state'', JStr ''RUNNING'')] ''RUNNING'' 0 finished_printer = (p', obs)"
    by (cases "apply_status sample_env [] [(''gcode_state'', JStr ''RUNNING'')] ''RUNNING'' 0 finished_printer")
  have key: "session_key [(''gcode_state'', JStr ''RUNNING'')] = []" by code_simp
  have gen: "itoa 2 = ''2''" by code_simp
  have "current_run_id (state p') = ''r'' \<and> current_session (state p') = ''generation:2''"
    using keyless_print_joins_previous_run[OF p _ key] gen by (simp add: is_active_def finished_printer_def)
  with p show ?thesis by blast
qed


section \<open>Timeouts\<close>

lemma expired_observation:
  assumes "expire_disconnected_run env at p = (p', obs)" "obs \<noteq> []"
  obtains since run where "disconnected_at (state p) = Some since" "since + disconnect_grace_period \<le> at"
    "current_run env (state p) = Some run" "is_active (lifecycle (state p))"
    "obs = [terminal_observation env (state p) outcome_unknown ''connection_timeout'' (since + disconnect_grace_period) run
        (history_complete (facts_of (state p) run))]"
    "run_timed_out (state p')" "disconnected_at (state p') = None" "lifecycle (state p') = ''UNKNOWN''"
    "current_session (state p') = current_session (state p)" "current_run_id (state p') = current_run_id (state p)"
proof (cases "disconnected_at (state p)")
  case None
  with assms show thesis by (simp add: expire_disconnected_run_def)
next
  case (Some since)
  show thesis
  proof (cases "current_run env (state p)")
    case None
    with assms Some show thesis by (simp add: expire_disconnected_run_def Let_def split: if_splits)
  next
    case (Some run)
    have act: "\<not> run_timed_out (state p)" "is_active (lifecycle (state p))" "since + disconnect_grace_period \<le> at"
      using assms Some \<open>disconnected_at (state p) = Some since\<close>
      by (auto simp: expire_disconnected_run_def Let_def split: if_splits)
    show thesis
      by (rule that[of since run])
        (use assms(1) act Some \<open>disconnected_at (state p) = Some since\<close> in
          \<open>auto simp: expire_disconnected_run_def Let_def set_facts_def facts_of_def\<close>)
  qed
qed

lemma suppressed_status_quiet:
  assumes "run_timed_out (state p)" "\<not> is_active (lifecycle (state p))" "current_run_id (state p) \<noteq> []"
    and "is_active lc" "session_key st = current_session (state p)" "session_key st \<noteq> []"
    and "apply_status env patch st lc at p = (p', obs)"
  shows "(\<forall>o' \<in> set obs. quiet o') \<and> run_timed_out (state p') \<and> lifecycle (state p') = lifecycle (state p)"
proof -
  let ?s0 = "(state p)\<lparr>ready := True\<rparr>"
  have a: "active_session env st at (is_active (lifecycle (state p))) (?s0, ids_drawn p) = (?s0, ids_drawn p, [], True)"
    using assms by (simp add: active_session_def choose_session_def Let_def)
  have past: "ready (state p) \<or> \<not> is_terminal lc \<or> current_run_id (state p) \<noteq> []" using assms(3) by simp
  define c where "c = \<lparr>ctx_run = current_run env ?s0, ctx_external = external_id env ?s0,
     ctx_complete = (\<not> first_snapshot p \<or> (loaded p \<and> is_active (lifecycle (state p)))), ctx_at = at\<rparr>"
  have nt: "\<not> is_terminal lc" using assms(4) is_terminal_inactive by blast
  have rest: "run_phases env (adapter p) patch st (lifecycle (state p)) lc True c (?s0, []) = (?s0, [])"
    using assms(2,4) nt by (simp add: run_phases_def split: option.split)
  obtain extra where extra: "snd (printer_phases env c True st (?s0, [])) = extra" "\<forall>o' \<in> set extra. quiet o'"
    using printer_phases_quiet[of env c True st "(?s0, [])"] by auto
  have "obs = snd (printer_phases env c True st (?s0, []))"
    using assms(3,4,7) a rest nt unfolding apply_status_def c_def by (auto simp: Let_def split: prod.splits)
  moreover have "run_timed_out (state p') \<and> lifecycle (state p') = lifecycle (state p)"
    using apply_status_session[OF assms(7) past, of ?s0 "ids_drawn p" "[]" True] assms(1,4) a by simp
  ultimately show ?thesis using extra by simp
qed

text \<open>
  C26: A run that loses its printer ends once: the expiry emits an outcome only when the grace period has
  passed, dated at its end, for the current run; after that neither another expiry nor a new disconnect
  concerns the run, and a late active status of the same print emits nothing about it.
\<close>

theorem timeout_ends_run_once:
  assumes "expire_disconnected_run env at p = (p', obs)" "obs \<noteq> []" "parse_uuid env [] = None"
  shows "(\<exists>since run. disconnected_at (state p) = Some since \<and> since + disconnect_grace_period \<le> at \<and>
      current_run env (state p) = Some run \<and>
      obs = [terminal_observation env (state p) outcome_unknown ''connection_timeout'' (since + disconnect_grace_period) run
        (history_complete (facts_of (state p) run))]) \<and>
    (\<forall>at'. expire_disconnected_run env at' p' = (p', []) \<and> note_disconnected at' p' = (p', False)) \<and>
    (\<forall>patch st lc at' p'' obs'. is_active lc \<and> session_key st = current_session (state p') \<and> session_key st \<noteq> [] \<and>
       apply_status env patch st lc at' p' = (p'', obs') \<longrightarrow> (\<forall>o' \<in> set obs'. quiet o') \<and> run_timed_out (state p''))"
proof -
  obtain since run where e: "disconnected_at (state p) = Some since" "since + disconnect_grace_period \<le> at"
    "current_run env (state p) = Some run"
    "obs = [terminal_observation env (state p) outcome_unknown ''connection_timeout'' (since + disconnect_grace_period) run
        (history_complete (facts_of (state p) run))]"
    "run_timed_out (state p')" "disconnected_at (state p') = None" "lifecycle (state p') = ''UNKNOWN''"
    "current_run_id (state p') = current_run_id (state p)"
    using expired_observation[OF assms(1,2)] by metis
  have "current_run_id (state p') \<noteq> []" using e(3,8) assms(3) by (auto simp: current_run_def)
  moreover have "\<not> is_active (lifecycle (state p'))" using e(7) by (simp add: is_active_def)
  ultimately have "(\<forall>o' \<in> set obs'. quiet o') \<and> run_timed_out (state p'')"
    if "is_active lc" "session_key st = current_session (state p')" "session_key st \<noteq> []"
      "apply_status env patch st lc at' p' = (p'', obs')" for patch st lc at' p'' obs'
    using suppressed_status_quiet[OF e(5) _ _ that] by blast
  moreover have "expire_disconnected_run env at' p' = (p', []) \<and> note_disconnected at' p' = (p', False)" for at'
    using e(5,6) by (simp add: expire_disconnected_run_def note_disconnected_def Let_def)
  ultimately show ?thesis using e(1-4) by blast
qed

text \<open>A printer that was lost during a print.\<close>

definition lost_printer :: processor where
  "lost_printer =
     \<lparr>adapter = Bambu_X1C, state = empty_state\<lparr>ready := True, lifecycle := ''RUNNING'', current_run_id := ''r'',
        current_session := ''tuple:task_id=7'', disconnected_at := Some 0\<rparr>,
      loaded = False, first_snapshot = False, ids_drawn = 1\<rparr>"

lemma timeout_ends_run_once_witness:
  "\<exists>p' o'. expire_disconnected_run sample_env 300000000000 lost_printer = (p', [o']) \<and> obs_at o' = 300000000000 \<and>
     expire_disconnected_run sample_env 900000000000 p' = (p', [])"
proof -
  obtain p' obs where e: "expire_disconnected_run sample_env 300000000000 lost_printer = (p', obs)"
    by (cases "expire_disconnected_run sample_env 300000000000 lost_printer")
  have ne: "obs \<noteq> []"
    using e by (auto simp: expire_disconnected_run_def lost_printer_def empty_state_def is_active_def sample_env_def
        current_run_def disconnect_grace_period_def minute_def Let_def)
  from timeout_ends_run_once[OF e ne sample_env_laws(1)] e show ?thesis
    by (auto simp: lost_printer_def disconnect_grace_period_def minute_def terminal_observation_def)
qed

end
