(* ===== verification/Bambu_Transitions.thy ===== *)
theory Bambu_Transitions
  imports Bambu_Reducer
begin

text \<open>
  What the observations of a history say about errors and filament slots (errorTransitions and slotTransitions
  of bambu_reducer.go), and the bounds of the processor's state over a history.
\<close>

section \<open>Errors alternate\<close>

definition text_at :: "observation \<Rightarrow> string \<Rightarrow> string" where
  "text_at o' k = (case map_of (obs_payload o') k of Some (JStr s) \<Rightarrow> s | _ \<Rightarrow> [])"

definition error_key :: "observation \<Rightarrow> string" where
  "error_key o' = text_at o' ''sourceFamily'' @ CHR '':'' # text_at o' ''code''"

text \<open>
  The errors a reader of the observations believes to be active; None once an error appeared that was active,
  or cleared that was not.
\<close>

definition replay_error :: "observation \<Rightarrow> string list option \<Rightarrow> string list option" where
  "replay_error o' known =
     (case known of
        None \<Rightarrow> None
      | Some keys \<Rightarrow>
          if obs_kind o' \<noteq> error_kind then Some keys
          else if text_at o' ''transition'' = ''appeared''
          then (if error_key o' \<in> set keys then None else Some (error_key o' # keys))
          else (if error_key o' \<in> set keys then Some (removeAll (error_key o') keys) else None))"

lemma cut_join: "go_cut c s = Some (a, b) \<Longrightarrow> a @ c # b = s"
proof -
  assume a: "go_cut c s = Some (a, b)"
  then have "c \<in> set s" by (simp add: go_cut_def split: if_splits)
  then obtain ys zs where s: "s = ys @ c # zs" "c \<notin> set ys" by (auto dest: split_list_first)
  then have "takeWhile (\<lambda>x. x \<noteq> c) s = ys" by (simp add: takeWhile_append)
  with a s show ?thesis by (auto simp: go_cut_def split: if_splits)
qed

lemma error_observation_fields:
  assumes "CHR '':'' \<in> set key"
  shows "obs_kind (error_observation c current key) = error_kind \<and>
    error_key (error_observation c current key) = key \<and>
    (text_at (error_observation c current key) ''transition'' = ''appeared'') = (key \<in> set current)"
proof -
  obtain a b where ab: "go_cut (CHR '':'') key = Some (a, b)"
    using assms by (cases "go_cut (CHR '':'') key") (auto simp: go_cut_def split: if_splits)
  then have "error_key (error_observation c current key) = a @ CHR '':'' # b"
    by (simp add: error_observation_def error_key_def text_at_def observation_of_def)
  with ab cut_join[OF ab] show ?thesis
    by (simp add: error_observation_def text_at_def observation_of_def)
qed

lemma current_errors_colon: "key \<in> set (current_errors st) \<Longrightarrow> CHR '':'' \<in> set key"
  by (auto simp: current_errors_def Let_def split: if_splits)

lemma replay_changed:
  assumes "distinct changed" "\<forall>k \<in> set changed. CHR '':'' \<in> set k \<and> (k \<in> set known) \<noteq> (k \<in> set current)"
  shows "\<exists>keys. fold replay_error (map (error_observation c current) changed) (Some known) = Some keys \<and>
    set keys = (set known - set changed) \<union> {k \<in> set changed. k \<in> set current}"
  using assms
proof (induction changed arbitrary: known)
  case (Cons k changed)
  let ?o = "error_observation c current k"
  have f: "obs_kind ?o = error_kind" "error_key ?o = k" "(text_at ?o ''transition'' = ''appeared'') = (k \<in> set current)"
    using error_observation_fields[of k c current] Cons.prems by simp_all
  define known1 where "known1 = (if k \<in> set current then k # known else removeAll k known)"
  have step: "replay_error ?o (Some known) = Some known1"
    using f Cons.prems(2) by (auto simp: replay_error_def known1_def)
  have "\<forall>j \<in> set changed. CHR '':'' \<in> set j \<and> (j \<in> set known1) \<noteq> (j \<in> set current)"
    using Cons.prems by (auto simp: known1_def)
  from Cons.IH[OF _ this] Cons.prems(1) obtain keys where
    "fold replay_error (map (error_observation c current) changed) (Some known1) = Some keys"
    "set keys = (set known1 - set changed) \<union> {k \<in> set changed. k \<in> set current}" by auto
  then show ?case using step Cons.prems(1) by (auto simp: known1_def)
qed simp

lemma error_transitions_replay:
  assumes "set known = set (active_errors s)" "\<forall>k \<in> set (active_errors s). CHR '':'' \<in> set k"
  shows "\<exists>keys. fold replay_error (snd (error_transitions c st s)) (Some known) = Some keys \<and>
    set keys = set (active_errors (fst (error_transitions c st s))) \<and>
    (\<forall>k \<in> set (active_errors (fst (error_transitions c st s))). CHR '':'' \<in> set k)"
proof -
  define current where "current = remdups (current_errors st)"
  define keys where "keys = remdups (sort (current @ filter (\<lambda>k. k \<notin> set current) (active_errors s)))"
  define changed where "changed = filter (\<lambda>k. (k \<in> set (active_errors s)) \<noteq> (k \<in> set current)) keys"
  have out: "error_transitions c st s = (s\<lparr>active_errors := current\<rparr>, map (error_observation c current) changed)"
    by (simp add: error_transitions_def current_def keys_def changed_def Let_def)
  have "distinct changed" "\<forall>k \<in> set changed. CHR '':'' \<in> set k \<and> (k \<in> set known) \<noteq> (k \<in> set current)"
    using assms current_errors_colon[of _ st] by (auto simp: changed_def keys_def current_def)
  from replay_changed[OF this, of c] assms(1) show ?thesis
    using current_errors_colon[of _ st] unfolding out
    by (auto simp: changed_def keys_def current_def)
qed

text \<open>No other phase reports an error or touches the active errors.\<close>

definition no_errors :: "observation list \<Rightarrow> bool" where
  "no_errors obs \<longleftrightarrow> (\<forall>o' \<in> set obs. obs_kind o' \<noteq> error_kind)"

lemma replay_no_errors: "no_errors obs \<Longrightarrow> fold replay_error obs known = known"
proof (induction obs)
  case (Cons o' obs)
  then show ?case by (cases known) (simp_all add: no_errors_def replay_error_def)
qed simp

lemma no_errors_append [simp]: "no_errors (xs @ ys) \<longleftrightarrow> no_errors xs \<and> no_errors ys"
  by (auto simp: no_errors_def)

lemma no_errors_Nil [simp]: "no_errors []"
  by (simp add: no_errors_def)

lemma active_session_errors:
  assumes "active_session env st at b (s, n) = (s1, n1, ended, suppressed)"
  shows "active_errors s1 = active_errors s \<and> no_errors ended"
proof -
  obtain x key where x: "choose_session st b s = (x, key)" by (cases "choose_session st b s")
  have xe: "active_errors x = active_errors s" using x by (auto simp: choose_session_def Let_def split: if_splits)
  have sup: "active_errors (fst (end_superseded_run env at y)) = active_errors y \<and> no_errors (snd (end_superseded_run env at y))" for y
    by (simp add: end_superseded_run_def set_facts_def terminal_observation_def no_errors_def kind_defs Let_def split: option.split)
  have ent: "active_errors (fst (enter_session env key (y, m))) = active_errors y" for y m
    by (auto simp: enter_session_def Let_def split: option.split)
  define z where "z = (if key \<noteq> current_session x \<and> b \<and> \<not> run_timed_out x then end_superseded_run env at x else (x, []))"
  define y where "y = (if key \<noteq> current_session x then (fst z)\<lparr>run_timed_out := False, disconnected_at := None\<rparr> else fst z)"
  have "s1 = fst (if key \<noteq> current_session x \<or> current_run_id y = [] then enter_session env key (y, n) else (y, n))"
    "ended = snd z"
    using assms x unfolding active_session_def y_def z_def
    by (cases "key = current_session x"; auto simp: Let_def split: prod.splits if_splits)+
  moreover have "active_errors y = active_errors s" "no_errors (snd z)" using sup xe by (simp_all add: y_def z_def)
  ultimately show ?thesis using ent by simp
qed

lemma run_phases_errors:
  "active_errors (fst (run_phases env kind patch st previous lc suppressed c a)) = active_errors (fst a) \<and>
   (no_errors (snd (run_phases env kind patch st previous lc suppressed c a)) = no_errors (snd a))"
proof -
  have "active_errors (fst (active_phase env kind patch st previous lc c run s)) = active_errors s \<and>
      no_errors (snd (active_phase env kind patch st previous lc c run s))" for run s
    by (auto simp: active_phase_def Let_def set_facts_def no_errors_def observation_of_def kind_defs split: prod.splits)
  moreover have "active_errors (fst (left_phase c run s)) = active_errors s \<and> no_errors (snd (left_phase c run s))" for run s
    by (simp add: left_phase_def set_facts_def no_errors_def observation_of_def kind_defs)
  moreover have "active_errors (fst (terminal_phase lc c run s)) = active_errors s \<and> no_errors (snd (terminal_phase lc c run s))" for run s
    by (simp add: terminal_phase_def set_facts_def no_errors_def observation_of_def kind_defs Let_def)
  ultimately show ?thesis by (simp add: run_phases_def Let_def chained_pair split: option.split)
qed

lemma slot_transitions_errors:
  "active_errors (fst (slot_transitions env c st s)) = active_errors s \<and> no_errors (snd (slot_transitions env c st s))"
proof -
  have one: "active_errors (fst (observe_slot env c r a)) = active_errors (fst a) \<and>
      no_errors (snd (observe_slot env c r a)) = no_errors (snd a)" for r a
    by (cases a) (auto simp: observe_slot_def report_slot_def slot_observation_def no_errors_def kind_defs Let_def)
  have "active_errors (fst (fold (observe_slot env c) refs a)) = active_errors (fst a) \<and>
      no_errors (snd (fold (observe_slot env c) refs a)) = no_errors (snd a)" for refs a
    using one by (induction refs arbitrary: a) simp_all
  then show ?thesis by (auto simp: slot_transitions_def forget_slots_def Let_def case_prod_unfold)
qed

lemma filament_changes_errors:
  "active_errors (fst (filament_changes c active st s)) = active_errors s \<and> no_errors (snd (filament_changes c active st s))"
  by (auto simp: filament_changes_def Let_def no_errors_def observation_of_def kind_defs)

definition errors_known :: "bambu_state \<Rightarrow> string list option \<Rightarrow> bool" where
  "errors_known s known \<longleftrightarrow>
     (\<exists>keys. known = Some keys \<and> set keys = set (active_errors s)) \<and> (\<forall>k \<in> set (active_errors s). CHR '':'' \<in> set k)"

lemma apply_status_errors:
  assumes "apply_status env patch st lc at p = (p', obs)" "errors_known (state p) known"
  shows "errors_known (state p') (fold replay_error obs known)"
    and "ready (state p) \<or> \<not> is_terminal lc \<or> current_run_id (state p) \<noteq> [] \<Longrightarrow>
      active_errors (state p') = remdups (current_errors st)"
proof -
  have "errors_known (state p') (fold replay_error obs known) \<and>
    (ready (state p) \<or> \<not> is_terminal lc \<or> current_run_id (state p) \<noteq> [] \<longrightarrow>
      active_errors (state p') = remdups (current_errors st))"
  proof (cases "\<not> ready (state p) \<and> is_terminal lc \<and> current_run_id (state p) = []")
    case True
    then show ?thesis using assms by (auto simp: apply_status_def Let_def errors_known_def)
  next
    case False
    define start where "start = (if is_active lc
      then active_session env st at (is_active (lifecycle (state p))) ((state p)\<lparr>ready := True\<rparr>, ids_drawn p)
      else ((state p)\<lparr>ready := True\<rparr>, ids_drawn p, [], False))"
    obtain s1 n ended suppressed where start: "start = (s1, n, ended, suppressed)" by (cases start)
    define c where "c = \<lparr>ctx_run = current_run env s1, ctx_external = external_id env s1,
       ctx_complete = (\<not> first_snapshot p \<or> (loaded p \<and> is_active (lifecycle (state p)))), ctx_at = at\<rparr>"
    define a where "a = run_phases env (adapter p) patch st (lifecycle (state p)) lc suppressed c (s1, ended)"
    define s2 where "s2 = fst (error_transitions c st (fst a))"
    define s3 where "s3 = fst (slot_transitions env c st s2)"
    define s4 where "s4 = fst (filament_changes c (is_active lc) st s3)"
    have r: "printer_phases env c (is_active lc) st a =
        (s4, snd a @ snd (error_transitions c st (fst a)) @ snd (slot_transitions env c st s2) @
             snd (filament_changes c (is_active lc) st s3))"
      by (simp add: printer_phases_def chained_pair s2_def s3_def s4_def)
    have out: "state p' = (if suppressed then s4 else s4\<lparr>lifecycle := lc\<rparr>)"
      "obs = snd a @ snd (error_transitions c st (fst a)) @ snd (slot_transitions env c st s2) @
             snd (filament_changes c (is_active lc) st s3)"
      using assms(1) False r start unfolding apply_status_def Let_def start_def a_def c_def by (auto split: if_splits)
    have "active_errors s1 = active_errors (state p) \<and> no_errors ended"
      using start active_session_errors[of env st at "is_active (lifecycle (state p))" "(state p)\<lparr>ready := True\<rparr>" "ids_drawn p" s1 n ended suppressed]
      by (auto simp: start_def split: if_splits)
    then have a: "active_errors (fst a) = active_errors (state p)" "no_errors (snd a)"
      using run_phases_errors[of env "adapter p" patch st "lifecycle (state p)" lc suppressed c "(s1, ended)"] by (simp_all add: a_def)
    have last: "active_errors (state p') = active_errors s2"
      using out(1) slot_transitions_errors[of env c st s2] filament_changes_errors[of c "is_active lc" st s3]
      by (simp add: s3_def s4_def)
    have quiet_rest: "fold replay_error obs known = fold replay_error (snd (error_transitions c st (fst a))) known"
      using a(2) slot_transitions_errors[of env c st s2] filament_changes_errors[of c "is_active lc" st s3]
      by (simp add: out(2) replay_no_errors)
    obtain keys where k: "known = Some keys" "set keys = set (active_errors (fst a))" using assms(2) a by (auto simp: errors_known_def)
    have "errors_known (state p') (fold replay_error obs known)"
      using error_transitions_replay[OF k(2), of c st] assms(2) a(1) k(1)
      unfolding quiet_rest errors_known_def last s2_def by auto
    moreover have "active_errors (state p') = remdups (current_errors st)"
      unfolding last s2_def by (simp add: error_transitions_def Let_def)
    ultimately show ?thesis by simp
  qed
  then show "errors_known (state p') (fold replay_error obs known)"
    and "ready (state p) \<or> \<not> is_terminal lc \<or> current_run_id (state p) \<noteq> [] \<Longrightarrow>
      active_errors (state p') = remdups (current_errors st)" by blast+
qed

text \<open>What a step does, if it is not a status: it observes nothing, or the expiry of a run.\<close>

lemma reducer_step_cases:
  assumes "reducer_step env e p = (p', obs)"
  obtains (status) patch merged payload at where
      "read_message env payload (document (state p)) = Inr (patch, merged)" "e = Message payload at"
      "apply_status env patch (print_state_of merged) (status_lifecycle (texts env) (print_state_of merged)) at
        (p\<lparr>state := (state p)\<lparr>document := merged\<rparr>\<rparr>) = (p', obs)"
  | (document_only) merged where "obs = []" "p' = p\<lparr>state := (state p)\<lparr>document := merged\<rparr>\<rparr>"
  | (rejected) "obs = []" "p' = p"
  | (expiry) at where "expire_disconnected_run env at p = (p', obs)" "e = Tick at"
  | (other) "obs = []" "\<And>payload at. e \<noteq> Message payload at" "\<And>at. e \<noteq> Tick at"
proof (cases e)
  case (Message payload at)
  show ?thesis
  proof (cases "read_message env payload (document (state p))")
    case (Inl err)
    with assms Message rejected show ?thesis by (auto simp: reducer_step_def reduce_message_def)
  next
    case (Inr pm)
    obtain patch merged where pm: "pm = (patch, merged)" by (cases pm)
    show ?thesis
    proof (cases "status_lifecycle (texts env) (print_state_of merged) = []")
      case True
      with assms Message Inr pm show ?thesis
        by (intro document_only[of merged]) (auto simp: reducer_step_def reduce_message_def Let_def)
    next
      case False
      from message_status[of env payload p patch merged, OF _ refl False] Inr pm assms Message
      show ?thesis by (intro status[of payload patch merged at]) auto
    qed
  qed
next
  case (Tick at)
  with assms expiry show ?thesis by (simp add: reducer_step_def)
qed (use assms reducer_step_still[OF assms] in \<open>auto intro!: other\<close>)

lemma expiry_view:
  assumes "expire_disconnected_run env at p = (p', obs)"
  shows "active_errors (state p') = active_errors (state p) \<and> no_errors obs"
  using assms by (auto simp: expire_disconnected_run_def set_facts_def terminal_observation_def no_errors_def kind_defs Let_def
      split: option.splits if_splits)

lemma other_steps_errors:
  assumes "reducer_step env e p = (p', obs)" "\<And>payload at. e \<noteq> Message payload at" "\<And>at. e \<noteq> Tick at"
  shows "active_errors (state p') = active_errors (state p)"
  using assms by (cases e) (auto simp: reducer_step_def note_disconnected_def note_connected_def configure_auto_detect_def
      new_processor_def Let_def split: if_splits)

lemma reachable_errors: "reachable env kind p obs \<Longrightarrow> errors_known (state p) (fold replay_error obs (Some []))"
proof (induction rule: reachable.induct)
  case reachable_start
  then show ?case by (simp add: errors_known_def new_processor_def empty_state_def)
next
  case (reachable_step p obs e p' new)
  from reachable_step.hyps(2) show ?case
  proof (cases rule: reducer_step_cases)
    case (status patch merged payload at)
    have "errors_known (state (p\<lparr>state := (state p)\<lparr>document := merged\<rparr>\<rparr>)) (fold replay_error obs (Some []))"
      using reachable_step.IH by (simp add: errors_known_def)
    from apply_status_errors(1)[OF status(3) this] show ?thesis by simp
  next
    case (document_only merged)
    then show ?thesis using reachable_step.IH by (simp add: errors_known_def)
  next
    case rejected
    then show ?thesis using reachable_step.IH by simp
  next
    case (expiry at)
    then show ?thesis using expiry_view[OF expiry(1)] reachable_step.IH by (simp add: errors_known_def replay_no_errors)
  next
    case other
    then show ?thesis using other_steps_errors[OF reachable_step.hyps(2) other(2,3)] reachable_step.IH
      by (simp add: errors_known_def)
  qed
qed

text \<open>
  C29: Error reports alternate: over any history each error of the printer appears before it is cleared and is
  cleared before it appears again, and the errors reported and not cleared are those of the last status.
\<close>

theorem errors_alternate:
  assumes "reachable env kind p obs"
  shows "\<exists>keys. fold replay_error obs (Some []) = Some keys \<and> set keys = set (active_errors (state p))"
  using reachable_errors[OF assms] by (simp add: errors_known_def)


text \<open>A printer that reports an error in its first status.\<close>

definition error_state :: fields where
  "error_state = [(''gcode_state'', JStr ''RUNNING''), (''print_error'', JStr ''X1'')]"

lemma errors_alternate_witness:
  "\<exists>p obs keys. reachable (sample_env\<lparr>decode_message := \<lambda>_. Some error_state\<rparr>) Bambu_X1C p obs \<and>
     fold replay_error obs (Some []) = Some keys \<and> set keys = {''print:X1''}"
proof -
  let ?env = "sample_env\<lparr>decode_message := \<lambda>_. Some error_state\<rparr>"
  let ?p0 = "new_processor Bambu_X1C None"
  let ?p1 = "?p0\<lparr>state := (state ?p0)\<lparr>document := error_state\<rparr>\<rparr>"
  have read: "read_message ?env ''e'' (document (state ?p0)) = Inr (error_state, error_state)" by code_simp
  have st: "print_state_of error_state = error_state"
    by (simp add: print_state_of_def has_object_def error_state_def)
  have lc: "status_lifecycle (texts ?env) (print_state_of error_state) = ''RUNNING''" by code_simp
  obtain p obs where p: "apply_status ?env error_state error_state ''RUNNING'' 0 ?p1 = (p, obs)"
    by (cases "apply_status ?env error_state error_state ''RUNNING'' 0 ?p1")
  have r: "reachable ?env Bambu_X1C p ([] @ obs)"
    by (rule reachable_step[OF reachable_start]) (use message_status[OF read lc, of 0] p st in simp)
  have "errors_known (state ?p1) (Some [])" by (simp add: errors_known_def new_processor_def empty_state_def)
  from apply_status_errors(2)[OF p this] have "active_errors (state p) = remdups (current_errors error_state)"
    by (simp add: is_terminal_def)
  moreover have "remdups (current_errors error_state) = [''print:X1'']" by code_simp
  ultimately have "set (active_errors (state p)) = {''print:X1''}" by simp
  with errors_alternate[OF r] r show ?thesis by auto
qed


section \<open>Slots report a change, and an empty slot only twice seen\<close>

definition slot_id :: "tray_ref \<Rightarrow> string" where
  "slot_id r = slot_key (ref_unit r) (ref_slot r)"

definition tagged :: "tray_ref \<Rightarrow> bool" where
  "tagged r = tag_present (spool_tag_of (ref_tray r))"

text \<open>A reference for the loop: which holders a status reports, decided from the state before it.\<close>

definition reported :: "bambu_env \<Rightarrow> bambu_state \<Rightarrow> tray_ref \<Rightarrow> bool" where
  "reported env s r \<longleftrightarrow>
     (tagged r \<or> 1 \<le> count_at (empty_slot_counts s) (slot_id r)) \<and>
     map_of (last_slots s) (slot_id r) \<noteq> Some (payload_digest env (slot_payload r))"

lemma count_at_update [simp]: "count_at (AList.update k v m) k' = (if k' = k then v else count_at m k')"
  by (simp add: count_at_def update_conv')

lemma count_at_delete [simp]: "count_at (AList.delete k m) k' = (if k' = k then 0 else count_at m k')"
  by (simp add: count_at_def delete_conv')

lemma observe_slot_step:
  "observe_slot env c r (s, obs) =
     (fst (observe_slot env c r (s, [])), obs @ (if reported env s r then [slot_observation c (slot_payload r)] else []))"
  by (auto simp: observe_slot_def report_slot_def reported_def tagged_def slot_id_def Let_def)

lemma observe_slot_other:
  assumes "slot_id q \<noteq> slot_id r"
  shows "reported env (fst (observe_slot env c r (s, obs))) q = reported env s q"
    and "count_at (empty_slot_counts (fst (observe_slot env c r (s, obs)))) (slot_id q) = count_at (empty_slot_counts s) (slot_id q)"
    and "map_of (last_slots (fst (observe_slot env c r (s, obs)))) (slot_id q) = map_of (last_slots s) (slot_id q)"
  using assms by (auto simp: observe_slot_def report_slot_def reported_def Let_def slot_id_def[of r, symmetric])

lemma observe_slot_own:
  "count_at (empty_slot_counts (fst (observe_slot env c r (s, obs)))) (slot_id r) =
     (if tagged r then 0 else if count_at (empty_slot_counts s) (slot_id r) < 2
      then count_at (empty_slot_counts s) (slot_id r) + 1 else count_at (empty_slot_counts s) (slot_id r))"
  "map_of (last_slots (fst (observe_slot env c r (s, obs)))) (slot_id r) =
     (if tagged r \<or> 1 \<le> count_at (empty_slot_counts s) (slot_id r) then Some (payload_digest env (slot_payload r))
      else map_of (last_slots s) (slot_id r))"
  by (auto simp: observe_slot_def report_slot_def tagged_def slot_id_def Let_def)

lemma observe_slots_other:
  "slot_id q \<notin> slot_id ` set refs \<Longrightarrow>
   reported env (fst (fold (observe_slot env c) refs a)) q = reported env (fst a) q \<and>
   count_at (empty_slot_counts (fst (fold (observe_slot env c) refs a))) (slot_id q) = count_at (empty_slot_counts (fst a)) (slot_id q) \<and>
   map_of (last_slots (fst (fold (observe_slot env c) refs a))) (slot_id q) = map_of (last_slots (fst a)) (slot_id q)"
proof (induction refs arbitrary: a)
  case (Cons r refs)
  then show ?case using observe_slot_other[of q r env c "fst a" "snd a"] by simp
qed simp

lemma observe_slots_reports:
  "distinct (map slot_id refs) \<Longrightarrow>
   snd (fold (observe_slot env c) refs (s, obs)) =
     obs @ map (\<lambda>r. slot_observation c (slot_payload r)) (filter (reported env s) refs)"
proof (induction refs arbitrary: s obs)
  case (Cons r refs)
  have fresh: "slot_id q \<noteq> slot_id r" if "q \<in> set refs" for q using Cons.prems image_eqI[OF refl that, of slot_id] by auto
  then have rep: "filter (reported env (fst (observe_slot env c r (s, [])))) refs = filter (reported env s) refs"
    using observe_slot_other(1)[of _ r env c s "[]"] by (intro filter_cong) auto
  show ?case using Cons.IH[of "fst (observe_slot env c r (s, []))"] Cons.prems rep
    by (subst fold_simps, subst observe_slot_step) auto
qed simp

lemma observe_slots_own:
  assumes "distinct (map slot_id refs)" "r \<in> set refs"
  shows "(count_at (empty_slot_counts (fst (fold (observe_slot env c) refs (s, obs)))) (slot_id r) = 0 \<longleftrightarrow> tagged r) \<and>
    map_of (last_slots (fst (fold (observe_slot env c) refs (s, obs)))) (slot_id r) =
      (if tagged r \<or> 1 \<le> count_at (empty_slot_counts s) (slot_id r) then Some (payload_digest env (slot_payload r))
       else map_of (last_slots s) (slot_id r))"
proof -
  obtain xs ys where refs: "refs = xs @ r # ys" using assms(2) split_list by metis
  have away: "slot_id r \<notin> slot_id ` set xs" "slot_id r \<notin> slot_id ` set ys" using assms(1) refs by auto
  obtain s1 obs1 where a: "fold (observe_slot env c) xs (s, obs) = (s1, obs1)" by (cases "fold (observe_slot env c) xs (s, obs)")
  have s1: "count_at (empty_slot_counts s1) (slot_id r) = count_at (empty_slot_counts s) (slot_id r)"
    "map_of (last_slots s1) (slot_id r) = map_of (last_slots s) (slot_id r)"
    using observe_slots_other[OF away(1), of env c "(s, obs)"] a by simp_all
  show ?thesis
    using observe_slots_other[OF away(2), of env c "observe_slot env c r (s1, obs1)"] observe_slot_own[of env c r s1 obs1] s1 refs a
    by simp
qed

lemma map_of_filter_keys: "map_of (filter (\<lambda>(k, v). P k) m) k = (if P k then map_of m k else None)"
  by (induction m) auto

lemma forget_slots_listed:
  "k \<in> set listed \<Longrightarrow> count_at (empty_slot_counts (forget_slots listed s)) k = count_at (empty_slot_counts s) k \<and>
   map_of (last_slots (forget_slots listed s)) k = map_of (last_slots s) k"
  by (simp add: forget_slots_def Let_def map_of_filter_keys count_at_def)

text \<open>
  C30: A status reports exactly the holders whose content differs from their last report, in the order of the
  document, and a holder without a tag only if the status before that listed it was without a tag too, so one
  failed read never unmounts a spool. Afterwards the empty count of a listed holder is zero exactly when it
  has a tag, and its last report is the one of this status unless that was held back. The holders are
  assumed to have different ids.
\<close>

theorem slot_reports_exact:
  assumes "distinct (map slot_id (fst (tray_refs st)))" "slot_transitions env c st s = (s', obs)"
  shows "obs = map (\<lambda>r. slot_observation c (slot_payload r)) (filter (reported env s) (fst (tray_refs st))) \<and>
    (\<forall>r \<in> set (fst (tray_refs st)).
       (count_at (empty_slot_counts s') (slot_id r) = 0 \<longleftrightarrow> tagged r) \<and>
       map_of (last_slots s') (slot_id r) =
         (if tagged r \<or> 1 \<le> count_at (empty_slot_counts s) (slot_id r) then Some (payload_digest env (slot_payload r))
          else map_of (last_slots s) (slot_id r)))"
proof -
  let ?refs = "fst (tray_refs st)" and ?a = "fold (observe_slot env c) (fst (tray_refs st)) (s, [])"
  have listed: "map (\<lambda>r. slot_key (ref_unit r) (ref_slot r)) ?refs = map slot_id ?refs" by (simp add: slot_id_def)
  have out: "obs = snd ?a" "s' = (if snd (tray_refs st) then forget_slots (map slot_id ?refs) (fst ?a) else fst ?a)"
    using assms(2) by (auto simp: slot_transitions_def Let_def case_prod_unfold listed)
  have "count_at (empty_slot_counts s') (slot_id r) = count_at (empty_slot_counts (fst ?a)) (slot_id r) \<and>
      map_of (last_slots s') (slot_id r) = map_of (last_slots (fst ?a)) (slot_id r)" if "r \<in> set ?refs" for r
    using that forget_slots_listed[of "slot_id r" "map slot_id ?refs" "fst ?a"] out(2) by simp
  then show ?thesis using observe_slots_own[OF assms(1), of _ env c s "[]"] observe_slots_reports[OF assms(1), of env c s "[]"] out(1)
    by simp
qed

definition sample_context :: status_context where
  "sample_context = \<lparr>ctx_run = None, ctx_external = None, ctx_complete = True, ctx_at = 0\<rparr>"

lemma slot_reports_exact_witness:
  "snd (slot_transitions sample_env sample_context sample_state empty_state) =
     map (\<lambda>r. slot_observation sample_context (slot_payload r))
       (filter (reported sample_env empty_state) (fst (tray_refs sample_state))) \<and>
   map slot_id (fst (tray_refs sample_state)) = [''0:0'', ''0:1'']"
proof -
  have ids: "map slot_id (fst (tray_refs sample_state)) = [''0:0'', ''0:1'']" by code_simp
  then have "distinct (map slot_id (fst (tray_refs sample_state)))" by simp
  from slot_reports_exact[OF this prod.collapse[symmetric], of sample_env sample_context empty_state] ids show ?thesis by simp
qed

end
