(* ===== verification/Rows.thy ===== *)
theory Rows
  imports Prelude
begin

text \<open>
  Database tables as the components use them: a table is the list of its rows, a key function gives the
  primary key. \<open>row_at\<close> is a SELECT by key, \<open>row_put\<close> an UPDATE of the row with the key of the new one,
  \<open>row_drop\<close> a DELETE by key; an INSERT appends. The laws say what a table holds and what it sums to after
  each of them; \<open>running\<close> is a window sum, the running total of a signed effect.
\<close>

definition row_at :: "('r \<Rightarrow> 'k) \<Rightarrow> 'k \<Rightarrow> 'r list \<Rightarrow> 'r option" where
  "row_at key i rs = find (\<lambda>r. key r = i) rs"

definition row_put :: "('r \<Rightarrow> 'k) \<Rightarrow> 'r \<Rightarrow> 'r list \<Rightarrow> 'r list" where
  "row_put key r rs = map (\<lambda>x. if key x = key r then r else x) rs"

definition row_drop :: "('r \<Rightarrow> 'k) \<Rightarrow> 'k \<Rightarrow> 'r list \<Rightarrow> 'r list" where
  "row_drop key i rs = filter (\<lambda>r. key r \<noteq> i) rs"

lemma row_atD: "row_at key i rs = Some r \<Longrightarrow> r \<in> set rs \<and> key r = i"
  by (auto simp: row_at_def find_Some_iff)

lemma row_at_None_iff: "row_at key i rs = None \<longleftrightarrow> i \<notin> key ` set rs"
  by (auto simp: row_at_def find_None_iff)

lemma key_inj: "distinct (map key rs) \<Longrightarrow> r \<in> set rs \<Longrightarrow> x \<in> set rs \<Longrightarrow> key x = key r \<Longrightarrow> x = r"
  by (simp add: distinct_map inj_on_def)

lemma row_at_key [simp]:
  assumes "distinct (map key rs)" "r \<in> set rs"
  shows "row_at key (key r) rs = Some r"
proof -
  have "row_at key (key r) rs \<noteq> None" using assms(2) by (auto simp: row_at_None_iff)
  then obtain x where "row_at key (key r) rs = Some x" by blast
  then show ?thesis using assms row_atD[of key "key r" rs x] by (auto dest: key_inj)
qed

lemma keys_row_put [simp]: "map key (row_put key r rs) = map key rs"
  by (simp add: row_put_def)

lemma distinct_row_drop [simp]: "distinct (map f rs) \<Longrightarrow> distinct (map f (row_drop key i rs))"
  by (simp add: row_drop_def distinct_map_filter)

lemma set_row_drop [simp]: "set (row_drop key i rs) = {r \<in> set rs. key r \<noteq> i}"
  by (simp add: row_drop_def)

lemma set_row_put:
  "r0 \<in> set rs \<Longrightarrow> key r0 = key r \<Longrightarrow> set (row_put key r rs) = insert r {x \<in> set rs. key x \<noteq> key r}"
  by (auto simp: row_put_def image_iff)

lemma set_row_put_subset: "set (row_put key r rs) \<subseteq> insert r (set rs)"
  by (auto simp: row_put_def)

lemma row_put_Cons: "row_put key r (x # rs) = (if key x = key r then r else x) # row_put key r rs"
  by (simp add: row_put_def)

lemma row_put_other [simp]: "key r \<notin> key ` set rs \<Longrightarrow> row_put key r rs = rs"
  unfolding row_put_def by (rule map_idI) (metis imageI)

lemma row_drop_other [simp]: "i \<notin> key ` set rs \<Longrightarrow> row_drop key i rs = rs"
  by (force simp: row_drop_def intro!: filter_True)

text \<open>Reading a table after each statement.\<close>

lemma row_at_put: "row_at key i (row_put key r rs) =
  (if key r = i then (if i \<in> key ` set rs then Some r else None) else row_at key i rs)"
  by (induction rs) (auto simp: row_at_def row_put_def)

lemma row_at_append: "row_at key i (rs @ [r]) = (case row_at key i rs of None \<Rightarrow> if key r = i then Some r else None | Some x \<Rightarrow> Some x)"
  by (induction rs) (auto simp: row_at_def)

lemma row_at_drop: "row_at key i (row_drop key j rs) = (if i = j then None else row_at key i rs)"
  by (induction rs) (auto simp: row_at_def row_drop_def)

text \<open>Sums over a table.\<close>

lemma sum_row_drop:
  fixes f :: "'r \<Rightarrow> int"
  assumes "distinct (map key rs)" "r \<in> set rs"
  shows "sum_list (map f (row_drop key (key r) rs)) = sum_list (map f rs) - f r"
  using assms
proof (induction rs)
  case (Cons x rs)
  show ?case
  proof (cases "key x = key r")
    case True
    then have "x = r" using Cons.prems by (auto dest: key_inj)
    moreover from this have "row_drop key (key r) rs = rs" using Cons.prems(1) by simp
    ultimately show ?thesis by (simp add: row_drop_def)
  next
    case False
    then have "sum_list (map f (row_drop key (key r) rs)) = sum_list (map f rs) - f r" using Cons by auto
    then show ?thesis using False by (simp add: row_drop_def)
  qed
qed simp

lemma sum_row_put:
  fixes f :: "'r \<Rightarrow> int"
  assumes "distinct (map key rs)" "r0 \<in> set rs" "key r0 = key r"
  shows "sum_list (map f (row_put key r rs)) = sum_list (map f rs) - f r0 + f r"
  using assms
proof (induction rs)
  case (Cons x rs)
  show ?case
  proof (cases "key x = key r")
    case True
    then have "x = r0" using Cons.prems by (metis key_inj list.set_intros(1))
    moreover have "row_put key r rs = rs"
      using Cons.prems(1) True by simp
    ultimately show ?thesis using True by (simp add: row_put_def)
  next
    case False
    then have "r0 \<in> set rs" using Cons.prems by auto
    then have "sum_list (map f (row_put key r rs)) = sum_list (map f rs) - f r0 + f r" using Cons by simp
    then show ?thesis using False by (simp add: row_put_def)
  qed
qed simp

lemma filter_row_put:
  assumes "P r = P r0" "distinct (map key rs)" "r0 \<in> set rs" "key r0 = key r"
  shows "filter P (row_put key r rs) = row_put key r (filter P rs)"
  using assms(2,3)
proof (induction rs)
  case (Cons x rs)
  show ?case
  proof (cases "x = r0")
    case True
    then have "key r \<notin> key ` set rs" using Cons.prems(1) assms(4) by simp
    moreover from this have "key r \<notin> key ` set (filter P rs)" by auto
    ultimately show ?thesis using True assms(1,4) by (simp add: row_put_Cons)
  next
    case False
    then have "filter P (row_put key r rs) = row_put key r (filter P rs)" "key x \<noteq> key r"
      using Cons assms(4) key_inj[OF Cons.prems(1), of r0 x] by auto
    then show ?thesis by (simp add: row_put_Cons)
  qed
qed (simp add: row_put_def)

text \<open>The running totals of a list of signed effects.\<close>

fun running :: "('e \<Rightarrow> int) \<Rightarrow> int \<Rightarrow> 'e list \<Rightarrow> ('e \<times> int) list" where
  "running f acc [] = []"
| "running f acc (e # es) = (e, acc + f e) # running f (acc + f e) es"

lemma map_fst_running [simp]: "map fst (running f acc es) = es"
  by (induction es arbitrary: acc) auto

lemma running_append: "running f acc (xs @ ys) = running f acc xs @ running f (acc + sum_list (map f xs)) ys"
  by (induction xs arbitrary: acc) (auto simp: algebra_simps)

lemma running_Nil_iff [simp]: "running f acc xs = [] \<longleftrightarrow> xs = []"
  by (cases xs) auto

lemma running_last:
  assumes "xs \<noteq> []"
  shows "last (running f acc xs) = (last xs, acc + sum_list (map f xs))"
proof -
  obtain ys y where "xs = ys @ [y]" using assms by (cases xs rule: rev_cases) auto
  then show ?thesis by (simp add: running_append)
qed

end
