(* ===== verification/Money.thy ===== *)
theory Money
  imports Go_Strings
begin

text \<open>
  backend/internal/orders/service.go: amounts and what every operation of the package starts with. A decimal
  is an integer in units of its scale, so an amount of money is an integer of cents; parseAmount accepts only
  values that have no finer part. The acting principal is the record \<open>actor\<close>: the account and person it acts
  for and its permissions. The audit log is part of the state: an event is its action, resource and changed
  fields. A UUID is a string, and uuid.Nil the empty one.
\<close>

section \<open>Principals and audit\<close>

record actor =
  act_account :: string
  act_person :: string
  act_has :: "string \<Rightarrow> bool"

record audit_event =
  aud_account :: string
  aud_action :: string
  aud_resource :: string
  aud_id :: string
  aud_fields :: "string list"

definition require :: "actor \<Rightarrow> string list \<Rightarrow> app_error + unit" where
  "require p perms = (if list_all (act_has p) perms then Inr () else Inl permission_denied)"

definition audit_entry :: "actor \<Rightarrow> string \<Rightarrow> string \<Rightarrow> string \<Rightarrow> string list \<Rightarrow> audit_event" where
  "audit_entry p action resource i fs =
     \<lparr>aud_account = act_account p, aud_action = action, aud_resource = resource, aud_id = i, aud_fields = fs\<rparr>"

text \<open>A check that fails with an error, and the operation after it.\<close>

definition ensure :: "bool \<Rightarrow> app_error \<Rightarrow> (unit \<Rightarrow> app_error + 'a) \<Rightarrow> app_error + 'a" where
  "ensure ok e k = (if ok then k () else Inl e)"

lemma ensure_Inr_iff [simp]: "ensure ok e k = Inr x \<longleftrightarrow> ok \<and> k () = Inr x"
  by (simp add: ensure_def)

lemma ensure_Inl_iff: "ensure ok e k = Inl d \<longleftrightarrow> (if ok then k () = Inl d else d = e)"
  by (auto simp: ensure_def)

lemma require_Inr_iff [simp]: "require p perms = Inr u \<longleftrightarrow> list_all (act_has p) perms"
  by (simp add: require_def)

section \<open>Amounts\<close>

definition decimal_digit :: "char \<Rightarrow> bool" where
  "decimal_digit c = (let n = of_char c :: nat in 48 \<le> n \<and> n \<le> 57)"

text \<open>decimalPattern: whole digits without a leading zero, and up to six decimals; the two parts.\<close>

definition decimal_parts :: "string \<Rightarrow> (string \<times> string) option" where
  "decimal_parts v =
     (let (whole, frac, point) = (case go_cut (CHR ''.'') v of None \<Rightarrow> (v, [], False) | Some (a, b) \<Rightarrow> (a, b, True)) in
      if whole \<noteq> [] \<and> list_all decimal_digit whole \<and> (whole = ''0'' \<or> hd whole \<noteq> CHR ''0'') \<and>
         list_all decimal_digit frac \<and> (point \<longrightarrow> frac \<noteq> []) \<and> length frac \<le> 6
      then Some (whole, frac) else None)"

definition decimal_digits_value :: "string \<Rightarrow> int" where
  "decimal_digits_value s = (case parse_digits 10 0 s of None \<Rightarrow> 0 | Some n \<Rightarrow> int n)"

text \<open>parseAmount, in units of \<open>10 ^ - scale\<close>; a decimal keeps the trailing zeros of its text as its exponent.\<close>

definition parse_amount :: "string \<Rightarrow> nat \<Rightarrow> bool \<Rightarrow> app_error + int" where
  "parse_amount v scale positive =
     (case decimal_parts v of
        None \<Rightarrow> Inl (invalid ''A nonnegative decimal string is required'')
      | Some (whole, frac) \<Rightarrow>
          let units = decimal_digits_value whole * 10 ^ scale + decimal_digits_value frac * 10 ^ (scale - length frac) in
          if scale < length frac \<or> 10 ^ 20 \<le> units \<or> (positive \<and> units = 0)
          then Inl (invalid ''Amount exceeds supported precision or must be positive'')
          else Inr units)"

text \<open>money and StringFixed(2): an amount of cents with two decimals.\<close>

definition money :: "int \<Rightarrow> string" where
  "money n =
     (let m = nat \<bar>n\<bar>; c = m mod 100 in
      (if n < 0 then ''-'' else []) @ digits_of 10 (m div 100) @
      CHR ''.'' # [digit_char (c div 10), digit_char (c mod 10)])"

section \<open>References\<close>

text \<open>Time.UTC().Year() of the proleptic Gregorian calendar, and the text of a reference.\<close>

definition year_of :: "time \<Rightarrow> int" where
  "year_of t =
     (let z = t div 86400000000000 + 719468; era = z div 146097; doe = z mod 146097;
          yoe = (doe - doe div 1460 + doe div 36524 - doe div 146096) div 365;
          doy = doe - (365 * yoe + yoe div 4 - yoe div 100)
      in yoe + era * 400 + (if 306 \<le> doy then 1 else 0))"

definition zero_padded :: "nat \<Rightarrow> int \<Rightarrow> string" where
  "zero_padded w n = (let ds = itoa n in replicate (w - length ds) (CHR ''0'') @ ds)"

definition reference :: "string \<Rightarrow> time \<Rightarrow> int \<Rightarrow> string" where
  "reference prefix now n = prefix @ ''-'' @ zero_padded 4 (year_of now) @ ''-'' @ zero_padded 6 n"

text \<open>Time.Truncate(time.Microsecond).\<close>

definition microsecond :: duration where "microsecond = 1000"

definition truncate_micro :: "time \<Rightarrow> time" where
  "truncate_micro t = t - t mod microsecond"

section \<open>Laws\<close>

lemma truncate_micro_mod [simp]: "truncate_micro t mod 1000 = 0"
  by (simp add: truncate_micro_def microsecond_def)

text \<open>On the grid of the database the exclusive bound one microsecond later is the inclusive one.\<close>

lemma before_microsecond_iff:
  assumes "t mod 1000 = 0" "u mod 1000 = (0::int)"
  shows "t < u + microsecond \<longleftrightarrow> t \<le> u"
proof -
  obtain a b where "t = 1000 * a" "u = 1000 * b" using assms by (auto simp: mod_eq_0_iff_dvd dvd_def)
  then show ?thesis by (simp add: microsecond_def) linarith
qed

lemma parse_amount_bounds:
  assumes "parse_amount v scale positive = Inr n"
  shows "0 \<le> n \<and> n < 10 ^ 20 \<and> (positive \<longrightarrow> 0 < n)"
proof -
  have nonneg: "0 \<le> decimal_digits_value s" for s by (simp add: decimal_digits_value_def split: option.split)
  obtain whole frac where "\<not> 10 ^ 20 \<le> n" "positive \<longrightarrow> n \<noteq> 0"
    "n = decimal_digits_value whole * 10 ^ scale + decimal_digits_value frac * 10 ^ (scale - length frac)"
    using assms by (auto simp: parse_amount_def Let_def split: option.splits prod.splits if_splits)
  moreover from this have "0 \<le> n" using nonneg by simp
  ultimately show ?thesis by linarith
qed

lemma digit_char_decimal: "d < 10 \<Longrightarrow> decimal_digit (digit_char d)"
  by (simp add: decimal_digit_def digit_char_range Let_def)

lemma digits_of_decimal: "list_all decimal_digit (digits_of 10 n)"
  using decimal_digits[of _ n] by (auto simp: list_all_iff decimal_digit_def Let_def)

lemma digits_of_head: "0 < n \<Longrightarrow> hd (digits_of 10 n) \<noteq> CHR ''0''"
proof (induction n rule: less_induct)
  case (less n)
  show ?case
  proof (cases "n < 10")
    case True
    then have "digits_of 10 n = [digit_char n]" by (subst digits_of.simps) simp
    moreover have "digit_char n \<noteq> CHR ''0''"
    proof
      assume "digit_char n = CHR ''0''"
      then have "(of_char (digit_char n) :: nat) = 48" by simp
      then show False using less.prems True by (simp add: digit_char_range)
    qed
    ultimately show ?thesis by simp
  next
    case False
    then have "digits_of 10 n = digits_of 10 (n div 10) @ [digit_char (n mod 10)]" by (subst digits_of.simps) simp
    then show ?thesis using less.IH[of "n div 10"] False by (simp del: digits_of.simps add: hd_append)
  qed
qed

lemma digits_value: "decimal_digits_value (digits_of 10 n) = int n"
  by (simp add: decimal_digits_value_def parse_digits_of del: digits_of.simps)

lemma two_digits_value:
  assumes "c < 100"
  shows "decimal_digits_value [digit_char (c div 10), digit_char (c mod 10)] = int c"
proof -
  have "c div 10 < 10" using assms by (simp add: less_mult_imp_div_less)
  then show ?thesis by (simp add: decimal_digits_value_def digit_value_char)
qed

text \<open>The parts of an amount that is shown.\<close>

lemma money_parts:
  assumes n: "0 \<le> n"
  shows "decimal_parts (money n) =
    Some (digits_of 10 (nat n div 100), [digit_char (nat n mod 100 div 10), digit_char (nat n mod 100 mod 10)])"
proof -
  let ?w = "digits_of 10 (nat n div 100)" and ?f = "[digit_char (nat n mod 100 div 10), digit_char (nat n mod 100 mod 10)]"
  have money: "money n = ?w @ CHR ''.'' # ?f" using n by (simp add: money_def Let_def del: digits_of.simps)
  have dot: "CHR ''.'' \<notin> set ?w"
  proof
    assume "CHR ''.'' \<in> set ?w"
    then show False using decimal_digits[of "CHR ''.''"] by fastforce
  qed
  have "takeWhile (\<lambda>x. x \<noteq> CHR ''.'') (?w @ CHR ''.'' # ?f) = takeWhile (\<lambda>x. x \<noteq> CHR ''.'') ?w"
    by (rule takeWhile_tail) simp
  also have "\<dots> = ?w" using dot by (auto simp: takeWhile_eq_all_conv simp del: digits_of.simps)
  finally have cut: "go_cut (CHR ''.'') (money n) = Some (?w, ?f)"
    by (simp add: go_cut_def money del: digits_of.simps)
  have "hd ?w \<noteq> CHR ''0'' \<or> ?w = ''0''"
  proof (cases "nat n div 100 = 0")
    case True
    then have "?w = [digit_char 0]" by (subst digits_of.simps) simp
    then show ?thesis by (simp add: digit_char_def)
  next
    case False
    then show ?thesis using digits_of_head[of "nat n div 100"] by simp
  qed
  then show ?thesis
    using digits_of_decimal[of "nat n div 100"]
    by (auto simp: decimal_parts_def cut Let_def digit_char_decimal simp del: digits_of.simps)
qed

lemma money_value:
  assumes n: "0 \<le> n"
  shows "decimal_digits_value (digits_of 10 (nat n div 100)) * 100 +
    decimal_digits_value [digit_char (nat n mod 100 div 10), digit_char (nat n mod 100 mod 10)] = n"
proof -
  obtain m where m: "n = int m" using n nonneg_int_cases by blast
  have "int (m div 100) * 100 + int (m mod 100) = int m"
    by (metis div_mult_mod_eq of_nat_add of_nat_mult of_nat_numeral)
  then show ?thesis by (simp add: digits_value two_digits_value m del: digits_of.simps)
qed

lemma parse_money:
  assumes n: "0 \<le> n \<and> n < 10 ^ 20"
  shows "parse_amount (money n) 2 False = Inr n"
  using n money_parts[of n] money_value[of n] by (simp add: parse_amount_def Let_def del: digits_of.simps)

lemma parse_positive_money:
  assumes n: "0 < n \<and> n < 10 ^ 20"
  shows "parse_amount (money n) 2 True = Inr n"
  using n money_parts[of n] money_value[of n] by (simp add: parse_amount_def Let_def del: digits_of.simps)

text \<open>
  What the interface shows as an amount it reads back as the same amount: money and parseAmount are
  inverse on every amount that is supported, and every amount that is accepted is within the bounds of the
  database column.
\<close>

theorem money_roundtrip:
  "(0 \<le> n \<and> n < 10 ^ 20 \<longrightarrow> parse_amount (money n) 2 False = Inr n) \<and>
   (parse_amount v scale positive = Inr u \<longrightarrow> 0 \<le> u \<and> u < 10 ^ 20 \<and> (positive \<longrightarrow> 0 < u))"
  using parse_money parse_amount_bounds by blast

lemma money_roundtrip_witness: "parse_amount (money 1234) 2 False = Inr 1234"
  by (rule money_roundtrip[THEN conjunct1, THEN mp]) simp

end
