(* ===== verification/Cash_Register.thy ===== *)
theory Cash_Register
  imports Rows Money
begin

text \<open>
  backend/internal/orders/cash.go, cash_counts.go and cash_edits.go: the cash register. The state holds the rows
  of the three tables the register reads (cash payments, cash movements, cash counts), the two reference sequences
  and the audit log. Amounts are cents. Every writing operation runs alone, under the register lock, and rolls back
  on an error, so it is a function from a state to an error or a new state. The audit metadata and the columns
  that only repeat the database clock (created_at, updated_at) are left out, and so is the failure of a
  statement on an amount that does not fit the column.
\<close>

section \<open>State\<close>

text \<open>A payment row with method cash; entry_kind and reversal_reason_kind are compared as text by the queries.\<close>

record cash_payment =
  pay_id :: string
  pay_entry_kind :: string
  pay_reversal_reason :: "string option"
  pay_amount :: int
  pay_at :: time

record cash_movement =
  mv_id :: string
  mv_reference :: string
  mv_key :: string
  mv_kind :: string
  mv_amount :: int
  mv_reason :: string
  mv_note :: string
  mv_at :: time
  mv_person :: "string option"
  mv_count :: "string option"
  mv_version :: int

record cash_count =
  cc_id :: string
  cc_reference :: string
  cc_key :: string
  cc_counted :: int
  cc_expected :: int
  cc_difference :: int
  cc_reason :: "string option"
  cc_note :: string
  cc_at :: time
  cc_person :: "string option"
  cc_version :: int

record cash_store =
  payments :: "cash_payment list"
  movements :: "cash_movement list"
  counts :: "cash_count list"
  movement_seq :: int
  count_seq :: int
  ids_used :: nat
  audit_log :: "audit_event list"

text \<open>
  The clock, ids.New, the parser of the decimal package (coefficient and exponent) and the names of people.
\<close>

record cash_env =
  now :: time
  new_id :: "nat \<Rightarrow> string"
  decimal_from :: "string \<Rightarrow> (int \<times> int) option"
  person_name :: "string \<Rightarrow> string option"

abbreviation cash_withdrawal :: string where "cash_withdrawal \<equiv> ''withdrawal''"
abbreviation cash_deposit :: string where "cash_deposit \<equiv> ''deposit''"
abbreviation cash_correction :: string where "cash_correction \<equiv> ''correction''"

abbreviation payments_read :: string where "payments_read \<equiv> ''payments.read''"
abbreviation cash_read :: string where "cash_read \<equiv> ''cash_movements.read''"
abbreviation cash_record :: string where "cash_record \<equiv> ''cash_movements.record''"
abbreviation cash_manage :: string where "cash_manage \<equiv> ''cash_movements.manage''"

section \<open>Figures and running balance\<close>

record cash_figures =
  f_receipts :: int
  f_refunds :: int
  f_payment_corrections :: int
  f_withdrawals :: int
  f_deposits :: int
  f_corrections :: int
  f_surpluses :: int
  f_shortfalls :: int

definition figures_expected :: "cash_figures \<Rightarrow> int" where
  "figures_expected f =
     f_receipts f - f_refunds f - f_payment_corrections f - f_withdrawals f + f_deposits f + f_corrections f"

definition before :: "time option \<Rightarrow> time \<Rightarrow> bool" where
  "before to t = (case to of None \<Rightarrow> True | Some u \<Rightarrow> t < u)"

text \<open>The queries CashPaymentFigures and CashMovementFigures: sums of the rows that match a filter.\<close>

definition cash_figures_until :: "cash_store \<Rightarrow> time option \<Rightarrow> cash_figures" where
  "cash_figures_until s to =
     (let paid = (\<lambda>P. \<Sum>p\<leftarrow>filter (\<lambda>p. before to (pay_at p) \<and> P p) (payments s). pay_amount p);
          moved = (\<lambda>P. \<Sum>m\<leftarrow>filter (\<lambda>m. before to (mv_at m) \<and> P m) (movements s). mv_amount m)
      in \<lparr>f_receipts = paid (\<lambda>p. pay_entry_kind p = ''receipt''),
          f_refunds = paid (\<lambda>p. pay_entry_kind p = ''reversal'' \<and> pay_reversal_reason p = Some ''refund''),
          f_payment_corrections = paid (\<lambda>p. pay_entry_kind p = ''reversal'' \<and> pay_reversal_reason p \<noteq> Some ''refund''),
          f_withdrawals = moved (\<lambda>m. mv_kind m = cash_withdrawal),
          f_deposits = moved (\<lambda>m. mv_kind m = cash_deposit),
          f_corrections = moved (\<lambda>m. mv_kind m = cash_correction),
          f_surpluses = moved (\<lambda>m. mv_kind m = cash_correction \<and> 0 < mv_amount m),
          f_shortfalls = - moved (\<lambda>m. mv_kind m = cash_correction \<and> mv_amount m < 0)\<rparr>)"

text \<open>The view cash_register_entries, and the query LowestCashBalanceFrom on it.\<close>

record register_entry =
  re_id :: string
  re_at :: time
  re_rank :: nat
  re_effect :: int

definition payment_effect :: "cash_payment \<Rightarrow> int" where
  "payment_effect p = (if pay_entry_kind p = ''receipt'' then pay_amount p else - pay_amount p)"

definition movement_effect :: "cash_movement \<Rightarrow> int" where
  "movement_effect m = (if mv_kind m = cash_withdrawal then - mv_amount m else mv_amount m)"

definition register_entries :: "cash_store \<Rightarrow> register_entry list" where
  "register_entries s =
     map (\<lambda>p. \<lparr>re_id = pay_id p, re_at = pay_at p, re_rank = 0, re_effect = payment_effect p\<rparr>) (payments s) @
     map (\<lambda>m. \<lparr>re_id = mv_id m, re_at = mv_at m, re_rank = (if mv_kind m = cash_correction then 2 else 0),
               re_effect = movement_effect m\<rparr>) (movements s) @
     map (\<lambda>c. \<lparr>re_id = cc_id c, re_at = cc_at c, re_rank = 1, re_effect = 0\<rparr>) (counts s)"

definition register_order :: "register_entry list \<Rightarrow> register_entry list" where
  "register_order es = sort_key re_at (sort_key re_rank (sort_key re_id es))"

definition running_balance :: "cash_store \<Rightarrow> (register_entry \<times> int) list" where
  "running_balance s = running re_effect 0 (register_order (register_entries s))"

definition lowest_balance :: "cash_store \<Rightarrow> time \<Rightarrow> int option" where
  "lowest_balance s from_time =
     (let bs = map snd (filter (\<lambda>(e, b). from_time \<le> re_at e) (running_balance s)) in
      if bs = [] then None else Some (Min (set bs)))"

definition check_balance_after :: "cash_store \<Rightarrow> time \<Rightarrow> int option \<Rightarrow> app_error + unit" where
  "check_balance_after s from_time lowest_before =
     (case lowest_balance s from_time of
        None \<Rightarrow> Inr ()
      | Some after \<Rightarrow>
          if after < 0 \<and> (case lowest_before of None \<Rightarrow> True | Some b \<Rightarrow> after < b)
          then Inl (conflicting ''cash_balance_negative''
                      ''After this change the register would hold less than nothing at a later moment'')
          else Inr ())"

section \<open>Views\<close>

record movement_view =
  vw_movement :: cash_movement
  vw_direction :: string
  vw_amount :: string
  vw_count_reference :: "string option"
  vw_recorded_by :: "(string \<times> string) option"

definition recorded_by :: "cash_env \<Rightarrow> string option \<Rightarrow> (string \<times> string) option" where
  "recorded_by env person =
     (case person of None \<Rightarrow> None
      | Some i \<Rightarrow> (case person_name env i of None \<Rightarrow> None | Some n \<Rightarrow> Some (i, n)))"

text \<open>pgx.ErrNoRows as it is, where no caller turns it into an error of the interface.\<close>

definition no_rows :: app_error where
  "no_rows = new_error 500 ''internal_error'' ''no rows in result set''"

text \<open>cashMovement: the query of the reference of a correction's count finds a row, or fails.\<close>

definition present_movement :: "cash_env \<Rightarrow> cash_store \<Rightarrow> cash_movement \<Rightarrow> app_error + movement_view" where
  "present_movement env s m =
     (let v = \<lparr>vw_movement = m,
               vw_direction = (if mv_kind m = cash_withdrawal \<or> mv_amount m < 0 then ''out'' else ''in''),
               vw_amount = money \<bar>mv_amount m\<bar>, vw_count_reference = None,
               vw_recorded_by = recorded_by env (mv_person m)\<rparr>
      in case mv_count m of
           None \<Rightarrow> Inr v
         | Some i \<Rightarrow> (case row_at cc_id i (counts s) of
                        None \<Rightarrow> Inl no_rows
                      | Some c \<Rightarrow> Inr (v\<lparr>vw_count_reference := Some (cc_reference c)\<rparr>)))"

record count_view =
  vc_count :: cash_count
  vc_counted :: string
  vc_expected :: string
  vc_difference :: string
  vc_recorded_by :: "(string \<times> string) option"
  vc_correction :: "(string \<times> string) option"

definition count_correction :: "cash_store \<Rightarrow> string \<Rightarrow> cash_movement option" where
  "count_correction s i = find (\<lambda>m. mv_count m = Some i) (movements s)"

definition load_cash_count :: "cash_env \<Rightarrow> cash_store \<Rightarrow> string \<Rightarrow> app_error + count_view" where
  "load_cash_count env s i =
     (case row_at cc_id i (counts s) of
        None \<Rightarrow> Inl not_found
      | Some c \<Rightarrow> Inr
          \<lparr>vc_count = c, vc_counted = money (cc_counted c), vc_expected = money (cc_expected c),
           vc_difference = money (cc_difference c),
           vc_recorded_by = (case cc_person c of None \<Rightarrow> None
                             | Some q \<Rightarrow> Some (q, case person_name env q of None \<Rightarrow> [] | Some n \<Rightarrow> n)),
           vc_correction = map_option (\<lambda>m. (mv_id m, mv_reference m)) (count_correction s i)\<rparr>)"

text \<open>LatestCashCountID: counted_at descending, then id descending.\<close>

definition latest_cash_count :: "cash_env \<Rightarrow> cash_store \<Rightarrow> time option \<Rightarrow> app_error + count_view option" where
  "latest_cash_count env s to =
     (case rev (sort_key cc_at (sort_key cc_id (filter (\<lambda>c. before to (cc_at c)) (counts s)))) of
        [] \<Rightarrow> Inr None
      | c # _ \<Rightarrow> and_then (load_cash_count env s (cc_id c)) (\<lambda>v. Inr (Some v)))"

record register_view =
  rv_receipts :: string
  rv_refunds :: string
  rv_payment_corrections :: string
  rv_corrections :: string
  rv_surpluses :: string
  rv_shortfalls :: string
  rv_refunds_and_corrections :: string
  rv_withdrawals :: string
  rv_deposits :: string
  rv_expected :: string
  rv_to :: "time option"
  rv_last_count :: "count_view option"

definition present_register :: "cash_figures \<Rightarrow> register_view" where
  "present_register f =
     (let taken_out = - f_corrections f in
      \<lparr>rv_receipts = money (f_receipts f), rv_refunds = money (f_refunds f),
       rv_payment_corrections = money (f_payment_corrections f), rv_corrections = money taken_out,
       rv_surpluses = money (f_surpluses f), rv_shortfalls = money (f_shortfalls f),
       rv_refunds_and_corrections = money (f_refunds f + f_payment_corrections f + taken_out),
       rv_withdrawals = money (f_withdrawals f), rv_deposits = money (f_deposits f),
       rv_expected = money (figures_expected f), rv_to = None, rv_last_count = None\<rparr>)"

definition cash_register :: "cash_env \<Rightarrow> actor \<Rightarrow> time option \<Rightarrow> cash_store \<Rightarrow> app_error + register_view" where
  "cash_register env p to s =
     and_then (require p [payments_read, cash_read]) (\<lambda>_.
     and_then (latest_cash_count env s to) (\<lambda>last.
       Inr ((present_register (cash_figures_until s to))\<lparr>rv_to := to, rv_last_count := last\<rparr>)))"

section \<open>Recording withdrawals and deposits\<close>

record movement_input =
  mi_key :: string
  mi_kind :: string
  mi_amount :: string
  mi_reason :: string
  mi_note :: string
  mi_at :: time

definition valid_editable_reason :: "string \<Rightarrow> bool" where
  "valid_editable_reason r \<longleftrightarrow> r \<in> {''bank_deposit'', ''safe'', ''float'', ''other''}"

definition person_of :: "actor \<Rightarrow> string option" where
  "person_of p = (if act_person p = [] then None else Some (act_person p))"

definition expected_now :: "cash_store \<Rightarrow> int" where
  "expected_now s = figures_expected (cash_figures_until s None)"

text \<open>Everything up to and including an instant: the exclusive bound is one microsecond later.\<close>

definition expected_through :: "cash_store \<Rightarrow> time \<Rightarrow> int" where
  "expected_through s t = figures_expected (cash_figures_until s (Some (t + microsecond)))"

definition insert_movement :: "cash_env \<Rightarrow> string \<Rightarrow> cash_movement \<Rightarrow> cash_store \<Rightarrow> cash_store \<times> cash_movement" where
  "insert_movement env key m s =
     (let m' = m\<lparr>mv_id := new_id env (ids_used s), mv_reference := reference ''C'' (now env) (movement_seq s + 1),
                 mv_key := key, mv_version := 1\<rparr>
      in (s\<lparr>movements := movements s @ [m'], movement_seq := movement_seq s + 1, ids_used := Suc (ids_used s)\<rparr>, m'))"

definition write_audit :: "actor \<Rightarrow> string \<Rightarrow> string \<Rightarrow> string \<Rightarrow> string list \<Rightarrow> cash_store \<Rightarrow> cash_store" where
  "write_audit p action resource i fs s = s\<lparr>audit_log := audit_log s @ [audit_entry p action resource i fs]\<rparr>"

definition same_movement :: "actor \<Rightarrow> movement_input \<Rightarrow> int \<Rightarrow> string \<Rightarrow> time \<Rightarrow> cash_movement \<Rightarrow> bool" where
  "same_movement p input amount note occurred m \<longleftrightarrow>
     mv_kind m = mi_kind input \<and> mv_amount m = amount \<and> mv_reason m = mi_reason input \<and> mv_note m = note \<and>
     mv_at m = occurred \<and> mv_person m = person_of p"

text \<open>The transaction of CreateCashMovement, for input that passed its checks.\<close>

definition book_movement :: "cash_env \<Rightarrow> actor \<Rightarrow> movement_input \<Rightarrow> int \<Rightarrow> string \<Rightarrow> time \<Rightarrow> cash_store \<Rightarrow>
    app_error + cash_store \<times> movement_view" where
  "book_movement env p input amount note occurred s =
     (case row_at mv_key (mi_key input) (movements s) of
        Some m \<Rightarrow>
          ensure (same_movement p input amount note occurred m)
            (conflicting ''idempotency_conflict'' ''Operation key was used for different input'')
            (\<lambda>_. and_then (present_movement env s m) (\<lambda>v. Inr (s, v)))
      | None \<Rightarrow>
          ensure (mi_kind input \<noteq> cash_withdrawal \<or>
                  amount \<le> expected_through s occurred \<and> amount \<le> expected_now s)
            (conflicting ''insufficient_cash'' ''The register does not hold enough cash for this withdrawal'')
            (\<lambda>_.
              let (s1, m) = insert_movement env (mi_key input)
                    \<lparr>mv_id = [], mv_reference = [], mv_key = [], mv_kind = mi_kind input, mv_amount = amount,
                     mv_reason = mi_reason input, mv_note = note, mv_at = occurred, mv_person = person_of p,
                     mv_count = None, mv_version = 1\<rparr> s;
                  s2 = write_audit p ''cash_movement.recorded'' ''cash_movement'' (mv_id m)
                         [''kind'', ''amount'', ''reason''] s1
              in and_then (present_movement env s2 m) (\<lambda>v. Inr (s2, v))))"

definition create_cash_movement :: "cash_env \<Rightarrow> actor \<Rightarrow> movement_input \<Rightarrow> cash_store \<Rightarrow>
    app_error + cash_store \<times> movement_view" where
  "create_cash_movement env p input s =
     and_then (require p [cash_read, cash_record]) (\<lambda>_.
     ensure (mi_key input \<noteq> []) (invalid ''operationKey is required'') (\<lambda>_.
     ensure (mi_kind input = cash_withdrawal \<or> mi_kind input = cash_deposit)
       (invalid ''Unsupported cash movement kind'') (\<lambda>_.
     ensure (valid_editable_reason (mi_reason input)) (invalid ''Unsupported cash movement reason'') (\<lambda>_.
     and_then (parse_amount (mi_amount input) 2 True) (\<lambda>amount.
     let note = trim_space (mi_note input) in
     ensure (length note \<le> 500) (invalid ''The note can have up to 500 characters'') (\<lambda>_.
     ensure (mi_reason input \<noteq> ''other'' \<or> note \<noteq> []) (invalid ''Say what the money was for in the note'') (\<lambda>_.
     ensure (mi_at input \<noteq> zero_time) (invalid ''The time of the movement is required'') (\<lambda>_.
     ensure (mi_at input \<le> now env + minute) (invalid ''A cash movement cannot be in the future'') (\<lambda>_.
       book_movement env p input amount note (truncate_micro (mi_at input)) s)))))))))"

section \<open>Recording counts\<close>

record count_input =
  ci_key :: string
  ci_amount :: string
  ci_at :: time
  ci_reason :: "string option"
  ci_note :: string
  ci_expected :: "string option"

record checked_count =
  kc_counted :: int
  kc_at :: time
  kc_reason :: "string option"
  kc_note :: string
  kc_expected :: "int option"

definition valid_count_reason :: "string \<Rightarrow> bool" where
  "valid_count_reason r \<longleftrightarrow>
     r \<in> {''counting_error'', ''change_given_wrong'', ''receipt_not_recorded'', ''unknown'', ''other''}"

text \<open>decimal.NewFromString of an amount with at most two places, in cents.\<close>

definition parse_shown_amount :: "cash_env \<Rightarrow> string option \<Rightarrow> app_error + int option" where
  "parse_shown_amount env v =
     (case v of None \<Rightarrow> Inr None
      | Some text \<Rightarrow>
          (case decimal_from env text of
             None \<Rightarrow> Inl (invalid ''expectedAmount must be a decimal with up to two places'')
           | Some (coefficient, e) \<Rightarrow>
               ensure (- 2 \<le> e) (invalid ''expectedAmount must be a decimal with up to two places'')
                 (\<lambda>_. Inr (Some (coefficient * 10 ^ nat (e + 2))))))"

definition validate_cash_count :: "cash_env \<Rightarrow> count_input \<Rightarrow> app_error + checked_count" where
  "validate_cash_count env input =
     ensure (ci_key input \<noteq> []) (invalid ''operationKey is required'') (\<lambda>_.
     and_then (parse_amount (ci_amount input) 2 False) (\<lambda>counted.
     ensure (ci_at input \<noteq> zero_time) (invalid ''The time of the count is required'') (\<lambda>_.
     ensure (ci_at input \<le> now env + minute) (invalid ''A count cannot be in the future'') (\<lambda>_.
     ensure (case ci_reason input of None \<Rightarrow> True | Some r \<Rightarrow> valid_count_reason r)
       (invalid ''Unsupported reason for a count difference'') (\<lambda>_.
     let note = trim_space (ci_note input) in
     ensure (length note \<le> 500) (invalid ''The note can have up to 500 characters'') (\<lambda>_.
     and_then (parse_shown_amount env (ci_expected input)) (\<lambda>expected.
       Inr \<lparr>kc_counted = counted, kc_at = truncate_micro (ci_at input), kc_reason = ci_reason input,
            kc_note = note, kc_expected = expected\<rparr>)))))))"

definition same_cash_count :: "actor \<Rightarrow> checked_count \<Rightarrow> cash_count \<Rightarrow> bool" where
  "same_cash_count p v c \<longleftrightarrow>
     cc_counted c = kc_counted v \<and> cc_at c = kc_at v \<and>
     (case cc_reason c of None \<Rightarrow> kc_reason v = None \<or> cc_difference c = 0 | Some r \<Rightarrow> kc_reason v = Some r) \<and>
     cc_note c = kc_note v \<and> cc_person c = person_of p"

text \<open>LatestCashCountTime, PreviousCashCountTime and NextCashCountTime.\<close>

definition newest_of :: "time list \<Rightarrow> time option" where
  "newest_of ts = (if ts = [] then None else Some (Max (set ts)))"

definition oldest_of :: "time list \<Rightarrow> time option" where
  "oldest_of ts = (if ts = [] then None else Some (Min (set ts)))"

definition latest_count_time :: "cash_store \<Rightarrow> time option" where
  "latest_count_time s = newest_of (map cc_at (counts s))"

text \<open>bookCountCorrection: the signed correction of a count, at the counting time, under a key of its own.\<close>

definition book_count_correction :: "cash_env \<Rightarrow> actor \<Rightarrow> cash_count \<Rightarrow> cash_store \<Rightarrow> cash_store" where
  "book_count_correction env p c s =
     (let (s1, m) = insert_movement env (new_id env (Suc (ids_used s)))
            \<lparr>mv_id = [], mv_reference = [], mv_key = [], mv_kind = cash_correction, mv_amount = cc_difference c,
             mv_reason = ''count_difference'', mv_note = [], mv_at = cc_at c, mv_person = person_of p,
             mv_count = Some (cc_id c), mv_version = 1\<rparr> s
      in write_audit p ''cash_movement.recorded'' ''cash_movement'' (mv_id m) [''kind'', ''amount'', ''reason'']
           (s1\<lparr>ids_used := Suc (ids_used s1)\<rparr>))"

text \<open>What a count with this difference must say.\<close>

definition count_reason :: "int \<Rightarrow> string option \<Rightarrow> string \<Rightarrow> app_error + string option" where
  "count_reason difference reason note =
     and_then
       (if difference = 0 then Inr None
        else ensure (reason \<noteq> None)
               (new_error 422 ''cash_count_reason_required'' ''Say why the count differs from the expected amount'')
               (\<lambda>_. Inr reason))
       (\<lambda>r. ensure (r \<notin> {Some ''unknown'', Some ''other''} \<or> note \<noteq> [])
              (invalid ''Say what you found in the note'') (\<lambda>_. Inr r))"

definition insert_count :: "cash_env \<Rightarrow> string \<Rightarrow> checked_count \<Rightarrow> int \<Rightarrow> string option \<Rightarrow> string option \<Rightarrow> cash_store \<Rightarrow>
    cash_store \<times> cash_count" where
  "insert_count env key v expected reason person s =
     (let c = \<lparr>cc_id = new_id env (ids_used s),
               cc_reference = ''K-'' @ zero_padded 4 (year_of (now env)) @ ''-'' @ zero_padded 4 (count_seq s + 1),
               cc_key = key, cc_counted = kc_counted v, cc_expected = expected,
               cc_difference = kc_counted v - expected, cc_reason = reason, cc_note = kc_note v, cc_at = kc_at v,
               cc_person = person, cc_version = 1\<rparr>
      in (s\<lparr>counts := counts s @ [c], count_seq := count_seq s + 1, ids_used := Suc (ids_used s)\<rparr>, c))"

text \<open>The transaction of RecordCashCount, for input that passed its checks.\<close>

definition book_count :: "cash_env \<Rightarrow> actor \<Rightarrow> string \<Rightarrow> checked_count \<Rightarrow> cash_store \<Rightarrow>
    app_error + cash_store \<times> count_view" where
  "book_count env p key v s =
     (case row_at cc_key key (counts s) of
        Some c \<Rightarrow>
          ensure (same_cash_count p v c)
            (conflicting ''idempotency_conflict'' ''Operation key was used for different input'')
            (\<lambda>_. and_then (load_cash_count env s (cc_id c)) (\<lambda>w. Inr (s, w)))
      | None \<Rightarrow>
          ensure (case latest_count_time s of None \<Rightarrow> True | Some t \<Rightarrow> t < kc_at v)
            (conflicting ''cash_count_out_of_order'' ''The register was already counted at or after this time'') (\<lambda>_.
          let expected = expected_through s (kc_at v); difference = kc_counted v - expected in
          ensure (case kc_expected v of None \<Rightarrow> True | Some e \<Rightarrow> e = expected)
            (conflicting ''cash_expected_changed''
               ''The expected amount changed since it was shown; check it and count again'') (\<lambda>_.
          and_then (count_reason difference (kc_reason v) (kc_note v)) (\<lambda>reason.
          ensure (0 \<le> difference \<or> 0 \<le> expected_now s + difference)
            (conflicting ''cash_count_inconsistent''
               ''Later withdrawals took more cash than this count found; count again at a later time'') (\<lambda>_.
          let (s1, c) = insert_count env key v expected reason (person_of p) s;
              s2 = write_audit p ''cash_count.recorded'' ''cash_count'' (cc_id c)
                     [''countedAmount'', ''expectedAmount'', ''difference'', ''reason''] s1;
              s3 = (if difference = 0 then s2 else book_count_correction env p c s2)
          in and_then (load_cash_count env s3 (cc_id c)) (\<lambda>w. Inr (s3, w)))))))"

definition record_cash_count :: "cash_env \<Rightarrow> actor \<Rightarrow> count_input \<Rightarrow> cash_store \<Rightarrow>
    app_error + cash_store \<times> count_view" where
  "record_cash_count env p input s =
     and_then (require p [payments_read, cash_read, cash_record]) (\<lambda>_.
     and_then (validate_cash_count env input) (\<lambda>v. book_count env p (ci_key input) v s))"

section \<open>Recalculating counts\<close>

text \<open>expectedAtCount: what the register should hold at an instant, without the correction given.\<close>

definition expected_at_count :: "cash_store \<Rightarrow> time \<Rightarrow> cash_movement option \<Rightarrow> int" where
  "expected_at_count s at correction =
     expected_through s at -
     (case correction of None \<Rightarrow> 0 | Some m \<Rightarrow> if mv_at m < at + microsecond then mv_amount m else 0)"

definition update_movement :: "cash_movement \<Rightarrow> cash_store \<Rightarrow> cash_store \<times> cash_movement" where
  "update_movement m s =
     (let m' = m\<lparr>mv_version := mv_version m + 1\<rparr> in (s\<lparr>movements := row_put mv_id m' (movements s)\<rparr>, m'))"

definition delete_movement :: "string \<Rightarrow> cash_store \<Rightarrow> cash_store" where
  "delete_movement i s = s\<lparr>movements := row_drop mv_id i (movements s)\<rparr>"

definition update_count :: "cash_count \<Rightarrow> cash_store \<Rightarrow> cash_store \<times> cash_count" where
  "update_count c s =
     (let c' = c\<lparr>cc_version := cc_version c + 1\<rparr> in (s\<lparr>counts := row_put cc_id c' (counts s)\<rparr>, c'))"

definition delete_count :: "string \<Rightarrow> cash_store \<Rightarrow> cash_store" where
  "delete_count i s = s\<lparr>counts := row_drop cc_id i (counts s)\<rparr>"

definition sync_count_correction :: "cash_env \<Rightarrow> actor \<Rightarrow> cash_count \<Rightarrow> cash_movement option \<Rightarrow> cash_store \<Rightarrow> cash_store" where
  "sync_count_correction env p c correction s =
     (case correction of
        None \<Rightarrow> if cc_difference c = 0 then s else book_count_correction env p c s
      | Some m \<Rightarrow>
          if cc_difference c = 0
          then write_audit p ''cash_movement.deleted'' ''cash_movement'' (mv_id m) [] (delete_movement (mv_id m) s)
          else
            let fs = (if mv_amount m \<noteq> cc_difference c then [''amount''] else []) @
                     (if mv_at m \<noteq> cc_at c then [''occurredAt''] else [])
            in if fs = [] then s
               else write_audit p ''cash_movement.updated'' ''cash_movement'' (mv_id m) fs
                      (fst (update_movement (m\<lparr>mv_amount := cc_difference c, mv_at := cc_at c\<rparr>) s)))"

text \<open>One round of the loop of reconcileCounts that changes the count.\<close>

definition recalculate_count :: "cash_env \<Rightarrow> actor \<Rightarrow> cash_count \<Rightarrow> cash_movement option \<Rightarrow> int \<Rightarrow> cash_store \<Rightarrow> cash_store" where
  "recalculate_count env p c correction expected s =
     (let difference = cc_counted c - expected;
          drop_reason = (difference = 0 \<and> cc_reason c \<noteq> None);
          (s1, c') = update_count (c\<lparr>cc_expected := expected, cc_difference := difference,
                                     cc_reason := (if drop_reason then None else cc_reason c)\<rparr>) s;
          s2 = write_audit p ''cash_count.recalculated'' ''cash_count'' (cc_id c)
                 ([''expectedAmount'', ''difference''] @ (if drop_reason then [''reason''] else [])) s1
      in sync_count_correction env p c' correction s2)"

fun reconcile_loop :: "cash_env \<Rightarrow> actor \<Rightarrow> time \<Rightarrow> string \<Rightarrow> cash_count list \<Rightarrow> cash_store \<Rightarrow> cash_store" where
  "reconcile_loop env p until skip [] s = s"
| "reconcile_loop env p until skip (c # cs) s =
     (if cc_id c = skip then reconcile_loop env p until skip cs s
      else
        let correction = count_correction s (cc_id c);
            expected = expected_at_count s (cc_at c) correction
        in if expected = cc_expected c
           then (if until < cc_at c then s else reconcile_loop env p until skip cs s)
           else reconcile_loop env p until skip cs (recalculate_count env p c correction expected s))"

definition counts_from :: "cash_store \<Rightarrow> time \<Rightarrow> cash_count list" where
  "counts_from s from_time = sort_key cc_at (sort_key cc_id (filter (\<lambda>c. from_time \<le> cc_at c) (counts s)))"

definition reconcile_counts :: "cash_env \<Rightarrow> actor \<Rightarrow> time \<Rightarrow> time \<Rightarrow> string \<Rightarrow> cash_store \<Rightarrow> cash_store" where
  "reconcile_counts env p from_time until skip s = reconcile_loop env p until skip (counts_from s from_time) s"

section \<open>Editing and deleting withdrawals and deposits\<close>

definition correction_belongs_to_count :: app_error where
  "correction_belongs_to_count = conflicting ''cash_movement_is_correction''
     ''A count correction changes only with its count; edit or delete the count''"

definition cash_entry_time :: "cash_env \<Rightarrow> time \<Rightarrow> string \<Rightarrow> app_error + time" where
  "cash_entry_time env at what =
     ensure (at \<noteq> zero_time) (invalid (''The time of the '' @ what @ '' is required'')) (\<lambda>_.
     ensure (at \<le> now env + minute) (invalid (''A '' @ what @ '' cannot be in the future'')) (\<lambda>_.
       Inr (truncate_micro at)))"

text \<open>An optional field of a change: nil stays nil, a value is checked.\<close>

definition checked_option :: "('a \<Rightarrow> app_error + 'b) \<Rightarrow> 'a option \<Rightarrow> app_error + 'b option" where
  "checked_option f v = (case v of None \<Rightarrow> Inr None | Some x \<Rightarrow> and_then (f x) (\<lambda>y. Inr (Some y)))"

record movement_change =
  mc_version :: int
  mc_amount :: "string option"
  mc_at :: "time option"
  mc_reason :: "string option"
  mc_note :: "string option"

text \<open>The row with the changed fields, and their names.\<close>

definition apply_movement_change :: "int option \<Rightarrow> time option \<Rightarrow> string option \<Rightarrow> string option \<Rightarrow> cash_movement \<Rightarrow>
    cash_movement \<times> string list" where
  "apply_movement_change amount occurred reason note m =
     (case_option m (\<lambda>n. m\<lparr>mv_note := n\<rparr>) note\<lparr>
        mv_amount := case_option (mv_amount m) id amount,
        mv_at := case_option (mv_at m) id occurred,
        mv_reason := case_option (mv_reason m) id reason\<rparr>,
      (if amount \<notin> {None, Some (mv_amount m)} then [''amount''] else []) @
      (if occurred \<notin> {None, Some (mv_at m)} then [''occurredAt''] else []) @
      (if reason \<notin> {None, Some (mv_reason m)} then [''reason''] else []) @
      (if note \<notin> {None, Some (mv_note m)} then [''note''] else []))"

text \<open>The transaction of UpdateCashMovement from the changed row on.\<close>

definition rebook_movement :: "cash_env \<Rightarrow> actor \<Rightarrow> cash_movement \<Rightarrow> cash_movement \<Rightarrow> string list \<Rightarrow> cash_store \<Rightarrow>
    app_error + cash_store \<times> movement_view" where
  "rebook_movement env p m next_row fs s =
     (let from_time = min (mv_at m) (mv_at next_row); until = max (mv_at m) (mv_at next_row);
          lowest = lowest_balance s from_time;
          (s1, updated) = update_movement next_row s;
          s2 = reconcile_counts env p from_time until [] s1
      in and_then (check_balance_after s2 from_time lowest) (\<lambda>_.
         let s3 = write_audit p ''cash_movement.updated'' ''cash_movement'' (mv_id m) fs s2
         in and_then (present_movement env s3 updated) (\<lambda>v. Inr (s3, v))))"

definition update_cash_movement :: "cash_env \<Rightarrow> actor \<Rightarrow> string \<Rightarrow> movement_change \<Rightarrow> cash_store \<Rightarrow>
    app_error + cash_store \<times> movement_view" where
  "update_cash_movement env p i change s =
     and_then (require p [cash_read, cash_manage]) (\<lambda>_.
     ensure (1 \<le> mc_version change) (invalid ''expectedVersion is required'') (\<lambda>_.
     and_then (checked_option (\<lambda>v. parse_amount v 2 True) (mc_amount change)) (\<lambda>amount.
     ensure (case mc_reason change of None \<Rightarrow> True | Some r \<Rightarrow> valid_editable_reason r)
       (invalid ''Unsupported cash movement reason'') (\<lambda>_.
     and_then (checked_option (\<lambda>t. cash_entry_time env t ''movement'') (mc_at change)) (\<lambda>occurred.
     case row_at mv_id i (movements s) of
       None \<Rightarrow> Inl not_found
     | Some m \<Rightarrow>
         ensure (mv_kind m \<noteq> cash_correction) correction_belongs_to_count (\<lambda>_.
         ensure (mv_version m = mc_version change) stale_write (\<lambda>_.
         let note = map_option trim_space (mc_note change) in
         ensure (case note of None \<Rightarrow> True | Some n \<Rightarrow> length n \<le> 500)
           (invalid ''The note can have up to 500 characters'') (\<lambda>_.
         let (next_row, fs) = apply_movement_change amount occurred (mc_reason change) note m in
         ensure (mv_reason next_row \<noteq> ''other'' \<or> mv_note next_row \<noteq> [])
           (invalid ''Say what the money was for in the note'') (\<lambda>_.
         if fs = [] then and_then (present_movement env s m) (\<lambda>v. Inr (s, v))
         else rebook_movement env p m next_row fs s)))))))))"

definition delete_cash_movement :: "cash_env \<Rightarrow> actor \<Rightarrow> string \<Rightarrow> int \<Rightarrow> cash_store \<Rightarrow> app_error + cash_store" where
  "delete_cash_movement env p i expected_version s =
     and_then (require p [cash_read, cash_manage]) (\<lambda>_.
     ensure (1 \<le> expected_version) (invalid ''expectedVersion is required'') (\<lambda>_.
     case row_at mv_id i (movements s) of
       None \<Rightarrow> Inl not_found
     | Some m \<Rightarrow>
         ensure (mv_kind m \<noteq> cash_correction) correction_belongs_to_count (\<lambda>_.
         ensure (mv_version m = expected_version) stale_write (\<lambda>_.
         let s1 = reconcile_counts env p (mv_at m) (mv_at m) [] (delete_movement (mv_id m) s) in
         and_then (check_balance_after s1 (mv_at m) (lowest_balance s (mv_at m))) (\<lambda>_.
           Inr (write_audit p ''cash_movement.deleted'' ''cash_movement'' (mv_id m) [] s1))))))"

section \<open>Editing and deleting counts\<close>

definition check_count_order :: "cash_store \<Rightarrow> time \<Rightarrow> time \<Rightarrow> app_error + unit" where
  "check_count_order s current at =
     (let out_of_order = conflicting ''cash_count_out_of_order''
            ''Counts stay in order: the new time must lie between the previous and the next count''
      in ensure (case newest_of (filter (\<lambda>t. t < current) (map cc_at (counts s))) of None \<Rightarrow> True | Some t \<Rightarrow> t < at)
           out_of_order (\<lambda>_.
         ensure (case oldest_of (filter (\<lambda>t. current < t) (map cc_at (counts s))) of None \<Rightarrow> True | Some t \<Rightarrow> at < t)
           out_of_order (\<lambda>_. Inr ())))"

record count_change =
  ch_version :: int
  ch_amount :: "string option"
  ch_at :: "time option"
  ch_reason :: "string option"
  ch_note :: "string option"
  ch_expected :: "string option"

record checked_change =
  kh_counted :: "int option"
  kh_at :: "time option"
  kh_reason :: "string option"
  kh_note :: "string option"
  kh_expected :: "int option"

definition validate_count_change :: "cash_env \<Rightarrow> count_change \<Rightarrow> app_error + checked_change" where
  "validate_count_change env change =
     ensure (1 \<le> ch_version change) (invalid ''expectedVersion is required'') (\<lambda>_.
     and_then (checked_option (\<lambda>v. parse_amount v 2 False) (ch_amount change)) (\<lambda>counted.
     and_then (checked_option (\<lambda>t. cash_entry_time env t ''count'') (ch_at change)) (\<lambda>at.
     ensure (case ch_reason change of None \<Rightarrow> True | Some r \<Rightarrow> valid_count_reason r)
       (invalid ''Unsupported reason for a count difference'') (\<lambda>_.
     let note = map_option trim_space (ch_note change) in
     ensure (case note of None \<Rightarrow> True | Some n \<Rightarrow> length n \<le> 500)
       (invalid ''The note can have up to 500 characters'') (\<lambda>_.
     and_then (parse_shown_amount env (ch_expected change)) (\<lambda>expected.
       Inr \<lparr>kh_counted = counted, kh_at = at, kh_reason = ch_reason change, kh_note = note,
            kh_expected = expected\<rparr>))))))"

text \<open>The names of the fields in which the new row differs.\<close>

definition count_fields :: "cash_count \<Rightarrow> cash_count \<Rightarrow> string list" where
  "count_fields c c' =
     (if cc_counted c' \<noteq> cc_counted c then [''countedAmount''] else []) @
     (if cc_at c' \<noteq> cc_at c then [''countedAt''] else []) @
     (if cc_note c' \<noteq> cc_note c then [''note''] else []) @
     (if cc_reason c' \<noteq> cc_reason c then [''reason''] else []) @
     (if cc_expected c' \<noteq> cc_expected c then [''expectedAmount''] else []) @
     (if cc_difference c' \<noteq> cc_difference c then [''difference''] else [])"

text \<open>The transaction of UpdateCashCount from the changed row on.\<close>

definition rebook_count :: "cash_env \<Rightarrow> actor \<Rightarrow> cash_count \<Rightarrow> cash_count \<Rightarrow> cash_movement option \<Rightarrow> cash_store \<Rightarrow>
    app_error + cash_store \<times> count_view" where
  "rebook_count env p c next_row correction s =
     (let from_time = min (cc_at c) (cc_at next_row); until = max (cc_at c) (cc_at next_row);
          lowest = lowest_balance s from_time;
          (s1, updated) = update_count next_row s;
          s2 = write_audit p ''cash_count.updated'' ''cash_count'' (cc_id c) (count_fields c next_row) s1;
          s3 = sync_count_correction env p updated correction s2;
          s4 = reconcile_counts env p from_time until (cc_id c) s3
      in and_then (check_balance_after s4 from_time lowest) (\<lambda>_.
         and_then (load_cash_count env s4 (cc_id c)) (\<lambda>v. Inr (s4, v))))"

text \<open>UpdateCashCount after its checks: the new row.\<close>

definition change_count :: "cash_env \<Rightarrow> actor \<Rightarrow> cash_count \<Rightarrow> checked_change \<Rightarrow> cash_store \<Rightarrow>
    app_error + cash_store \<times> count_view" where
  "change_count env p c v s =
     (let counted = case_option (cc_counted c) id (kh_counted v); at = case_option (cc_at c) id (kh_at v);
          note = case_option (cc_note c) id (kh_note v);
          reason = (case kh_reason v of None \<Rightarrow> cc_reason c | Some r \<Rightarrow> Some r) in
      and_then (if at \<noteq> cc_at c then check_count_order s (cc_at c) at else Inr ()) (\<lambda>_.
      let correction = count_correction s (cc_id c);
          expected = expected_at_count s at correction;
          difference = counted - expected in
      ensure (case kh_expected v of None \<Rightarrow> True | Some e \<Rightarrow> e = expected)
        (conflicting ''cash_expected_changed''
           ''The expected amount changed since it was shown; check it and save again'') (\<lambda>_.
      and_then (count_reason difference reason note) (\<lambda>reason.
      let next_row = c\<lparr>cc_counted := counted, cc_expected := expected, cc_difference := difference,
                       cc_reason := reason, cc_note := note, cc_at := at\<rparr> in
      if count_fields c next_row = [] then and_then (load_cash_count env s (cc_id c)) (\<lambda>w. Inr (s, w))
      else rebook_count env p c next_row correction s))))"

definition update_cash_count :: "cash_env \<Rightarrow> actor \<Rightarrow> string \<Rightarrow> count_change \<Rightarrow> cash_store \<Rightarrow>
    app_error + cash_store \<times> count_view" where
  "update_cash_count env p i change s =
     and_then (require p [payments_read, cash_read, cash_manage]) (\<lambda>_.
     and_then (validate_count_change env change) (\<lambda>v.
     case row_at cc_id i (counts s) of
       None \<Rightarrow> Inl not_found
     | Some c \<Rightarrow> ensure (cc_version c = ch_version change) stale_write (\<lambda>_. change_count env p c v s)))"

text \<open>The rows of a count without it and its correction: foreign keys allow the count only then.\<close>

definition remove_count :: "actor \<Rightarrow> cash_count \<Rightarrow> cash_store \<Rightarrow> cash_store" where
  "remove_count p c s =
     (let s1 = (case count_correction s (cc_id c) of
                  None \<Rightarrow> s
                | Some m \<Rightarrow> write_audit p ''cash_movement.deleted'' ''cash_movement'' (mv_id m) []
                              (delete_movement (mv_id m) s))
      in write_audit p ''cash_count.deleted'' ''cash_count'' (cc_id c) [] (delete_count (cc_id c) s1))"

definition delete_cash_count :: "cash_env \<Rightarrow> actor \<Rightarrow> string \<Rightarrow> int \<Rightarrow> cash_store \<Rightarrow> app_error + cash_store" where
  "delete_cash_count env p i expected_version s =
     and_then (require p [payments_read, cash_read, cash_manage]) (\<lambda>_.
     ensure (1 \<le> expected_version) (invalid ''expectedVersion is required'') (\<lambda>_.
     case row_at cc_id i (counts s) of
       None \<Rightarrow> Inl not_found
     | Some c \<Rightarrow>
         ensure (cc_version c = expected_version) stale_write (\<lambda>_.
         let s1 = reconcile_counts env p (cc_at c) (cc_at c) (cc_id c) (remove_count p c s) in
         and_then (check_balance_after s1 (cc_at c) (lowest_balance s (cc_at c))) (\<lambda>_. Inr s1))))"

section \<open>Listing\<close>

text \<open>pageBounds: the limit and the offset.\<close>

definition page_bounds :: "int \<Rightarrow> int \<Rightarrow> app_error + nat \<times> nat" where
  "page_bounds page per_page =
     ensure (1 \<le> page \<and> 1 \<le> per_page \<and> per_page \<le> 100 \<and> page \<le> 21474836) (invalid ''Invalid pagination'')
       (\<lambda>_. Inr (nat per_page, nat ((page - 1) * per_page)))"

text \<open>A page of the rows within the bounds, newest first, with the number of all of them.\<close>

definition within :: "time option \<Rightarrow> time option \<Rightarrow> time \<Rightarrow> bool" where
  "within from_time to t = ((case from_time of None \<Rightarrow> True | Some u \<Rightarrow> u \<le> t) \<and> before to t)"

definition page_rows :: "nat \<times> nat \<Rightarrow> 'r list \<Rightarrow> 'r list" where
  "page_rows bounds rs = take (fst bounds) (drop (snd bounds) rs)"

fun present_all :: "('r \<Rightarrow> app_error + 'v) \<Rightarrow> 'r list \<Rightarrow> app_error + 'v list" where
  "present_all f [] = Inr []"
| "present_all f (r # rs) = and_then (f r) (\<lambda>v. and_then (present_all f rs) (\<lambda>vs. Inr (v # vs)))"

definition list_cash_movements :: "cash_env \<Rightarrow> actor \<Rightarrow> string \<Rightarrow> time option \<Rightarrow> time option \<Rightarrow> int \<Rightarrow> int \<Rightarrow> cash_store \<Rightarrow>
    app_error + movement_view list \<times> nat" where
  "list_cash_movements env p kind from_time to page per_page s =
     and_then (require p [cash_read]) (\<lambda>_.
     ensure (kind \<in> {[], cash_withdrawal, cash_deposit, cash_correction}) (invalid ''Unsupported cash movement kind'') (\<lambda>_.
     and_then (page_bounds page per_page) (\<lambda>bounds.
     let rows = filter (\<lambda>m. (kind = [] \<or> mv_kind m = kind) \<and> within from_time to (mv_at m)) (movements s);
         sorted = rev (sort_key mv_at (sort_key mv_id rows)) in
     and_then (present_all (present_movement env s) (page_rows bounds sorted)) (\<lambda>items. Inr (items, length rows)))))"

definition list_cash_counts :: "cash_env \<Rightarrow> actor \<Rightarrow> time option \<Rightarrow> time option \<Rightarrow> int \<Rightarrow> int \<Rightarrow> cash_store \<Rightarrow>
    app_error + count_view list \<times> nat" where
  "list_cash_counts env p from_time to page per_page s =
     and_then (require p [payments_read, cash_read]) (\<lambda>_.
     and_then (page_bounds page per_page) (\<lambda>bounds.
     let rows = filter (\<lambda>c. within from_time to (cc_at c)) (counts s);
         sorted = rev (sort_key cc_at (sort_key cc_id rows)) in
     and_then (present_all (load_cash_count env s) (map cc_id (page_rows bounds sorted))) (\<lambda>items. Inr (items, length rows))))"

end
