(* ===== verification/Cash_Anchoring.thy ===== *)
theory Cash_Anchoring
  imports Cash_Register "HOL-Library.Multiset"
begin

text \<open>
  What the cash register promises: the figures and the journal are the same sums; the correction of every count stays
  in step with it, and a count anchors the register: after any edits the register holds at it what was counted; no
  accepted edit makes a later moment owe cash; recording is idempotent under its key. The invariant is
  \<open>anchored_where P\<close>: the constraints of the tables (\<open>register_ok\<close>), every count in step, and the counts at the times
  that satisfy \<open>P\<close> anchored. Recording a movement or a payment for a time before a count does not recalculate the
  count, so after such a record \<open>P\<close> is \<open>later_than\<close> a watermark; without one it holds of every time.
\<close>

section \<open>The balance at an instant\<close>

definition moved_by :: "time \<Rightarrow> cash_movement \<Rightarrow> int" where
  "moved_by t m = (if mv_at m \<le> t then movement_effect m else 0)"

definition paid_by :: "time \<Rightarrow> cash_payment \<Rightarrow> int" where
  "paid_by t p = (if pay_at p \<le> t then payment_effect p else 0)"

definition held :: "cash_store \<Rightarrow> time \<Rightarrow> int" where
  "held s t = sum_list (map (paid_by t) (payments s)) + sum_list (map (moved_by t) (movements s))"

definition env_ok :: "cash_env \<Rightarrow> bool" where
  "env_ok env \<longleftrightarrow> inj (new_id env) \<and> (\<forall>i. new_id env i \<noteq> [])"

definition payment_ok :: "cash_payment \<Rightarrow> bool" where
  "payment_ok p \<longleftrightarrow> pay_entry_kind p \<in> {''receipt'', ''reversal''} \<and> pay_at p mod 1000 = 0"

definition movement_ok :: "cash_movement \<Rightarrow> bool" where
  "movement_ok m \<longleftrightarrow> mv_kind m \<in> {cash_withdrawal, cash_deposit, cash_correction} \<and>
     (mv_kind m = cash_correction \<longleftrightarrow> mv_count m \<noteq> None) \<and> mv_at m mod 1000 = 0"

definition count_ok :: "cash_count \<Rightarrow> bool" where
  "count_ok c \<longleftrightarrow> cc_id c \<noteq> [] \<and> cc_at c mod 1000 = 0"

text \<open>The constraints of the tables; identifiers not yet drawn are not in use.\<close>

definition register_ok :: "cash_env \<Rightarrow> cash_store \<Rightarrow> bool" where
  "register_ok env s \<longleftrightarrow>
     distinct (map mv_id (movements s)) \<and> distinct (map cc_id (counts s)) \<and> distinct (map cc_at (counts s)) \<and>
     (\<forall>p\<in>set (payments s). payment_ok p) \<and> (\<forall>m\<in>set (movements s). movement_ok m) \<and>
     (\<forall>c\<in>set (counts s). count_ok c) \<and>
     (\<forall>m\<in>set (movements s). \<forall>i. mv_count m = Some i \<longrightarrow> i \<in> cc_id ` set (counts s)) \<and>
     (\<forall>i\<ge>ids_used s. new_id env i \<notin> mv_id ` set (movements s) \<union> cc_id ` set (counts s))"

definition corrections_of :: "cash_store \<Rightarrow> string \<Rightarrow> cash_movement list" where
  "corrections_of s i = filter (\<lambda>m. mv_count m = Some i) (movements s)"

text \<open>The correction of a count books its difference at its time.\<close>

definition synced :: "cash_store \<Rightarrow> cash_count \<Rightarrow> bool" where
  "synced s c \<longleftrightarrow> cc_difference c = cc_counted c - cc_expected c \<and>
     (case corrections_of s (cc_id c) of
        [] \<Rightarrow> cc_difference c = 0
      | [m] \<Rightarrow> cc_difference c \<noteq> 0 \<and> mv_amount m = cc_difference c \<and> mv_at m = cc_at c
      | _ \<Rightarrow> False)"

definition anchored :: "cash_store \<Rightarrow> cash_count \<Rightarrow> bool" where
  "anchored s c \<longleftrightarrow> synced s c \<and> cc_expected c = expected_at_count s (cc_at c) (count_correction s (cc_id c))"

definition anchored_where :: "(time \<Rightarrow> bool) \<Rightarrow> cash_env \<Rightarrow> cash_store \<Rightarrow> bool" where
  "anchored_where P env s \<longleftrightarrow> register_ok env s \<and> (\<forall>c\<in>set (counts s). synced s c \<and> (P (cc_at c) \<longrightarrow> anchored s c))"

lemma anchored_whereD:
  assumes "anchored_where P env s"
  shows "register_ok env s" "\<And>c. c \<in> set (counts s) \<Longrightarrow> synced s c" "\<And>c. c \<in> set (counts s) \<Longrightarrow> P (cc_at c) \<Longrightarrow> anchored s c"
  using assms by (simp_all add: anchored_where_def)

text \<open>
  A change from a moment on reaches all the counts it may touch when each of them was anchored before, or when nothing
  is claimed of any count.
\<close>

definition reaches :: "(time \<Rightarrow> bool) \<Rightarrow> time \<Rightarrow> bool" where
  "reaches P from_time \<longleftrightarrow> (\<forall>t. \<not> P t) \<or> (\<forall>t\<ge>from_time. P t)"

section \<open>Figures, journal and balance\<close>

lemma sum_filter: "(\<Sum>x\<leftarrow>filter P xs. f x) = (\<Sum>x\<leftarrow>xs. if P x then f x else (0::int))"
  by (induction xs) auto

lemma sum_pointwise:
  assumes "\<And>x. x \<in> set xs \<Longrightarrow> f x = (g x :: int)"
  shows "sum_list (map f xs) = sum_list (map g xs)"
  by (rule arg_cong[where f = sum_list], rule map_cong[OF refl assms])

lemma figures_payments:
  assumes "\<forall>p\<in>set ps. payment_ok p"
  shows "(\<Sum>p\<leftarrow>filter (\<lambda>p. before to (pay_at p) \<and> pay_entry_kind p = ''receipt'') ps. pay_amount p) -
         (\<Sum>p\<leftarrow>filter (\<lambda>p. before to (pay_at p) \<and> pay_entry_kind p = ''reversal'' \<and> pay_reversal_reason p = Some ''refund'') ps. pay_amount p) -
         (\<Sum>p\<leftarrow>filter (\<lambda>p. before to (pay_at p) \<and> pay_entry_kind p = ''reversal'' \<and> pay_reversal_reason p \<noteq> Some ''refund'') ps. pay_amount p)
       = (\<Sum>p\<leftarrow>ps. if before to (pay_at p) then payment_effect p else 0)"
  using assms by (induction ps) (auto simp: payment_ok_def payment_effect_def)

lemma figures_movements:
  assumes "\<forall>m\<in>set ms. movement_ok m"
  shows "- (\<Sum>m\<leftarrow>filter (\<lambda>m. before to (mv_at m) \<and> mv_kind m = cash_withdrawal) ms. mv_amount m) +
         (\<Sum>m\<leftarrow>filter (\<lambda>m. before to (mv_at m) \<and> mv_kind m = cash_deposit) ms. mv_amount m) +
         (\<Sum>m\<leftarrow>filter (\<lambda>m. before to (mv_at m) \<and> mv_kind m = cash_correction) ms. mv_amount m)
       = (\<Sum>m\<leftarrow>ms. if before to (mv_at m) then movement_effect m else 0)"
  using assms
proof (induction ms)
  case (Cons m ms)
  from Cons.prems have "movement_ok m" by simp
  then have "mv_kind m = cash_withdrawal \<or> mv_kind m = cash_deposit \<or> mv_kind m = cash_correction"
    by (auto simp: movement_ok_def)
  then show ?case using Cons by (elim disjE) (simp_all add: movement_effect_def)
qed simp

lemma figures_sum:
  assumes "register_ok env s"
  shows "figures_expected (cash_figures_until s to) =
     (\<Sum>p\<leftarrow>payments s. if before to (pay_at p) then payment_effect p else 0) +
     (\<Sum>m\<leftarrow>movements s. if before to (mv_at m) then movement_effect m else 0)"
  using figures_payments[of "payments s" to] figures_movements[of "movements s" to] assms
  unfolding register_ok_def by (simp add: figures_expected_def cash_figures_until_def Let_def)

lemma expected_through_held:
  assumes "register_ok env s" "t mod 1000 = 0"
  shows "expected_through s t = held s t"
proof -
  have "(\<Sum>p\<leftarrow>payments s. if before (Some (t + microsecond)) (pay_at p) then payment_effect p else 0) =
        sum_list (map (paid_by t) (payments s))"
    using assms by (intro sum_pointwise)
      (auto simp: before_def paid_by_def register_ok_def payment_ok_def before_microsecond_iff)
  moreover have "(\<Sum>m\<leftarrow>movements s. if before (Some (t + microsecond)) (mv_at m) then movement_effect m else 0) =
        sum_list (map (moved_by t) (movements s))"
    using assms by (intro sum_pointwise)
      (auto simp: before_def moved_by_def register_ok_def movement_ok_def before_microsecond_iff)
  ultimately show ?thesis by (simp add: expected_through_def figures_sum[OF assms(1)] held_def)
qed

lemma entries_held:
  "(\<Sum>e\<leftarrow>register_entries s. if re_at e \<le> t then re_effect e else 0) = held s t"
  by (simp add: register_entries_def held_def comp_def paid_by_def[abs_def] moved_by_def[abs_def] cong: if_cong)

section \<open>Statements and the invariant\<close>

lemma write_audit_simps [simp]:
  "payments (write_audit p a r i fs s) = payments s" "movements (write_audit p a r i fs s) = movements s"
  "counts (write_audit p a r i fs s) = counts s" "ids_used (write_audit p a r i fs s) = ids_used s"
  by (simp_all add: write_audit_def)

lemma register_ok_audit [simp]: "register_ok env (write_audit p a r i fs s) = register_ok env s"
  by (simp add: register_ok_def)

lemma held_audit [simp]: "held (write_audit p a r i fs s) t = held s t"
  by (simp add: held_def)

lemma corrections_audit [simp]: "corrections_of (write_audit p a r i fs s) j = corrections_of s j"
  by (simp add: corrections_of_def)

lemma register_okD:
  assumes "register_ok env s"
  shows "distinct (map mv_id (movements s))" "distinct (map cc_id (counts s))" "distinct (map cc_at (counts s))"
    "m \<in> set (movements s) \<Longrightarrow> movement_ok m" "c \<in> set (counts s) \<Longrightarrow> count_ok c"
    "m \<in> set (movements s) \<Longrightarrow> mv_count m = Some i \<Longrightarrow> i \<in> cc_id ` set (counts s)"
    "ids_used s \<le> k \<Longrightarrow> new_id env k \<notin> mv_id ` set (movements s) \<union> cc_id ` set (counts s)"
  using assms by (auto simp: register_ok_def)

lemma corrections_synced:
  assumes "synced s c"
  shows "corrections_of s (cc_id c) = (case count_correction s (cc_id c) of None \<Rightarrow> [] | Some m \<Rightarrow> [m])"
proof (cases "corrections_of s (cc_id c)")
  case Nil
  then have "count_correction s (cc_id c) = None"
    by (auto simp: count_correction_def corrections_of_def find_None_iff filter_empty_conv)
  then show ?thesis using Nil by simp
next
  case (Cons m ms)
  moreover from this have "ms = []" using assms by (auto simp: synced_def split: list.splits)
  moreover have "find P xs = (case filter P xs of [] \<Rightarrow> None | y # _ \<Rightarrow> Some y)" for P and xs :: "cash_movement list"
    by (induction xs) auto
  ultimately show ?thesis by (simp add: count_correction_def corrections_of_def)
qed

lemma count_correctionD:
  "count_correction s i = Some m \<Longrightarrow> m \<in> set (movements s) \<and> mv_count m = Some i"
  by (auto simp: count_correction_def find_Some_iff)

lemma corrections_ofD: "m \<in> set (corrections_of s i) \<Longrightarrow> m \<in> set (movements s) \<and> mv_count m = Some i"
  by (auto simp: corrections_of_def)

lemma correction_effect:
  assumes "register_ok env s" "m \<in> set (movements s)" "mv_count m = Some i"
  shows "mv_kind m = cash_correction" "movement_effect m = mv_amount m"
  using register_okD(4)[OF assms(1,2)] assms(3) by (auto simp: movement_ok_def movement_effect_def)

text \<open>With the correction in step, the count is anchored when the register then holds what was counted.\<close>

lemma expected_at_synced:
  assumes ok: "register_ok env s" and c: "synced s c" and t: "t mod 1000 = 0"
  shows "expected_at_count s t (count_correction s (cc_id c)) =
         held s t - (if cc_at c \<le> t then cc_difference c else 0)"
proof (cases "count_correction s (cc_id c)")
  case None
  then have "cc_difference c = 0" using corrections_synced[OF c] c by (simp add: synced_def)
  then show ?thesis using None by (simp add: expected_at_count_def expected_through_held[OF ok t])
next
  case (Some m)
  then have "mv_amount m = cc_difference c" "mv_at m = cc_at c"
    using corrections_synced[OF c] c by (simp_all add: synced_def)
  moreover have "mv_at m mod 1000 = 0"
    using count_correctionD[OF Some] register_okD(4)[OF ok] by (auto simp: movement_ok_def)
  ultimately show ?thesis
    using Some t by (simp add: expected_at_count_def expected_through_held[OF ok t] before_microsecond_iff)
qed

lemma anchored_iff:
  assumes "register_ok env s" "c \<in> set (counts s)"
  shows "anchored s c \<longleftrightarrow> synced s c \<and> held s (cc_at c) = cc_counted c"
proof -
  have t: "cc_at c mod 1000 = 0" using register_okD(5)[OF assms] by (simp add: count_ok_def)
  show ?thesis
    using expected_at_synced[OF assms(1) _ t, of c] by (auto simp: anchored_def synced_def)
qed

lemma synced_cong: "corrections_of s' (cc_id c) = corrections_of s (cc_id c) \<Longrightarrow> synced s' c = synced s c"
  by (simp add: synced_def)


text \<open>What a statement on the movements changes: the invariant, the balance and the corrections.\<close>

lemma movement_append:
  assumes ok: "register_ok env s" "env_ok env" and m: "mv_id m = new_id env (ids_used s)" "movement_ok m"
    and fk: "\<And>i. mv_count m = Some i \<Longrightarrow> i \<in> cc_id ` set (counts s)"
    and s': "payments s' = payments s" "counts s' = counts s" "movements s' = movements s @ [m]" "ids_used s < ids_used s'"
  shows "register_ok env s'" "held s' t = held s t + moved_by t m"
    "corrections_of s' i = corrections_of s i @ (if mv_count m = Some i then [m] else [])"
proof -
  have "new_id env k \<noteq> mv_id m" if "ids_used s' \<le> k" for k
  proof
    assume "new_id env k = mv_id m"
    then have "k = ids_used s" using ok(2) m(1) by (simp add: env_ok_def inj_eq)
    then show False using s'(4) that by simp
  qed
  moreover have "new_id env k \<notin> mv_id ` set (movements s) \<union> cc_id ` set (counts s)" if "ids_used s' \<le> k" for k
    using register_okD(7)[OF ok(1)] s'(4) that by simp
  moreover have "mv_id m \<notin> mv_id ` set (movements s)" using register_okD(7)[OF ok(1), of "ids_used s"] m(1) by simp
  ultimately show "register_ok env s'"
    using ok(1) m(2) fk s' unfolding register_ok_def by (auto simp: image_iff)
  show "held s' t = held s t + moved_by t m" using s' by (simp add: held_def)
  show "corrections_of s' i = corrections_of s i @ (if mv_count m = Some i then [m] else [])"
    using s' by (simp add: corrections_of_def)
qed

lemma movement_put:
  assumes ok: "register_ok env s" and m: "m \<in> set (movements s)" "mv_id m' = mv_id m" "movement_ok m'" "mv_count m' = mv_count m"
    and s': "payments s' = payments s" "counts s' = counts s" "movements s' = row_put mv_id m' (movements s)"
      "ids_used s' = ids_used s"
  shows "register_ok env s'" "held s' t = held s t - moved_by t m + moved_by t m'"
    "corrections_of s' i = row_put mv_id m' (corrections_of s i)"
proof -
  have ids: "mv_id ` set (movements s') = mv_id ` set (movements s)"
    using s'(3) by (metis keys_row_put list.set_map)
  have "x \<in> set (movements s) \<or> x = m'" if "x \<in> set (movements s')" for x
    using that s'(3) set_row_put_subset[of mv_id m' "movements s"] by auto
  then show "register_ok env s'"
    using ok m s' ids unfolding register_ok_def by (metis keys_row_put)
  show "held s' t = held s t - moved_by t m + moved_by t m'"
    using sum_row_put[OF register_okD(1)[OF ok] m(1), of m' "moved_by t"] m(2) s' by (simp add: held_def)
  show "corrections_of s' i = row_put mv_id m' (corrections_of s i)"
    unfolding corrections_of_def s'(3)
    by (rule filter_row_put[OF _ register_okD(1)[OF ok] m(1)]) (use m in auto)
qed

lemma movement_drop:
  assumes ok: "register_ok env s" and m: "m \<in> set (movements s)"
    and s': "payments s' = payments s" "counts s' = counts s" "movements s' = row_drop mv_id (mv_id m) (movements s)"
      "ids_used s' = ids_used s"
  shows "register_ok env s'" "held s' t = held s t - moved_by t m"
    "corrections_of s' i = row_drop mv_id (mv_id m) (corrections_of s i)"
proof -
  show "register_ok env s'" using ok s' unfolding register_ok_def by auto
  show "held s' t = held s t - moved_by t m"
    using sum_row_drop[OF register_okD(1)[OF ok] m, of "moved_by t"] s' by (simp add: held_def)
  show "corrections_of s' i = row_drop mv_id (mv_id m) (corrections_of s i)"
    unfolding corrections_of_def s'(3) by (simp add: row_drop_def conj_commute)
qed

lemma held_unmoved: "payments s' = payments s \<Longrightarrow> movements s' = movements s \<Longrightarrow> held s' t = held s t"
  by (simp add: held_def)

lemma count_put:
  assumes ok: "register_ok env s" and c: "c \<in> set (counts s)" "cc_id c' = cc_id c" "count_ok c'"
    and at: "cc_at c' \<notin> cc_at ` {x \<in> set (counts s). cc_id x \<noteq> cc_id c}"
    and s': "payments s' = payments s" "movements s' = movements s" "counts s' = row_put cc_id c' (counts s)"
      "ids_used s' = ids_used s"
  shows "register_ok env s'"
proof -
  have ids: "cc_id ` set (counts s') = cc_id ` set (counts s)"
    using s'(3) by (metis keys_row_put list.set_map)
  have "distinct (map cc_at (row_put cc_id c' (counts s)))"
  proof (rule distinct_map[THEN iffD2], intro conjI)
    have d: "distinct (map cc_id (row_put cc_id c' (counts s)))" using register_okD(2)[OF ok] by simp
    then show "distinct (row_put cc_id c' (counts s))" unfolding distinct_map by blast
    have old: "inj_on cc_at (set (counts s))" using register_okD(3)[OF ok] by (simp add: distinct_map)
    have S: "set (row_put cc_id c' (counts s)) = insert c' {x \<in> set (counts s). cc_id x \<noteq> cc_id c}"
      using set_row_put[OF c(1), of cc_id c'] c(2) by simp
    show "inj_on cc_at (set (row_put cc_id c' (counts s)))"
      unfolding S inj_on_insert using at inj_on_subset[OF old] by auto
  qed
  moreover have "x \<in> set (counts s) \<or> x = c'" if "x \<in> set (counts s')" for x
    using that s'(3) set_row_put_subset[of cc_id c' "counts s"] by auto
  ultimately show ?thesis
    using ok c s' ids unfolding register_ok_def by (metis keys_row_put)
qed

section \<open>Keeping a count's correction in step\<close>

lemma book_correction_fields:
  "payments (book_count_correction env p c s) = payments s" "counts (book_count_correction env p c s) = counts s"
  "ids_used (book_count_correction env p c s) = Suc (Suc (ids_used s))"
  "\<exists>m. movements (book_count_correction env p c s) = movements s @ [m] \<and> mv_id m = new_id env (ids_used s) \<and>
       mv_kind m = cash_correction \<and> mv_amount m = cc_difference c \<and> mv_at m = cc_at c \<and> mv_count m = Some (cc_id c)"
  by (simp_all add: book_count_correction_def insert_movement_def Let_def)

lemma book_correction:
  assumes ok: "register_ok env s" "env_ok env" and c: "c \<in> set (counts s)" "cc_difference c = cc_counted c - cc_expected c"
    and none: "corrections_of s (cc_id c) = []" and diff: "cc_difference c \<noteq> 0"
    and s'_def: "s' = book_count_correction env p c s"
  shows "register_ok env s'" "synced s' c" "held s' t = held s t + (if cc_at c \<le> t then cc_difference c else 0)"
    "i \<noteq> cc_id c \<Longrightarrow> corrections_of s' i = corrections_of s i"
proof -
  obtain m where m: "movements s' = movements s @ [m]" "mv_id m = new_id env (ids_used s)"
      "mv_kind m = cash_correction" "mv_amount m = cc_difference c" "mv_at m = cc_at c" "mv_count m = Some (cc_id c)"
    using book_correction_fields(4) unfolding s'_def by blast
  have mok: "movement_ok m"
    using m register_okD(5)[OF ok(1) c(1)] by (simp add: movement_ok_def count_ok_def)
  have fk: "i \<in> cc_id ` set (counts s)" if "mv_count m = Some i" for i using that m(6) c(1) by auto
  have f: "payments s' = payments s" "counts s' = counts s" "ids_used s < ids_used s'"
    by (simp_all add: s'_def book_correction_fields)
  note app = movement_append[OF ok m(2) mok fk f(1,2) m(1) f(3)]
  show "register_ok env s'" by (rule app(1))
  show "synced s' c" using app(3)[of "cc_id c"] none m c(2) diff by (simp add: synced_def)
  show "held s' t = held s t + (if cc_at c \<le> t then cc_difference c else 0)"
    using app(2)[of t] m by (simp add: moved_by_def movement_effect_def)
  show "corrections_of s' i = corrections_of s i" if "i \<noteq> cc_id c" using app(3)[of i] that m(6) by simp
qed


text \<open>The correction of one count is not among those of another, so statements on it leave the others alone.\<close>

lemma correction_elsewhere:
  assumes "register_ok env s" "m \<in> set (movements s)" "mv_count m = Some i" "j \<noteq> i"
  shows "mv_id m \<notin> mv_id ` set (corrections_of s j)"
proof
  assume "mv_id m \<in> mv_id ` set (corrections_of s j)"
  then obtain x where x: "x \<in> set (corrections_of s j)" "mv_id m = mv_id x" by blast
  then have "x = m" using key_inj[OF register_okD(1)[OF assms(1)] assms(2), of x] corrections_ofD[of x s j] by simp
  then show False using x(1) corrections_ofD[of x s j] assms(3,4) by simp
qed

lemma sync_deletes:
  assumes ok: "register_ok env s" and c: "cc_difference c = cc_counted c - cc_expected c" "cc_difference c = 0"
    and one: "corrections_of s (cc_id c) = [m]" and s1_def: "s1 = delete_movement (mv_id m) s"
  shows "register_ok env s1 \<and> synced s1 c \<and> payments s1 = payments s \<and> counts s1 = counts s \<and>
    (\<forall>t. held s1 t = held s t - moved_by t m) \<and> (\<forall>i. i \<noteq> cc_id c \<longrightarrow> corrections_of s1 i = corrections_of s i)"
proof -
  have m: "m \<in> set (movements s)" "mv_count m = Some (cc_id c)"
    using one corrections_ofD[of m s "cc_id c"] by simp_all
  have f: "payments s1 = payments s" "counts s1 = counts s" "movements s1 = row_drop mv_id (mv_id m) (movements s)"
    "ids_used s1 = ids_used s" by (simp_all add: s1_def delete_movement_def)
  note dr = movement_drop[OF ok m(1) f]
  have "corrections_of s1 (cc_id c) = []" using dr(3)[of "cc_id c"] one by (simp add: row_drop_def)
  then have "synced s1 c" using c by (simp add: synced_def)
  moreover have "corrections_of s1 i = corrections_of s i" if "i \<noteq> cc_id c" for i
    using dr(3)[of i] correction_elsewhere[OF ok m that] by simp
  ultimately show ?thesis using dr(1,2) f by simp
qed

lemma sync_updates:
  assumes ok: "register_ok env s" and c: "c \<in> set (counts s)" "cc_difference c = cc_counted c - cc_expected c" "cc_difference c \<noteq> 0"
    and one: "corrections_of s (cc_id c) = [m]"
    and s1_def: "s1 = fst (update_movement (m\<lparr>mv_amount := cc_difference c, mv_at := cc_at c\<rparr>) s)"
  shows "register_ok env s1 \<and> synced s1 c \<and> payments s1 = payments s \<and> counts s1 = counts s \<and>
    (\<forall>t. held s1 t = held s t - moved_by t m + (if cc_at c \<le> t then cc_difference c else 0)) \<and>
    (\<forall>i. i \<noteq> cc_id c \<longrightarrow> corrections_of s1 i = corrections_of s i)"
proof -
  let ?r = "m\<lparr>mv_amount := cc_difference c, mv_at := cc_at c, mv_version := mv_version m + 1\<rparr>"
  have m: "m \<in> set (movements s)" "mv_count m = Some (cc_id c)"
    using one corrections_ofD[of m s "cc_id c"] by simp_all
  have f: "payments s1 = payments s" "counts s1 = counts s" "movements s1 = row_put mv_id ?r (movements s)"
    "ids_used s1 = ids_used s" by (simp_all add: s1_def update_movement_def Let_def)
  have kind: "mv_kind m = cash_correction" "mv_count m \<noteq> None" using correction_effect(1)[OF ok m] m(2) by simp_all
  have r: "mv_id ?r = mv_id m" "movement_ok ?r" "mv_count ?r = mv_count m"
    using kind register_okD(5)[OF ok c(1)] by (simp_all add: movement_ok_def count_ok_def)
  note pt = movement_put[OF ok m(1) r f]
  have "corrections_of s1 (cc_id c) = [?r]" using pt(3)[of "cc_id c"] one by (simp add: row_put_def)
  then have "synced s1 c" using c by (simp add: synced_def)
  moreover have "corrections_of s1 i = corrections_of s i" if "i \<noteq> cc_id c" for i
    using pt(3)[of i] correction_elsewhere[OF ok m that] by simp
  moreover have "moved_by t ?r = (if cc_at c \<le> t then cc_difference c else 0)" for t
    using kind by (simp add: moved_by_def movement_effect_def)
  ultimately show ?thesis using pt(1,2) f by simp
qed

lemma sync_correction:
  assumes ok: "register_ok env s" "env_ok env" and c: "c \<in> set (counts s)" "cc_difference c = cc_counted c - cc_expected c"
    and one: "corrections_of s (cc_id c) = (case k of None \<Rightarrow> [] | Some m \<Rightarrow> [m])"
    and s'_def: "s' = sync_count_correction env p c k s"
  shows "register_ok env s' \<and> synced s' c \<and> payments s' = payments s \<and> counts s' = counts s \<and>
    (\<forall>t. held s' t = held s t - (case k of None \<Rightarrow> 0 | Some m \<Rightarrow> moved_by t m) + (if cc_at c \<le> t then cc_difference c else 0)) \<and>
    (\<forall>i. i \<noteq> cc_id c \<longrightarrow> corrections_of s' i = corrections_of s i)"
proof (cases k)
  case None
  show ?thesis
  proof (cases "cc_difference c = 0")
    case True
    then show ?thesis using None ok c one s'_def by (simp add: sync_count_correction_def synced_def)
  next
    case False
    then have s': "s' = book_count_correction env p c s" using None s'_def by (simp add: sync_count_correction_def)
    have none: "corrections_of s (cc_id c) = []" using None one by simp
    note b = book_correction[OF ok c none False s']
    show ?thesis using b None by (simp add: s' book_correction_fields)
  qed
next
  case (Some m)
  have one': "corrections_of s (cc_id c) = [m]" using one Some by simp
  consider (gone) "cc_difference c = 0" | (same) "cc_difference c \<noteq> 0" "mv_amount m = cc_difference c" "mv_at m = cc_at c"
    | (changed) "cc_difference c \<noteq> 0" "\<not> (mv_amount m = cc_difference c \<and> mv_at m = cc_at c)" by blast
  then show ?thesis
  proof cases
    case gone
    then show ?thesis
      using sync_deletes[OF ok(1) c(2) gone one' refl] Some
      by (simp add: s'_def sync_count_correction_def synced_def)
  next
    case same
    have "movement_effect m = mv_amount m"
      using correction_effect(2)[OF ok(1), of m] corrections_ofD[of m s "cc_id c"] one' by simp
    then have "moved_by t m = (if cc_at c \<le> t then cc_difference c else 0)" for t using same by (simp add: moved_by_def)
    moreover have "synced s c" using same one' c(2) by (simp add: synced_def)
    ultimately show ?thesis using same ok(1) Some by (simp add: s'_def sync_count_correction_def)
  next
    case changed
    then show ?thesis
      using sync_updates[OF ok(1) c changed(1) one' refl] Some
      by (auto simp: s'_def sync_count_correction_def synced_def)
  qed
qed

text \<open>What the correction of a count moves is the difference, from the time of the count on.\<close>

lemma correction_moved:
  assumes ok: "register_ok env s" and c: "synced s c"
  shows "(case count_correction s (cc_id c) of None \<Rightarrow> 0 | Some m \<Rightarrow> moved_by t m) =
         (if cc_at c \<le> t then cc_difference c else 0)"
proof (cases "count_correction s (cc_id c)")
  case None
  then have "cc_difference c = 0" using corrections_synced[OF c] c by (simp add: synced_def)
  then show ?thesis using None by simp
next
  case (Some m)
  then have "mv_amount m = cc_difference c" "mv_at m = cc_at c"
    using corrections_synced[OF c] c by (simp_all add: synced_def)
  moreover have "movement_effect m = mv_amount m"
    using count_correctionD[OF Some] correction_effect(2)[OF ok] by simp
  ultimately show ?thesis using Some by (simp add: moved_by_def)
qed

section \<open>Recalculating the counts after a change\<close>

lemma recalculate:
  assumes ok: "register_ok env s" "env_ok env" and c: "c \<in> set (counts s)" and sync: "\<forall>x\<in>set (counts s). synced s x"
    and s'_def: "s' = recalculate_count env p c (count_correction s (cc_id c))
                        (expected_at_count s (cc_at c) (count_correction s (cc_id c))) s"
  shows "\<exists>c'. counts s' = row_put cc_id c' (counts s) \<and> cc_id c' = cc_id c \<and> cc_at c' = cc_at c \<and>
      cc_counted c' = cc_counted c \<and> payments s' = payments s \<and> register_ok env s' \<and>
      (\<forall>x\<in>set (counts s'). synced s' x) \<and> anchored s' c' \<and>
      (\<exists>k. \<forall>t. held s' t = held s t + (if cc_at c \<le> t then k else 0))"
proof -
  define e where "e = expected_at_count s (cc_at c) (count_correction s (cc_id c))"
  define k where "k = count_correction s (cc_id c)"
  define drop_reason where "drop_reason \<longleftrightarrow> cc_counted c - e = 0 \<and> cc_reason c \<noteq> None"
  define c' where "c' = c\<lparr>cc_expected := e, cc_difference := cc_counted c - e,
      cc_reason := (if drop_reason then None else cc_reason c), cc_version := cc_version c + 1\<rparr>"
  define s1 where "s1 = s\<lparr>counts := row_put cc_id c' (counts s)\<rparr>"
  define s2 where "s2 = write_audit p ''cash_count.recalculated'' ''cash_count'' (cc_id c)
      ([''expectedAmount'', ''difference''] @ (if drop_reason then [''reason''] else [])) s1"
  have s': "s' = sync_count_correction env p c' k s2"
    by (simp add: s'_def recalculate_count_def Let_def update_count_def s2_def s1_def c'_def drop_reason_def e_def k_def)
  have fields: "cc_id c' = cc_id c" "cc_at c' = cc_at c" "cc_counted c' = cc_counted c"
    "cc_difference c' = cc_counted c' - cc_expected c'" by (simp_all add: c'_def)
  have cok: "count_ok c'" using register_okD(5)[OF ok(1) c] by (simp add: count_ok_def fields)
  have at: "cc_at c' \<notin> cc_at ` {x \<in> set (counts s). cc_id x \<noteq> cc_id c}"
    using key_inj[OF register_okD(3)[OF ok(1)] c] fields(2) by fastforce
  have ok1: "register_ok env s2"
    unfolding s2_def register_ok_audit by (rule count_put[OF ok(1) c fields(1) cok at]) (simp_all add: s1_def)
  have same: "corrections_of s2 i = corrections_of s i" "held s2 t = held s t" for i t
    by (simp_all add: s2_def s1_def corrections_of_def held_def)
  have set2: "set (counts s2) = insert c' {x \<in> set (counts s). cc_id x \<noteq> cc_id c}"
    using set_row_put[OF c, of cc_id c'] by (simp add: s2_def s1_def fields)
  have one: "corrections_of s2 (cc_id c') = (case k of None \<Rightarrow> [] | Some m \<Rightarrow> [m])"
    using corrections_synced[of s c] sync c by (simp add: same fields k_def)
  have c2: "c' \<in> set (counts s2)" by (simp add: set2)
  have S: "register_ok env s'" "synced s' c'" "payments s' = payments s2" "counts s' = counts s2"
      "\<And>t. held s' t = held s2 t - (case k of None \<Rightarrow> 0 | Some m \<Rightarrow> moved_by t m) +
             (if cc_at c' \<le> t then cc_difference c' else 0)"
      "\<And>i. i \<noteq> cc_id c' \<Longrightarrow> corrections_of s' i = corrections_of s2 i"
    using sync_correction[OF ok1 ok(2) c2 fields(4) one s'] by blast+
  have moved: "(case k of None \<Rightarrow> 0 | Some m \<Rightarrow> moved_by t m) = (if cc_at c \<le> t then cc_difference c else 0)" for t
    using correction_moved[OF ok(1), of c t] sync c by (simp add: k_def)
  have held': "held s' t = held s t + (if cc_at c \<le> t then cc_difference c' - cc_difference c else 0)" for t
    by (simp add: S(5) moved same fields)
  have t: "cc_at c mod 1000 = 0" using register_okD(5)[OF ok(1) c] by (simp add: count_ok_def)
  have "e = held s (cc_at c) - cc_difference c"
    using expected_at_synced[OF ok(1) _ t, of c] sync c by (simp add: e_def)
  then have "held s' (cc_at c') = cc_counted c'" using held'[of "cc_at c"] fields by (simp add: c'_def)
  then have "anchored s' c'" using anchored_iff[OF S(1)] S(2,4) c2 by simp
  moreover have "synced s' x" if "x \<in> set (counts s')" for x
  proof (cases "cc_id x = cc_id c")
    case True
    then have "x = c'" using that set2 S(4) by auto
    then show ?thesis using S(2) by simp
  next
    case False
    then have "x \<in> set (counts s)" using that set2 S(4) fields(1) by auto
    then show ?thesis using False sync S(6)[of "cc_id x"] fields(1) same(1) synced_cong[of s' x s] by simp
  qed
  ultimately show ?thesis
    using S(1,3,4) held' fields by (intro exI[of _ c']) (auto simp: s2_def s1_def)
qed


text \<open>
  The loop, with its early stop. The counts not on the list are anchored and earlier than those on it (the count
  that is skipped too); between two counts after \<open>until\<close> the balance moves as it did before the change.
\<close>

lemma reconcile_loop_anchors:
  assumes "env_ok env" "register_ok env s" "\<forall>x\<in>set (counts s). synced s x"
    and "sorted_wrt (\<lambda>a b. cc_at a < cc_at b) cs" "set cs \<subseteq> set (counts s)"
    and "\<forall>x\<in>set (counts s). P (cc_at x) \<longrightarrow> x \<notin> set cs \<or> cc_id x = skip \<longrightarrow>
           anchored s x \<and> (\<forall>c\<in>set cs. cc_id c \<noteq> skip \<longrightarrow> cc_at x < cc_at c)"
    and "\<forall>c\<in>set cs. \<forall>d\<in>set cs. P (cc_at d) \<longrightarrow> cc_id c \<noteq> skip \<longrightarrow> until < cc_at c \<longrightarrow> cc_at c < cc_at d \<longrightarrow>
           held s (cc_at d) - held s (cc_at c) = cc_counted d - cc_counted c"
  shows "anchored_where P env (reconcile_loop env p until skip cs s) \<and>
    (\<forall>t. (\<forall>c\<in>set cs. t < cc_at c) \<longrightarrow> held (reconcile_loop env p until skip cs s) t = held s t)"
  using assms(2-)
proof (induction cs arbitrary: s)
  case Nil
  then show ?case by (simp add: anchored_where_def)
next
  case (Cons c cs)
  note ok = Cons.prems(1) and sync = Cons.prems(2)
  have sorted: "sorted_wrt (\<lambda>a b. cc_at a < cc_at b) cs" "\<And>d. d \<in> set cs \<Longrightarrow> cc_at c < cc_at d"
    using Cons.prems(3) by simp_all
  have c: "c \<in> set (counts s)" and cs: "set cs \<subseteq> set (counts s)" using Cons.prems(4) by simp_all
  have later: "\<And>x d. x \<in> set (counts s) \<Longrightarrow> P (cc_at x) \<Longrightarrow> x \<notin> set (c # cs) \<or> cc_id x = skip \<Longrightarrow> d \<in> set (c # cs) \<Longrightarrow>
      cc_id d \<noteq> skip \<Longrightarrow> cc_at x < cc_at d"
    and anch: "\<And>x. x \<in> set (counts s) \<Longrightarrow> P (cc_at x) \<Longrightarrow> x \<notin> set (c # cs) \<or> cc_id x = skip \<Longrightarrow> anchored s x"
    using Cons.prems(5) by blast+
  note apart = Cons.prems(6)
  let ?k = "count_correction s (cc_id c)"
  let ?e = "expected_at_count s (cc_at c) ?k"
  have tail: "anchored_where P env (reconcile_loop env p until skip cs s) \<and>
      (\<forall>t. (\<forall>c\<in>set cs. t < cc_at c) \<longrightarrow> held (reconcile_loop env p until skip cs s) t = held s t)" if "P (cc_at c) \<Longrightarrow> anchored s c"
  proof (rule Cons.IH[OF ok sync sorted(1) cs])
    show "\<forall>x\<in>set (counts s). P (cc_at x) \<longrightarrow> x \<notin> set cs \<or> cc_id x = skip \<longrightarrow>
        anchored s x \<and> (\<forall>d\<in>set cs. cc_id d \<noteq> skip \<longrightarrow> cc_at x < cc_at d)"
    proof (intro ballI impI)
      fix x
      assume x: "x \<in> set (counts s)" "P (cc_at x)" "x \<notin> set cs \<or> cc_id x = skip"
      show "anchored s x \<and> (\<forall>d\<in>set cs. cc_id d \<noteq> skip \<longrightarrow> cc_at x < cc_at d)"
        using x that anch[of x] later[of x] sorted(2) by (cases "x = c") auto
    qed
    show "\<forall>c\<in>set cs. \<forall>d\<in>set cs. P (cc_at d) \<longrightarrow> cc_id c \<noteq> skip \<longrightarrow> until < cc_at c \<longrightarrow> cc_at c < cc_at d \<longrightarrow>
           held s (cc_at d) - held s (cc_at c) = cc_counted d - cc_counted c"
      using apart by simp
  qed
  consider (skip) "cc_id c = skip" | (kept) "cc_id c \<noteq> skip" "?e = cc_expected c" "cc_at c \<le> until"
    | (stop) "cc_id c \<noteq> skip" "?e = cc_expected c" "until < cc_at c" | (redo) "cc_id c \<noteq> skip" "?e \<noteq> cc_expected c"
    by linarith
  then show ?case
  proof cases
    case skip
    then show ?thesis using tail anch c by simp
  next
    case kept
    then have "anchored s c" using sync c by (simp add: anchored_def)
    then show ?thesis using kept tail by (simp add: Let_def)
  next
    case stop
    then have a: "anchored s c" using sync c by (simp add: anchored_def)
    have "anchored s d" if d: "d \<in> set cs" "P (cc_at d)" for d
    proof -
      have "held s (cc_at d) - held s (cc_at c) = cc_counted d - cc_counted c"
        using apart d stop(1,3) sorted(2)[OF d(1)] by simp
      then show ?thesis using a anchored_iff[OF ok] c cs d(1) sync by (auto simp: subset_iff)
    qed
    then have "anchored s x" if "x \<in> set (counts s)" "P (cc_at x)" for x using that anch[of x] a by auto
    then show ?thesis using stop ok sync by (simp add: anchored_where_def)
  next
    case redo
    define s' where "s' = recalculate_count env p c ?k ?e s"
    obtain c' k where r: "counts s' = row_put cc_id c' (counts s)" "cc_id c' = cc_id c" "cc_at c' = cc_at c"
        "cc_counted c' = cc_counted c" "register_ok env s'" "\<forall>x\<in>set (counts s'). synced s' x" "anchored s' c'"
        "\<And>t. held s' t = held s t + (if cc_at c \<le> t then k else 0)"
      using recalculate[OF ok assms(1) c sync s'_def] by blast
    have set': "set (counts s') = insert c' {x \<in> set (counts s). cc_id x \<noteq> cc_id c}"
      using set_row_put[OF c, of cc_id c'] r(1,2) by simp
    have cs': "set cs \<subseteq> set (counts s')"
      using cs sorted(2) set' key_inj[OF register_okD(2)[OF ok] c] by auto
    have "anchored_where P env (reconcile_loop env p until skip cs s') \<and>
        (\<forall>t. (\<forall>c\<in>set cs. t < cc_at c) \<longrightarrow> held (reconcile_loop env p until skip cs s') t = held s' t)"
    proof (rule Cons.IH[OF r(5,6) sorted(1) cs'])
      show "\<forall>x\<in>set (counts s'). P (cc_at x) \<longrightarrow> x \<notin> set cs \<or> cc_id x = skip \<longrightarrow>
          anchored s' x \<and> (\<forall>d\<in>set cs. cc_id d \<noteq> skip \<longrightarrow> cc_at x < cc_at d)"
      proof (intro ballI impI)
        fix x
        assume x: "x \<in> set (counts s')" "P (cc_at x)" "x \<notin> set cs \<or> cc_id x = skip"
        show "anchored s' x \<and> (\<forall>d\<in>set cs. cc_id d \<noteq> skip \<longrightarrow> cc_at x < cc_at d)"
        proof (cases "x = c'")
          case True
          then show ?thesis using r(3,7) sorted(2) by simp
        next
          case False
          then have old: "x \<in> set (counts s)" "cc_id x \<noteq> cc_id c" using x(1) set' by auto
          then have far: "x \<notin> set (c # cs) \<or> cc_id x = skip" using x(3) by auto
          then have lt: "cc_at x < cc_at c" using later[OF old(1) x(2) far, of c] redo(1) by simp
          have "held s' (cc_at x) = cc_counted x"
            using r(8)[of "cc_at x"] lt anch[OF old(1) x(2) far] anchored_iff[OF ok old(1)] by simp
          then show ?thesis
            using anchored_iff[OF r(5) x(1)] r(6) x(1) lt sorted(2) by fastforce
        qed
      qed
      show "\<forall>c\<in>set cs. \<forall>d\<in>set cs. P (cc_at d) \<longrightarrow> cc_id c \<noteq> skip \<longrightarrow> until < cc_at c \<longrightarrow> cc_at c < cc_at d \<longrightarrow>
             held s' (cc_at d) - held s' (cc_at c) = cc_counted d - cc_counted c"
        using apart sorted(2) by (auto simp: r(8) less_imp_le)
    qed
    then show ?thesis using redo r(8) by (simp add: Let_def s'_def[symmetric])
  qed
qed


lemma counts_from:
  assumes "register_ok env s"
  shows "sorted_wrt (\<lambda>a b. cc_at a < cc_at b) (counts_from s t)"
    "set (counts_from s t) = {c \<in> set (counts s). t \<le> cc_at c}"
proof -
  have "distinct (map cc_at (counts_from s t))"
    using register_okD(3)[OF assms] by (auto simp: counts_from_def distinct_map intro: inj_on_subset)
  moreover have "sorted (map cc_at (counts_from s t))" by (simp add: counts_from_def)
  ultimately have "sorted_wrt (<) (map cc_at (counts_from s t))" by (simp add: strict_sorted_iff)
  then show "sorted_wrt (\<lambda>a b. cc_at a < cc_at b) (counts_from s t)" by (simp add: sorted_wrt_map)
  show "set (counts_from s t) = {c \<in> set (counts s). t \<le> cc_at c}" by (auto simp: counts_from_def)
qed

text \<open>
  A change moved the balance only between two moments, by a constant after them: recalculating from the first
  moment on anchors every count again that was anchored before.
\<close>

lemma reconcile_anchors:
  assumes env: "env_ok env" and s0: "anchored_where P env s0" and reach: "reaches P from_time" and ok: "register_ok env s"
    and sync: "\<forall>x\<in>set (counts s). synced s x"
    and old: "\<And>x. x \<in> set (counts s) \<Longrightarrow> cc_id x \<noteq> skip \<Longrightarrow> x \<in> set (counts s0)"
    and earlier: "\<And>t. t < from_time \<Longrightarrow> held s t = held s0 t"
    and later: "\<And>t. until < t \<Longrightarrow> held s t = held s0 t + k"
    and skipped: "\<And>x. x \<in> set (counts s) \<Longrightarrow> cc_id x = skip \<Longrightarrow> anchored s x"
    and gap: "\<And>x y. x \<in> set (counts s) \<Longrightarrow> y \<in> set (counts s) \<Longrightarrow> cc_id x = skip \<Longrightarrow> cc_id y \<noteq> skip \<Longrightarrow>
                from_time \<le> cc_at y \<Longrightarrow> cc_at x < cc_at y"
  shows "anchored_where P env (reconcile_counts env p from_time until skip s) \<and>
    (\<forall>t<from_time. held (reconcile_counts env p from_time until skip s) t = held s0 t)"
proof -
  note ok0 = anchored_whereD(1)[OF s0] and anch0 = anchored_whereD(3)[OF s0]
  have counted: "held s0 (cc_at x) = cc_counted x" if "x \<in> set (counts s)" "cc_id x \<noteq> skip" "P (cc_at x)" for x
    using anchored_iff[OF ok0 old[OF that(1,2)]] anch0[OF old[OF that(1,2)] that(3)] by simp
  note cf = counts_from[OF ok, of from_time]
  have "anchored_where P env (reconcile_loop env p until skip (counts_from s from_time) s) \<and>
    (\<forall>t. (\<forall>c\<in>set (counts_from s from_time). t < cc_at c) \<longrightarrow>
         held (reconcile_loop env p until skip (counts_from s from_time) s) t = held s t)"
  proof (rule reconcile_loop_anchors[OF env ok sync cf(1)])
    show "set (counts_from s from_time) \<subseteq> set (counts s)" by (simp add: cf(2))
    show "\<forall>x\<in>set (counts s). P (cc_at x) \<longrightarrow> x \<notin> set (counts_from s from_time) \<or> cc_id x = skip \<longrightarrow>
        anchored s x \<and> (\<forall>c\<in>set (counts_from s from_time). cc_id c \<noteq> skip \<longrightarrow> cc_at x < cc_at c)"
    proof (intro ballI impI)
      fix x
      assume x: "x \<in> set (counts s)" "P (cc_at x)" "x \<notin> set (counts_from s from_time) \<or> cc_id x = skip"
      show "anchored s x \<and> (\<forall>c\<in>set (counts_from s from_time). cc_id c \<noteq> skip \<longrightarrow> cc_at x < cc_at c)"
      proof (cases "cc_id x = skip")
        case True
        then show ?thesis using skipped[OF x(1)] gap[OF x(1)] by (simp add: cf(2))
      next
        case False
        then have lt: "cc_at x < from_time" using x by (simp add: cf(2) not_le)
        then have "held s (cc_at x) = cc_counted x" using earlier counted[OF x(1) False x(2)] by simp
        then show ?thesis using anchored_iff[OF ok x(1)] sync x(1) lt by (auto simp: cf(2))
      qed
    qed
    show "\<forall>c\<in>set (counts_from s from_time). \<forall>d\<in>set (counts_from s from_time). P (cc_at d) \<longrightarrow> cc_id c \<noteq> skip \<longrightarrow>
        until < cc_at c \<longrightarrow> cc_at c < cc_at d \<longrightarrow> held s (cc_at d) - held s (cc_at c) = cc_counted d - cc_counted c"
    proof (intro ballI impI)
      fix c d
      assume cd: "c \<in> set (counts_from s from_time)" "d \<in> set (counts_from s from_time)" "P (cc_at d)" "cc_id c \<noteq> skip"
        "until < cc_at c" "cc_at c < cc_at d"
      have "P (cc_at c)" using reach cd(1,3) by (auto simp: reaches_def cf(2))
      moreover have "cc_id d \<noteq> skip" using gap[of d c] cd by (auto simp: cf(2))
      ultimately show "held s (cc_at d) - held s (cc_at c) = cc_counted d - cc_counted c"
        using cd counted[of c] counted[of d] later[of "cc_at c"] later[of "cc_at d"] by (simp add: cf(2))
    qed
  qed
  then show ?thesis using earlier by (auto simp: reconcile_counts_def cf(2))
qed

lemma synced_moved:
  assumes "\<And>i. corrections_of s' i = corrections_of s i" "counts s' = counts s" "anchored_where P env s"
  shows "\<forall>x\<in>set (counts s'). synced s' x"
  using assms by (auto simp: anchored_where_def anchored_def synced_def)

section \<open>The operations keep every count anchored\<close>

lemma anchored_where_audit [simp]: "anchored_where P env (write_audit p a r i fs s) = anchored_where P env s"
proof (cases "register_ok env s")
  case True
  then have "anchored (write_audit p a r i fs s) c = anchored s c" if "c \<in> set (counts s)" for c
    using that anchored_iff[of env "write_audit p a r i fs s" c] anchored_iff[of env s c]
    by (simp add: synced_cong[of "write_audit p a r i fs s" c s])
  moreover have "synced (write_audit p a r i fs s) c = synced s c" for c by (rule synced_cong) simp
  ultimately show ?thesis by (simp add: anchored_where_def)
qed (simp add: anchored_where_def)

lemma rebook_movement_anchors:
  assumes env: "env_ok env" and s: "anchored_where P env s" and m: "m \<in> set (movements s)" "mv_kind m \<noteq> cash_correction"
    and r: "mv_id r = mv_id m" "mv_kind r = mv_kind m" "mv_count r = mv_count m" "mv_at r mod 1000 = 0"
    and reach: "reaches P (min (mv_at m) (mv_at r))" and run: "rebook_movement env p m r fs s = Inr (s', v)"
  shows "anchored_where P env s' \<and> (\<forall>t<min (mv_at m) (mv_at r). held s' t = held s t)"
proof -
  let ?from = "min (mv_at m) (mv_at r)" and ?until = "max (mv_at m) (mv_at r)"
  define r' where "r' = r\<lparr>mv_version := mv_version r + 1\<rparr>"
  define s1 where "s1 = s\<lparr>movements := row_put mv_id r' (movements s)\<rparr>"
  have s': "s' = write_audit p ''cash_movement.updated'' ''cash_movement'' (mv_id m) fs
                   (reconcile_counts env p ?from ?until [] s1)"
    using run by (auto simp: rebook_movement_def Let_def update_movement_def and_then_Inr_iff s1_def r'_def)
  have ok: "register_ok env s" using s by (simp add: anchored_where_def)
  have mok: "movement_ok m" by (rule register_okD(4)[OF ok m(1)])
  have none: "mv_count m = None" using mok m(2) by (auto simp: movement_ok_def)
  have rok: "movement_ok r'" using mok r by (auto simp: movement_ok_def r'_def)
  have f: "payments s1 = payments s" "counts s1 = counts s" "movements s1 = row_put mv_id r' (movements s)"
    "ids_used s1 = ids_used s" by (simp_all add: s1_def)
  have r': "mv_id r' = mv_id m" "mv_count r' = mv_count m" using r by (simp_all add: r'_def)
  note pt = movement_put[OF ok m(1) r'(1) rok r'(2) f]
  have same: "corrections_of s1 i = corrections_of s i" for i
  proof -
    have "mv_id m \<notin> mv_id ` set (corrections_of s i)"
      using key_inj[OF register_okD(1)[OF ok] m(1)] none by (fastforce simp: corrections_of_def)
    then show ?thesis using pt(3)[of i] r'(1) by simp
  qed
  have "anchored_where P env (reconcile_counts env p ?from ?until [] s1) \<and>
      (\<forall>t<?from. held (reconcile_counts env p ?from ?until [] s1) t = held s t)"
  proof (rule reconcile_anchors[OF env s reach pt(1) synced_moved[OF same f(2) s],
        where k = "movement_effect r' - movement_effect m"])
    show "x \<in> set (counts s)" if "x \<in> set (counts s1)" for x using that f by simp
    show "held s1 t = held s t" if "t < ?from" for t using pt(2)[of t] that by (simp add: moved_by_def r'_def)
    show "held s1 t = held s t + (movement_effect r' - movement_effect m)" if "?until < t" for t
      using pt(2)[of t] that by (simp add: moved_by_def r'_def)
  qed (use register_okD(5)[OF pt(1)] in \<open>auto simp: count_ok_def\<close>)
  then show ?thesis by (simp add: s')
qed


lemma delete_movement_anchors:
  fixes p
  assumes env: "env_ok env" and s: "anchored_where P env s" and m: "m \<in> set (movements s)" "mv_kind m \<noteq> cash_correction"
    and reach: "reaches P (mv_at m)"
  defines "s' \<equiv> reconcile_counts env p (mv_at m) (mv_at m) [] (delete_movement (mv_id m) s)"
  shows "anchored_where P env s' \<and> (\<forall>t<mv_at m. held s' t = held s t)"
proof -
  let ?s1 = "delete_movement (mv_id m) s"
  have ok: "register_ok env s" using s by (simp add: anchored_where_def)
  have none: "mv_count m = None" using register_okD(4)[OF ok m(1)] m(2) by (auto simp: movement_ok_def)
  have f: "payments ?s1 = payments s" "counts ?s1 = counts s" "movements ?s1 = row_drop mv_id (mv_id m) (movements s)"
    "ids_used ?s1 = ids_used s" by (simp_all add: delete_movement_def)
  note dr = movement_drop[OF ok m(1) f]
  have same: "corrections_of ?s1 i = corrections_of s i" for i
  proof -
    have "mv_id m \<notin> mv_id ` set (corrections_of s i)"
      using key_inj[OF register_okD(1)[OF ok] m(1)] none by (fastforce simp: corrections_of_def)
    then show ?thesis using dr(3)[of i] by simp
  qed
  show ?thesis
    unfolding s'_def
  proof (rule reconcile_anchors[OF env s reach dr(1) synced_moved[OF same f(2) s], where k = "- movement_effect m"])
    show "x \<in> set (counts s)" if "x \<in> set (counts ?s1)" for x using that f by simp
    show "held ?s1 t = held s t" if "t < mv_at m" for t using dr(2)[of t] that by (simp add: moved_by_def)
    show "held ?s1 t = held s t + - movement_effect m" if "mv_at m < t" for t
      using dr(2)[of t] that by (simp add: moved_by_def)
  qed (use register_okD(5)[OF dr(1)] in \<open>auto simp: count_ok_def\<close>)
qed

lemma check_count_order_between:
  assumes "check_count_order s current at = Inr u" "x \<in> set (counts s)"
  shows "cc_at x < current \<Longrightarrow> cc_at x < at" "current < cc_at x \<Longrightarrow> at < cc_at x"
proof -
  have all: "(case newest_of (filter (\<lambda>t. t < current) (map cc_at (counts s))) of None \<Rightarrow> True | Some t \<Rightarrow> t < at)"
    "(case oldest_of (filter (\<lambda>t. current < t) (map cc_at (counts s))) of None \<Rightarrow> True | Some t \<Rightarrow> at < t)"
    using assms(1) by (auto simp: check_count_order_def Let_def)
  show "cc_at x < at" if "cc_at x < current"
  proof -
    have x: "cc_at x \<in> set (filter (\<lambda>t. t < current) (map cc_at (counts s)))" using assms(2) that by auto
    then have "filter (\<lambda>t. t < current) (map cc_at (counts s)) \<noteq> []" by (metis empty_iff list.set(1))
    then have "Max (set (filter (\<lambda>t. t < current) (map cc_at (counts s)))) < at" using all(1) unfolding newest_of_def by auto
    then show ?thesis using Max_ge[OF finite_set x] by linarith
  qed
  show "at < cc_at x" if "current < cc_at x"
  proof -
    have x: "cc_at x \<in> set (filter (\<lambda>t. current < t) (map cc_at (counts s)))" using assms(2) that by auto
    then have "filter (\<lambda>t. current < t) (map cc_at (counts s)) \<noteq> []" by (metis empty_iff list.set(1))
    then have "at < Min (set (filter (\<lambda>t. current < t) (map cc_at (counts s))))" using all(2) unfolding oldest_of_def by auto
    then show ?thesis using Min_le[OF finite_set x] by linarith
  qed
qed

text \<open>A count row that took the expected amount at its new time, with its correction in step.\<close>

lemma rebook_count_anchors:
  assumes env: "env_ok env" and s: "anchored_where P env s" and c: "c \<in> set (counts s)"
    and r: "cc_id r = cc_id c" "cc_at r mod 1000 = 0" "cc_difference r = cc_counted r - cc_expected r"
      "cc_expected r = expected_at_count s (cc_at r) (count_correction s (cc_id c))"
    and order: "\<And>x. x \<in> set (counts s) \<Longrightarrow> cc_at x < cc_at c \<Longrightarrow> cc_at x < cc_at r"
      "\<And>x. x \<in> set (counts s) \<Longrightarrow> cc_at c < cc_at x \<Longrightarrow> cc_at r < cc_at x"
    and reach: "reaches P (min (cc_at c) (cc_at r))"
    and run: "rebook_count env p c r (count_correction s (cc_id c)) s = Inr (s', v)"
  shows "anchored_where P env s' \<and> (\<forall>t<min (cc_at c) (cc_at r). held s' t = held s t)"
proof -
  let ?from = "min (cc_at c) (cc_at r)" and ?until = "max (cc_at c) (cc_at r)"
  define k where "k = count_correction s (cc_id c)"
  define r' where "r' = r\<lparr>cc_version := cc_version r + 1\<rparr>"
  define s2 where "s2 = write_audit p ''cash_count.updated'' ''cash_count'' (cc_id c) (count_fields c r)
                          (s\<lparr>counts := row_put cc_id r' (counts s)\<rparr>)"
  define s3 where "s3 = sync_count_correction env p r' k s2"
  have s': "s' = reconcile_counts env p ?from ?until (cc_id c) s3"
    using run by (auto simp: rebook_count_def Let_def update_count_def and_then_Inr_iff s2_def s3_def r'_def k_def)
  have ok: "register_ok env s" and sync: "synced s c" and sync_all: "\<And>x. x \<in> set (counts s) \<Longrightarrow> synced s x"
    using s c by (simp_all add: anchored_where_def)
  have fields: "cc_id r' = cc_id c" "cc_at r' = cc_at r" "cc_difference r' = cc_counted r' - cc_expected r'"
    using r by (simp_all add: r'_def)
  have apart: "cc_at x \<noteq> cc_at r" if "x \<in> set (counts s)" "cc_id x \<noteq> cc_id c" for x
    using key_inj[OF register_okD(3)[OF ok] c that(1)] order[OF that(1)] that(2) by (metis less_irrefl linorder_cases)
  have at: "cc_at r' \<notin> cc_at ` {x \<in> set (counts s). cc_id x \<noteq> cc_id c}"
  proof
    assume "cc_at r' \<in> cc_at ` {x \<in> set (counts s). cc_id x \<noteq> cc_id c}"
    then obtain x where "x \<in> set (counts s)" "cc_id x \<noteq> cc_id c" "cc_at r' = cc_at x" by blast
    then show False using apart[of x] fields(2) by simp
  qed
  have cok: "count_ok r'" using register_okD(5)[OF ok c] r(1,2) by (simp add: count_ok_def r'_def)
  have ok2: "register_ok env s2"
    unfolding s2_def register_ok_audit by (rule count_put[OF ok c fields(1) cok at]) simp_all
  have same: "corrections_of s2 i = corrections_of s i" "held s2 t = held s t" for i t
    by (simp_all add: s2_def corrections_of_def held_def)
  have set2: "set (counts s2) = insert r' {x \<in> set (counts s). cc_id x \<noteq> cc_id c}"
    using set_row_put[OF c, of cc_id r'] by (simp add: s2_def fields)
  have one: "corrections_of s2 (cc_id r') = (case k of None \<Rightarrow> [] | Some m \<Rightarrow> [m])"
    using corrections_synced[OF sync] by (simp add: same fields k_def)
  have c2: "r' \<in> set (counts s2)" by (simp add: set2)
  have S: "register_ok env s3" "synced s3 r'" "counts s3 = counts s2"
      "\<And>t. held s3 t = held s2 t - (case k of None \<Rightarrow> 0 | Some m \<Rightarrow> moved_by t m) +
             (if cc_at r' \<le> t then cc_difference r' else 0)"
      "\<And>i. i \<noteq> cc_id r' \<Longrightarrow> corrections_of s3 i = corrections_of s2 i"
    using sync_correction[OF ok2 env c2 fields(3) one s3_def] by blast+
  have held3: "held s3 t = held s t - (if cc_at c \<le> t then cc_difference c else 0) + (if cc_at r \<le> t then cc_difference r else 0)" for t
    using S(4)[of t] correction_moved[OF ok sync, of t] by (simp add: same k_def r'_def)
  have "held s3 (cc_at r) = cc_counted r"
    using held3[of "cc_at r"] expected_at_synced[OF ok sync r(2)] r(3,4) by simp
  then have anch3: "anchored s3 r'" using anchored_iff[OF S(1)] S(2,3) c2 by (simp add: r'_def)
  have others: "x = r' \<or> (x \<in> set (counts s) \<and> cc_id x \<noteq> cc_id c)" if "x \<in> set (counts s3)" for x
    using that S(3) set2 by auto
  have sync3: "\<forall>x\<in>set (counts s3). synced s3 x"
  proof
    fix x
    assume "x \<in> set (counts s3)"
    then show "synced s3 x"
      using others[of x] S(2) S(5)[of "cc_id x"] fields(1) same(1) synced_cong[of s3 x s] sync_all[of x]
      by auto
  qed
  show ?thesis
    unfolding s'
  proof (rule reconcile_anchors[OF env s reach S(1) sync3, where k = "cc_difference r - cc_difference c"])
    show "x \<in> set (counts s)" if "x \<in> set (counts s3)" "cc_id x \<noteq> cc_id c" for x using others[OF that(1)] that(2) fields(1) by auto
    show "held s3 t = held s t" if "t < ?from" for t using held3[of t] that by simp
    show "held s3 t = held s t + (cc_difference r - cc_difference c)" if "?until < t" for t using held3[of t] that by simp
    show "anchored s3 x" if "x \<in> set (counts s3)" "cc_id x = cc_id c" for x using others[OF that(1)] that(2) anch3 by auto
    show "cc_at x < cc_at y"
      if "x \<in> set (counts s3)" "y \<in> set (counts s3)" "cc_id x = cc_id c" "cc_id y \<noteq> cc_id c" "?from \<le> cc_at y" for x y
    proof -
      have x: "x = r'" using others[OF that(1)] that(3) by simp
      have y: "y \<in> set (counts s)" using others[OF that(2)] that(4) fields(1) by auto
      have ne: "cc_at y \<noteq> cc_at c" using key_inj[OF register_okD(3)[OF ok] c y] that(4) by auto
      have "\<not> cc_at y < cc_at c" using order(1)[OF y] that(5) by auto
      then show ?thesis using order(2)[OF y] ne x fields(2) by simp
    qed
  qed
qed


lemma remove_count_anchors:
  fixes p
  assumes env: "env_ok env" and s: "anchored_where P env s" and c: "c \<in> set (counts s)" and reach: "reaches P (cc_at c)"
  defines "s' \<equiv> reconcile_counts env p (cc_at c) (cc_at c) (cc_id c) (remove_count p c s)"
  shows "anchored_where P env s' \<and> (\<forall>t<cc_at c. held s' t = held s t)"
proof -
  define k where "k = count_correction s (cc_id c)"
  define s1 where "s1 = (case k of None \<Rightarrow> s | Some m \<Rightarrow> delete_movement (mv_id m) s)"
  have ok: "register_ok env s" and sync: "synced s c" and sync_all: "\<And>x. x \<in> set (counts s) \<Longrightarrow> synced s x"
    using s c by (simp_all add: anchored_where_def)
  have S1: "register_ok env s1 \<and> counts s1 = counts s \<and>
      held s1 t = held s t - (case k of None \<Rightarrow> 0 | Some m \<Rightarrow> moved_by t m) \<and>
      corrections_of s1 i = (if i = cc_id c then [] else corrections_of s i)" for t i
  proof (cases k)
    case None
    then show ?thesis using corrections_synced[OF sync] ok by (simp add: s1_def k_def)
  next
    case (Some m)
    then have m: "m \<in> set (movements s)" "mv_count m = Some (cc_id c)" by (simp_all add: k_def count_correctionD)
    have f: "payments s1 = payments s" "counts s1 = counts s" "movements s1 = row_drop mv_id (mv_id m) (movements s)"
      "ids_used s1 = ids_used s" by (simp_all add: s1_def Some delete_movement_def)
    note dr = movement_drop[OF ok m(1) f]
    have "mv_id m \<notin> mv_id ` set (corrections_of s i)" if "i \<noteq> cc_id c"
      using key_inj[OF register_okD(1)[OF ok] m(1)] m(2) that by (fastforce simp: corrections_of_def)
    moreover have "row_drop mv_id (mv_id m) (corrections_of s (cc_id c)) = []"
      using corrections_synced[OF sync] Some by (simp add: k_def row_drop_def)
    ultimately show ?thesis using dr(1,2) dr(3)[of i] f(2) Some by simp
  qed
  have held1: "held s1 t = held s t - (if cc_at c \<le> t then cc_difference c else 0)" for t
    using S1[of t] correction_moved[OF ok sync, of t] by (simp add: k_def)
  define s2 where "s2 = remove_count p c s"
  have s2: "payments s2 = payments s1" "movements s2 = movements s1" "counts s2 = row_drop cc_id (cc_id c) (counts s)"
      "ids_used s2 = ids_used s1"
    using S1 by (simp_all add: s2_def remove_count_def Let_def delete_count_def delete_movement_def s1_def k_def split: option.split)
  have no_link: "mv_count m \<noteq> Some (cc_id c)" if "m \<in> set (movements s1)" for m
    using that S1[of 0 "cc_id c"] by (auto simp: corrections_of_def filter_empty_conv)
  have ok1: "register_ok env s1" using S1 by blast
  have ok2: "register_ok env s2"
  proof -
    have "mv_count m = Some i \<longrightarrow> i \<in> cc_id ` set (counts s2)" if "m \<in> set (movements s1)" for m i
      using register_okD(6)[OF ok1 that] no_link[OF that] S1 s2(3) by auto
    moreover have "set (counts s2) \<subseteq> set (counts s1)" using S1 s2(3) by auto
    ultimately show ?thesis
      using ok1 S1 s2 unfolding register_ok_def by (auto simp: image_iff)
  qed
  have same: "corrections_of s2 i = corrections_of s1 i" "held s2 t = held s1 t" for i t
    by (simp_all add: s2 corrections_of_def held_def)
  have rest: "x \<in> set (counts s) \<and> cc_id x \<noteq> cc_id c" if "x \<in> set (counts s2)" for x
    using that by (simp add: s2(3))
  have sync2: "\<forall>x\<in>set (counts s2). synced s2 x"
    using rest sync_all S1 same(1) by (auto simp: synced_def)
  show ?thesis
    unfolding s'_def s2_def[symmetric]
  proof (rule reconcile_anchors[OF env s reach ok2 sync2, where k = "- cc_difference c"])
    show "held s2 t = held s t" if "t < cc_at c" for t using that by (simp add: same held1)
    show "held s2 t = held s t + - cc_difference c" if "cc_at c < t" for t using that by (simp add: same held1)
  qed (use rest in blast)+
qed

lemma book_count_anchors:
  assumes env: "env_ok env" and s: "anchored_where P env s" and at: "kc_at v mod 1000 = 0"
    and run: "book_count env p key v s = Inr (s', w)"
  shows "anchored_where P env s'"
proof (cases "row_at cc_key key (counts s)")
  case (Some c)
  then show ?thesis using run s by (auto simp: book_count_def and_then_Inr_iff)
next
  case None
  define e where "e = expected_through s (kc_at v)"
  define inserted where "inserted = (\<lambda>reason. insert_count env key v e reason (person_of p) s)"
  define audited where "audited = (\<lambda>reason. write_audit p ''cash_count.recorded'' ''cash_count'' (cc_id (snd (inserted reason)))
      [''countedAmount'', ''expectedAmount'', ''difference'', ''reason''] (fst (inserted reason)))"
  obtain reason where late: "case latest_count_time s of None \<Rightarrow> True | Some t \<Rightarrow> t < kc_at v"
    and s': "s' = (if kc_counted v - e = 0 then audited reason
                   else book_count_correction env p (snd (inserted reason)) (audited reason))"
  proof (rule that)
    show "case latest_count_time s of None \<Rightarrow> True | Some t \<Rightarrow> t < kc_at v"
      using run None by (simp add: book_count_def)
    obtain reason where "count_reason (kc_counted v - e) (kc_reason v) (kc_note v) = Inr reason"
      using run None by (auto simp: book_count_def and_then_Inr_iff Let_def e_def)
    moreover from this show "s' = (if kc_counted v - e = 0 then audited (projr (count_reason (kc_counted v - e) (kc_reason v) (kc_note v)))
        else book_count_correction env p (snd (inserted (projr (count_reason (kc_counted v - e) (kc_reason v) (kc_note v)))))
               (audited (projr (count_reason (kc_counted v - e) (kc_reason v) (kc_note v)))))"
      using run None by (auto simp: book_count_def and_then_Inr_iff Let_def split_beta inserted_def audited_def e_def)
  qed
  define c where "c = snd (inserted reason)"
  define s2 where "s2 = audited reason"
  have s'': "s' = (if cc_difference c = 0 then s2 else book_count_correction env p c s2)"
    by (simp add: s' s2_def c_def inserted_def insert_count_def Let_def)
  note ok = anchored_whereD(1)[OF s] and sync = anchored_whereD(2)[OF s] and anch = anchored_whereD(3)[OF s]
  have c: "cc_id c = new_id env (ids_used s)" "cc_at c = kc_at v" "cc_counted c = kc_counted v" "cc_expected c = e"
      "cc_difference c = cc_counted c - cc_expected c" by (simp_all add: c_def inserted_def insert_count_def Let_def)
  have f: "payments s2 = payments s" "movements s2 = movements s" "counts s2 = counts s @ [c]" "ids_used s2 = Suc (ids_used s)"
    by (simp_all add: s2_def c_def audited_def inserted_def insert_count_def Let_def)
  have newest: "cc_at x < kc_at v" if "x \<in> set (counts s)" for x
  proof -
    have "latest_count_time s = Some (Max (cc_at ` set (counts s)))"
      using that by (auto simp: latest_count_time_def newest_of_def)
    then have "Max (cc_at ` set (counts s)) < kc_at v" using late by simp
    moreover have "cc_at x \<le> Max (cc_at ` set (counts s))" using that by (intro Max_ge) auto
    ultimately show ?thesis by linarith
  qed
  have fresh: "cc_id c \<notin> cc_id ` set (counts s)" using register_okD(7)[OF ok, of "ids_used s"] c(1) by simp
  have ok2: "register_ok env s2"
  proof -
    have "new_id env k \<noteq> cc_id c" if "Suc (ids_used s) \<le> k" for k
      using env c(1) that by (auto simp: env_ok_def inj_eq)
    moreover have "count_ok c" using c(1,2) env at by (simp add: count_ok_def env_ok_def)
    moreover have "cc_at c \<notin> cc_at ` set (counts s)" using newest c(2) by force
    ultimately show ?thesis using ok f fresh unfolding register_ok_def by (auto simp: image_iff)
  qed
  have none: "corrections_of s (cc_id c) = []"
    using fresh register_okD(6)[OF ok] by (auto simp: corrections_of_def filter_empty_conv)
  have same: "corrections_of s2 i = corrections_of s i" "held s2 t = held s t" for i t
    by (simp_all add: f corrections_of_def held_def)
  have c2: "c \<in> set (counts s2)" by (simp add: f)
  have S: "register_ok env s'" "synced s' c" "counts s' = counts s2"
      "\<And>t. held s' t = held s t + (if cc_at c \<le> t then cc_difference c else 0)"
      "\<And>i. i \<noteq> cc_id c \<Longrightarrow> corrections_of s' i = corrections_of s i"
  proof -
    have "register_ok env s' \<and> synced s' c \<and> counts s' = counts s2 \<and>
        (\<forall>t. held s' t = held s t + (if cc_at c \<le> t then cc_difference c else 0)) \<and>
        (\<forall>i. i \<noteq> cc_id c \<longrightarrow> corrections_of s' i = corrections_of s i)"
    proof (cases "cc_difference c = 0")
      case True
      then show ?thesis using s'' ok2 none c(5) by (simp add: synced_def same)
    next
      case False
      then have d: "s' = book_count_correction env p c s2" using s'' by simp
      note b = book_correction[OF ok2 env c2 c(5) _ False d, unfolded same, OF none]
      show ?thesis using b by (simp add: d book_correction_fields same)
    qed
    then show "register_ok env s'" "synced s' c" "counts s' = counts s2"
      "\<And>t. held s' t = held s t + (if cc_at c \<le> t then cc_difference c else 0)"
      "\<And>i. i \<noteq> cc_id c \<Longrightarrow> corrections_of s' i = corrections_of s i" by blast+
  qed
  have "synced s' x \<and> (P (cc_at x) \<longrightarrow> anchored s' x)" if x: "x \<in> set (counts s')" for x
  proof (cases "x = c")
    case True
    have "e = held s (cc_at c)" using expected_through_held[OF ok at] c(2) by (simp add: e_def)
    then have "held s' (cc_at c) = cc_counted c" using S(4)[of "cc_at c"] c(4,5) by simp
    then show ?thesis using True anchored_iff[OF S(1) x] S(2) by simp
  next
    case False
    then have old: "x \<in> set (counts s)" using x S(3) f(3) by simp
    then have "cc_id x \<noteq> cc_id c" using fresh by (metis imageI)
    moreover have "held s' (cc_at x) = cc_counted x" if "P (cc_at x)"
      using S(4)[of "cc_at x"] newest[OF old] c(2) anch[OF old that] anchored_iff[OF ok old] by simp
    ultimately show ?thesis
      using anchored_iff[OF S(1) x] S(5)[of "cc_id x"] synced_cong[of s' x s] sync[OF old] by simp
  qed
  then show ?thesis using S(1) by (simp add: anchored_where_def)
qed

text \<open>A withdrawal or deposit leaves alone the counts before it.\<close>

lemma book_movement_anchors:
  assumes env: "env_ok env" and s: "anchored_where P env s" and at: "occurred mod 1000 = 0"
    and kind: "mi_kind input = cash_withdrawal \<or> mi_kind input = cash_deposit"
    and late: "\<And>c. c \<in> set (counts s) \<Longrightarrow> P (cc_at c) \<Longrightarrow> cc_at c < occurred"
    and run: "book_movement env p input amount note occurred s = Inr (s', w)"
  shows "anchored_where P env s'"
proof (cases "row_at mv_key (mi_key input) (movements s)")
  case (Some m)
  then show ?thesis using run s by (auto simp: book_movement_def and_then_Inr_iff)
next
  case None
  define m where "m = \<lparr>mv_id = new_id env (ids_used s), mv_reference = reference ''C'' (now env) (movement_seq s + 1),
      mv_key = mi_key input, mv_kind = mi_kind input, mv_amount = amount, mv_reason = mi_reason input,
      mv_note = note, mv_at = occurred, mv_person = person_of p, mv_count = None, mv_version = 1\<rparr>"
  define s1 where "s1 = s\<lparr>movements := movements s @ [m], movement_seq := movement_seq s + 1, ids_used := Suc (ids_used s)\<rparr>"
  have s': "s' = write_audit p ''cash_movement.recorded'' ''cash_movement'' (mv_id m) [''kind'', ''amount'', ''reason''] s1"
    using run None by (auto simp: book_movement_def insert_movement_def Let_def and_then_Inr_iff m_def s1_def)
  note ok = anchored_whereD(1)[OF s] and sync = anchored_whereD(2)[OF s] and anch = anchored_whereD(3)[OF s]
  have mok: "movement_ok m" using kind at by (auto simp: movement_ok_def m_def)
  have mid: "mv_id m = new_id env (ids_used s)" and fk: "\<And>i. mv_count m = Some i \<Longrightarrow> i \<in> cc_id ` set (counts s)"
    by (simp_all add: m_def)
  have f: "payments s1 = payments s" "counts s1 = counts s" "movements s1 = movements s @ [m]" "ids_used s < ids_used s1"
    by (simp_all add: s1_def)
  note app = movement_append[OF ok env mid mok fk f]
  have "synced s1 x \<and> (P (cc_at x) \<longrightarrow> anchored s1 x)" if "x \<in> set (counts s1)" for x
  proof -
    have x: "x \<in> set (counts s)" using that f(2) by simp
    have "held s1 (cc_at x) = held s (cc_at x)" if "P (cc_at x)"
      using app(2)[of "cc_at x"] late[OF x that] by (simp add: moved_by_def m_def)
    moreover have "corrections_of s1 i = corrections_of s i" for i using app(3)[of i] by (simp add: m_def)
    ultimately show ?thesis
      using anchored_iff[OF app(1) that] anchored_iff[OF ok x] anch[OF x] sync[OF x] synced_cong[of s1 x s] by simp
  qed
  then have "anchored_where P env s1" using app(1) by (simp add: anchored_where_def)
  then show ?thesis by (simp add: s')
qed


section \<open>Commands\<close>

datatype cash_command =
  Move movement_input
| Count count_input
| Edit_Movement string movement_change
| Delete_Movement string int
| Edit_Count string count_change
| Delete_Count string int

fun run_cash :: "cash_env \<Rightarrow> actor \<Rightarrow> cash_command \<Rightarrow> cash_store \<Rightarrow> app_error + cash_store" where
  "run_cash env p (Move i) s = and_then (create_cash_movement env p i s) (\<lambda>r. Inr (fst r))"
| "run_cash env p (Count i) s = and_then (record_cash_count env p i s) (\<lambda>r. Inr (fst r))"
| "run_cash env p (Edit_Movement i c) s = and_then (update_cash_movement env p i c s) (\<lambda>r. Inr (fst r))"
| "run_cash env p (Delete_Movement i v) s = delete_cash_movement env p i v s"
| "run_cash env p (Edit_Count i c) s = and_then (update_cash_count env p i c s) (\<lambda>r. Inr (fst r))"
| "run_cash env p (Delete_Count i v) s = delete_cash_count env p i v s"

text \<open>The first moment that an edit or a deletion changes.\<close>

definition edited_from :: "cash_command \<Rightarrow> cash_store \<Rightarrow> time" where
  "edited_from cmd s =
     (let moved = (\<lambda>t at. case at of None \<Rightarrow> t | Some u \<Rightarrow> min t (truncate_micro u)) in
      case cmd of
        Edit_Movement i ch \<Rightarrow> (case row_at mv_id i (movements s) of None \<Rightarrow> 0 | Some m \<Rightarrow> moved (mv_at m) (mc_at ch))
      | Delete_Movement i v \<Rightarrow> (case row_at mv_id i (movements s) of None \<Rightarrow> 0 | Some m \<Rightarrow> mv_at m)
      | Edit_Count i ch \<Rightarrow> (case row_at cc_id i (counts s) of None \<Rightarrow> 0 | Some c \<Rightarrow> moved (cc_at c) (ch_at ch))
      | Delete_Count i v \<Rightarrow> (case row_at cc_id i (counts s) of None \<Rightarrow> 0 | Some c \<Rightarrow> cc_at c)
      | _ \<Rightarrow> 0)"

text \<open>What an accepted edit left: a state in which the balance was checked from the first moment it changed.\<close>

definition guarded :: "cash_store \<Rightarrow> cash_store \<Rightarrow> bool" where
  "guarded s s' \<longleftrightarrow> s' = s \<or>
     (\<exists>from_time. check_balance_after s' from_time (lowest_balance s from_time) = Inr () \<and>
        (\<forall>t<from_time. held s' t = held s t))"

lemma check_balance_audit [simp]:
  "check_balance_after (write_audit p a r i fs s) = check_balance_after s"
  by (intro ext) (simp add: check_balance_after_def lowest_balance_def running_balance_def register_entries_def)

lemma apply_movement_change_keeps:
  assumes "apply_movement_change amount occurred reason note m = (r, fs)"
  shows "mv_id r = mv_id m \<and> mv_kind r = mv_kind m \<and> mv_count r = mv_count m \<and>
    mv_at r = (case occurred of None \<Rightarrow> mv_at m | Some t \<Rightarrow> t)"
  using assms by (auto simp: apply_movement_change_def split: option.splits)

lemma checked_time:
  "checked_option (\<lambda>t. cash_entry_time env t what) v = Inr w \<Longrightarrow> w = map_option truncate_micro v"
  by (auto simp: checked_option_def cash_entry_time_def and_then_Inr_iff split: option.splits)

lemma update_movement_anchors:
  assumes env: "env_ok env" and s: "anchored_where P env s" and reach: "reaches P (edited_from (Edit_Movement i change) s)"
    and run: "update_cash_movement env p i change s = Inr (s', v)"
  shows "anchored_where P env s' \<and> guarded s s'"
proof -
  obtain m where m: "row_at mv_id i (movements s) = Some m"
    using run by (cases "row_at mv_id i (movements s)") (auto simp: update_cash_movement_def and_then_Inr_iff)
  define ch where "ch = (\<lambda>amount occurred. apply_movement_change amount occurred (mc_reason change)
      (map_option trim_space (mc_note change)) m)"
  obtain amount occurred where kind: "mv_kind m \<noteq> cash_correction"
    and at: "checked_option (\<lambda>t. cash_entry_time env t ''movement'') (mc_at change) = Inr occurred"
    and cases: "s' = s \<or> rebook_movement env p m (fst (ch amount occurred)) (snd (ch amount occurred)) s = Inr (s', v)"
    using run by (auto simp: update_cash_movement_def and_then_Inr_iff Let_def split_beta m ch_def split: if_splits)
  have mem: "m \<in> set (movements s)" using row_atD[OF m] by blast
  have grid: "mv_at m mod 1000 = 0"
    using s register_okD(4)[OF _ mem] by (auto simp: anchored_where_def movement_ok_def)
  from cases show ?thesis
  proof (elim disjE)
    assume r: "rebook_movement env p m (fst (ch amount occurred)) (snd (ch amount occurred)) s = Inr (s', v)"
    have k: "mv_id (fst (ch amount occurred)) = mv_id m" "mv_kind (fst (ch amount occurred)) = mv_kind m"
      "mv_count (fst (ch amount occurred)) = mv_count m"
      "mv_at (fst (ch amount occurred)) = (case occurred of None \<Rightarrow> mv_at m | Some t \<Rightarrow> t)"
      unfolding ch_def using apply_movement_change_keeps[OF prod.collapse[symmetric]] by blast+
    have "mv_at (fst (ch amount occurred)) mod 1000 = 0" using k(4) grid checked_time[OF at] by (cases "mc_at change") auto
    moreover have "reaches P (min (mv_at m) (mv_at (fst (ch amount occurred))))"
      using reach k(4) checked_time[OF at] m by (cases "mc_at change") (simp_all add: edited_from_def)
    ultimately have A: "anchored_where P env s' \<and> (\<forall>t<min (mv_at m) (mv_at (fst (ch amount occurred))). held s' t = held s t)"
      by (intro rebook_movement_anchors[OF env s mem kind k(1-3) _ _ r])
    have "check_balance_after s' (min (mv_at m) (mv_at (fst (ch amount occurred))))
        (lowest_balance s (min (mv_at m) (mv_at (fst (ch amount occurred))))) = Inr ()"
      using r by (auto simp: rebook_movement_def Let_def split_beta and_then_Inr_iff)
    then show ?thesis using A by (auto simp: guarded_def)
  qed (use s in \<open>simp add: guarded_def\<close>)
qed

lemma delete_movement_op_anchors:
  assumes env: "env_ok env" and s: "anchored_where P env s" and reach: "reaches P (edited_from (Delete_Movement i n) s)"
    and run: "delete_cash_movement env p i n s = Inr s'"
  shows "anchored_where P env s' \<and> guarded s s'"
proof -
  obtain m where m: "row_at mv_id i (movements s) = Some m"
    using run by (cases "row_at mv_id i (movements s)") (auto simp: delete_cash_movement_def and_then_Inr_iff)
  define s1 where "s1 = reconcile_counts env p (mv_at m) (mv_at m) [] (delete_movement (mv_id m) s)"
  have kind: "mv_kind m \<noteq> cash_correction" and checked: "check_balance_after s1 (mv_at m) (lowest_balance s (mv_at m)) = Inr ()"
    and s': "s' = write_audit p ''cash_movement.deleted'' ''cash_movement'' (mv_id m) [] s1"
    using run by (auto simp: delete_cash_movement_def and_then_Inr_iff Let_def m s1_def)
  have mem: "m \<in> set (movements s)" using row_atD[OF m] by blast
  show ?thesis
    using delete_movement_anchors[OF env s mem kind, of p] reach m checked
    by (auto simp: s' s1_def[symmetric] guarded_def edited_from_def)
qed

lemma change_count_anchors:
  assumes env: "env_ok env" and s: "anchored_where P env s" and c: "c \<in> set (counts s)"
    and at: "\<And>t. kh_at v = Some t \<Longrightarrow> t mod 1000 = 0" and reach: "reaches P (min (cc_at c) (case_option (cc_at c) id (kh_at v)))"
    and run: "change_count env p c v s = Inr (s', w)"
  shows "anchored_where P env s' \<and> guarded s s'"
proof -
  let ?at = "case_option (cc_at c) id (kh_at v)"
  define e where "e = expected_at_count s ?at (count_correction s (cc_id c))"
  define row where "row = (\<lambda>reason. c\<lparr>cc_counted := case_option (cc_counted c) id (kh_counted v), cc_expected := e,
      cc_difference := case_option (cc_counted c) id (kh_counted v) - e, cc_reason := reason,
      cc_note := case_option (cc_note c) id (kh_note v), cc_at := ?at\<rparr>)"
  have moved: "?at \<noteq> cc_at c \<Longrightarrow> check_count_order s (cc_at c) ?at = Inr ()"
    using run by (auto simp: change_count_def and_then_Inr_iff Let_def)
  have "s' = s \<or> (\<exists>reason. rebook_count env p c (row reason) (count_correction s (cc_id c)) s = Inr (s', w))"
    using run by (auto simp: change_count_def and_then_Inr_iff Let_def row_def e_def split: if_splits)
  then show ?thesis
  proof (elim disjE exE)
    fix reason
    assume r: "rebook_count env p c (row reason) (count_correction s (cc_id c)) s = Inr (s', w)"
    have fields: "cc_id (row reason) = cc_id c" "cc_at (row reason) = ?at"
        "cc_difference (row reason) = cc_counted (row reason) - cc_expected (row reason)"
        "cc_expected (row reason) = e" by (simp_all add: row_def)
    have grid: "?at mod 1000 = 0"
      using s register_okD(5)[of env s c] c at by (auto simp: anchored_where_def count_ok_def split: option.split)
    have "anchored_where P env s' \<and> (\<forall>t<min (cc_at c) (cc_at (row reason)). held s' t = held s t)"
    proof (rule rebook_count_anchors[OF env s c fields(1) _ fields(3) _ _ _ _ r])
      show "reaches P (min (cc_at c) (cc_at (row reason)))" using reach fields(2) by simp
      show "cc_at (row reason) mod 1000 = 0" using grid fields(2) by simp
      show "cc_expected (row reason) = expected_at_count s (cc_at (row reason)) (count_correction s (cc_id c))"
        by (simp add: fields e_def)
      show "cc_at x < cc_at (row reason)" if "x \<in> set (counts s)" "cc_at x < cc_at c" for x
        using check_count_order_between(1)[OF moved] that fields(2) by (cases "?at = cc_at c") auto
      show "cc_at (row reason) < cc_at x" if "x \<in> set (counts s)" "cc_at c < cc_at x" for x
        using check_count_order_between(2)[OF moved] that fields(2) by (cases "?at = cc_at c") auto
    qed
    moreover have "check_balance_after s' (min (cc_at c) (cc_at (row reason)))
        (lowest_balance s (min (cc_at c) (cc_at (row reason)))) = Inr ()"
      using r by (auto simp: rebook_count_def Let_def split_beta and_then_Inr_iff)
    ultimately show ?thesis by (auto simp: guarded_def)
  qed (use s in \<open>simp add: guarded_def\<close>)
qed

lemma update_count_anchors:
  assumes env: "env_ok env" and s: "anchored_where P env s" and reach: "reaches P (edited_from (Edit_Count i change) s)"
    and run: "update_cash_count env p i change s = Inr (s', w)"
  shows "anchored_where P env s' \<and> guarded s s'"
proof -
  obtain c where c: "row_at cc_id i (counts s) = Some c"
    using run by (cases "row_at cc_id i (counts s)") (auto simp: update_cash_count_def and_then_Inr_iff)
  obtain v where v: "validate_count_change env change = Inr v" and ch: "change_count env p c v s = Inr (s', w)"
    using run by (auto simp: update_cash_count_def and_then_Inr_iff c)
  have new: "kh_at v = map_option truncate_micro (ch_at change)"
    using v checked_time by (auto simp: validate_count_change_def and_then_Inr_iff Let_def)
  then have "t mod 1000 = 0" if "kh_at v = Some t" for t using that by (cases "ch_at change") auto
  moreover have "reaches P (min (cc_at c) (case_option (cc_at c) id (kh_at v)))"
    using reach new c by (cases "ch_at change") (simp_all add: edited_from_def)
  ultimately show ?thesis using change_count_anchors[OF env s _ _ _ ch] row_atD[OF c] by blast
qed

lemma delete_count_anchors:
  assumes env: "env_ok env" and s: "anchored_where P env s" and reach: "reaches P (edited_from (Delete_Count i n) s)"
    and run: "delete_cash_count env p i n s = Inr s'"
  shows "anchored_where P env s' \<and> guarded s s'"
proof -
  obtain c where c: "row_at cc_id i (counts s) = Some c"
    using run by (cases "row_at cc_id i (counts s)") (auto simp: delete_cash_count_def and_then_Inr_iff)
  have checked: "check_balance_after s' (cc_at c) (lowest_balance s (cc_at c)) = Inr ()"
    and s': "s' = reconcile_counts env p (cc_at c) (cc_at c) (cc_id c) (remove_count p c s)"
    using run by (auto simp: delete_cash_count_def and_then_Inr_iff Let_def c)
  show ?thesis
    using remove_count_anchors[OF env s, of c p] row_atD[OF c] reach c checked by (auto simp: s' guarded_def edited_from_def)
qed

section \<open>Histories\<close>

text \<open>
  A movement or a payment that is recorded for a time at or before a count leaves that count, and those after it, as they
  are; so does an edit that begins at such a count, which may stop there. The watermark is the latest count there was
  when this last happened; with none, no count is stale.
\<close>

definition after_counts :: "time \<Rightarrow> cash_store \<Rightarrow> bool" where
  "after_counts t s \<longleftrightarrow> list_all (\<lambda>c. cc_at c < t) (counts s)"

definition later_than :: "time option \<Rightarrow> time \<Rightarrow> bool" where
  "later_than w t \<longleftrightarrow> (case w of None \<Rightarrow> True | Some u \<Rightarrow> u < t)"

definition recorded_mark :: "time \<Rightarrow> cash_store \<Rightarrow> time option \<Rightarrow> time option" where
  "recorded_mark t s w = (if after_counts t s then w else latest_count_time s)"

definition command_mark :: "cash_command \<Rightarrow> cash_store \<Rightarrow> cash_store \<Rightarrow> time option \<Rightarrow> time option" where
  "command_mark cmd s s' w =
     (case cmd of
        Move i \<Rightarrow> recorded_mark (truncate_micro (mi_at i)) s w
      | Count i \<Rightarrow> w
      | _ \<Rightarrow> if later_than w (edited_from cmd s) then w else latest_count_time s')"

text \<open>
  The register after any commands and payments, with its watermark, which restricts none of them. The environment may
  differ from command to command (the clock moves, names change), the identifiers it draws come from one sequence.
\<close>

inductive register_history :: "(nat \<Rightarrow> string) \<Rightarrow> time option \<Rightarrow> cash_store \<Rightarrow> bool"
  for ids :: "nat \<Rightarrow> string"
where
  opened: "register_history ids None \<lparr>payments = [], movements = [], counts = [], movement_seq = 0, count_seq = 0,
             ids_used = 0, audit_log = []\<rparr>"
| paid: "register_history ids w s \<Longrightarrow> payment_ok pay \<Longrightarrow>
           register_history ids (recorded_mark (pay_at pay) s w) (s\<lparr>payments := payments s @ [pay]\<rparr>)"
| command: "register_history ids w s \<Longrightarrow> new_id env = ids \<Longrightarrow> run_cash env p cmd s = Inr s' \<Longrightarrow>
           register_history ids (command_mark cmd s s' w) s'"

lemma reaches_later: "later_than w t \<Longrightarrow> reaches (later_than w) t"
  by (auto simp: reaches_def later_than_def split: option.split)

lemma reaches_none: "reaches (\<lambda>_. False) t"
  by (simp add: reaches_def)

lemma anchored_nowhere: "anchored_where P env s \<Longrightarrow> anchored_where (\<lambda>_. False) env s"
  by (simp add: anchored_where_def)

text \<open>No count is later than the latest, so nothing is left to show of a register whose watermark is that.\<close>

lemma anchored_late:
  assumes "anchored_where (\<lambda>_. False) env s"
  shows "anchored_where (later_than (latest_count_time s)) env s"
proof -
  have "\<not> later_than (latest_count_time s) (cc_at c)" if "c \<in> set (counts s)" for c
  proof -
    have "cc_at c \<le> Max (cc_at ` set (counts s))" using that by (intro Max_ge) auto
    then show ?thesis using that by (auto simp: later_than_def latest_count_time_def newest_of_def)
  qed
  then show ?thesis using assms by (simp add: anchored_where_def)
qed

lemma not_after_counts:
  assumes "anchored_where (\<lambda>_. False) env s'" "counts s' = counts s"
  shows "anchored_where (later_than (latest_count_time s)) env s'"
  using anchored_late[OF assms(1)] assms(2) by (simp add: latest_count_time_def)

lemma payment_anchors:
  assumes s: "anchored_where P env s" and pay: "payment_ok pay"
    and late: "\<And>c. c \<in> set (counts s) \<Longrightarrow> P (cc_at c) \<Longrightarrow> cc_at c < pay_at pay"
  shows "anchored_where P env (s\<lparr>payments := payments s @ [pay]\<rparr>)"
proof -
  let ?s' = "s\<lparr>payments := payments s @ [pay]\<rparr>"
  note ok = anchored_whereD(1)[OF s] and sync = anchored_whereD(2)[OF s] and anch = anchored_whereD(3)[OF s]
  have ok': "register_ok env ?s'" using ok pay by (simp add: register_ok_def)
  have "synced ?s' x \<and> (P (cc_at x) \<longrightarrow> anchored ?s' x)" if "x \<in> set (counts s)" for x
  proof -
    have "held ?s' (cc_at x) = held s (cc_at x)" if "P (cc_at x)"
      using late[OF \<open>x \<in> set (counts s)\<close> that] by (simp add: held_def paid_by_def)
    moreover have "corrections_of ?s' (cc_id x) = corrections_of s (cc_id x)" by (simp add: corrections_of_def)
    ultimately show ?thesis
      using anchored_iff[OF ok', of x] anchored_iff[OF ok that] anch[OF that] sync[OF that] that synced_cong[of ?s' x s] by simp
  qed
  then show ?thesis using ok' by (simp add: anchored_where_def)
qed

lemma payment_kept:
  assumes "anchored_where (later_than w) env s" "payment_ok pay"
  shows "anchored_where (later_than (recorded_mark (pay_at pay) s w)) env (s\<lparr>payments := payments s @ [pay]\<rparr>)"
proof (cases "after_counts (pay_at pay) s")
  case True
  then show ?thesis using payment_anchors[OF assms] by (simp add: recorded_mark_def after_counts_def list_all_iff)
next
  case False
  have "anchored_where (\<lambda>_. False) env (s\<lparr>payments := payments s @ [pay]\<rparr>)"
    by (rule payment_anchors[OF anchored_nowhere[OF assms(1)] assms(2)]) simp
  then show ?thesis using not_after_counts[of env _ s] False by (simp add: recorded_mark_def)
qed

text \<open>An edit or a deletion keeps what it reaches, and leaves a state in which the balance was checked.\<close>

definition is_edit :: "cash_command \<Rightarrow> bool" where
  "is_edit cmd \<longleftrightarrow> (case cmd of Move _ \<Rightarrow> False | Count _ \<Rightarrow> False | _ \<Rightarrow> True)"

lemma edit_anchors:
  assumes env: "env_ok env" and s: "anchored_where P env s" and edit: "is_edit cmd" and reach: "reaches P (edited_from cmd s)"
    and run: "run_cash env p cmd s = Inr s'"
  shows "anchored_where P env s' \<and> guarded s s'"
proof (cases cmd)
  case (Edit_Movement i c)
  then show ?thesis using run reach update_movement_anchors[OF env s] by (auto simp: and_then_Inr_iff)
next
  case (Delete_Movement i n)
  then show ?thesis using run reach delete_movement_op_anchors[OF env s] by auto
next
  case (Edit_Count i c)
  then show ?thesis using run reach update_count_anchors[OF env s] by (auto simp: and_then_Inr_iff)
next
  case (Delete_Count i n)
  then show ?thesis using run reach delete_count_anchors[OF env s] by auto
qed (use edit in \<open>simp_all add: is_edit_def\<close>)

lemma move_anchors:
  assumes env: "env_ok env" and s: "anchored_where P env s" and run: "create_cash_movement env p i s = Inr (s', v)"
    and late: "\<And>c. c \<in> set (counts s) \<Longrightarrow> P (cc_at c) \<Longrightarrow> cc_at c < truncate_micro (mi_at i)"
  shows "anchored_where P env s' \<and> counts s' = counts s"
proof -
  obtain amount memo w where kind: "mi_kind i = cash_withdrawal \<or> mi_kind i = cash_deposit"
    and book: "book_movement env p i amount memo (truncate_micro (mi_at i)) s = Inr (s', w)"
    using run by (auto simp: create_cash_movement_def and_then_Inr_iff Let_def)
  have "counts s' = counts s"
    using book by (auto simp: book_movement_def insert_movement_def Let_def and_then_Inr_iff split: option.splits if_splits)
  then show ?thesis using book_movement_anchors[OF env s truncate_micro_mod kind late book] by simp
qed

lemma command_anchors:
  assumes env: "env_ok env" and s: "anchored_where (later_than w) env s" and run: "run_cash env p cmd s = Inr s'"
  shows "anchored_where (later_than (command_mark cmd s s' w)) env s'"
proof (cases "is_edit cmd")
  case True
  then have mark: "command_mark cmd s s' w = (if later_than w (edited_from cmd s) then w else latest_count_time s')"
    by (cases cmd) (simp_all add: is_edit_def command_mark_def)
  show ?thesis
    using edit_anchors[OF env s True reaches_later run]
      anchored_late[OF edit_anchors[OF env anchored_nowhere[OF s] True reaches_none run, THEN conjunct1]]
    by (simp add: mark)
next
  case False
  then consider (move) i where "cmd = Move i" | (count) i where "cmd = Count i" by (cases cmd) (simp_all add: is_edit_def)
  then show ?thesis
  proof cases
    case move
    then obtain v where r: "create_cash_movement env p i s = Inr (s', v)" using run by (auto simp: and_then_Inr_iff)
    show ?thesis
    proof (cases "after_counts (truncate_micro (mi_at i)) s")
      case True
      then show ?thesis
        using move_anchors[OF env s r] move by (simp add: command_mark_def recorded_mark_def after_counts_def list_all_iff)
    next
      case False
      have "anchored_where (\<lambda>_. False) env s'" "counts s' = counts s"
        using move_anchors[OF env anchored_nowhere[OF s] r] by simp_all
      then show ?thesis using not_after_counts False move by (simp add: command_mark_def recorded_mark_def)
    qed
  next
    case count
    then obtain v x where v: "validate_cash_count env i = Inr v" and book: "book_count env p (ci_key i) v s = Inr (s', x)"
      using run by (auto simp: record_cash_count_def and_then_Inr_iff)
    have "kc_at v mod 1000 = 0" using v by (auto simp: validate_cash_count_def and_then_Inr_iff Let_def)
    from book_count_anchors[OF env s this book] count show ?thesis by (simp add: command_mark_def)
  qed
qed

lemma register_ok_env: "new_id env' = new_id env \<Longrightarrow> register_ok env' s = register_ok env s"
  by (simp add: register_ok_def)

lemma history_anchored:
  assumes "register_history ids w s" "inj ids" "\<forall>i. ids i \<noteq> []" "new_id env = ids"
  shows "anchored_where (later_than w) env s"
  using assms
proof (induction arbitrary: env rule: register_history.induct)
  case opened
  then show ?case by (simp add: anchored_where_def register_ok_def)
next
  case (paid w s pay)
  then show ?case using payment_kept by blast
next
  case (command w s env0 p cmd s')
  have "env_ok env0" using command by (simp add: env_ok_def)
  then have "anchored_where (later_than (command_mark cmd s s' w)) env0 s'" using command command_anchors by blast
  then show ?case using command.hyps(2) command.prems(3) register_ok_env[of env env0]
    by (simp add: anchored_where_def)
qed

text \<open>
  C4: Every count stays in step and anchors the register. In every history of counts, withdrawals, deposits and
  payments, recorded for any time, and of edits and deletions at any moment: the difference of a count is counted minus
  expected, and the count has one correction of that amount at its time, or none when it matches. And the register's
  expected amount up to a count is what was counted, for every count later than the watermark: later than all the
  counts there were when last a movement or payment was recorded for a time at or before one of them, or an edit reached
  back to a count so passed over. When no record was ever dated back behind a count, that is every count. The early stop
  of reconcileCounts is part of it.
\<close>

theorem counts_anchor_register:
  assumes "register_history ids w s" "inj ids" "\<forall>i. ids i \<noteq> []" "c \<in> set (counts s)"
  shows "(later_than w (cc_at c) \<longrightarrow> expected_through s (cc_at c) = cc_counted c) \<and>
    cc_difference c = cc_counted c - cc_expected c \<and>
    map (\<lambda>m. (mv_amount m, mv_at m)) (filter (\<lambda>m. mv_count m = Some (cc_id c)) (movements s)) =
      (if cc_difference c = 0 then [] else [(cc_difference c, cc_at c)])"
proof -
  define env where "env = \<lparr>now = 0, new_id = ids, decimal_from = (\<lambda>_. None), person_name = (\<lambda>_. None)\<rparr>"
  have s: "anchored_where (later_than w) env s" by (rule history_anchored[OF assms(1-3)]) (simp add: env_def)
  note ok = anchored_whereD(1)[OF s] and sync = anchored_whereD(2)[OF s assms(4)]
  have t: "cc_at c mod 1000 = 0" using register_okD(5)[OF ok assms(4)] by (simp add: count_ok_def)
  have "held s (cc_at c) = cc_counted c" if "later_than w (cc_at c)"
    using anchored_whereD(3)[OF s assms(4) that] anchored_iff[OF ok assms(4)] by simp
  then show ?thesis
    using sync expected_through_held[OF ok t] by (auto simp: synced_def corrections_of_def split: list.splits)
qed

section \<open>The journal\<close>

lemma order_sum: "(\<Sum>e\<leftarrow>register_order es. f e) = (\<Sum>e\<leftarrow>es. f e :: int)"
proof -
  have "mset (register_order es) = mset es" by (simp add: register_order_def)
  then have "mset (map f (register_order es)) = mset (map f es)" by (simp only: mset_map)
  then show ?thesis by (metis sum_mset_sum_list)
qed

lemma order_sorted: "sorted (map re_at (register_order es))"
  by (simp add: register_order_def)

lemma sorted_prefix: "sorted (map f es) \<Longrightarrow> filter (\<lambda>e. f e \<le> t) es = takeWhile (\<lambda>e. f e \<le> t) es"
proof (induction es)
  case (Cons e es)
  show ?case
  proof (cases "f e \<le> t")
    case False
    then have "filter (\<lambda>e. f e \<le> t) es = []" using Cons.prems by (fastforce simp: filter_empty_conv)
    then show ?thesis using False by simp
  qed (use Cons in simp)
qed simp

text \<open>The running balance after the last entry up to an instant is the balance at it.\<close>

lemma running_until:
  "map snd (filter (\<lambda>(e, b). re_at e \<le> t) (running_balance s)) =
   map snd (running re_effect 0 (takeWhile (\<lambda>e. re_at e \<le> t) (register_order (register_entries s))))"
proof -
  have split: "filter (\<lambda>(e, b). P e) (running f acc es) = running f acc (takeWhile P es)"
    if "filter P es = takeWhile P es" for P f acc and es :: "register_entry list"
    using that
  proof (induction es arbitrary: acc)
    case (Cons e es)
    show ?case
    proof (cases "P e")
      case True
      then show ?thesis using Cons by simp
    next
      case False
      then have "filter P es = []" using Cons.prems by simp
      then have "filter (\<lambda>(e, b). P e) (running f (acc + f e) es) = []"
        by (metis (mono_tags, lifting) case_prod_beta filter_empty_conv image_eqI list.set_map map_fst_running)
      then show ?thesis using False by simp
    qed
  qed simp
  show ?thesis unfolding running_balance_def by (subst split[OF sorted_prefix[OF order_sorted]]) (rule refl)
qed

lemma held_prefix: "(\<Sum>e\<leftarrow>takeWhile (\<lambda>e. re_at e \<le> t) (register_order (register_entries s)). re_effect e) = held s t"
proof -
  have "(\<Sum>e\<leftarrow>takeWhile (\<lambda>e. re_at e \<le> t) (register_order (register_entries s)). re_effect e) =
        (\<Sum>e\<leftarrow>register_order (register_entries s). if re_at e \<le> t then re_effect e else 0)"
    by (simp add: sorted_prefix[OF order_sorted, symmetric] sum_filter)
  then show ?thesis by (simp add: order_sum entries_held)
qed

lemma balance_at:
  "held s t = (let bs = map snd (filter (\<lambda>(e, b). re_at e \<le> t) (running_balance s)) in if bs = [] then 0 else last bs)"
proof -
  let ?es = "takeWhile (\<lambda>e. re_at e \<le> t) (register_order (register_entries s))"
  show ?thesis
    unfolding running_until Let_def
    using held_prefix[of t s] running_last[of ?es re_effect 0] by (auto simp: last_map)
qed

text \<open>
  C31: The two ways the register adds up its cash agree: at every moment the figures (sums over the payment and
  movement tables by kind) and the journal (a running sum over the entries in order of time, rank and id) give the
  same expected amount, which is the balance after the last entry so far.
\<close>

theorem figures_match_journal:
  assumes "register_ok env s" "t mod 1000 = 0"
  shows "expected_through s t =
    (let balances = map snd (filter (\<lambda>(e, b). re_at e \<le> t) (running_balance s))
     in if balances = [] then 0 else last balances)"
  unfolding expected_through_held[OF assms] by (rule balance_at)

lemma lowest_le_held:
  assumes "e \<in> set (register_entries s)" "from_time \<le> re_at e" "re_at e \<le> t"
  shows "\<exists>b. lowest_balance s from_time = Some b \<and> b \<le> held s t"
proof -
  let ?all = "register_order (register_entries s)"
  let ?es = "takeWhile (\<lambda>e. re_at e \<le> t) ?all"
  have "e \<in> set ?all" using assms(1) by (simp add: register_order_def)
  then have "e \<in> set (filter (\<lambda>e. re_at e \<le> t) ?all)" using assms(3) by simp
  then have e: "e \<in> set ?es" by (simp only: sorted_prefix[OF order_sorted])
  then have ne: "?es \<noteq> []" by auto
  have "sorted_wrt (\<lambda>a b. re_at a \<le> re_at b) ?es"
    using order_sorted[of "register_entries s"] by (simp add: sorted_wrt_map sorted_wrt_takeWhile)
  moreover obtain xs x where xs: "?es = xs @ [x]" using ne by (cases ?es rule: rev_cases) auto
  ultimately have "re_at e \<le> re_at (last ?es)" using e by (auto simp: sorted_wrt_append)
  then have late: "from_time \<le> re_at (last ?es)" using assms(2) by simp
  have "(last ?es, held s t) \<in> set (running re_effect 0 ?es)"
    using running_last[OF ne, of re_effect 0] held_prefix[of t s] last_in_set[of "running re_effect 0 ?es"] ne by simp
  moreover have "running_balance s = running re_effect 0 ?es @
      running re_effect (sum_list (map re_effect ?es)) (dropWhile (\<lambda>e. re_at e \<le> t) ?all)"
    unfolding running_balance_def by (metis add_0 running_append takeWhile_dropWhile_id)
  ultimately have "(last ?es, held s t) \<in> set (running_balance s)" by simp
  then have "held s t \<in> set (map snd (filter (\<lambda>(e, b). from_time \<le> re_at e) (running_balance s)))"
    using late by force
  then show ?thesis unfolding lowest_balance_def Let_def by (metis (no_types, lifting) List.finite_set Min_le empty_iff empty_set)
qed


lemma held_balance: "held s t = 0 \<or> held s t \<in> snd ` set (running_balance s)"
proof -
  let ?bs = "map snd (filter (\<lambda>(e, b). re_at e \<le> t) (running_balance s))"
  have "held s t = (if ?bs = [] then 0 else last ?bs)" unfolding balance_at[of s t] Let_def by (rule refl)
  then have "held s t = 0 \<or> held s t \<in> set ?bs" by (metis last_in_set)
  then show ?thesis by auto
qed

lemma held_no_entry:
  assumes "\<And>e. e \<in> set (register_entries s) \<Longrightarrow> u \<le> t \<and> \<not> (u < re_at e \<and> re_at e \<le> t)" "u \<le> t"
  shows "held s t = held s u"
  unfolding entries_held[symmetric] using assms by (intro sum_pointwise) force

lemma guarded_balance:
  assumes "guarded s s'"
  shows "0 \<le> held s' t \<or> (\<exists>b \<in> snd ` set (running_balance s). b \<le> held s' t)"
proof -
  have base: "0 \<le> held s u \<or> (\<exists>b \<in> snd ` set (running_balance s). b \<le> held s u)" for u
    using held_balance[of s u] by force
  consider "s' = s" | from_time where "check_balance_after s' from_time (lowest_balance s from_time) = Inr ()"
      "\<forall>t<from_time. held s' t = held s t"
    using assms by (auto simp: guarded_def)
  then show ?thesis
  proof cases
    case (2 from_time)
    show ?thesis
    proof (cases "\<exists>e\<in>set (register_entries s'). from_time \<le> re_at e \<and> re_at e \<le> t")
      case True
      then obtain b where b: "lowest_balance s' from_time = Some b" "b \<le> held s' t" using lowest_le_held by blast
      then have "0 \<le> b \<or> (\<exists>d. lowest_balance s from_time = Some d \<and> d \<le> b)"
        using 2(1) by (auto simp: check_balance_after_def split: option.splits if_splits)
      moreover have "d \<in> snd ` set (running_balance s)" if "lowest_balance s from_time = Some d" for d
      proof -
        let ?bs = "map snd (filter (\<lambda>(e, b). from_time \<le> re_at e) (running_balance s))"
        have "?bs \<noteq> []" "d = Min (set ?bs)" using that by (auto simp: lowest_balance_def Let_def split: if_splits)
        then have "d \<in> set ?bs" by (metis List.finite_set Min_in set_empty)
        then show ?thesis by auto
      qed
      ultimately show ?thesis using b(2) by force
    next
      case False
      show ?thesis
      proof (cases "t < from_time")
        case True
        then show ?thesis using 2(2) base[of t] by simp
      next
        case late: False
        have "held s' t = held s' (from_time - 1)"
          by (rule held_no_entry) (use False late in force)+
        then show ?thesis using 2(2) base[of "from_time - 1"] by simp
      qed
    qed
  qed (use base in simp)
qed

text \<open>
  C6: An accepted edit or deletion, of a movement or of a count, never makes the register owe cash, in whatever state a
  history of commands and payments left it: at every moment the new expected amount is at least zero or at least a
  balance the register already had before. So a dip that was there may stay, and is never deepened below the lowest
  earlier one.
\<close>

theorem edits_never_overdraw:
  assumes "register_history ids w s" "inj ids" "\<forall>i. ids i \<noteq> []" "new_id env = ids" "run_cash env p cmd s = Inr s'"
    and "is_edit cmd" and "t mod 1000 = 0"
  shows "0 \<le> expected_through s' t \<or> (\<exists>b \<in> snd ` set (running_balance s). b \<le> expected_through s' t)"
proof -
  have env: "env_ok env" using assms(2-4) by (simp add: env_ok_def)
  note s = anchored_nowhere[OF history_anchored[OF assms(1-4)]]
  have a: "anchored_where (\<lambda>_. False) env s'" and g: "guarded s s'"
    using edit_anchors[OF env s assms(6) reaches_none assms(5)] by simp_all
  show ?thesis using guarded_balance[OF g, of t] expected_through_held[OF anchored_whereD(1)[OF a] assms(7)] by simp
qed

section \<open>Recording\<close>

lemma book_movement_fresh:
  assumes run: "book_movement env p i amount memo at s = Inr (s', w)" and new: "row_at mv_key (mi_key i) (movements s) = None"
  shows "\<exists>m. movements s' = movements s @ [m] \<and> payments s' = payments s \<and> counts s' = counts s \<and>
    mv_id m = new_id env (ids_used s) \<and> ids_used s' = Suc (ids_used s) \<and>
    mv_key m = mi_key i \<and> mv_kind m = mi_kind i \<and> mv_amount m = amount \<and> mv_at m = at \<and> mv_count m = None \<and>
    same_movement p i amount memo at m \<and> present_movement env s' m = Inr w \<and>
    (mi_kind i = cash_withdrawal \<longrightarrow> amount \<le> expected_through s at \<and> amount \<le> expected_now s)"
  using assms
  by (auto simp: book_movement_def insert_movement_def Let_def and_then_Inr_iff same_movement_def split: if_splits)

lemma figures_now: "register_ok env s \<Longrightarrow>
  expected_now s = (\<Sum>p\<leftarrow>payments s. payment_effect p) + (\<Sum>m\<leftarrow>movements s. movement_effect m)"
  by (simp add: expected_now_def figures_sum before_def)

text \<open>
  C32: A withdrawal is covered: when a new withdrawal is recorded, the register still holds nothing less than zero,
  both through the moment of the withdrawal and over everything recorded.
\<close>

theorem withdrawal_covered:
  assumes "env_ok env" "register_ok env s" "mi_kind i = cash_withdrawal"
    and "mi_key i \<notin> mv_key ` set (movements s)"
    and "create_cash_movement env p i s = Inr (s', w)"
  shows "0 \<le> expected_through s' (truncate_micro (mi_at i)) \<and> 0 \<le> expected_now s'"
proof -
  obtain amount memo where run: "book_movement env p i amount memo (truncate_micro (mi_at i)) s = Inr (s', w)"
    using assms(5) by (auto simp: create_cash_movement_def and_then_Inr_iff Let_def)
  have "row_at mv_key (mi_key i) (movements s) = None" using assms(4) by (simp add: row_at_None_iff)
  from book_movement_fresh[OF run this] obtain m where m: "movements s' = movements s @ [m]" "payments s' = payments s"
      "counts s' = counts s" "mv_id m = new_id env (ids_used s)" "ids_used s' = Suc (ids_used s)"
      "mv_kind m = cash_withdrawal" "mv_amount m = amount" "mv_at m = truncate_micro (mi_at i)" "mv_count m = None"
      "amount \<le> expected_through s (truncate_micro (mi_at i))" "amount \<le> expected_now s"
    using assms(3) by auto
  have mok: "movement_ok m" using m by (simp add: movement_ok_def)
  have fk: "j \<in> cc_id ` set (counts s)" if "mv_count m = Some j" for j using that m(9) by simp
  have less: "ids_used s < ids_used s'" using m(5) by simp
  note app = movement_append[OF assms(2,1) m(4) mok fk m(2,3,1) less]
  have effect: "movement_effect m = - amount" using m(6,7) by (simp add: movement_effect_def)
  have "expected_through s' (truncate_micro (mi_at i)) = expected_through s (truncate_micro (mi_at i)) - amount"
    using app(2)[of "truncate_micro (mi_at i)"] m(8) effect
    by (simp add: expected_through_held[OF app(1)] expected_through_held[OF assms(2)] moved_by_def)
  moreover have "expected_now s' = expected_now s - amount"
    using m(1,2) effect by (simp add: figures_now[OF app(1)] figures_now[OF assms(2)])
  ultimately show ?thesis using m(10,11) by simp
qed


lemma recorded_by_clock [simp]: "recorded_by (env\<lparr>now := n\<rparr>) = recorded_by env"
  by (intro ext) (simp add: recorded_by_def cong: option.case_cong)

lemma present_movement_clock [simp]: "present_movement (env\<lparr>now := n\<rparr>) s m = present_movement env s m"
  unfolding present_movement_def by simp

lemma load_cash_count_clock [simp]: "load_cash_count (env\<lparr>now := n\<rparr>) s i = load_cash_count env s i"
  by (simp add: load_cash_count_def cong: option.case_cong)

lemma book_movement_retry:
  assumes run: "book_movement env p i amount memo at s = Inr (s', w)"
  shows "book_movement (env\<lparr>now := n\<rparr>) p i amount memo at s' = Inr (s', w)"
proof (cases "row_at mv_key (mi_key i) (movements s)")
  case None
  from book_movement_fresh[OF run None] obtain m where m: "movements s' = movements s @ [m]" "mv_key m = mi_key i"
      "same_movement p i amount memo at m" "present_movement env s' m = Inr w" by blast
  then have "row_at mv_key (mi_key i) (movements s') = Some m" using None by (simp add: row_at_append)
  then show ?thesis using m(3,4) by (simp add: book_movement_def ensure_def)
next
  case (Some m)
  then show ?thesis using run by (auto simp: book_movement_def and_then_Inr_iff ensure_def split: if_splits)
qed

lemma book_count_retry:
  assumes run: "book_count env p key v s = Inr (s', w)"
  shows "book_count (env\<lparr>now := n\<rparr>) p key v s' = Inr (s', w)"
proof (cases "row_at cc_key key (counts s)")
  case None
  define e where "e = expected_through s (kc_at v)"
  obtain reason where reason: "count_reason (kc_counted v - e) (kc_reason v) (kc_note v) = Inr reason"
    using run None by (auto simp: book_count_def and_then_Inr_iff Let_def e_def)
  define c where "c = snd (insert_count env key v e reason (person_of p) s)"
  have "counts s' = counts s @ [c]" and w: "load_cash_count env s' (cc_id c) = Inr w"
    using run None reason
    by (auto simp: book_count_def and_then_Inr_iff Let_def split_beta c_def e_def insert_count_def book_correction_fields)
  then have "row_at cc_key key (counts s') = Some c"
    using None by (simp add: row_at_append c_def insert_count_def Let_def)
  moreover have "same_cash_count p v c"
    using reason by (auto simp: same_cash_count_def c_def insert_count_def Let_def count_reason_def and_then_Inr_iff
        split: if_splits option.splits)
  ultimately show ?thesis using w by (simp add: book_count_def ensure_def)
next
  case (Some c)
  then show ?thesis using run by (auto simp: book_count_def and_then_Inr_iff ensure_def split: if_splits)
qed

text \<open>
  C33: Recording is idempotent under its operation key: repeating the same request at any later time, after it was
  accepted, is answered with the same result and changes nothing.
\<close>

theorem recording_retries:
  assumes "now env \<le> n"
  shows "(create_cash_movement env p i s = Inr (s', v) \<longrightarrow> create_cash_movement (env\<lparr>now := n\<rparr>) p i s' = Inr (s', v)) \<and>
    (record_cash_count env p k s = Inr (s', w) \<longrightarrow> record_cash_count (env\<lparr>now := n\<rparr>) p k s' = Inr (s', w))"
proof (intro conjI impI)
  assume run: "create_cash_movement env p i s = Inr (s', v)"
  then show "create_cash_movement (env\<lparr>now := n\<rparr>) p i s' = Inr (s', v)"
    using assms by (auto simp: create_cash_movement_def and_then_Inr_iff Let_def intro: book_movement_retry)
next
  assume run: "record_cash_count env p k s = Inr (s', w)"
  then obtain c where c: "validate_cash_count env k = Inr c" and b: "book_count env p (ci_key k) c s = Inr (s', w)"
    by (auto simp: record_cash_count_def and_then_Inr_iff)
  have "parse_shown_amount (env\<lparr>now := n\<rparr>) = parse_shown_amount env"
    by (intro ext) (simp add: parse_shown_amount_def cong: option.case_cong)
  then have "validate_cash_count (env\<lparr>now := n\<rparr>) k = Inr c"
    using c assms by (auto simp: validate_cash_count_def and_then_Inr_iff Let_def)
  then show "record_cash_count (env\<lparr>now := n\<rparr>) p k s' = Inr (s', w)"
    using run book_count_retry[OF b] by (auto simp: record_cash_count_def and_then_Inr_iff)
qed

section \<open>Examples\<close>

definition sample_ids :: "nat \<Rightarrow> string" where
  "sample_ids i = replicate (Suc i) (CHR ''u'')"

definition sample_cash_env :: cash_env where
  "sample_cash_env = \<lparr>now = 1700000000000000000, new_id = sample_ids, decimal_from = (\<lambda>_. None), person_name = (\<lambda>_. None)\<rparr>"

definition sample_manager :: actor where
  "sample_manager = \<lparr>act_account = ''a'', act_person = ''p'', act_has = (\<lambda>_. True)\<rparr>"

definition empty_register :: cash_store where
  "empty_register = \<lparr>payments = [], movements = [], counts = [], movement_seq = 0, count_seq = 0, ids_used = 0, audit_log = []\<rparr>"

text \<open>A count of nothing in an empty register, and a deposit of five euros.\<close>

definition sample_count :: cash_count where
  "sample_count = \<lparr>cc_id = ''c'', cc_reference = ''K-2023-0001'', cc_key = ''k'', cc_counted = 0, cc_expected = 0,
     cc_difference = 0, cc_reason = None, cc_note = [], cc_at = 1600000000000000000, cc_person = None, cc_version = 1\<rparr>"

definition sample_deposit :: "string \<Rightarrow> time \<Rightarrow> movement_input" where
  "sample_deposit kind at = \<lparr>mi_key = ''m'', mi_kind = kind, mi_amount = ''5.00'', mi_reason = ''safe'', mi_note = [], mi_at = at\<rparr>"

lemma sample_env_ok: "env_ok sample_cash_env"
proof -
  have "inj sample_ids" by (rule injI) (metis Suc_inject length_replicate sample_ids_def)
  then show ?thesis by (simp add: env_ok_def sample_cash_env_def sample_ids_def)
qed

lemma sample_amount: "parse_amount ''5.00'' 2 True = Inr 500"
  by code_simp

lemma create_sample:
  assumes "kind = cash_withdrawal \<or> kind = cash_deposit" "at \<le> 1700000000000000000" "at \<noteq> zero_time"
  shows "create_cash_movement sample_cash_env sample_manager (sample_deposit kind at) s =
    book_movement sample_cash_env sample_manager (sample_deposit kind at) 500 [] (truncate_micro at) s"
  using assms
  by (simp add: create_cash_movement_def require_def ensure_def sample_manager_def sample_deposit_def sample_amount
      valid_editable_reason_def sample_cash_env_def minute_def Let_def)


definition deposit_row :: cash_movement where
  "deposit_row = \<lparr>mv_id = ''d'', mv_reference = ''C-2023-000001'', mv_key = ''q'', mv_kind = cash_deposit, mv_amount = 700,
     mv_reason = ''safe'', mv_note = [], mv_at = 1500000000000000000, mv_person = None, mv_count = None, mv_version = 1\<rparr>"

definition deposit_store :: cash_store where
  "deposit_store = empty_register\<lparr>movements := [deposit_row]\<rparr>"

lemma sample_id_simps: "sample_ids i \<noteq> ''d''" "sample_ids i \<noteq> ''c''" "sample_ids i \<noteq> []"
  by (cases i; simp add: sample_ids_def)+

lemma deposit_store_anchored: "anchored_where (\<lambda>_. True) sample_cash_env deposit_store"
  by (simp add: anchored_where_def register_ok_def deposit_store_def empty_register_def deposit_row_def movement_ok_def
      sample_cash_env_def sample_id_simps)

definition counted_store :: cash_store where
  "counted_store = empty_register\<lparr>counts := [sample_count]\<rparr>"

lemma counted_store_anchored: "anchored_where (\<lambda>_. True) sample_cash_env counted_store"
  by (simp add: anchored_where_def register_ok_def anchored_def synced_def corrections_of_def count_correction_def
      counted_store_def empty_register_def sample_count_def count_ok_def sample_cash_env_def sample_id_simps
      expected_at_count_def expected_through_def figures_expected_def cash_figures_until_def)

lemma withdrawal_covered_witness:
  "\<exists>s' w. create_cash_movement sample_cash_env sample_manager (sample_deposit cash_withdrawal 1600000000000000000) deposit_store = Inr (s', w) \<and>
     0 \<le> expected_now s'"
proof -
  have "\<exists>s' w. create_cash_movement sample_cash_env sample_manager (sample_deposit cash_withdrawal 1600000000000000000) deposit_store = Inr (s', w)"
    by (subst create_sample)
      (simp_all add: zero_time_def book_movement_def sample_deposit_def row_at_def deposit_store_def deposit_row_def
        empty_register_def ensure_def expected_through_def expected_now_def figures_expected_def cash_figures_until_def
        before_def truncate_micro_def microsecond_def insert_movement_def present_movement_def Let_def)
  then obtain s' w where run: "create_cash_movement sample_cash_env sample_manager (sample_deposit cash_withdrawal 1600000000000000000) deposit_store = Inr (s', w)"
    by blast
  have "0 \<le> expected_now s'"
    using withdrawal_covered[OF sample_env_ok _ _ _ run] deposit_store_anchored
    by (simp add: anchored_where_def sample_deposit_def deposit_store_def deposit_row_def)
  then show ?thesis using run by blast
qed

text \<open>A deposit is recorded in an empty register, and deleted.\<close>

lemma sample_recorded:
  "\<exists>s w m. create_cash_movement sample_cash_env sample_manager (sample_deposit cash_deposit 1500000000000000000) empty_register = Inr (s, w) \<and>
     movements s = [m] \<and> payments s = [] \<and> counts s = [] \<and> mv_id m = ''u'' \<and> mv_kind m = cash_deposit \<and> mv_version m = 1"
  by (subst create_sample)
    (simp_all add: zero_time_def book_movement_def sample_deposit_def row_at_def empty_register_def ensure_def
      insert_movement_def present_movement_def sample_cash_env_def sample_ids_def Let_def)

lemma register_opened: "register_history ids None empty_register"
  unfolding empty_register_def by (rule register_history.opened)

lemma sample_ids_ok: "inj sample_ids" "\<forall>i. sample_ids i \<noteq> []" "new_id sample_cash_env = sample_ids"
  using sample_env_ok by (simp_all add: env_ok_def sample_cash_env_def)

lemma edits_never_overdraw_witness:
  "\<exists>w s s'. register_history sample_ids w s \<and> run_cash sample_cash_env sample_manager (Delete_Movement ''u'' 1) s = Inr s' \<and>
     (0 \<le> expected_through s' 0 \<or> (\<exists>b \<in> snd ` set (running_balance s). b \<le> expected_through s' 0))"
proof -
  obtain s w m where r: "create_cash_movement sample_cash_env sample_manager (sample_deposit cash_deposit 1500000000000000000) empty_register = Inr (s, w)"
    and s: "movements s = [m]" "payments s = []" "counts s = []" "mv_id m = ''u''" "mv_kind m = cash_deposit" "mv_version m = 1"
    using sample_recorded by blast
  have "run_cash sample_cash_env sample_manager (Move (sample_deposit cash_deposit 1500000000000000000)) empty_register = Inr s" by (simp add: r)
  from register_history.command[OF register_opened sample_ids_ok(3) this]
  obtain u where h: "register_history sample_ids u s" by blast
  have "\<exists>s'. run_cash sample_cash_env sample_manager (Delete_Movement ''u'' 1) s = Inr s'"
    by (simp add: delete_cash_movement_def require_def ensure_def sample_manager_def row_at_def s delete_movement_def row_drop_def
        reconcile_counts_def counts_from_def check_balance_after_def lowest_balance_def running_balance_def register_entries_def
        register_order_def Let_def)
  then obtain s' where run: "run_cash sample_cash_env sample_manager (Delete_Movement ''u'' 1) s = Inr s'" by blast
  have "0 \<le> expected_through s' 0 \<or> (\<exists>b \<in> snd ` set (running_balance s). b \<le> expected_through s' 0)"
    by (rule edits_never_overdraw[OF h sample_ids_ok run]) (simp_all add: is_edit_def)
  then show ?thesis using run h by blast
qed

lemma figures_match_journal_witness:
  "expected_through deposit_store 1600000000000000000 =
    (let balances = map snd (filter (\<lambda>(e, b). re_at e \<le> 1600000000000000000) (running_balance deposit_store))
     in if balances = [] then 0 else last balances)"
  by (rule figures_match_journal[where env = sample_cash_env])
    (use deposit_store_anchored in \<open>simp_all add: anchored_where_def\<close>)

definition sample_count_input :: count_input where
  "sample_count_input = \<lparr>ci_key = ''k'', ci_amount = ''5.00'', ci_at = 1600000000000000000, ci_reason = Some ''counting_error'',
     ci_note = [], ci_expected = None\<rparr>"

lemma validate_sample: "validate_cash_count sample_cash_env sample_count_input =
  Inr \<lparr>kc_counted = 500, kc_at = 1600000000000000000, kc_reason = Some ''counting_error'', kc_note = [], kc_expected = None\<rparr>"
proof -
  have amount: "parse_amount ''5.00'' 2 False = Inr 500" by code_simp
  show ?thesis
    by (simp add: validate_cash_count_def sample_count_input_def ensure_def amount zero_time_def sample_cash_env_def minute_def
        valid_count_reason_def parse_shown_amount_def truncate_micro_def microsecond_def)
qed

lemma record_sample:
  "\<exists>s' w c. record_cash_count sample_cash_env sample_manager sample_count_input empty_register = Inr (s', w) \<and>
     c \<in> set (counts s') \<and> cc_counted c = 500"
  by (simp add: record_cash_count_def require_def sample_manager_def validate_sample, simp add: sample_count_input_def book_count_def row_at_def
      empty_register_def ensure_def latest_count_time_def newest_of_def expected_through_def expected_now_def
      figures_expected_def cash_figures_until_def count_reason_def insert_count_def Let_def load_cash_count_def
      book_correction_fields)

lemma counts_anchor_register_witness:
  "\<exists>s c. register_history sample_ids None s \<and> c \<in> set (counts s) \<and> cc_counted c = 500 \<and> expected_through s (cc_at c) = 500"
proof -
  obtain s' w c where run: "record_cash_count sample_cash_env sample_manager sample_count_input empty_register = Inr (s', w)"
    and c: "c \<in> set (counts s')" "cc_counted c = 500" using record_sample by blast
  have "run_cash sample_cash_env sample_manager (Count sample_count_input) empty_register = Inr s'" by (simp add: run)
  from register_history.command[OF register_opened sample_ids_ok(3) this]
  have h: "register_history sample_ids None s'" by (simp add: command_mark_def)
  from counts_anchor_register[OF h sample_ids_ok(1,2) c(1)] c(2) h c(1) show ?thesis by (auto simp: later_than_def)
qed

lemma recording_retries_witness:
  "\<exists>s' w. record_cash_count sample_cash_env sample_manager sample_count_input empty_register = Inr (s', w) \<and>
     record_cash_count (sample_cash_env\<lparr>now := 1800000000000000000\<rparr>) sample_manager sample_count_input s' = Inr (s', w)"
proof -
  obtain s' w where run: "record_cash_count sample_cash_env sample_manager sample_count_input empty_register = Inr (s', w)"
    using record_sample by blast
  have "now sample_cash_env \<le> 1800000000000000000" by (simp add: sample_cash_env_def)
  from recording_retries[OF this, THEN conjunct2, THEN mp, OF run] run show ?thesis by blast
qed

section \<open>Where a count does not anchor\<close>

text \<open>
  C34: Recording does not anchor. A new withdrawal or deposit dated at or before a count at which the register held what
  was counted is accepted and leaves the count as it was: afterwards the register's expected amount at the count differs
  from what was counted, by exactly the amount of the movement. Only edits and deletions recalculate the counts after
  them.
\<close>

theorem backdated_movement_misses_count:
  assumes "env_ok env" "register_ok env s" "c \<in> set (counts s)" "expected_through s (cc_at c) = cc_counted c"
    and "mi_key i \<notin> mv_key ` set (movements s)" "truncate_micro (mi_at i) \<le> cc_at c"
    and "create_cash_movement env p i s = Inr (s', v)"
  shows "\<exists>amount. parse_amount (mi_amount i) 2 True = Inr amount \<and> 0 < amount \<and> c \<in> set (counts s') \<and>
    expected_through s' (cc_at c) = cc_counted c + (if mi_kind i = cash_withdrawal then - amount else amount) \<and>
    expected_through s' (cc_at c) \<noteq> cc_counted c"
proof -
  obtain amount memo where parsed: "parse_amount (mi_amount i) 2 True = Inr amount"
    and kind: "mi_kind i = cash_withdrawal \<or> mi_kind i = cash_deposit"
    and run: "book_movement env p i amount memo (truncate_micro (mi_at i)) s = Inr (s', v)"
    using assms(7) by (auto simp: create_cash_movement_def and_then_Inr_iff Let_def)
  have positive: "0 < amount" using parse_amount_bounds[OF parsed] by simp
  have "row_at mv_key (mi_key i) (movements s) = None" using assms(5) by (simp add: row_at_None_iff)
  from book_movement_fresh[OF run this] obtain m where m: "movements s' = movements s @ [m]" "payments s' = payments s"
      "counts s' = counts s" "mv_id m = new_id env (ids_used s)" "ids_used s' = Suc (ids_used s)"
      "mv_kind m = mi_kind i" "mv_amount m = amount" "mv_at m = truncate_micro (mi_at i)" "mv_count m = None"
    by auto
  have mok: "movement_ok m" using m kind by (auto simp: movement_ok_def)
  have fk: "j \<in> cc_id ` set (counts s)" if "mv_count m = Some j" for j using that m(9) by simp
  have less: "ids_used s < ids_used s'" using m(5) by simp
  note app = movement_append[OF assms(2,1) m(4) mok fk m(2,3,1) less]
  have t: "cc_at c mod 1000 = 0" using register_okD(5)[OF assms(2,3)] by (simp add: count_ok_def)
  have "expected_through s' (cc_at c) = expected_through s (cc_at c) + movement_effect m"
    using app(2)[of "cc_at c"] m(8) assms(6)
    by (simp add: expected_through_held[OF app(1) t] expected_through_held[OF assms(2) t] moved_by_def)
  then show ?thesis using parsed positive m(3,6,7) assms(3,4) by (auto simp: movement_effect_def)
qed

lemma backdated_movement_misses_count_witness:
  "\<exists>s' v. create_cash_movement sample_cash_env sample_manager (sample_deposit cash_deposit 1500000000000000000) counted_store = Inr (s', v) \<and>
     sample_count \<in> set (counts s') \<and> expected_through s' 1600000000000000000 = 500"
proof -
  let ?i = "sample_deposit cash_deposit 1500000000000000000"
  have "\<exists>s' v. create_cash_movement sample_cash_env sample_manager ?i counted_store = Inr (s', v)"
    by (subst create_sample)
      (simp_all add: zero_time_def book_movement_def sample_deposit_def row_at_def counted_store_def empty_register_def ensure_def
        insert_movement_def present_movement_def Let_def)
  then obtain s' v where run: "create_cash_movement sample_cash_env sample_manager ?i counted_store = Inr (s', v)" by blast
  have c: "sample_count \<in> set (counts counted_store)" "expected_through counted_store (cc_at sample_count) = cc_counted sample_count"
      "cc_at sample_count = 1600000000000000000" "cc_counted sample_count = 0" "mi_key ?i \<notin> mv_key ` set (movements counted_store)"
      "truncate_micro (mi_at ?i) \<le> cc_at sample_count" "mi_kind ?i = cash_deposit" "mi_amount ?i = ''5.00''"
    by (simp_all add: counted_store_def empty_register_def sample_count_def sample_deposit_def expected_through_def figures_expected_def
        cash_figures_until_def truncate_micro_def microsecond_def)
  from backdated_movement_misses_count[OF sample_env_ok anchored_whereD(1)[OF counted_store_anchored] c(1,2,5,6) run]
  show ?thesis using run c sample_amount by auto
qed

text \<open>
  And what was passed over may stop a later edit too early. A deposit was recorded for a time before the earliest later
  count \<open>c\<close>, which it left behind; a still later count \<open>d\<close> was anchored with the deposit. Deleting the deposit finds
  \<open>c\<close> as it expects it, stops there, and leaves \<open>d\<close> off by the amount: the deletion of a row makes an anchored count
  wrong, which reconcileCounts is there to prevent.
\<close>

lemma deletion_stops_at_passed_count:
  assumes "env_ok env" "register_ok env s" "row_at mv_id i (movements s) = Some m" "mv_kind m = cash_deposit" "0 < mv_amount m"
    and counts: "c \<in> set (counts s)" "d \<in> set (counts s)" "mv_at m < cc_at c" "cc_at c < cc_at d"
    and first: "\<And>x. x \<in> set (counts s) \<Longrightarrow> mv_at m \<le> cc_at x \<Longrightarrow> cc_at c \<le> cc_at x"
    and passed: "synced s c" "expected_through s (cc_at c) = cc_counted c + mv_amount m"
    and held: "expected_through s (cc_at d) = cc_counted d"
    and run: "delete_cash_movement env p i v s = Inr s'"
  shows "d \<in> set (counts s') \<and> expected_through s' (cc_at d) = cc_counted d - mv_amount m"
proof -
  have mem: "m \<in> set (movements s)" using row_atD[OF assms(3)] by simp
  have none: "mv_count m = None" using register_okD(4)[OF assms(2) mem] assms(4) by (auto simp: movement_ok_def)
  let ?s1 = "delete_movement (mv_id m) s"
  have f: "payments ?s1 = payments s" "counts ?s1 = counts s" "movements ?s1 = row_drop mv_id (mv_id m) (movements s)"
    "ids_used ?s1 = ids_used s" by (simp_all add: delete_movement_def)
  note dr = movement_drop[OF assms(2) mem f]
  have "mv_id m \<notin> mv_id ` set (corrections_of s j)" for j
    using key_inj[OF register_okD(1)[OF assms(2)] mem] none by (fastforce simp: corrections_of_def)
  then have same: "corrections_of ?s1 j = corrections_of s j" for j using dr(3)[of j] by simp
  have sync: "synced ?s1 c" using passed(1) synced_cong[of ?s1 c s] same by simp
  have t: "cc_at c mod 1000 = 0" "cc_at d mod 1000 = 0" using register_okD(5)[OF assms(2)] counts(1,2) by (simp_all add: count_ok_def)
  have effect: "movement_effect m = mv_amount m" using assms(4) by (simp add: movement_effect_def)
  have "held ?s1 (cc_at c) = cc_counted c"
    using dr(2)[of "cc_at c"] passed(2) counts(3) effect by (simp add: expected_through_held[OF assms(2) t(1)] moved_by_def)
  then have e: "expected_at_count ?s1 (cc_at c) (count_correction ?s1 (cc_id c)) = cc_expected c"
    using expected_at_synced[OF dr(1) sync t(1)] sync by (simp add: synced_def)
  note cf = counts_from[OF dr(1), of "mv_at m"]
  obtain x cs where cs: "counts_from ?s1 (mv_at m) = x # cs"
    using cf(2) counts(1,3) f(2) by (cases "counts_from ?s1 (mv_at m)") auto
  have "x = c"
  proof -
    have x: "x \<in> set (counts s)" "cc_at c \<le> cc_at x" using cf(2) f(2) first[of x] by (auto simp: cs)
    have "c = x \<or> cc_at x < cc_at c" using cf f(2) counts(1,3) by (auto simp: cs)
    then show ?thesis using x(2) by auto
  qed
  moreover have "cc_id c \<noteq> []" using register_okD(5)[OF assms(2) counts(1)] by (simp add: count_ok_def)
  ultimately have "reconcile_counts env p (mv_at m) (mv_at m) [] ?s1 = ?s1"
    using e counts(3) by (simp add: reconcile_counts_def cs Let_def)
  then have s': "s' = write_audit p ''cash_movement.deleted'' ''cash_movement'' (mv_id m) [] ?s1"
    using run assms(3) by (auto simp: delete_cash_movement_def and_then_Inr_iff Let_def)
  have "expected_through s' (cc_at d) = held ?s1 (cc_at d)"
    using expected_through_held[of env s' "cc_at d"] dr(1) t(2) by (simp add: s')
  then show ?thesis
    using dr(2)[of "cc_at d"] held counts effect f(2)
    by (simp add: s' expected_through_held[OF assms(2) t(2)] moved_by_def)
qed


text \<open>For example: nothing was counted, seven euros recorded for a time before the count, and seven euros counted later.\<close>

definition later_count :: cash_count where
  "later_count = sample_count\<lparr>cc_id := ''e'', cc_key := ''l'', cc_counted := 700, cc_expected := 700, cc_at := 1650000000000000000\<rparr>"

definition passed_store :: cash_store where
  "passed_store = empty_register\<lparr>counts := [sample_count, later_count], movements := [deposit_row]\<rparr>"

lemma passed_store_ok: "register_ok sample_cash_env passed_store"
proof -
  have "sample_ids i \<noteq> ''e''" for i by (cases i; simp add: sample_ids_def)
  then show ?thesis
    by (simp add: register_ok_def passed_store_def empty_register_def deposit_row_def movement_ok_def later_count_def sample_count_def
        count_ok_def sample_cash_env_def sample_id_simps)
qed

lemma deletion_stops_example:
  "\<exists>s'. delete_cash_movement sample_cash_env sample_manager ''d'' 1 passed_store = Inr s' \<and>
     later_count \<in> set (counts s') \<and> expected_through s' (cc_at later_count) = 0 \<and> cc_counted later_count = 700"
proof -
  have "\<exists>s'. delete_cash_movement sample_cash_env sample_manager ''d'' 1 passed_store = Inr s'"
    by (simp add: delete_cash_movement_def require_def ensure_def sample_manager_def row_at_def passed_store_def deposit_row_def
        empty_register_def delete_movement_def row_drop_def reconcile_counts_def counts_from_def check_balance_after_def
        lowest_balance_def running_balance_def register_entries_def register_order_def Let_def later_count_def sample_count_def
        count_correction_def expected_at_count_def expected_through_def figures_expected_def cash_figures_until_def movement_effect_def)
  then obtain s' where run: "delete_cash_movement sample_cash_env sample_manager ''d'' 1 passed_store = Inr s'" by blast
  have rows: "row_at mv_id ''d'' (movements passed_store) = Some deposit_row" "synced passed_store sample_count"
      "sample_count \<in> set (counts passed_store)" "later_count \<in> set (counts passed_store)"
    by (simp_all add: row_at_def passed_store_def empty_register_def deposit_row_def synced_def corrections_of_def sample_count_def later_count_def)
  have sums: "expected_through passed_store (cc_at sample_count) = cc_counted sample_count + mv_amount deposit_row"
      "expected_through passed_store (cc_at later_count) = cc_counted later_count"
    by (simp_all add: expected_through_def figures_expected_def cash_figures_until_def passed_store_def empty_register_def
        deposit_row_def sample_count_def later_count_def before_def microsecond_def)
  have first: "cc_at sample_count \<le> cc_at x" if "x \<in> set (counts passed_store)" for x
    using that by (auto simp: passed_store_def empty_register_def sample_count_def later_count_def)
  have facts: "mv_kind deposit_row = cash_deposit" "0 < mv_amount deposit_row" "mv_at deposit_row < cc_at sample_count"
      "cc_at sample_count < cc_at later_count" "cc_counted later_count = 700" "mv_amount deposit_row = 700"
    by (simp_all add: deposit_row_def sample_count_def later_count_def)
  from deletion_stops_at_passed_count[OF sample_env_ok passed_store_ok rows(1) facts(1,2) rows(3,4) facts(3,4) first rows(2) sums run]
  show ?thesis using run facts(5,6) by simp
qed

end
