(* ===== verification/Decimals.thy ===== *)
theory Decimals
  imports Complex_Main Prelude
begin

text \<open>
  Decimal numbers as the machine log book computes with them. A decimal.Decimal is a rational number: sums, products
  and comparisons are exact, Round(n) rounds half away from zero to n decimals, and Div rounds the quotient to 16
  decimals (decimal.DivisionPrecision). A column of type numeric(p, n) stores n decimals and rounds in the same way;
  its value is the integer of its units (\<open>to_units\<close>), which the code reads back as a decimal (\<open>of_units\<close>).
\<close>

section \<open>Rounding\<close>

definition round_away :: "rat \<Rightarrow> int" where
  "round_away x = (if x < 0 then - \<lfloor>1 / 2 - x\<rfloor> else \<lfloor>x + 1 / 2\<rfloor>)"

definition to_units :: "nat \<Rightarrow> rat \<Rightarrow> int" where
  "to_units n x = round_away (x * 10 ^ n)"

definition of_units :: "nat \<Rightarrow> int \<Rightarrow> rat" where
  "of_units n i = of_int i / 10 ^ n"

definition decimal_round :: "nat \<Rightarrow> rat \<Rightarrow> rat" where
  "decimal_round n x = of_units n (to_units n x)"

definition decimal_div :: "rat \<Rightarrow> rat \<Rightarrow> rat" where
  "decimal_div a b = decimal_round 16 (a / b)"

text \<open>The stored scale of quantities, rates and values, numeric(20, 6).\<close>

abbreviation micros :: "rat \<Rightarrow> int" where "micros \<equiv> to_units 6"
abbreviation micro :: "int \<Rightarrow> rat" where "micro \<equiv> of_units 6"

section \<open>Laws\<close>

lemma round_away_int [simp]: "round_away (of_int i) = i"
  by (auto simp: round_away_def) linarith+

lemma round_away_minus: "round_away (- x) = - round_away x"
  by (auto simp: round_away_def algebra_simps) (simp_all add: floor_eq_iff)

lemma round_away_mono: "x \<le> y \<Longrightarrow> round_away x \<le> round_away y"
  unfolding round_away_def by (auto split: if_splits) linarith+

lemma round_away_near: "\<bar>of_int (round_away x) - x\<bar> \<le> 1 / 2"
  unfolding round_away_def by (auto simp: abs_if split: if_splits) linarith+

lemma round_away_add:
  assumes "0 \<le> x" "0 \<le> i"
  shows "round_away (of_int i + x) = i + round_away x"
  using assms unfolding round_away_def by simp linarith

text \<open>Taking a part away leaves the rounded rest, or one unit more on a tie.\<close>

lemma round_away_diff:
  assumes "0 \<le> x" "x \<le> of_int i"
  shows "i - round_away x \<le> round_away (of_int i - x)" "round_away (of_int i - x) \<le> i - round_away x + 1"
  using assms unfolding round_away_def by (auto split: if_splits) linarith+

lemma to_units_of_units [simp]: "to_units n (of_units n i) = i"
  by (simp add: to_units_def of_units_def)

lemma of_units_le_iff [simp]: "of_units n i \<le> of_units n j \<longleftrightarrow> i \<le> j"
  by (simp add: of_units_def divide_le_cancel)

lemma of_units_less_iff [simp]: "of_units n i < of_units n j \<longleftrightarrow> i < j"
  by (simp add: of_units_def divide_less_cancel)

lemma of_units_eq_iff [simp]: "of_units n i = of_units n j \<longleftrightarrow> i = j"
  by (simp add: of_units_def)

lemma of_units_0 [simp]: "of_units n 0 = 0"
  by (simp add: of_units_def)

lemma of_units_sign [simp]:
  "0 \<le> of_units n i \<longleftrightarrow> 0 \<le> i" "0 < of_units n i \<longleftrightarrow> 0 < i" "of_units n i < 0 \<longleftrightarrow> i < 0" "of_units n i \<le> 0 \<longleftrightarrow> i \<le> 0"
  "of_units n i = 0 \<longleftrightarrow> i = 0"
proof -
  have "(0::rat) < 10 ^ n" by simp
  then show "0 \<le> of_units n i \<longleftrightarrow> 0 \<le> i" "0 < of_units n i \<longleftrightarrow> 0 < i" "of_units n i < 0 \<longleftrightarrow> i < 0" "of_units n i \<le> 0 \<longleftrightarrow> i \<le> 0"
    "of_units n i = 0 \<longleftrightarrow> i = 0"
    by (simp_all add: of_units_def pos_le_divide_eq pos_less_divide_eq pos_divide_less_eq pos_divide_le_eq)
qed

lemma of_units_add: "of_units n i + of_units n j = of_units n (i + j)"
  by (simp add: of_units_def add_divide_distrib)

lemma of_units_diff: "of_units n i - of_units n j = of_units n (i - j)"
  by (simp add: of_units_def diff_divide_distrib)

lemma of_units_minus [simp]: "of_units n (- i) = - of_units n i"
  by (simp add: of_units_def)

lemma to_units_0 [simp]: "to_units n 0 = 0"
  using to_units_of_units[of n 0] by simp

lemma to_units_minus [simp]: "to_units n (- x) = - to_units n x"
  by (simp add: to_units_def round_away_minus)

lemma to_units_mono: "x \<le> y \<Longrightarrow> to_units n x \<le> to_units n y"
  by (simp add: to_units_def round_away_mono mult_right_mono)

lemma to_units_le: "x \<le> of_units n i \<Longrightarrow> to_units n x \<le> i"
  using to_units_mono[of x "of_units n i" n] by simp

lemma to_units_ge: "of_units n i \<le> x \<Longrightarrow> i \<le> to_units n x"
  using to_units_mono[of "of_units n i" x n] by simp

lemma to_units_nonneg: "0 \<le> x \<Longrightarrow> 0 \<le> to_units n x"
  using to_units_mono[of 0 x n] by simp

lemma to_units_nonpos: "x \<le> 0 \<Longrightarrow> to_units n x \<le> 0"
  using to_units_mono[of x 0 n] by simp

lemma of_units_scale: "(of_units n i + x) * 10 ^ n = of_int i + x * 10 ^ n"
  by (simp add: of_units_def algebra_simps)

lemma to_units_add:
  assumes "0 \<le> x" "0 \<le> i"
  shows "to_units n (of_units n i + x) = i + to_units n x"
  using assms round_away_add[of "x * 10 ^ n" i] by (simp add: to_units_def of_units_scale)

lemma to_units_diff:
  assumes "0 \<le> x" "x \<le> of_units n i"
  shows "i - to_units n x \<le> to_units n (of_units n i - x)" "to_units n (of_units n i - x) \<le> i - to_units n x + 1"
proof -
  have "x * 10 ^ n \<le> of_int i" using assms(2) by (simp add: of_units_def pos_le_divide_eq)
  moreover have "(of_units n i - x) * 10 ^ n = of_int i - x * 10 ^ n" using of_units_scale[of n i "- x"] by simp
  ultimately show "i - to_units n x \<le> to_units n (of_units n i - x)" "to_units n (of_units n i - x) \<le> i - to_units n x + 1"
    using round_away_diff[of "x * 10 ^ n" i] assms(1) by (simp_all add: to_units_def)
qed

text \<open>A decimal that the column stores exactly.\<close>

definition fits :: "nat \<Rightarrow> rat \<Rightarrow> bool" where
  "fits n x \<longleftrightarrow> of_units n (to_units n x) = x"

lemma fits_of_units [simp]: "fits n (of_units n i)"
  by (simp add: fits_def)

lemma fitsE: "fits n x \<Longrightarrow> (\<And>i. x = of_units n i \<Longrightarrow> P) \<Longrightarrow> P"
  by (metis fits_def)

lemma fits_minus [simp]: "fits n (- x) = fits n x"
  by (simp add: fits_def)

lemma fits_0 [simp]: "fits n 0"
  by (simp add: fits_def)

lemma to_units_sum:
  assumes "fits n x"
  shows "to_units n (of_units n i + x) = i + to_units n x"
  using assms by (auto elim!: fitsE simp: of_units_add)

lemma fits_add: "fits n x \<Longrightarrow> fits n y \<Longrightarrow> fits n (x + y)"
  by (auto elim!: fitsE simp: of_units_add)

end
