(* ===== verification/Stock_Ledger.thy ===== *)
theory Stock_Ledger
  imports Rows Money Decimals
begin

text \<open>
  backend/internal/machinelogbook: the stock of the inventory (inventory.go, units.go, order_sales.go and the tables
  behind them). An article row holds its balance, the row of material_balances that is created and deleted with it:
  quantity, inventory value and average unit cost in millionths, and the inventory version. Filament is put on
  spools, whose remainder is what the ledger of inventory transactions attributes to them. Every movement of stock
  goes through \<open>apply_movement\<close>, which checks it, updates the balance and appends one entry to the ledger. An
  operation is one transaction, an error leaves the state as it was; the checks and unique indexes of the tables are
  part of the INSERT. The names of articles, times of creation, actors of rows and the details of errors are left out.
\<close>

section \<open>State\<close>

record article =
  ar_id :: string
  ar_kind :: string
  ar_unit :: string
  ar_code :: string
  ar_variant :: "string option"
  ar_color :: "string option"
  ar_diameter :: bool
  ar_package :: "int option"
  ar_location :: "string option"
  ar_active :: bool
  ar_deleted :: bool
  ar_version :: int
  ar_quantity :: int
  ar_value :: int
  ar_average :: int
  ar_stock_version :: int

record spool =
  sp_id :: string
  sp_label :: string
  sp_article :: string
  sp_initial :: int
  sp_tare :: "int option"
  sp_acquired :: "time option"
  sp_reference :: "string option"
  sp_location :: "string option"
  sp_notes :: "string option"
  sp_active :: bool
  sp_archived :: "time option"
  sp_outcome :: "string option"
  sp_retired :: "int option"
  sp_version :: int

record tag_row =
  tg_id :: string
  tg_spool :: string
  tg_kind :: string
  tg_value :: string
  tg_retired :: "time option"

record mount =
  mo_spool :: string
  mo_from :: time
  mo_until :: "time option"

datatype entry_kind = Purchase | Adjustment | Disposal | Manual_Consumption | Run_Consumption | Spool_Transfer
  | Order_Sale | Order_Sale_Reversal

definition kind_text :: "entry_kind \<Rightarrow> string" where
  "kind_text k = (case k of Purchase \<Rightarrow> ''purchase'' | Adjustment \<Rightarrow> ''adjustment'' | Disposal \<Rightarrow> ''disposal''
     | Manual_Consumption \<Rightarrow> ''manual_consumption'' | Run_Consumption \<Rightarrow> ''machine_run_consumption''
     | Spool_Transfer \<Rightarrow> ''spool_transfer'' | Order_Sale \<Rightarrow> ''order_sale'' | Order_Sale_Reversal \<Rightarrow> ''order_sale_reversal'')"

text \<open>A row of inventory_transactions; the deletion into the recycle bin is a flag.\<close>

record stock_entry =
  en_id :: string
  en_article :: string
  en_kind :: entry_kind
  en_quantity :: int
  en_cost :: int
  en_value :: int
  en_total :: "int option"
  en_at :: time
  en_supplier :: "string option"
  en_note :: "string option"
  en_reason :: "string option"
  en_reference :: "string option"
  en_usage :: "string option"
  en_item :: "string option"
  en_spool :: "string option"
  en_from :: "string option"
  en_to :: "string option"
  en_moved :: "int option"
  en_deleted :: bool

record stock =
  articles :: "article list"
  spools :: "spool list"
  spool_tags :: "tag_row list"
  mounts :: "mount list"
  stock_entries :: "stock_entry list"
  stock_drawn :: nat
  stock_audit :: "audit_event list"

text \<open>
  The arguments of the model: the clock, the identifiers, decimal.NewFromString, and the Unicode case mappings of Go
  (ToUpper, ToLower) and of the database (lower).
\<close>

record stock_env =
  se_now :: time
  se_id :: "nat \<Rightarrow> string"
  se_decimal :: "string \<Rightarrow> rat option"
  se_upper :: "string \<Rightarrow> string"
  se_fold :: "string \<Rightarrow> string"
  se_lower :: "string \<Rightarrow> string"

abbreviation inventory_read :: string where "inventory_read \<equiv> ''inventory.read''"
abbreviation inventory_manage :: string where "inventory_manage \<equiv> ''inventory.manage''"
abbreviation inventory_delete :: string where "inventory_delete \<equiv> ''inventory.delete''"
abbreviation ledger_delete :: string where "ledger_delete \<equiv> ''inventory.ledger.delete''"
abbreviation spools_manage :: string where "spools_manage \<equiv> ''filament_spools.manage''"

section \<open>Statements\<close>

definition stock_conflict :: app_error where
  "stock_conflict = conflicting ''conflict'' ''The request conflicts with existing data''"

definition resource_exists :: app_error where
  "resource_exists = conflicting ''already_exists'' ''A conflicting resource already exists''"

definition material_in_bin :: app_error where
  "material_in_bin = conflicting ''material_in_bin'' ''The article is in the recycle bin; restore it first''"

definition insufficient_stock :: app_error where
  "insufficient_stock = conflicting ''insufficient_stock'' ''Inventory would become negative''"

definition insufficient_unassigned :: app_error where
  "insufficient_unassigned =
     conflicting ''insufficient_unassigned_stock'' ''Unassigned material inventory would become negative''"

definition insufficient_spool :: app_error where
  "insufficient_spool = conflicting ''insufficient_spool_stock'' ''Spool inventory would become negative''"

definition invalid_value :: app_error where
  "invalid_value = conflicting ''invalid_inventory_value'' ''Inventory value would become negative''"

definition spool_retired :: app_error where
  "spool_retired = conflicting ''spool_not_consumable'' ''The spool is retired''"

definition spool_mismatch :: app_error where
  "spool_mismatch = conflicting ''spool_material_mismatch'' ''Spool does not belong to the selected material''"

definition find_row :: "('r \<Rightarrow> string) \<Rightarrow> string \<Rightarrow> 'r list \<Rightarrow> app_error + 'r" where
  "find_row key i rs = (case row_at key i rs of None \<Rightarrow> Inl not_found | Some r \<Rightarrow> Inr r)"

definition draw_stock_id :: "stock_env \<Rightarrow> stock \<Rightarrow> string \<times> stock" where
  "draw_stock_id env s = (se_id env (stock_drawn s), s\<lparr>stock_drawn := Suc (stock_drawn s)\<rparr>)"

definition log_stock :: "actor \<Rightarrow> string \<Rightarrow> string \<Rightarrow> string \<Rightarrow> string list \<Rightarrow> stock \<Rightarrow> stock" where
  "log_stock p action resource i fs s = s\<lparr>stock_audit := stock_audit s @ [audit_entry p action resource i fs]\<rparr>"

text \<open>GetMaterialForUpdate and GetFilamentSpoolForUpdate: the row, locked.\<close>

definition lock_article :: "stock \<Rightarrow> string \<Rightarrow> app_error + article" where
  "lock_article s i = find_row ar_id i (articles s)"

definition lock_spool :: "stock \<Rightarrow> string \<Rightarrow> app_error + spool" where
  "lock_spool s i = find_row sp_id i (spools s)"

text \<open>filament_spool_remaining: what the live entries of the ledger attribute to a spool.\<close>

definition spool_effect :: "string \<Rightarrow> stock_entry \<Rightarrow> int" where
  "spool_effect i e =
     (if en_deleted e then 0
      else (if en_spool e = Some i then en_quantity e else 0)
         + (if en_to e = Some i then (case en_moved e of None \<Rightarrow> 0 | Some k \<Rightarrow> k) else 0)
         - (if en_from e = Some i then (case en_moved e of None \<Rightarrow> 0 | Some k \<Rightarrow> k) else 0))"

definition spool_remaining :: "stock \<Rightarrow> string \<Rightarrow> int" where
  "spool_remaining s i = (\<Sum>e\<leftarrow>stock_entries s. spool_effect i e)"

text \<open>AllocatedMaterialQuantity and the assigned_quantity of GetMaterial: what the active spools of an article hold.\<close>

definition allocated_quantity :: "stock \<Rightarrow> string \<Rightarrow> int" where
  "allocated_quantity s i = (\<Sum>x\<leftarrow>filter (\<lambda>x. sp_article x = i \<and> sp_active x) (spools s). spool_remaining s (sp_id x))"

text \<open>UpdateMaterialBalance; the row is locked, so its version is the one that was read.\<close>

definition update_balance :: "article \<Rightarrow> rat \<Rightarrow> rat \<Rightarrow> rat \<Rightarrow> stock \<Rightarrow> stock" where
  "update_balance a quantity v average s =
     s\<lparr>articles := row_put ar_id (a\<lparr>ar_quantity := micros quantity, ar_value := micros v, ar_average := micros average,
                                      ar_stock_version := ar_stock_version a + 1\<rparr>) (articles s)\<rparr>"

text \<open>BumpFilamentSpoolVersion.\<close>

definition bump_spool :: "string \<Rightarrow> stock \<Rightarrow> stock" where
  "bump_spool i s = (case row_at sp_id i (spools s) of None \<Rightarrow> s
     | Some x \<Rightarrow> s\<lparr>spools := row_put sp_id (x\<lparr>sp_version := sp_version x + 1\<rparr>) (spools s)\<rparr>)"

text \<open>The checks of inventory_transactions and the unique indexes on the sale of an order item and its reversal.\<close>

definition entry_reasons :: "string list" where
  "entry_reasons = [''inventory_count'', ''unrecorded_consumption'', ''damaged'', ''disposed'', ''mark_empty'',
     ''job_corrected'', ''other'']"

definition short_text :: "nat \<Rightarrow> string option \<Rightarrow> bool" where
  "short_text n v = (case v of None \<Rightarrow> True | Some t \<Rightarrow> rune_count t \<le> n)"

definition entry_valid :: "stock_entry \<Rightarrow> bool" where
  "entry_valid e \<longleftrightarrow>
     0 \<le> en_cost e \<and> (case en_total e of None \<Rightarrow> True | Some k \<Rightarrow> 0 \<le> k) \<and>
     (en_kind e = Spool_Transfer \<or> en_quantity e \<noteq> 0) \<and>
     short_text 200 (en_supplier e) \<and> short_text 1000 (en_note e) \<and> short_text 200 (en_reference e) \<and>
     (case en_reason e of None \<Rightarrow> True | Some t \<Rightarrow> t \<in> set entry_reasons) \<and>
     (en_kind e = Purchase \<longrightarrow> 0 < en_quantity e \<and> en_total e \<noteq> None) \<and>
     (en_kind e \<in> {Run_Consumption, Manual_Consumption, Disposal, Order_Sale} \<longrightarrow> en_quantity e < 0) \<and>
     (en_kind e = Order_Sale_Reversal \<longrightarrow> 0 < en_quantity e) \<and>
     (en_kind e = Run_Consumption \<longrightarrow> en_usage e \<noteq> None) \<and>
     (en_kind e \<in> {Adjustment, Disposal} \<longrightarrow> en_reason e \<noteq> None) \<and>
     (en_reference e \<noteq> None \<longrightarrow> en_kind e = Purchase) \<and>
     (en_item e \<noteq> None \<longrightarrow> en_kind e \<in> {Order_Sale, Order_Sale_Reversal})"

definition entry_taken :: "stock \<Rightarrow> stock_entry \<Rightarrow> bool" where
  "entry_taken s e \<longleftrightarrow> en_item e \<noteq> None \<and>
     list_ex (\<lambda>x. en_item x = en_item e \<and> en_kind x = en_kind e) (stock_entries s)"

definition insert_entry :: "stock_entry \<Rightarrow> stock \<Rightarrow> app_error + stock_entry \<times> stock" where
  "insert_entry e s =
     ensure (entry_valid e) stock_conflict (\<lambda>_.
     ensure (\<not> entry_taken s e) resource_exists (\<lambda>_.
       Inr (e, s\<lparr>stock_entries := stock_entries s @ [e]\<rparr>)))"

section \<open>Movements\<close>

text \<open>
  inventoryMutation. The quiet movement writes no audit event of its own; the kept one leaves the version of its
  spool alone.
\<close>

record movement =
  mu_kind :: entry_kind
  mu_quantity :: rat
  mu_cost :: rat
  mu_value :: rat
  mu_total :: "rat option"
  mu_at :: time
  mu_supplier :: "string option"
  mu_note :: "string option"
  mu_reason :: "string option"
  mu_reference :: "string option"
  mu_usage :: "string option"
  mu_item :: "string option"
  mu_spool :: "string option"
  mu_quiet :: bool
  mu_keep :: bool

text \<open>A movement of loose stock without the optional fields.\<close>

definition plain_movement :: "entry_kind \<Rightarrow> rat \<Rightarrow> rat \<Rightarrow> rat \<Rightarrow> time \<Rightarrow> movement" where
  "plain_movement k quantity cost v t =
     \<lparr>mu_kind = k, mu_quantity = quantity, mu_cost = cost, mu_value = v, mu_total = None, mu_at = t, mu_supplier = None,
      mu_note = None, mu_reason = None, mu_reference = None, mu_usage = None, mu_item = None, mu_spool = None,
      mu_quiet = False, mu_keep = False\<rparr>"

text \<open>The source of a movement: a spool of the article that holds enough, or loose stock.\<close>

definition check_source :: "string \<Rightarrow> rat \<Rightarrow> movement \<Rightarrow> stock \<Rightarrow> app_error + unit" where
  "check_source i q m s =
     (case mu_spool m of
        Some j \<Rightarrow>
          and_then (lock_spool s j) (\<lambda>x.
          ensure (sp_article x = i) spool_mismatch (\<lambda>_.
          ensure (sp_active x) spool_retired (\<lambda>_.
          ensure (0 \<le> micro (spool_remaining s j) + mu_quantity m) insufficient_spool (\<lambda>_. Inr ()))))
      | None \<Rightarrow>
          if mu_quantity m < 0 then
            ensure (micro (allocated_quantity s i) \<le> q) insufficient_unassigned (\<lambda>_. Inr ())
          else Inr ())"

text \<open>The value after a movement: a negative value below a billionth is zero.\<close>

definition settle_value :: "rat \<Rightarrow> app_error + rat" where
  "settle_value v =
     (if v < 0 then (if \<bar>v\<bar> < 1 / 10 ^ 9 then Inr 0 else Inl invalid_value) else Inr v)"

definition average_cost :: "article \<Rightarrow> rat \<Rightarrow> rat \<Rightarrow> rat" where
  "average_cost a q v = (if 0 < q then decimal_div v q else micro (ar_average a))"

definition movement_entry :: "string \<Rightarrow> string \<Rightarrow> movement \<Rightarrow> stock_entry" where
  "movement_entry j i m =
     \<lparr>en_id = j, en_article = i, en_kind = mu_kind m, en_quantity = micros (mu_quantity m), en_cost = micros (mu_cost m),
      en_value = micros (mu_value m), en_total = map_option (to_units 2) (mu_total m), en_at = mu_at m,
      en_supplier = trimmed (mu_supplier m), en_note = trimmed (mu_note m), en_reason = mu_reason m,
      en_reference = trimmed (mu_reference m), en_usage = mu_usage m,
      en_item = (if mu_spool m = None then mu_item m else None), en_spool = mu_spool m, en_from = None, en_to = None,
      en_moved = None, en_deleted = False\<rparr>"

definition apply_movement :: "stock_env \<Rightarrow> actor \<Rightarrow> string \<Rightarrow> int option \<Rightarrow> movement \<Rightarrow> stock \<Rightarrow>
    app_error + stock_entry \<times> stock" where
  "apply_movement env p i expected m s =
     and_then (lock_article s i) (\<lambda>a.
     ensure (expected = None \<or> expected = Some (ar_stock_version a)) stale_write (\<lambda>_.
     ensure (\<not> (ar_deleted a \<and> expected \<noteq> None)) material_in_bin (\<lambda>_.
     let q = micro (ar_quantity a) + mu_quantity m in
     ensure (0 \<le> q) insufficient_stock (\<lambda>_.
     and_then (check_source i q m s) (\<lambda>_.
     and_then (settle_value (micro (ar_value a) + mu_value m)) (\<lambda>v.
     let (j, s1) = draw_stock_id env (update_balance a q v (average_cost a q v) s) in
     and_then (insert_entry (movement_entry j i m) s1) (\<lambda>(e, s2).
     let s3 = (case mu_spool m of Some x \<Rightarrow> if mu_keep m then s2 else bump_spool x s2 | None \<Rightarrow> s2);
         s4 = (if mu_quiet m then s3
               else log_stock p (''inventory.'' @ kind_text (mu_kind m)) ''material'' i
                      [''quantity'', ''inventoryValue'', ''inventoryVersion''] s3)
     in Inr (e, s4))))))))"

section \<open>Operations on the stock of an article\<close>

text \<open>parseDecimal.\<close>

definition parse_decimal :: "stock_env \<Rightarrow> string \<Rightarrow> bool \<Rightarrow> app_error + rat" where
  "parse_decimal env v positive =
     (case se_decimal env (trim_space v) of
        None \<Rightarrow> Inl (invalid ''invalid decimal value'')
      | Some d \<Rightarrow> if positive \<and> d \<le> 0 then Inl (invalid ''invalid decimal value'') else Inr d)"

text \<open>A decimal that must not be negative, under an error of its own.\<close>

definition parse_nonnegative :: "stock_env \<Rightarrow> string \<Rightarrow> string \<Rightarrow> app_error + rat" where
  "parse_nonnegative env v message =
     (case parse_decimal env v False of
        Inl e \<Rightarrow> Inl (invalid message)
      | Inr d \<Rightarrow> if d < 0 then Inl (invalid message) else Inr d)"

text \<open>validateOptionalText: the limit is in bytes.\<close>

definition valid_text :: "string option \<Rightarrow> string \<Rightarrow> nat \<Rightarrow> app_error + string option" where
  "valid_text v field limit =
     (case trimmed v of
        None \<Rightarrow> Inr None
      | Some t \<Rightarrow> if limit < length t
                  then Inl (invalid (field @ '' must be at most '' @ itoa (int limit) @ '' characters''))
                  else Inr (Some t))"

definition add_purchase :: "stock_env \<Rightarrow> actor \<Rightarrow> string \<Rightarrow> int \<Rightarrow> string \<Rightarrow> string \<Rightarrow> time \<Rightarrow> string option \<Rightarrow>
    string option \<Rightarrow> string option \<Rightarrow> stock \<Rightarrow> app_error + stock_entry \<times> stock" where
  "add_purchase env p i expected quantity paid t supplier ref note s =
     and_then (require p [inventory_manage]) (\<lambda>_.
     and_then (parse_decimal env quantity True) (\<lambda>q.
     and_then (parse_nonnegative env paid ''totalPrice must be non-negative'') (\<lambda>price.
     ensure (t \<noteq> zero_time) (invalid ''occurredAt is required'') (\<lambda>_.
     and_then (valid_text ref ''reference'' 200) (\<lambda>r.
       apply_movement env p i (Some expected)
         ((plain_movement Purchase q (decimal_div price q) price t)
            \<lparr>mu_total := Some price, mu_supplier := supplier, mu_reference := r, mu_note := note\<rparr>) s)))))"

definition record_consumption :: "stock_env \<Rightarrow> actor \<Rightarrow> string \<Rightarrow> int \<Rightarrow> string \<Rightarrow> time \<Rightarrow> bool \<Rightarrow> string option \<Rightarrow>
    string option \<Rightarrow> stock \<Rightarrow> app_error + stock_entry \<times> stock" where
  "record_consumption env p i expected quantity t disposal reason note s =
     and_then (require p [inventory_manage]) (\<lambda>_.
     and_then (parse_decimal env quantity True) (\<lambda>q.
     ensure (t \<noteq> zero_time) (invalid ''occurredAt is required'') (\<lambda>_.
     and_then (lock_article s i) (\<lambda>a.
     ensure (ar_stock_version a = expected) stale_write (\<lambda>_.
     let average = micro (ar_average a) in
       apply_movement env p i (Some expected)
         ((plain_movement (if disposal then Disposal else Manual_Consumption) (- q) average (- (q * average)) t)
            \<lparr>mu_reason := trimmed reason, mu_note := note\<rparr>) s)))))"

text \<open>The unit cost of a correction of loose stock: the average, or what is given when there is none.\<close>

definition correction_cost :: "stock_env \<Rightarrow> article \<Rightarrow> rat \<Rightarrow> string option \<Rightarrow> app_error + rat" where
  "correction_cost env a delta given =
     (if 0 < delta \<and> ar_average a = 0 then
        (case given of
           None \<Rightarrow> Inl (invalid ''acquisitionUnitCost is required for positive stock without an average cost'')
         | Some c \<Rightarrow> parse_nonnegative env c ''acquisitionUnitCost must be non-negative'')
      else Inr (micro (ar_average a)))"

definition correct_stock :: "stock_env \<Rightarrow> actor \<Rightarrow> string \<Rightarrow> int \<Rightarrow> string \<Rightarrow> string option \<Rightarrow> time \<Rightarrow> string \<Rightarrow>
    string option \<Rightarrow> stock \<Rightarrow> app_error + stock_entry \<times> stock" where
  "correct_stock env p i expected physical given t reason note s =
     and_then (require p [inventory_manage]) (\<lambda>_.
     and_then (parse_nonnegative env physical ''physicalQuantity must be non-negative'') (\<lambda>q.
     ensure (t \<noteq> zero_time) (invalid ''occurredAt is required'') (\<lambda>_.
     ensure (trim_space reason \<noteq> []) (invalid ''reason is required'') (\<lambda>_.
     and_then (lock_article s i) (\<lambda>a.
     ensure (ar_stock_version a = expected) stale_write (\<lambda>_.
     let delta = q - micro (ar_quantity a) in
     ensure (delta \<noteq> 0) (invalid ''physicalQuantity equals current stock'') (\<lambda>_.
     and_then (correction_cost env a delta given) (\<lambda>cost.
       apply_movement env p i (Some expected)
         ((plain_movement Adjustment delta cost (delta * cost) t)
            \<lparr>mu_reason := Some (trim_space reason), mu_note := note\<rparr>) s))))))))"

definition mark_empty :: "stock_env \<Rightarrow> actor \<Rightarrow> string \<Rightarrow> int \<Rightarrow> time \<Rightarrow> string option \<Rightarrow> stock \<Rightarrow> app_error + stock_entry \<times> stock" where
  "mark_empty env p i expected t note s =
     and_then (require p [inventory_manage]) (\<lambda>_.
     ensure (t \<noteq> zero_time) (invalid ''occurredAt is required'') (\<lambda>_.
     and_then (lock_article s i) (\<lambda>a.
     ensure (ar_stock_version a = expected) stale_write (\<lambda>_.
     ensure (ar_quantity a \<noteq> 0) (invalid ''material is already empty'') (\<lambda>_.
     and_then (apply_movement env p i (Some expected)
         ((plain_movement Adjustment (- micro (ar_quantity a)) (micro (ar_average a)) (- micro (ar_value a)) t)
            \<lparr>mu_reason := Some ''mark_empty'', mu_note := note\<rparr>) s) (\<lambda>(e, s1).
       Inr (e, log_stock p ''inventory.mark_empty'' ''material'' i [''quantity'', ''inventoryValue'', ''inventoryVersion''] s1)))))))"

section \<open>Sales of orders\<close>

definition insufficient_loose :: app_error where
  "insufficient_loose = conflicting ''insufficient_stock'' ''Loose stock does not cover the sold quantity''"

text \<open>What a sale takes off the inventory value: the whole value with the whole quantity.\<close>

definition sale_value :: "article \<Rightarrow> rat \<Rightarrow> rat" where
  "sale_value a q =
     (let delta = decimal_round 6 (q * micro (ar_average a)) in
      if q = micro (ar_quantity a) \<or> micro (ar_value a) < delta then micro (ar_value a) else delta)"

definition sell_item :: "stock_env \<Rightarrow> actor \<Rightarrow> string \<times> string \<times> int \<Rightarrow> stock \<Rightarrow> app_error + stock" where
  "sell_item env p sale s =
     (let (i, item, n) = sale; q = micro n in
      and_then (lock_article s i) (\<lambda>a.
      ensure (q \<le> max (micro (ar_quantity a) - micro (allocated_quantity s i)) 0) insufficient_loose (\<lambda>_.
      and_then (apply_movement env p i None
          ((plain_movement Order_Sale (- q) (micro (ar_average a)) (- sale_value a q) (se_now env))
             \<lparr>mu_item := Some item\<rparr>) s) (\<lambda>(e, s1). Inr s1))))"

text \<open>lockMaterials: every article must exist.\<close>

definition lock_articles :: "stock \<Rightarrow> string list \<Rightarrow> app_error + unit" where
  "lock_articles s js = (if list_all (\<lambda>i. row_at ar_id i (articles s) \<noteq> None) js then Inr () else Inl not_found)"

fun each :: "('x \<Rightarrow> 's \<Rightarrow> app_error + 's) \<Rightarrow> 'x list \<Rightarrow> 's \<Rightarrow> app_error + 's" where
  "each f [] s = Inr s"
| "each f (x # xs) s = and_then (f x s) (\<lambda>s1. each f xs s1)"

definition sell_from :: "stock_env \<Rightarrow> actor \<Rightarrow> (string \<times> string \<times> int) list \<Rightarrow> stock \<Rightarrow> app_error + stock" where
  "sell_from env p sales s =
     (let sorted = sort_key fst sales in
      and_then (lock_articles s (map fst sorted)) (\<lambda>_. each (sell_item env p) sorted s))"

text \<open>GetOrderItemSaleTransaction and OrderItemHasSaleReversal.\<close>

definition sale_entry :: "stock \<Rightarrow> string \<Rightarrow> stock_entry option" where
  "sale_entry s item = find (\<lambda>e. en_item e = Some item \<and> en_kind e = Order_Sale \<and> \<not> en_deleted e) (stock_entries s)"

definition sale_reversed :: "stock \<Rightarrow> string \<Rightarrow> bool" where
  "sale_reversed s item = list_ex (\<lambda>e. en_item e = Some item \<and> en_kind e = Order_Sale_Reversal) (stock_entries s)"

definition restock_order_sale :: "stock_env \<Rightarrow> actor \<Rightarrow> string \<Rightarrow> stock \<Rightarrow> app_error + stock" where
  "restock_order_sale env p item s =
     (case sale_entry s item of
        None \<Rightarrow> Inr s
      | Some e \<Rightarrow>
          if sale_reversed s item then Inr s
          else
            and_then (apply_movement env p (en_article e) None
                ((plain_movement Order_Sale_Reversal (- micro (en_quantity e)) (micro (en_cost e)) (- micro (en_value e)) (se_now env))
                   \<lparr>mu_item := Some item\<rparr>) s) (\<lambda>(e', s1). Inr s1))"

end
