(* ===== verification/Spools.thy ===== *)
theory Spools
  imports Stock_Ledger
begin

text \<open>
  backend/internal/machinelogbook/spools.go, spool_lifecycle.go and receipts.go: filament spools, their labels and
  identifiers, the transfers of stock between spools and loose stock, weighing, retiring and restoring a spool, and
  the receipt of purchased stock. The catalog's checks on a new article (createMaterialTx: name, type, unit, variant)
  are not modelled: a receipt carries the article as they leave it, or their error.
\<close>

section \<open>Labels\<close>

definition label_space :: "char \<Rightarrow> bool" where
  "label_space c \<longleftrightarrow> c \<in> {CHR 0x09, CHR 0x0A, CHR 0x0C, CHR 0x0D, CHR 0x20}"

text \<open>Every middle dot (U+00B7) becomes a space, every run of white space one space.\<close>

fun spaced_dots :: "string \<Rightarrow> string" where
  "spaced_dots (c # d # cs) =
     (if c = CHR 0xC2 \<and> d = CHR 0xB7 then CHR 0x20 # spaced_dots cs else c # spaced_dots (d # cs))"
| "spaced_dots cs = cs"

fun fold_spaces :: "bool \<Rightarrow> string \<Rightarrow> string" where
  "fold_spaces after [] = []"
| "fold_spaces after (c # cs) =
     (if label_space c then (if after then fold_spaces True cs else CHR 0x20 # fold_spaces True cs)
      else c # fold_spaces False cs)"

definition label_part :: "stock_env \<Rightarrow> string \<Rightarrow> string" where
  "label_part env v = trim_space (fold_spaces False (spaced_dots (se_upper env v)))"

definition label_prefix :: "stock_env \<Rightarrow> article \<Rightarrow> string" where
  "label_prefix env a =
     join_with ''-'' (''S'' # filter (\<lambda>t. t \<noteq> []) (map (label_part env)
       (ar_code a # (case ar_variant a of None \<Rightarrow> [] | Some v \<Rightarrow> [v]) @ (case ar_color a of None \<Rightarrow> [] | Some v \<Rightarrow> [v]))))"

text \<open>The number at the end of a label with the prefix, when it is one.\<close>

definition label_number :: "string \<Rightarrow> string \<Rightarrow> int option" where
  "label_number prefix label =
     (let suffix = drop (length prefix + 1) label in
      case go_atoi suffix of None \<Rightarrow> None | Some n \<Rightarrow> if list_all decimal_digit suffix then Some n else None)"

definition used_numbers :: "string \<Rightarrow> spool list \<Rightarrow> int list" where
  "used_numbers prefix xs =
     List.map_filter (label_number prefix) (map sp_label (filter (\<lambda>x. sp_active x \<and> has_prefix (sp_label x) (prefix @ ''-'')) xs))"

function first_free :: "int list \<Rightarrow> int \<Rightarrow> int" where
  "first_free used n = (if n \<in> set used then first_free used (n + 1) else n)"
  by pat_completeness auto
termination
proof (relation "measure (\<lambda>(used, n). card {k \<in> set used. n \<le> k})", goal_cases)
  case (2 used n)
  have "n \<in> {k \<in> set used. n \<le> k} - {k \<in> set used. n + 1 \<le> k}" using 2 by simp
  moreover have "{k \<in> set used. n + 1 \<le> k} \<subseteq> {k \<in> set used. n \<le> k}" by auto
  ultimately have "{k \<in> set used. n + 1 \<le> k} \<subset> {k \<in> set used. n \<le> k}" by blast
  then show ?case by (simp add: psubset_card_mono)
qed simp

declare first_free.simps [simp del]

definition next_label :: "string \<Rightarrow> stock \<Rightarrow> string" where
  "next_label prefix s = prefix @ ''-'' @ zero_padded 2 (first_free (used_numbers prefix (spools s)) 1)"

section \<open>Statements\<close>

definition lock_consumable :: "stock \<Rightarrow> string \<Rightarrow> app_error + spool" where
  "lock_consumable s i = and_then (lock_spool s i) (\<lambda>x. ensure (sp_active x) spool_retired (\<lambda>_. Inr x))"

text \<open>CreateFilamentSpool with the checks of the table and the unique labels of active spools.\<close>

definition insert_spool :: "spool \<Rightarrow> stock \<Rightarrow> app_error + stock" where
  "insert_spool x s =
     ensure (rune_count (sp_label x) \<le> 240 \<and> 0 < sp_initial x \<and> (case sp_tare x of None \<Rightarrow> True | Some k \<Rightarrow> 0 \<le> k) \<and>
         short_text 200 (sp_reference x) \<and> short_text 200 (sp_location x) \<and> short_text 2000 (sp_notes x)) stock_conflict (\<lambda>_.
     ensure (\<not> list_ex (\<lambda>y. sp_active y \<and> sp_label y = sp_label x) (spools s)) resource_exists (\<lambda>_.
       Inr (s\<lparr>spools := spools s @ [x]\<rparr>)))"

text \<open>InsertSpoolTransfer and the balance version that advances with it; \<open>None\<close> is loose stock.\<close>

definition label_at :: "stock \<Rightarrow> string option \<Rightarrow> string option" where
  "label_at s j = (case j of None \<Rightarrow> None | Some i \<Rightarrow> map_option sp_label (row_at sp_id i (spools s)))"

definition transfer_entry :: "string \<Rightarrow> string \<Rightarrow> string option \<Rightarrow> string option \<Rightarrow> rat \<Rightarrow> time \<Rightarrow> string option \<Rightarrow> stock_entry" where
  "transfer_entry j i src dst q t note =
     \<lparr>en_id = j, en_article = i, en_kind = Spool_Transfer, en_quantity = 0, en_cost = 0, en_value = 0, en_total = None,
      en_at = t, en_supplier = None, en_note = trimmed note, en_reason = None, en_reference = None, en_usage = None,
      en_item = None, en_spool = None, en_from = src, en_to = dst, en_moved = Some (micros q), en_deleted = False\<rparr>"

definition insert_transfer :: "stock_env \<Rightarrow> string \<Rightarrow> int \<Rightarrow> string option \<Rightarrow> string option \<Rightarrow> rat \<Rightarrow> time \<Rightarrow>
    string option \<Rightarrow> stock \<Rightarrow> app_error + stock_entry \<times> stock" where
  "insert_transfer env i expected src dst q t note s =
     and_then (lock_article s i) (\<lambda>a.
     ensure (ar_stock_version a = expected) stale_write (\<lambda>_.
     let (j, s1) = draw_stock_id env (update_balance a (micro (ar_quantity a)) (micro (ar_value a)) (micro (ar_average a)) s) in
     ensure (0 < micros q \<and> label_at s src \<noteq> label_at s dst) stock_conflict (\<lambda>_.
       insert_entry (transfer_entry j i src dst q t note) s1)))"

section \<open>Identifiers\<close>

definition valid_tag_kind :: "string \<Rightarrow> bool" where
  "valid_tag_kind k \<longleftrightarrow> k \<in> {''barcode'', ''qr'', ''nfc'', ''bambu_tray_uuid''}"

definition tag_in_use :: "stock_env \<Rightarrow> string \<Rightarrow> string \<Rightarrow> stock \<Rightarrow> bool" where
  "tag_in_use env k v s \<longleftrightarrow>
     list_ex (\<lambda>g. tg_kind g = k \<and> se_lower env (tg_value g) = se_lower env v \<and> tg_retired g = None) (spool_tags s)"

definition tag_taken :: app_error where
  "tag_taken = conflicting ''identifier_in_use'' ''An identifier is already assigned to a spool''"

definition add_tag :: "stock_env \<Rightarrow> string \<Rightarrow> string \<times> string \<Rightarrow> stock \<Rightarrow> app_error + stock" where
  "add_tag env i tag s =
     (let (k, v) = tag in
      ensure (\<not> tag_in_use env k v s) tag_taken (\<lambda>_.
      let (j, s1) = draw_stock_id env s in
        Inr (s1\<lparr>spool_tags := spool_tags s1 @ [\<lparr>tg_id = j, tg_spool = i, tg_kind = k, tg_value = v, tg_retired = None\<rparr>]\<rparr>)))"

fun check_tags :: "stock_env \<Rightarrow> (string \<times> string) list \<Rightarrow> (string \<times> string) list \<Rightarrow> app_error + (string \<times> string) list" where
  "check_tags env seen [] = Inr []"
| "check_tags env seen ((k, raw) # tags) =
     (let v = trim_space raw in
      if \<not> valid_tag_kind k \<or> v = [] \<or> 255 < length v then Inl (invalid ''invalid spool identifier'')
      else if (k, se_fold env v) \<in> set seen then Inl (conflicting ''identifier_in_use'' ''An identifier is used twice'')
      else and_then (check_tags env ((k, se_fold env v) # seen) tags) (\<lambda>rest. Inr ((k, v) # rest)))"

definition validate_tags :: "stock_env \<Rightarrow> (string \<times> string) list \<Rightarrow> app_error + (string \<times> string) list" where
  "validate_tags env tags =
     (if 20 < length tags then Inl (invalid ''too many identifiers'') else check_tags env [] tags)"

definition find_spool_by_tag :: "stock_env \<Rightarrow> string \<Rightarrow> string \<Rightarrow> stock \<Rightarrow> string option" where
  "find_spool_by_tag env k v s =
     map_option tg_spool (find (\<lambda>g. tg_kind g = k \<and> se_lower env (tg_value g) = se_lower env v \<and> tg_retired g = None) (spool_tags s))"

definition lookup_spool :: "stock_env \<Rightarrow> actor \<Rightarrow> string \<Rightarrow> string \<Rightarrow> stock \<Rightarrow> app_error + spool" where
  "lookup_spool env p k v s =
     and_then (require p [inventory_read]) (\<lambda>_.
     ensure (valid_tag_kind k) (invalid ''invalid identifier kind'') (\<lambda>_.
     case find_spool_by_tag env k (trim_space v) s of
       None \<Rightarrow> Inl not_found
     | Some i \<Rightarrow>
         and_then (lock_spool s i) (\<lambda>x.
         and_then (lock_article s (sp_article x)) (\<lambda>a.
           ensure (\<not> ar_deleted a) not_found (\<lambda>_. Inr x)))))"

definition add_spool_tag :: "stock_env \<Rightarrow> actor \<Rightarrow> string \<Rightarrow> string \<Rightarrow> string \<Rightarrow> stock \<Rightarrow> app_error + stock" where
  "add_spool_tag env p i k raw s =
     and_then (require p [spools_manage]) (\<lambda>_.
     let v = trim_space raw in
     ensure (valid_tag_kind k \<and> v \<noteq> [] \<and> length v \<le> 255) (invalid ''invalid spool identifier'') (\<lambda>_.
     and_then (lock_spool s i) (\<lambda>x.
     ensure (sp_active x) (conflicting ''spool_retired'' ''A retired spool cannot be tagged'') (\<lambda>_.
     and_then (add_tag env i (k, v) s) (\<lambda>s1.
       Inr (log_stock p ''filament_spool.identifier_added'' ''filament_spool'' i [''identifiers''] s1))))))"

definition delete_spool_tag :: "actor \<Rightarrow> string \<Rightarrow> string \<Rightarrow> stock \<Rightarrow> app_error + stock" where
  "delete_spool_tag p i j s =
     and_then (require p [spools_manage]) (\<lambda>_.
     let hit = (\<lambda>g. tg_id g = j \<and> tg_spool g = i \<and> tg_retired g = None) in
     ensure (list_ex hit (spool_tags s)) not_found (\<lambda>_.
       Inr (log_stock p ''filament_spool.identifier_removed'' ''filament_spool'' i [''identifiers'']
              (s\<lparr>spool_tags := filter (\<lambda>g. \<not> hit g) (spool_tags s)\<rparr>))))"

section \<open>Creating and changing spools\<close>

record spool_input =
  si_article :: string
  si_weight :: string
  si_mode :: string
  si_price :: "string option"
  si_version :: int
  si_at :: time
  si_supplier :: "string option"
  si_tare :: "string option"
  si_acquired :: "time option"
  si_reference :: "string option"
  si_location :: "string option"
  si_notes :: "string option"
  si_tags :: "(string \<times> string) list"

definition parse_tare :: "stock_env \<Rightarrow> string option \<Rightarrow> app_error + int option" where
  "parse_tare env v =
     (case v of None \<Rightarrow> Inr None
      | Some text \<Rightarrow> and_then (parse_nonnegative env text ''tareWeightG must be non-negative'') (\<lambda>d. Inr (Some (micros d))))"

text \<open>A date column keeps the day of an instant.\<close>

definition day_start :: "time \<Rightarrow> time" where
  "day_start t = t - t mod 86400000000000"

definition check_spool_article :: "article \<Rightarrow> (unit \<Rightarrow> app_error + 'a) \<Rightarrow> app_error + 'a" where
  "check_spool_article a k =
     ensure (\<not> ar_deleted a) material_in_bin (\<lambda>_.
     ensure (ar_kind a = ''filament'' \<and> ar_diameter a)
       (conflicting ''material_not_filament'' ''Spools require a filament article'') k)"

text \<open>The price of a new acquisition; existing stock has none.\<close>

definition acquisition_price :: "stock_env \<Rightarrow> spool_input \<Rightarrow> app_error + rat" where
  "acquisition_price env input =
     (if si_mode input = ''new_acquisition'' then
        (case si_price input of
           None \<Rightarrow> Inl (invalid ''totalPrice is required for a new acquisition'')
         | Some v \<Rightarrow> parse_nonnegative env v ''totalPrice must be non-negative'')
      else Inr 0)"

text \<open>The stock that goes onto the new spool: a purchase, or loose stock.\<close>

definition fill_spool :: "stock_env \<Rightarrow> actor \<Rightarrow> spool_input \<Rightarrow> string option \<Rightarrow> rat \<Rightarrow> rat \<Rightarrow> rat \<Rightarrow> string \<Rightarrow> stock \<Rightarrow>
    app_error + stock" where
  "fill_spool env p input supplier weight price unassigned j s =
     (if si_mode input = ''new_acquisition'' then
        and_then (apply_movement env p (si_article input) (Some (si_version input))
          ((plain_movement Purchase weight (decimal_div price weight) price (si_at input))
             \<lparr>mu_total := Some price, mu_supplier := supplier, mu_note := si_notes input, mu_spool := Some j\<rparr>) s)
          (\<lambda>(e, s1). Inr s1)
      else
        ensure (weight \<le> unassigned)
          (conflicting ''insufficient_unassigned_stock'' ''Not enough unassigned material stock'') (\<lambda>_.
        and_then (insert_transfer env (si_article input) (si_version input) None (Some j) weight (si_at input) (si_notes input) s)
          (\<lambda>(e, s1). Inr (bump_spool j s1))))"

definition create_spool :: "stock_env \<Rightarrow> actor \<Rightarrow> spool_input \<Rightarrow> stock \<Rightarrow> app_error + stock" where
  "create_spool env p input s =
     and_then (require p [spools_manage, inventory_manage]) (\<lambda>_.
     ensure (si_mode input = ''new_acquisition'' \<or> si_mode input = ''existing_stock'') (invalid ''invalid stockMode'') (\<lambda>_.
     ensure (si_article input \<noteq> []) (invalid ''materialId is required'') (\<lambda>_.
     and_then (parse_decimal env (si_weight input) True) (\<lambda>weight.
     ensure (1 \<le> si_version input) (invalid ''expectedInventoryVersion is required'') (\<lambda>_.
     and_then (valid_text (si_supplier input) ''supplier'' 200) (\<lambda>supplier.
     ensure (si_at input \<noteq> zero_time) (invalid ''occurredAt is required'') (\<lambda>_.
     and_then (parse_tare env (si_tare input)) (\<lambda>tare.
     and_then (acquisition_price env input) (\<lambda>price.
     and_then (validate_tags env (si_tags input)) (\<lambda>tags.
     and_then (lock_article s (si_article input)) (\<lambda>a.
     ensure (ar_stock_version a = si_version input) stale_write (\<lambda>_.
     check_spool_article a (\<lambda>_.
     let label = next_label (label_prefix env a) s; (j, s1) = draw_stock_id env s in
     and_then (insert_spool \<lparr>sp_id = j, sp_label = label, sp_article = si_article input, sp_initial = micros weight,
         sp_tare = tare, sp_acquired = map_option day_start (si_acquired input), sp_reference = trimmed (si_reference input),
         sp_location = trimmed (si_location input), sp_notes = trimmed (si_notes input), sp_active = True,
         sp_archived = None, sp_outcome = None, sp_retired = None, sp_version = 1\<rparr> s1) (\<lambda>s2.
     and_then (each (add_tag env j) tags s2) (\<lambda>s3.
     and_then (fill_spool env p input supplier weight price
         (micro (ar_quantity a) - micro (allocated_quantity s (si_article input))) j s3) (\<lambda>s4.
       Inr (log_stock p ''filament_spool.created'' ''filament_spool'' j
              [''materialId'', ''displayId'', ''stockMode'', ''inventory'', ''metadata''] s4)))))))))))))))))"

record spool_update =
  su_version :: int
  su_tare :: "string option"
  su_acquired :: "time option"
  su_reference :: "string option"
  su_location :: "string option"
  su_notes :: "string option"

definition update_spool :: "stock_env \<Rightarrow> actor \<Rightarrow> string \<Rightarrow> spool_update \<Rightarrow> stock \<Rightarrow> app_error + stock" where
  "update_spool env p i u s =
     and_then (require p [spools_manage]) (\<lambda>_.
     ensure (1 \<le> su_version u) (invalid ''invalid spool update'') (\<lambda>_.
     and_then (parse_tare env (su_tare u)) (\<lambda>tare.
     and_then (lock_spool s i) (\<lambda>x.
     and_then (lock_article s (sp_article x)) (\<lambda>a.
     ensure (\<not> ar_deleted a) not_found (\<lambda>_.
     ensure (sp_version x = su_version u) stale_write (\<lambda>_.
     let y = x\<lparr>sp_tare := tare, sp_acquired := map_option day_start (su_acquired u), sp_reference := trimmed (su_reference u),
               sp_location := trimmed (su_location u), sp_notes := trimmed (su_notes u), sp_version := sp_version x + 1\<rparr> in
     ensure (short_text 200 (sp_reference y) \<and> short_text 200 (sp_location y) \<and> short_text 2000 (sp_notes y)) stock_conflict (\<lambda>_.
       Inr (log_stock p ''filament_spool.updated'' ''filament_spool'' i
              [''tareWeightG'', ''acquiredOn'', ''acquisitionReference'', ''storageLocation'', ''notes'']
              (s\<lparr>spools := row_put sp_id y (spools s)\<rparr>))))))))))"

section \<open>Moving stock\<close>

text \<open>The spools of a transfer in the order of their ids, each locked and checked.\<close>

definition transfer_spool :: "string \<Rightarrow> string option \<Rightarrow> rat \<Rightarrow> string \<Rightarrow> stock \<Rightarrow> app_error + stock" where
  "transfer_spool i src q j s =
     and_then (lock_consumable s j) (\<lambda>x.
     ensure (sp_article x = i) (conflicting ''spool_material_mismatch'' ''Spools must belong to the selected material'') (\<lambda>_.
     ensure (\<not> (src = Some j \<and> micro (spool_remaining s j) < q))
       (conflicting ''insufficient_spool_stock'' ''Source spool does not contain enough stock'') (\<lambda>_. Inr s)))"

definition transfer_stock :: "stock_env \<Rightarrow> actor \<Rightarrow> string \<Rightarrow> int \<Rightarrow> string option \<Rightarrow> string option \<Rightarrow> string \<Rightarrow> time \<Rightarrow>
    string option \<Rightarrow> stock \<Rightarrow> app_error + stock_entry \<times> stock" where
  "transfer_stock env p i expected src dst quantity t note s =
     and_then (require p [inventory_manage]) (\<lambda>_.
     and_then (parse_decimal env quantity True) (\<lambda>q.
     ensure (src \<noteq> dst \<and> t \<noteq> zero_time) (invalid ''invalid spool transfer'') (\<lambda>_.
     and_then (lock_article s i) (\<lambda>a.
     ensure (\<not> ar_deleted a) material_in_bin (\<lambda>_.
     ensure (ar_stock_version a = expected) stale_write (\<lambda>_.
     let js = sort ((case src of None \<Rightarrow> [] | Some j \<Rightarrow> [j]) @ (case dst of None \<Rightarrow> [] | Some j \<Rightarrow> [j])) in
     and_then (each (transfer_spool i src q) js s) (\<lambda>_.
     ensure (\<not> (src = None \<and> micro (ar_quantity a) - micro (allocated_quantity s i) < q))
       (conflicting ''insufficient_unassigned_stock'' ''Not enough unassigned stock'') (\<lambda>_.
     and_then (insert_transfer env i expected src dst q t note s) (\<lambda>(e, s1).
       Inr (e, log_stock p ''inventory.spool_transfer'' ''material'' i [''attribution'', ''inventoryVersion'']
                 (fold bump_spool js s1)))))))))))"

definition consume_spool :: "stock_env \<Rightarrow> actor \<Rightarrow> string \<Rightarrow> int \<Rightarrow> int \<Rightarrow> string \<Rightarrow> time \<Rightarrow> bool \<Rightarrow> string option \<Rightarrow>
    string option \<Rightarrow> stock \<Rightarrow> app_error + stock_entry \<times> stock" where
  "consume_spool env p j expected expected_spool quantity t disposal reason note s =
     and_then (require p [inventory_manage]) (\<lambda>_.
     and_then (case parse_decimal env quantity True of
         Inl e \<Rightarrow> Inl (invalid ''valid quantity and occurredAt are required'') | Inr q \<Rightarrow> Inr q) (\<lambda>q.
     ensure (t \<noteq> zero_time) (invalid ''valid quantity and occurredAt are required'') (\<lambda>_.
     and_then (lock_consumable s j) (\<lambda>x.
     ensure (sp_version x = expected_spool) stale_write (\<lambda>_.
     and_then (lock_article s (sp_article x)) (\<lambda>a.
     ensure (\<not> ar_deleted a) material_in_bin (\<lambda>_.
     ensure (ar_stock_version a = expected) stale_write (\<lambda>_.
     let average = micro (ar_average a) in
       apply_movement env p (sp_article x) (Some expected)
         ((plain_movement (if disposal then Disposal else Manual_Consumption) (- q) average (- (q * average)) t)
            \<lparr>mu_reason := trimmed reason, mu_note := note, mu_spool := Some j\<rparr>) s))))))))"

text \<open>GetFilamentSpoolPurchaseUnitCost: the cost of the spool's last purchase.\<close>

definition purchase_cost :: "stock \<Rightarrow> string \<Rightarrow> int option" where
  "purchase_cost s j =
     (case sort_key en_at (sort_key en_id
        (filter (\<lambda>e. en_spool e = Some j \<and> en_kind e = Purchase \<and> \<not> en_deleted e) (stock_entries s))) of
        [] \<Rightarrow> None | es \<Rightarrow> Some (en_cost (last es)))"

definition weighing_cost :: "stock_env \<Rightarrow> article \<Rightarrow> string \<Rightarrow> rat \<Rightarrow> string option \<Rightarrow> stock \<Rightarrow> app_error + rat" where
  "weighing_cost env a j delta given s =
     (if 0 < delta then
        (case given of
           Some c \<Rightarrow> parse_nonnegative env c ''invalid acquisitionUnitCost''
         | None \<Rightarrow> Inr (case purchase_cost s j of Some c \<Rightarrow> micro c | None \<Rightarrow> micro (ar_average a)))
      else Inr (micro (ar_average a)))"

definition correct_spool :: "stock_env \<Rightarrow> actor \<Rightarrow> string \<Rightarrow> int \<Rightarrow> int \<Rightarrow> string \<Rightarrow> string option \<Rightarrow> time \<Rightarrow> string \<Rightarrow>
    string option \<Rightarrow> stock \<Rightarrow> app_error + stock_entry \<times> stock" where
  "correct_spool env p j expected expected_spool physical given t reason note s =
     and_then (require p [inventory_manage]) (\<lambda>_.
     and_then (parse_nonnegative env physical ''invalid spool correction'') (\<lambda>q.
     ensure (trim_space reason \<noteq> [] \<and> t \<noteq> zero_time) (invalid ''invalid spool correction'') (\<lambda>_.
     and_then (lock_consumable s j) (\<lambda>x.
     ensure (sp_version x = expected_spool) stale_write (\<lambda>_.
     and_then (lock_article s (sp_article x)) (\<lambda>a.
     ensure (\<not> ar_deleted a) material_in_bin (\<lambda>_.
     ensure (ar_stock_version a = expected) stale_write (\<lambda>_.
     let delta = q - micro (spool_remaining s j) in
     ensure (delta \<noteq> 0) (invalid ''physicalQuantity equals current spool stock'') (\<lambda>_.
     and_then (weighing_cost env a j delta given s) (\<lambda>cost.
       apply_movement env p (sp_article x) (Some expected)
         ((plain_movement Adjustment delta cost (delta * cost) t)
            \<lparr>mu_reason := Some (trim_space reason), mu_note := note, mu_spool := Some j\<rparr>) s))))))))))"

section \<open>Retiring, restoring and purging a spool\<close>

definition unmount :: "time \<Rightarrow> (string \<Rightarrow> bool) \<Rightarrow> mount list \<Rightarrow> mount list" where
  "unmount now which xs =
     map (\<lambda>m. if which (mo_spool m) \<and> mo_until m = None then m\<lparr>mo_until := Some (max now (mo_from m + microsecond))\<rparr> else m) xs"

definition retire_tags :: "time \<Rightarrow> string \<Rightarrow> tag_row list \<Rightarrow> tag_row list" where
  "retire_tags now i gs = map (\<lambda>g. if tg_spool g = i \<and> tg_retired g = None then g\<lparr>tg_retired := Some now\<rparr> else g) gs"

text \<open>The identifiers that were retired with the spool come back unless another spool uses the value.\<close>

definition restore_tags :: "stock_env \<Rightarrow> time option \<Rightarrow> string \<Rightarrow> stock \<Rightarrow> stock" where
  "restore_tags env archived i s =
     (case archived of None \<Rightarrow> s
      | Some t \<Rightarrow> s\<lparr>spool_tags := map (\<lambda>g.
          if tg_spool g = i \<and> tg_retired g = Some t \<and> \<not> tag_in_use env (tg_kind g) (tg_value g) s
          then g\<lparr>tg_retired := None\<rparr> else g) (spool_tags s)\<rparr>)"

definition write_off :: "stock_env \<Rightarrow> actor \<Rightarrow> spool \<Rightarrow> article \<Rightarrow> string \<Rightarrow> int \<Rightarrow> stock \<Rightarrow> app_error + stock" where
  "write_off env p x a outcome written s =
     (if 0 < written then
        let average = micro (ar_average a); discarded = outcome = ''discarded'' in
        and_then (apply_movement env p (sp_article x) None
          ((plain_movement (if discarded then Disposal else Manual_Consumption) (- micro written) average
              (- (micro written * average)) (se_now env))
             \<lparr>mu_reason := Some (if discarded then ''disposed'' else ''unrecorded_consumption''), mu_spool := Some (sp_id x),
              mu_quiet := True, mu_keep := True\<rparr>) s) (\<lambda>(e, s1). Inr s1)
      else Inr s)"

definition retire_spool :: "stock_env \<Rightarrow> actor \<Rightarrow> string \<Rightarrow> int \<Rightarrow> string \<Rightarrow> stock \<Rightarrow> app_error + stock" where
  "retire_spool env p i expected outcome s =
     and_then (require p [spools_manage, inventory_manage]) (\<lambda>_.
     ensure (1 \<le> expected \<and> outcome \<in> {''empty'', ''discarded''})
       (invalid ''expectedVersion and a valid outcome are required'') (\<lambda>_.
     and_then (lock_consumable s i) (\<lambda>x.
     ensure (sp_version x = expected) stale_write (\<lambda>_.
     and_then (lock_article s (sp_article x)) (\<lambda>a.
     ensure (\<not> ar_deleted a) material_in_bin (\<lambda>_.
     let written = max (spool_remaining s i) 0; now = se_now env in
     and_then (write_off env p x a outcome written s) (\<lambda>s1.
     let y = x\<lparr>sp_active := False, sp_archived := Some now, sp_outcome := Some outcome, sp_retired := Some written,
               sp_version := sp_version x + 1\<rparr> in
       Inr (log_stock p ''filament_spool.retired'' ''filament_spool'' i
              [''lifecycle'', ''retiredOutcome'', ''mounted'', ''identifiers'', ''inventory'']
              (s1\<lparr>mounts := unmount now (\<lambda>j. j = i) (mounts s1), spool_tags := retire_tags now i (spool_tags s1),
                  spools := row_put sp_id y (spools s1)\<rparr>)))))))))"

definition spool_not_retired :: app_error where
  "spool_not_retired = conflicting ''spool_not_retired'' ''The spool is not in the recycle bin''"

text \<open>The label of a restored spool: its own, or the next free one when another active spool took it.\<close>

definition restored_label :: "stock_env \<Rightarrow> spool \<Rightarrow> article \<Rightarrow> stock \<Rightarrow> string" where
  "restored_label env x a s =
     (if list_ex (\<lambda>y. sp_active y \<and> sp_label y = sp_label x \<and> sp_id y \<noteq> sp_id x) (spools s)
      then next_label (label_prefix env a) s else sp_label x)"

text \<open>RestoreFilamentSpool with the checks of the table on the label it writes.\<close>

definition put_restored :: "spool \<Rightarrow> stock \<Rightarrow> app_error + stock" where
  "put_restored y s =
     ensure (rune_count (sp_label y) \<le> 240) stock_conflict (\<lambda>_.
     ensure (\<not> list_ex (\<lambda>z. sp_active z \<and> sp_label z = sp_label y \<and> sp_id z \<noteq> sp_id y) (spools s)) resource_exists (\<lambda>_.
       Inr (s\<lparr>spools := row_put sp_id y (spools s)\<rparr>)))"

definition restore_spool :: "stock_env \<Rightarrow> actor \<Rightarrow> string \<Rightarrow> int \<Rightarrow> stock \<Rightarrow> app_error + stock" where
  "restore_spool env p i expected s =
     and_then (require p [spools_manage, inventory_manage]) (\<lambda>_.
     ensure (1 \<le> expected) (invalid ''expectedVersion must be positive'') (\<lambda>_.
     and_then (lock_spool s i) (\<lambda>x.
     ensure (\<not> sp_active x) spool_not_retired (\<lambda>_.
     ensure (sp_version x = expected) stale_write (\<lambda>_.
     and_then (lock_article s (sp_article x)) (\<lambda>a.
     ensure (\<not> ar_deleted a) material_in_bin (\<lambda>_.
     let y = x\<lparr>sp_label := restored_label env x a s, sp_active := True, sp_archived := None, sp_outcome := None,
               sp_retired := None, sp_version := sp_version x + 1\<rparr> in
     and_then (put_restored y s) (\<lambda>s0.
     let s1 = restore_tags env (sp_archived x) i s0;
         written = (case sp_retired x of None \<Rightarrow> 0 | Some k \<Rightarrow> k); average = micro (ar_average a) in
     and_then
       (if sp_outcome x = Some ''discarded'' \<and> 0 < written then
          and_then (apply_movement env p (sp_article x) None
            ((plain_movement Adjustment (micro written) average (micro written * average) (se_now env))
               \<lparr>mu_reason := Some ''other'', mu_note := Some ''The spool came back from the recycle bin'',
                mu_spool := Some i, mu_quiet := True, mu_keep := True\<rparr>) s1) (\<lambda>(e, s2). Inr s2)
        else Inr s1) (\<lambda>s2.
       Inr (log_stock p ''filament_spool.restored'' ''filament_spool'' i
              [''lifecycle'', ''displayId'', ''identifiers'', ''inventory''] s2))))))))))"

text \<open>The ledger keeps its entries but loses the reference to the spool; identifiers and mounts go with it.\<close>

definition detach_spool :: "string \<Rightarrow> stock_entry \<Rightarrow> stock_entry" where
  "detach_spool i e =
     e\<lparr>en_spool := (if en_spool e = Some i then None else en_spool e),
       en_from := (if en_from e = Some i then None else en_from e), en_to := (if en_to e = Some i then None else en_to e)\<rparr>"

definition delete_spool :: "string \<Rightarrow> stock \<Rightarrow> stock" where
  "delete_spool i s =
     s\<lparr>spools := row_drop sp_id i (spools s), spool_tags := filter (\<lambda>g. tg_spool g \<noteq> i) (spool_tags s),
       mounts := filter (\<lambda>m. mo_spool m \<noteq> i) (mounts s), stock_entries := map (detach_spool i) (stock_entries s)\<rparr>"

definition purge_spool :: "actor \<Rightarrow> string \<Rightarrow> int \<Rightarrow> stock \<Rightarrow> app_error + stock" where
  "purge_spool p i expected s =
     and_then (require p [spools_manage, inventory_delete]) (\<lambda>_.
     ensure (1 \<le> expected) (invalid ''expectedVersion must be positive'') (\<lambda>_.
     and_then (lock_spool s i) (\<lambda>x.
     ensure (\<not> sp_active x) spool_not_retired (\<lambda>_.
     ensure (sp_version x = expected) stale_write (\<lambda>_.
       Inr (log_stock p ''filament_spool.purged'' ''filament_spool'' i [] (delete_spool i s)))))))"

end
