(* ===== verification/Stock_Receipts.thy ===== *)
theory Stock_Receipts
  imports Spools
begin

text \<open>
  backend/internal/machinelogbook/receipts.go: a receipt books purchased packages of an article, as loose stock or
  each on a spool of its own, in one transaction. \<open>split_cents\<close> divides the price over the packages.
\<close>

section \<open>Prices\<close>

text \<open>splitCents, in cents; the price is not negative.\<close>

definition split_cents :: "int \<Rightarrow> nat \<Rightarrow> int list" where
  "split_cents cents n =
     map (\<lambda>i. cents div int n + (if i + 1 = n then cents mod int n else 0)) [0..<n]"

section \<open>Validation\<close>

datatype placement_mode = Storage | New_Spools | Other_Mode string

record placement =
  pl_mode :: placement_mode
  pl_tare :: "string option"
  pl_location :: "string option"
  pl_tags :: "(string \<times> string) list"

record receipt_input =
  rc_article :: "string option"
  rc_new :: "(app_error + article) option"
  rc_version :: int
  rc_count :: int
  rc_size :: "string option"
  rc_total :: string
  rc_supplier :: "string option"
  rc_reference :: "string option"
  rc_note :: "string option"
  rc_at :: time
  rc_placement :: "placement option"

record receipt_values =
  rv_count :: nat
  rv_size :: rat
  rv_price :: rat
  rv_mode :: placement_mode
  rv_tare :: "int option"
  rv_location :: "string option"
  rv_supplier :: "string option"
  rv_reference :: "string option"
  rv_tags :: "(string \<times> string) list"

definition package_size :: "stock_env \<Rightarrow> string option \<Rightarrow> app_error + rat" where
  "package_size env v =
     (case v of None \<Rightarrow> Inr 0
      | Some t \<Rightarrow> (case parse_decimal env t True of Inl e \<Rightarrow> Inl (invalid ''packageSize must be positive'') | Inr d \<Rightarrow> Inr d))"

definition receipt_price :: "stock_env \<Rightarrow> string \<Rightarrow> app_error + rat" where
  "receipt_price env v =
     (case parse_decimal env v False of
        Inl e \<Rightarrow> Inl (invalid ''totalPrice must be a non-negative amount with at most two decimals'')
      | Inr d \<Rightarrow> if d < 0 \<or> d \<noteq> decimal_round 2 d \<or> 1000000000000 < d
                then Inl (invalid ''totalPrice must be a non-negative amount with at most two decimals'') else Inr d)"

definition check_placement :: "stock_env \<Rightarrow> nat \<Rightarrow> placement \<Rightarrow> app_error + int option \<times> string option" where
  "check_placement env n pl =
     (case pl_mode pl of
        Storage \<Rightarrow>
          ensure (pl_tare pl = None \<and> pl_location pl = None \<and> pl_tags pl = [])
            (invalid ''placement storage takes no further placement fields'') (\<lambda>_. Inr (None, None))
      | New_Spools \<Rightarrow>
          and_then (parse_tare env (pl_tare pl)) (\<lambda>tare.
          and_then (valid_text (pl_location pl) ''storageLocation'' 200) (\<lambda>loc.
          ensure (pl_tags pl = [] \<or> n = 1)
            (invalid ''identifiers are only valid when exactly one spool is created'') (\<lambda>_. Inr (tare, loc))))
      | Other_Mode m \<Rightarrow> Inl (invalid ''invalid placement mode''))"

definition validate_receipt :: "stock_env \<Rightarrow> receipt_input \<Rightarrow> app_error + receipt_values" where
  "validate_receipt env input =
     ensure ((rc_article input = None) \<noteq> (rc_new input = None)) (invalid ''exactly one of materialId and material is required'') (\<lambda>_.
     ensure (rc_article input = None \<or> 1 \<le> rc_version input) (invalid ''expectedInventoryVersion is required with materialId'') (\<lambda>_.
     ensure (1 \<le> rc_count input \<and> rc_count input \<le> 500) (invalid ''packageCount must be between 1 and 500'') (\<lambda>_.
     and_then (package_size env (rc_size input)) (\<lambda>size.
     and_then (receipt_price env (rc_total input)) (\<lambda>price.
     ensure (rc_at input \<noteq> zero_time) (invalid ''occurredAt is required'') (\<lambda>_.
     ensure (rc_at input \<le> se_now env + minute) (invalid ''occurredAt must not be in the future'') (\<lambda>_.
     and_then (valid_text (rc_supplier input) ''supplier'' 200) (\<lambda>supplier.
     and_then (valid_text (rc_reference input) ''reference'' 200) (\<lambda>ref.
     and_then (valid_text (rc_note input) ''note'' 1000) (\<lambda>_.
     let v = \<lparr>rv_count = nat (rc_count input), rv_size = size, rv_price = price, rv_mode = Storage, rv_tare = None,
              rv_location = None, rv_supplier = supplier, rv_reference = ref, rv_tags = []\<rparr> in
     (case rc_placement input of
        None \<Rightarrow> Inr v
      | Some pl \<Rightarrow>
          and_then (check_placement env (rv_count v) pl) (\<lambda>(tare, loc).
          and_then (validate_tags env (pl_tags pl)) (\<lambda>tags.
            Inr (v\<lparr>rv_mode := pl_mode pl, rv_tare := tare, rv_location := loc, rv_tags := tags\<rparr>))))))))))))))"

section \<open>Booking\<close>

text \<open>CreateMaterial and CreateMaterialBalance: an article starts without stock.\<close>

definition create_article :: "stock_env \<Rightarrow> actor \<Rightarrow> article \<Rightarrow> stock \<Rightarrow> string \<times> stock" where
  "create_article env p d s =
     (let (i, s1) = draw_stock_id env s;
          a = d\<lparr>ar_id := i, ar_active := True, ar_deleted := False, ar_version := 1, ar_quantity := 0, ar_value := 0,
                ar_average := 0, ar_stock_version := 1\<rparr>
      in (i, log_stock p ''material.created'' ''material'' i
               [''name'', ''materialTypeId'', ''colorName'', ''colorHex'', ''unit'', ''lowStockThreshold'', ''variant'',
                ''manufacturer'', ''packageSize'', ''countLabel'', ''storageLocation'', ''notes'']
               (s1\<lparr>articles := articles s1 @ [a]\<rparr>)))"

definition book_purchase :: "stock_env \<Rightarrow> actor \<Rightarrow> receipt_input \<Rightarrow> receipt_values \<Rightarrow> string \<Rightarrow> rat \<Rightarrow> rat \<Rightarrow> string option \<Rightarrow> stock \<Rightarrow>
    app_error + stock_entry \<times> stock" where
  "book_purchase env p input v i quantity price j s =
     apply_movement env p i None
       ((plain_movement Purchase quantity (decimal_div price quantity) price (rc_at input))
          \<lparr>mu_total := Some price, mu_supplier := rv_supplier v, mu_reference := rv_reference v, mu_note := rc_note input,
           mu_spool := j, mu_keep := j \<noteq> None, mu_quiet := True\<rparr>) s"

definition receive_spool :: "stock_env \<Rightarrow> actor \<Rightarrow> receipt_input \<Rightarrow> receipt_values \<Rightarrow> article \<Rightarrow> int \<Rightarrow> stock \<Rightarrow> app_error + stock" where
  "receive_spool env p input v a price s =
     (let label = next_label (label_prefix env a) s; (j, s1) = draw_stock_id env s in
      and_then (insert_spool \<lparr>sp_id = j, sp_label = label, sp_article = ar_id a, sp_initial = micros (rv_size v),
          sp_tare = rv_tare v, sp_acquired = Some (day_start (rc_at input)), sp_reference = rv_reference v,
          sp_location = rv_location v, sp_notes = None, sp_active = True, sp_archived = None, sp_outcome = None,
          sp_retired = None, sp_version = 1\<rparr> s1) (\<lambda>s2.
      and_then (book_purchase env p input v (ar_id a) (rv_size v) (of_units 2 price) (Some j) s2) (\<lambda>(e, s3).
        each (add_tag env j) (rv_tags v) (bump_spool j s3))))"

text \<open>The size of a package and the place of the spools that the article itself supplies.\<close>

definition article_supply :: "article \<Rightarrow> receipt_values \<Rightarrow> app_error + receipt_values" where
  "article_supply a v =
     ensure (ar_kind a = ''filament'' \<or> rv_mode v = Storage)
       (new_error 422 ''placement_requires_filament'' ''Only filament can be placed on spools'') (\<lambda>_.
     let v1 = v\<lparr>rv_location := (if rv_location v = None then ar_location a else rv_location v)\<rparr> in
     if rv_size v = 0 then
       (case ar_package a of
          None \<Rightarrow> Inl (invalid ''packageSize is required when the article has no package size'')
        | Some k \<Rightarrow> Inr (v1\<lparr>rv_size := micro k\<rparr>))
     else Inr v1)"

definition receipt_article :: "stock_env \<Rightarrow> actor \<Rightarrow> receipt_input \<Rightarrow> stock \<Rightarrow> app_error + string \<times> stock" where
  "receipt_article env p input s =
     (case rc_article input of
        Some i \<Rightarrow>
          and_then (lock_article s i) (\<lambda>a.
          ensure (\<not> ar_deleted a) material_in_bin (\<lambda>_.
          ensure (ar_stock_version a = rc_version input) stale_write (\<lambda>_. Inr (i, s))))
      | None \<Rightarrow>
          (case rc_new input of
             Some (Inr d) \<Rightarrow> Inr (create_article env p d s)
           | Some (Inl e) \<Rightarrow> Inl e
           | None \<Rightarrow> Inl not_found))"

definition book_delivery :: "stock_env \<Rightarrow> actor \<Rightarrow> receipt_input \<Rightarrow> receipt_values \<Rightarrow> article \<Rightarrow> stock \<Rightarrow> app_error + stock" where
  "book_delivery env p input v a s =
     (if rv_mode v = New_Spools then
        each (receive_spool env p input v a) (split_cents (to_units 2 (rv_price v)) (rv_count v)) s
      else and_then (book_purchase env p input v (ar_id a) (rv_size v * of_nat (rv_count v)) (rv_price v) None s) (\<lambda>(e, s1). Inr s1))"

definition receive_stock :: "stock_env \<Rightarrow> actor \<Rightarrow> receipt_input \<Rightarrow> stock \<Rightarrow> app_error + stock" where
  "receive_stock env p input s =
     and_then (require p (inventory_manage #
       (case rc_placement input of Some pl \<Rightarrow> if pl_mode pl = New_Spools then [spools_manage] else [] | None \<Rightarrow> []))) (\<lambda>_.
     and_then (validate_receipt env input) (\<lambda>v0.
     and_then (receipt_article env p input s) (\<lambda>(i, s1).
     and_then (lock_article s1 i) (\<lambda>a.
     and_then (article_supply a v0) (\<lambda>v.
     and_then (book_delivery env p input v a s1) (\<lambda>s2.
       Inr (log_stock p ''inventory.receipt_recorded'' ''material'' i
              [''quantity'', ''inventoryValue'', ''inventoryVersion'', ''packageCount'', ''packageSize'', ''totalPrice'',
               ''supplier'', ''reference'', ''placement'', ''spools''] s2)))))))"

end
