(* ===== verification/Stock_Bin.thy ===== *)
theory Stock_Bin
  imports Spools
begin

text \<open>
  backend/internal/machinelogbook/articles_delete.go: the recycle bin of the inventory. An article in the bin keeps
  its stock and its spools until it is purged; a ledger entry in the bin no longer counts for its article and its
  spools, and counts again once it is restored. Run usages and order items keep their own rows, which are not part of
  this state; whether they use an article is an argument.
\<close>

section \<open>Articles\<close>

definition set_article :: "article \<Rightarrow> stock \<Rightarrow> stock" where
  "set_article a s = s\<lparr>articles := row_put ar_id a (articles s)\<rparr>"

definition delete_article :: "stock_env \<Rightarrow> actor \<Rightarrow> string \<Rightarrow> int \<Rightarrow> stock \<Rightarrow> app_error + stock" where
  "delete_article env p i expected s =
     and_then (require p [inventory_delete]) (\<lambda>_.
     ensure (1 \<le> expected) (invalid ''expectedVersion must be positive'') (\<lambda>_.
     and_then (lock_article s i) (\<lambda>a.
     ensure (\<not> ar_deleted a) not_found (\<lambda>_.
     ensure (ar_version a = expected) stale_write (\<lambda>_.
     let here = (\<lambda>j. list_ex (\<lambda>x. sp_id x = j \<and> sp_article x = i) (spools s));
         s1 = s\<lparr>mounts := unmount (se_now env) here (mounts s)\<rparr> in
       Inr (log_stock p ''material.deleted'' ''material'' i [''deletedAt'', ''spools'']
              (set_article (a\<lparr>ar_deleted := True, ar_version := ar_version a + 1\<rparr>) s1)))))))"

definition lock_binned :: "stock \<Rightarrow> string \<Rightarrow> int \<Rightarrow> app_error + article" where
  "lock_binned s i expected =
     and_then (lock_article s i) (\<lambda>a.
     ensure (ar_deleted a) (conflicting ''material_not_in_bin'' ''The article is not in the recycle bin'') (\<lambda>_.
     ensure (ar_version a = expected) stale_write (\<lambda>_. Inr a)))"

definition restore_article :: "actor \<Rightarrow> string \<Rightarrow> int \<Rightarrow> stock \<Rightarrow> app_error + stock" where
  "restore_article p i expected s =
     and_then (require p [inventory_delete]) (\<lambda>_.
     ensure (1 \<le> expected) (invalid ''expectedVersion must be positive'') (\<lambda>_.
     and_then (lock_binned s i expected) (\<lambda>a.
       Inr (log_stock p ''material.restored'' ''material'' i [''deletedAt'']
              (set_article (a\<lparr>ar_deleted := False, ar_version := ar_version a + 1\<rparr>) s)))))"

text \<open>DELETE of an article: its balance, spools, identifiers, mounts and entries go with it.\<close>

definition drop_article :: "string \<Rightarrow> stock \<Rightarrow> stock" where
  "drop_article i s =
     (let here = (\<lambda>j. list_ex (\<lambda>x. sp_id x = j \<and> sp_article x = i) (spools s)) in
      s\<lparr>articles := row_drop ar_id i (articles s), spools := filter (\<lambda>x. sp_article x \<noteq> i) (spools s),
        spool_tags := filter (\<lambda>g. \<not> here (tg_spool g)) (spool_tags s), mounts := filter (\<lambda>m. \<not> here (mo_spool m)) (mounts s),
        stock_entries := filter (\<lambda>e. en_article e \<noteq> i) (stock_entries s)\<rparr>)"

definition purge_article :: "actor \<Rightarrow> string \<Rightarrow> int \<Rightarrow> stock \<Rightarrow> app_error + stock" where
  "purge_article p i expected s =
     and_then (require p [inventory_delete]) (\<lambda>_.
     ensure (1 \<le> expected) (invalid ''expectedVersion must be positive'') (\<lambda>_.
     and_then (lock_binned s i expected) (\<lambda>a.
       Inr (log_stock p ''material.purged'' ''material'' i [] (drop_article i s)))))"

definition article_in_use :: "stock \<Rightarrow> string \<Rightarrow> bool \<Rightarrow> bool" where
  "article_in_use s i elsewhere \<longleftrightarrow>
     elsewhere \<or> list_ex (\<lambda>e. en_article e = i) (stock_entries s) \<or> list_ex (\<lambda>x. sp_article x = i) (spools s)"

definition remove_unused_article :: "actor \<Rightarrow> string \<Rightarrow> int \<Rightarrow> bool \<Rightarrow> stock \<Rightarrow> app_error + stock" where
  "remove_unused_article p i expected elsewhere s =
     and_then (require p [inventory_manage]) (\<lambda>_.
     ensure (1 \<le> expected) (invalid ''expectedVersion must be positive'') (\<lambda>_.
     and_then (lock_article s i) (\<lambda>a.
     ensure (ar_version a = expected) stale_write (\<lambda>_.
     ensure (\<not> article_in_use s i elsewhere) (conflicting ''material_in_use'' ''This article is in use'') (\<lambda>_.
       Inr (log_stock p ''material.purged'' ''material'' i [] (drop_article i s)))))))"

section \<open>Ledger entries\<close>

definition entry_spools :: "stock_entry \<Rightarrow> string list" where
  "entry_spools e =
     (case en_spool e of None \<Rightarrow> [] | Some j \<Rightarrow> [j]) @ (case en_from e of None \<Rightarrow> [] | Some j \<Rightarrow> [j]) @
     (case en_to e of None \<Rightarrow> [] | Some j \<Rightarrow> [j])"

definition settle_toggled :: "int \<Rightarrow> app_error + int" where
  "settle_toggled v = (if v < 0 then (if \<bar>micro v\<bar> < 1 / 10 ^ 6 then Inr 0 else Inl invalid_value) else Inr v)"

definition check_remaining :: "string \<Rightarrow> stock \<Rightarrow> app_error + stock" where
  "check_remaining j s =
     ensure (0 \<le> spool_remaining s j) insufficient_spool (\<lambda>_. Inr (bump_spool j s))"

definition toggle_entry :: "stock_entry \<Rightarrow> int option \<Rightarrow> bool \<Rightarrow> stock \<Rightarrow> app_error + stock" where
  "toggle_entry e expected back s =
     and_then (lock_article s (en_article e)) (\<lambda>a.
     ensure (\<not> ar_deleted a) material_in_bin (\<lambda>_.
     ensure (expected = None \<or> expected = Some (ar_stock_version a)) stale_write (\<lambda>_.
     ensure (list_all (\<lambda>j. row_at sp_id j (spools s) \<noteq> None) (entry_spools e)) not_found (\<lambda>_.
     let sign = (if back then 1 else - 1); quantity = ar_quantity a + en_quantity e * sign in
     ensure (0 \<le> quantity) insufficient_stock (\<lambda>_.
     and_then (settle_toggled (ar_value a + en_value e * sign)) (\<lambda>v.
     let s1 = update_balance a (micro quantity) (micro v) (average_cost a (micro quantity) (micro v)) s;
         s2 = s1\<lparr>stock_entries := row_put en_id (e\<lparr>en_deleted := \<not> back\<rparr>) (stock_entries s1)\<rparr> in
     and_then (each check_remaining (entry_spools e) s2) (\<lambda>s3.
     ensure (allocated_quantity s3 (en_article e) \<le> quantity) insufficient_unassigned (\<lambda>_. Inr s3))))))))"

definition find_entry :: "stock \<Rightarrow> string \<Rightarrow> app_error + stock_entry" where
  "find_entry s i = find_row en_id i (stock_entries s)"

definition delete_entry :: "actor \<Rightarrow> string \<Rightarrow> int \<Rightarrow> stock \<Rightarrow> app_error + stock" where
  "delete_entry p i expected s =
     and_then (require p [ledger_delete]) (\<lambda>_.
     ensure (1 \<le> expected) (invalid ''expectedInventoryVersion must be positive'') (\<lambda>_.
     and_then (find_entry s i) (\<lambda>e.
     ensure (\<not> en_deleted e) not_found (\<lambda>_.
     and_then (toggle_entry e (Some expected) False s) (\<lambda>s1.
       Inr (log_stock p ''inventory.transaction_deleted'' ''material'' (en_article e)
              [''quantity'', ''inventoryValue'', ''inventoryVersion'', ''ledger''] s1))))))"

definition restore_entry :: "actor \<Rightarrow> string \<Rightarrow> stock \<Rightarrow> app_error + stock" where
  "restore_entry p i s =
     and_then (require p [ledger_delete]) (\<lambda>_.
     and_then (find_entry s i) (\<lambda>e.
     ensure (en_deleted e) not_found (\<lambda>_.
     and_then (toggle_entry e None True s) (\<lambda>s1.
       Inr (log_stock p ''inventory.transaction_restored'' ''material'' (en_article e)
              [''quantity'', ''inventoryValue'', ''inventoryVersion'', ''ledger''] s1)))))"

definition purge_entry :: "actor \<Rightarrow> string \<Rightarrow> stock \<Rightarrow> app_error + stock" where
  "purge_entry p i s =
     and_then (require p [ledger_delete]) (\<lambda>_.
     and_then (find_entry s i) (\<lambda>e.
     ensure (en_deleted e) not_found (\<lambda>_.
       Inr (log_stock p ''inventory.transaction_purged'' ''material'' (en_article e) [''ledger'']
              (s\<lparr>stock_entries := row_drop en_id i (stock_entries s)\<rparr>)))))"

end
