(* ===== verification/Stock_Balance.thy ===== *)
theory Stock_Balance
  imports Stock_Receipts Stock_Bin
begin

text \<open>
  Stock is never negative. The invariant \<open>stock_ok\<close>: identifiers are unique, spools and entries belong to articles that
  exist; of every article the quantity, the value and the average cost are not negative, and the live entries of the
  ledger account for no more than the balance; no spool holds less than nothing. The strict invariant
  (\<open>stock_ok True\<close>) adds that the active spools of an article hold no more than its quantity and a retired spool holds
  nothing. Every operation of the inventory keeps the invariant, and the strict one too, except that deleting or
  restoring a ledger entry of a retired spool keeps only the former.
\<close>

section \<open>Sums over the ledger\<close>

definition rem_of :: "stock_entry list \<Rightarrow> string \<Rightarrow> int" where
  "rem_of es j = (\<Sum>e\<leftarrow>es. spool_effect j e)"

definition alloc_of :: "stock_entry list \<Rightarrow> spool list \<Rightarrow> string \<Rightarrow> int" where
  "alloc_of es xs i = (\<Sum>x\<leftarrow>filter (\<lambda>x. sp_article x = i \<and> sp_active x) xs. rem_of es (sp_id x))"

definition booked_quantity :: "stock_entry list \<Rightarrow> string \<Rightarrow> int" where
  "booked_quantity es i = (\<Sum>e\<leftarrow>es. if en_article e = i \<and> \<not> en_deleted e then en_quantity e else 0)"

definition booked_value :: "stock_entry list \<Rightarrow> string \<Rightarrow> int" where
  "booked_value es i = (\<Sum>e\<leftarrow>es. if en_article e = i \<and> \<not> en_deleted e then en_value e else 0)"

lemma spool_remaining_rem: "spool_remaining s j = rem_of (stock_entries s) j"
  by (simp add: spool_remaining_def rem_of_def)

lemma allocated_alloc: "allocated_quantity s i = alloc_of (stock_entries s) (spools s) i"
  by (simp add: allocated_quantity_def alloc_of_def spool_remaining_rem)

lemma rem_of_append [simp]: "rem_of (es @ [e]) j = rem_of es j + spool_effect j e"
  by (simp add: rem_of_def)

lemma booked_append [simp]:
  "booked_quantity (es @ [e]) i = booked_quantity es i + (if en_article e = i \<and> \<not> en_deleted e then en_quantity e else 0)"
  "booked_value (es @ [e]) i = booked_value es i + (if en_article e = i \<and> \<not> en_deleted e then en_value e else 0)"
  by (simp_all add: booked_quantity_def booked_value_def)

lemma alloc_of_Nil [simp]: "alloc_of es [] i = 0"
  by (simp add: alloc_of_def)

lemma alloc_of_Cons [simp]:
  "alloc_of es (x # xs) i = (if sp_article x = i \<and> sp_active x then rem_of es (sp_id x) else 0) + alloc_of es xs i"
  by (simp add: alloc_of_def)

lemma alloc_of_snoc [simp]:
  "alloc_of es (xs @ [x]) i = alloc_of es xs i + (if sp_article x = i \<and> sp_active x then rem_of es (sp_id x) else 0)"
  by (simp add: alloc_of_def)

lemma alloc_of_append:
  "alloc_of (es @ [e]) xs i = alloc_of es xs i + (\<Sum>x\<leftarrow>filter (\<lambda>x. sp_article x = i \<and> sp_active x) xs. spool_effect (sp_id x) e)"
  by (induction xs) simp_all

lemma sum_at_key:
  assumes "distinct (map key xs)"
  shows "(\<Sum>x\<leftarrow>xs. if key x = j then c else (0::int)) = (if j \<in> key ` set xs then c else 0)"
  using assms
proof (induction xs)
  case (Cons x xs)
  then show ?case by (cases "key x = j") auto
qed simp

lemma distinct_filter_map: "distinct (map f xs) \<Longrightarrow> distinct (map f (filter P xs))"
  by (simp add: distinct_map_filter)

text \<open>The spools that are in use, by article.\<close>

definition in_use :: "spool list \<Rightarrow> string \<Rightarrow> string set" where
  "in_use xs i = sp_id ` {x \<in> set xs. sp_article x = i \<and> sp_active x}"

lemma effect_sum:
  assumes "distinct (map sp_id xs)"
  shows "(\<Sum>x\<leftarrow>filter (\<lambda>x. sp_article x = i \<and> sp_active x) xs. spool_effect (sp_id x) e) =
    (if en_deleted e then 0
     else (case en_spool e of Some j \<Rightarrow> if j \<in> in_use xs i then en_quantity e else 0 | None \<Rightarrow> 0)
        + (case en_to e of Some j \<Rightarrow> if j \<in> in_use xs i then (case en_moved e of None \<Rightarrow> 0 | Some k \<Rightarrow> k) else 0 | None \<Rightarrow> 0)
        - (case en_from e of Some j \<Rightarrow> if j \<in> in_use xs i then (case en_moved e of None \<Rightarrow> 0 | Some k \<Rightarrow> k) else 0 | None \<Rightarrow> 0))"
proof -
  let ?xs = "filter (\<lambda>x. sp_article x = i \<and> sp_active x) xs"
  have set: "sp_id ` set ?xs = in_use xs i" by (auto simp: in_use_def)
  have key: "(\<Sum>x\<leftarrow>?xs. if v = Some (sp_id x) then c else 0) = (case v of Some j \<Rightarrow> if j \<in> in_use xs i then c else (0::int) | None \<Rightarrow> 0)"
    for v c
  proof (cases v)
    case (Some j)
    have "(\<Sum>x\<leftarrow>?xs. if v = Some (sp_id x) then c else 0) = (\<Sum>x\<leftarrow>?xs. if sp_id x = j then c else 0)"
      using Some by (intro arg_cong[of _ _ sum_list] map_cong) auto
    then show ?thesis using sum_at_key[OF distinct_filter_map[OF assms], where j = j and c = c] Some set by simp
  qed simp
  show ?thesis
    by (simp add: spool_effect_def sum_list_addf sum_list_subtractf key)
qed

text \<open>The sums and sets read of a spool its identifier, its article and whether it is in use.\<close>

definition spool_core :: "spool \<Rightarrow> spool" where
  "spool_core x = x\<lparr>sp_label := [], sp_initial := 0, sp_tare := None, sp_acquired := None, sp_reference := None,
     sp_location := None, sp_notes := None, sp_archived := None, sp_outcome := None, sp_retired := None, sp_version := 0\<rparr>"

lemma spool_core_simps [simp]:
  "sp_id (spool_core x) = sp_id x" "sp_article (spool_core x) = sp_article x" "sp_active (spool_core x) = sp_active x"
  by (simp_all add: spool_core_def)

lemma spool_core_eq:
  "sp_id x = sp_id y \<Longrightarrow> sp_article x = sp_article y \<Longrightarrow> sp_active x = sp_active y \<Longrightarrow> spool_core x = spool_core y"
  by (cases x; cases y) (simp add: spool_core_def)

abbreviation same_spools :: "spool list \<Rightarrow> spool list \<Rightarrow> bool" where
  "same_spools xs ys \<equiv> map spool_core xs = map spool_core ys"

lemma same_spools_map:
  assumes "same_spools xs ys" "\<And>x. f (spool_core x) = f x"
  shows "map f xs = map f ys"
proof -
  have "map (f \<circ> spool_core) xs = map (f \<circ> spool_core) ys" using arg_cong[OF assms(1), of "map f"] by simp
  then show ?thesis using assms(2) by (simp add: comp_def)
qed

lemma same_spools_ball:
  assumes "same_spools xs ys" "\<And>x. P (spool_core x) = P x"
  shows "(\<forall>x\<in>set xs. P x) = (\<forall>x\<in>set ys. P x)"
  using arg_cong[OF same_spools_map[where f = P, OF assms], of "\<lambda>bs. \<forall>b\<in>set bs. b"] by simp

lemma same_spools_image:
  assumes "same_spools xs ys" "\<And>x. P (spool_core x) = P x"
  shows "sp_id ` {x \<in> set xs. P x} = sp_id ` {x \<in> set ys. P x}"
proof -
  have "set (map fst (filter snd (map (\<lambda>x. (sp_id x, P x)) xs))) = set (map fst (filter snd (map (\<lambda>x. (sp_id x, P x)) ys)))"
    using same_spools_map[where f = "\<lambda>x. (sp_id x, P x)", OF assms(1)] assms(2) by simp
  moreover have "set (map fst (filter snd (map (\<lambda>x. (sp_id x, P x)) zs))) = sp_id ` {x \<in> set zs. P x}" for zs
    by force
  ultimately show ?thesis by simp
qed

lemma same_spools_alloc: "same_spools xs ys \<Longrightarrow> alloc_of es xs i = alloc_of es ys i"
proof (induction xs arbitrary: ys)
  case (Cons x xs)
  then obtain y zs where "ys = y # zs" "spool_core x = spool_core y" "same_spools xs zs" by auto
  moreover from this(2) have "sp_article x = sp_article y" "sp_active x = sp_active y" "sp_id x = sp_id y"
    by (metis spool_core_simps)+
  ultimately show ?case using Cons.IH by simp
qed simp

lemma same_spools_put:
  assumes "distinct (map sp_id xs)" "row_at sp_id i xs = Some x"
    and "sp_id y = sp_id x" "sp_article y = sp_article x" "sp_active y = sp_active x"
  shows "same_spools (row_put sp_id y xs) xs"
proof -
  have "spool_core (if sp_id z = sp_id y then y else z) = spool_core z" if "z \<in> set xs" for z
    using that row_atD[OF assms(2)] key_inj[OF assms(1), of x z] assms(3-5) by (auto intro: spool_core_eq)
  then show ?thesis by (simp add: row_put_def)
qed

lemma same_spools_bump:
  assumes "distinct (map sp_id (spools s))"
  shows "same_spools (spools (bump_spool j s)) (spools s)"
proof (cases "row_at sp_id j (spools s)")
  case (Some x)
  then show ?thesis by (simp add: bump_spool_def same_spools_put[OF assms Some])
qed (simp add: bump_spool_def)

lemma bump_spool_simps [simp]:
  "articles (bump_spool j s) = articles s" "stock_entries (bump_spool j s) = stock_entries s" "stock_drawn (bump_spool j s) = stock_drawn s"
  "spool_tags (bump_spool j s) = spool_tags s" "mounts (bump_spool j s) = mounts s" "map sp_id (spools (bump_spool j s)) = map sp_id (spools s)"
  by (simp_all add: bump_spool_def split: option.split)

section \<open>The invariant\<close>

definition spools_of :: "stock \<Rightarrow> string \<Rightarrow> string set" where
  "spools_of s i = sp_id ` {x \<in> set (spools s). sp_article x = i}"

definition rows_ok :: "(nat \<Rightarrow> string) \<Rightarrow> stock \<Rightarrow> bool" where
  "rows_ok ids s \<longleftrightarrow>
     distinct (map ar_id (articles s)) \<and> distinct (map sp_id (spools s)) \<and> distinct (map en_id (stock_entries s)) \<and>
     ar_id ` set (articles s) \<union> sp_id ` set (spools s) \<union> en_id ` set (stock_entries s) \<subseteq> ids ` {..<stock_drawn s} \<and>
     (\<forall>x\<in>set (spools s). sp_article x \<in> ar_id ` set (articles s)) \<and>
     (\<forall>e\<in>set (stock_entries s). en_article e \<in> ar_id ` set (articles s) \<and> set (entry_spools e) \<subseteq> spools_of s (en_article e))"

definition article_ok :: "bool \<Rightarrow> stock_entry list \<Rightarrow> spool list \<Rightarrow> article \<Rightarrow> bool" where
  "article_ok strict es xs a \<longleftrightarrow>
     0 \<le> ar_quantity a \<and> 0 \<le> ar_value a \<and> 0 \<le> ar_average a \<and> (strict \<longrightarrow> alloc_of es xs (ar_id a) \<le> ar_quantity a) \<and>
     booked_quantity es (ar_id a) \<le> ar_quantity a \<and> booked_value es (ar_id a) \<le> ar_value a"

definition spool_ok :: "bool \<Rightarrow> stock_entry list \<Rightarrow> spool \<Rightarrow> bool" where
  "spool_ok strict es x \<longleftrightarrow> 0 \<le> rem_of es (sp_id x) \<and> (strict \<longrightarrow> \<not> sp_active x \<longrightarrow> rem_of es (sp_id x) = 0)"

definition stock_ok :: "bool \<Rightarrow> (nat \<Rightarrow> string) \<Rightarrow> stock \<Rightarrow> bool" where
  "stock_ok strict ids s \<longleftrightarrow>
     rows_ok ids s \<and> (\<forall>a\<in>set (articles s). article_ok strict (stock_entries s) (spools s) a) \<and>
     (\<forall>x\<in>set (spools s). spool_ok strict (stock_entries s) x)"

lemma rows_okD:
  assumes "rows_ok ids s"
  shows "distinct (map ar_id (articles s))" "distinct (map sp_id (spools s))" "distinct (map en_id (stock_entries s))"
    "ar_id ` set (articles s) \<subseteq> ids ` {..<stock_drawn s}" "sp_id ` set (spools s) \<subseteq> ids ` {..<stock_drawn s}"
    "en_id ` set (stock_entries s) \<subseteq> ids ` {..<stock_drawn s}"
    "\<And>x. x \<in> set (spools s) \<Longrightarrow> sp_article x \<in> ar_id ` set (articles s)"
    "\<And>e. e \<in> set (stock_entries s) \<Longrightarrow> en_article e \<in> ar_id ` set (articles s)"
    "\<And>e. e \<in> set (stock_entries s) \<Longrightarrow> set (entry_spools e) \<subseteq> spools_of s (en_article e)"
  using assms by (simp_all add: rows_ok_def)

lemma stock_okD:
  assumes "stock_ok strict ids s"
  shows "rows_ok ids s" "\<And>a. a \<in> set (articles s) \<Longrightarrow> article_ok strict (stock_entries s) (spools s) a"
    "\<And>x. x \<in> set (spools s) \<Longrightarrow> spool_ok strict (stock_entries s) x"
  using assms by (simp_all add: stock_ok_def)

text \<open>The invariant reads articles, entries, the identifiers drawn, and the core of the spools.\<close>

lemma rows_ok_same:
  assumes "same_spools (spools t) (spools s)" "map ar_id (articles t) = map ar_id (articles s)"
    "stock_entries t = stock_entries s" "stock_drawn t = stock_drawn s"
  shows "rows_ok ids t = rows_ok ids s"
proof -
  have "ar_id ` set (articles t) = ar_id ` set (articles s)" using arg_cong[OF assms(2), of set] by simp
  moreover have "map sp_id (spools t) = map sp_id (spools s)" by (rule same_spools_map[OF assms(1)]) simp
  moreover from this have "sp_id ` set (spools t) = sp_id ` set (spools s)" using arg_cong[of _ _ set] by (metis set_map)
  moreover have "spools_of t = spools_of s"
    unfolding spools_of_def by (rule ext, rule same_spools_image[OF assms(1)]) simp
  moreover have "(\<forall>x\<in>set (spools t). sp_article x \<in> ar_id ` set (articles s)) = (\<forall>x\<in>set (spools s). sp_article x \<in> ar_id ` set (articles s))"
    by (rule same_spools_ball[OF assms(1)]) simp
  ultimately show ?thesis using assms(2-4) by (simp add: rows_ok_def)
qed

lemma stock_ok_same:
  assumes "same_spools (spools t) (spools s)" "articles t = articles s" "stock_entries t = stock_entries s" "stock_drawn t = stock_drawn s"
  shows "stock_ok strict ids t = stock_ok strict ids s"
proof -
  have "(\<forall>x\<in>set (spools t). spool_ok strict (stock_entries s) x) = (\<forall>x\<in>set (spools s). spool_ok strict (stock_entries s) x)"
    by (rule same_spools_ball[OF assms(1)]) (simp add: spool_ok_def)
  then show ?thesis
    using rows_ok_same[OF assms(1) _ assms(3,4)] assms
    by (simp add: stock_ok_def article_ok_def same_spools_alloc[OF assms(1)])
qed

lemma stock_ok_log [simp]: "stock_ok strict ids (log_stock p action resource i fs s) = stock_ok strict ids s"
  by (rule stock_ok_same) (simp_all add: log_stock_def)

lemma stock_ok_unread [simp]:
  "stock_ok strict ids (s\<lparr>spool_tags := gs\<rparr>) = stock_ok strict ids s" "stock_ok strict ids (s\<lparr>mounts := ms\<rparr>) = stock_ok strict ids s"
  "stock_ok strict ids (s\<lparr>stock_audit := es\<rparr>) = stock_ok strict ids s"
  by (rule stock_ok_same; simp)+

lemma stock_ok_bump: "stock_ok strict ids s \<Longrightarrow> stock_ok strict ids (bump_spool j s)"
  by (subst stock_ok_same[of _ s]) (simp_all add: same_spools_bump stock_ok_def rows_ok_def)

section \<open>Movements\<close>

lemma draw_stock_id_simps [simp]:
  "fst (draw_stock_id env s) = se_id env (stock_drawn s)" "snd (draw_stock_id env s) = s\<lparr>stock_drawn := Suc (stock_drawn s)\<rparr>"
  by (simp_all add: draw_stock_id_def)

lemma find_row_Inr_iff [simp]: "find_row key i rs = Inr r \<longleftrightarrow> row_at key i rs = Some r"
  by (simp add: find_row_def split: option.split)

lemma moved_ge:
  assumes "0 \<le> k" "0 \<le> micro k + d"
  shows "k + micros d \<le> micros (micro k + d)"
proof (cases "0 \<le> d")
  case True
  then show ?thesis using to_units_add[of d k 6] assms(1) by simp
next
  case False
  then show ?thesis using to_units_diff(1)[of "- d" 6 k] assms(2) by simp
qed

lemma settle_value_Inr:
  assumes "settle_value (micro k + d) = Inr v" "0 \<le> k"
  shows "0 \<le> v" "k + micros d \<le> micros v"
proof -
  show "0 \<le> v" using assms(1) by (auto simp: settle_value_def split: if_splits)
  show "k + micros d \<le> micros v"
  proof (cases "0 \<le> micro k + d")
    case True
    then show ?thesis using assms moved_ge[of k d] by (auto simp: settle_value_def split: if_splits)
  next
    case False
    then have "d \<le> micro (- k)" by simp
    then have "micros d \<le> - k" by (rule to_units_le)
    then show ?thesis using assms(1) False by (auto simp: settle_value_def split: if_splits)
  qed
qed

definition moved_article :: "article \<Rightarrow> rat \<Rightarrow> rat \<Rightarrow> article" where
  "moved_article a q v =
     a\<lparr>ar_quantity := micros q, ar_value := micros v, ar_average := micros (average_cost a q v),
       ar_stock_version := ar_stock_version a + 1\<rparr>"

lemma moved_article_simps [simp]:
  "ar_id (moved_article a q v) = ar_id a" "ar_quantity (moved_article a q v) = micros q" "ar_value (moved_article a q v) = micros v"
  "ar_average (moved_article a q v) = micros (average_cost a q v)" "ar_deleted (moved_article a q v) = ar_deleted a"
  by (simp_all add: moved_article_def)

lemma average_cost_nonneg:
  assumes "0 \<le> ar_average a" "0 \<le> v"
  shows "0 \<le> average_cost a q v"
  using assms by (auto simp: average_cost_def decimal_div_def decimal_round_def intro!: to_units_nonneg divide_nonneg_pos)

text \<open>What an accepted movement was checked for and what it leaves.\<close>

lemma movementE:
  assumes "apply_movement env p i expected m s = Inr (e, s')"
  obtains a v q where
    "row_at ar_id i (articles s) = Some a" "expected = None \<or> expected = Some (ar_stock_version a) \<and> \<not> ar_deleted a"
    "q = micro (ar_quantity a) + mu_quantity m" "0 \<le> q" "check_source i q m s = Inr ()"
    "settle_value (micro (ar_value a) + mu_value m) = Inr v"
    "e = movement_entry (se_id env (stock_drawn s)) i m" "entry_valid e" "\<not> entry_taken s e"
    "articles s' = row_put ar_id (moved_article a q v) (articles s)" "stock_entries s' = stock_entries s @ [e]"
    "stock_drawn s' = Suc (stock_drawn s)"
    "spools s' = spools (case mu_spool m of Some x \<Rightarrow> if mu_keep m then s else bump_spool x s | None \<Rightarrow> s)"
    "mounts s' = mounts s" "spool_tags s' = spool_tags s"
proof -
  obtain a v where a: "row_at ar_id i (articles s) = Some a" "expected = None \<or> expected = Some (ar_stock_version a)"
    "\<not> (ar_deleted a \<and> expected \<noteq> None)" "0 \<le> micro (ar_quantity a) + mu_quantity m"
    "check_source i (micro (ar_quantity a) + mu_quantity m) m s = Inr ()" "settle_value (micro (ar_value a) + mu_value m) = Inr v"
    using assms by (auto simp: apply_movement_def and_then_Inr_iff lock_article_def Let_def)
  let ?q = "micro (ar_quantity a) + mu_quantity m"
  let ?s1 = "update_balance a ?q v (average_cost a ?q v) s"
  let ?e = "movement_entry (se_id env (stock_drawn s)) i m"
  let ?s2 = "?s1\<lparr>stock_drawn := Suc (stock_drawn s), stock_entries := stock_entries s @ [?e]\<rparr>"
  have drawn: "draw_stock_id env ?s1 = (se_id env (stock_drawn s), ?s1\<lparr>stock_drawn := Suc (stock_drawn s)\<rparr>)"
    by (simp add: draw_stock_id_def update_balance_def)
  let ?bump = "\<lambda>t. case mu_spool m of Some x \<Rightarrow> if mu_keep m then t else bump_spool x t | None \<Rightarrow> t"
  have run: "and_then (insert_entry ?e (?s1\<lparr>stock_drawn := Suc (stock_drawn s)\<rparr>)) (\<lambda>(e, s2).
      Inr (e, if mu_quiet m then ?bump s2 else log_stock p (''inventory.'' @ kind_text (mu_kind m)) ''material'' i
                [''quantity'', ''inventoryValue'', ''inventoryVersion''] (?bump s2))) = Inr (e, s')"
    using assms a by (simp add: apply_movement_def lock_article_def Let_def drawn ensure_def find_row_def)
  have es: "stock_entries ?s1 = stock_entries s" "spools ?s1 = spools s" "mounts ?s1 = mounts s" "spool_tags ?s1 = spool_tags s"
      "articles ?s1 = row_put ar_id (moved_article a ?q v) (articles s)"
    by (simp_all add: update_balance_def moved_article_def)
  then have "e = ?e \<and> entry_valid ?e \<and> \<not> entry_taken s ?e \<and> articles s' = articles ?s1 \<and> stock_entries s' = stock_entries s @ [?e] \<and>
      stock_drawn s' = Suc (stock_drawn s) \<and> spools s' = spools (?bump s) \<and> mounts s' = mounts s \<and> spool_tags s' = spool_tags s"
    using run
    by (auto simp: insert_entry_def entry_taken_def log_stock_def bump_spool_def and_then_Inr_iff split: option.splits if_splits)
  then show ?thesis using a es(5) by (intro that[of a ?q v]) auto
qed

lemma movement_entry_simps [simp]:
  "en_id (movement_entry j i m) = j" "en_article (movement_entry j i m) = i" "en_kind (movement_entry j i m) = mu_kind m"
  "en_quantity (movement_entry j i m) = micros (mu_quantity m)" "en_value (movement_entry j i m) = micros (mu_value m)"
  "en_spool (movement_entry j i m) = mu_spool m" "en_from (movement_entry j i m) = None" "en_to (movement_entry j i m) = None"
  "en_moved (movement_entry j i m) = None" "en_deleted (movement_entry j i m) = False" "en_cost (movement_entry j i m) = micros (mu_cost m)"
  "en_item (movement_entry j i m) = (if mu_spool m = None then mu_item m else None)" "en_usage (movement_entry j i m) = mu_usage m"
  by (simp_all add: movement_entry_def)

lemma entry_spools_movement [simp]: "entry_spools (movement_entry j i m) = (case mu_spool m of None \<Rightarrow> [] | Some x \<Rightarrow> [x])"
  by (simp add: entry_spools_def)

lemma spool_effect_movement:
  "spool_effect k (movement_entry j i m) = (if mu_spool m = Some k then micros (mu_quantity m) else 0)"
  by (simp add: spool_effect_def)

lemma check_sourceD:
  assumes "check_source i q m s = Inr ()"
  shows "case mu_spool m of
      Some j \<Rightarrow> j \<in> in_use (spools s) i \<and> 0 \<le> micro (spool_remaining s j) + mu_quantity m
    | None \<Rightarrow> mu_quantity m < 0 \<longrightarrow> micro (allocated_quantity s i) \<le> q"
  using assms row_atD[of sp_id]
  by (auto simp: check_source_def lock_spool_def and_then_Inr_iff in_use_def image_iff split: option.splits if_splits)

lemma in_useE:
  assumes "j \<in> in_use xs i"
  obtains x where "x \<in> set xs" "sp_id x = j" "sp_article x = i" "sp_active x"
  using assms unfolding in_use_def by blast

lemma in_use_unique:
  assumes "distinct (map sp_id xs)" "j \<in> in_use xs i" "j \<in> in_use xs k"
  shows "k = i"
proof -
  obtain x y where "x \<in> set xs" "sp_id x = j" "sp_article x = i" "y \<in> set xs" "sp_id y = j" "sp_article y = k"
    using assms(2,3) by (metis in_useE)
  then show ?thesis using key_inj[OF assms(1), of x y] by auto
qed

lemma fresh_stock_id:
  fixes n :: nat
  assumes "inj ids" "A \<subseteq> ids ` {..<n}"
  shows "ids n \<notin> A"
proof
  assume "ids n \<in> A"
  then have "ids n \<in> ids ` {..<n}" by (rule subsetD[OF assms(2)])
  then show False by (simp add: inj_image_mem_iff[OF assms(1)])
qed

text \<open>The sums and sets after a movement.\<close>

lemma alloc_after_movement:
  assumes "distinct (map sp_id xs)" "case mu_spool m of Some k \<Rightarrow> k \<in> in_use xs i | None \<Rightarrow> True"
  shows "alloc_of (es @ [movement_entry j i m]) xs i' =
    alloc_of es xs i' + (if i' = i \<and> mu_spool m \<noteq> None then micros (mu_quantity m) else 0)"
proof (cases "mu_spool m")
  case None
  then show ?thesis by (simp add: alloc_of_append effect_sum[OF assms(1)])
next
  case (Some k)
  then have "k \<in> in_use xs i' \<longleftrightarrow> i' = i" using assms(2) in_use_unique[OF assms(1), of k i' i] by auto
  then show ?thesis using Some by (simp add: alloc_of_append effect_sum[OF assms(1)])
qed

lemma article_ok_after:
  assumes a: "article_ok strict es xs a" and q: "q = micro (ar_quantity a) + mu_quantity m" "0 \<le> q"
    and v: "settle_value (micro (ar_value a) + mu_value m) = Inr v" and xs: "distinct (map sp_id xs)"
    and src: "case mu_spool m of Some k \<Rightarrow> k \<in> in_use xs (ar_id a) | None \<Rightarrow> mu_quantity m < 0 \<longrightarrow> micro (alloc_of es xs (ar_id a)) \<le> q"
  shows "article_ok strict (es @ [movement_entry j (ar_id a) m]) xs (moved_article a q v)"
proof -
  have n: "0 \<le> ar_quantity a" "0 \<le> ar_value a" "0 \<le> ar_average a" "strict \<Longrightarrow> alloc_of es xs (ar_id a) \<le> ar_quantity a"
    "booked_quantity es (ar_id a) \<le> ar_quantity a" "booked_value es (ar_id a) \<le> ar_value a"
    using a by (simp_all add: article_ok_def)
  have ge: "ar_quantity a + micros (mu_quantity m) \<le> micros q" using moved_ge[of "ar_quantity a" "mu_quantity m"] n(1) q by simp
  have v': "0 \<le> v" "ar_value a + micros (mu_value m) \<le> micros v" using settle_value_Inr[OF v n(2)] by simp_all
  have "alloc_of (es @ [movement_entry j (ar_id a) m]) xs (ar_id a) \<le> micros q" if strict
  proof (cases "mu_spool m")
    case None
    show ?thesis
    proof (cases "mu_quantity m < 0")
      case True
      then have "micro (alloc_of es xs (ar_id a)) \<le> q" using src None by simp
      then show ?thesis using alloc_after_movement[OF xs, where m = m and i = "ar_id a"] None by (simp add: to_units_ge)
    next
      case False
      then have "ar_quantity a \<le> micros q" using ge to_units_nonneg[of "mu_quantity m" 6] by simp
      then show ?thesis using alloc_after_movement[OF xs, where m = m and i = "ar_id a"] None n(4)[OF that] by simp
    qed
  next
    case (Some k)
    then show ?thesis using alloc_after_movement[OF xs, where m = m and i = "ar_id a"] src ge n(4)[OF that] by simp
  qed
  then show ?thesis
    using ge v' n q(2) by (simp add: article_ok_def to_units_nonneg average_cost_nonneg)
qed

lemma spool_ok_after:
  assumes x: "spool_ok strict es x" "x \<in> set xs" and xs: "distinct (map sp_id xs)"
    and src: "case mu_spool m of Some k \<Rightarrow> k \<in> in_use xs i \<and> 0 \<le> micro (rem_of es k) + mu_quantity m | None \<Rightarrow> True"
  shows "spool_ok strict (es @ [movement_entry j i m]) x"
proof (cases "mu_spool m = Some (sp_id x)")
  case True
  obtain y where "y \<in> set xs" "sp_id y = sp_id x" "sp_active y" using src True by (auto elim: in_useE)
  then have act: "sp_active x" using key_inj[OF xs x(2), of y] by auto
  then have "0 \<le> rem_of es (sp_id x) + micros (mu_quantity m)"
  proof (cases "0 \<le> mu_quantity m")
    case True
    then show ?thesis using x(1) act to_units_nonneg[of "mu_quantity m" 6] by (simp add: spool_ok_def)
  next
    case False
    have "- mu_quantity m \<le> micro (rem_of es (sp_id x))" using src True by simp
    then show ?thesis using to_units_le[of "- mu_quantity m" 6] by fastforce
  qed
  then show ?thesis using act True by (simp add: spool_ok_def spool_effect_movement)
next
  case False
  then show ?thesis using x(1) by (simp add: spool_ok_def spool_effect_movement)
qed

lemma article_ok_other:
  assumes "article_ok strict es xs a" "ar_id a \<noteq> i" "distinct (map sp_id xs)" "case mu_spool m of Some k \<Rightarrow> k \<in> in_use xs i | None \<Rightarrow> True"
  shows "article_ok strict (es @ [movement_entry j i m]) xs a"
  using assms alloc_after_movement[OF assms(3,4), of es j "ar_id a"] by (simp add: article_ok_def)

text \<open>A change of one article that keeps its identifier, and a new entry.\<close>

lemma entry_keeps:
  assumes ok: "stock_ok strict ids s" and inj: "inj ids" and a: "row_at ar_id i (articles s) = Some a" and b: "ar_id b = i"
    and e: "en_id e = ids (stock_drawn s)" "en_article e = i" "set (entry_spools e) \<subseteq> spools_of s i"
    and b_ok: "article_ok strict (stock_entries s @ [e]) (spools s) b"
    and others: "\<And>x. x \<in> set (articles s) \<Longrightarrow> ar_id x \<noteq> i \<Longrightarrow> article_ok strict (stock_entries s @ [e]) (spools s) x"
    and xs: "\<And>x. x \<in> set (spools s) \<Longrightarrow> spool_ok strict (stock_entries s @ [e]) x"
    and t: "articles t = row_put ar_id b (articles s)" "stock_entries t = stock_entries s @ [e]" "stock_drawn t = Suc (stock_drawn s)"
      "same_spools (spools t) (spools s)"
  shows "stock_ok strict ids t"
proof -
  note r = rows_okD[OF stock_okD(1)[OF ok]]
  let ?t = "s\<lparr>articles := articles t, stock_entries := stock_entries t, stock_drawn := Suc (stock_drawn s)\<rparr>"
  have i: "ar_id a = i" "a \<in> set (articles s)" using row_atD[OF a] by simp_all
  have ids: "map ar_id (articles t) = map ar_id (articles s)" using t(1) by simp
  have set: "set (articles t) = insert b {x \<in> set (articles s). ar_id x \<noteq> i}"
    using set_row_put[of a "articles s" ar_id b] i b t(1) by simp
  have fresh: "ids (stock_drawn s) \<notin> en_id ` set (stock_entries s)" by (rule fresh_stock_id[OF inj r(6)])
  have "ar_id ` set (articles t) = ar_id ` set (articles s)" using ids by (metis set_map)
  moreover have "en_article e \<in> ar_id ` set (articles s)" using i e(2) by (metis imageI)
  ultimately have "rows_ok ids ?t"
    using stock_okD(1)[OF ok] ids fresh e t(2) by (auto simp: rows_ok_def spools_of_def lessThan_Suc)
  moreover have "\<forall>x\<in>set (articles t). article_ok strict (stock_entries t) (spools s) x" using b_ok others t(2) by (auto simp: set)
  ultimately have "stock_ok strict ids ?t" using xs t(2) by (simp add: stock_ok_def)
  then show ?thesis using stock_ok_same[of t ?t] t by simp
qed

lemma movement_keeps:
  assumes run: "apply_movement env p i expected m s = Inr (e, s')" and ok: "stock_ok strict (se_id env) s" and inj: "inj (se_id env)"
  shows "stock_ok strict (se_id env) s'"
proof -
  note r = rows_okD[OF stock_okD(1)[OF ok]]
  obtain a v q where a: "row_at ar_id i (articles s) = Some a" "q = micro (ar_quantity a) + mu_quantity m" "0 \<le> q"
      "check_source i q m s = Inr ()" "settle_value (micro (ar_value a) + mu_value m) = Inr v"
      "e = movement_entry (se_id env (stock_drawn s)) i m"
      "articles s' = row_put ar_id (moved_article a q v) (articles s)" "stock_entries s' = stock_entries s @ [e]"
      "stock_drawn s' = Suc (stock_drawn s)"
      "spools s' = spools (case mu_spool m of Some x \<Rightarrow> if mu_keep m then s else bump_spool x s | None \<Rightarrow> s)"
    by (rule movementE[OF run])
  have i: "ar_id a = i" "a \<in> set (articles s)" using row_atD[OF a(1)] by simp_all
  have same: "same_spools (spools s') (spools s)" using a(10) same_spools_bump[OF r(2)] by (simp split: option.splits)
  have src: "case mu_spool m of Some k \<Rightarrow> k \<in> in_use (spools s) i \<and> 0 \<le> micro (rem_of (stock_entries s) k) + mu_quantity m
      | None \<Rightarrow> mu_quantity m < 0 \<longrightarrow> micro (alloc_of (stock_entries s) (spools s) i) \<le> q"
    using check_sourceD[OF a(4)] by (simp add: spool_remaining_rem allocated_alloc split: option.splits)
  have use: "case mu_spool m of Some k \<Rightarrow> k \<in> in_use (spools s) i | None \<Rightarrow> True" using src by (auto split: option.splits)
  show ?thesis
  proof (rule entry_keeps[OF ok inj a(1) _ _ _ _ _ _ _ a(7,8,9) same])
    show "set (entry_spools e) \<subseteq> spools_of s i"
      using use a(6) by (auto simp: in_use_def spools_of_def split: option.splits)
    show "article_ok strict (stock_entries s @ [e]) (spools s) (moved_article a q v)"
      using article_ok_after[OF stock_okD(2)[OF ok i(2)] a(2,3,5) r(2)] src i a(6) by (auto split: option.splits)
    show "article_ok strict (stock_entries s @ [e]) (spools s) x" if "x \<in> set (articles s)" "ar_id x \<noteq> i" for x
      using article_ok_other[OF stock_okD(2)[OF ok that(1)] that(2) r(2) use] a(6) by simp
    show "spool_ok strict (stock_entries s @ [e]) x" if "x \<in> set (spools s)" for x
      using spool_ok_after[OF stock_okD(3)[OF ok that] that r(2), where m = m and i = i] src a(6) by (auto split: option.splits)
  qed (use a(6) i in simp_all)
qed

section \<open>Transfers and spools\<close>

lemma rem_of_unknown:
  assumes "\<And>e. e \<in> set es \<Longrightarrow> j \<notin> set (entry_spools e)"
  shows "rem_of es j = 0"
proof -
  have "spool_effect j e = 0" if "e \<in> set es" for e
    using assms[OF that] by (auto simp: spool_effect_def entry_spools_def)
  then show ?thesis by (simp add: rem_of_def cong: map_cong)
qed

lemma update_balance_simps [simp]:
  "stock_entries (update_balance a q v r s) = stock_entries s" "spools (update_balance a q v r s) = spools s"
  "stock_drawn (update_balance a q v r s) = stock_drawn s" "mounts (update_balance a q v r s) = mounts s"
  "spool_tags (update_balance a q v r s) = spool_tags s"
  "articles (update_balance a q v r s) = row_put ar_id (a\<lparr>ar_quantity := micros q, ar_value := micros v, ar_average := micros r,
     ar_stock_version := ar_stock_version a + 1\<rparr>) (articles s)"
  by (simp_all add: update_balance_def)

lemma transfer_entry_simps [simp]:
  "en_id (transfer_entry j i src dst q t note) = j" "en_article (transfer_entry j i src dst q t note) = i"
  "en_quantity (transfer_entry j i src dst q t note) = 0" "en_value (transfer_entry j i src dst q t note) = 0"
  "en_spool (transfer_entry j i src dst q t note) = None" "en_from (transfer_entry j i src dst q t note) = src"
  "en_to (transfer_entry j i src dst q t note) = dst" "en_moved (transfer_entry j i src dst q t note) = Some (micros q)"
  "en_deleted (transfer_entry j i src dst q t note) = False" "en_kind (transfer_entry j i src dst q t note) = Spool_Transfer"
  "en_item (transfer_entry j i src dst q t note) = None"
  by (simp_all add: transfer_entry_def)

lemma transferE:
  assumes "insert_transfer env i expected src dst q t note s = Inr (e, s')"
  obtains a where
    "row_at ar_id i (articles s) = Some a" "ar_stock_version a = expected" "0 < micros q" "label_at s src \<noteq> label_at s dst"
    "e = transfer_entry (se_id env (stock_drawn s)) i src dst q t note"
    "articles s' = row_put ar_id (a\<lparr>ar_stock_version := ar_stock_version a + 1\<rparr>) (articles s)"
    "stock_entries s' = stock_entries s @ [e]" "stock_drawn s' = Suc (stock_drawn s)" "spools s' = spools s"
    "spool_tags s' = spool_tags s" "mounts s' = mounts s"
  using assms
  by (auto simp: insert_transfer_def and_then_Inr_iff lock_article_def Let_def draw_stock_id_def insert_entry_def)

lemma stock_ok_more:
  assumes "stock_ok strict ids s" "articles t = articles s" "spools t = spools s" "stock_entries t = stock_entries s"
    "stock_drawn s \<le> stock_drawn t"
  shows "stock_ok strict ids t"
proof -
  have "ids ` {..<stock_drawn s} \<subseteq> ids ` {..<stock_drawn t}" using assms(5) by (intro image_mono) auto
  moreover have "spools_of t = spools_of s" using assms(3) by (simp add: spools_of_def fun_eq_iff)
  ultimately show ?thesis using assms(1-4) unfolding stock_ok_def rows_ok_def by (simp add: subset_trans[of _ "ids ` {..<stock_drawn s}"])
qed

text \<open>A transfer between loose stock and spools that are in use.\<close>

lemma transfer_effect:
  "src \<noteq> dst \<Longrightarrow> spool_effect k (transfer_entry j i src dst q t note) =
     (if dst = Some k then micros q else if src = Some k then - micros q else 0)"
  by (auto simp: spool_effect_def)

lemma transfer_keeps:
  assumes run: "insert_transfer env i expected src dst q t note s = Inr (e, s')" and ok: "stock_ok strict (se_id env) s" and inj: "inj (se_id env)"
    and src: "case src of Some j \<Rightarrow> j \<in> in_use (spools s) i \<and> q \<le> micro (spool_remaining s j)
      | None \<Rightarrow> (\<forall>a. row_at ar_id i (articles s) = Some a \<longrightarrow> q \<le> micro (ar_quantity a) - micro (allocated_quantity s i))"
    and dst: "case dst of Some j \<Rightarrow> j \<in> in_use (spools s) i | None \<Rightarrow> True" and differ: "src \<noteq> dst"
  shows "stock_ok strict (se_id env) s'"
proof -
  note r = rows_okD[OF stock_okD(1)[OF ok]]
  obtain a where a: "row_at ar_id i (articles s) = Some a" "0 < micros q"
      "e = transfer_entry (se_id env (stock_drawn s)) i src dst q t note"
      "articles s' = row_put ar_id (a\<lparr>ar_stock_version := ar_stock_version a + 1\<rparr>) (articles s)"
      "stock_entries s' = stock_entries s @ [e]" "stock_drawn s' = Suc (stock_drawn s)" "spools s' = spools s"
    by (rule transferE[OF run])
  have i: "ar_id a = i" "a \<in> set (articles s)" using row_atD[OF a(1)] by simp_all
  have a_ok: "article_ok strict (stock_entries s) (spools s) a" by (rule stock_okD(2)[OF ok i(2)])
  have alloc: "alloc_of (stock_entries s @ [e]) (spools s) k = alloc_of (stock_entries s) (spools s) k +
      (if k = i then (if dst = None then 0 else micros q) - (if src = None then 0 else micros q) else 0)" for k
    using src dst in_use_unique[OF r(2)] unfolding alloc_of_append effect_sum[OF r(2)] a(3)
    by (auto split: option.splits)
  have booked: "booked_quantity (stock_entries s @ [e]) k = booked_quantity (stock_entries s) k"
      "booked_value (stock_entries s @ [e]) k = booked_value (stock_entries s) k" for k
    by (simp_all add: a(3))
  show ?thesis
  proof (rule entry_keeps[OF ok inj a(1) _ _ _ _ _ _ _ a(4,5,6)])
    show "set (entry_spools e) \<subseteq> spools_of s i"
      using src dst a(3) by (auto simp: entry_spools_def in_use_def spools_of_def split: option.splits)
    have "micros q \<le> ar_quantity a - alloc_of (stock_entries s) (spools s) i" if "src = None"
      using src a(1) that by (simp add: allocated_alloc of_units_diff to_units_le)
    then show "article_ok strict (stock_entries s @ [e]) (spools s) (a\<lparr>ar_stock_version := ar_stock_version a + 1\<rparr>)"
      using a_ok a(2) i differ unfolding article_ok_def alloc booked by (cases src; cases dst) auto
    show "article_ok strict (stock_entries s @ [e]) (spools s) x" if "x \<in> set (articles s)" "ar_id x \<noteq> i" for x
      using stock_okD(2)[OF ok that(1)] that(2) unfolding article_ok_def alloc booked by simp
    show "spool_ok strict (stock_entries s @ [e]) x" if "x \<in> set (spools s)" for x
    proof -
      have "sp_active x" if "Some (sp_id x) = src \<or> Some (sp_id x) = dst"
      proof -
        have "sp_id x \<in> in_use (spools s) i" using src dst that by (auto split: option.splits)
        then obtain y where "y \<in> set (spools s)" "sp_id y = sp_id x" "sp_active y" by (auto elim: in_useE)
        then show ?thesis using key_inj[OF r(2) \<open>x \<in> set (spools s)\<close>, of y] by auto
      qed
      moreover have "micros q \<le> rem_of (stock_entries s) (sp_id x)" if "src = Some (sp_id x)"
        using src that by (simp add: spool_remaining_rem to_units_le)
      ultimately show ?thesis
        using stock_okD(3)[OF ok that] a(2,3) transfer_effect[OF differ] by (auto simp: spool_ok_def)
    qed
  qed (use a i in simp_all)
qed

text \<open>A new spool holds nothing yet.\<close>

lemma insert_spool_keeps:
  assumes run: "insert_spool x s = Inr s'" and ok: "stock_ok strict ids (s\<lparr>stock_drawn := n\<rparr>)" and inj: "inj ids"
    and x: "sp_id x = ids n" "sp_active x" "sp_article x \<in> ar_id ` set (articles s)" and n: "stock_drawn s = Suc n"
  shows "stock_ok strict ids s'" "spools s' = spools s @ [x]" "articles s' = articles s" "stock_entries s' = stock_entries s"
    "stock_drawn s' = stock_drawn s" "ids n \<in> in_use (spools s') (sp_article x)" "rem_of (stock_entries s) (ids n) = 0"
proof -
  have s': "s' = s\<lparr>spools := spools s @ [x]\<rparr>" using run by (simp add: insert_spool_def)
  then show "spools s' = spools s @ [x]" "articles s' = articles s" "stock_entries s' = stock_entries s" "stock_drawn s' = stock_drawn s"
      "ids n \<in> in_use (spools s') (sp_article x)"
    using x by (auto simp: in_use_def image_iff)
  note r = rows_okD[OF stock_okD(1)[OF ok]]
  have fresh: "ids n \<notin> sp_id ` set (spools s)" using fresh_stock_id[OF inj, of "sp_id ` set (spools s)" n] r(5) by simp
  have "ids n \<notin> set (entry_spools e)" if "e \<in> set (stock_entries s)" for e
    using r(9)[of e] that fresh by (auto simp: spools_of_def)
  then show rem: "rem_of (stock_entries s) (ids n) = 0" by (rule rem_of_unknown)
  have grow: "spools_of s k \<subseteq> spools_of s' k" "spools_of (s\<lparr>stock_drawn := n\<rparr>) k = spools_of s k" for k
    by (auto simp: spools_of_def s')
  have "set (entry_spools e) \<subseteq> spools_of s' (en_article e)" if "e \<in> set (stock_entries s)" for e
  proof -
    have "set (entry_spools e) \<subseteq> spools_of s (en_article e)" using r(9)[of e] that grow(2) by simp
    then show ?thesis by (rule subset_trans[OF _ grow(1)])
  qed
  then have "rows_ok ids s'"
    using r x fresh n unfolding rows_ok_def by (auto simp: s' lessThan_Suc)
  then show "stock_ok strict ids s'"
    using stock_okD(2,3)[OF ok] x rem unfolding s' stock_ok_def by (auto simp: article_ok_def spool_ok_def)
qed

end
