(* ===== verification/Stock_History.thy ===== *)
theory Stock_History
  imports Stock_Balance
begin

text \<open>
  Every operation of the inventory keeps the invariant \<open>stock_ok\<close>, the strict one and the other. The identifiers are
  drawn from one supply without repetition, which stands for the random UUIDs.
\<close>

section \<open>Articles, sales\<close>

lemma each_keeps:
  assumes "each f xs s = Inr s'" "P s" "\<And>x t t'. x \<in> set xs \<Longrightarrow> P t \<Longrightarrow> f x t = Inr t' \<Longrightarrow> P t'"
  shows "P s'"
  using assms
proof (induction xs arbitrary: s)
  case (Cons x xs)
  obtain t where t: "f x s = Inr t" "each f xs t = Inr s'" using Cons.prems(1) by (auto simp: and_then_Inr_iff)
  moreover have "P t" by (rule Cons.prems(3)[OF _ Cons.prems(2) t(1)]) simp
  ultimately show ?case using Cons.IH[OF t(2)] Cons.prems(3) by (meson list.set_intros(2))
qed simp

lemma add_purchase_keeps:
  assumes "add_purchase env p i expected quantity paid t supplier ref note s = Inr (e, s')" "stock_ok strict (se_id env) s" "inj (se_id env)"
  shows "stock_ok strict (se_id env) s'"
  using assms by (auto simp: add_purchase_def and_then_Inr_iff intro: movement_keeps)

lemma record_consumption_keeps:
  assumes "record_consumption env p i expected quantity t disposal reason note s = Inr (e, s')" "stock_ok strict (se_id env) s" "inj (se_id env)"
  shows "stock_ok strict (se_id env) s'"
  using assms by (auto simp: record_consumption_def and_then_Inr_iff Let_def intro: movement_keeps)

lemma correct_stock_keeps:
  assumes "correct_stock env p i expected physical given t reason note s = Inr (e, s')" "stock_ok strict (se_id env) s" "inj (se_id env)"
  shows "stock_ok strict (se_id env) s'"
  using assms by (auto simp: correct_stock_def and_then_Inr_iff Let_def intro: movement_keeps)

lemma mark_empty_keeps:
  assumes "mark_empty env p i expected t note s = Inr (e, s')" "stock_ok strict (se_id env) s" "inj (se_id env)"
  shows "stock_ok strict (se_id env) s'"
  using assms by (auto simp: mark_empty_def and_then_Inr_iff Let_def intro: movement_keeps)

lemma sell_from_keeps:
  assumes "sell_from env p sales s = Inr s'" "stock_ok strict (se_id env) s" "inj (se_id env)"
  shows "stock_ok strict (se_id env) s'"
proof -
  have "each (sell_item env p) (sort_key fst sales) s = Inr s'" using assms(1) by (simp add: sell_from_def Let_def and_then_Inr_iff)
  then show ?thesis
    by (rule each_keeps[where P = "stock_ok strict (se_id env)", OF _ assms(2)])
      (use assms(3) in \<open>auto simp: sell_item_def Let_def and_then_Inr_iff intro: movement_keeps split: prod.splits\<close>)
qed

lemma restock_order_sale_keeps:
  assumes "restock_order_sale env p item s = Inr s'" "stock_ok strict (se_id env) s" "inj (se_id env)"
  shows "stock_ok strict (se_id env) s'"
  using assms by (auto simp: restock_order_sale_def and_then_Inr_iff intro: movement_keeps split: option.splits if_splits)

section \<open>Spools\<close>

lemma stock_ok_change_spools:
  assumes "stock_ok strict ids s" "same_spools (spools t) (spools s)" "articles t = articles s" "stock_entries t = stock_entries s"
    "stock_drawn t = stock_drawn s"
  shows "stock_ok strict ids t"
  using assms stock_ok_same by blast

lemma add_tag_simps:
  assumes "add_tag env i tag s = Inr s'"
  shows "articles s' = articles s" "spools s' = spools s" "stock_entries s' = stock_entries s" "stock_drawn s' = Suc (stock_drawn s)"
    "mounts s' = mounts s"
  using assms by (auto simp: add_tag_def Let_def draw_stock_id_def split: prod.splits)

lemma add_tags_keep:
  assumes "each (add_tag env i) tags s = Inr s'"
  shows "articles s' = articles s \<and> spools s' = spools s \<and> stock_entries s' = stock_entries s \<and> stock_drawn s \<le> stock_drawn s'"
  using assms
proof (induction tags arbitrary: s)
  case (Cons tag tags)
  obtain t where t: "add_tag env i tag s = Inr t" "each (add_tag env i) tags t = Inr s'"
    using Cons.prems by (auto simp: and_then_Inr_iff)
  show ?case using Cons.IH[OF t(2)] add_tag_simps[OF t(1)] by simp
qed simp

lemma add_tags_ok:
  assumes "each (add_tag env i) tags s = Inr s'" "stock_ok strict ids s"
  shows "stock_ok strict ids s'"
  by (rule stock_ok_more[OF assms(2)]) (use add_tags_keep[OF assms(1)] in auto)

lemma bump_spools_keep: "stock_ok strict ids s \<Longrightarrow> stock_ok strict ids (fold bump_spool js s)"
  by (induction js arbitrary: s) (simp_all add: stock_ok_bump)

lemma lock_spoolD [simp]: "lock_spool s j = Inr x \<longleftrightarrow> row_at sp_id j (spools s) = Some x"
  by (simp add: lock_spool_def)

lemma lock_articleD [simp]: "lock_article s j = Inr x \<longleftrightarrow> row_at ar_id j (articles s) = Some x"
  by (simp add: lock_article_def)

lemma lock_consumableD:
  assumes "lock_consumable s j = Inr x"
  shows "row_at sp_id j (spools s) = Some x" "sp_active x" "j \<in> in_use (spools s) (sp_article x)"
  using assms row_atD[of sp_id j "spools s" x]
  by (auto simp: lock_consumable_def and_then_Inr_iff in_use_def image_iff)

lemma add_spool_tag_keeps:
  assumes "add_spool_tag env p i k raw s = Inr s'" "stock_ok strict ids s"
  shows "stock_ok strict ids s'"
proof -
  obtain t where t: "add_tag env i (k, trim_space raw) s = Inr t" "stock_ok strict ids s' = stock_ok strict ids t"
    using assms(1) by (auto simp: add_spool_tag_def and_then_Inr_iff Let_def)
  have "stock_ok strict ids t" by (rule stock_ok_more[OF assms(2)]) (simp_all add: add_tag_simps[OF t(1)])
  then show ?thesis using t(2) by simp
qed

lemma delete_spool_tag_keeps: "delete_spool_tag p i j s = Inr s' \<Longrightarrow> stock_ok strict ids s \<Longrightarrow> stock_ok strict ids s'"
  by (auto simp: delete_spool_tag_def and_then_Inr_iff Let_def)

text \<open>A change of the columns of a spool that the stock does not depend on.\<close>

lemma stock_ok_put_spool:
  assumes ok: "stock_ok strict ids s" and x: "row_at sp_id i (spools s) = Some x"
    and y: "sp_id y = sp_id x" "sp_article y = sp_article x" "sp_active y = sp_active x"
  shows "stock_ok strict ids (s\<lparr>spools := row_put sp_id y (spools s)\<rparr>)"
  using stock_ok_same[of "s\<lparr>spools := row_put sp_id y (spools s)\<rparr>" s] ok
    same_spools_put[OF rows_okD(2)[OF stock_okD(1)[OF ok]] x y] by simp

lemma update_spool_keeps:
  assumes "update_spool env p i u s = Inr s'" "stock_ok strict ids s"
  shows "stock_ok strict ids s'"
  using assms by (auto simp: update_spool_def and_then_Inr_iff Let_def intro!: stock_ok_put_spool)

text \<open>A spool that holds nothing may be switched on and off, and any spool where the sums are not compared.\<close>

lemma alloc_of_sum: "alloc_of es xs i = (\<Sum>x\<leftarrow>xs. if sp_article x = i \<and> sp_active x then rem_of es (sp_id x) else 0)"
  by (induction xs) simp_all

lemma map_row_put:
  assumes "\<And>z. z \<in> set rs \<Longrightarrow> key z = key r \<Longrightarrow> f z = f r"
  shows "map f (row_put key r rs) = map f rs"
  using assms by (simp add: row_put_def)

lemma spools_of_pairs: "spools_of s k = {j. (j, k) \<in> set (map (\<lambda>x. (sp_id x, sp_article x)) (spools s))}"
  by (force simp: spools_of_def)

lemma stock_ok_switch:
  assumes ok: "stock_ok strict ids s" and x: "row_at sp_id i (spools s) = Some x"
    and y: "sp_id y = sp_id x" "sp_article y = sp_article x" and rem: "strict \<Longrightarrow> rem_of (stock_entries s) i = 0"
  shows "stock_ok strict ids (s\<lparr>spools := row_put sp_id y (spools s)\<rparr>)"
proof -
  note r = rows_okD[OF stock_okD(1)[OF ok]]
  have x': "x \<in> set (spools s)" "sp_id x = i" using row_atD[OF x] by simp_all
  have set: "set (row_put sp_id y (spools s)) = insert y {z \<in> set (spools s). sp_id z \<noteq> i}"
    using set_row_put[OF x'(1), of sp_id y] y x'(2) by simp
  have alloc: "alloc_of (stock_entries s) (row_put sp_id y (spools s)) k = alloc_of (stock_entries s) (spools s) k" if strict for k
    unfolding alloc_of_sum using sum_row_put[OF r(2) x'(1), of y] y x'(2) rem[OF that] by simp
  have ids: "sp_id ` set (row_put sp_id y (spools s)) = sp_id ` set (spools s)"
    by (simp only: set_map[symmetric] keys_row_put)
  have same: "(sp_id z, sp_article z) = (sp_id y, sp_article y)" if "z \<in> set (spools s)" "sp_id z = sp_id y" for z
    using key_inj[OF r(2) x'(1) that(1)] that(2) y by simp
  have owned: "spools_of (s\<lparr>spools := row_put sp_id y (spools s)\<rparr>) k = spools_of s k" for k
    unfolding spools_of_pairs using map_row_put[of "spools s" sp_id y "\<lambda>x. (sp_id x, sp_article x)"] same by simp
  have "rows_ok ids (s\<lparr>spools := row_put sp_id y (spools s)\<rparr>)"
    using stock_okD(1)[OF ok] x' y unfolding rows_ok_def owned by (auto simp: ids set)
  then show ?thesis
    using stock_okD(2,3)[OF ok] x' y rem unfolding stock_ok_def by (auto simp: set alloc article_ok_def spool_ok_def)
qed

section \<open>Stock on spools\<close>

lemma in_use_grow: "j \<in> in_use xs i \<Longrightarrow> j \<in> in_use (xs @ [x]) i"
  by (auto simp: in_use_def)

lemma fill_spool_keeps:
  assumes run: "fill_spool env p input supplier weight price unassigned j s = Inr s'"
    and ok: "stock_ok strict (se_id env) s" and inj: "inj (se_id env)"
    and j: "j \<in> in_use (spools s) (si_article input)"
    and free: "\<And>a. row_at ar_id (si_article input) (articles s) = Some a \<Longrightarrow>
      unassigned = micro (ar_quantity a) - micro (allocated_quantity s (si_article input))"
  shows "stock_ok strict (se_id env) s'"
proof (cases "si_mode input = ''new_acquisition''")
  case True
  then show ?thesis using run ok inj by (auto simp: fill_spool_def and_then_Inr_iff intro: movement_keeps)
next
  case False
  then obtain e t where t: "insert_transfer env (si_article input) (si_version input) None (Some j) weight (si_at input) (si_notes input) s = Inr (e, t)"
      "weight \<le> unassigned" "s' = bump_spool j t"
    using run by (auto simp: fill_spool_def and_then_Inr_iff)
  have "stock_ok strict (se_id env) t"
    by (rule transfer_keeps[OF t(1) ok inj]) (use j free t(2) in auto)
  then show ?thesis by (simp add: t(3) stock_ok_bump)
qed

lemma create_spool_keeps:
  assumes run: "create_spool env p input s = Inr s'" and ok: "stock_ok strict (se_id env) s" and inj: "inj (se_id env)"
  shows "stock_ok strict (se_id env) s'"
proof -
  let ?i = "si_article input" and ?j = "se_id env (stock_drawn s)"
  obtain weight price supplier tags a x s2 s3 s4 where t: "row_at ar_id ?i (articles s) = Some a"
      "sp_id x = ?j" "sp_active x" "sp_article x = ?i" "insert_spool x (s\<lparr>stock_drawn := Suc (stock_drawn s)\<rparr>) = Inr s2"
      "each (add_tag env ?j) tags s2 = Inr s3"
      "fill_spool env p input supplier weight price (micro (ar_quantity a) - micro (allocated_quantity s ?i)) ?j s3 = Inr s4"
      "stock_ok strict (se_id env) s' = stock_ok strict (se_id env) s4"
    using run by (force simp: create_spool_def check_spool_article_def and_then_Inr_iff Let_def draw_stock_id_def)
  have here: "sp_article x \<in> ar_id ` set (articles s)" using row_atD[OF t(1)] t(4) by force
  note new = insert_spool_keeps[OF t(5) _ inj t(2,3), simplified, OF ok here]
  note tags = add_tags_keep[OF t(6)]
  have s3: "articles s3 = articles s" "spools s3 = spools s @ [x]" "stock_entries s3 = stock_entries s"
    using new(2,3,4) tags by simp_all
  have "stock_ok strict (se_id env) s4"
  proof (rule fill_spool_keeps[OF t(7) add_tags_ok[OF t(6) new(1)] inj])
    show "?j \<in> in_use (spools s3) ?i" using new(2,6) t(4) by (simp add: s3(2))
    show "micro (ar_quantity a) - micro (allocated_quantity s ?i) = micro (ar_quantity b) - micro (allocated_quantity s3 ?i)"
      if "row_at ar_id ?i (articles s3) = Some b" for b
      using that t(1,2) new(7) by (simp add: s3 allocated_alloc)
  qed
  then show ?thesis using t(8) by simp
qed

lemma transfer_spoolsD:
  assumes "each (transfer_spool i src q) js s = Inr t"
  shows "\<forall>j\<in>set js. j \<in> in_use (spools s) i \<and> (src = Some j \<longrightarrow> q \<le> micro (spool_remaining s j))"
  using assms
proof (induction js)
  case (Cons j js)
  obtain u where u: "transfer_spool i src q j s = Inr u" "each (transfer_spool i src q) js u = Inr t"
    using Cons.prems by (auto simp: and_then_Inr_iff)
  have j: "u = s" "j \<in> in_use (spools s) i" "src = Some j \<longrightarrow> q \<le> micro (spool_remaining s j)"
    using u(1) lock_consumableD(3)[of s j] by (auto simp: transfer_spool_def and_then_Inr_iff)
  then show ?case using Cons.IH u(2) by simp
qed simp

lemma transfer_stock_keeps:
  assumes run: "transfer_stock env p i expected src dst quantity t note s = Inr (e, s')"
    and ok: "stock_ok strict (se_id env) s" and inj: "inj (se_id env)"
  shows "stock_ok strict (se_id env) s'"
proof -
  let ?js = "sort ((case src of None \<Rightarrow> [] | Some j \<Rightarrow> [j]) @ (case dst of None \<Rightarrow> [] | Some j \<Rightarrow> [j]))"
  obtain q a u s1 where t: "src \<noteq> dst" "row_at ar_id i (articles s) = Some a" "each (transfer_spool i src q) ?js s = Inr u"
      "\<not> (src = None \<and> micro (ar_quantity a) - micro (allocated_quantity s i) < q)"
      "insert_transfer env i expected src dst q t note s = Inr (e, s1)"
      "stock_ok strict (se_id env) s' = stock_ok strict (se_id env) (fold bump_spool ?js s1)"
    using run by (force simp: transfer_stock_def and_then_Inr_iff Let_def)
  have "stock_ok strict (se_id env) s1"
    by (rule transfer_keeps[OF t(5) ok inj _ _ t(1)]) (use t(2,4) transfer_spoolsD[OF t(3)] in \<open>auto split: option.splits\<close>)
  then show ?thesis using t(6) bump_spools_keep by simp
qed

lemma consume_spool_keeps:
  assumes "consume_spool env p j expected v quantity t disposal reason note s = Inr (e, s')" "stock_ok strict (se_id env) s" "inj (se_id env)"
  shows "stock_ok strict (se_id env) s'"
  using assms by (auto simp: consume_spool_def and_then_Inr_iff Let_def intro: movement_keeps)

lemma correct_spool_keeps:
  assumes "correct_spool env p j expected v physical given t reason note s = Inr (e, s')" "stock_ok strict (se_id env) s" "inj (se_id env)"
  shows "stock_ok strict (se_id env) s'"
  using assms by (auto simp: correct_spool_def and_then_Inr_iff Let_def intro: movement_keeps)

section \<open>Retiring, restoring and purging spools\<close>

lemma write_offE:
  assumes "write_off env p x a outcome written s = Inr s'" "0 < written"
  obtains e m where "apply_movement env p (sp_article x) None m s = Inr (e, s')" "mu_spool m = Some (sp_id x)" "mu_keep m"
    "mu_quantity m = - micro written"
proof -
  let ?m = "(plain_movement (if outcome = ''discarded'' then Disposal else Manual_Consumption) (- micro written) (micro (ar_average a))
      (- (micro written * micro (ar_average a))) (se_now env))
    \<lparr>mu_reason := Some (if outcome = ''discarded'' then ''disposed'' else ''unrecorded_consumption''), mu_spool := Some (sp_id x),
     mu_quiet := True, mu_keep := True\<rparr>"
  obtain e where "apply_movement env p (sp_article x) None ?m s = Inr (e, s')"
    using assms by (auto simp: write_off_def and_then_Inr_iff Let_def)
  then show ?thesis by (rule that) (simp_all add: plain_movement_def)
qed

lemma write_off_keeps:
  assumes run: "write_off env p x a outcome written s = Inr s'" and ok: "stock_ok strict (se_id env) s" and inj: "inj (se_id env)"
    and w: "written = rem_of (stock_entries s) (sp_id x)" "0 \<le> written"
  shows "stock_ok strict (se_id env) s'" "spools s' = spools s" "rem_of (stock_entries s') (sp_id x) = 0"
proof -
  have "stock_ok strict (se_id env) s' \<and> spools s' = spools s \<and> rem_of (stock_entries s') (sp_id x) = 0"
  proof (cases "0 < written")
    case True
    then obtain e m where m: "apply_movement env p (sp_article x) None m s = Inr (e, s')" "mu_spool m = Some (sp_id x)" "mu_keep m"
        "mu_quantity m = - micro written"
      using run by (elim write_offE)
    then show ?thesis using movement_keeps[OF m(1) ok inj] w(1)
      by (auto simp: spool_effect_movement elim!: movementE)
  next
    case False
    then show ?thesis using run ok w by (simp add: write_off_def)
  qed
  then show "stock_ok strict (se_id env) s'" "spools s' = spools s" "rem_of (stock_entries s') (sp_id x) = 0" by simp_all
qed

lemma and_thenE: "and_then r f = Inr y \<Longrightarrow> (\<And>x. r = Inr x \<Longrightarrow> f x = Inr y \<Longrightarrow> P) \<Longrightarrow> P"
  by (auto simp: and_then_Inr_iff)

lemma ensureE: "ensure b e k = Inr y \<Longrightarrow> (b \<Longrightarrow> k () = Inr y \<Longrightarrow> P) \<Longrightarrow> P"
  by (cases b) auto

lemma stock_ok_unread_spools: "stock_ok strict ids (s\<lparr>mounts := ms, spool_tags := gs, spools := xs\<rparr>) = stock_ok strict ids (s\<lparr>spools := xs\<rparr>)"
  by (rule stock_ok_same) simp_all

lemma retire_spool_keeps:
  assumes run: "retire_spool env p i expected outcome s = Inr s'" and ok: "stock_ok strict (se_id env) s" and inj: "inj (se_id env)"
  shows "stock_ok strict (se_id env) s'"
proof -
  let ?n = "max (spool_remaining s i) 0"
  let ?y = "\<lambda>x. x\<lparr>sp_active := False, sp_archived := Some (se_now env), sp_outcome := Some outcome, sp_retired := Some ?n,
    sp_version := sp_version x + 1\<rparr>"
  obtain x a s1 where t: "lock_consumable s i = Inr x" "write_off env p x a outcome ?n s = Inr s1"
      "stock_ok strict (se_id env) s' = stock_ok strict (se_id env) (s1\<lparr>mounts := unmount (se_now env) (\<lambda>j. j = i) (mounts s1),
        spool_tags := retire_tags (se_now env) i (spool_tags s1), spools := row_put sp_id (?y x) (spools s1)\<rparr>)"
    using run by (force simp: retire_spool_def and_then_Inr_iff Let_def)
  have x: "x \<in> set (spools s)" "sp_id x = i" "sp_active x" "row_at sp_id i (spools s) = Some x"
    using row_atD[OF lock_consumableD(1)[OF t(1)]] lock_consumableD[OF t(1)] by simp_all
  have "0 \<le> rem_of (stock_entries s) (sp_id x)" using stock_okD(3)[OF ok x(1)] by (simp add: spool_ok_def)
  note w = write_off_keeps[OF t(2) ok inj]
  have "stock_ok strict (se_id env) (s1\<lparr>spools := row_put sp_id (?y x) (spools s1)\<rparr>)"
    by (rule stock_ok_switch[where i = i and x = x])
      (use w x \<open>0 \<le> rem_of (stock_entries s) (sp_id x)\<close> in \<open>simp_all add: spool_remaining_rem\<close>)
  then show ?thesis using t(3) by (simp add: stock_ok_unread_spools)
qed

lemma restore_tags_simps [simp]:
  "articles (restore_tags env t i s) = articles s" "spools (restore_tags env t i s) = spools s"
  "stock_entries (restore_tags env t i s) = stock_entries s" "stock_drawn (restore_tags env t i s) = stock_drawn s"
  "stock_ok strict ids (restore_tags env t i s) = stock_ok strict ids s"
  by (simp_all add: restore_tags_def split: option.split)

lemma put_restored_Inr: "put_restored y s = Inr t \<longleftrightarrow> rune_count (sp_label y) \<le> 240 \<and>
    (\<forall>z\<in>set (spools s). sp_active z \<and> sp_label z = sp_label y \<longrightarrow> sp_id z = sp_id y) \<and> t = s\<lparr>spools := row_put sp_id y (spools s)\<rparr>"
  by (auto simp: put_restored_def ensure_def list_ex_iff)

lemma restore_spoolE:
  assumes "restore_spool env p i expected s = Inr s'"
  obtains x a y s2 m booked where "row_at sp_id i (spools s) = Some x" "\<not> sp_active x" "row_at ar_id (sp_article x) (articles s) = Some a"
    "y = x\<lparr>sp_label := restored_label env x a s, sp_active := True, sp_archived := None, sp_outcome := None,
      sp_retired := None, sp_version := sp_version x + 1\<rparr>"
    "\<forall>z\<in>set (spools s). sp_active z \<and> sp_label z = sp_label y \<longrightarrow> sp_id z = sp_id y"
    "(if booked then and_then (apply_movement env p (sp_article x) None m
        (restore_tags env (sp_archived x) i (s\<lparr>spools := row_put sp_id y (spools s)\<rparr>))) (\<lambda>(e, s2). Inr s2)
      else Inr (restore_tags env (sp_archived x) i (s\<lparr>spools := row_put sp_id y (spools s)\<rparr>))) = Inr s2"
    "\<exists>action resource fs. s' = log_stock p action resource i fs s2"
proof -
  let ?y = "\<lambda>x a. x\<lparr>sp_label := restored_label env x a s, sp_active := True, sp_archived := None, sp_outcome := None,
    sp_retired := None, sp_version := sp_version x + 1\<rparr>"
  obtain x a s0 s2 booked m action resource fs where t: "lock_spool s i = Inr x" "\<not> sp_active x" "lock_article s (sp_article x) = Inr a"
      "put_restored (?y x a) s = Inr s0"
      "(if booked then and_then (apply_movement env p (sp_article x) None m (restore_tags env (sp_archived x) i s0)) (\<lambda>(e, s2). Inr s2)
        else Inr (restore_tags env (sp_archived x) i s0)) = Inr s2"
      "Inr (log_stock p action resource i fs s2) = (Inr s' :: app_error + stock)"
    using assms unfolding restore_spool_def Let_def by (elim and_thenE ensureE) (rule that; assumption)
  have y: "s0 = s\<lparr>spools := row_put sp_id (?y x a) (spools s)\<rparr>"
      "\<forall>z\<in>set (spools s). sp_active z \<and> sp_label z = sp_label (?y x a) \<longrightarrow> sp_id z = sp_id (?y x a)"
    using t(4) unfolding put_restored_Inr by simp_all
  show thesis
    by (rule that[OF _ t(2) _ refl y(2) t(5)[unfolded y(1)]]) (use t(1,3,6) in auto)
qed

lemma restore_spool_keeps:
  assumes run: "restore_spool env p i expected s = Inr s'" and ok: "stock_ok strict (se_id env) s" and inj: "inj (se_id env)"
  shows "stock_ok strict (se_id env) s'"
proof -
  obtain x a y s2 m booked where t: "row_at sp_id i (spools s) = Some x" "\<not> sp_active x" "row_at ar_id (sp_article x) (articles s) = Some a"
    "y = x\<lparr>sp_label := restored_label env x a s, sp_active := True, sp_archived := None, sp_outcome := None,
      sp_retired := None, sp_version := sp_version x + 1\<rparr>"
    "\<forall>z\<in>set (spools s). sp_active z \<and> sp_label z = sp_label y \<longrightarrow> sp_id z = sp_id y"
    "(if booked then and_then (apply_movement env p (sp_article x) None m
        (restore_tags env (sp_archived x) i (s\<lparr>spools := row_put sp_id y (spools s)\<rparr>))) (\<lambda>(e, s2). Inr s2)
      else Inr (restore_tags env (sp_archived x) i (s\<lparr>spools := row_put sp_id y (spools s)\<rparr>))) = Inr s2"
    "\<exists>action resource fs. s' = log_stock p action resource i fs s2"
    by (rule restore_spoolE[OF run])
  have "rem_of (stock_entries s) i = 0" if strict
    using stock_okD(3)[OF ok, of x] row_atD[OF t(1)] t(2) that by (simp add: spool_ok_def)
  then have "stock_ok strict (se_id env) (restore_tags env (sp_archived x) i (s\<lparr>spools := row_put sp_id y (spools s)\<rparr>))"
    using stock_ok_switch[OF ok t(1), of y] t(4) by simp
  then have "stock_ok strict (se_id env) s2" using t(6) movement_keeps[OF _ _ inj] by (auto simp: and_then_Inr_iff split: if_splits)
  then show ?thesis using t(7) by auto
qed

text \<open>A spool that is purged takes no stock with it: only a retired one is, which holds nothing.\<close>

lemma detach_spool_simps [simp]:
  "en_id (detach_spool i e) = en_id e" "en_article (detach_spool i e) = en_article e" "en_quantity (detach_spool i e) = en_quantity e"
  "en_value (detach_spool i e) = en_value e" "en_deleted (detach_spool i e) = en_deleted e"
  "set (entry_spools (detach_spool i e)) = set (entry_spools e) - {i}"
  by (auto simp: detach_spool_def entry_spools_def split: option.splits)

lemma detach_spool_effect: "j \<noteq> i \<Longrightarrow> spool_effect j (detach_spool i e) = spool_effect j e"
  by (simp add: spool_effect_def detach_spool_def)

lemma detach_rem: "j \<noteq> i \<Longrightarrow> rem_of (map (detach_spool i) es) j = rem_of es j"
  by (simp add: rem_of_def detach_spool_effect comp_def)

lemma detach_booked [simp]:
  "booked_quantity (map (detach_spool i) es) k = booked_quantity es k" "booked_value (map (detach_spool i) es) k = booked_value es k"
  by (simp_all add: booked_quantity_def booked_value_def comp_def cong: if_cong)

lemma delete_spool_keeps:
  assumes ok: "stock_ok strict ids s" and x: "row_at sp_id i (spools s) = Some x" "\<not> sp_active x"
  shows "stock_ok strict ids (delete_spool i s)"
proof -
  note r = rows_okD[OF stock_okD(1)[OF ok]]
  let ?t = "delete_spool i s"
  have x': "x \<in> set (spools s)" "sp_id x = i" using row_atD[OF x(1)] by simp_all
  have t: "articles ?t = articles s" "spools ?t = row_drop sp_id i (spools s)" "stock_entries ?t = map (detach_spool i) (stock_entries s)"
      "stock_drawn ?t = stock_drawn s"
    by (simp_all add: delete_spool_def)
  have alloc: "alloc_of (stock_entries ?t) (spools ?t) k = alloc_of (stock_entries s) (spools s) k" for k
  proof -
    let ?f = "\<lambda>z. if sp_article z = k \<and> sp_active z then rem_of (stock_entries s) (sp_id z) else 0"
    have "alloc_of (stock_entries ?t) (spools ?t) k = sum_list (map ?f (row_drop sp_id (sp_id x) (spools s)))"
      unfolding alloc_of_sum t using x'(2) by (intro arg_cong[of _ _ sum_list] map_cong) (auto simp: detach_rem)
    then show ?thesis unfolding alloc_of_sum sum_row_drop[OF r(2) x'(1)] using x(2) by simp
  qed
  have "spools_of ?t k = spools_of s k - {i}" for k by (auto simp: spools_of_def t)
  then have entries: "set (entry_spools (detach_spool i e)) \<subseteq> spools_of ?t (en_article e)" if "e \<in> set (stock_entries s)" for e
    using r(9)[OF that] by auto
  have "sp_id ` set (spools ?t) \<subseteq> sp_id ` set (spools s)" by (auto simp: t)
  then have "rows_ok ids ?t"
    using r(1,2,3,4,6,7,8) entries subset_trans[OF _ r(5)] unfolding rows_ok_def t by (simp add: comp_def image_image)
  then show ?thesis
    using stock_okD(2,3)[OF ok] unfolding stock_ok_def alloc article_ok_def by (auto simp: t spool_ok_def detach_rem)
qed

lemma purge_spool_keeps:
  assumes "purge_spool p i expected s = Inr s'" "stock_ok strict ids s"
  shows "stock_ok strict ids s'"
  using assms by (auto simp: purge_spool_def and_then_Inr_iff intro: delete_spool_keeps)

section \<open>Receipts\<close>

lemma fresh_article:
  assumes ok: "stock_ok strict ids s" and inj: "inj ids"
  shows "alloc_of (stock_entries s) (spools s) (ids (stock_drawn s)) = 0" "booked_quantity (stock_entries s) (ids (stock_drawn s)) = 0"
    "booked_value (stock_entries s) (ids (stock_drawn s)) = 0"
proof -
  note r = rows_okD[OF stock_okD(1)[OF ok]]
  have new: "ids (stock_drawn s) \<notin> ar_id ` set (articles s)" by (rule fresh_stock_id[OF inj r(4)])
  then have x: "sp_article x \<noteq> ids (stock_drawn s)" if "x \<in> set (spools s)" for x using r(7)[OF that] by auto
  have e: "en_article e \<noteq> ids (stock_drawn s)" if "e \<in> set (stock_entries s)" for e using r(8)[OF that] new by auto
  show "alloc_of (stock_entries s) (spools s) (ids (stock_drawn s)) = 0"
    unfolding alloc_of_sum using x by (simp cong: map_cong)
  show "booked_quantity (stock_entries s) (ids (stock_drawn s)) = 0" "booked_value (stock_entries s) (ids (stock_drawn s)) = 0"
    unfolding booked_quantity_def booked_value_def using e by (simp_all cong: map_cong)
qed

lemma create_article_keeps:
  assumes run: "create_article env p d s = (i, s')" and ok: "stock_ok strict (se_id env) s" and inj: "inj (se_id env)"
  shows "stock_ok strict (se_id env) s'" "i \<in> ar_id ` set (articles s')"
proof -
  note r = rows_okD[OF stock_okD(1)[OF ok]]
  let ?ids = "se_id env"
  let ?a = "d\<lparr>ar_id := ?ids (stock_drawn s), ar_active := True, ar_deleted := False, ar_version := 1, ar_quantity := 0,
    ar_value := 0, ar_average := 0, ar_stock_version := 1\<rparr>"
  let ?t = "s\<lparr>stock_drawn := Suc (stock_drawn s), articles := articles s @ [?a]\<rparr>"
  have s': "i = ?ids (stock_drawn s)" "\<exists>action resource j fs. s' = log_stock p action resource j fs ?t"
    using run unfolding create_article_def Let_def draw_stock_id_def by (auto intro!: exI)
  have new: "?ids (stock_drawn s) \<notin> ar_id ` set (articles s)" by (rule fresh_stock_id[OF inj r(4)])
  have "spools_of ?t = spools_of s" by (simp add: spools_of_def fun_eq_iff)
  then have "rows_ok ?ids ?t"
    using stock_okD(1)[OF ok] new unfolding rows_ok_def by (auto simp: lessThan_Suc)
  then have "stock_ok strict ?ids ?t"
    using stock_okD(2,3)[OF ok] fresh_article[OF ok inj] unfolding stock_ok_def by (auto simp: article_ok_def)
  then show "stock_ok strict ?ids s'" "i \<in> ar_id ` set (articles s')" using s' by (auto simp: log_stock_def[of _ _ _ _ _ ?t])
qed

lemma movement_articles:
  "apply_movement env p i expected m s = Inr (e, s') \<Longrightarrow> ar_id ` set (articles s') = ar_id ` set (articles s)"
  by (erule movementE) (simp add: set_map[symmetric] del: set_map)

lemma receive_spoolE:
  assumes run: "receive_spool env p input v a price s = Inr s'"
  obtains x s2 e s3 where "sp_id x = se_id env (stock_drawn s)" "sp_active x" "sp_article x = ar_id a"
    "insert_spool x (s\<lparr>stock_drawn := Suc (stock_drawn s)\<rparr>) = Inr s2"
    "book_purchase env p input v (ar_id a) (rv_size v) (of_units 2 price) (Some (se_id env (stock_drawn s))) s2 = Inr (e, s3)"
    "each (add_tag env (se_id env (stock_drawn s))) (rv_tags v) (bump_spool (se_id env (stock_drawn s)) s3) = Inr s'"
proof -
  let ?j = "se_id env (stock_drawn s)"
  let ?x = "\<lparr>sp_id = ?j, sp_label = next_label (label_prefix env a) s, sp_article = ar_id a, sp_initial = micros (rv_size v),
        sp_tare = rv_tare v, sp_acquired = Some (day_start (rc_at input)), sp_reference = rv_reference v,
        sp_location = rv_location v, sp_notes = None, sp_active = True, sp_archived = None, sp_outcome = None,
        sp_retired = None, sp_version = 1\<rparr>"
  obtain s2 where "insert_spool ?x (s\<lparr>stock_drawn := Suc (stock_drawn s)\<rparr>) = Inr s2"
      "\<exists>e s3. book_purchase env p input v (ar_id a) (rv_size v) (of_units 2 price) (Some ?j) s2 = Inr (e, s3) \<and>
        each (add_tag env ?j) (rv_tags v) (bump_spool ?j s3) = Inr s'"
    using run unfolding receive_spool_def Let_def draw_stock_id_def prod.case by (rule and_thenE) (rule that, auto simp: and_then_Inr_iff)
  then show ?thesis by (elim exE conjE) (rule that[of ?x], auto)
qed

lemma receive_spool_keeps:
  assumes run: "receive_spool env p input v a price s = Inr s'" and inj: "inj (se_id env)"
    and ok: "stock_ok strict (se_id env) s \<and> ar_id a \<in> ar_id ` set (articles s)"
  shows "stock_ok strict (se_id env) s' \<and> ar_id a \<in> ar_id ` set (articles s')"
proof -
  let ?j = "se_id env (stock_drawn s)"
  obtain x s2 e s3 where t: "sp_id x = ?j" "sp_active x" "sp_article x = ar_id a"
      "insert_spool x (s\<lparr>stock_drawn := Suc (stock_drawn s)\<rparr>) = Inr s2"
      "book_purchase env p input v (ar_id a) (rv_size v) (of_units 2 price) (Some ?j) s2 = Inr (e, s3)"
      "each (add_tag env ?j) (rv_tags v) (bump_spool ?j s3) = Inr s'"
    by (rule receive_spoolE[OF run])
  note new = insert_spool_keeps[OF t(4) _ inj t(1,2), simplified]
  have s2: "stock_ok strict (se_id env) s2" "articles s2 = articles s"
    using new(1)[of strict] new(3)[of strict] ok t(3) by simp_all
  have "stock_ok strict (se_id env) s3" "ar_id ` set (articles s3) = ar_id ` set (articles s2)"
    using t(5) s2(1) inj by (auto simp: book_purchase_def intro: movement_keeps dest: movement_articles)
  then show ?thesis
    using add_tags_ok[OF t(6)] add_tags_keep[OF t(6)] ok s2(2) stock_ok_bump by simp
qed

lemma book_delivery_keeps:
  assumes run: "book_delivery env p input v a s = Inr s'" and ok: "stock_ok strict (se_id env) s" and inj: "inj (se_id env)"
    and a: "ar_id a \<in> ar_id ` set (articles s)"
  shows "stock_ok strict (se_id env) s'"
proof (cases "rv_mode v = New_Spools")
  case True
  then have "each (receive_spool env p input v a) (split_cents (to_units 2 (rv_price v)) (rv_count v)) s = Inr s'"
    using run by (simp add: book_delivery_def)
  then have "stock_ok strict (se_id env) s' \<and> ar_id a \<in> ar_id ` set (articles s')"
    by (rule each_keeps[where P = "\<lambda>t. stock_ok strict (se_id env) t \<and> ar_id a \<in> ar_id ` set (articles t)"])
      (use ok a receive_spool_keeps[OF _ inj, of p input v a _ _ _ strict] in blast)+
  then show ?thesis by simp
next
  case False
  then show ?thesis using run ok inj by (auto simp: book_delivery_def book_purchase_def and_then_Inr_iff intro: movement_keeps)
qed

lemma receipt_article_keeps:
  assumes "receipt_article env p input s = Inr (i, s')" "stock_ok strict (se_id env) s" "inj (se_id env)"
  shows "stock_ok strict (se_id env) s'" "i \<in> ar_id ` set (articles s')"
proof -
  have "stock_ok strict (se_id env) s' \<and> i \<in> ar_id ` set (articles s')"
  proof (cases "rc_article input")
    case None
    then obtain d where "create_article env p d s = (i, s')" using assms(1) by (auto simp: receipt_article_def split: option.splits sum.splits)
    then show ?thesis using create_article_keeps assms(2,3) by simp
  next
    case (Some k)
    then obtain a where "row_at ar_id i (articles s) = Some a" "s' = s" using assms(1) by (auto simp: receipt_article_def and_then_Inr_iff)
    then show ?thesis using assms(2) row_atD by fastforce
  qed
  then show "stock_ok strict (se_id env) s'" "i \<in> ar_id ` set (articles s')" by simp_all
qed

lemma receive_stock_keeps:
  assumes run: "receive_stock env p input s = Inr s'" and ok: "stock_ok strict (se_id env) s" and inj: "inj (se_id env)"
  shows "stock_ok strict (se_id env) s'"
proof -
  obtain i s1 a v s2 where t: "receipt_article env p input s = Inr (i, s1)" "row_at ar_id i (articles s1) = Some a"
      "book_delivery env p input v a s1 = Inr s2" "stock_ok strict (se_id env) s' = stock_ok strict (se_id env) s2"
    using run by (auto simp: receive_stock_def and_then_Inr_iff)
  have "stock_ok strict (se_id env) s2"
    by (rule book_delivery_keeps[OF t(3) receipt_article_keeps(1)[OF t(1) ok inj] inj]) (use row_atD[OF t(2)] in force)
  then show ?thesis using t(4) by simp
qed

end
