(* ===== verification/Stock_Reachable.thy ===== *)
theory Stock_Reachable
  imports Stock_History
begin

text \<open>
  The recycle bin of the inventory keeps the invariant. The strict one it keeps when a ledger entry is deleted or
  restored while none of its spools is retired (\<open>entry_open\<close>; the code does not check it, and restoring such a spool
  can book its stock twice). \<open>stock_step\<close> is one accepted operation, \<open>stock_history\<close> any sequence of them from an
  empty inventory, \<open>tidy_history\<close> one in which no step changes the flag of an entry with a retired spool.
\<close>

section \<open>Articles in the bin\<close>

lemma set_article_keeps:
  assumes ok: "stock_ok strict ids s" and a: "row_at ar_id i (articles s) = Some a"
    and b: "ar_id b = i" "ar_quantity b = ar_quantity a" "ar_value b = ar_value a" "ar_average b = ar_average a"
  shows "stock_ok strict ids (set_article b s)"
proof -
  have i: "ar_id a = i" "a \<in> set (articles s)" using row_atD[OF a] by simp_all
  have rows: "rows_ok ids (set_article b s) = rows_ok ids s" by (rule rows_ok_same) (simp_all add: set_article_def)
  have set: "set (articles (set_article b s)) = insert b {x \<in> set (articles s). ar_id x \<noteq> i}"
    using set_row_put[OF i(2), of ar_id b] i(1) b(1) by (simp add: set_article_def)
  have rest: "stock_entries (set_article b s) = stock_entries s" "spools (set_article b s) = spools s"
    by (simp_all add: set_article_def)
  have "article_ok strict (stock_entries s) (spools s) b"
    using stock_okD(2)[OF ok i(2)] b i(1) by (simp add: article_ok_def)
  then show ?thesis using ok unfolding stock_ok_def set rest rows by auto
qed

lemma delete_article_keeps:
  assumes run: "delete_article env p i expected s = Inr s'" and ok: "stock_ok strict ids s"
  shows "stock_ok strict ids s'"
proof -
  obtain a ms where t: "row_at ar_id i (articles s) = Some a"
      "stock_ok strict ids s' = stock_ok strict ids (set_article (a\<lparr>ar_deleted := True, ar_version := ar_version a + 1\<rparr>) (s\<lparr>mounts := ms\<rparr>))"
    using run by (auto simp: delete_article_def and_then_Inr_iff Let_def)
  show ?thesis unfolding t(2) by (rule set_article_keeps[where i = i and a = a]) (use t(1) row_atD[OF t(1)] ok in simp_all)
qed

lemma restore_article_keeps:
  assumes run: "restore_article p i expected s = Inr s'" and ok: "stock_ok strict ids s"
  shows "stock_ok strict ids s'"
proof -
  obtain a where t: "row_at ar_id i (articles s) = Some a"
      "stock_ok strict ids s' = stock_ok strict ids (set_article (a\<lparr>ar_deleted := False, ar_version := ar_version a + 1\<rparr>) s)"
    using run by (auto simp: restore_article_def lock_binned_def and_then_Inr_iff Let_def)
  show ?thesis unfolding t(2) by (rule set_article_keeps[where i = i and a = a]) (use t(1) row_atD[OF t(1)] ok in simp_all)
qed

text \<open>An article takes its spools and its entries with it.\<close>

lemma drop_article_simps [simp]:
  "articles (drop_article i s) = row_drop ar_id i (articles s)" "spools (drop_article i s) = filter (\<lambda>x. sp_article x \<noteq> i) (spools s)"
  "stock_entries (drop_article i s) = filter (\<lambda>e. en_article e \<noteq> i) (stock_entries s)" "stock_drawn (drop_article i s) = stock_drawn s"
  by (simp_all add: drop_article_def Let_def)

lemma rem_of_filter:
  assumes "\<And>e. e \<in> set es \<Longrightarrow> \<not> P e \<Longrightarrow> j \<notin> set (entry_spools e)"
  shows "rem_of (filter P es) j = rem_of es j"
proof -
  have "spool_effect j e = 0" if "e \<in> set es" "\<not> P e" for e
    using assms[OF that] by (auto simp: spool_effect_def entry_spools_def)
  then show ?thesis unfolding rem_of_def by (induction es) auto
qed

lemma alloc_of_cong:
  assumes "\<And>x. x \<in> set xs \<Longrightarrow> sp_article x = i \<Longrightarrow> rem_of es' (sp_id x) = rem_of es (sp_id x)"
  shows "alloc_of es' xs i = alloc_of es xs i"
  unfolding alloc_of_sum using assms by (intro arg_cong[of _ _ sum_list] map_cong) auto

lemma alloc_of_filter: "k \<noteq> i \<Longrightarrow> alloc_of es (filter (\<lambda>x. sp_article x \<noteq> i) xs) k = alloc_of es xs k"
  by (induction xs) auto

lemma booked_filter:
  "k \<noteq> i \<Longrightarrow> booked_quantity (filter (\<lambda>e. en_article e \<noteq> i) es) k = booked_quantity es k"
  "k \<noteq> i \<Longrightarrow> booked_value (filter (\<lambda>e. en_article e \<noteq> i) es) k = booked_value es k"
  unfolding booked_quantity_def booked_value_def by (induction es) auto

lemma drop_article_keeps:
  assumes ok: "stock_ok strict ids s"
  shows "stock_ok strict ids (drop_article i s)"
proof -
  note r = rows_okD[OF stock_okD(1)[OF ok]]
  let ?t = "drop_article i s"
  have rem: "rem_of (stock_entries ?t) (sp_id x) = rem_of (stock_entries s) (sp_id x)" if "x \<in> set (spools s)" "sp_article x \<noteq> i" for x
  proof -
    have "sp_id x \<notin> set (entry_spools e)" if e: "e \<in> set (stock_entries s)" "\<not> en_article e \<noteq> i" for e
    proof
      assume "sp_id x \<in> set (entry_spools e)"
      then obtain y where "y \<in> set (spools s)" "sp_id y = sp_id x" "sp_article y = i"
        using r(9)[OF e(1)] e(2) by (auto simp: spools_of_def)
      then show False using key_inj[OF r(2) \<open>x \<in> set (spools s)\<close>, of y] \<open>sp_article x \<noteq> i\<close> by auto
    qed
    then show ?thesis using rem_of_filter[of "stock_entries s" "\<lambda>e. en_article e \<noteq> i" "sp_id x"] by simp
  qed
  have alloc: "alloc_of (stock_entries ?t) (spools ?t) k = alloc_of (stock_entries s) (spools s) k" if "k \<noteq> i" for k
    using alloc_of_cong[of "spools ?t" k "stock_entries ?t" "stock_entries s"] rem that by (simp add: alloc_of_filter)
  have "article_ok strict (stock_entries ?t) (spools ?t) a" if "a \<in> set (articles ?t)" for a
    using stock_okD(2)[OF ok, of a] that alloc booked_filter[of "ar_id a" i] by (simp add: article_ok_def)
  moreover have "spool_ok strict (stock_entries ?t) x" if "x \<in> set (spools ?t)" for x
    using stock_okD(3)[OF ok, of x] that rem by (simp add: spool_ok_def)
  moreover have "rows_ok ids ?t"
  proof -
    have of_k: "spools_of ?t k = spools_of s k" if "k \<noteq> i" for k using that by (auto simp: spools_of_def)
    have ars: "ar_id ` set (articles ?t) = ar_id ` set (articles s) - {i}" by auto
    have sub: "sp_id ` set (spools ?t) \<subseteq> sp_id ` set (spools s)" "en_id ` set (stock_entries ?t) \<subseteq> en_id ` set (stock_entries s)" by auto
    have "sp_article x \<in> ar_id ` set (articles ?t)" if "x \<in> set (spools ?t)" for x
      unfolding ars using r(7)[of x] that by simp
    moreover have "en_article e \<in> ar_id ` set (articles ?t) \<and> set (entry_spools e) \<subseteq> spools_of ?t (en_article e)"
      if "e \<in> set (stock_entries ?t)" for e
      unfolding ars using r(8,9)[of e] that of_k[of "en_article e"] by simp
    moreover have "ar_id ` set (articles ?t) \<union> sp_id ` set (spools ?t) \<union> en_id ` set (stock_entries ?t) \<subseteq> ids ` {..<stock_drawn ?t}"
      unfolding ars using r(4) subset_trans[OF sub(1) r(5)] subset_trans[OF sub(2) r(6)] by (simp del: drop_article_simps(1,2,3)) blast
    ultimately show ?thesis using r(1,2,3) unfolding rows_ok_def by (simp add: distinct_filter_map)
  qed
  ultimately show ?thesis by (simp add: stock_ok_def)
qed

lemma purge_article_keeps: "purge_article p i expected s = Inr s' \<Longrightarrow> stock_ok strict ids s \<Longrightarrow> stock_ok strict ids s'"
  by (auto simp: purge_article_def and_then_Inr_iff intro: drop_article_keeps)

lemma remove_unused_article_keeps: "remove_unused_article p i expected elsewhere s = Inr s' \<Longrightarrow> stock_ok strict ids s \<Longrightarrow> stock_ok strict ids s'"
  by (auto simp: remove_unused_article_def and_then_Inr_iff intro: drop_article_keeps)

section \<open>Ledger entries in the bin\<close>

text \<open>No spool of the entry is retired.\<close>

definition entry_open :: "stock \<Rightarrow> string \<Rightarrow> bool" where
  "entry_open s i \<longleftrightarrow> list_all (\<lambda>e. en_id e = i \<longrightarrow>
     list_all (\<lambda>j. list_ex (\<lambda>x. sp_id x = j \<and> sp_active x) (spools s)) (entry_spools e)) (stock_entries s)"

lemma check_each_remaining:
  assumes "each check_remaining js s = Inr s'"
  shows "s' = fold bump_spool js s \<and> (\<forall>j\<in>set js. 0 \<le> rem_of (stock_entries s) j)"
  using assms
proof (induction js arbitrary: s)
  case (Cons j js)
  then obtain t where "check_remaining j s = Inr t" "each check_remaining js t = Inr s'" by (auto simp: and_then_Inr_iff)
  then have "0 \<le> rem_of (stock_entries s) j" "each check_remaining js (bump_spool j s) = Inr s'"
    by (auto simp: check_remaining_def[of j s] spool_remaining_rem)
  then show ?case using Cons.IH[of "bump_spool j s"] by simp
qed simp

lemma fold_bump_spools:
  assumes "distinct (map sp_id (spools s))"
  shows "alloc_of es (spools (fold bump_spool js s)) i = alloc_of es (spools s) i \<and> stock_entries (fold bump_spool js s) = stock_entries s"
  using assms
proof (induction js arbitrary: s)
  case (Cons j js)
  have "distinct (map sp_id (spools (bump_spool j s)))" using Cons.prems by simp
  then show ?case using Cons.IH same_spools_alloc[OF same_spools_bump[OF Cons.prems]] by simp
qed simp

lemma fold_bump_entries [simp]: "stock_entries (fold bump_spool js s) = stock_entries s"
  by (induction js arbitrary: s) simp_all

lemma settle_toggled_Inr: "settle_toggled v = Inr w \<longleftrightarrow> 0 \<le> v \<and> w = v"
proof (cases "v < 0")
  case True
  then have "micro v \<le> micro (- 1)" by (subst of_units_le_iff) simp
  also have "micro (- 1) = - (1 / 10 ^ 6)" by (simp add: of_units_def)
  finally have "\<not> \<bar>micro v\<bar> < 1 / 10 ^ 6" by linarith
  then show ?thesis using True by (simp add: settle_toggled_def)
qed (auto simp: settle_toggled_def)

text \<open>What the flag of one entry changes in the sums over the ledger.\<close>

abbreviation flipped :: "stock_entry \<Rightarrow> bool \<Rightarrow> stock_entry list \<Rightarrow> stock_entry list" where
  "flipped e back es \<equiv> row_put en_id (e\<lparr>en_deleted := \<not> back\<rparr>) es"

lemma flipped_rem:
  assumes "distinct (map en_id es)" "e \<in> set es" "j \<notin> set (entry_spools e)"
  shows "rem_of (flipped e back es) j = rem_of es j"
  unfolding rem_of_def using sum_row_put[OF assms(1,2), of "e\<lparr>en_deleted := \<not> back\<rparr>" "spool_effect j"] assms(3)
  by (auto simp: spool_effect_def entry_spools_def)

lemma flipped_booked:
  assumes "distinct (map en_id es)" "e \<in> set es" "en_deleted e = back"
  shows "booked_quantity (flipped e back es) k =
      booked_quantity es k + (if k = en_article e then en_quantity e * (if back then 1 else - 1) else 0)"
    "booked_value (flipped e back es) k =
      booked_value es k + (if k = en_article e then en_value e * (if back then 1 else - 1) else 0)"
  unfolding booked_quantity_def booked_value_def
  using assms(3) by (simp_all add: sum_row_put[OF assms(1,2)])

lemma foreign_spool:
  assumes ok: "stock_ok strict ids s" and "e \<in> set (stock_entries s)" "x \<in> set (spools s)" "sp_article x \<noteq> en_article e"
  shows "sp_id x \<notin> set (entry_spools e)"
proof
  note r = rows_okD[OF stock_okD(1)[OF ok]]
  assume "sp_id x \<in> set (entry_spools e)"
  then obtain y where "y \<in> set (spools s)" "sp_id y = sp_id x" "sp_article y = en_article e"
    using r(9)[OF assms(2)] by (auto simp: spools_of_def)
  then show False using key_inj[OF r(2) assms(3), of y] assms(4) by auto
qed

lemma toggleE:
  assumes "toggle_entry e expected back s = Inr s'"
  obtains a q v s3 where "row_at ar_id (en_article e) (articles s) = Some a" "q = ar_quantity a + en_quantity e * (if back then 1 else - 1)" "0 \<le> q"
    "v = ar_value a + en_value e * (if back then 1 else - 1)" "0 \<le> v"
    "each check_remaining (entry_spools e) ((update_balance a (micro q) (micro v) (average_cost a (micro q) (micro v)) s)
       \<lparr>stock_entries := row_put en_id (e\<lparr>en_deleted := \<not> back\<rparr>) (stock_entries s)\<rparr>) = Inr s'"
    "allocated_quantity s' (en_article e) \<le> q"
  using assms unfolding toggle_entry_def Let_def
  by (elim and_thenE ensureE) (rule that, auto simp: settle_toggled_Inr)

lemma toggle_keeps:
  assumes run: "toggle_entry e expected back s = Inr s'" and ok: "stock_ok strict ids s"
    and e: "e \<in> set (stock_entries s)" "en_deleted e = back" and op: "strict \<Longrightarrow> entry_open s (en_id e)"
  shows "stock_ok strict ids s'"
proof -
  note r = rows_okD[OF stock_okD(1)[OF ok]]
  let ?es = "row_put en_id (e\<lparr>en_deleted := \<not> back\<rparr>) (stock_entries s)" and ?i = "en_article e"
  obtain a q v where t: "row_at ar_id ?i (articles s) = Some a" "q = ar_quantity a + en_quantity e * (if back then 1 else - 1)" "0 \<le> q"
      "v = ar_value a + en_value e * (if back then 1 else - 1)" "0 \<le> v"
      "each check_remaining (entry_spools e) ((update_balance a (micro q) (micro v) (average_cost a (micro q) (micro v)) s)
        \<lparr>stock_entries := ?es\<rparr>) = Inr s'" "allocated_quantity s' ?i \<le> q"
    by (rule toggleE[OF run])
  let ?b = "a\<lparr>ar_quantity := q, ar_value := v, ar_average := micros (average_cost a (micro q) (micro v)), ar_stock_version := ar_stock_version a + 1\<rparr>"
  let ?t = "s\<lparr>articles := row_put ar_id ?b (articles s), stock_entries := ?es\<rparr>"
  have a: "ar_id a = ?i" "a \<in> set (articles s)" using row_atD[OF t(1)] by simp_all
  have s': "s' = fold bump_spool (entry_spools e) ?t" and rem: "\<forall>j\<in>set (entry_spools e). 0 \<le> rem_of ?es j"
    using check_each_remaining[OF t(6)] by (simp_all add: update_balance_def)
  have alloc_i: "alloc_of ?es (spools s) ?i \<le> q"
    using t(7) fold_bump_spools[of ?t ?es "entry_spools e" ?i] fold_bump_spools[of ?t "[]" "entry_spools e" ?i] r(2) by (simp add: s' allocated_alloc)
  have rem_other: "rem_of ?es (sp_id x) = rem_of (stock_entries s) (sp_id x)" if "x \<in> set (spools s)" "sp_article x \<noteq> ?i" for x
    using flipped_rem[OF r(3) e(1)] foreign_spool[OF ok e(1) that] by simp
  have alloc: "alloc_of ?es (spools s) k = alloc_of (stock_entries s) (spools s) k" if "k \<noteq> ?i" for k
    using that rem_other by (intro alloc_of_cong) auto
  have set: "set (row_put ar_id ?b (articles s)) = insert ?b {x \<in> set (articles s). ar_id x \<noteq> ?i}"
    using set_row_put[OF a(2), of ar_id ?b] a(1) by simp
  have "article_ok strict ?es (spools s) ?b"
    using stock_okD(2)[OF ok a(2)] flipped_booked[OF r(3) e, of ?i] t(2,3,4,5) alloc_i a(1)
    by (auto simp: article_ok_def intro!: to_units_nonneg average_cost_nonneg)
  moreover have "article_ok strict ?es (spools s) x" if "x \<in> set (articles s)" "ar_id x \<noteq> ?i" for x
    using stock_okD(2)[OF ok that(1)] flipped_booked[OF r(3) e, of "ar_id x"] that(2) alloc by (simp add: article_ok_def)
  ultimately have arts: "\<forall>x\<in>set (articles ?t). article_ok strict ?es (spools s) x" by (simp add: set)
  have "spool_ok strict ?es x" if "x \<in> set (spools s)" for x
  proof (cases "sp_id x \<in> set (entry_spools e)")
    case True
    have "sp_active x" if hard: strict
    proof -
      obtain y where "y \<in> set (spools s)" "sp_id y = sp_id x" "sp_active y"
        using op[OF hard] e(1) True by (auto simp: entry_open_def list_all_iff list_ex_iff)
      then show ?thesis using key_inj[OF r(2) \<open>x \<in> set (spools s)\<close>, of y] by auto
    qed
    then show ?thesis using rem True by (auto simp: spool_ok_def)
  next
    case False
    then show ?thesis using stock_okD(3)[OF ok that] flipped_rem[OF r(3) e(1)] by (simp add: spool_ok_def)
  qed
  moreover have "rows_ok ids ?t"
  proof -
    have same: "map (\<lambda>e. (en_article e, entry_spools e)) ?es = map (\<lambda>e. (en_article e, entry_spools e)) (stock_entries s)"
      by (rule map_row_put) (use key_inj[OF r(3) e(1)] in \<open>auto simp: entry_spools_def\<close>)
    have "\<forall>x\<in>set ?es. en_article x \<in> ar_id ` set (articles s) \<and> set (entry_spools x) \<subseteq> spools_of s (en_article x)"
    proof
      fix x assume "x \<in> set ?es"
      then have "(en_article x, entry_spools x) \<in> set (map (\<lambda>e. (en_article e, entry_spools e)) (stock_entries s))"
        unfolding same[symmetric] by simp
      then show "en_article x \<in> ar_id ` set (articles s) \<and> set (entry_spools x) \<subseteq> spools_of s (en_article x)"
        using r(8,9) by (fastforce dest: subsetD)
    qed
    moreover have "ar_id ` set (articles ?t) = ar_id ` set (articles s)" "en_id ` set ?es = en_id ` set (stock_entries s)"
      by (simp_all del: set_map add: set_map[symmetric])
    moreover have "spools_of ?t = spools_of s" by (simp add: spools_of_def fun_eq_iff)
    ultimately show ?thesis using stock_okD(1)[OF ok] unfolding rows_ok_def by simp
  qed
  ultimately have "stock_ok strict ids ?t" using arts by (simp add: stock_ok_def)
  then show ?thesis using bump_spools_keep s' by simp
qed

lemma find_entryD: "find_entry s i = Inr e \<Longrightarrow> e \<in> set (stock_entries s) \<and> en_id e = i"
  by (auto simp: find_entry_def dest: row_atD)

lemma delete_entry_keeps:
  assumes run: "delete_entry p i expected s = Inr s'" and ok: "stock_ok strict ids s" and op: "strict \<Longrightarrow> entry_open s i"
  shows "stock_ok strict ids s'"
proof -
  obtain e s1 where t: "find_entry s i = Inr e" "\<not> en_deleted e" "toggle_entry e (Some expected) False s = Inr s1" "stock_ok strict ids s' = stock_ok strict ids s1"
    using run by (auto simp: delete_entry_def and_then_Inr_iff)
  show ?thesis unfolding t(4) by (rule toggle_keeps[OF t(3) ok]) (use find_entryD[OF t(1)] t(2) op in auto)
qed

lemma restore_entry_keeps:
  assumes run: "restore_entry p i s = Inr s'" and ok: "stock_ok strict ids s" and op: "strict \<Longrightarrow> entry_open s i"
  shows "stock_ok strict ids s'"
proof -
  obtain e s1 where t: "find_entry s i = Inr e" "en_deleted e" "toggle_entry e None True s = Inr s1" "stock_ok strict ids s' = stock_ok strict ids s1"
    using run by (auto simp: restore_entry_def and_then_Inr_iff)
  show ?thesis unfolding t(4) by (rule toggle_keeps[OF t(3) ok]) (use find_entryD[OF t(1)] t(2) op in auto)
qed

text \<open>An entry that is purged was deleted before, so it counted for nothing.\<close>

lemma purge_entry_keeps:
  assumes run: "purge_entry p i s = Inr s'" and ok: "stock_ok strict ids s"
  shows "stock_ok strict ids s'"
proof -
  note r = rows_okD[OF stock_okD(1)[OF ok]]
  let ?es = "row_drop en_id i (stock_entries s)"
  obtain e where t: "find_entry s i = Inr e" "en_deleted e" "stock_ok strict ids s' = stock_ok strict ids (s\<lparr>stock_entries := ?es\<rparr>)"
    using run by (auto simp: purge_entry_def and_then_Inr_iff)
  have e: "e \<in> set (stock_entries s)" "en_id e = i" using find_entryD[OF t(1)] by simp_all
  have sums: "rem_of ?es j = rem_of (stock_entries s) j" "booked_quantity ?es k = booked_quantity (stock_entries s) k"
      "booked_value ?es k = booked_value (stock_entries s) k" for j k
    unfolding rem_of_def booked_quantity_def booked_value_def e(2)[symmetric] sum_row_drop[OF r(3) e(1)]
    using t(2) by (simp_all add: spool_effect_def)
  have "alloc_of ?es (spools s) k = alloc_of (stock_entries s) (spools s) k" for k by (rule alloc_of_cong) (rule sums)
  moreover have "en_id ` set ?es \<subseteq> ids ` {..<stock_drawn s}" using r(6) by auto
  then have "rows_ok ids (s\<lparr>stock_entries := ?es\<rparr>)"
    using stock_okD(1)[OF ok] unfolding rows_ok_def by (simp add: spools_of_def)
  ultimately show ?thesis unfolding t(3) using stock_okD(2,3)[OF ok] unfolding stock_ok_def by (simp add: article_ok_def spool_ok_def sums)
qed

section \<open>Histories\<close>

definition no_stock :: stock where
  "no_stock = \<lparr>articles = [], spools = [], spool_tags = [], mounts = [], stock_entries = [], stock_drawn = 0, stock_audit = []\<rparr>"

text \<open>
  One accepted operation; clock, decimals and case mappings may differ from one to the next, the identifiers are one
  supply. The printing component mounts and unmounts spools: whatever it writes, its foreign key names existing spools.
\<close>

inductive stock_step :: "(nat \<Rightarrow> string) \<Rightarrow> stock \<Rightarrow> stock \<Rightarrow> bool" for ids where
  article_created: "create_article env p d s = (i, s') \<Longrightarrow> se_id env = ids \<Longrightarrow> stock_step ids s s'"
| purchased: "add_purchase env p i v q paid t supplier ref note s = Inr (e, s') \<Longrightarrow> se_id env = ids \<Longrightarrow> stock_step ids s s'"
| consumed: "record_consumption env p i v q t disposal reason note s = Inr (e, s') \<Longrightarrow> se_id env = ids \<Longrightarrow> stock_step ids s s'"
| corrected: "correct_stock env p i v physical given t reason note s = Inr (e, s') \<Longrightarrow> se_id env = ids \<Longrightarrow> stock_step ids s s'"
| emptied: "mark_empty env p i v t note s = Inr (e, s') \<Longrightarrow> se_id env = ids \<Longrightarrow> stock_step ids s s'"
| sold: "sell_from env p sales s = Inr s' \<Longrightarrow> se_id env = ids \<Longrightarrow> stock_step ids s s'"
| restocked: "restock_order_sale env p item s = Inr s' \<Longrightarrow> se_id env = ids \<Longrightarrow> stock_step ids s s'"
| received: "receive_stock env p r s = Inr s' \<Longrightarrow> se_id env = ids \<Longrightarrow> stock_step ids s s'"
| spool_created: "create_spool env p d s = Inr s' \<Longrightarrow> se_id env = ids \<Longrightarrow> stock_step ids s s'"
| spool_updated: "update_spool env p j u s = Inr s' \<Longrightarrow> se_id env = ids \<Longrightarrow> stock_step ids s s'"
| tag_added: "add_spool_tag env p j k raw s = Inr s' \<Longrightarrow> se_id env = ids \<Longrightarrow> stock_step ids s s'"
| tag_deleted: "delete_spool_tag p j g s = Inr s' \<Longrightarrow> stock_step ids s s'"
| transferred: "transfer_stock env p i v src dst q t note s = Inr (e, s') \<Longrightarrow> se_id env = ids \<Longrightarrow> stock_step ids s s'"
| spool_consumed: "consume_spool env p j v w q t disposal reason note s = Inr (e, s') \<Longrightarrow> se_id env = ids \<Longrightarrow> stock_step ids s s'"
| spool_corrected: "correct_spool env p j v w physical given t reason note s = Inr (e, s') \<Longrightarrow> se_id env = ids \<Longrightarrow> stock_step ids s s'"
| spool_retired: "retire_spool env p j w outcome s = Inr s' \<Longrightarrow> se_id env = ids \<Longrightarrow> stock_step ids s s'"
| spool_restored: "restore_spool env p j w s = Inr s' \<Longrightarrow> se_id env = ids \<Longrightarrow> stock_step ids s s'"
| spool_purged: "purge_spool p j w s = Inr s' \<Longrightarrow> stock_step ids s s'"
| article_deleted: "delete_article env p i v s = Inr s' \<Longrightarrow> se_id env = ids \<Longrightarrow> stock_step ids s s'"
| article_restored: "restore_article p i v s = Inr s' \<Longrightarrow> stock_step ids s s'"
| article_purged: "purge_article p i v s = Inr s' \<Longrightarrow> stock_step ids s s'"
| article_removed: "remove_unused_article p i v elsewhere s = Inr s' \<Longrightarrow> stock_step ids s s'"
| entry_deleted: "delete_entry p i v s = Inr s' \<Longrightarrow> stock_step ids s s'"
| entry_restored: "restore_entry p i s = Inr s' \<Longrightarrow> stock_step ids s s'"
| entry_purged: "purge_entry p i s = Inr s' \<Longrightarrow> stock_step ids s s'"
| printer_mounts: "\<forall>m\<in>set ms. \<exists>x\<in>set (spools s). sp_id x = mo_spool m \<Longrightarrow> stock_step ids s (s\<lparr>mounts := ms\<rparr>)"

inductive stock_history :: "(nat \<Rightarrow> string) \<Rightarrow> stock \<Rightarrow> bool" for ids where
  start: "stock_history ids no_stock"
| next_step: "stock_history ids s \<Longrightarrow> stock_step ids s s' \<Longrightarrow> stock_history ids s'"

lemmas operations_keep = add_purchase_keeps record_consumption_keeps correct_stock_keeps mark_empty_keeps sell_from_keeps
  restock_order_sale_keeps receive_stock_keeps create_spool_keeps transfer_stock_keeps consume_spool_keeps correct_spool_keeps
  retire_spool_keeps restore_spool_keeps

lemmas unbooked_keep = update_spool_keeps add_spool_tag_keeps delete_spool_tag_keeps purge_spool_keeps delete_article_keeps
  restore_article_keeps purge_article_keeps remove_unused_article_keeps purge_entry_keeps

text \<open>No entry with a retired spool changes its flag.\<close>

definition tidy :: "stock \<Rightarrow> stock \<Rightarrow> bool" where
  "tidy s s' \<longleftrightarrow> (\<forall>e\<in>set (stock_entries s). \<forall>e'\<in>set (stock_entries s').
     en_id e' = en_id e \<and> en_deleted e' \<noteq> en_deleted e \<longrightarrow> entry_open s (en_id e))"

inductive tidy_history :: "(nat \<Rightarrow> string) \<Rightarrow> stock \<Rightarrow> bool" for ids where
  tidy_start: "tidy_history ids no_stock"
| tidy_next: "tidy_history ids s \<Longrightarrow> stock_step ids s s' \<Longrightarrow> tidy s s' \<Longrightarrow> tidy_history ids s'"

lemma toggle_flips:
  assumes "toggle_entry e expected back s = Inr s'" "e \<in> set (stock_entries s)"
  shows "e\<lparr>en_deleted := \<not> back\<rparr> \<in> set (stock_entries s')"
proof -
  obtain a n v where "each check_remaining (entry_spools e) ((update_balance a (micro n) (micro v) (average_cost a (micro n) (micro v)) s)
       \<lparr>stock_entries := row_put en_id (e\<lparr>en_deleted := \<not> back\<rparr>) (stock_entries s)\<rparr>) = Inr s'"
    by (rule toggleE[OF assms(1)])
  from check_each_remaining[OF this] have "stock_entries s' = row_put en_id (e\<lparr>en_deleted := \<not> back\<rparr>) (stock_entries s)"
    by (simp add: fold_bump_entries)
  then show ?thesis using set_row_put[OF assms(2), of en_id "e\<lparr>en_deleted := \<not> back\<rparr>"] by simp
qed

lemma tidy_flip:
  assumes "tidy s s'" "toggle_entry e expected back s = Inr t" "stock_entries s' = stock_entries t" "e \<in> set (stock_entries s)" "en_deleted e = back"
  shows "entry_open s (en_id e)"
  using assms(1) toggle_flips[OF assms(2,4)] assms(3-5) unfolding tidy_def by fastforce

lemma tidy_delete:
  assumes "tidy s s'" "delete_entry p i v s = Inr s'"
  shows "entry_open s i"
  using assms(2) find_entryD[of s i] tidy_flip[OF assms(1)] by (auto simp: delete_entry_def and_then_Inr_iff log_stock_def)

lemma tidy_restore:
  assumes "tidy s s'" "restore_entry p i s = Inr s'"
  shows "entry_open s i"
  using assms(2) find_entryD[of s i] tidy_flip[OF assms(1)] by (auto simp: restore_entry_def and_then_Inr_iff log_stock_def)

lemma step_keeps:
  assumes "stock_step ids s s'" "stock_ok strict ids s" "inj ids" "strict \<Longrightarrow> tidy s s'"
  shows "stock_ok strict ids s'"
  using assms(1)
proof cases
  case article_created
  then show ?thesis using create_article_keeps(1) assms(2,3) by blast
next
  case (entry_deleted p i v)
  then show ?thesis using delete_entry_keeps[OF entry_deleted assms(2)] tidy_delete[OF assms(4)] by blast
next
  case (entry_restored p i)
  then show ?thesis using restore_entry_keeps[OF entry_restored assms(2)] tidy_restore[OF assms(4)] by blast
qed (use assms(2,3) in \<open>auto dest: operations_keep unbooked_keep\<close>)

lemma no_stock_ok: "stock_ok strict ids no_stock"
  by (simp add: stock_ok_def rows_ok_def no_stock_def)

lemma history_ok:
  assumes "stock_history ids s" "inj ids"
  shows "stock_ok False ids s"
  using assms(1) by induction (simp_all add: no_stock_ok step_keeps[OF _ _ assms(2)])

lemma tidy_history_ok:
  assumes "tidy_history ids s" "inj ids"
  shows "stock_ok True ids s"
  using assms(1) by induction (simp_all add: no_stock_ok step_keeps[OF _ _ assms(2)])

end
