(* ===== verification/Stock_Links.thy ===== *)
theory Stock_Links
  imports Stock_Reachable
begin

text \<open>
  The rows beside the ledger: identifiers and mounts name spools that exist, identifiers have keys of their own, and no
  two spools in use have the same label. Every operation of the inventory keeps this, whatever the recycle bin does.
\<close>

definition labels_apart :: "spool list \<Rightarrow> bool" where
  "labels_apart xs \<longleftrightarrow>
     (\<forall>x\<in>set xs. \<forall>y\<in>set xs. sp_active x \<and> sp_active y \<and> sp_label x = sp_label y \<longrightarrow> sp_id x = sp_id y)"

definition linked :: "(nat \<Rightarrow> string) \<Rightarrow> stock \<Rightarrow> bool" where
  "linked ids s \<longleftrightarrow>
     distinct (map sp_id (spools s)) \<and> distinct (map tg_id (spool_tags s)) \<and>
     sp_id ` set (spools s) \<subseteq> ids ` {..<stock_drawn s} \<and> tg_id ` set (spool_tags s) \<subseteq> ids ` {..<stock_drawn s} \<and>
     tg_spool ` set (spool_tags s) \<subseteq> sp_id ` set (spools s) \<and> mo_spool ` set (mounts s) \<subseteq> sp_id ` set (spools s) \<and>
     labels_apart (spools s)"

lemma linkedD:
  assumes "linked ids s"
  shows "distinct (map sp_id (spools s))" "distinct (map tg_id (spool_tags s))" "sp_id ` set (spools s) \<subseteq> ids ` {..<stock_drawn s}"
    "tg_id ` set (spool_tags s) \<subseteq> ids ` {..<stock_drawn s}" "tg_spool ` set (spool_tags s) \<subseteq> sp_id ` set (spools s)"
    "mo_spool ` set (mounts s) \<subseteq> sp_id ` set (spools s)" "labels_apart (spools s)"
  using assms by (simp_all add: linked_def)

lemma linkedI:
  assumes "distinct (map sp_id (spools s))" "distinct (map tg_id (spool_tags s))" "sp_id ` set (spools s) \<subseteq> ids ` {..<stock_drawn s}"
    "tg_id ` set (spool_tags s) \<subseteq> ids ` {..<stock_drawn s}" "tg_spool ` set (spool_tags s) \<subseteq> sp_id ` set (spools s)"
    "mo_spool ` set (mounts s) \<subseteq> sp_id ` set (spools s)" "labels_apart (spools s)"
  shows "linked ids s"
  using assms by (simp add: linked_def)

text \<open>What keeps the keys, the labels and the references keeps the invariant.\<close>

definition spool_link :: "spool \<Rightarrow> string \<times> string \<times> bool" where
  "spool_link x = (sp_id x, sp_label x, sp_active x)"

definition tag_link :: "tag_row \<Rightarrow> string \<times> string" where
  "tag_link g = (tg_id g, tg_spool g)"

definition carried :: "stock \<Rightarrow> stock \<Rightarrow> bool" where
  "carried s t \<longleftrightarrow> map spool_link (spools t) = map spool_link (spools s) \<and> map tag_link (spool_tags t) = map tag_link (spool_tags s) \<and>
     map mo_spool (mounts t) = map mo_spool (mounts s) \<and> stock_drawn s \<le> stock_drawn t"

lemma labels_apart_links:
  "labels_apart xs \<longleftrightarrow> (\<forall>p\<in>set (map spool_link xs). \<forall>q\<in>set (map spool_link xs).
     snd (snd p) \<and> snd (snd q) \<and> fst (snd p) = fst (snd q) \<longrightarrow> fst p = fst q)"
  by (simp add: labels_apart_def spool_link_def)

lemma tag_columns:
  assumes "map tag_link gs = map tag_link hs"
  shows "map tg_id gs = map tg_id hs" "map tg_spool gs = map tg_spool hs"
  using arg_cong[OF assms, of "map fst"] arg_cong[OF assms, of "map snd"] by (simp_all add: tag_link_def comp_def)

lemma spool_keys:
  assumes "map spool_link xs = map spool_link ys"
  shows "map sp_id xs = map sp_id ys"
  using arg_cong[OF assms, of "map fst"] by (simp add: spool_link_def comp_def)

lemma linked_carried:
  assumes ok: "linked ids s" and c: "carried s t"
  shows "linked ids t"
proof -
  note l = linkedD[OF ok]
  have grow: "ids ` {..<stock_drawn s} \<subseteq> ids ` {..<stock_drawn t}" using c by (intro image_mono) (simp add: carried_def)
  have sp: "map sp_id (spools t) = map sp_id (spools s)"
    using c unfolding carried_def by (intro spool_keys) simp
  have tg: "map tg_id (spool_tags t) = map tg_id (spool_tags s)" "map tg_spool (spool_tags t) = map tg_spool (spool_tags s)"
    using tag_columns[of "spool_tags t" "spool_tags s"] c unfolding carried_def by blast+
  have mo: "map mo_spool (mounts t) = map mo_spool (mounts s)" using c by (simp add: carried_def)
  have img: "sp_id ` set (spools t) = sp_id ` set (spools s)" "tg_id ` set (spool_tags t) = tg_id ` set (spool_tags s)"
      "tg_spool ` set (spool_tags t) = tg_spool ` set (spool_tags s)" "mo_spool ` set (mounts t) = mo_spool ` set (mounts s)"
    using sp tg mo by (simp_all only: set_map[symmetric])
  have "labels_apart (spools t)" using l(7) c unfolding labels_apart_links carried_def by metis
  then show ?thesis
    using l(1,2,5,6) subset_trans[OF l(3) grow] subset_trans[OF l(4) grow] by (intro linkedI) (simp_all only: sp tg img)
qed

lemma linked_same:
  assumes "spools t = spools s" "spool_tags t = spool_tags s" "mounts t = mounts s" "stock_drawn t = stock_drawn s"
  shows "linked ids t = linked ids s"
  using assms by (simp add: linked_def)

lemma linked_unread [simp]:
  "linked ids (s\<lparr>articles := xs\<rparr>) = linked ids s" "linked ids (s\<lparr>stock_entries := es\<rparr>) = linked ids s"
  "linked ids (s\<lparr>stock_audit := ys\<rparr>) = linked ids s" "linked ids (update_balance a q v r s) = linked ids s"
  "linked ids (log_stock p action resource i fs s) = linked ids s" "linked ids (set_article a s) = linked ids s"
  by (rule linked_same; simp add: update_balance_def log_stock_def set_article_def)+

lemma linked_more: "linked ids s \<Longrightarrow> stock_drawn s \<le> n \<Longrightarrow> linked ids (s\<lparr>stock_drawn := n\<rparr>)"
  by (erule linked_carried) (simp add: carried_def)

text \<open>A spool that is written back.\<close>

lemma labels_apart_put:
  assumes ok: "labels_apart xs" and x: "x \<in> set xs" "sp_id y = sp_id x"
    and label: "sp_active y \<Longrightarrow> (\<forall>z\<in>set xs. sp_active z \<and> sp_label z = sp_label y \<longrightarrow> sp_id z = sp_id y)"
  shows "labels_apart (row_put sp_id y xs)"
proof -
  have "sp_id v = sp_id w" if "v \<in> insert y {z \<in> set xs. sp_id z \<noteq> sp_id x}" "w \<in> insert y {z \<in> set xs. sp_id z \<noteq> sp_id x}"
      "sp_active v" "sp_active w" "sp_label v = sp_label w" for v w
  proof (cases "v = y \<or> w = y")
    case True
    then show ?thesis using that label by (metis insert_iff mem_Collect_eq)
  next
    case False
    then show ?thesis using that ok by (simp add: labels_apart_def)
  qed
  moreover have "set (row_put sp_id y xs) = insert y {z \<in> set xs. sp_id z \<noteq> sp_id x}"
    using set_row_put[OF x(1), of sp_id y] x(2) by simp
  ultimately show ?thesis unfolding labels_apart_def by blast
qed

lemma put_linked:
  assumes ok: "linked ids s" and x: "row_at sp_id i (spools s) = Some x" and y: "sp_id y = sp_id x"
    and label: "sp_active y \<Longrightarrow> (\<forall>z\<in>set (spools s). sp_active z \<and> sp_label z = sp_label y \<longrightarrow> sp_id z = sp_id y)"
  shows "linked ids (s\<lparr>spools := row_put sp_id y (spools s)\<rparr>)"
proof -
  have "labels_apart (row_put sp_id y (spools s))"
    using labels_apart_put[OF linkedD(7)[OF ok] _ y] row_atD[OF x] label by blast
  moreover have "sp_id ` set (row_put sp_id y (spools s)) = sp_id ` set (spools s)" by (simp only: set_map[symmetric] keys_row_put)
  ultimately show ?thesis using linkedD[OF ok] by (intro linkedI) simp_all
qed

lemma put_same_label:
  assumes "linked ids s" "row_at sp_id i (spools s) = Some x" "sp_id y = sp_id x" "sp_label y = sp_label x" "sp_active y = sp_active x"
  shows "linked ids (s\<lparr>spools := row_put sp_id y (spools s)\<rparr>)"
proof (rule put_linked[OF assms(1-3)])
  assume "sp_active y"
  moreover have "x \<in> set (spools s)" using row_atD[OF assms(2)] by simp
  ultimately show "\<forall>z\<in>set (spools s). sp_active z \<and> sp_label z = sp_label y \<longrightarrow> sp_id z = sp_id y"
    using linkedD(7)[OF assms(1)] unfolding labels_apart_def assms(3-5) by blast
qed

lemma bump_linked: "linked ids s \<Longrightarrow> linked ids (bump_spool j s)"
  by (auto simp: bump_spool_def split: option.split intro!: put_same_label)

lemma bumps_linked: "linked ids s \<Longrightarrow> linked ids (fold bump_spool js s)"
  by (induction js arbitrary: s) (simp_all add: bump_linked)

section \<open>Movements and transfers\<close>

lemma movement_linked:
  assumes "apply_movement env p i expected m s = Inr (e, s')" "linked ids s"
  shows "linked ids s'"
proof -
  let ?t = "case mu_spool m of Some x \<Rightarrow> if mu_keep m then s else bump_spool x s | None \<Rightarrow> s"
  have t: "stock_drawn s' = Suc (stock_drawn s)" "spools s' = spools ?t" "mounts s' = mounts s" "spool_tags s' = spool_tags s"
    by (rule movementE[OF assms(1)], assumption)+
  have "linked ids (?t\<lparr>stock_drawn := Suc (stock_drawn s)\<rparr>)"
    by (rule linked_more) (use assms(2) bump_linked in \<open>auto split: option.splits\<close>)
  moreover have "linked ids s' = linked ids (?t\<lparr>stock_drawn := Suc (stock_drawn s)\<rparr>)"
    by (rule linked_same) (use t in \<open>auto split: option.splits\<close>)
  ultimately show ?thesis by simp
qed

lemma transfer_linked:
  assumes "insert_transfer env i expected src dst q t note s = Inr (e, s')" "linked ids s"
  shows "linked ids s'"
proof -
  have "carried s s'" by (rule transferE[OF assms(1)]) (simp add: carried_def)
  then show ?thesis by (rule linked_carried[OF assms(2)])
qed


section \<open>New rows\<close>

lemma labels_apart_new:
  assumes "labels_apart xs" "\<not> list_ex (\<lambda>y. sp_active y \<and> sp_label y = sp_label x) xs"
  shows "labels_apart (xs @ [x])"
proof -
  have free: "sp_label y \<noteq> sp_label x" if "y \<in> set xs" "sp_active y" for y using assms(2) that by (auto simp: list_ex_iff)
  have "sp_id v = sp_id w" if "v \<in> insert x (set xs)" "w \<in> insert x (set xs)" "sp_active v" "sp_active w" "sp_label v = sp_label w" for v w
  proof (cases "v = x \<or> w = x")
    case True
    then show ?thesis using that free by (metis insert_iff)
  next
    case False
    then have "v \<in> set xs" "w \<in> set xs" using that(1,2) by simp_all
    then show ?thesis using that(3-5) assms(1) unfolding labels_apart_def by blast
  qed
  then show ?thesis unfolding labels_apart_def by (auto simp only: set_append list.set Un_insert_right sup_bot_right)
qed

lemma insert_spool_linked:
  assumes run: "insert_spool x (s\<lparr>stock_drawn := Suc (stock_drawn s)\<rparr>) = Inr s'" and ok: "linked ids s" and inj: "inj ids"
    and x: "sp_id x = ids (stock_drawn s)"
  shows "linked ids s'" "sp_id x \<in> sp_id ` set (spools s')"
proof -
  note l = linkedD[OF linked_more[OF ok, of "Suc (stock_drawn s)"], simplified]
  have s': "s' = s\<lparr>stock_drawn := Suc (stock_drawn s), spools := spools s @ [x]\<rparr>"
      and label: "\<not> list_ex (\<lambda>y. sp_active y \<and> sp_label y = sp_label x) (spools s)"
    using run unfolding insert_spool_def by (elim ensureE, simp)+
  then show "sp_id x \<in> sp_id ` set (spools s')" by simp
  have "sp_id x \<notin> sp_id ` set (spools s)" unfolding x by (rule fresh_stock_id[OF inj linkedD(3)[OF ok]])
  moreover have "labels_apart (spools s @ [x])" by (rule labels_apart_new[OF l(7) label])
  moreover have "sp_id x \<in> ids ` {..<Suc (stock_drawn s)}" using x by simp
  ultimately show "linked ids s'" using l(1-6) unfolding s' by (intro linkedI) auto
qed

lemma add_tag_linked:
  assumes run: "add_tag env i tag s = Inr s'" and ok: "linked (se_id env) s" and inj: "inj (se_id env)"
    and i: "i \<in> sp_id ` set (spools s)"
  shows "linked (se_id env) s'"
proof -
  note l = linkedD[OF linked_more[OF ok, of "Suc (stock_drawn s)"], simplified]
  obtain k v where s': "s' = s\<lparr>stock_drawn := Suc (stock_drawn s), spool_tags := spool_tags s @
      [\<lparr>tg_id = se_id env (stock_drawn s), tg_spool = i, tg_kind = k, tg_value = v, tg_retired = None\<rparr>]\<rparr>"
    using run by (cases tag) (auto simp: add_tag_def Let_def draw_stock_id_def)
  have "se_id env (stock_drawn s) \<notin> tg_id ` set (spool_tags s)" by (rule fresh_stock_id[OF inj linkedD(4)[OF ok]])
  then show ?thesis using l i unfolding s' by (intro linkedI) auto
qed

lemma add_tags_linked:
  assumes "each (add_tag env i) tags s = Inr s'" "linked (se_id env) s" "inj (se_id env)" "i \<in> sp_id ` set (spools s)"
  shows "linked (se_id env) s'"
proof -
  have "linked (se_id env) s' \<and> i \<in> sp_id ` set (spools s')"
    by (rule each_keeps[OF assms(1), of "\<lambda>t. linked (se_id env) t \<and> i \<in> sp_id ` set (spools t)"])
      (use assms(2-4) add_tag_linked[of env i] add_tag_simps(2)[of env i] in auto)
  then show ?thesis by simp
qed

lemma create_article_linked: "create_article env p d s = (i, s') \<Longrightarrow> linked ids s \<Longrightarrow> linked ids s'"
  by (auto simp: create_article_def Let_def draw_stock_id_def log_stock_def intro: linked_carried simp: carried_def)

section \<open>Articles and sales\<close>

lemma movements_linked:
  "add_purchase env p i expected quantity paid t supplier ref note s = Inr (e, s') \<Longrightarrow> linked ids s \<Longrightarrow> linked ids s'"
  "record_consumption env p i expected quantity t disposal reason note s = Inr (e, s') \<Longrightarrow> linked ids s \<Longrightarrow> linked ids s'"
  "correct_stock env p i expected physical given t cause note s = Inr (e, s') \<Longrightarrow> linked ids s \<Longrightarrow> linked ids s'"
  "mark_empty env p i expected t note s = Inr (e, s') \<Longrightarrow> linked ids s \<Longrightarrow> linked ids s'"
  "sell_item env p sale s = Inr s' \<Longrightarrow> linked ids s \<Longrightarrow> linked ids s'"
  "restock_order_sale env p item s = Inr s' \<Longrightarrow> linked ids s \<Longrightarrow> linked ids s'"
  "consume_spool env p j expected w quantity t disposal reason note s = Inr (e, s') \<Longrightarrow> linked ids s \<Longrightarrow> linked ids s'"
  "correct_spool env p j expected w physical given t cause note s = Inr (e, s') \<Longrightarrow> linked ids s \<Longrightarrow> linked ids s'"
  by (auto simp: add_purchase_def record_consumption_def correct_stock_def mark_empty_def sell_item_def restock_order_sale_def
      consume_spool_def correct_spool_def and_then_Inr_iff Let_def intro: movement_linked split: prod.splits option.splits if_splits)

lemma sell_from_linked: "sell_from env p sales s = Inr s' \<Longrightarrow> linked ids s \<Longrightarrow> linked ids s'"
  using each_keeps[of "sell_item env p" "sort_key fst sales" s s' "linked ids"] movements_linked(5)
  by (auto simp: sell_from_def Let_def and_then_Inr_iff)

section \<open>Spools\<close>

lemma create_spool_linked:
  assumes run: "create_spool env p input s = Inr s'" and ok: "linked (se_id env) s" and inj: "inj (se_id env)"
  shows "linked (se_id env) s'"
proof -
  let ?j = "se_id env (stock_drawn s)"
  obtain supplier weight price unassigned tags x s2 s3 s4 where t: "sp_id x = ?j"
      "insert_spool x (s\<lparr>stock_drawn := Suc (stock_drawn s)\<rparr>) = Inr s2" "each (add_tag env ?j) tags s2 = Inr s3"
      "fill_spool env p input supplier weight price unassigned ?j s3 = Inr s4" "linked (se_id env) s' = linked (se_id env) s4"
    using run by (force simp: create_spool_def check_spool_article_def and_then_Inr_iff Let_def draw_stock_id_def)
  have "linked (se_id env) s3"
    using add_tags_linked[OF t(3) insert_spool_linked(1)[OF t(2) ok inj t(1)] inj] insert_spool_linked(2)[OF t(2) ok inj t(1)] t(1) by simp
  then have "linked (se_id env) s4"
    using t(4) by (auto simp: fill_spool_def and_then_Inr_iff bump_linked split: if_splits dest: movement_linked transfer_linked)
  then show ?thesis using t(5) by simp
qed

lemma update_spool_linked: "update_spool env p i u s = Inr s' \<Longrightarrow> linked ids s \<Longrightarrow> linked ids s'"
  by (auto simp: update_spool_def and_then_Inr_iff Let_def intro!: put_same_label)

lemma add_spool_tag_linked:
  assumes "add_spool_tag env p i k raw s = Inr s'" "linked (se_id env) s" "inj (se_id env)"
  shows "linked (se_id env) s'"
  using assms row_atD[of sp_id i "spools s"] add_tag_linked[of env i]
  by (fastforce simp: add_spool_tag_def and_then_Inr_iff Let_def)

lemma delete_spool_tag_linked:
  assumes "delete_spool_tag p i j s = Inr s'" "linked ids s"
  shows "linked ids s'"
proof -
  obtain P where "linked ids s' = linked ids (s\<lparr>spool_tags := filter P (spool_tags s)\<rparr>)"
    using assms(1) by (auto simp: delete_spool_tag_def and_then_Inr_iff Let_def)
  moreover have "linked ids (s\<lparr>spool_tags := filter P (spool_tags s)\<rparr>)"
    using linkedD[OF assms(2)] by (intro linkedI) (auto simp: distinct_filter_map)
  ultimately show ?thesis by simp
qed

lemma transfer_stock_linked: "transfer_stock env p i expected src dst quantity t note s = Inr (e, s') \<Longrightarrow> linked ids s \<Longrightarrow> linked ids s'"
  by (auto simp: transfer_stock_def and_then_Inr_iff Let_def bumps_linked dest: transfer_linked)


section \<open>Retiring, restoring, purging\<close>



lemma mount_rows_kept: "map mo_spool (unmount now which ms) = map mo_spool ms"
  by (simp add: unmount_def)

lemma tags_linked:
  assumes "linked ids s" "map tag_link gs = map tag_link (spool_tags s)" "map mo_spool ms = map mo_spool (mounts s)"
  shows "linked ids (s\<lparr>mounts := ms, spool_tags := gs\<rparr>)"
  by (rule linked_carried[OF assms(1)]) (simp add: carried_def assms(2,3))

lemma mounts_linked: "linked ids s \<Longrightarrow> linked ids (s\<lparr>mounts := unmount now which (mounts s)\<rparr>)"
  by (erule linked_carried) (simp add: carried_def mount_rows_kept)

lemma restore_tags_linked: "linked ids s \<Longrightarrow> linked ids (restore_tags env t i s)"
  by (auto simp: restore_tags_def carried_def tag_link_def split: option.split elim!: linked_carried)

lemma retire_spool_linked:
  assumes run: "retire_spool env p i expected outcome s = Inr s'" and ok: "linked ids s"
  shows "linked ids s'"
proof -
  let ?n = "max (spool_remaining s i) 0"
  let ?y = "\<lambda>x. x\<lparr>sp_active := False, sp_archived := Some (se_now env), sp_outcome := Some outcome, sp_retired := Some ?n,
    sp_version := sp_version x + 1\<rparr>"
  obtain x a s1 where t: "lock_consumable s i = Inr x" "write_off env p x a outcome ?n s = Inr s1"
      "linked ids s' = linked ids (s1\<lparr>mounts := unmount (se_now env) (\<lambda>j. j = i) (mounts s1),
        spool_tags := retire_tags (se_now env) i (spool_tags s1), spools := row_put sp_id (?y x) (spools s1)\<rparr>)"
    using run by (force simp: retire_spool_def and_then_Inr_iff Let_def)
  have s1: "linked ids s1" "spools s1 = spools s"
  proof -
    have "linked ids s1 \<and> spools s1 = spools s"
    proof (cases "0 < ?n")
      case True
      then obtain e m where m: "apply_movement env p (sp_article x) None m s = Inr (e, s1)" "mu_spool m = Some (sp_id x)" "mu_keep m"
        using t(2) by (elim write_offE)
      then show ?thesis using movement_linked[OF m(1) ok] by (auto elim!: movementE)
    next
      case False
      then show ?thesis using t(2) ok by (simp add: write_off_def)
    qed
    then show "linked ids s1" "spools s1 = spools s" by simp_all
  qed
  have "linked ids (s1\<lparr>mounts := unmount (se_now env) (\<lambda>j. j = i) (mounts s1), spool_tags := retire_tags (se_now env) i (spool_tags s1)\<rparr>)"
    by (rule tags_linked[OF s1(1)]) (simp_all add: mount_rows_kept retire_tags_def tag_link_def)
  from put_linked[OF this, of i x "?y x"] show ?thesis
    using t(3) lock_consumableD(1)[OF t(1)] s1(2) by simp
qed

lemma restore_spool_linked:
  assumes run: "restore_spool env p i expected s = Inr s'" and ok: "linked ids s"
  shows "linked ids s'"
proof -
  obtain x a y s2 m booked where t: "row_at sp_id i (spools s) = Some x" "\<not> sp_active x" "row_at ar_id (sp_article x) (articles s) = Some a"
    "y = x\<lparr>sp_label := restored_label env x a s, sp_active := True, sp_archived := None, sp_outcome := None,
      sp_retired := None, sp_version := sp_version x + 1\<rparr>"
    "\<forall>z\<in>set (spools s). sp_active z \<and> sp_label z = sp_label y \<longrightarrow> sp_id z = sp_id y"
    "(if booked then and_then (apply_movement env p (sp_article x) None m
        (restore_tags env (sp_archived x) i (s\<lparr>spools := row_put sp_id y (spools s)\<rparr>))) (\<lambda>(e, s2). Inr s2)
      else Inr (restore_tags env (sp_archived x) i (s\<lparr>spools := row_put sp_id y (spools s)\<rparr>))) = Inr s2"
    "\<exists>action resource fs. s' = log_stock p action resource i fs s2"
    by (rule restore_spoolE[OF run])
  have "linked ids (restore_tags env (sp_archived x) i (s\<lparr>spools := row_put sp_id y (spools s)\<rparr>))"
    by (rule restore_tags_linked[OF put_linked[OF ok t(1) _ t(5)]]) (simp add: t(4))
  then have "linked ids s2" using t(6) by (auto simp: and_then_Inr_iff split: if_splits dest: movement_linked)
  then show ?thesis using t(7) by auto
qed

text \<open>Rows that go take the rows that name them with them.\<close>

lemma labels_apart_subset: "labels_apart xs \<Longrightarrow> set ys \<subseteq> set xs \<Longrightarrow> labels_apart ys"
  unfolding labels_apart_def by blast

lemma filter_linked:
  assumes ok: "linked ids s" and t: "spools t = filter P (spools s)" "stock_drawn t = stock_drawn s"
    and gs: "spool_tags t = filter Q (spool_tags s)" "\<And>g. g \<in> set (spool_tags s) \<Longrightarrow> Q g \<Longrightarrow> tg_spool g \<in> sp_id ` set (spools t)"
    and ms: "\<And>m. m \<in> set (mounts t) \<Longrightarrow> mo_spool m \<in> sp_id ` set (spools t)"
  shows "linked ids t"
proof (rule linkedI)
  note l = linkedD[OF ok]
  have sub: "sp_id ` set (spools t) \<subseteq> sp_id ` set (spools s)" "tg_id ` set (spool_tags t) \<subseteq> tg_id ` set (spool_tags s)"
    unfolding t gs by auto
  show "distinct (map sp_id (spools t))" "distinct (map tg_id (spool_tags t))"
    unfolding t gs using l(1,2) by (simp_all add: distinct_filter_map)
  show "sp_id ` set (spools t) \<subseteq> ids ` {..<stock_drawn t}" "tg_id ` set (spool_tags t) \<subseteq> ids ` {..<stock_drawn t}"
    unfolding t(2) using subset_trans[OF sub(1) l(3)] subset_trans[OF sub(2) l(4)] by simp_all
  show "labels_apart (spools t)" by (rule labels_apart_subset[OF l(7)]) (simp add: t(1))
  show "tg_spool ` set (spool_tags t) \<subseteq> sp_id ` set (spools t)" unfolding gs(1) using gs(2) by auto
  show "mo_spool ` set (mounts t) \<subseteq> sp_id ` set (spools t)" using ms by auto
qed

lemma delete_spool_linked:
  assumes ok: "linked ids s"
  shows "linked ids (delete_spool i s)"
proof (rule filter_linked[OF ok])
  note l = linkedD[OF ok]
  have ids: "sp_id ` set (spools (delete_spool i s)) = sp_id ` set (spools s) - {i}" by (auto simp: delete_spool_def)
  show "tg_spool g \<in> sp_id ` set (spools (delete_spool i s))" if "g \<in> set (spool_tags s)" "tg_spool g \<noteq> i" for g
    unfolding ids using l(5) that by auto
  show "mo_spool m \<in> sp_id ` set (spools (delete_spool i s))" if "m \<in> set (mounts (delete_spool i s))" for m
    unfolding ids using l(6) that by (auto simp: delete_spool_def)
qed (simp_all add: delete_spool_def row_drop_def)

lemma purge_spool_linked: "purge_spool p i expected s = Inr s' \<Longrightarrow> linked ids s \<Longrightarrow> linked ids s'"
  by (auto simp: purge_spool_def and_then_Inr_iff intro: delete_spool_linked)

section \<open>The recycle bin\<close>

lemma drop_article_linked:
  assumes ok: "linked ids s"
  shows "linked ids (drop_article i s)"
proof -
  note l = linkedD[OF ok]
  let ?here = "\<lambda>j. list_ex (\<lambda>x. sp_id x = j \<and> sp_article x = i) (spools s)" and ?t = "drop_article i s"
  have kept: "j \<in> sp_id ` set (spools ?t)" if "j \<in> sp_id ` set (spools s)" "\<not> ?here j" for j
    using that by (auto simp: list_ex_iff)
  have tags: "spool_tags ?t = filter (\<lambda>g. \<not> ?here (tg_spool g)) (spool_tags s)"
      "mounts ?t = filter (\<lambda>m. \<not> ?here (mo_spool m)) (mounts s)"
    by (simp_all add: drop_article_def Let_def)
  show ?thesis
  proof (rule filter_linked[OF ok drop_article_simps(2,4) tags(1)])
    show "tg_spool g \<in> sp_id ` set (spools ?t)" if "g \<in> set (spool_tags s)" "\<not> ?here (tg_spool g)" for g
      using kept l(5) that by blast
    show "mo_spool m \<in> sp_id ` set (spools ?t)" if "m \<in> set (mounts ?t)" for m
      using that l(6) unfolding tags(2) by (intro kept) auto
  qed
qed

lemma article_bin_linked:
  "delete_article env p i v s = Inr s' \<Longrightarrow> linked ids s \<Longrightarrow> linked ids s'"
  "restore_article p i v s = Inr s' \<Longrightarrow> linked ids s \<Longrightarrow> linked ids s'"
  "purge_article p i v s = Inr s' \<Longrightarrow> linked ids s \<Longrightarrow> linked ids s'"
  "remove_unused_article p i v elsewhere s = Inr s' \<Longrightarrow> linked ids s \<Longrightarrow> linked ids s'"
  by (auto simp: delete_article_def restore_article_def purge_article_def remove_unused_article_def lock_binned_def and_then_Inr_iff Let_def
      intro: drop_article_linked mounts_linked)

lemma toggle_linked:
  assumes run: "toggle_entry e expected back s = Inr s'" and ok: "linked ids s"
  shows "linked ids s'"
proof -
  obtain a n v where "each check_remaining (entry_spools e) ((update_balance a (micro n) (micro v) (average_cost a (micro n) (micro v)) s)
       \<lparr>stock_entries := row_put en_id (e\<lparr>en_deleted := \<not> back\<rparr>) (stock_entries s)\<rparr>) = Inr s'"
    by (rule toggleE[OF run])
  from check_each_remaining[OF this] show ?thesis using bumps_linked ok by simp
qed

lemma entry_bin_linked:
  "delete_entry p i v s = Inr s' \<Longrightarrow> linked ids s \<Longrightarrow> linked ids s'"
  "restore_entry p i s = Inr s' \<Longrightarrow> linked ids s \<Longrightarrow> linked ids s'"
  "purge_entry p i s = Inr s' \<Longrightarrow> linked ids s \<Longrightarrow> linked ids s'"
  by (auto simp: delete_entry_def restore_entry_def purge_entry_def and_then_Inr_iff intro: toggle_linked)


section \<open>Receipts\<close>

lemma receive_spool_linked:
  assumes run: "receive_spool env p input v a price s = Inr s'" and ok: "linked (se_id env) s" and inj: "inj (se_id env)"
  shows "linked (se_id env) s'"
proof -
  let ?j = "se_id env (stock_drawn s)"
  obtain x s2 e s3 where t: "sp_id x = ?j" "sp_active x" "sp_article x = ar_id a"
      "insert_spool x (s\<lparr>stock_drawn := Suc (stock_drawn s)\<rparr>) = Inr s2"
      "book_purchase env p input v (ar_id a) (rv_size v) (of_units 2 price) (Some ?j) s2 = Inr (e, s3)"
      "each (add_tag env ?j) (rv_tags v) (bump_spool ?j s3) = Inr s'"
    by (rule receive_spoolE[OF run])
  have s2: "linked (se_id env) s2" "?j \<in> sp_id ` set (spools s2)" using insert_spool_linked[OF t(4) ok inj t(1)] t(1) by simp_all
  obtain m where m: "apply_movement env p (ar_id a) None m s2 = Inr (e, s3)" using t(5) by (auto simp: book_purchase_def)
  have "linked (se_id env) s3" by (rule movement_linked[OF m s2(1)])
  moreover have "map sp_id (spools s3) = map sp_id (spools s2)"
    using m by (auto elim!: movementE split: option.splits if_splits)
  then have "sp_id ` set (spools s3) = sp_id ` set (spools s2)" by (simp only: set_map[symmetric])
  moreover have "sp_id ` set (spools (bump_spool ?j s3)) = sp_id ` set (spools s3)"
    by (simp only: set_map[symmetric] bump_spool_simps)
  ultimately show ?thesis using add_tags_linked[OF t(6) bump_linked inj] s2(2) by simp
qed

lemma receive_stock_linked:
  assumes run: "receive_stock env p input s = Inr s'" and ok: "linked (se_id env) s" and inj: "inj (se_id env)"
  shows "linked (se_id env) s'"
proof -
  obtain i s1 a v s2 where t: "receipt_article env p input s = Inr (i, s1)" "book_delivery env p input v a s1 = Inr s2"
      "linked (se_id env) s' = linked (se_id env) s2"
    using run by (auto simp: receive_stock_def and_then_Inr_iff)
  have s1: "linked (se_id env) s1"
    using t(1) ok by (auto simp: receipt_article_def and_then_Inr_iff split: option.splits sum.splits intro: create_article_linked)
  have "linked (se_id env) s2"
  proof (cases "rv_mode v = New_Spools")
    case True
    then have "each (receive_spool env p input v a) (split_cents (to_units 2 (rv_price v)) (rv_count v)) s1 = Inr s2"
      using t(2) by (simp add: book_delivery_def)
    then show ?thesis by (rule each_keeps[where P = "linked (se_id env)", OF _ s1]) (rule receive_spool_linked[OF _ _ inj])
  next
    case False
    then show ?thesis using t(2) s1 by (auto simp: book_delivery_def book_purchase_def and_then_Inr_iff intro: movement_linked)
  qed
  then show ?thesis using t(3) by simp
qed

section \<open>Histories\<close>

lemmas links_kept = movements_linked sell_from_linked create_spool_linked update_spool_linked add_spool_tag_linked
  delete_spool_tag_linked transfer_stock_linked retire_spool_linked restore_spool_linked purge_spool_linked article_bin_linked
  entry_bin_linked receive_stock_linked

lemma step_linked:
  assumes "stock_step ids s s'" "linked ids s" "inj ids"
  shows "linked ids s'"
  using assms(1)
proof cases
  case article_created
  then show ?thesis using create_article_linked assms(2) by blast
next
  case (printer_mounts ms)
  have "mo_spool ` set ms \<subseteq> sp_id ` set (spools s)" using printer_mounts(2) by force
  then show ?thesis using linkedD[OF assms(2)] unfolding printer_mounts(1) by (intro linkedI) simp_all
qed (use assms(2,3) in \<open>blast dest: links_kept\<close>)+

lemma history_linked:
  assumes "stock_history ids s" "inj ids"
  shows "linked ids s"
  using assms(1)
proof induction
  case start
  show ?case by (simp add: linked_def labels_apart_def no_stock_def)
next
  case (next_step s s')
  show ?case by (rule step_linked[OF next_step(2,3) assms(2)])
qed


lemma labels_distinct:
  assumes "distinct (map sp_id xs)" "labels_apart xs"
  shows "distinct (map sp_label (filter sp_active xs))"
proof -
  have "inj_on sp_label (set (filter sp_active xs))"
    using assms(2) key_inj[OF assms(1)] unfolding labels_apart_def inj_on_def by simp
  then show ?thesis using assms(1) by (simp add: distinct_map)
qed

end
