(* ===== verification/Stock_Facts.thy ===== *)
theory Stock_Facts
  imports Stock_Reachable "HOL-Library.Multiset"
begin

text \<open>
  What single operations of the inventory do: the label of a new spool is free and the smallest, a receipt splits
  its price to the cent, every package lands on a spool of its own, and a sale that is taken back leaves the balance
  it found.
\<close>

section \<open>Labels\<close>

lemma first_free_spec: "n \<le> first_free used n \<and> first_free used n \<notin> set used \<and> (\<forall>k. n \<le> k \<and> k < first_free used n \<longrightarrow> k \<in> set used)"
proof (induction used n rule: first_free.induct)
  case (1 used n)
  show ?case
  proof (cases "n \<in> set used")
    case True
    then have "first_free used n = first_free used (n + 1)" by (simp add: first_free.simps[of used n])
    then show ?thesis using 1[OF True] True by (metis add1_zle_eq order_le_less zle_add1_eq_le)
  qed (auto simp: first_free.simps[of used n])
qed

lemma first_free_bound: "first_free used n \<le> n + int (length used)"
proof -
  have "{n..<first_free used n} \<subseteq> set used" using first_free_spec[of n used] by auto
  then have "card {n..<first_free used n} \<le> card (set used)" by (intro card_mono) simp_all
  also have "\<dots> \<le> length used" by (rule card_length)
  finally show ?thesis by simp
qed

lemma zero_padded_digits: "0 \<le> n \<Longrightarrow> zero_padded w n = replicate (w - length (digits_of 10 (nat n))) (CHR ''0'') @ digits_of 10 (nat n)"
  by (simp add: zero_padded_def itoa_def Let_def)

lemma zero_padded_decimal: "0 \<le> n \<Longrightarrow> list_all decimal_digit (zero_padded w n)"
  using digits_of_decimal[of "nat n"] by (auto simp: zero_padded_digits list_all_iff decimal_digit_def)

lemma atoi_zero_padded:
  assumes "0 \<le> n" "n \<le> max_int64"
  shows "go_atoi (zero_padded w n) = Some n"
proof -
  obtain c cs where z: "zero_padded w n = c # cs" using assms(1) by (cases "zero_padded w n") (simp_all add: zero_padded_digits)
  then have "decimal_digit c" using zero_padded_decimal[OF assms(1), of w] by simp
  then have "c \<noteq> CHR ''-''" "c \<noteq> CHR ''+''" by (auto simp: decimal_digit_def)
  moreover have "parse_digits 10 0 (c # cs) = Some (nat n)"
    unfolding z[symmetric] zero_padded_digits[OF assms(1)] by (simp add: parse_zeros parse_digits_of)
  moreover have "min_int64 \<le> n" using assms(1) by (simp add: min_int64_def)
  ultimately show ?thesis using assms by (simp add: go_atoi_def z)
qed

lemma label_number_own:
  assumes "0 \<le> n" "n \<le> max_int64"
  shows "label_number prefix (prefix @ ''-'' @ zero_padded w n) = Some n"
  using assms by (simp add: label_number_def Let_def atoi_zero_padded zero_padded_decimal)

lemma used_numbers_iff:
  "k \<in> set (used_numbers prefix xs) \<longleftrightarrow>
     (\<exists>x\<in>set xs. sp_active x \<and> has_prefix (sp_label x) (prefix @ ''-'') \<and> label_number prefix (sp_label x) = Some k)"
  by (auto simp: used_numbers_def List.map_filter_def image_iff)

lemma used_numbers_length: "length (used_numbers prefix xs) \<le> length xs"
proof -
  have "length (used_numbers prefix xs) \<le> length (filter (\<lambda>x. sp_active x \<and> has_prefix (sp_label x) (prefix @ ''-'')) xs)"
    unfolding used_numbers_def List.map_filter_def length_map by (rule order_trans[OF length_filter_le]) simp
  also have "\<dots> \<le> length xs" by simp
  finally show ?thesis .
qed

lemma next_label_unused:
  assumes few: "int (length (spools s)) < max_int64" and x: "x \<in> set (spools s)" "sp_active x"
  shows "sp_label x \<noteq> next_label prefix s"
proof
  let ?n = "first_free (used_numbers prefix (spools s)) 1"
  assume label: "sp_label x = next_label prefix s"
  have n: "0 \<le> ?n" "?n \<le> max_int64"
    using first_free_spec[of 1 "used_numbers prefix (spools s)"] first_free_bound[of "used_numbers prefix (spools s)" 1]
      used_numbers_length[of prefix "spools s"] few by simp_all
  have "?n \<in> set (used_numbers prefix (spools s))"
    unfolding used_numbers_iff using x label label_number_own[OF n, of prefix 2]
    by (intro bexI[of _ x]) (simp_all add: next_label_def has_prefix_def)
  then show False using first_free_spec[of 1 "used_numbers prefix (spools s)"] by simp
qed

section \<open>Splitting a price\<close>

lemma split_cents_length [simp]: "length (split_cents cents n) = n"
  by (simp add: split_cents_def)

lemma split_cents_sum:
  assumes "0 < n"
  shows "sum_list (split_cents cents n) = cents"
proof -
  obtain m where n: "n = Suc m" using assms by (cases n) simp_all
  have "sum_list (split_cents cents n) = (\<Sum>i\<in>{0..<n}. cents div int n + (if i = m then cents mod int n else 0))"
    by (simp add: split_cents_def sum_list_distinct_conv_sum_set n del: upt_Suc)
  also have "\<dots> = int n * (cents div int n) + cents mod int n" by (simp add: sum.distrib n)
  finally show ?thesis by simp
qed

lemma split_cents_nonneg: "0 \<le> cents \<Longrightarrow> c \<in> set (split_cents cents n) \<Longrightarrow> 0 \<le> c"
  by (cases "n = 0") (auto simp: split_cents_def pos_imp_zdiv_nonneg_iff intro!: add_nonneg_nonneg)


section \<open>Packages on spools\<close>

lemma bump_last:
  assumes "sp_id x \<notin> sp_id ` set xs" "spools s = xs @ [x]"
  shows "spools (bump_spool (sp_id x) s) = xs @ [x\<lparr>sp_version := sp_version x + 1\<rparr>]"
proof -
  have "row_at sp_id (sp_id x) xs = None" using assms(1) by (simp add: row_at_None_iff)
  moreover have "row_put sp_id y (xs @ [x]) = xs @ [y]" if "sp_id y = sp_id x" for y
    using row_put_other[of sp_id y xs] assms(1) that by (simp add: row_put_def)
  ultimately show ?thesis using assms(2) by (simp add: bump_spool_def row_at_append)
qed

text \<open>What a package that goes onto a spool changes.\<close>

definition shelved :: "string \<Rightarrow> int \<Rightarrow> int \<Rightarrow> int \<Rightarrow> stock \<Rightarrow> stock \<Rightarrow> bool" where
  "shelved i k cents n s t \<longleftrightarrow>
     (\<exists>xs a b. spools t = spools s @ xs \<and> int (length xs) = n \<and>
        (\<forall>x\<in>set xs. sp_active x \<and> sp_article x = i \<and> spool_remaining t (sp_id x) = k) \<and>
        (\<forall>x\<in>set (spools s). spool_remaining t (sp_id x) = spool_remaining s (sp_id x)) \<and>
        row_at ar_id i (articles s) = Some a \<and> row_at ar_id i (articles t) = Some b \<and>
        ar_quantity b = ar_quantity a + n * k \<and> ar_value b = ar_value a + 10000 * cents)"

lemma shelved_refl: "row_at ar_id i (articles s) = Some a \<Longrightarrow> shelved i k 0 0 s s"
  by (auto simp: shelved_def)

lemma shelved_trans:
  assumes "shelved i k c n s t" "shelved i k d m t u"
  shows "shelved i k (c + d) (n + m) s u"
proof -
  obtain xs a b where s: "spools t = spools s @ xs" "int (length xs) = n" "row_at ar_id i (articles s) = Some a" "row_at ar_id i (articles t) = Some b"
      "\<forall>x\<in>set xs. sp_active x \<and> sp_article x = i \<and> spool_remaining t (sp_id x) = k"
      "\<forall>x\<in>set (spools s). spool_remaining t (sp_id x) = spool_remaining s (sp_id x)"
      "ar_quantity b = ar_quantity a + n * k" "ar_value b = ar_value a + 10000 * c"
    using assms(1) by (auto simp: shelved_def)
  obtain ys e where t: "spools u = spools t @ ys" "int (length ys) = m" "row_at ar_id i (articles u) = Some e"
      "\<forall>x\<in>set ys. sp_active x \<and> sp_article x = i \<and> spool_remaining u (sp_id x) = k"
      "\<forall>x\<in>set (spools t). spool_remaining u (sp_id x) = spool_remaining t (sp_id x)"
      "ar_quantity e = ar_quantity b + m * k" "ar_value e = ar_value b + 10000 * d"
    using assms(2) s(4) by (auto simp: shelved_def)
  show ?thesis
    unfolding shelved_def
    by (rule exI[of _ "xs @ ys"], rule exI[of _ a], rule exI[of _ e]) (use s t in \<open>auto simp: algebra_simps\<close>)
qed

lemma micros_cents: "micros (of_units 2 c) = 10000 * c"
proof -
  have "of_units 2 c = micro (10000 * c)" by (simp add: of_units_def)
  then show ?thesis by simp
qed

lemma settle_value_add:
  assumes "settle_value (micro k + of_units 2 c) = Inr v" "0 \<le> k" "0 \<le> c"
  shows "micros v = k + 10000 * c"
proof -
  have "of_units 2 c = micro (10000 * c)" by (simp add: of_units_def)
  then have "v = micro (k + 10000 * c)" using assms by (simp add: settle_value_def of_units_add split: if_splits)
  then show ?thesis by simp
qed

lemma receive_spool_shelves:
  assumes run: "receive_spool env p input v a cents s = Inr t" and ok: "stock_ok strict (se_id env) s" and inj: "inj (se_id env)"
    and a: "ar_id a \<in> ar_id ` set (articles s)" and nonneg: "0 \<le> cents"
  shows "shelved (ar_id a) (micros (rv_size v)) cents 1 s t"
proof -
  let ?i = "ar_id a" and ?j = "se_id env (stock_drawn s)" and ?k = "micros (rv_size v)"
  obtain x s2 e s3 where t: "sp_id x = ?j" "sp_active x" "sp_article x = ?i"
      "insert_spool x (s\<lparr>stock_drawn := Suc (stock_drawn s)\<rparr>) = Inr s2"
      "book_purchase env p input v ?i (rv_size v) (of_units 2 cents) (Some ?j) s2 = Inr (e, s3)"
      "each (add_tag env ?j) (rv_tags v) (bump_spool ?j s3) = Inr t"
    by (rule receive_spoolE[OF run])
  note new = insert_spool_keeps[OF t(4) _ inj t(1,2), simplified]
  have s2: "spools s2 = spools s @ [x]" "articles s2 = articles s" "stock_entries s2 = stock_entries s"
    "rem_of (stock_entries s) ?j = 0" using new(2,3,4,7) ok a t(3) by simp_all
  obtain m where m: "apply_movement env p ?i None m s2 = Inr (e, s3)" "mu_spool m = Some ?j" "mu_keep m" "mu_quantity m = rv_size v"
      "mu_value m = of_units 2 cents" "mu_kind m = Purchase"
    using t(5) by (auto simp: book_purchase_def plain_movement_def)
  obtain b w where b: "row_at ar_id ?i (articles s2) = Some b" "settle_value (micro (ar_value b) + mu_value m) = Inr w"
      "e = movement_entry (se_id env (stock_drawn s2)) ?i m"
      "articles s3 = row_put ar_id (moved_article b (micro (ar_quantity b) + mu_quantity m) w) (articles s2)"
      "stock_entries s3 = stock_entries s2 @ [e]" "spools s3 = spools s2" "entry_valid e"
    by (rule movementE[OF m(1)]) (use m(2,3) in auto)
  have "0 < ?k" using b(3,7) m(4,6) by (simp add: entry_valid_def)
  then have size: "0 \<le> rv_size v" using to_units_nonpos[of "rv_size v" 6] by linarith
  have fresh: "sp_id x \<notin> sp_id ` set (spools s)"
    using fresh_stock_id[OF inj rows_okD(5)[OF stock_okD(1)[OF ok]]] t(1) by simp
  have t': "articles t = articles s3" "spools t = spools s @ [x\<lparr>sp_version := sp_version x + 1\<rparr>]" "stock_entries t = stock_entries s2 @ [e]"
    using add_tags_keep[OF t(6)] bump_last[OF fresh, of s3] b(5,6) s2(1) t(1) by simp_all
  have rem: "rem_of (stock_entries t) j = rem_of (stock_entries s) j + (if j = ?j then ?k else 0)" for j
    using b(3) m(2,4) s2(3) by (simp add: t'(3) spool_effect_movement)
  have b_ok: "0 \<le> ar_quantity b" "0 \<le> ar_value b" "ar_id b = ?i"
    using stock_okD(2)[OF ok, of b] row_atD[OF b(1)] s2(2) by (simp_all add: article_ok_def)
  let ?b = "moved_article b (micro (ar_quantity b) + rv_size v) w"
  have row: "row_at ar_id ?i (articles t) = Some ?b"
    using a s2(2) b(4) m(4) b_ok(3) by (simp add: t'(1) row_at_put)
  have qty: "ar_quantity ?b = ar_quantity b + ?k" using to_units_add[OF size b_ok(1), of 6] by simp
  have val: "ar_value ?b = ar_value b + 10000 * cents"
    using settle_value_add[OF _ b_ok(2) nonneg] b(2) m(5) by simp
  show ?thesis
    unfolding shelved_def
    by (rule exI[of _ "[x\<lparr>sp_version := sp_version x + 1\<rparr>]"], rule exI[of _ b], rule exI[of _ ?b])
      (use b(1) s2(2,4) t(1,2,3) fresh row qty val in \<open>auto simp: t'(2) spool_remaining_rem rem image_iff\<close>)
qed

lemma receive_spools_shelve:
  assumes run: "each (receive_spool env p input v a) cs s = Inr t" and ok: "stock_ok strict (se_id env) s" and inj: "inj (se_id env)"
    and a: "ar_id a \<in> ar_id ` set (articles s)" and nonneg: "\<forall>c\<in>set cs. 0 \<le> c"
  shows "shelved (ar_id a) (micros (rv_size v)) (sum_list cs) (int (length cs)) s t"
  using run ok a nonneg
proof (induction cs arbitrary: s)
  case Nil
  then obtain b where "b \<in> set (articles s)" "ar_id b = ar_id a" by auto
  then have "row_at ar_id (ar_id a) (articles s) = Some b" using row_at_key[OF rows_okD(1)[OF stock_okD(1)[OF Nil.prems(2)]], of b] by simp
  then show ?case using Nil.prems(1) shelved_refl by simp
next
  case (Cons c cs)
  obtain u where u: "receive_spool env p input v a c s = Inr u" "each (receive_spool env p input v a) cs u = Inr t"
    using Cons.prems(1) by (auto simp: and_then_Inr_iff)
  have keep: "stock_ok strict (se_id env) u" "ar_id a \<in> ar_id ` set (articles u)"
    using receive_spool_keeps[OF u(1) inj] Cons.prems(2,3) by simp_all
  have first: "shelved (ar_id a) (micros (rv_size v)) c 1 s u"
    using receive_spool_shelves[OF u(1) Cons.prems(2) inj Cons.prems(3)] Cons.prems(4) by simp
  have rest: "shelved (ar_id a) (micros (rv_size v)) (sum_list cs) (int (length cs)) u t"
    using Cons.IH[OF u(2) keep] Cons.prems(4) by simp
  show ?case using shelved_trans[OF first rest] by (simp add: add.commute)
qed

text \<open>The whole receipt: the size of a package and the price come from what was entered.\<close>

definition package_units :: "rat \<Rightarrow> article \<Rightarrow> int" where
  "package_units q a = (if q = 0 then (case ar_package a of None \<Rightarrow> 0 | Some k \<Rightarrow> k) else micros q)"

lemma parse_decimal_positive: "parse_decimal env t True = Inr d \<Longrightarrow> 0 < d"
  by (auto simp: parse_decimal_def split: option.splits if_splits)

lemma package_size_nonneg: "package_size env v = Inr q \<Longrightarrow> 0 \<le> q"
  using parse_decimal_positive by (fastforce simp: package_size_def split: option.splits sum.splits)

lemma receipt_price_facts: "receipt_price env v = Inr d \<Longrightarrow> 0 \<le> to_units 2 d \<and> of_units 2 (to_units 2 d) = d"
  by (auto simp: receipt_price_def decimal_round_def to_units_nonneg split: sum.splits if_splits)

lemma receive_stock_spools:
  assumes run: "receive_stock env p input s = Inr t" and ok: "stock_ok strict (se_id env) s" and inj: "inj (se_id env)"
    and known: "rc_article input = Some i" and a: "row_at ar_id i (articles s) = Some a"
    and place: "rc_placement input = Some pl" "pl_mode pl = New_Spools"
  shows "\<exists>q price. package_size env (rc_size input) = Inr q \<and> receipt_price env (rc_total input) = Inr price \<and>
    shelved i (package_units q a) (to_units 2 price) (rc_count input) s t"
proof -
  obtain v0 j s1 b v s2 where t: "validate_receipt env input = Inr v0" "receipt_article env p input s = Inr (j, s1)"
      "lock_article s1 j = Inr b" "article_supply b v0 = Inr v" "book_delivery env p input v b s1 = Inr s2"
      "articles t = articles s2" "spools t = spools s2" "stock_entries t = stock_entries s2"
    using run unfolding receive_stock_def by (auto simp: and_then_Inr_iff log_stock_def simp del: lock_articleD)
  have here: "j = i" "s1 = s" "b = a"
    using t(2,3) known a by (auto simp: receipt_article_def and_then_Inr_iff)
  obtain q price where v0: "package_size env (rc_size input) = Inr q" "receipt_price env (rc_total input) = Inr price"
      "rv_size v0 = q" "rv_price v0 = price" "rv_count v0 = nat (rc_count input)" "1 \<le> rc_count input" "rv_mode v0 = New_Spools"
    using t(1) place by (auto simp: validate_receipt_def and_then_Inr_iff Let_def)
  have v: "micros (rv_size v) = package_units q a" "rv_price v = price" "rv_count v = nat (rc_count input)" "rv_mode v = New_Spools"
    using t(4) v0(3-5,7) by (auto simp: article_supply_def package_units_def here Let_def split: option.splits if_splits)
  let ?cs = "split_cents (to_units 2 price) (nat (rc_count input))"
  have "each (receive_spool env p input v a) ?cs s = Inr s2"
    using t(5) v by (simp add: book_delivery_def here)
  moreover have "ar_id a \<in> ar_id ` set (articles s)" "ar_id a = i" using row_atD[OF a] by auto
  moreover have "\<forall>c\<in>set ?cs. 0 \<le> c" using split_cents_nonneg receipt_price_facts[OF v0(2)] by blast
  ultimately have "shelved i (package_units q a) (sum_list ?cs) (int (length ?cs)) s s2"
    using receive_spools_shelve[OF _ ok inj] v(1) by metis
  then have "shelved i (package_units q a) (to_units 2 price) (rc_count input) s s2"
    using v0(6) by (simp add: split_cents_sum)
  then have "shelved i (package_units q a) (to_units 2 price) (rc_count input) s t"
    using t(6,7,8) by (auto simp: shelved_def spool_remaining_rem)
  then show ?thesis using v0(1,2) by blast
qed

section \<open>Sales that are taken back\<close>

definition quantity_of :: "stock \<Rightarrow> string \<Rightarrow> int" where
  "quantity_of s i = (case row_at ar_id i (articles s) of None \<Rightarrow> 0 | Some a \<Rightarrow> ar_quantity a)"

definition value_of :: "stock \<Rightarrow> string \<Rightarrow> int" where
  "value_of s i = (case row_at ar_id i (articles s) of None \<Rightarrow> 0 | Some a \<Rightarrow> ar_value a)"

text \<open>What the entries of an article move.\<close>

definition moved :: "(stock_entry \<Rightarrow> int) \<Rightarrow> stock_entry list \<Rightarrow> string \<Rightarrow> int" where
  "moved f es i = (\<Sum>e\<leftarrow>es. if en_article e = i then f e else 0)"

lemma moved_simps [simp]:
  "moved f [] i = 0" "moved f (e # es) i = (if en_article e = i then f e else 0) + moved f es i"
  "moved f (es @ fs) i = moved f es i + moved f fs i"
  by (simp_all add: moved_def)

text \<open>A movement of exactly representable amounts moves the balance by what its entry says.\<close>

lemma exact_movement:
  assumes run: "apply_movement env p i expected m s = Inr (e, s')" and ok: "stock_ok strict (se_id env) s"
    and exact: "mu_quantity m = micro q" "mu_value m = micro v" "settle_value (micro (value_of s i + v)) = Inr (micro (value_of s i + v))"
  shows "quantity_of s' k = quantity_of s k + (if k = i then q else 0)" "value_of s' k = value_of s k + (if k = i then v else 0)"
proof -
  obtain a w where a: "row_at ar_id i (articles s) = Some a" "settle_value (micro (ar_value a) + mu_value m) = Inr w"
      "articles s' = row_put ar_id (moved_article a (micro (ar_quantity a) + mu_quantity m) w) (articles s)"
    by (rule movementE[OF run]) auto
  have i: "ar_id a = i" "a \<in> set (articles s)" using row_atD[OF a(1)] by simp_all
  have "w = micro (ar_value a + v)" using a(2) exact(2,3) a(1) by (simp add: value_of_def of_units_add)
  then have row: "row_at ar_id k (articles s') = (if k = i then Some (moved_article a (micro (ar_quantity a + q)) (micro (ar_value a + v)))
      else row_at ar_id k (articles s))"
    using i exact(1) by (auto simp: a(3) row_at_put of_units_add)
  show "quantity_of s' k = quantity_of s k + (if k = i then q else 0)" "value_of s' k = value_of s k + (if k = i then v else 0)"
    using a(1) by (simp_all add: quantity_of_def value_of_def row)
qed

lemma settle_nonneg: "0 \<le> k \<Longrightarrow> settle_value (micro k) = Inr (micro k)"
  by (simp add: settle_value_def)

text \<open>The entry of a sale: what a reversal needs to know of it.\<close>

definition sale_of :: "stock_entry \<Rightarrow> string \<Rightarrow> bool" where
  "sale_of e item \<longleftrightarrow> en_item e = Some item \<and> en_kind e = Order_Sale \<and> \<not> en_deleted e \<and> 0 \<le> en_cost e \<and> en_quantity e < 0 \<and> en_value e \<le> 0"

lemma sale_value_exact:
  assumes "sale_value a q = w" "article_ok strict es xs a" "0 \<le> q"
  shows "\<exists>v. w = micro v \<and> 0 \<le> v \<and> v \<le> ar_value a"
proof -
  let ?d = "decimal_round 6 (q * micro (ar_average a))"
  have d: "?d = micro (micros (q * micro (ar_average a)))" by (simp add: decimal_round_def)
  have "0 \<le> micros (q * micro (ar_average a))" "0 \<le> ar_value a" using assms(2,3) by (simp_all add: article_ok_def to_units_nonneg)
  then show ?thesis using assms(1) d unfolding sale_value_def Let_def by (auto split: if_splits)
qed

lemma sell_item_moves:
  assumes run: "sell_item env p (i, item, n) s = Inr s'" and ok: "stock_ok strict (se_id env) s"
  shows "\<exists>e. stock_entries s' = stock_entries s @ [e] \<and> sale_of e item \<and> en_article e = i \<and> en_quantity e = - n \<and>
    \<not> list_ex (\<lambda>x. en_item x = Some item \<and> en_kind x = Order_Sale) (stock_entries s) \<and>
    (\<forall>k. quantity_of s' k = quantity_of s k + moved en_quantity [e] k) \<and> (\<forall>k. value_of s' k = value_of s k + moved en_value [e] k)"
proof -
  obtain a e where a: "row_at ar_id i (articles s) = Some a"
      "apply_movement env p i None ((plain_movement Order_Sale (- micro n) (micro (ar_average a)) (- sale_value a (micro n)) (se_now env))
        \<lparr>mu_item := Some item\<rparr>) s = Inr (e, s')"
    using run by (auto simp: sell_item_def and_then_Inr_iff Let_def)
  let ?m = "(plain_movement Order_Sale (- micro n) (micro (ar_average a)) (- sale_value a (micro n)) (se_now env))\<lparr>mu_item := Some item\<rparr>"
  have m: "mu_quantity ?m = micro (- n)" "mu_value ?m = - sale_value a (micro n)" "mu_item ?m = Some item" "mu_kind ?m = Order_Sale"
      "mu_spool ?m = None" "mu_cost ?m = micro (ar_average a)"
    by (simp_all add: plain_movement_def)
  obtain v where e: "e = movement_entry (se_id env (stock_drawn s)) i ?m" "entry_valid e" "\<not> entry_taken s e"
      "stock_entries s' = stock_entries s @ [e]"
    by (rule movementE[OF a(2)]) blast
  have a_ok: "article_ok strict (stock_entries s) (spools s) a" "0 \<le> ar_average a" "0 \<le> ar_value a"
    using stock_okD(2)[OF ok, of a] row_atD[OF a(1)] by (simp_all add: article_ok_def)
  have n: "0 < n" using e(2) m by (simp add: e(1) entry_valid_def)
  obtain w where w: "sale_value a (micro n) = micro w" "0 \<le> w" "w \<le> ar_value a"
    using sale_value_exact[OF refl a_ok(1), of "micro n"] n by auto
  have settle: "settle_value (micro (value_of s i + - w)) = Inr (micro (value_of s i + - w))"
    by (rule settle_nonneg) (use w(3) a(1) in \<open>simp add: value_of_def\<close>)
  have v: "mu_value ?m = micro (- w)" using m(2) w(1) by simp
  note moves = exact_movement[OF a(2) ok m(1) v settle]
  show ?thesis
  proof (rule exI[of _ e], intro conjI allI)
    show "sale_of e item" using m(3,4,5,6) v w(2) n a_ok(2) by (simp add: sale_of_def e(1) m(1))
    show "\<not> list_ex (\<lambda>x. en_item x = Some item \<and> en_kind x = Order_Sale) (stock_entries s)"
      using e(3) m(3,4,5) by (simp add: entry_taken_def e(1))
    show "quantity_of s' k = quantity_of s k + moved en_quantity [e] k" "value_of s' k = value_of s k + moved en_value [e] k" for k
      using moves[of k] m(1) v by (simp_all add: e(1))
  qed (use e m(1) in simp_all)
qed

text \<open>A list of sales, each with its entry.\<close>

lemma sales_move:
  assumes "each (sell_item env p) sales s = Inr s'" "stock_ok strict (se_id env) s" "inj (se_id env)"
  shows "\<exists>es. stock_entries s' = stock_entries s @ es \<and> list_all2 (\<lambda>(i, item, n) e. sale_of e item \<and> en_article e = i \<and> en_quantity e = - n) sales es \<and>
    distinct (map (\<lambda>(i, item, n). item) sales) \<and>
    (\<forall>(i, item, n)\<in>set sales. \<not> list_ex (\<lambda>x. en_item x = Some item \<and> en_kind x = Order_Sale) (stock_entries s)) \<and>
    (\<forall>k. quantity_of s' k = quantity_of s k + moved en_quantity es k) \<and> (\<forall>k. value_of s' k = value_of s k + moved en_value es k)"
  using assms(1,2)
proof (induction sales arbitrary: s)
  case (Cons sale sales)
  obtain i item n where sale: "sale = (i, item, n)" by (cases sale)
  obtain t where t: "sell_item env p (i, item, n) s = Inr t" "each (sell_item env p) sales t = Inr s'"
    using Cons.prems(1) by (auto simp: and_then_Inr_iff sale)
  obtain e where e: "stock_entries t = stock_entries s @ [e]" "sale_of e item" "en_article e = i" "en_quantity e = - n"
      "\<not> list_ex (\<lambda>x. en_item x = Some item \<and> en_kind x = Order_Sale) (stock_entries s)"
      "\<forall>k. quantity_of t k = quantity_of s k + moved en_quantity [e] k" "\<forall>k. value_of t k = value_of s k + moved en_value [e] k"
    using sell_item_moves[OF t(1) Cons.prems(2)] by blast
  have "stock_ok strict (se_id env) t"
    using t(1) Cons.prems(2) assms(3) by (auto simp: sell_item_def Let_def and_then_Inr_iff intro: movement_keeps)
  then obtain es where es: "stock_entries s' = stock_entries t @ es" "list_all2 (\<lambda>(i, item, n) e. sale_of e item \<and> en_article e = i \<and> en_quantity e = - n) sales es"
      "distinct (map (\<lambda>(i, item, n). item) sales)"
      "\<forall>(i, item, n)\<in>set sales. \<not> list_ex (\<lambda>x. en_item x = Some item \<and> en_kind x = Order_Sale) (stock_entries t)"
      "\<forall>k. quantity_of s' k = quantity_of t k + moved en_quantity es k" "\<forall>k. value_of s' k = value_of t k + moved en_value es k"
    using Cons.IH[OF t(2)] by blast
  have "item \<noteq> item'" if "(i', item', n') \<in> set sales" for i' item' n'
    using es(4) that e(1,2) by (auto simp: sale_of_def)
  then show ?case using e es by (intro exI[of _ "e # es"]) (auto simp: sale)
qed simp

definition sold :: "stock \<Rightarrow> string \<Rightarrow> stock_entry \<Rightarrow> bool" where
  "sold s item e \<longleftrightarrow> e \<in> set (stock_entries s) \<and> sale_of e item \<and>
     (\<forall>x\<in>set (stock_entries s). en_item x = Some item \<and> en_kind x = Order_Sale \<longrightarrow> x = e)"

lemma loose_movement_accepted:
  assumes a: "row_at ar_id i (articles s) = Some a" and m: "mu_spool m = None" "0 \<le> mu_quantity m" and q: "0 \<le> ar_quantity a"
    and v: "settle_value (micro (ar_value a) + mu_value m) = Inr v"
    and e: "entry_valid (movement_entry (se_id env (stock_drawn s)) i m)" "\<not> entry_taken s (movement_entry (se_id env (stock_drawn s)) i m)"
  shows "\<exists>r s'. apply_movement env p i None m s = Inr (r, s')"
proof -
  let ?q = "micro (ar_quantity a) + mu_quantity m" and ?e = "movement_entry (se_id env (stock_drawn s)) i m"
  let ?s = "update_balance a ?q v (average_cost a ?q v) s"
  have new: "draw_stock_id env ?s = (se_id env (stock_drawn s), ?s\<lparr>stock_drawn := Suc (stock_drawn s)\<rparr>)" by (simp add: draw_stock_id_def)
  have "\<not> entry_taken (?s\<lparr>stock_drawn := Suc (stock_drawn s)\<rparr>) ?e" using e(2) by (simp add: entry_taken_def)
  then have insert: "\<exists>t. insert_entry ?e (?s\<lparr>stock_drawn := Suc (stock_drawn s)\<rparr>) = Inr (?e, t)" using e(1) by (simp add: insert_entry_def)
  have "0 \<le> ?q" using q m(2) by (simp add: add_nonneg_nonneg)
  moreover have "check_source i ?q m s = Inr ()" using m by (simp add: check_source_def)
  moreover have "lock_article s i = Inr a" using a by simp
  moreover obtain t where "insert_entry ?e (?s\<lparr>stock_drawn := Suc (stock_drawn s)\<rparr>) = Inr (?e, t)" using insert by blast
  ultimately show ?thesis
    unfolding apply_movement_def by (simp add: Let_def new v del: lock_articleD)
qed

lemma restock_moves:
  assumes e: "sold s item e" and new: "\<not> sale_reversed s item" and ok: "stock_ok strict (se_id env) s"
  shows "\<exists>s' r. restock_order_sale env p item s = Inr s' \<and> stock_entries s' = stock_entries s @ [r] \<and>
    en_item r = Some item \<and> en_kind r = Order_Sale_Reversal \<and>
    (\<forall>k. quantity_of s' k = quantity_of s k - moved en_quantity [e] k) \<and> (\<forall>k. value_of s' k = value_of s k - moved en_value [e] k)"
proof -
  have e': "e \<in> set (stock_entries s)" "en_item e = Some item" "en_kind e = Order_Sale" "\<not> en_deleted e" "0 \<le> en_cost e"
      "en_quantity e < 0" "en_value e \<le> 0"
    using e by (simp_all add: sold_def sale_of_def)
  let ?m = "(plain_movement Order_Sale_Reversal (- micro (en_quantity e)) (micro (en_cost e)) (- micro (en_value e)) (se_now env))
    \<lparr>mu_item := Some item\<rparr>"
  have m: "mu_quantity ?m = micro (- en_quantity e)" "mu_value ?m = micro (- en_value e)" "mu_item ?m = Some item" "mu_kind ?m = Order_Sale_Reversal"
      "mu_spool ?m = None" "mu_cost ?m = micro (en_cost e)" "mu_total ?m = None" "mu_supplier ?m = None" "mu_note ?m = None"
      "mu_reason ?m = None" "mu_reference ?m = None" "mu_usage ?m = None"
    by (simp_all add: plain_movement_def)
  let ?P = "\<lambda>x. en_item x = Some item \<and> en_kind x = Order_Sale \<and> \<not> en_deleted x"
  have "find ?P (stock_entries s) \<noteq> None" using e' by (auto simp: find_None_iff)
  then obtain x where x: "find ?P (stock_entries s) = Some x" by blast
  then have "x \<in> set (stock_entries s)" "?P x" by (auto simp: find_Some_iff)
  then have "x = e" using e by (simp add: sold_def)
  then have restock: "restock_order_sale env p item s = and_then (apply_movement env p (en_article e) None ?m s) (\<lambda>(e', s1). Inr s1)"
    using new x by (simp add: restock_order_sale_def sale_entry_def)
  obtain a where a: "row_at ar_id (en_article e) (articles s) = Some a"
    using rows_okD(8)[OF stock_okD(1)[OF ok] e'(1)] row_at_None_iff[of ar_id "en_article e" "articles s"] by auto
  have a_ok: "0 \<le> ar_quantity a" "0 \<le> ar_value a" using stock_okD(2)[OF ok, of a] row_atD[OF a] by (simp_all add: article_ok_def)
  have "\<exists>r s'. apply_movement env p (en_article e) None ?m s = Inr (r, s')"
  proof (rule loose_movement_accepted[OF a m(5) _ a_ok(1)])
    show "0 \<le> mu_quantity ?m" using m(1) e'(6) by simp
    show "settle_value (micro (ar_value a) + mu_value ?m) = Inr (micro (ar_value a + - en_value e))"
      unfolding m(2) of_units_add by (rule settle_nonneg) (use a_ok e'(7) in simp)
    show "entry_valid (movement_entry (se_id env (stock_drawn s)) (en_article e) ?m)"
      unfolding entry_valid_def movement_entry_def m using e' by (simp add: trimmed_def short_text_def)
    show "\<not> entry_taken s (movement_entry (se_id env (stock_drawn s)) (en_article e) ?m)"
      using new unfolding entry_taken_def movement_entry_simps m by (simp add: sale_reversed_def)
  qed
  then obtain r s' where run: "apply_movement env p (en_article e) None ?m s = Inr (r, s')" by blast
  have r: "r = movement_entry (se_id env (stock_drawn s)) (en_article e) ?m" "stock_entries s' = stock_entries s @ [r]"
    by (rule movementE[OF run]; blast)+
  have "settle_value (micro (value_of s (en_article e) + - en_value e)) = Inr (micro (value_of s (en_article e) + - en_value e))"
    by (rule settle_nonneg) (use a a_ok e'(7) in \<open>simp add: value_of_def\<close>)
  note moves = exact_movement[OF run ok m(1,2) this]
  show ?thesis
    by (rule exI[of _ s'], rule exI[of _ r]) (use restock run r moves m(3,4,5) in \<open>auto simp: movement_entry_def\<close>)
qed

lemma restocks_move:
  assumes ok: "stock_ok strict (se_id env) s" "inj (se_id env)"
    and js: "distinct js" "\<forall>j\<in>set js. sold s j (f j) \<and> \<not> sale_reversed s j"
  shows "\<exists>s'. each (restock_order_sale env p) js s = Inr s' \<and> (\<forall>j\<in>set js. sale_reversed s' j) \<and>
    (\<forall>k. quantity_of s' k = quantity_of s k - moved en_quantity (map f js) k) \<and>
    (\<forall>k. value_of s' k = value_of s k - moved en_value (map f js) k)"
  using assms(1,3,4)
proof (induction js arbitrary: s)
  case (Cons j js)
  obtain t r where t: "restock_order_sale env p j s = Inr t" "stock_entries t = stock_entries s @ [r]" "en_item r = Some j"
      "en_kind r = Order_Sale_Reversal" "\<forall>k. quantity_of t k = quantity_of s k - moved en_quantity [f j] k"
      "\<forall>k. value_of t k = value_of s k - moved en_value [f j] k"
    using restock_moves[of s j "f j"] Cons.prems by (meson list.set_intros(1))
  have "stock_ok strict (se_id env) t" by (rule restock_order_sale_keeps[OF t(1) Cons.prems(1) ok(2)])
  moreover have "sold t k (f k) \<and> \<not> sale_reversed t k" if "k \<in> set js" for k
    using Cons.prems(2,3) that t(2,3,4) by (auto simp: sold_def sale_reversed_def)
  ultimately obtain u where u: "each (restock_order_sale env p) js t = Inr u" "\<forall>j\<in>set js. sale_reversed u j"
      "\<forall>k. quantity_of u k = quantity_of t k - moved en_quantity (map f js) k"
      "\<forall>k. value_of u k = value_of t k - moved en_value (map f js) k"
    using Cons.IH[of t] Cons.prems(2) by auto
  have "sale_reversed t j" using t(2,3,4) by (simp add: sale_reversed_def)
  then have "sale_reversed u j"
  proof -
    have "sale_reversed t' j" if "each (restock_order_sale env p) ks t = Inr t'" "sale_reversed t j" for ks t t'
      using that
    proof (induction ks arbitrary: t)
      case (Cons k ks)
      obtain v where v: "restock_order_sale env p k t = Inr v" "each (restock_order_sale env p) ks v = Inr t'"
        using Cons.prems(1) by (auto simp: and_then_Inr_iff)
      have "sale_reversed v j"
        using v(1) Cons.prems(2)
        by (auto simp: restock_order_sale_def sale_reversed_def and_then_Inr_iff elim!: movementE split: option.splits if_splits)
      then show ?case using Cons.IH[OF v(2)] by simp
    qed simp
    then show ?thesis using u(1) \<open>sale_reversed t j\<close> by blast
  qed
  then show ?case using t u by (intro exI[of _ u]) simp
qed simp

lemma restock_reversed: "sale_reversed s item \<Longrightarrow> restock_order_sale env p item s = Inr s"
  by (simp add: restock_order_sale_def split: option.split)

lemma restocks_reversed: "\<forall>j\<in>set js. sale_reversed s j \<Longrightarrow> each (restock_order_sale env p) js s = Inr s"
  by (induction js) (simp_all add: restock_reversed)

lemma moved_mset: "mset es = mset fs \<Longrightarrow> moved f es k = moved f fs k"
proof -
  assume "mset es = mset fs"
  then have "mset (map (\<lambda>e. if en_article e = k then f e else 0) es) = mset (map (\<lambda>e. if en_article e = k then f e else 0) fs)"
    by (simp only: mset_map)
  then show ?thesis unfolding moved_def by (simp only: sum_mset_sum_list[symmetric])
qed

abbreviation sold_items :: "(string \<times> string \<times> int) list \<Rightarrow> string list" where
  "sold_items sales \<equiv> map (\<lambda>(i, item, n). item) sales"

lemma sale_taken_back:
  assumes run: "sell_from env p sales s = Inr s1" and ok: "stock_ok strict (se_id env) s" and inj: "inj (se_id env)"
    and new: "\<forall>j\<in>set (sold_items sales). \<not> sale_reversed s j" and js: "mset js = mset (sold_items sales)" and env': "se_id env' = se_id env"
  shows "\<exists>s2. each (restock_order_sale env' q) js s1 = Inr s2 \<and> each (restock_order_sale env' q) js s2 = Inr s2 \<and>
    (\<forall>i. quantity_of s2 i = quantity_of s i \<and> value_of s2 i = value_of s i)"
proof -
  let ?sales = "sort_key fst sales"
  have each: "each (sell_item env p) ?sales s = Inr s1" using run by (simp add: sell_from_def Let_def and_then_Inr_iff)
  obtain es where es: "stock_entries s1 = stock_entries s @ es" "list_all2 (\<lambda>(i, item, n) e. sale_of e item \<and> en_article e = i \<and> en_quantity e = - n) ?sales es"
      "distinct (sold_items ?sales)"
      "\<forall>(i, item, n)\<in>set ?sales. \<not> list_ex (\<lambda>x. en_item x = Some item \<and> en_kind x = Order_Sale) (stock_entries s)"
      "\<forall>k. quantity_of s1 k = quantity_of s k + moved en_quantity es k" "\<forall>k. value_of s1 k = value_of s k + moved en_value es k"
    using sales_move[OF each ok inj] by blast
  have names: "map (the \<circ> en_item) es = sold_items ?sales" "list_all (\<lambda>e. sale_of e (the (en_item e))) es"
    using es(2) by (induction rule: list_all2_induct) (auto simp: sale_of_def)
  let ?f = "\<lambda>j. the (find (\<lambda>e. en_item e = Some j) es)"
  have f: "?f (the (en_item e)) = e" if "e \<in> set es" for e
  proof -
    have "row_at (the \<circ> en_item) (the (en_item e)) es = Some e"
      using row_at_key[of "the \<circ> en_item" es e] that es(3) names(1) by simp
    moreover have "find (\<lambda>x. en_item x = Some (the (en_item e))) es = find (\<lambda>x. (the \<circ> en_item) x = the (en_item e)) es"
      using names(2) by (intro find_cong) (auto simp: list_all_iff sale_of_def)
    ultimately show ?thesis by (simp add: row_at_def)
  qed
  have perm: "mset js = mset (map (the \<circ> en_item) es)" using js names(1) by simp
  then have js': "distinct js" "set js = (the \<circ> en_item) ` set es"
    using es(3) names(1) by (metis mset_eq_imp_distinct_iff, metis mset_eq_setD set_map)
  have before: "\<forall>j\<in>set (sold_items sales). \<not> list_ex (\<lambda>x. en_item x = Some j \<and> en_kind x = Order_Sale) (stock_entries s)"
    using es(4) by (simp add: split_beta)
  have sold: "sold s1 j (?f j) \<and> \<not> sale_reversed s1 j" if "j \<in> set js" for j
  proof -
    have "j \<in> (\<lambda>e. the (en_item e)) ` set es" using js'(2) \<open>j \<in> set js\<close> by simp
    then obtain e where e: "e \<in> set es" "j = the (en_item e)" by blast
    have j: "sale_of e j" "en_item e = Some j" using names(2) e by (auto simp: list_all_iff sale_of_def)
    have "j \<in> set (map (the \<circ> en_item) es)" using e by simp
    then have here: "j \<in> set (sold_items sales)" unfolding names(1) by simp
    have unsold: "\<not> list_ex (\<lambda>x. en_item x = Some j \<and> en_kind x = Order_Sale) (stock_entries s)" "\<not> sale_reversed s j"
      using bspec[OF before here] bspec[OF new here] by simp_all
    have same: "x = e" if "x \<in> set es" "en_item x = Some j" for x
    proof -
      have "?f j = x" using f[OF that(1)] that(2) by simp
      moreover have "?f j = e" using f[OF e(1)] e(2) by simp
      ultimately show ?thesis by simp
    qed
    have kinds: "en_kind x = Order_Sale" if "x \<in> set es" for x using names(2) that by (simp add: list_all_iff sale_of_def)
    have "sold s1 j e"
      unfolding sold_def es(1) using e(1) j(1) unsold(1) same by (simp add: list_ex_iff) blast
    moreover have "\<not> sale_reversed s1 j"
      unfolding sale_reversed_def es(1) using unsold(2) kinds by (auto simp: sale_reversed_def list_ex_iff)
    moreover have "?f j = e" using f[OF e(1)] e(2) by simp
    ultimately show ?thesis by simp
  qed
  have here: "stock_ok strict (se_id env') s1" "inj (se_id env')" using sell_from_keeps[OF run ok inj] inj env' by simp_all
  have open_sales: "\<forall>j\<in>set js. sold s1 j (?f j) \<and> \<not> sale_reversed s1 j" using sold by (rule ballI)
  obtain s2 where s2: "each (restock_order_sale env' q) js s1 = Inr s2" "\<forall>j\<in>set js. sale_reversed s2 j"
      "\<forall>k. quantity_of s2 k = quantity_of s1 k - moved en_quantity (map ?f js) k"
      "\<forall>k. value_of s2 k = value_of s1 k - moved en_value (map ?f js) k"
    using restocks_move[OF here js'(1) open_sales, of q] by (elim exE conjE) (rule that)
  have "mset (map ?f js) = mset es"
  proof -
    have "mset (map ?f js) = mset (map ?f (map (the \<circ> en_item) es))" by (simp only: mset_map perm)
    also have "map ?f (map (the \<circ> en_item) es) = es" using f by (simp add: map_idI)
    finally show ?thesis .
  qed
  then have "moved g (map ?f js) k = moved g es k" for g k by (rule moved_mset)
  then show ?thesis using s2 es(5,6) restocks_reversed[OF s2(2)] by (intro exI[of _ s2]) simp
qed

end
