(* ===== verification/Order_Ledger.thy ===== *)
theory Order_Ledger
  imports Rows Money
begin

text \<open>
  backend/internal/orders/lifecycle.go, payments.go, items.go and service.go: orders, their items and job claims,
  the payment ledger (receipts, reversals, allocations, adjustments) and the commands on them. The state holds the
  rows of the tables; a list keeps them in the order of creation. Money is in cents, quantities and unit prices in
  millionths. Every operation is one transaction: an error leaves the state as it was. The unique indexes and
  checks of the tables that the code relies on are part of the INSERT and UPDATE they belong to. The machine log
  book (jobs and stock) is another component: its state is a field of the ledger and its operations are
  arguments, fields of \<open>order_env\<close>; so are people and organizations, and the fingerprint of a request.
\<close>

section \<open>State\<close>

datatype order_status = Draft | Finalized | Reversed | Cancelled

datatype invoice_state = Invoice_Draft | Invoice_Submitted | Invoice_Issued | Invoice_Cancellation_Requested | Invoice_Cancelled

record order_row =
  or_id :: string
  or_reference :: string
  or_status :: order_status
  or_customer_kind :: string
  or_person :: "string option"
  or_organization :: "string option"
  or_fulfillment :: string
  or_total :: int
  or_replaces :: "string option"
  or_replaces_reference :: "string option"
  or_version :: int

record item_row =
  it_id :: string
  it_order :: string
  it_position :: int
  it_kind :: string
  it_description :: string
  it_quantity :: int
  it_unit :: string
  it_unit_price :: int
  it_amount :: int
  it_job :: "string option"
  it_job_version :: "int option"
  it_material :: "string option"
  it_removed :: bool

record payment_row =
  pm_id :: string
  pm_reference :: string
  pm_entry :: string
  pm_method :: string
  pm_amount :: int
  pm_at :: time
  pm_reverses :: "string option"
  pm_reversed_reference :: "string option"
  pm_reason_kind :: "string option"
  pm_reason :: string
  pm_source :: string
  pm_external :: string
  pm_request :: "string option"
  pm_split :: int

record alloc_row =
  al_id :: string
  al_payment :: string
  al_payment_reference :: string
  al_order :: string
  al_order_reference :: string
  al_amount :: int
  al_operation :: string

record adjustment_row =
  ad_id :: string
  ad_reference :: string
  ad_order :: string
  ad_order_reference :: string
  ad_amount :: int
  ad_reason :: string

record adjustment_item_row =
  ai_id :: string
  ai_adjustment :: string
  ai_item :: string
  ai_position :: int
  ai_amount :: int

text \<open>What a request says to the accounting office; dates are their text, empty when they are not set.\<close>

record invoice_details =
  dt_name :: string
  dt_address1 :: string
  dt_address2 :: string
  dt_postal :: string
  dt_locality :: string
  dt_region :: string
  dt_country :: string
  dt_contact_person :: "string option"
  dt_contact :: string
  dt_channel :: string
  dt_starts :: string
  dt_ends :: string
  dt_description :: string
  dt_purchase_order :: string

text \<open>An external invoice request with its row of details.\<close>

record request_row =
  rq_id :: string
  rq_reference :: string
  rq_order :: "string option"
  rq_order_reference :: string
  rq_state :: invoice_state
  rq_amount :: int
  rq_supersedes :: "string option"
  rq_version :: int
  rq_recipient_kind :: string
  rq_recipient_person :: "string option"
  rq_recipient_organization :: "string option"
  rq_summary :: "item_row list"
  rq_details :: invoice_details
  rq_policy_version :: int
  rq_policy_required :: bool
  rq_already_paid :: int

record request_event =
  ev_id :: string
  ev_request :: string
  ev_kind :: string
  ev_reference :: string
  ev_reconciliation :: string
  ev_reason :: string
  ev_effective :: time

record operation_row =
  op_key :: string
  op_kind :: string
  op_print :: string
  op_account :: string
  op_order :: "string option"
  op_request :: "string option"

record snapshot_row =
  sn_order :: string
  sn_name :: string
  sn_kind :: "string option"

record 'm ledger =
  orders :: "order_row list"
  items :: "item_row list"
  claims :: "(string \<times> string) list"
  ledger_payments :: "payment_row list"
  allocations :: "alloc_row list"
  adjustments :: "adjustment_row list"
  adjustment_items :: "adjustment_item_row list"
  requests :: "request_row list"
  request_events :: "request_event list"
  policies :: "(string \<times> bool \<times> int) list"
  operations :: "operation_row list"
  snapshots :: "snapshot_row list"
  order_seq :: int
  payment_seq :: int
  adjustment_seq :: int
  request_seq :: int
  drawn :: nat
  ledger_audit :: "audit_event list"
  logbook :: 'm

text \<open>What the log book answers about a job and an article.\<close>

record charged_job =
  cj_id :: string
  cj_display :: string
  cj_machine :: string
  cj_version :: int
  cj_effective :: "string option"
  cj_priced :: bool

record sale_article =
  sa_id :: string
  sa_name :: string
  sa_unit :: string
  sa_count_label :: "string option"
  sa_active :: bool
  sa_group :: string
  sa_price :: "string option"

section \<open>Inputs\<close>

record payment_input =
  pi_method :: string
  pi_amount :: string
  pi_at :: time
  pi_source :: string
  pi_external :: string
  pi_split :: int

record reversal_input =
  ri_payment :: string
  ri_reason_kind :: string
  ri_reason :: string
  ri_at :: time
  ri_external :: string

record command_input =
  oc_key :: string
  oc_version :: int
  oc_reason :: string
  oc_replacement :: string
  oc_replacement_version :: int
  oc_payments :: "payment_input list"
  oc_reversals :: "reversal_input list"

record record_payment =
  rp_key :: string
  rp_version :: int
  rp_payment :: payment_input

record reverse_payment =
  rv_key :: string
  rv_version :: int
  rv_reversal :: reversal_input
  rv_replacement :: "payment_input option"

record item_input =
  ii_kind :: string
  ii_description :: string
  ii_quantity :: string
  ii_unit :: string
  ii_unit_price :: string
  ii_job :: string
  ii_material :: string
  ii_job_version :: int
  ii_version :: int

record create_invoice =
  ci_key :: string
  ci_version :: int
  ci_details :: invoice_details

record invoice_command =
  ic_key :: string
  ic_version :: int
  ic_reference :: string
  ic_reconciliation :: string
  ic_reason :: string
  ic_effective :: time

record own_payment =
  wp_key :: string
  wp_orders :: "string list"
  wp_jobs :: "string list"
  wp_payments :: "payment_input list"
  wp_total :: string

datatype order_action = Cancel_Order | Finalize_Order | Checkout_Order | Reverse_Order | Prepare_Replacement
  | Replace_Order | Other_Action string

definition action_text :: "order_action \<Rightarrow> string" where
  "action_text a = (case a of Cancel_Order \<Rightarrow> ''cancel'' | Finalize_Order \<Rightarrow> ''finalize'' | Checkout_Order \<Rightarrow> ''checkout''
     | Reverse_Order \<Rightarrow> ''reverse'' | Prepare_Replacement \<Rightarrow> ''replacements'' | Replace_Order \<Rightarrow> ''replace''
     | Other_Action t \<Rightarrow> t)"

text \<open>The arguments of the model: clock, identifiers, the log book, people, organizations, fingerprints.\<close>

record 'm order_env =
  oe_now :: time
  oe_id :: "nat \<Rightarrow> string"
  charge_source :: "'m \<Rightarrow> actor \<Rightarrow> string \<Rightarrow> app_error + charged_job"
  sale_source :: "'m \<Rightarrow> actor \<Rightarrow> string \<Rightarrow> string option \<Rightarrow> string option \<Rightarrow> app_error + sale_article"
  sell_from_stock :: "'m \<Rightarrow> actor \<Rightarrow> (string \<times> string \<times> int) list \<Rightarrow> app_error + 'm"
  restock_sale :: "'m \<Rightarrow> actor \<Rightarrow> string \<Rightarrow> app_error + 'm"
  payable_jobs :: "'m \<Rightarrow> string list \<Rightarrow> string \<Rightarrow> (string \<times> int) list"
  oe_person :: "string \<Rightarrow> string option"
  oe_organization :: "string \<Rightarrow> (string \<times> string \<times> bool) option"
  print_command :: "string \<Rightarrow> string \<Rightarrow> string \<Rightarrow> command_input \<Rightarrow> string"
  print_payment :: "string \<Rightarrow> string \<Rightarrow> string \<Rightarrow> record_payment \<Rightarrow> string"
  print_reversal :: "string \<Rightarrow> string \<Rightarrow> string \<Rightarrow> reverse_payment \<Rightarrow> string"
  print_create :: "string \<Rightarrow> string \<Rightarrow> string \<Rightarrow> create_invoice \<Rightarrow> string"
  print_request :: "string \<Rightarrow> string \<Rightarrow> string \<Rightarrow> invoice_command \<Rightarrow> string"
  print_own :: "string \<Rightarrow> string \<Rightarrow> own_payment \<Rightarrow> string"

abbreviation orders_read :: string where "orders_read \<equiv> ''orders.read''"
abbreviation orders_write :: string where "orders_write \<equiv> ''orders.write''"
abbreviation orders_finalize :: string where "orders_finalize \<equiv> ''orders.finalize''"
abbreviation orders_reverse :: string where "orders_reverse \<equiv> ''orders.reverse''"
abbreviation pay_read :: string where "pay_read \<equiv> ''payments.read''"
abbreviation pay_record :: string where "pay_record \<equiv> ''payments.record''"
abbreviation pay_reverse :: string where "pay_reverse \<equiv> ''payments.reverse''"

section \<open>Statements\<close>

definition already_exists :: app_error where
  "already_exists = conflicting ''already_exists'' ''A conflicting financial record exists''"

definition integrity_conflict :: app_error where
  "integrity_conflict = conflicting ''financial_integrity_conflict'' ''The financial operation conflicts with retained records''"

definition log_event :: "actor \<Rightarrow> string \<Rightarrow> string \<Rightarrow> string \<Rightarrow> string list \<Rightarrow> 'm ledger \<Rightarrow> 'm ledger" where
  "log_event p action resource i fs s = s\<lparr>ledger_audit := ledger_audit s @ [audit_entry p action resource i fs]\<rparr>"

definition update_order :: "string \<Rightarrow> (order_row \<Rightarrow> order_row) \<Rightarrow> 'm ledger \<Rightarrow> 'm ledger" where
  "update_order i f s = s\<lparr>orders := map (\<lambda>r. if or_id r = i then f r else r) (orders s)\<rparr>"

definition bump_order :: "string \<Rightarrow> 'm ledger \<Rightarrow> 'm ledger" where
  "bump_order i s = update_order i (\<lambda>r. r\<lparr>or_version := or_version r + 1\<rparr>) s"

definition committed :: "order_row \<Rightarrow> bool" where
  "committed r \<longleftrightarrow> or_status r = Finalized \<or> or_status r = Reversed"


text \<open>TransitionOrder: the index of committed replacements lets one replacement of an order be committed.\<close>

definition transition_order :: "string \<Rightarrow> order_status \<Rightarrow> int \<Rightarrow> 'm ledger \<Rightarrow> app_error + 'm ledger" where
  "transition_order i st charge s =
     (let replaced = (case row_at or_id i (orders s) of None \<Rightarrow> None | Some r \<Rightarrow> or_replaces r) in
      ensure (\<not> (st \<in> {Finalized, Reversed} \<and> replaced \<noteq> None \<and>
                 list_ex (\<lambda>r. or_id r \<noteq> i \<and> or_replaces r = replaced \<and> committed r) (orders s))) already_exists
        (\<lambda>_. Inr (update_order i (\<lambda>r. r\<lparr>or_status := st, or_total := charge, or_version := or_version r + 1\<rparr>) s)))"

definition order_items :: "'m ledger \<Rightarrow> string \<Rightarrow> item_row list" where
  "order_items s i = sort_key it_position (filter (\<lambda>x. it_order x = i) (items s))"

text \<open>GetJobClaim: the order and the item that hold the claim of a job.\<close>

definition job_claim :: "'m ledger \<Rightarrow> string \<Rightarrow> (string \<times> string) option" where
  "job_claim s j =
     (case map_of (claims s) j of
        None \<Rightarrow> None
      | Some i \<Rightarrow> (case row_at it_id i (items s) of None \<Rightarrow> None | Some x \<Rightarrow> Some (it_order x, i)))"

definition claim_job :: "string \<Rightarrow> string \<Rightarrow> 'm ledger \<Rightarrow> 'm ledger" where
  "claim_job j i s = s\<lparr>claims := claims s @ [(j, i)]\<rparr>"

definition release_order_claims :: "string \<Rightarrow> 'm ledger \<Rightarrow> 'm ledger" where
  "release_order_claims i s =
     s\<lparr>claims := filter (\<lambda>(j, x). \<not> list_ex (\<lambda>t. it_id t = x \<and> it_order t = i) (items s)) (claims s)\<rparr>"

definition release_item_claim :: "string \<Rightarrow> 'm ledger \<Rightarrow> 'm ledger" where
  "release_item_claim i s = s\<lparr>claims := filter (\<lambda>(j, x). x \<noteq> i) (claims s)\<rparr>"

definition sum_allocations :: "'m ledger \<Rightarrow> string \<Rightarrow> int" where
  "sum_allocations s i = (\<Sum>a\<leftarrow>filter (\<lambda>a. al_order a = i) (allocations s). al_amount a)"

text \<open>What the allocations of a payment to an order add up to, and the receipts with a positive sum.\<close>

definition allocated_to :: "'m ledger \<Rightarrow> string \<Rightarrow> string \<Rightarrow> int" where
  "allocated_to s p i = (\<Sum>a\<leftarrow>filter (\<lambda>a. al_payment a = p \<and> al_order a = i) (allocations s). al_amount a)"

definition active_receipts :: "'m ledger \<Rightarrow> string \<Rightarrow> payment_row list" where
  "active_receipts s i = sort_key pm_id (filter (\<lambda>p. 0 < allocated_to s (pm_id p) i) (ledger_payments s))"

definition allocated_order :: "'m ledger \<Rightarrow> string \<Rightarrow> string option" where
  "allocated_order s p = map_option al_order (find (\<lambda>a. al_payment a = p \<and> 0 < allocated_to s p (al_order a)) (allocations s))"

definition reversal_exists :: "'m ledger \<Rightarrow> string \<Rightarrow> bool" where
  "reversal_exists s p = list_ex (\<lambda>x. pm_reverses x = Some p) (ledger_payments s)"

definition active_request :: "'m ledger \<Rightarrow> string \<Rightarrow> request_row option" where
  "active_request s i = find (\<lambda>r. rq_order r = Some i \<and> rq_state r \<noteq> Invoice_Cancelled) (requests s)"

text \<open>LatestRequest: the requests are in the order of creation.\<close>

definition latest_request :: "'m ledger \<Rightarrow> string \<Rightarrow> request_row option" where
  "latest_request s i = find (\<lambda>r. rq_order r = Some i) (rev (requests s))"

definition committed_replacement :: "'m ledger \<Rightarrow> string \<Rightarrow> order_row option" where
  "committed_replacement s i = find (\<lambda>r. or_replaces r = Some i \<and> committed r) (orders s)"

text \<open>btrim(x) is empty.\<close>

definition blank :: "string \<Rightarrow> bool" where
  "blank x = list_all (\<lambda>c. c = CHR '' '') x"

text \<open>InsertPayment with the checks of the table on card and external references and the index of card receipts.\<close>

definition insert_payment :: "payment_row \<Rightarrow> 'm ledger \<Rightarrow> app_error + 'm ledger" where
  "insert_payment p s =
     ensure ((pm_method p = ''card'' \<longrightarrow> \<not> blank (pm_source p) \<and> \<not> blank (pm_external p)) \<and>
             (pm_method p = ''external'' \<longrightarrow> \<not> blank (pm_external p))) integrity_conflict (\<lambda>_.
     ensure (\<not> (pm_method p = ''card'' \<and> pm_entry p = ''receipt'' \<and>
               list_ex (\<lambda>x. pm_method x = ''card'' \<and> pm_entry x = ''receipt'' \<and> pm_source x = pm_source p \<and>
                            pm_external x = pm_external p \<and> pm_split x = pm_split p) (ledger_payments s))) already_exists (\<lambda>_.
       Inr (s\<lparr>ledger_payments := ledger_payments s @ [p]\<rparr>)))"

definition draw_id :: "'m order_env \<Rightarrow> 'm ledger \<Rightarrow> string \<times> 'm ledger" where
  "draw_id env s = (oe_id env (drawn s), s\<lparr>drawn := Suc (drawn s)\<rparr>)"

section \<open>Checks\<close>

definition check_version :: "order_row \<Rightarrow> int \<Rightarrow> app_error + unit" where
  "check_version r expected =
     ensure (1 \<le> expected) (invalid ''expectedVersion is required'') (\<lambda>_.
     ensure (or_version r = expected) stale_write (\<lambda>_. Inr ()))"

definition require_draft :: "order_row \<Rightarrow> app_error + unit" where
  "require_draft r = ensure (or_status r = Draft) (conflicting ''order_not_draft'' ''Only draft orders may be edited'') (\<lambda>_. Inr ())"

definition lock_order :: "'m ledger \<Rightarrow> string \<Rightarrow> app_error + order_row" where
  "lock_order s i = (case row_at or_id i (orders s) of None \<Rightarrow> Inl not_found | Some r \<Rightarrow> Inr r)"

text \<open>beginOperation and finishOperation: the retry of an operation finds what it did.\<close>

definition begin_operation :: "'m ledger \<Rightarrow> string \<Rightarrow> string \<Rightarrow> string \<Rightarrow> app_error + operation_row option" where
  "begin_operation s key kind print =
     ensure (key \<noteq> []) (invalid ''operationKey is required'') (\<lambda>_.
     case row_at op_key key (operations s) of
       None \<Rightarrow> Inr None
     | Some op \<Rightarrow> ensure (op_kind op = kind \<and> op_print op = print)
                    (conflicting ''idempotency_conflict'' ''Operation key was used for different input'') (\<lambda>_. Inr (Some op)))"

definition finish_operation :: "actor \<Rightarrow> string \<Rightarrow> string \<Rightarrow> string \<Rightarrow> string \<Rightarrow> 'm ledger \<Rightarrow> 'm ledger" where
  "finish_operation p key kind print i s =
     s\<lparr>operations := operations s @ [\<lparr>op_key = key, op_kind = kind, op_print = print, op_account = act_account p,
                                     op_order = Some i, op_request = None\<rparr>]\<rparr>"

type_synonym customer = "(string \<times> string) option"

definition customer_reference :: "order_row \<Rightarrow> customer" where
  "customer_reference r =
     (case or_person r of Some i \<Rightarrow> Some (''person'', i)
      | None \<Rightarrow> (case or_organization r of Some i \<Rightarrow> Some (''organization'', i) | None \<Rightarrow> None))"

text \<open>validateCustomer: the kind, the person, the organization, the name and the kind of organization.\<close>

definition validate_customer :: "'m order_env \<Rightarrow> customer \<Rightarrow>
    app_error + string \<times> string option \<times> string option \<times> string \<times> string option" where
  "validate_customer env c =
     (case c of
        None \<Rightarrow> Inr (''anonymous'', None, None, [], None)
      | Some (kind, i) \<Rightarrow>
          if kind = ''person'' then
            (case oe_person env i of None \<Rightarrow> Inl not_found | Some n \<Rightarrow> Inr (kind, Some i, None, n, None))
          else if kind = ''organization'' then
            (case oe_organization env i of
               None \<Rightarrow> Inl not_found
             | Some (n, k, active) \<Rightarrow>
                 ensure active (conflicting ''organization_inactive'' ''Organization is inactive'')
                   (\<lambda>_. Inr (kind, None, Some i, n, Some k)))
          else Inl (invalid ''Invalid customer''))"

definition valid_fulfillment :: "string \<Rightarrow> bool" where
  "valid_fulfillment m \<longleftrightarrow> m = ''immediate'' \<or> m = ''deferred''"

definition is_anonymous :: "order_row \<Rightarrow> bool" where
  "is_anonymous r \<longleftrightarrow> or_customer_kind r = ''anonymous''"

definition check_anonymous :: "order_row \<Rightarrow> 'm ledger \<Rightarrow> app_error + unit" where
  "check_anonymous r s =
     ensure (is_anonymous r \<longrightarrow> or_fulfillment r = ''immediate'' \<and> sum_allocations s (or_id r) = or_total r)
       (conflicting ''anonymous_requires_full_settlement''
          ''Anonymous sales require immediate fulfillment and full settlement'') (\<lambda>_. Inr ())"

section \<open>Payments\<close>

text \<open>syncAlreadyPaid: the cash and card figure of a draft invoice request.\<close>

definition sync_already_paid :: "string \<Rightarrow> 'm ledger \<Rightarrow> 'm ledger" where
  "sync_already_paid i s =
     (case active_request s i of
        None \<Rightarrow> s
      | Some r \<Rightarrow>
          if rq_state r \<noteq> Invoice_Draft then s
          else let paid = (\<Sum>a\<leftarrow>filter (\<lambda>a. al_order a = i \<and>
                               list_ex (\<lambda>p. pm_id p = al_payment a \<and> pm_method p \<in> {''cash'', ''card''}) (ledger_payments s))
                             (allocations s). al_amount a)
               in s\<lparr>requests := row_put rq_id (r\<lparr>rq_already_paid := paid\<rparr>) (requests s)\<rparr>)"

definition allocate :: "'m order_env \<Rightarrow> payment_row \<Rightarrow> order_row \<Rightarrow> int \<Rightarrow> string \<Rightarrow> 'm ledger \<Rightarrow> 'm ledger" where
  "allocate env pay r amount op s =
     (let (i, s1) = draw_id env s in
      s1\<lparr>allocations := allocations s1 @
           [\<lparr>al_id = i, al_payment = pm_id pay, al_payment_reference = pm_reference pay, al_order = or_id r,
             al_order_reference = or_reference r, al_amount = amount, al_operation = op\<rparr>]\<rparr>)"

definition amount_frozen :: "request_row \<Rightarrow> string \<Rightarrow> app_error" where
  "amount_frozen r advice = conflicting ''invoice_amount_frozen''
     (''The wiRef request '' @ rq_reference r @ '' states what was already paid; return or cancel it '' @ advice)"

definition check_receipt_input :: "order_row \<Rightarrow> payment_input \<Rightarrow> app_error + int" where
  "check_receipt_input r input =
     ensure (or_status r = Finalized) (conflicting ''order_not_finalized'' ''Payments require a finalized order'') (\<lambda>_.
     ensure (pi_method input \<noteq> ''external'')
       (conflicting ''invoice_settles_balance''
          ''An issued wiRef invoice settles the open balance by itself; it cannot be recorded as a payment'') (\<lambda>_.
     and_then (parse_amount (pi_amount input) 2 True) (\<lambda>amount.
     ensure (pi_at input \<noteq> zero_time) (invalid ''Payment occurrence time is required'') (\<lambda>_.
     ensure (pi_method input = ''cash'' \<or> pi_method input = ''card'') (invalid ''Unsupported payment method'') (\<lambda>_.
     ensure (pi_method input \<noteq> ''card'' \<or> (trim_space (pi_source input) \<noteq> [] \<and> trim_space (pi_external input) \<noteq> []))
       (invalid ''Card terminal and transaction references are required'') (\<lambda>_. Inr amount))))))"

definition book_receipt :: "'m order_env \<Rightarrow> actor \<Rightarrow> order_row \<Rightarrow> payment_input \<Rightarrow> int \<Rightarrow> string \<Rightarrow> 'm ledger \<Rightarrow>
    app_error + 'm ledger" where
  "book_receipt env p r input amount op s =
     (let (i, s1) = draw_id env (s\<lparr>payment_seq := payment_seq s + 1\<rparr>);
          pay = \<lparr>pm_id = i, pm_reference = reference ''P'' (oe_now env) (payment_seq s + 1), pm_entry = ''receipt'',
                 pm_method = pi_method input, pm_amount = amount, pm_at = pi_at input, pm_reverses = None,
                 pm_reversed_reference = None, pm_reason_kind = None, pm_reason = [],
                 pm_source = trim_space (pi_source input), pm_external = trim_space (pi_external input),
                 pm_request = None, pm_split = max (pi_split input) 1\<rparr>
      in and_then (insert_payment pay s1) (\<lambda>s2.
           Inr (log_event p ''payment.recorded'' ''payment'' i [''amount'', ''method'', ''allocations'']
                  (sync_already_paid (or_id r) (bump_order (or_id r) (allocate env pay r amount op s2))))))"

definition receipt :: "'m order_env \<Rightarrow> actor \<Rightarrow> order_row \<Rightarrow> string \<Rightarrow> payment_input \<Rightarrow> 'm ledger \<Rightarrow> app_error + 'm ledger" where
  "receipt env p r op input s =
     and_then (require p [pay_read, pay_record]) (\<lambda>_.
     and_then (check_receipt_input r input) (\<lambda>amount.
     and_then (case active_request s (or_id r) of
                 None \<Rightarrow> Inr ()
               | Some q \<Rightarrow> ensure (rq_state q = Invoice_Draft) (amount_frozen q ''before recording cash or card'') (\<lambda>_. Inr ())) (\<lambda>_.
     ensure (list_all (\<lambda>x. pm_method x \<noteq> ''external'') (active_receipts s (or_id r)))
       (conflicting ''settlement_workflow_conflict''
          ''Cash/card cannot be added while an external invoice payment is active'') (\<lambda>_.
     ensure (amount \<le> or_total r - sum_allocations s (or_id r))
       (conflicting ''payment_exceeds_outstanding'' ''Payment exceeds outstanding amount'') (\<lambda>_.
       book_receipt env p r input amount op s)))))"

definition check_reversal :: "order_row \<Rightarrow> payment_row \<Rightarrow> reversal_input \<Rightarrow> 'm ledger \<Rightarrow> app_error + unit" where
  "check_reversal r original input s =
     (if pm_method original = ''external'' then
        ensure (ri_reason_kind input = ''external_correction'' \<and> trim_space (ri_external input) \<noteq> [])
          (invalid ''External accounting correction evidence is required'') (\<lambda>_.
        ensure (case latest_request s (or_id r) of None \<Rightarrow> False | Some q \<Rightarrow> rq_state q = Invoice_Cancelled)
          (conflicting ''external_reconciliation_required'' ''Confirm external cancellation/correction first'') (\<lambda>_. Inr ()))
      else
        ensure (ri_reason_kind input = ''refund'' \<or> ri_reason_kind input = ''recording_error'')
          (invalid ''Select refund or recording error'') (\<lambda>_.
        case active_request s (or_id r) of
          None \<Rightarrow> Inr ()
        | Some q \<Rightarrow> ensure (rq_state q = Invoice_Draft) (amount_frozen q ''first'') (\<lambda>_. Inr ())))"

text \<open>reverseReceipt from the insertion of the reversal on.\<close>

definition book_reversal :: "'m order_env \<Rightarrow> actor \<Rightarrow> order_row \<Rightarrow> payment_row \<Rightarrow> reversal_input \<Rightarrow> string \<Rightarrow> 'm ledger \<Rightarrow>
    app_error + 'm ledger" where
  "book_reversal env p r original input op s =
     (let (i, s1) = draw_id env (s\<lparr>payment_seq := payment_seq s + 1\<rparr>);
          reversal = \<lparr>pm_id = i, pm_reference = reference ''P'' (oe_now env) (payment_seq s + 1), pm_entry = ''reversal'',
                 pm_method = pm_method original, pm_amount = pm_amount original,
                 pm_at = (if ri_reason_kind input = ''recording_error'' then pm_at original else ri_at input),
                 pm_reverses = Some (pm_id original), pm_reversed_reference = Some (pm_reference original),
                 pm_reason_kind = Some (ri_reason_kind input), pm_reason = trim_space (ri_reason input),
                 pm_source = pm_source original, pm_external = ri_external input,
                 pm_request = pm_request original, pm_split = pm_split original\<rparr>
      in ensure (\<not> (pm_method original = ''card'' \<and> ri_external input = []))
           (invalid ''Card refund/correction reference is required'') (\<lambda>_.
         and_then (insert_payment reversal s1) (\<lambda>s2.
           Inr (log_event p ''payment.reversed'' ''payment'' i [''reversal'', ''allocations'']
                  (sync_already_paid (or_id r) (bump_order (or_id r)
                     (allocate env original r (- pm_amount original) op s2)))))))"

definition reverse_receipt :: "'m order_env \<Rightarrow> actor \<Rightarrow> order_row \<Rightarrow> string \<Rightarrow> reversal_input \<Rightarrow> 'm ledger \<Rightarrow>
    app_error + 'm ledger" where
  "reverse_receipt env p r op input s =
     and_then (require p [pay_read, pay_reverse]) (\<lambda>_.
     case row_at pm_id (ri_payment input) (ledger_payments s) of
       None \<Rightarrow> Inl not_found
     | Some original \<Rightarrow>
         ensure (pm_entry original = ''receipt'') (invalid ''Only original receipts can be reversed'') (\<lambda>_.
         ensure (\<not> reversal_exists s (pm_id original))
           (conflicting ''payment_already_reversed'' ''Payment was already reversed'') (\<lambda>_.
         case allocated_order s (pm_id original) of
           None \<Rightarrow> Inl not_found
         | Some i \<Rightarrow>
             ensure (i = or_id r)
               (conflicting ''payment_allocation_changed'' ''Payment is no longer allocated to this order'') (\<lambda>_.
             ensure (trim_space (ri_reason input) \<noteq> [] \<and> length (trim_space (ri_reason input)) \<le> 500 \<and> ri_at input \<noteq> zero_time)
               (invalid ''Reason and occurrence time are required'') (\<lambda>_.
             and_then (check_reversal r original input s) (\<lambda>_.
               book_reversal env p r original input op s))))))"

text \<open>A loop over operations that stops at the first error.\<close>

fun run_all :: "('a \<Rightarrow> 's \<Rightarrow> app_error + 's) \<Rightarrow> 'a list \<Rightarrow> 's \<Rightarrow> app_error + 's" where
  "run_all f [] s = Inr s"
| "run_all f (x # xs) s = and_then (f x s) (run_all f xs)"


section \<open>Finalizing and reversing\<close>

definition job_order :: "item_row list \<Rightarrow> item_row list" where
  "job_order xs = sort_key (\<lambda>x. the (it_job x)) (filter (\<lambda>x. it_job x \<noteq> None) xs) @ filter (\<lambda>x. it_job x = None) xs"

text \<open>The job of an item at finalization: unchanged since it was added, and claimed by this order.\<close>

definition claim_item :: "'m order_env \<Rightarrow> actor \<Rightarrow> order_row \<Rightarrow> item_row \<Rightarrow> 'm ledger \<Rightarrow> app_error + 'm ledger" where
  "claim_item env p r x s =
     (case it_job x of
        None \<Rightarrow> Inr s
      | Some j \<Rightarrow>
          and_then (charge_source env (logbook s) p j) (\<lambda>job.
          ensure (it_job_version x = Some (cj_version job))
            (conflicting ''source_snapshot_stale'' ''Refresh the changed job snapshot before finalization'') (\<lambda>_.
          case job_claim s (cj_id job) of
            Some (i, _) \<Rightarrow> ensure (i = or_id r) (conflicting ''job_already_ordered'' ''Job still belongs to another order'')
                             (\<lambda>_. Inr s)
          | None \<Rightarrow> Inr (claim_job (cj_id job) (it_id x) s))))"

text \<open>The loop of finalize over the items: their sum, what leaves the stock, and the claims.\<close>

record 'm finalization =
  fin_count :: nat
  fin_total :: int
  fin_sales :: "(string \<times> string \<times> int) list"
  fin_ledger :: "'m ledger"

definition finalize_item :: "'m order_env \<Rightarrow> actor \<Rightarrow> order_row \<Rightarrow> item_row \<Rightarrow> 'm finalization \<Rightarrow>
    app_error + 'm finalization" where
  "finalize_item env p r x f =
     (if it_removed x then Inr f
      else
        ensure (it_kind x \<noteq> ''inventory_item'' \<or> it_material x \<noteq> None)
          (conflicting ''source_unavailable'' ''The sold article is unavailable'') (\<lambda>_.
        and_then (claim_item env p r x (fin_ledger f)) (\<lambda>s.
          Inr \<lparr>fin_count = Suc (fin_count f), fin_total = fin_total f + it_amount x,
               fin_sales = fin_sales f @ (if it_kind x = ''inventory_item''
                                          then [(the (it_material x), it_id x, it_quantity x)] else []),
               fin_ledger = s\<rparr>)))"

definition capture_customer :: "'m order_env \<Rightarrow> order_row \<Rightarrow> 'm ledger \<Rightarrow> app_error + 'm ledger" where
  "capture_customer env r s =
     (if is_anonymous r then Inr s
      else ensure (customer_reference r \<noteq> None)
             (conflicting ''customer_unavailable'' ''Choose a current customer before finalizing'') (\<lambda>_.
           and_then (validate_customer env (customer_reference r)) (\<lambda>(_, _, _, n, k).
             Inr (s\<lparr>snapshots := snapshots s @ [\<lparr>sn_order = or_id r, sn_name = n, sn_kind = k\<rparr>]\<rparr>))))"

definition finalize :: "'m order_env \<Rightarrow> actor \<Rightarrow> order_row \<Rightarrow> 'm ledger \<Rightarrow> app_error + order_row \<times> 'm ledger" where
  "finalize env p r s =
     and_then (require p [orders_finalize]) (\<lambda>_.
     and_then (require_draft r) (\<lambda>_.
     and_then (run_all (finalize_item env p r) (job_order (order_items s (or_id r)))
                 \<lparr>fin_count = 0, fin_total = 0, fin_sales = [], fin_ledger = s\<rparr>) (\<lambda>f.
     ensure (fin_count f \<noteq> 0) (invalid ''An order requires at least one item'') (\<lambda>_.
     ensure (fin_total f < 10 ^ 20) (invalid ''Order total exceeds supported precision'') (\<lambda>_.
     and_then (capture_customer env r (fin_ledger f)) (\<lambda>s1.
     ensure (is_anonymous r \<longrightarrow> or_fulfillment r = ''immediate'')
       (conflicting ''anonymous_requires_full_settlement'' ''Deferred fulfillment requires a named customer'') (\<lambda>_.
     and_then (if fin_sales f = [] then Inr (logbook s1) else sell_from_stock env (logbook s1) p (fin_sales f)) (\<lambda>m.
     and_then (transition_order (or_id r) Finalized (fin_total f) (s1\<lparr>logbook := m\<rparr>)) (\<lambda>s2.
     let s3 = log_event p ''order.finalized'' ''order'' (or_id r) [''status'', ''totalAmount'', ''customerSnapshot''] s2 in
     and_then (lock_order s3 (or_id r)) (\<lambda>r'. Inr (r', s3)))))))))))"

text \<open>The items whose sale is put back, in the order of their articles.\<close>

definition sold_order :: "item_row list \<Rightarrow> item_row list" where
  "sold_order xs =
     (let sold = filter (\<lambda>x. \<not> it_removed x \<and> it_kind x = ''inventory_item'') xs in
      sort_key (\<lambda>x. the (it_material x)) (filter (\<lambda>x. it_material x \<noteq> None) sold) @ filter (\<lambda>x. it_material x = None) sold)"

definition restock_item :: "'m order_env \<Rightarrow> actor \<Rightarrow> item_row \<Rightarrow> 'm ledger \<Rightarrow> app_error + 'm ledger" where
  "restock_item env p x s = and_then (restock_sale env (logbook s) p (it_id x)) (\<lambda>m. Inr (s\<lparr>logbook := m\<rparr>))"

definition adjust_item :: "'m order_env \<Rightarrow> string \<Rightarrow> item_row \<Rightarrow> 'm ledger \<Rightarrow> 'm ledger" where
  "adjust_item env adjustment x s =
     (let (i, s1) = draw_id env s in
      s1\<lparr>adjustment_items := adjustment_items s1 @
           [\<lparr>ai_id = i, ai_adjustment = adjustment, ai_item = it_id x, ai_position = it_position x, ai_amount = it_amount x\<rparr>]\<rparr>)"

definition insert_adjustment :: "'m order_env \<Rightarrow> order_row \<Rightarrow> string \<Rightarrow> 'm ledger \<Rightarrow> 'm ledger" where
  "insert_adjustment env r reason s =
     (let (i, s1) = draw_id env (s\<lparr>adjustment_seq := adjustment_seq s + 1\<rparr>);
          s2 = s1\<lparr>adjustments := adjustments s1 @
                    [\<lparr>ad_id = i, ad_reference = reference ''A'' (oe_now env) (adjustment_seq s + 1), ad_order = or_id r,
                      ad_order_reference = or_reference r, ad_amount = or_total r, ad_reason = reason\<rparr>]\<rparr>
      in fold (adjust_item env i) (filter (\<lambda>x. \<not> it_removed x) (order_items s (or_id r))) s2)"

definition reverse_order :: "'m order_env \<Rightarrow> actor \<Rightarrow> order_row \<Rightarrow> string \<Rightarrow> 'm ledger \<Rightarrow> app_error + 'm ledger" where
  "reverse_order env p r text s =
     and_then (require p [orders_reverse]) (\<lambda>_.
     ensure (or_status r = Finalized) (conflicting ''order_not_finalized'' ''Only finalized orders can be reversed'') (\<lambda>_.
     let reason = trim_space text in
     ensure (reason \<noteq> [] \<and> length reason \<le> 500) (invalid ''Reversal reason is required'') (\<lambda>_.
     ensure (case latest_request s (or_id r) of None \<Rightarrow> True | Some q \<Rightarrow> rq_state q = Invoice_Cancelled)
       (conflicting ''external_reconciliation_required''
          ''Cancel or reconcile the active external invoice request first'') (\<lambda>_.
     ensure (sum_allocations s (or_id r) = 0)
       (conflicting ''payment_reconciliation_required''
          ''Refund/correct payments or transfer them to a replacement first'') (\<lambda>_.
     and_then (run_all (restock_item env p) (sold_order (order_items s (or_id r)))
                 (insert_adjustment env r reason s)) (\<lambda>s1.
     and_then (transition_order (or_id r) Reversed (or_total r) (release_order_claims (or_id r) s1)) (\<lambda>s2.
       Inr (log_event p ''order.reversed'' ''order'' (or_id r) [''status'', ''adjustments''] s2))))))))"

section \<open>Drafts and items\<close>

definition create_order :: "'m order_env \<Rightarrow> actor \<Rightarrow> customer \<Rightarrow> string \<Rightarrow> order_row option \<Rightarrow> 'm ledger \<Rightarrow>
    app_error + order_row \<times> 'm ledger" where
  "create_order env p c mode original s =
     and_then (validate_customer env c) (\<lambda>(kind, person, org, _, _).
     ensure (valid_fulfillment mode) (invalid ''Invalid fulfillment mode'') (\<lambda>_.
     let (i, s1) = draw_id env (s\<lparr>order_seq := order_seq s + 1\<rparr>);
         r = \<lparr>or_id = i, or_reference = reference ''O'' (oe_now env) (order_seq s + 1), or_status = Draft,
              or_customer_kind = kind, or_person = person, or_organization = org, or_fulfillment = mode, or_total = 0,
              or_replaces = map_option or_id original, or_replaces_reference = map_option or_reference original,
              or_version = 1\<rparr>
     in Inr (r, log_event p ''order.created'' ''order'' i [''customer'', ''fulfillmentMode'']
                 (s1\<lparr>orders := orders s1 @ [r]\<rparr>))))"

text \<open>A quantity times a unit price, both in millionths, in cents: decimal's Round(2) of a nonnegative number.\<close>

definition line_amount :: "int \<Rightarrow> int \<Rightarrow> int" where
  "line_amount quantity price = (quantity * price + 5000000000) div 10000000000"

record item_values =
  iv_description :: string
  iv_unit :: string
  iv_quantity :: int
  iv_price :: int
  iv_amount :: int
  iv_job :: "string option"
  iv_job_version :: "int option"
  iv_material :: "string option"

definition priced :: "int \<Rightarrow> int \<Rightarrow> (int \<Rightarrow> item_values) \<Rightarrow> app_error + item_values" where
  "priced quantity price f =
     ensure (line_amount quantity price < 10 ^ 20) (invalid ''Item amount exceeds supported precision'')
       (\<lambda>_. Inr (f (line_amount quantity price)))"

definition manual_values :: "item_input \<Rightarrow> app_error + item_values" where
  "manual_values input =
     and_then (parse_amount (ii_quantity input) 6 True) (\<lambda>quantity.
     and_then (parse_amount (ii_unit_price input) 6 False) (\<lambda>price.
     priced quantity price (\<lambda>amount. \<lparr>iv_description = trim_space (ii_description input), iv_unit = trim_space (ii_unit input),
       iv_quantity = quantity, iv_price = price, iv_amount = amount, iv_job = None, iv_job_version = None, iv_material = None\<rparr>)))"

text \<open>A machine job: the charge of its snapshot, one job at the price of the job.\<close>

definition job_values :: "'m order_env \<Rightarrow> actor \<Rightarrow> item_input \<Rightarrow> 'm ledger \<Rightarrow> app_error + item_values" where
  "job_values env p input s =
     and_then (charge_source env (logbook s) p (ii_job input)) (\<lambda>job.
     ensure (1 \<le> ii_job_version input \<and> cj_version job = ii_job_version input) stale_write (\<lambda>_.
     case cj_effective job of
       None \<Rightarrow> Inl (conflicting ''pricing_incomplete'' ''A calculated charge or explicit final override is required'')
     | Some charge \<Rightarrow>
         ensure (cj_priced job)
           (conflicting ''pricing_incomplete'' ''A calculated charge or explicit final override is required'') (\<lambda>_.
         let text = trim_space (ii_description input) in
         and_then (parse_amount charge 2 False) (\<lambda>amount.
           Inr \<lparr>iv_description = (if text = [] then cj_display job @ '' '' @ [CHR 0xC2, CHR 0xB7] @ '' '' @ cj_machine job else text),
                iv_unit = ''job'', iv_quantity = 1000000, iv_price = amount * 10000, iv_amount = amount,
                iv_job = Some (cj_id job), iv_job_version = Some (cj_version job), iv_material = None\<rparr>))))"

definition article_values :: "'m order_env \<Rightarrow> actor \<Rightarrow> order_row \<Rightarrow> item_input \<Rightarrow> 'm ledger \<Rightarrow> app_error + item_values" where
  "article_values env p r input s =
     ensure (ii_material input \<noteq> []) (invalid ''materialId is required'') (\<lambda>_.
     and_then (sale_source env (logbook s) p (ii_material input) (or_person r) (or_organization r)) (\<lambda>article.
     ensure (sa_active article) (conflicting ''article_inactive'' ''The article is inactive and cannot be sold'') (\<lambda>_.
     and_then (parse_amount (ii_quantity input) 6 True) (\<lambda>quantity.
     let text = trim_space (ii_unit_price input);
         price_text = (if text = [] then (case sa_price article of None \<Rightarrow> [] | Some t \<Rightarrow> t) else text) in
     ensure (price_text \<noteq> [])
       (new_error 422 ''article_price_missing''
          ''The article has no price in the customer's pricing group; add a stock_article pricing rule or enter a unit price''
        \<lparr>err_details := [(''pricingGroup'', sa_group article)]\<rparr>) (\<lambda>_.
     and_then (parse_amount price_text 6 False) (\<lambda>price.
     priced quantity price (\<lambda>amount. \<lparr>iv_description = sa_name article,
       iv_unit = (case sa_count_label article of None \<Rightarrow> sa_unit article | Some l \<Rightarrow> l),
       iv_quantity = quantity, iv_price = price, iv_amount = amount, iv_job = None, iv_job_version = None,
       iv_material = Some (sa_id article)\<rparr>)))))))"

text \<open>InsertItem with the index of the active jobs of an order; the claim of the job.\<close>

definition store_item :: "'m order_env \<Rightarrow> order_row \<Rightarrow> string \<Rightarrow> string \<Rightarrow> item_values \<Rightarrow> 'm ledger \<Rightarrow> app_error + 'm ledger" where
  "store_item env r i kind v s =
     ensure (\<not> (iv_job v \<noteq> None \<and>
               list_ex (\<lambda>x. it_order x = or_id r \<and> \<not> it_removed x \<and> it_job x = iv_job v) (items s))) already_exists (\<lambda>_.
     let x = \<lparr>it_id = i, it_order = or_id r, it_position = fold max (map it_position (order_items s (or_id r))) 0 + 1,
              it_kind = kind, it_description = iv_description v, it_quantity = iv_quantity v, it_unit = iv_unit v,
              it_unit_price = iv_price v, it_amount = iv_amount v, it_job = iv_job v, it_job_version = iv_job_version v,
              it_material = iv_material v, it_removed = False\<rparr>;
         s1 = s\<lparr>items := items s @ [x]\<rparr> in
     case iv_job v of
       None \<Rightarrow> Inr s1
     | Some j \<Rightarrow>
         (case job_claim s1 j of
            Some (h, _) \<Rightarrow> ensure (or_replaces r = Some h)
              (conflicting ''job_already_ordered'' ''This job belongs to another active order'') (\<lambda>_. Inr s1)
          | None \<Rightarrow> Inr (claim_job j i s1)))"

definition insert_item :: "'m order_env \<Rightarrow> actor \<Rightarrow> order_row \<Rightarrow> item_input \<Rightarrow> 'm ledger \<Rightarrow> app_error + 'm ledger" where
  "insert_item env p r input s0 =
     (let (i, s) = draw_id env s0 in
      and_then (if ii_kind input = ''manual'' then manual_values input
                else if ii_kind input = ''machine_job'' then job_values env p input s
                else if ii_kind input = ''inventory_item'' then article_values env p r input s
                else Inl (invalid ''Invalid item kind'')) (\<lambda>v.
      ensure (iv_description v \<noteq> [] \<and> length (iv_description v) \<le> 500 \<and> iv_unit v \<noteq> [] \<and> length (iv_unit v) \<le> 40)
        (invalid ''Description and unit are required and must fit their limits'') (\<lambda>_.
      and_then (store_item env r i (ii_kind input) v s) (\<lambda>s1.
        Inr (log_event p ''order.item_added'' ''order'' (or_id r) [''items''] (bump_order (or_id r) s1))))))"


definition remove_item :: "actor \<Rightarrow> string \<Rightarrow> string \<Rightarrow> 'm ledger \<Rightarrow> 'm ledger" where
  "remove_item p r i s =
     log_event p ''order.item_removed'' ''order'' r [''items'']
       (release_item_claim i s\<lparr>items := map (\<lambda>x. if it_id x = i then x\<lparr>it_removed := True\<rparr> else x) (items s)\<rparr>)"

datatype item_action = Add_Item | Refresh_Item | Remove_Item

text \<open>The item an action takes out of the order, and the input that replaces it.\<close>

definition take_item :: "'m order_env \<Rightarrow> actor \<Rightarrow> string \<Rightarrow> string \<Rightarrow> item_input \<Rightarrow> item_action \<Rightarrow> 'm ledger \<Rightarrow>
    app_error + item_input \<times> 'm ledger" where
  "take_item env p r i input action s =
     (if action = Add_Item then Inr (input, s)
      else case find (\<lambda>x. it_id x = i \<and> it_order x = r) (items s) of
             None \<Rightarrow> Inl not_found
           | Some old \<Rightarrow>
               ensure (\<not> it_removed old) (conflicting ''item_removed'' ''Item has already been removed'') (\<lambda>_.
               let s1 = remove_item p r i s in
               if action = Remove_Item then Inr (input, s1)
               else case it_job old of
                      None \<Rightarrow> Inl (invalid ''Only job items can be refreshed'')
                    | Some j \<Rightarrow>
                        and_then (charge_source env (logbook s1) p j) (\<lambda>job.
                          Inr (\<lparr>ii_kind = ''machine_job'', ii_description = it_description old, ii_quantity = [], ii_unit = [],
                                ii_unit_price = [], ii_job = cj_id job, ii_material = [], ii_job_version = cj_version job,
                                ii_version = 0\<rparr>, s1))))"

definition change_item :: "'m order_env \<Rightarrow> actor \<Rightarrow> string \<Rightarrow> string \<Rightarrow> item_input \<Rightarrow> item_action \<Rightarrow> 'm ledger \<Rightarrow>
    app_error + 'm ledger" where
  "change_item env p id_order i input action s =
     and_then (require p [orders_read, orders_write]) (\<lambda>_.
     and_then (lock_order s id_order) (\<lambda>r.
     and_then (check_version r (ii_version input)) (\<lambda>_.
     and_then (require_draft r) (\<lambda>_.
     and_then (take_item env p id_order i input action s) (\<lambda>(input', s1).
     and_then (if action = Remove_Item then Inr (bump_order id_order s1) else insert_item env p r input' s1) (\<lambda>s2.
       Inr (if action = Refresh_Item
            then log_event p ''order.item_refreshed'' ''order'' id_order [''items''] s2 else s2)))))))"

record update_draft_input =
  ud_preserve :: bool
  ud_customer :: customer
  ud_fulfillment :: string
  ud_version :: int

definition create_draft :: "'m order_env \<Rightarrow> actor \<Rightarrow> customer \<Rightarrow> string \<Rightarrow> 'm ledger \<Rightarrow> app_error + order_row \<times> 'm ledger" where
  "create_draft env p c mode s =
     and_then (require p [orders_read, orders_write]) (\<lambda>_. create_order env p c mode None s)"

definition update_draft :: "'m order_env \<Rightarrow> actor \<Rightarrow> string \<Rightarrow> update_draft_input \<Rightarrow> 'm ledger \<Rightarrow> app_error + 'm ledger" where
  "update_draft env p i input s =
     and_then (require p [orders_read, orders_write]) (\<lambda>_.
     and_then (lock_order s i) (\<lambda>r.
     and_then (validate_customer env (if ud_preserve input then customer_reference r else ud_customer input))
       (\<lambda>(kind, person, org, _, _).
     and_then (check_version r (ud_version input)) (\<lambda>_.
     and_then (require_draft r) (\<lambda>_.
     ensure (valid_fulfillment (ud_fulfillment input)) (invalid ''Invalid fulfillment mode'') (\<lambda>_.
       Inr (log_event p ''order.updated'' ''order'' i [''customer'', ''fulfillmentMode'']
              (update_order i (\<lambda>r. r\<lparr>or_customer_kind := kind, or_person := person, or_organization := org,
                                     or_fulfillment := ud_fulfillment input, or_version := or_version r + 1\<rparr>) s))))))))"

section \<open>What an order shows\<close>

datatype settlement = Unpaid | No_Payment_Due | Paid | Partially_Paid

record order_view =
  ov_order :: order_row
  ov_items :: "item_row list"
  ov_allocations :: "alloc_row list"
  ov_adjustments :: "adjustment_row list"
  ov_total :: string
  ov_net :: string
  ov_settled :: string
  ov_outstanding :: string
  ov_settlement :: settlement
  ov_active_request :: "request_row option"

definition item_total :: "'m ledger \<Rightarrow> string \<Rightarrow> int" where
  "item_total s i = (\<Sum>x\<leftarrow>filter (\<lambda>x. \<not> it_removed x) (order_items s i). it_amount x)"

definition gross_total :: "'m ledger \<Rightarrow> order_row \<Rightarrow> int" where
  "gross_total s r = (if or_status r = Draft then item_total s (or_id r) else or_total r)"

definition net_charge :: "'m ledger \<Rightarrow> order_row \<Rightarrow> int" where
  "net_charge s r = gross_total s r - (\<Sum>a\<leftarrow>filter (\<lambda>a. ad_order a = or_id r) (adjustments s). ad_amount a)"

definition settlement_of :: "int \<Rightarrow> int \<Rightarrow> settlement" where
  "settlement_of net settled =
     (if net = 0 then No_Payment_Due else if settled = net then Paid else if 0 < settled then Partially_Paid else Unpaid)"

definition load_order :: "'m ledger \<Rightarrow> string \<Rightarrow> app_error + order_view" where
  "load_order s i =
     and_then (lock_order s i) (\<lambda>r.
     let net = net_charge s r; settled = sum_allocations s i in
     Inr \<lparr>ov_order = r, ov_items = order_items s i, ov_allocations = filter (\<lambda>a. al_order a = i) (allocations s),
          ov_adjustments = filter (\<lambda>a. ad_order a = i) (adjustments s), ov_total = money (gross_total s r),
          ov_net = money net, ov_settled = money settled, ov_outstanding = money (net - settled),
          ov_settlement = settlement_of net settled, ov_active_request = active_request s i\<rparr>)"

section \<open>Commands\<close>

definition command_permission :: "order_action \<Rightarrow> string" where
  "command_permission a =
     (if a = Cancel_Order \<or> a = Prepare_Replacement then orders_write
      else if a = Reverse_Order \<or> a = Replace_Order then orders_reverse else orders_finalize)"

definition cancel_order :: "actor \<Rightarrow> order_row \<Rightarrow> 'm ledger \<Rightarrow> app_error + string \<times> 'm ledger" where
  "cancel_order p r s =
     and_then (require_draft r) (\<lambda>_.
     and_then (transition_order (or_id r) Cancelled (or_total r) (release_order_claims (or_id r) s)) (\<lambda>s1.
       Inr (or_id r, log_event p ''order.cancelled'' ''order'' (or_id r) [''status''] s1)))"

definition finalize_and_pay :: "'m order_env \<Rightarrow> actor \<Rightarrow> command_input \<Rightarrow> order_row \<Rightarrow> 'm ledger \<Rightarrow>
    app_error + string \<times> 'm ledger" where
  "finalize_and_pay env p input r s =
     ensure (or_replaces_reference r = None)
       (conflicting ''replacement_commit_required'' ''Finalize replacements through their original order'') (\<lambda>_.
     and_then (finalize env p r s) (\<lambda>(r1, s1).
     and_then (run_all (receipt env p r1 (oc_key input)) (oc_payments input) s1) (\<lambda>s2.
     and_then (check_anonymous r1 s2) (\<lambda>_. Inr (or_id r, s2)))))"

definition reverse_command :: "'m order_env \<Rightarrow> actor \<Rightarrow> command_input \<Rightarrow> order_row \<Rightarrow> 'm ledger \<Rightarrow>
    app_error + string \<times> 'm ledger" where
  "reverse_command env p input r s =
     and_then (run_all (reverse_receipt env p r (oc_key input)) (oc_reversals input) s) (\<lambda>s1.
     and_then (reverse_order env p r (oc_reason input) s1) (\<lambda>s2. Inr (or_id r, s2)))"

text \<open>Quantities and prices in text: decimal's String of a number of millionths, without trailing zeros.\<close>

definition millionths_text :: "int \<Rightarrow> string" where
  "millionths_text n =
     (let frac = rev (dropWhile (\<lambda>c. c = CHR ''0'') (rev (zero_padded 6 (n mod 1000000)))) in
      itoa (n div 1000000) @ (if frac = [] then [] else CHR ''.'' # frac))"

text \<open>The items of an order as inputs of its replacement: jobs at their current charge, articles at the old price.\<close>

definition copy_item :: "'m order_env \<Rightarrow> actor \<Rightarrow> order_row \<Rightarrow> item_row \<Rightarrow> 'm ledger \<Rightarrow> app_error + 'm ledger" where
  "copy_item env p r x s =
     (if it_removed x then Inr s
      else
        ensure (it_kind x \<noteq> ''inventory_item'' \<or> it_material x \<noteq> None)
          (conflicting ''source_unavailable'' ''The sold article is unavailable; add a manual replacement item explicitly'') (\<lambda>_.
        and_then
          (case it_job x of
             Some j \<Rightarrow> and_then (charge_source env (logbook s) p j) (\<lambda>job. Inr (cj_id job, cj_version job))
           | None \<Rightarrow> ensure (it_kind x \<noteq> ''machine_job'')
                       (conflicting ''source_unavailable'' ''The original job is unavailable; add a manual replacement item explicitly'')
                       (\<lambda>_. Inr ([], 0)))
          (\<lambda>(j, version).
            insert_item env p r
              \<lparr>ii_kind = it_kind x, ii_description = it_description x, ii_quantity = millionths_text (it_quantity x),
               ii_unit = it_unit x, ii_unit_price = millionths_text (it_unit_price x), ii_job = j,
               ii_material = (if it_kind x = ''inventory_item'' then the (it_material x) else []),
               ii_job_version = version, ii_version = 0\<rparr> s)))"

definition prepare_replacement :: "'m order_env \<Rightarrow> actor \<Rightarrow> order_row \<Rightarrow> 'm ledger \<Rightarrow> app_error + string \<times> 'm ledger" where
  "prepare_replacement env p r s =
     ensure (committed r) (conflicting ''order_not_finalized'' ''Replacement requires finalized or reversed original'') (\<lambda>_.
     ensure (committed_replacement s (or_id r) = None)
       (conflicting ''order_already_replaced'' ''This order already has a committed replacement'') (\<lambda>_.
     and_then (create_order env p (customer_reference r) (or_fulfillment r) (Some r) s) (\<lambda>(r1, s1).
     and_then (run_all (copy_item env p r1) (order_items s1 (or_id r)) s1) (\<lambda>s2. Inr (or_id r1, s2)))))"

definition check_replacement :: "command_input \<Rightarrow> order_row \<Rightarrow> order_row \<Rightarrow> 'm ledger \<Rightarrow> app_error + unit" where
  "check_replacement input r next_row s =
     and_then (check_version next_row (oc_replacement_version input)) (\<lambda>_.
     and_then (require_draft next_row) (\<lambda>_.
     ensure (or_replaces next_row = Some (or_id r)) (invalid ''Replacement is not linked to this original'') (\<lambda>_.
     ensure (committed r) (conflicting ''order_not_finalized'' ''Original is no longer replaceable'') (\<lambda>_.
     ensure (case latest_request s (or_id r) of None \<Rightarrow> True | Some q \<Rightarrow> rq_state q = Invoice_Cancelled)
       (conflicting ''external_reconciliation_required'' ''Resolve external invoicing first'') (\<lambda>_. Inr ())))))"

definition move_receipt :: "'m order_env \<Rightarrow> actor \<Rightarrow> string \<Rightarrow> order_row \<Rightarrow> payment_row \<Rightarrow> 'm ledger \<Rightarrow> app_error + 'm ledger" where
  "move_receipt env p op r pay s =
     Inr (log_event p ''payment.reallocated'' ''payment'' (pm_id pay) [''allocations''] (allocate env pay r (pm_amount pay) op s))"

text \<open>The receipts that are carried forward to the replacement, when its total covers them.\<close>

definition carried_receipts :: "'m ledger \<Rightarrow> order_row \<Rightarrow> order_row \<Rightarrow> app_error + payment_row list" where
  "carried_receipts s r next_row =
     (let carried = active_receipts s (or_id r) in
      ensure (list_all (\<lambda>x. pm_method x \<noteq> ''external'') carried)
        (conflicting ''external_reconciliation_required'' ''External payments cannot be carried forward'') (\<lambda>_.
      and_then (load_order s (or_id next_row)) (\<lambda>preview.
      and_then (parse_amount (ov_total preview) 2 False) (\<lambda>new_total.
      ensure (sum_list (map pm_amount carried) \<le> new_total)
        (conflicting ''payment_exceeds_outstanding''
           ''Reverse whole receipts explicitly before replacing with a lower total'') (\<lambda>_. Inr carried)))))"

definition replace_order :: "'m order_env \<Rightarrow> actor \<Rightarrow> command_input \<Rightarrow> order_row \<Rightarrow> order_row \<Rightarrow> 'm ledger \<Rightarrow>
    app_error + string \<times> 'm ledger" where
  "replace_order env p input r next_row s =
     and_then (require p [orders_finalize, pay_read, pay_record]) (\<lambda>_.
     and_then (check_replacement input r next_row s) (\<lambda>_.
     and_then (run_all (reverse_receipt env p r (oc_key input)) (oc_reversals input) s) (\<lambda>s1.
     and_then (carried_receipts s1 r next_row) (\<lambda>carried.
     let s2 = fold (\<lambda>pay. allocate env pay r (- pm_amount pay) (oc_key input)) carried s1 in
     and_then (if or_status r = Finalized then reverse_order env p r (oc_reason input) s2
               else Inr (bump_order (or_id r) s2)) (\<lambda>s3.
     and_then (finalize env p next_row s3) (\<lambda>(r4, s4).
     and_then (run_all (move_receipt env p (oc_key input) r4) carried s4) (\<lambda>s5.
     and_then (run_all (receipt env p r4 (oc_key input)) (oc_payments input) s5) (\<lambda>s6.
     and_then (check_anonymous r4 s6) (\<lambda>_.
       Inr (or_id r4, log_event p ''order.replaced'' ''order'' (or_id r) [''replacement''] s6))))))))))"

text \<open>The order and its replacement, locked in the order of their identifiers; the same order twice is no replacement.\<close>

definition lock_pair :: "'m ledger \<Rightarrow> string \<Rightarrow> string \<Rightarrow> app_error + order_row \<times> order_row option" where
  "lock_pair s i j =
     and_then (lock_order s i) (\<lambda>r.
       if j = i then Inr (r, None) else and_then (lock_order s j) (\<lambda>r'. Inr (r, Some r')))"

definition run_command :: "'m order_env \<Rightarrow> actor \<Rightarrow> string \<Rightarrow> command_input \<Rightarrow> order_action \<Rightarrow> 'm ledger \<Rightarrow>
    app_error + string \<times> 'm ledger" where
  "run_command env p i input action s =
     (if action = Replace_Order then
        ensure (oc_replacement input \<noteq> []) (invalid ''Replacement order is required'') (\<lambda>_.
        and_then (lock_pair s i (oc_replacement input)) (\<lambda>(r, next_row).
        and_then (check_version r (oc_version input)) (\<lambda>_.
        case next_row of
          None \<Rightarrow> and_then (require p [orders_finalize, pay_read, pay_record]) (\<lambda>_.
                    ensure (1 \<le> oc_replacement_version input) (invalid ''expectedVersion is required'') (\<lambda>_. Inl stale_write))
        | Some r' \<Rightarrow> replace_order env p input r r' s)))
      else
        and_then (lock_order s i) (\<lambda>r.
        and_then (check_version r (oc_version input)) (\<lambda>_.
        case action of
          Cancel_Order \<Rightarrow> cancel_order p r s
        | Finalize_Order \<Rightarrow> finalize_and_pay env p input r s
        | Checkout_Order \<Rightarrow> finalize_and_pay env p input r s
        | Reverse_Order \<Rightarrow> reverse_command env p input r s
        | Prepare_Replacement \<Rightarrow> prepare_replacement env p r s
        | _ \<Rightarrow> Inl (invalid ''Unsupported order action''))))"

text \<open>The frame of an operation under a key: a retry shows what the operation left.\<close>

definition once :: "string \<Rightarrow> string \<Rightarrow> string \<Rightarrow> actor \<Rightarrow> (operation_row \<Rightarrow> app_error + string option) \<Rightarrow>
    ('m ledger \<Rightarrow> app_error + string \<times> 'm ledger) \<Rightarrow> 'm ledger \<Rightarrow> app_error + 'm ledger \<times> order_view" where
  "once key kind print p repeat run s =
     and_then (begin_operation s key kind print) (\<lambda>old.
     and_then (case old of None \<Rightarrow> Inr None | Some op \<Rightarrow> repeat op) (\<lambda>done_for.
     case done_for of
       Some i \<Rightarrow> and_then (load_order s i) (\<lambda>v. Inr (s, v))
     | None \<Rightarrow>
         and_then (run s) (\<lambda>(i, s1).
         let s2 = finish_operation p key kind print i s1 in
         and_then (load_order s2 i) (\<lambda>v. Inr (s2, v)))))"

definition expired :: "string \<Rightarrow> operation_row \<Rightarrow> app_error + string option" where
  "expired m op = (case op_order op of None \<Rightarrow> Inl (conflicting ''operation_expired'' m) | Some i \<Rightarrow> Inr (Some i))"

definition order_command :: "'m order_env \<Rightarrow> actor \<Rightarrow> string \<Rightarrow> command_input \<Rightarrow> order_action \<Rightarrow> 'm ledger \<Rightarrow>
    app_error + 'm ledger \<times> order_view" where
  "order_command env p i input action s =
     and_then (require p [orders_read, command_permission action]) (\<lambda>_.
     and_then (if oc_reversals input \<noteq> [] then require p [pay_read, pay_reverse] else Inr ()) (\<lambda>_.
     and_then (if oc_payments input \<noteq> [] \<or> action = Checkout_Order then require p [pay_read, pay_record] else Inr ()) (\<lambda>_.
     let kind = ''order.'' @ action_text action in
     once (oc_key input) kind (print_command env (act_account p) kind i input) p (expired ''Operation result is unavailable'')
       (run_command env p i input action) s)))"

definition record_order_payment :: "'m order_env \<Rightarrow> actor \<Rightarrow> string \<Rightarrow> record_payment \<Rightarrow> 'm ledger \<Rightarrow>
    app_error + 'm ledger \<times> order_view" where
  "record_order_payment env p i input s =
     and_then (require p [orders_read, pay_read, pay_record]) (\<lambda>_.
     once (rp_key input) ''payment.record'' (print_payment env (act_account p) ''payment.record'' i input) p
       (expired ''Operation source is unavailable'')
       (\<lambda>s. and_then (lock_order s i) (\<lambda>r.
            and_then (check_version r (rp_version input)) (\<lambda>_.
            and_then (receipt env p r (rp_key input) (rp_payment input) s) (\<lambda>s1. Inr (i, s1))))) s)"

definition reverse_order_payment :: "'m order_env \<Rightarrow> actor \<Rightarrow> string \<Rightarrow> reverse_payment \<Rightarrow> 'm ledger \<Rightarrow>
    app_error + 'm ledger \<times> order_view" where
  "reverse_order_payment env p i input s =
     and_then (require p [orders_read, pay_read, pay_reverse]) (\<lambda>_.
     ensure (ri_payment (rv_reversal input) = i) (invalid ''Reversal payment ID does not match resource'') (\<lambda>_.
     once (rv_key input) ''payment.reverse'' (print_reversal env (act_account p) ''payment.reverse'' i input) p
       (\<lambda>op. Inr (op_order op))
       (\<lambda>s. case allocated_order s i of
              None \<Rightarrow> Inl (conflicting ''payment_already_reversed'' ''No current allocation exists'')
            | Some j \<Rightarrow>
                and_then (lock_order s j) (\<lambda>r.
                and_then (check_version r (rv_version input)) (\<lambda>_.
                and_then (reverse_receipt env p r (rv_key input) (rv_reversal input) s) (\<lambda>s1.
                and_then (case rv_replacement input of None \<Rightarrow> Inr s1 | Some q \<Rightarrow> receipt env p r (rv_key input) q s1) (\<lambda>s2.
                and_then (check_anonymous r s2) (\<lambda>_. Inr (or_id r, s2))))))) s))"

end
