(* ===== verification/Order_Balance.thy ===== *)
theory Order_Balance
  imports Order_Ledger "HOL-Library.Multiset"
begin

text \<open>
  The books of the orders balance after every operation: what the deferred integrity checks of the database
  demand at commit (migration 00029: \<open>order_balanced\<close>, \<open>receipt_balanced\<close>) holds without them. Inside an operation
  some receipts may be on their way from one order to another, and an anonymous order may not be settled yet; the
  invariant \<open>ledger_ok\<close> names both sets.
\<close>

section \<open>The invariant\<close>

record order_core =
  co_id :: string
  co_status :: order_status
  co_total :: int
  co_anonymous :: bool
  co_immediate :: bool

definition core :: "order_row \<Rightarrow> order_core" where
  "core r = \<lparr>co_id = or_id r, co_status = or_status r, co_total = or_total r, co_anonymous = is_anonymous r,
             co_immediate = (or_fulfillment r = ''immediate'')\<rparr>"

definition cores :: "'m ledger \<Rightarrow> order_core list" where
  "cores s = map core (orders s)"

definition adjusted :: "'m ledger \<Rightarrow> string \<Rightarrow> int" where
  "adjusted s i = (\<Sum>a\<leftarrow>filter (\<lambda>a. ad_order a = i) (adjustments s). ad_amount a)"

text \<open>check_order_financial_integrity; an order of \<open>X\<close> may be anonymous and not yet settled.\<close>

definition order_balanced :: "string set \<Rightarrow> 'm ledger \<Rightarrow> order_core \<Rightarrow> bool" where
  "order_balanced X s c \<longleftrightarrow>
     0 \<le> sum_allocations s (co_id c) \<and> sum_allocations s (co_id c) \<le> co_total c - adjusted s (co_id c) \<and>
     (case co_status c of
        Draft \<Rightarrow> sum_allocations s (co_id c) = 0 \<and> adjusted s (co_id c) = 0
      | Cancelled \<Rightarrow> sum_allocations s (co_id c) = 0 \<and> adjusted s (co_id c) = 0
      | Finalized \<Rightarrow> adjusted s (co_id c) = 0 \<and> co_total c = item_total s (co_id c) \<and>
          (\<exists>x\<in>set (items s). it_order x = co_id c \<and> \<not> it_removed x) \<and>
          (co_anonymous c \<longrightarrow> co_immediate c \<and> (co_id c \<notin> X \<longrightarrow> sum_allocations s (co_id c) = co_total c))
      | Reversed \<Rightarrow> adjusted s (co_id c) = co_total c \<and> sum_allocations s (co_id c) = 0)"

text \<open>check_payment_financial_integrity: a receipt is allocated to one order in full, or reversed; one of \<open>L\<close> is on its way.\<close>

definition receipt_balanced :: "string set \<Rightarrow> 'm ledger \<Rightarrow> payment_row \<Rightarrow> bool" where
  "receipt_balanced L s p \<longleftrightarrow>
     0 < pm_amount p \<and>
     (if pm_id p \<in> L \<or> reversal_exists s (pm_id p) then \<forall>i. allocated_to s (pm_id p) i = 0
      else \<exists>h. \<forall>i. allocated_to s (pm_id p) i = (if i = h then pm_amount p else 0))"

definition reversal_balanced :: "'m ledger \<Rightarrow> payment_row \<Rightarrow> bool" where
  "reversal_balanced s x \<longleftrightarrow>
     (if pm_entry x = ''receipt'' then pm_reverses x = None
      else \<exists>p\<in>set (ledger_payments s). pm_reverses x = Some (pm_id p) \<and> pm_entry p = ''receipt'' \<and>
             pm_amount x = pm_amount p \<and> pm_method x = pm_method p \<and> pm_reversed_reference x = Some (pm_reference p))"

definition links_ok :: "'m ledger \<Rightarrow> bool" where
  "links_ok s \<longleftrightarrow>
     (\<forall>a\<in>set (allocations s). (\<exists>p\<in>set (ledger_payments s). pm_id p = al_payment a \<and> pm_entry p = ''receipt'') \<and>
        al_order a \<in> co_id ` set (cores s)) \<and>
     (\<forall>a\<in>set (adjustments s). ad_order a \<in> co_id ` set (cores s)) \<and>
     (\<forall>x\<in>set (items s). it_order x \<in> co_id ` set (cores s) \<and> 0 \<le> it_amount x)"

definition keys_ok :: "'m order_env \<Rightarrow> 'm ledger \<Rightarrow> bool" where
  "keys_ok env s \<longleftrightarrow>
     distinct (map co_id (cores s)) \<and> distinct (map pm_id (ledger_payments s)) \<and> distinct (map it_id (items s)) \<and>
     (\<forall>k\<ge>drawn s. oe_id env k \<notin> co_id ` set (cores s) \<union> pm_id ` set (ledger_payments s) \<union> it_id ` set (items s))"

definition ledger_ok :: "'m order_env \<Rightarrow> string set \<Rightarrow> string set \<Rightarrow> 'm ledger \<Rightarrow> bool" where
  "ledger_ok env L X s \<longleftrightarrow>
     keys_ok env s \<and> links_ok s \<and> (\<forall>c\<in>set (cores s). order_balanced X s c) \<and>
     (\<forall>p\<in>set (ledger_payments s). (pm_entry p = ''receipt'' \<longrightarrow> receipt_balanced L s p) \<and> reversal_balanced s p) \<and>
     (\<forall>p\<in>L. \<not> reversal_exists s p)"

text \<open>The order a caller holds is the row of the table, but for its version.\<close>

definition current :: "order_row \<Rightarrow> 'm ledger \<Rightarrow> bool" where
  "current r s \<longleftrightarrow> core r \<in> set (cores s)"

section \<open>What each statement leaves alone\<close>

text \<open>The part of the ledger the invariant is about.\<close>

definition books :: "'m ledger \<Rightarrow> order_core list \<times> item_row list \<times> payment_row list \<times> alloc_row list \<times> adjustment_row list" where
  "books s = (cores s, items s, ledger_payments s, allocations s, adjustments s)"

lemma books_fields:
  assumes "books s' = books s"
  shows "cores s' = cores s" "items s' = items s" "ledger_payments s' = ledger_payments s"
    "allocations s' = allocations s" "adjustments s' = adjustments s"
  using assms by (simp_all add: books_def)

lemma books_sums:
  assumes "books s' = books s"
  shows "sum_allocations s' i = sum_allocations s i" "adjusted s' i = adjusted s i" "item_total s' i = item_total s i"
    "allocated_to s' p i = allocated_to s p i" "reversal_exists s' p = reversal_exists s p"
    "active_receipts s' i = active_receipts s i" "order_items s' i = order_items s i" "current r s' = current r s"
  using books_fields[OF assms]
  by (simp_all add: sum_allocations_def adjusted_def item_total_def order_items_def allocated_to_def reversal_exists_def
      active_receipts_def current_def)

lemma ledger_ok_books:
  assumes "books s' = books s" "drawn s \<le> drawn s'" "ledger_ok env L X s"
  shows "ledger_ok env L X s'"
  using assms(2,3) books_fields[OF assms(1)] books_sums[OF assms(1)]
  by (auto simp: ledger_ok_def keys_ok_def links_ok_def order_balanced_def receipt_balanced_def reversal_balanced_def
      cong: order_status.case_cong)

lemma cores_update_order:
  "(\<And>r. core (f r) = core r) \<Longrightarrow> cores (update_order i f s) = cores s"
  by (simp add: cores_def update_order_def)

lemma books_log [simp]: "books (log_event p a r i fs s) = books s"
  by (simp add: books_def cores_def log_event_def)

lemma books_bump [simp]: "books (bump_order i s) = books s"
  by (simp add: books_def bump_order_def cores_update_order core_def is_anonymous_def) (simp add: update_order_def)

lemma books_sync [simp]: "books (sync_already_paid i s) = books s"
  by (simp add: sync_already_paid_def books_def cores_def Let_def split: option.split)

lemma drawn_simps [simp]:
  "drawn (log_event p a r i fs s) = drawn s" "drawn (bump_order i s) = drawn s" "drawn (sync_already_paid i s) = drawn s"
  by (simp_all add: log_event_def bump_order_def update_order_def sync_already_paid_def Let_def split: option.split)

lemma books_operation [simp]: "books (finish_operation p key kind print i s) = books s"
  "drawn (finish_operation p key kind print i s) = drawn s"
  by (simp_all add: finish_operation_def books_def cores_def)

lemma books_more [simp]:
  "books (s\<lparr>drawn := n\<rparr>) = books s" "books (s\<lparr>payment_seq := k\<rparr>) = books s" "books (s\<lparr>logbook := m\<rparr>) = books s"
  "books (s\<lparr>order_seq := k\<rparr>) = books s" "books (s\<lparr>adjustment_seq := k\<rparr>) = books s" "books (s\<lparr>snapshots := x\<rparr>) = books s"
  "books (s\<lparr>claims := y\<rparr>) = books s" "books (s\<lparr>adjustment_items := z\<rparr>) = books s"
  by (simp_all add: books_def cores_def)


section \<open>Sums of allocations\<close>

lemma ledger_okD:
  assumes "ledger_ok env L X s"
  shows "keys_ok env s" "links_ok s" "distinct (map co_id (cores s))" "distinct (map pm_id (ledger_payments s))"
    "distinct (map it_id (items s))"
    "c \<in> set (cores s) \<Longrightarrow> order_balanced X s c"
    "p \<in> set (ledger_payments s) \<Longrightarrow> pm_entry p = ''receipt'' \<Longrightarrow> receipt_balanced L s p"
    "p \<in> set (ledger_payments s) \<Longrightarrow> reversal_balanced s p"
    "q \<in> L \<Longrightarrow> \<not> reversal_exists s q"
    "a \<in> set (allocations s) \<Longrightarrow> \<exists>p\<in>set (ledger_payments s). pm_id p = al_payment a \<and> pm_entry p = ''receipt''"
    "a \<in> set (allocations s) \<Longrightarrow> al_order a \<in> co_id ` set (cores s)"
  using assms unfolding ledger_ok_def keys_ok_def links_ok_def by blast+

lemma receipt_cases:
  assumes "receipt_balanced L s p"
  obtains (free) "\<And>i. allocated_to s (pm_id p) i = 0" "pm_id p \<in> L \<or> reversal_exists s (pm_id p)" "0 < pm_amount p"
  | (held) h where "\<And>i. allocated_to s (pm_id p) i = (if i = h then pm_amount p else 0)" "pm_id p \<notin> L"
      "\<not> reversal_exists s (pm_id p)" "0 < pm_amount p"
proof (cases "pm_id p \<in> L \<or> reversal_exists s (pm_id p)")
  case True
  show ?thesis by (rule free) (use True assms in \<open>simp_all add: receipt_balanced_def\<close>)
next
  case False
  then obtain h where "\<forall>i. allocated_to s (pm_id p) i = (if i = h then pm_amount p else 0)" "0 < pm_amount p"
    using assms by (auto simp: receipt_balanced_def)
  then show ?thesis by (intro held[of h]) (use False in simp_all)
qed

text \<open>Allocations that add up to something are there.\<close>

lemma allocated_order_known:
  assumes "ledger_ok env L X s" "allocated_to s p i \<noteq> 0"
  shows "\<exists>c\<in>set (cores s). co_id c = i"
proof -
  have "filter (\<lambda>a. al_payment a = p \<and> al_order a = i) (allocations s) \<noteq> []"
    using assms(2) by (auto simp: allocated_to_def)
  then obtain a where "a \<in> set (allocations s)" "al_order a = i" by (auto simp: filter_empty_conv)
  then show ?thesis using ledger_okD(11)[OF assms(1), of a] by auto
qed

lemma sum_pick:
  fixes c :: int
  assumes "distinct (map k ps)" "x \<in> k ` set ps"
  shows "(\<Sum>p\<leftarrow>ps. if k p = x then c else 0) = c"
  using assms
proof (induction ps)
  case (Cons p ps)
  have none: "(\<Sum>p\<leftarrow>qs. if k p = x then c else 0) = 0" if "x \<notin> k ` set qs" for qs
    using that by (induction qs) auto
  show ?case using Cons none[of ps] by (cases "k p = x") auto
qed simp

lemma sum_by_key:
  fixes v :: "'a \<Rightarrow> int"
  assumes "distinct (map k ps)" "\<forall>a\<in>set as. f a \<in> k ` set ps"
  shows "(\<Sum>a\<leftarrow>filter Q as. v a) = (\<Sum>p\<leftarrow>ps. \<Sum>a\<leftarrow>filter (\<lambda>a. f a = k p \<and> Q a) as. v a)"
  using assms(2)
proof (induction as)
  case (Cons a as)
  have "(\<Sum>p\<leftarrow>ps. \<Sum>a\<leftarrow>filter (\<lambda>a. f a = k p \<and> Q a) (a # as). v a) =
        (\<Sum>p\<leftarrow>ps. (if k p = f a then (if Q a then v a else 0) else 0) + (\<Sum>a\<leftarrow>filter (\<lambda>a. f a = k p \<and> Q a) as. v a))"
    by (rule arg_cong[where f = sum_list], rule map_cong) auto
  also have "\<dots> = (if Q a then v a else 0) + (\<Sum>p\<leftarrow>ps. \<Sum>a\<leftarrow>filter (\<lambda>a. f a = k p \<and> Q a) as. v a)"
    using sum_pick[OF assms(1), of "f a" "if Q a then v a else 0"] Cons.prems by (simp add: sum_list_addf)
  finally show ?case using Cons by simp
qed simp

lemma settled_by_payment:
  assumes "ledger_ok env L X s"
  shows "sum_allocations s i = (\<Sum>p\<leftarrow>ledger_payments s. allocated_to s (pm_id p) i)"
proof -
  have "distinct (map pm_id (ledger_payments s))" "\<forall>a\<in>set (allocations s). al_payment a \<in> pm_id ` set (ledger_payments s)"
    using ledger_okD(4)[OF assms] ledger_okD(10)[OF assms] by force+
  from sum_by_key[OF this, where Q = "\<lambda>a. al_order a = i" and v = al_amount] show ?thesis
    by (simp add: sum_allocations_def allocated_to_def)
qed

lemma unlinked:
  assumes "ledger_ok env L X s" "p \<in> set (ledger_payments s)" "pm_entry p \<noteq> ''receipt''"
  shows "allocated_to s (pm_id p) i = 0"
proof -
  have "al_payment a \<noteq> pm_id p" if known: "a \<in> set (allocations s)" for a
  proof
    assume same: "al_payment a = pm_id p"
    have "\<exists>q\<in>set (ledger_payments s). pm_id q = pm_id p \<and> pm_entry q = ''receipt''"
      using ledger_okD(10)[OF assms(1) known] same by simp
    then obtain q where "q \<in> set (ledger_payments s)" "pm_id q = pm_id p" "pm_entry q = ''receipt''" by blast
    then show False using assms(2,3) key_inj[OF ledger_okD(4)[OF assms(1)], of p q] by auto
  qed
  then have "filter (\<lambda>a. al_payment a = pm_id p \<and> al_order a = i) (allocations s) = []" by (simp add: filter_empty_conv)
  then show ?thesis by (simp add: allocated_to_def)
qed

lemma allocated_nonneg:
  assumes "ledger_ok env L X s" "p \<in> set (ledger_payments s)"
  shows "0 \<le> allocated_to s (pm_id p) i"
proof (cases "pm_entry p = ''receipt''")
  case True
  then have "receipt_balanced L s p" using ledger_okD(7)[OF assms(1,2)] by simp
  then show ?thesis by (cases rule: receipt_cases) auto
qed (use unlinked[OF assms] in simp)

lemma settled_ge_allocated:
  assumes "ledger_ok env L X s" "p \<in> set (ledger_payments s)"
  shows "allocated_to s (pm_id p) i \<le> sum_allocations s i"
  unfolding settled_by_payment[OF assms(1)]
proof (rule member_le_sum_list)
  show "allocated_to s (pm_id p) i \<in> set (map (\<lambda>p. allocated_to s (pm_id p) i) (ledger_payments s))" using assms(2) by simp
qed (use allocated_nonneg[OF assms(1)] in auto)

text \<open>A receipt that pays for an order pays for it with its whole amount.\<close>

lemma holder_amount:
  assumes "ledger_ok env L X s" "p \<in> set (ledger_payments s)" "0 < allocated_to s (pm_id p) i"
  shows "pm_entry p = ''receipt''" "pm_id p \<notin> L" "\<not> reversal_exists s (pm_id p)"
    "allocated_to s (pm_id p) j = (if j = i then pm_amount p else 0)"
proof -
  show r: "pm_entry p = ''receipt''" using unlinked[OF assms(1,2)] assms(3) by fastforce
  then have "receipt_balanced L s p" using ledger_okD(7)[OF assms(1,2)] by simp
  then have "pm_id p \<notin> L \<and> \<not> reversal_exists s (pm_id p) \<and> allocated_to s (pm_id p) j = (if j = i then pm_amount p else 0)"
  proof (cases rule: receipt_cases)
    case (held h)
    then have "i = h" using assms(3) by (metis less_irrefl)
    then show ?thesis using held by simp
  qed (use assms(3) in simp)
  then show "pm_id p \<notin> L" "\<not> reversal_exists s (pm_id p)"
    "allocated_to s (pm_id p) j = (if j = i then pm_amount p else 0)" by blast+
qed

section \<open>Moving money\<close>

definition allocation_added :: "payment_row \<Rightarrow> string \<Rightarrow> int \<Rightarrow> 'm ledger \<Rightarrow> 'm ledger \<Rightarrow> bool" where
  "allocation_added p i amount s s' \<longleftrightarrow>
     (\<exists>a. al_payment a = pm_id p \<and> al_order a = i \<and> al_amount a = amount \<and>
        books s' = (cores s, items s, ledger_payments s, allocations s @ [a], adjustments s)) \<and> drawn s \<le> drawn s'"

lemma allocate_added: "allocation_added p (or_id r) amount s (allocate env p r amount op s)"
  by (simp add: allocation_added_def allocate_def draw_id_def Let_def books_def cores_def)

lemma allocation_fields:
  assumes "allocation_added p i amount s s'"
  shows "cores s' = cores s" "items s' = items s" "ledger_payments s' = ledger_payments s"
    "adjustments s' = adjustments s" "drawn s \<le> drawn s'"
    "sum_allocations s' j = sum_allocations s j + (if j = i then amount else 0)"
    "allocated_to s' q j = allocated_to s q j + (if q = pm_id p \<and> j = i then amount else 0)"
    "reversal_exists s' q = reversal_exists s q" "adjusted s' j = adjusted s j" "item_total s' j = item_total s j"
proof -
  obtain a where a: "al_payment a = pm_id p" "al_order a = i" "al_amount a = amount"
      "books s' = (cores s, items s, ledger_payments s, allocations s @ [a], adjustments s)" "drawn s \<le> drawn s'"
    using assms by (auto simp: allocation_added_def)
  then show f: "cores s' = cores s" "items s' = items s" "ledger_payments s' = ledger_payments s"
    "adjustments s' = adjustments s" "drawn s \<le> drawn s'" by (simp_all add: books_def)
  show "sum_allocations s' j = sum_allocations s j + (if j = i then amount else 0)"
    "allocated_to s' q j = allocated_to s q j + (if q = pm_id p \<and> j = i then amount else 0)"
    using a by (auto simp: books_def sum_allocations_def allocated_to_def)
  show "reversal_exists s' q = reversal_exists s q" "adjusted s' j = adjusted s j" "item_total s' j = item_total s j"
    by (simp_all add: reversal_exists_def adjusted_def item_total_def order_items_def f)
qed

lemma allocation_links:
  assumes "links_ok s" "allocation_added p i amount s s'" "p \<in> set (ledger_payments s)" "pm_entry p = ''receipt''"
    "i \<in> co_id ` set (cores s)"
  shows "links_ok s'"
proof -
  obtain a where "al_payment a = pm_id p" "al_order a = i" "allocations s' = allocations s @ [a]"
    using assms(2) by (auto simp: allocation_added_def books_def)
  then show ?thesis using assms(1,3,4,5) allocation_fields(1-4)[OF assms(2)] by (auto simp: links_ok_def)
qed

lemma keys_ok_same:
  assumes "keys_ok env s" "cores s' = cores s" "items s' = items s" "ledger_payments s' = ledger_payments s" "drawn s \<le> drawn s'"
  shows "keys_ok env s'"
  using assms by (simp add: keys_ok_def)

lemma ledger_okI:
  assumes "keys_ok env s" "links_ok s" "\<And>c. c \<in> set (cores s) \<Longrightarrow> order_balanced X s c"
    "\<And>p. p \<in> set (ledger_payments s) \<Longrightarrow> pm_entry p = ''receipt'' \<Longrightarrow> receipt_balanced L s p"
    "\<And>p. p \<in> set (ledger_payments s) \<Longrightarrow> reversal_balanced s p" "\<And>p. p \<in> L \<Longrightarrow> \<not> reversal_exists s p"
  shows "ledger_ok env L X s"
  using assms by (simp add: ledger_ok_def)

lemma has_item_iff: "(\<exists>x\<in>set (items s). it_order x = i \<and> \<not> it_removed x) \<longleftrightarrow> (\<exists>x\<in>set (order_items s i). \<not> it_removed x)"
  by (auto simp: order_items_def)

text \<open>The part of the state that \<open>order_balanced\<close> of one order looks at.\<close>

lemma order_balanced_cong:
  assumes "sum_allocations s' (co_id c) = sum_allocations s (co_id c)" "adjusted s' (co_id c) = adjusted s (co_id c)"
    "order_items s' (co_id c) = order_items s (co_id c)" "co_id c \<in> X' \<longleftrightarrow> co_id c \<in> X"
  shows "order_balanced X' s' c = order_balanced X s c"
  using assms by (simp add: order_balanced_def item_total_def has_item_iff cong: order_status.case_cong)

lemma receipt_balanced_cong:
  assumes "\<And>i. allocated_to s' (pm_id p) i = allocated_to s (pm_id p) i"
    "pm_id p \<in> L' \<or> reversal_exists s' (pm_id p) \<longleftrightarrow> pm_id p \<in> L \<or> reversal_exists s (pm_id p)"
  shows "receipt_balanced L' s' p = receipt_balanced L s p"
  using assms by (simp add: receipt_balanced_def)

lemma reversal_balanced_mono:
  assumes "reversal_balanced s x" "set (ledger_payments s) \<subseteq> set (ledger_payments s')"
  shows "reversal_balanced s' x"
  using assms by (auto simp: reversal_balanced_def split: if_splits)

text \<open>An allocation that changes one receipt and one order keeps the rest.\<close>

lemma allocation_keeps:
  assumes ok: "ledger_ok env L X s" and add: "allocation_added p i amount s s'"
    and p: "p \<in> set (ledger_payments s)" "pm_entry p = ''receipt''" and i: "i \<in> co_id ` set (cores s)"
    and L: "\<And>q. q \<noteq> pm_id p \<Longrightarrow> q \<in> L' \<longleftrightarrow> q \<in> L" "pm_id p \<in> L' \<Longrightarrow> \<not> reversal_exists s (pm_id p)"
    and X: "\<And>j. j \<noteq> i \<Longrightarrow> j \<in> X' \<longleftrightarrow> j \<in> X"
    and new: "receipt_balanced L' s' p" "\<And>c. c \<in> set (cores s) \<Longrightarrow> co_id c = i \<Longrightarrow> order_balanced X' s' c"
  shows "ledger_ok env L' X' s'"
proof (rule ledger_okI)
  note f = allocation_fields[OF add]
  show "keys_ok env s'" by (rule keys_ok_same[OF ledger_okD(1)[OF ok]]) (simp_all add: f)
  show "links_ok s'" by (rule allocation_links[OF ledger_okD(2)[OF ok] add p i])
  show "order_balanced X' s' c" if "c \<in> set (cores s')" for c
  proof (cases "co_id c = i")
    case False
    have "order_balanced X' s' c = order_balanced X s c"
      by (rule order_balanced_cong) (use False X in \<open>simp_all add: f order_items_def\<close>)
    then show ?thesis using ledger_okD(6)[OF ok] that by (simp add: f)
  qed (use new(2) that in \<open>simp add: f\<close>)
  show "receipt_balanced L' s' q" if "q \<in> set (ledger_payments s')" "pm_entry q = ''receipt''" for q
  proof (cases "pm_id q = pm_id p")
    case True
    then have "q = p" using key_inj[OF ledger_okD(4)[OF ok], of p q] p(1) that(1) by (simp add: f)
    then show ?thesis using new(1) by simp
  next
    case False
    have "receipt_balanced L' s' q = receipt_balanced L s q"
      by (rule receipt_balanced_cong) (use False L in \<open>simp_all add: f\<close>)
    then show ?thesis using ledger_okD(7)[OF ok] that by (simp add: f)
  qed
  show "reversal_balanced s' q" if "q \<in> set (ledger_payments s')" for q
    by (rule reversal_balanced_mono[OF ledger_okD(8)[OF ok]]) (use that in \<open>simp_all add: f\<close>)
  show "\<not> reversal_exists s' q" if "q \<in> L'" for q
    using that L ledger_okD(9)[OF ok] by (cases "q = pm_id p") (auto simp: f)
qed

text \<open>A receipt leaves the order that holds it.\<close>

lemma take_receipt:
  assumes ok: "ledger_ok env L X s" and add: "allocation_added p i (- pm_amount p) s s'"
    and p: "p \<in> set (ledger_payments s)" "0 < allocated_to s (pm_id p) i"
  shows "ledger_ok env (insert (pm_id p) L) (insert i X) s'"
proof (rule allocation_keeps[OF ok add p(1) holder_amount(1)[OF ok p]])
  note f = allocation_fields[OF add] and h = holder_amount[OF ok p]
  show i: "i \<in> co_id ` set (cores s)" using allocated_order_known[OF ok, of "pm_id p" i] p(2) by auto
  have pos: "0 < pm_amount p" using p(2) h(4)[of i] by simp
  show "receipt_balanced (insert (pm_id p) L) s' p" using pos h(4) by (simp add: receipt_balanced_def f)
  show "order_balanced (insert i X) s' c" if "c \<in> set (cores s)" "co_id c = i" for c
  proof -
    have "pm_amount p \<le> sum_allocations s i" using settled_ge_allocated[OF ok p(1), of i] h(4)[of i] by simp
    moreover have "order_balanced X s c" by (rule ledger_okD(6)[OF ok that(1)])
    ultimately show ?thesis using pos that(2)
      by (cases "co_status c") (simp_all add: order_balanced_def f)
  qed
  show "\<not> reversal_exists s (pm_id p)" by (rule h(3))
qed auto

text \<open>A receipt on its way pays for a finalized order that has room for it.\<close>

lemma place_receipt:
  assumes ok: "ledger_ok env L X s" and add: "allocation_added p (co_id c) (pm_amount p) s s'"
    and p: "p \<in> set (ledger_payments s)" "pm_entry p = ''receipt''" "pm_id p \<in> L"
    and c: "c \<in> set (cores s)" "co_status c = Finalized" "sum_allocations s (co_id c) + pm_amount p \<le> co_total c"
    and anon: "co_anonymous c \<Longrightarrow> co_id c \<in> X"
  shows "ledger_ok env (L - {pm_id p}) X s'"
proof (rule allocation_keeps[OF ok add p(1,2)])
  note f = allocation_fields[OF add]
  have rb: "receipt_balanced L s p" by (rule ledger_okD(7)[OF ok p(1,2)])
  then have pos: "0 < pm_amount p" and free: "allocated_to s (pm_id p) i = 0" for i
    using p(3) by (simp_all add: receipt_balanced_def)
  have "\<not> reversal_exists s (pm_id p)" by (rule ledger_okD(9)[OF ok p(3)])
  then show "receipt_balanced (L - {pm_id p}) s' p"
    using pos free by (auto simp: receipt_balanced_def f intro!: exI[of _ "co_id c"])
  show "order_balanced X s' c'" if "c' \<in> set (cores s)" "co_id c' = co_id c" for c'
  proof -
    have [simp]: "c' = c" using key_inj[OF ledger_okD(3)[OF ok] c(1) that(1)] that(2) by simp
    have "order_balanced X s c" by (rule ledger_okD(6)[OF ok c(1)])
    then show ?thesis using pos c(2,3) anon by (auto simp: order_balanced_def f)
  qed
qed (use c(1) in auto)

section \<open>New entries of the payment ledger\<close>

definition payment_added :: "payment_row \<Rightarrow> 'm ledger \<Rightarrow> 'm ledger \<Rightarrow> bool" where
  "payment_added x s s' \<longleftrightarrow> books s' = (cores s, items s, ledger_payments s @ [x], allocations s, adjustments s)"

lemma payment_fields:
  assumes "payment_added x s s'"
  shows "cores s' = cores s" "items s' = items s" "ledger_payments s' = ledger_payments s @ [x]"
    "allocations s' = allocations s" "adjustments s' = adjustments s" "order_items s' j = order_items s j"
    "sum_allocations s' j = sum_allocations s j" "allocated_to s' q j = allocated_to s q j" "adjusted s' j = adjusted s j"
    "reversal_exists s' q \<longleftrightarrow> reversal_exists s q \<or> pm_reverses x = Some q"
proof -
  show f: "cores s' = cores s" "items s' = items s" "ledger_payments s' = ledger_payments s @ [x]"
    "allocations s' = allocations s" "adjustments s' = adjustments s"
    using assms by (simp_all add: payment_added_def books_def)
  show "order_items s' j = order_items s j" "sum_allocations s' j = sum_allocations s j"
    "allocated_to s' q j = allocated_to s q j" "adjusted s' j = adjusted s j"
    "reversal_exists s' q \<longleftrightarrow> reversal_exists s q \<or> pm_reverses x = Some q"
    by (simp_all add: order_items_def sum_allocations_def allocated_to_def adjusted_def reversal_exists_def f)
qed

text \<open>Identifiers that are not drawn yet are nobody's; one is drawn for every new row.\<close>

lemma fresh_id:
  assumes "keys_ok env s" "drawn s \<le> k"
  shows "oe_id env k \<notin> co_id ` set (cores s)" "oe_id env k \<notin> pm_id ` set (ledger_payments s)" "oe_id env k \<notin> it_id ` set (items s)"
  using assms by (simp_all add: keys_ok_def)

lemma fresh_unallocated:
  assumes "ledger_ok env L X s" "q \<notin> pm_id ` set (ledger_payments s)"
  shows "allocated_to s q i = 0" "\<not> reversal_exists s q"
proof -
  have "al_payment a \<noteq> q" if a: "a \<in> set (allocations s)" for a using ledger_okD(10)[OF assms(1) a] assms(2) by force
  then have "filter (\<lambda>a. al_payment a = q \<and> al_order a = i) (allocations s) = []" by (simp add: filter_empty_conv)
  then show "allocated_to s q i = 0" by (simp add: allocated_to_def)
  show "\<not> reversal_exists s q"
  proof
    assume "reversal_exists s q"
    then obtain x where x: "x \<in> set (ledger_payments s)" "pm_reverses x = Some q"
      by (auto simp: reversal_exists_def list_ex_iff)
    have "reversal_balanced s x" by (rule ledger_okD(8)[OF assms(1) x(1)])
    then show False using x(2) assms(2) by (auto simp: reversal_balanced_def split: if_splits)
  qed
qed

lemma links_payment: "links_ok s \<Longrightarrow> payment_added x s s' \<Longrightarrow> links_ok s'"
  by (auto simp: links_ok_def payment_fields)

lemma keys_payment:
  assumes "keys_ok env s" "payment_added x s s'" "inj (oe_id env)" "pm_id x = oe_id env k" "drawn s \<le> k" "k < drawn s'"
  shows "keys_ok env s'"
proof -
  have "oe_id env j \<noteq> pm_id x" if "drawn s' \<le> j" for j
    using assms(3,4,6) that by (metis injD leD)
  then show ?thesis using assms(1,4,5,6) fresh_id[OF assms(1,5)] payment_fields(1-3)[OF assms(2)]
    by (auto simp: keys_ok_def)
qed

lemma payment_keeps:
  assumes ok: "ledger_ok env L X s" and add: "payment_added x s s'"
    and k: "inj (oe_id env)" "pm_id x = oe_id env k" "drawn s \<le> k" "k < drawn s'"
    and x: "pm_entry x = ''receipt'' \<Longrightarrow> receipt_balanced L' s' x" "reversal_balanced s' x"
    and L: "\<And>q. q \<in> L' \<or> pm_reverses x = Some q \<longleftrightarrow> q \<in> L \<or> q = pm_id x \<and> pm_entry x = ''receipt''"
      "\<And>q. q \<in> L' \<Longrightarrow> \<not> reversal_exists s' q"
  shows "ledger_ok env L' X s'"
proof (rule ledger_okI)
  note f = payment_fields[OF add]
  show "keys_ok env s'" by (rule keys_payment[OF ledger_okD(1)[OF ok] add k])
  show "links_ok s'" by (rule links_payment[OF ledger_okD(2)[OF ok] add])
  show "order_balanced X s' c" if "c \<in> set (cores s')" for c
  proof -
    have "order_balanced X s' c = order_balanced X s c" by (rule order_balanced_cong) (simp_all add: f)
    then show ?thesis using ledger_okD(6)[OF ok] that by (simp add: f)
  qed
  have new: "pm_id q \<noteq> pm_id x" if "q \<in> set (ledger_payments s)" for q
    using fresh_id(2)[OF ledger_okD(1)[OF ok] k(3)] k(2) that by (metis imageI)
  show "receipt_balanced L' s' q" if "q \<in> set (ledger_payments s')" "pm_entry q = ''receipt''" for q
  proof (cases "q = x")
    case False
    then have q: "q \<in> set (ledger_payments s)" using that(1) by (simp add: f)
    have "pm_id q \<in> L' \<or> reversal_exists s' (pm_id q) \<longleftrightarrow> pm_id q \<in> L \<or> reversal_exists s (pm_id q)"
      using L(1)[of "pm_id q"] new[OF q] by (auto simp: f)
    then have "receipt_balanced L' s' q = receipt_balanced L s q"
      by (intro receipt_balanced_cong) (simp_all add: f)
    then show ?thesis using ledger_okD(7)[OF ok q] that by simp
  qed (use x(1) that in simp)
  show "reversal_balanced s' q" if "q \<in> set (ledger_payments s')" for q
  proof (cases "q = x")
    case False
    then have "q \<in> set (ledger_payments s)" using that by (simp add: f)
    then show ?thesis by (intro reversal_balanced_mono[OF ledger_okD(8)[OF ok]]) (auto simp: f)
  qed (use x(2) in simp)
qed (rule L(2))

lemma receipt_added:
  assumes ok: "ledger_ok env L X s" and add: "payment_added x s s'"
    and k: "inj (oe_id env)" "pm_id x = oe_id env k" "drawn s \<le> k" "k < drawn s'"
    and x: "pm_entry x = ''receipt''" "pm_reverses x = None" "0 < pm_amount x"
  shows "ledger_ok env (insert (pm_id x) L) X s'"
proof (rule payment_keeps[OF ok add k])
  note f = payment_fields[OF add]
  have new: "pm_id x \<notin> pm_id ` set (ledger_payments s)" using fresh_id(2)[OF ledger_okD(1)[OF ok] k(3)] k(2) by simp
  show "receipt_balanced (insert (pm_id x) L) s' x"
    using x(3) fresh_unallocated[OF ok new] by (simp add: receipt_balanced_def f)
  show "reversal_balanced s' x" using x by (simp add: reversal_balanced_def)
  show "\<not> reversal_exists s' q" if "q \<in> insert (pm_id x) L" for q
    using that fresh_unallocated(2)[OF ok new] ledger_okD(9)[OF ok] x(2) by (auto simp: f)
qed (use x in auto)

lemma reversal_added:
  assumes ok: "ledger_ok env L X s" and add: "payment_added x s s'"
    and k: "inj (oe_id env)" "pm_id x = oe_id env k" "drawn s \<le> k" "k < drawn s'"
    and x: "pm_entry x = ''reversal''" "pm_reverses x = Some (pm_id p)" "pm_amount x = pm_amount p"
      "pm_method x = pm_method p" "pm_reversed_reference x = Some (pm_reference p)"
    and p: "p \<in> set (ledger_payments s)" "pm_entry p = ''receipt''" "pm_id p \<in> L"
  shows "ledger_ok env (L - {pm_id p}) X s'"
proof (rule payment_keeps[OF ok add k])
  note f = payment_fields[OF add]
  show "reversal_balanced s' x" using x p by (auto simp: reversal_balanced_def f)
  show "\<not> reversal_exists s' q" if "q \<in> L - {pm_id p}" for q
    using that ledger_okD(9)[OF ok] x(2) by (auto simp: f)
qed (use x p in auto)

section \<open>Orders and items that change\<close>

text \<open>The row of one order changes, with the adjustments that go with it.\<close>

definition order_changed :: "string \<Rightarrow> (order_core \<Rightarrow> order_core) \<Rightarrow> adjustment_row list \<Rightarrow> 'm ledger \<Rightarrow> 'm ledger \<Rightarrow> bool" where
  "order_changed i g as s s' \<longleftrightarrow>
     books s' = (map (\<lambda>c. if co_id c = i then g c else c) (cores s), items s, ledger_payments s, allocations s,
                 adjustments s @ as) \<and> drawn s \<le> drawn s'"

lemma order_change_keeps:
  assumes ok: "ledger_ok env L X s" and change: "order_changed i g as s s'"
    and as: "\<forall>a\<in>set as. ad_order a = i" and i: "i \<in> co_id ` set (cores s)" and g: "\<And>c. co_id (g c) = co_id c"
    and X: "\<And>j. j \<noteq> i \<Longrightarrow> j \<in> X' \<longleftrightarrow> j \<in> X"
    and new: "\<And>c. c \<in> set (cores s) \<Longrightarrow> co_id c = i \<Longrightarrow> order_balanced X' s' (g c)"
  shows "ledger_ok env L X' s'"
proof (rule ledger_okI)
  let ?h = "\<lambda>c. if co_id c = i then g c else c"
  have f: "cores s' = map ?h (cores s)" "items s' = items s" "ledger_payments s' = ledger_payments s"
    "allocations s' = allocations s" "adjustments s' = adjustments s @ as" "drawn s \<le> drawn s'"
    using change by (simp_all add: order_changed_def books_def)
  have ids: "map co_id (cores s') = map co_id (cores s)" using g by (simp add: f)
  then have idset: "co_id ` set (cores s') = co_id ` set (cores s)" by (metis set_map)
  show "keys_ok env s'" using ledger_okD(1)[OF ok] order_trans[OF f(6)] unfolding keys_ok_def ids idset by (simp add: f)
  show "links_ok s'" using ledger_okD(2)[OF ok] as i unfolding links_ok_def idset by (auto simp: f)
  show "order_balanced X' s' c" if "c \<in> set (cores s')" for c
  proof -
    obtain c0 where c0: "c0 \<in> set (cores s)" "c = ?h c0" using \<open>c \<in> set (cores s')\<close> by (auto simp: f)
    show ?thesis
    proof (cases "co_id c0 = i")
      case False
      have none: "filter (\<lambda>a. ad_order a = co_id c0) as = []" using as False by (auto simp: filter_empty_conv)
      have "order_balanced X' s' c0 = order_balanced X s c0"
        by (rule order_balanced_cong)
          (use False X none in \<open>simp_all add: f order_items_def sum_allocations_def adjusted_def\<close>)
      then show ?thesis using False c0 ledger_okD(6)[OF ok] by simp
    qed (use new c0 in simp)
  qed
  show "receipt_balanced L s' p" if "p \<in> set (ledger_payments s')" "pm_entry p = ''receipt''" for p
  proof -
    have "receipt_balanced L s' p = receipt_balanced L s p"
      by (rule receipt_balanced_cong) (simp_all add: f allocated_to_def reversal_exists_def)
    then show ?thesis using that ledger_okD(7)[OF ok] by (simp add: f)
  qed
  show "reversal_balanced s' p" if "p \<in> set (ledger_payments s')" for p
    using that ledger_okD(8)[OF ok] by (simp add: f reversal_balanced_def)
  show "\<not> reversal_exists s' p" if "p \<in> L" for p
    using that ledger_okD(9)[OF ok] by (simp add: f reversal_exists_def)
qed

text \<open>The items of one draft change.\<close>

definition items_changed :: "string \<Rightarrow> item_row list \<Rightarrow> 'm ledger \<Rightarrow> 'm ledger \<Rightarrow> bool" where
  "items_changed i xs s s' \<longleftrightarrow>
     books s' = (cores s, xs, ledger_payments s, allocations s, adjustments s) \<and> drawn s \<le> drawn s' \<and>
     filter (\<lambda>x. it_order x \<noteq> i) xs = filter (\<lambda>x. it_order x \<noteq> i) (items s)"

lemma items_change_keeps:
  assumes ok: "ledger_ok env L X s" and change: "items_changed i xs s s'"
    and c: "c \<in> set (cores s)" "co_id c = i" "co_status c = Draft"
    and xs: "distinct (map it_id xs)" "\<forall>x\<in>set xs. 0 \<le> it_amount x"
      "\<And>k. drawn s' \<le> k \<Longrightarrow> oe_id env k \<notin> it_id ` set xs"
  shows "ledger_ok env L X s'"
proof (rule ledger_okI)
  have f: "cores s' = cores s" "items s' = xs" "ledger_payments s' = ledger_payments s"
    "allocations s' = allocations s" "adjustments s' = adjustments s" "drawn s \<le> drawn s'"
    and same: "filter (\<lambda>x. it_order x \<noteq> i) xs = filter (\<lambda>x. it_order x \<noteq> i) (items s)"
    using change by (simp_all add: items_changed_def books_def)
  show "keys_ok env s'" using ledger_okD(1)[OF ok] xs(1,3) order_trans[OF f(6)] by (simp add: keys_ok_def f)
  have orders: "it_order x \<in> co_id ` set (cores s)" if "x \<in> set xs" for x
  proof (cases "it_order x = i")
    case False
    then have "x \<in> set (filter (\<lambda>x. it_order x \<noteq> i) (items s))" using that unfolding same[symmetric] by simp
    then show ?thesis using ledger_okD(2)[OF ok] by (simp add: links_ok_def)
  qed (metis c(1,2) imageI)
  show "links_ok s'" using ledger_okD(2)[OF ok] xs(2) orders by (simp add: links_ok_def f)
  show "order_balanced X s' d" if "d \<in> set (cores s')" for d
  proof (cases "co_id d = i")
    case True
    then have "d = c" using key_inj[OF ledger_okD(3)[OF ok] c(1)] c(2) that by (simp add: f)
    then show ?thesis using ledger_okD(6)[OF ok c(1)] c
      by (simp add: order_balanced_def sum_allocations_def adjusted_def f)
  next
    case False
    then have "filter (\<lambda>x. it_order x = co_id d) ys = filter (\<lambda>x. it_order x = co_id d) (filter (\<lambda>x. it_order x \<noteq> i) ys)" for ys
      by (auto simp: filter_filter intro: filter_cong)
    then have "order_items s' (co_id d) = order_items s (co_id d)" unfolding order_items_def f same by (metis same)
    then have "order_balanced X s' d = order_balanced X s d"
      by (intro order_balanced_cong) (simp_all add: f sum_allocations_def adjusted_def)
    then show ?thesis using that ledger_okD(6)[OF ok] by (simp add: f)
  qed
  show "receipt_balanced L s' p" if "p \<in> set (ledger_payments s')" "pm_entry p = ''receipt''" for p
  proof -
    have "receipt_balanced L s' p = receipt_balanced L s p"
      by (rule receipt_balanced_cong) (simp_all add: f allocated_to_def reversal_exists_def)
    then show ?thesis using that ledger_okD(7)[OF ok] by (simp add: f)
  qed
  show "reversal_balanced s' p" if "p \<in> set (ledger_payments s')" for p
    using that ledger_okD(8)[OF ok] by (simp add: f reversal_balanced_def)
  show "\<not> reversal_exists s' p" if "p \<in> L" for p
    using that ledger_okD(9)[OF ok] by (simp add: f reversal_exists_def)
qed

text \<open>A new draft.\<close>

lemma order_added:
  assumes ok: "ledger_ok env L X s" and inj: "inj (oe_id env)"
    and add: "books s' = (cores s @ [c], items s, ledger_payments s, allocations s, adjustments s)"
    and k: "co_id c = oe_id env k" "drawn s \<le> k" "k < drawn s'"
    and c: "co_status c = Draft" "co_total c = 0"
  shows "ledger_ok env L X s'"
proof (rule ledger_okI)
  have f: "cores s' = cores s @ [c]" "items s' = items s" "ledger_payments s' = ledger_payments s"
    "allocations s' = allocations s" "adjustments s' = adjustments s"
    using add by (simp_all add: books_def)
  have new: "co_id c \<notin> co_id ` set (cores s)" using fresh_id(1)[OF ledger_okD(1)[OF ok] k(2)] k(1) by simp
  have "oe_id env j \<noteq> co_id c" if "drawn s' \<le> j" for j using inj k that by (metis injD leD)
  then show "keys_ok env s'" using ledger_okD(1)[OF ok] new k by (auto simp: keys_ok_def f)
  show "links_ok s'" using ledger_okD(2)[OF ok] by (auto simp: links_ok_def f)
  show "order_balanced X s' d" if "d \<in> set (cores s')" for d
  proof (cases "d = c")
    case True
    have "al_order a \<noteq> co_id c" if a: "a \<in> set (allocations s)" for a
      using ledger_okD(11)[OF ok a] new by metis
    then have a: "filter (\<lambda>a. al_order a = co_id c) (allocations s) = []" by (simp add: filter_empty_conv)
    have "ad_order a \<noteq> co_id c" if "a \<in> set (adjustments s)" for a
      using ledger_okD(2)[OF ok] that new unfolding links_ok_def by metis
    then have "filter (\<lambda>a. ad_order a = co_id c) (adjustments s) = []" by (simp add: filter_empty_conv)
    then show ?thesis using True c a by (simp add: order_balanced_def sum_allocations_def adjusted_def f)
  next
    case False
    have "order_balanced X s' d = order_balanced X s d"
      by (rule order_balanced_cong) (simp_all add: f sum_allocations_def adjusted_def order_items_def)
    then show ?thesis using False that ledger_okD(6)[OF ok] by (simp add: f)
  qed
  show "receipt_balanced L s' p" if "p \<in> set (ledger_payments s')" "pm_entry p = ''receipt''" for p
  proof -
    have "receipt_balanced L s' p = receipt_balanced L s p"
      by (rule receipt_balanced_cong) (simp_all add: f allocated_to_def reversal_exists_def)
    then show ?thesis using that ledger_okD(7)[OF ok] by (simp add: f)
  qed
  show "reversal_balanced s' p" if "p \<in> set (ledger_payments s')" for p
    using that ledger_okD(8)[OF ok] by (simp add: f reversal_balanced_def)
  show "\<not> reversal_exists s' p" if "p \<in> L" for p
    using that ledger_okD(9)[OF ok] by (simp add: f reversal_exists_def)
qed

end
