(* ===== verification/Order_Commands.thy ===== *)
theory Order_Commands
  imports Order_Balance
begin

text \<open>
  Every operation on orders, their items and their payments keeps the books of the orders balanced
  (\<open>ledger_ok\<close> of \<open>Order_Balance\<close>): receipts and reversals, finalizing, reversing and cancelling an order, drafts and
  their items, the replacement of an order.
\<close>

section \<open>Receipts and reversals\<close>

lemma ledger_ok_mono:
  assumes "ledger_ok env L X s" "X \<subseteq> X'"
  shows "ledger_ok env L X' s"
proof -
  have "order_balanced X' s c" if "order_balanced X s c" for c
    using that assms(2) by (cases "co_status c") (auto simp: order_balanced_def)
  then show ?thesis using assms(1) by (simp add: ledger_ok_def)
qed

text \<open>An order leaves \<open>X\<close> when it is settled or no longer finalized.\<close>

lemma ledger_ok_settled:
  assumes ok: "ledger_ok env L (insert i X) s" and c: "c \<in> set (cores s)" "co_id c = i"
    and settled: "co_status c \<noteq> Finalized \<or> (co_anonymous c \<longrightarrow> sum_allocations s i = co_total c)"
  shows "ledger_ok env L X s"
proof (rule ledger_okI)
  show "order_balanced X s d" if d: "d \<in> set (cores s)" for d
  proof (cases "co_id d = i")
    case True
    then have "d = c" using key_inj[OF ledger_okD(3)[OF ok] c(1) d] c(2) by simp
    then show ?thesis using ledger_okD(6)[OF ok d] c settled by (cases "co_status d") (auto simp: order_balanced_def)
  next
    case False
    then have "order_balanced X s d = order_balanced (insert i X) s d" by (intro order_balanced_cong) simp_all
    then show ?thesis using ledger_okD(6)[OF ok d] by simp
  qed
qed (use ok in \<open>auto simp: ledger_ok_def\<close>)

lemma allocate_requests [simp]: "requests (allocate env p r amount op s) = requests s"
  by (simp add: allocate_def draw_id_def Let_def)

lemma requests_simps [simp]: "requests (log_event p a r i fs s) = requests s" "requests (bump_order i s) = requests s"
  by (simp_all add: log_event_def bump_order_def update_order_def)

lemma current_core: "current r s \<Longrightarrow> core r \<in> set (cores s)"
  by (simp add: current_def)

lemma core_fields [simp]:
  "co_id (core r) = or_id r" "co_status (core r) = or_status r" "co_total (core r) = or_total r"
  "co_anonymous (core r) = is_anonymous r" "co_immediate (core r) = (or_fulfillment r = ''immediate'')"
  by (simp_all add: core_def)

lemma current_same: "cores s' = cores s \<Longrightarrow> current r s' = current r s"
  by (simp add: current_def)

lemma insert_payment_Inr: "insert_payment p s = Inr s' \<Longrightarrow> s' = s\<lparr>ledger_payments := ledger_payments s @ [p]\<rparr>"
  by (simp add: insert_payment_def)

lemma check_receipt_inputD:
  assumes "check_receipt_input r input = Inr amount"
  shows "or_status r = Finalized" "0 < amount"
  using assms parse_amount_bounds[of "pi_amount input" 2 True amount]
  by (auto simp: check_receipt_input_def and_then_Inr_iff)

lemma receiptD:
  assumes "receipt env p r op input s = Inr s'"
  obtains amount where "or_status r = Finalized" "0 < amount" "sum_allocations s (or_id r) + amount \<le> or_total r"
    "book_receipt env p r input amount op s = Inr s'"
proof -
  obtain amount where "check_receipt_input r input = Inr amount" "amount \<le> or_total r - sum_allocations s (or_id r)"
      "book_receipt env p r input amount op s = Inr s'"
    using assms by (auto simp: receipt_def and_then_Inr_iff)
  then show ?thesis using check_receipt_inputD that by force
qed

lemma book_receipt_steps:
  assumes "book_receipt env p r input amount op s = Inr s'"
  obtains pay s1 s2 where "payment_added pay s s1" "pm_id pay = oe_id env (drawn s)" "pm_entry pay = ''receipt''"
    "pm_reverses pay = None" "pm_amount pay = amount" "pm_method pay = pi_method input" "drawn s1 = Suc (drawn s)"
    "allocation_added pay (or_id r) amount s1 s2" "books s' = books s2" "drawn s' = drawn s2"
    "requests s1 = requests s" "requests s2 = requests s"
    "requests s' = requests (sync_already_paid (or_id r) (bump_order (or_id r) s2))"
proof -
  let ?s = "s\<lparr>payment_seq := payment_seq s + 1, drawn := Suc (drawn s)\<rparr>"
  let ?pay = "\<lparr>pm_id = oe_id env (drawn s), pm_reference = reference ''P'' (oe_now env) (payment_seq s + 1),
                pm_entry = ''receipt'', pm_method = pi_method input, pm_amount = amount, pm_at = pi_at input,
                pm_reverses = None, pm_reversed_reference = None, pm_reason_kind = None, pm_reason = [],
                pm_source = trim_space (pi_source input), pm_external = trim_space (pi_external input),
                pm_request = None, pm_split = max (pi_split input) 1\<rparr>"
  obtain s2 where s2: "insert_payment ?pay ?s = Inr s2"
      "s' = log_event p ''payment.recorded'' ''payment'' (oe_id env (drawn s)) [''amount'', ''method'', ''allocations'']
              (sync_already_paid (or_id r) (bump_order (or_id r) (allocate env ?pay r amount op s2)))"
    using assms by (auto simp: book_receipt_def draw_id_def Let_def and_then_Inr_iff)
  have "payment_added ?pay s s2" "drawn s2 = Suc (drawn s)" "requests s2 = requests s"
    using insert_payment_Inr[OF s2(1)] by (simp_all add: payment_added_def books_def cores_def)
  then show ?thesis
    using that[of ?pay s2 "allocate env ?pay r amount op s2"] s2(2) allocate_added[of ?pay r amount s2 env op]
    by simp
qed

text \<open>What an operation keeps: the balance of the books and the order the caller holds.\<close>

lemma receipt_keeps:
  assumes ok: "ledger_ok env {} X s" and inj: "inj (oe_id env)" and r: "current r s" "is_anonymous r \<longrightarrow> or_id r \<in> X"
    and run: "receipt env p r op input s = Inr s'"
  shows "ledger_ok env {} X s' \<and> cores s' = cores s \<and> items s' = items s"
proof -
  obtain amount where a: "or_status r = Finalized" "0 < amount" "sum_allocations s (or_id r) + amount \<le> or_total r"
      "book_receipt env p r input amount op s = Inr s'"
    using run by (rule receiptD)
  obtain pay s1 s2 where b: "payment_added pay s s1" "pm_id pay = oe_id env (drawn s)" "pm_entry pay = ''receipt''"
      "pm_reverses pay = None" "pm_amount pay = amount" "pm_method pay = pi_method input" "drawn s1 = Suc (drawn s)"
      "allocation_added pay (or_id r) amount s1 s2" "books s' = books s2" "drawn s' = drawn s2"
    by (rule book_receipt_steps[OF a(4)])
  note f = payment_fields[OF b(1)] and g = allocation_fields[OF b(8)]
  have "ledger_ok env (insert (pm_id pay) {}) X s1"
    by (rule receipt_added[OF ok b(1) inj b(2)]) (use a b in simp_all)
  then have "ledger_ok env ({pm_id pay} - {pm_id pay}) X s2"
    by (rule place_receipt[of _ _ _ _ _ "core r"])
      (use a b r f current_core[OF r(1)] in simp_all)
  then have "ledger_ok env {} X s'" using ledger_ok_books[OF b(9)] b(10) by simp
  then show ?thesis using books_fields[OF b(9)] f g by simp
qed

lemma allocated_orderD:
  assumes "allocated_order s p = Some i"
  shows "0 < allocated_to s p i"
  using assms by (auto simp: allocated_order_def find_Some_iff)

lemma reverse_receiptD:
  assumes "reverse_receipt env p r op input s = Inr s'"
  obtains original where "original \<in> set (ledger_payments s)" "0 < allocated_to s (pm_id original) (or_id r)"
    "book_reversal env p r original input op s = Inr s'" "pm_id original = ri_payment input" "pm_entry original = ''receipt''"
    "\<not> reversal_exists s (pm_id original)"
proof -
  obtain original where org: "row_at pm_id (ri_payment input) (ledger_payments s) = Some original"
      "allocated_order s (pm_id original) = Some (or_id r)" "book_reversal env p r original input op s = Inr s'"
      "pm_entry original = ''receipt''" "\<not> reversal_exists s (pm_id original)"
    using assms by (auto simp: reverse_receipt_def and_then_Inr_iff split: option.splits)
  from org show ?thesis using that[of original] row_atD[OF org(1)] allocated_orderD[OF org(2)] by simp
qed

lemma book_reversal_steps:
  assumes "book_reversal env p r original input op s = Inr s'"
  obtains x s1 s2 where "allocation_added original (or_id r) (- pm_amount original) s s1" "drawn s1 = drawn s"
    "payment_added x s1 s2" "pm_id x = oe_id env (drawn s)" "pm_entry x = ''reversal''"
    "pm_reverses x = Some (pm_id original)" "pm_amount x = pm_amount original" "pm_method x = pm_method original"
    "pm_reversed_reference x = Some (pm_reference original)" "drawn s1 < drawn s2" "books s' = books s2" "drawn s' = drawn s2"
    "requests s1 = requests s" "requests s2 = requests s"
    "requests s' = requests (sync_already_paid (or_id r) (bump_order (or_id r) s2))"
proof -
  let ?s = "s\<lparr>payment_seq := payment_seq s + 1, drawn := Suc (drawn s)\<rparr>"
  let ?x = "\<lparr>pm_id = oe_id env (drawn s), pm_reference = reference ''P'' (oe_now env) (payment_seq s + 1),
              pm_entry = ''reversal'', pm_method = pm_method original, pm_amount = pm_amount original,
              pm_at = (if ri_reason_kind input = ''recording_error'' then pm_at original else ri_at input),
              pm_reverses = Some (pm_id original), pm_reversed_reference = Some (pm_reference original),
              pm_reason_kind = Some (ri_reason_kind input), pm_reason = trim_space (ri_reason input),
              pm_source = pm_source original, pm_external = ri_external input,
              pm_request = pm_request original, pm_split = pm_split original\<rparr>"
  obtain s2 where s2: "insert_payment ?x ?s = Inr s2"
      "s' = log_event p ''payment.reversed'' ''payment'' (oe_id env (drawn s)) [''reversal'', ''allocations'']
              (sync_already_paid (or_id r) (bump_order (or_id r) (allocate env original r (- pm_amount original) op s2)))"
    using assms by (auto simp: book_reversal_def draw_id_def Let_def and_then_Inr_iff)
  let ?t = "allocate env original r (- pm_amount original) op s2"
  let ?s1 = "s\<lparr>allocations := allocations ?t\<rparr>"
  have s2': "s2 = ?s\<lparr>ledger_payments := ledger_payments s @ [?x]\<rparr>" using insert_payment_Inr[OF s2(1)] by simp
  have "allocation_added original (or_id r) (- pm_amount original) s ?s1" "payment_added ?x ?s1 ?t" "drawn s < drawn ?t"
    by (simp_all add: s2' allocation_added_def payment_added_def allocate_def draw_id_def Let_def books_def cores_def)
  moreover have "requests ?t = requests s" by (simp add: s2')
  ultimately show ?thesis using that[of ?s1 ?x ?t] s2(2) by simp
qed

lemma reverse_receipt_keeps:
  assumes ok: "ledger_ok env {} X s" and inj: "inj (oe_id env)"
    and run: "reverse_receipt env p r op input s = Inr s'"
  shows "ledger_ok env {} (insert (or_id r) X) s' \<and> cores s' = cores s \<and> items s' = items s"
proof -
  obtain original where org: "original \<in> set (ledger_payments s)" "0 < allocated_to s (pm_id original) (or_id r)"
      "book_reversal env p r original input op s = Inr s'"
    using run by (rule reverse_receiptD)
  obtain x s1 s2 where b: "allocation_added original (or_id r) (- pm_amount original) s s1" "drawn s1 = drawn s"
      "payment_added x s1 s2" "pm_id x = oe_id env (drawn s)" "pm_entry x = ''reversal''"
      "pm_reverses x = Some (pm_id original)" "pm_amount x = pm_amount original" "pm_method x = pm_method original"
      "pm_reversed_reference x = Some (pm_reference original)" "drawn s1 < drawn s2" "books s' = books s2" "drawn s' = drawn s2"
    by (rule book_reversal_steps[OF org(3)])
  note f = payment_fields[OF b(3)] and g = allocation_fields[OF b(1)]
  have "ledger_ok env {pm_id original} (insert (or_id r) X) s1" by (rule take_receipt[OF ok b(1) org(1,2)])
  then have "ledger_ok env ({pm_id original} - {pm_id original}) (insert (or_id r) X) s2"
    by (rule reversal_added[OF _ b(3) inj b(4) _ _ b(5-9)])
      (use b g org holder_amount(1)[OF ok org(1,2)] in simp_all)
  then have "ledger_ok env {} (insert (or_id r) X) s'" using ledger_ok_books[OF b(11)] b(12) by simp
  then show ?thesis using books_fields[OF b(11)] f g by simp
qed

section \<open>Transitions of an order\<close>

lemma transition_books:
  assumes "transition_order i st charge s = Inr s'"
  shows "books s' = (map (\<lambda>c. if co_id c = i then c\<lparr>co_status := st, co_total := charge\<rparr> else c) (cores s),
                     items s, ledger_payments s, allocations s, adjustments s)" "drawn s' = drawn s" "claims s' = claims s"
    "row_at or_id i (orders s) = Some r \<Longrightarrow> row_at or_id i (orders s') = Some (r\<lparr>or_status := st, or_total := charge, or_version := or_version r + 1\<rparr>)"
proof -
  have s': "s' = update_order i (\<lambda>r. r\<lparr>or_status := st, or_total := charge, or_version := or_version r + 1\<rparr>) s"
    using assms by (simp add: transition_order_def Let_def)
  then show "books s' = (map (\<lambda>c. if co_id c = i then c\<lparr>co_status := st, co_total := charge\<rparr> else c) (cores s),
                     items s, ledger_payments s, allocations s, adjustments s)"
    by (auto simp: update_order_def books_def cores_def core_def is_anonymous_def)
  show "drawn s' = drawn s" "claims s' = claims s" by (simp_all add: s' update_order_def)
  have "row_at or_id i rs = Some r \<Longrightarrow>
        row_at or_id i (map (\<lambda>r. if or_id r = i then r\<lparr>or_status := st, or_total := charge, or_version := or_version r + 1\<rparr> else r) rs) =
        Some (r\<lparr>or_status := st, or_total := charge, or_version := or_version r + 1\<rparr>)" for rs
    by (induction rs) (auto simp: row_at_def)
  then show "row_at or_id i (orders s) = Some r \<Longrightarrow> row_at or_id i (orders s') = Some (r\<lparr>or_status := st, or_total := charge, or_version := or_version r + 1\<rparr>)"
    by (simp add: s' update_order_def)
qed

lemma release_books [simp]:
  "books (release_order_claims i s) = books s" "drawn (release_order_claims i s) = drawn s"
  "books (release_item_claim x s) = books s" "drawn (release_item_claim x s) = drawn s"
  "books (claim_job j x s) = books s" "drawn (claim_job j x s) = drawn s"
  by (simp_all add: release_order_claims_def release_item_claim_def claim_job_def)

lemma run_all_keeps:
  assumes "run_all f xs s = Inr s'" "P s" "\<And>x s s'. x \<in> set xs \<Longrightarrow> f x s = Inr s' \<Longrightarrow> P s \<Longrightarrow> P s'"
  shows "P s'"
  using assms
proof (induction xs arbitrary: s)
  case (Cons x xs)
  obtain s1 where s1: "f x s = Inr s1" "run_all f xs s1 = Inr s'" using Cons.prems(1) by (auto simp: and_then_Inr_iff)
  have "P s1" by (rule Cons.prems(3)[OF _ s1(1) Cons.prems(2)]) simp
  then show ?case using Cons.IH[OF s1(2)] Cons.prems(3) by (metis list.set_intros(2))
qed simp

subsection \<open>Finalizing\<close>

lemma claim_item_books: "claim_item env p r x s = Inr s' \<Longrightarrow> books s' = books s \<and> drawn s' = drawn s"
  by (auto simp: claim_item_def and_then_Inr_iff split: option.splits)

lemma finalize_item_books:
  "finalize_item env p r x f = Inr f' \<Longrightarrow>
    books (fin_ledger f') = books (fin_ledger f) \<and> drawn (fin_ledger f') = drawn (fin_ledger f)"
  by (cases "it_removed x") (auto simp: finalize_item_def and_then_Inr_iff dest: claim_item_books)

lemma finalize_item_sum:
  "finalize_item env p r x f = Inr f' \<Longrightarrow>
    fin_total f' = fin_total f + (if it_removed x then 0 else it_amount x) \<and>
    fin_count f' = fin_count f + (if it_removed x then 0 else 1)"
  by (cases "it_removed x") (auto simp: finalize_item_def and_then_Inr_iff)

lemma finalize_items_sum:
  "run_all (finalize_item env p r) xs f = Inr f' \<Longrightarrow>
    fin_total f' = fin_total f + (\<Sum>x\<leftarrow>filter (\<lambda>x. \<not> it_removed x) xs. it_amount x) \<and>
    fin_count f' = fin_count f + length (filter (\<lambda>x. \<not> it_removed x) xs)"
proof (induction xs arbitrary: f)
  case (Cons x xs)
  obtain f1 where f1: "finalize_item env p r x f = Inr f1" "run_all (finalize_item env p r) xs f1 = Inr f'"
    using Cons.prems by (auto simp: and_then_Inr_iff)
  show ?case using Cons.IH[OF f1(2)] finalize_item_sum[OF f1(1)] by simp
qed simp

lemma mset_job_order: "mset (job_order xs) = mset xs"
proof -
  have "mset (filter Q xs) + mset (filter (\<lambda>x. \<not> Q x) xs) = mset xs" for Q using multiset_partition[of "mset xs" Q] by simp
  from this[of "\<lambda>x. it_job x \<noteq> None"] show ?thesis by (simp add: job_order_def)
qed

lemma sum_job_order:
  fixes f :: "item_row \<Rightarrow> int"
  shows "(\<Sum>x\<leftarrow>filter Q (job_order xs). f x) = (\<Sum>x\<leftarrow>filter Q xs. f x)"
proof -
  have "mset (map f (filter Q (job_order xs))) = mset (map f (filter Q xs))" by (simp add: mset_job_order)
  then show ?thesis by (metis sum_mset_sum_list)
qed

lemma finalizeD:
  assumes "finalize env p r s = Inr (r', s')"
  obtains f s1 s2 m where "or_status r = Draft"
    "run_all (finalize_item env p r) (job_order (order_items s (or_id r)))
       \<lparr>fin_count = 0, fin_total = 0, fin_sales = [], fin_ledger = s\<rparr> = Inr f"
    "fin_count f \<noteq> 0" "fin_total f < 10 ^ 20" "capture_customer env r (fin_ledger f) = Inr s1"
    "is_anonymous r \<longrightarrow> or_fulfillment r = ''immediate''"
    "transition_order (or_id r) Finalized (fin_total f) (s1\<lparr>logbook := m\<rparr>) = Inr s2"
    "s' = log_event p ''order.finalized'' ''order'' (or_id r) [''status'', ''totalAmount'', ''customerSnapshot''] s2"
    "row_at or_id (or_id r) (orders s') = Some r'"
  using assms that
  by (auto simp: finalize_def and_then_Inr_iff require_draft_def lock_order_def Let_def split: option.splits)

lemma capture_books: "capture_customer env r s = Inr s' \<Longrightarrow> books s' = books s \<and> drawn s' = drawn s \<and> claims s' = claims s \<and> orders s' = orders s"
  by (auto simp: capture_customer_def and_then_Inr_iff split: if_splits)

lemma item_sum_nonneg:
  assumes "links_ok s"
  shows "0 \<le> item_total s i"
  unfolding item_total_def
proof (rule sum_list_nonneg)
  fix n assume "n \<in> set (map it_amount (filter (\<lambda>x. \<not> it_removed x) (order_items s i)))"
  then show "0 \<le> n" using assms by (auto simp: links_ok_def order_items_def)
qed

lemma row_current: "row_at or_id i (orders s) = Some r \<Longrightarrow> current r s \<and> or_id r = i"
  using row_atD by (fastforce simp: current_def cores_def)

text \<open>What finalizing an order does to the books.\<close>

lemma finalize_effect:
  assumes run: "finalize env p r s = Inr (r', s')" and ok: "ledger_ok env L X s" and r: "current r s"
  shows "order_changed (or_id r) (\<lambda>c. c\<lparr>co_status := Finalized, co_total := item_total s (or_id r)\<rparr>) [] s s'"
    "core r' = (core r)\<lparr>co_status := Finalized, co_total := item_total s (or_id r)\<rparr>" "current r' s'"
    "or_status r = Draft" "\<exists>x\<in>set (items s). it_order x = or_id r \<and> \<not> it_removed x"
    "is_anonymous r \<longrightarrow> or_fulfillment r = ''immediate''" "drawn s' = drawn s"
proof -
  obtain f s1 s2 m where a: "or_status r = Draft"
    "run_all (finalize_item env p r) (job_order (order_items s (or_id r)))
       \<lparr>fin_count = 0, fin_total = 0, fin_sales = [], fin_ledger = s\<rparr> = Inr f"
    "fin_count f \<noteq> 0" "fin_total f < 10 ^ 20" "capture_customer env r (fin_ledger f) = Inr s1"
    "is_anonymous r \<longrightarrow> or_fulfillment r = ''immediate''"
    "transition_order (or_id r) Finalized (fin_total f) (s1\<lparr>logbook := m\<rparr>) = Inr s2"
    "s' = log_event p ''order.finalized'' ''order'' (or_id r) [''status'', ''totalAmount'', ''customerSnapshot''] s2"
    "row_at or_id (or_id r) (orders s') = Some r'"
    using run by (rule finalizeD)
  have f: "books (fin_ledger f) = books s \<and> drawn (fin_ledger f) = drawn s"
    by (rule run_all_keeps[OF a(2)]) (use finalize_item_books in fastforce)+
  have sums: "fin_total f = item_total s (or_id r)" "length (filter (\<lambda>x. \<not> it_removed x) (job_order (order_items s (or_id r)))) \<noteq> 0"
    using finalize_items_sum[OF a(2)] a(3) by (simp_all add: item_total_def sum_job_order)
  have s1: "books s1 = books s" "drawn s1 = drawn s" using capture_books[OF a(5)] f by auto
  have s1b: "books (s1\<lparr>logbook := m\<rparr>) = books s" using s1 by simp
  have t: "books s' = (map (\<lambda>c. if co_id c = or_id r then c\<lparr>co_status := Finalized, co_total := fin_total f\<rparr> else c) (cores s),
                       items s, ledger_payments s, allocations s, adjustments s)" "drawn s' = drawn s"
    using transition_books(1,2)[OF a(7)] s1(2) a(8) unfolding books_fields[OF s1b] by simp_all
  show "order_changed (or_id r) (\<lambda>c. c\<lparr>co_status := Finalized, co_total := item_total s (or_id r)\<rparr>) [] s s'"
    using t sums(1) by (simp add: order_changed_def)
  show cur: "current r' s'" using row_current[OF a(9)] by simp
  show "core r' = (core r)\<lparr>co_status := Finalized, co_total := item_total s (or_id r)\<rparr>"
  proof -
    have "core r' \<in> set (map (\<lambda>c. if co_id c = or_id r then c\<lparr>co_status := Finalized, co_total := fin_total f\<rparr> else c) (cores s))"
      using current_core[OF cur] t(1) by (simp add: books_def)
    then obtain c where c: "c \<in> set (cores s)"
        "core r' = (if co_id c = or_id r then c\<lparr>co_status := Finalized, co_total := fin_total f\<rparr> else c)" by auto
    have "co_id (core r') = or_id r" using row_current[OF a(9)] by simp
    then have "co_id c = or_id r" using c(2) by (metis (no_types, lifting) order_core.select_convs(1) order_core.surjective order_core.update_convs(2,3))
    moreover then have "c = core r" using key_inj[OF ledger_okD(3)[OF ok] current_core[OF r] c(1)] by simp
    ultimately show ?thesis using c(2) sums(1) by simp
  qed
  show "\<exists>x\<in>set (items s). it_order x = or_id r \<and> \<not> it_removed x"
  proof -
    have "filter (\<lambda>x. \<not> it_removed x) (job_order (order_items s (or_id r))) \<noteq> []" using sums(2) by auto
    then obtain x where x: "x \<in> set (job_order (order_items s (or_id r)))" "\<not> it_removed x" by (auto simp: filter_empty_conv)
    have "x \<in> set (order_items s (or_id r))" using x(1) mset_job_order by (metis set_mset_mset)
    then show ?thesis using x(2) by (auto simp: order_items_def)
  qed
  show "drawn s' = drawn s" by (rule t(2))
  show "or_status r = Draft" "is_anonymous r \<longrightarrow> or_fulfillment r = ''immediate''" by (rule a(1), rule a(6))
qed

text \<open>A draft is neither paid nor adjusted.\<close>

lemma draft_sums:
  assumes "ledger_ok env L X s" "current r s" "or_status r = Draft"
  shows "sum_allocations s (or_id r) = 0" "adjusted s (or_id r) = 0"
  using ledger_okD(6)[OF assms(1) current_core[OF assms(2)]] assms(3) by (simp_all add: order_balanced_def)

lemma order_change_sums:
  assumes "order_changed i g as s s'"
  shows "sum_allocations s' j = sum_allocations s j" "item_total s' j = item_total s j" "items s' = items s"
    "adjusted s' j = adjusted s j + (\<Sum>a\<leftarrow>filter (\<lambda>a. ad_order a = j) as. ad_amount a)"
    "allocated_to s' q j = allocated_to s q j" "ledger_payments s' = ledger_payments s" "order_items s' j = order_items s j"
  using assms by (simp_all add: order_changed_def books_def sum_allocations_def item_total_def order_items_def adjusted_def
      allocated_to_def)

text \<open>The rows of the caller's order, for a change of that order.\<close>

lemma order_change_row:
  assumes ok: "ledger_ok env L X s" and change: "order_changed (or_id r) g as s s'" and r: "current r s"
    and as: "\<forall>a\<in>set as. ad_order a = or_id r" and g: "\<And>c. co_id (g c) = co_id c"
    and new: "order_balanced (insert (or_id r) X) s' (g (core r))"
  shows "ledger_ok env L (insert (or_id r) X) s'" "g (core r) \<in> set (cores s')"
proof -
  have mem: "core r \<in> set (cores s)" by (rule current_core[OF r])
  show "ledger_ok env L (insert (or_id r) X) s'"
  proof (rule order_change_keeps[OF ok change as _ g])
    show "or_id r \<in> co_id ` set (cores s)" using mem by force
    show "order_balanced (insert (or_id r) X) s' (g c)" if "c \<in> set (cores s)" "co_id c = or_id r" for c
      using key_inj[OF ledger_okD(3)[OF ok] mem that(1)] that(2) new by simp
  qed simp
  show "g (core r) \<in> set (cores s')" using change mem by (force simp: order_changed_def books_def)
qed

lemma finalize_keeps:
  assumes run: "finalize env p r s = Inr (r', s')" and ok: "ledger_ok env L X s" and r: "current r s"
  shows "ledger_ok env L (insert (or_id r) X) s'"
proof -
  note e = finalize_effect[OF run ok r]
  note sums = order_change_sums[OF e(1)] draft_sums[OF ok r e(4)]
  show ?thesis
  proof (rule order_change_row(1)[OF ok e(1) r])
    show "order_balanced (insert (or_id r) X) s' (core r\<lparr>co_status := Finalized, co_total := item_total s (or_id r)\<rparr>)"
      using sums e(5,6) item_sum_nonneg[OF ledger_okD(2)[OF ok]] by (simp add: order_balanced_def)
  qed simp_all
qed

subsection \<open>Reversing and cancelling\<close>

lemma adjust_items_books: "books (fold (adjust_item env i) xs s) = books s \<and> drawn s \<le> drawn (fold (adjust_item env i) xs s)"
proof (induction xs arbitrary: s)
  case (Cons x xs)
  have "books (adjust_item env i x s) = books s" "drawn s \<le> drawn (adjust_item env i x s)"
    by (simp_all add: adjust_item_def draw_id_def books_def cores_def)
  then show ?case using Cons[of "adjust_item env i x s"] by simp
qed simp

lemma restock_books: "restock_item env p x s = Inr s' \<Longrightarrow> books s' = books s \<and> drawn s' = drawn s"
  by (auto simp: restock_item_def and_then_Inr_iff)

lemma insert_adjustment_books:
  obtains a where "ad_order a = or_id r" "ad_amount a = or_total r"
    "books (insert_adjustment env r reason s) = (cores s, items s, ledger_payments s, allocations s, adjustments s @ [a])"
    "drawn s \<le> drawn (insert_adjustment env r reason s)"
proof -
  let ?a = "\<lparr>ad_id = oe_id env (drawn s), ad_reference = reference ''A'' (oe_now env) (adjustment_seq s + 1), ad_order = or_id r,
             ad_order_reference = or_reference r, ad_amount = or_total r, ad_reason = reason\<rparr>"
  let ?s = "s\<lparr>adjustment_seq := adjustment_seq s + 1, drawn := Suc (drawn s), adjustments := adjustments s @ [?a]\<rparr>"
  have "insert_adjustment env r reason s =
      fold (adjust_item env (oe_id env (drawn s))) (filter (\<lambda>x. \<not> it_removed x) (order_items s (or_id r))) ?s"
    by (simp add: insert_adjustment_def draw_id_def)
  moreover have "books ?s = (cores s, items s, ledger_payments s, allocations s, adjustments s @ [?a])"
    by (simp add: books_def cores_def)
  moreover have "books (fold (adjust_item env (oe_id env (drawn s))) xs ?s) = books ?s"
      "drawn s \<le> drawn (fold (adjust_item env (oe_id env (drawn s))) xs ?s)" for xs
    using adjust_items_books[of env "oe_id env (drawn s)" xs ?s] by simp_all
  ultimately show ?thesis by (intro that[of ?a]) (simp_all only: order_row.simps adjustment_row.simps)
qed

lemma reverse_orderD:
  assumes "reverse_order env p r text s = Inr s'"
  obtains s1 s2 where "or_status r = Finalized" "sum_allocations s (or_id r) = 0"
    "run_all (restock_item env p) (sold_order (order_items s (or_id r))) (insert_adjustment env r (trim_space text) s) = Inr s1"
    "transition_order (or_id r) Reversed (or_total r) (release_order_claims (or_id r) s1) = Inr s2"
    "s' = log_event p ''order.reversed'' ''order'' (or_id r) [''status'', ''adjustments''] s2"
  using assms that by (auto simp: reverse_order_def and_then_Inr_iff Let_def)

lemma reverse_order_effect:
  assumes run: "reverse_order env p r text s = Inr s'"
  obtains a where "ad_order a = or_id r" "ad_amount a = or_total r" "or_status r = Finalized"
    "order_changed (or_id r) (\<lambda>c. c\<lparr>co_status := Reversed, co_total := or_total r\<rparr>) [a] s s'"
    "sum_allocations s (or_id r) = 0"
proof -
  obtain s1 s2 where a: "or_status r = Finalized" "sum_allocations s (or_id r) = 0"
    "run_all (restock_item env p) (sold_order (order_items s (or_id r))) (insert_adjustment env r (trim_space text) s) = Inr s1"
    "transition_order (or_id r) Reversed (or_total r) (release_order_claims (or_id r) s1) = Inr s2"
    "s' = log_event p ''order.reversed'' ''order'' (or_id r) [''status'', ''adjustments''] s2"
    using run by (rule reverse_orderD)
  let ?s = "insert_adjustment env r (trim_space text) s"
  obtain b where b: "ad_order b = or_id r" "ad_amount b = or_total r"
    "books ?s = (cores s, items s, ledger_payments s, allocations s, adjustments s @ [b])" "drawn s \<le> drawn ?s"
    using insert_adjustment_books[of r env "trim_space text" s] by metis
  have "books s1 = books ?s \<and> drawn s1 = drawn ?s"
    by (rule run_all_keeps[OF a(3)]) (use restock_books in fastforce)+
  then have f: "books (release_order_claims (or_id r) s1) = (cores s, items s, ledger_payments s, allocations s, adjustments s @ [b])"
      "drawn s \<le> drawn (release_order_claims (or_id r) s1)" using b by simp_all
  have "books s2 = (map (\<lambda>c. if co_id c = or_id r then c\<lparr>co_status := Reversed, co_total := or_total r\<rparr> else c) (cores s),
                     items s, ledger_payments s, allocations s, adjustments s @ [b])" "drawn s \<le> drawn s2"
    using transition_books(1,2)[OF a(4)] f by (simp_all add: books_def)
  then have "order_changed (or_id r) (\<lambda>c. c\<lparr>co_status := Reversed, co_total := or_total r\<rparr>) [b] s s'"
    using a(5) by (simp add: order_changed_def)
  then show ?thesis using that[of b] a(1,2) b(1,2) by simp
qed

lemma reverse_order_keeps:
  assumes run: "reverse_order env p r text s = Inr s'" and ok: "ledger_ok env L (insert (or_id r) X) s" and r: "current r s"
  shows "ledger_ok env L X s'" "\<exists>c\<in>set (cores s'). co_id c = or_id r \<and> co_status c = Reversed" "items s' = items s"
    "allocations s' = allocations s" "ledger_payments s' = ledger_payments s"
    "d \<in> set (cores s) \<Longrightarrow> co_id d \<noteq> or_id r \<Longrightarrow> d \<in> set (cores s')"
proof -
  obtain a where a: "ad_order a = or_id r" "ad_amount a = or_total r" "or_status r = Finalized"
    "order_changed (or_id r) (\<lambda>c. c\<lparr>co_status := Reversed, co_total := or_total r\<rparr>) [a] s s'"
    "sum_allocations s (or_id r) = 0"
    using run by (rule reverse_order_effect)
  note sums = order_change_sums[OF a(4)]
  have "order_balanced (insert (or_id r) X) s (core r)" by (rule ledger_okD(6)[OF ok current_core[OF r]])
  then have new: "order_balanced (insert (or_id r) X) s' (core r\<lparr>co_status := Reversed, co_total := or_total r\<rparr>)"
    using sums a by (simp add: order_balanced_def)
  note k = order_change_row[OF ok a(4) r _ _ , simplified, OF a(1) new]
  let ?c = "core r\<lparr>co_status := Reversed, co_total := or_total r\<rparr>"
  show "ledger_ok env L X s'" by (rule ledger_ok_settled[OF k(1), of ?c]) (use k(2) in simp_all)
  show "\<exists>c\<in>set (cores s'). co_id c = or_id r \<and> co_status c = Reversed" by (rule bexI[OF _ k(2)]) simp
  show "items s' = items s" "allocations s' = allocations s" "ledger_payments s' = ledger_payments s"
    "d \<in> set (cores s) \<Longrightarrow> co_id d \<noteq> or_id r \<Longrightarrow> d \<in> set (cores s')"
    using a(4) by (auto simp: order_changed_def books_def)
qed

lemma cancel_order_keeps:
  assumes run: "cancel_order p r s = Inr (i, s')" and ok: "ledger_ok env L X s" and r: "current r s"
  shows "ledger_ok env L X s'"
proof -
  obtain s2 where a: "or_status r = Draft" "transition_order (or_id r) Cancelled (or_total r) (release_order_claims (or_id r) s) = Inr s2"
      "s' = log_event p ''order.cancelled'' ''order'' (or_id r) [''status''] s2"
    using run by (auto simp: cancel_order_def require_draft_def and_then_Inr_iff)
  have e: "order_changed (or_id r) (\<lambda>c. c\<lparr>co_status := Cancelled, co_total := or_total r\<rparr>) [] s s'"
    using transition_books(1,2)[OF a(2)] a(3) unfolding books_fields[OF release_books(1)[of "or_id r" s]]
    by (simp add: order_changed_def)
  have "order_balanced X s (core r)" by (rule ledger_okD(6)[OF ok current_core[OF r]])
  then have new: "order_balanced (insert (or_id r) X) s' (core r\<lparr>co_status := Cancelled, co_total := or_total r\<rparr>)"
    using order_change_sums[OF e] a(1) by (simp add: order_balanced_def)
  note k = order_change_row[OF ok e r _ _ , simplified, OF new]
  show ?thesis by (rule ledger_ok_settled[OF k(1), of "core r\<lparr>co_status := Cancelled, co_total := or_total r\<rparr>"]) (use k(2) in simp_all)
qed

section \<open>Drafts and their items\<close>

lemma create_order_keeps:
  assumes run: "create_order env p c mode original s = Inr (r, s')" and ok: "ledger_ok env L X s" and inj: "inj (oe_id env)"
  shows "ledger_ok env L X s' \<and> current r s' \<and> or_status r = Draft"
proof -
  obtain kind person org n k where v: "validate_customer env c = Inr (kind, person, org, n, k)"
    using run by (auto simp: create_order_def and_then_Inr_iff)
  let ?s = "s\<lparr>order_seq := order_seq s + 1, drawn := Suc (drawn s)\<rparr>"
  have r: "r = \<lparr>or_id = oe_id env (drawn s), or_reference = reference ''O'' (oe_now env) (order_seq s + 1), or_status = Draft,
                or_customer_kind = kind, or_person = person, or_organization = org, or_fulfillment = mode, or_total = 0,
                or_replaces = map_option or_id original, or_replaces_reference = map_option or_reference original,
                or_version = 1\<rparr>"
    and s': "s' = log_event p ''order.created'' ''order'' (oe_id env (drawn s)) [''customer'', ''fulfillmentMode'']
               (?s\<lparr>orders := orders s @ [r]\<rparr>)"
    using run by (auto simp: create_order_def v draw_id_def Let_def)
  have b: "books s' = (cores s @ [core r], items s, ledger_payments s, allocations s, adjustments s)"
    unfolding s' books_log by (simp add: books_def cores_def)
  have "drawn s' = Suc (drawn s)" by (simp add: s')
  then have "ledger_ok env L X s'"
    by (intro order_added[OF ok inj b, of "drawn s"]) (simp_all add: r)
  then show ?thesis using b by (simp add: current_def books_def r)
qed

lemma line_amount_nonneg: "0 \<le> quantity \<Longrightarrow> 0 \<le> price \<Longrightarrow> 0 \<le> line_amount quantity price"
proof -
  assume "0 \<le> quantity" "0 \<le> price"
  then have "0 \<le> quantity * price" by simp
  then show ?thesis by (simp add: line_amount_def pos_imp_zdiv_nonneg_iff)
qed

lemma priced_amount:
  assumes "priced quantity price f = Inr v" "0 \<le> quantity" "0 \<le> price" "\<And>n. iv_amount (f n) = n"
  shows "0 \<le> iv_amount v"
proof -
  have "v = f (line_amount quantity price)" using assms(1) by (simp add: priced_def)
  then show ?thesis using assms(4) line_amount_nonneg[OF assms(2,3)] by simp
qed

lemma manual_amount: "manual_values input = Inr v \<Longrightarrow> 0 \<le> iv_amount v"
  unfolding manual_values_def and_then_Inr_iff
  by (elim exE conjE, rule priced_amount) (auto dest: parse_amount_bounds)

lemma job_amount: "job_values env p input s = Inr v \<Longrightarrow> 0 \<le> iv_amount v"
  by (auto simp: job_values_def and_then_Inr_iff Let_def split: option.splits) (meson parse_amount_bounds)

lemma article_amount: "article_values env p r input s = Inr v \<Longrightarrow> 0 \<le> iv_amount v"
  unfolding article_values_def and_then_Inr_iff Let_def ensure_Inr_iff
  by (elim exE conjE, rule priced_amount) (auto dest: parse_amount_bounds)

lemma store_item_books:
  assumes "store_item env r i kind v s = Inr s'"
  obtains x where "it_id x = i" "it_order x = or_id r" "it_amount x = iv_amount v" "\<not> it_removed x" "drawn s' = drawn s"
    "books s' = (cores s, items s @ [x], ledger_payments s, allocations s, adjustments s)" "it_job x = iv_job v"
    "items s' = items s @ [x]"
proof -
  let ?x = "\<lparr>it_id = i, it_order = or_id r, it_position = fold max (map it_position (order_items s (or_id r))) 0 + 1,
              it_kind = kind, it_description = iv_description v, it_quantity = iv_quantity v, it_unit = iv_unit v,
              it_unit_price = iv_price v, it_amount = iv_amount v, it_job = iv_job v, it_job_version = iv_job_version v,
              it_material = iv_material v, it_removed = False\<rparr>"
  let ?s = "s\<lparr>items := items s @ [?x]\<rparr>"
  have "s' = ?s \<or> (\<exists>j. s' = claim_job j i ?s)"
    using assms by (auto simp: store_item_def Let_def split: option.splits)
  then have "books s' = books ?s \<and> drawn s' = drawn s" by auto
  then show ?thesis using that[of ?x] by (simp add: books_def cores_def)
qed

lemma insert_item_steps:
  assumes "insert_item env p r input s = Inr s'"
  obtains v s1 where "0 \<le> iv_amount v"
    "store_item env r (oe_id env (drawn s)) (ii_kind input) v (s\<lparr>drawn := Suc (drawn s)\<rparr>) = Inr s1"
    "s' = log_event p ''order.item_added'' ''order'' (or_id r) [''items''] (bump_order (or_id r) s1)"
proof -
  let ?s = "s\<lparr>drawn := Suc (drawn s)\<rparr>"
  obtain v s1 where v: "(if ii_kind input = ''manual'' then manual_values input
                else if ii_kind input = ''machine_job'' then job_values env p input ?s
                else if ii_kind input = ''inventory_item'' then article_values env p r input ?s
                else Inl (invalid ''Invalid item kind'')) = Inr v"
    "store_item env r (oe_id env (drawn s)) (ii_kind input) v ?s = Inr s1"
    "s' = log_event p ''order.item_added'' ''order'' (or_id r) [''items''] (bump_order (or_id r) s1)"
    using assms by (simp only: insert_item_def draw_id_def Let_def split_beta fst_conv snd_conv and_then_Inr_iff ensure_Inr_iff) blast
  moreover have "0 \<le> iv_amount v"
    using v(1) manual_amount job_amount article_amount by (auto split: if_splits)
  ultimately show ?thesis by (intro that[of v s1])
qed

lemma insert_item_keeps:
  assumes run: "insert_item env p r input s = Inr s'" and ok: "ledger_ok env L X s" and inj: "inj (oe_id env)"
    and r: "current r s" "or_status r = Draft"
  shows "ledger_ok env L X s' \<and> current r s'"
proof -
  obtain v s1 where v: "0 \<le> iv_amount v"
    "store_item env r (oe_id env (drawn s)) (ii_kind input) v (s\<lparr>drawn := Suc (drawn s)\<rparr>) = Inr s1"
    "s' = log_event p ''order.item_added'' ''order'' (or_id r) [''items''] (bump_order (or_id r) s1)"
    using run by (rule insert_item_steps)
  obtain x where x: "it_id x = oe_id env (drawn s)" "it_order x = or_id r" "it_amount x = iv_amount v"
      "drawn s1 = Suc (drawn s)" "books s1 = (cores s, items s @ [x], ledger_payments s, allocations s, adjustments s)"
    using v(2) by (rule store_item_books) (auto simp: cores_def)
  have s': "books s' = books s1" "drawn s' = drawn s1" by (simp_all add: v(3))
  have change: "items_changed (or_id r) (items s @ [x]) s s'"
    using x s' by (simp add: items_changed_def)
  have "ledger_ok env L X s'"
  proof (rule items_change_keeps[OF ok change current_core[OF r(1)]])
    show "distinct (map it_id (items s @ [x]))"
      using ledger_okD(5)[OF ok] fresh_id(3)[OF ledger_okD(1)[OF ok], of "drawn s"] x(1) by simp
    show "\<forall>y\<in>set (items s @ [x]). 0 \<le> it_amount y" using ledger_okD(2)[OF ok] v(1) x(3) by (auto simp: links_ok_def)
    show "oe_id env k \<notin> it_id ` set (items s @ [x])" if "drawn s' \<le> k" for k
    proof -
      have "oe_id env k \<noteq> it_id x" using inj that x(1,4) s'(2) by (metis Suc_n_not_le_n injD)
      then show ?thesis using fresh_id(3)[OF ledger_okD(1)[OF ok], of k] that x(4) s'(2) by simp
    qed
  qed (use r in simp_all)
  then show ?thesis using s' x(5) r(1) by (simp add: current_def books_def)
qed

lemma remove_item_keeps:
  assumes ok: "ledger_ok env L X s" and r: "current r s" "or_status r = Draft"
    and x: "x \<in> set (items s)" "it_id x = i" "it_order x = or_id r"
  shows "ledger_ok env L X (remove_item p (or_id r) i s) \<and> current r (remove_item p (or_id r) i s)"
proof -
  let ?f = "\<lambda>x. if it_id x = i then x\<lparr>it_removed := True\<rparr> else x"
  have only: "it_order y = or_id r" if "y \<in> set (items s)" "it_id y = i" for y
    using key_inj[OF ledger_okD(5)[OF ok] x(1) that(1)] that(2) x(2,3) by simp
  have b: "books (remove_item p (or_id r) i s) = (cores s, map ?f (items s), ledger_payments s, allocations s, adjustments s)"
      "drawn (remove_item p (or_id r) i s) = drawn s"
    by (simp_all add: remove_item_def release_item_claim_def) (simp add: books_def cores_def)
  have "filter (\<lambda>x. it_order x \<noteq> or_id r) (map ?f ys) = filter (\<lambda>x. it_order x \<noteq> or_id r) ys" if "set ys \<subseteq> set (items s)" for ys
    using that only by (induction ys) auto
  then have change: "items_changed (or_id r) (map ?f (items s)) s (remove_item p (or_id r) i s)"
    using b by (simp add: items_changed_def)
  have ids: "map it_id (map ?f (items s)) = map it_id (items s)" by simp
  have "ledger_ok env L X (remove_item p (or_id r) i s)"
  proof (rule items_change_keeps[OF ok change current_core[OF r(1)]])
    show "distinct (map it_id (map ?f (items s)))" unfolding ids by (rule ledger_okD(5)[OF ok])
    show "oe_id env k \<notin> it_id ` set (map ?f (items s))" if "drawn (remove_item p (or_id r) i s) \<le> k" for k
    proof -
      have "it_id ` set (map ?f (items s)) = it_id ` set (items s)" by (metis ids set_map)
      then show ?thesis using fresh_id(3)[OF ledger_okD(1)[OF ok], of k] that b(2) by simp
    qed
    show "\<forall>y\<in>set (map ?f (items s)). 0 \<le> it_amount y" using ledger_okD(2)[OF ok] by (auto simp: links_ok_def)
  qed (use r in simp_all)
  then show ?thesis using b(1) r(1) by (simp add: current_def books_def)
qed

lemma take_item_keeps:
  assumes run: "take_item env p (or_id r) i input action s = Inr (input', s')" and ok: "ledger_ok env L X s"
    and r: "current r s" "or_status r = Draft"
  shows "ledger_ok env L X s' \<and> current r s'"
proof (cases "action = Add_Item")
  case False
  have "\<exists>x. find (\<lambda>x. it_id x = i \<and> it_order x = or_id r) (items s) = Some x \<and> s' = remove_item p (or_id r) i s"
    using run False by (cases "find (\<lambda>x. it_id x = i \<and> it_order x = or_id r) (items s)")
      (auto simp: take_item_def Let_def and_then_Inr_iff split: if_splits option.splits)
  then obtain x where x: "find (\<lambda>x. it_id x = i \<and> it_order x = or_id r) (items s) = Some x" "s' = remove_item p (or_id r) i s"
    by blast
  have "x \<in> set (items s) \<and> it_id x = i \<and> it_order x = or_id r" using x(1) by (auto simp: find_Some_iff)
  then show ?thesis using remove_item_keeps[OF ok r] x(2) by blast
qed (use assms in \<open>simp add: take_item_def\<close>)

lemma lock_orderD: "lock_order s i = Inr r \<Longrightarrow> current r s \<and> or_id r = i \<and> row_at or_id i (orders s) = Some r"
  using row_current by (fastforce simp: lock_order_def split: option.splits)

lemma change_item_keeps:
  assumes run: "change_item env p j i input action s = Inr s'" and ok: "ledger_ok env L X s" and inj: "inj (oe_id env)"
  shows "ledger_ok env L X s'"
proof -
  obtain r input' s1 s2 where a: "lock_order s j = Inr r" "or_status r = Draft"
      "take_item env p j i input action s = Inr (input', s1)"
      "(if action = Remove_Item then Inr (bump_order j s1) else insert_item env p r input' s1) = Inr s2"
      "s' = (if action = Refresh_Item then log_event p ''order.item_refreshed'' ''order'' j [''items''] s2 else s2)"
    using run by (auto simp: change_item_def and_then_Inr_iff require_draft_def)
  have r: "current r s" "or_id r = j" using lock_orderD[OF a(1)] by simp_all
  have s1: "ledger_ok env L X s1 \<and> current r s1"
    using take_item_keeps[OF _ ok r(1) a(2)] a(3) r(2) by blast
  have "ledger_ok env L X s2"
  proof (cases "action = Remove_Item")
    case True
    then have "s2 = bump_order j s1" using a(4) by simp
    then show ?thesis using s1 ledger_ok_books[of "bump_order j s1" s1] by simp
  next
    case False
    then show ?thesis using insert_item_keeps[OF _ _ inj] a(2,4) s1 by auto
  qed
  then show ?thesis using a(5) ledger_ok_books[of s' s2] by simp
qed

lemma update_draft_keeps:
  assumes run: "update_draft env p i input s = Inr s'" and ok: "ledger_ok env {} {} s"
  shows "ledger_ok env {} {} s'"
proof -
  obtain r kind person org where a: "lock_order s i = Inr r" "or_status r = Draft"
      "s' = log_event p ''order.updated'' ''order'' i [''customer'', ''fulfillmentMode'']
              (update_order i (\<lambda>r. r\<lparr>or_customer_kind := kind, or_person := person, or_organization := org,
                                     or_fulfillment := ud_fulfillment input, or_version := or_version r + 1\<rparr>) s)"
    using run by (auto simp: update_draft_def and_then_Inr_iff require_draft_def)
  let ?g = "\<lambda>c. c\<lparr>co_anonymous := (kind = ''anonymous''), co_immediate := (ud_fulfillment input = ''immediate'')\<rparr>"
  have r: "current r s" "or_id r = i" using lock_orderD[OF a(1)] by simp_all
  have e: "order_changed (or_id r) ?g [] s s'"
    unfolding a(3) order_changed_def books_log
    by (simp add: books_def cores_def update_order_def core_def is_anonymous_def r(2))
  have "order_balanced {} s (core r)" by (rule ledger_okD(6)[OF ok current_core[OF r(1)]])
  then have new: "order_balanced (insert (or_id r) {}) s' (?g (core r))"
    using order_change_sums[OF e] a(2) by (simp add: order_balanced_def)
  note k = order_change_row[OF ok e r(1) _ _, simplified, OF new]
  show ?thesis by (rule ledger_ok_settled[OF k(1), of "?g (core r)"]) (use k(2) a(2) in simp_all)
qed

section \<open>Commands\<close>

text \<open>An anonymous order is settled once check_anonymous accepts it.\<close>

lemma check_anonymousD: "check_anonymous r s = Inr u \<Longrightarrow> is_anonymous r \<Longrightarrow> sum_allocations s (or_id r) = or_total r"
  by (simp add: check_anonymous_def)

lemma checked_order_settles:
  assumes "ledger_ok env L (insert (or_id r) X) s" "current r s" "check_anonymous r s = Inr u"
  shows "ledger_ok env L X s"
  by (rule ledger_ok_settled[OF assms(1) current_core[OF assms(2)]]) (use check_anonymousD[OF assms(3)] in auto)

lemma receipts_keep:
  assumes run: "run_all (receipt env p r op) inputs s = Inr s'" and ok: "ledger_ok env {} X s" and inj: "inj (oe_id env)"
    and r: "current r s" "is_anonymous r \<longrightarrow> or_id r \<in> X"
  shows "ledger_ok env {} X s' \<and> current r s'"
  by (rule run_all_keeps[OF run]) (use ok r receipt_keeps[OF _ inj] current_same in blast)+

lemma reversals_keep:
  assumes run: "run_all (reverse_receipt env p r op) inputs s = Inr s'" and ok: "ledger_ok env {} X s" and inj: "inj (oe_id env)"
  shows "ledger_ok env {} (insert (or_id r) X) s' \<and> cores s' = cores s \<and> items s' = items s"
proof (rule run_all_keeps[OF run])
  show "ledger_ok env {} (insert (or_id r) X) s \<and> cores s = cores s \<and> items s = items s"
    using ledger_ok_mono[OF ok] by blast
  show "ledger_ok env {} (insert (or_id r) X) s2 \<and> cores s2 = cores s \<and> items s2 = items s"
    if "reverse_receipt env p r op x s1 = Inr s2" "ledger_ok env {} (insert (or_id r) X) s1 \<and> cores s1 = cores s \<and> items s1 = items s"
    for x s1 s2
    using reverse_receipt_keeps[of env "insert (or_id r) X" s1, OF _ inj that(1)] that(2) by (simp add: insert_absorb)
qed

lemma finalize_and_pay_keeps:
  assumes run: "finalize_and_pay env p input r s = Inr (i, s')" and ok: "ledger_ok env {} {} s" and inj: "inj (oe_id env)"
    and r: "current r s"
  shows "ledger_ok env {} {} s'"
proof -
  obtain r1 s1 u where a: "finalize env p r s = Inr (r1, s1)" "run_all (receipt env p r1 (oc_key input)) (oc_payments input) s1 = Inr s'"
      "check_anonymous r1 s' = Inr u"
    using run by (auto simp: finalize_and_pay_def and_then_Inr_iff)
  have same: "or_id r1 = or_id r" using finalize_effect(2)[OF a(1) ok r] by (simp add: core_def)
  have "ledger_ok env {} {or_id r1} s'" "current r1 s'"
    using receipts_keep[OF a(2) finalize_keeps[OF a(1) ok r] inj finalize_effect(3)[OF a(1) ok r]] same by simp_all
  then show ?thesis by (rule checked_order_settles[OF _ _ a(3)])
qed

lemma reverse_command_keeps:
  assumes run: "reverse_command env p input r s = Inr (i, s')" and ok: "ledger_ok env {} {} s" and inj: "inj (oe_id env)"
    and r: "current r s"
  shows "ledger_ok env {} {} s'"
proof -
  obtain s1 where a: "run_all (reverse_receipt env p r (oc_key input)) (oc_reversals input) s = Inr s1"
      "reverse_order env p r (oc_reason input) s1 = Inr s'"
    using run by (auto simp: reverse_command_def and_then_Inr_iff)
  have s1: "ledger_ok env {} {or_id r} s1" "cores s1 = cores s" using reversals_keep[OF a(1) ok inj] by simp_all
  show ?thesis by (rule reverse_order_keeps(1)[OF a(2) s1(1)]) (use r current_same[OF s1(2)] in simp)
qed

lemma copy_item_step:
  assumes "copy_item env p r x s = Inr s'"
  shows "s' = s \<or> (\<exists>input. insert_item env p r input s = Inr s')"
  using assms by (auto simp: copy_item_def and_then_Inr_iff split: if_splits option.splits)

lemma prepare_replacement_keeps:
  assumes run: "prepare_replacement env p r s = Inr (i, s')" and ok: "ledger_ok env {} {} s" and inj: "inj (oe_id env)"
  shows "ledger_ok env {} {} s'"
proof -
  obtain r1 s1 where a: "create_order env p (customer_reference r) (or_fulfillment r) (Some r) s = Inr (r1, s1)"
      "run_all (copy_item env p r1) (order_items s1 (or_id r)) s1 = Inr s'"
    using run by (auto simp: prepare_replacement_def and_then_Inr_iff)
  note c = create_order_keeps[OF a(1) ok inj]
  have "ledger_ok env {} {} s' \<and> current r1 s'"
  proof (rule run_all_keeps[OF a(2)])
    show "ledger_ok env {} {} t' \<and> current r1 t'" if "copy_item env p r1 x t = Inr t'" "ledger_ok env {} {} t \<and> current r1 t" for x t t'
      using copy_item_step[OF that(1)] insert_item_keeps[OF _ _ inj, of p r1 _ t t'] that(2) c by blast
  qed (use c in blast)
  then show ?thesis by simp
qed

subsection \<open>Replacing an order\<close>

lemma take_all:
  assumes "ledger_ok env L X s" "distinct (map pm_id ps)"
    "\<forall>p\<in>set ps. p \<in> set (ledger_payments s) \<and> 0 < allocated_to s (pm_id p) (or_id r)"
  shows "let s' = fold (\<lambda>pay. allocate env pay r (- pm_amount pay) op) ps s in
    ledger_ok env (L \<union> pm_id ` set ps) (insert (or_id r) X) s' \<and> cores s' = cores s \<and> items s' = items s \<and>
    ledger_payments s' = ledger_payments s"
  using assms
proof (induction ps arbitrary: s L X)
  case Nil
  then show ?case using ledger_ok_mono[of env L X s "insert (or_id r) X"] by simp blast
next
  case (Cons p ps)
  let ?s = "allocate env p r (- pm_amount p) op s"
  note add = allocate_added[of p r "- pm_amount p" s env op]
  note f = allocation_fields[OF add]
  have "ledger_ok env (insert (pm_id p) L) (insert (or_id r) X) ?s"
    by (rule take_receipt[OF Cons.prems(1) add]) (use Cons.prems(3) in simp_all)
  moreover have "\<forall>q\<in>set ps. q \<in> set (ledger_payments ?s) \<and> 0 < allocated_to ?s (pm_id q) (or_id r)"
  proof
    fix q assume q: "q \<in> set ps"
    then have "pm_id q \<noteq> pm_id p" using Cons.prems(2) by (metis distinct.simps(2) imageI list.simps(9) set_map)
    then show "q \<in> set (ledger_payments ?s) \<and> 0 < allocated_to ?s (pm_id q) (or_id r)"
      using Cons.prems(3) q by (simp add: f)
  qed
  ultimately have "let s' = fold (\<lambda>pay. allocate env pay r (- pm_amount pay) op) ps ?s in
      ledger_ok env (insert (pm_id p) L \<union> pm_id ` set ps) (insert (or_id r) (insert (or_id r) X)) s' \<and> cores s' = cores ?s \<and>
      items s' = items ?s \<and> ledger_payments s' = ledger_payments ?s"
    using Cons.prems(2) by (intro Cons.IH) simp_all
  then show ?case by (simp add: Let_def f)
qed

lemma move_receipt_added:
  assumes "move_receipt env p op r pay s = Inr s'"
  shows "allocation_added pay (or_id r) (pm_amount pay) s s'"
proof -
  have "books s' = books (allocate env pay r (pm_amount pay) op s)" "drawn s' = drawn (allocate env pay r (pm_amount pay) op s)"
    using assms by (auto simp: move_receipt_def)
  then show ?thesis using allocate_added[of pay r "pm_amount pay" s env op] by (simp add: allocation_added_def)
qed

lemma place_all:
  assumes "run_all (move_receipt env p op r) ps s = Inr s'" "ledger_ok env L X s" "distinct (map pm_id ps)"
    "\<forall>q\<in>set ps. q \<in> set (ledger_payments s) \<and> pm_entry q = ''receipt'' \<and> pm_id q \<in> L"
    "current r s" "or_status r = Finalized" "is_anonymous r \<longrightarrow> or_id r \<in> X"
    "sum_allocations s (or_id r) + sum_list (map pm_amount ps) \<le> or_total r"
  shows "ledger_ok env (L - pm_id ` set ps) X s' \<and> cores s' = cores s"
  using assms
proof (induction ps arbitrary: s L)
  case (Cons q ps)
  obtain s1 where s1: "move_receipt env p op r q s = Inr s1" "run_all (move_receipt env p op r) ps s1 = Inr s'"
    using Cons.prems(1) by (auto simp: and_then_Inr_iff)
  note add = move_receipt_added[OF s1(1)]
  note f = allocation_fields[OF add]
  have pos: "0 \<le> sum_list (map pm_amount ps)"
  proof (rule sum_list_nonneg)
    fix n assume "n \<in> set (map pm_amount ps)"
    then show "0 \<le> n" using Cons.prems(4) ledger_okD(7)[OF Cons.prems(2)] by (force simp: receipt_balanced_def)
  qed
  have ok1: "ledger_ok env (L - {pm_id q}) X s1"
    by (rule place_receipt[OF Cons.prems(2), of q "core r"])
      (use Cons.prems pos current_core[OF Cons.prems(5)] add in \<open>simp_all\<close>)
  have rest: "\<forall>x\<in>set ps. x \<in> set (ledger_payments s1) \<and> pm_entry x = ''receipt'' \<and> pm_id x \<in> L - {pm_id q}"
  proof
    fix x assume x: "x \<in> set ps"
    then have "pm_id x \<noteq> pm_id q" using Cons.prems(3) by (metis distinct.simps(2) imageI list.simps(9) set_map)
    then show "x \<in> set (ledger_payments s1) \<and> pm_entry x = ''receipt'' \<and> pm_id x \<in> L - {pm_id q}"
      using Cons.prems(4) x by (simp add: f)
  qed
  have cur1: "current r s1" using Cons.prems(5) current_same[OF f(1)] by simp
  have ids: "distinct (map pm_id ps)" using Cons.prems(3) by simp
  have fits: "sum_allocations s1 (or_id r) + sum_list (map pm_amount ps) \<le> or_total r" using Cons.prems(8) by (simp add: f(6))
  have "ledger_ok env ((L - {pm_id q}) - pm_id ` set ps) X s' \<and> cores s' = cores s1"
    by (rule Cons.IH[OF s1(2) ok1 ids rest cur1 Cons.prems(6,7) fits])
  moreover have "(L - {pm_id q}) - pm_id ` set ps = L - pm_id ` set (q # ps)" by auto
  ultimately show ?case using f(1) by simp
qed simp

lemma active_receiptsD:
  assumes "ledger_ok env L X s"
  shows "distinct (map pm_id (active_receipts s i))"
    "\<forall>p\<in>set (active_receipts s i). p \<in> set (ledger_payments s) \<and> 0 < allocated_to s (pm_id p) i"
proof -
  have "distinct (map pm_id (filter Q (ledger_payments s)))" for Q
    using ledger_okD(4)[OF assms] by (simp add: distinct_map_filter)
  then have "distinct (map pm_id (sort_key pm_id (filter Q (ledger_payments s))))" for Q
    by (simp add: distinct_map)
  then show "distinct (map pm_id (active_receipts s i))" by (simp add: active_receipts_def)
qed (simp add: active_receipts_def)

text \<open>The receipts that are carried over fit into the replacement.\<close>

lemma carried_receiptsD:
  assumes "carried_receipts s r next_row = Inr carried" "ledger_ok env L X s" "current next_row s" "or_status next_row = Draft"
    "item_total s (or_id next_row) < 10 ^ 20"
  shows "carried = active_receipts s (or_id r)" "sum_list (map pm_amount carried) \<le> item_total s (or_id next_row)"
proof -
  obtain v n where v: "load_order s (or_id next_row) = Inr v" "parse_amount (ov_total v) 2 False = Inr n"
      "sum_list (map pm_amount carried) \<le> n" "carried = active_receipts s (or_id r)"
    using assms(1) by (auto simp: carried_receipts_def and_then_Inr_iff Let_def)
  obtain r' where r': "lock_order s (or_id next_row) = Inr r'" "ov_total v = money (gross_total s r')"
    using v(1) by (auto simp: load_order_def and_then_Inr_iff Let_def)
  have "core r' = core next_row"
    using key_inj[OF ledger_okD(3)[OF assms(2)] current_core[OF assms(3)], of "core r'"] lock_orderD[OF r'(1)]
    by (simp add: current_def)
  then have "or_status r' = Draft" "or_id r' = or_id next_row" using assms(4) by (metis core_fields(2), metis core_fields(1))
  then have "ov_total v = money (item_total s (or_id next_row))" using r'(2) by (simp add: gross_total_def)
  then have "n = item_total s (or_id next_row)"
    using v(2) parse_money[of "item_total s (or_id next_row)"] assms(5) item_sum_nonneg[OF ledger_okD(2)[OF assms(2)]] by simp
  then show "sum_list (map pm_amount carried) \<le> item_total s (or_id next_row)" "carried = active_receipts s (or_id r)"
    using v(3,4) by simp_all
qed

lemma finalize_total_bound:
  assumes "finalize env p r s = Inr (r', s')"
  shows "item_total s (or_id r) < 10 ^ 20"
proof -
  obtain f s1 s2 m where a: "or_status r = Draft"
    "run_all (finalize_item env p r) (job_order (order_items s (or_id r)))
       \<lparr>fin_count = 0, fin_total = 0, fin_sales = [], fin_ledger = s\<rparr> = Inr f"
    "fin_count f \<noteq> 0" "fin_total f < 10 ^ 20" "capture_customer env r (fin_ledger f) = Inr s1"
    "is_anonymous r \<longrightarrow> or_fulfillment r = ''immediate''"
    "transition_order (or_id r) Finalized (fin_total f) (s1\<lparr>logbook := m\<rparr>) = Inr s2"
    "s' = log_event p ''order.finalized'' ''order'' (or_id r) [''status'', ''totalAmount'', ''customerSnapshot''] s2"
    "row_at or_id (or_id r) (orders s') = Some r'"
    using assms by (rule finalizeD)
  then show ?thesis using finalize_items_sum[OF a(2)] by (simp add: item_total_def sum_job_order)
qed

lemma check_replacementD:
  assumes "check_replacement input r next_row s = Inr u"
  shows "or_status next_row = Draft" "committed r"
  using assms by (auto simp: check_replacement_def and_then_Inr_iff require_draft_def)

lemma replace_orderD:
  assumes "replace_order env p input r next_row s = Inr (i, s')"
  obtains s1 carried s3 r4 s4 s5 s6 u v where "check_replacement input r next_row s = Inr u"
    "run_all (reverse_receipt env p r (oc_key input)) (oc_reversals input) s = Inr s1"
    "carried_receipts s1 r next_row = Inr carried"
    "(if or_status r = Finalized
      then reverse_order env p r (oc_reason input) (fold (\<lambda>pay. allocate env pay r (- pm_amount pay) (oc_key input)) carried s1)
      else Inr (bump_order (or_id r) (fold (\<lambda>pay. allocate env pay r (- pm_amount pay) (oc_key input)) carried s1))) = Inr s3"
    "finalize env p next_row s3 = Inr (r4, s4)" "run_all (move_receipt env p (oc_key input) r4) carried s4 = Inr s5"
    "run_all (receipt env p r4 (oc_key input)) (oc_payments input) s5 = Inr s6" "check_anonymous r4 s6 = Inr v"
    "s' = log_event p ''order.replaced'' ''order'' (or_id r) [''replacement''] s6"
  using assms that unfolding replace_order_def and_then_Inr_iff Let_def
  by (elim exE conjE) (simp only: split_beta and_then_Inr_iff prod.collapse, force)

text \<open>The states a replacement goes through.\<close>

lemma replace_order_states:
  assumes run: "replace_order env p input r next_row s = Inr (i, s')" and ok: "ledger_ok env {} {} s" and inj: "inj (oe_id env)"
    and r: "current r s" "current next_row s" "or_id next_row \<noteq> or_id r"
  obtains s1 carried s2 s3 r4 s4 s5 s6 where
    "run_all (reverse_receipt env p r (oc_key input)) (oc_reversals input) s = Inr s1" "ledger_ok env {} {or_id r} s1"
    "carried = active_receipts s1 (or_id r)" "list_all (\<lambda>x. pm_method x \<noteq> ''external'') carried"
    "case latest_request s (or_id r) of None \<Rightarrow> True | Some q \<Rightarrow> rq_state q = Invoice_Cancelled"
    "s2 = fold (\<lambda>pay. allocate env pay r (- pm_amount pay) (oc_key input)) carried s1"
    "if or_status r = Finalized then reverse_order env p r (oc_reason input) s2 = Inr s3 else s3 = bump_order (or_id r) s2"
    "ledger_ok env (pm_id ` set carried) {} s3" "current next_row s3" "finalize env p next_row s3 = Inr (r4, s4)"
    "ledger_ok env (pm_id ` set carried) {or_id r4} s4" "current r4 s4" "or_status r4 = Finalized"
    "sum_allocations s4 (or_id r4) + sum_list (map pm_amount carried) \<le> or_total r4"
    "\<forall>q\<in>set carried. q \<in> set (ledger_payments s4) \<and> pm_entry q = ''receipt'' \<and> pm_id q \<in> pm_id ` set carried"
    "run_all (move_receipt env p (oc_key input) r4) carried s4 = Inr s5" "ledger_ok env {} {or_id r4} s5" "current r4 s5"
    "run_all (receipt env p r4 (oc_key input)) (oc_payments input) s5 = Inr s6" "ledger_ok env {} {} s6"
    "s' = log_event p ''order.replaced'' ''order'' (or_id r) [''replacement''] s6"
proof -
  obtain s1 carried s3 r4 s4 s5 s6 u v where a: "check_replacement input r next_row s = Inr u"
    "run_all (reverse_receipt env p r (oc_key input)) (oc_reversals input) s = Inr s1"
    "carried_receipts s1 r next_row = Inr carried"
    "(if or_status r = Finalized
      then reverse_order env p r (oc_reason input) (fold (\<lambda>pay. allocate env pay r (- pm_amount pay) (oc_key input)) carried s1)
      else Inr (bump_order (or_id r) (fold (\<lambda>pay. allocate env pay r (- pm_amount pay) (oc_key input)) carried s1))) = Inr s3"
    "finalize env p next_row s3 = Inr (r4, s4)" "run_all (move_receipt env p (oc_key input) r4) carried s4 = Inr s5"
    "run_all (receipt env p r4 (oc_key input)) (oc_payments input) s5 = Inr s6" "check_anonymous r4 s6 = Inr v"
    "s' = log_event p ''order.replaced'' ''order'' (or_id r) [''replacement''] s6"
    using run by (rule replace_orderD)
  note draft = check_replacementD(1)[OF a(1)]
  have s1: "ledger_ok env {} {or_id r} s1" "cores s1 = cores s" "items s1 = items s" using reversals_keep[OF a(2) ok inj] by simp_all
  let ?L = "pm_id ` set (active_receipts s1 (or_id r))" and ?m = "active_receipts s1 (or_id r)"
  have carried: "carried = ?m" using a(3) by (auto simp: carried_receipts_def and_then_Inr_iff Let_def)
  define s2 where "s2 = fold (\<lambda>pay. allocate env pay r (- pm_amount pay) (oc_key input)) ?m s1"
  have s2: "ledger_ok env ?L (insert (or_id r) {}) s2" "cores s2 = cores s" "items s2 = items s" "ledger_payments s2 = ledger_payments s1"
    using take_all[OF s1(1) active_receiptsD[OF s1(1)], of r "oc_key input"] s1(2,3) unfolding s2_def Let_def by simp_all
  have cur2: "current r s2" using r(1) current_same[OF s2(2)] by simp
  have next2: "core next_row \<in> set (cores s2)" using current_core[OF r(2)] s2(2) by simp
  have s3: "ledger_ok env ?L {} s3 \<and> core next_row \<in> set (cores s3) \<and> items s3 = items s \<and> ledger_payments s3 = ledger_payments s1"
  proof (cases "or_status r = Finalized")
    case True
    then have run3: "reverse_order env p r (oc_reason input) s2 = Inr s3" using a(4) carried s2_def by simp
    show ?thesis
      using reverse_order_keeps(1,3,5)[OF run3 s2(1) cur2] reverse_order_keeps(6)[OF run3 s2(1) cur2 next2] r(3) s2(3,4) by simp
  next
    case False
    then have s3: "s3 = bump_order (or_id r) s2" using a(4) carried s2_def by simp
    have "ledger_ok env ?L {} s2" by (rule ledger_ok_settled[OF s2(1) current_core[OF cur2]]) (use False in simp_all)
    then show ?thesis using ledger_ok_books[of s3 s2 env ?L "{}"] books_fields[of s3 s2] next2 s2(3,4) s3 by simp
  qed
  have cur3: "current next_row s3" using s3 by (simp add: current_def)
  note e = finalize_effect[OF a(5) _ cur3, of ?L "{}"] and fk = finalize_keeps[OF a(5) _ cur3, of ?L "{}"]
  have s4: "ledger_ok env ?L {or_id next_row} s4" using fk s3 by simp
  have total: "item_total s3 (or_id next_row) = item_total s1 (or_id next_row)"
    using s3 s1(3) by (simp add: item_total_def order_items_def)
  have fits: "sum_list (map pm_amount carried) \<le> item_total s1 (or_id next_row)"
    by (rule carried_receiptsD(2)[OF a(3) s1(1) _ draft])
      (use r(2) current_same[OF s1(2)] finalize_total_bound[OF a(5)] total in simp_all)
  have r4: "or_id r4 = or_id next_row" "or_status r4 = Finalized" "or_total r4 = item_total s1 (or_id next_row)" "current r4 s4"
    using e(2,3) s3 total by (simp_all add: core_def)
  have zero: "sum_allocations s4 (or_id r4) = 0" "ledger_payments s4 = ledger_payments s1"
    using order_change_sums(1,6)[OF e(1)] draft_sums(1)[OF conjunct1[OF s3] cur3 draft] s3 r4(1) by simp_all
  have moved: "\<forall>q\<in>set carried. q \<in> set (ledger_payments s4) \<and> pm_entry q = ''receipt'' \<and> pm_id q \<in> pm_id ` set carried"
  proof
    fix q assume "q \<in> set carried"
    then have q: "q \<in> set carried" "q \<in> set (ledger_payments s1)" "0 < allocated_to s1 (pm_id q) (or_id r)"
      using active_receiptsD(2)[OF s1(1), of "or_id r"] carried by simp_all
    show "q \<in> set (ledger_payments s4) \<and> pm_entry q = ''receipt'' \<and> pm_id q \<in> pm_id ` set carried"
      using holder_amount(1)[OF s1(1) q(2,3)] q(1,2) zero(2) by simp
  qed
  have s4': "ledger_ok env (pm_id ` set carried) {or_id r4} s4" using s4 carried r4(1) by simp
  have room: "sum_allocations s4 (or_id r4) + sum_list (map pm_amount carried) \<le> or_total r4" using zero fits r4(3) by simp
  have "ledger_ok env (pm_id ` set carried - pm_id ` set carried) {or_id r4} s5 \<and> cores s5 = cores s4"
    by (rule place_all[OF a(6) s4' _ moved r4(4,2) _ room]) (use active_receiptsD(1)[OF s1(1)] carried in simp_all)
  then have s5: "ledger_ok env {} {or_id r4} s5" "current r4 s5" using r4(4) current_same[of s5 s4 r4] by simp_all
  have "ledger_ok env {} {or_id r4} s6" "current r4 s6" using receipts_keep[OF a(7) s5(1) inj s5(2)] by simp_all
  then have s6: "ledger_ok env {} {} s6" by (rule checked_order_settles[OF _ _ a(8)])
  have direct: "list_all (\<lambda>x. pm_method x \<noteq> ''external'') carried" using a(3) by (auto simp: carried_receipts_def Let_def and_then_Inr_iff)
  have latest: "case latest_request s (or_id r) of None \<Rightarrow> True | Some q \<Rightarrow> rq_state q = Invoice_Cancelled"
    using a(1) by (auto simp: check_replacement_def and_then_Inr_iff)
  have third: "if or_status r = Finalized then reverse_order env p r (oc_reason input) s2 = Inr s3 else s3 = bump_order (or_id r) s2"
    using a(4) by (auto simp: s2_def carried)
  have ok3: "ledger_ok env (pm_id ` set carried) {} s3" using s3 carried by simp
  show thesis
    by (rule that[OF a(2) s1(1) carried direct latest _ third ok3 cur3 a(5) s4' r4(4,2) room moved a(6) s5 a(7) s6 a(9)])
      (simp add: s2_def carried)
qed

lemma replace_order_keeps:
  assumes run: "replace_order env p input r next_row s = Inr (i, s')" and ok: "ledger_ok env {} {} s" and inj: "inj (oe_id env)"
    and r: "current r s" "current next_row s" "or_id next_row \<noteq> or_id r"
  shows "ledger_ok env {} {} s'"
proof (rule replace_order_states[OF assms])
  fix s6 assume "ledger_ok env {} {} s6" "s' = log_event p ''order.replaced'' ''order'' (or_id r) [''replacement''] s6"
  then show ?thesis using ledger_ok_books[of s' s6] by simp
qed

end
