(* ===== verification/Invoicing.thy ===== *)
theory Invoicing
  imports Order_Ledger
begin

text \<open>
  backend/internal/orders/invoicing.go: external (wiRef) invoice requests. A request of an order goes from draft
  over submitted to issued, or is cancelled; an issued one settles what is open of the order by an external
  payment, and the confirmed cancellation of the invoice reverses that payment. A request keeps its row of details.
  The item summary is the list of the items, not its JSON; the delivery of the mail is not modelled.
\<close>

abbreviation requests_read :: string where "requests_read \<equiv> ''external_invoice_requests.read''"
abbreviation requests_manage :: string where "requests_manage \<equiv> ''external_invoice_requests.manage''"
abbreviation requests_approve :: string where "requests_approve \<equiv> ''external_invoice_requests.approve''"
abbreviation organizations_manage :: string where "organizations_manage \<equiv> ''organizations.manage''"

section \<open>Dates\<close>

text \<open>time.Parse of the layout 2006-01-02: the year, the month and the day.\<close>

definition leap_year :: "int \<Rightarrow> bool" where
  "leap_year y \<longleftrightarrow> y mod 4 = 0 \<and> (y mod 100 \<noteq> 0 \<or> y mod 400 = 0)"

definition days_in :: "int \<Rightarrow> int \<Rightarrow> int" where
  "days_in y m = (if m = 2 then (if leap_year y then 29 else 28) else if m \<in> {4, 6, 9, 11} then 30 else 31)"

definition parse_date :: "string \<Rightarrow> (int \<times> int \<times> int) option" where
  "parse_date v =
     (if length v = 10 \<and> v ! 4 = CHR ''-'' \<and> v ! 7 = CHR ''-'' \<and> list_all decimal_digit (take 4 v @ take 2 (drop 5 v) @ drop 8 v)
      then let y = decimal_digits_value (take 4 v); m = decimal_digits_value (take 2 (drop 5 v)); d = decimal_digits_value (drop 8 v)
           in if 1 \<le> m \<and> m \<le> 12 \<and> 1 \<le> d \<and> d \<le> days_in y m then Some (y, m, d) else None
      else None)"

definition date_value :: "string \<Rightarrow> app_error + (int \<times> int \<times> int) option" where
  "date_value v =
     (if v = [] then Inr None
      else case parse_date v of None \<Rightarrow> Inl (invalid ''Service period dates must be YYYY-MM-DD'') | Some d \<Rightarrow> Inr (Some d))"

fun date_after :: "int \<times> int \<times> int \<Rightarrow> int \<times> int \<times> int \<Rightarrow> bool" where
  "date_after (y, m, d) (y', m', d') \<longleftrightarrow> y' < y \<or> (y = y' \<and> (m' < m \<or> (m = m' \<and> d' < d)))"

section \<open>Requirements of an organization\<close>

definition policy_of :: "'m ledger \<Rightarrow> string option \<Rightarrow> bool \<times> int" where
  "policy_of s org =
     (case org of None \<Rightarrow> (False, 0) | Some g \<Rightarrow> (case map_of (policies s) g of None \<Rightarrow> (False, 0) | Some x \<Rightarrow> x))"

definition get_requirements :: "'m order_env \<Rightarrow> actor \<Rightarrow> string \<Rightarrow> 'm ledger \<Rightarrow> app_error + bool \<times> int" where
  "get_requirements env p g s =
     and_then (require p [orders_read]) (\<lambda>_.
     ensure (oe_organization env g \<noteq> None) not_found (\<lambda>_. Inr (policy_of s (Some g))))"

definition update_requirements :: "'m order_env \<Rightarrow> actor \<Rightarrow> string \<Rightarrow> bool \<Rightarrow> int \<Rightarrow> 'm ledger \<Rightarrow>
    app_error + 'm ledger \<times> bool \<times> int" where
  "update_requirements env p g required expected s =
     and_then (require p [orders_read, organizations_manage]) (\<lambda>_.
     ensure (oe_organization env g \<noteq> None) not_found (\<lambda>_.
     let version = snd (policy_of s (Some g)) in
     ensure (version = expected) stale_write (\<lambda>_.
     let row = (required, case map_of (policies s) g of None \<Rightarrow> 1 | Some (_, n) \<Rightarrow> n + 1) in
       Inr (log_event p ''organization.invoicing_requirements_updated'' ''organization'' g [''requirePurchaseOrderReference'']
              (s\<lparr>policies := AList.update g row (policies s)\<rparr>), row))))"

section \<open>Details\<close>

definition change_request :: "string \<Rightarrow> (request_row \<Rightarrow> request_row) \<Rightarrow> 'm ledger \<Rightarrow> 'm ledger" where
  "change_request i f s = s\<lparr>requests := map (\<lambda>r. if rq_id r = i then f r else r) (requests s)\<rparr>"

text \<open>What a request needs before it is submitted or forwarded.\<close>

definition complete_details :: "string \<Rightarrow> bool \<Rightarrow> invoice_details \<Rightarrow> bool \<Rightarrow> bool \<Rightarrow> app_error + unit" where
  "complete_details kind required d starts ends =
     ensure (list_all (\<lambda>v. trim_space v \<noteq> [])
               [dt_name d, dt_address1 d, dt_postal d, dt_locality d, dt_country d, dt_description d])
       (invalid ''Recipient, billing address, service period and description are required'') (\<lambda>_.
     ensure (length (dt_country d) = 2 \<and> starts \<and> ends) (invalid ''Country code and complete service period are required'') (\<lambda>_.
     ensure (kind \<noteq> ''organization'' \<or> trim_space (dt_contact d) \<noteq> []) (invalid ''Organizations require a contact person'') (\<lambda>_.
     ensure (\<not> required \<or> trim_space (dt_purchase_order d) \<noteq> [])
       (invalid ''This organization requires a purchase order reference'') (\<lambda>_. Inr ()))))"

definition cleaned_details :: "invoice_details \<Rightarrow> invoice_details" where
  "cleaned_details d = \<lparr>dt_name = trim_space (dt_name d), dt_address1 = trim_space (dt_address1 d),
     dt_address2 = trim_space (dt_address2 d), dt_postal = trim_space (dt_postal d), dt_locality = trim_space (dt_locality d),
     dt_region = trim_space (dt_region d), dt_country = to_upper (trim_space (dt_country d)),
     dt_contact_person = dt_contact_person d, dt_contact = trim_space (dt_contact d), dt_channel = trim_space (dt_channel d),
     dt_starts = dt_starts d, dt_ends = dt_ends d, dt_description = trim_space (dt_description d),
     dt_purchase_order = trim_space (dt_purchase_order d)\<rparr>"

definition save_details :: "'m order_env \<Rightarrow> request_row \<Rightarrow> invoice_details \<Rightarrow> bool \<Rightarrow> 'm ledger \<Rightarrow> app_error + 'm ledger" where
  "save_details env r d ready s =
     (let (required, version) = policy_of s (rq_recipient_organization r) in
      and_then (date_value (dt_starts d)) (\<lambda>starts.
      and_then (date_value (dt_ends d)) (\<lambda>ends.
      ensure (case (starts, ends) of (Some a, Some b) \<Rightarrow> \<not> date_after a b | _ \<Rightarrow> True)
        (invalid ''Service period must be ordered'') (\<lambda>_.
      ensure (list_all (\<lambda>v. length v \<le> 200)
                [dt_name d, dt_address1 d, dt_address2 d, dt_postal d, dt_locality d, dt_region d, dt_contact d, dt_channel d,
                 dt_purchase_order d])
        (invalid ''Invoice recipient fields exceed their length limits'') (\<lambda>_.
      ensure (length (dt_description d) \<le> 2000) (invalid ''Service description is too long'') (\<lambda>_.
      ensure (case dt_contact_person d of None \<Rightarrow> True | Some c \<Rightarrow> oe_person env c \<noteq> None) not_found (\<lambda>_.
      and_then (if ready then complete_details (rq_recipient_kind r) required d (starts \<noteq> None) (ends \<noteq> None) else Inr ()) (\<lambda>_.
        Inr (change_request (rq_id r)
               (\<lambda>q. q\<lparr>rq_details := cleaned_details d, rq_policy_version := version, rq_policy_required := required\<rparr>) s)))))))))"

section \<open>Reading a request\<close>

record request_view =
  rv_request :: request_row
  rv_events :: "request_event list"

definition load_request :: "'m ledger \<Rightarrow> string \<Rightarrow> app_error + request_view" where
  "load_request s i =
     (case row_at rq_id i (requests s) of
        None \<Rightarrow> Inl not_found
      | Some r \<Rightarrow> Inr \<lparr>rv_request = r, rv_events = filter (\<lambda>e. ev_request e = i) (request_events s)\<rparr>)"

definition get_request :: "actor \<Rightarrow> 'm ledger \<Rightarrow> string \<Rightarrow> app_error + request_view" where
  "get_request p s i = and_then (require p [requests_read]) (\<lambda>_. load_request s i)"

text \<open>lockRequest: a request whose order is gone has none to lock.\<close>

definition locked_request :: "'m ledger \<Rightarrow> string \<Rightarrow> app_error + request_row" where
  "locked_request s i =
     (case row_at rq_id i (requests s) of
        None \<Rightarrow> Inl not_found
      | Some r \<Rightarrow> (case rq_order r of None \<Rightarrow> Inr r | Some j \<Rightarrow> and_then (lock_order s j) (\<lambda>_. Inr r)))"

section \<open>Creating and editing a request\<close>

text \<open>The name of the customer: captured at finalization, or the current one.\<close>

definition customer_name :: "'m order_env \<Rightarrow> 'm ledger \<Rightarrow> order_row \<Rightarrow> string option" where
  "customer_name env s r =
     (case find (\<lambda>x. sn_order x = or_id r) (snapshots s) of
        Some x \<Rightarrow> Some (sn_name x)
      | None \<Rightarrow>
          (case or_person r of
             Some i \<Rightarrow> oe_person env i
           | None \<Rightarrow> (case or_organization r of None \<Rightarrow> None | Some g \<Rightarrow> map_option fst (oe_organization env g))))"

definition blank_details :: invoice_details where
  "blank_details = \<lparr>dt_name = [], dt_address1 = [], dt_address2 = [], dt_postal = [], dt_locality = [], dt_region = [],
     dt_country = [], dt_contact_person = None, dt_contact = [], dt_channel = [], dt_starts = [], dt_ends = [],
     dt_description = [], dt_purchase_order = []\<rparr>"

text \<open>The new request of an order, with its row of details.\<close>

definition new_request :: "'m order_env \<Rightarrow> order_row \<Rightarrow> string \<Rightarrow> 'm ledger \<Rightarrow> request_row" where
  "new_request env r i s =
     \<lparr>rq_id = i, rq_reference = reference ''W'' (oe_now env) (request_seq s + 1), rq_order = Some (or_id r),
      rq_order_reference = or_reference r, rq_state = Invoice_Draft, rq_amount = or_total r,
      rq_supersedes = map_option rq_id (latest_request s (or_id r)), rq_version = 1,
      rq_recipient_kind = or_customer_kind r, rq_recipient_person = or_person r, rq_recipient_organization = or_organization r,
      rq_summary = filter (\<lambda>x. \<not> it_removed x) (order_items s (or_id r)), rq_details = blank_details,
      rq_policy_version = 0, rq_policy_required = False, rq_already_paid = 0\<rparr>"

definition insert_request :: "'m order_env \<Rightarrow> actor \<Rightarrow> order_row \<Rightarrow> invoice_details \<Rightarrow> 'm ledger \<Rightarrow>
    app_error + string \<times> 'm ledger" where
  "insert_request env p r details s =
     (let (i, s1) = draw_id env s; q = new_request env r i s;
          s2 = s1\<lparr>requests := requests s1 @ [q], request_seq := request_seq s1 + 1\<rparr>;
          d = (if dt_name details = [] then (case customer_name env s r of None \<Rightarrow> details | Some n \<Rightarrow> details\<lparr>dt_name := n\<rparr>)
               else details)
      in and_then (save_details env q d False s2) (\<lambda>s3.
           Inr (i, log_event p ''external_invoice_request.created'' ''external_invoice_request'' i [''details'']
                     (bump_order (or_id r) (sync_already_paid (or_id r) s3)))))"

text \<open>finishOperation of a request: the key is the primary key of the operations.\<close>

definition finish_request :: "actor \<Rightarrow> string \<Rightarrow> string \<Rightarrow> string \<Rightarrow> string option \<Rightarrow> string \<Rightarrow> 'm ledger \<Rightarrow> app_error + 'm ledger" where
  "finish_request p key kind print j i s =
     ensure (row_at op_key key (operations s) = None) already_exists (\<lambda>_.
       Inr (s\<lparr>operations := operations s @ [\<lparr>op_key = key, op_kind = kind, op_print = print, op_account = act_account p,
                                           op_order = j, op_request = Some i\<rparr>]\<rparr>))"

text \<open>The frame of an operation on requests: a retry loads the request of the operation.\<close>

definition once_request :: "string \<Rightarrow> string \<Rightarrow> string \<Rightarrow> actor \<Rightarrow>
    ('m ledger \<Rightarrow> app_error + (string option \<times> string) \<times> 'm ledger) \<Rightarrow> 'm ledger \<Rightarrow> app_error + 'm ledger \<times> request_view" where
  "once_request key kind print p run s =
     and_then (begin_operation s key kind print) (\<lambda>old.
     case (case old of None \<Rightarrow> None | Some x \<Rightarrow> op_request x) of
       Some i \<Rightarrow> and_then (load_request s i) (\<lambda>v. Inr (s, v))
     | None \<Rightarrow>
         and_then (run s) (\<lambda>((j, i), s1).
         and_then (finish_request p key kind print j i s1) (\<lambda>s2.
         and_then (load_request s2 i) (\<lambda>v. Inr (s2, v)))))"

definition run_create :: "'m order_env \<Rightarrow> actor \<Rightarrow> string \<Rightarrow> create_invoice \<Rightarrow> 'm ledger \<Rightarrow>
    app_error + (string option \<times> string) \<times> 'm ledger" where
  "run_create env p j input s =
     and_then (lock_order s j) (\<lambda>r.
     and_then (check_version r (ci_version input)) (\<lambda>_.
     ensure (or_status r = Finalized \<and> \<not> is_anonymous r)
       (conflicting ''external_invoice_requires_customer'' ''External invoicing requires a finalized named-customer order'') (\<lambda>_.
     ensure (0 < or_total r) (conflicting ''nothing_to_invoice'' ''An order that charges nothing cannot be invoiced'') (\<lambda>_.
     case active_request s j of
       Some q \<Rightarrow> Inl (conflicting ''request_already_exists'' (''An active request already exists: '' @ rq_reference q))
     | None \<Rightarrow> and_then (insert_request env p r (ci_details input) s) (\<lambda>(i, s1). Inr ((Some j, i), s1))))))"

definition create_request :: "'m order_env \<Rightarrow> actor \<Rightarrow> string \<Rightarrow> create_invoice \<Rightarrow> 'm ledger \<Rightarrow>
    app_error + 'm ledger \<times> request_view" where
  "create_request env p j input s =
     and_then (require p [orders_read, requests_read, requests_manage]) (\<lambda>_.
     once_request (ci_key input) ''request.create'' (print_create env (act_account p) ''request.create'' j input) p
       (run_create env p j input) s)"

definition transition_request :: "string \<Rightarrow> invoice_state \<Rightarrow> 'm ledger \<Rightarrow> 'm ledger" where
  "transition_request i st s = change_request i (\<lambda>q. q\<lparr>rq_state := st, rq_version := rq_version q + 1\<rparr>) s"

definition update_request :: "'m order_env \<Rightarrow> actor \<Rightarrow> string \<Rightarrow> int \<Rightarrow> invoice_details \<Rightarrow> 'm ledger \<Rightarrow>
    app_error + 'm ledger \<times> request_view" where
  "update_request env p i expected details s =
     and_then (require p [orders_read, requests_read]) (\<lambda>_.
     ensure (act_has p requests_manage \<or> act_has p requests_approve) permission_denied (\<lambda>_.
     and_then (locked_request s i) (\<lambda>r.
     ensure (rq_version r = expected) stale_write (\<lambda>_.
     and_then (case rq_state r of
                 Invoice_Draft \<Rightarrow> require p [requests_manage]
               | Invoice_Submitted \<Rightarrow> require p [requests_approve]
               | _ \<Rightarrow> Inl (conflicting ''request_frozen''
                        ''Recipient details can only change while the request is a draft or awaiting approval'')) (\<lambda>_.
     and_then (save_details env r details False s) (\<lambda>s1.
     let s2 = log_event p ''external_invoice_request.updated'' ''external_invoice_request'' i [''details'']
                (transition_request i (rq_state r) s1) in
     and_then (load_request s2 i) (\<lambda>v. Inr (s2, v))))))))"

section \<open>Settlement by the invoice\<close>

text \<open>settleByInvoice: the external payment of what is open.\<close>

definition settle_by_invoice :: "'m order_env \<Rightarrow> actor \<Rightarrow> order_row \<Rightarrow> request_row \<Rightarrow> string \<Rightarrow> 'm ledger \<Rightarrow>
    app_error + 'm ledger" where
  "settle_by_invoice env p r q op s =
     (let open_amount = or_total r - sum_allocations s (or_id r) in
      if open_amount \<le> 0 then Inr s
      else
        let (i, s1) = draw_id env (s\<lparr>payment_seq := payment_seq s + 1\<rparr>);
            pay = \<lparr>pm_id = i, pm_reference = reference ''P'' (oe_now env) (payment_seq s + 1), pm_entry = ''receipt'',
                   pm_method = ''external'', pm_amount = open_amount, pm_at = oe_now env, pm_reverses = None,
                   pm_reversed_reference = None, pm_reason_kind = None, pm_reason = [], pm_source = ''wiRef'',
                   pm_external = rq_reference q, pm_request = Some (rq_id q), pm_split = 1\<rparr>
        in and_then (insert_payment pay s1) (\<lambda>s2.
             Inr (log_event p ''payment.recorded'' ''payment'' i [''amount'', ''method'', ''allocations'']
                    (allocate env pay r open_amount op s2))))"

text \<open>ActiveRequestReceipts: the external receipts of a request that pay for the order.\<close>

definition request_receipts :: "'m ledger \<Rightarrow> string \<Rightarrow> string \<Rightarrow> payment_row list" where
  "request_receipts s j i =
     filter (\<lambda>x. pm_method x = ''external'' \<and> pm_request x = Some i \<and> pm_entry x = ''receipt'') (active_receipts s j)"

text \<open>reverseInvoiceSettlement: one turn of its loop.\<close>

definition reverse_settlement :: "'m order_env \<Rightarrow> actor \<Rightarrow> order_row \<Rightarrow> string \<Rightarrow> string \<Rightarrow> time \<Rightarrow> string \<Rightarrow> payment_row \<Rightarrow>
    'm ledger \<Rightarrow> app_error + 'm ledger" where
  "reverse_settlement env p r kind external effective op original s =
     (let (i, s1) = draw_id env (s\<lparr>payment_seq := payment_seq s + 1\<rparr>);
          reversal = \<lparr>pm_id = i, pm_reference = reference ''P'' (oe_now env) (payment_seq s + 1), pm_entry = ''reversal'',
                 pm_method = pm_method original, pm_amount = pm_amount original, pm_at = effective,
                 pm_reverses = Some (pm_id original), pm_reversed_reference = Some (pm_reference original),
                 pm_reason_kind = Some ''external_correction'', pm_reason = ''Invoice cancelled in wiRef ('' @ kind @ '')'',
                 pm_source = pm_source original, pm_external = external,
                 pm_request = pm_request original, pm_split = pm_split original\<rparr>
      in and_then (insert_payment reversal s1) (\<lambda>s2.
           Inr (log_event p ''payment.reversed'' ''payment'' i [''reversal'', ''allocations'']
                  (allocate env original r (- pm_amount original) op s2))))"

section \<open>Commands on a request\<close>

datatype invoice_action = Submit_Request | Return_Request | Forward_Request | Cancel_Request | Ask_Cancellation
  | Confirm_Cancellation | Correct_Reference | Other_Request string

definition invoice_action_text :: "invoice_action \<Rightarrow> string" where
  "invoice_action_text a = (case a of Submit_Request \<Rightarrow> ''submit'' | Return_Request \<Rightarrow> ''return'' | Forward_Request \<Rightarrow> ''forward''
     | Cancel_Request \<Rightarrow> ''cancel'' | Ask_Cancellation \<Rightarrow> ''request-cancellation''
     | Confirm_Cancellation \<Rightarrow> ''confirm-cancellation'' | Correct_Reference \<Rightarrow> ''reference-corrections'' | Other_Request t \<Rightarrow> t)"

definition invoice_permission :: "actor \<Rightarrow> invoice_action \<Rightarrow> app_error + unit" where
  "invoice_permission p a =
     (case a of
        Submit_Request \<Rightarrow> require p [requests_manage]
      | Ask_Cancellation \<Rightarrow> require p [requests_manage]
      | Confirm_Cancellation \<Rightarrow> require p [requests_manage]
      | Return_Request \<Rightarrow> require p [requests_approve]
      | Forward_Request \<Rightarrow> require p [requests_approve]
      | Cancel_Request \<Rightarrow> ensure (act_has p requests_manage \<or> act_has p requests_approve) permission_denied (\<lambda>_. Inr ())
      | Correct_Reference \<Rightarrow> ensure (act_has p requests_manage \<or> act_has p requests_approve) permission_denied (\<lambda>_. Inr ())
      | Other_Request _ \<Rightarrow> Inl (invalid ''Unsupported request action''))"

text \<open>What an action decides: the next state, the events (kind, reference, reconciliation, reason) and the ledger.\<close>

record 'm decision =
  dc_state :: invoice_state
  dc_events :: "(string \<times> string \<times> string \<times> string) list"
  dc_ledger :: "'m ledger"

abbreviation bad_transition :: "string \<Rightarrow> app_error" where
  "bad_transition m \<equiv> conflicting ''invalid_request_transition'' m"

definition finalized_order :: "order_row option \<Rightarrow> bool" where
  "finalized_order r \<longleftrightarrow> (case r of None \<Rightarrow> False | Some x \<Rightarrow> or_status x = Finalized)"

definition submit_request :: "'m order_env \<Rightarrow> request_row \<Rightarrow> order_row option \<Rightarrow> 'm ledger \<Rightarrow> app_error + 'm decision" where
  "submit_request env q r s =
     ensure (rq_state q = Invoice_Draft) (bad_transition ''Only drafts can be submitted for approval'') (\<lambda>_.
     ensure (finalized_order r) (conflicting ''order_not_finalized'' ''The order is no longer finalized'') (\<lambda>_.
     and_then (save_details env q (rq_details q) True s) (\<lambda>s1.
       Inr \<lparr>dc_state = Invoice_Submitted, dc_events = [(''submitted'', [], [], [])],
            dc_ledger = sync_already_paid (or_id (the r)) s1\<rparr>)))"

definition return_request :: "request_row \<Rightarrow> invoice_command \<Rightarrow> 'm ledger \<Rightarrow> app_error + 'm decision" where
  "return_request q input s =
     ensure (rq_state q = Invoice_Submitted) (bad_transition ''Only requests that await approval can be returned'') (\<lambda>_.
     ensure (ic_reason input \<noteq> []) (invalid ''Say what has to be corrected'') (\<lambda>_.
       Inr \<lparr>dc_state = Invoice_Draft, dc_events = [(''returned'', [], [], ic_reason input)], dc_ledger = s\<rparr>))"

definition forward_request :: "'m order_env \<Rightarrow> actor \<Rightarrow> request_row \<Rightarrow> order_row option \<Rightarrow> invoice_command \<Rightarrow> 'm ledger \<Rightarrow>
    app_error + 'm decision" where
  "forward_request env p q r input s =
     ensure (rq_state q = Invoice_Submitted) (bad_transition ''Only requests that await approval can be forwarded to wiRef'') (\<lambda>_.
     ensure (finalized_order r) (conflicting ''order_not_finalized'' ''The order is no longer finalized'') (\<lambda>_.
     and_then (save_details env q (rq_details q) True s) (\<lambda>s1.
     and_then (settle_by_invoice env p (the r) q (ic_key input) s1) (\<lambda>s2.
       Inr \<lparr>dc_state = Invoice_Issued,
            dc_events = (''issued'', [], [], []) #
              (if ic_reference input = [] then [] else [(''reference_added'', ic_reference input, [], [])]),
            dc_ledger = s2\<rparr>))))"

definition cancel_request :: "actor \<Rightarrow> request_row \<Rightarrow> invoice_command \<Rightarrow> 'm ledger \<Rightarrow> app_error + 'm decision" where
  "cancel_request p q input s =
     and_then (case rq_state q of
                 Invoice_Draft \<Rightarrow> require p [requests_manage]
               | Invoice_Submitted \<Rightarrow> require p [requests_approve]
               | _ \<Rightarrow> Inl (conflicting ''external_reconciliation_required'' ''Issued requests require external cancellation evidence''))
       (\<lambda>_. Inr \<lparr>dc_state = Invoice_Cancelled, dc_events = [(''cancelled'', [], [], ic_reason input)], dc_ledger = s\<rparr>)"

definition ask_cancellation :: "request_row \<Rightarrow> invoice_command \<Rightarrow> 'm ledger \<Rightarrow> app_error + 'm decision" where
  "ask_cancellation q input s =
     ensure (rq_state q = Invoice_Issued) (bad_transition ''Only issued requests require external cancellation'') (\<lambda>_.
       Inr \<lparr>dc_state = Invoice_Cancellation_Requested, dc_events = [(''cancellation_requested'', [], [], ic_reason input)],
            dc_ledger = s\<rparr>)"

definition reconciliation_kinds :: "string list" where
  "reconciliation_kinds = [''cancellation'', ''credit_note'', ''corrected_invoice'', ''reallocation'', ''other'']"

definition return_settlement :: "'m order_env \<Rightarrow> actor \<Rightarrow> request_row \<Rightarrow> order_row option \<Rightarrow> invoice_command \<Rightarrow> time \<Rightarrow> 'm ledger \<Rightarrow>
    app_error + 'm ledger" where
  "return_settlement env p q r input effective s =
     (case r of
        None \<Rightarrow> Inr s
      | Some x \<Rightarrow>
          let receipts = request_receipts s (or_id x) (rq_id q) in
          if receipts = [] then Inr s
          else and_then (require p [pay_read, pay_reverse]) (\<lambda>_.
                 run_all (reverse_settlement env p x (ic_reconciliation input) (ic_reference input) effective (ic_key input))
                   receipts s))"

definition confirm_cancellation :: "'m order_env \<Rightarrow> actor \<Rightarrow> request_row \<Rightarrow> order_row option \<Rightarrow> invoice_command \<Rightarrow> time \<Rightarrow>
    'm ledger \<Rightarrow> app_error + 'm decision" where
  "confirm_cancellation env p q r input effective s =
     ensure (rq_state q = Invoice_Cancellation_Requested) (bad_transition ''Request external cancellation first'') (\<lambda>_.
     ensure (ic_reference input \<noteq> [] \<and> ic_reconciliation input \<noteq> [] \<and> ic_effective input \<noteq> zero_time)
       (invalid ''External correction kind, reference and date are required'') (\<lambda>_.
     ensure (ic_reconciliation input \<in> set reconciliation_kinds) (invalid ''Unsupported external accounting procedure'') (\<lambda>_.
     and_then (return_settlement env p q r input effective s) (\<lambda>s1.
       Inr \<lparr>dc_state = Invoice_Cancelled,
            dc_events = [(''cancelled'', ic_reference input, ic_reconciliation input, ic_reason input)], dc_ledger = s1\<rparr>))))"

definition has_reference :: "'m ledger \<Rightarrow> string \<Rightarrow> bool" where
  "has_reference s i \<longleftrightarrow>
     list_ex (\<lambda>e. ev_request e = i \<and> (ev_kind e = ''reference_added'' \<or> ev_kind e = ''reference_corrected'')) (request_events s)"

definition correct_reference :: "request_row \<Rightarrow> invoice_command \<Rightarrow> 'm ledger \<Rightarrow> app_error + 'm decision" where
  "correct_reference q input s =
     ensure (rq_state q = Invoice_Issued \<or> rq_state q = Invoice_Cancellation_Requested)
       (bad_transition ''A wiRef invoice number requires an issued invoice'') (\<lambda>_.
     ensure (ic_reference input \<noteq> [] \<and> ic_effective input \<noteq> zero_time) (invalid ''Invoice number and date are required'') (\<lambda>_.
     ensure (\<not> has_reference s (rq_id q) \<or> ic_reason input \<noteq> []) (invalid ''Say why the invoice number changes'') (\<lambda>_.
       Inr \<lparr>dc_state = rq_state q,
            dc_events = [(if has_reference s (rq_id q) then ''reference_corrected'' else ''reference_added'',
                          ic_reference input, [], ic_reason input)], dc_ledger = s\<rparr>)))"

definition decide :: "'m order_env \<Rightarrow> actor \<Rightarrow> invoice_action \<Rightarrow> request_row \<Rightarrow> order_row option \<Rightarrow> invoice_command \<Rightarrow> time \<Rightarrow>
    'm ledger \<Rightarrow> app_error + 'm decision" where
  "decide env p a q r input effective s =
     (case a of
        Submit_Request \<Rightarrow> submit_request env q r s
      | Return_Request \<Rightarrow> return_request q input s
      | Forward_Request \<Rightarrow> forward_request env p q r input s
      | Cancel_Request \<Rightarrow> cancel_request p q input s
      | Ask_Cancellation \<Rightarrow> ask_cancellation q input s
      | Confirm_Cancellation \<Rightarrow> confirm_cancellation env p q r input effective s
      | Correct_Reference \<Rightarrow> correct_reference q input s
      | Other_Request _ \<Rightarrow> Inl (invalid ''Unsupported request action''))"

definition insert_event :: "'m order_env \<Rightarrow> string \<Rightarrow> time \<Rightarrow> string \<times> string \<times> string \<times> string \<Rightarrow> 'm ledger \<Rightarrow> 'm ledger" where
  "insert_event env i effective e s =
     (case e of (kind, ref, reconciliation, reason) \<Rightarrow>
        let (k, s1) = draw_id env s in
        s1\<lparr>request_events := request_events s1 @
             [\<lparr>ev_id = k, ev_request = i, ev_kind = kind, ev_reference = ref, ev_reconciliation = reconciliation,
               ev_reason = reason, ev_effective = effective\<rparr>]\<rparr>)"

text \<open>The part of RequestCommand after the decision: events, state, the figure of a draft, and the version of the order.\<close>

definition carry_out :: "'m order_env \<Rightarrow> actor \<Rightarrow> request_row \<Rightarrow> order_row option \<Rightarrow> time \<Rightarrow> 'm decision \<Rightarrow> 'm ledger" where
  "carry_out env p q r effective d =
     (let s1 = transition_request (rq_id q) (dc_state d)
                 (fold (insert_event env (rq_id q) effective) (dc_events d) (dc_ledger d));
          s2 = (case r of None \<Rightarrow> s1 | Some x \<Rightarrow> bump_order (or_id x) (sync_already_paid (or_id x) s1))
      in log_event p (''external_invoice_request.'' @ fst (hd (dc_events d))) ''external_invoice_request'' (rq_id q)
           [''state'', ''events''] s2)"

definition trimmed_command :: "invoice_command \<Rightarrow> invoice_command" where
  "trimmed_command input = input\<lparr>ic_reason := trim_space (ic_reason input), ic_reference := trim_space (ic_reference input)\<rparr>"

definition run_request :: "'m order_env \<Rightarrow> actor \<Rightarrow> string \<Rightarrow> invoice_command \<Rightarrow> invoice_action \<Rightarrow> 'm ledger \<Rightarrow>
    app_error + (string option \<times> string) \<times> 'm ledger" where
  "run_request env p i input a s =
     and_then (locked_request s i) (\<lambda>q.
     ensure (rq_version q = ic_version input) stale_write (\<lambda>_.
     let r = (case rq_order q of None \<Rightarrow> None | Some j \<Rightarrow> row_at or_id j (orders s));
         effective = (if ic_effective input = zero_time then oe_now env else ic_effective input)
     in and_then (decide env p a q r input effective s) (\<lambda>d. Inr ((rq_order q, i), carry_out env p q r effective d))))"

definition request_command :: "'m order_env \<Rightarrow> actor \<Rightarrow> string \<Rightarrow> invoice_command \<Rightarrow> invoice_action \<Rightarrow> 'm ledger \<Rightarrow>
    app_error + 'm ledger \<times> request_view" where
  "request_command env p i raw a s =
     and_then (require p [orders_read, requests_read]) (\<lambda>_.
     and_then (invoice_permission p a) (\<lambda>_.
     let input = trimmed_command raw; kind = ''request.'' @ invoice_action_text a in
     ensure (length (ic_reference input) \<le> 200 \<and> length (ic_reason input) \<le> 500) (invalid ''Reference or reason is too long'') (\<lambda>_.
       once_request (ic_key input) kind (print_request env (act_account p) kind i input) p (run_request env p i input a) s)))"

end
