(* ===== verification/Invoice_Balance.thy ===== *)
theory Invoice_Balance
  imports Order_Commands Invoicing
begin

text \<open>
  Invoice requests and payments of an order stay in step: while a request is not cancelled its order is finalized
  and named, the request says what was paid in cash and by card, an order without an issued invoice has no
  external payment, and one with an issued invoice is paid in full. Inside an operation the figure of a draft
  request may be stale until syncAlreadyPaid; \<open>invoices_ok\<close> names the orders this may be the case for.
\<close>

section \<open>The invariant\<close>

definition direct_method :: "string \<Rightarrow> bool" where
  "direct_method m \<longleftrightarrow> m = ''cash'' \<or> m = ''card''"

text \<open>What the allocations of payments of some methods to an order add up to.\<close>

definition paid_by :: "(string \<Rightarrow> bool) \<Rightarrow> 'm ledger \<Rightarrow> string \<Rightarrow> int" where
  "paid_by M s i =
     (\<Sum>a\<leftarrow>filter (\<lambda>a. al_order a = i \<and> list_ex (\<lambda>p. pm_id p = al_payment a \<and> M (pm_method p)) (ledger_payments s)) (allocations s).
        al_amount a)"

definition no_external :: "'m ledger \<Rightarrow> string \<Rightarrow> bool" where
  "no_external s i \<longleftrightarrow> (\<forall>p\<in>set (ledger_payments s). pm_method p = ''external'' \<longrightarrow> allocated_to s (pm_id p) i = 0)"

definition active :: "request_row \<Rightarrow> bool" where
  "active q \<longleftrightarrow> rq_state q \<noteq> Invoice_Cancelled"

definition billed :: "string set \<Rightarrow> 'm ledger \<Rightarrow> request_row \<Rightarrow> string \<Rightarrow> bool" where
  "billed D s q i \<longleftrightarrow>
     (\<exists>c\<in>set (cores s). co_id c = i \<and> co_status c = Finalized \<and> \<not> co_anonymous c \<and> rq_amount q = co_total c \<and>
        (rq_already_paid q = paid_by direct_method s i \<or> rq_state q = Invoice_Draft \<and> i \<in> D) \<and>
        (if rq_state q = Invoice_Draft \<or> rq_state q = Invoice_Submitted then no_external s i
         else sum_allocations s i = co_total c \<and>
              (\<forall>p\<in>set (ledger_payments s). pm_method p = ''external'' \<and> 0 < allocated_to s (pm_id p) i \<longrightarrow>
                 pm_request p = Some (rq_id q))))"

definition methods_ok :: "'m ledger \<Rightarrow> bool" where
  "methods_ok s \<longleftrightarrow> (\<forall>p\<in>set (ledger_payments s). direct_method (pm_method p) \<or> pm_method p = ''external'')"

definition invoices_ok :: "'m order_env \<Rightarrow> string set \<Rightarrow> 'm ledger \<Rightarrow> bool" where
  "invoices_ok env D s \<longleftrightarrow>
     distinct (map rq_id (requests s)) \<and> (\<forall>k\<ge>drawn s. oe_id env k \<notin> rq_id ` set (requests s)) \<and> methods_ok s \<and>
     (\<forall>q\<in>set (requests s). active q \<longrightarrow> (\<exists>i. rq_order q = Some i \<and> latest_request s i = Some q \<and> billed D s q i)) \<and>
     (\<forall>i. active_request s i = None \<longrightarrow> no_external s i)"

lemma invoices_okI:
  assumes "distinct (map rq_id (requests s))" "\<And>k. drawn s \<le> k \<Longrightarrow> oe_id env k \<notin> rq_id ` set (requests s)" "methods_ok s"
    "\<And>q. q \<in> set (requests s) \<Longrightarrow> active q \<Longrightarrow> \<exists>i. rq_order q = Some i \<and> latest_request s i = Some q \<and> billed D s q i"
    "\<And>i. active_request s i = None \<Longrightarrow> no_external s i"
  shows "invoices_ok env D s"
  using assms by (simp add: invoices_ok_def)

lemma invoices_okD:
  assumes "invoices_ok env D s"
  shows "distinct (map rq_id (requests s))" "drawn s \<le> k \<Longrightarrow> oe_id env k \<notin> rq_id ` set (requests s)" "methods_ok s"
    "q \<in> set (requests s) \<Longrightarrow> active q \<Longrightarrow> \<exists>i. rq_order q = Some i \<and> latest_request s i = Some q \<and> billed D s q i"
    "active_request s i = None \<Longrightarrow> no_external s i"
  using assms unfolding invoices_ok_def by blast+

lemma active_request_None_iff: "active_request s i = None \<longleftrightarrow> (\<forall>q\<in>set (requests s). rq_order q = Some i \<longrightarrow> \<not> active q)"
  by (auto simp: active_request_def active_def find_None_iff)

lemma active_requestD: "active_request s i = Some q \<Longrightarrow> q \<in> set (requests s) \<and> rq_order q = Some i \<and> active q"
  by (auto simp: active_request_def active_def find_Some_iff)

lemma active_billed:
  assumes "invoices_ok env D s" "active_request s i = Some q"
  shows "latest_request s i = Some q" "billed D s q i"
  using invoices_okD(4)[OF assms(1), of q] active_requestD[OF assms(2)] by auto

lemma latest_cancelled:
  assumes "invoices_ok env D s" "case latest_request s i of None \<Rightarrow> True | Some q \<Rightarrow> rq_state q = Invoice_Cancelled"
  shows "active_request s i = None"
proof (cases "active_request s i")
  case (Some q)
  then show ?thesis using active_billed(1)[OF assms(1) Some] active_requestD[OF Some] assms(2) by (simp add: active_def)
qed

text \<open>An order that is not finalized, or that is anonymous, has no active request.\<close>

lemma unbilled_order:
  assumes "invoices_ok env D s" "ledger_ok env L X s" "c \<in> set (cores s)" "co_status c \<noteq> Finalized \<or> co_anonymous c"
  shows "active_request s (co_id c) = None"
proof (cases "active_request s (co_id c)")
  case (Some q)
  then obtain d where "d \<in> set (cores s)" "co_id d = co_id c" "co_status d = Finalized" "\<not> co_anonymous d"
    using active_billed(2)[OF assms(1) Some] by (auto simp: billed_def)
  then show ?thesis using key_inj[OF ledger_okD(3)[OF assms(2)] assms(3), of d] assms(4) by auto
qed

lemma unknown_unbilled:
  assumes "invoices_ok env D s" "i \<notin> co_id ` set (cores s)"
  shows "active_request s i = None"
proof (cases "active_request s i")
  case (Some q)
  then show ?thesis using active_billed(2)[OF assms(1) Some] assms(2) by (auto simp: billed_def)
qed

section \<open>Changes of the books\<close>

lemma paid_by_allocation:
  assumes ok: "ledger_ok env L X s" and add: "allocation_added p i amount s s'" and p: "p \<in> set (ledger_payments s)"
  shows "paid_by M s' j = paid_by M s j + (if j = i \<and> M (pm_method p) then amount else 0)"
proof -
  obtain a where a: "al_payment a = pm_id p" "al_order a = i" "al_amount a = amount" "allocations s' = allocations s @ [a]"
      "ledger_payments s' = ledger_payments s"
    using add by (auto simp: allocation_added_def books_def)
  have "list_ex (\<lambda>x. pm_id x = al_payment a \<and> M (pm_method x)) (ledger_payments s) \<longleftrightarrow> M (pm_method p)"
    using key_inj[OF ledger_okD(4)[OF ok] p] p a(1) by (auto simp: list_ex_iff)
  then show ?thesis using a by (auto simp: paid_by_def)
qed

lemma paid_by_payment:
  assumes ok: "ledger_ok env L X s" and add: "payment_added x s s'" and new: "pm_id x \<notin> pm_id ` set (ledger_payments s)"
  shows "paid_by M s' j = paid_by M s j"
proof -
  have "al_payment a \<noteq> pm_id x" if a: "a \<in> set (allocations s)" for a
    using ledger_okD(10)[OF ok a] new by (metis imageI)
  then have "filter (\<lambda>a. al_order a = j \<and> list_ex (\<lambda>p. pm_id p = al_payment a \<and> M (pm_method p)) (ledger_payments s')) (allocations s) =
        filter (\<lambda>a. al_order a = j \<and> list_ex (\<lambda>p. pm_id p = al_payment a \<and> M (pm_method p)) (ledger_payments s)) (allocations s)"
  proof (intro filter_cong refl)
    fix a assume "a \<in> set (allocations s)"
    then show "(al_order a = j \<and> list_ex (\<lambda>p. pm_id p = al_payment a \<and> M (pm_method p)) (ledger_payments s')) \<longleftrightarrow>
               (al_order a = j \<and> list_ex (\<lambda>p. pm_id p = al_payment a \<and> M (pm_method p)) (ledger_payments s))"
      using \<open>\<And>a. a \<in> set (allocations s) \<Longrightarrow> al_payment a \<noteq> pm_id x\<close>[of a] by (auto simp: payment_fields(3)[OF add])
  qed
  then show ?thesis by (simp add: paid_by_def payment_fields(4)[OF add])
qed

text \<open>What the invariant reads of an order.\<close>

definition same_bill :: "'m ledger \<Rightarrow> 'm ledger \<Rightarrow> string \<Rightarrow> bool" where
  "same_bill s s' i \<longleftrightarrow>
     (\<forall>c\<in>set (cores s). co_id c = i \<longrightarrow> c \<in> set (cores s')) \<and> paid_by direct_method s' i = paid_by direct_method s i \<and>
     sum_allocations s' i = sum_allocations s i \<and>
     (\<forall>p\<in>set (ledger_payments s'). pm_method p = ''external'' \<longrightarrow>
        (if p \<in> set (ledger_payments s) then allocated_to s' (pm_id p) i = allocated_to s (pm_id p) i
         else allocated_to s' (pm_id p) i = 0))"

lemma same_bill_external: "same_bill s s' i \<Longrightarrow> no_external s i \<Longrightarrow> no_external s' i"
  unfolding same_bill_def no_external_def by metis

lemma same_bill_billed:
  assumes "same_bill s s' i" "billed D s q i"
  shows "billed D s' q i"
proof -
  obtain c where c: "c \<in> set (cores s)" "co_id c = i" "co_status c = Finalized" "\<not> co_anonymous c" "rq_amount q = co_total c"
      "rq_already_paid q = paid_by direct_method s i \<or> rq_state q = Invoice_Draft \<and> i \<in> D"
      "if rq_state q = Invoice_Draft \<or> rq_state q = Invoice_Submitted then no_external s i
       else sum_allocations s i = co_total c \<and> (\<forall>p\<in>set (ledger_payments s). pm_method p = ''external'' \<and>
         0 < allocated_to s (pm_id p) i \<longrightarrow> pm_request p = Some (rq_id q))"
    using assms(2) unfolding billed_def by blast
  have f: "c \<in> set (cores s')" "paid_by direct_method s' i = paid_by direct_method s i"
      "sum_allocations s' i = sum_allocations s i" using assms(1) c(1,2) by (auto simp: same_bill_def)
  have e: "pm_request p = Some (rq_id q)" if p: "p \<in> set (ledger_payments s')" "pm_method p = ''external''"
      "0 < allocated_to s' (pm_id p) i" and s: "\<not> (rq_state q = Invoice_Draft \<or> rq_state q = Invoice_Submitted)" for p
  proof -
    have "p \<in> set (ledger_payments s) \<and> 0 < allocated_to s (pm_id p) i"
      using assms(1) p unfolding same_bill_def by (metis less_irrefl)
    then show ?thesis using c(7) p(2) s by simp
  qed
  show ?thesis unfolding billed_def
    by (rule bexI[OF _ f(1)]) (use c f e same_bill_external[OF assms(1)] in \<open>auto split: if_splits\<close>)
qed

lemma invoices_keep:
  assumes ok: "invoices_ok env D s" and same: "requests s' = requests s" "drawn s \<le> drawn s'" "methods_ok s'"
    and active: "\<And>i q. active_request s i = Some q \<Longrightarrow> billed D s q i \<Longrightarrow> billed D s' q i"
    and rest: "\<And>i. active_request s i = None \<Longrightarrow> no_external s i \<Longrightarrow> no_external s' i"
  shows "invoices_ok env D s'"
proof (rule invoices_okI)
  show "distinct (map rq_id (requests s'))" using invoices_okD(1)[OF ok] same(1) by simp
  show "oe_id env k \<notin> rq_id ` set (requests s')" if "drawn s' \<le> k" for k
    using invoices_okD(2)[OF ok, of k] that same by simp
  have l: "latest_request s' = latest_request s" "active_request s' = active_request s"
    by (simp_all add: fun_eq_iff latest_request_def active_request_def same(1))
  show "\<exists>i. rq_order q = Some i \<and> latest_request s' i = Some q \<and> billed D s' q i" if "q \<in> set (requests s')" "active q" for q
  proof -
    have q: "q \<in> set (requests s)" using that(1) same(1) by simp
    obtain i where i: "rq_order q = Some i" "latest_request s i = Some q" "billed D s q i"
      using invoices_okD(4)[OF ok q \<open>active q\<close>] by blast
    have "active_request s i \<noteq> None" using that i(1) same(1) by (auto simp: active_request_None_iff)
    then obtain q' where q': "active_request s i = Some q'" by blast
    then have "q' = q" using active_billed(1)[OF ok q'] i(2) by simp
    then show ?thesis using active[OF q'] i l by auto
  qed
  show "no_external s' i" if "active_request s' i = None" for i
    using rest[of i] invoices_okD(5)[OF ok, of i] that by (simp add: l)
qed (use same in simp_all)

lemma invoices_same:
  assumes ok: "invoices_ok env D s" and same: "requests s' = requests s" "drawn s \<le> drawn s'" "methods_ok s'"
    and bills: "\<And>i. active_request s i \<noteq> None \<Longrightarrow> same_bill s s' i" "\<And>i. active_request s i = None \<Longrightarrow> no_external s i \<Longrightarrow> no_external s' i"
  shows "invoices_ok env D s'"
proof (rule invoices_keep[OF ok same])
  fix i q assume "active_request s i = Some q" "billed D s q i"
  then show "billed D s' q i" using same_bill_billed[of s s' i] bills(1)[of i] by simp
qed (rule bills(2))

text \<open>The ledger but for what the books do not hold.\<close>

lemma books_same_bill:
  assumes "books s' = books s"
  shows "same_bill s s' i" "methods_ok s' = methods_ok s" "no_external s' i = no_external s i"
  using books_fields[OF assms] books_sums[OF assms]
  by (simp_all add: same_bill_def methods_ok_def no_external_def paid_by_def)

lemma invoices_books:
  assumes "books s' = books s" "drawn s \<le> drawn s'" "requests s' = requests s" "invoices_ok env D s"
  shows "invoices_ok env D s'"
  by (rule invoices_same[OF assms(4,3,2)])
    (use books_same_bill[OF assms(1)] invoices_okD(3)[OF assms(4)] in simp_all)

section \<open>Changes of a request\<close>

lemma find_map_image: "find P (map h xs) = map_option h (find (\<lambda>x. P (h x)) xs)"
  by (induction xs) auto

lemma billed_stale: "(i \<in> D \<Longrightarrow> i \<in> D') \<Longrightarrow> billed D s q i \<Longrightarrow> billed D' s q i"
  by (auto simp: billed_def)

lemma request_changed:
  assumes ok: "invoices_ok env D s" and q: "q \<in> set (requests s)" "active q" "rq_order q = Some i"
    and change: "requests s' = row_put rq_id q' (requests s)" "rq_id q' = rq_id q" "rq_order q' = Some i"
    and same: "drawn s \<le> drawn s'" "methods_ok s'" "\<And>j. j \<noteq> i \<Longrightarrow> j \<in> D \<Longrightarrow> j \<in> D'"
    and others: "\<And>j. j \<noteq> i \<Longrightarrow> same_bill s s' j"
    and new: "if active q' then billed D' s' q' i else no_external s' i"
  shows "invoices_ok env D' s'"
proof -
  define h where "h = (\<lambda>x. if rq_id x = rq_id q then q' else x)"
  have reqs: "requests s' = map h (requests s)" by (simp add: change(1,2) row_put_def h_def)
  have h_q: "h q = q'" by (simp add: h_def)
  have only: "x = q" if "x \<in> set (requests s)" "rq_id x = rq_id q" for x
    using key_inj[OF invoices_okD(1)[OF ok] q(1) that] .
  have h_order: "rq_order (h x) = rq_order x" if "x \<in> set (requests s)" for x
    using only[OF that] q(3) change(3) by (auto simp: h_def)
  have latest: "latest_request s' j = map_option h (latest_request s j)" for j
  proof -
    have "find (\<lambda>x. rq_order (h x) = Some j) (rev (requests s)) = find (\<lambda>x. rq_order x = Some j) (rev (requests s))"
      by (rule find_cong) (use h_order in auto)
    then show ?thesis by (simp add: latest_request_def reqs rev_map find_map_image)
  qed
  have latest_i: "latest_request s i = Some q" using invoices_okD(4)[OF ok q(1,2)] q(3) by auto
  show ?thesis
  proof (rule invoices_okI)
    show "distinct (map rq_id (requests s'))" using invoices_okD(1)[OF ok] by (simp add: change(1))
    have "map rq_id (requests s') = map rq_id (requests s)" by (simp add: change(1))
    then have "rq_id ` set (requests s') = rq_id ` set (requests s)" by (metis set_map)
    then show "oe_id env k \<notin> rq_id ` set (requests s')" if "drawn s' \<le> k" for k
      using invoices_okD(2)[OF ok, of k] that same(1) by simp
    show "\<exists>j. rq_order x' = Some j \<and> latest_request s' j = Some x' \<and> billed D' s' x' j" if x': "x' \<in> set (requests s')" "active x'" for x'
    proof -
      obtain x where x: "x \<in> set (requests s)" "x' = h x" using x'(1) by (auto simp: reqs)
      show ?thesis
      proof (cases "rq_id x = rq_id q")
        case True
        then have "x' = q'" using x(2) by (simp add: h_def)
        then show ?thesis using new x'(2) change(3) latest latest_i h_q by auto
      next
        case False
        then have same_x: "x' = x" using x(2) by (simp add: h_def)
        have "active x" using x'(2) same_x by simp
        then obtain j where j: "rq_order x = Some j" "latest_request s j = Some x" "billed D s x j"
          using invoices_okD(4)[OF ok x(1)] by blast
        have "j \<noteq> i" using j(2) latest_i False by auto
        then have "billed D' s' x j"
          using same_bill_billed[OF others j(3)] billed_stale[of j D D' s' x] same(3) by blast
        then show ?thesis using j latest same_x x(2) by auto
      qed
    qed
    show "no_external s' j" if none: "active_request s' j = None" for j
    proof (cases "j = i")
      case True
      have "q' \<in> set (requests s')" using q(1) h_q by (auto simp: reqs)
      then have "\<not> active q'" using none True change(3) by (auto simp: active_request_None_iff)
      then show ?thesis using new True by simp
    next
      case False
      have "active_request s j = None"
      proof (unfold active_request_None_iff, intro ballI impI)
        fix x assume x: "x \<in> set (requests s)" "rq_order x = Some j"
        then have "x \<noteq> q" using q(3) False by auto
        then have "h x = x" using only[OF x(1)] by (auto simp: h_def)
        then have "x \<in> set (requests s')" using x(1) by (force simp: reqs)
        then show "\<not> active x" using none x(2) by (auto simp: active_request_None_iff)
      qed
      then show ?thesis using invoices_okD(5)[OF ok] same_bill_external[OF others[OF False]] by blast
    qed
  qed (rule same(2))
qed

lemma invoices_drop:
  assumes "invoices_ok env (insert i D) s" "\<And>q. active_request s i = Some q \<Longrightarrow> rq_state q \<noteq> Invoice_Draft"
  shows "invoices_ok env D s"
proof (rule invoices_okI)
  note ok = assms(1)
  show "\<exists>j. rq_order q = Some j \<and> latest_request s j = Some q \<and> billed D s q j" if q: "q \<in> set (requests s)" "active q" for q
  proof -
    obtain j where j: "rq_order q = Some j" "latest_request s j = Some q" "billed (insert i D) s q j"
      using invoices_okD(4)[OF ok q] by blast
    have "rq_state q \<noteq> Invoice_Draft \<or> j \<noteq> i"
    proof (cases "j = i")
      case True
      then obtain q' where q': "active_request s i = Some q'" using q j(1) by (cases "active_request s i") (auto simp: active_request_None_iff)
      then have "q' = q" using active_billed(1)[OF ok q'] j(2) True by simp
      then show ?thesis using assms(2)[OF q'] by simp
    qed simp
    then have "billed D s q j" using j(3) by (auto simp: billed_def)
    then show ?thesis using j by blast
  qed
qed (use assms(1) in \<open>auto simp: invoices_ok_def\<close>)

text \<open>syncAlreadyPaid brings the figure of a draft request up to date.\<close>

lemma sync_invoices:
  assumes "invoices_ok env (insert i D) s"
  shows "invoices_ok env D (sync_already_paid i s)"
proof (cases "\<exists>q. active_request s i = Some q \<and> rq_state q = Invoice_Draft")
  case False
  then have "sync_already_paid i s = s" by (auto simp: sync_already_paid_def split: option.split)
  then show ?thesis using invoices_drop[OF assms] False by auto
next
  case True
  then obtain q where q: "active_request s i = Some q" "rq_state q = Invoice_Draft" by blast
  let ?q = "q\<lparr>rq_already_paid := paid_by direct_method s i\<rparr>"
  have s': "sync_already_paid i s = s\<lparr>requests := row_put rq_id ?q (requests s)\<rparr>"
    using q by (simp add: sync_already_paid_def paid_by_def direct_method_def)
  have same: "same_bill s (sync_already_paid i s) j" "methods_ok (sync_already_paid i s) = methods_ok s" for j
    using books_same_bill[OF books_sync[of i s]] by simp_all
  show ?thesis
  proof (rule request_changed[OF assms])
    show "q \<in> set (requests s)" "active q" "rq_order q = Some i" using active_requestD[OF q(1)] by simp_all
    have "billed (insert i D) (sync_already_paid i s) q i" by (rule same_bill_billed[OF same(1) active_billed(2)[OF assms q(1)]])
    moreover have "paid_by direct_method (sync_already_paid i s) i = paid_by direct_method s i" using same(1) by (simp add: same_bill_def)
    ultimately show "if active ?q then billed D (sync_already_paid i s) ?q i else no_external (sync_already_paid i s) i"
      using q(2) by (auto simp: active_def billed_def)
  qed (use active_requestD[OF q(1)] same invoices_okD(3)[OF assms] in \<open>auto simp: s'\<close>)
qed

section \<open>Payments\<close>

lemma direct_allocation:
  assumes inv: "invoices_ok env D s" and ok: "ledger_ok env L X s" and add: "allocation_added p i amount s s'"
    and p: "p \<in> set (ledger_payments s)" "pm_method p \<noteq> ''external''" and same: "requests s' = requests s"
    and stale: "\<And>q. active_request s i = Some q \<Longrightarrow> rq_state q = Invoice_Draft \<and> i \<in> D"
  shows "invoices_ok env D s'"
proof (rule invoices_keep[OF inv same])
  note f = allocation_fields[OF add]
  have none: "no_external s' j = no_external s j" for j
  proof -
    have "allocated_to s' (pm_id x) j = allocated_to s (pm_id x) j" if "x \<in> set (ledger_payments s)" "pm_method x = ''external''" for x
      using key_inj[OF ledger_okD(4)[OF ok] p(1) that(1)] p(2) that(2) by (auto simp: f)
    then show ?thesis by (auto simp: no_external_def f)
  qed
  show "drawn s \<le> drawn s'" by (rule f(5))
  show "methods_ok s'" using invoices_okD(3)[OF inv] by (simp add: methods_ok_def f)
  show "no_external s' j" if "no_external s j" for j using that none by simp
  show "billed D s' q j" if q: "active_request s j = Some q" "billed D s q j" for q j
  proof (cases "j = i")
    case True
    then have "rq_state q = Invoice_Draft \<and> i \<in> D" using stale q(1) by simp
    then show ?thesis using q(2) True none by (simp add: billed_def f)
  next
    case False
    have "allocated_to s' y j = allocated_to s y j" for y using False by (simp add: f)
    then have "same_bill s s' j"
      using False p(2) by (simp add: same_bill_def f paid_by_allocation[OF ok add p(1)])
    then show ?thesis using q(2) by (rule same_bill_billed)
  qed
qed

lemma payment_invoices:
  assumes inv: "invoices_ok env D s" and ok: "ledger_ok env L X s" and add: "payment_added x s s'"
    and x: "pm_id x \<notin> pm_id ` set (ledger_payments s)" "direct_method (pm_method x) \<or> pm_method x = ''external''"
    and same: "requests s' = requests s" "drawn s \<le> drawn s'"
  shows "invoices_ok env D s'" "same_bill s s' i"
proof -
  note f = payment_fields[OF add]
  have bill: "same_bill s s' j" for j
    using fresh_unallocated(1)[OF ok x(1)] paid_by_payment[OF ok add x(1)] by (auto simp: same_bill_def f)
  then show "same_bill s s' i" .
  show "invoices_ok env D s'"
    by (rule invoices_same[OF inv same])
      (use invoices_okD(3)[OF inv] x(2) bill same_bill_external[OF bill] in \<open>auto simp: methods_ok_def f\<close>)
qed

lemma fresh_payment: "ledger_ok env L X s \<Longrightarrow> pm_id x = oe_id env (drawn s) \<Longrightarrow> pm_id x \<notin> pm_id ` set (ledger_payments s)"
  using fresh_id(2)[OF ledger_okD(1), of env L X s "drawn s"] by simp

lemma invoices_stale: "invoices_ok env D s \<Longrightarrow> D \<subseteq> D' \<Longrightarrow> invoices_ok env D' s"
  unfolding invoices_ok_def using billed_stale[of _ D D'] by blast

text \<open>The end of a payment: the version of the order, the figure of a draft request, the audit.\<close>

lemma synced_invoices:
  assumes "invoices_ok env (insert i D) s" "books s' = books s" "drawn s' = drawn s"
    "requests s' = requests (sync_already_paid i (bump_order i s))"
  shows "invoices_ok env D s'"
proof -
  have "invoices_ok env (insert i D) (bump_order i s)" by (rule invoices_books[OF _ _ _ assms(1)]) simp_all
  then have "invoices_ok env D (sync_already_paid i (bump_order i s))" by (rule sync_invoices)
  then show ?thesis by (rule invoices_books[rotated 3]) (use assms(2-4) in simp_all)
qed

lemma receipt_request:
  assumes "receipt env p r op input s = Inr s'"
  shows "\<And>q. active_request s (or_id r) = Some q \<Longrightarrow> rq_state q = Invoice_Draft" "direct_method (pi_method input)"
  using assms by (auto simp: receipt_def and_then_Inr_iff check_receipt_input_def direct_method_def)

lemma receipt_invoices:
  assumes inv: "invoices_ok env D s" and ok: "ledger_ok env {} X s" and inj: "inj (oe_id env)"
    and run: "receipt env p r op input s = Inr s'"
  shows "invoices_ok env D s'"
proof -
  obtain amount where a: "or_status r = Finalized" "0 < amount" "sum_allocations s (or_id r) + amount \<le> or_total r"
      "book_receipt env p r input amount op s = Inr s'"
    using run by (rule receiptD)
  obtain pay s1 s2 where b: "payment_added pay s s1" "pm_id pay = oe_id env (drawn s)" "pm_entry pay = ''receipt''"
      "pm_reverses pay = None" "pm_amount pay = amount" "pm_method pay = pi_method input" "drawn s1 = Suc (drawn s)"
      "allocation_added pay (or_id r) amount s1 s2" "books s' = books s2" "drawn s' = drawn s2"
      "requests s1 = requests s" "requests s2 = requests s"
      "requests s' = requests (sync_already_paid (or_id r) (bump_order (or_id r) s2))"
    by (rule book_receipt_steps[OF a(4)])
  have m: "direct_method (pm_method pay)" using receipt_request(2)[OF run] b(6) by simp
  have s1: "invoices_ok env D s1"
    by (rule payment_invoices(1)[OF inv ok b(1)]) (use fresh_payment[OF ok b(2)] m b(7,11) in simp_all)
  have ok1: "ledger_ok env (insert (pm_id pay) {}) X s1"
    by (rule receipt_added[OF ok b(1) inj b(2)]) (use a b in simp_all)
  have "invoices_ok env (insert (or_id r) D) s2"
  proof (rule direct_allocation[OF invoices_stale[OF s1] ok1 b(8)])
    show "pay \<in> set (ledger_payments s1)" by (simp add: payment_fields(3)[OF b(1)])
    show "pm_method pay \<noteq> ''external''" using m by (auto simp: direct_method_def)
    show "rq_state q = Invoice_Draft \<and> or_id r \<in> insert (or_id r) D" if "active_request s1 (or_id r) = Some q" for q
      using receipt_request(1)[OF run, of q] that b(11) by (simp add: active_request_def)
  qed (use b(11,12) in auto)
  then show ?thesis by (rule synced_invoices) (rule b(9,10,13))+
qed

text \<open>Only the payments of an issued invoice are external, and those are reversed with the request.\<close>

lemma reversal_request:
  assumes inv: "invoices_ok env D s" and run: "reverse_receipt env p r op input s = Inr s'"
    and original: "original \<in> set (ledger_payments s)" "pm_id original = ri_payment input" "distinct (map pm_id (ledger_payments s))"
      "0 < allocated_to s (pm_id original) (or_id r)"
  shows "pm_method original \<noteq> ''external''" "\<And>q. active_request s (or_id r) = Some q \<Longrightarrow> rq_state q = Invoice_Draft"
proof -
  have at: "row_at pm_id (ri_payment input) (ledger_payments s) = Some original"
    using row_at_key[OF original(3,1)] original(2) by simp
  then have check: "check_reversal r original input s = Inr ()"
    using run by (auto simp: reverse_receipt_def and_then_Inr_iff split: option.splits)
  show m: "pm_method original \<noteq> ''external''"
  proof
    assume e: "pm_method original = ''external''"
    then have "case latest_request s (or_id r) of None \<Rightarrow> True | Some q \<Rightarrow> rq_state q = Invoice_Cancelled"
      using check by (auto simp: check_reversal_def split: option.splits)
    then have "no_external s (or_id r)" using latest_cancelled[OF inv] invoices_okD(5)[OF inv] by blast
    then show False using e original(1,4) by (auto simp: no_external_def)
  qed
  show "rq_state q = Invoice_Draft" if "active_request s (or_id r) = Some q" for q
    using check m that by (simp add: check_reversal_def)
qed

lemma reverse_receipt_invoices:
  assumes inv: "invoices_ok env D s" and ok: "ledger_ok env {} X s" and run: "reverse_receipt env p r op input s = Inr s'"
  shows "invoices_ok env D s'"
proof -
  obtain original where org: "original \<in> set (ledger_payments s)" "0 < allocated_to s (pm_id original) (or_id r)"
      "book_reversal env p r original input op s = Inr s'" "pm_id original = ri_payment input"
    using run by (rule reverse_receiptD)
  obtain x s1 s2 where b: "allocation_added original (or_id r) (- pm_amount original) s s1" "drawn s1 = drawn s"
      "payment_added x s1 s2" "pm_id x = oe_id env (drawn s)" "pm_entry x = ''reversal''"
      "pm_reverses x = Some (pm_id original)" "pm_amount x = pm_amount original" "pm_method x = pm_method original"
      "pm_reversed_reference x = Some (pm_reference original)" "drawn s1 < drawn s2" "books s' = books s2" "drawn s' = drawn s2"
      "requests s1 = requests s" "requests s2 = requests s"
      "requests s' = requests (sync_already_paid (or_id r) (bump_order (or_id r) s2))"
    by (rule book_reversal_steps[OF org(3)])
  note rq = reversal_request[OF inv run org(1,4) ledger_okD(4)[OF ok] org(2)]
  have s1: "invoices_ok env (insert (or_id r) D) s1"
    by (rule direct_allocation[OF invoices_stale[OF inv] ok b(1) org(1)]) (use rq b(13) in auto)
  have ok1: "ledger_ok env {pm_id original} (insert (or_id r) X) s1" by (rule take_receipt[OF ok b(1) org(1,2)])
  have m: "direct_method (pm_method x)" using invoices_okD(3)[OF inv] org(1) rq(1) b(8) by (auto simp: methods_ok_def)
  have "invoices_ok env (insert (or_id r) D) s2"
    by (rule payment_invoices(1)[OF s1 ok1 b(3)]) (use fresh_payment[OF ok1, of x] m b in simp_all)
  then show ?thesis by (rule synced_invoices) (rule b(11,12,15))+
qed

section \<open>Orders\<close>

lemma cores_invoices:
  assumes inv: "invoices_ok env D s" and same: "requests s' = requests s" "drawn s \<le> drawn s'"
    "ledger_payments s' = ledger_payments s" "allocations s' = allocations s"
    and cores: "\<And>c. c \<in> set (cores s) \<Longrightarrow> active_request s (co_id c) \<noteq> None \<Longrightarrow> c \<in> set (cores s')"
  shows "invoices_ok env D s'"
proof (rule invoices_same[OF inv same(1,2)])
  have sums: "allocated_to s' y j = allocated_to s y j" "paid_by M s' j = paid_by M s j" "sum_allocations s' j = sum_allocations s j" for y j M
    using same(3,4) by (simp_all add: allocated_to_def paid_by_def sum_allocations_def)
  show "methods_ok s'" using invoices_okD(3)[OF inv] by (simp add: methods_ok_def same(3))
  show "same_bill s s' i" if "active_request s i \<noteq> None" for i
    using cores that by (auto simp: same_bill_def sums same(3))
  show "no_external s' i" if "no_external s i" for i using that by (simp add: no_external_def sums same(3))
qed

lemma order_changed_invoices:
  assumes inv: "invoices_ok env D s" and change: "order_changed i g as s s'" and same: "requests s' = requests s"
    and i: "active_request s i = None"
  shows "invoices_ok env D s'"
proof (rule cores_invoices[OF inv same])
  show "c \<in> set (cores s')" if "c \<in> set (cores s)" "active_request s (co_id c) \<noteq> None" for c
  proof -
    have "co_id c \<noteq> i" using that i by auto
    then show ?thesis using change that(1) by (force simp: order_changed_def books_def)
  qed
qed (use change in \<open>auto simp: order_changed_def books_def\<close>)

text \<open>Operations that do not touch the requests.\<close>

lemma transition_requests: "transition_order i st charge s = Inr s' \<Longrightarrow> requests s' = requests s"
  by (auto simp: transition_order_def Let_def update_order_def)

lemma release_requests [simp]: "requests (release_order_claims i s) = requests s" "requests (release_item_claim x s) = requests s"
  "requests (claim_job j x s) = requests s"
  by (simp_all add: release_order_claims_def release_item_claim_def claim_job_def)

lemma finalize_requests:
  assumes "finalize env p r s = Inr (r', s')"
  shows "requests s' = requests s"
proof -
  obtain f s1 s2 m where a: "or_status r = Draft"
    "run_all (finalize_item env p r) (job_order (order_items s (or_id r)))
       \<lparr>fin_count = 0, fin_total = 0, fin_sales = [], fin_ledger = s\<rparr> = Inr f"
    "fin_count f \<noteq> 0" "fin_total f < 10 ^ 20" "capture_customer env r (fin_ledger f) = Inr s1"
    "is_anonymous r \<longrightarrow> or_fulfillment r = ''immediate''"
    "transition_order (or_id r) Finalized (fin_total f) (s1\<lparr>logbook := m\<rparr>) = Inr s2"
    "s' = log_event p ''order.finalized'' ''order'' (or_id r) [''status'', ''totalAmount'', ''customerSnapshot''] s2"
    "row_at or_id (or_id r) (orders s') = Some r'"
    using assms by (rule finalizeD)
  have item: "requests t' = requests t" if "claim_item env p r x t = Inr t'" for x t t'
    using that by (auto simp: claim_item_def and_then_Inr_iff split: option.splits)
  have step: "requests (fin_ledger f') = requests (fin_ledger f)" if "finalize_item env p r x f = Inr f'" for x f f'
    using that item by (cases "it_removed x") (auto simp: finalize_item_def and_then_Inr_iff)
  have "requests (fin_ledger f) = requests s" by (rule run_all_keeps[OF a(2)]) (use step in auto)
  moreover have "requests s1 = requests (fin_ledger f)"
    using a(5) by (auto simp: capture_customer_def and_then_Inr_iff split: if_splits)
  ultimately show ?thesis using transition_requests[OF a(7)] a(8) by simp
qed

lemma finalize_invoices:
  assumes run: "finalize env p r s = Inr (r', s')" and ok: "ledger_ok env L X s" and r: "current r s" and inv: "invoices_ok env D s"
  shows "invoices_ok env D s'"
proof -
  note e = finalize_effect[OF run ok r]
  show ?thesis
    by (rule order_changed_invoices[OF inv e(1) finalize_requests[OF run]])
      (use unbilled_order[OF inv ok current_core[OF r]] e(4) in simp)
qed

lemma reverse_order_requests:
  assumes "reverse_order env p r text s = Inr s'"
  shows "requests s' = requests s"
proof -
  obtain s1 s2 where a: "or_status r = Finalized" "sum_allocations s (or_id r) = 0"
    "run_all (restock_item env p) (sold_order (order_items s (or_id r))) (insert_adjustment env r (trim_space text) s) = Inr s1"
    "transition_order (or_id r) Reversed (or_total r) (release_order_claims (or_id r) s1) = Inr s2"
    "s' = log_event p ''order.reversed'' ''order'' (or_id r) [''status'', ''adjustments''] s2"
    using assms by (rule reverse_orderD)
  have fold: "requests (fold (adjust_item env k) xs t) = requests t" for k xs t
    by (induction xs arbitrary: t) (simp_all add: adjust_item_def draw_id_def)
  then have "requests (insert_adjustment env r (trim_space text) s) = requests s"
    by (simp add: insert_adjustment_def draw_id_def)
  moreover have "requests s1 = requests (insert_adjustment env r (trim_space text) s)"
    by (rule run_all_keeps[OF a(3)]) (auto simp: restock_item_def and_then_Inr_iff)
  ultimately show ?thesis using transition_requests[OF a(4)] a(5) by simp
qed

lemma reverse_order_invoices:
  assumes run: "reverse_order env p r text s = Inr s'" and inv: "invoices_ok env D s"
  shows "invoices_ok env D s'"
proof -
  obtain a where a: "order_changed (or_id r) (\<lambda>c. c\<lparr>co_status := Reversed, co_total := or_total r\<rparr>) [a] s s'"
    using reverse_order_effect[OF run] by metis
  have "case latest_request s (or_id r) of None \<Rightarrow> True | Some q \<Rightarrow> rq_state q = Invoice_Cancelled"
    using run by (auto simp: reverse_order_def and_then_Inr_iff Let_def)
  then show ?thesis
    by (rule order_changed_invoices[OF inv a reverse_order_requests[OF run] latest_cancelled[OF inv]])
qed

lemma cancel_order_invoices:
  assumes run: "cancel_order p r s = Inr (i, s')" and ok: "ledger_ok env L X s" and r: "current r s" and inv: "invoices_ok env D s"
  shows "invoices_ok env D s'"
proof -
  obtain s2 where a: "or_status r = Draft" "transition_order (or_id r) Cancelled (or_total r) (release_order_claims (or_id r) s) = Inr s2"
      "s' = log_event p ''order.cancelled'' ''order'' (or_id r) [''status''] s2"
    using run by (auto simp: cancel_order_def require_draft_def and_then_Inr_iff)
  have e: "order_changed (or_id r) (\<lambda>c. c\<lparr>co_status := Cancelled, co_total := or_total r\<rparr>) [] s s'"
    using transition_books(1,2)[OF a(2)] a(3) unfolding books_fields[OF release_books(1)[of "or_id r" s]]
    by (simp add: order_changed_def)
  show ?thesis
    by (rule order_changed_invoices[OF inv e])
      (use transition_requests[OF a(2)] a(1,3) unbilled_order[OF inv ok current_core[OF r]] in simp_all)
qed

lemma create_order_invoices:
  assumes run: "create_order env p c mode original s = Inr (r, s')" and inv: "invoices_ok env D s"
  shows "invoices_ok env D s'"
proof -
  have s': "requests s' = requests s" "ledger_payments s' = ledger_payments s" "allocations s' = allocations s"
      "drawn s \<le> drawn s'" "set (orders s) \<subseteq> set (orders s')"
    using run by (auto simp: create_order_def and_then_Inr_iff draw_id_def Let_def log_event_def)
  show ?thesis by (rule cores_invoices[OF inv s'(1,4,2,3)]) (use s'(5) in \<open>auto simp: cores_def\<close>)
qed

lemma insert_item_invoices:
  assumes run: "insert_item env p r input s = Inr s'" and inv: "invoices_ok env D s"
  shows "invoices_ok env D s'"
proof -
  obtain v s1 where v: "0 \<le> iv_amount v"
    "store_item env r (oe_id env (drawn s)) (ii_kind input) v (s\<lparr>drawn := Suc (drawn s)\<rparr>) = Inr s1"
    "s' = log_event p ''order.item_added'' ''order'' (or_id r) [''items''] (bump_order (or_id r) s1)"
    using run by (rule insert_item_steps)
  obtain x where x: "drawn s1 = Suc (drawn s)" "books s1 = (cores s, items s @ [x], ledger_payments s, allocations s, adjustments s)"
    using v(2) by (rule store_item_books) (auto simp: cores_def)
  have rq: "requests s1 = requests s"
    using v(2) by (auto simp: store_item_def Let_def split: option.splits)
  have b: "books s' = books s1" "drawn s' = drawn s1" "requests s' = requests s1" by (simp_all add: v(3))
  then have f: "cores s' = cores s" "ledger_payments s' = ledger_payments s" "allocations s' = allocations s"
    using x(2) by (simp_all add: books_def)
  show ?thesis by (rule cores_invoices[OF inv _ _ f(2,3)]) (use b rq x f in simp_all)
qed

lemma change_item_invoices:
  assumes run: "change_item env p j i input action s = Inr s'" and inv: "invoices_ok env D s"
  shows "invoices_ok env D s'"
proof -
  obtain r input' s1 s2 where a: "take_item env p j i input action s = Inr (input', s1)"
      "(if action = Remove_Item then Inr (bump_order j s1) else insert_item env p r input' s1) = Inr s2"
      "s' = (if action = Refresh_Item then log_event p ''order.item_refreshed'' ''order'' j [''items''] s2 else s2)"
    using run by (auto simp: change_item_def and_then_Inr_iff require_draft_def)
  have "s1 = s \<or> s1 = remove_item p j i s"
    using a(1) by (auto simp: take_item_def Let_def and_then_Inr_iff split: if_splits option.splits)
  moreover have "invoices_ok env D (remove_item p j i s)"
    by (rule cores_invoices[OF inv]) (simp_all add: remove_item_def release_item_claim_def log_event_def cores_def)
  ultimately have s1: "invoices_ok env D s1" using inv by blast
  have "invoices_ok env D s2"
  proof (cases "action = Remove_Item")
    case True
    then have "s2 = bump_order j s1" using a(2) by simp
    then show ?thesis using invoices_books[of s2 s1, OF _ _ _ s1] by simp
  next
    case False
    then show ?thesis using insert_item_invoices[OF _ s1] a(2) by simp
  qed
  then show ?thesis using a(3) invoices_books[of s' s2 env D] by simp
qed

lemma update_draft_invoices:
  assumes run: "update_draft env p i input s = Inr s'" and ok: "ledger_ok env {} {} s" and inv: "invoices_ok env D s"
  shows "invoices_ok env D s'"
proof -
  obtain r kind person org where a: "lock_order s i = Inr r" "or_status r = Draft"
      "s' = log_event p ''order.updated'' ''order'' i [''customer'', ''fulfillmentMode'']
              (update_order i (\<lambda>r. r\<lparr>or_customer_kind := kind, or_person := person, or_organization := org,
                                     or_fulfillment := ud_fulfillment input, or_version := or_version r + 1\<rparr>) s)"
    using run by (auto simp: update_draft_def and_then_Inr_iff require_draft_def)
  have r: "current r s" "or_id r = i" using lock_orderD[OF a(1)] by simp_all
  have none: "active_request s i = None" using unbilled_order[OF inv ok current_core[OF r(1)]] a(2) r(2) by simp
  show ?thesis
  proof (rule cores_invoices[OF inv])
    show "c \<in> set (cores s')" if c: "c \<in> set (cores s)" "active_request s (co_id c) \<noteq> None" for c
    proof -
      obtain x where x: "x \<in> set (orders s)" "core x = c" using c(1) by (auto simp: cores_def)
      then have "or_id x \<noteq> i" using c(2) none by auto
      then show ?thesis using x by (force simp: a(3) cores_def update_order_def log_event_def)
    qed
  qed (simp_all add: a(3) update_order_def log_event_def)
qed

section \<open>Commands on orders\<close>

lemma receipts_invoices:
  assumes run: "run_all (receipt env p r op) inputs s = Inr s'" and ok: "ledger_ok env {} X s" and inv: "invoices_ok env D s"
    and inj: "inj (oe_id env)" and r: "current r s" "is_anonymous r \<longrightarrow> or_id r \<in> X"
  shows "invoices_ok env D s'"
proof -
  have "ledger_ok env {} X s' \<and> current r s' \<and> invoices_ok env D s'"
  proof (rule run_all_keeps[OF run])
    show "ledger_ok env {} X s2 \<and> current r s2 \<and> invoices_ok env D s2"
      if "receipt env p r op x s1 = Inr s2" "ledger_ok env {} X s1 \<and> current r s1 \<and> invoices_ok env D s1" for x s1 s2
      using receipt_keeps[OF _ inj _ r(2) that(1)] receipt_invoices[OF _ _ inj that(1)] that(2) current_same[of s2 s1 r] by auto
  qed (use ok inv r in simp)
  then show ?thesis by simp
qed

lemma reversals_invoices:
  assumes run: "run_all (reverse_receipt env p r op) inputs s = Inr s'" and ok: "ledger_ok env {} X s" and inv: "invoices_ok env D s"
    and inj: "inj (oe_id env)"
  shows "invoices_ok env D s'"
proof -
  have "ledger_ok env {} (insert (or_id r) X) s' \<and> invoices_ok env D s'"
  proof (rule run_all_keeps[OF run])
    show "ledger_ok env {} (insert (or_id r) X) s2 \<and> invoices_ok env D s2"
      if "reverse_receipt env p r op x s1 = Inr s2" "ledger_ok env {} (insert (or_id r) X) s1 \<and> invoices_ok env D s1" for x s1 s2
      using reverse_receipt_keeps[of env "insert (or_id r) X" s1, OF _ inj that(1)] that(2)
        reverse_receipt_invoices[OF conjunct2[OF that(2)] conjunct1[OF that(2)] that(1)] by (simp add: insert_absorb)
  qed (use inv ledger_ok_mono[OF ok] in blast)
  then show ?thesis by simp
qed

lemma finalize_and_pay_invoices:
  assumes run: "finalize_and_pay env p input r s = Inr (i, s')" and ok: "ledger_ok env {} {} s" and inv: "invoices_ok env D s"
    and inj: "inj (oe_id env)" and r: "current r s"
  shows "invoices_ok env D s'"
proof -
  obtain r1 s1 where a: "finalize env p r s = Inr (r1, s1)" "run_all (receipt env p r1 (oc_key input)) (oc_payments input) s1 = Inr s'"
    using run by (auto simp: finalize_and_pay_def and_then_Inr_iff)
  have "or_id r1 = or_id r" using finalize_effect(2)[OF a(1) ok r] by (simp add: core_def)
  then show ?thesis
    using receipts_invoices[OF a(2) finalize_keeps[OF a(1) ok r] finalize_invoices[OF a(1) ok r inv] inj finalize_effect(3)[OF a(1) ok r]]
    by simp
qed

lemma reverse_command_invoices:
  assumes run: "reverse_command env p input r s = Inr (i, s')" and ok: "ledger_ok env {} {} s" and inv: "invoices_ok env D s"
    and inj: "inj (oe_id env)"
  shows "invoices_ok env D s'"
proof -
  obtain s1 where a: "run_all (reverse_receipt env p r (oc_key input)) (oc_reversals input) s = Inr s1"
      "reverse_order env p r (oc_reason input) s1 = Inr s'"
    using run by (auto simp: reverse_command_def and_then_Inr_iff)
  show ?thesis by (rule reverse_order_invoices[OF a(2) reversals_invoices[OF a(1) ok inv inj]])
qed

lemma prepare_replacement_invoices:
  assumes run: "prepare_replacement env p r s = Inr (i, s')" and inv: "invoices_ok env D s"
  shows "invoices_ok env D s'"
proof -
  obtain r1 s1 where a: "create_order env p (customer_reference r) (or_fulfillment r) (Some r) s = Inr (r1, s1)"
      "run_all (copy_item env p r1) (order_items s1 (or_id r)) s1 = Inr s'"
    using run by (auto simp: prepare_replacement_def and_then_Inr_iff)
  show ?thesis
    by (rule run_all_keeps[OF a(2), of "invoices_ok env D"])
      (use create_order_invoices[OF a(1) inv] copy_item_step insert_item_invoices in blast)+
qed

lemma fold_allocate_requests: "requests (fold (\<lambda>pay. allocate env pay r (- pm_amount pay) op) ps s) = requests s"
  by (induction ps arbitrary: s) simp_all

lemma take_all_invoices:
  assumes "invoices_ok env D s" "ledger_ok env L X s" "distinct (map pm_id ps)"
    "\<forall>p\<in>set ps. p \<in> set (ledger_payments s) \<and> 0 < allocated_to s (pm_id p) (or_id r) \<and> pm_method p \<noteq> ''external''"
    "active_request s (or_id r) = None"
  shows "invoices_ok env D (fold (\<lambda>pay. allocate env pay r (- pm_amount pay) op) ps s)"
  using assms
proof (induction ps arbitrary: s L X)
  case (Cons p ps)
  let ?s = "allocate env p r (- pm_amount p) op s"
  note add = allocate_added[of p r "- pm_amount p" s env op]
  note f = allocation_fields[OF add]
  have p: "p \<in> set (ledger_payments s)" "0 < allocated_to s (pm_id p) (or_id r)" "pm_method p \<noteq> ''external''"
    using Cons.prems(4) by simp_all
  have none: "active_request ?s (or_id r) = None" using Cons.prems(5) by (simp add: active_request_def)
  have inv: "invoices_ok env D ?s"
    by (rule direct_allocation[OF Cons.prems(1,2) add p(1,3)]) (use Cons.prems(5) in simp_all)
  have ok: "ledger_ok env (insert (pm_id p) L) (insert (or_id r) X) ?s" by (rule take_receipt[OF Cons.prems(2) add p(1,2)])
  have "\<forall>q\<in>set ps. q \<in> set (ledger_payments ?s) \<and> 0 < allocated_to ?s (pm_id q) (or_id r) \<and> pm_method q \<noteq> ''external''"
  proof
    fix q assume q: "q \<in> set ps"
    then have "pm_id q \<noteq> pm_id p" using Cons.prems(3) by (metis distinct.simps(2) imageI list.simps(9) set_map)
    then show "q \<in> set (ledger_payments ?s) \<and> 0 < allocated_to ?s (pm_id q) (or_id r) \<and> pm_method q \<noteq> ''external''"
      using Cons.prems(4) q by (simp add: f)
  qed
  then show ?case using Cons.IH[OF inv ok _ _ none] Cons.prems(3) by simp
qed simp

lemma move_receipt_requests: "move_receipt env p op r pay s = Inr s' \<Longrightarrow> requests s' = requests s"
  by (auto simp: move_receipt_def)

lemma place_all_invoices:
  assumes "run_all (move_receipt env p op r) ps s = Inr s'" "invoices_ok env D s" "ledger_ok env L X s" "distinct (map pm_id ps)"
    "\<forall>q\<in>set ps. q \<in> set (ledger_payments s) \<and> pm_entry q = ''receipt'' \<and> pm_id q \<in> L"
    "current r s" "or_status r = Finalized" "is_anonymous r \<longrightarrow> or_id r \<in> X"
    "sum_allocations s (or_id r) + sum_list (map pm_amount ps) \<le> or_total r"
    "active_request s (or_id r) = None" "\<forall>q\<in>set ps. pm_method q \<noteq> ''external''"
  shows "invoices_ok env D s'"
  using assms
proof (induction ps arbitrary: s L)
  case (Cons q ps)
  obtain s1 where s1: "move_receipt env p op r q s = Inr s1" "run_all (move_receipt env p op r) ps s1 = Inr s'"
    using Cons.prems(1) by (auto simp: and_then_Inr_iff)
  have one: "run_all (move_receipt env p op r) [q] s = Inr s1" using s1(1) by (simp add: and_then_Inr_iff)
  note add = move_receipt_added[OF s1(1)]
  note f = allocation_fields[OF add]
  have pos: "0 \<le> pm_amount x" if "x \<in> set ps" for x
    using Cons.prems(5) that ledger_okD(7)[OF Cons.prems(3), of x] by (auto simp: receipt_balanced_def)
  have rest: "0 \<le> sum_list (map pm_amount ps)" by (rule sum_list_nonneg) (use pos in auto)
  have inv: "invoices_ok env D s1"
    by (rule direct_allocation[OF Cons.prems(2,3) add]) (use Cons.prems(5,10,11) move_receipt_requests[OF s1(1)] in simp_all)
  have ok: "ledger_ok env (L - {pm_id q}) X s1"
    by (rule place_all[OF one Cons.prems(3) _ _ Cons.prems(6-8), THEN conjunct1, simplified])
      (use Cons.prems(5,9) rest in simp_all)
  have ids: "\<forall>x\<in>set ps. x \<in> set (ledger_payments s1) \<and> pm_entry x = ''receipt'' \<and> pm_id x \<in> L - {pm_id q}"
  proof
    fix x assume x: "x \<in> set ps"
    then have "pm_id x \<noteq> pm_id q" using Cons.prems(4) by (metis distinct.simps(2) imageI list.simps(9) set_map)
    then show "x \<in> set (ledger_payments s1) \<and> pm_entry x = ''receipt'' \<and> pm_id x \<in> L - {pm_id q}"
      using Cons.prems(5) x by (simp add: f)
  qed
  have cur: "current r s1" using Cons.prems(6) current_same[OF f(1)] by simp
  have fits: "sum_allocations s1 (or_id r) + sum_list (map pm_amount ps) \<le> or_total r" using Cons.prems(9) by (simp add: f(6))
  have none: "active_request s1 (or_id r) = None" using Cons.prems(10) move_receipt_requests[OF s1(1)] by (simp add: active_request_def)
  have "distinct (map pm_id ps)" "\<forall>q\<in>set ps. pm_method q \<noteq> ''external''" using Cons.prems(4,11) by simp_all
  then show ?case using Cons.IH[OF s1(2) inv ok _ ids cur Cons.prems(7,8) fits none] by blast
qed simp

text \<open>Without an active request the reversal of a receipt leaves the requests alone.\<close>

lemma unbilled_reversal:
  assumes run: "reverse_receipt env p r op input s = Inr s'" and none: "active_request s (or_id r) = None"
  shows "requests s' = requests s"
proof -
  obtain original where org: "book_reversal env p r original input op s = Inr s'"
    using run by (rule reverse_receiptD)
  show ?thesis
  proof (rule book_reversal_steps[OF org], goal_cases)
    case (1 x s1 s2)
    then have "active_request (bump_order (or_id r) s2) (or_id r) = None" using none by (simp add: active_request_def)
    then show ?case using 1(14,15) by (simp add: sync_already_paid_def)
  qed
qed

lemma replace_order_invoices:
  assumes run: "replace_order env p input r next_row s = Inr (i, s')" and ok: "ledger_ok env {} {} s" and inj: "inj (oe_id env)"
    and r: "current r s" "current next_row s" "or_id next_row \<noteq> or_id r" and inv: "invoices_ok env {} s"
  shows "invoices_ok env {} s'"
proof (rule replace_order_states[OF run ok inj r], goal_cases)
  case (1 s1 carried s2 s3 r4 s4 s5 s6)
  have none: "active_request s (or_id r) = None" by (rule latest_cancelled[OF inv 1(5)])
  have "requests s1 = requests s"
  proof (rule run_all_keeps[OF 1(1)])
    fix x t t' assume t: "reverse_receipt env p r (oc_key input) x t = Inr t'" "requests t = requests s"
    then have "active_request t (or_id r) = None" using none by (simp add: active_request_def)
    then show "requests t' = requests s" using unbilled_reversal[OF t(1)] t(2) by simp
  qed simp
  then have none1: "active_request s1 (or_id r) = None" using none by (simp add: active_request_def)
  have direct: "\<forall>q\<in>set carried. pm_method q \<noteq> ''external''" using 1(4) by (simp add: list_all_iff)
  have s1: "invoices_ok env {} s1" by (rule reversals_invoices[OF 1(1) ok inv inj])
  have s2: "invoices_ok env {} s2" unfolding 1(6)
    by (rule take_all_invoices[OF s1 1(2) _ _ none1])
      (use active_receiptsD[OF 1(2), of "or_id r"] direct 1(3) in simp_all)
  have s3: "invoices_ok env {} s3"
    using 1(7) reverse_order_invoices[OF _ s2] invoices_books[of s3 s2, OF _ _ _ s2] by (auto split: if_splits)
  have s4: "invoices_ok env {} s4" by (rule finalize_invoices[OF 1(10) 1(8,9) s3])
  note e = finalize_effect[OF 1(10) 1(8,9)]
  have "active_request s3 (or_id next_row) = None"
    using unbilled_order[OF s3 1(8) current_core[OF 1(9)]] e(4) by simp
  then have none4: "active_request s4 (or_id r4) = None"
    using finalize_requests[OF 1(10)] e(2) by (simp add: active_request_def core_def)
  have s5: "invoices_ok env {} s5"
    by (rule place_all_invoices[OF 1(16) s4 1(11) _ 1(15,12,13) _ 1(14) none4 direct])
      (use active_receiptsD(1)[OF 1(2)] 1(3) in simp_all)
  have "invoices_ok env {} s6" by (rule receipts_invoices[OF 1(19,17) s5 inj 1(18)]) simp
  then show ?case using invoices_books[of s' s6] 1(21) by simp
qed

end
