(* ===== verification/Invoice_Commands.thy ===== *)
theory Invoice_Commands
  imports Invoice_Balance
begin

text \<open>
  Every operation on invoice requests keeps the books of the orders (\<open>ledger_ok\<close>) and keeps the requests in step
  with the payments (\<open>invoices_ok\<close>): editing, the settlement of an order by its issued invoice, and the return of
  that settlement when the invoice is cancelled.
\<close>

section \<open>Composed changes\<close>

lemma same_bill_trans:
  assumes "same_bill s t i" "same_bill t u i" "set (ledger_payments s) \<subseteq> set (ledger_payments t)"
  shows "same_bill s u i"
proof -
  have "if p \<in> set (ledger_payments s) then allocated_to u (pm_id p) i = allocated_to s (pm_id p) i
        else allocated_to u (pm_id p) i = 0" if p: "p \<in> set (ledger_payments u)" "pm_method p = ''external''" for p
  proof (cases "p \<in> set (ledger_payments t)")
    case True
    then have "allocated_to u (pm_id p) i = allocated_to t (pm_id p) i" using assms(2) p by (simp add: same_bill_def)
    then show ?thesis using assms(1) True p(2) by (simp add: same_bill_def)
  next
    case False
    then have "allocated_to u (pm_id p) i = 0" using assms(2) p by (simp add: same_bill_def)
    then show ?thesis using False assms(3) by auto
  qed
  then show ?thesis using assms(1,2) by (simp add: same_bill_def)
qed

lemma same_bill_refl [simp]: "same_bill s s i"
  by (simp add: same_bill_def)

lemma allocation_same_bill:
  assumes ok: "ledger_ok env L X s" and add: "allocation_added p i amount s s'" and p: "p \<in> set (ledger_payments s)" and j: "j \<noteq> i"
  shows "same_bill s s' j"
  using j by (simp add: same_bill_def allocation_fields[OF add] paid_by_allocation[OF ok add p])

lemma books_bill:
  assumes "books u = books t" "same_bill s t i"
  shows "same_bill s u i"
  using assms(2) books_fields[OF assms(1)] books_sums[OF assms(1)] by (simp add: same_bill_def paid_by_def)

section \<open>Details and states\<close>

lemma change_request_simps [simp]:
  "books (change_request i f s) = books s" "drawn (change_request i f s) = drawn s"
  by (simp_all add: change_request_def books_def cores_def)

lemma change_request_row:
  assumes "distinct (map rq_id (requests s))" "q \<in> set (requests s)" "rq_id (f q) = rq_id q"
  shows "requests (change_request (rq_id q) f s) = row_put rq_id (f q) (requests s)"
proof -
  have "(if rq_id x = rq_id q then f x else x) = (if rq_id x = rq_id (f q) then f q else x)" if "x \<in> set (requests s)" for x
    using key_inj[OF assms(1,2) that] assms(3) by auto
  then show ?thesis by (simp add: change_request_def row_put_def)
qed

text \<open>A change of a request that keeps its order, state and figures.\<close>

lemma request_edited:
  assumes inv: "invoices_ok env D s" and q: "q \<in> set (requests s)" "active q"
    and f: "rq_id (f q) = rq_id q" "rq_order (f q) = rq_order q" "rq_state (f q) = rq_state q" "rq_amount (f q) = rq_amount q"
      "rq_already_paid (f q) = rq_already_paid q"
  shows "invoices_ok env D (change_request (rq_id q) f s)"
proof -
  obtain i where i: "rq_order q = Some i" "latest_request s i = Some q" "billed D s q i"
    using invoices_okD(4)[OF inv q] by blast
  let ?s = "change_request (rq_id q) f s"
  have same: "same_bill s ?s j" "methods_ok ?s = methods_ok s" for j using books_same_bill[of ?s s] by simp_all
  show ?thesis
  proof (rule request_changed[OF inv q i(1) change_request_row[of s q f, OF invoices_okD(1)[OF inv] q(1) f(1)] f(1)])
    have "billed D ?s (f q) i = billed D ?s q i" by (simp add: billed_def f)
    then show "if active (f q) then billed D ?s (f q) i else no_external ?s i"
      using same_bill_billed[OF same(1) i(3)] q(2) by (simp add: active_def f)
  qed (use i f same invoices_okD(3)[OF inv] in simp_all)
qed

lemma edited_row:
  assumes "distinct (map rq_id (requests s))" "q \<in> set (requests s)" "rq_id (f q) = rq_id q"
  shows "f q \<in> set (requests (change_request (rq_id q) f s))"
  using assms by (auto simp: change_request_def)

lemma save_details_change:
  assumes "save_details env r d ready s = Inr s'"
  obtains f where "s' = change_request (rq_id r) f s"
    "\<forall>q. rq_id (f q) = rq_id q \<and> rq_order (f q) = rq_order q \<and> rq_state (f q) = rq_state q \<and> rq_amount (f q) = rq_amount q \<and>
          rq_already_paid (f q) = rq_already_paid q"
proof -
  obtain required version where "policy_of s (rq_recipient_organization r) = (required, version)" by (rule prod.exhaust)
  then have "s' = change_request (rq_id r)
      (\<lambda>q. q\<lparr>rq_details := cleaned_details d, rq_policy_version := version, rq_policy_required := required\<rparr>) s"
    using assms by (auto simp: save_details_def and_then_Inr_iff)
  then show ?thesis by (rule that) simp
qed

lemma save_details_invoices:
  assumes inv: "invoices_ok env D s" and q: "q \<in> set (requests s)" "active q" and run: "save_details env q d ready s = Inr s'"
  shows "invoices_ok env D s'" "books s' = books s" "drawn s' = drawn s"
    "\<exists>q'\<in>set (requests s'). rq_id q' = rq_id q \<and> rq_order q' = rq_order q \<and> rq_state q' = rq_state q"
proof -
  obtain f where f: "s' = change_request (rq_id q) f s"
    "\<forall>q. rq_id (f q) = rq_id q \<and> rq_order (f q) = rq_order q \<and> rq_state (f q) = rq_state q \<and> rq_amount (f q) = rq_amount q \<and>
          rq_already_paid (f q) = rq_already_paid q"
    using run by (rule save_details_change)
  show "invoices_ok env D s'" unfolding f(1) by (rule request_edited[OF inv q]) (use f(2) in blast)+
  show "books s' = books s" "drawn s' = drawn s" by (simp_all add: f(1))
  have "f q \<in> set (requests s')" unfolding f(1) by (rule edited_row[of s q f, OF invoices_okD(1)[OF inv] q(1)]) (use f(2) in blast)
  then show "\<exists>q'\<in>set (requests s'). rq_id q' = rq_id q \<and> rq_order q' = rq_order q \<and> rq_state q' = rq_state q"
    using f(2) by blast
qed

text \<open>A transition, when the bill is right in the next state.\<close>

lemma transition_invoices:
  assumes inv: "invoices_ok env D s" and q: "q \<in> set (requests s)" "active q" "rq_order q = Some i"
    and s': "requests s' = requests s" "drawn s \<le> drawn s'" "methods_ok s'" "\<And>j. j \<noteq> i \<Longrightarrow> same_bill s s' j"
    and new: "if st = Invoice_Cancelled then no_external s' i else billed D s' (q\<lparr>rq_state := st\<rparr>) i"
  shows "invoices_ok env D (transition_request (rq_id q) st s')"
proof -
  let ?f = "\<lambda>q. q\<lparr>rq_state := st, rq_version := rq_version q + 1\<rparr>"
  let ?s = "change_request (rq_id q) ?f s'"
  have same: "same_bill s' ?s j" "methods_ok ?s = methods_ok s'" "no_external ?s j = no_external s' j" for j
    using books_same_bill[of ?s s'] by simp_all
  have row: "requests ?s = row_put rq_id (?f q) (requests s)"
    using change_request_row[of s' q ?f] invoices_okD(1)[OF inv] q(1) s'(1) by simp
  have bill: "billed D s' (?f q) i = billed D s' (q\<lparr>rq_state := st\<rparr>) i" by (simp add: billed_def)
  show ?thesis unfolding transition_request_def
  proof (rule request_changed[OF inv q row])
    show "if active (?f q) then billed D ?s (?f q) i else no_external ?s i"
      using new same_bill_billed[OF same(1), of D "?f q" i] bill same(3) by (simp add: active_def split: if_splits)
    show "same_bill s ?s j" if "j \<noteq> i" for j
      by (rule books_bill[OF _ s'(4)[OF that]]) simp
  qed (use q s' same(2) in simp_all)
qed

section \<open>The settlement of an issued invoice\<close>

text \<open>What an operation on the external payments of one order leaves alone.\<close>

definition elsewhere_same :: "string \<Rightarrow> 'm ledger \<Rightarrow> 'm ledger \<Rightarrow> bool" where
  "elsewhere_same i s s' \<longleftrightarrow>
     requests s' = requests s \<and> drawn s \<le> drawn s' \<and> methods_ok s' \<and> cores s' = cores s \<and>
     set (ledger_payments s) \<subseteq> set (ledger_payments s') \<and> (\<forall>j. j \<noteq> i \<longrightarrow> same_bill s s' j) \<and>
     paid_by direct_method s' i = paid_by direct_method s i"

lemma elsewhere_sameD:
  assumes "elsewhere_same i s s'"
  shows "requests s' = requests s" "drawn s \<le> drawn s'" "methods_ok s'" "cores s' = cores s"
    "set (ledger_payments s) \<subseteq> set (ledger_payments s')" "j \<noteq> i \<Longrightarrow> same_bill s s' j"
    "paid_by direct_method s' i = paid_by direct_method s i"
  using assms by (simp_all add: elsewhere_same_def)

lemma elsewhere_same_refl: "methods_ok s \<Longrightarrow> elsewhere_same i s s"
  by (simp add: elsewhere_same_def)

lemma elsewhere_same_trans:
  assumes "elsewhere_same i s t" "elsewhere_same i t u"
  shows "elsewhere_same i s u"
proof -
  note a = elsewhere_sameD[OF assms(1)] and b = elsewhere_sameD[OF assms(2)]
  show ?thesis unfolding elsewhere_same_def
    using a b same_bill_trans[OF a(6) b(6) a(5)] by auto
qed

text \<open>A new payment, and an allocation of an external payment to the order.\<close>

lemma payment_elsewhere:
  assumes "ledger_ok env L X s" "payment_added x s s'" "pm_id x = oe_id env (drawn s)" "methods_ok s"
    "direct_method (pm_method x) \<or> pm_method x = ''external''" "requests s' = requests s" "drawn s \<le> drawn s'"
  shows "elsewhere_same i s s'"
proof -
  note f = payment_fields[OF assms(2)] and new = fresh_payment[OF assms(1,3)]
  have "same_bill s s' j" for j
    using fresh_unallocated(1)[OF assms(1) new] paid_by_payment[OF assms(1,2) new] by (auto simp: same_bill_def f)
  then show ?thesis using assms(4-7) paid_by_payment[OF assms(1,2) new] by (auto simp: elsewhere_same_def methods_ok_def f)
qed

lemma external_elsewhere:
  assumes "ledger_ok env L X s" "allocation_added p i amount s s'" "p \<in> set (ledger_payments s)" "pm_method p = ''external''"
    "methods_ok s" "requests s' = requests s"
  shows "elsewhere_same i s s'"
  using assms(4-6) allocation_same_bill[OF assms(1-3)] paid_by_allocation[OF assms(1-3), of direct_method i]
  by (simp add: elsewhere_same_def allocation_fields[OF assms(2)] direct_method_def methods_ok_def)

lemma books_elsewhere:
  assumes "elsewhere_same i s t" "books u = books t" "drawn u = drawn t" "requests u = requests t"
  shows "elsewhere_same i s u"
  using assms(1,3,4) books_fields[OF assms(2)] books_same_bill(2)[OF assms(2)] books_bill[OF assms(2)] books_sums[OF assms(2)]
  by (simp add: elsewhere_same_def paid_by_def)

lemma settle_by_invoice_steps:
  assumes "settle_by_invoice env p r q op s = Inr s'" "0 < or_total r - sum_allocations s (or_id r)"
  obtains pay s1 s2 where "payment_added pay s s1" "pm_id pay = oe_id env (drawn s)" "pm_entry pay = ''receipt''"
    "pm_reverses pay = None" "pm_amount pay = or_total r - sum_allocations s (or_id r)" "pm_method pay = ''external''"
    "pm_request pay = Some (rq_id q)" "drawn s1 = Suc (drawn s)"
    "allocation_added pay (or_id r) (or_total r - sum_allocations s (or_id r)) s1 s2" "books s' = books s2" "drawn s' = drawn s2"
    "requests s1 = requests s" "requests s2 = requests s" "requests s' = requests s"
proof -
  let ?n = "or_total r - sum_allocations s (or_id r)"
  let ?s = "s\<lparr>payment_seq := payment_seq s + 1, drawn := Suc (drawn s)\<rparr>"
  let ?pay = "\<lparr>pm_id = oe_id env (drawn s), pm_reference = reference ''P'' (oe_now env) (payment_seq s + 1), pm_entry = ''receipt'',
               pm_method = ''external'', pm_amount = ?n, pm_at = oe_now env, pm_reverses = None,
               pm_reversed_reference = None, pm_reason_kind = None, pm_reason = [], pm_source = ''wiRef'',
               pm_external = rq_reference q, pm_request = Some (rq_id q), pm_split = 1\<rparr>"
  obtain s2 where s2: "insert_payment ?pay ?s = Inr s2"
      "s' = log_event p ''payment.recorded'' ''payment'' (oe_id env (drawn s)) [''amount'', ''method'', ''allocations'']
              (allocate env ?pay r ?n op s2)"
    using assms by (auto simp: settle_by_invoice_def draw_id_def Let_def and_then_Inr_iff)
  have "payment_added ?pay s s2" "drawn s2 = Suc (drawn s)" "requests s2 = requests s"
    using insert_payment_Inr[OF s2(1)] by (simp_all add: payment_added_def books_def cores_def)
  then show ?thesis
    using that[of ?pay s2 "allocate env ?pay r ?n op s2"] s2(2) allocate_added[of ?pay r ?n s2 env op] by simp
qed

lemma settle_effect:
  assumes run: "settle_by_invoice env p r q op s = Inr s'" and ok: "ledger_ok env {} {} s" and inj: "inj (oe_id env)"
    and r: "current r s" "or_status r = Finalized" "\<not> is_anonymous r" and m: "methods_ok s" and none: "no_external s (or_id r)"
  shows "ledger_ok env {} {} s'" "elsewhere_same (or_id r) s s'" "sum_allocations s' (or_id r) = or_total r"
    "\<forall>x\<in>set (ledger_payments s'). pm_method x = ''external'' \<and> 0 < allocated_to s' (pm_id x) (or_id r) \<longrightarrow> pm_request x = Some (rq_id q)"
proof -
  let ?n = "or_total r - sum_allocations s (or_id r)"
  have "order_balanced {} s (core r)" by (rule ledger_okD(6)[OF ok current_core[OF r(1)]])
  then have n: "0 \<le> ?n" using r(2) by (simp add: order_balanced_def)
  have "ledger_ok env {} {} s' \<and> elsewhere_same (or_id r) s s' \<and> sum_allocations s' (or_id r) = or_total r \<and>
    (\<forall>x\<in>set (ledger_payments s'). pm_method x = ''external'' \<and> 0 < allocated_to s' (pm_id x) (or_id r) \<longrightarrow> pm_request x = Some (rq_id q))"
  proof (cases "0 < ?n")
    case False
    then have "s' = s" using run by (simp add: settle_by_invoice_def Let_def)
    then show ?thesis using False n ok none elsewhere_same_refl[OF m] by (auto simp: no_external_def)
  next
    case True
    obtain pay s1 s2 where b: "payment_added pay s s1" "pm_id pay = oe_id env (drawn s)" "pm_entry pay = ''receipt''"
      "pm_reverses pay = None" "pm_amount pay = ?n" "pm_method pay = ''external''"
      "pm_request pay = Some (rq_id q)" "drawn s1 = Suc (drawn s)" "allocation_added pay (or_id r) ?n s1 s2"
      "books s' = books s2" "drawn s' = drawn s2" "requests s1 = requests s" "requests s2 = requests s" "requests s' = requests s"
      by (rule settle_by_invoice_steps[OF run True])
    note f = payment_fields[OF b(1)] and g = allocation_fields[OF b(9)]
    have ok1: "ledger_ok env (insert (pm_id pay) {}) {} s1"
      by (rule receipt_added[OF ok b(1) inj b(2)]) (use True b in simp_all)
    have "ledger_ok env ({pm_id pay} - {pm_id pay}) {} s2"
      by (rule place_receipt[OF ok1, of pay "core r"]) (use True b r f current_core[OF r(1)] in simp_all)
    then have "ledger_ok env {} {} s'" using ledger_ok_books[OF b(10)] b(11) by simp
    moreover have "elsewhere_same (or_id r) s s1" by (rule payment_elsewhere[OF ok b(1,2) m]) (use b in simp_all)
    moreover then have "elsewhere_same (or_id r) s1 s2"
      by (intro external_elsewhere[OF ok1 b(9)]) (use b f elsewhere_sameD(3) in auto)
    ultimately have "ledger_ok env {} {} s' \<and> elsewhere_same (or_id r) s s'"
      using books_elsewhere[OF elsewhere_same_trans b(10,11)] b by simp
    moreover have "pm_request x = Some (rq_id q)"
      if x: "x \<in> set (ledger_payments s')" "pm_method x = ''external''" "0 < allocated_to s' (pm_id x) (or_id r)" for x
    proof (cases "x = pay")
      case False
      then have "x \<in> set (ledger_payments s)" using x(1) books_fields(3)[OF b(10)] f g by simp
      moreover have "pm_id x \<noteq> pm_id pay" using fresh_payment[OF ok b(2)] calculation by (metis imageI)
      ultimately show ?thesis using x(2,3) none books_sums(4)[OF b(10)] f g by (auto simp: no_external_def)
    qed (use b(7) in simp)
    ultimately show ?thesis using books_sums(1)[OF b(10)] f g by simp
  qed
  then show "ledger_ok env {} {} s'" "elsewhere_same (or_id r) s s'" "sum_allocations s' (or_id r) = or_total r"
    "\<forall>x\<in>set (ledger_payments s'). pm_method x = ''external'' \<and> 0 < allocated_to s' (pm_id x) (or_id r) \<longrightarrow> pm_request x = Some (rq_id q)"
    by blast+
qed

section \<open>The return of the settlement\<close>

lemma reverse_settlement_steps:
  assumes "reverse_settlement env p r kind external effective op original s = Inr s'"
  obtains x s1 s2 where "allocation_added original (or_id r) (- pm_amount original) s s1" "drawn s1 = drawn s"
    "payment_added x s1 s2" "pm_id x = oe_id env (drawn s)" "pm_entry x = ''reversal''"
    "pm_reverses x = Some (pm_id original)" "pm_amount x = pm_amount original" "pm_method x = pm_method original"
    "pm_reversed_reference x = Some (pm_reference original)" "drawn s1 < drawn s2" "books s' = books s2" "drawn s' = drawn s2"
    "requests s1 = requests s" "requests s2 = requests s" "requests s' = requests s"
proof -
  let ?s = "s\<lparr>payment_seq := payment_seq s + 1, drawn := Suc (drawn s)\<rparr>"
  let ?x = "\<lparr>pm_id = oe_id env (drawn s), pm_reference = reference ''P'' (oe_now env) (payment_seq s + 1), pm_entry = ''reversal'',
             pm_method = pm_method original, pm_amount = pm_amount original, pm_at = effective,
             pm_reverses = Some (pm_id original), pm_reversed_reference = Some (pm_reference original),
             pm_reason_kind = Some ''external_correction'', pm_reason = ''Invoice cancelled in wiRef ('' @ kind @ '')'',
             pm_source = pm_source original, pm_external = external,
             pm_request = pm_request original, pm_split = pm_split original\<rparr>"
  obtain s2 where s2: "insert_payment ?x ?s = Inr s2"
      "s' = log_event p ''payment.reversed'' ''payment'' (oe_id env (drawn s)) [''reversal'', ''allocations'']
              (allocate env original r (- pm_amount original) op s2)"
    using assms by (auto simp: reverse_settlement_def draw_id_def Let_def and_then_Inr_iff)
  let ?t = "allocate env original r (- pm_amount original) op s2"
  let ?s1 = "s\<lparr>allocations := allocations ?t\<rparr>"
  have s2': "s2 = ?s\<lparr>ledger_payments := ledger_payments s @ [?x]\<rparr>" using insert_payment_Inr[OF s2(1)] by simp
  have "allocation_added original (or_id r) (- pm_amount original) s ?s1" "payment_added ?x ?s1 ?t" "drawn s < drawn ?t" "requests ?t = requests s"
    by (simp_all add: s2' allocation_added_def payment_added_def allocate_def draw_id_def Let_def books_def cores_def)
  then show ?thesis using that[of ?s1 ?x ?t] s2(2) by simp
qed

lemma reverse_settlement_effect:
  assumes run: "reverse_settlement env p r kind external effective op original s = Inr s'"
    and ok: "ledger_ok env {} {or_id r} s" and inj: "inj (oe_id env)" and m: "methods_ok s"
    and original: "original \<in> set (ledger_payments s)" "0 < allocated_to s (pm_id original) (or_id r)" "pm_method original = ''external''"
  shows "ledger_ok env {} {or_id r} s'" "elsewhere_same (or_id r) s s'"
    "x \<in> set (ledger_payments s') \<Longrightarrow> allocated_to s' (pm_id x) (or_id r) =
       (if x = original \<or> x \<notin> set (ledger_payments s) then 0 else allocated_to s (pm_id x) (or_id r))"
proof -
  obtain y s1 s2 where b: "allocation_added original (or_id r) (- pm_amount original) s s1" "drawn s1 = drawn s"
    "payment_added y s1 s2" "pm_id y = oe_id env (drawn s)" "pm_entry y = ''reversal''"
    "pm_reverses y = Some (pm_id original)" "pm_amount y = pm_amount original" "pm_method y = pm_method original"
    "pm_reversed_reference y = Some (pm_reference original)" "drawn s1 < drawn s2" "books s' = books s2" "drawn s' = drawn s2"
    "requests s1 = requests s" "requests s2 = requests s" "requests s' = requests s"
    by (rule reverse_settlement_steps[OF run])
  note f = payment_fields[OF b(3)] and g = allocation_fields[OF b(1)] and h = holder_amount[OF ok original(1,2)]
  have ok1: "ledger_ok env {pm_id original} {or_id r} s1" using take_receipt[OF ok b(1) original(1,2)] by simp
  have "ledger_ok env ({pm_id original} - {pm_id original}) {or_id r} s2"
    by (rule reversal_added[OF ok1 b(3) inj b(4) _ _ b(5-9)]) (use b g original h(1) in simp_all)
  then show "ledger_ok env {} {or_id r} s'" using ledger_ok_books[OF b(11)] b(12) by simp
  have e1: "elsewhere_same (or_id r) s s1" by (rule external_elsewhere[OF ok b(1) original(1,3) m b(13)])
  have "elsewhere_same (or_id r) s1 s2"
    by (rule payment_elsewhere[OF ok1 b(3)]) (use b original elsewhere_sameD(3)[OF e1] in simp_all)
  then show "elsewhere_same (or_id r) s s'"
    using books_elsewhere[OF elsewhere_same_trans[OF e1] b(11,12)] b by simp
  show "allocated_to s' (pm_id x) (or_id r) =
       (if x = original \<or> x \<notin> set (ledger_payments s) then 0 else allocated_to s (pm_id x) (or_id r))"
    if x: "x \<in> set (ledger_payments s')"
  proof -
    have x': "x \<in> set (ledger_payments s) \<or> x = y" using x books_fields(3)[OF b(11)] f g by auto
    have y: "pm_id y \<notin> pm_id ` set (ledger_payments s)" by (rule fresh_payment[OF ok b(4)])
    have "pm_id x \<noteq> pm_id original" if "x \<in> set (ledger_payments s)" "x \<noteq> original"
      using key_inj[OF ledger_okD(4)[OF ok] original(1) that(1)] that(2) by auto
    moreover have "x \<notin> set (ledger_payments s) \<Longrightarrow> x = y" "allocated_to s (pm_id y) (or_id r) = 0" "pm_id y \<noteq> pm_id original"
      using x' fresh_unallocated(1)[OF ok y] y original(1) by (auto simp: image_iff)
    ultimately show ?thesis using books_sums(4)[OF b(11)] f g h(4)[of "or_id r"] by auto
  qed
qed

lemma return_loop:
  assumes "run_all (reverse_settlement env p r kind external effective op) ps s = Inr s'" "ledger_ok env {} {or_id r} s"
    "inj (oe_id env)" "methods_ok s" "distinct ps"
    "\<forall>x\<in>set ps. x \<in> set (ledger_payments s) \<and> 0 < allocated_to s (pm_id x) (or_id r) \<and> pm_method x = ''external''"
  shows "ledger_ok env {} {or_id r} s' \<and> elsewhere_same (or_id r) s s' \<and>
    (\<forall>x\<in>set (ledger_payments s'). allocated_to s' (pm_id x) (or_id r) =
       (if x \<in> set ps \<or> x \<notin> set (ledger_payments s) then 0 else allocated_to s (pm_id x) (or_id r)))"
  using assms
proof (induction ps arbitrary: s)
  case Nil
  then show ?case using elsewhere_same_refl by auto
next
  case (Cons q ps)
  obtain s1 where s1: "reverse_settlement env p r kind external effective op q s = Inr s1"
      "run_all (reverse_settlement env p r kind external effective op) ps s1 = Inr s'"
    using Cons.prems(1) by (auto simp: and_then_Inr_iff)
  have q: "q \<in> set (ledger_payments s)" "0 < allocated_to s (pm_id q) (or_id r)" "pm_method q = ''external''"
    using Cons.prems(6) by simp_all
  note e = reverse_settlement_effect[OF s1(1) Cons.prems(2-4) q]
  note d = elsewhere_sameD[OF e(2)]
  have "\<forall>x\<in>set ps. x \<in> set (ledger_payments s1) \<and> 0 < allocated_to s1 (pm_id x) (or_id r) \<and> pm_method x = ''external''"
  proof
    fix x assume x: "x \<in> set ps"
    then have "x \<noteq> q" "x \<in> set (ledger_payments s)" using Cons.prems(5,6) by auto
    then show "x \<in> set (ledger_payments s1) \<and> 0 < allocated_to s1 (pm_id x) (or_id r) \<and> pm_method x = ''external''"
      using e(3)[of x] d(5) Cons.prems(6) x by auto
  qed
  then have ih: "ledger_ok env {} {or_id r} s'" "elsewhere_same (or_id r) s1 s'"
    "\<forall>x\<in>set (ledger_payments s'). allocated_to s' (pm_id x) (or_id r) =
       (if x \<in> set ps \<or> x \<notin> set (ledger_payments s1) then 0 else allocated_to s1 (pm_id x) (or_id r))"
    using Cons.IH[OF s1(2) e(1) Cons.prems(3) d(3)] Cons.prems(5) by simp_all
  have "allocated_to s' (pm_id x) (or_id r) =
       (if x \<in> set (q # ps) \<or> x \<notin> set (ledger_payments s) then 0 else allocated_to s (pm_id x) (or_id r))"
    if x: "x \<in> set (ledger_payments s')" for x
    using ih(3) x e(3)[of x] d(5) by auto
  then show ?case using ih(1) elsewhere_same_trans[OF e(2) ih(2)] by blast
qed

section \<open>Decisions\<close>

lemma request_bill:
  assumes "invoices_ok env D s" "q \<in> set (requests s)" "active q" "rq_order q = Some i"
  shows "billed D s q i" "latest_request s i = Some q"
  using invoices_okD(4)[OF assms(1-3)] assms(4) by auto

lemma billedD:
  assumes "billed D s q i" "ledger_ok env L X s" "current r s" "or_id r = i"
  shows "or_status r = Finalized" "\<not> is_anonymous r" "rq_amount q = or_total r"
    "rq_already_paid q = paid_by direct_method s i \<or> rq_state q = Invoice_Draft \<and> i \<in> D"
    "rq_state q = Invoice_Draft \<or> rq_state q = Invoice_Submitted \<Longrightarrow> no_external s i"
    "\<not> (rq_state q = Invoice_Draft \<or> rq_state q = Invoice_Submitted) \<Longrightarrow> sum_allocations s i = or_total r \<and>
      (\<forall>p\<in>set (ledger_payments s). pm_method p = ''external'' \<and> 0 < allocated_to s (pm_id p) i \<longrightarrow> pm_request p = Some (rq_id q))"
proof -
  obtain c where c: "c \<in> set (cores s)" "co_id c = i" "co_status c = Finalized" "\<not> co_anonymous c" "rq_amount q = co_total c"
      "rq_already_paid q = paid_by direct_method s i \<or> rq_state q = Invoice_Draft \<and> i \<in> D"
      "if rq_state q = Invoice_Draft \<or> rq_state q = Invoice_Submitted then no_external s i
       else sum_allocations s i = co_total c \<and> (\<forall>p\<in>set (ledger_payments s). pm_method p = ''external'' \<and>
         0 < allocated_to s (pm_id p) i \<longrightarrow> pm_request p = Some (rq_id q))"
    using assms(1) unfolding billed_def by blast
  have "core r = c" using key_inj[OF ledger_okD(3)[OF assms(2)] c(1) current_core[OF assms(3)]] c(2) assms(4) by simp
  then have "or_status r = Finalized \<and> \<not> is_anonymous r \<and> or_total r = co_total c" using c(3,4) by (metis core_fields(2-4))
  then show "or_status r = Finalized" "\<not> is_anonymous r" "rq_amount q = or_total r"
    "rq_already_paid q = paid_by direct_method s i \<or> rq_state q = Invoice_Draft \<and> i \<in> D"
    "rq_state q = Invoice_Draft \<or> rq_state q = Invoice_Submitted \<Longrightarrow> no_external s i"
    "\<not> (rq_state q = Invoice_Draft \<or> rq_state q = Invoice_Submitted) \<Longrightarrow> sum_allocations s i = or_total r \<and>
      (\<forall>p\<in>set (ledger_payments s). pm_method p = ''external'' \<and> 0 < allocated_to s (pm_id p) i \<longrightarrow> pm_request p = Some (rq_id q))"
    using c(5-7) by (auto split: if_splits)
qed

text \<open>A transition that leaves the books alone.\<close>

lemma quiet_transition:
  assumes inv: "invoices_ok env {} s" and q: "q \<in> set (requests s)" "active q" "rq_order q = Some i"
    and st: "rq_state q \<in> {Invoice_Draft, Invoice_Submitted} \<and> st \<in> {Invoice_Draft, Invoice_Submitted, Invoice_Cancelled} \<or>
      rq_state q \<in> {Invoice_Issued, Invoice_Cancellation_Requested} \<and> st \<in> {Invoice_Issued, Invoice_Cancellation_Requested}"
  shows "invoices_ok env {} (transition_request (rq_id q) st s)"
proof (rule transition_invoices[OF inv q])
  have "billed {} s q i" by (rule request_bill(1)[OF inv q])
  then show "if st = Invoice_Cancelled then no_external s i else billed {} s (q\<lparr>rq_state := st\<rparr>) i"
    using st by (auto simp: billed_def)
qed (use invoices_okD(3)[OF inv] in simp_all)

lemma sync_row:
  assumes "q \<in> set (requests s)" "invoices_ok env D s"
  shows "\<exists>q'\<in>set (requests (sync_already_paid i s)). rq_id q' = rq_id q \<and> rq_order q' = rq_order q \<and> rq_state q' = rq_state q"
proof (cases "\<exists>x. active_request s i = Some x \<and> rq_state x = Invoice_Draft")
  case False
  then have "sync_already_paid i s = s" by (auto simp: sync_already_paid_def split: option.split)
  then show ?thesis using assms(1) by auto
next
  case True
  then obtain x where x: "active_request s i = Some x" "rq_state x = Invoice_Draft" by blast
  then obtain n where n: "requests (sync_already_paid i s) = row_put rq_id (x\<lparr>rq_already_paid := n\<rparr>) (requests s)"
    by (auto simp: sync_already_paid_def Let_def)
  have same: "q = x" if "rq_id q = rq_id x"
    using key_inj[OF invoices_okD(1)[OF assms(2)] _ assms(1) that] active_requestD[OF x(1)] by simp
  let ?q = "if rq_id q = rq_id x then x\<lparr>rq_already_paid := n\<rparr> else q"
  have "?q \<in> set (requests (sync_already_paid i s))" unfolding n row_put_def using assms(1) by auto
  then show ?thesis by (rule bexI[rotated]) (use same in auto)
qed

lemma decide_active: "decide env p a q r input effective s = Inr d \<Longrightarrow> active q"
  by (cases a)
    (auto simp: decide_def submit_request_def return_request_def forward_request_def cancel_request_def ask_cancellation_def
      confirm_cancellation_def correct_reference_def active_def and_then_Inr_iff)

definition decided :: "'m order_env \<Rightarrow> request_row \<Rightarrow> 'm decision \<Rightarrow> bool" where
  "decided env q d \<longleftrightarrow>
     ledger_ok env {} {} (dc_ledger d) \<and> invoices_ok env {} (transition_request (rq_id q) (dc_state d) (dc_ledger d))"

lemma submit_decided:
  assumes run: "submit_request env q (Some r) s = Inr d" and ok: "ledger_ok env {} {} s" and inv: "invoices_ok env {} s"
    and q: "q \<in> set (requests s)" "rq_order q = Some (or_id r)"
  shows "decided env q d"
proof -
  obtain s1 where a: "rq_state q = Invoice_Draft" "save_details env q (rq_details q) True s = Inr s1"
      "d = \<lparr>dc_state = Invoice_Submitted, dc_events = [(''submitted'', [], [], [])], dc_ledger = sync_already_paid (or_id r) s1\<rparr>"
    using run by (auto simp: submit_request_def and_then_Inr_iff)
  have act: "active q" using a(1) by (simp add: active_def)
  note sv = save_details_invoices[OF inv q(1) act a(2)]
  obtain q1 where q1: "q1 \<in> set (requests s1)" "rq_id q1 = rq_id q" "rq_order q1 = rq_order q" "rq_state q1 = rq_state q"
    using sv(4) by blast
  have inv2: "invoices_ok env {} (sync_already_paid (or_id r) s1)" by (rule sync_invoices[OF invoices_stale[OF sv(1)]]) simp
  obtain q2 where q2: "q2 \<in> set (requests (sync_already_paid (or_id r) s1))" "rq_id q2 = rq_id q" "rq_order q2 = rq_order q"
      "rq_state q2 = rq_state q"
    using sync_row[OF q1(1) sv(1), of "or_id r"] q1 by auto
  have "invoices_ok env {} (transition_request (rq_id q2) Invoice_Submitted (sync_already_paid (or_id r) s1))"
    by (rule quiet_transition[OF inv2 q2(1)]) (use q2 q(2) a(1) in \<open>simp_all add: active_def\<close>)
  moreover have "ledger_ok env {} {} (sync_already_paid (or_id r) s1)"
    using ledger_ok_books[of "sync_already_paid (or_id r) s1" s] sv(2,3) ok by simp
  ultimately show ?thesis using q2(2) a(3) by (simp add: decided_def)
qed

lemma forward_decided:
  assumes run: "forward_request env p q (Some r) input s = Inr d" and ok: "ledger_ok env {} {} s" and inv: "invoices_ok env {} s"
    and q: "q \<in> set (requests s)" "rq_order q = Some (or_id r)" and r: "current r s" and inj: "inj (oe_id env)"
  shows "decided env q d"
proof -
  obtain s1 s2 where a: "rq_state q = Invoice_Submitted" "save_details env q (rq_details q) True s = Inr s1"
      "settle_by_invoice env p r q (ic_key input) s1 = Inr s2" "dc_state d = Invoice_Issued" "dc_ledger d = s2"
    using run by (auto simp: forward_request_def and_then_Inr_iff)
  have act: "active q" using a(1) by (simp add: active_def)
  note sv = save_details_invoices[OF inv q(1) act a(2)]
  obtain q1 where q1: "q1 \<in> set (requests s1)" "rq_id q1 = rq_id q" "rq_order q1 = Some (or_id r)" "rq_state q1 = Invoice_Submitted"
    using sv(4) q(2) a(1) by auto
  have act1: "active q1" using q1(4) by (simp add: active_def)
  have ok1: "ledger_ok env {} {} s1" using ledger_ok_books[OF sv(2)] sv(3) ok by simp
  have r1: "current r s1" using r current_same[of s1 s r] books_fields(1)[OF sv(2)] by simp
  note bill = billedD[OF request_bill(1)[OF sv(1) q1(1) act1 q1(3)] ok1 r1 refl]
  note e = settle_effect[OF a(3) ok1 inj r1 bill(1,2) invoices_okD(3)[OF sv(1)] bill(5)] and d = elsewhere_sameD
  have s2: "ledger_ok env {} {} s2" "elsewhere_same (or_id r) s1 s2" "sum_allocations s2 (or_id r) = or_total r"
      "\<forall>x\<in>set (ledger_payments s2). pm_method x = ''external'' \<and> 0 < allocated_to s2 (pm_id x) (or_id r) \<longrightarrow> pm_request x = Some (rq_id q)"
    using e q1(4) by simp_all
  have "invoices_ok env {} (transition_request (rq_id q1) Invoice_Issued s2)"
  proof (rule transition_invoices[OF sv(1) q1(1) act1 q1(3) d(1-3)[OF s2(2)] d(6)[OF s2(2)]])
    have "core r \<in> set (cores s2)" using current_core[OF r1] d(4)[OF s2(2)] by simp
    then have "billed {} s2 (q1\<lparr>rq_state := Invoice_Issued\<rparr>) (or_id r)" unfolding billed_def
      by (rule bexI[rotated]) (use bill(1-4) s2(3,4) d(7)[OF s2(2)] q1(2,4) in simp)
    then show "if Invoice_Issued = Invoice_Cancelled then no_external s2 (or_id r)
               else billed {} s2 (q1\<lparr>rq_state := Invoice_Issued\<rparr>) (or_id r)" by simp
  qed
  then show ?thesis using s2(1) q1(2) a(4,5) by (simp add: decided_def)
qed

lemma confirm_decided:
  assumes run: "confirm_cancellation env p q (Some r) input effective s = Inr d" and ok: "ledger_ok env {} {} s"
    and inv: "invoices_ok env {} s" and q: "q \<in> set (requests s)" "rq_order q = Some (or_id r)"
    and r: "current r s" and inj: "inj (oe_id env)"
  shows "decided env q d"
proof -
  obtain s1 where a: "rq_state q = Invoice_Cancellation_Requested" "return_settlement env p q (Some r) input effective s = Inr s1"
      "dc_state d = Invoice_Cancelled" "dc_ledger d = s1"
    using run by (auto simp: confirm_cancellation_def and_then_Inr_iff)
  have act: "active q" using a(1) by (simp add: active_def)
  note bill = billedD[OF request_bill(1)[OF inv q(1) act q(2)] ok r refl]
  let ?ps = "request_receipts s (or_id r) (rq_id q)"
  have run1: "run_all (reverse_settlement env p r (ic_reconciliation input) (ic_reference input) effective (ic_key input)) ?ps s = Inr s1"
    using a(2) by (auto simp: return_settlement_def Let_def and_then_Inr_iff split: if_splits)
  have ps: "distinct ?ps" "\<forall>x\<in>set ?ps. x \<in> set (ledger_payments s) \<and> 0 < allocated_to s (pm_id x) (or_id r) \<and> pm_method x = ''external''"
    using active_receiptsD[OF ok, of "or_id r"] by (auto simp: request_receipts_def distinct_map)
  have l: "ledger_ok env {} {or_id r} s1" "elsewhere_same (or_id r) s s1"
      "\<forall>x\<in>set (ledger_payments s1). allocated_to s1 (pm_id x) (or_id r) =
         (if x \<in> set ?ps \<or> x \<notin> set (ledger_payments s) then 0 else allocated_to s (pm_id x) (or_id r))"
    using return_loop[OF run1 ledger_ok_mono[OF ok] inj invoices_okD(3)[OF inv] ps] by auto
  note e = elsewhere_sameD[OF l(2)]
  have none: "no_external s1 (or_id r)"
    unfolding no_external_def
  proof (intro ballI impI)
    fix x assume x: "x \<in> set (ledger_payments s1)" "pm_method x = ''external''"
    have "allocated_to s (pm_id x) (or_id r) = 0" if x': "x \<in> set (ledger_payments s)" "x \<notin> set ?ps"
    proof (rule ccontr)
      assume "allocated_to s (pm_id x) (or_id r) \<noteq> 0"
      then have pos: "0 < allocated_to s (pm_id x) (or_id r)" using allocated_nonneg[OF ok x'(1), of "or_id r"] by simp
      then have "pm_request x = Some (rq_id q)" using bill(6) a(1) x(2) x'(1) by simp
      then show False using x' pos x(2) holder_amount(1)[OF ok x'(1) pos] by (simp add: request_receipts_def active_receipts_def)
    qed
    then show "allocated_to s1 (pm_id x) (or_id r) = 0" using l(3) x(1) by auto
  qed
  have "core r \<in> set (cores s1)" using current_core[OF r] e(4) by simp
  then have "ledger_ok env {} {} s1" by (rule ledger_ok_settled[OF l(1)]) (use bill(2) in simp_all)
  moreover have "invoices_ok env {} (transition_request (rq_id q) Invoice_Cancelled s1)"
    by (rule transition_invoices[OF inv q(1) act q(2) e(1-3,6)]) (use none in simp_all)
  ultimately show ?thesis using a(3,4) by (simp add: decided_def)
qed

lemma decide_effect:
  assumes run: "decide env p a q (Some r) input effective s = Inr d" and ok: "ledger_ok env {} {} s" and inv: "invoices_ok env {} s"
    and q: "q \<in> set (requests s)" "rq_order q = Some (or_id r)" and r: "current r s" and inj: "inj (oe_id env)"
  shows "decided env q d"
proof -
  note act = decide_active[OF run]
  have quiet: "decided env q d"
    if "dc_ledger d = s" "rq_state q \<in> {Invoice_Draft, Invoice_Submitted} \<and> dc_state d \<in> {Invoice_Draft, Invoice_Submitted, Invoice_Cancelled} \<or>
      rq_state q \<in> {Invoice_Issued, Invoice_Cancellation_Requested} \<and> dc_state d \<in> {Invoice_Issued, Invoice_Cancellation_Requested}"
    using quiet_transition[OF inv q(1) act q(2) that(2)] ok that(1) by (simp add: decided_def)
  show ?thesis
  proof (cases a)
    case Submit_Request
    then show ?thesis using submit_decided[OF _ ok inv q] run by (simp add: decide_def)
  next
    case Forward_Request
    then show ?thesis using forward_decided[OF _ ok inv q r inj] run by (simp add: decide_def)
  next
    case Confirm_Cancellation
    then show ?thesis using confirm_decided[OF _ ok inv q r inj] run by (simp add: decide_def)
  next
    case Return_Request
    then show ?thesis using quiet run by (auto simp: decide_def return_request_def)
  next
    case Cancel_Request
    then show ?thesis using quiet run
      by (cases "rq_state q") (auto simp: decide_def cancel_request_def and_then_Inr_iff)
  next
    case Ask_Cancellation
    then show ?thesis using quiet run by (auto simp: decide_def ask_cancellation_def)
  next
    case Correct_Reference
    then show ?thesis using quiet run by (auto simp: decide_def correct_reference_def)
  qed (use run in \<open>simp add: decide_def\<close>)
qed

end
