(* ===== verification/Own_Payment.thy ===== *)
theory Own_Payment
  imports Order_Ledger
begin

text \<open>
  backend/internal/orders/own.go and own_payment.go: what a person can pay of their own orders and jobs, and the
  payment that settles a selection of them in full. A payment entry that spans orders becomes one receipt per
  order. An index of a Go slice that is out of range is a panic, which the settlement loop must never reach; it is
  the value \<open>Inl payment_panic\<close> here.
\<close>

section \<open>What is payable\<close>

text \<open>The value of an amount of two decimals; a negative text has no positive value.\<close>

definition cents :: "string \<Rightarrow> int" where
  "cents v =
     (case decimal_parts v of None \<Rightarrow> 0 | Some (whole, frac) \<Rightarrow> decimal_digits_value whole * 100 + decimal_digits_value frac)"

definition payable_balance :: "order_view \<Rightarrow> int" where
  "payable_balance v =
     (if or_status (ov_order v) \<noteq> Finalized \<or> ov_active_request v \<noteq> None then 0 else cents (ov_outstanding v))"

text \<open>ListOwnPayableOrderIDs and ListOwnRecentOrderIDs: the orders of a person, the latest first.\<close>

definition own_payable_ids :: "'m ledger \<Rightarrow> string \<Rightarrow> string list" where
  "own_payable_ids s person =
     map or_id (filter (\<lambda>r. or_person r = Some person \<and> or_status r = Finalized \<and> active_request s (or_id r) = None \<and>
       0 < or_total r - (\<Sum>a\<leftarrow>filter (\<lambda>a. ad_order a = or_id r) (adjustments s). ad_amount a) - sum_allocations s (or_id r))
       (rev (orders s)))"

definition own_recent_ids :: "'m ledger \<Rightarrow> string \<Rightarrow> nat \<Rightarrow> string list" where
  "own_recent_ids s person n = take n (map or_id (filter (\<lambda>r. or_person r = Some person \<and> committed r) (rev (orders s))))"

record own_order =
  ow_id :: string
  ow_reference :: string
  ow_status :: order_status
  ow_summary :: string
  ow_count :: nat
  ow_net :: string
  ow_outstanding :: string
  ow_settlement :: settlement
  ow_invoiced :: bool
  ow_payable :: bool

definition own_order_view :: "order_view \<Rightarrow> own_order" where
  "own_order_view v =
     (let kept = filter (\<lambda>x. \<not> it_removed x) (ov_items v) in
      \<lparr>ow_id = or_id (ov_order v), ow_reference = or_reference (ov_order v), ow_status = or_status (ov_order v),
       ow_summary = (case kept of [] \<Rightarrow> [] | x # _ \<Rightarrow> it_description x), ow_count = length kept, ow_net = ov_net v,
       ow_outstanding = ov_outstanding v, ow_settlement = ov_settlement v, ow_invoiced = (ov_active_request v \<noteq> None),
       ow_payable = (0 < payable_balance v)\<rparr>)"

fun own_orders :: "'m ledger \<Rightarrow> string list \<Rightarrow> app_error + own_order list" where
  "own_orders s [] = Inr []"
| "own_orders s (i # is) =
     and_then (load_order s i) (\<lambda>v. and_then (own_orders s is) (\<lambda>vs. Inr (own_order_view v # vs)))"

definition own_payable_orders :: "actor \<Rightarrow> 'm ledger \<Rightarrow> app_error + own_order list" where
  "own_payable_orders p s = and_then (require p [orders_read]) (\<lambda>_. own_orders s (own_payable_ids s (act_person p)))"

definition own_recent_orders :: "actor \<Rightarrow> 'm ledger \<Rightarrow> app_error + own_order list" where
  "own_recent_orders p s = and_then (require p [orders_read]) (\<lambda>_. own_orders s (own_recent_ids s (act_person p) 5))"

section \<open>The payment entry\<close>

definition sorted_unique :: "string list \<Rightarrow> string list option" where
  "sorted_unique ids = (let xs = sort ids in if distinct xs then Some xs else None)"

text \<open>The check of the methods; a card reference may be used once.\<close>

fun check_methods :: "payment_input list \<Rightarrow> string list \<Rightarrow> app_error + unit" where
  "check_methods [] seen = Inr ()"
| "check_methods (x # xs) seen =
     (if pi_method x \<noteq> ''cash'' \<and> pi_method x \<noteq> ''card'' then Inl (invalid ''Pay in cash or by card'')
      else if pi_method x = ''card'' then
        (let key = trim_space (pi_source x) @ CHR 0x00 # trim_space (pi_external x) in
         if key \<in> set seen then Inl (invalid ''Each card payment needs its own reference'') else check_methods xs (key # seen))
      else check_methods xs seen)"

definition validate_own_payment :: "own_payment \<Rightarrow> app_error + string list \<times> string list \<times> int" where
  "validate_own_payment input =
     (let count = length (wp_orders input) + length (wp_jobs input) in
      ensure (1 \<le> count \<and> count \<le> 100) (invalid ''Select between one and 100 orders and jobs'') (\<lambda>_.
      ensure (wp_payments input \<noteq> [] \<and> length (wp_payments input) \<le> 10) (invalid ''Enter between one and 10 payments'') (\<lambda>_.
      case (sorted_unique (wp_orders input), sorted_unique (wp_jobs input)) of
        (Some order_ids, Some job_ids) \<Rightarrow>
          and_then (parse_amount (wp_total input) 2 True) (\<lambda>expected.
          and_then (check_methods (wp_payments input) []) (\<lambda>_. Inr (order_ids, job_ids, expected)))
      | _ \<Rightarrow> Inl (invalid ''Each order and job can be selected once''))))"

definition order_not_payable :: app_error where
  "order_not_payable = conflicting ''order_not_payable'' ''The order is not one of your unpaid orders''"

definition job_not_payable :: app_error where
  "job_not_payable = conflicting ''job_not_payable'' ''The job is not one of your priced jobs waiting for an order''"

definition total_changed :: app_error where
  "total_changed = conflicting ''payment_total_changed'' ''Your open balance changed; review it and pay again''"

definition total_mismatch :: app_error where
  "total_mismatch = new_error 422 ''payment_total_mismatch'' ''The payments must add up to exactly what is selected''"

definition payment_panic :: app_error where
  "payment_panic = new_error 500 ''panic'' ''index out of range''"

section \<open>The settlement loop\<close>

text \<open>
  settleInFull: an entry is a payment with what remains of it and its number of parts. The loop over an order
  takes the next entry that has something left, and pays the smaller of the open amount and the rest of the entry.
\<close>

type_synonym entry = "payment_input \<times> int \<times> int"

text \<open>The slices of one order: the payments to record for it and the entries after it; None is the panic.\<close>

function slices :: "int \<Rightarrow> entry list \<Rightarrow> (payment_input list \<times> entry list) option" where
  "slices due es =
     (if due \<le> 0 then Some ([], es)
      else case es of
        [] \<Rightarrow> None
      | (x, rest, parts) # es' \<Rightarrow>
          if rest \<le> 0 then slices due es'
          else let part = min due rest in
               case slices (due - part) ((x, rest - part, parts + 1) # es') of
                 None \<Rightarrow> None
               | Some (ps, r) \<Rightarrow> Some (x\<lparr>pi_amount := money part, pi_split := parts + 1\<rparr> # ps, r))"
  by pat_completeness auto
termination
  by (relation "measure (\<lambda>(due, es). length es + length (filter (\<lambda>(x, rest, parts). 0 < rest) es) + (if 0 < due then 1 else 0))")
    (auto simp: min_def)

declare slices.simps [simp del]

text \<open>The loop with its receipts: stops at the first receipt that is refused.\<close>

fun settle_targets :: "'m order_env \<Rightarrow> actor \<Rightarrow> string \<Rightarrow> (order_row \<times> int) list \<Rightarrow> entry list \<Rightarrow> 'm ledger \<Rightarrow>
    app_error + 'm ledger" where
  "settle_targets env p op [] es s = Inr s"
| "settle_targets env p op ((r, due) # ts) es s =
     (case slices due es of
        None \<Rightarrow> Inl payment_panic
      | Some (ps, es') \<Rightarrow> and_then (run_all (receipt env p r op) ps s) (settle_targets env p op ts es'))"

fun payment_entries :: "payment_input list \<Rightarrow> app_error + entry list" where
  "payment_entries [] = Inr []"
| "payment_entries (x # xs) =
     and_then (parse_amount (pi_amount x) 2 True) (\<lambda>amount.
     and_then (payment_entries xs) (\<lambda>es. Inr ((x, amount, 0) # es)))"

definition settle_in_full :: "'m order_env \<Rightarrow> actor \<Rightarrow> (order_row \<times> int) list \<Rightarrow> own_payment \<Rightarrow> 'm ledger \<Rightarrow>
    app_error + 'm ledger" where
  "settle_in_full env p targets input s =
     and_then (payment_entries (wp_payments input)) (\<lambda>es.
     ensure (sum_list (map (\<lambda>(x, rest, parts). rest) es) = sum_list (map snd targets)) total_mismatch (\<lambda>_.
       settle_targets env p (wp_key input) targets es s))"

section \<open>Paying\<close>

text \<open>The selected orders, each of the principal and with something to pay, and what is due.\<close>

fun own_targets :: "actor \<Rightarrow> 'm ledger \<Rightarrow> string list \<Rightarrow> app_error + (order_row \<times> int) list" where
  "own_targets p s [] = Inr []"
| "own_targets p s (i # is) =
     (case row_at or_id i (orders s) of
        None \<Rightarrow> Inl order_not_payable
      | Some r \<Rightarrow>
          ensure (or_person r = Some (act_person p)) order_not_payable (\<lambda>_.
          and_then (load_order s i) (\<lambda>v.
          ensure (0 < payable_balance v) order_not_payable (\<lambda>_.
          and_then (own_targets p s is) (\<lambda>ts. Inr ((r, payable_balance v) # ts))))))"

definition job_input :: "string \<times> int \<Rightarrow> item_input" where
  "job_input job = \<lparr>ii_kind = ''machine_job'', ii_description = [], ii_quantity = [], ii_unit = [], ii_unit_price = [],
     ii_job = fst job, ii_material = [], ii_job_version = snd job, ii_version = 0\<rparr>"

text \<open>LockOwnPayableJobs: the priced jobs of the person without a claim, in ascending order.\<close>

definition own_jobs :: "'m order_env \<Rightarrow> actor \<Rightarrow> string list \<Rightarrow> 'm ledger \<Rightarrow> (string \<times> int) list" where
  "own_jobs env p ids s =
     sort_key fst (filter (\<lambda>(j, v). map_of (claims s) j = None) (payable_jobs env (logbook s) ids (act_person p)))"

definition order_own_jobs :: "'m order_env \<Rightarrow> actor \<Rightarrow> string list \<Rightarrow> 'm ledger \<Rightarrow> app_error + order_row \<times> 'm ledger" where
  "order_own_jobs env p ids s =
     (let jobs = own_jobs env p ids s in
      ensure (length jobs = length ids) job_not_payable (\<lambda>_.
      and_then (create_order env p (Some (''person'', act_person p)) ''immediate'' None s) (\<lambda>(r, s1).
      and_then (run_all (insert_item env p r) (map job_input jobs) s1) (\<lambda>s2. finalize env p r s2))))"

definition run_own_payment :: "'m order_env \<Rightarrow> actor \<Rightarrow> own_payment \<Rightarrow> string list \<Rightarrow> string list \<Rightarrow> int \<Rightarrow> 'm ledger \<Rightarrow>
    app_error + string option \<times> 'm ledger" where
  "run_own_payment env p input order_ids job_ids expected s =
     and_then (own_targets p s order_ids) (\<lambda>own.
     and_then (if job_ids = [] then Inr (None, s)
               else and_then (order_own_jobs env p job_ids s) (\<lambda>(r, s1). Inr (Some r, s1))) (\<lambda>(made, s1).
     let targets = own @ (case made of None \<Rightarrow> [] | Some r \<Rightarrow> [(r, or_total r)]) in
     ensure (sum_list (map snd targets) = expected) total_changed (\<lambda>_.
     and_then (settle_in_full env p targets input s1) (\<lambda>s2. Inr (map_option or_id made, s2)))))"

record own_payment_order =
  po_order :: string
  po_reference :: string
  po_amount :: string

record own_payment_result =
  pr_total :: string
  pr_created :: "string option"
  pr_orders :: "own_payment_order list"

text \<open>ownPaymentResult: what the operation allocated, by order in the order of the references.\<close>

definition operation_orders :: "'m ledger \<Rightarrow> string \<Rightarrow> (string \<times> string) list" where
  "operation_orders s op =
     sort_key snd (remdups (map (\<lambda>a. (al_order a, al_order_reference a)) (filter (\<lambda>a. al_operation a = op) (allocations s))))"

definition operation_amount :: "'m ledger \<Rightarrow> string \<Rightarrow> string \<times> string \<Rightarrow> int" where
  "operation_amount s op k =
     (\<Sum>a\<leftarrow>filter (\<lambda>a. al_operation a = op \<and> (al_order a, al_order_reference a) = k) (allocations s). al_amount a)"

definition own_payment_result_of :: "'m ledger \<Rightarrow> string \<Rightarrow> string option \<Rightarrow> own_payment_result" where
  "own_payment_result_of s op made =
     (let ks = operation_orders s op in
      \<lparr>pr_total = money (sum_list (map (operation_amount s op) ks)), pr_created = made,
       pr_orders = map (\<lambda>k. \<lparr>po_order = fst k, po_reference = snd k, po_amount = money (operation_amount s op k)\<rparr>) ks\<rparr>)"

text \<open>finishOperation of an own payment: it has no order unless one was made of jobs.\<close>

definition finish_own :: "actor \<Rightarrow> string \<Rightarrow> string \<Rightarrow> string option \<Rightarrow> 'm ledger \<Rightarrow> 'm ledger" where
  "finish_own p key print made s =
     s\<lparr>operations := operations s @ [\<lparr>op_key = key, op_kind = ''payment.own'', op_print = print, op_account = act_account p,
                                     op_order = made, op_request = None\<rparr>]\<rparr>"

definition pay_own :: "'m order_env \<Rightarrow> actor \<Rightarrow> own_payment \<Rightarrow> 'm ledger \<Rightarrow> app_error + 'm ledger \<times> own_payment_result" where
  "pay_own env p input s =
     and_then (require p [orders_read, pay_read, pay_record]) (\<lambda>_.
     and_then (if wp_jobs input = [] then Inr () else require p [orders_write, orders_finalize]) (\<lambda>_.
     and_then (validate_own_payment input) (\<lambda>(order_ids, job_ids, expected).
     let print = print_own env (act_account p) ''payment.own'' input in
     and_then (begin_operation s (wp_key input) ''payment.own'' print) (\<lambda>old.
     case old of
       Some op \<Rightarrow> Inr (s, own_payment_result_of s (wp_key input) (op_order op))
     | None \<Rightarrow>
         and_then (run_own_payment env p input order_ids job_ids expected s) (\<lambda>(made, s1).
         let s2 = finish_own p (wp_key input) print made s1 in
         Inr (s2, own_payment_result_of s2 (wp_key input) made))))))"

end
