(* ===== verification/Order_History.thy ===== *)
theory Order_History
  imports Invoice_Commands Own_Payment
begin

text \<open>
  The histories of the orders: every operation on orders, their items and payments, on invoice requests and on own
  payments, in any order, together with what the log book does in between. The books balance and the requests are
  in step in every reachable state.
\<close>

section \<open>The invariant of a state between operations\<close>

definition order_books :: "'m order_env \<Rightarrow> 'm ledger \<Rightarrow> bool" where
  "order_books env s \<longleftrightarrow> ledger_ok env {} {} s \<and> invoices_ok env {} s"

lemma order_booksD: "order_books env s \<Longrightarrow> ledger_ok env {} {} s" "order_books env s \<Longrightarrow> invoices_ok env {} s"
  by (simp_all add: order_books_def)

lemma order_books_same:
  assumes "order_books env s" "books s' = books s" "drawn s \<le> drawn s'" "requests s' = requests s"
  shows "order_books env s'"
  using assms ledger_ok_books[of s' s] invoices_books[of s' s] by (simp add: order_books_def)

section \<open>Requests\<close>

lemma insert_events_same:
  "books (fold (insert_event env i effective) es s) = books s \<and> requests (fold (insert_event env i effective) es s) = requests s \<and>
   drawn s \<le> drawn (fold (insert_event env i effective) es s)"
proof (induction es arbitrary: s)
  case (Cons e es)
  have "books (insert_event env i effective e s) = books s" "requests (insert_event env i effective e s) = requests s"
      "drawn s \<le> drawn (insert_event env i effective e s)"
    by (cases e, simp add: insert_event_def draw_id_def books_def cores_def)+
  then show ?case using Cons[of "insert_event env i effective e s"] by simp
qed simp

lemma run_request_books:
  assumes run: "run_request env p i input a s = Inr (x, s')" and ok: "order_books env s" and inj: "inj (oe_id env)"
  shows "order_books env s'"
proof -
  define effective where "effective = (if ic_effective input = zero_time then oe_now env else ic_effective input)"
  obtain q where q: "locked_request s i = Inr q" using run by (auto simp: run_request_def and_then_Inr_iff)
  let ?r = "case rq_order q of None \<Rightarrow> None | Some j \<Rightarrow> row_at or_id j (orders s)"
  obtain d where d: "decide env p a q ?r input effective s = Inr d" "s' = carry_out env p q ?r effective d"
    using run q by (auto simp: run_request_def and_then_Inr_iff Let_def effective_def[symmetric])
  have mem: "q \<in> set (requests s)" using q row_atD
    by (fastforce simp: locked_request_def and_then_Inr_iff split: option.splits)
  obtain j where j: "rq_order q = Some j"
    using invoices_okD(4)[OF order_booksD(2)[OF ok] mem decide_active[OF d(1)]] by blast
  obtain r where r: "row_at or_id j (orders s) = Some r"
    using q j by (auto simp: locked_request_def lock_order_def and_then_Inr_iff split: option.splits)
  have r': "?r = Some r" "or_id r = j" "current r s" using j r row_current[OF r] by simp_all
  have dec: "decided env q d"
    by (rule decide_effect[OF _ order_booksD[OF ok] mem _ r'(3) inj]) (use d(1) r' j in simp_all)
  let ?e = "fold (insert_event env (rq_id q) effective) (dc_events d) (dc_ledger d)"
  let ?t = "transition_request (rq_id q) (dc_state d) ?e"
  have t: "books ?t = books (dc_ledger d)" "drawn (dc_ledger d) \<le> drawn ?t"
      "requests ?t = requests (transition_request (rq_id q) (dc_state d) (dc_ledger d))"
    using insert_events_same[of env "rq_id q" effective "dc_events d" "dc_ledger d"]
    by (simp_all add: transition_request_def change_request_def[of _ _ "dc_ledger d"]) (simp add: change_request_def)
  have ok1: "ledger_ok env {} {} ?t" by (rule ledger_ok_books[OF t(1,2)]) (use dec in \<open>simp add: decided_def\<close>)
  have inv1: "invoices_ok env {} ?t"
    by (rule invoices_books[OF _ _ t(3)])
      (use t(1,2) dec in \<open>simp_all add: decided_def transition_request_def\<close>)
  have s': "s' = log_event p (''external_invoice_request.'' @ fst (hd (dc_events d))) ''external_invoice_request'' (rq_id q)
        [''state'', ''events''] (bump_order j (sync_already_paid j ?t))"
    using d(2) r' by (simp add: carry_out_def Let_def)
  have "invoices_ok env {} (sync_already_paid j ?t)" by (rule sync_invoices[OF invoices_stale[OF inv1]]) simp
  then have "order_books env (sync_already_paid j ?t)" using ledger_ok_books[of "sync_already_paid j ?t" ?t] ok1 by (simp add: order_books_def)
  then show ?thesis unfolding s' by (rule order_books_same) simp_all
qed

text \<open>A new request of an order without an active one.\<close>

lemma request_appended:
  assumes inv: "invoices_ok env D s" and s': "requests s' = requests s @ [q]" "books s' = books s" "drawn s' = Suc (drawn s)"
    and inj: "inj (oe_id env)" and q: "rq_id q = oe_id env (drawn s)" "rq_order q = Some i" "active_request s i = None"
    and bill: "billed D s q i"
  shows "invoices_ok env D s'"
proof (rule invoices_okI)
  note same = books_same_bill[OF s'(2)]
  have new: "rq_id q \<notin> rq_id ` set (requests s)" using invoices_okD(2)[OF inv, of "drawn s"] q(1) by simp
  show "distinct (map rq_id (requests s'))" using invoices_okD(1)[OF inv] new by (simp add: s'(1))
  show "oe_id env k \<notin> rq_id ` set (requests s')" if "drawn s' \<le> k" for k
  proof -
    have "oe_id env k \<noteq> rq_id q" using inj that q(1) s'(3) by (metis Suc_n_not_le_n injD)
    then show ?thesis using invoices_okD(2)[OF inv, of k] that s'(3) by (simp add: s'(1))
  qed
  show "methods_ok s'" using invoices_okD(3)[OF inv] same(2) by simp
  have latest: "latest_request s' j = (if j = i then Some q else latest_request s j)" for j
    using q(2) by (auto simp: latest_request_def s'(1))
  show "\<exists>j. rq_order x = Some j \<and> latest_request s' j = Some x \<and> billed D s' x j" if x: "x \<in> set (requests s')" "active x" for x
  proof (cases "x = q")
    case True
    then show ?thesis using latest q(2) same_bill_billed[OF same(1) bill] by auto
  next
    case False
    then have mem: "x \<in> set (requests s)" using x(1) by (simp add: s'(1))
    obtain j where j: "rq_order x = Some j" "latest_request s j = Some x" "billed D s x j"
      using invoices_okD(4)[OF inv mem x(2)] by blast
    have "j \<noteq> i" using q(3) mem x(2) j(1) by (auto simp: active_request_None_iff)
    then show ?thesis using j latest same_bill_billed[OF same(1) j(3)] by auto
  qed
  show "no_external s' j" if "active_request s' j = None" for j
  proof -
    have "active_request s j = None" using that by (auto simp: active_request_None_iff s'(1))
    then show ?thesis using invoices_okD(5)[OF inv] same(3) by simp
  qed
qed

lemma insert_request_books:
  assumes run: "insert_request env p r details s = Inr (i, s')" and ok: "order_books env s" and inj: "inj (oe_id env)"
    and r: "current r s" "or_status r = Finalized" "\<not> is_anonymous r" and none: "active_request s (or_id r) = None"
  shows "order_books env s'"
proof -
  let ?i = "oe_id env (drawn s)"
  let ?q = "new_request env r ?i s"
  let ?s = "s\<lparr>drawn := Suc (drawn s), requests := requests s @ [?q], request_seq := request_seq s + 1\<rparr>"
  obtain d s3 where a: "save_details env ?q d False ?s = Inr s3"
      "s' = log_event p ''external_invoice_request.created'' ''external_invoice_request'' ?i [''details'']
              (bump_order (or_id r) (sync_already_paid (or_id r) s3))"
    using run by (simp add: insert_request_def draw_id_def Let_def and_then_Inr_iff) blast
  have b: "books ?s = books s" by (simp add: books_def cores_def)
  have "active ?q" by (simp add: active_def new_request_def)
  have bill: "billed {or_id r} s ?q (or_id r)"
    unfolding billed_def
    by (rule bexI[OF _ current_core[OF r(1)]])
      (use r invoices_okD(5)[OF order_booksD(2)[OF ok] none] in \<open>simp add: new_request_def\<close>)
  have inv: "invoices_ok env {or_id r} ?s"
    by (rule request_appended[OF invoices_stale[OF order_booksD(2)[OF ok]] _ b _ inj _ _ none bill])
      (simp_all add: new_request_def)
  note sv = save_details_invoices[OF inv _ \<open>active ?q\<close> a(1)]
  have "invoices_ok env {} (sync_already_paid (or_id r) s3)" by (rule sync_invoices) (use sv(1) in simp)
  moreover have "ledger_ok env {} {} (sync_already_paid (or_id r) s3)"
    using ledger_ok_books[of "sync_already_paid (or_id r) s3" s] sv(2,3) b order_booksD(1)[OF ok] by simp
  ultimately have "order_books env (sync_already_paid (or_id r) s3)" by (simp add: order_books_def)
  then show ?thesis unfolding a(2) by (rule order_books_same) simp_all
qed

lemma once_request_books:
  assumes run: "once_request key kind print p f s = Inr (s', v)" and ok: "order_books env s"
    and f: "\<And>x s1. f s = Inr (x, s1) \<Longrightarrow> order_books env s1"
  shows "order_books env s'"
proof -
  have "s' = s \<or> (\<exists>x s1. f s = Inr (x, s1) \<and> books s' = books s1 \<and> drawn s' = drawn s1 \<and> requests s' = requests s1)"
    using run by (auto simp: once_request_def and_then_Inr_iff finish_request_def books_def cores_def split: option.splits)
  then show ?thesis using ok f order_books_same by fastforce
qed

lemma create_request_books:
  assumes run: "create_request env p j input s = Inr (s', v)" and ok: "order_books env s" and inj: "inj (oe_id env)"
  shows "order_books env s'"
proof -
  have "once_request (ci_key input) ''request.create'' (print_create env (act_account p) ''request.create'' j input) p
      (run_create env p j input) s = Inr (s', v)"
    using run by (simp add: create_request_def and_then_Inr_iff)
  then show ?thesis
  proof (rule once_request_books[OF _ ok])
    fix x s1 assume "run_create env p j input s = Inr (x, s1)"
    then obtain r i where a: "lock_order s j = Inr r" "or_status r = Finalized" "\<not> is_anonymous r" "active_request s j = None"
        "insert_request env p r (ci_details input) s = Inr (i, s1)"
      by (auto simp: run_create_def and_then_Inr_iff split: option.splits)
    have "current r s" "or_id r = j" using lock_orderD[OF a(1)] by simp_all
    then show "order_books env s1" using insert_request_books[OF a(5) ok inj _ a(2,3)] a(4) by simp
  qed
qed

lemma request_command_books:
  assumes run: "request_command env p i input a s = Inr (s', v)" and ok: "order_books env s" and inj: "inj (oe_id env)"
  shows "order_books env s'"
proof -
  obtain key kind print input' where "once_request key kind print p (run_request env p i input' a) s = Inr (s', v)"
    using run by (auto simp: request_command_def and_then_Inr_iff Let_def)
  then show ?thesis by (rule once_request_books[OF _ ok]) (use run_request_books[OF _ ok inj] in blast)
qed

lemma update_request_books:
  assumes run: "update_request env p i expected details s = Inr (s', v)" and ok: "order_books env s"
  shows "order_books env s'"
proof -
  obtain q s1 where a: "locked_request s i = Inr q" "rq_state q = Invoice_Draft \<or> rq_state q = Invoice_Submitted"
      "save_details env q details False s = Inr s1"
      "s' = log_event p ''external_invoice_request.updated'' ''external_invoice_request'' i [''details''] (transition_request i (rq_state q) s1)"
  proof -
    from run obtain q s1 where q: "locked_request s i = Inr q" "save_details env q details False s = Inr s1"
        "(case rq_state q of Invoice_Draft \<Rightarrow> require p [requests_manage] | Invoice_Submitted \<Rightarrow> require p [requests_approve]
          | _ \<Rightarrow> Inl (conflicting ''request_frozen''
                   ''Recipient details can only change while the request is a draft or awaiting approval'')) = Inr ()"
        "s' = log_event p ''external_invoice_request.updated'' ''external_invoice_request'' i [''details''] (transition_request i (rq_state q) s1)"
      unfolding update_request_def and_then_Inr_iff ensure_Inr_iff Let_def by auto
    then have "rq_state q = Invoice_Draft \<or> rq_state q = Invoice_Submitted" by (cases "rq_state q") auto
    then show ?thesis using that q by blast
  qed
  have mem: "q \<in> set (requests s)" "rq_id q = i"
    using a(1) row_atD by (fastforce simp: locked_request_def and_then_Inr_iff split: option.splits)+
  have act: "active q" using a(2) by (auto simp: active_def)
  note sv = save_details_invoices[OF order_booksD(2)[OF ok] mem(1) act a(3)]
  obtain q1 where q1: "q1 \<in> set (requests s1)" "rq_id q1 = i" "rq_order q1 = rq_order q" "rq_state q1 = rq_state q"
    using sv(4) mem(2) by blast
  have act1: "active q1" using act q1(4) by (simp add: active_def)
  obtain j where j: "rq_order q1 = Some j" using invoices_okD(4)[OF sv(1) q1(1) act1] by blast
  have "invoices_ok env {} (transition_request (rq_id q1) (rq_state q) s1)"
    by (rule quiet_transition[OF sv(1) q1(1) act1 j]) (use a(2) q1(4) in auto)
  moreover have "ledger_ok env {} {} (transition_request (rq_id q1) (rq_state q) s1)"
    using ledger_ok_books[of "transition_request (rq_id q1) (rq_state q) s1" s] sv(2,3) order_booksD(1)[OF ok]
    by (simp add: transition_request_def)
  ultimately have "order_books env (transition_request i (rq_state q) s1)" using q1(2) by (simp add: order_books_def)
  then show ?thesis unfolding a(4) by (rule order_books_same) simp_all
qed

lemma update_requirements_books:
  assumes run: "update_requirements env p g required expected s = Inr (s', v)" and ok: "order_books env s"
  shows "order_books env s'"
proof -
  have "books s' = books s \<and> drawn s' = drawn s \<and> requests s' = requests s"
    using run by (auto simp: update_requirements_def and_then_Inr_iff Let_def books_def cores_def log_event_def)
  then show ?thesis using order_books_same[OF ok] by simp
qed

section \<open>Operations on orders\<close>

text \<open>An anonymous order between operations is paid, so it takes no receipt.\<close>

lemma receipt_named:
  assumes "receipt env p r op input s = Inr s'" "ledger_ok env L {} s" "current r s"
  shows "\<not> is_anonymous r"
proof
  assume anon: "is_anonymous r"
  obtain amount where a: "or_status r = Finalized" "0 < amount" "sum_allocations s (or_id r) + amount \<le> or_total r"
    using assms(1) by (rule receiptD)
  show False using ledger_okD(6)[OF assms(2) current_core[OF assms(3)]] a anon by (simp add: order_balanced_def)
qed

lemma receipt_books:
  assumes run: "receipt env p r op input s = Inr s'" and ok: "order_books env s" and inj: "inj (oe_id env)" and r: "current r s"
  shows "order_books env s' \<and> cores s' = cores s"
  using receipt_keeps[OF order_booksD(1)[OF ok] inj r _ run] receipt_named[OF run order_booksD(1)[OF ok] r]
    receipt_invoices[OF order_booksD(2,1)[OF ok] inj run] by (simp add: order_books_def)

lemma run_command_books:
  assumes run: "run_command env p i input a s = Inr (j, s')" and ok: "order_books env s" and inj: "inj (oe_id env)"
  shows "order_books env s'"
proof (cases "a = Replace_Order")
  case True
  have "\<exists>r r'. lock_pair s i (oc_replacement input) = Inr (r, Some r') \<and> replace_order env p input r r' s = Inr (j, s')"
    using run True by (auto simp: run_command_def and_then_Inr_iff split: option.splits)
  then obtain r r' where rr: "lock_pair s i (oc_replacement input) = Inr (r, Some r')" "replace_order env p input r r' s = Inr (j, s')"
    by blast
  have l: "oc_replacement input \<noteq> i" "lock_order s i = Inr r" "lock_order s (oc_replacement input) = Inr r'"
    using rr(1) by (auto simp: lock_pair_def and_then_Inr_iff split: if_splits)
  have c: "current r s" "current r' s" "or_id r' \<noteq> or_id r" using lock_orderD[OF l(2)] lock_orderD[OF l(3)] l(1) by auto
  show ?thesis
    using replace_order_keeps[OF rr(2) order_booksD(1)[OF ok] inj c]
      replace_order_invoices[OF rr(2) order_booksD(1)[OF ok] inj c order_booksD(2)[OF ok]] by (simp add: order_books_def)
next
  case False
  then obtain r where r: "lock_order s i = Inr r"
      "(case a of Cancel_Order \<Rightarrow> cancel_order p r s | Finalize_Order \<Rightarrow> finalize_and_pay env p input r s
        | Checkout_Order \<Rightarrow> finalize_and_pay env p input r s | Reverse_Order \<Rightarrow> reverse_command env p input r s
        | Prepare_Replacement \<Rightarrow> prepare_replacement env p r s | _ \<Rightarrow> Inl (invalid ''Unsupported order action'')) = Inr (j, s')"
    using run by (auto simp: run_command_def and_then_Inr_iff)
  have c: "current r s" using lock_orderD[OF r(1)] by simp
  note l = order_booksD(1)[OF ok] and v = order_booksD(2)[OF ok]
  have "ledger_ok env {} {} s' \<and> invoices_ok env {} s'"
  proof (cases a)
    case Cancel_Order
    then show ?thesis using r(2) cancel_order_keeps[OF _ l c] cancel_order_invoices[OF _ l c v] by simp
  next
    case Finalize_Order
    then show ?thesis using r(2) finalize_and_pay_keeps[OF _ l inj c] finalize_and_pay_invoices[OF _ l v inj c] by simp
  next
    case Checkout_Order
    then show ?thesis using r(2) finalize_and_pay_keeps[OF _ l inj c] finalize_and_pay_invoices[OF _ l v inj c] by simp
  next
    case Reverse_Order
    then show ?thesis using r(2) reverse_command_keeps[OF _ l inj c] reverse_command_invoices[OF _ l v inj] by simp
  next
    case Prepare_Replacement
    then show ?thesis using r(2) prepare_replacement_keeps[OF _ l inj] prepare_replacement_invoices[OF _ v] by simp
  qed (use r(2) False in simp_all)
  then show ?thesis by (simp add: order_books_def)
qed

lemma once_books:
  assumes run: "once key kind print p again f s = Inr (s', v)" and ok: "order_books env s"
    and f: "\<And>i s1. f s = Inr (i, s1) \<Longrightarrow> order_books env s1"
  shows "order_books env s'"
proof -
  have "s' = s \<or> (\<exists>i s1. f s = Inr (i, s1) \<and> s' = finish_operation p key kind print i s1)"
    using run by (auto simp: once_def and_then_Inr_iff Let_def split: option.splits)
  moreover have "order_books env (finish_operation p key kind print i s1)" if "f s = Inr (i, s1)" for i s1
    using f[OF that] order_books_same[of env s1] by (simp add: finish_operation_def books_def cores_def)
  ultimately show ?thesis using ok by blast
qed

lemma order_command_books:
  assumes run: "order_command env p i input a s = Inr (s', v)" and ok: "order_books env s" and inj: "inj (oe_id env)"
  shows "order_books env s'"
proof -
  obtain key kind print again where "once key kind print p again (run_command env p i input a) s = Inr (s', v)"
    using run by (auto simp: order_command_def and_then_Inr_iff Let_def)
  then show ?thesis by (rule once_books[OF _ ok]) (use run_command_books[OF _ ok inj] in blast)
qed

lemma record_payment_books:
  assumes run: "record_order_payment env p i input s = Inr (s', v)" and ok: "order_books env s" and inj: "inj (oe_id env)"
  shows "order_books env s'"
proof -
  let ?f = "\<lambda>s. and_then (lock_order s i) (\<lambda>r. and_then (check_version r (rp_version input)) (\<lambda>_.
            and_then (receipt env p r (rp_key input) (rp_payment input) s) (\<lambda>s1. Inr (i, s1))))"
  have "once (rp_key input) ''payment.record'' (print_payment env (act_account p) ''payment.record'' i input) p
      (expired ''Operation source is unavailable'') ?f s = Inr (s', v)"
    using run by (simp add: record_order_payment_def and_then_Inr_iff)
  then show ?thesis
  proof (rule once_books[OF _ ok])
    fix j s1 assume "?f s = Inr (j, s1)"
    then obtain r where "lock_order s i = Inr r" "receipt env p r (rp_key input) (rp_payment input) s = Inr s1"
      by (auto simp: and_then_Inr_iff)
    then show "order_books env s1" using receipt_books[OF _ ok inj] lock_orderD by blast
  qed
qed

lemma reverse_payment_books:
  assumes run: "reverse_order_payment env p i input s = Inr (s', v)" and ok: "order_books env s" and inj: "inj (oe_id env)"
  shows "order_books env s'"
proof -
  let ?f = "\<lambda>s. case allocated_order s i of None \<Rightarrow> Inl (conflicting ''payment_already_reversed'' ''No current allocation exists'')
      | Some j \<Rightarrow> and_then (lock_order s j) (\<lambda>r. and_then (check_version r (rv_version input)) (\<lambda>_.
          and_then (reverse_receipt env p r (rv_key input) (rv_reversal input) s) (\<lambda>s1.
          and_then (case rv_replacement input of None \<Rightarrow> Inr s1 | Some q \<Rightarrow> receipt env p r (rv_key input) q s1) (\<lambda>s2.
          and_then (check_anonymous r s2) (\<lambda>_. Inr (or_id r, s2))))))"
  have "once (rv_key input) ''payment.reverse'' (print_reversal env (act_account p) ''payment.reverse'' i input) p
      (\<lambda>op. Inr (op_order op)) ?f s = Inr (s', v)"
    using run by (simp add: reverse_order_payment_def and_then_Inr_iff)
  then show ?thesis
  proof (rule once_books[OF _ ok])
    fix k s2 assume "?f s = Inr (k, s2)"
    then obtain j r s1 u where a: "lock_order s j = Inr r" "reverse_receipt env p r (rv_key input) (rv_reversal input) s = Inr s1"
        "(case rv_replacement input of None \<Rightarrow> Inr s1 | Some q \<Rightarrow> receipt env p r (rv_key input) q s1) = Inr s2"
        "check_anonymous r s2 = Inr u"
      by (auto simp: and_then_Inr_iff split: option.splits)
    have r: "current r s" using lock_orderD[OF a(1)] by simp
    have s1: "ledger_ok env {} {or_id r} s1" "cores s1 = cores s"
      using reverse_receipt_keeps[OF order_booksD(1)[OF ok] inj a(2)] by simp_all
    have inv1: "invoices_ok env {} s1" by (rule reverse_receipt_invoices[OF order_booksD(2,1)[OF ok] a(2)])
    have r1: "current r s1" using r current_same[OF s1(2)] by simp
    have "ledger_ok env {} {or_id r} s2 \<and> cores s2 = cores s1 \<and> invoices_ok env {} s2"
    proof (cases "rv_replacement input")
      case (Some q)
      then have q: "receipt env p r (rv_key input) q s1 = Inr s2" using a(3) by simp
      show ?thesis using receipt_keeps[OF s1(1) inj r1 _ q] receipt_invoices[OF inv1 s1(1) inj q] by simp
    qed (use a(3) s1 inv1 in simp)
    then have s2: "ledger_ok env {} {or_id r} s2" "current r s2" "invoices_ok env {} s2"
      using current_same[of s2 s1 r] r1 by simp_all
    then show "order_books env s2" using checked_order_settles[OF s2(1,2) a(4)] by (simp add: order_books_def)
  qed
qed

section \<open>Own payments\<close>

lemma settle_targets_books:
  assumes "settle_targets env p op ts es s = Inr s'" "order_books env s" "inj (oe_id env)" "\<forall>(r, due)\<in>set ts. current r s"
  shows "order_books env s'"
  using assms
proof (induction ts arbitrary: es s)
  case (Cons t ts)
  obtain r due where t: "t = (r, due)" by (cases t)
  obtain ps es' s1 where a: "slices due es = Some (ps, es')" "run_all (receipt env p r op) ps s = Inr s1"
      "settle_targets env p op ts es' s1 = Inr s'"
    using Cons.prems(1) t by (auto simp: and_then_Inr_iff split: option.splits)
  have "order_books env s1 \<and> cores s1 = cores s"
  proof (rule run_all_keeps[OF a(2)])
    fix x u u' assume u: "receipt env p r op x u = Inr u'" "order_books env u \<and> cores u = cores s"
    have "current r u" using Cons.prems(4) t current_same[of u s r] u(2) by simp
    then show "order_books env u' \<and> cores u' = cores s" using receipt_books[OF u(1) _ Cons.prems(3)] u(2) by simp
  qed (use Cons.prems(2) in simp)
  then show ?case
    using Cons.IH[OF a(3) _ Cons.prems(3)] Cons.prems(4) current_same[of s1 s] by simp
qed simp

lemma own_targets_current: "own_targets p s is = Inr ts \<Longrightarrow> \<forall>(r, due)\<in>set ts. current r s"
proof (induction "is" arbitrary: ts)
  case (Cons i "is")
  then show ?case using row_current by (fastforce simp: and_then_Inr_iff split: option.splits)
qed simp

lemma order_own_jobs_books:
  assumes run: "order_own_jobs env p ids s = Inr (r', s')" and ok: "order_books env s" and inj: "inj (oe_id env)"
  shows "order_books env s'" "current r' s'" "current r s \<Longrightarrow> current r s'"
proof -
  obtain r s1 s2 where a: "create_order env p (Some (''person'', act_person p)) ''immediate'' None s = Inr (r, s1)"
      "run_all (insert_item env p r) (map job_input (own_jobs env p ids s)) s1 = Inr s2" "finalize env p r s2 = Inr (r', s')"
    using run by (auto simp: order_own_jobs_def and_then_Inr_iff Let_def)
  note c = create_order_keeps[OF a(1) order_booksD(1)[OF ok] inj]
  have one: "cores t' = cores t" if "insert_item env p r x t = Inr t'" for x t t'
  proof (rule insert_item_steps[OF that])
    fix v t1 assume v: "store_item env r (oe_id env (drawn t)) (ii_kind x) v (t\<lparr>drawn := Suc (drawn t)\<rparr>) = Inr t1"
      "t' = log_event p ''order.item_added'' ''order'' (or_id r) [''items''] (bump_order (or_id r) t1)"
    have "cores t1 = cores t" by (rule store_item_books[OF v(1)]) (simp add: books_def cores_def)
    then show ?thesis using v(2) books_fields(1)[of t' t1] by simp
  qed
  have s2: "ledger_ok env {} {} s2 \<and> current r s2 \<and> invoices_ok env {} s2 \<and> cores s2 = cores s1"
  proof (rule run_all_keeps[OF a(2)])
    show "ledger_ok env {} {} s1 \<and> current r s1 \<and> invoices_ok env {} s1 \<and> cores s1 = cores s1"
      using c create_order_invoices[OF a(1) order_booksD(2)[OF ok]] by simp
    fix x t t' assume t: "insert_item env p r x t = Inr t'"
      "ledger_ok env {} {} t \<and> current r t \<and> invoices_ok env {} t \<and> cores t = cores s1"
    show "ledger_ok env {} {} t' \<and> current r t' \<and> invoices_ok env {} t' \<and> cores t' = cores s1"
      using insert_item_keeps[OF t(1) conjunct1[OF t(2)] inj] insert_item_invoices[OF t(1)] one[OF t(1)] t(2) c by simp
  qed
  note e = finalize_effect[OF a(3) conjunct1[OF s2]]
  have r2: "current r s2" using s2 by simp
  have named: "\<not> is_anonymous r" using a(1)
    by (auto simp: create_order_def validate_customer_def draw_id_def Let_def is_anonymous_def and_then_Inr_iff split: option.splits)
  have core': "core r' = (core r)\<lparr>co_status := Finalized, co_total := item_total s2 (or_id r)\<rparr>" by (rule e(2)[OF r2])
  then have id: "or_id r' = or_id r" "\<not> is_anonymous r'" using named by (simp_all add: core_def)
  have cur: "current r' s'" by (rule e(3)[OF r2])
  have "ledger_ok env {} {or_id r} s'" by (rule finalize_keeps[OF a(3) conjunct1[OF s2] r2])
  then have "ledger_ok env {} {} s'" by (rule ledger_ok_settled[OF _ current_core[OF cur]]) (use id in simp_all)
  moreover have "invoices_ok env {} s'" by (rule finalize_invoices[OF a(3) conjunct1[OF s2] r2]) (use s2 in simp)
  ultimately show "order_books env s'" by (simp add: order_books_def)
  show "current r' s'" by (rule cur)
  show "current r0 s'" if r0: "current r0 s" for r0
  proof -
    have new: "or_id r \<noteq> or_id r0"
    proof
      assume "or_id r = or_id r0"
      moreover have "or_id r = oe_id env (drawn s)" using a(1)
        by (auto simp: create_order_def draw_id_def Let_def and_then_Inr_iff)
      ultimately show False
        using fresh_id(1)[OF ledger_okD(1)[OF order_booksD(1)[OF ok]], of "drawn s"] current_core[OF r0]
        by (metis core_fields(1) imageI order_refl)
    qed
    have "core r0 \<in> set (cores s2)"
    proof -
      have "set (orders s) \<subseteq> set (orders s1)"
        using a(1) by (auto simp: create_order_def draw_id_def Let_def and_then_Inr_iff log_event_def)
      then show ?thesis using s2 r0 by (auto simp: current_def cores_def)
    qed
    then show ?thesis using e(1)[OF r2] new by (force simp: current_def order_changed_def books_def)
  qed
qed

lemma run_own_payment_books:
  assumes run: "run_own_payment env p input os js n s = Inr (x, s')" and ok: "order_books env s" and inj: "inj (oe_id env)"
  shows "order_books env s'"
proof -
  obtain own made s1 where a: "own_targets p s os = Inr own"
      "(if js = [] then Inr (None, s) else and_then (order_own_jobs env p js s) (\<lambda>(r, s1). Inr (Some r, s1))) = Inr (made, s1)"
      "settle_in_full env p (own @ (case made of None \<Rightarrow> [] | Some r \<Rightarrow> [(r, or_total r)])) input s1 = Inr s'"
    using run by (auto simp: run_own_payment_def and_then_Inr_iff Let_def)
  have "order_books env s1 \<and> (\<forall>(r, due)\<in>set (own @ (case made of None \<Rightarrow> [] | Some r \<Rightarrow> [(r, or_total r)])). current r s1)"
  proof (cases "js = []")
    case True
    then show ?thesis using a(2) ok own_targets_current[OF a(1)] by simp
  next
    case False
    then obtain r where r: "order_own_jobs env p js s = Inr (r, s1)" "made = Some r"
      using a(2) by (auto simp: and_then_Inr_iff)
    note b = order_own_jobs_books[OF r(1) ok inj]
    show ?thesis using b(1,2) b(3) own_targets_current[OF a(1)] r(2) by auto
  qed
  then show ?thesis using a(3) settle_targets_books[OF _ _ inj]
    by (auto simp: settle_in_full_def and_then_Inr_iff)
qed

lemma pay_own_books:
  assumes run: "pay_own env p input s = Inr (s', v)" and ok: "order_books env s" and inj: "inj (oe_id env)"
  shows "order_books env s'"
proof -
  obtain os js n where a: "validate_own_payment input = Inr (os, js, n)"
    using run by (auto simp: pay_own_def and_then_Inr_iff)
  have "s' = s \<or> (\<exists>made s1. run_own_payment env p input os js n s = Inr (made, s1) \<and>
      s' = finish_own p (wp_key input) (print_own env (act_account p) ''payment.own'' input) made s1)"
    using run by (auto simp: pay_own_def a and_then_Inr_iff Let_def split: option.splits)
  moreover have "order_books env (finish_own p key print made s1)" if "order_books env s1" for key print made s1
    using order_books_same[OF that] by (simp add: finish_own_def books_def cores_def)
  ultimately show ?thesis using ok run_own_payment_books[OF _ ok inj] by blast
qed

end
