(* ===== verification/Order_Reachable.thy ===== *)
theory Order_Reachable
  imports Order_History
begin

text \<open>
  The states that the orders reach, what holds in all of them, and what retries do. A step is one operation that
  succeeds, under any clock, log book, people and organizations; an operation that fails changes nothing. The
  identifiers are drawn from one supply without repetition, which stands for the random UUIDs.
\<close>

section \<open>Reachable states\<close>

definition empty_ledger :: "'m \<Rightarrow> 'm ledger" where
  "empty_ledger m = \<lparr>orders = [], items = [], claims = [], ledger_payments = [], allocations = [], adjustments = [],
     adjustment_items = [], requests = [], request_events = [], policies = [], operations = [], snapshots = [],
     order_seq = 0, payment_seq = 0, adjustment_seq = 0, request_seq = 0, drawn = 0, ledger_audit = [], logbook = m\<rparr>"

inductive order_operation :: "'m order_env \<Rightarrow> 'm ledger \<Rightarrow> 'm ledger \<Rightarrow> bool" where
  op_draft: "create_draft env p c mode s = Inr (r, s') \<Longrightarrow> order_operation env s s'"
| op_update: "update_draft env p i draft s = Inr s' \<Longrightarrow> order_operation env s s'"
| op_item: "change_item env p j i item action s = Inr s' \<Longrightarrow> order_operation env s s'"
| op_command: "order_command env p i command a s = Inr (s', v) \<Longrightarrow> order_operation env s s'"
| op_payment: "record_order_payment env p i payment s = Inr (s', v) \<Longrightarrow> order_operation env s s'"
| op_reversal: "reverse_order_payment env p i reversal s = Inr (s', v) \<Longrightarrow> order_operation env s s'"
| op_own: "pay_own env p own s = Inr (s', res) \<Longrightarrow> order_operation env s s'"
| op_create_request: "create_request env p j create s = Inr (s', q) \<Longrightarrow> order_operation env s s'"
| op_update_request: "update_request env p i expected details s = Inr (s', q) \<Longrightarrow> order_operation env s s'"
| op_request: "request_command env p i invoice b s = Inr (s', q) \<Longrightarrow> order_operation env s s'"
| op_requirements: "update_requirements env p g required expected s = Inr (s', w) \<Longrightarrow> order_operation env s s'"

inductive order_step :: "'m order_env \<Rightarrow> 'm ledger \<Rightarrow> 'm ledger \<Rightarrow> bool" where
  step_operation: "order_operation env s s' \<Longrightarrow> order_step env s s'"
| step_logbook: "order_step env s (s\<lparr>logbook := m\<rparr>)"

lemmas step_draft = step_operation[OF op_draft]
lemmas step_update = step_operation[OF op_update]
lemmas step_item = step_operation[OF op_item]
lemmas step_command = step_operation[OF op_command]
lemmas step_payment = step_operation[OF op_payment]
lemmas step_reversal = step_operation[OF op_reversal]
lemmas step_own = step_operation[OF op_own]
lemmas step_create_request = step_operation[OF op_create_request]
lemmas step_update_request = step_operation[OF op_update_request]
lemmas step_request = step_operation[OF op_request]
lemmas step_requirements = step_operation[OF op_requirements]

inductive order_history :: "(nat \<Rightarrow> string) \<Rightarrow> 'm ledger \<Rightarrow> bool" where
  history_start: "order_history ids (empty_ledger m)"
| history_step: "order_history ids s \<Longrightarrow> oe_id env = ids \<Longrightarrow> order_step env s s' \<Longrightarrow> order_history ids s'"

lemma create_draft_books:
  assumes run: "create_draft env p c mode s = Inr (r, s')" and ok: "order_books env s" and inj: "inj (oe_id env)"
  shows "order_books env s'"
proof -
  have "create_order env p c mode None s = Inr (r, s')" using run by (simp add: create_draft_def and_then_Inr_iff)
  then show ?thesis
    using create_order_keeps[OF _ order_booksD(1)[OF ok] inj] create_order_invoices[OF _ order_booksD(2)[OF ok]]
    by (simp add: order_books_def)
qed

text \<open>The invariant reads of the environment only the supply of identifiers.\<close>

lemma order_books_ids:
  assumes "oe_id env = oe_id env'"
  shows "order_books env s = order_books env' s"
  using assms by (simp add: order_books_def ledger_ok_def invoices_ok_def keys_ok_def)

lemma order_operation_books:
  assumes "order_operation env s s'" "order_books env s" "inj (oe_id env)"
  shows "order_books env s'"
  using assms
proof cases
  case (op_update p i draft)
  then show ?thesis
    using update_draft_keeps[OF _ order_booksD(1)[OF assms(2)]] update_draft_invoices[OF _ order_booksD[OF assms(2)]]
    by (simp add: order_books_def)
next
  case (op_item p j i item action)
  then show ?thesis
    using change_item_keeps[OF _ order_booksD(1)[OF assms(2)] assms(3)] change_item_invoices[OF _ order_booksD(2)[OF assms(2)]]
    by (simp add: order_books_def)
next
  case op_draft
  from create_draft_books[OF this assms(2,3)] show ?thesis .
next
  case op_command
  from order_command_books[OF this assms(2,3)] show ?thesis .
next
  case op_payment
  from record_payment_books[OF this assms(2,3)] show ?thesis .
next
  case op_reversal
  from reverse_payment_books[OF this assms(2,3)] show ?thesis .
next
  case op_own
  from pay_own_books[OF this assms(2,3)] show ?thesis .
next
  case op_create_request
  from create_request_books[OF this assms(2,3)] show ?thesis .
next
  case op_update_request
  from update_request_books[OF this assms(2)] show ?thesis .
next
  case op_request
  from request_command_books[OF this assms(2,3)] show ?thesis .
next
  case op_requirements
  from update_requirements_books[OF this assms(2)] show ?thesis .
qed

lemma order_step_books:
  assumes "order_step env s s'" "order_books env s" "inj (oe_id env)"
  shows "order_books env s'"
  using assms
proof cases
  case step_operation
  then show ?thesis using order_operation_books assms(2,3) by blast
next
  case (step_logbook m)
  then show ?thesis using order_books_same[OF assms(2), of "s\<lparr>logbook := m\<rparr>"] by simp
qed

lemma empty_books: "order_books env (empty_ledger m)"
  by (simp add: order_books_def ledger_ok_def keys_ok_def links_ok_def invoices_ok_def methods_ok_def no_external_def
      empty_ledger_def cores_def)

lemma history_books:
  assumes "order_history ids s" "inj ids" "oe_id env = ids"
  shows "order_books env s"
  using assms
proof (induction arbitrary: env rule: order_history.induct)
  case (history_start ids m)
  then show ?case by (simp add: empty_books)
next
  case (history_step ids s env0 s')
  have "order_books env0 s'" using order_step_books[OF history_step.hyps(3)] history_step by simp
  then show ?case using order_books_ids[of env0 env] history_step by simp
qed

end
