(* ===== verification/Own_Settlement.thy ===== *)
theory Own_Settlement
  imports Order_History
begin

text \<open>
  What an own payment does: the settlement loop splits the entries over the orders so that every order gets exactly
  what is due, and never runs out of entries; each receipt adds its amount to its order and nothing else.
\<close>

section \<open>The settlement loop\<close>

definition part_amount :: "payment_input \<Rightarrow> int" where
  "part_amount x = (case parse_amount (pi_amount x) 2 True of Inl e \<Rightarrow> 0 | Inr a \<Rightarrow> a)"

text \<open>What is left of the entries.\<close>

definition rests :: "entry list \<Rightarrow> int" where
  "rests es = (\<Sum>(x, rest, parts)\<leftarrow>es. rest)"

definition entries_ok :: "entry list \<Rightarrow> bool" where
  "entries_ok es \<longleftrightarrow> (\<forall>(x, rest, parts)\<in>set es. 0 \<le> rest \<and> rest < 10 ^ 20)"

lemma rests_nonneg: "entries_ok es \<Longrightarrow> 0 \<le> rests es"
  by (induction es) (auto simp: rests_def entries_ok_def)

lemma part_of_money: "0 < n \<Longrightarrow> n < 10 ^ 20 \<Longrightarrow> part_amount (x\<lparr>pi_amount := money n, pi_split := k\<rparr>) = n"
  by (simp add: part_amount_def parse_positive_money)

text \<open>Enough entries are never used up before the amount is paid.\<close>

lemma slices_enough:
  assumes "entries_ok es" "due \<le> rests es"
  shows "\<exists>ps r. slices due es = Some (ps, r) \<and> entries_ok r \<and> rests r = rests es - max 0 due \<and>
           (\<Sum>x\<leftarrow>ps. part_amount x) = max 0 due \<and> (\<forall>x\<in>set ps. 0 < part_amount x)"
  using assms
proof (induction due es rule: slices.induct)
  case (1 due es)
  show ?case
  proof (cases "due \<le> 0")
    case True
    then show ?thesis using "1.prems" by (simp add: slices.simps[of due])
  next
    case pos: False
    show ?thesis
    proof (cases es)
      case Nil
      then show ?thesis using "1.prems" pos by (simp add: rests_def)
    next
      case (Cons e es')
      obtain x rest parts where e: "e = (x, rest, parts)" by (cases e)
      show ?thesis
      proof (cases "rest \<le> 0")
        case True
        then have zero: "rest = 0" using "1.prems"(1) Cons e by (simp add: entries_ok_def)
        have "entries_ok es'" "rests es' = rests es" using "1.prems"(1) Cons e zero by (simp_all add: entries_ok_def rests_def)
        then show ?thesis using "1.IH"(1)[OF pos Cons e[symmetric] refl True] "1.prems"(2) pos Cons e True
          by (simp add: slices.simps[of due])
      next
        case some: False
        define part where "part = min due rest"
        let ?rest = "(x, rest - part, parts + 1) # es'"
        have part: "0 < part" "part < 10 ^ 20" "part \<le> due" "part \<le> rest"
          using pos some "1.prems"(1) Cons e by (auto simp: part_def entries_ok_def)
        have "entries_ok ?rest" "rests ?rest = rests es - part"
          using "1.prems"(1) Cons e part by (simp_all add: entries_ok_def rests_def)
        moreover have "due - part \<le> rests ?rest" using calculation "1.prems"(2) by simp
        ultimately obtain ps r where IH: "slices (due - part) ?rest = Some (ps, r)" "entries_ok r"
            "rests r = rests ?rest - max 0 (due - part)" "(\<Sum>x\<leftarrow>ps. part_amount x) = max 0 (due - part)"
            "\<forall>x\<in>set ps. 0 < part_amount x"
          using "1.IH"(2)[OF pos Cons e[symmetric] refl some part_def] by auto
        have "slices due es = Some (x\<lparr>pi_amount := money part, pi_split := parts + 1\<rparr> # ps, r)"
          using pos some Cons e IH(1) by (simp add: slices.simps[of due] Let_def part_def)
        then show ?thesis
          using IH part \<open>rests ?rest = rests es - part\<close> by (simp add: part_of_money)
      qed
    qed
  qed
qed

lemma payment_entries_ok:
  "payment_entries xs = Inr es \<Longrightarrow>
     entries_ok es \<and> map fst es = xs \<and> (\<forall>(x, rest, parts)\<in>set es. rest = part_amount x \<and> parts = 0)"
proof (induction xs arbitrary: es)
  case (Cons x xs)
  obtain a es' where a: "parse_amount (pi_amount x) 2 True = Inr a" "payment_entries xs = Inr es'" "es = (x, a, 0) # es'"
    using Cons.prems by (auto simp: and_then_Inr_iff)
  then show ?case using Cons.IH[OF a(2)] parse_amount_bounds[OF a(1)] by (auto simp: entries_ok_def part_amount_def)
qed (simp add: entries_ok_def)

section \<open>Receipts\<close>

definition all_allocated :: "'m ledger \<Rightarrow> int" where
  "all_allocated s = (\<Sum>a\<leftarrow>allocations s. al_amount a)"

text \<open>An operation that adds \<open>amounts\<close> to the orders and leaves their rows.\<close>

definition pays :: "(string \<Rightarrow> int) \<Rightarrow> int \<Rightarrow> 'm ledger \<Rightarrow> 'm ledger \<Rightarrow> bool" where
  "pays amounts n s s' \<longleftrightarrow>
     (\<forall>i. sum_allocations s' i = sum_allocations s i + amounts i) \<and> all_allocated s' = all_allocated s + n \<and> cores s' = cores s"

lemma pays_trans: "pays f n s s1 \<Longrightarrow> pays g m s1 s2 \<Longrightarrow> pays (\<lambda>i. f i + g i) (n + m) s s2"
  by (simp add: pays_def)

lemma receipt_pays:
  assumes run: "receipt env p r op x s = Inr s'"
  shows "pays (\<lambda>i. if i = or_id r then part_amount x else 0) (part_amount x) s s'"
proof -
  obtain amount where a: "check_receipt_input r x = Inr amount" "book_receipt env p r x amount op s = Inr s'"
    using run by (auto simp: receipt_def and_then_Inr_iff)
  have "parse_amount (pi_amount x) 2 True = Inr amount"
    using a(1) by (auto simp: check_receipt_input_def and_then_Inr_iff)
  then have amount: "amount = part_amount x" by (simp add: part_amount_def)
  obtain pay s1 s2 where b: "payment_added pay s s1" "allocation_added pay (or_id r) amount s1 s2" "books s' = books s2"
    by (rule book_receipt_steps[OF a(2)])
  note f = payment_fields[OF b(1)] and g = allocation_fields[OF b(2)] and h = books_fields[OF b(3)]
  obtain al where "allocations s' = allocations s @ [al]" "al_order al = or_id r" "al_amount al = amount"
    using b(2) f h(4) by (auto simp: allocation_added_def books_def)
  moreover have "cores s' = cores s" using f g h by simp
  ultimately show ?thesis by (simp add: pays_def all_allocated_def sum_allocations_def amount)
qed

lemma receipts_pay:
  "run_all (receipt env p r op) xs s = Inr s' \<Longrightarrow>
     pays (\<lambda>i. if i = or_id r then \<Sum>x\<leftarrow>xs. part_amount x else 0) (\<Sum>x\<leftarrow>xs. part_amount x) s s'"
proof (induction xs arbitrary: s)
  case (Cons x xs)
  obtain s1 where s1: "receipt env p r op x s = Inr s1" "run_all (receipt env p r op) xs s1 = Inr s'"
    using Cons.prems by (auto simp: and_then_Inr_iff)
  from receipt_pays[OF s1(1)] Cons.IH[OF s1(2)] show ?case by (simp add: pays_def)
qed (simp add: pays_def)

definition due_of :: "(order_row \<times> int) list \<Rightarrow> string \<Rightarrow> int" where
  "due_of ts i = (\<Sum>(r, due)\<leftarrow>ts. if or_id r = i then due else 0)"

lemma settle_targets_pay:
  assumes "settle_targets env p op ts es s = Inr s'" "entries_ok es" "\<forall>(r, due)\<in>set ts. 0 \<le> due"
    "(\<Sum>(r, due)\<leftarrow>ts. due) \<le> rests es"
  shows "pays (due_of ts) (\<Sum>(r, due)\<leftarrow>ts. due) s s'"
  using assms
proof (induction ts arbitrary: es s)
  case Nil
  then show ?case by (simp add: pays_def due_of_def)
next
  case (Cons t ts)
  obtain r due where t: "t = (r, due)" by (cases t)
  have later: "0 \<le> (\<Sum>(r, due)\<leftarrow>ts. due)" using Cons.prems(3) by (auto intro!: sum_list_nonneg)
  have due: "0 \<le> due" "due \<le> rests es" using Cons.prems(3,4) t later by auto
  obtain ps r' where ps: "slices due es = Some (ps, r')" "entries_ok r'" "rests r' = rests es - due" "(\<Sum>x\<leftarrow>ps. part_amount x) = due"
    using slices_enough[OF Cons.prems(2) due(2)] due(1) by auto
  obtain s1 where s1: "run_all (receipt env p r op) ps s = Inr s1" "settle_targets env p op ts r' s1 = Inr s'"
    using Cons.prems(1) t ps(1) by (auto simp: and_then_Inr_iff)
  have "pays (due_of ts) (\<Sum>(r, due)\<leftarrow>ts. due) s1 s'"
    by (rule Cons.IH[OF s1(2) ps(2)]) (use Cons.prems(3,4) t ps(3) in auto)
  from pays_trans[OF receipts_pay[OF s1(1)] this] show ?case
    by (simp add: t ps(4) pays_def due_of_def)
qed

text \<open>No receipt panics, and no loop over receipts.\<close>

text \<open>The errors of a receipt have a status below 500.\<close>

lemma receipt_error_status:
  assumes "receipt env p r op x s = Inl e"
  shows "http_status e < 500"
proof -
  note status = invalid_def conflicting_def new_error_def permission_denied_def amount_frozen_def already_exists_def
    integrity_conflict_def
  have req: "require p perms = Inl e \<Longrightarrow> http_status e < 500" for perms
    by (auto simp: require_def status split: if_splits)
  have amount: "parse_amount v k b = Inl e \<Longrightarrow> http_status e < 500" for v k b
    by (auto simp: parse_amount_def Let_def status split: option.splits if_splits)
  have check: "check_receipt_input r x = Inl e \<Longrightarrow> http_status e < 500"
    using amount by (auto simp: check_receipt_input_def and_then_Inl_iff ensure_Inl_iff status split: if_splits)
  have insert: "insert_payment pay u = Inl e \<Longrightarrow> http_status e < 500" for pay and u :: "'a ledger"
    by (auto simp: insert_payment_def ensure_Inl_iff status split: if_splits)
  have book: "book_receipt env p r x a op s = Inl e \<Longrightarrow> http_status e < 500" for a
    using insert by (auto simp: book_receipt_def Let_def draw_id_def and_then_Inl_iff)
  show ?thesis
    using assms req check book
    by (auto simp: receipt_def and_then_Inl_iff ensure_Inl_iff status split: if_splits option.splits)
qed

lemma receipts_error_status: "run_all (receipt env p r op) xs s = Inl e \<Longrightarrow> http_status e < 500"
  by (induction xs arbitrary: s) (auto simp: and_then_Inl_iff dest: receipt_error_status)

lemma settle_targets_error:
  assumes "settle_targets env p op ts es s = Inl e" "entries_ok es" "\<forall>(r, due)\<in>set ts. 0 \<le> due"
    "(\<Sum>(r, due)\<leftarrow>ts. due) \<le> rests es"
  shows "http_status e < 500"
  using assms
proof (induction ts arbitrary: es s)
  case (Cons t ts)
  obtain r due where t: "t = (r, due)" by (cases t)
  have later: "0 \<le> (\<Sum>(r, due)\<leftarrow>ts. due)" using Cons.prems(3) by (auto intro!: sum_list_nonneg)
  have due: "0 \<le> due" "due \<le> rests es" using Cons.prems(3,4) t later by auto
  obtain ps r' where ps: "slices due es = Some (ps, r')" "entries_ok r'" "rests r' = rests es - due"
    using slices_enough[OF Cons.prems(2) due(2)] due(1) by auto
  from Cons.prems(1) t ps(1) consider "run_all (receipt env p r op) ps s = Inl e"
    | s1 where "settle_targets env p op ts r' s1 = Inl e"
    by (auto simp: and_then_Inl_iff)
  then show ?case
  proof cases
    case 2
    then show ?thesis by (rule Cons.IH[OF _ ps(2)]) (use Cons.prems(3,4) t ps(3) in auto)
  qed (rule receipts_error_status)
qed simp

text \<open>The whole settlement: the entries add up to what is due.\<close>

lemma settle_in_fullD:
  assumes "settle_in_full env p ts input s = Inr s'"
  obtains es where "payment_entries (wp_payments input) = Inr es" "rests es = (\<Sum>(r, due)\<leftarrow>ts. due)"
    "settle_targets env p (wp_key input) ts es s = Inr s'"
proof -
  have snd_sum: "sum_list (map snd ts) = (\<Sum>(r, due)\<leftarrow>ts. due)" by (rule arg_cong[where f = sum_list]) auto
  show ?thesis using assms that by (auto simp: settle_in_full_def and_then_Inr_iff rests_def snd_sum)
qed

lemma settle_in_full_pays:
  assumes "settle_in_full env p ts input s = Inr s'" "\<forall>(r, due)\<in>set ts. 0 \<le> due"
  shows "pays (due_of ts) (\<Sum>(r, due)\<leftarrow>ts. due) s s'"
proof (rule settle_in_fullD[OF assms(1)])
  fix es
  assume es: "payment_entries (wp_payments input) = Inr es" "rests es = (\<Sum>(r, due)\<leftarrow>ts. due)"
    "settle_targets env p (wp_key input) ts es s = Inr s'"
  show ?thesis
    by (rule settle_targets_pay[OF es(3) _ assms(2)]) (use payment_entries_ok[OF es(1)] es(2) in simp_all)
qed

section \<open>What is due\<close>

lemma cents_money: "0 \<le> n \<Longrightarrow> cents (money n) = n"
  using money_parts[of n] money_value[of n] by (simp add: cents_def del: digits_of.simps)

text \<open>The view of an order in balanced books.\<close>

lemma load_finalized:
  assumes ok: "ledger_ok env {} {} s" and v: "load_order s i = Inr v" and st: "or_status (ov_order v) = Finalized"
  shows "row_at or_id i (orders s) = Some (ov_order v)" "ov_outstanding v = money (or_total (ov_order v) - sum_allocations s i)"
    "0 \<le> sum_allocations s i" "sum_allocations s i \<le> or_total (ov_order v)" "ov_active_request v = active_request s i"
    "adjusted s i = 0"
proof -
  obtain r where r: "lock_order s i = Inr r" "ov_order v = r" "ov_outstanding v = money (net_charge s r - sum_allocations s i)"
    "ov_active_request v = active_request s i"
    using v by (auto simp: load_order_def and_then_Inr_iff Let_def)
  note l = lock_orderD[OF r(1)]
  have bal: "order_balanced {} s (core r)" using ledger_okD(6)[OF ok current_core] l by blast
  have adj: "adjusted s i = 0" using bal l st r(2) by (simp add: order_balanced_def)
  then show "adjusted s i = 0" .
  have "net_charge s r = or_total r"
    using adj l st r(2) by (simp add: net_charge_def gross_total_def adjusted_def)
  then show "ov_outstanding v = money (or_total (ov_order v) - sum_allocations s i)" using r by simp
  show "row_at or_id i (orders s) = Some (ov_order v)" "ov_active_request v = active_request s i" using l r by simp_all
  show "0 \<le> sum_allocations s i" "sum_allocations s i \<le> or_total (ov_order v)"
    using bal l st r(2) by (simp_all add: order_balanced_def)
qed

lemma own_targetsD:
  assumes "ledger_ok env {} {} s" "own_targets p s is = Inr ts"
  shows "map (or_id \<circ> fst) ts = is \<and>
    (\<forall>(r, due)\<in>set ts. r \<in> set (orders s) \<and> or_person r = Some (act_person p) \<and> or_status r = Finalized \<and>
       active_request s (or_id r) = None \<and> due = or_total r - sum_allocations s (or_id r) \<and> 0 < due)"
  using assms(2)
proof (induction "is" arbitrary: ts)
  case (Cons i "is")
  obtain r v ts' where a: "row_at or_id i (orders s) = Some r" "or_person r = Some (act_person p)" "load_order s i = Inr v"
      "0 < payable_balance v" "own_targets p s is = Inr ts'" "ts = (r, payable_balance v) # ts'"
    using Cons.prems by (auto simp: and_then_Inr_iff split: option.splits)
  have st: "or_status (ov_order v) = Finalized" and none: "ov_active_request v = None"
    using a(4) by (auto simp: payable_balance_def split: if_splits)
  note l = load_finalized[OF assms(1) a(3) st]
  have r: "ov_order v = r" using l(1) a(1) by simp
  have "payable_balance v = or_total r - sum_allocations s i"
    using st none l(2,4) r by (simp add: payable_balance_def cents_money)
  then show ?case using Cons.IH[OF a(5)] a(2,4,6) st none l(5) r row_atD[OF a(1)] by simp
qed simp

lemma due_of_own:
  assumes "distinct (map (or_id \<circ> fst) ts)" "(r, due) \<in> set ts"
  shows "due_of ts (or_id r) = due"
  using assms
proof (induction ts)
  case (Cons t ts)
  have other: "due_of us i = 0" if "i \<notin> (or_id \<circ> fst) ` set us" for us i
    using that by (induction us) (auto simp: due_of_def)
  show ?case
  proof (cases "t = (r, due)")
    case True
    then show ?thesis using other[of "or_id r" ts] Cons.prems(1) by (simp add: due_of_def)
  next
    case False
    then have "(r, due) \<in> set ts" using Cons.prems(2) by simp
    moreover from this have "or_id (fst t) \<noteq> or_id r" using Cons.prems(1) by force
    ultimately show ?thesis using Cons by (cases t) (simp add: due_of_def)
  qed
qed simp

lemma due_of_other: "i \<notin> (or_id \<circ> fst) ` set ts \<Longrightarrow> due_of ts i = 0"
  by (induction ts) (auto simp: due_of_def)

text \<open>The order of jobs is new and unpaid.\<close>

lemma own_jobs_order:
  assumes run: "order_own_jobs env p ids s = Inr (r', s')" and ok: "order_books env s" and inj: "inj (oe_id env)"
  shows "allocations s' = allocations s" "or_id r' \<notin> or_id ` set (orders s)" "or_status r' = Finalized"
    "sum_allocations s' (or_id r') = 0"
proof -
  obtain r s1 s2 where a: "create_order env p (Some (''person'', act_person p)) ''immediate'' None s = Inr (r, s1)"
      "run_all (insert_item env p r) (map job_input (own_jobs env p ids s)) s1 = Inr s2" "finalize env p r s2 = Inr (r', s')"
    using run by (auto simp: order_own_jobs_def and_then_Inr_iff Let_def)
  have new: "or_id r = oe_id env (drawn s)" "allocations s1 = allocations s"
    using a(1) by (auto simp: create_order_def draw_id_def Let_def and_then_Inr_iff log_event_def)
  note c = create_order_keeps[OF a(1) order_booksD(1)[OF ok] inj]
  have s2: "ledger_ok env {} {} s2 \<and> current r s2 \<and> allocations s2 = allocations s"
  proof (rule run_all_keeps[OF a(2)])
    fix x t t' assume t: "insert_item env p r x t = Inr t'" "ledger_ok env {} {} t \<and> current r t \<and> allocations t = allocations s"
    have "allocations t' = allocations t"
    proof (rule insert_item_steps[OF t(1)])
      fix v t1 assume v: "store_item env r (oe_id env (drawn t)) (ii_kind x) v (t\<lparr>drawn := Suc (drawn t)\<rparr>) = Inr t1"
        "t' = log_event p ''order.item_added'' ''order'' (or_id r) [''items''] (bump_order (or_id r) t1)"
      have "allocations t1 = allocations t" by (rule store_item_books[OF v(1)]) (simp add: books_def)
      then show ?thesis using v(2) books_fields(4)[of t' t1] by simp
    qed
    then show "ledger_ok env {} {} t' \<and> current r t' \<and> allocations t' = allocations s"
      using insert_item_keeps[OF t(1) conjunct1[OF t(2)] inj] t(2) c by simp
  qed (use c new in simp)
  then have r: "current r s2" and l2: "ledger_ok env {} {} s2" by simp_all
  note e = finalize_effect[OF a(3) l2]
  show "allocations s' = allocations s" using e(1)[OF r] s2 by (simp add: order_changed_def books_def)
  have core: "core r' = (core r)\<lparr>co_status := Finalized, co_total := item_total s2 (or_id r)\<rparr>" by (rule e(2)[OF r])
  have "co_id (core r') = co_id (core r)" "co_status (core r') = Finalized" by (simp_all add: core)
  then have id: "or_id r' = oe_id env (drawn s)" and "or_status r' = Finalized" using new(1) by simp_all
  then show "or_status r' = Finalized" by simp
  have fresh: "oe_id env (drawn s) \<notin> co_id ` set (cores s)"
    by (rule fresh_id(1)[OF ledger_okD(1)[OF order_booksD(1)[OF ok]]]) simp
  then show "or_id r' \<notin> or_id ` set (orders s)" by (simp add: id cores_def image_image)
  have "filter (\<lambda>a. al_order a = or_id r') (allocations s) = []"
    unfolding filter_empty_conv id
    by (rule ballI, rule notI) (use ledger_okD(11)[OF order_booksD(1)[OF ok]] fresh in metis)
  then show "sum_allocations s' (or_id r') = 0" using \<open>allocations s' = allocations s\<close> by (simp add: sum_allocations_def)
qed

section \<open>The payment\<close>

lemma sorted_uniqueD: "sorted_unique ids = Some xs \<Longrightarrow> distinct xs \<and> set xs = set ids"
  by (auto simp: sorted_unique_def Let_def split: if_splits)

lemma validate_own_paymentD:
  assumes "validate_own_payment input = Inr (os, js, n)"
  shows "distinct os" "set os = set (wp_orders input)" "set js = set (wp_jobs input)" "parse_amount (wp_total input) 2 True = Inr n"
  using assms sorted_uniqueD
  by (auto simp: validate_own_payment_def and_then_Inr_iff Let_def split: option.splits)

lemma due_of_append: "due_of (xs @ ys) i = due_of xs i + due_of ys i"
  by (simp add: due_of_def)

text \<open>The order that is made of jobs, when there is one.\<close>

definition made_targets :: "order_row option \<Rightarrow> (order_row \<times> int) list" where
  "made_targets m = (case m of None \<Rightarrow> [] | Some r \<Rightarrow> [(r, or_total r)])"

lemma made_order:
  assumes run: "(if js = [] then Inr (None, s) else and_then (order_own_jobs env p js s) (\<lambda>(r, s1). Inr (Some r, s1))) = Inr (m, s1)"
    and ok: "order_books env s" and inj: "inj (oe_id env)"
  shows "allocations s1 = allocations s" "order_books env s1" "current r0 s \<Longrightarrow> current r0 s1"
    "m = Some r \<Longrightarrow> current r s1 \<and> or_id r \<notin> or_id ` set (orders s) \<and> or_status r = Finalized \<and> sum_allocations s1 (or_id r) = 0 \<and>
       0 \<le> or_total r"
proof -
  have nonneg: "0 \<le> or_total x" if x: "order_books env u" "current x u" "or_status x = Finalized" for x and u :: "'a ledger"
    using ledger_okD(6)[OF order_booksD(1)[OF x(1)] current_core[OF x(2)]] x(3) by (simp add: order_balanced_def)
  have "allocations s1 = allocations s \<and> order_books env s1 \<and> (current r0 s \<longrightarrow> current r0 s1) \<and>
    (m = Some r \<longrightarrow> current r s1 \<and> or_id r \<notin> or_id ` set (orders s) \<and> or_status r = Finalized \<and>
       sum_allocations s1 (or_id r) = 0 \<and> 0 \<le> or_total r)"
  proof (cases "js = []")
    case False
    then obtain r' where r': "order_own_jobs env p js s = Inr (r', s1)" "m = Some r'"
      using run by (auto simp: and_then_Inr_iff)
    note b = order_own_jobs_books[OF r'(1) ok inj] and d = own_jobs_order[OF r'(1) ok inj]
    show ?thesis using b d r'(2) nonneg[OF b(1,2) d(3)] by auto
  qed (use run ok in simp)
  then show "allocations s1 = allocations s" "order_books env s1" "current r0 s \<Longrightarrow> current r0 s1"
    "m = Some r \<Longrightarrow> current r s1 \<and> or_id r \<notin> or_id ` set (orders s) \<and> or_status r = Finalized \<and> sum_allocations s1 (or_id r) = 0 \<and>
       0 \<le> or_total r"
    by simp_all
qed

text \<open>What a run of an own payment does to the orders that were there, and to the one it makes.\<close>

lemma run_own_payment_pays:
  assumes run: "run_own_payment env p input os js n s = Inr (made, s')" and ok: "order_books env s" and inj: "inj (oe_id env)"
    and dist: "distinct os"
  shows "i \<in> set os \<Longrightarrow> \<exists>r\<in>set (orders s). or_id r = i \<and> or_person r = Some (act_person p)"
    "r \<in> set (orders s) \<Longrightarrow> sum_allocations s' (or_id r) = (if or_id r \<in> set os then or_total r else sum_allocations s (or_id r))"
    "all_allocated s' = all_allocated s + n"
    "made = Some j \<Longrightarrow> \<exists>r\<in>set (orders s'). or_id r = j \<and> or_status r = Finalized \<and> sum_allocations s' j = or_total r"
proof -
  obtain own m s1 where a: "own_targets p s os = Inr own"
      "(if js = [] then Inr (None, s) else and_then (order_own_jobs env p js s) (\<lambda>(r, s1). Inr (Some r, s1))) = Inr (m, s1)"
      "(\<Sum>(r, due)\<leftarrow>own @ made_targets m. due) = n" "settle_in_full env p (own @ made_targets m) input s1 = Inr s'"
      "made = map_option or_id m"
  proof -
    have snd_sum: "sum_list (map snd ts) = (\<Sum>(r, due)\<leftarrow>ts. due)" for ts :: "(order_row \<times> int) list"
      by (rule arg_cong[where f = sum_list]) auto
    show ?thesis using run that
      by (auto simp: run_own_payment_def and_then_Inr_iff Let_def snd_sum made_targets_def[symmetric] simp del: map_append)
  qed
  note o = own_targetsD[OF order_booksD(1)[OF ok] a(1)] and m = made_order[OF a(2) ok inj]
  have ids: "(or_id \<circ> fst) ` set own = set os" using o by (metis set_map)
  have paid: "pays (due_of (own @ made_targets m)) n s1 s'"
    unfolding a(3)[symmetric]
    by (rule settle_in_full_pays[OF a(4)]) (use o m(4) in \<open>auto simp: made_targets_def split: option.split\<close>)
  show known: "\<exists>r\<in>set (orders s). or_id r = i \<and> or_person r = Some (act_person p)" if "i \<in> set os" for i
    using that o unfolding ids[symmetric] by force
  show "all_allocated s' = all_allocated s + n" using paid m(1) by (simp add: pays_def all_allocated_def)
  show "sum_allocations s' (or_id r) = (if or_id r \<in> set os then or_total r else sum_allocations s (or_id r))" if r: "r \<in> set (orders s)"
  proof -
    have "due_of (made_targets m) (or_id r) = 0"
      using m(4) imageI[OF r, of or_id] by (intro due_of_other) (auto simp: made_targets_def split: option.splits)
    moreover have "due_of own (or_id r) = (if or_id r \<in> set os then or_total r - sum_allocations s (or_id r) else 0)"
    proof (cases "or_id r \<in> set os")
      case True
      then obtain r' due where r': "(r', due) \<in> set own" "or_id r' = or_id r" using ids by force
      have "distinct (map or_id (orders s))"
        using ledger_okD(3)[OF order_booksD(1)[OF ok]] by (simp add: cores_def comp_def)
      then have "r' = r" using o r' r by (auto intro: key_inj)
      then show ?thesis using due_of_own[OF _ r'(1)] o r'(1) True dist by auto
    next
      case False
      then show ?thesis using due_of_other[of "or_id r" own] ids by auto
    qed
    ultimately show ?thesis using paid m(1) by (simp add: pays_def due_of_append sum_allocations_def)
  qed
  show "\<exists>r\<in>set (orders s'). or_id r = j \<and> or_status r = Finalized \<and> sum_allocations s' j = or_total r" if "made = Some j"
  proof -
    obtain r where r: "m = Some r" "or_id r = j" using a(5) \<open>made = Some j\<close> by (cases m) auto
    note m4 = m(4)[OF r(1)]
    have "core r \<in> set (cores s')" using m4 paid by (simp add: pays_def current_def)
    then obtain r' where r': "r' \<in> set (orders s')" "core r' = core r" by (auto simp: cores_def)
    have "or_id r' = j" "or_status r' = Finalized" "or_total r' = or_total r"
      using arg_cong[OF r'(2), of co_id] arg_cong[OF r'(2), of co_status] arg_cong[OF r'(2), of co_total] r(2) m4 by simp_all
    moreover have "j \<notin> set os" using m4 r(2) known[of j] imageI by metis
    then have "due_of own j = 0" using ids by (intro due_of_other) simp
    then have "sum_allocations s' j = or_total r"
      using paid m4 r by (simp add: pays_def due_of_append made_targets_def due_of_def)
    ultimately show ?thesis using r'(1) by auto
  qed
qed

end
