(* ===== verification/Order_Example.thy ===== *)
theory Order_Example
  imports Order_Reachable Own_Settlement
begin

text \<open>
  A concrete history of the orders, evaluated state by state: a draft, an item, a checkout with a partial payment
  in cash, and an invoice request. It shows that the histories of \<open>Order_Reachable\<close> are not empty.
\<close>

section \<open>The environment and the inputs\<close>

text \<open>Ada orders two boards for 0.02 each, pays 0.01 of it in cash, and asks for an invoice for the rest.\<close>

definition ada :: actor where
  "ada = \<lparr>act_account = ''account'', act_person = ''ada'', act_has = (\<lambda>_. True)\<rparr>"

definition shop :: "unit order_env" where
  "shop = \<lparr>oe_now = 0, oe_id = (\<lambda>n. replicate n (CHR ''x'')), charge_source = (\<lambda>_ _ _. Inl not_found),
     sale_source = (\<lambda>_ _ _ _ _. Inl not_found), sell_from_stock = (\<lambda>m _ _. Inr m), restock_sale = (\<lambda>m _ _. Inr m),
     payable_jobs = (\<lambda>_ _ _. []), oe_person = (\<lambda>i. if i = ''ada'' then Some ''Ada'' else None), oe_organization = (\<lambda>_. None),
     print_command = (\<lambda>a k i _. a @ k @ i), print_payment = (\<lambda>a k i _. a @ k @ i), print_reversal = (\<lambda>a k i _. a @ k @ i),
     print_create = (\<lambda>a k i _. a @ k @ i), print_request = (\<lambda>a k i _. a @ k @ i), print_own = (\<lambda>a k _. a @ k)\<rparr>"

definition boards :: item_input where
  "boards = \<lparr>ii_kind = ''manual'', ii_description = ''Board'', ii_quantity = ''2'', ii_unit = ''piece'', ii_unit_price = ''0.02'',
     ii_job = [], ii_material = [], ii_job_version = 0, ii_version = 1\<rparr>"

definition four_in_cash :: payment_input where
  "four_in_cash = \<lparr>pi_method = ''cash'', pi_amount = ''0.01'', pi_at = 0, pi_source = [], pi_external = [], pi_split = 0\<rparr>"

definition checkout :: command_input where
  "checkout = \<lparr>oc_key = ''k1'', oc_version = 2, oc_reason = [], oc_replacement = [], oc_replacement_version = 0,
     oc_payments = [four_in_cash], oc_reversals = []\<rparr>"

definition invoice_wish :: create_invoice where
  "invoice_wish = \<lparr>ci_key = ''k2'', ci_version = 4, ci_details = blank_details\<rparr>"

section \<open>The states\<close>

definition shop1 :: "unit ledger" where
  "shop1 = \<lparr>orders =
    [\<lparr>or_id = [], or_reference = ''O-1970-000001'', or_status = Draft,
        or_customer_kind = ''person'', or_person = Some ''ada'',
        or_organization = None, or_fulfillment = ''immediate'',
        or_total = 0, or_replaces = None, or_replaces_reference = None,
        or_version = 1\<rparr>],
    items = [], claims = [], ledger_payments = [], allocations = [],
    adjustments = [], adjustment_items = [], requests = [],
    request_events = [], policies = [], operations = [], snapshots = [],
    order_seq = 1, payment_seq = 0, adjustment_seq = 0, request_seq = 0,
    drawn = 1,
    ledger_audit =
      [\<lparr>aud_account = ''account'', aud_action = ''order.created'',
          aud_resource = ''order'', aud_id = [],
          aud_fields = [''customer'', ''fulfillmentMode'']\<rparr>],
    logbook = ()\<rparr>"

definition shop2 :: "unit ledger" where
  "shop2 = \<lparr>orders =
    [\<lparr>or_id = [], or_reference = ''O-1970-000001'', or_status = Draft,
        or_customer_kind = ''person'', or_person = Some ''ada'',
        or_organization = None, or_fulfillment = ''immediate'',
        or_total = 0, or_replaces = None, or_replaces_reference = None,
        or_version = 2\<rparr>],
    items =
      [\<lparr>it_id = ''x'', it_order = [], it_position = 1, it_kind = ''manual'',
          it_description = ''Board'', it_quantity = 2000000,
          it_unit = ''piece'', it_unit_price = 20000, it_amount = 4,
          it_job = None, it_job_version = None, it_material = None,
          it_removed = False\<rparr>],
    claims = [], ledger_payments = [], allocations = [], adjustments = [],
    adjustment_items = [], requests = [], request_events = [],
    policies = [], operations = [], snapshots = [], order_seq = 1,
    payment_seq = 0, adjustment_seq = 0, request_seq = 0, drawn = 2,
    ledger_audit =
      [\<lparr>aud_account = ''account'', aud_action = ''order.created'',
          aud_resource = ''order'', aud_id = [],
          aud_fields = [''customer'', ''fulfillmentMode'']\<rparr>,
       \<lparr>aud_account = ''account'', aud_action = ''order.item_added'',
          aud_resource = ''order'', aud_id = [], aud_fields = [''items'']\<rparr>],
    logbook = ()\<rparr>"

definition shop3m :: "unit ledger" where
  "shop3m = \<lparr>orders =
    [\<lparr>or_id = [], or_reference = ''O-1970-000001'', or_status = Finalized,
        or_customer_kind = ''person'', or_person = Some ''ada'',
        or_organization = None, or_fulfillment = ''immediate'',
        or_total = 4, or_replaces = None, or_replaces_reference = None,
        or_version = 4\<rparr>],
    items =
      [\<lparr>it_id = ''x'', it_order = [], it_position = 1, it_kind = ''manual'',
          it_description = ''Board'', it_quantity = 2000000,
          it_unit = ''piece'', it_unit_price = 20000, it_amount = 4,
          it_job = None, it_job_version = None, it_material = None,
          it_removed = False\<rparr>],
    claims = [],
    ledger_payments =
      [\<lparr>pm_id = ''xx'', pm_reference = ''P-1970-000001'',
          pm_entry = ''receipt'', pm_method = ''cash'', pm_amount = 1,
          pm_at = 0, pm_reverses = None, pm_reversed_reference = None,
          pm_reason_kind = None, pm_reason = [], pm_source = [],
          pm_external = [], pm_request = None, pm_split = 1\<rparr>],
    allocations =
      [\<lparr>al_id = ''xxx'', al_payment = ''xx'',
          al_payment_reference = ''P-1970-000001'', al_order = [],
          al_order_reference = ''O-1970-000001'', al_amount = 1,
          al_operation = ''k1''\<rparr>],
    adjustments = [], adjustment_items = [], requests = [],
    request_events = [], policies = [], operations = [],
    snapshots = [\<lparr>sn_order = [], sn_name = ''Ada'', sn_kind = None\<rparr>],
    order_seq = 1, payment_seq = 1, adjustment_seq = 0, request_seq = 0,
    drawn = 4,
    ledger_audit =
      [\<lparr>aud_account = ''account'', aud_action = ''order.created'',
          aud_resource = ''order'', aud_id = [],
          aud_fields = [''customer'', ''fulfillmentMode'']\<rparr>,
       \<lparr>aud_account = ''account'', aud_action = ''order.item_added'',
          aud_resource = ''order'', aud_id = [], aud_fields = [''items'']\<rparr>,
       \<lparr>aud_account = ''account'', aud_action = ''order.finalized'',
          aud_resource = ''order'', aud_id = [],
          aud_fields = [''status'', ''totalAmount'', ''customerSnapshot'']\<rparr>,
       \<lparr>aud_account = ''account'', aud_action = ''payment.recorded'',
          aud_resource = ''payment'', aud_id = ''xx'',
          aud_fields = [''amount'', ''method'', ''allocations'']\<rparr>],
    logbook = ()\<rparr>"

definition shop3 :: "unit ledger" where
  "shop3 = \<lparr>orders =
    [\<lparr>or_id = [], or_reference = ''O-1970-000001'', or_status = Finalized,
        or_customer_kind = ''person'', or_person = Some ''ada'',
        or_organization = None, or_fulfillment = ''immediate'',
        or_total = 4, or_replaces = None, or_replaces_reference = None,
        or_version = 4\<rparr>],
    items =
      [\<lparr>it_id = ''x'', it_order = [], it_position = 1, it_kind = ''manual'',
          it_description = ''Board'', it_quantity = 2000000,
          it_unit = ''piece'', it_unit_price = 20000, it_amount = 4,
          it_job = None, it_job_version = None, it_material = None,
          it_removed = False\<rparr>],
    claims = [],
    ledger_payments =
      [\<lparr>pm_id = ''xx'', pm_reference = ''P-1970-000001'',
          pm_entry = ''receipt'', pm_method = ''cash'', pm_amount = 1,
          pm_at = 0, pm_reverses = None, pm_reversed_reference = None,
          pm_reason_kind = None, pm_reason = [], pm_source = [],
          pm_external = [], pm_request = None, pm_split = 1\<rparr>],
    allocations =
      [\<lparr>al_id = ''xxx'', al_payment = ''xx'',
          al_payment_reference = ''P-1970-000001'', al_order = [],
          al_order_reference = ''O-1970-000001'', al_amount = 1,
          al_operation = ''k1''\<rparr>],
    adjustments = [], adjustment_items = [], requests = [],
    request_events = [], policies = [],
    operations =
      [\<lparr>op_key = ''k1'', op_kind = ''order.checkout'',
          op_print = ''accountorder.checkout'', op_account = ''account'',
          op_order = Some [], op_request = None\<rparr>],
    snapshots = [\<lparr>sn_order = [], sn_name = ''Ada'', sn_kind = None\<rparr>],
    order_seq = 1, payment_seq = 1, adjustment_seq = 0, request_seq = 0,
    drawn = 4,
    ledger_audit =
      [\<lparr>aud_account = ''account'', aud_action = ''order.created'',
          aud_resource = ''order'', aud_id = [],
          aud_fields = [''customer'', ''fulfillmentMode'']\<rparr>,
       \<lparr>aud_account = ''account'', aud_action = ''order.item_added'',
          aud_resource = ''order'', aud_id = [], aud_fields = [''items'']\<rparr>,
       \<lparr>aud_account = ''account'', aud_action = ''order.finalized'',
          aud_resource = ''order'', aud_id = [],
          aud_fields = [''status'', ''totalAmount'', ''customerSnapshot'']\<rparr>,
       \<lparr>aud_account = ''account'', aud_action = ''payment.recorded'',
          aud_resource = ''payment'', aud_id = ''xx'',
          aud_fields = [''amount'', ''method'', ''allocations'']\<rparr>],
    logbook = ()\<rparr>"

definition shop4m :: "unit ledger" where
  "shop4m = \<lparr>orders =
    [\<lparr>or_id = [], or_reference = ''O-1970-000001'', or_status = Finalized,
        or_customer_kind = ''person'', or_person = Some ''ada'',
        or_organization = None, or_fulfillment = ''immediate'',
        or_total = 4, or_replaces = None, or_replaces_reference = None,
        or_version = 5\<rparr>],
    items =
      [\<lparr>it_id = ''x'', it_order = [], it_position = 1, it_kind = ''manual'',
          it_description = ''Board'', it_quantity = 2000000,
          it_unit = ''piece'', it_unit_price = 20000, it_amount = 4,
          it_job = None, it_job_version = None, it_material = None,
          it_removed = False\<rparr>],
    claims = [],
    ledger_payments =
      [\<lparr>pm_id = ''xx'', pm_reference = ''P-1970-000001'',
          pm_entry = ''receipt'', pm_method = ''cash'', pm_amount = 1,
          pm_at = 0, pm_reverses = None, pm_reversed_reference = None,
          pm_reason_kind = None, pm_reason = [], pm_source = [],
          pm_external = [], pm_request = None, pm_split = 1\<rparr>],
    allocations =
      [\<lparr>al_id = ''xxx'', al_payment = ''xx'',
          al_payment_reference = ''P-1970-000001'', al_order = [],
          al_order_reference = ''O-1970-000001'', al_amount = 1,
          al_operation = ''k1''\<rparr>],
    adjustments = [], adjustment_items = [],
    requests =
      [\<lparr>rq_id = ''xxxx'', rq_reference = ''W-1970-000001'',
          rq_order = Some [], rq_order_reference = ''O-1970-000001'',
          rq_state = Invoice_Draft, rq_amount = 4, rq_supersedes = None,
          rq_version = 1, rq_recipient_kind = ''person'',
          rq_recipient_person = Some ''ada'',
          rq_recipient_organization = None,
          rq_summary =
            [\<lparr>it_id = ''x'', it_order = [], it_position = 1,
                it_kind = ''manual'', it_description = ''Board'',
                it_quantity = 2000000, it_unit = ''piece'',
                it_unit_price = 20000, it_amount = 4, it_job = None,
                it_job_version = None, it_material = None,
                it_removed = False\<rparr>],
          rq_details =
            \<lparr>dt_name = ''Ada'', dt_address1 = [], dt_address2 = [],
               dt_postal = [], dt_locality = [], dt_region = [],
               dt_country = [], dt_contact_person = None, dt_contact = [],
               dt_channel = [], dt_starts = [], dt_ends = [],
               dt_description = [], dt_purchase_order = []\<rparr>,
          rq_policy_version = 0, rq_policy_required = False,
          rq_already_paid = 1\<rparr>],
    request_events = [], policies = [],
    operations =
      [\<lparr>op_key = ''k1'', op_kind = ''order.checkout'',
          op_print = ''accountorder.checkout'', op_account = ''account'',
          op_order = Some [], op_request = None\<rparr>],
    snapshots = [\<lparr>sn_order = [], sn_name = ''Ada'', sn_kind = None\<rparr>],
    order_seq = 1, payment_seq = 1, adjustment_seq = 0, request_seq = 1,
    drawn = 5,
    ledger_audit =
      [\<lparr>aud_account = ''account'', aud_action = ''order.created'',
          aud_resource = ''order'', aud_id = [],
          aud_fields = [''customer'', ''fulfillmentMode'']\<rparr>,
       \<lparr>aud_account = ''account'', aud_action = ''order.item_added'',
          aud_resource = ''order'', aud_id = [], aud_fields = [''items'']\<rparr>,
       \<lparr>aud_account = ''account'', aud_action = ''order.finalized'',
          aud_resource = ''order'', aud_id = [],
          aud_fields = [''status'', ''totalAmount'', ''customerSnapshot'']\<rparr>,
       \<lparr>aud_account = ''account'', aud_action = ''payment.recorded'',
          aud_resource = ''payment'', aud_id = ''xx'',
          aud_fields = [''amount'', ''method'', ''allocations'']\<rparr>,
       \<lparr>aud_account = ''account'',
          aud_action = ''external_invoice_request.created'',
          aud_resource = ''external_invoice_request'', aud_id = ''xxxx'',
          aud_fields = [''details'']\<rparr>],
    logbook = ()\<rparr>"

definition shop4 :: "unit ledger" where
  "shop4 = \<lparr>orders =
    [\<lparr>or_id = [], or_reference = ''O-1970-000001'', or_status = Finalized,
        or_customer_kind = ''person'', or_person = Some ''ada'',
        or_organization = None, or_fulfillment = ''immediate'',
        or_total = 4, or_replaces = None, or_replaces_reference = None,
        or_version = 5\<rparr>],
    items =
      [\<lparr>it_id = ''x'', it_order = [], it_position = 1, it_kind = ''manual'',
          it_description = ''Board'', it_quantity = 2000000,
          it_unit = ''piece'', it_unit_price = 20000, it_amount = 4,
          it_job = None, it_job_version = None, it_material = None,
          it_removed = False\<rparr>],
    claims = [],
    ledger_payments =
      [\<lparr>pm_id = ''xx'', pm_reference = ''P-1970-000001'',
          pm_entry = ''receipt'', pm_method = ''cash'', pm_amount = 1,
          pm_at = 0, pm_reverses = None, pm_reversed_reference = None,
          pm_reason_kind = None, pm_reason = [], pm_source = [],
          pm_external = [], pm_request = None, pm_split = 1\<rparr>],
    allocations =
      [\<lparr>al_id = ''xxx'', al_payment = ''xx'',
          al_payment_reference = ''P-1970-000001'', al_order = [],
          al_order_reference = ''O-1970-000001'', al_amount = 1,
          al_operation = ''k1''\<rparr>],
    adjustments = [], adjustment_items = [],
    requests =
      [\<lparr>rq_id = ''xxxx'', rq_reference = ''W-1970-000001'',
          rq_order = Some [], rq_order_reference = ''O-1970-000001'',
          rq_state = Invoice_Draft, rq_amount = 4, rq_supersedes = None,
          rq_version = 1, rq_recipient_kind = ''person'',
          rq_recipient_person = Some ''ada'',
          rq_recipient_organization = None,
          rq_summary =
            [\<lparr>it_id = ''x'', it_order = [], it_position = 1,
                it_kind = ''manual'', it_description = ''Board'',
                it_quantity = 2000000, it_unit = ''piece'',
                it_unit_price = 20000, it_amount = 4, it_job = None,
                it_job_version = None, it_material = None,
                it_removed = False\<rparr>],
          rq_details =
            \<lparr>dt_name = ''Ada'', dt_address1 = [], dt_address2 = [],
               dt_postal = [], dt_locality = [], dt_region = [],
               dt_country = [], dt_contact_person = None, dt_contact = [],
               dt_channel = [], dt_starts = [], dt_ends = [],
               dt_description = [], dt_purchase_order = []\<rparr>,
          rq_policy_version = 0, rq_policy_required = False,
          rq_already_paid = 1\<rparr>],
    request_events = [], policies = [],
    operations =
      [\<lparr>op_key = ''k1'', op_kind = ''order.checkout'',
          op_print = ''accountorder.checkout'', op_account = ''account'',
          op_order = Some [], op_request = None\<rparr>,
       \<lparr>op_key = ''k2'', op_kind = ''request.create'',
          op_print = ''accountrequest.create'', op_account = ''account'',
          op_order = Some [], op_request = Some ''xxxx''\<rparr>],
    snapshots = [\<lparr>sn_order = [], sn_name = ''Ada'', sn_kind = None\<rparr>],
    order_seq = 1, payment_seq = 1, adjustment_seq = 0, request_seq = 1,
    drawn = 5,
    ledger_audit =
      [\<lparr>aud_account = ''account'', aud_action = ''order.created'',
          aud_resource = ''order'', aud_id = [],
          aud_fields = [''customer'', ''fulfillmentMode'']\<rparr>,
       \<lparr>aud_account = ''account'', aud_action = ''order.item_added'',
          aud_resource = ''order'', aud_id = [], aud_fields = [''items'']\<rparr>,
       \<lparr>aud_account = ''account'', aud_action = ''order.finalized'',
          aud_resource = ''order'', aud_id = [],
          aud_fields = [''status'', ''totalAmount'', ''customerSnapshot'']\<rparr>,
       \<lparr>aud_account = ''account'', aud_action = ''payment.recorded'',
          aud_resource = ''payment'', aud_id = ''xx'',
          aud_fields = [''amount'', ''method'', ''allocations'']\<rparr>,
       \<lparr>aud_account = ''account'',
          aud_action = ''external_invoice_request.created'',
          aud_resource = ''external_invoice_request'', aud_id = ''xxxx'',
          aud_fields = [''details'']\<rparr>],
    logbook = ()\<rparr>"

section \<open>The steps\<close>

lemma shop1_drafted: "\<exists>r. create_draft shop ada (Some (''person'', ''ada'')) ''immediate'' (empty_ledger ()) = Inr (r, shop1)"
proof -
  have "case create_draft shop ada (Some (''person'', ''ada'')) ''immediate'' (empty_ledger ()) of
          Inr (r, s) \<Rightarrow> s = shop1 | Inl _ \<Rightarrow> False" by code_simp
  then show ?thesis by (auto split: sum.splits)
qed

lemma shop2_item: "change_item shop ada [] [] boards Add_Item shop1 = Inr shop2"
  by code_simp

lemma shop3_run: "run_command shop ada [] checkout Checkout_Order shop2 = Inr ([], shop3m)"
  by code_simp

lemma shop4_run: "run_create shop ada [] invoice_wish shop3 = Inr ((Some [], ''xxxx''), shop4m)"
  by code_simp

lemma load_order_found: "lock_order s i = Inr r \<Longrightarrow> \<exists>v. load_order s i = Inr v"
  by (simp add: load_order_def Let_def)

lemma once_fresh:
  assumes "begin_operation s key kind print = Inr None" "f s = Inr (i, s1)"
    "lock_order (finish_operation p key kind print i s1) i = Inr r"
  shows "\<exists>v. once key kind print p again f s = Inr (finish_operation p key kind print i s1, v)"
  using assms load_order_found[OF assms(3)] by (auto simp: once_def Let_def and_then_Inr_iff)

lemma shop3_checkout: "\<exists>v. order_command shop ada [] checkout Checkout_Order shop2 = Inr (shop3, v)"
proof -
  have print: "print_command shop (act_account ada) ''order.checkout'' [] checkout = ''accountorder.checkout''"
    by (simp add: shop_def ada_def)
  have fresh: "begin_operation shop2 (oc_key checkout) ''order.checkout'' ''accountorder.checkout'' = Inr None" by code_simp
  have done_at: "finish_operation ada (oc_key checkout) ''order.checkout'' ''accountorder.checkout'' [] shop3m = shop3" by code_simp
  have lock: "lock_order shop3 [] = Inr (hd (orders shop3))" by (simp add: lock_order_def row_at_def shop3_def)
  have "order_command shop ada [] checkout Checkout_Order shop2 =
      once (oc_key checkout) ''order.checkout'' (print_command shop (act_account ada) ''order.checkout'' [] checkout) ada
        (expired ''Operation result is unavailable'') (run_command shop ada [] checkout Checkout_Order) shop2"
    by (simp add: order_command_def action_text_def require_def ada_def checkout_def Let_def)
  then show ?thesis
    using once_fresh[where f = "run_command shop ada [] checkout Checkout_Order" and again = "expired ''Operation result is unavailable''"
        and p = ada, OF fresh shop3_run] done_at lock print by simp
qed

lemma shop4_request: "\<exists>q. create_request shop ada [] invoice_wish shop3 = Inr (shop4, q)"
proof -
  have fresh: "begin_operation shop3 ''k2'' ''request.create'' ''accountrequest.create'' = Inr None" by code_simp
  have done_at: "finish_request ada ''k2'' ''request.create'' ''accountrequest.create'' (Some []) ''xxxx'' shop4m = Inr shop4" by code_simp
  have load: "\<exists>q. load_request shop4 ''xxxx'' = Inr q" by (simp add: load_request_def row_at_def shop4_def)
  have "create_request shop ada [] invoice_wish shop3 =
      once_request ''k2'' ''request.create'' ''accountrequest.create'' ada (run_create shop ada [] invoice_wish) shop3"
    by (simp add: create_request_def require_def ada_def invoice_wish_def shop_def)
  then show ?thesis using fresh done_at load shop4_run by (auto simp: once_request_def and_then_Inr_iff)
qed

lemma shop_ids: "inj (oe_id shop)"
proof (rule injI)
  fix m n assume "oe_id shop m = oe_id shop n"
  then have "length (replicate m (CHR ''x'')) = length (replicate n (CHR ''x''))" by (simp add: shop_def)
  then show "m = n" by simp
qed

lemma shop3_history: "order_history (oe_id shop) shop3"
proof -
  have "order_history (oe_id shop) shop1"
    by (rule history_step[OF history_start refl]) (use shop1_drafted step_draft in blast)
  then have "order_history (oe_id shop) shop2"
    by (rule history_step[OF _ refl]) (rule step_item[OF shop2_item])
  then show ?thesis
    by (rule history_step[OF _ refl]) (use shop3_checkout step_command in blast)
qed

lemma shop4_history: "order_history (oe_id shop) shop4"
  by (rule history_step[OF shop3_history refl]) (use shop4_request step_create_request in blast)

section \<open>Ada pays the rest herself\<close>

definition rest_in_parts :: own_payment where
  "rest_in_parts = \<lparr>wp_key = ''k3'', wp_orders = [[]], wp_jobs = [],
     wp_payments = [\<lparr>pi_method = ''cash'', pi_amount = ''0.01'', pi_at = 1, pi_source = [], pi_external = [], pi_split = 0\<rparr>,
       \<lparr>pi_method = ''card'', pi_amount = ''0.02'', pi_at = 1, pi_source = ''T1'', pi_external = ''42'', pi_split = 0\<rparr>],
     wp_total = ''0.03''\<rparr>"

definition rest_parts :: "payment_input list" where
  "rest_parts = [\<lparr>pi_method = ''cash'', pi_amount = ''0.01'', pi_at = 1, pi_source = [], pi_external = [], pi_split = 1\<rparr>,
       \<lparr>pi_method = ''card'', pi_amount = ''0.02'', pi_at = 1, pi_source = ''T1'', pi_external = ''42'', pi_split = 1\<rparr>]"

lemma zero_digits: "digits_of 10 0 = ''0''" by code_simp

lemma small_money: "money 1 = ''0.01''" "money 2 = ''0.02''"
  by (simp_all add: money_def Let_def zero_digits digit_char_def char_of_def bit_0)

lemma rest_valid: "validate_own_payment rest_in_parts = Inr ([[]], [], 3)" by code_simp

lemma rest_entries:
  "payment_entries (wp_payments rest_in_parts) = Inr [(hd (wp_payments rest_in_parts), 1, 0), (hd (tl (wp_payments rest_in_parts)), 2, 0)]"
  by code_simp

lemma rest_slices:
  "slices 3 [(hd (wp_payments rest_in_parts), 1, 0), (hd (tl (wp_payments rest_in_parts)), 2, 0)] =
     Some (rest_parts, [(hd (tl (wp_payments rest_in_parts)), 0, 1)])"
  by (simp add: slices.simps Let_def rest_in_parts_def rest_parts_def small_money)

lemma rest_receipts: "\<exists>s'. run_all (receipt shop ada (hd (orders shop3)) ''k3'') rest_parts shop3 = Inr s'"
proof -
  have "case run_all (receipt shop ada (hd (orders shop3)) ''k3'') rest_parts shop3 of Inr _ \<Rightarrow> True | Inl _ \<Rightarrow> False"
    by code_simp
  then show ?thesis by (auto split: sum.splits)
qed

lemma rest_targets: "own_targets ada shop3 [[]] = Inr [(hd (orders shop3), 3)]"
proof -
  have "row_at or_id [] (orders shop3) = Some (hd (orders shop3))" by (simp add: row_at_def shop3_def)
  moreover have "load_order shop3 [] = Inr v \<Longrightarrow> payable_balance v = 3" for v
    by (auto simp: load_order_def lock_order_def Let_def row_at_def net_charge_def gross_total_def sum_allocations_def active_request_def
        payable_balance_def cents_money shop3_def)
  moreover have "\<exists>v. load_order shop3 [] = Inr v" by (rule load_order_found) (simp add: lock_order_def row_at_def shop3_def)
  ultimately show ?thesis by (auto simp: shop3_def ada_def)
qed

lemma rest_paid: "\<exists>s' res. pay_own shop ada rest_in_parts shop3 = Inr (s', res)"
proof -
  have key: "wp_key rest_in_parts = ''k3''" "wp_jobs rest_in_parts = []" by (simp_all add: rest_in_parts_def)
  have "begin_operation shop3 ''k3'' ''payment.own'' x = Inr None" for x
    by (simp add: begin_operation_def row_at_def shop3_def)
  moreover have "\<exists>x. run_own_payment shop ada rest_in_parts [[]] [] 3 shop3 = Inr x"
    using rest_receipts by (auto simp: run_own_payment_def rest_targets settle_in_full_def rest_entries rest_slices key Let_def ensure_def
        simp del: own_targets.simps)
  ultimately show ?thesis
    by (auto simp: pay_own_def rest_valid key require_def ada_def Let_def)
qed

end
