(* ===== verification/Stock_Example.thy ===== *)
theory Stock_Example
  imports Stock_Facts Order_Example
begin

text \<open>
  A concrete history of the inventory, evaluated state by state: an article, a purchase, a sale of an order; or a
  delivery of two spools, one of which is discarded. It shows that the histories of \<open>Stock_Reachable\<close> are not empty.
\<close>

section \<open>The environment and the inputs\<close>

definition store :: stock_env where
  "store = \<lparr>se_now = 1000, se_id = (\<lambda>n. replicate (Suc n) (CHR ''x'')),
     se_decimal = (\<lambda>t. if t = ''3'' then Some 3 else if t = ''2'' then Some 2 else if t = ''1'' then Some 1
        else if t = ''0.02'' then Some (1 / 50) else if t = ''0.05'' then Some (1 / 20) else None),
     se_upper = (\<lambda>t. t), se_fold = (\<lambda>t. t), se_lower = (\<lambda>t. t)\<rparr>"

definition pla :: article where
  "pla = \<lparr>ar_id = [], ar_kind = ''filament'', ar_unit = ''g'', ar_code = ''PLA'', ar_variant = None, ar_color = Some ''RED'',
     ar_diameter = True, ar_package = None, ar_location = None, ar_active = True, ar_deleted = False, ar_version = 0,
     ar_quantity = 0, ar_value = 0, ar_average = 0, ar_stock_version = 0\<rparr>"

definition delivery :: receipt_input where
  "delivery = \<lparr>rc_article = Some ''x'', rc_new = None, rc_version = 2, rc_count = 2, rc_size = Some ''1'', rc_total = ''0.05'',
     rc_supplier = None, rc_reference = None, rc_note = None, rc_at = 500,
     rc_placement = Some \<lparr>pl_mode = New_Spools, pl_tare = None, pl_location = None, pl_tags = []\<rparr>\<rparr>"


definition vals :: receipt_values where
  "vals = \<lparr>rv_count = 2, rv_size = 1, rv_price = 1 / 20, rv_mode = New_Spools, rv_tare = None, rv_location = None,
     rv_supplier = None, rv_reference = None, rv_tags = []\<rparr>"

section \<open>The states\<close>

definition stock1 :: stock where
  "stock1 = \<lparr>articles =
    [\<lparr>ar_id = ''x'', ar_kind = ''filament'', ar_unit = ''g'',
        ar_code = ''PLA'', ar_variant = None, ar_color = Some ''RED'',
        ar_diameter = True, ar_package = None, ar_location = None,
        ar_active = True, ar_deleted = False, ar_version = 1,
        ar_quantity = 0, ar_value = 0, ar_average = 0,
        ar_stock_version = 1\<rparr>],
    spools = [], spool_tags = [], mounts = [], stock_entries = [],
    stock_drawn = 1,
    stock_audit =
      [\<lparr>aud_account = ''account'', aud_action = ''material.created'',
          aud_resource = ''material'', aud_id = ''x'',
          aud_fields =
            [''name'', ''materialTypeId'', ''colorName'', ''colorHex'',
             ''unit'', ''lowStockThreshold'', ''variant'', ''manufacturer'',
             ''packageSize'', ''countLabel'', ''storageLocation'',
             ''notes'']\<rparr>]\<rparr>"

definition stock2 :: stock where
  "stock2 = \<lparr>articles =
    [\<lparr>ar_id = ''x'', ar_kind = ''filament'', ar_unit = ''g'',
        ar_code = ''PLA'', ar_variant = None, ar_color = Some ''RED'',
        ar_diameter = True, ar_package = None, ar_location = None,
        ar_active = True, ar_deleted = False, ar_version = 1,
        ar_quantity = 3000000, ar_value = 20000, ar_average = 6667,
        ar_stock_version = 2\<rparr>],
    spools = [], spool_tags = [], mounts = [],
    stock_entries =
      [\<lparr>en_id = ''xx'', en_article = ''x'', en_kind = Purchase,
          en_quantity = 3000000, en_cost = 6667, en_value = 20000,
          en_total = Some 2, en_at = 500, en_supplier = None,
          en_note = None, en_reason = None, en_reference = None,
          en_usage = None, en_item = None, en_spool = None, en_from = None,
          en_to = None, en_moved = None, en_deleted = False\<rparr>],
    stock_drawn = 2,
    stock_audit =
      [\<lparr>aud_account = ''account'', aud_action = ''material.created'',
          aud_resource = ''material'', aud_id = ''x'',
          aud_fields =
            [''name'', ''materialTypeId'', ''colorName'', ''colorHex'',
             ''unit'', ''lowStockThreshold'', ''variant'', ''manufacturer'',
             ''packageSize'', ''countLabel'', ''storageLocation'',
             ''notes'']\<rparr>,
       \<lparr>aud_account = ''account'', aud_action = ''inventory.purchase'',
          aud_resource = ''material'', aud_id = ''x'',
          aud_fields =
            [''quantity'', ''inventoryValue'', ''inventoryVersion'']\<rparr>]\<rparr>"

definition stock3 :: stock where
  "stock3 = \<lparr>articles =
    [\<lparr>ar_id = ''x'', ar_kind = ''filament'', ar_unit = ''g'',
        ar_code = ''PLA'', ar_variant = None, ar_color = Some ''RED'',
        ar_diameter = True, ar_package = None, ar_location = None,
        ar_active = True, ar_deleted = False, ar_version = 1,
        ar_quantity = 1000000, ar_value = 6666, ar_average = 6666,
        ar_stock_version = 3\<rparr>],
    spools = [], spool_tags = [], mounts = [],
    stock_entries =
      [\<lparr>en_id = ''xx'', en_article = ''x'', en_kind = Purchase,
          en_quantity = 3000000, en_cost = 6667, en_value = 20000,
          en_total = Some 2, en_at = 500, en_supplier = None,
          en_note = None, en_reason = None, en_reference = None,
          en_usage = None, en_item = None, en_spool = None, en_from = None,
          en_to = None, en_moved = None, en_deleted = False\<rparr>,
       \<lparr>en_id = ''xxx'', en_article = ''x'', en_kind = Order_Sale,
          en_quantity = - 2000000, en_cost = 6667, en_value = - 13334,
          en_total = None, en_at = 1000, en_supplier = None, en_note = None,
          en_reason = None, en_reference = None, en_usage = None,
          en_item = Some ''item'', en_spool = None, en_from = None,
          en_to = None, en_moved = None, en_deleted = False\<rparr>],
    stock_drawn = 3,
    stock_audit =
      [\<lparr>aud_account = ''account'', aud_action = ''material.created'',
          aud_resource = ''material'', aud_id = ''x'',
          aud_fields =
            [''name'', ''materialTypeId'', ''colorName'', ''colorHex'',
             ''unit'', ''lowStockThreshold'', ''variant'', ''manufacturer'',
             ''packageSize'', ''countLabel'', ''storageLocation'',
             ''notes'']\<rparr>,
       \<lparr>aud_account = ''account'', aud_action = ''inventory.purchase'',
          aud_resource = ''material'', aud_id = ''x'',
          aud_fields =
            [''quantity'', ''inventoryValue'', ''inventoryVersion'']\<rparr>,
       \<lparr>aud_account = ''account'', aud_action = ''inventory.order_sale'',
          aud_resource = ''material'', aud_id = ''x'',
          aud_fields =
            [''quantity'', ''inventoryValue'', ''inventoryVersion'']\<rparr>]\<rparr>"

definition stock4 :: stock where
  "stock4 = \<lparr>articles =
    [\<lparr>ar_id = ''x'', ar_kind = ''filament'', ar_unit = ''g'',
        ar_code = ''PLA'', ar_variant = None, ar_color = Some ''RED'',
        ar_diameter = True, ar_package = None, ar_location = None,
        ar_active = True, ar_deleted = False, ar_version = 1,
        ar_quantity = 5000000, ar_value = 70000, ar_average = 14000,
        ar_stock_version = 4\<rparr>],
    spools =
      [\<lparr>sp_id = ''xxx'', sp_label = ''S-PLA-RED-01'', sp_article = ''x'',
          sp_initial = 1000000, sp_tare = None, sp_acquired = Some 0,
          sp_reference = None, sp_location = None, sp_notes = None,
          sp_active = True, sp_archived = None, sp_outcome = None,
          sp_retired = None, sp_version = 2\<rparr>,
       \<lparr>sp_id = ''xxxxx'', sp_label = ''S-PLA-RED-02'', sp_article = ''x'',
          sp_initial = 1000000, sp_tare = None, sp_acquired = Some 0,
          sp_reference = None, sp_location = None, sp_notes = None,
          sp_active = True, sp_archived = None, sp_outcome = None,
          sp_retired = None, sp_version = 2\<rparr>],
    spool_tags = [], mounts = [],
    stock_entries =
      [\<lparr>en_id = ''xx'', en_article = ''x'', en_kind = Purchase,
          en_quantity = 3000000, en_cost = 6667, en_value = 20000,
          en_total = Some 2, en_at = 500, en_supplier = None,
          en_note = None, en_reason = None, en_reference = None,
          en_usage = None, en_item = None, en_spool = None, en_from = None,
          en_to = None, en_moved = None, en_deleted = False\<rparr>,
       \<lparr>en_id = ''xxxx'', en_article = ''x'', en_kind = Purchase,
          en_quantity = 1000000, en_cost = 20000, en_value = 20000,
          en_total = Some 2, en_at = 500, en_supplier = None,
          en_note = None, en_reason = None, en_reference = None,
          en_usage = None, en_item = None, en_spool = Some ''xxx'',
          en_from = None, en_to = None, en_moved = None,
          en_deleted = False\<rparr>,
       \<lparr>en_id = ''xxxxxx'', en_article = ''x'', en_kind = Purchase,
          en_quantity = 1000000, en_cost = 30000, en_value = 30000,
          en_total = Some 3, en_at = 500, en_supplier = None,
          en_note = None, en_reason = None, en_reference = None,
          en_usage = None, en_item = None, en_spool = Some ''xxxxx'',
          en_from = None, en_to = None, en_moved = None,
          en_deleted = False\<rparr>],
    stock_drawn = 6,
    stock_audit =
      [\<lparr>aud_account = ''account'', aud_action = ''material.created'',
          aud_resource = ''material'', aud_id = ''x'',
          aud_fields =
            [''name'', ''materialTypeId'', ''colorName'', ''colorHex'',
             ''unit'', ''lowStockThreshold'', ''variant'', ''manufacturer'',
             ''packageSize'', ''countLabel'', ''storageLocation'',
             ''notes'']\<rparr>,
       \<lparr>aud_account = ''account'', aud_action = ''inventory.purchase'',
          aud_resource = ''material'', aud_id = ''x'',
          aud_fields =
            [''quantity'', ''inventoryValue'', ''inventoryVersion'']\<rparr>,
       \<lparr>aud_account = ''account'',
          aud_action = ''inventory.receipt_recorded'',
          aud_resource = ''material'', aud_id = ''x'',
          aud_fields =
            [''quantity'', ''inventoryValue'', ''inventoryVersion'',
             ''packageCount'', ''packageSize'', ''totalPrice'',
             ''supplier'', ''reference'', ''placement'', ''spools'']\<rparr>]\<rparr>"

definition half :: stock where
  "half = \<lparr>articles =
    [\<lparr>ar_id = ''x'', ar_kind = ''filament'', ar_unit = ''g'',
        ar_code = ''PLA'', ar_variant = None, ar_color = Some ''RED'',
        ar_diameter = True, ar_package = None, ar_location = None,
        ar_active = True, ar_deleted = False, ar_version = 1,
        ar_quantity = 4000000, ar_value = 40000, ar_average = 10000,
        ar_stock_version = 3\<rparr>],
    spools =
      [\<lparr>sp_id = ''xxx'', sp_label = ''S-PLA-RED-01'', sp_article = ''x'',
          sp_initial = 1000000, sp_tare = None, sp_acquired = Some 0,
          sp_reference = None, sp_location = None, sp_notes = None,
          sp_active = True, sp_archived = None, sp_outcome = None,
          sp_retired = None, sp_version = 2\<rparr>],
    spool_tags = [], mounts = [],
    stock_entries =
      [\<lparr>en_id = ''xx'', en_article = ''x'', en_kind = Purchase,
          en_quantity = 3000000, en_cost = 6667, en_value = 20000,
          en_total = Some 2, en_at = 500, en_supplier = None,
          en_note = None, en_reason = None, en_reference = None,
          en_usage = None, en_item = None, en_spool = None, en_from = None,
          en_to = None, en_moved = None, en_deleted = False\<rparr>,
       \<lparr>en_id = ''xxxx'', en_article = ''x'', en_kind = Purchase,
          en_quantity = 1000000, en_cost = 20000, en_value = 20000,
          en_total = Some 2, en_at = 500, en_supplier = None,
          en_note = None, en_reason = None, en_reference = None,
          en_usage = None, en_item = None, en_spool = Some ''xxx'',
          en_from = None, en_to = None, en_moved = None,
          en_deleted = False\<rparr>],
    stock_drawn = 4,
    stock_audit =
      [\<lparr>aud_account = ''account'', aud_action = ''material.created'',
          aud_resource = ''material'', aud_id = ''x'',
          aud_fields =
            [''name'', ''materialTypeId'', ''colorName'', ''colorHex'',
             ''unit'', ''lowStockThreshold'', ''variant'', ''manufacturer'',
             ''packageSize'', ''countLabel'', ''storageLocation'',
             ''notes'']\<rparr>,
       \<lparr>aud_account = ''account'', aud_action = ''inventory.purchase'',
          aud_resource = ''material'', aud_id = ''x'',
          aud_fields =
            [''quantity'', ''inventoryValue'', ''inventoryVersion'']\<rparr>]\<rparr>"

definition stock5 :: stock where
  "stock5 = \<lparr>articles =
    [\<lparr>ar_id = ''x'', ar_kind = ''filament'', ar_unit = ''g'',
        ar_code = ''PLA'', ar_variant = None, ar_color = Some ''RED'',
        ar_diameter = True, ar_package = None, ar_location = None,
        ar_active = True, ar_deleted = False, ar_version = 1,
        ar_quantity = 4000000, ar_value = 56000, ar_average = 14000,
        ar_stock_version = 5\<rparr>],
    spools =
      [\<lparr>sp_id = ''xxx'', sp_label = ''S-PLA-RED-01'', sp_article = ''x'',
          sp_initial = 1000000, sp_tare = None, sp_acquired = Some 0,
          sp_reference = None, sp_location = None, sp_notes = None,
          sp_active = False, sp_archived = Some 1000,
          sp_outcome = Some ''discarded'', sp_retired = Some 1000000,
          sp_version = 3\<rparr>,
       \<lparr>sp_id = ''xxxxx'', sp_label = ''S-PLA-RED-02'', sp_article = ''x'',
          sp_initial = 1000000, sp_tare = None, sp_acquired = Some 0,
          sp_reference = None, sp_location = None, sp_notes = None,
          sp_active = True, sp_archived = None, sp_outcome = None,
          sp_retired = None, sp_version = 2\<rparr>],
    spool_tags = [], mounts = [],
    stock_entries =
      [\<lparr>en_id = ''xx'', en_article = ''x'', en_kind = Purchase,
          en_quantity = 3000000, en_cost = 6667, en_value = 20000,
          en_total = Some 2, en_at = 500, en_supplier = None,
          en_note = None, en_reason = None, en_reference = None,
          en_usage = None, en_item = None, en_spool = None, en_from = None,
          en_to = None, en_moved = None, en_deleted = False\<rparr>,
       \<lparr>en_id = ''xxxx'', en_article = ''x'', en_kind = Purchase,
          en_quantity = 1000000, en_cost = 20000, en_value = 20000,
          en_total = Some 2, en_at = 500, en_supplier = None,
          en_note = None, en_reason = None, en_reference = None,
          en_usage = None, en_item = None, en_spool = Some ''xxx'',
          en_from = None, en_to = None, en_moved = None,
          en_deleted = False\<rparr>,
       \<lparr>en_id = ''xxxxxx'', en_article = ''x'', en_kind = Purchase,
          en_quantity = 1000000, en_cost = 30000, en_value = 30000,
          en_total = Some 3, en_at = 500, en_supplier = None,
          en_note = None, en_reason = None, en_reference = None,
          en_usage = None, en_item = None, en_spool = Some ''xxxxx'',
          en_from = None, en_to = None, en_moved = None,
          en_deleted = False\<rparr>,
       \<lparr>en_id = ''xxxxxxx'', en_article = ''x'', en_kind = Disposal,
          en_quantity = - 1000000, en_cost = 14000, en_value = - 14000,
          en_total = None, en_at = 1000, en_supplier = None, en_note = None,
          en_reason = Some ''disposed'', en_reference = None,
          en_usage = None, en_item = None, en_spool = Some ''xxx'',
          en_from = None, en_to = None, en_moved = None,
          en_deleted = False\<rparr>],
    stock_drawn = 7,
    stock_audit =
      [\<lparr>aud_account = ''account'', aud_action = ''material.created'',
          aud_resource = ''material'', aud_id = ''x'',
          aud_fields =
            [''name'', ''materialTypeId'', ''colorName'', ''colorHex'',
             ''unit'', ''lowStockThreshold'', ''variant'', ''manufacturer'',
             ''packageSize'', ''countLabel'', ''storageLocation'',
             ''notes'']\<rparr>,
       \<lparr>aud_account = ''account'', aud_action = ''inventory.purchase'',
          aud_resource = ''material'', aud_id = ''x'',
          aud_fields =
            [''quantity'', ''inventoryValue'', ''inventoryVersion'']\<rparr>,
       \<lparr>aud_account = ''account'',
          aud_action = ''inventory.receipt_recorded'',
          aud_resource = ''material'', aud_id = ''x'',
          aud_fields =
            [''quantity'', ''inventoryValue'', ''inventoryVersion'',
             ''packageCount'', ''packageSize'', ''totalPrice'',
             ''supplier'', ''reference'', ''placement'', ''spools'']\<rparr>,
       \<lparr>aud_account = ''account'', aud_action = ''filament_spool.retired'',
          aud_resource = ''filament_spool'', aud_id = ''xxx'',
          aud_fields =
            [''lifecycle'', ''retiredOutcome'', ''mounted'',
             ''identifiers'', ''inventory'']\<rparr>]\<rparr>"

definition stock6 :: stock where
  "stock6 = \<lparr>articles =
    [\<lparr>ar_id = ''x'', ar_kind = ''filament'', ar_unit = ''g'',
        ar_code = ''PLA'', ar_variant = None, ar_color = Some ''RED'',
        ar_diameter = True, ar_package = None, ar_location = None,
        ar_active = True, ar_deleted = False, ar_version = 1,
        ar_quantity = 5000000, ar_value = 70000, ar_average = 14000,
        ar_stock_version = 6\<rparr>],
    spools =
      [\<lparr>sp_id = ''xxx'', sp_label = ''S-PLA-RED-01'', sp_article = ''x'',
          sp_initial = 1000000, sp_tare = None, sp_acquired = Some 0,
          sp_reference = None, sp_location = None, sp_notes = None,
          sp_active = False, sp_archived = Some 1000,
          sp_outcome = Some ''discarded'', sp_retired = Some 1000000,
          sp_version = 4\<rparr>,
       \<lparr>sp_id = ''xxxxx'', sp_label = ''S-PLA-RED-02'', sp_article = ''x'',
          sp_initial = 1000000, sp_tare = None, sp_acquired = Some 0,
          sp_reference = None, sp_location = None, sp_notes = None,
          sp_active = True, sp_archived = None, sp_outcome = None,
          sp_retired = None, sp_version = 2\<rparr>],
    spool_tags = [], mounts = [],
    stock_entries =
      [\<lparr>en_id = ''xx'', en_article = ''x'', en_kind = Purchase,
          en_quantity = 3000000, en_cost = 6667, en_value = 20000,
          en_total = Some 2, en_at = 500, en_supplier = None,
          en_note = None, en_reason = None, en_reference = None,
          en_usage = None, en_item = None, en_spool = None, en_from = None,
          en_to = None, en_moved = None, en_deleted = False\<rparr>,
       \<lparr>en_id = ''xxxx'', en_article = ''x'', en_kind = Purchase,
          en_quantity = 1000000, en_cost = 20000, en_value = 20000,
          en_total = Some 2, en_at = 500, en_supplier = None,
          en_note = None, en_reason = None, en_reference = None,
          en_usage = None, en_item = None, en_spool = Some ''xxx'',
          en_from = None, en_to = None, en_moved = None,
          en_deleted = False\<rparr>,
       \<lparr>en_id = ''xxxxxx'', en_article = ''x'', en_kind = Purchase,
          en_quantity = 1000000, en_cost = 30000, en_value = 30000,
          en_total = Some 3, en_at = 500, en_supplier = None,
          en_note = None, en_reason = None, en_reference = None,
          en_usage = None, en_item = None, en_spool = Some ''xxxxx'',
          en_from = None, en_to = None, en_moved = None,
          en_deleted = False\<rparr>,
       \<lparr>en_id = ''xxxxxxx'', en_article = ''x'', en_kind = Disposal,
          en_quantity = - 1000000, en_cost = 14000, en_value = - 14000,
          en_total = None, en_at = 1000, en_supplier = None, en_note = None,
          en_reason = Some ''disposed'', en_reference = None,
          en_usage = None, en_item = None, en_spool = Some ''xxx'',
          en_from = None, en_to = None, en_moved = None,
          en_deleted = True\<rparr>],
    stock_drawn = 7,
    stock_audit =
      [\<lparr>aud_account = ''account'', aud_action = ''material.created'',
          aud_resource = ''material'', aud_id = ''x'',
          aud_fields =
            [''name'', ''materialTypeId'', ''colorName'', ''colorHex'',
             ''unit'', ''lowStockThreshold'', ''variant'', ''manufacturer'',
             ''packageSize'', ''countLabel'', ''storageLocation'',
             ''notes'']\<rparr>,
       \<lparr>aud_account = ''account'', aud_action = ''inventory.purchase'',
          aud_resource = ''material'', aud_id = ''x'',
          aud_fields =
            [''quantity'', ''inventoryValue'', ''inventoryVersion'']\<rparr>,
       \<lparr>aud_account = ''account'',
          aud_action = ''inventory.receipt_recorded'',
          aud_resource = ''material'', aud_id = ''x'',
          aud_fields =
            [''quantity'', ''inventoryValue'', ''inventoryVersion'',
             ''packageCount'', ''packageSize'', ''totalPrice'',
             ''supplier'', ''reference'', ''placement'', ''spools'']\<rparr>,
       \<lparr>aud_account = ''account'', aud_action = ''filament_spool.retired'',
          aud_resource = ''filament_spool'', aud_id = ''xxx'',
          aud_fields =
            [''lifecycle'', ''retiredOutcome'', ''mounted'',
             ''identifiers'', ''inventory'']\<rparr>,
       \<lparr>aud_account = ''account'',
          aud_action = ''inventory.transaction_deleted'',
          aud_resource = ''material'', aud_id = ''x'',
          aud_fields =
            [''quantity'', ''inventoryValue'', ''inventoryVersion'',
             ''ledger'']\<rparr>]\<rparr>"

definition stock7 :: stock where
  "stock7 = \<lparr>articles =
    [\<lparr>ar_id = ''x'', ar_kind = ''filament'', ar_unit = ''g'',
        ar_code = ''PLA'', ar_variant = None, ar_color = Some ''RED'',
        ar_diameter = True, ar_package = None, ar_location = None,
        ar_active = True, ar_deleted = False, ar_version = 1,
        ar_quantity = 6000000, ar_value = 84000, ar_average = 14000,
        ar_stock_version = 7\<rparr>],
    spools =
      [\<lparr>sp_id = ''xxx'', sp_label = ''S-PLA-RED-01'', sp_article = ''x'',
          sp_initial = 1000000, sp_tare = None, sp_acquired = Some 0,
          sp_reference = None, sp_location = None, sp_notes = None,
          sp_active = True, sp_archived = None, sp_outcome = None,
          sp_retired = None, sp_version = 5\<rparr>,
       \<lparr>sp_id = ''xxxxx'', sp_label = ''S-PLA-RED-02'', sp_article = ''x'',
          sp_initial = 1000000, sp_tare = None, sp_acquired = Some 0,
          sp_reference = None, sp_location = None, sp_notes = None,
          sp_active = True, sp_archived = None, sp_outcome = None,
          sp_retired = None, sp_version = 2\<rparr>],
    spool_tags = [], mounts = [],
    stock_entries =
      [\<lparr>en_id = ''xx'', en_article = ''x'', en_kind = Purchase,
          en_quantity = 3000000, en_cost = 6667, en_value = 20000,
          en_total = Some 2, en_at = 500, en_supplier = None,
          en_note = None, en_reason = None, en_reference = None,
          en_usage = None, en_item = None, en_spool = None, en_from = None,
          en_to = None, en_moved = None, en_deleted = False\<rparr>,
       \<lparr>en_id = ''xxxx'', en_article = ''x'', en_kind = Purchase,
          en_quantity = 1000000, en_cost = 20000, en_value = 20000,
          en_total = Some 2, en_at = 500, en_supplier = None,
          en_note = None, en_reason = None, en_reference = None,
          en_usage = None, en_item = None, en_spool = Some ''xxx'',
          en_from = None, en_to = None, en_moved = None,
          en_deleted = False\<rparr>,
       \<lparr>en_id = ''xxxxxx'', en_article = ''x'', en_kind = Purchase,
          en_quantity = 1000000, en_cost = 30000, en_value = 30000,
          en_total = Some 3, en_at = 500, en_supplier = None,
          en_note = None, en_reason = None, en_reference = None,
          en_usage = None, en_item = None, en_spool = Some ''xxxxx'',
          en_from = None, en_to = None, en_moved = None,
          en_deleted = False\<rparr>,
       \<lparr>en_id = ''xxxxxxx'', en_article = ''x'', en_kind = Disposal,
          en_quantity = - 1000000, en_cost = 14000, en_value = - 14000,
          en_total = None, en_at = 1000, en_supplier = None, en_note = None,
          en_reason = Some ''disposed'', en_reference = None,
          en_usage = None, en_item = None, en_spool = Some ''xxx'',
          en_from = None, en_to = None, en_moved = None, en_deleted = True\<rparr>,
       \<lparr>en_id = ''xxxxxxxx'', en_article = ''x'', en_kind = Adjustment,
          en_quantity = 1000000, en_cost = 14000, en_value = 14000,
          en_total = None, en_at = 1000, en_supplier = None,
          en_note = Some ''The spool came back from the recycle bin'',
          en_reason = Some ''other'', en_reference = None, en_usage = None,
          en_item = None, en_spool = Some ''xxx'', en_from = None,
          en_to = None, en_moved = None, en_deleted = False\<rparr>],
    stock_drawn = 8,
    stock_audit =
      [\<lparr>aud_account = ''account'', aud_action = ''material.created'',
          aud_resource = ''material'', aud_id = ''x'',
          aud_fields =
            [''name'', ''materialTypeId'', ''colorName'', ''colorHex'',
             ''unit'', ''lowStockThreshold'', ''variant'', ''manufacturer'',
             ''packageSize'', ''countLabel'', ''storageLocation'',
             ''notes'']\<rparr>,
       \<lparr>aud_account = ''account'', aud_action = ''inventory.purchase'',
          aud_resource = ''material'', aud_id = ''x'',
          aud_fields =
            [''quantity'', ''inventoryValue'', ''inventoryVersion'']\<rparr>,
       \<lparr>aud_account = ''account'',
          aud_action = ''inventory.receipt_recorded'',
          aud_resource = ''material'', aud_id = ''x'',
          aud_fields =
            [''quantity'', ''inventoryValue'', ''inventoryVersion'',
             ''packageCount'', ''packageSize'', ''totalPrice'',
             ''supplier'', ''reference'', ''placement'', ''spools'']\<rparr>,
       \<lparr>aud_account = ''account'', aud_action = ''filament_spool.retired'',
          aud_resource = ''filament_spool'', aud_id = ''xxx'',
          aud_fields =
            [''lifecycle'', ''retiredOutcome'', ''mounted'',
             ''identifiers'', ''inventory'']\<rparr>,
       \<lparr>aud_account = ''account'',
          aud_action = ''inventory.transaction_deleted'',
          aud_resource = ''material'', aud_id = ''x'',
          aud_fields =
            [''quantity'', ''inventoryValue'', ''inventoryVersion'',
             ''ledger'']\<rparr>,
       \<lparr>aud_account = ''account'', aud_action = ''filament_spool.restored'',
          aud_resource = ''filament_spool'', aud_id = ''xxx'',
          aud_fields =
            [''lifecycle'', ''displayId'', ''identifiers'',
             ''inventory'']\<rparr>]\<rparr>"

section \<open>Evaluation\<close>

lemma rat_floors:
  "\<lfloor>numeral m / numeral n :: rat\<rfloor> = numeral m div numeral n" "\<lfloor>1 / numeral n :: rat\<rfloor> = 1 div numeral n"
  using floor_divide_of_int_eq[of "numeral m" "numeral n", where ?'a = rat] floor_divide_of_int_eq[of 1 "numeral n", where ?'a = rat] by simp_all

lemma drawn_ids: "replicate 2 (CHR ''x'') = ''xx''" "replicate 3 (CHR ''x'') = ''xxx''" "replicate 4 (CHR ''x'') = ''xxxx''"
  "replicate 5 (CHR ''x'') = ''xxxxx''" "replicate 6 (CHR ''x'') = ''xxxxxx''" "replicate 7 (CHR ''x'') = ''xxxxxxx''"
  by (simp_all add: numeral_eq_Suc)

lemmas statements = and_then_def ensure_def Let_def lock_article_def lock_spool_def lock_consumable_def find_row_def row_at_def row_put_def
  require_def draw_stock_id_def log_stock_def audit_entry_def update_balance_def insert_entry_def entry_taken_def bump_spool_def
  spool_effect_def spool_remaining_def allocated_quantity_def movement_entry_def plain_movement_def trimmed_def check_source_def
  apply_movement_def kind_text_def entry_valid_def short_text_def entry_reasons_def drawn_ids

lemmas decimals = of_units_def to_units_def round_away_def settle_value_def average_cost_def decimal_div_def decimal_round_def rat_floors

lemma back_text: "trim_space ''The spool came back from the recycle bin'' = ''The spool came back from the recycle bin''"
  "rune_count ''The spool came back from the recycle bin'' = 40"
  by code_simp+

lemma label_texts: "rune_count ''S-PLA-RED-01'' = 12" "rune_count ''S-PLA-RED-02'' = 12"
  by code_simp+

lemma number_texts: "trim_space ''3'' = ''3''" "trim_space ''0.02'' = ''0.02''" "trim_space ''1'' = ''1''" "trim_space ''0.05'' = ''0.05''"
  by code_simp+

section \<open>The steps\<close>

lemma stock1_step: "create_article store ada pla no_stock = (''x'', stock1)"
  by (simp add: create_article_def no_stock_def statements stock1_def store_def pla_def ada_def)

lemma stock2_step: "\<exists>e. add_purchase store ada ''x'' 1 ''3'' ''0.02'' 500 None None None stock1 = Inr (e, stock2)"
  by (simp add: add_purchase_def parse_decimal_def parse_nonnegative_def valid_text_def zero_time_def number_texts statements decimals
      stock1_def stock2_def store_def ada_def)

lemma stock3_step: "sell_from store ada [(''x'', ''item'', 2000000)] stock2 = Inr stock3"
  by (simp add: sell_from_def sell_item_def sale_value_def lock_articles_def statements decimals stock2_def stock3_def store_def ada_def)

lemma first_label: "next_label (label_prefix store (hd (articles stock2))) stock2 = ''S-PLA-RED-01''" by code_simp

lemma second_label: "next_label (label_prefix store (hd (articles stock2))) half = ''S-PLA-RED-02''" by code_simp

lemma first_spool: "receive_spool store ada delivery vals (hd (articles stock2)) 2 stock2 = Inr half"
  unfolding receive_spool_def first_label
  by (simp add: book_purchase_def insert_spool_def day_start_def label_texts statements decimals
      stock2_def half_def store_def ada_def delivery_def vals_def del: rune_count.simps)

lemma second_spool: "receive_spool store ada delivery vals (hd (articles stock2)) 3 half = Inr (stock4\<lparr>stock_audit := stock_audit stock2\<rparr>)"
  unfolding receive_spool_def second_label
  by (simp add: book_purchase_def insert_spool_def day_start_def label_texts statements decimals
      stock2_def half_def stock4_def store_def ada_def delivery_def vals_def del: rune_count.simps)

lemma delivery_valid: "validate_receipt store delivery = Inr vals"
  by (simp add: validate_receipt_def package_size_def receipt_price_def check_placement_def parse_tare_def valid_text_def validate_tags_def
      parse_decimal_def number_texts zero_time_def minute_def statements decimals store_def delivery_def vals_def)

lemma delivery_split: "split_cents 5 2 = [2, 3]" by code_simp

lemma stock4_step: "receive_stock store ada delivery stock2 = Inr stock4"
proof -
  have a: "receipt_article store ada delivery stock2 = Inr (''x'', stock2)" "lock_article stock2 ''x'' = Inr (hd (articles stock2))"
      "article_supply (hd (articles stock2)) vals = Inr vals" "require ada ps = Inr ()" for ps
    by (simp_all add: receipt_article_def article_supply_def statements stock2_def delivery_def vals_def ada_def list_all_iff)
  have "to_units 2 (rv_price vals) = 5" "rv_count vals = 2" "rv_mode vals = New_Spools" by (simp_all add: decimals vals_def)
  then have "book_delivery store ada delivery vals (hd (articles stock2)) stock2 = Inr (stock4\<lparr>stock_audit := stock_audit stock2\<rparr>)"
    by (simp add: book_delivery_def delivery_split first_spool second_spool)
  moreover have "log_stock ada ''inventory.receipt_recorded'' ''material'' ''x'' [''quantity'', ''inventoryValue'', ''inventoryVersion'',
      ''packageCount'', ''packageSize'', ''totalPrice'', ''supplier'', ''reference'', ''placement'', ''spools'']
      (stock4\<lparr>stock_audit := stock_audit stock2\<rparr>) = stock4"
    by (simp add: log_stock_def audit_entry_def stock2_def stock4_def ada_def)
  ultimately show ?thesis by (simp add: receive_stock_def delivery_valid a)
qed

lemma stock5_step: "retire_spool store ada ''xxx'' 2 ''discarded'' stock4 = Inr stock5"
  by (simp add: retire_spool_def write_off_def unmount_def retire_tags_def statements decimals stock4_def stock5_def store_def ada_def)

lemma stock6_step: "delete_entry ada ''xxxxxxx'' 5 stock5 = Inr stock6"
  by (simp add: delete_entry_def toggle_entry_def find_entry_def entry_spools_def settle_toggled_def check_remaining_def statements decimals
      stock5_def stock6_def ada_def)

lemma stock7_step: "restore_spool store ada ''xxx'' 4 stock6 = Inr stock7"
  by (simp add: restore_spool_def restored_label_def put_restored_def restore_tags_def back_text label_texts statements decimals
      stock6_def stock7_def store_def ada_def
      del: rune_count.simps)

lemma inj_store: "inj (se_id store)"
proof (rule injI)
  fix m n assume "se_id store m = se_id store n"
  from arg_cong[OF this, of length] show "m = n" by (simp add: store_def)
qed

end
