(* ===== verification/Stock_Properties.thy ===== *)
theory Stock_Properties
  imports Stock_Links Stock_Example
begin

text \<open>
  What holds of the inventory: stock is never negative, references resolve, a sale that is taken back leaves the
  balance as it was, packages land on spools to the cent, labels are free; and where the rounded average and the
  recycle bin get in the way.
\<close>

lemma stock2_history: "stock_history (se_id store) stock2"
proof -
  have "stock_history (se_id store) stock1"
    by (rule next_step[OF start article_created[OF stock1_step refl]])
  then show ?thesis using stock2_step next_step purchased[OF _ refl] by blast
qed

lemma stock3_history: "stock_history (se_id store) stock3"
  by (rule next_step[OF stock2_history sold[OF stock3_step refl]])

lemma stock5_history: "stock_history (se_id store) stock5"
  by (rule next_step[OF next_step[OF stock2_history received[OF stock4_step refl]] spool_retired[OF stock5_step refl]])

text \<open>None of these steps changes the flag of an entry.\<close>

lemma stock5_tidy: "tidy_history (se_id store) stock5"
proof -
  have "tidy_history (se_id store) stock1"
    by (rule tidy_next[OF tidy_start article_created[OF stock1_step refl]]) (simp add: tidy_def no_stock_def)
  moreover have "stock_step (se_id store) stock1 stock2" using stock2_step purchased[OF _ refl] by blast
  ultimately have "tidy_history (se_id store) stock2" by (rule tidy_next) (simp add: tidy_def stock1_def)
  then have "tidy_history (se_id store) stock4"
    by (rule tidy_next[OF _ received[OF stock4_step refl]]) (simp add: tidy_def stock2_def stock4_def)
  then show ?thesis
    by (rule tidy_next[OF _ spool_retired[OF stock5_step refl]]) (simp add: tidy_def stock4_def stock5_def)
qed

text \<open>The first of the two new spools is in a printer.\<close>

definition mounted4 :: stock where
  "mounted4 = stock4\<lparr>mounts := [\<lparr>mo_spool = ''xxx'', mo_from = 700, mo_until = None\<rparr>]\<rparr>"

lemma mounted4_history: "stock_history (se_id store) mounted4"
  unfolding mounted4_def
  by (rule next_step[OF next_step[OF stock2_history received[OF stock4_step refl]] printer_mounts]) (simp add: stock4_def)

section \<open>Balances\<close>

lemma spools_hold_nonneg:
  assumes "stock_ok strict ids s"
  shows "0 \<le> allocated_quantity s i"
  unfolding allocated_alloc alloc_of_sum
  using stock_okD(3)[OF assms] by (auto simp: spool_ok_def intro!: sum_list_nonneg split: if_splits)

text \<open>
  C5: In every state that the operations of the inventory reach, in any order and with any deletion or restoration of
  ledger entries, no article has a negative quantity, value or average cost, no spool holds less than nothing, and the
  live entries of the ledger account for no more than the balance. When on the way no ledger entry was deleted or
  restored while one of its spools was retired (\<open>tidy_history\<close>), the spools in use hold no more than the article has
  (loose stock is not negative), and a retired spool holds nothing. The code does not check that condition; the last
  property of this theory shows what happens without it.
\<close>

theorem stock_never_negative:
  assumes "stock_history ids s" "inj ids"
  shows "(\<forall>a\<in>set (articles s). 0 \<le> ar_quantity a \<and> 0 \<le> ar_value a \<and> 0 \<le> ar_average a \<and> 0 \<le> allocated_quantity s (ar_id a) \<and>
      booked_quantity (stock_entries s) (ar_id a) \<le> ar_quantity a \<and> booked_value (stock_entries s) (ar_id a) \<le> ar_value a) \<and>
    (\<forall>x\<in>set (spools s). 0 \<le> spool_remaining s (sp_id x)) \<and>
    (tidy_history ids s \<longrightarrow>
      (\<forall>a\<in>set (articles s). allocated_quantity s (ar_id a) \<le> ar_quantity a) \<and>
      (\<forall>x\<in>set (spools s). \<not> sp_active x \<longrightarrow> spool_remaining s (sp_id x) = 0))"
proof -
  note ok = history_ok[OF assms]
  have "(\<forall>a\<in>set (articles s). allocated_quantity s (ar_id a) \<le> ar_quantity a) \<and>
      (\<forall>x\<in>set (spools s). \<not> sp_active x \<longrightarrow> spool_remaining s (sp_id x) = 0)" if "tidy_history ids s"
    using stock_okD(2,3)[OF tidy_history_ok[OF that assms(2)]] by (simp add: article_ok_def spool_ok_def allocated_alloc spool_remaining_rem)
  then show ?thesis
    using stock_okD(2,3)[OF ok] spools_hold_nonneg[OF ok] by (simp add: article_ok_def spool_ok_def spool_remaining_rem)
qed

lemma stock_never_negative_witness:
  "0 \<le> allocated_quantity stock5 ''x'' \<and> allocated_quantity stock5 ''x'' \<le> 4000000 \<and> spool_remaining stock5 ''xxx'' = 0"
  using stock_never_negative[OF stock5_history inj_store] stock5_tidy by (simp add: stock5_def)

text \<open>
  C15: In every state that the operations of the inventory reach, in any order, the keys of articles, spools,
  identifiers and entries are unique within their tables, and no two spools in use have the same label. Every spool
  belongs to an article, every entry to an article and to spools of that article, and every identifier and every mount
  to a spool: the foreign keys that the deletions cascade over always resolve.
\<close>

theorem stock_references_resolve:
  assumes "stock_history ids s" "inj ids"
  shows "distinct (map ar_id (articles s)) \<and> distinct (map sp_id (spools s)) \<and> distinct (map en_id (stock_entries s)) \<and>
    distinct (map tg_id (spool_tags s)) \<and> distinct (map sp_label (filter sp_active (spools s))) \<and>
    (\<forall>g\<in>set (spool_tags s). \<exists>x. row_at sp_id (tg_spool g) (spools s) = Some x) \<and>
    (\<forall>m\<in>set (mounts s). \<exists>x. row_at sp_id (mo_spool m) (spools s) = Some x) \<and>
    (\<forall>x\<in>set (spools s). \<exists>a. row_at ar_id (sp_article x) (articles s) = Some a) \<and>
    (\<forall>e\<in>set (stock_entries s). (\<exists>a. row_at ar_id (en_article e) (articles s) = Some a) \<and>
       (\<forall>j\<in>set (entry_spools e). \<exists>x. row_at sp_id j (spools s) = Some x \<and> sp_article x = en_article e))"
proof -
  note r = rows_okD[OF stock_okD(1)[OF history_ok[OF assms]]]
  have art: "\<exists>a. row_at ar_id i (articles s) = Some a" if "i \<in> ar_id ` set (articles s)" for i
    using that row_at_None_iff[of ar_id i "articles s"] by auto
  have sp: "\<exists>x. row_at sp_id j (spools s) = Some x \<and> sp_article x = i" if "j \<in> spools_of s i" for i j
    using that row_at_key[OF r(2)] by (auto simp: spools_of_def)
  have here: "\<exists>x. row_at sp_id j (spools s) = Some x" if "j \<in> sp_id ` set (spools s)" for j
    using that row_at_key[OF r(2)] by auto
  have "\<exists>a. row_at ar_id (sp_article x) (articles s) = Some a" if "x \<in> set (spools s)" for x
    by (rule art[OF r(7)[OF that]])
  moreover have "(\<exists>a. row_at ar_id (en_article e) (articles s) = Some a) \<and>
      (\<forall>j\<in>set (entry_spools e). \<exists>x. row_at sp_id j (spools s) = Some x \<and> sp_article x = en_article e)" if "e \<in> set (stock_entries s)" for e
    using art[OF r(8)[OF that]] sp subsetD[OF r(9)[OF that]] by blast
  moreover have "\<forall>g\<in>set (spool_tags s). \<exists>x. row_at sp_id (tg_spool g) (spools s) = Some x"
      "\<forall>m\<in>set (mounts s). \<exists>x. row_at sp_id (mo_spool m) (spools s) = Some x"
    using linkedD(5,6)[OF history_linked[OF assms]] here by blast+
  ultimately show ?thesis
    using r(1,2,3) linkedD(2)[OF history_linked[OF assms]] labels_distinct[OF r(2) linkedD(7)[OF history_linked[OF assms]]] by simp
qed

lemma stock_references_resolve_witness:
  "(\<exists>x. row_at sp_id (mo_spool (hd (mounts mounted4))) (spools mounted4) = Some x) \<and>
    distinct (map sp_label (filter sp_active (spools mounted4)))"
proof -
  have "hd (mounts mounted4) \<in> set (mounts mounted4)" by (simp add: mounted4_def)
  then show ?thesis using stock_references_resolve[OF mounted4_history inj_store] by blast
qed

section \<open>Sales of orders\<close>

text \<open>
  C7: When the sales of an order are booked and then every one of them is taken back, in any order and at any time,
  every article has the quantity and the inventory value it had before, whatever the averages did in between; taking
  them back once more changes nothing.
\<close>

theorem sale_taken_back_exactly:
  assumes "stock_history (se_id env) s" "inj (se_id env)" "sell_from env p sales s = Inr s1"
    and "\<forall>j\<in>set (sold_items sales). \<not> sale_reversed s j" "mset js = mset (sold_items sales)" "se_id env' = se_id env"
  shows "\<exists>s2. each (restock_order_sale env' q) js s1 = Inr s2 \<and> each (restock_order_sale env' q) js s2 = Inr s2 \<and>
    (\<forall>i. quantity_of s2 i = quantity_of s i \<and> value_of s2 i = value_of s i)"
  by (rule sale_taken_back[OF assms(3) history_ok[OF assms(1,2)] assms(2,4,5,6)])

lemma sale_taken_back_exactly_witness:
  "\<exists>s2. each (restock_order_sale store ada) [''item''] stock3 = Inr s2 \<and> quantity_of s2 ''x'' = 3000000 \<and> value_of s2 ''x'' = 20000"
proof -
  have "quantity_of stock2 ''x'' = 3000000" "value_of stock2 ''x'' = 20000" "\<not> sale_reversed stock2 ''item''"
    by (simp_all add: quantity_of_def value_of_def row_at_def sale_reversed_def stock2_def)
  then show ?thesis
    using sale_taken_back_exactly[OF stock2_history inj_store stock3_step, of "[''item'']" store ada] by auto
qed

section \<open>Receipts\<close>

text \<open>
  C17: A receipt that places n packages on spools adds exactly n spools in use to the article, each holding the size of
  a package (the one entered, or the article's own), leaves every other spool as it was, and adds n times the size to
  the quantity and exactly the price to the inventory value, to the cent, however the price splits.
\<close>

theorem receipt_fills_spools:
  assumes "stock_history (se_id env) s" "inj (se_id env)" "receive_stock env p input s = Inr t"
    and "rc_article input = Some i" "row_at ar_id i (articles s) = Some a"
    and "rc_placement input = Some pl" "pl_mode pl = New_Spools"
  shows "\<exists>n price xs b. package_size env (rc_size input) = Inr n \<and> receipt_price env (rc_total input) = Inr price \<and>
    spools t = spools s @ xs \<and> int (length xs) = rc_count input \<and>
    (\<forall>x\<in>set xs. sp_active x \<and> sp_article x = i \<and> spool_remaining t (sp_id x) = package_units n a) \<and>
    (\<forall>x\<in>set (spools s). spool_remaining t (sp_id x) = spool_remaining s (sp_id x)) \<and>
    row_at ar_id i (articles t) = Some b \<and> ar_quantity b = ar_quantity a + rc_count input * package_units n a \<and>
    micro (ar_value b) = micro (ar_value a) + price"
proof -
  obtain n price where n: "package_size env (rc_size input) = Inr n" "receipt_price env (rc_total input) = Inr price"
      "shelved i (package_units n a) (to_units 2 price) (rc_count input) s t"
    using receive_stock_spools[OF assms(3) history_ok[OF assms(1,2)] assms(2,4-7)] by blast
  have "micro (v + 10000 * to_units 2 price) = micro v + price" for v
  proof -
    have "micro (10000 * to_units 2 price) = of_units 2 (to_units 2 price)" by (simp add: of_units_def)
    then show ?thesis using receipt_price_facts[OF n(2)] by (simp add: of_units_add[symmetric])
  qed
  then show ?thesis using n assms(5) unfolding shelved_def by auto
qed

lemma receipt_fills_spools_witness:
  "\<exists>xs. spools stock4 = spools stock2 @ xs \<and> int (length xs) = 2"
proof -
  have "row_at ar_id ''x'' (articles stock2) = Some (hd (articles stock2))" by (simp add: row_at_def stock2_def)
  then show ?thesis
    using receipt_fills_spools[OF stock2_history inj_store stock4_step, of "''x''" "hd (articles stock2)" "the (rc_placement delivery)"]
    by (auto simp: delivery_def)
qed

section \<open>Labels\<close>

text \<open>
  C19: The label that a new spool gets, and a restored one whose label was taken, is no label of a spool in use, and
  its number is the smallest such: every smaller one is the number in the label of a spool in use that has the prefix.
  (Up to 2^63 - 1 spools, where Atoi ends.)
\<close>

theorem next_label_free_and_smallest:
  assumes "int (length (spools s)) < max_int64"
  shows "(\<forall>x\<in>set (spools s). sp_active x \<longrightarrow> sp_label x \<noteq> next_label prefix s) \<and>
    (\<exists>n. 1 \<le> n \<and> n \<le> int (length (spools s)) + 1 \<and> next_label prefix s = prefix @ ''-'' @ zero_padded 2 n \<and>
      (\<forall>k. 1 \<le> k \<and> k < n \<longrightarrow> (\<exists>x\<in>set (spools s). sp_active x \<and> has_prefix (sp_label x) (prefix @ ''-'') \<and>
         label_number prefix (sp_label x) = Some k)))"
proof -
  let ?used = "used_numbers prefix (spools s)"
  have "first_free ?used 1 \<le> int (length (spools s)) + 1"
    using first_free_bound[of ?used 1] used_numbers_length[of prefix "spools s"] by simp
  moreover have "\<exists>x\<in>set (spools s). sp_active x \<and> has_prefix (sp_label x) (prefix @ ''-'') \<and> label_number prefix (sp_label x) = Some k"
    if "1 \<le> k" "k < first_free ?used 1" for k
    using first_free_spec[of 1 ?used] that used_numbers_iff by blast
  ultimately show ?thesis
    using next_label_unused[OF assms] first_free_spec[of 1 ?used] by (auto simp: next_label_def)
qed

lemma next_label_free_and_smallest_witness:
  "next_label ''S-PLA-RED'' stock4 \<noteq> ''S-PLA-RED-01'' \<and> next_label ''S-PLA-RED'' stock4 \<noteq> ''S-PLA-RED-02''"
proof -
  have "int (length (spools stock4)) < max_int64" by (simp add: stock4_def max_int64_def)
  from next_label_free_and_smallest[OF this, of "''S-PLA-RED''"]
  have "\<forall>x\<in>set (spools stock4). sp_active x \<longrightarrow> sp_label x \<noteq> next_label ''S-PLA-RED'' stock4" by blast
  then show ?thesis by (auto simp: stock4_def)
qed

section \<open>The last of the stock\<close>

text \<open>
  C21: Consuming all that an article holds is refused when the average cost was rounded up, so that quantity times
  average exceeds the inventory value: the last of the stock cannot be consumed or disposed of at its own average,
  though nothing else speaks against it. (A sale takes the whole value with the whole quantity and is accepted.)
\<close>

theorem last_stock_not_consumable:
  assumes "act_has p inventory_manage" "t \<noteq> zero_time" "row_at ar_id i (articles s) = Some a" "\<not> ar_deleted a"
    and "se_decimal env (trim_space text) = Some (micro (ar_quantity a))" "0 < ar_quantity a"
    and "allocated_quantity s i \<le> 0"
    and "micro (ar_value a) + 1 / 10 ^ 9 \<le> micro (ar_quantity a) * micro (ar_average a)"
  shows "record_consumption env p i (ar_stock_version a) text t disposal reason note s = Inl invalid_value"
proof -
  let ?m = "(plain_movement (if disposal then Disposal else Manual_Consumption) (- micro (ar_quantity a)) (micro (ar_average a))
    (- (micro (ar_quantity a) * micro (ar_average a))) t)\<lparr>mu_reason := trimmed reason, mu_note := note\<rparr>"
  have m: "mu_quantity ?m = - micro (ar_quantity a)" "mu_value ?m = - (micro (ar_quantity a) * micro (ar_average a))" "mu_spool ?m = None"
    by (simp_all add: plain_movement_def)
  let ?v = "micro (ar_value a) + - (micro (ar_quantity a) * micro (ar_average a))"
  have "?v \<le> - (1 / 10 ^ 9)" using assms(8) by simp
  then have "settle_value ?v = Inl invalid_value" by (simp add: settle_value_def)
  moreover have "check_source i 0 ?m s = Inr ()" using assms(7) m(3) by (simp add: check_source_def m(1))
  ultimately have "apply_movement env p i (Some (ar_stock_version a)) ?m s = Inl invalid_value"
    using assms(3,4) by (simp add: apply_movement_def lock_article_def find_row_def ensure_def m(1,2) del: lock_articleD)
  then show ?thesis
    using assms(1-6) by (simp add: record_consumption_def require_def parse_decimal_def lock_article_def find_row_def ensure_def del: lock_articleD)
qed

lemma last_stock_not_consumable_witness:
  "record_consumption store ada ''x'' 2 ''3'' 600 False None None stock2 = Inl invalid_value"
proof -
  have "row_at ar_id ''x'' (articles stock2) = Some (hd (articles stock2))" "\<not> ar_deleted (hd (articles stock2))"
    "allocated_quantity stock2 ''x'' \<le> 0" "ar_stock_version (hd (articles stock2)) = 2"
    by (simp_all add: row_at_def allocated_quantity_def stock2_def)
  moreover have "micro (ar_quantity (hd (articles stock2))) = 3" "micro (ar_value (hd (articles stock2))) + 1 / 10 ^ 9
      \<le> 3 * micro (ar_average (hd (articles stock2)))" "0 < ar_quantity (hd (articles stock2))"
    by (simp_all add: of_units_def stock2_def)
  moreover have "se_decimal store (trim_space ''3'') = Some 3" by (simp add: number_texts store_def)
  ultimately show ?thesis
    using last_stock_not_consumable[of ada 600 "''x''" stock2 "hd (articles stock2)" store "''3''"]
    by (simp add: ada_def zero_time_def)
qed

section \<open>The recycle bin and a retired spool\<close>

lemma exact_quantity:
  assumes run: "apply_movement env p i expected m s = Inr (e, s')" and q: "mu_quantity m = micro q"
  shows "quantity_of s' k = quantity_of s k + (if k = i then q else 0)"
proof -
  obtain a w where a: "row_at ar_id i (articles s) = Some a"
      "articles s' = row_put ar_id (moved_article a (micro (ar_quantity a) + mu_quantity m) w) (articles s)"
    by (rule movementE[OF run]) auto
  have "ar_id a = i" "i \<in> ar_id ` set (articles s)" using row_atD[OF a(1)] by auto
  then show ?thesis using a(1) q by (auto simp: quantity_of_def a(2) row_at_put of_units_add)
qed

lemma retire_effects:
  assumes run: "retire_spool env p j v outcome s = Inr s1" and ok: "stock_ok strict (se_id env) s" and inj: "inj (se_id env)"
    and rem: "0 < spool_remaining s j"
  obtains x y e where "row_at sp_id j (spools s) = Some x" "row_at sp_id j (spools s1) = Some y" "sp_article y = sp_article x"
    "sp_outcome y = Some outcome" "sp_retired y = Some (spool_remaining s j)" "stock_entries s1 = stock_entries s @ [e]"
    "en_spool e = Some j" "en_from e = None" "en_to e = None" "en_article e = sp_article x" "en_quantity e = - spool_remaining s j" "\<not> en_deleted e"
    "quantity_of s1 (sp_article x) = quantity_of s (sp_article x) - spool_remaining s j"
proof -
  let ?k = "spool_remaining s j"
  let ?y = "\<lambda>x. x\<lparr>sp_active := False, sp_archived := Some (se_now env), sp_outcome := Some outcome, sp_retired := Some (max ?k 0),
    sp_version := sp_version x + 1\<rparr>"
  obtain x a t where t: "lock_consumable s j = Inr x" "write_off env p x a outcome (max ?k 0) s = Inr t"
      "articles s1 = articles t" "stock_entries s1 = stock_entries t" "spools s1 = row_put sp_id (?y x) (spools t)"
    using run by (auto simp: retire_spool_def and_then_Inr_iff Let_def log_stock_def)
  have x: "row_at sp_id j (spools s) = Some x" "sp_id x = j" "j \<in> sp_id ` set (spools s)"
    using lock_consumableD(1)[OF t(1)] row_atD[OF lock_consumableD(1)[OF t(1)]] by auto
  obtain e m where m: "apply_movement env p (sp_article x) None m s = Inr (e, t)" "mu_spool m = Some (sp_id x)" "mu_keep m"
      "mu_quantity m = - micro (max ?k 0)"
    by (rule write_offE[OF t(2)]) (use rem in simp)
  have q: "mu_quantity m = micro (- ?k)" using m(4) rem by simp
  have e: "stock_entries t = stock_entries s @ [e]" "spools t = spools s" "e = movement_entry (se_id env (stock_drawn s)) (sp_article x) m"
    by (rule movementE[OF m(1)], use m(2,3) in simp)+
  show thesis
    by (rule that[of x "?y x" e])
      (use x t(3,4,5) e m(2) q rem exact_quantity[OF m(1) q, of "sp_article x"] in \<open>auto simp: row_at_put quantity_of_def\<close>)
qed

lemma bump_columns:
  assumes "distinct (map sp_id (spools s))"
  shows "map (\<lambda>x. x\<lparr>sp_version := 0\<rparr>) (spools (fold bump_spool js s)) = map (\<lambda>x. x\<lparr>sp_version := 0\<rparr>) (spools s) \<and>
    articles (fold bump_spool js s) = articles s \<and> stock_entries (fold bump_spool js s) = stock_entries s"
  using assms
proof (induction js arbitrary: s)
  case (Cons j js)
  have "map (\<lambda>x. x\<lparr>sp_version := 0\<rparr>) (spools (bump_spool j s)) = map (\<lambda>x. x\<lparr>sp_version := 0\<rparr>) (spools s)"
  proof (cases "row_at sp_id j (spools s)")
    case (Some x)
    then have "map (\<lambda>x. x\<lparr>sp_version := 0\<rparr>) (row_put sp_id (x\<lparr>sp_version := sp_version x + 1\<rparr>) (spools s)) =
        map (\<lambda>x. x\<lparr>sp_version := 0\<rparr>) (spools s)"
      using key_inj[OF Cons.prems, of x] row_atD[OF Some] by (intro map_row_put) fastforce
    then show ?thesis using Some by (simp add: bump_spool_def)
  qed (simp add: bump_spool_def)
  then show ?case using Cons.IH[of "bump_spool j s"] Cons.prems by simp
qed simp

lemma delete_effects:
  assumes run: "delete_entry q i w s = Inr s'" and ok: "stock_ok strict ids s" and e: "e \<in> set (stock_entries s)" "en_id e = i"
  shows "stock_entries s' = row_put en_id (e\<lparr>en_deleted := True\<rparr>) (stock_entries s)"
    "quantity_of s' (en_article e) = quantity_of s (en_article e) - en_quantity e"
    "map (\<lambda>x. x\<lparr>sp_version := 0\<rparr>) (spools s') = map (\<lambda>x. x\<lparr>sp_version := 0\<rparr>) (spools s)"
proof -
  note r = rows_okD[OF stock_okD(1)[OF ok]]
  have found: "find_entry s i = Inr e" using row_at_key[OF r(3) e(1)] e(2) by (simp add: find_entry_def)
  obtain t where t: "toggle_entry e (Some w) False s = Inr t" "articles s' = articles t" "spools s' = spools t" "stock_entries s' = stock_entries t"
    using run found by (auto simp: delete_entry_def and_then_Inr_iff log_stock_def)
  obtain a n v where a: "row_at ar_id (en_article e) (articles s) = Some a" "n = ar_quantity a + en_quantity e * (if False then 1 else - 1)"
      "each check_remaining (entry_spools e) ((update_balance a (micro n) (micro v) (average_cost a (micro n) (micro v)) s)
        \<lparr>stock_entries := row_put en_id (e\<lparr>en_deleted := \<not> False\<rparr>) (stock_entries s)\<rparr>) = Inr t"
    by (rule toggleE[OF t(1)])
  let ?s = "(update_balance a (micro n) (micro v) (average_cost a (micro n) (micro v)) s)
        \<lparr>stock_entries := row_put en_id (e\<lparr>en_deleted := True\<rparr>) (stock_entries s)\<rparr>"
  have "t = fold bump_spool (entry_spools e) ?s" using check_each_remaining[OF a(3)] by simp
  then have f: "map (\<lambda>x. x\<lparr>sp_version := 0\<rparr>) (spools t) = map (\<lambda>x. x\<lparr>sp_version := 0\<rparr>) (spools s)" "articles t = articles ?s"
      "stock_entries t = stock_entries ?s"
    using bump_columns[of ?s "entry_spools e"] r(2) by simp_all
  show "stock_entries s' = row_put en_id (e\<lparr>en_deleted := True\<rparr>) (stock_entries s)"
    "map (\<lambda>x. x\<lparr>sp_version := 0\<rparr>) (spools s') = map (\<lambda>x. x\<lparr>sp_version := 0\<rparr>) (spools s)"
    using t(3,4) f by simp_all
  show "quantity_of s' (en_article e) = quantity_of s (en_article e) - en_quantity e"
    using row_atD[OF a(1)] a(1,2) imageI[of a "set (articles s)" ar_id] by (auto simp: quantity_of_def t(2) f(2) row_at_put)
qed

lemma restore_effects:
  assumes run: "restore_spool env p j v s = Inr s'" and x: "row_at sp_id j (spools s) = Some x"
    and written: "sp_outcome x = Some ''discarded''" "sp_retired x = Some k" "0 < k"
  obtains e where "stock_entries s' = stock_entries s @ [e]" "en_spool e = Some j" "en_from e = None" "en_to e = None" "\<not> en_deleted e"
    "en_quantity e = k" "quantity_of s' (sp_article x) = quantity_of s (sp_article x) + k"
proof -
  let ?s1 = "\<lambda>a. restore_tags env (sp_archived x) j (s\<lparr>spools := row_put sp_id (x\<lparr>sp_label := restored_label env x a s, sp_active := True,
      sp_archived := None, sp_outcome := None, sp_retired := None, sp_version := sp_version x + 1\<rparr>) (spools s)\<rparr>)"
  let ?m = "\<lambda>a. (plain_movement Adjustment (micro k) (micro (ar_average a)) (micro k * micro (ar_average a)) (se_now env))
    \<lparr>mu_reason := Some ''other'', mu_note := Some ''The spool came back from the recycle bin'', mu_spool := Some j, mu_quiet := True, mu_keep := True\<rparr>"
  obtain a e s2 where t: "apply_movement env p (sp_article x) None (?m a) (?s1 a) = Inr (e, s2)" "articles s' = articles s2"
      "stock_entries s' = stock_entries s2"
    using run x written unfolding restore_spool_def by (auto simp: and_then_Inr_iff put_restored_Inr Let_def log_stock_def)
  have m: "mu_quantity (?m a) = micro k" "mu_spool (?m a) = Some j" by (simp_all add: plain_movement_def)
  have e: "stock_entries s2 = stock_entries s @ [e]" "e = movement_entry (se_id env (stock_drawn (?s1 a))) (sp_article x) (?m a)"
    by (rule movementE[OF t(1)], simp)+
  show thesis
    by (rule that[of e]) (use e m t(2,3) exact_quantity[OF t(1) m(1), of "sp_article x"] in \<open>auto simp: quantity_of_def\<close>)
qed


lemma columns_at:
  assumes "map (\<lambda>x. x\<lparr>sp_version := 0\<rparr>) xs = map (\<lambda>x. x\<lparr>sp_version := 0\<rparr>) ys" "row_at sp_id j ys = Some y"
  shows "\<exists>x. row_at sp_id j xs = Some x \<and> x\<lparr>sp_version := 0\<rparr> = y\<lparr>sp_version := 0\<rparr>"
  using assms
proof (induction xs arbitrary: ys)
  case (Cons x xs)
  then obtain z zs where ys: "ys = z # zs" "x\<lparr>sp_version := 0\<rparr> = z\<lparr>sp_version := 0\<rparr>" by auto
  from arg_cong[OF ys(2), of sp_id] have "sp_id x = sp_id z" by simp
  then show ?case using Cons ys by (auto simp: row_at_def)
qed (simp add: row_at_def)

text \<open>
  C23: Deleting the entry that wrote off a discarded spool, and then restoring the spool, books its stock twice: the
  article ends with more than it had before by what the spool held, and the spool with twice as much. The first gives
  the stock back, the second books what the spool row remembers once more.
\<close>

theorem deleted_write_off_counts_twice:
  assumes "stock_history (se_id env) s" "inj (se_id env)" "row_at sp_id j (spools s) = Some x" "0 < spool_remaining s j"
    and "retire_spool env p j v ''discarded'' s = Inr s1"
    and "delete_entry q (en_id (last (stock_entries s1))) w s1 = Inr s2"
    and "restore_spool env r j u s2 = Inr s3"
  shows "quantity_of s3 (sp_article x) = quantity_of s (sp_article x) + spool_remaining s j \<and>
    spool_remaining s3 j = 2 * spool_remaining s j"
proof -
  let ?k = "spool_remaining s j"
  have ok: "stock_ok False (se_id env) s" "stock_ok False (se_id env) s1"
    using history_ok[OF assms(1,2)] retire_spool_keeps[OF assms(5) _ assms(2)] by simp_all
  obtain x' y e where e: "row_at sp_id j (spools s) = Some x'" "row_at sp_id j (spools s1) = Some y" "sp_article y = sp_article x'"
    "sp_outcome y = Some ''discarded''" "sp_retired y = Some ?k" "stock_entries s1 = stock_entries s @ [e]"
    "en_spool e = Some j" "en_from e = None" "en_to e = None" "en_article e = sp_article x'" "en_quantity e = - ?k" "\<not> en_deleted e"
    "quantity_of s1 (sp_article x') = quantity_of s (sp_article x') - ?k"
    by (rule retire_effects[OF assms(5) ok(1) assms(2,4)])
  have x: "x' = x" using e(1) assms(3) by simp
  note r = rows_okD(3)[OF stock_okD(1)[OF ok(2)]]
  have last: "last (stock_entries s1) = e" "e \<in> set (stock_entries s1)" using e(6) by simp_all
  note d = delete_effects[OF assms(6) ok(2) last(2), unfolded last(1), OF refl]
  have s2: "stock_entries s2 = stock_entries s @ [e\<lparr>en_deleted := True\<rparr>]"
  proof -
    have "en_id e \<notin> en_id ` set (stock_entries s)" using r by (simp add: e(6))
    then have "row_put en_id (e\<lparr>en_deleted := True\<rparr>) (stock_entries s) = stock_entries s" by simp
    then show ?thesis using d(1) by (simp add: e(6) row_put_def)
  qed
  obtain z where z: "row_at sp_id j (spools s2) = Some z" "z\<lparr>sp_version := 0\<rparr> = y\<lparr>sp_version := 0\<rparr>"
    using columns_at[OF d(3) e(2)] by blast
  from arg_cong[OF z(2), of sp_outcome] arg_cong[OF z(2), of sp_retired] arg_cong[OF z(2), of sp_article]
  have cols: "sp_outcome z = Some ''discarded''" "sp_retired z = Some ?k" "sp_article z = sp_article x" using e(3,4,5) x by simp_all
  obtain f where f: "stock_entries s3 = stock_entries s2 @ [f]" "en_spool f = Some j" "en_from f = None" "en_to f = None" "\<not> en_deleted f"
      "en_quantity f = ?k" "quantity_of s3 (sp_article z) = quantity_of s2 (sp_article z) + ?k"
    by (rule restore_effects[OF assms(7) z(1) cols(1,2) assms(4)])
  have "quantity_of s3 (sp_article x) = quantity_of s (sp_article x) + ?k"
    using f(7) cols(3) d(2) e(10,11,13) x by simp
  moreover have "spool_remaining s3 j = 2 * ?k"
  proof -
    have "rem_of (es @ [a, b]) j = rem_of es j + spool_effect j a + spool_effect j b" for es a b by (simp add: rem_of_def)
    then show ?thesis using f(2-6) by (simp add: spool_remaining_rem f(1) s2 spool_effect_def)
  qed
  ultimately show ?thesis by simp
qed

lemma deleted_write_off_counts_twice_witness:
  "quantity_of stock4 ''x'' = 5000000 \<and> quantity_of stock7 ''x'' = 6000000 \<and> spool_remaining stock7 ''xxx'' = 2000000"
proof -
  have h: "stock_history (se_id store) stock4" by (rule next_step[OF stock2_history received[OF stock4_step refl]])
  have l: "en_id (last (stock_entries stock5)) = ''xxxxxxx''" by (simp add: stock5_def)
  have s: "row_at sp_id ''xxx'' (spools stock4) = Some (hd (spools stock4))" "sp_article (hd (spools stock4)) = ''x''"
      "spool_remaining stock4 ''xxx'' = 1000000" "quantity_of stock4 ''x'' = 5000000"
    by (simp_all add: row_at_def spool_remaining_def spool_effect_def quantity_of_def stock4_def)
  show ?thesis
    using deleted_write_off_counts_twice[OF h inj_store s(1) _ stock5_step stock6_step[folded l] stock7_step] s by simp
qed

end
