(* ===== verification/Order_Growth.thy ===== *)
theory Order_Growth
  imports Order_Reachable Own_Settlement "HOL-Library.Sublist"
begin

text \<open>
  The ledger only grows: no operation changes or removes a payment, an allocation, an adjustment, a snapshot, an
  event, an operation key or an entry of the audit log, and an order that has left the draft keeps its row but for
  its version and the step from finalized to reversed.
\<close>

section \<open>The life of an order\<close>

definition life :: "order_row \<Rightarrow> order_row \<Rightarrow> bool" where
  "life r r' \<longleftrightarrow>
     or_id r' = or_id r \<and> or_reference r' = or_reference r \<and> or_replaces r' = or_replaces r \<and> or_version r \<le> or_version r' \<and>
     (or_status r = Draft \<or>
      r' = r\<lparr>or_status := or_status r', or_version := or_version r'\<rparr> \<and>
      (or_status r' = or_status r \<or> or_status r = Finalized \<and> or_status r' = Reversed))"

lemma life_refl [simp]: "life r r"
  by (simp add: life_def)

lemma life_trans: "life r r' \<Longrightarrow> life r' r'' \<Longrightarrow> life r r''"
proof -
  assume a: "life r r'" "life r' r''"
  show "life r r''"
  proof (cases "or_status r = Draft")
    case True
    then show ?thesis using a by (auto simp: life_def)
  next
    case False
    then have r': "r' = r\<lparr>or_status := or_status r', or_version := or_version r'\<rparr>"
        "or_status r' = or_status r \<or> or_status r = Finalized \<and> or_status r' = Reversed"
      using a(1) by (simp_all add: life_def)
    then have "or_status r' \<noteq> Draft" using False by auto
    then have r'': "r'' = r'\<lparr>or_status := or_status r'', or_version := or_version r''\<rparr>"
        "or_status r'' = or_status r' \<or> or_status r' = Finalized \<and> or_status r'' = Reversed"
      using a(2) by (simp_all add: life_def)
    have "r'' = r\<lparr>or_status := or_status r'', or_version := or_version r''\<rparr>"
      by (subst r''(1), subst r'(1)) simp
    then show ?thesis using a r'(2) r''(2) False by (auto simp: life_def)
  qed
qed

text \<open>The rows of the orders that are there keep their place.\<close>

definition rows_live :: "order_row list \<Rightarrow> order_row list \<Rightarrow> bool" where
  "rows_live rs rs' \<longleftrightarrow> length rs \<le> length rs' \<and> (\<forall>k<length rs. life (rs ! k) (rs' ! k))"

lemma rows_live_refl [simp]: "rows_live rs rs"
  by (simp add: rows_live_def)

lemma rows_live_trans: "rows_live rs rs' \<Longrightarrow> rows_live rs' rs'' \<Longrightarrow> rows_live rs rs''"
  using life_trans by (force simp: rows_live_def)

lemma rows_live_map: "(\<And>r. r \<in> set rs \<Longrightarrow> life r (f r)) \<Longrightarrow> rows_live rs (map f rs)"
  by (simp add: rows_live_def)

lemma rows_live_append [simp]: "rows_live rs (rs @ xs)"
  by (simp add: rows_live_def nth_append)

lemma rows_live_row: "rows_live rs rs' \<Longrightarrow> r \<in> set rs \<Longrightarrow> \<exists>r'\<in>set rs'. life r r'"
  unfolding rows_live_def by (metis in_set_conv_nth order_less_le_trans)

section \<open>The growth of the ledger\<close>

definition extends :: "'m ledger \<Rightarrow> 'm ledger \<Rightarrow> bool" where
  "extends s s' \<longleftrightarrow>
     operations s' = operations s \<and> rows_live (orders s) (orders s') \<and> prefix (ledger_payments s) (ledger_payments s') \<and>
     prefix (allocations s) (allocations s') \<and> prefix (adjustments s) (adjustments s') \<and>
     prefix (adjustment_items s) (adjustment_items s') \<and> prefix (snapshots s) (snapshots s') \<and>
     prefix (request_events s) (request_events s') \<and> prefix (map rq_id (requests s)) (map rq_id (requests s')) \<and>
     prefix (ledger_audit s) (ledger_audit s')"

lemma extends_refl [simp]: "extends s s"
  by (simp add: extends_def)

lemma extends_trans [trans]: "extends s s1 \<Longrightarrow> extends s1 s2 \<Longrightarrow> extends s s2"
  by (auto simp: extends_def intro: rows_live_trans prefix_order.trans)

text \<open>The columns that may change.\<close>

lemma extends_free [simp]:
  "extends s (t\<lparr>drawn := n\<rparr>) = extends s t" "extends s (t\<lparr>payment_seq := k\<rparr>) = extends s t"
  "extends s (t\<lparr>order_seq := k\<rparr>) = extends s t" "extends s (t\<lparr>adjustment_seq := k\<rparr>) = extends s t"
  "extends s (t\<lparr>request_seq := k\<rparr>) = extends s t" "extends s (t\<lparr>logbook := m\<rparr>) = extends s t"
  "extends s (t\<lparr>claims := y\<rparr>) = extends s t" "extends s (t\<lparr>items := x\<rparr>) = extends s t" "extends s (t\<lparr>policies := q\<rparr>) = extends s t"
  by (simp_all add: extends_def)

text \<open>The statements.\<close>

lemma extends_append:
  "extends s (s\<lparr>ledger_payments := ledger_payments s @ ps\<rparr>)" "extends s (s\<lparr>allocations := allocations s @ as\<rparr>)"
  "extends s (s\<lparr>adjustments := adjustments s @ ds\<rparr>)" "extends s (s\<lparr>adjustment_items := adjustment_items s @ is\<rparr>)"
  "extends s (s\<lparr>snapshots := snapshots s @ ns\<rparr>)" "extends s (s\<lparr>request_events := request_events s @ es\<rparr>)"
  "extends s (s\<lparr>requests := requests s @ qs\<rparr>)" "extends s (s\<lparr>ledger_audit := ledger_audit s @ ls\<rparr>)"
  "extends s (s\<lparr>orders := orders s @ rs\<rparr>)"
  by (simp_all add: extends_def)

lemma log_extends [simp]: "extends s t \<Longrightarrow> extends s (log_event p a r i fs t)"
  by (rule extends_trans[of s t]) (simp_all add: log_event_def extends_append)

lemma update_extends:
  assumes "\<And>r. r \<in> set (orders s) \<Longrightarrow> or_id r = i \<Longrightarrow> life r (f r)"
  shows "extends s (update_order i f s)"
  using assms by (auto simp: update_order_def extends_def intro!: rows_live_map)

lemma bump_extends [simp]: "extends s t \<Longrightarrow> extends s (bump_order i t)"
  unfolding bump_order_def by (erule extends_trans) (rule update_extends, simp add: life_def)

lemma requests_extends: "map rq_id qs = map rq_id (requests s) \<Longrightarrow> extends s (s\<lparr>requests := qs\<rparr>)"
  by (simp add: extends_def)

lemma sync_extends [simp]:
  assumes "extends s t"
  shows "extends s (sync_already_paid i t)"
proof -
  have "map rq_id (row_put rq_id (q\<lparr>rq_already_paid := n\<rparr>) (requests t)) = map rq_id (requests t)" for q n
    by (simp add: row_put_def)
  then have "extends t (sync_already_paid i t)"
    by (auto simp: sync_already_paid_def Let_def requests_extends split: option.split)
  then show ?thesis by (rule extends_trans[OF assms])
qed

lemma allocate_extends [simp]: "extends s t \<Longrightarrow> extends s (allocate env p r n op t)"
  by (erule extends_trans)
    (use extends_append(2)[of "t\<lparr>drawn := Suc (drawn t)\<rparr>" for t] in \<open>simp add: allocate_def draw_id_def Let_def extends_def\<close>)

lemma insert_payment_extends: "insert_payment p s = Inr s' \<Longrightarrow> extends s s'"
  by (auto dest: insert_payment_Inr simp: extends_append)

lemma release_extends [simp]:
  "extends s t \<Longrightarrow> extends s (release_order_claims i t)" "extends s t \<Longrightarrow> extends s (release_item_claim i t)"
  "extends s t \<Longrightarrow> extends s (claim_job j i t)"
  by (simp_all add: release_order_claims_def release_item_claim_def claim_job_def)

lemma change_request_extends:
  "extends s t \<Longrightarrow> (\<And>q. rq_id (f q) = rq_id q) \<Longrightarrow> extends s (change_request i f t)"
  by (erule extends_trans) (auto simp: change_request_def intro!: requests_extends)

lemma transition_extends:
  assumes "transition_order i st charge s = Inr s'"
    and "\<And>r. r \<in> set (orders s) \<Longrightarrow> or_id r = i \<Longrightarrow> or_status r = Draft \<or> or_status r = Finalized \<and> st = Reversed \<and> or_total r = charge"
  shows "extends s s'"
proof -
  have "s' = update_order i (\<lambda>r. r\<lparr>or_status := st, or_total := charge, or_version := or_version r + 1\<rparr>) s"
    using assms(1) by (simp add: transition_order_def Let_def)
  moreover have "extends s \<dots>"
  proof (rule update_extends)
    show "life r (r\<lparr>or_status := st, or_total := charge, or_version := or_version r + 1\<rparr>)" if "r \<in> set (orders s)" "or_id r = i" for r
      using assms(2)[OF that] by (auto simp: life_def)
  qed
  ultimately show ?thesis by simp
qed

lemma run_all_extends:
  assumes "run_all f xs s = Inr s'" "\<And>x t t'. f x t = Inr t' \<Longrightarrow> extends t t'"
  shows "extends s s'"
  by (rule run_all_keeps[OF assms(1), of "extends s"]) (auto intro: extends_trans[OF _ assms(2)])

section \<open>The operations on orders and payments\<close>

lemma receipt_extends:
  assumes "receipt env p r op x s = Inr s'"
  shows "extends s s'"
proof -
  obtain pay s2 amount where a: "insert_payment pay (s\<lparr>payment_seq := payment_seq s + 1, drawn := Suc (drawn s)\<rparr>) = Inr s2"
      "s' = log_event p ''payment.recorded'' ''payment'' (oe_id env (drawn s)) [''amount'', ''method'', ''allocations'']
              (sync_already_paid (or_id r) (bump_order (or_id r) (allocate env pay r amount op s2)))"
    using assms by (auto simp: receipt_def book_receipt_def draw_id_def Let_def and_then_Inr_iff)
  have "extends s s2" using insert_payment_extends[OF a(1)] by (simp add: extends_def)
  then show ?thesis by (simp add: a(2))
qed

lemma reverse_receipt_extends:
  assumes "reverse_receipt env p r op x s = Inr s'"
  shows "extends s s'"
proof -
  obtain pay reversal s2 where a: "insert_payment reversal (s\<lparr>payment_seq := payment_seq s + 1, drawn := Suc (drawn s)\<rparr>) = Inr s2"
      "s' = log_event p ''payment.reversed'' ''payment'' (oe_id env (drawn s)) [''reversal'', ''allocations'']
              (sync_already_paid (or_id r) (bump_order (or_id r) (allocate env pay r (- pm_amount pay) op s2)))"
    using assms
    by (auto simp: reverse_receipt_def book_reversal_def draw_id_def Let_def and_then_Inr_iff split: option.splits)
  have "extends s s2" using insert_payment_extends[OF a(1)] by (simp add: extends_def)
  then show ?thesis by (simp add: a(2))
qed

lemma receipts_extend: "run_all (receipt env p r op) xs s = Inr s' \<Longrightarrow> extends s s'"
  by (rule run_all_extends[OF _ receipt_extends])

lemma reversals_extend: "run_all (reverse_receipt env p r op) xs s = Inr s' \<Longrightarrow> extends s s'"
  by (rule run_all_extends[OF _ reverse_receipt_extends])

lemma create_order_extends:
  assumes "create_order env p c mode original s = Inr (r, s')"
  shows "extends s s'"
proof -
  obtain rs where "s' = log_event p ''order.created'' ''order'' (or_id r) [''customer'', ''fulfillmentMode'']
      (s\<lparr>order_seq := order_seq s + 1, drawn := Suc (drawn s), orders := orders s @ rs\<rparr>)"
    using assms by (auto simp: create_order_def draw_id_def Let_def and_then_Inr_iff)
  moreover have "extends s (s\<lparr>order_seq := order_seq s + 1, drawn := Suc (drawn s), orders := orders s @ rs\<rparr>)"
    by (simp add: extends_def)
  ultimately show ?thesis by simp
qed

lemma insert_item_extends:
  assumes "insert_item env p r input s = Inr s'"
  shows "extends s s'"
proof (rule insert_item_steps[OF assms])
  fix v s1 assume a: "store_item env r (oe_id env (drawn s)) (ii_kind input) v (s\<lparr>drawn := Suc (drawn s)\<rparr>) = Inr s1"
    "s' = log_event p ''order.item_added'' ''order'' (or_id r) [''items''] (bump_order (or_id r) s1)"
  have "extends s s1"
    using a(1) by (auto simp: store_item_def Let_def claim_job_def split: option.splits if_splits)
  then show ?thesis by (simp add: a(2))
qed

lemma take_item_extends: "take_item env p r i input action s = Inr (input', s') \<Longrightarrow> extends s s'"
  by (auto simp: take_item_def remove_item_def Let_def and_then_Inr_iff split: if_splits option.splits)

lemma change_item_extends:
  assumes "change_item env p j i input action s = Inr s'"
  shows "extends s s'"
proof -
  obtain r input' s1 s2 where a: "take_item env p j i input action s = Inr (input', s1)"
      "(if action = Remove_Item then Inr (bump_order j s1) else insert_item env p r input' s1) = Inr s2"
      "s' = (if action = Refresh_Item then log_event p ''order.item_refreshed'' ''order'' j [''items''] s2 else s2)"
    using assms by (auto simp: change_item_def and_then_Inr_iff)
  have "extends s1 s2" using a(2) insert_item_extends by (auto split: if_splits)
  with take_item_extends[OF a(1)] have "extends s s2" by (rule extends_trans)
  then show ?thesis by (simp add: a(3))
qed

lemma copy_item_extends: "copy_item env p r x s = Inr s' \<Longrightarrow> extends s s'"
  using copy_item_step insert_item_extends by fastforce

text \<open>The rows of an order have the status of the row that a caller holds.\<close>

lemma current_rows:
  assumes "ledger_ok env L X s" "current r s" "x \<in> set (orders s)" "or_id x = or_id r"
  shows "or_status x = or_status r" "or_total x = or_total r"
proof -
  have "core x \<in> set (cores s)" using assms(3) by (simp add: cores_def)
  then have "core x = core r"
    using key_inj[OF ledger_okD(3)[OF assms(1)] current_core[OF assms(2)], of "core x"] assms(4) by simp
  from arg_cong[OF this, of co_status] arg_cong[OF this, of co_total]
  show "or_status x = or_status r" "or_total x = or_total r" by simp_all
qed

lemma cancel_order_extends:
  assumes run: "cancel_order p r s = Inr (i, s')" and ok: "ledger_ok env L X s" and r: "current r s"
  shows "extends s s'"
proof -
  obtain s1 where a: "or_status r = Draft" "transition_order (or_id r) Cancelled (or_total r) (release_order_claims (or_id r) s) = Inr s1"
      "s' = log_event p ''order.cancelled'' ''order'' (or_id r) [''status''] s1"
    using run by (auto simp: cancel_order_def require_draft_def and_then_Inr_iff)
  have "extends (release_order_claims (or_id r) s) s1"
    by (rule transition_extends[OF a(2)]) (use current_rows(1)[OF ok r] a(1) in \<open>simp add: release_order_claims_def\<close>)
  then have "extends s s1" by (rule extends_trans[rotated]) simp
  then show ?thesis by (simp add: a(3))
qed

lemma finalize_extends:
  assumes run: "finalize env p r s = Inr (r', s')" and ok: "ledger_ok env L X s" and r: "current r s"
  shows "extends s s'"
proof -
  obtain f s1 s2 m where a: "or_status r = Draft"
    "run_all (finalize_item env p r) (job_order (order_items s (or_id r)))
       \<lparr>fin_count = 0, fin_total = 0, fin_sales = [], fin_ledger = s\<rparr> = Inr f"
    "capture_customer env r (fin_ledger f) = Inr s1" "transition_order (or_id r) Finalized (fin_total f) (s1\<lparr>logbook := m\<rparr>) = Inr s2"
    "s' = log_event p ''order.finalized'' ''order'' (or_id r) [''status'', ''totalAmount'', ''customerSnapshot''] s2"
    by (rule finalizeD[OF run])
  have f: "extends s (fin_ledger f) \<and> orders (fin_ledger f) = orders s"
  proof (rule run_all_keeps[OF a(2)])
    fix x g g' assume "finalize_item env p r x g = Inr g'" "extends s (fin_ledger g) \<and> orders (fin_ledger g) = orders s"
    then show "extends s (fin_ledger g') \<and> orders (fin_ledger g') = orders s"
      by (auto simp: finalize_item_def claim_item_def claim_job_def and_then_Inr_iff split: if_splits option.splits)
  qed simp
  have s1: "extends (fin_ledger f) s1" "orders s1 = orders (fin_ledger f)"
    using a(3) by (auto simp: capture_customer_def and_then_Inr_iff extends_append split: if_splits)
  have "extends (s1\<lparr>logbook := m\<rparr>) s2"
    by (rule transition_extends[OF a(4)]) (use current_rows(1)[OF ok r] a(1) f s1(2) in simp)
  then have "extends s1 s2" by (simp add: extends_def)
  then have "extends s s2" using extends_trans[OF conjunct1[OF f] extends_trans[OF s1(1)]] by blast
  then show ?thesis by (simp add: a(5))
qed

lemma reverse_order_extends:
  assumes run: "reverse_order env p r text s = Inr s'" and ok: "ledger_ok env L X s" and r: "current r s"
  shows "extends s s'"
proof -
  obtain s1 s2 where a: "or_status r = Finalized"
    "run_all (restock_item env p) (sold_order (order_items s (or_id r))) (insert_adjustment env r (trim_space text) s) = Inr s1"
    "transition_order (or_id r) Reversed (or_total r) (release_order_claims (or_id r) s1) = Inr s2"
    "s' = log_event p ''order.reversed'' ''order'' (or_id r) [''status'', ''adjustments''] s2"
    by (rule reverse_orderD[OF run])
  have fold: "extends t (fold (adjust_item env i) xs t) \<and> orders (fold (adjust_item env i) xs t) = orders t" for i xs and t :: "'a ledger"
  proof (induction xs arbitrary: t)
    case (Cons x xs)
    have "extends t (adjust_item env i x t)" "orders (adjust_item env i x t) = orders t"
      by (simp_all add: adjust_item_def draw_id_def Let_def extends_def)
    then show ?case using Cons[of "adjust_item env i x t"] by (auto intro: extends_trans)
  qed simp
  let ?s = "insert_adjustment env r (trim_space text) s"
  have i: "extends s ?s" "orders ?s = orders s"
    by (auto simp: insert_adjustment_def draw_id_def Let_def fold intro!: extends_trans[OF _ conjunct1[OF fold]])
      (simp add: extends_def)
  have s1: "extends s s1 \<and> orders s1 = orders s"
    by (rule run_all_keeps[OF a(2)]) (use i in \<open>auto simp: restock_item_def and_then_Inr_iff\<close>)
  have "extends (release_order_claims (or_id r) s1) s2"
    by (rule transition_extends[OF a(3)]) (use current_rows[OF ok r] a(1) s1 in \<open>simp add: release_order_claims_def\<close>)
  then have "extends s s2" by (rule extends_trans[rotated]) (use s1 in simp)
  then show ?thesis by (simp add: a(4))
qed

section \<open>Commands\<close>

lemma update_draft_extends:
  assumes run: "update_draft env p i input s = Inr s'" and ok: "ledger_ok env L X s"
  shows "extends s s'"
proof -
  obtain r kind person org where a: "lock_order s i = Inr r" "or_status r = Draft"
      "s' = log_event p ''order.updated'' ''order'' i [''customer'', ''fulfillmentMode'']
              (update_order i (\<lambda>r. r\<lparr>or_customer_kind := kind, or_person := person, or_organization := org,
                                     or_fulfillment := ud_fulfillment input, or_version := or_version r + 1\<rparr>) s)"
    using run by (auto simp: update_draft_def require_draft_def and_then_Inr_iff)
  note l = lock_orderD[OF a(1)]
  have "extends s (update_order i (\<lambda>r. r\<lparr>or_customer_kind := kind, or_person := person, or_organization := org,
                                     or_fulfillment := ud_fulfillment input, or_version := or_version r + 1\<rparr>) s)"
    by (rule update_extends) (use current_rows(1)[OF ok conjunct1[OF l]] l a(2) in \<open>simp add: life_def\<close>)
  then show ?thesis by (simp add: a(3))
qed

lemma finalize_and_pay_extends:
  assumes run: "finalize_and_pay env p input r s = Inr (i, s')" and ok: "ledger_ok env L X s" and r: "current r s"
  shows "extends s s'"
proof -
  obtain r1 s1 where a: "finalize env p r s = Inr (r1, s1)" "run_all (receipt env p r1 (oc_key input)) (oc_payments input) s1 = Inr s'"
    using run by (auto simp: finalize_and_pay_def and_then_Inr_iff)
  show ?thesis using extends_trans[OF finalize_extends[OF a(1) ok r] receipts_extend[OF a(2)]] .
qed

lemma reverse_command_extends:
  assumes run: "reverse_command env p input r s = Inr (i, s')" and ok: "ledger_ok env {} {} s" and inj: "inj (oe_id env)"
    and r: "current r s"
  shows "extends s s'"
proof -
  obtain s1 where a: "run_all (reverse_receipt env p r (oc_key input)) (oc_reversals input) s = Inr s1"
      "reverse_order env p r (oc_reason input) s1 = Inr s'"
    using run by (auto simp: reverse_command_def and_then_Inr_iff)
  note k = reversals_keep[OF a(1) ok inj]
  have "extends s1 s'" by (rule reverse_order_extends[OF a(2) conjunct1[OF k]]) (use r current_same[of s1 s r] k in simp)
  with reversals_extend[OF a(1)] show ?thesis by (rule extends_trans)
qed

lemma prepare_replacement_extends:
  assumes "prepare_replacement env p r s = Inr (i, s')"
  shows "extends s s'"
proof -
  obtain r1 s1 where a: "create_order env p (customer_reference r) (or_fulfillment r) (Some r) s = Inr (r1, s1)"
      "run_all (copy_item env p r1) (order_items s1 (or_id r)) s1 = Inr s'"
    using assms by (auto simp: prepare_replacement_def and_then_Inr_iff)
  have "extends s1 s'" by (rule run_all_extends[OF a(2) copy_item_extends])
  with create_order_extends[OF a(1)] show ?thesis by (rule extends_trans)
qed

lemma move_receipt_extends: "move_receipt env p op r pay s = Inr s' \<Longrightarrow> extends s s'"
  by (auto simp: move_receipt_def)

lemma take_all_extends: "extends s (fold (\<lambda>pay. allocate env pay r (- pm_amount pay) op) ps s)"
proof (induction ps arbitrary: s)
  case (Cons x ps)
  have "extends s (allocate env x r (- pm_amount x) op s)" by simp
  from extends_trans[OF this Cons] show ?case by simp
qed simp

lemma replace_order_extends:
  assumes run: "replace_order env p input r next_row s = Inr (i, s')" and ok: "ledger_ok env {} {} s" and inj: "inj (oe_id env)"
    and r: "current r s" "current next_row s" "or_id next_row \<noteq> or_id r"
  shows "extends s s'"
proof (rule replace_order_states[OF assms])
  fix s1 carried s2 s3 r4 s4 s5 s6
  assume a: "run_all (reverse_receipt env p r (oc_key input)) (oc_reversals input) s = Inr s1" "ledger_ok env {} {or_id r} s1"
    "carried = active_receipts s1 (or_id r)"
    "s2 = fold (\<lambda>pay. allocate env pay r (- pm_amount pay) (oc_key input)) carried s1"
    "if or_status r = Finalized then reverse_order env p r (oc_reason input) s2 = Inr s3 else s3 = bump_order (or_id r) s2"
    "ledger_ok env (pm_id ` set carried) {} s3" "current next_row s3" "finalize env p next_row s3 = Inr (r4, s4)"
    "run_all (move_receipt env p (oc_key input) r4) carried s4 = Inr s5"
    "run_all (receipt env p r4 (oc_key input)) (oc_payments input) s5 = Inr s6"
    "s' = log_event p ''order.replaced'' ''order'' (or_id r) [''replacement''] s6"
  have s1: "cores s1 = cores s" using reversals_keep[OF a(1) ok inj] by simp
  have s2: "ledger_ok env (pm_id ` set carried) (insert (or_id r) {or_id r}) s2" "cores s2 = cores s1"
    using take_all[OF a(2) active_receiptsD[OF a(2)], of r "oc_key input"] by (simp_all add: Let_def a(3,4))
  have cur2: "current r s2" using r(1) current_same[of s2 s r] s1 s2(2) by simp
  have "extends s2 s3" using a(5) reverse_order_extends[OF _ s2(1) cur2] by (auto split: if_splits)
  moreover have "extends s1 s2" unfolding a(4) by (rule take_all_extends)
  ultimately have "extends s1 s3" by (blast intro: extends_trans)
  moreover have "extends s4 s5" by (rule run_all_extends[OF a(9) move_receipt_extends])
  ultimately have "extends s1 s6"
    using finalize_extends[OF a(8,6,7)] receipts_extend[OF a(10)] by (blast intro: extends_trans)
  with reversals_extend[OF a(1)] have "extends s s6" by (rule extends_trans)
  then show ?thesis by (simp add: a(11))
qed

lemma run_command_extends:
  assumes run: "run_command env p i input a s = Inr (j, s')" and ok: "ledger_ok env {} {} s" and inj: "inj (oe_id env)"
  shows "extends s s'"
proof (cases "a = Replace_Order")
  case True
  have "\<exists>r r'. lock_pair s i (oc_replacement input) = Inr (r, Some r') \<and> replace_order env p input r r' s = Inr (j, s')"
    using run True by (auto simp: run_command_def and_then_Inr_iff split: option.splits)
  then obtain r r' where rr: "lock_pair s i (oc_replacement input) = Inr (r, Some r')" "replace_order env p input r r' s = Inr (j, s')"
    by blast
  have l: "oc_replacement input \<noteq> i" "lock_order s i = Inr r" "lock_order s (oc_replacement input) = Inr r'"
    using rr(1) by (auto simp: lock_pair_def and_then_Inr_iff split: if_splits)
  have c: "current r s" "current r' s" "or_id r' \<noteq> or_id r" using lock_orderD[OF l(2)] lock_orderD[OF l(3)] l(1) by auto
  show ?thesis by (rule replace_order_extends[OF rr(2) ok inj c])
next
  case False
  then obtain r where r: "lock_order s i = Inr r"
      "(case a of Cancel_Order \<Rightarrow> cancel_order p r s | Finalize_Order \<Rightarrow> finalize_and_pay env p input r s
        | Checkout_Order \<Rightarrow> finalize_and_pay env p input r s | Reverse_Order \<Rightarrow> reverse_command env p input r s
        | Prepare_Replacement \<Rightarrow> prepare_replacement env p r s | _ \<Rightarrow> Inl (invalid ''Unsupported order action'')) = Inr (j, s')"
    using run by (auto simp: run_command_def and_then_Inr_iff)
  have c: "current r s" using lock_orderD[OF r(1)] by simp
  show ?thesis
  proof (cases a)
    case Cancel_Order
    then show ?thesis using r(2) cancel_order_extends[OF _ ok c] by simp
  next
    case Finalize_Order
    then show ?thesis using r(2) finalize_and_pay_extends[OF _ ok c] by simp
  next
    case Checkout_Order
    then show ?thesis using r(2) finalize_and_pay_extends[OF _ ok c] by simp
  next
    case Reverse_Order
    then show ?thesis using r(2) reverse_command_extends[OF _ ok inj c] by simp
  next
    case Prepare_Replacement
    then show ?thesis using r(2) prepare_replacement_extends by simp
  qed (use r(2) False in simp_all)
qed

section \<open>Invoice requests\<close>

lemma save_details_extends:
  assumes "save_details env q d ready s = Inr s'"
  shows "extends s s'"
proof -
  obtain f where f: "s' = change_request (rq_id q) f s"
    "\<forall>q. rq_id (f q) = rq_id q \<and> rq_order (f q) = rq_order q \<and> rq_state (f q) = rq_state q \<and> rq_amount (f q) = rq_amount q \<and>
          rq_already_paid (f q) = rq_already_paid q"
    using assms by (rule save_details_change)
  show ?thesis unfolding f(1) by (rule change_request_extends) (use f(2) in simp_all)
qed

lemma transition_request_extends [simp]: "extends s t \<Longrightarrow> extends s (transition_request i st t)"
  unfolding transition_request_def by (erule change_request_extends) simp

lemma settle_by_invoice_extends:
  assumes "settle_by_invoice env p r q op s = Inr s'"
  shows "extends s s'"
proof -
  have "s' = s \<or> (\<exists>pay n s2. insert_payment pay (s\<lparr>payment_seq := payment_seq s + 1, drawn := Suc (drawn s)\<rparr>) = Inr s2 \<and>
      s' = log_event p ''payment.recorded'' ''payment'' (oe_id env (drawn s)) [''amount'', ''method'', ''allocations'']
             (allocate env pay r n op s2))"
    using assms by (auto simp: settle_by_invoice_def draw_id_def Let_def and_then_Inr_iff split: if_splits)
  moreover have "extends s s2"
    if "insert_payment pay (s\<lparr>payment_seq := payment_seq s + 1, drawn := Suc (drawn s)\<rparr>) = Inr s2" for pay s2
    using insert_payment_extends[OF that] by (simp add: extends_def)
  ultimately show ?thesis by auto
qed

lemma reverse_settlement_extends:
  assumes "reverse_settlement env p r kind external effective op original s = Inr s'"
  shows "extends s s'"
proof -
  obtain pay s2 where a: "insert_payment pay (s\<lparr>payment_seq := payment_seq s + 1, drawn := Suc (drawn s)\<rparr>) = Inr s2"
      "s' = log_event p ''payment.reversed'' ''payment'' (oe_id env (drawn s)) [''reversal'', ''allocations'']
              (allocate env original r (- pm_amount original) op s2)"
    using assms by (auto simp: reverse_settlement_def draw_id_def Let_def and_then_Inr_iff)
  have "extends s s2" using insert_payment_extends[OF a(1)] by (simp add: extends_def)
  then show ?thesis by (simp add: a(2))
qed

lemma decide_extends:
  assumes "decide env p a q r input effective s = Inr d"
  shows "extends s (dc_ledger d)"
proof (cases a)
  case Submit_Request
  then obtain s1 where "save_details env q (rq_details q) True s = Inr s1" "dc_ledger d = sync_already_paid (or_id (the r)) s1"
    using assms by (auto simp: decide_def submit_request_def and_then_Inr_iff)
  then show ?thesis using save_details_extends by fastforce
next
  case Forward_Request
  then obtain s1 where "save_details env q (rq_details q) True s = Inr s1"
      "settle_by_invoice env p (the r) q (ic_key input) s1 = Inr (dc_ledger d)"
    using assms by (auto simp: decide_def forward_request_def and_then_Inr_iff)
  then show ?thesis using save_details_extends settle_by_invoice_extends extends_trans by blast
next
  case Confirm_Cancellation
  then have "return_settlement env p q r input effective s = Inr (dc_ledger d)"
    using assms by (auto simp: decide_def confirm_cancellation_def and_then_Inr_iff)
  then show ?thesis
    by (auto simp: return_settlement_def Let_def and_then_Inr_iff split: option.splits if_splits
        intro: run_all_extends[OF _ reverse_settlement_extends])
qed (use assms in \<open>auto simp: decide_def return_request_def cancel_request_def ask_cancellation_def correct_reference_def
      and_then_Inr_iff\<close>)

lemma insert_events_extend: "extends s t \<Longrightarrow> extends s (fold (insert_event env i effective) es t)"
proof (induction es arbitrary: t)
  case (Cons e es)
  have "extends t (insert_event env i effective e t)"
    by (cases e) (simp add: insert_event_def draw_id_def extends_def)
  then show ?case using Cons(1)[OF extends_trans[OF Cons(2)]] by simp
qed simp

lemma carry_out_extends: "extends s (dc_ledger d) \<Longrightarrow> extends s (carry_out env p q r effective d)"
  by (auto simp: carry_out_def Let_def insert_events_extend split: option.split)

lemma run_request_extends: "run_request env p i input a s = Inr (x, s') \<Longrightarrow> extends s s'"
  by (auto simp: run_request_def and_then_Inr_iff Let_def dest!: decide_extends intro: carry_out_extends)

lemma run_create_extends:
  assumes "run_create env p j input s = Inr (x, s')"
  shows "extends s s'"
proof -
  obtain r i d s3 where a: "save_details env (new_request env r (oe_id env (drawn s)) s) d False
        (s\<lparr>drawn := Suc (drawn s), requests := requests s @ [new_request env r (oe_id env (drawn s)) s], request_seq := request_seq s + 1\<rparr>) = Inr s3"
      "s' = log_event p ''external_invoice_request.created'' ''external_invoice_request'' i [''details'']
              (bump_order (or_id r) (sync_already_paid (or_id r) s3))"
    using assms
    by (auto simp: run_create_def insert_request_def draw_id_def Let_def and_then_Inr_iff split: option.splits)
  have "extends s s3" using save_details_extends[OF a(1)] by (simp add: extends_def prefix_def) (auto dest: append_prefixD)
  then show ?thesis by (simp add: a(2))
qed

section \<open>Own payments\<close>

lemma own_jobs_extend:
  assumes run: "order_own_jobs env p ids s = Inr (r', s')" and ok: "order_books env s" and inj: "inj (oe_id env)"
  shows "extends s s'"
proof -
  obtain r s1 s2 where a: "create_order env p (Some (''person'', act_person p)) ''immediate'' None s = Inr (r, s1)"
      "run_all (insert_item env p r) (map job_input (own_jobs env p ids s)) s1 = Inr s2" "finalize env p r s2 = Inr (r', s')"
    using run by (auto simp: order_own_jobs_def and_then_Inr_iff Let_def)
  note c = create_order_keeps[OF a(1) order_booksD(1)[OF ok] inj]
  have s2: "ledger_ok env {} {} s2 \<and> current r s2"
  proof (rule run_all_keeps[OF a(2)])
    show "ledger_ok env {} {} t' \<and> current r t'" if "insert_item env p r x t = Inr t'" "ledger_ok env {} {} t \<and> current r t" for x t t'
      using insert_item_keeps[OF that(1) conjunct1[OF that(2)] inj] that(2) c by simp
  qed (use c in simp)
  have "extends s1 s2" by (rule run_all_extends[OF a(2) insert_item_extends])
  then show ?thesis
    using create_order_extends[OF a(1)] finalize_extends[OF a(3) conjunct1[OF s2] conjunct2[OF s2]]
    by (blast intro: extends_trans)
qed

lemma settle_targets_extend: "settle_targets env p op ts es s = Inr s' \<Longrightarrow> extends s s'"
proof (induction ts arbitrary: es s)
  case (Cons t ts)
  obtain r due where t: "t = (r, due)" by (cases t)
  obtain ps es' s1 where a: "run_all (receipt env p r op) ps s = Inr s1" "settle_targets env p op ts es' s1 = Inr s'"
    using Cons.prems(1) t by (auto simp: and_then_Inr_iff split: option.splits)
  show ?case using extends_trans[OF receipts_extend[OF a(1)] Cons.IH[OF a(2)]] .
qed simp

lemma run_own_payment_extends:
  assumes run: "run_own_payment env p input os js n s = Inr (x, s')" and ok: "order_books env s" and inj: "inj (oe_id env)"
  shows "extends s s'"
proof -
  obtain own made s1 where a:
      "(if js = [] then Inr (None, s) else and_then (order_own_jobs env p js s) (\<lambda>(r, s1). Inr (Some r, s1))) = Inr (made, s1)"
      "settle_in_full env p (own @ (case made of None \<Rightarrow> [] | Some r \<Rightarrow> [(r, or_total r)])) input s1 = Inr s'"
    using run by (auto simp: run_own_payment_def and_then_Inr_iff Let_def)
  have "extends s s1" using a(1) own_jobs_extend[OF _ ok inj] by (auto simp: and_then_Inr_iff split: if_splits)
  moreover have "extends s1 s'"
    by (rule settle_in_fullD[OF a(2)]) (rule settle_targets_extend)
  ultimately show ?thesis by (rule extends_trans)
qed

section \<open>Steps\<close>

text \<open>A whole operation also adds its key.\<close>

definition grows :: "'m ledger \<Rightarrow> 'm ledger \<Rightarrow> bool" where
  "grows s s' \<longleftrightarrow> prefix (operations s) (operations s') \<and> extends s (s'\<lparr>operations := operations s\<rparr>)"

lemma grows_refl [simp]: "grows s s"
  by (simp add: grows_def extends_def)

lemma grows_extends: "extends s s' \<Longrightarrow> grows s s'"
  by (simp add: grows_def extends_def)

lemma grows_key: "extends s s1 \<Longrightarrow> grows s (s1\<lparr>operations := operations s1 @ ops\<rparr>)"
  by (simp add: grows_def extends_def)

lemma grows_trans [trans]: "grows s s1 \<Longrightarrow> grows s1 s2 \<Longrightarrow> grows s s2"
  by (auto simp: grows_def extends_def intro: rows_live_trans prefix_order.trans)

lemma once_grows:
  assumes "once key kind print p again f s = Inr (s', v)" "\<And>i s1. f s = Inr (i, s1) \<Longrightarrow> extends s s1"
  shows "grows s s'"
proof -
  have "s' = s \<or> (\<exists>i s1. f s = Inr (i, s1) \<and> s' = finish_operation p key kind print i s1)"
    using assms(1) by (auto simp: once_def and_then_Inr_iff Let_def split: option.splits)
  then show ?thesis using assms(2) grows_key by (auto simp: finish_operation_def)
qed

lemma once_request_grows:
  assumes "once_request key kind print p f s = Inr (s', v)" "\<And>x s1. f s = Inr (x, s1) \<Longrightarrow> extends s s1"
  shows "grows s s'"
proof -
  have "s' = s \<or> (\<exists>x s1 ops. f s = Inr (x, s1) \<and> s' = s1\<lparr>operations := operations s1 @ ops\<rparr>)"
    using assms(1) by (auto simp: once_request_def finish_request_def and_then_Inr_iff split: option.splits)
  then show ?thesis using assms(2) grows_key by auto
qed

lemma order_command_grows:
  assumes run: "order_command env p i input a s = Inr (s', v)" and ok: "ledger_ok env {} {} s" and inj: "inj (oe_id env)"
  shows "grows s s'"
proof -
  obtain key kind print again where "once key kind print p again (run_command env p i input a) s = Inr (s', v)"
    using run by (auto simp: order_command_def and_then_Inr_iff Let_def)
  then show ?thesis by (rule once_grows) (use run_command_extends[OF _ ok inj] in blast)
qed

lemma record_payment_grows:
  assumes "record_order_payment env p i input s = Inr (s', v)"
  shows "grows s s'"
proof -
  obtain print where "once (rp_key input) ''payment.record'' print p (expired ''Operation source is unavailable'')
      (\<lambda>s. and_then (lock_order s i) (\<lambda>r. and_then (check_version r (rp_version input)) (\<lambda>_.
            and_then (receipt env p r (rp_key input) (rp_payment input) s) (\<lambda>s1. Inr (i, s1))))) s = Inr (s', v)"
    using assms by (auto simp: record_order_payment_def and_then_Inr_iff)
  then show ?thesis by (rule once_grows) (auto simp: and_then_Inr_iff dest: receipt_extends)
qed

lemma reverse_payment_grows:
  assumes "reverse_order_payment env p i input s = Inr (s', v)"
  shows "grows s s'"
proof -
  let ?f = "\<lambda>s. case allocated_order s i of None \<Rightarrow> Inl (conflicting ''payment_already_reversed'' ''No current allocation exists'')
      | Some j \<Rightarrow> and_then (lock_order s j) (\<lambda>r. and_then (check_version r (rv_version input)) (\<lambda>_.
          and_then (reverse_receipt env p r (rv_key input) (rv_reversal input) s) (\<lambda>s1.
          and_then (case rv_replacement input of None \<Rightarrow> Inr s1 | Some q \<Rightarrow> receipt env p r (rv_key input) q s1) (\<lambda>s2.
          and_then (check_anonymous r s2) (\<lambda>_. Inr (or_id r, s2))))))"
  have "once (rv_key input) ''payment.reverse'' (print_reversal env (act_account p) ''payment.reverse'' i input) p
      (\<lambda>op. Inr (op_order op)) ?f s = Inr (s', v)"
    using assms by (simp add: reverse_order_payment_def and_then_Inr_iff)
  then show ?thesis
  proof (rule once_grows)
    fix k s2 assume "?f s = Inr (k, s2)"
    then obtain r s1 where a: "reverse_receipt env p r (rv_key input) (rv_reversal input) s = Inr s1"
        "(case rv_replacement input of None \<Rightarrow> Inr s1 | Some q \<Rightarrow> receipt env p r (rv_key input) q s1) = Inr s2"
      by (auto simp: and_then_Inr_iff split: option.splits)
    have "extends s1 s2" using a(2) receipt_extends by (auto split: option.splits)
    with reverse_receipt_extends[OF a(1)] show "extends s s2" by (rule extends_trans)
  qed
qed

lemma pay_own_grows:
  assumes run: "pay_own env p input s = Inr (s', res)" and ok: "order_books env s" and inj: "inj (oe_id env)"
  shows "grows s s'"
proof -
  obtain os js n where a: "validate_own_payment input = Inr (os, js, n)"
    using run by (auto simp: pay_own_def and_then_Inr_iff)
  have "s' = s \<or> (\<exists>made s1. run_own_payment env p input os js n s = Inr (made, s1) \<and>
      s' = finish_own p (wp_key input) (print_own env (act_account p) ''payment.own'' input) made s1)"
    using run by (auto simp: pay_own_def a and_then_Inr_iff Let_def split: option.splits)
  then show ?thesis by (auto simp: finish_own_def intro: grows_key run_own_payment_extends[OF _ ok inj])
qed

lemma order_operation_grows:
  assumes "order_operation env s s'" "order_books env s" "inj (oe_id env)"
  shows "grows s s'"
  using assms(1)
proof cases
  case (op_draft p c mode r)
  then show ?thesis by (auto simp: create_draft_def and_then_Inr_iff intro: grows_extends create_order_extends)
next
  case (op_update p i draft)
  then show ?thesis using update_draft_extends[OF _ order_booksD(1)[OF assms(2)]] grows_extends by blast
next
  case (op_item p j i item action)
  then show ?thesis using change_item_extends grows_extends by blast
next
  case op_command
  then show ?thesis using order_command_grows[OF _ order_booksD(1)[OF assms(2)] assms(3)] by blast
next
  case op_payment
  then show ?thesis by (rule record_payment_grows)
next
  case op_reversal
  then show ?thesis by (rule reverse_payment_grows)
next
  case op_own
  then show ?thesis using pay_own_grows[OF _ assms(2,3)] by blast
next
  case (op_create_request p j create q)
  then show ?thesis using once_request_grows[OF _ run_create_extends] by (fastforce simp: create_request_def and_then_Inr_iff)
next
  case (op_update_request p i expected details q)
  then obtain r s1 where "save_details env r details False s = Inr s1"
      "s' = log_event p ''external_invoice_request.updated'' ''external_invoice_request'' i [''details''] (transition_request i (rq_state r) s1)"
    by (auto simp: update_request_def and_then_Inr_iff Let_def)
  then show ?thesis by (simp add: grows_extends save_details_extends)
next
  case (op_request p i invoice b q)
  then show ?thesis
    using once_request_grows[OF _ run_request_extends] by (fastforce simp: request_command_def and_then_Inr_iff Let_def)
next
  case (op_requirements p g required expected w)
  then show ?thesis by (auto simp: update_requirements_def and_then_Inr_iff Let_def intro: grows_extends)
qed

lemma order_step_grows:
  assumes "order_step env s s'" "order_books env s" "inj (oe_id env)"
  shows "grows s s'"
  using assms(1)
proof cases
  case step_operation
  then show ?thesis using order_operation_grows assms(2,3) by blast
next
  case (step_logbook m)
  then show ?thesis by (simp add: grows_extends)
qed

section \<open>Later states\<close>

inductive order_later :: "(nat \<Rightarrow> string) \<Rightarrow> 'm ledger \<Rightarrow> 'm ledger \<Rightarrow> bool" where
  later_now: "order_later ids s s"
| later_step: "order_later ids s s' \<Longrightarrow> oe_id env = ids \<Longrightarrow> order_step env s' s'' \<Longrightarrow> order_later ids s s''"

lemma later_grows:
  assumes "order_later ids s s'" "order_history ids s" "inj ids"
  shows "grows s s' \<and> order_history ids s'"
  using assms
proof (induction rule: order_later.induct)
  case (later_step ids s s' env s'')
  then have IH: "grows s s'" "order_history ids s'" by simp_all
  have "grows s' s''"
    by (rule order_step_grows[OF later_step.hyps(3) history_books]) (use IH later_step in auto)
  then show ?case using grows_trans[OF IH(1)] history_step[OF IH(2) later_step.hyps(2,3)] by blast
qed simp

section \<open>Retries\<close>

lemma row_at_cat: "row_at key k (xs @ ys) = (case row_at key k xs of None \<Rightarrow> row_at key k ys | Some x \<Rightarrow> Some x)"
  by (induction xs) (simp_all add: row_at_def)

lemma row_at_prefix: "prefix xs ys \<Longrightarrow> row_at key k xs = Some x \<Longrightarrow> row_at key k ys = Some x"
  by (auto simp: prefix_def row_at_cat)

lemma grown_key: "grows s t \<Longrightarrow> row_at op_key k (operations s) = Some x \<Longrightarrow> row_at op_key k (operations t) = Some x"
  by (auto simp: grows_def intro: row_at_prefix)

lemma grown_order:
  assumes "grows s t" "load_order s i = Inr v"
  shows "\<exists>w. load_order t i = Inr w \<and> or_id (ov_order w) = i"
proof -
  obtain r where "row_at or_id i (orders s) = Some r"
    using assms(2) by (auto simp: load_order_def lock_order_def and_then_Inr_iff split: option.splits)
  then obtain r' where "r' \<in> set (orders t)" "or_id r' = i"
    using assms(1) rows_live_row[of "orders s" "orders t" r] row_atD by (fastforce simp: grows_def extends_def life_def)
  then obtain x where "row_at or_id i (orders t) = Some x"
    using row_at_None_iff[of or_id i "orders t"] by (cases "row_at or_id i (orders t)") auto
  then show ?thesis using row_atD by (force simp: load_order_def lock_order_def Let_def)
qed

lemma grown_request:
  assumes "grows s t" "load_request s i = Inr v"
  shows "\<exists>w. load_request t i = Inr w"
proof -
  obtain r where "row_at rq_id i (requests s) = Some r"
    using assms(2) by (auto simp: load_request_def split: option.splits)
  then have "i \<in> set (map rq_id (requests s))" using row_atD by fastforce
  then have "i \<in> set (map rq_id (requests t))"
    using assms(1) set_mono_prefix[of "map rq_id (requests s)" "map rq_id (requests t)"] by (auto simp: grows_def extends_def)
  then obtain x where "row_at rq_id i (requests t) = Some x"
    using row_at_None_iff[of rq_id i "requests t"] by (cases "row_at rq_id i (requests t)") auto
  then show ?thesis by (simp add: load_request_def)
qed

lemma once_retry:
  assumes run: "once key kind print p (expired m) f s = Inr (s', v)" and f: "\<And>i s1. f s = Inr (i, s1) \<Longrightarrow> operations s1 = operations s"
    and later: "grows s' t"
  shows "\<exists>w. once key kind print p (expired m) f t = Inr (t, w) \<and> or_id (ov_order w) = or_id (ov_order v)"
proof -
  have "\<exists>op i. row_at op_key key (operations s') = Some op \<and> op_kind op = kind \<and> op_print op = print \<and> op_order op = Some i \<and>
      load_order s' i = Inr v"
  proof -
    obtain old where old: "begin_operation s key kind print = Inr old" using run by (auto simp: once_def and_then_Inr_iff)
    show ?thesis
    proof (cases old)
      case None
      then obtain i s1 where a: "f s = Inr (i, s1)" "s' = finish_operation p key kind print i s1" "load_order s' i = Inr v"
        using run old by (auto simp: once_def and_then_Inr_iff Let_def)
      have "row_at op_key key (operations s1) = None"
        using old None f[OF a(1)] by (auto simp: begin_operation_def split: option.splits)
      then have "row_at op_key key (operations s') =
          Some \<lparr>op_key = key, op_kind = kind, op_print = print, op_account = act_account p, op_order = Some i, op_request = None\<rparr>"
        by (simp add: a(2) finish_operation_def row_at_cat) (simp add: row_at_def)
      then show ?thesis using a(3) by auto
    next
      case (Some op)
      then have "row_at op_key key (operations s) = Some op" "op_kind op = kind" "op_print op = print"
        using old by (auto simp: begin_operation_def split: option.splits)
      moreover obtain i where "op_order op = Some i" "s' = s" "load_order s' i = Inr v"
        using run old Some by (auto simp: once_def and_then_Inr_iff expired_def split: option.splits)
      ultimately show ?thesis by auto
    qed
  qed
  then obtain op i where op: "row_at op_key key (operations s') = Some op" "op_kind op = kind" "op_print op = print"
      "op_order op = Some i" "load_order s' i = Inr v" by blast
  have key: "key \<noteq> []" using run by (auto simp: once_def begin_operation_def and_then_Inr_iff)
  have "row_at op_key key (operations t) = Some op" by (rule grown_key[OF later op(1)])
  then have "begin_operation t key kind print = Inr (Some op)" using op(2,3) key by (simp add: begin_operation_def)
  moreover obtain w where "load_order t i = Inr w" "or_id (ov_order w) = i" using grown_order[OF later op(5)] by blast
  moreover have "or_id (ov_order v) = i" using grown_order[OF grows_refl op(5)] op(5) by auto
  ultimately show ?thesis using op(4) by (simp add: once_def expired_def)
qed

lemma once_request_retry:
  assumes run: "once_request key kind print p f s = Inr (s', v)" and f: "\<And>i s1. f s = Inr (i, s1) \<Longrightarrow> operations s1 = operations s"
    and later: "grows s' t" and fresh: "key \<notin> op_key ` set (operations s)"
  shows "\<exists>w. once_request key kind print p f t = Inr (t, w) \<and> rq_id (rv_request w) = rq_id (rv_request v)"
proof -
  have req: "load_request u i = Inr x \<Longrightarrow> rq_id (rv_request x) = i" for u :: "'a ledger" and i x
    using row_atD by (fastforce simp: load_request_def split: option.splits)
  have none: "row_at op_key key (operations s) = None" using fresh by (simp add: row_at_None_iff)
  have key: "key \<noteq> []" using run by (auto simp: once_request_def begin_operation_def and_then_Inr_iff)
  then have "begin_operation s key kind print = Inr None" using none by (simp add: begin_operation_def ensure_def)
  then obtain j i s1 where a: "f s = Inr ((j, i), s1)" "finish_request p key kind print j i s1 = Inr s'" "load_request s' i = Inr v"
    using run by (auto simp: once_request_def and_then_Inr_iff)
  let ?op = "\<lparr>op_key = key, op_kind = kind, op_print = print, op_account = act_account p, op_order = j, op_request = Some i\<rparr>"
  have "operations s' = operations s @ [?op]" using a(2) f[OF a(1)] by (auto simp: finish_request_def)
  then have "row_at op_key key (operations s') = Some ?op" using none by (simp add: row_at_cat) (simp add: row_at_def)
  then have "row_at op_key key (operations t) = Some ?op" by (rule grown_key[OF later])
  then have "begin_operation t key kind print = Inr (Some ?op)" using key by (simp add: begin_operation_def)
  moreover obtain w where "load_request t i = Inr w" using grown_request[OF later a(3)] by blast
  ultimately show ?thesis using a(3) req by (simp add: once_request_def)
qed

end
