(* ===== verification/Order_Stock.thy ===== *)
theory Order_Stock
  imports Order_Growth Stock_Facts
begin

text \<open>
  The orders and the inventory together: finalizing an order sells its articles from the stock, reversing it puts them
  back. The locale \<open>selling_stock\<close> is the contract of the orders with a log book (selling and restocking keep what is
  good of it); inside it every operation of the orders keeps it. The inventory of \<open>Stock_Ledger\<close> provides it.
\<close>

section \<open>Operations that leave the log book alone\<close>

lemma logbook_simps [simp]:
  "logbook (log_event p a k i fs t) = logbook t" "logbook (update_order i f t) = logbook t" "logbook (bump_order i t) = logbook t"
  "logbook (sync_already_paid i t) = logbook t" "logbook (allocate env pay r n op t) = logbook t"
  "logbook (release_order_claims i t) = logbook t" "logbook (release_item_claim i t) = logbook t" "logbook (claim_job j i t) = logbook t"
  "logbook (change_request i g t) = logbook t" "logbook (transition_request i st t) = logbook t"
  by (simp_all add: log_event_def update_order_def bump_order_def sync_already_paid_def Let_def allocate_def draw_id_def
      release_order_claims_def release_item_claim_def claim_job_def change_request_def transition_request_def split: option.split)

lemma run_all_logbook:
  assumes "run_all f xs s = Inr s'" "\<And>x t t'. f x t = Inr t' \<Longrightarrow> logbook t' = logbook t"
  shows "logbook s' = logbook s"
  by (rule run_all_keeps[OF assms(1), of "\<lambda>t. logbook t = logbook s"]) (simp_all add: assms(2))

lemma insert_payment_logbook: "insert_payment p s = Inr s' \<Longrightarrow> logbook s' = logbook s"
  by (auto dest: insert_payment_Inr)

lemma transition_logbook: "transition_order i st c s = Inr s' \<Longrightarrow> logbook s' = logbook s"
  by (auto simp: transition_order_def Let_def)

lemma receipt_logbook: "receipt env p r op x s = Inr s' \<Longrightarrow> logbook s' = logbook s"
  by (auto simp: receipt_def book_receipt_def draw_id_def Let_def and_then_Inr_iff dest!: insert_payment_logbook)

lemma reverse_receipt_logbook: "reverse_receipt env p r op x s = Inr s' \<Longrightarrow> logbook s' = logbook s"
  by (auto simp: reverse_receipt_def book_reversal_def draw_id_def Let_def and_then_Inr_iff split: option.splits dest!: insert_payment_logbook)

lemmas receipts_logbook = run_all_logbook[OF _ receipt_logbook]
lemmas reversals_logbook = run_all_logbook[OF _ reverse_receipt_logbook]

lemma create_order_logbook: "create_order env p c mode original s = Inr (r, s') \<Longrightarrow> logbook s' = logbook s"
  by (auto simp: create_order_def draw_id_def Let_def and_then_Inr_iff)

lemma insert_item_logbook:
  assumes "insert_item env p r input s = Inr s'"
  shows "logbook s' = logbook s"
  by (rule insert_item_steps[OF assms]) (auto simp: store_item_def Let_def split: option.splits if_splits)

lemma change_item_logbook:
  assumes "change_item env p j i input action s = Inr s'"
  shows "logbook s' = logbook s"
proof -
  obtain r input' s1 s2 where a: "take_item env p j i input action s = Inr (input', s1)"
      "(if action = Remove_Item then Inr (bump_order j s1) else insert_item env p r input' s1) = Inr s2"
      "s' = (if action = Refresh_Item then log_event p ''order.item_refreshed'' ''order'' j [''items''] s2 else s2)"
    using assms by (auto simp: change_item_def and_then_Inr_iff)
  have "logbook s1 = logbook s"
    using a(1) by (auto simp: take_item_def remove_item_def Let_def and_then_Inr_iff split: if_splits option.splits)
  moreover have "logbook s2 = logbook s1" using a(2) insert_item_logbook by (auto split: if_splits)
  ultimately show ?thesis by (simp add: a(3))
qed

lemma copy_item_logbook: "copy_item env p r x s = Inr s' \<Longrightarrow> logbook s' = logbook s"
  using copy_item_step insert_item_logbook by fastforce

lemma update_draft_logbook: "update_draft env p i input s = Inr s' \<Longrightarrow> logbook s' = logbook s"
  by (auto simp: update_draft_def and_then_Inr_iff)

lemma cancel_order_logbook: "cancel_order p r s = Inr (i, s') \<Longrightarrow> logbook s' = logbook s"
  by (auto simp: cancel_order_def and_then_Inr_iff dest!: transition_logbook)

lemma prepare_replacement_logbook: "prepare_replacement env p r s = Inr (i, s') \<Longrightarrow> logbook s' = logbook s"
  by (auto simp: prepare_replacement_def and_then_Inr_iff dest!: run_all_logbook[OF _ copy_item_logbook] create_order_logbook)

lemma move_receipt_logbook: "move_receipt env p op r pay s = Inr s' \<Longrightarrow> logbook s' = logbook s"
  by (auto simp: move_receipt_def)

lemma take_all_logbook [simp]: "logbook (fold (\<lambda>pay. allocate env pay r (- pm_amount pay) op) ps s) = logbook s"
  by (induction ps arbitrary: s) simp_all

lemma insert_adjustment_logbook [simp]: "logbook (insert_adjustment env r text s) = logbook s"
proof -
  have "logbook (fold (adjust_item env i) xs t) = logbook t" for i xs and t :: "'a ledger"
    by (induction xs arbitrary: t) (simp_all add: adjust_item_def draw_id_def Let_def)
  then show ?thesis by (simp add: insert_adjustment_def draw_id_def Let_def)
qed

lemma settle_targets_logbook: "settle_targets env p op ts es s = Inr s' \<Longrightarrow> logbook s' = logbook s"
proof (induction ts arbitrary: es s)
  case (Cons t ts)
  obtain r due where t: "t = (r, due)" by (cases t)
  obtain ps es' s1 where a: "run_all (receipt env p r op) ps s = Inr s1" "settle_targets env p op ts es' s1 = Inr s'"
    using Cons.prems(1) t by (auto simp: and_then_Inr_iff split: option.splits)
  show ?case using receipts_logbook[OF a(1)] Cons.IH[OF a(2)] by simp
qed simp


section \<open>Invoice requests\<close>

lemma save_details_logbook: "save_details env q d ready s = Inr s' \<Longrightarrow> logbook s' = logbook s"
  by (rule save_details_change) auto

lemma settle_by_invoice_logbook: "settle_by_invoice env p r q op s = Inr s' \<Longrightarrow> logbook s' = logbook s"
  by (auto simp: settle_by_invoice_def draw_id_def Let_def and_then_Inr_iff split: if_splits dest!: insert_payment_logbook)

lemma reverse_settlement_logbook: "reverse_settlement env p r kind external effective op original s = Inr s' \<Longrightarrow> logbook s' = logbook s"
  by (auto simp: reverse_settlement_def draw_id_def Let_def and_then_Inr_iff dest!: insert_payment_logbook)

lemma decide_logbook:
  assumes "decide env p a q r input effective s = Inr d"
  shows "logbook (dc_ledger d) = logbook s"
proof (cases a)
  case Submit_Request
  then obtain s1 where "save_details env q (rq_details q) True s = Inr s1" "dc_ledger d = sync_already_paid (or_id (the r)) s1"
    using assms by (auto simp: decide_def submit_request_def and_then_Inr_iff)
  then show ?thesis using save_details_logbook by fastforce
next
  case Forward_Request
  then obtain s1 where "save_details env q (rq_details q) True s = Inr s1"
      "settle_by_invoice env p (the r) q (ic_key input) s1 = Inr (dc_ledger d)"
    using assms by (auto simp: decide_def forward_request_def and_then_Inr_iff)
  then show ?thesis using save_details_logbook settle_by_invoice_logbook by fastforce
next
  case Confirm_Cancellation
  then have "return_settlement env p q r input effective s = Inr (dc_ledger d)"
    using assms by (auto simp: decide_def confirm_cancellation_def and_then_Inr_iff)
  then show ?thesis
    by (auto simp: return_settlement_def Let_def and_then_Inr_iff split: option.splits if_splits
        dest!: run_all_logbook[OF _ reverse_settlement_logbook])
qed (use assms in \<open>auto simp: decide_def return_request_def cancel_request_def ask_cancellation_def correct_reference_def
      and_then_Inr_iff\<close>)

lemma insert_events_logbook [simp]: "logbook (fold (insert_event env i effective) es t) = logbook t"
proof (induction es arbitrary: t)
  case (Cons e es)
  then show ?case by (cases e) (simp add: insert_event_def draw_id_def)
qed simp

lemma run_request_logbook: "run_request env p i input a s = Inr (x, s') \<Longrightarrow> logbook s' = logbook s"
  by (auto simp: run_request_def and_then_Inr_iff Let_def carry_out_def split: option.splits dest!: decide_logbook)

lemma run_create_logbook:
  assumes "run_create env p j input s = Inr (x, s')"
  shows "logbook s' = logbook s"
proof -
  obtain r i d s3 where a: "save_details env (new_request env r (oe_id env (drawn s)) s) d False
        (s\<lparr>drawn := Suc (drawn s), requests := requests s @ [new_request env r (oe_id env (drawn s)) s], request_seq := request_seq s + 1\<rparr>) = Inr s3"
      "s' = log_event p ''external_invoice_request.created'' ''external_invoice_request'' i [''details'']
              (bump_order (or_id r) (sync_already_paid (or_id r) s3))"
    using assms
    by (auto simp: run_create_def insert_request_def draw_id_def Let_def and_then_Inr_iff split: option.splits)
  then show ?thesis using save_details_logbook[OF a(1)] by simp
qed

section \<open>Selling and restocking\<close>

text \<open>What a log book promises the orders: selling and restocking keep it good.\<close>

locale selling_stock =
  fixes env :: "'m order_env" and good :: "'m \<Rightarrow> bool"
  assumes sell_keeps: "sell_from_stock env m p sales = Inr m' \<Longrightarrow> good m \<Longrightarrow> good m'"
    and restock_keeps: "restock_sale env m p item = Inr m' \<Longrightarrow> good m \<Longrightarrow> good m'"
begin

lemma finalize_good:
  assumes run: "finalize env p r s = Inr (r', s')" and ok: "good (logbook s)"
  shows "good (logbook s')"
proof -
  obtain f s1 s2 m where a: "run_all (finalize_item env p r) (job_order (order_items s (or_id r)))
       \<lparr>fin_count = 0, fin_total = 0, fin_sales = [], fin_ledger = s\<rparr> = Inr f" "capture_customer env r (fin_ledger f) = Inr s1"
      "(if fin_sales f = [] then Inr (logbook s1) else sell_from_stock env (logbook s1) p (fin_sales f)) = Inr m"
      "transition_order (or_id r) Finalized (fin_total f) (s1\<lparr>logbook := m\<rparr>) = Inr s2"
      "s' = log_event p ''order.finalized'' ''order'' (or_id r) [''status'', ''totalAmount'', ''customerSnapshot''] s2"
    using run by (auto simp: finalize_def and_then_Inr_iff Let_def)
  have "logbook (fin_ledger f) = logbook s"
    by (rule run_all_keeps[OF a(1)])
      (auto simp: finalize_item_def claim_item_def and_then_Inr_iff split: if_splits option.splits)
  moreover have "logbook s1 = logbook (fin_ledger f)" using a(2) by (auto simp: capture_customer_def and_then_Inr_iff split: if_splits)
  ultimately have "good m" using a(3) ok sell_keeps by (auto split: if_splits)
  then show ?thesis using transition_logbook[OF a(4)] by (simp add: a(5))
qed

lemma reverse_order_good:
  assumes run: "reverse_order env p r text s = Inr s'" and ok: "good (logbook s)"
  shows "good (logbook s')"
proof -
  obtain s1 s2 where a: "run_all (restock_item env p) (sold_order (order_items s (or_id r))) (insert_adjustment env r (trim_space text) s) = Inr s1"
    "transition_order (or_id r) Reversed (or_total r) (release_order_claims (or_id r) s1) = Inr s2"
    "s' = log_event p ''order.reversed'' ''order'' (or_id r) [''status'', ''adjustments''] s2"
    by (rule reverse_orderD[OF run])
  have "good (logbook s1)"
    by (rule run_all_keeps[OF a(1)]) (use ok restock_keeps in \<open>auto simp: restock_item_def and_then_Inr_iff\<close>)
  then show ?thesis using transition_logbook[OF a(2)] by (simp add: a(3))
qed

lemma finalize_and_pay_good: "finalize_and_pay env p input r s = Inr (i, s') \<Longrightarrow> good (logbook s) \<Longrightarrow> good (logbook s')"
  by (auto simp: finalize_and_pay_def and_then_Inr_iff dest!: receipts_logbook intro: finalize_good)

lemma reverse_command_good: "reverse_command env p input r s = Inr (i, s') \<Longrightarrow> good (logbook s) \<Longrightarrow> good (logbook s')"
  by (auto simp: reverse_command_def and_then_Inr_iff dest!: reversals_logbook intro: reverse_order_good)

lemma replace_order_good:
  assumes run: "replace_order env p input r next_row s = Inr (i, s')" and ok: "good (logbook s)"
  shows "good (logbook s')"
proof (rule replace_orderD[OF run])
  fix s1 carried s3 r4 s4 s5 s6
  assume a: "run_all (reverse_receipt env p r (oc_key input)) (oc_reversals input) s = Inr s1"
    "(if or_status r = Finalized
      then reverse_order env p r (oc_reason input) (fold (\<lambda>pay. allocate env pay r (- pm_amount pay) (oc_key input)) carried s1)
      else Inr (bump_order (or_id r) (fold (\<lambda>pay. allocate env pay r (- pm_amount pay) (oc_key input)) carried s1))) = Inr s3"
    "finalize env p next_row s3 = Inr (r4, s4)" "run_all (move_receipt env p (oc_key input) r4) carried s4 = Inr s5"
    "run_all (receipt env p r4 (oc_key input)) (oc_payments input) s5 = Inr s6"
    "s' = log_event p ''order.replaced'' ''order'' (or_id r) [''replacement''] s6"
  have "good (logbook s1)" using reversals_logbook[OF a(1)] ok by simp
  then have "good (logbook s3)" using a(2) reverse_order_good by (auto split: if_splits)
  then have "good (logbook s4)" by (rule finalize_good[OF a(3)])
  then show ?thesis using run_all_logbook[OF a(4) move_receipt_logbook] receipts_logbook[OF a(5)] by (simp add: a(6))
qed

lemma run_command_good:
  assumes run: "run_command env p i input a s = Inr (j, s')" and ok: "good (logbook s)"
  shows "good (logbook s')"
  using assms
  by (cases a) (auto simp: run_command_def and_then_Inr_iff split: if_splits option.splits
      dest!: cancel_order_logbook prepare_replacement_logbook dest: finalize_and_pay_good reverse_command_good replace_order_good)

lemma own_jobs_good:
  assumes "order_own_jobs env p ids s = Inr (r', s')" "good (logbook s)"
  shows "good (logbook s')"
proof -
  obtain r s1 s2 where a: "create_order env p (Some (''person'', act_person p)) ''immediate'' None s = Inr (r, s1)"
      "run_all (insert_item env p r) (map job_input (own_jobs env p ids s)) s1 = Inr s2" "finalize env p r s2 = Inr (r', s')"
    using assms(1) by (auto simp: order_own_jobs_def and_then_Inr_iff Let_def)
  have "logbook s2 = logbook s" using create_order_logbook[OF a(1)] run_all_logbook[OF a(2) insert_item_logbook] by simp
  then show ?thesis using finalize_good[OF a(3)] assms(2) by simp
qed

lemma run_own_payment_good:
  assumes "run_own_payment env p input os js n s = Inr (x, s')" "good (logbook s)"
  shows "good (logbook s')"
proof -
  obtain own made s1 where a:
      "(if js = [] then Inr (None, s) else and_then (order_own_jobs env p js s) (\<lambda>(r, s1). Inr (Some r, s1))) = Inr (made, s1)"
      "settle_in_full env p (own @ (case made of None \<Rightarrow> [] | Some r \<Rightarrow> [(r, or_total r)])) input s1 = Inr s'"
    using assms(1) by (auto simp: run_own_payment_def and_then_Inr_iff Let_def)
  have "good (logbook s1)" using a(1) own_jobs_good assms(2) by (auto simp: and_then_Inr_iff split: if_splits)
  moreover have "logbook s' = logbook s1" by (rule settle_in_fullD[OF a(2)]) (rule settle_targets_logbook)
  ultimately show ?thesis by simp
qed

lemma once_good:
  assumes "once key kind print p again f s = Inr (s', v)" "good (logbook s)"
    and "\<And>i s1. f s = Inr (i, s1) \<Longrightarrow> good (logbook s1)"
  shows "good (logbook s')"
proof -
  have "s' = s \<or> (\<exists>i s1. f s = Inr (i, s1) \<and> s' = finish_operation p key kind print i s1)"
    using assms(1) by (auto simp: once_def and_then_Inr_iff Let_def split: option.splits)
  then show ?thesis using assms(2,3) by (auto simp: finish_operation_def)
qed

lemma once_request_good:
  assumes "once_request key kind print p f s = Inr (s', v)" "good (logbook s)"
    and "\<And>x s1. f s = Inr (x, s1) \<Longrightarrow> logbook s1 = logbook s"
  shows "good (logbook s')"
proof -
  have "s' = s \<or> (\<exists>x s1 ops. f s = Inr (x, s1) \<and> s' = s1\<lparr>operations := operations s1 @ ops\<rparr>)"
    using assms(1) by (auto simp: once_request_def finish_request_def and_then_Inr_iff split: option.splits)
  then show ?thesis using assms(2,3) by auto
qed

lemma order_command_good:
  assumes run: "order_command env p i input a s = Inr (s', v)" and ok: "good (logbook s)"
  shows "good (logbook s')"
proof -
  obtain key kind print again where "once key kind print p again (run_command env p i input a) s = Inr (s', v)"
    using run by (auto simp: order_command_def and_then_Inr_iff Let_def)
  then show ?thesis by (rule once_good) (use run_command_good ok in blast)+
qed

lemma record_payment_good:
  assumes "record_order_payment env p i input s = Inr (s', v)" and ok: "good (logbook s)"
  shows "good (logbook s')"
proof -
  obtain print where "once (rp_key input) ''payment.record'' print p (expired ''Operation source is unavailable'')
      (\<lambda>s. and_then (lock_order s i) (\<lambda>r. and_then (check_version r (rp_version input)) (\<lambda>_.
            and_then (receipt env p r (rp_key input) (rp_payment input) s) (\<lambda>s1. Inr (i, s1))))) s = Inr (s', v)"
    using assms(1) by (auto simp: record_order_payment_def and_then_Inr_iff)
  then show ?thesis by (rule once_good) (use ok in \<open>auto simp: and_then_Inr_iff dest!: receipt_logbook\<close>)
qed

lemma reverse_payment_good:
  assumes "reverse_order_payment env p i input s = Inr (s', v)" and ok: "good (logbook s)"
  shows "good (logbook s')"
proof -
  have "\<exists>key kind print again f. once key kind print p again f s = Inr (s', v) \<and>
      (\<forall>k s1. f s = Inr (k, s1) \<longrightarrow> logbook s1 = logbook s)"
    using assms(1) unfolding reverse_order_payment_def
    by (force simp: and_then_Inr_iff split: option.splits dest!: receipt_logbook reverse_receipt_logbook)
  then show ?thesis using once_good ok by metis
qed

lemma pay_own_good:
  assumes run: "pay_own env p input s = Inr (s', res)" and ok: "good (logbook s)"
  shows "good (logbook s')"
proof -
  obtain os js n where a: "validate_own_payment input = Inr (os, js, n)"
    using run by (auto simp: pay_own_def and_then_Inr_iff)
  have "s' = s \<or> (\<exists>made s1. run_own_payment env p input os js n s = Inr (made, s1) \<and>
      s' = finish_own p (wp_key input) (print_own env (act_account p) ''payment.own'' input) made s1)"
    using run by (auto simp: pay_own_def a and_then_Inr_iff Let_def split: option.splits)
  then show ?thesis using ok run_own_payment_good by (auto simp: finish_own_def)
qed

lemma order_operation_good:
  assumes "order_operation env s s'" "good (logbook s)"
  shows "good (logbook s')"
  using assms(1)
proof cases
  case (op_draft p c mode r)
  then show ?thesis using assms(2) by (auto simp: create_draft_def and_then_Inr_iff dest!: create_order_logbook)
next
  case (op_update p i draft)
  then show ?thesis using assms(2) update_draft_logbook by fastforce
next
  case (op_item p j i item action)
  then show ?thesis using assms(2) change_item_logbook by fastforce
next
  case (op_create_request p j create q)
  then show ?thesis using once_request_good[OF _ assms(2) run_create_logbook] by (fastforce simp: create_request_def and_then_Inr_iff)
next
  case (op_update_request p i expected details q)
  then obtain r s1 where "save_details env r details False s = Inr s1"
      "s' = log_event p ''external_invoice_request.updated'' ''external_invoice_request'' i [''details''] (transition_request i (rq_state r) s1)"
    by (auto simp: update_request_def and_then_Inr_iff Let_def)
  then show ?thesis using assms(2) by (simp add: save_details_logbook)
next
  case (op_request p i invoice b q)
  then show ?thesis
    using once_request_good[OF _ assms(2) run_request_logbook] by (fastforce simp: request_command_def and_then_Inr_iff Let_def)
next
  case (op_requirements p g required expected w)
  then show ?thesis using assms(2) by (auto simp: update_requirements_def and_then_Inr_iff Let_def)
next
  case op_command
  from order_command_good[OF this assms(2)] show ?thesis .
next
  case op_payment
  from record_payment_good[OF this assms(2)] show ?thesis .
next
  case op_reversal
  from reverse_payment_good[OF this assms(2)] show ?thesis .
next
  case op_own
  from pay_own_good[OF this assms(2)] show ?thesis .
qed

end

section \<open>The inventory as the stock of the orders\<close>

text \<open>The orders with the inventory behind them: the two fields of the environment are its operations.\<close>

definition with_stock :: "stock_env \<Rightarrow> stock order_env \<Rightarrow> stock order_env" where
  "with_stock store env = env\<lparr>sell_from_stock := \<lambda>m p sales. sell_from store p sales m,
     restock_sale := \<lambda>m p item. restock_order_sale store p item m\<rparr>"

lemma with_stock_id [simp]: "oe_id (with_stock store env) = oe_id env"
  by (simp add: with_stock_def)

text \<open>
  The inventory with a given supply of identifiers keeps the contract, of the strict invariant and of the other; the
  supply is part of what is good of it.
\<close>

definition stock_good :: "bool \<Rightarrow> stock_env \<Rightarrow> stock \<Rightarrow> bool" where
  "stock_good strict store m \<longleftrightarrow> (inj (se_id store) \<longrightarrow> stock_ok strict (se_id store) m)"

interpretation inventory: selling_stock "with_stock store env" "stock_good strict store" for store env strict
  by unfold_locales
    (auto simp: with_stock_def stock_good_def dest: sell_from_keeps restock_order_sale_keeps)


section \<open>The composed system\<close>

text \<open>
  One step of the shop: an operation of the orders, with the inventory behind it, or one of the inventory itself. The
  environment of the orders and of the inventory may change from step to step, but for their supplies of identifiers.
\<close>

inductive shop_step :: "(nat \<Rightarrow> string) \<Rightarrow> (nat \<Rightarrow> string) \<Rightarrow> stock ledger \<Rightarrow> stock ledger \<Rightarrow> bool" for oids sids where
  at_the_desk: "order_operation (with_stock store env) s s' \<Longrightarrow> oe_id env = oids \<Longrightarrow> se_id store = sids \<Longrightarrow> shop_step oids sids s s'"
| in_the_store: "stock_step sids (logbook s) m \<Longrightarrow> shop_step oids sids s (s\<lparr>logbook := m\<rparr>)"

inductive shop_history :: "(nat \<Rightarrow> string) \<Rightarrow> (nat \<Rightarrow> string) \<Rightarrow> stock ledger \<Rightarrow> bool" for oids sids where
  shop_opens: "shop_history oids sids (empty_ledger no_stock)"
| later_on: "shop_history oids sids s \<Longrightarrow> shop_step oids sids s s' \<Longrightarrow> shop_history oids sids s'"

text \<open>A history in which no step deletes or restores a ledger entry of a retired spool.\<close>

inductive tidy_shop :: "(nat \<Rightarrow> string) \<Rightarrow> (nat \<Rightarrow> string) \<Rightarrow> stock ledger \<Rightarrow> bool" for oids sids where
  tidy_opens: "tidy_shop oids sids (empty_ledger no_stock)"
| tidy_later: "tidy_shop oids sids s \<Longrightarrow> shop_step oids sids s s' \<Longrightarrow> tidy (logbook s) (logbook s') \<Longrightarrow> tidy_shop oids sids s'"

lemma tidy_shop_history: "tidy_shop oids sids s \<Longrightarrow> shop_history oids sids s"
  by (induction rule: tidy_shop.induct) (auto intro: shop_history.intros)

lemma shop_orders:
  assumes "shop_history oids sids s"
  shows "order_history oids s"
  using assms
proof induction
  case (later_on s s')
  from later_on.hyps(2) show ?case
  proof cases
    case (at_the_desk store env)
    then show ?thesis using history_step[OF later_on.IH _ step_operation, of "with_stock store env"] by simp
  next
    case (in_the_store m)
    then show ?thesis using history_step[OF later_on.IH _ step_logbook, of "undefined\<lparr>oe_id := oids\<rparr>"] by simp
  qed
qed (rule history_start)

lemma shop_step_keeps:
  assumes "shop_step oids sids s s'" "stock_ok strict sids (logbook s)" "inj sids" "strict \<Longrightarrow> tidy (logbook s) (logbook s')"
  shows "stock_ok strict sids (logbook s')"
  using assms(1)
proof cases
  case (at_the_desk store env)
  then show ?thesis
    using inventory.order_operation_good[OF at_the_desk(1), of strict] assms(2,3) by (simp add: stock_good_def)
next
  case (in_the_store m)
  then show ?thesis using step_keeps[OF _ assms(2,3)] assms(4) by simp
qed

lemma shop_stock:
  assumes "shop_history oids sids s" "inj sids"
  shows "stock_ok False sids (logbook s)"
  using assms(1) by induction (simp_all add: empty_ledger_def no_stock_ok shop_step_keeps[OF _ _ assms(2)])

lemma tidy_shop_stock:
  assumes "tidy_shop oids sids s" "inj sids"
  shows "stock_ok True sids (logbook s)"
  using assms(1) by induction (simp_all add: empty_ledger_def no_stock_ok shop_step_keeps[OF _ _ assms(2)])

section \<open>What an order takes and gives back\<close>

text \<open>The items of an order that leave the stock, as sales.\<close>

definition stock_items :: "item_row list \<Rightarrow> item_row list" where
  "stock_items xs = filter (\<lambda>x. \<not> it_removed x \<and> it_kind x = ''inventory_item'') xs"

definition item_sale :: "item_row \<Rightarrow> string \<times> string \<times> int" where
  "item_sale x = (the (it_material x), it_id x, it_quantity x)"

lemma finalize_items_sales:
  "run_all (finalize_item env p r) xs f = Inr f' \<Longrightarrow>
    fin_sales f' = fin_sales f @ map item_sale (stock_items xs) \<and> items (fin_ledger f') = items (fin_ledger f) \<and>
    logbook (fin_ledger f') = logbook (fin_ledger f) \<and> (\<forall>x\<in>set (stock_items xs). it_material x \<noteq> None)"
proof (induction xs arbitrary: f)
  case (Cons x xs)
  obtain f1 where f1: "finalize_item env p r x f = Inr f1" "run_all (finalize_item env p r) xs f1 = Inr f'"
    using Cons.prems by (auto simp: and_then_Inr_iff)
  have "fin_sales f1 = fin_sales f @ map item_sale (stock_items [x]) \<and> items (fin_ledger f1) = items (fin_ledger f) \<and>
      logbook (fin_ledger f1) = logbook (fin_ledger f) \<and> (\<forall>x\<in>set (stock_items [x]). it_material x \<noteq> None)"
    using f1(1)
    by (auto simp: finalize_item_def claim_item_def claim_job_def stock_items_def item_sale_def and_then_Inr_iff split: if_splits option.splits)
  moreover have "stock_items (x # xs) = stock_items [x] @ stock_items xs" by (simp add: stock_items_def)
  ultimately show ?case using Cons.IH[OF f1(2)] by auto
qed (simp add: stock_items_def)

lemma finalize_sells:
  assumes "finalize (with_stock store env) p r s = Inr (r', s')"
  shows "sell_from store p (map item_sale (stock_items (job_order (order_items s (or_id r))))) (logbook s) = Inr (logbook s')"
    "order_items s' i = order_items s i" "\<forall>x\<in>set (stock_items (order_items s (or_id r))). it_material x \<noteq> None"
proof -
  obtain f s1 s2 m where a: "run_all (finalize_item (with_stock store env) p r) (job_order (order_items s (or_id r)))
       \<lparr>fin_count = 0, fin_total = 0, fin_sales = [], fin_ledger = s\<rparr> = Inr f"
      "capture_customer (with_stock store env) r (fin_ledger f) = Inr s1"
      "(if fin_sales f = [] then Inr (logbook s1) else sell_from_stock (with_stock store env) (logbook s1) p (fin_sales f)) = Inr m"
      "transition_order (or_id r) Finalized (fin_total f) (s1\<lparr>logbook := m\<rparr>) = Inr s2"
      "s' = log_event p ''order.finalized'' ''order'' (or_id r) [''status'', ''totalAmount'', ''customerSnapshot''] s2"
    using assms by (auto simp: finalize_def and_then_Inr_iff Let_def)
  note f = finalize_items_sales[OF a(1), simplified]
  have s1: "logbook s1 = logbook s" "items s1 = items s"
    using a(2) f by (auto simp: capture_customer_def and_then_Inr_iff split: if_splits)
  have "sell_from store p (fin_sales f) (logbook s) = Inr m"
    using a(3) s1(1) by (auto simp: with_stock_def sell_from_def lock_articles_def and_then_def Let_def split: if_splits)
  then show "sell_from store p (map item_sale (stock_items (job_order (order_items s (or_id r))))) (logbook s) = Inr (logbook s')"
    using f transition_logbook[OF a(4)] by (simp add: a(5))
  have "items s2 = items s" using a(4) s1(2) by (auto simp: transition_order_def update_order_def Let_def)
  then show "order_items s' i = order_items s i" by (simp add: a(5) log_event_def order_items_def)
  have "set (stock_items (job_order xs)) = set (stock_items xs)" for xs
    using mset_eq_setD[OF mset_job_order[of xs]] by (simp add: stock_items_def)
  then show "\<forall>x\<in>set (stock_items (order_items s (or_id r))). it_material x \<noteq> None" using f by simp
qed

lemma restock_item_stock:
  "restock_item (with_stock store env) p x s =
     and_then (restock_order_sale store p (it_id x) (logbook s)) (\<lambda>m. Inr (s\<lparr>logbook := m\<rparr>))"
  by (simp add: restock_item_def with_stock_def)

lemma restocks_each:
  "run_all (restock_item (with_stock store env) p) xs s = Inr s' \<Longrightarrow>
    each (restock_order_sale store p) (map it_id xs) (logbook s) = Inr (logbook s')"
proof (induction xs arbitrary: s)
  case (Cons x xs)
  obtain t where t: "restock_item (with_stock store env) p x s = Inr t" "run_all (restock_item (with_stock store env) p) xs t = Inr s'"
    using Cons.prems by (auto simp: and_then_Inr_iff)
  have "restock_order_sale store p (it_id x) (logbook s) = Inr (logbook t)"
    using t(1) by (auto simp: restock_item_stock and_then_Inr_iff)
  then show ?case using Cons.IH[OF t(2)] by simp
qed simp

lemma reverse_restocks:
  assumes "reverse_order (with_stock store env) p r text s = Inr s'"
  shows "each (restock_order_sale store p) (map it_id (sold_order (order_items s (or_id r)))) (logbook s) = Inr (logbook s')"
proof -
  obtain s1 s2 where a: "run_all (restock_item (with_stock store env) p) (sold_order (order_items s (or_id r)))
      (insert_adjustment (with_stock store env) r (trim_space text) s) = Inr s1"
    "transition_order (or_id r) Reversed (or_total r) (release_order_claims (or_id r) s1) = Inr s2"
    "s' = log_event p ''order.reversed'' ''order'' (or_id r) [''status'', ''adjustments''] s2"
    by (rule reverse_orderD[OF assms])
  show ?thesis using restocks_each[OF a(1)] transition_logbook[OF a(2)] by (simp add: a(3))
qed

lemma mset_sold_order: "mset (map it_id (sold_order xs)) = mset (map it_id (stock_items xs))"
proof -
  have "mset (filter Q ys) + mset (filter (\<lambda>x. \<not> Q x) ys) = mset ys" for Q and ys :: "item_row list"
    using multiset_partition[of "mset ys" Q] by simp
  from this[of "\<lambda>x. it_material x \<noteq> None" "stock_items xs"] have "mset (sold_order xs) = mset (stock_items xs)"
    unfolding sold_order_def stock_items_def[symmetric] Let_def by (simp only: mset_append mset_sort not_not)
  then show ?thesis by (simp only: mset_map)
qed

lemma mset_item_sales: "mset (sold_items (map item_sale (stock_items (job_order xs)))) = mset (map it_id (stock_items xs))"
  by (simp add: item_sale_def stock_items_def mset_job_order comp_def split_beta)

text \<open>What a list of sales takes from an article.\<close>

lemma sell_from_takes:
  assumes run: "sell_from store p sales s = Inr s'" and ok: "stock_ok strict (se_id store) s" and inj: "inj (se_id store)"
  shows "quantity_of s' k = quantity_of s k - (\<Sum>(i, item, n)\<leftarrow>sales. if i = k then n else 0)"
proof -
  let ?sales = "sort_key fst sales"
  have "each (sell_item store p) ?sales s = Inr s'" using run by (simp add: sell_from_def Let_def and_then_Inr_iff)
  then obtain es where es: "list_all2 (\<lambda>(i, item, n) e. sale_of e item \<and> en_article e = i \<and> en_quantity e = - n) ?sales es"
      "quantity_of s' k = quantity_of s k + moved en_quantity es k"
    using sales_move[OF _ ok inj] by blast
  have "moved en_quantity es k = - (\<Sum>(i, item, n)\<leftarrow>?sales. if i = k then n else 0)"
    using es(1) by (induction rule: list_all2_induct) auto
  moreover have "(\<Sum>(i, item, n)\<leftarrow>?sales. if i = k then n else 0) = (\<Sum>(i, item, n)\<leftarrow>sales. if i = k then n else 0)"
    by (simp only: sum_mset_sum_list[symmetric] mset_map mset_sort)
  ultimately show ?thesis using es(2) by simp
qed


lemma item_sales_sum:
  assumes "\<forall>x\<in>set (stock_items xs). it_material x \<noteq> None"
  shows "(\<Sum>(i, item, n)\<leftarrow>map item_sale (stock_items (job_order xs)). if i = k then n else 0) =
    (\<Sum>x\<leftarrow>stock_items xs. if it_material x = Some k then it_quantity x else 0)"
proof -
  let ?f = "\<lambda>x. if the (it_material x) = k then it_quantity x else 0"
  have "(\<Sum>(i, item, n)\<leftarrow>map item_sale ys. if i = k then n else 0) = (\<Sum>x\<leftarrow>ys. ?f x)" for ys
    by (induction ys) (simp_all add: item_sale_def)
  moreover have "mset (map ?f (stock_items (job_order xs))) = mset (map ?f (stock_items xs))"
    by (simp add: stock_items_def mset_job_order)
  then have "(\<Sum>x\<leftarrow>stock_items (job_order xs). ?f x) = (\<Sum>x\<leftarrow>stock_items xs. ?f x)"
    by (simp only: sum_mset_sum_list[symmetric])
  moreover have "(\<Sum>x\<leftarrow>stock_items xs. ?f x) = (\<Sum>x\<leftarrow>stock_items xs. if it_material x = Some k then it_quantity x else 0)"
    using assms by (intro arg_cong[where f = sum_list] map_cong) auto
  ultimately show ?thesis by simp
qed

end
