(* ===== verification/Receipt_Book.thy ===== *)
theory Receipt_Book
  imports Order_Growth
begin

text \<open>
  An abstract receipt book: a receipt is unknown, pays for one order with its whole amount, or is returned. The
  ledger of payments and allocations implements it: every operation of the orders moves every receipt along the
  steps of the book, and what is paid of an order is what the receipts on it add up to.
\<close>

section \<open>The abstract book\<close>

datatype receipt_state = Unknown_Receipt | Paying string int | Returned int

inductive receipt_move :: "receipt_state \<Rightarrow> receipt_state \<Rightarrow> bool" where
  receive: "0 < n \<Longrightarrow> receipt_move Unknown_Receipt (Paying i n)"
| carry: "receipt_move (Paying i n) (Paying j n)"
| give_back: "receipt_move (Paying i n) (Returned n)"

inductive_cases receipt_move_cases: "receipt_move x y"

text \<open>A returned receipt stays returned and the amount of a receipt never changes.\<close>

lemma returned_final: "receipt_move\<^sup>*\<^sup>* (Returned n) x \<Longrightarrow> x = Returned n"
  by (induction rule: rtranclp_induct) (auto elim: receipt_move_cases)

lemma amount_constant: "receipt_move\<^sup>*\<^sup>* (Paying i n) x \<Longrightarrow> x = Returned n \<or> (\<exists>j. x = Paying j n)"
  by (induction rule: rtranclp_induct) (auto elim: receipt_move_cases)

section \<open>The abstraction\<close>

definition receipt_of :: "'m ledger \<Rightarrow> string \<Rightarrow> receipt_state" where
  "receipt_of s p =
     (case find (\<lambda>x. pm_id x = p \<and> pm_entry x = ''receipt'') (ledger_payments s) of
        None \<Rightarrow> Unknown_Receipt
      | Some x \<Rightarrow>
          if reversal_exists s p then Returned (pm_amount x)
          else case allocated_order s p of None \<Rightarrow> Unknown_Receipt | Some i \<Rightarrow> Paying i (pm_amount x))"

definition paying_for :: "receipt_state \<Rightarrow> string \<Rightarrow> int" where
  "paying_for x i = (case x of Paying j n \<Rightarrow> if j = i then n else 0 | _ \<Rightarrow> 0)"

lemma find_receipt:
  assumes "ledger_ok env L X s" "x \<in> set (ledger_payments s)" "pm_entry x = ''receipt''"
  shows "find (\<lambda>y. pm_id y = pm_id x \<and> pm_entry y = ''receipt'') (ledger_payments s) = Some x"
proof (cases "find (\<lambda>y. pm_id y = pm_id x \<and> pm_entry y = ''receipt'') (ledger_payments s)")
  case None
  then show ?thesis using assms(2,3) by (auto simp: find_None_iff)
next
  case (Some y)
  then have "y \<in> set (ledger_payments s)" "pm_id y = pm_id x" by (auto simp: find_Some_iff)
  then show ?thesis using key_inj[OF ledger_okD(4)[OF assms(1)] assms(2), of y] Some by simp
qed

lemma holder_found:
  assumes "\<And>i. allocated_to s p i = (if i = h then n else 0)" "0 < n"
  shows "allocated_order s p = Some h"
proof -
  have "filter (\<lambda>a. al_payment a = p \<and> al_order a = h) (allocations s) \<noteq> []"
    using assms(1)[of h] assms(2) by (auto simp: allocated_to_def)
  then obtain a where "a \<in> set (allocations s)" "al_payment a = p" "al_order a = h" by (auto simp: filter_empty_conv)
  then have "find (\<lambda>a. al_payment a = p \<and> 0 < allocated_to s p (al_order a)) (allocations s) \<noteq> None"
    using assms by (auto simp: find_None_iff)
  then show ?thesis using assms by (auto simp: allocated_order_def find_Some_iff split: if_splits)
qed

lemma receipt_of_row:
  assumes ok: "ledger_ok env {} {} s" and x: "x \<in> set (ledger_payments s)" "pm_entry x = ''receipt''"
  shows "receipt_of s (pm_id x) = Returned (pm_amount x) \<and> reversal_exists s (pm_id x) \<and> (\<forall>i. allocated_to s (pm_id x) i = 0) \<or>
    (\<exists>h. receipt_of s (pm_id x) = Paying h (pm_amount x) \<and> \<not> reversal_exists s (pm_id x) \<and> (\<forall>i. allocated_to s (pm_id x) i = (if i = h then pm_amount x else 0)))"
    "0 < pm_amount x"
proof -
  have bal: "receipt_balanced {} s x" by (rule ledger_okD(7)[OF ok x])
  show "0 < pm_amount x" using bal by (simp add: receipt_balanced_def)
  from bal show "receipt_of s (pm_id x) = Returned (pm_amount x) \<and> reversal_exists s (pm_id x) \<and> (\<forall>i. allocated_to s (pm_id x) i = 0) \<or>
    (\<exists>h. receipt_of s (pm_id x) = Paying h (pm_amount x) \<and> \<not> reversal_exists s (pm_id x) \<and> (\<forall>i. allocated_to s (pm_id x) i = (if i = h then pm_amount x else 0)))"
  proof (cases rule: receipt_cases)
    case (held h)
    then show ?thesis using holder_found[of s "pm_id x" h "pm_amount x"] find_receipt[OF ok x] by (simp add: receipt_of_def)
  qed (use find_receipt[OF ok x] in \<open>simp add: receipt_of_def\<close>)
qed

lemma receipt_of_unknown:
  assumes "\<And>x. x \<in> set (ledger_payments s) \<Longrightarrow> pm_id x = p \<Longrightarrow> pm_entry x \<noteq> ''receipt''"
  shows "receipt_of s p = Unknown_Receipt"
proof -
  have "find (\<lambda>x. pm_id x = p \<and> pm_entry x = ''receipt'') (ledger_payments s) = None" using assms by (auto simp: find_None_iff)
  then show ?thesis by (simp add: receipt_of_def)
qed

text \<open>What is paid of an order is what the receipts on it add up to.\<close>

lemma paid_by_receipts:
  assumes ok: "ledger_ok env {} {} s"
  shows "sum_allocations s i = (\<Sum>x\<leftarrow>ledger_payments s. paying_for (receipt_of s (pm_id x)) i)"
proof -
  have "allocated_to s (pm_id x) i = paying_for (receipt_of s (pm_id x)) i" if x: "x \<in> set (ledger_payments s)" for x
  proof (cases "pm_entry x = ''receipt''")
    case True
    then show ?thesis using receipt_of_row(1)[OF ok x] by (auto simp: paying_for_def)
  next
    case False
    have "receipt_of s (pm_id x) = Unknown_Receipt"
      by (rule receipt_of_unknown) (use key_inj[OF ledger_okD(4)[OF ok] x] False in blast)
    then show ?thesis using unlinked[OF ok x False] by (simp add: paying_for_def)
  qed
  then show ?thesis unfolding settled_by_payment[OF ok] by (metis (no_types, lifting) map_cong)
qed

lemma grown_payment: "grows s s' \<Longrightarrow> x \<in> set (ledger_payments s) \<Longrightarrow> x \<in> set (ledger_payments s')"
  by (auto simp: grows_def extends_def dest: set_mono_prefix)

lemma grown_receipt_moves:
  assumes grow: "grows s s'" and ok: "ledger_ok env {} {} s" "ledger_ok env {} {} s'"
  shows "receipt_move\<^sup>*\<^sup>* (receipt_of s p) (receipt_of s' p)"
proof (cases "\<exists>x\<in>set (ledger_payments s'). pm_id x = p \<and> pm_entry x = ''receipt''")
  case False
  then have "receipt_of s p = Unknown_Receipt" "receipt_of s' p = Unknown_Receipt"
    using grown_payment[OF grow] by (auto intro!: receipt_of_unknown)
  then show ?thesis by simp
next
  case True
  then obtain x where x: "x \<in> set (ledger_payments s')" "pm_id x = p" "pm_entry x = ''receipt''" by blast
  note now = receipt_of_row[OF ok(2) x(1,3)]
  have new: "receipt_move\<^sup>*\<^sup>* Unknown_Receipt (receipt_of s' p)"
  proof -
    have "receipt_move Unknown_Receipt (Paying h (pm_amount x))" for h using now(2) by (rule receive)
    then show ?thesis using now(1) x(2) by (metis r_into_rtranclp give_back rtranclp.rtrancl_into_rtrancl)
  qed
  show ?thesis
  proof (cases "x \<in> set (ledger_payments s)")
    case True
    have rev: "reversal_exists s p \<Longrightarrow> reversal_exists s' p"
      using grown_payment[OF grow] by (auto simp: reversal_exists_def list_ex_iff)
    have before: "receipt_of s p = Returned (pm_amount x) \<and> reversal_exists s p \<or> (\<exists>h. receipt_of s p = Paying h (pm_amount x))"
      using receipt_of_row(1)[OF ok(1) True x(3)] x(2) by auto
    have after: "receipt_of s' p = Returned (pm_amount x) \<or> (\<exists>h. receipt_of s' p = Paying h (pm_amount x)) \<and> \<not> reversal_exists s' p"
      using now(1) x(2) by auto
    have "receipt_of s' p = receipt_of s p \<or> receipt_move (receipt_of s p) (receipt_of s' p)"
      using before after rev by (auto intro: carry give_back)
    then show ?thesis by auto
  next
    case False
    have "receipt_of s p = Unknown_Receipt"
    proof (rule receipt_of_unknown)
      fix y assume y: "y \<in> set (ledger_payments s)" "pm_id y = p"
      then have "y = x" using key_inj[OF ledger_okD(4)[OF ok(2)] x(1), of y] grown_payment[OF grow y(1)] x(2) by simp
      then show "pm_entry y \<noteq> ''receipt''" using False y(1) by simp
    qed
    then show ?thesis using new by simp
  qed
qed

end
