(* ===== verification/Order_Properties.thy ===== *)
theory Order_Properties
  imports Order_Example Receipt_Book
begin

text \<open>
  What holds of the orders in every reachable state: the books balance, invoice requests are in step with the
  payments, the settlement that is shown is true; and a retry of an operation changes nothing.
\<close>

section \<open>The books\<close>

text \<open>The order of a row, in the words of the rows.\<close>

definition order_adds_up :: "'m ledger \<Rightarrow> order_row \<Rightarrow> bool" where
  "order_adds_up s r \<longleftrightarrow>
     (let settled = sum_allocations s (or_id r);
          adjustment = (\<Sum>a\<leftarrow>filter (\<lambda>a. ad_order a = or_id r) (adjustments s). ad_amount a) in
      0 \<le> settled \<and> settled \<le> or_total r - adjustment \<and>
      (case or_status r of
         Draft \<Rightarrow> settled = 0 \<and> adjustment = 0
       | Cancelled \<Rightarrow> settled = 0 \<and> adjustment = 0
       | Finalized \<Rightarrow> adjustment = 0 \<and> or_total r = item_total s (or_id r) \<and>
           (\<exists>x\<in>set (order_items s (or_id r)). \<not> it_removed x) \<and>
           (is_anonymous r \<longrightarrow> or_fulfillment r = ''immediate'' \<and> settled = or_total r)
       | Reversed \<Rightarrow> settled = 0 \<and> adjustment = or_total r))"

text \<open>A receipt pays for one order with its whole amount, or it is reversed, by one reversal, and pays for none.\<close>

definition receipt_whole :: "'m ledger \<Rightarrow> payment_row \<Rightarrow> bool" where
  "receipt_whole s p \<longleftrightarrow>
     0 < pm_amount p \<and>
     (if reversal_exists s (pm_id p) then \<forall>i. allocated_to s (pm_id p) i = 0
      else \<exists>h. \<forall>i. allocated_to s (pm_id p) i = (if i = h then pm_amount p else 0))"

lemma order_balanced_row: "order_balanced {} s (core r) \<Longrightarrow> order_adds_up s r"
  by (cases "or_status r") (auto simp: order_balanced_def order_adds_up_def adjusted_def Let_def has_item_iff)

text \<open>The invariant of a state is about its supply of identifiers only.\<close>

lemma reached_books:
  assumes "order_history ids s" "inj ids"
  shows "\<exists>env. oe_id env = ids \<and> order_books env s"
  using history_books[OF assms, of "undefined\<lparr>oe_id := ids\<rparr>"] by (intro exI conjI) simp_all

lemma reached:
  assumes "order_history ids s" "inj ids" "oe_id env = ids"
  shows "ledger_ok env {} {} s" "invoices_ok env {} s"
  using history_books[OF assms] by (simp_all add: order_books_def)

lemma row_core: "r \<in> set (orders s) \<Longrightarrow> core r \<in> set (cores s)"
  by (simp add: cores_def)

text \<open>
  C1: In every state that any sequence of operations on orders, items, payments, invoice requests and own payments
  reaches, every order adds up (what is paid is between nothing and its net charge, a finalized order charges the sum
  of its items, a reversed one is adjusted to nothing and unpaid, an anonymous sale is paid in full), and every
  receipt pays for exactly one order in full or is reversed. The deferred integrity checks of the database can
  therefore never fail.
\<close>

theorem books_always_balance:
  assumes "order_history ids s" "inj ids"
  shows "(\<forall>r\<in>set (orders s). order_adds_up s r) \<and>
         (\<forall>p\<in>set (ledger_payments s). pm_entry p = ''receipt'' \<longrightarrow> receipt_whole s p)"
proof -
  obtain env where ok: "ledger_ok env {} {} s"
    using reached_books[OF assms] by (auto simp: order_books_def)
  have "order_adds_up s r" if "r \<in> set (orders s)" for r
    by (rule order_balanced_row[OF ledger_okD(6)[OF ok row_core[OF that]]])
  moreover have "receipt_whole s p" if "p \<in> set (ledger_payments s)" "pm_entry p = ''receipt''" for p
    using ledger_okD(7)[OF ok that] by (simp add: receipt_balanced_def receipt_whole_def)
  ultimately show ?thesis by blast
qed

lemma books_always_balance_witness:
  "order_adds_up shop4 (hd (orders shop4)) \<and> receipt_whole shop4 (hd (ledger_payments shop4))"
proof -
  have "hd (orders shop4) \<in> set (orders shop4)" "hd (ledger_payments shop4) \<in> set (ledger_payments shop4)"
    "pm_entry (hd (ledger_payments shop4)) = ''receipt''"
    by (simp_all add: shop4_def)
  then show ?thesis using books_always_balance[OF shop4_history shop_ids] by blast
qed

section \<open>Invoice requests\<close>

text \<open>A request in step with the payments of its order.\<close>

definition request_in_step :: "'m ledger \<Rightarrow> request_row \<Rightarrow> bool" where
  "request_in_step s q \<longleftrightarrow>
     (\<exists>r\<in>set (orders s). rq_order q = Some (or_id r) \<and> or_status r = Finalized \<and> \<not> is_anonymous r \<and>
        rq_amount q = or_total r \<and> active_request s (or_id r) = Some q \<and>
        rq_already_paid q = paid_by (\<lambda>m. m = ''cash'' \<or> m = ''card'') s (or_id r) \<and>
        (if rq_state q = Invoice_Draft \<or> rq_state q = Invoice_Submitted then no_external s (or_id r)
         else sum_allocations s (or_id r) = or_total r \<and>
              (\<forall>p\<in>set (ledger_payments s). pm_method p = ''external'' \<and> 0 < allocated_to s (pm_id p) (or_id r) \<longrightarrow>
                 pm_request p = Some (rq_id q))))"

lemma billed_in_step:
  assumes "invoices_ok env {} s" "q \<in> set (requests s)" "active q"
  shows "request_in_step s q"
proof -
  obtain i where i: "rq_order q = Some i" "latest_request s i = Some q" "billed {} s q i"
    using invoices_okD(4)[OF assms] by blast
  have "\<exists>x. active_request s i = Some x"
    using assms(2,3) i(1) active_request_None_iff[of s i] by (cases "active_request s i") auto
  then have act: "active_request s i = Some q" using active_billed(1)[OF assms(1)] i(2) by fastforce
  obtain c where c: "c \<in> set (cores s)" "co_id c = i" "co_status c = Finalized" "\<not> co_anonymous c" "rq_amount q = co_total c"
    "rq_already_paid q = paid_by direct_method s i"
    "if rq_state q = Invoice_Draft \<or> rq_state q = Invoice_Submitted then no_external s i
     else sum_allocations s i = co_total c \<and>
          (\<forall>p\<in>set (ledger_payments s). pm_method p = ''external'' \<and> 0 < allocated_to s (pm_id p) i \<longrightarrow> pm_request p = Some (rq_id q))"
    using i(3) by (auto simp: billed_def)
  obtain r where r: "r \<in> set (orders s)" "core r = c" using c(1) by (auto simp: cores_def)
  have "direct_method = (\<lambda>m. m = ''cash'' \<or> m = ''card'')" by (simp add: direct_method_def fun_eq_iff)
  then show ?thesis
    unfolding request_in_step_def
    by (intro bexI[OF _ r(1)]) (use c i(1) act r(2) in \<open>auto simp: core_def split: if_splits\<close>)
qed

text \<open>
  C2: In every reachable state a request that is not cancelled belongs to a finalized order with a customer and is
  the only one of its order; its amount is the charge of the order and its already paid figure is what cash and card
  pay of it. While it is a draft or awaits approval no external payment is booked on the order, and while it is
  issued or its cancellation is requested the order is paid in full and every external payment on it is one the
  invoice of this very request settled. An order without such a request has no external payment at all.
\<close>

theorem requests_in_step:
  assumes "order_history ids s" "inj ids"
  shows "(\<forall>q\<in>set (requests s). rq_state q \<noteq> Invoice_Cancelled \<longrightarrow> request_in_step s q) \<and>
         (\<forall>i. active_request s i = None \<longrightarrow> no_external s i)"
proof -
  obtain env where ok: "invoices_ok env {} s"
    using reached_books[OF assms] by (auto simp: order_books_def)
  then show ?thesis using billed_in_step[OF ok] invoices_okD(5)[OF ok] by (auto simp: active_def)
qed

lemma requests_in_step_witness: "request_in_step shop4 (hd (requests shop4))"
proof -
  have "hd (requests shop4) \<in> set (requests shop4)" "rq_state (hd (requests shop4)) \<noteq> Invoice_Cancelled"
    by (simp_all add: shop4_def)
  then show ?thesis using requests_in_step[OF shop4_history shop_ids] by blast
qed

section \<open>Own payments\<close>

text \<open>
  C12: The loop that settles a selection in full always comes to an end and never indexes past the last entry: when
  the entries add up to what is due, either every target receives exactly what is due for it and nothing else
  changes hands, or a receipt is refused with a client error.
\<close>

theorem settlement_loop_total:
  assumes "payment_entries (wp_payments input) = Inr es"
    and "(\<Sum>(x, rest, parts)\<leftarrow>es. rest) = (\<Sum>(r, due)\<leftarrow>targets. due)"
    and "\<forall>(r, due)\<in>set targets. 0 \<le> due"
  shows "(\<exists>s'. settle_targets env p op targets es s = Inr s' \<and>
            (\<forall>i. sum_allocations s' i = sum_allocations s i + (\<Sum>(r, due)\<leftarrow>targets. if or_id r = i then due else 0))) \<or>
         (\<exists>e. settle_targets env p op targets es s = Inl e \<and> http_status e < 500)"
proof -
  have es: "entries_ok es" "(\<Sum>(r, due)\<leftarrow>targets. due) \<le> rests es"
    using payment_entries_ok[OF assms(1)] assms(2) by (simp_all add: rests_def)
  show ?thesis
  proof (cases "settle_targets env p op targets es s")
    case (Inl e)
    then show ?thesis using settle_targets_error[OF Inl es(1) assms(3) es(2)] by simp
  next
    case (Inr s')
    then show ?thesis using settle_targets_pay[OF Inr es(1) assms(3) es(2)] by (simp add: pays_def due_of_def)
  qed
qed

lemma settlement_loop_total_witness:
  "\<exists>s'. settle_targets shop ada ''k3'' [(hd (orders shop3), 3)]
          [(hd (wp_payments rest_in_parts), 1, 0), (hd (tl (wp_payments rest_in_parts)), 2, 0)] shop3 = Inr s' \<and>
        sum_allocations s' [] = sum_allocations shop3 [] + 3"
proof -
  have "\<exists>s'. settle_targets shop ada ''k3'' [(hd (orders shop3), 3)]
          [(hd (wp_payments rest_in_parts), 1, 0), (hd (tl (wp_payments rest_in_parts)), 2, 0)] shop3 = Inr s'"
    using rest_receipts by (auto simp: rest_slices)
  then show ?thesis
    using settlement_loop_total[OF rest_entries, of "[(hd (orders shop3), 3)]" shop ada "''k3''" shop3]
    by (auto simp: shop3_def)
qed

text \<open>
  C11: An own payment that is accepted under a new key settles every order that it selects, each of them one of the
  person, and the order it makes of jobs; it leaves what is paid of every other order, and it records receipts over
  exactly the total that the person confirmed.
\<close>

theorem own_payment_settles:
  assumes "order_history ids s" "inj ids" "oe_id env = ids"
    and "wp_key input \<notin> op_key ` set (operations s)" "pay_own env p input s = Inr (s', res)"
  shows "(\<forall>i\<in>set (wp_orders input). \<exists>r\<in>set (orders s). or_id r = i \<and> or_person r = Some (act_person p)) \<and>
         (\<forall>r\<in>set (orders s). sum_allocations s' (or_id r) =
            (if or_id r \<in> set (wp_orders input) then or_total r else sum_allocations s (or_id r))) \<and>
         parse_amount (wp_total input) 2 True =
           Inr ((\<Sum>a\<leftarrow>allocations s'. al_amount a) - (\<Sum>a\<leftarrow>allocations s. al_amount a)) \<and>
         (\<forall>j. pr_created res = Some j \<longrightarrow>
            (\<exists>r\<in>set (orders s'). or_id r = j \<and> or_status r = Finalized \<and> sum_allocations s' j = or_total r))"
proof -
  have ok: "order_books env s" by (rule history_books[OF assms(1-3)])
  have inj: "inj (oe_id env)" using assms(2,3) by simp
  have "row_at op_key (wp_key input) (operations s) = None" using assms(4) by (simp add: row_at_None_iff)
  then obtain os js n made s1 where a: "validate_own_payment input = Inr (os, js, n)"
      "run_own_payment env p input os js n s = Inr (made, s1)" "orders s' = orders s1" "allocations s' = allocations s1"
      "pr_created res = made"
    using assms(5)
    by (auto simp: pay_own_def and_then_Inr_iff begin_operation_def Let_def finish_own_def own_payment_result_of_def
        split: option.splits)
  note v = validate_own_paymentD[OF a(1)] and pay = run_own_payment_pays[OF a(2) ok inj validate_own_paymentD(1)[OF a(1)]]
  have sum: "sum_allocations s' i = sum_allocations s1 i" for i using a(4) by (simp add: sum_allocations_def)
  show ?thesis
    using pay(1,2) pay(3) pay(4) v(2,4) a(3-5) by (simp add: sum all_allocated_def)
qed

lemma own_payment_settles_witness: "case pay_own shop ada rest_in_parts shop3 of Inl e \<Rightarrow> False | Inr (s', res) \<Rightarrow> sum_allocations s' [] = 4"
proof -
  obtain s' res where run: "pay_own shop ada rest_in_parts shop3 = Inr (s', res)" using rest_paid by blast
  have "wp_key rest_in_parts \<notin> op_key ` set (operations shop3)" by (simp add: rest_in_parts_def shop3_def)
  from own_payment_settles[OF shop3_history shop_ids refl this run] have "sum_allocations s' [] = 4"
    by (simp add: rest_in_parts_def shop3_def)
  then show ?thesis by (simp add: run)
qed

text \<open>
  C36: The list of a person's payable orders and the payment agree: in every reachable state the query lists exactly
  the orders that an own payment accepts as its target.
\<close>

theorem payable_list_exact:
  assumes "order_history ids s" "inj ids"
  shows "i \<in> set (own_payable_ids s (act_person p)) \<longleftrightarrow> (\<exists>ts. own_targets p s [i] = Inr ts)"
proof -
  obtain env where ok: "ledger_ok env {} {} s" using reached_books[OF assms] by (auto simp: order_books_def)
  have dist: "distinct (map or_id (orders s))" using ledger_okD(3)[OF ok] by (simp add: cores_def comp_def)
  show ?thesis
  proof
    assume "\<exists>ts. own_targets p s [i] = Inr ts"
    then obtain ts where ts: "own_targets p s [i] = Inr ts" by blast
    obtain r due where r: "r \<in> set (orders s)" "or_id r = i" "or_person r = Some (act_person p)" "or_status r = Finalized"
        "active_request s i = None" "0 < or_total r - sum_allocations s i"
      using own_targetsD[OF ok ts] by (cases ts) auto
    have "adjusted s i = 0" using ledger_okD(6)[OF ok row_core[OF r(1)]] r(2,4) by (simp add: order_balanced_def)
    then show "i \<in> set (own_payable_ids s (act_person p))" using r by (auto simp: own_payable_ids_def adjusted_def)
  next
    assume "i \<in> set (own_payable_ids s (act_person p))"
    then obtain r where r: "r \<in> set (orders s)" "or_id r = i" "or_person r = Some (act_person p)" "or_status r = Finalized"
        "active_request s i = None" "0 < or_total r - adjusted s i - sum_allocations s i"
      by (auto simp: own_payable_ids_def adjusted_def)
    have at: "row_at or_id i (orders s) = Some r" using row_at_key[OF dist r(1)] r(2) by simp
    then obtain v where v: "load_order s i = Inr v" "ov_order v = r"
      by (auto simp: load_order_def lock_order_def Let_def)
    note l = load_finalized[OF ok v(1)]
    have "0 < payable_balance v"
      using l r v(2) by (simp add: payable_balance_def cents_money)
    then show "\<exists>ts. own_targets p s [i] = Inr ts" using at r(3) v(1) by simp
  qed
qed

lemma payable_list_exact_witness: "[] \<in> set (own_payable_ids shop3 (act_person ada))"
  using payable_list_exact[OF shop3_history shop_ids, of "[]" ada] rest_targets by blast

section \<open>The ledger over time\<close>

text \<open>
  C9: The ledger is append-only. Whatever happens after a reachable state, its payments, allocations, adjustments,
  customer snapshots, request events, operation keys and audit entries are still there, unchanged and in their
  order; and an order that has left the draft keeps its whole row but for its version, and its status changes at
  most from finalized to reversed.
\<close>

theorem ledger_only_grows:
  assumes "order_history ids s" "inj ids" "order_later ids s s'"
  shows "prefix (ledger_payments s) (ledger_payments s') \<and> prefix (allocations s) (allocations s') \<and>
         prefix (adjustments s) (adjustments s') \<and> prefix (snapshots s) (snapshots s') \<and>
         prefix (request_events s) (request_events s') \<and> prefix (operations s) (operations s') \<and>
         prefix (ledger_audit s) (ledger_audit s') \<and>
         (\<forall>r\<in>set (orders s). \<exists>r'\<in>set (orders s'). or_id r' = or_id r \<and> or_version r \<le> or_version r' \<and>
            (or_status r = Draft \<or>
             r' = r\<lparr>or_status := or_status r', or_version := or_version r'\<rparr> \<and>
             (or_status r' = or_status r \<or> or_status r = Finalized \<and> or_status r' = Reversed)))"
proof -
  have g: "grows s s'" using later_grows[OF assms(3,1,2)] by simp
  have "\<exists>r'\<in>set (orders s'). or_id r' = or_id r \<and> or_version r \<le> or_version r' \<and>
      (or_status r = Draft \<or> r' = r\<lparr>or_status := or_status r', or_version := or_version r'\<rparr> \<and>
       (or_status r' = or_status r \<or> or_status r = Finalized \<and> or_status r' = Reversed))" if "r \<in> set (orders s)" for r
    using rows_live_row[of "orders s" "orders s'" r] g that unfolding grows_def extends_def life_def by auto
  then show ?thesis using g by (simp add: grows_def extends_def)
qed

lemma shop4_later: "order_later (oe_id shop) shop3 shop4"
  by (rule later_step[OF later_now refl]) (use shop4_request step_create_request in blast)

lemma ledger_only_grows_witness: "prefix (ledger_payments shop3) (ledger_payments shop4)"
  using ledger_only_grows[OF shop3_history shop_ids shop4_later] by blast

text \<open>
  C8: The payments and allocations implement the abstract receipt book: every operation moves every receipt along
  the steps of the book (received for an order, carried to another order in full, returned for good), and what the
  ledger says is paid of an order is what the book's receipts on it add up to.
\<close>

theorem ledger_refines_receipt_book:
  assumes "order_history ids s" "inj ids" "oe_id env = ids" "order_step env s s'"
  shows "receipt_move\<^sup>*\<^sup>* (receipt_of s p) (receipt_of s' p) \<and>
         sum_allocations s i = (\<Sum>x\<leftarrow>ledger_payments s. paying_for (receipt_of s (pm_id x)) i)"
proof -
  have ok: "order_books env s" by (rule history_books[OF assms(1-3)])
  have inj: "inj (oe_id env)" using assms(2,3) by simp
  have ok': "order_books env s'" by (rule order_step_books[OF assms(4) ok inj])
  have "grows s s'" by (rule order_step_grows[OF assms(4) ok inj])
  from grown_receipt_moves[OF this order_booksD(1)[OF ok] order_booksD(1)[OF ok']]
  show ?thesis using paid_by_receipts[OF order_booksD(1)[OF ok]] by blast
qed

lemma ledger_refines_receipt_book_witness:
  "receipt_move\<^sup>*\<^sup>* (receipt_of shop3 ''xx'') (receipt_of shop4 ''xx'') \<and> receipt_of shop3 ''xx'' = Paying [] 1"
proof -
  obtain q where "create_request shop ada [] invoice_wish shop3 = Inr (shop4, q)" using shop4_request by blast
  then have "receipt_move\<^sup>*\<^sup>* (receipt_of shop3 ''xx'') (receipt_of shop4 ''xx'')"
    using ledger_refines_receipt_book[OF shop3_history shop_ids refl step_create_request] by blast
  moreover have "receipt_of shop3 ''xx'' = Paying [] 1"
    by (simp add: receipt_of_def reversal_exists_def allocated_order_def allocated_to_def shop3_def)
  ultimately show ?thesis by simp
qed

section \<open>Retries\<close>

text \<open>
  C13: A retry is harmless, at any later time. Repeating an order command, a payment or an invoice request under the
  same operation key with the same input changes nothing, whatever happened in between, and shows the order or the
  request of the first run.
\<close>

theorem retries_change_nothing:
  assumes "order_history ids s" "inj ids" "oe_id env = ids"
  shows "(order_command env p i input a s = Inr (s', v) \<and> order_later ids s' t \<longrightarrow>
            (\<exists>w. order_command env p i input a t = Inr (t, w) \<and> or_id (ov_order w) = or_id (ov_order v))) \<and>
         (record_order_payment env p i pay s = Inr (s', v) \<and> order_later ids s' t \<longrightarrow>
            (\<exists>w. record_order_payment env p i pay t = Inr (t, w) \<and> or_id (ov_order w) = or_id (ov_order v))) \<and>
         (create_request env p i create s = Inr (s', q) \<and> order_later ids s' t \<and> ci_key create \<notin> op_key ` set (operations s) \<longrightarrow>
            (\<exists>w. create_request env p i create t = Inr (t, w) \<and> rq_id (rv_request w) = rq_id (rv_request q)))"
proof -
  have ok: "order_books env s" by (rule history_books[OF assms])
  have inj: "inj (oe_id env)" using assms(2,3) by simp
  have later: "grows s' t" if "order_step env s s'" "order_later ids s' t" for s' t
    using later_grows[OF that(2) history_step[OF assms(1,3) that(1)] assms(2)] by simp
  have "\<exists>w. order_command env p i input a t = Inr (t, w) \<and> or_id (ov_order w) = or_id (ov_order v)"
    if run: "order_command env p i input a s = Inr (s', v)" and t: "order_later ids s' t"
  proof -
    have perms: "order_command env p i input a x =
        once (oc_key input) (''order.'' @ action_text a) (print_command env (act_account p) (''order.'' @ action_text a) i input) p
          (expired ''Operation result is unavailable'') (run_command env p i input a) x" for x
      using run by (auto simp: order_command_def and_then_Inr_iff Let_def require_def ensure_def)
    have ext: "run_command env p i input a s = Inr (j, s1) \<Longrightarrow> operations s1 = operations s" for j s1
      using run_command_extends[OF _ order_booksD(1)[OF ok] inj] by (auto simp: extends_def)
    show ?thesis
      using once_retry[OF run[unfolded perms] ext later[OF step_command[OF run] t]] by (simp add: perms)
  qed
  moreover have "\<exists>w. record_order_payment env p i pay t = Inr (t, w) \<and> or_id (ov_order w) = or_id (ov_order v)"
    if run: "record_order_payment env p i pay s = Inr (s', v)" and t: "order_later ids s' t"
  proof -
    let ?f = "\<lambda>s. and_then (lock_order s i) (\<lambda>r. and_then (check_version r (rp_version pay)) (\<lambda>_.
            and_then (receipt env p r (rp_key pay) (rp_payment pay) s) (\<lambda>s1. Inr (i, s1))))"
    have perms: "record_order_payment env p i pay x =
        once (rp_key pay) ''payment.record'' (print_payment env (act_account p) ''payment.record'' i pay) p
          (expired ''Operation source is unavailable'') ?f x" for x
      using run by (auto simp: record_order_payment_def and_then_Inr_iff require_def)
    have ext: "?f s = Inr (j, s1) \<Longrightarrow> operations s1 = operations s" for j s1
      by (auto simp: and_then_Inr_iff extends_def dest: receipt_extends)
    show ?thesis
      using once_retry[OF run[unfolded perms] ext later[OF step_payment[OF run] t]] by (simp add: perms)
  qed
  moreover have "\<exists>w. create_request env p i create t = Inr (t, w) \<and> rq_id (rv_request w) = rq_id (rv_request q)"
    if run: "create_request env p i create s = Inr (s', q)" and t: "order_later ids s' t"
      and fresh: "ci_key create \<notin> op_key ` set (operations s)"
  proof -
    have perms: "create_request env p i create x =
        once_request (ci_key create) ''request.create'' (print_create env (act_account p) ''request.create'' i create) p
          (run_create env p i create) x" for x
      using run by (auto simp: create_request_def and_then_Inr_iff require_def)
    have ext: "run_create env p i create s = Inr (j, s1) \<Longrightarrow> operations s1 = operations s" for j s1
      by (auto simp: extends_def dest: run_create_extends)
    show ?thesis
      using once_request_retry[OF run[unfolded perms] ext later[OF step_create_request[OF run] t] fresh] by (simp add: perms)
  qed
  ultimately show ?thesis by blast
qed

lemma retries_change_nothing_witness: "\<exists>w. order_command shop ada [] checkout Checkout_Order shop4 = Inr (shop4, w)"
proof -
  have before: "order_history (oe_id shop) shop2"
    by (rule history_step[OF history_step[OF history_start refl] refl step_item[OF shop2_item]])
      (use shop1_drafted step_draft in blast)
  obtain v where "order_command shop ada [] checkout Checkout_Order shop2 = Inr (shop3, v)" using shop3_checkout by blast
  then show ?thesis using retries_change_nothing[OF before shop_ids refl] shop4_later by blast
qed

end
