(* ===== verification/Shop_Properties.thy ===== *)
theory Shop_Properties
  imports Order_Stock Order_Properties Stock_Example
begin

text \<open>
  The properties of the composed system: the books of the orders and the balances of the inventory hold together, and
  an order that is finalized and reversed gives back exactly what it took.
\<close>

section \<open>An order of an article\<close>

text \<open>Ada orders two grams of the filament that the stock holds three grams of.\<close>

definition counter :: "stock order_env" where
  "counter = \<lparr>oe_now = 0, oe_id = (\<lambda>n. if n = 1 then ''item'' else replicate n (CHR ''x'')), charge_source = (\<lambda>_ _ _. Inl not_found),
     sale_source = (\<lambda>_ _ _ _ _. Inr \<lparr>sa_id = ''x'', sa_name = ''PLA'', sa_unit = ''g'', sa_count_label = None, sa_active = True,
        sa_group = [], sa_price = Some ''0.02''\<rparr>),
     sell_from_stock = (\<lambda>m _ _. Inr m), restock_sale = (\<lambda>m _ _. Inr m),
     payable_jobs = (\<lambda>_ _ _. []), oe_person = (\<lambda>i. if i = ''ada'' then Some ''Ada'' else None), oe_organization = (\<lambda>_. None),
     print_command = (\<lambda>a k i _. a @ k @ i), print_payment = (\<lambda>a k i _. a @ k @ i), print_reversal = (\<lambda>a k i _. a @ k @ i),
     print_create = (\<lambda>a k i _. a @ k @ i), print_request = (\<lambda>a k i _. a @ k @ i), print_own = (\<lambda>a k _. a @ k)\<rparr>"

definition two_grams :: item_input where
  "two_grams = \<lparr>ii_kind = ''inventory_item'', ii_description = [], ii_quantity = ''2'', ii_unit = [], ii_unit_price = [],
     ii_job = [], ii_material = ''x'', ii_job_version = 0, ii_version = 1\<rparr>"

definition desk1 :: "'m \<Rightarrow> 'm ledger" where
  "desk1 m = \<lparr>orders =
    [\<lparr>or_id = [], or_reference = ''O-1970-000001'', or_status = Draft,
        or_customer_kind = ''person'', or_person = Some ''ada'',
        or_organization = None, or_fulfillment = ''immediate'',
        or_total = 0, or_replaces = None, or_replaces_reference = None,
        or_version = 1\<rparr>],
    items = [], claims = [], ledger_payments = [], allocations = [],
    adjustments = [], adjustment_items = [], requests = [],
    request_events = [], policies = [], operations = [], snapshots = [],
    order_seq = 1, payment_seq = 0, adjustment_seq = 0, request_seq = 0,
    drawn = 1,
    ledger_audit =
      [\<lparr>aud_account = ''account'', aud_action = ''order.created'',
          aud_resource = ''order'', aud_id = [],
          aud_fields = [''customer'', ''fulfillmentMode'']\<rparr>],
    logbook = m\<rparr>"

definition desk2 :: "'m \<Rightarrow> 'm ledger" where
  "desk2 m = \<lparr>orders =
    [\<lparr>or_id = [], or_reference = ''O-1970-000001'', or_status = Draft,
        or_customer_kind = ''person'', or_person = Some ''ada'',
        or_organization = None, or_fulfillment = ''immediate'',
        or_total = 0, or_replaces = None, or_replaces_reference = None,
        or_version = 2\<rparr>],
    items =
      [\<lparr>it_id = ''item'', it_order = [], it_position = 1,
          it_kind = ''inventory_item'', it_description = ''PLA'',
          it_quantity = 2000000, it_unit = ''g'', it_unit_price = 20000,
          it_amount = 4, it_job = None, it_job_version = None,
          it_material = Some ''x'', it_removed = False\<rparr>],
    claims = [], ledger_payments = [], allocations = [], adjustments = [],
    adjustment_items = [], requests = [], request_events = [],
    policies = [], operations = [], snapshots = [], order_seq = 1,
    payment_seq = 0, adjustment_seq = 0, request_seq = 0, drawn = 2,
    ledger_audit =
      [\<lparr>aud_account = ''account'', aud_action = ''order.created'',
          aud_resource = ''order'', aud_id = [],
          aud_fields = [''customer'', ''fulfillmentMode'']\<rparr>,
       \<lparr>aud_account = ''account'', aud_action = ''order.item_added'',
          aud_resource = ''order'', aud_id = [], aud_fields = [''items'']\<rparr>],
    logbook = m\<rparr>"

definition desk3 :: "'m \<Rightarrow> 'm ledger" where
  "desk3 m = \<lparr>orders =
    [\<lparr>or_id = [], or_reference = ''O-1970-000001'', or_status = Finalized,
        or_customer_kind = ''person'', or_person = Some ''ada'',
        or_organization = None, or_fulfillment = ''immediate'',
        or_total = 4, or_replaces = None, or_replaces_reference = None,
        or_version = 3\<rparr>],
    items =
      [\<lparr>it_id = ''item'', it_order = [], it_position = 1,
          it_kind = ''inventory_item'', it_description = ''PLA'',
          it_quantity = 2000000, it_unit = ''g'', it_unit_price = 20000,
          it_amount = 4, it_job = None, it_job_version = None,
          it_material = Some ''x'', it_removed = False\<rparr>],
    claims = [], ledger_payments = [], allocations = [], adjustments = [],
    adjustment_items = [], requests = [], request_events = [],
    policies = [], operations = [],
    snapshots = [\<lparr>sn_order = [], sn_name = ''Ada'', sn_kind = None\<rparr>],
    order_seq = 1, payment_seq = 0, adjustment_seq = 0, request_seq = 0,
    drawn = 2,
    ledger_audit =
      [\<lparr>aud_account = ''account'', aud_action = ''order.created'',
          aud_resource = ''order'', aud_id = [],
          aud_fields = [''customer'', ''fulfillmentMode'']\<rparr>,
       \<lparr>aud_account = ''account'', aud_action = ''order.item_added'',
          aud_resource = ''order'', aud_id = [], aud_fields = [''items'']\<rparr>,
       \<lparr>aud_account = ''account'', aud_action = ''order.finalized'',
          aud_resource = ''order'', aud_id = [],
          aud_fields =
            [''status'', ''totalAmount'', ''customerSnapshot'']\<rparr>],
    logbook = m\<rparr>"

section \<open>Its steps\<close>

lemma desk1_step: "create_draft counter ada (Some (''person'', ''ada'')) ''immediate'' (empty_ledger m) = Inr (hd (orders (desk1 m)), desk1 m)"
  by code_simp

lemma desk2_step: "change_item counter ada [] [] two_grams Add_Item (desk1 m) = Inr (desk2 m)"
  by code_simp

lemma desk1_step': "create_draft (with_stock store counter) ada (Some (''person'', ''ada'')) ''immediate'' (empty_ledger m) = Inr (hd (orders (desk1 m)), desk1 m)"
  by code_simp

lemma desk2_step': "change_item (with_stock store counter) ada [] [] two_grams Add_Item (desk1 m) = Inr (desk2 m)"
  by code_simp

lemma desk3_step:
  "finalize (with_stock store counter) ada (hd (orders (desk2 stock2))) (desk2 stock2) = Inr (hd (orders (desk3 stock3)), desk3 stock3)"
proof -
  let ?f = "\<lparr>fin_count = 1, fin_total = 4, fin_sales = [(''x'', ''item'', 2000000)], fin_ledger = desk2 stock2\<rparr>"
  have "run_all (finalize_item (with_stock store counter) ada (hd (orders (desk2 stock2)))) (job_order (order_items (desk2 stock2) []))
      \<lparr>fin_count = 0, fin_total = 0, fin_sales = [], fin_ledger = desk2 stock2\<rparr> = Inr ?f"
    by (simp add: desk2_def order_items_def job_order_def finalize_item_def claim_item_def ensure_def)
  moreover have "or_id (hd (orders (desk2 stock2))) = []" by (simp add: desk2_def)
  moreover have "capture_customer (with_stock store counter) (hd (orders (desk2 stock2))) (desk2 stock2) =
      Inr ((desk2 stock2)\<lparr>snapshots := [\<lparr>sn_order = [], sn_name = ''Ada'', sn_kind = None\<rparr>]\<rparr>)"
    by (simp add: desk2_def capture_customer_def is_anonymous_def customer_reference_def validate_customer_def counter_def with_stock_def ensure_def)
  ultimately show ?thesis
    using stock3_step
    by (simp add: finalize_def require_def ada_def ensure_def with_stock_def require_draft_def desk2_def desk3_def is_anonymous_def
        transition_order_def update_order_def log_event_def audit_entry_def lock_order_def row_at_def Let_def)
qed


lemma tidy_start_any: "tidy no_stock s"
  by (simp add: tidy_def no_stock_def)

lemma desk2_tidy: "tidy_shop (oe_id counter) (se_id store) (desk2 stock2)"
proof -
  have "tidy_shop (oe_id counter) (se_id store) ((empty_ledger no_stock)\<lparr>logbook := stock1\<rparr>)"
    by (rule tidy_later[OF tidy_opens in_the_store]) (simp_all add: empty_ledger_def article_created[OF stock1_step] tidy_start_any)
  then have "tidy_shop (oe_id counter) (se_id store) (((empty_ledger no_stock)\<lparr>logbook := stock1\<rparr>)\<lparr>logbook := stock2\<rparr>)"
    by (rule tidy_later) (rule in_the_store, use stock2_step purchased in fastforce, simp add: tidy_def stock1_def)
  moreover have "((empty_ledger no_stock)\<lparr>logbook := stock1\<rparr>)\<lparr>logbook := stock2\<rparr> = empty_ledger stock2" by (simp add: empty_ledger_def)
  ultimately have "tidy_shop (oe_id counter) (se_id store) (empty_ledger stock2)" by simp
  then have "tidy_shop (oe_id counter) (se_id store) (desk1 stock2)"
    by (rule tidy_later[OF _ at_the_desk[OF op_draft[OF desk1_step'[of stock2]]]])
      (simp_all add: empty_ledger_def desk1_def tidy_def stock2_def)
  then show ?thesis
    by (rule tidy_later[OF _ at_the_desk[OF op_item[OF desk2_step'[of stock2]]]]) (simp_all add: desk1_def desk2_def tidy_def stock2_def)
qed

lemmas desk3_history_start = tidy_shop_history[OF desk2_tidy]

definition finalize_it :: command_input where
  "finalize_it = \<lparr>oc_key = ''k'', oc_version = 2, oc_reason = [], oc_replacement = [], oc_replacement_version = 0,
     oc_payments = [], oc_reversals = []\<rparr>"

lemma desk3_run: "run_command (with_stock store counter) ada [] finalize_it Finalize_Order (desk2 stock2) = Inr ([], desk3 stock3)"
proof -
  have row: "lock_order (desk2 stock2) [] = Inr (hd (orders (desk2 stock2)))" by (simp add: lock_order_def row_at_def desk2_def)
  have "or_replaces_reference (hd (orders (desk2 stock2))) = None" "or_version (hd (orders (desk2 stock2))) = 2"
    "or_id (hd (orders (desk2 stock2))) = []" by (simp_all add: desk2_def)
  moreover have "\<not> is_anonymous (hd (orders (desk3 stock3)))" by (simp add: desk3_def is_anonymous_def)
  ultimately show ?thesis
    using desk3_step by (simp add: run_command_def row check_version_def finalize_and_pay_def finalize_it_def ensure_def check_anonymous_def)
qed

text \<open>The order is finalized by its command.\<close>

lemma desk3_command:
  "\<exists>v. order_command (with_stock store counter) ada [] finalize_it Finalize_Order (desk2 stock2) =
     Inr (finish_operation ada ''k'' ''order.finalize'' ''accountorder.finalize'' [] (desk3 stock3), v)"
proof -
  let ?s = "finish_operation ada ''k'' ''order.finalize'' ''accountorder.finalize'' [] (desk3 stock3)"
  have print: "print_command (with_stock store counter) (act_account ada) ''order.finalize'' [] finalize_it = ''accountorder.finalize''"
    by (simp add: with_stock_def counter_def ada_def)
  have fresh: "begin_operation (desk2 stock2) ''k'' ''order.finalize'' ''accountorder.finalize'' = Inr None"
    by (simp add: begin_operation_def desk2_def row_at_def ensure_def)
  have lock: "lock_order ?s [] = Inr (hd (orders (desk3 stock3)))"
    by (simp add: lock_order_def row_at_def finish_operation_def desk3_def)
  have "order_command (with_stock store counter) ada [] finalize_it Finalize_Order (desk2 stock2) =
      once ''k'' ''order.finalize'' ''accountorder.finalize'' ada (expired ''Operation result is unavailable'')
        (run_command (with_stock store counter) ada [] finalize_it Finalize_Order) (desk2 stock2)"
    using print by (simp add: order_command_def action_text_def require_def ada_def finalize_it_def Let_def)
  then show ?thesis
    using once_fresh[where f = "run_command (with_stock store counter) ada [] finalize_it Finalize_Order"
        and again = "expired ''Operation result is unavailable''" and p = ada, OF fresh desk3_run] lock by simp
qed

lemma desk3_tidy:
  "tidy_shop (oe_id counter) (se_id store) (finish_operation ada ''k'' ''order.finalize'' ''accountorder.finalize'' [] (desk3 stock3))"
proof -
  obtain v where "order_command (with_stock store counter) ada [] finalize_it Finalize_Order (desk2 stock2) =
      Inr (finish_operation ada ''k'' ''order.finalize'' ''accountorder.finalize'' [] (desk3 stock3), v)"
    using desk3_command by blast
  from tidy_later[OF desk2_tidy at_the_desk[OF op_command[OF this]]] show ?thesis
    by (simp add: desk2_def desk3_def finish_operation_def tidy_def stock2_def stock3_def)
qed

lemma inj_counter: "inj (oe_id counter)"
proof (rule injI)
  fix m n assume "oe_id counter m = oe_id counter n"
  then have e: "(if m = 1 then ''item'' else replicate m (CHR ''x'')) = (if n = 1 then ''item'' else replicate n (CHR ''x''))"
    by (simp add: counter_def)
  have "replicate k (CHR ''x'') \<noteq> ''item''" for k by (cases k) simp_all
  then show "m = n" using e arg_cong[OF e, of length] by (auto split: if_splits)
qed

section \<open>The properties\<close>

text \<open>
  C3: When the orders and the inventory work on one database, in every state that their operations reach in any order,
  every order adds up and every receipt is whole, no article has a negative quantity, value or average cost, no spool
  holds less than nothing, and the live entries of the ledger account for no more than the balance. When on the way no
  ledger entry was deleted or restored while one of its spools was retired (\<open>tidy_shop\<close>), the spools in use hold no
  more than the article has. The code does not check that condition; C23 shows what happens without it.
\<close>

theorem shop_always_sound:
  assumes "shop_history oids sids s" "inj oids" "inj sids"
  shows "(\<forall>r\<in>set (orders s). order_adds_up s r) \<and>
    (\<forall>p\<in>set (ledger_payments s). pm_entry p = ''receipt'' \<longrightarrow> receipt_whole s p) \<and>
    (\<forall>a\<in>set (articles (logbook s)). 0 \<le> ar_quantity a \<and> 0 \<le> ar_value a \<and> 0 \<le> ar_average a \<and>
       booked_quantity (stock_entries (logbook s)) (ar_id a) \<le> ar_quantity a \<and>
       booked_value (stock_entries (logbook s)) (ar_id a) \<le> ar_value a) \<and>
    (\<forall>x\<in>set (spools (logbook s)). 0 \<le> spool_remaining (logbook s) (sp_id x)) \<and>
    (tidy_shop oids sids s \<longrightarrow> (\<forall>a\<in>set (articles (logbook s)). allocated_quantity (logbook s) (ar_id a) \<le> ar_quantity a))"
proof -
  obtain env where ok: "ledger_ok env {} {} s"
    using reached_books[OF shop_orders[OF assms(1)] assms(2)] by (auto simp: order_books_def)
  note stock = shop_stock[OF assms(1,3)]
  have "order_adds_up s r" if "r \<in> set (orders s)" for r
    by (rule order_balanced_row[OF ledger_okD(6)[OF ok row_core[OF that]]])
  moreover have "receipt_whole s p" if "p \<in> set (ledger_payments s)" "pm_entry p = ''receipt''" for p
    using ledger_okD(7)[OF ok that] by (simp add: receipt_balanced_def receipt_whole_def)
  moreover have "0 \<le> spool_remaining (logbook s) (sp_id x)" if "x \<in> set (spools (logbook s))" for x
    using stock_okD(3)[OF stock that] by (simp add: spool_ok_def spool_remaining_rem)
  moreover have "allocated_quantity (logbook s) (ar_id a) \<le> ar_quantity a" if "tidy_shop oids sids s" "a \<in> set (articles (logbook s))" for a
    using stock_okD(2)[OF tidy_shop_stock[OF that(1) assms(3)] that(2)] by (simp add: article_ok_def allocated_alloc)
  ultimately show ?thesis using stock_okD(2)[OF stock] by (simp add: article_ok_def)
qed

lemma shop_always_sound_witness:
  "order_adds_up (finish_operation ada ''k'' ''order.finalize'' ''accountorder.finalize'' [] (desk3 stock3)) (hd (orders (desk3 stock3))) \<and>
    0 \<le> ar_quantity (hd (articles stock3)) \<and> allocated_quantity stock3 (ar_id (hd (articles stock3))) \<le> ar_quantity (hd (articles stock3))"
proof -
  have "hd (orders (desk3 stock3)) \<in> set (orders (finish_operation ada ''k'' ''order.finalize'' ''accountorder.finalize'' [] (desk3 stock3)))"
    "logbook (finish_operation ada ''k'' ''order.finalize'' ''accountorder.finalize'' [] (desk3 stock3)) = stock3"
    "hd (articles stock3) \<in> set (articles stock3)"
    by (simp_all add: finish_operation_def desk3_def stock3_def)
  then show ?thesis
    using shop_always_sound[OF tidy_shop_history[OF desk3_tidy] inj_counter inj_store] desk3_tidy by metis
qed

text \<open>
  C10: Finalizing an order takes exactly the quantities of its articles from the stock, and reversing it later gives
  back every quantity and every cent of inventory value that it took, whatever the items are and in whatever order
  the two operations go through them. (The order was never sold before, and the inventory did not change in between.)
\<close>

theorem order_takes_and_returns_stock:
  assumes "shop_history oids (se_id store) s" "inj (se_id store)"
    and "finalize (with_stock store env) p r s = Inr (r1, s1)"
    and "\<forall>x\<in>set (order_items s (or_id r)). \<not> sale_reversed (logbook s) (it_id x)"
    and "reverse_order (with_stock store' env') q r2 text s1 = Inr s2" "or_id r2 = or_id r" "se_id store' = se_id store"
  shows "quantity_of (logbook s1) k =
      quantity_of (logbook s) k - (\<Sum>x\<leftarrow>stock_items (order_items s (or_id r)). if it_material x = Some k then it_quantity x else 0) \<and>
    quantity_of (logbook s2) k = quantity_of (logbook s) k \<and> value_of (logbook s2) k = value_of (logbook s) k"
proof -
  let ?xs = "order_items s (or_id r)"
  let ?sales = "map item_sale (stock_items (job_order ?xs))" and ?js = "map it_id (sold_order (order_items s1 (or_id r2)))"
  note sells = finalize_sells[OF assms(3)] and ok = shop_stock[OF assms(1,2)]
  have "quantity_of (logbook s1) k =
      quantity_of (logbook s) k - (\<Sum>x\<leftarrow>stock_items ?xs. if it_material x = Some k then it_quantity x else 0)"
    using sell_from_takes[OF sells(1) ok assms(2), of k] item_sales_sum[OF sells(3)] by simp
  moreover have "\<exists>m. each (restock_order_sale store' q) ?js (logbook s1) = Inr m \<and>
      (\<forall>i. quantity_of m i = quantity_of (logbook s) i \<and> value_of m i = value_of (logbook s) i)"
  proof -
    have "\<forall>j\<in>set (sold_items ?sales). \<not> sale_reversed (logbook s) j"
      using assms(4) by (auto simp: item_sale_def stock_items_def dest: mset_eq_setD[OF mset_job_order, THEN equalityD1, THEN subsetD])
    moreover have "mset ?js = mset (sold_items ?sales)"
      using mset_sold_order mset_item_sales by (simp only: sells(2) assms(6))
    ultimately show ?thesis using sale_taken_back[OF sells(1) ok assms(2) _ _ assms(7), of ?js q] by blast
  qed
  ultimately show ?thesis using reverse_restocks[OF assms(5)] by auto
qed

lemma order_takes_and_returns_stock_witness:
  "\<exists>s2. reverse_order (with_stock store counter) ada (hd (orders (desk3 stock3))) ''wrong'' (desk3 stock3) = Inr s2 \<and>
     quantity_of stock3 ''x'' = 1000000 \<and> quantity_of (logbook s2) ''x'' = 3000000 \<and> value_of (logbook s2) ''x'' = 20000"
proof -
  have items: "order_items (desk2 stock2) [] = items (desk2 stock2)" "order_items (desk3 stock3) [] = items (desk2 stock2)"
    by (simp_all add: order_items_def desk2_def desk3_def)
  have new: "\<forall>x\<in>set (order_items (desk2 stock2) (or_id (hd (orders (desk2 stock2))))). \<not> sale_reversed (logbook (desk2 stock2)) (it_id x)"
    by (simp add: order_items_def desk2_def sale_reversed_def stock2_def)
  have "inj (se_id store) \<and> stock_ok False (se_id store) stock2" using shop_stock[OF desk3_history_start inj_store] inj_store by (simp add: desk2_def)
  then obtain m where "each (restock_order_sale store ada) [''item''] stock3 = Inr m"
    using sale_taken_back[OF stock3_step, where js = "[''item'']" and env' = store and q = ada] new by (auto simp: desk2_def order_items_def)
  then have m: "restock_order_sale store ada ''item'' stock3 = Inr m" by (simp add: and_then_def split: sum.splits)
  have "run_all (restock_item (with_stock store counter) ada) (sold_order (order_items (desk3 stock3) []))
      (insert_adjustment (with_stock store counter) (hd (orders (desk3 stock3))) ''wrong'' (desk3 stock3)) =
      Inr ((insert_adjustment (with_stock store counter) (hd (orders (desk3 stock3))) ''wrong'' (desk3 stock3))\<lparr>logbook := m\<rparr>)"
    using m unfolding items by (simp add: sold_order_def desk2_def restock_item_stock Let_def desk3_def and_then_def)
  moreover have "trim_space ''wrong'' = ''wrong''" by code_simp
  moreover have row: "or_id (hd (orders (desk3 stock3))) = []" "or_status (hd (orders (desk3 stock3))) = Finalized"
    "sum_allocations (desk3 stock3) [] = 0" "latest_request (desk3 stock3) [] = None"
    by (simp_all add: desk3_def sum_allocations_def latest_request_def)
  moreover have "orders (insert_adjustment (with_stock store counter) (hd (orders (desk3 stock3))) ''wrong'' (desk3 stock3)) = orders (desk3 stock3)"
    by (simp add: insert_adjustment_def draw_id_def Let_def adjust_item_def row(1) items desk2_def)
  then have "\<exists>t. transition_order [] Reversed 4 (release_order_claims [] ((insert_adjustment (with_stock store counter)
      (hd (orders (desk3 stock3))) ''wrong'' (desk3 stock3))\<lparr>logbook := m\<rparr>)) = Inr t"
    by (simp add: transition_order_def release_order_claims_def row_at_def desk3_def ensure_def Let_def)
  moreover have "or_total (hd (orders (desk3 stock3))) = 4" by (simp add: desk3_def)
  ultimately obtain s2 where s2: "reverse_order (with_stock store counter) ada (hd (orders (desk3 stock3))) ''wrong'' (desk3 stock3) = Inr s2"
    by (auto simp: reverse_order_def require_def ensure_def ada_def)
  have "quantity_of stock2 ''x'' = 3000000" "value_of stock2 ''x'' = 20000" "quantity_of stock3 ''x'' = 1000000"
    by (simp_all add: quantity_of_def value_of_def row_at_def stock2_def stock3_def)
  then show ?thesis
    using order_takes_and_returns_stock[OF desk3_history_start inj_store desk3_step new s2 _ refl, of "''x''"] s2
    by (simp add: desk2_def desk3_def)
qed

end
