(* ===== verification/Spec2Isabelle.thy ===== *)
theory Spec2Isabelle
  imports Rate_Limiter Authorization Survey_Conditions Bambu_Transitions Cash_Anchoring Stock_Properties Shop_Properties
begin

text \<open>
  Verification library of Makerspace Core (backend/internal, Go): the management application of a makerspace. One
  API process over one PostgreSQL database serves people, orders, surveys, events and a machine log book; a separate
  printer connector on the local network turns the status messages of printers into observations of print runs.

  \<^bold>\<open>Conventions.\<close> A Go operation is a function that returns an \<open>app_error\<close> or its result (\<open>app_error + 'a\<close>, \<open>Inl\<close> is
  the error with its HTTP status, code and message); what a database transaction changes is threaded through as a
  record of tables, and an error leaves it as it was. A table is the list of its rows in insertion order (\<open>Rows\<close>);
  the unique indexes and checks the code relies on are part of the INSERT or UPDATE they belong to. Instants are
  nanoseconds since the epoch, amounts are integers in the smallest unit of their column. Third-party code (digests,
  Unicode tables, JSON, random identifiers, URL decoding) and components that are not modelled are arguments: fields
  of an environment record, with what the code relies on as hypotheses of the theorems.

  \<^bold>\<open>Theories and code.\<close>
  \<^item> \<open>Prelude\<close>, \<open>Go_Strings\<close>, \<open>Rows\<close>: Go values, errors, strings, strconv, path; rows of tables.
  \<^item> \<open>Rate_Limiter\<close>: platform/ratelimit/ratelimit.go and events/limiter.go. Both limiters interpret one locale of
    sliding windows, which bounds what they admit in any window.
  \<^item> \<open>Authorization\<close>: authorization/permissions.go. Grants, their evaluation in a request, loading a principal from
    role rows, fresh sign-in windows and delegation; no chain of delegations gains a permission.
  \<^item> \<open>Survey_Conditions\<close>: surveys/conditions.go and the definition and submission parts of surveys/service.go.
  \<^item> \<open>Bambu_Document\<close>, \<open>Bambu_Feed\<close>, \<open>Bambu_Reducer\<close>, \<open>Bambu_Transitions\<close>: printerconnector/bambu_reducer.go,
    bambu_feed.go and what they use of bambu_storage.go and bambu_discovery.go: the merged status document, the feed
    timeline of a run, the reducer as a state machine, and what its observations say over a whole history.
  \<^item> \<open>Money\<close>: the amounts, permissions, references and audit entries of orders/service.go.
  \<^item> \<open>Cash_Register\<close>, \<open>Cash_Anchoring\<close>: orders/cash.go, cash_counts.go, cash_edits.go; every count stays in
    step with its correction and anchors the register, and no edit makes a later moment owe cash. A record dated back
    behind a count does not recalculate it: \<open>register_history\<close> allows such records and carries the watermark up to
    which counts may be stale; the last section shows what such a record does to a count, and that deleting it later can
    leave still later counts wrong.
  \<^item> \<open>Order_Ledger\<close> (orders/lifecycle.go, payments.go, items.go, service.go), \<open>Invoicing\<close> (orders/invoicing.go) and
    \<open>Own_Payment\<close> (orders/own.go, own_payment.go): the model of the orders. They share one state, the record \<open>ledger\<close>.
  \<^item> \<open>Order_Balance\<close>, \<open>Order_Commands\<close>, \<open>Invoice_Balance\<close>, \<open>Invoice_Commands\<close>: the invariant of the books and of the
    invoice requests, and that every operation keeps it. \<open>Order_History\<close> and \<open>Order_Reachable\<close> turn this into a
    statement on every reachable state, over the step relation \<open>order_step\<close>.
  \<^item> \<open>Own_Settlement\<close>: what the loop that settles a selection of orders pays, and that it ends. \<open>Order_Growth\<close>: the
    ledger is append-only, retries find their first run. \<open>Receipt_Book\<close>: an abstract book of receipts that payments
    and allocations refine. \<open>Order_Example\<close>: a concrete history, evaluated. \<open>Order_Properties\<close>: the properties.
  \<^item> \<open>Decimals\<close>: decimal.Decimal and the numeric columns: rounding half away from zero, quotients to 16 decimals.
  \<^item> \<open>Stock_Ledger\<close> (machinelogbook/inventory.go, order_sales.go, parts of service.go), \<open>Spools\<close> (spools.go,
    spool_lifecycle.go), \<open>Stock_Receipts\<close> (receipts.go) and \<open>Stock_Bin\<close> (articles_delete.go): the model of the
    inventory, over the record \<open>stock\<close> of articles with their balances, spools, identifiers, mounts and ledger entries.
  \<^item> \<open>Stock_Balance\<close>: the invariant \<open>stock_ok\<close> of balances, spools and references, and that one movement keeps it.
    \<open>Stock_History\<close> and \<open>Stock_Reachable\<close>: every operation keeps it, hence every state that \<open>stock_step\<close> reaches has it.
    Its strict form (spools in use hold no more than the article, retired ones nothing) holds in the histories in which
    no ledger entry is deleted or restored while one of its spools is retired (\<open>tidy_history\<close>); the code does not check
    this, and \<open>stock_step\<close> does not ask for it. \<open>Stock_Links\<close>: identifiers, mounts and the labels of spools in use.
    \<open>Stock_Facts\<close>: labels, the division of prices, receipts onto spools, sales and their reversal. \<open>Stock_Example\<close>: a
    concrete history, evaluated. \<open>Stock_Properties\<close>: the properties, and what happens without that condition.
  \<^item> \<open>Order_Stock\<close>, \<open>Shop_Properties\<close>: orders and inventory on one database. The locale \<open>selling_stock\<close> is what the orders
    rely on; the inventory interprets it, and \<open>shop_step\<close> interleaves the operations of both.

  \<^bold>\<open>How the parts interact.\<close> The orders call the machine log book to sell and restock articles and to price jobs (fields
  \<open>sell_from_stock\<close>, \<open>restock_sale\<close> and the job fields of \<open>order_env\<close>); the first two are \<open>sell_from\<close> and
  \<open>restock_order_sale\<close> of \<open>Stock_Ledger\<close>; cash receipts of the orders are what the cash register counts; every
  operation starts with the permission check that \<open>Authorization\<close> evaluates; surveys and sign-ups are guarded by the
  limiters.

  \<^bold>\<open>Bounds and fuel.\<close> No definition runs on fuel: loops are structural recursions or come with a termination proof. The
  settlement loop indexes a slice in Go; its model returns \<open>payment_panic\<close> for an index out of range and the theorem
  on it shows that this never happens. The search for a free spool label has a termination proof. Amounts of orders
  are integers, decimals of the inventory rationals, both unbounded; a statement that fails because a value does not
  fit its numeric column is not modelled.

  \<^bold>\<open>Not modelled.\<close> HTTP handlers and generated bindings (httpapi, openapi, the db packages except the statements that a
  modelled operation executes), the frontend and the kiosk applications, mail and PDF output, file storage, network
  protocols (MQTT, FTP, OIDC, SCIM, WebAuthn), and the planning components (open days, events, staffing, signage,
  trainings), whose rules are mostly single statements over tables. Of the machine log book: jobs, runs and prices, the
  catalog, the checks of a new or changed article (an argument of the receipt), the conversion of its unit, and lists.
  Transactions are taken to be serial, as the row locks and the register lock make them for the operations modelled
  here.
\<close>

end
